(* ===== verification/Prelude.thy ===== *)
theory Prelude
  imports Main "HOL-Library.Sublist"
begin

text \<open>
  What the component theories share: the text operations of the Python standard library that
  the code uses, the error monad, and the generic lemmas on lists and maps.

  \<^bold>\<open>Text.\<close>  A Python \<open>str\<close> is modelled by its UTF-8 encoding, a list of
  \<^typ>\<open>char\<close> (one byte each), and a \<open>bytes\<close> object that holds text by the same type (binary
  payloads, RTP and PCM, are lists of \<^typ>\<open>int\<close> in \<open>0..255\<close>), so that
  \<open>encode\<close> is the identity and strict \<open>decode\<close> is the test \<open>utf8_valid\<close>.
  Case mapping, white space and digits are those of ASCII, the alphabet of every protocol the
  code parses; the multi-byte letters of a display name pass through unchanged (Python would also
  map their case, strip Unicode white space and read Unicode digits).

  \<^bold>\<open>Errors.\<close>  A function that can raise returns \<open>exn + 'a\<close>, \<open>Inl\<close> for
  the exception.
\<close>

section \<open>Errors as values\<close>

text \<open>The exception classes the modelled code raises.  The text of a message is kept where it
  tells the raising branch apart; interpolated values are left out.\<close>

datatype exn =
    ValueError
  | SipError string
  | RtpError string
  | FormatError string
  | RosterError string
  | EndpointError string
  | SdpError string
  | RuntimeError string
  | H264RtpError string
  | RtcpError string
  | TypeError
  | IndexError

definition bindE :: "'e + 'a \<Rightarrow> ('a \<Rightarrow> 'e + 'b) \<Rightarrow> 'e + 'b" where
  "bindE m k = (case m of Inl e \<Rightarrow> Inl e | Inr x \<Rightarrow> k x)"

lemma bindE_simps [simp]:
  "bindE (Inl e) k = Inl e"
  "bindE (Inr x) k = k x"
  by (simp_all add: bindE_def)

lemma bindE_eq_Inr: "bindE m k = Inr y \<longleftrightarrow> (\<exists>x. m = Inr x \<and> k x = Inr y)"
  by (cases m) simp_all

lemma bindE_eq_Inl: "bindE m k = Inl e \<longleftrightarrow> m = Inl e \<or> (\<exists>x. m = Inr x \<and> k x = Inl e)"
  by (cases m) simp_all

text \<open>A loop that may raise, run over a list: the results of the iterations, or the first
  exception.\<close>

fun mapE :: "('a \<Rightarrow> 'e + 'b) \<Rightarrow> 'a list \<Rightarrow> 'e + 'b list" where
  "mapE f [] = Inr []"
| "mapE f (x # xs) = bindE (f x) (\<lambda>y. bindE (mapE f xs) (\<lambda>ys. Inr (y # ys)))"

fun concatE :: "('a \<Rightarrow> 'e + 'b list) \<Rightarrow> 'a list \<Rightarrow> 'e + 'b list" where
  "concatE f [] = Inr []"
| "concatE f (x # xs) = bindE (f x) (\<lambda>ys. bindE (concatE f xs) (\<lambda>zs. Inr (ys @ zs)))"

lemma mapE_Inr: "mapE f xs = Inr ys \<longleftrightarrow> list_all2 (\<lambda>x y. f x = Inr y) xs ys"
  by (induction xs arbitrary: ys) (auto simp: bindE_eq_Inr list_all2_Cons1)

lemma mapE_length: "mapE f xs = Inr ys \<Longrightarrow> length ys = length xs"
  by (auto simp: mapE_Inr dest: list_all2_lengthD)

section \<open>Characters and text\<close>

abbreviation ord :: "char \<Rightarrow> nat" where
  "ord \<equiv> of_char"

definition CR :: char where "CR = CHR 0x0D"
definition LF :: char where "LF = CHR 0x0A"

definition CRLF :: string where
  "CRLF = [CR, LF]"

text \<open>\<open>str.isspace\<close> on ASCII: tab to carriage return, the four separators, space.\<close>

definition is_space :: "char \<Rightarrow> bool" where
  "is_space c \<longleftrightarrow> (9 \<le> ord c \<and> ord c \<le> 13) \<or> (28 \<le> ord c \<and> ord c \<le> 32)"

definition is_digit :: "char \<Rightarrow> bool" where
  "is_digit c \<longleftrightarrow> 48 \<le> ord c \<and> ord c \<le> 57"

definition is_upper :: "char \<Rightarrow> bool" where
  "is_upper c \<longleftrightarrow> 65 \<le> ord c \<and> ord c \<le> 90"

definition is_lower :: "char \<Rightarrow> bool" where
  "is_lower c \<longleftrightarrow> 97 \<le> ord c \<and> ord c \<le> 122"

definition is_alnum :: "char \<Rightarrow> bool" where
  "is_alnum c \<longleftrightarrow> is_digit c \<or> is_upper c \<or> is_lower c"

definition lower_char :: "char \<Rightarrow> char" where
  "lower_char c = (if is_upper c then char_of (ord c + 32) else c)"

definition upper_char :: "char \<Rightarrow> char" where
  "upper_char c = (if is_lower c then char_of (ord c - 32) else c)"

definition lower :: "string \<Rightarrow> string" where
  "lower = map lower_char"

definition upper :: "string \<Rightarrow> string" where
  "upper = map upper_char"

definition lstrip :: "string \<Rightarrow> string" where
  "lstrip = dropWhile is_space"

definition rstrip :: "string \<Rightarrow> string" where
  "rstrip s = rev (dropWhile is_space (rev s))"

definition strip :: "string \<Rightarrow> string" where
  "strip s = rstrip (lstrip s)"

text \<open>\<open>str.strip(chars)\<close> with a given set of characters.\<close>

definition strip_chars :: "string \<Rightarrow> string \<Rightarrow> string" where
  "strip_chars cs s =
     rev (dropWhile (\<lambda>c. c \<in> set cs) (rev (dropWhile (\<lambda>c. c \<in> set cs) s)))"

definition startswith :: "string \<Rightarrow> string \<Rightarrow> bool" where
  "startswith s p \<longleftrightarrow> take (length p) s = p"

definition endswith :: "string \<Rightarrow> string \<Rightarrow> bool" where
  "endswith s p \<longleftrightarrow> startswith (rev s) (rev p)"

text \<open>\<open>before c s\<close> and \<open>after c s\<close> are the two parts of \<open>s.split(c, 1)\<close>
  for a text that holds \<open>c\<close>; \<open>rbefore\<close> and \<open>rafter\<close> those of
  \<open>s.rsplit(c, 1)\<close>.\<close>

definition before :: "char \<Rightarrow> string \<Rightarrow> string" where
  "before c s = takeWhile (\<lambda>x. x \<noteq> c) s"

definition after :: "char \<Rightarrow> string \<Rightarrow> string" where
  "after c s = tl (dropWhile (\<lambda>x. x \<noteq> c) s)"

definition rbefore :: "char \<Rightarrow> string \<Rightarrow> string" where
  "rbefore c s = rev (after c (rev s))"

definition rafter :: "char \<Rightarrow> string \<Rightarrow> string" where
  "rafter c s = rev (before c (rev s))"

definition contains :: "char \<Rightarrow> string \<Rightarrow> bool" where
  "contains c s \<longleftrightarrow> c \<in> set s"

text \<open>\<open>s.split(c)\<close> for a separator given by a test, and \<open>s.split()\<close>.\<close>

fun split_by :: "(char \<Rightarrow> bool) \<Rightarrow> string \<Rightarrow> string list" where
  "split_by P [] = [[]]"
| "split_by P (x # xs) =
     (if P x then [] # split_by P xs
      else (case split_by P xs of [] \<Rightarrow> [[x]] | y # ys \<Rightarrow> (x # y) # ys))"

definition split_on :: "char \<Rightarrow> string \<Rightarrow> string list" where
  "split_on c = split_by (\<lambda>x. x = c)"

definition words :: "string \<Rightarrow> string list" where
  "words s = filter (\<lambda>w. w \<noteq> []) (split_by is_space s)"

lemma split_on_single: "c \<notin> set x \<Longrightarrow> split_on c x = [x]"
  by (induction x) (auto simp: split_on_def)

lemma split_on_skip: "c \<notin> set x \<Longrightarrow> split_on c (x @ c # y) = x # split_on c y"
  by (induction x) (auto simp: split_on_def)

text \<open>\<open>sep.join(xs)\<close>.\<close>

fun join :: "string \<Rightarrow> string list \<Rightarrow> string" where
  "join sep [] = []"
| "join sep [x] = x"
| "join sep (x # y # ys) = x @ sep @ join sep (y # ys)"

text \<open>\<open>str or default\<close>: Python's \<open>or\<close> on text.\<close>

definition or_else :: "string \<Rightarrow> string \<Rightarrow> string" where
  "or_else s d = (if s = [] then d else s)"

text \<open>Lookup in a dictionary literal, kept as an association list in source order.\<close>

fun assoc :: "('k \<times> 'v) list \<Rightarrow> 'k \<Rightarrow> 'v option" where
  "assoc [] k = None"
| "assoc ((a, v) # xs) k = (if k = a then Some v else assoc xs k)"

lemma assoc_Some_in: "assoc xs k = Some v \<Longrightarrow> (k, v) \<in> set xs"
  by (induction xs k rule: assoc.induct) (auto split: if_splits)

lemma assoc_eq_map_of: "assoc xs k = map_of xs k"
  by (induction xs k rule: assoc.induct) auto

section \<open>Numbers as text\<close>

text \<open>\<open>int(s)\<close>: surrounding white space, an optional sign, decimal digits with single
  underscores between them, and at most 4300 digits (the interpreter's limit on conversions).
  \<open>None\<close> is the \<open>ValueError\<close>.\<close>

definition digit_val :: "char \<Rightarrow> nat" where
  "digit_val c = ord c - 48"

fun read_digits :: "nat \<Rightarrow> bool \<Rightarrow> string \<Rightarrow> nat option" where
  "read_digits acc d [] = (if d then Some acc else None)"
| "read_digits acc d (c # cs) =
     (if is_digit c then read_digits (acc * 10 + digit_val c) True cs
      else if c = CHR ''_'' \<and> d then read_digits acc False cs
      else None)"

definition read_nat :: "string \<Rightarrow> nat option" where
  "read_nat cs = (if 4300 < length (filter is_digit cs) then None else read_digits 0 False cs)"

definition py_int :: "string \<Rightarrow> int option" where
  "py_int s =
     (case strip s of
        [] \<Rightarrow> None
      | c # cs \<Rightarrow>
          if c = CHR ''-'' then map_option (\<lambda>n. - int n) (read_nat cs)
          else if c = CHR ''+'' then map_option int (read_nat cs)
          else map_option int (read_nat (c # cs)))"

text \<open>\<open>str(n)\<close>.\<close>

definition digit_char :: "nat \<Rightarrow> char" where
  "digit_char d = char_of (48 + d)"

fun dec :: "nat \<Rightarrow> string" where
  "dec n = (if n < 10 then [digit_char n] else dec (n div 10) @ [digit_char (n mod 10)])"

declare dec.simps [simp del]

definition dec_int :: "int \<Rightarrow> string" where
  "dec_int i = (if i < 0 then CHR ''-'' # dec (nat (- i)) else dec (nat i))"

lemma digit_char_props:
  assumes "d < 10"
  shows "is_digit (digit_char d)" and "digit_val (digit_char d) = d"
    and "\<not> is_space (digit_char d)"
  using assms by (simp_all add: is_digit_def digit_val_def digit_char_def is_space_def)

lemma dec_digits: "\<forall>c \<in> set (dec n). is_digit c"
proof (induction n rule: dec.induct)
  case (1 n)
  show ?case
    by (cases "n < 10") (use 1 in \<open>auto simp: dec.simps [of n] digit_char_props\<close>)
qed

lemma dec_nonempty [simp]: "dec n \<noteq> []"
  by (simp add: dec.simps [of n])

lemma is_digit_not_space: "is_digit c \<Longrightarrow> \<not> is_space c"
  by (simp add: is_digit_def is_space_def)

lemma read_digits_append:
  "\<forall>c \<in> set xs. is_digit c \<Longrightarrow>
   read_digits acc d (xs @ ys) =
     read_digits (foldl (\<lambda>a c. a * 10 + digit_val c) acc xs) (d \<or> xs \<noteq> []) ys"
  by (induction xs arbitrary: acc d) auto

lemma foldl_dec: "foldl (\<lambda>a c. a * 10 + digit_val c) 0 (dec n) = n"
proof (induction n rule: dec.induct)
  case (1 n)
  show ?case
    by (cases "n < 10") (use 1 in \<open>auto simp: dec.simps [of n] digit_char_props\<close>)
qed

lemma read_digits_dec: "read_digits 0 False (dec n) = Some n"
  using read_digits_append [OF dec_digits, of 0 False n "[]"] by (simp add: foldl_dec)

lemma length_dec_le: "n < 10 ^ Suc k \<Longrightarrow> length (dec n) \<le> Suc k"
proof (induction k arbitrary: n)
  case 0
  then show ?case by (simp add: dec.simps [of n])
next
  case (Suc k)
  then have "n div 10 < 10 ^ Suc k"
    by (simp add: less_mult_imp_div_less mult.commute)
  then have "length (dec (n div 10)) \<le> Suc k" by (rule Suc.IH)
  then show ?case by (simp add: dec.simps [of n])
qed

lemma strip_no_space: "\<forall>c \<in> set s. \<not> is_space c \<Longrightarrow> strip s = s"
proof -
  assume a: "\<forall>c \<in> set s. \<not> is_space c"
  then have "lstrip s = s"
    by (cases s) (auto simp: lstrip_def)
  moreover have "rstrip s = s"
    using a by (cases "rev s") (auto simp: rstrip_def)
  ultimately show ?thesis by (simp add: strip_def)
qed

lemma strip_dec [simp]: "strip (dec n) = dec n"
  by (rule strip_no_space) (use dec_digits is_digit_not_space in blast)

lemma py_int_dec:
  assumes "n < 10 ^ Suc k" and "k < 4300"
  shows "py_int (dec n) = Some (int n)"
proof -
  have len: "length (dec n) \<le> 4300"
    using length_dec_le [OF assms(1)] assms(2) by linarith
  have "filter is_digit (dec n) = dec n"
    by (simp add: filter_id_conv dec_digits)
  with len have r: "read_nat (dec n) = Some n"
    by (simp add: read_nat_def read_digits_dec)
  obtain c cs where c: "dec n = c # cs"
    by (cases "dec n") auto
  have "is_digit c"
    using dec_digits [of n] c by simp
  then have "c \<noteq> CHR ''-''" and "c \<noteq> CHR ''+''"
    by (auto simp: is_digit_def)
  moreover have "strip (c # cs) = c # cs"
    using strip_dec [of n] c by simp
  ultimately show ?thesis
    using r c by (simp add: py_int_def)
qed

lemma py_int_dec_small [simp]: "n < 10000000000 \<Longrightarrow> py_int (dec n) = Some (int n)"
  by (rule py_int_dec [of n 9]) simp_all

section \<open>UTF-8 and percent encoding\<close>

text \<open>Strict UTF-8 decoding succeeds exactly on these byte sequences.\<close>

definition cont :: "char \<Rightarrow> bool" where
  "cont c \<longleftrightarrow> 0x80 \<le> ord c \<and> ord c \<le> 0xBF"

fun utf8_valid :: "string \<Rightarrow> bool" where
  "utf8_valid [] = True"
| "utf8_valid (a # s) =
     (if ord a < 0x80 then utf8_valid s
      else if 0xC2 \<le> ord a \<and> ord a \<le> 0xDF then
        (case s of b # s' \<Rightarrow> cont b \<and> utf8_valid s' | _ \<Rightarrow> False)
      else if 0xE0 \<le> ord a \<and> ord a \<le> 0xEF then
        (case s of b # c # s' \<Rightarrow>
            cont b \<and> cont c \<and> (ord a = 0xE0 \<longrightarrow> 0xA0 \<le> ord b) \<and> (ord a = 0xED \<longrightarrow> ord b \<le> 0x9F)
            \<and> utf8_valid s'
         | _ \<Rightarrow> False)
      else if 0xF0 \<le> ord a \<and> ord a \<le> 0xF4 then
        (case s of b # c # d # s' \<Rightarrow>
            cont b \<and> cont c \<and> cont d \<and> (ord a = 0xF0 \<longrightarrow> 0x90 \<le> ord b) \<and>
            (ord a = 0xF4 \<longrightarrow> ord b \<le> 0x8F) \<and> utf8_valid s'
         | _ \<Rightarrow> False)
      else False)"

lemma utf8_valid_append: "utf8_valid s \<Longrightarrow> utf8_valid (s @ t) = utf8_valid t"
proof (induction s rule: utf8_valid.induct)
  case 1
  then show ?case by simp
next
  case (2 a s)
  then show ?case
    by (auto split: if_splits list.splits simp: Cons_eq_append_conv)
qed

lemma utf8_valid_ascii: "\<forall>c \<in> set s. ord c < 0x80 \<Longrightarrow> utf8_valid s"
  by (induction s) simp_all

text \<open>\<open>urllib.parse.quote(s, safe)\<close> and \<open>unquote(s, errors="strict")\<close>;
  \<open>None\<close> is the \<open>UnicodeDecodeError\<close>.\<close>

definition hex_digit :: "nat \<Rightarrow> char" where
  "hex_digit n = (if n < 10 then char_of (48 + n) else char_of (55 + n))"

definition hex_val :: "char \<Rightarrow> nat option" where
  "hex_val c =
     (if is_digit c then Some (ord c - 48)
      else if 65 \<le> ord c \<and> ord c \<le> 70 then Some (ord c - 55)
      else if 97 \<le> ord c \<and> ord c \<le> 102 then Some (ord c - 87)
      else None)"

definition quote_safe :: "string \<Rightarrow> char \<Rightarrow> bool" where
  "quote_safe safe c \<longleftrightarrow> is_alnum c \<or> c \<in> set ''_.-~'' \<or> (ord c < 0x80 \<and> c \<in> set safe)"

definition quote_char :: "string \<Rightarrow> char \<Rightarrow> string" where
  "quote_char safe c =
     (if quote_safe safe c then [c]
      else [CHR ''%'', hex_digit (ord c div 16), hex_digit (ord c mod 16)])"

definition quote :: "string \<Rightarrow> string \<Rightarrow> string" where
  "quote safe s = concat (map (quote_char safe) s)"

fun unquote_bytes :: "string \<Rightarrow> string" where
  "unquote_bytes [] = []"
| "unquote_bytes (c # s) =
     (if c = CHR ''%'' then
        (case s of
           a # b # s' \<Rightarrow>
             (case (hex_val a, hex_val b) of
                (Some x, Some y) \<Rightarrow> char_of (16 * x + y) # unquote_bytes s'
              | _ \<Rightarrow> c # unquote_bytes s)
         | _ \<Rightarrow> c # unquote_bytes s)
      else c # unquote_bytes s)"

definition unquote :: "string \<Rightarrow> string option" where
  "unquote s = (let b = unquote_bytes s in if utf8_valid b then Some b else None)"

lemma hex_digit_val: "n < 16 \<Longrightarrow> hex_val (hex_digit n) = Some n"
  by (auto simp: hex_digit_def hex_val_def is_digit_def)

lemma ord_less_256: "ord c < 256"
  using of_char_mod_256 [of c, where 'a = nat] by (metis mod_less_divisor zero_less_numeral)

lemma unquote_bytes_quote_char:
  "CHR ''%'' \<notin> set safe \<Longrightarrow> unquote_bytes (quote_char safe c @ s) = c # unquote_bytes s"
proof (cases "quote_safe safe c")
  case True
  moreover assume "CHR ''%'' \<notin> set safe"
  ultimately have "c \<noteq> CHR ''%''"
    by (auto simp: quote_safe_def is_alnum_def is_digit_def is_upper_def is_lower_def)
  with True show ?thesis by (simp add: quote_char_def)
next
  case False
  have "ord c div 16 < 16" "ord c mod 16 < 16"
    using ord_less_256 [of c] by (simp_all add: div_less_iff_less_mult)
  then have "hex_val (hex_digit (ord c div 16)) = Some (ord c div 16)"
    "hex_val (hex_digit (ord c mod 16)) = Some (ord c mod 16)"
    by (simp_all add: hex_digit_val)
  with False show ?thesis
    by (simp add: quote_char_def)
qed

lemma unquote_quote:
  assumes "CHR ''%'' \<notin> set safe" and "utf8_valid s"
  shows "unquote (quote safe s) = Some s"
proof -
  have "unquote_bytes (quote safe s) = s"
    by (induction s) (simp_all add: quote_def unquote_bytes_quote_char [OF assms(1)])
  with assms(2) show ?thesis
    by (simp add: unquote_def)
qed

text \<open>Splitting at the first occurrence of a text, and at every CRLF.\<close>

fun cut_at :: "string \<Rightarrow> string \<Rightarrow> (string \<times> string) option" where
  "cut_at pat [] = (if pat = [] then Some ([], []) else None)"
| "cut_at pat (c # s) =
     (if startswith (c # s) pat then Some ([], drop (length pat) (c # s))
      else map_option (\<lambda>(x, y). (c # x, y)) (cut_at pat s))"

fun push_first :: "char \<Rightarrow> string list \<Rightarrow> string list" where
  "push_first c [] = [[c]]"
| "push_first c (l # ls) = (c # l) # ls"

fun split_crlf :: "string \<Rightarrow> string list" where
  "split_crlf [] = [[]]"
| "split_crlf [c] = [[c]]"
| "split_crlf (c # d # s) =
     (if c = CR \<and> d = LF then [] # split_crlf s else push_first c (split_crlf (d # s)))"

section \<open>Normal forms of texts\<close>

lemma dropWhile_hd: "dropWhile P s = [] \<or> \<not> P (hd (dropWhile P s))"
  by (induction s) auto

lemma lstrip_rstrip_fixed: "lstrip s = s \<Longrightarrow> lstrip (rstrip s) = rstrip s"
proof -
  assume l: "lstrip s = s"
  have s: "s = rstrip s @ rev (takeWhile is_space (rev s))"
    unfolding rstrip_def by (metis rev_append rev_rev_ident takeWhile_dropWhile_id)
  show ?thesis
  proof (cases "rstrip s")
    case (Cons a t)
    then obtain t' where "s = a # t'" using s by (metis append_Cons)
    then have "\<not> is_space a"
      using l by (auto simp: lstrip_def split: if_splits)
        (metis dropWhile_eq_Cons_conv list.set_intros(1) set_dropWhileD dropWhile_hd list.sel(1) list.distinct(1))
    with Cons show ?thesis by (simp add: lstrip_def)
  qed (simp add: lstrip_def)
qed

lemma strip_strip [simp]: "strip (strip s) = strip s"
proof -
  have "lstrip (lstrip s) = lstrip s"
    by (simp add: lstrip_def)
  then have "lstrip (rstrip (lstrip s)) = rstrip (lstrip s)"
    by (rule lstrip_rstrip_fixed)
  then show ?thesis
    by (simp add: strip_def rstrip_def)
qed

lemma lower_char_space: "is_space (lower_char c) = is_space c"
  by (auto simp: lower_char_def is_upper_def is_space_def)

lemma lower_char_idem: "lower_char (lower_char c) = lower_char c"
  by (auto simp: lower_char_def is_upper_def)

lemma lower_lower [simp]: "lower (lower s) = lower s"
  by (simp add: lower_def lower_char_idem)

lemma lower_Nil_iff [simp]: "lower s = [] \<longleftrightarrow> s = []"
  by (simp add: lower_def)

lemma strip_lower: "strip (lower s) = lower (strip s)"
  by (simp add: strip_def lstrip_def rstrip_def lower_def dropWhile_map rev_map comp_def lower_char_space)

lemma hex_val_lower: "hex_val (lower_char c) = hex_val c"
  by (auto simp: hex_val_def lower_char_def is_upper_def is_digit_def)

section \<open>Tokens and lines\<close>

lemma strip_ends:
  assumes "s \<noteq> []" "\<not> is_space (hd s)" "\<not> is_space (last s)"
  shows "strip s = s"
proof -
  have "lstrip s = s"
    using assms by (cases s) (simp_all add: lstrip_def)
  moreover have "rstrip s = s"
    using assms by (cases s rule: rev_cases) (simp_all add: rstrip_def)
  ultimately show ?thesis by (simp add: strip_def)
qed

lemma startswith_Cons: "startswith (c # s) (p # ps) \<longleftrightarrow> c = p \<and> startswith s ps"
  by (simp add: startswith_def)

lemma startswith_append [simp]: "startswith (p @ s) p"
  by (simp add: startswith_def)

definition is_token :: "string \<Rightarrow> bool" where
  "is_token t \<longleftrightarrow> t \<noteq> [] \<and> (\<forall>c \<in> set t. \<not> is_space c)"

lemma split_by_plain: "\<forall>c \<in> set t. \<not> P c \<Longrightarrow> split_by P t = [t]"
  by (induction t) auto

lemma split_by_skip: "\<forall>c \<in> set t. \<not> P c \<Longrightarrow> P d \<Longrightarrow> split_by P (t @ d # s) = t # split_by P s"
  by (induction t) auto

lemma words_token: "is_token t \<Longrightarrow> words t = [t]"
  by (simp add: is_token_def words_def split_by_plain)

lemma words_cons: "is_token t \<Longrightarrow> words (t @ CHR '' '' # s) = t # words s"
  by (simp add: is_token_def words_def split_by_skip is_space_def)

lemma words_Nil [simp]: "words [] = []"
  by (simp add: words_def)

lemma words_join: "list_all is_token ts \<Longrightarrow> words (join '' '' ts) = ts"
  by (induction "'' ''" ts rule: join.induct) (simp_all add: words_token words_cons words_Nil)

lemma dec_int_token [simp]: "is_token (dec_int i)"
  using dec_digits is_digit_not_space by (auto simp: is_token_def dec_int_def is_space_def)

lemma strip_token: "is_token t \<Longrightarrow> strip t = t"
  by (simp add: is_token_def strip_no_space)

lemma set_unstripped: "set s \<subseteq> set (strip s) \<union> {c. is_space c}"
proof -
  have drop: "set xs \<subseteq> set (dropWhile is_space xs) \<union> {c. is_space c}" for xs
    by (induction xs) auto
  have "set s \<subseteq> set (lstrip s) \<union> {c. is_space c}"
    using drop [of s] by (simp add: lstrip_def)
  moreover have "set (lstrip s) \<subseteq> set (strip s) \<union> {c. is_space c}"
    using drop [of "rev (lstrip s)"] by (simp add: strip_def rstrip_def)
  ultimately show ?thesis by blast
qed

lemma split_on_join:
  "ps \<noteq> [] \<Longrightarrow> \<forall>p \<in> set ps. c \<notin> set p \<Longrightarrow> split_on c (join [c] ps) = ps"
  by (induction "[c]" ps rule: join.induct) (simp_all add: split_on_single split_on_skip)

end
