(* ===== verification/G711.thy ===== *)
theory G711
  imports Prelude "HOL-Library.Word"
begin

text \<open>
  \<open>custom_components/voip_stack/g711.py\<close>: the A-law and mu-law companding of telephone audio.

  Samples are Python integers (\<^typ>\<open>int\<close>), so the bit operations are those of \<^typ>\<open>int\<close>
  (arithmetic shifts, two's complement \<open>&\<close>, \<open>|\<close>, \<open>^\<close>, \<open>~\<close>), and a
  \<open>bytes\<close> object is a list of \<^typ>\<open>int\<close> in \<open>0..255\<close> here, as iterating over
  it gives.
\<close>

unbundle bit_operations_syntax

section \<open>Tables and helpers\<close>

definition BIAS :: int where "BIAS = 0x84"
definition CLIP :: int where "CLIP = 32635"

definition ULAW_SEG_END :: "int list" where
  "ULAW_SEG_END = [0xFF, 0x1FF, 0x3FF, 0x7FF, 0xFFF, 0x1FFF, 0x3FFF, 0x7FFF]"

definition ALAW_SEG_END :: "int list" where
  "ALAW_SEG_END = [0x1F, 0x3F, 0x7F, 0xFF, 0x1FF, 0x3FF, 0x7FF, 0xFFF]"

text \<open>\<open>_search\<close>: the index of the first segment end that is not below the value.\<close>

fun search :: "int \<Rightarrow> int list \<Rightarrow> nat" where
  "search v [] = 0"
| "search v (e # es) = (if v \<le> e then 0 else Suc (search v es))"

definition clip_s16 :: "int \<Rightarrow> int" where
  "clip_s16 v = max (-32768) (min 32767 v)"

section \<open>Decoding and encoding one sample\<close>

definition decode_alaw_byte :: "int \<Rightarrow> int" where
  "decode_alaw_byte value0 =
     (let value = value0 XOR 0x55;
          sample = push_bit 4 (value AND 0x0F);
          segment = drop_bit 4 (value AND 0x70);
          sample =
            (if segment = 0 then sample + 8
             else if segment = 1 then sample + 0x108
             else push_bit (nat (segment - 1)) (sample + 0x108))
      in clip_s16 (if value AND 0x80 \<noteq> 0 then sample else - sample))"

definition decode_ulaw_byte :: "int \<Rightarrow> int" where
  "decode_ulaw_byte value0 =
     (let value = (NOT value0) AND 0xFF;
          sample = push_bit 3 (value AND 0x0F) + BIAS;
          sample = push_bit (nat (drop_bit 4 (value AND 0x70))) sample
      in clip_s16 (if value AND 0x80 \<noteq> 0 then BIAS - sample else sample - BIAS))"

definition encode_alaw_sample :: "int \<Rightarrow> int" where
  "encode_alaw_sample sample0 =
     (let sample = drop_bit 3 sample0;
          mask = (if 0 \<le> sample then 0xD5 else 0x55);
          sample = (if 0 \<le> sample then sample else - sample - 1);
          segment = search sample ALAW_SEG_END
      in if 8 \<le> segment then 0x7F XOR mask
         else
           (let encoded = push_bit 4 (int segment);
                encoded =
                  (if segment < 2 then encoded OR (drop_bit 1 sample AND 0x0F)
                   else encoded OR (drop_bit segment sample AND 0x0F))
            in encoded XOR mask))"

definition encode_ulaw_sample :: "int \<Rightarrow> int" where
  "encode_ulaw_sample sample0 =
     (let mask = (if sample0 < 0 then 0x7F else 0xFF);
          sample = (if sample0 < 0 then BIAS - sample0 else BIAS + sample0);
          sample = (if CLIP < sample then CLIP else sample);
          segment = search sample ULAW_SEG_END
      in if 8 \<le> segment then 0x7F XOR mask
         else (push_bit 4 (int segment) OR (drop_bit (segment + 3) sample AND 0x0F)) XOR mask)"

section \<open>Frames\<close>

text \<open>\<open>_iter_s16le\<close>: two bytes a sample, little endian, two's complement; an odd length is
  the \<open>ValueError\<close> branch.\<close>

definition s16_of_bytes :: "int \<Rightarrow> int \<Rightarrow> int" where
  "s16_of_bytes lo hi = (let u = lo + 256 * hi in if u < 32768 then u else u - 65536)"

fun iter_s16le :: "int list \<Rightarrow> exn + int list" where
  "iter_s16le [] = Inr []"
| "iter_s16le [x] = Inl ValueError"
| "iter_s16le (lo # hi # rest) =
     bindE (iter_s16le rest) (\<lambda>xs. Inr (s16_of_bytes lo hi # xs))"

text \<open>\<open>_pack_s16le\<close>: \<open>int.to_bytes(2, "little", signed=True)\<close> raises
  \<open>OverflowError\<close> (here \<open>ValueError\<close>) for a sample outside the 16-bit range.\<close>

fun pack_s16le :: "int list \<Rightarrow> exn + int list" where
  "pack_s16le [] = Inr []"
| "pack_s16le (x # xs) =
     (if x < -32768 \<or> 32767 < x then Inl ValueError
      else bindE (pack_s16le xs)
        (\<lambda>bs. let u = x mod 65536 in Inr (u mod 256 # u div 256 # bs)))"

definition alaw_to_s16le :: "int list \<Rightarrow> exn + int list" where
  "alaw_to_s16le payload = pack_s16le (map decode_alaw_byte payload)"

definition ulaw_to_s16le :: "int list \<Rightarrow> exn + int list" where
  "ulaw_to_s16le payload = pack_s16le (map decode_ulaw_byte payload)"

definition s16le_to_alaw :: "int list \<Rightarrow> exn + int list" where
  "s16le_to_alaw pcm = bindE (iter_s16le pcm) (\<lambda>xs. Inr (map encode_alaw_sample xs))"

definition s16le_to_ulaw :: "int list \<Rightarrow> exn + int list" where
  "s16le_to_ulaw pcm = bindE (iter_s16le pcm) (\<lambda>xs. Inr (map encode_ulaw_sample xs))"

section \<open>The decoders as arithmetic\<close>

text \<open>The magnitude a code word \<open>16 * segment + quantum\<close> stands for.\<close>

definition alaw_mag :: "int \<Rightarrow> int" where
  "alaw_mag v =
     (if v div 16 = 0 then 16 * (v mod 16) + 8
      else (16 * (v mod 16) + 0x108) * 2 ^ nat (v div 16 - 1))"

definition ulaw_mag :: "int \<Rightarrow> int" where
  "ulaw_mag v = (8 * (v mod 16) + BIAS) * 2 ^ nat (v div 16)"

lemma on_codes: "list_all P [0..n] \<Longrightarrow> 0 \<le> v \<Longrightarrow> v \<le> n \<Longrightarrow> P v"
  by (simp add: list_all_iff)

lemma alaw_code_table:
  "list_all (\<lambda>v. decode_alaw_byte (v XOR 0xD5) = alaw_mag v \<and>
                 decode_alaw_byte (v XOR 0x55) = - alaw_mag v) [0..127]"
  by code_simp

lemma ulaw_code_table:
  "list_all (\<lambda>v. decode_ulaw_byte (v XOR 0xFF) = ulaw_mag v - BIAS \<and>
                 decode_ulaw_byte (v XOR 0x7F) = BIAS - ulaw_mag v) [0..127]"
  by code_simp

lemma alaw_roundtrip_table:
  "list_all (\<lambda>b. encode_alaw_sample (decode_alaw_byte b) = b \<and>
                 \<bar>decode_alaw_byte b\<bar> \<le> 32256) [0..255]"
  by code_simp

lemma ulaw_roundtrip_table:
  "list_all (\<lambda>b. encode_ulaw_sample (decode_ulaw_byte b) = (if b = 0x7F then 0xFF else b) \<and>
                 \<bar>decode_ulaw_byte b\<bar> \<le> 32124) [0..255]"
  by code_simp

lemma decode_alaw_bound: "0 \<le> b \<Longrightarrow> b \<le> 255 \<Longrightarrow> \<bar>decode_alaw_byte b\<bar> \<le> 32256"
  using on_codes [OF alaw_roundtrip_table] by blast

lemma decode_ulaw_bound: "0 \<le> b \<Longrightarrow> b \<le> 255 \<Longrightarrow> \<bar>decode_ulaw_byte b\<bar> \<le> 32124"
  using on_codes [OF ulaw_roundtrip_table] by blast

section \<open>The encoders as arithmetic\<close>

lemma and_15: "(x :: int) AND 15 = x mod 16"
proof -
  have "x AND mask 4 = take_bit 4 x"
    by (simp only: take_bit_eq_mask)
  then show ?thesis
    by (simp add: take_bit_eq_mod mask_eq_exp_minus_1)
qed

lemma or_nibble: "push_bit 4 (a :: int) OR (q AND 15) = 16 * a + q mod 16"
proof -
  have "concat_bit 4 q a = push_bit 4 a OR take_bit 4 q"
    by (simp add: concat_bit_def or.commute)
  moreover have "concat_bit 4 q a = take_bit 4 q + push_bit 4 a"
    by (rule concat_bit_eq)
  ultimately show ?thesis
    by (simp add: and_15 take_bit_eq_mod push_bit_eq_mult)
qed

text \<open>The code word of a magnitude: the segment it falls in and its four leading bits there.\<close>

definition alaw_code :: "int \<Rightarrow> int" where
  "alaw_code x =
     (let seg = search x ALAW_SEG_END
      in 16 * int seg + (x div 2 ^ (if seg < 2 then 1 else seg)) mod 16)"

definition ulaw_code :: "int \<Rightarrow> int" where
  "ulaw_code x =
     (let seg = search x ULAW_SEG_END in 16 * int seg + (x div 2 ^ (seg + 3)) mod 16)"

lemma search_alaw_lt: "x \<le> 0xFFF \<Longrightarrow> search x ALAW_SEG_END < 8"
  by (simp add: ALAW_SEG_END_def)

lemma search_ulaw_lt: "x \<le> 0x7FFF \<Longrightarrow> search x ULAW_SEG_END < 8"
  by (simp add: ULAW_SEG_END_def)

lemma encode_alaw_arith:
  assumes "- 32768 \<le> s" and "s \<le> 32767"
  shows "encode_alaw_sample s =
    (if 0 \<le> s then alaw_code (s div 8) XOR 0xD5 else alaw_code ((- s - 1) div 8) XOR 0x55)"
proof -
  have d: "drop_bit 3 s = s div 8"
    by (simp add: drop_bit_eq_div)
  have sg: "0 \<le> s div 8 \<longleftrightarrow> 0 \<le> s"
    by (simp add: pos_imp_zdiv_nonneg_iff)
  have neg: "- (s div 8) - 1 = (- s - 1) div 8"
    by presburger
  have "(if 0 \<le> s then s div 8 else (- s - 1) div 8) \<le> 0xFFF"
    using assms by (simp add: neg) presburger
  from search_alaw_lt [OF this] show ?thesis
    by (auto simp: encode_alaw_sample_def d sg neg Let_def alaw_code_def or_nibble
          drop_bit_eq_div split: if_splits)
qed

lemma encode_ulaw_arith:
  "encode_ulaw_sample s =
    ulaw_code (min CLIP (\<bar>s\<bar> + BIAS)) XOR (if s < 0 then 0x7F else 0xFF)"
proof -
  have c: "(if CLIP < t then CLIP else t) = min CLIP t" for t :: int
    by (simp add: min_def)
  have a: "(if s < 0 then BIAS - s else BIAS + s) = \<bar>s\<bar> + BIAS"
    by simp
  have "search (min CLIP (\<bar>s\<bar> + BIAS)) ULAW_SEG_END < 8"
    by (rule search_ulaw_lt) (simp add: CLIP_def)
  then show ?thesis
    unfolding encode_ulaw_sample_def Let_def c a ulaw_code_def
    by (simp add: or_nibble drop_bit_eq_div)
qed

section \<open>Quantization error\<close>

text \<open>Within a segment the decoded magnitude is the middle of the quantum the input lies in, so
  the error is at most half a quantum: 8 in the two linear segments, a thirty-second of the
  input above them.\<close>

lemma alaw_seg_cases:
  assumes "0 \<le> (x :: int)" and "x \<le> 0xFFF"
  obtains (low) "x \<le> 31" "search x ALAW_SEG_END = 0"
  | (s1) "32 \<le> x" "x \<le> 63" "search x ALAW_SEG_END = 1"
  | (s2) "64 \<le> x" "x \<le> 127" "search x ALAW_SEG_END = 2"
  | (s3) "128 \<le> x" "x \<le> 255" "search x ALAW_SEG_END = 3"
  | (s4) "256 \<le> x" "x \<le> 511" "search x ALAW_SEG_END = 4"
  | (s5) "512 \<le> x" "x \<le> 1023" "search x ALAW_SEG_END = 5"
  | (s6) "1024 \<le> x" "x \<le> 2047" "search x ALAW_SEG_END = 6"
  | (s7) "2048 \<le> x" "x \<le> 4095" "search x ALAW_SEG_END = 7"
proof -
  consider "0 \<le> x" "x \<le> 31"
    | "32 \<le> x" "x \<le> 63"
    | "64 \<le> x" "x \<le> 127"
    | "128 \<le> x" "x \<le> 255"
    | "256 \<le> x" "x \<le> 511"
    | "512 \<le> x" "x \<le> 1023"
    | "1024 \<le> x" "x \<le> 2047"
    | "2048 \<le> x" "x \<le> 4095"
    using assms by linarith
  then show ?thesis
    using that by cases (simp_all add: ALAW_SEG_END_def)
qed

lemma alaw_mag_code:
  assumes "x \<le> 0xFFF"
  shows "alaw_mag (alaw_code x) =
    (let seg = search x ALAW_SEG_END; q = (x div 2 ^ (if seg < 2 then 1 else seg)) mod 16
     in if seg = 0 then 16 * q + 8 else (16 * q + 0x108) * 2 ^ (seg - 1))"
    and "0 \<le> alaw_code x \<and> alaw_code x \<le> 127"
proof -
  define seg where "seg = search x ALAW_SEG_END"
  define q where "q = (x div 2 ^ (if seg < 2 then 1 else seg)) mod 16"
  have code: "alaw_code x = 16 * int seg + q"
    by (simp only: alaw_code_def Let_def flip: seg_def q_def)
  have q: "0 \<le> q" "q < 16"
    by (simp_all add: q_def)
  have seg: "seg < 8"
    using assms by (simp add: seg_def search_alaw_lt)
  have "(16 * int seg + q) div 16 = int seg" "(16 * int seg + q) mod 16 = q"
    using q by simp_all
  moreover have "nat (int seg - 1) = seg - 1"
    by simp
  ultimately show "alaw_mag (alaw_code x) =
    (let seg = search x ALAW_SEG_END; q = (x div 2 ^ (if seg < 2 then 1 else seg)) mod 16
     in if seg = 0 then 16 * q + 8 else (16 * q + 0x108) * 2 ^ (seg - 1))"
    unfolding Let_def seg_def [symmetric] q_def [symmetric] code alaw_mag_def by simp
  show "0 \<le> alaw_code x \<and> alaw_code x \<le> 127"
    using q seg by (simp add: code)
qed

lemma ulaw_mag_code:
  assumes "x \<le> 0x7FFF"
  shows "ulaw_mag (ulaw_code x) =
    (let seg = search x ULAW_SEG_END
     in (8 * ((x div 2 ^ (seg + 3)) mod 16) + BIAS) * 2 ^ seg)"
    and "0 \<le> ulaw_code x \<and> ulaw_code x \<le> 127"
proof -
  define seg where "seg = search x ULAW_SEG_END"
  define q where "q = (x div 2 ^ (seg + 3)) mod 16"
  have code: "ulaw_code x = 16 * int seg + q"
    by (simp only: ulaw_code_def Let_def flip: seg_def q_def)
  have q: "0 \<le> q" "q < 16"
    by (simp_all add: q_def)
  have seg: "seg < 8"
    using assms by (simp add: seg_def search_ulaw_lt)
  have "(16 * int seg + q) div 16 = int seg" "(16 * int seg + q) mod 16 = q"
    using q by simp_all
  then show "ulaw_mag (ulaw_code x) =
    (let seg = search x ULAW_SEG_END
     in (8 * ((x div 2 ^ (seg + 3)) mod 16) + BIAS) * 2 ^ seg)"
    unfolding Let_def seg_def [symmetric] q_def [symmetric] code ulaw_mag_def by simp
  show "0 \<le> ulaw_code x \<and> ulaw_code x \<le> 127"
    using q seg by (simp add: code)
qed

text \<open>In a segment of sixteen quanta of width \<open>d\<close> starting at \<open>16 * d\<close>.\<close>

lemma quantum:
  fixes t d :: int
  assumes "0 < d" and "16 * d \<le> t" and "t < 32 * d"
  shows "(t div d) mod 16 = t div d - 16" and "d * (t div d) \<le> t" and "t < d * (t div d) + d"
proof -
  have t: "t = d * (t div d) + t mod d" and r: "0 \<le> t mod d" "t mod d < d"
    using assms(1) by simp_all
  show lo: "d * (t div d) \<le> t"
    using t r by linarith
  show hi: "t < d * (t div d) + d"
    using t r by linarith
  have "d * (t div d) < d * 32"
    using lo assms(3) by linarith
  then have "t div d < 32"
    using assms(1) by (simp add: mult_less_cancel_left_pos)
  moreover have "d * 16 < d * (t div d + 1)"
    using hi assms(2) by (simp add: algebra_simps)
  then have "16 < t div d + 1"
    using assms(1) by (simp only: mult_less_cancel_left_pos)
  moreover have "q mod 16 = q - 16" if "q < 32" and "16 < q + 1" for q :: int
    using that by presburger
  ultimately show "(t div d) mod 16 = t div d - 16"
    by blast
qed

lemma alaw_code_error:
  assumes "0 \<le> t" and "t \<le> 32767"
  shows "\<exists>h. alaw_mag (alaw_code (t div 8)) - t \<le> h \<and> t - alaw_mag (alaw_code (t div 8)) \<le> h - 1 \<and>
         (h = 8 \<or> 32 * h \<le> t)"
proof -
  have x: "0 \<le> t div 8" "t div 8 \<le> 0xFFF"
    using assms by simp_all
  have dd: "t div 8 div numeral w = t div (8 * numeral w)" for w
    by (simp only: zdiv_zmult2_eq zero_le_numeral)
  note mag = alaw_mag_code(1) [OF x(2)] Let_def
  from x show ?thesis
  proof (cases rule: alaw_seg_cases)
    case low
    then have "t div 16 mod 16 = t div 16" "16 * (t div 16) \<le> t" "t < 16 * (t div 16) + 16"
      using assms by simp_all
    moreover from this have "alaw_mag (alaw_code (t div 8)) = 16 * (t div 16) + 8"
      by (simp only: mag low(2)) (simp add: dd)
    ultimately show ?thesis by (intro exI [of _ 8]) linarith
  next
    case s1
    then have lo: "256 \<le> t" and "t < 512"
      by simp_all
    with quantum [of 16 t] have q: "t div 16 mod 16 = t div 16 - 16"
      "16 * (t div 16) \<le> t" "t < 16 * (t div 16) + 16"
      by simp_all
    have "alaw_mag (alaw_code (t div 8)) = 16 * (t div 16) + 8"
      by (simp only: mag s1(3)) (simp add: dd q(1))
    with q lo show ?thesis by (intro exI [of _ 8]) linarith
  next
    case s2
    then have lo: "512 \<le> t" and "t < 1024"
      by simp_all
    with quantum [of 32 t] have q: "t div 32 mod 16 = t div 32 - 16"
      "32 * (t div 32) \<le> t" "t < 32 * (t div 32) + 32"
      by simp_all
    have "alaw_mag (alaw_code (t div 8)) = 32 * (t div 32) + 16"
      by (simp only: mag s2(3)) (simp add: dd q(1))
    with q lo show ?thesis by (intro exI [of _ 16]) linarith
  next
    case s3
    then have lo: "1024 \<le> t" and "t < 2048"
      by simp_all
    with quantum [of 64 t] have q: "t div 64 mod 16 = t div 64 - 16"
      "64 * (t div 64) \<le> t" "t < 64 * (t div 64) + 64"
      by simp_all
    have "alaw_mag (alaw_code (t div 8)) = 64 * (t div 64) + 32"
      by (simp only: mag s3(3)) (simp add: dd q(1))
    with q lo show ?thesis by (intro exI [of _ 32]) linarith
  next
    case s4
    then have lo: "2048 \<le> t" and "t < 4096"
      by simp_all
    with quantum [of 128 t] have q: "t div 128 mod 16 = t div 128 - 16"
      "128 * (t div 128) \<le> t" "t < 128 * (t div 128) + 128"
      by simp_all
    have "alaw_mag (alaw_code (t div 8)) = 128 * (t div 128) + 64"
      by (simp only: mag s4(3)) (simp add: dd q(1))
    with q lo show ?thesis by (intro exI [of _ 64]) linarith
  next
    case s5
    then have lo: "4096 \<le> t" and "t < 8192"
      by simp_all
    with quantum [of 256 t] have q: "t div 256 mod 16 = t div 256 - 16"
      "256 * (t div 256) \<le> t" "t < 256 * (t div 256) + 256"
      by simp_all
    have "alaw_mag (alaw_code (t div 8)) = 256 * (t div 256) + 128"
      by (simp only: mag s5(3)) (simp add: dd q(1))
    with q lo show ?thesis by (intro exI [of _ 128]) linarith
  next
    case s6
    then have lo: "8192 \<le> t" and "t < 16384"
      by simp_all
    with quantum [of 512 t] have q: "t div 512 mod 16 = t div 512 - 16"
      "512 * (t div 512) \<le> t" "t < 512 * (t div 512) + 512"
      by simp_all
    have "alaw_mag (alaw_code (t div 8)) = 512 * (t div 512) + 256"
      by (simp only: mag s6(3)) (simp add: dd q(1))
    with q lo show ?thesis by (intro exI [of _ 256]) linarith
  next
    case s7
    then have lo: "16384 \<le> t" and "t < 32768"
      by simp_all
    with quantum [of 1024 t] have q: "t div 1024 mod 16 = t div 1024 - 16"
      "1024 * (t div 1024) \<le> t" "t < 1024 * (t div 1024) + 1024"
      by simp_all
    have "alaw_mag (alaw_code (t div 8)) = 1024 * (t div 1024) + 512"
      by (simp only: mag s7(3)) (simp add: dd q(1))
    with q lo show ?thesis by (intro exI [of _ 512]) linarith
  qed
qed

lemma ulaw_seg_cases:
  assumes "0x84 \<le> (x :: int)" and "x \<le> 0x7FFF"
  obtains (s0) "128 \<le> x" "x \<le> 255" "search x ULAW_SEG_END = 0"
  | (s1) "256 \<le> x" "x \<le> 511" "search x ULAW_SEG_END = 1"
  | (s2) "512 \<le> x" "x \<le> 1023" "search x ULAW_SEG_END = 2"
  | (s3) "1024 \<le> x" "x \<le> 2047" "search x ULAW_SEG_END = 3"
  | (s4) "2048 \<le> x" "x \<le> 4095" "search x ULAW_SEG_END = 4"
  | (s5) "4096 \<le> x" "x \<le> 8191" "search x ULAW_SEG_END = 5"
  | (s6) "8192 \<le> x" "x \<le> 16383" "search x ULAW_SEG_END = 6"
  | (s7) "16384 \<le> x" "x \<le> 32767" "search x ULAW_SEG_END = 7"
proof -
  consider "128 \<le> x" "x \<le> 255"
    | "256 \<le> x" "x \<le> 511"
    | "512 \<le> x" "x \<le> 1023"
    | "1024 \<le> x" "x \<le> 2047"
    | "2048 \<le> x" "x \<le> 4095"
    | "4096 \<le> x" "x \<le> 8191"
    | "8192 \<le> x" "x \<le> 16383"
    | "16384 \<le> x" "x \<le> 32767"
    using assms by linarith
  then show ?thesis
    using that by cases (simp_all add: ULAW_SEG_END_def)
qed

lemma ulaw_code_error:
  assumes "0x84 \<le> t" and "t \<le> 0x7FFF"
  shows "32 * \<bar>ulaw_mag (ulaw_code t) - t\<bar> \<le> t"
proof -
  note mag = ulaw_mag_code(1) [OF assms(2)] Let_def BIAS_def
  from assms show ?thesis
  proof (cases rule: ulaw_seg_cases)
    case s0
    with quantum [of 8 t] have
      "t div 8 mod 16 = t div 8 - 16" "8 * (t div 8) \<le> t" "t < 8 * (t div 8) + 8"
      by simp_all
    with s0 show ?thesis by (simp add: mag abs_if)
  next
    case s1
    with quantum [of 16 t] have
      "t div 16 mod 16 = t div 16 - 16" "16 * (t div 16) \<le> t" "t < 16 * (t div 16) + 16"
      by simp_all
    with s1 show ?thesis by (simp add: mag abs_if)
  next
    case s2
    with quantum [of 32 t] have
      "t div 32 mod 16 = t div 32 - 16" "32 * (t div 32) \<le> t" "t < 32 * (t div 32) + 32"
      by simp_all
    with s2 show ?thesis by (simp add: mag abs_if)
  next
    case s3
    with quantum [of 64 t] have
      "t div 64 mod 16 = t div 64 - 16" "64 * (t div 64) \<le> t" "t < 64 * (t div 64) + 64"
      by simp_all
    with s3 show ?thesis by (simp add: mag abs_if)
  next
    case s4
    with quantum [of 128 t] have
      "t div 128 mod 16 = t div 128 - 16" "128 * (t div 128) \<le> t" "t < 128 * (t div 128) + 128"
      by simp_all
    with s4 show ?thesis by (simp add: mag abs_if)
  next
    case s5
    with quantum [of 256 t] have
      "t div 256 mod 16 = t div 256 - 16" "256 * (t div 256) \<le> t" "t < 256 * (t div 256) + 256"
      by simp_all
    with s5 show ?thesis by (simp add: mag abs_if)
  next
    case s6
    with quantum [of 512 t] have
      "t div 512 mod 16 = t div 512 - 16" "512 * (t div 512) \<le> t" "t < 512 * (t div 512) + 512"
      by simp_all
    with s6 show ?thesis by (simp add: mag abs_if)
  next
    case s7
    with quantum [of 1024 t] have
      "t div 1024 mod 16 = t div 1024 - 16" "1024 * (t div 1024) \<le> t" "t < 1024 * (t div 1024) + 1024"
      by simp_all
    with s7 show ?thesis by (simp add: mag abs_if)
  qed
qed

section \<open>Properties\<close>

lemma bytes_of_s16:
  assumes "-32768 \<le> x" and "x \<le> 32767"
  shows "s16_of_bytes (x mod 65536 mod 256) (x mod 65536 div 256) = x"
proof -
  define u where "u = x mod 65536"
  have "u = (if x < 0 then x + 65536 else x)"
  proof (cases "x < 0")
    case True
    then have "(x + 65536) mod 65536 = x + 65536"
      using assms by (intro mod_pos_pos_trivial) simp_all
    with True show ?thesis by (simp add: u_def)
  next
    case False
    with assms show ?thesis by (simp add: u_def)
  qed
  moreover have "u mod 256 + 256 * (u div 256) = u"
    by (rule mod_mult_div_eq)
  ultimately show ?thesis
    using assms by (simp add: s16_of_bytes_def Let_def flip: u_def split: if_splits)
qed

lemma iter_pack_s16le:
  "\<forall>x \<in> set xs. -32768 \<le> x \<and> x \<le> 32767 \<Longrightarrow>
   \<exists>bs. pack_s16le xs = Inr bs \<and> length bs = 2 * length xs \<and> iter_s16le bs = Inr xs"
  by (induction xs) (auto simp: Let_def bytes_of_s16)

text \<open>Every frame of A-law bytes decodes to a 16-bit little-endian frame of twice the length,
  and encoding that frame gives the same bytes back.\<close>

lemma alaw_frame_roundtrip:
  assumes "\<forall>b \<in> set payload. 0 \<le> b \<and> b \<le> 255"
  shows "\<exists>pcm. alaw_to_s16le payload = Inr pcm \<and> length pcm = 2 * length payload \<and>
           s16le_to_alaw pcm = Inr payload"
proof -
  have "\<forall>x \<in> set (map decode_alaw_byte payload). -32768 \<le> x \<and> x \<le> 32767"
    using assms decode_alaw_bound by fastforce
  from iter_pack_s16le [OF this] obtain pcm where
    "alaw_to_s16le payload = Inr pcm" "length pcm = 2 * length payload"
    "iter_s16le pcm = Inr (map decode_alaw_byte payload)"
    by (auto simp: alaw_to_s16le_def)
  moreover have "map (encode_alaw_sample \<circ> decode_alaw_byte) payload = payload"
    using assms on_codes [OF alaw_roundtrip_table] by (intro map_idI) auto
  ultimately show ?thesis
    by (simp add: s16le_to_alaw_def)
qed

lemma alaw_frame_roundtrip_example:
  "\<exists>pcm. alaw_to_s16le [0xD5, 0, 255] = Inr pcm \<and> length pcm = 2 * length [0xD5, 0, 255 :: int] \<and>
     s16le_to_alaw pcm = Inr [0xD5, 0, 255]"
  by (rule alaw_frame_roundtrip) simp

text \<open>The same for mu-law, except that the byte of negative zero, 0x7F, comes back as the byte
  of positive zero, 0xFF.\<close>

lemma ulaw_frame_roundtrip:
  assumes "\<forall>b \<in> set payload. 0 \<le> b \<and> b \<le> 255"
  shows "\<exists>pcm. ulaw_to_s16le payload = Inr pcm \<and> length pcm = 2 * length payload \<and>
           s16le_to_ulaw pcm = Inr (map (\<lambda>b. if b = 0x7F then 0xFF else b) payload)"
proof -
  have "\<forall>x \<in> set (map decode_ulaw_byte payload). -32768 \<le> x \<and> x \<le> 32767"
    using assms decode_ulaw_bound by fastforce
  from iter_pack_s16le [OF this] obtain pcm where
    "ulaw_to_s16le payload = Inr pcm" "length pcm = 2 * length payload"
    "iter_s16le pcm = Inr (map decode_ulaw_byte payload)"
    by (auto simp: ulaw_to_s16le_def)
  moreover have "map (encode_ulaw_sample \<circ> decode_ulaw_byte) payload
      = map (\<lambda>b. if b = 0x7F then 0xFF else b) payload"
    using assms on_codes [OF ulaw_roundtrip_table] by (intro map_cong) auto
  ultimately show ?thesis
    by (simp add: s16le_to_ulaw_def)
qed

lemma ulaw_frame_roundtrip_example:
  "\<exists>pcm. ulaw_to_s16le [0x7F, 0, 128] = Inr pcm \<and> length pcm = 2 * length [0x7F, 0, 128 :: int] \<and>
     s16le_to_ulaw pcm = Inr (map (\<lambda>b. if b = 0x7F then 0xFF else b) [0x7F, 0, 128])"
  by (rule ulaw_frame_roundtrip) simp

text \<open>C26: Frames survive transcoding: every A-law frame decodes to a 16-bit little-endian frame of twice
  the length, and encoding that frame gives the same bytes back; the same for mu-law, except that the
  byte of negative zero, 0x7F, comes back as the byte of positive zero, 0xFF.\<close>

theorem g711_frames_roundtrip:
  assumes "\<forall>b \<in> set payload. 0 \<le> b \<and> b \<le> 255"
  shows "(\<exists>pcm. alaw_to_s16le payload = Inr pcm \<and> length pcm = 2 * length payload \<and>
       s16le_to_alaw pcm = Inr payload) \<and>
    (\<exists>pcm. ulaw_to_s16le payload = Inr pcm \<and> length pcm = 2 * length payload \<and>
       s16le_to_ulaw pcm = Inr (map (\<lambda>b. if b = 0x7F then 0xFF else b) payload))"
  using alaw_frame_roundtrip [OF assms] ulaw_frame_roundtrip [OF assms] by blast

theorem g711_frames_roundtrip_witness:
  "\<exists>pcm. ulaw_to_s16le [0x7F, 0, 128] = Inr pcm \<and> length pcm = 6 \<and>
     s16le_to_ulaw pcm = Inr [0xFF, 0, 128]"
  using g711_frames_roundtrip [of "[0x7F, 0, 128]"] by simp

lemma xor_cancel:
  "0 \<le> v \<Longrightarrow> v \<le> 127 \<Longrightarrow> decode_alaw_byte (v XOR 0xD5) = alaw_mag v"
  "0 \<le> v \<Longrightarrow> v \<le> 127 \<Longrightarrow> decode_alaw_byte (v XOR 0x55) = - alaw_mag v"
  "0 \<le> v \<Longrightarrow> v \<le> 127 \<Longrightarrow> decode_ulaw_byte (v XOR 0xFF) = ulaw_mag v - BIAS"
  "0 \<le> v \<Longrightarrow> v \<le> 127 \<Longrightarrow> decode_ulaw_byte (v XOR 0x7F) = BIAS - ulaw_mag v"
  using on_codes [OF alaw_code_table] on_codes [OF ulaw_code_table] by blast+

lemma alaw_error:
  assumes "-32768 \<le> s" and "s \<le> 32767"
  shows "\<bar>decode_alaw_byte (encode_alaw_sample s) - s\<bar> \<le> max 8 (\<bar>s\<bar> div 32)"
proof (cases "0 \<le> s")
  case True
  then have r: "s div 8 \<le> 0xFFF"
    using assms by simp
  from True assms have "decode_alaw_byte (encode_alaw_sample s) = alaw_mag (alaw_code (s div 8))"
    using alaw_mag_code(2) [OF r] by (simp add: encode_alaw_arith xor_cancel)
  then show ?thesis
    using alaw_code_error [OF True assms(2)] True by fastforce
next
  case False
  define t where "t = - s - 1"
  have t: "0 \<le> t" "t \<le> 32767" "s = - t - 1"
    using False assms by (simp_all add: t_def)
  then have r: "t div 8 \<le> 0xFFF"
    by simp
  have "decode_alaw_byte (encode_alaw_sample s) = - alaw_mag (alaw_code (t div 8))"
    using alaw_mag_code(2) [OF r] False assms
    by (simp add: encode_alaw_arith xor_cancel flip: t_def)
  then show ?thesis
    using alaw_code_error [OF t(1,2)] by (auto simp: t(3))
qed

lemma ulaw_error:
  assumes "-32768 \<le> s" and "s \<le> 32767"
  shows "\<bar>decode_ulaw_byte (encode_ulaw_sample s) - s\<bar> \<le> (\<bar>s\<bar> + BIAS) div 32"
proof -
  define t where "t = min CLIP (\<bar>s\<bar> + BIAS)"
  have t: "0x84 \<le> t" "t \<le> 0x7FFF"
    by (simp_all add: t_def CLIP_def BIAS_def)
  have d: "decode_ulaw_byte (encode_ulaw_sample s) =
      (if s < 0 then BIAS - ulaw_mag (ulaw_code t) else ulaw_mag (ulaw_code t) - BIAS)"
    using ulaw_mag_code(2) [OF t(2)] by (simp add: encode_ulaw_arith xor_cancel flip: t_def)
  have e: "32 * \<bar>ulaw_mag (ulaw_code t) - t\<bar> \<le> t"
    by (rule ulaw_code_error [OF t])
  have c: "t = \<bar>s\<bar> + BIAS \<or> (t = 32635 \<and> 32635 < \<bar>s\<bar> + BIAS \<and> \<bar>s\<bar> + BIAS \<le> 32900)"
    using assms by (auto simp: t_def CLIP_def BIAS_def min_def)
  have k: "ulaw_mag (ulaw_code 32635) = 32256"
    by code_simp
  have "32 * \<bar>decode_ulaw_byte (encode_ulaw_sample s) - s\<bar> \<le> \<bar>s\<bar> + BIAS"
    using c
  proof
    assume "t = \<bar>s\<bar> + BIAS"
    with e d show ?thesis by (simp add: abs_if split: if_splits)
  next
    assume "t = 32635 \<and> 32635 < \<bar>s\<bar> + BIAS \<and> \<bar>s\<bar> + BIAS \<le> 32900"
    with d k show ?thesis by (simp add: BIAS_def abs_if split: if_splits)
  qed
  moreover have "a \<le> b div 32" if "32 * a \<le> b" for a b :: int
    using that by presburger
  ultimately show ?thesis by blast
qed

text \<open>Encoding a 16-bit sample and decoding it again is off by at most 8, or by at most a
  thirty-second of the sample, in A-law; in mu-law by at most a thirty-second of the sample plus
  the bias.\<close>

lemma companding_error:
  assumes "-32768 \<le> s" and "s \<le> 32767"
  shows "\<bar>decode_alaw_byte (encode_alaw_sample s) - s\<bar> \<le> max 8 (\<bar>s\<bar> div 32) \<and>
         \<bar>decode_ulaw_byte (encode_ulaw_sample s) - s\<bar> \<le> (\<bar>s\<bar> + BIAS) div 32"
  using alaw_error [OF assms] ulaw_error [OF assms] by blast

lemma companding_error_example:
  "\<bar>decode_alaw_byte (encode_alaw_sample (-32768)) - (-32768)\<bar> \<le> max 8 (\<bar>-32768\<bar> div 32) \<and>
   \<bar>decode_ulaw_byte (encode_ulaw_sample (-32768)) - (-32768)\<bar> \<le> (\<bar>-32768\<bar> + BIAS) div 32"
  by (rule companding_error) simp_all

end
