(* ===== verification/Rtp.thy ===== *)
theory Rtp
  imports Prelude "HOL-Library.Word"
begin

text \<open>
  \<open>custom_components/voip_stack/rtp.py\<close>: RTP version 2 packets.

  A binary payload is a list of byte values, \<^typ>\<open>int\<close> in \<open>0..255\<close>, as indexing a Python
  \<open>bytes\<close> object gives; header fields are Python integers, with the code's range checks.
\<close>

unbundle bit_operations_syntax

section \<open>Packets\<close>

definition RTP_VERSION :: int where "RTP_VERSION = 2"
definition RTP_HEADER_SIZE :: nat where "RTP_HEADER_SIZE = 12"
definition MAX_RTP_PAYLOAD_BYTES :: nat where "MAX_RTP_PAYLOAD_BYTES = 1400"
definition MAX_RTP_RECEIVE_PAYLOAD_BYTES :: nat where "MAX_RTP_RECEIVE_PAYLOAD_BYTES = 65507"

record rtp_packet =
  payload_type :: int
  sequence :: int
  timestamp :: int
  ssrc :: int
  payload :: "int list"
  marker :: bool

text \<open>\<open>struct.pack\<close> and \<open>struct.unpack_from\<close> of the big-endian fields.\<close>

definition be16 :: "int \<Rightarrow> int list" where
  "be16 x = [x div 256, x mod 256]"

definition be32 :: "int \<Rightarrow> int list" where
  "be32 x = [x div 16777216, x div 65536 mod 256, x div 256 mod 256, x mod 256]"

definition u16_at :: "int list \<Rightarrow> nat \<Rightarrow> int" where
  "u16_at d i = d ! i * 256 + d ! (i + 1)"

definition u32_at :: "int list \<Rightarrow> nat \<Rightarrow> int" where
  "u32_at d i = d ! i * 16777216 + d ! (i + 1) * 65536 + d ! (i + 2) * 256 + d ! (i + 3)"

definition build_packet :: "rtp_packet \<Rightarrow> exn + int list" where
  "build_packet p =
     (if \<not> (0 \<le> payload_type p \<and> payload_type p \<le> 127)
        then Inl (RtpError ''RTP payload type out of range'')
      else if \<not> (0 \<le> sequence p \<and> sequence p \<le> 0xFFFF)
        then Inl (RtpError ''RTP sequence out of range'')
      else if \<not> (0 \<le> timestamp p \<and> timestamp p \<le> 0xFFFFFFFF)
        then Inl (RtpError ''RTP timestamp out of range'')
      else if \<not> (0 \<le> ssrc p \<and> ssrc p \<le> 0xFFFFFFFF)
        then Inl (RtpError ''RTP SSRC out of range'')
      else if MAX_RTP_PAYLOAD_BYTES < length (payload p)
        then Inl (RtpError ''RTP payload too large'')
      else
        let b0 = push_bit 6 RTP_VERSION;
            b1 = (if marker p then 0x80 else 0) OR payload_type p
        in Inr ([b0, b1] @ be16 (sequence p) @ be32 (timestamp p) @ be32 (ssrc p) @ payload p))"

text \<open>The offset of the payload: fixed header, contributing sources, header extension.\<close>

definition payload_offset :: "int list \<Rightarrow> exn + nat" where
  "payload_offset data =
     (let b0 = data ! 0;
          off = RTP_HEADER_SIZE + nat (b0 AND 0x0F) * 4
      in if b0 AND 0x10 \<noteq> 0
         then (if length data < off + 4 then Inl (RtpError ''RTP extension header truncated'')
               else Inr (off + 4 + nat (u16_at data (off + 2)) * 4))
         else Inr off)"

definition parse_packet :: "int list \<Rightarrow> exn + rtp_packet" where
  "parse_packet data =
     (if length data < RTP_HEADER_SIZE then Inl (RtpError ''RTP packet too short'')
      else
        let b0 = data ! 0; b1 = data ! 1 in
        if drop_bit 6 b0 \<noteq> RTP_VERSION then Inl (RtpError ''unsupported RTP version'')
        else bindE (payload_offset data) (\<lambda>off.
          if length data < off then Inl (RtpError ''RTP CSRC/extension truncated'')
          else
            let padded = (b0 AND 0x20 \<noteq> 0); pad = last data in
            if padded \<and> (pad = 0 \<or> int (length data - off) < pad)
              then Inl (RtpError ''invalid RTP padding'')
            else
              let end = (if padded then length data - nat pad else length data);
                  body = take (end - off) (drop off data)
              in if MAX_RTP_RECEIVE_PAYLOAD_BYTES < length body
                   then Inl (RtpError ''RTP payload too large'')
                 else Inr \<lparr> payload_type = b1 AND 0x7F,
                            sequence = u16_at data 2,
                            timestamp = u32_at data 4,
                            ssrc = u32_at data 8,
                            payload = body,
                            marker = (b1 AND 0x80 \<noteq> 0) \<rparr>))"

definition next_sequence :: "int \<Rightarrow> int" where
  "next_sequence s = (s + 1) AND 0xFFFF"

definition next_timestamp :: "int \<Rightarrow> int \<Rightarrow> int" where
  "next_timestamp t samples_per_frame = (t + samples_per_frame) AND 0xFFFFFFFF"

section \<open>The size of an audio payload\<close>

definition MAX_AUDIO_RTP_PAYLOAD_BYTES :: int where "MAX_AUDIO_RTP_PAYLOAD_BYTES = 12 * 1024"
definition MAX_OPUS_FRAME_BYTES :: int where "MAX_OPUS_FRAME_BYTES = 1275"
definition MIN_OPUS_FRAME_US :: int where "MIN_OPUS_FRAME_US = 2500"

record audio_rtp_format =
  encoding :: string
  rate :: int
  channel_count :: int
  ptime :: int

definition bytes_per_sample :: "string \<Rightarrow> int option" where
  "bytes_per_sample e =
     (if e = ''PCMA'' then Some 1 else if e = ''PCMU'' then Some 1
      else if e = ''L16'' then Some 2 else if e = ''L24'' then Some 3 else None)"

definition audio_payload_size_limit :: "audio_rtp_format \<Rightarrow> exn + int" where
  "audio_payload_size_limit fmt =
     (let enc = upper (strip (encoding fmt)) in
      if rate fmt \<le> 0 \<or> channel_count fmt \<le> 0 \<or> ptime fmt \<le> 0
        then Inl (RtpError ''invalid RTP audio format'')
      else bindE
        (if enc = ''OPUS'' then
           let frame_us = ptime fmt * 1000;
               frame_count = max 1 ((frame_us + MIN_OPUS_FRAME_US - 1) div MIN_OPUS_FRAME_US)
           in Inr (frame_count * (MAX_OPUS_FRAME_BYTES + 2))
         else
           case bytes_per_sample enc of
             None \<Rightarrow> Inl (RtpError ''unsupported RTP audio encoding'')
           | Some n \<Rightarrow>
               (let sample_numerator = rate fmt * ptime fmt in
                if sample_numerator mod 1000 \<noteq> 0
                  then Inl (RtpError ''RTP audio ptime does not produce whole samples'')
                else Inr ((sample_numerator div 1000) * channel_count fmt * n)))
        (\<lambda>codec_limit. Inr (min codec_limit MAX_AUDIO_RTP_PAYLOAD_BYTES)))"

definition validate_audio_payload_size :: "int list \<Rightarrow> audio_rtp_format \<Rightarrow> exn + unit" where
  "validate_audio_payload_size body fmt =
     bindE (audio_payload_size_limit fmt) (\<lambda>limit.
       if limit < int (length body) then Inl (RtpError ''RTP audio payload too large'')
       else Inr ())"

section \<open>Round trip\<close>

definition is_byte :: "int \<Rightarrow> bool" where
  "is_byte b \<longleftrightarrow> 0 \<le> b \<and> b \<le> 255"

lemma marker_bits_table:
  "list_all (\<lambda>v. (0x80 OR v) AND 0x7F = v \<and> (0x80 OR v) AND 0x80 \<noteq> (0 :: int) \<and>
                 v AND 0x7F = v \<and> v AND 0x80 = 0) [0..127]"
  by code_simp

lemma marker_bits:
  assumes "0 \<le> v" and "v \<le> 127"
  shows "((if m then 0x80 else 0) OR v) AND 0x7F = (v :: int)"
    and "((if m then 0x80 else 0) OR v) AND 0x80 \<noteq> (0 :: int) \<longleftrightarrow> m"
  using marker_bits_table assms by (auto simp: list_all_iff)

lemma u16_be16:
  "0 \<le> x \<Longrightarrow> d ! i = x div 256 \<Longrightarrow> d ! (i + 1) = x mod 256 \<Longrightarrow> u16_at d i = x"
  by (simp add: u16_at_def)

lemma be32_digits:
  "x div 16777216 * 16777216 + x div 65536 mod 256 * 65536 + x div 256 mod 256 * 256 + x mod 256
     = (x :: int)"
proof -
  define a r0 where "a = x div 256" and "r0 = x mod 256"
  define b r1 where "b = a div 256" and "r1 = a mod 256"
  define c r2 where "c = b div 256" and "r2 = b mod 256"
  have "256 * a + r0 = x" "256 * b + r1 = a" "256 * c + r2 = b"
    by (simp_all only: a_def r0_def b_def r1_def c_def r2_def mult_div_mod_eq)
  moreover have "x div 65536 = b"
    unfolding b_def a_def by (simp add: zdiv_zmult2_eq [symmetric])
  moreover have "x div 16777216 = c"
    unfolding c_def b_def a_def by (simp add: zdiv_zmult2_eq [symmetric])
  ultimately show ?thesis
    by (simp flip: a_def r0_def r1_def r2_def)
qed

lemma parse_build_packet:
  assumes "build_packet p = Inr bs"
  shows "parse_packet bs = Inr p"
proof -
  let ?b1 = "(if marker p then 0x80 else 0) OR payload_type p"
  have ok: "0 \<le> payload_type p" "payload_type p \<le> 127" "0 \<le> sequence p"
      "length (payload p) \<le> 1400"
    and bs: "bs = [0x80, ?b1] @ be16 (sequence p) @ be32 (timestamp p) @ be32 (ssrc p) @ payload p"
    using assms by (auto simp: build_packet_def Let_def RTP_VERSION_def MAX_RTP_PAYLOAD_BYTES_def
        split: if_splits)
  have "u16_at bs 2 = sequence p" "u32_at bs 4 = timestamp p" "u32_at bs 8 = ssrc p"
    by (simp_all add: bs u16_at_def u32_at_def be16_def be32_def be32_digits)
  moreover have "payload_offset bs = Inr 12"
    by (simp add: payload_offset_def bs RTP_HEADER_SIZE_def)
  moreover have "drop 12 bs = payload p" "length bs = 12 + length (payload p)"
    by (simp_all add: bs be16_def be32_def)
  moreover have "bs ! 0 = 0x80" "bs ! 1 = ?b1"
    by (simp_all add: bs)
  ultimately show ?thesis
    using ok by (simp add: parse_packet_def Let_def RTP_HEADER_SIZE_def RTP_VERSION_def
        MAX_RTP_RECEIVE_PAYLOAD_BYTES_def marker_bits)
qed

lemma byte_or_table:
  "list_all (\<lambda>v. is_byte (0x80 OR v) \<and> is_byte v) [0..127]"
  by code_simp

lemma and_127: "0 \<le> (x :: int) AND 0x7F" "(x :: int) AND 0x7F \<le> 127"
  by (simp_all add: AND_upper2)

lemma and_mask: "(x :: int) AND (2 ^ n - 1) = x mod 2 ^ n"
proof -
  have "x AND mask n = take_bit n x"
    by (simp only: take_bit_eq_mask)
  then show ?thesis
    by (simp only: take_bit_eq_mod mask_eq_exp_minus_1)
qed

lemma and_FFFF: "(x :: int) AND 0xFFFF = x mod 65536"
  using and_mask [of x 16] by simp

lemma and_FFFFFFFF: "(x :: int) AND 0xFFFFFFFF = x mod 4294967296"
  using and_mask [of x 32] by simp

lemma slice:
  "a + b \<le> length d \<Longrightarrow>
   d = take a d @ take (length d - b - a) (drop a d) @ drop (length d - b) d"
proof -
  assume "a + b \<le> length d"
  then have "drop (length d - b) d = drop (length d - b - a) (drop a d)"
    by simp
  then show ?thesis
    by (metis append_take_drop_id)
qed

section \<open>Properties\<close>

text \<open>Whatever \<open>build_packet\<close> emits, \<open>parse_packet\<close> reads back as the same packet; the
  emitted packet is the 12-byte header and the payload, and is made of bytes if the payload is.\<close>

lemma rtp_build_parse_roundtrip:
  assumes "build_packet p = Inr bs"
  shows "parse_packet bs = Inr p \<and> length bs = 12 + length (payload p) \<and>
    (list_all is_byte (payload p) \<longrightarrow> list_all is_byte bs)"
proof -
  let ?b1 = "(if marker p then 0x80 else 0) OR payload_type p"
  have ok: "0 \<le> payload_type p" "payload_type p \<le> 127" "0 \<le> sequence p" "sequence p \<le> 0xFFFF"
      "0 \<le> timestamp p" "timestamp p \<le> 0xFFFFFFFF" "0 \<le> ssrc p" "ssrc p \<le> 0xFFFFFFFF"
    and bs: "bs = [0x80, ?b1] @ be16 (sequence p) @ be32 (timestamp p) @ be32 (ssrc p) @ payload p"
    using assms by (auto simp: build_packet_def Let_def RTP_VERSION_def split: if_splits)
  have "is_byte ?b1"
    using ok(1,2) byte_or_table by (auto simp: list_all_iff is_byte_def)
  moreover have "x div 256 \<le> 255" if "x \<le> 0xFFFF" for x :: int
    using zdiv_mono1 [OF that, of 256] by simp
  moreover have "x div 16777216 \<le> 255" if "x \<le> 0xFFFFFFFF" for x :: int
    using zdiv_mono1 [OF that, of 16777216] by simp
  moreover have "x mod 256 \<le> 255" for x :: int
    using pos_mod_bound [of 256 x] by simp
  ultimately have "list_all is_byte ([0x80, ?b1] @ be16 (sequence p) @ be32 (timestamp p)
      @ be32 (ssrc p))"
    using ok(3-8) by (simp add: be16_def be32_def is_byte_def pos_imp_zdiv_nonneg_iff)
  moreover have "length bs = 12 + length (payload p)"
    by (simp add: bs be16_def be32_def)
  ultimately show ?thesis
    using parse_build_packet [OF assms] by (simp add: bs)
qed

lemma rtp_build_parse_roundtrip_example:
  "\<exists>bs. build_packet \<lparr>payload_type = 96, sequence = 65535, timestamp = 160, ssrc = 7,
           payload = [1, 2, 3], marker = True\<rparr> = Inr bs \<and>
     parse_packet bs = Inr \<lparr>payload_type = 96, sequence = 65535, timestamp = 160, ssrc = 7,
           payload = [1, 2, 3], marker = True\<rparr>"
proof -
  let ?p = "\<lparr>payload_type = 96, sequence = 65535, timestamp = 160, ssrc = 7,
           payload = [1, 2, 3], marker = True\<rparr>"
  have "build_packet ?p = Inr [128, 224, 255, 255, 0, 0, 0, 160, 0, 0, 0, 7, 1, 2, 3]"
    by code_simp
  with rtp_build_parse_roundtrip [of ?p] show ?thesis by blast
qed

text \<open>On any datagram of bytes \<open>parse_packet\<close> accepts, every header field is in the range of
  its width and the payload is a contiguous slice of the datagram behind the header, with
  nothing but padding after it.\<close>

lemma rtp_parse_in_bounds:
  assumes "list_all is_byte data" and "parse_packet data = Inr p"
  shows "0 \<le> payload_type p \<and> payload_type p \<le> 127 \<and> 0 \<le> sequence p \<and> sequence p \<le> 0xFFFF \<and>
    0 \<le> timestamp p \<and> timestamp p \<le> 0xFFFFFFFF \<and> 0 \<le> ssrc p \<and> ssrc p \<le> 0xFFFFFFFF \<and>
    length (payload p) \<le> 65507 \<and>
    (\<exists>head pad. data = head @ payload p @ pad \<and> 12 \<le> length head \<and> length pad \<le> 255)"
proof -
  have len: "12 \<le> length data"
    using assms(2) by (auto simp: parse_packet_def RTP_HEADER_SIZE_def split: if_splits)
  have b: "0 \<le> data ! i \<and> data ! i \<le> 255" if "i < length data" for i
    using assms(1) that by (auto simp: list_all_length is_byte_def)
  obtain off where off: "payload_offset data = Inr off"
    using assms(2) by (auto simp: parse_packet_def Let_def bindE_eq_Inr split: if_splits)
  then have off12: "12 \<le> off"
    by (auto simp: payload_offset_def Let_def RTP_HEADER_SIZE_def split: if_splits)
  define padded where "padded \<longleftrightarrow> data ! 0 AND 0x20 \<noteq> 0"
  define pad where "pad = (if padded then nat (last data) else 0)"
  have last: "0 \<le> last data \<and> last data \<le> 255"
    using len b [of "length data - 1"] by (cases "data = []") (simp_all add: last_conv_nth)
  have p: "p = \<lparr> payload_type = data ! 1 AND 0x7F, sequence = u16_at data 2,
              timestamp = u32_at data 4, ssrc = u32_at data 8,
              payload = take (length data - pad - off) (drop off data),
              marker = (data ! 1 AND 0x80 \<noteq> 0) \<rparr>"
    and fits: "off + pad \<le> length data" and small: "length (payload p) \<le> 65507"
    using assms(2) off last
    by (auto simp: parse_packet_def Let_def padded_def pad_def MAX_RTP_RECEIVE_PAYLOAD_BYTES_def
        split: if_splits)
  have "payload p = take (length data - pad - off) (drop off data)"
    by (simp add: p)
  then have "data = take off data @ payload p @ drop (length data - pad) data"
    using slice [OF fits] by simp
  moreover have "12 \<le> length (take off data)"
    using off12 fits by simp
  moreover have "length (drop (length data - pad) data) \<le> 255"
    using last fits by (auto simp: pad_def)
  ultimately have "\<exists>head pad. data = head @ payload p @ pad \<and> 12 \<le> length head \<and> length pad \<le> 255"
    by blast
  moreover have "0 \<le> payload_type p \<and> payload_type p \<le> 127"
    by (simp add: p and_127)
  moreover have "0 \<le> sequence p \<and> sequence p \<le> 0xFFFF"
    using b [of 2] b [of 3] len by (simp add: p u16_at_def)
  moreover have "0 \<le> timestamp p \<and> timestamp p \<le> 0xFFFFFFFF"
    using b [of 4] b [of 5] b [of 6] b [of 7] len by (simp add: p u32_at_def)
  moreover have "0 \<le> ssrc p \<and> ssrc p \<le> 0xFFFFFFFF"
    using b [of 8] b [of 9] b [of 10] b [of 11] len by (simp add: p u32_at_def)
  ultimately show ?thesis
    using small by blast
qed

lemma rtp_parse_in_bounds_example:
  "\<exists>p. parse_packet [0xB1, 0x60, 0, 1, 0, 0, 0, 2, 0, 0, 0, 3, 9, 9, 9, 9, 0, 0, 0, 1, 8, 8, 8, 8,
        42, 0, 2] = Inr p \<and> payload p = [42] \<and> payload_type p \<le> 127"
proof -
  let ?d = "[0xB1, 0x60, 0, 1, 0, 0, 0, 2, 0, 0, 0, 3, 9, 9, 9, 9, 0, 0, 0, 1, 8, 8, 8, 8,
        42, 0, 2] :: int list"
  have p: "parse_packet ?d = Inr \<lparr>payload_type = 96, sequence = 1, timestamp = 2, ssrc = 3,
      payload = [42], marker = False\<rparr>"
    by (simp add: parse_packet_def payload_offset_def Let_def RTP_HEADER_SIZE_def RTP_VERSION_def
        MAX_RTP_RECEIVE_PAYLOAD_BYTES_def u16_at_def u32_at_def)
  have "list_all is_byte ?d"
    by (simp add: is_byte_def)
  from rtp_parse_in_bounds [OF this p] p show ?thesis
    by auto
qed

text \<open>Sequence numbers and timestamps advance modulo the width of their field: \<open>n\<close> frames on,
  the sequence number is \<open>n\<close> and the timestamp \<open>n * samples_per_frame\<close> further, wrapped.\<close>

lemma rtp_counters_wrap:
  assumes "0 \<le> s" and "s \<le> 0xFFFF" and "0 \<le> t" and "t \<le> 0xFFFFFFFF"
  shows "(next_sequence ^^ n) s = (s + int n) mod 65536 \<and>
    ((\<lambda>t. next_timestamp t k) ^^ n) t = (t + int n * k) mod 4294967296"
proof (induction n)
  case 0
  show ?case using assms by simp
next
  case (Suc n)
  then show ?case
    by (simp add: next_sequence_def next_timestamp_def and_FFFF and_FFFFFFFF mod_add_left_eq
        mod_add_right_eq algebra_simps)
qed

lemma rtp_counters_wrap_example:
  "(next_sequence ^^ 3) 65534 = 1 \<and> ((\<lambda>t. next_timestamp t 320) ^^ 2) 4294967295 = 639"
  using rtp_counters_wrap [of 65534 4294967295 3 320] rtp_counters_wrap [of 65534 4294967295 2 320]
  by simp

text \<open>An accepted audio payload is bounded: the limit of every usable format is positive and at
  most 12 KiB, and a payload that passes the check is no longer than that.\<close>

lemma audio_payload_bounded:
  assumes "validate_audio_payload_size body fmt = Inr ()"
  shows "\<exists>limit. audio_payload_size_limit fmt = Inr limit \<and> 0 < limit \<and> limit \<le> 12288 \<and>
    int (length body) \<le> limit"
proof -
  obtain limit where l: "audio_payload_size_limit fmt = Inr limit" "int (length body) \<le> limit"
    using assms by (auto simp: validate_audio_payload_size_def bindE_eq_Inr split: if_splits)
  have pos: "0 < (a div 1000) * b * c" if "0 < a" "a mod 1000 = 0" "0 < b" "0 < c" for a b c :: int
    using that by (auto simp: pos_imp_zdiv_pos_iff zero_less_mult_iff)
  have n: "0 < k" if "bytes_per_sample e = Some k" for e k
    using that by (auto simp: bytes_per_sample_def split: if_splits)
  have "0 < limit \<and> limit \<le> 12288"
    using l(1)
    by (auto simp: audio_payload_size_limit_def Let_def bindE_eq_Inr MAX_AUDIO_RTP_PAYLOAD_BYTES_def
        MAX_OPUS_FRAME_BYTES_def min_def n zero_less_mult_iff intro!: pos split: if_splits option.splits)
  with l show ?thesis by blast
qed

lemma audio_payload_bounded_example:
  "\<exists>limit. audio_payload_size_limit \<lparr>encoding = ''pcmu '', rate = 8000, channel_count = 1, ptime = 20\<rparr>
      = Inr limit \<and> 0 < limit \<and> limit \<le> 12288 \<and> int (length (replicate 160 (0::int))) \<le> limit"
  by (rule audio_payload_bounded) code_simp

end
