(* ===== verification/Call_State.thy ===== *)
theory Call_State
  imports Prelude
begin

text \<open>
  \<open>custom_components/voip_stack/fsm.py\<close>: the call-state vocabulary that the HA sessions and the
  bridges share, and the mapping of SIP outcomes to it.

  The two \<open>StrEnum\<close>s are datatypes; \<open>cs_value\<close> and \<open>tr_value\<close> give the
  \<open>.value\<close> text, which is what the functions take and return.  Dictionaries are association
  lists in source order.
\<close>

section \<open>The vocabulary\<close>

datatype call_state =
    IDLE | CALLING | REMOTE_RINGING | RINGING | CONNECTING | IN_CALL | TERMINATING | BUSY
  | DECLINED | CANCELLED | MEDIA_INCOMPATIBLE | TRANSPORT_UNREACHABLE | AUTH_REQUIRED_UNSUPPORTED

fun cs_value :: "call_state \<Rightarrow> string" where
  "cs_value IDLE = ''idle''"
| "cs_value CALLING = ''calling''"
| "cs_value REMOTE_RINGING = ''remote_ringing''"
| "cs_value RINGING = ''ringing''"
| "cs_value CONNECTING = ''connecting''"
| "cs_value IN_CALL = ''in_call''"
| "cs_value TERMINATING = ''terminating''"
| "cs_value BUSY = ''busy''"
| "cs_value DECLINED = ''declined''"
| "cs_value CANCELLED = ''cancelled''"
| "cs_value MEDIA_INCOMPATIBLE = ''media_incompatible''"
| "cs_value TRANSPORT_UNREACHABLE = ''transport_unreachable''"
| "cs_value AUTH_REQUIRED_UNSUPPORTED = ''auth_required_unsupported''"

datatype terminal_reason =
    TR_LOCAL_HANGUP | TR_REMOTE_HANGUP | TR_DECLINED | TR_CANCELLED | TR_FORWARDED | TR_TIMEOUT
  | TR_BUSY | TR_TRANSPORT_UNREACHABLE | TR_MEDIA_INCOMPATIBLE | TR_AUTH_REQUIRED_UNSUPPORTED
  | TR_PROXY_AUTH_REQUIRED_UNSUPPORTED | TR_PROTOCOL_ERROR

fun tr_value :: "terminal_reason \<Rightarrow> string" where
  "tr_value TR_LOCAL_HANGUP = ''local_hangup''"
| "tr_value TR_REMOTE_HANGUP = ''remote_hangup''"
| "tr_value TR_DECLINED = ''declined''"
| "tr_value TR_CANCELLED = ''cancelled''"
| "tr_value TR_FORWARDED = ''forwarded''"
| "tr_value TR_TIMEOUT = ''timeout''"
| "tr_value TR_BUSY = ''busy''"
| "tr_value TR_TRANSPORT_UNREACHABLE = ''transport_unreachable''"
| "tr_value TR_MEDIA_INCOMPATIBLE = ''media_incompatible''"
| "tr_value TR_AUTH_REQUIRED_UNSUPPORTED = ''auth_required_unsupported''"
| "tr_value TR_PROXY_AUTH_REQUIRED_UNSUPPORTED = ''proxy_auth_required_unsupported''"
| "tr_value TR_PROTOCOL_ERROR = ''protocol_error''"

section \<open>Outcomes to states, reasons and responses\<close>

definition public_state_mapping :: "(string \<times> call_state) list" where
  "public_state_mapping =
     [([], IDLE),
      (''idle'', IDLE),
      (''calling'', CALLING),
      (''answered'', IN_CALL),
      (''in_call'', IN_CALL),
      (''ringing'', RINGING),
      (''remote_ringing'', REMOTE_RINGING),
      (''connecting'', CONNECTING),
      (''terminating'', TERMINATING),
      (''busy'', BUSY),
      (''declined'', DECLINED),
      (''dnd'', DECLINED),
      (''cancelled'', CANCELLED),
      (''media_incompatible'', MEDIA_INCOMPATIBLE),
      (''transport_unreachable'', TRANSPORT_UNREACHABLE),
      (''auth_required_unsupported'', AUTH_REQUIRED_UNSUPPORTED),
      (''proxy_auth_required_unsupported'', AUTH_REQUIRED_UNSUPPORTED),
      (''sip_486'', BUSY),
      (''sip_603'', DECLINED),
      (''sip_487'', CANCELLED),
      (''sip_488'', MEDIA_INCOMPATIBLE),
      (''sip_401'', AUTH_REQUIRED_UNSUPPORTED),
      (''sip_407'', AUTH_REQUIRED_UNSUPPORTED),
      (''local_hangup'', IDLE),
      (''remote_hangup'', IDLE),
      (''not_in_call'', IDLE),
      (''timeout'', TRANSPORT_UNREACHABLE),
      (''error'', TRANSPORT_UNREACHABLE),
      (''protocol_error'', TRANSPORT_UNREACHABLE)]"

definition sip_public_state :: "string \<Rightarrow> string" where
  "sip_public_state state =
     (let value = lower (strip state) in
      case assoc public_state_mapping value of
        Some s \<Rightarrow> cs_value s
      | None \<Rightarrow>
          if startswith value ''sip_'' then cs_value TRANSPORT_UNREACHABLE
          else if value \<noteq> [] then cs_value TRANSPORT_UNREACHABLE else cs_value IDLE)"

definition reason_mapping :: "(string \<times> string) list" where
  "reason_mapping =
     [(''local_hangup'', tr_value TR_LOCAL_HANGUP),
      (''remote_hangup'', tr_value TR_REMOTE_HANGUP),
      (''not_in_call'', tr_value TR_LOCAL_HANGUP),
      (''sip_486'', tr_value TR_BUSY),
      (''sip_603'', tr_value TR_DECLINED),
      (''sip_487'', tr_value TR_CANCELLED),
      (''sip_488'', tr_value TR_MEDIA_INCOMPATIBLE),
      (''sip_401'', tr_value TR_AUTH_REQUIRED_UNSUPPORTED),
      (''sip_407'', tr_value TR_PROXY_AUTH_REQUIRED_UNSUPPORTED),
      (''dnd'', ''dnd'')]"

definition sip_terminal_reason :: "string \<Rightarrow> string option \<Rightarrow> string" where
  "sip_terminal_reason result public_state =
     (let value = lower (strip result) in
      case assoc reason_mapping value of
        Some r \<Rightarrow> r
      | None \<Rightarrow>
          if value = ''timeout'' then tr_value TR_TIMEOUT
          else if value \<in> {''error'', ''protocol_error''} then tr_value TR_PROTOCOL_ERROR
          else if startswith value ''sip_'' then value
          else case public_state of
                 Some p \<Rightarrow> or_else p (sip_public_state result)
               | None \<Rightarrow> sip_public_state result)"

text \<open>Status code, reason phrase, terminal reason, public state.\<close>

definition sip_failure_response :: "string \<Rightarrow> nat \<times> string \<times> string \<times> string" where
  "sip_failure_response result =
     (let public_state = sip_public_state result;
          terminal_reason = sip_terminal_reason result (Some public_state)
      in if terminal_reason = ''dnd'' then (486, ''Busy Here'', terminal_reason, public_state)
      else if public_state = cs_value BUSY then (486, ''Busy Here'', terminal_reason, public_state)
      else if public_state = cs_value DECLINED
        then (603, ''Decline'', terminal_reason, public_state)
      else if public_state = cs_value CANCELLED
        then (487, ''Request Terminated'', terminal_reason, public_state)
      else if public_state = cs_value MEDIA_INCOMPATIBLE
        then (488, ''Not Acceptable Here'', terminal_reason, public_state)
      else if terminal_reason = tr_value TR_TIMEOUT
        then (408, ''Request Timeout'', terminal_reason, public_state)
      else (480, ''Temporarily Unavailable'', terminal_reason, public_state))"

text \<open>HA event class, SIP code, reason.\<close>

definition sip_terminal_status :: "string \<Rightarrow> string \<times> int \<times> string" where
  "sip_terminal_status reason =
     (let value = strip reason in
      if value \<in> {tr_value TR_BUSY, tr_value TR_DECLINED, tr_value TR_CANCELLED}
        then (''decline'', 0, value)
      else if value = tr_value TR_MEDIA_INCOMPATIBLE then (''error'', 488, value)
      else if value = tr_value TR_AUTH_REQUIRED_UNSUPPORTED then (''error'', 401, value)
      else if value = tr_value TR_PROXY_AUTH_REQUIRED_UNSUPPORTED then (''error'', 407, value)
      else if value = tr_value TR_TRANSPORT_UNREACHABLE then (''error'', 0, value)
      else if value = tr_value TR_TIMEOUT then (''error'', 408, value)
      else if startswith value ''sip_'' then
        (case py_int (after (CHR ''_'') value) of
           Some n \<Rightarrow> (''error'', n, value)
         | None \<Rightarrow> (''error'', 0, value))
      else (''error'', 0, or_else value (tr_value TR_PROTOCOL_ERROR)))"

section \<open>The mappings, row by row\<close>

lemma lower_strip_cs_value: "lower (strip (cs_value s)) = cs_value s"
  by (cases s; simp only: cs_value.simps; code_simp)

lemma public_state_cs_value: "sip_public_state (cs_value s) = cs_value s"
  unfolding sip_public_state_def lower_strip_cs_value Let_def public_state_mapping_def
  by (cases s) simp_all

text \<open>Every result is the value of a call state.\<close>

lemma public_state_is_call_state: "\<exists>s. sip_public_state r = cs_value s"
  unfolding sip_public_state_def Let_def
  by (auto simp del: cs_value.simps split: option.split)

text \<open>The public call state is a normal form: every outcome text, known or not, is mapped to the
  value of one of the thirteen call states, mapping it again changes nothing, and only the empty,
  idle and hang-up outcomes become idle.\<close>

lemma public_state_normal_form:
  "(\<exists>s. sip_public_state r = cs_value s) \<and> sip_public_state (sip_public_state r) = sip_public_state r \<and>
   (sip_public_state r = cs_value IDLE \<longleftrightarrow>
      lower (strip r) \<in> {[], ''idle'', ''local_hangup'', ''remote_hangup'', ''not_in_call''})"
proof -
  obtain s where "sip_public_state r = cs_value s"
    using public_state_is_call_state by blast
  moreover have "sip_public_state r = cs_value IDLE \<longleftrightarrow>
      lower (strip r) \<in> {[], ''idle'', ''local_hangup'', ''remote_hangup'', ''not_in_call''}"
    unfolding sip_public_state_def Let_def public_state_mapping_def by simp
  ultimately show ?thesis
    using public_state_cs_value by auto
qed

end
