(* ===== verification/Sip_Uri.thy ===== *)
theory Sip_Uri
  imports Prelude
begin

text \<open>
  The header-level half of \<open>custom_components/voip_stack/sip.py\<close>: tokens and tags, SIP URIs,
  list headers, Contact and Record-Route, and the routing of in-dialog requests.  Messages are in
  \<open>Sip_Message\<close>.

  \<open>SipUri\<close> and \<open>SipDialogRoute\<close> are records; \<open>str(uri)\<close>, which validates and may raise,
  is \<open>uri_str\<close>.  \<open>SipError\<close> carries the constant part of its message; the plain
  \<open>ValueError\<close> of an \<open>int()\<close> that the code does not catch is \<open>ValueError\<close>.
\<close>

section \<open>Characters, tokens, tags\<close>

definition DQUOTE :: char where "DQUOTE = CHR 0x22"
definition BSLASH :: char where "BSLASH = CHR 0x5C"

definition TOKEN_SEPARATORS :: string where
  "TOKEN_SEPARATORS = ''()<>@,;:'' @ [BSLASH, DQUOTE] @ ''/[]?={} '' @ [CHR 0x09]"

definition token_char :: "char \<Rightarrow> bool" where
  "token_char c \<longleftrightarrow> 0x21 \<le> ord c \<and> ord c \<le> 0x7E \<and> c \<notin> set TOKEN_SEPARATORS"

definition is_sip_token :: "string \<Rightarrow> bool" where
  "is_sip_token value \<longleftrightarrow> value \<noteq> [] \<and> list_all token_char value"

text \<open>\<open>_QUOTED_STRING_RE.sub\<close>: the rest behind a quoted string whose opening quote has been read,
  if it is closed; a backslash takes the next character with it, but not a line feed.\<close>

fun quoted_rest :: "string \<Rightarrow> string option" where
  "quoted_rest [] = None"
| "quoted_rest (c # s) =
     (if c = DQUOTE then Some s
      else if c = BSLASH then
        (case s of [] \<Rightarrow> None | d # s' \<Rightarrow> if d = LF then None else quoted_rest s')
      else quoted_rest s)"

lemma quoted_rest_length: "quoted_rest s = Some r \<Longrightarrow> length r < length s"
  by (induction s rule: quoted_rest.induct) (fastforce split: if_splits list.splits)+

function blank_quoted :: "string \<Rightarrow> string" where
  "blank_quoted [] = []"
| "blank_quoted (c # s) =
     (if c = DQUOTE then
        (case quoted_rest s of
           Some r \<Rightarrow> DQUOTE # DQUOTE # blank_quoted r
         | None \<Rightarrow> c # blank_quoted s)
      else c # blank_quoted s)"
  by pat_completeness auto
termination
  by (relation "measure length") (auto dest: quoted_rest_length)

text \<open>\<open>_TAG_RE.search\<close>, \<open>(?:^|;)tag=([^;>\s]+)\<close> without regard to case.\<close>

definition tag_here :: "string \<Rightarrow> string option" where
  "tag_here s =
     (if lower (take 4 s) = ''tag='' then
        (let v = takeWhile (\<lambda>c. c \<noteq> CHR '';'' \<and> c \<noteq> CHR ''>'' \<and> \<not> is_space c) (drop 4 s)
         in if v = [] then None else Some v)
      else None)"

fun search_tag :: "string \<Rightarrow> string option" where
  "search_tag [] = None"
| "search_tag (c # s) =
     (if c = CHR '';'' then (case tag_here s of Some v \<Rightarrow> Some v | None \<Rightarrow> search_tag s)
      else search_tag s)"

definition extract_tag :: "string \<Rightarrow> string" where
  "extract_tag header =
     (let clean = blank_quoted header in
      case tag_here clean of
        Some v \<Rightarrow> v
      | None \<Rightarrow> (case search_tag clean of Some v \<Rightarrow> v | None \<Rightarrow> []))"

section \<open>SIP URIs\<close>

record sip_uri =
  uri_user :: string
  uri_host :: string
  uri_port :: "int option"
  uri_params :: "(string \<times> string option) list"

definition bad_host_char :: "char \<Rightarrow> bool" where
  "bad_host_char c \<longleftrightarrow> ord c < 0x21 \<or> c \<in> set (''<>'' @ [DQUOTE] @ ''/@,;?'' @ [BSLASH])"

definition control_char :: "char \<Rightarrow> bool" where
  "control_char c \<longleftrightarrow> ord c < 0x20"

definition USER_SAFE :: string where
  "USER_SAFE = ''!$&'' @ [CHR 0x27] @ ''()*+,-./:;=?_~''"

definition PARAM_SAFE :: string where
  "PARAM_SAFE = ''!$&'' @ [CHR 0x27] @ ''()*+,-./:[]_~%''"

fun render_params :: "(string \<times> string option) list \<Rightarrow> exn + string" where
  "render_params [] = Inr []"
| "render_params ((key, value) # ps) =
     (if key = [] then render_params ps
      else if \<not> is_sip_token key \<or> (case value of Some v \<Rightarrow> list_ex control_char v | None \<Rightarrow> False)
        then Inl (SipError ''SIP URI contains an invalid parameter'')
      else bindE (render_params ps) (\<lambda>rest.
        Inr (CHR '';'' # key
             @ (case value of None \<Rightarrow> [] | Some v \<Rightarrow> CHR ''='' # quote PARAM_SAFE v) @ rest)))"

definition uri_str :: "sip_uri \<Rightarrow> exn + string" where
  "uri_str u =
     (let user = strip (uri_user u); host = strip (uri_host u) in
      if host = [] then Inl (SipError ''SIP URI requires non-empty host'')
      else if list_ex bad_host_char host then Inl (SipError ''SIP URI contains an invalid host'')
      else
        let safe_user = quote USER_SAFE user;
            uri = ''sip:'' @ (if safe_user \<noteq> [] then safe_user @ ''@'' @ host else host)
        in bindE
             (case uri_port u of
                None \<Rightarrow> Inr []
              | Some p \<Rightarrow>
                  if \<not> (1 \<le> p \<and> p \<le> 65535) then Inl (SipError ''SIP URI port out of range'')
                  else Inr (CHR '':'' # dec_int p))
             (\<lambda>port. bindE (render_params (uri_params u)) (\<lambda>params. Inr (uri @ port @ params))))"

definition parse_param :: "string \<Rightarrow> string \<times> string option" where
  "parse_param p =
     (if contains (CHR ''='') p
      then (strip (before (CHR ''='') p), Some (strip (after (CHR ''='') p)))
      else (strip p, None))"

text \<open>The text between the first \<open><\<close> and the \<open>>\<close> behind it, unless it is empty.\<close>

definition angle_content :: "string \<Rightarrow> string" where
  "angle_content raw =
     (let inner = after (CHR ''<'') raw in
      if contains (CHR ''<'') raw \<and> contains (CHR ''>'') inner \<and> before (CHR ''>'') inner \<noteq> []
      then strip (before (CHR ''>'') inner) else raw)"

definition split_host_port :: "string \<Rightarrow> exn + (string \<times> int option)" where
  "split_host_port host_part =
     (if length (filter (\<lambda>c. c = CHR '':'') host_part) = 1 \<and> \<not> startswith host_part ''[''
      then (let host = rbefore (CHR '':'') host_part; port_raw = rafter (CHR '':'') host_part in
            if port_raw = [] then Inr (host, None)
            else (case py_int port_raw of None \<Rightarrow> Inl ValueError | Some p \<Rightarrow> Inr (host, Some p)))
      else Inr (host_part, None))"

definition parse_sip_uri :: "string \<Rightarrow> exn + sip_uri" where
  "parse_sip_uri value =
     (let raw = strip value in
      if list_ex (\<lambda>c. c = CR \<or> c = LF) raw then Inl (SipError ''SIP URI contains a line break'')
      else
      let raw = angle_content raw in
      if \<not> startswith (lower raw) ''sip:'' then Inl (SipError ''not a sip URI'')
      else
      let rest = drop 4 raw;
          user = (if contains (CHR ''@'') rest then before (CHR ''@'') rest else []);
          host_params = (if contains (CHR ''@'') rest then after (CHR ''@'') rest else rest);
          host_part = before (CHR '';'') host_params;
          params_raw = (if contains (CHR '';'') host_params
             then filter (\<lambda>p. p \<noteq> []) (split_on (CHR '';'') (after (CHR '';'') host_params)) else [])
      in bindE (split_host_port host_part) (\<lambda>(host, port).
         case unquote (strip user) of
           None \<Rightarrow> Inl (SipError ''SIP URI user has invalid percent encoding'')
         | Some user' \<Rightarrow>
             let uri = \<lparr> uri_user = user', uri_host = strip host, uri_port = port,
                         uri_params = map parse_param params_raw \<rparr>
             in bindE (uri_str uri) (\<lambda>_. Inr uri)))"

section \<open>List headers\<close>

text \<open>The scanner of \<open>_split_comma_header_values\<close>.  The arguments are the loop's state: the
  item read since the last separator (reversed), \<open>quoted\<close>, \<open>escaped\<close>, \<open>angle_depth\<close>.\<close>

fun split_commas :: "string \<Rightarrow> bool \<Rightarrow> bool \<Rightarrow> nat \<Rightarrow> string \<Rightarrow> exn + string list" where
  "split_commas acc quoted escaped depth [] =
     (if quoted \<or> escaped \<or> 0 < depth then Inl (SipError ''SIP list header is malformed'')
      else if strip (rev acc) = [] then Inl (SipError ''SIP list header contains an empty value'')
      else Inr [strip (rev acc)])"
| "split_commas acc quoted escaped depth (c # s) =
     (if escaped then split_commas (c # acc) quoted False depth s
      else if quoted \<and> c = BSLASH then split_commas (c # acc) quoted True depth s
      else if c = DQUOTE then split_commas (c # acc) (\<not> quoted) False depth s
      else if quoted then split_commas (c # acc) quoted False depth s
      else if c = CHR ''<'' then
        (if 1 < depth + 1
         then Inl (SipError ''SIP list header has nested name-address brackets'')
         else split_commas (c # acc) False False (depth + 1) s)
      else if c = CHR ''>'' then
        (if depth = 0 then Inl (SipError ''SIP list header has an unmatched closing bracket'')
         else split_commas (c # acc) False False (depth - 1) s)
      else if c = CHR '','' \<and> depth = 0 then
        (if strip (rev acc) = [] then Inl (SipError ''SIP list header contains an empty value'')
         else bindE (split_commas [] False False depth s) (\<lambda>vs. Inr (strip (rev acc) # vs)))
      else split_commas (c # acc) False False depth s)"

definition split_comma_header_values :: "string \<Rightarrow> exn + string list" where
  "split_comma_header_values value =
     (if list_ex (\<lambda>c. c = CR \<or> c = LF) value
      then Inl (SipError ''SIP list header contains a line break'')
      else split_commas [] False False 0 value)"

section \<open>Headers of a message\<close>

type_synonym headers = "(string \<times> string) list"

definition COMPACT_HEADER_NAMES :: "(string \<times> string) list" where
  "COMPACT_HEADER_NAMES =
     [(''call-id'', ''i''), (''contact'', ''m''), (''content-encoding'', ''e''),
      (''content-length'', ''l''), (''content-type'', ''c''), (''from'', ''f''),
      (''subject'', ''s''), (''supported'', ''k''), (''to'', ''t''), (''via'', ''v'')]"

definition CANONICAL_HEADER_NAMES :: "(string \<times> string) list" where
  "CANONICAL_HEADER_NAMES = map (\<lambda>(full, compact). (compact, full)) COMPACT_HEADER_NAMES"

definition canonical_name :: "string \<Rightarrow> string" where
  "canonical_name wanted =
     (case assoc CANONICAL_HEADER_NAMES wanted of Some full \<Rightarrow> full | None \<Rightarrow> wanted)"

definition header_values :: "headers \<Rightarrow> string \<Rightarrow> string list" where
  "header_values hs name =
     (let canonical = canonical_name (lower name);
          compact = assoc COMPACT_HEADER_NAMES canonical
      in map snd (filter (\<lambda>(key, value). lower key = canonical \<or> Some (lower key) = compact) hs))"

definition header :: "headers \<Rightarrow> string \<Rightarrow> string" where
  "header hs name = (let vs = header_values hs name in if vs = [] then [] else last vs)"

section \<open>Contact, route set, in-dialog routing\<close>

definition contact_target_uri :: "headers \<Rightarrow> exn + string" where
  "contact_target_uri hs =
     (case header_values hs ''Contact'' of
        [] \<Rightarrow> Inr []
      | [v] \<Rightarrow>
          (let value = strip v in
           if value = [] \<or> value = ''*''
             then Inl (SipError ''SIP dialog Contact must contain one SIP URI'')
           else bindE (split_comma_header_values value) (\<lambda>contacts.
             case contacts of
               [c] \<Rightarrow> bindE (parse_sip_uri c) uri_str
             | _ \<Rightarrow> Inl (SipError ''SIP dialog Contact must not contain a contact list'')))
      | _ \<Rightarrow> Inl (SipError ''SIP dialog Contact must contain exactly one value''))"

definition record_route_set :: "headers \<Rightarrow> bool \<Rightarrow> exn + string list" where
  "record_route_set hs reverse =
     bindE
       (concatE (\<lambda>field_value. bindE (split_comma_header_values field_value)
          (mapE (\<lambda>route. bindE (parse_sip_uri route) (\<lambda>_. Inr route))))
         (header_values hs ''Record-Route''))
       (\<lambda>routes. Inr (if reverse then rev routes else routes))"

record dialog_route =
  dr_request_uri :: string
  dr_route_headers :: "string list"
  dr_next_hop_uri :: string

definition dialog_request_routing :: "string \<Rightarrow> string list \<Rightarrow> exn + dialog_route" where
  "dialog_request_routing remote_target_uri route_set =
     bindE (bindE (parse_sip_uri remote_target_uri) uri_str) (\<lambda>remote_target.
       let routes = map strip route_set in
       if routes = [] then
         Inr \<lparr> dr_request_uri = remote_target, dr_route_headers = [], dr_next_hop_uri = remote_target \<rparr>
       else bindE (mapE parse_sip_uri routes) (\<lambda>parsed_routes.
         bindE (uri_str (hd parsed_routes)) (\<lambda>first_uri.
           if list_ex (\<lambda>(key, _). lower (strip key) = ''lr'') (uri_params (hd parsed_routes)) then
             Inr \<lparr> dr_request_uri = remote_target, dr_route_headers = routes, dr_next_hop_uri = first_uri \<rparr>
           else
             Inr \<lparr> dr_request_uri = first_uri,
                   dr_route_headers = tl routes @ [''<'' @ remote_target @ ''>''],
                   dr_next_hop_uri = first_uri \<rparr>)))"

section \<open>A rendered URI is one clean word\<close>

definition clean_char :: "char \<Rightarrow> bool" where
  "clean_char c \<longleftrightarrow> 0x20 < ord c \<and> c \<noteq> CHR ''<'' \<and> c \<noteq> CHR ''>''"

lemma clean_literals [simp]:
  "list_all clean_char ''sip:%@;=_.-~''"
  "clean_char (CHR ''%'')" "clean_char (CHR ''@'')" "clean_char (CHR '':'')"
  "clean_char (CHR '';'')" "clean_char (CHR ''='')" "clean_char (CHR ''_'')"
  "clean_char (CHR ''.'')" "clean_char (CHR ''-'')" "clean_char (CHR ''~'')"
  "clean_char (CHR ''s'')" "clean_char (CHR ''i'')" "clean_char (CHR ''p'')"
  by (simp_all add: clean_char_def)

lemma alnum_clean: "is_alnum c \<Longrightarrow> clean_char c"
  by (auto simp: is_alnum_def is_digit_def is_upper_def is_lower_def clean_char_def)

lemma hex_digit_alnum: "n < 16 \<Longrightarrow> is_alnum (hex_digit n)"
  by (auto simp: hex_digit_def is_alnum_def is_digit_def is_upper_def)

lemma quote_clean:
  assumes "\<forall>c \<in> set safe. clean_char c"
  shows "\<forall>c \<in> set (quote safe s). clean_char c"
proof -
  have "\<forall>d \<in> set (quote_char safe c). clean_char d" for c
  proof (cases "quote_safe safe c")
    case True
    then have "clean_char c"
      using assms alnum_clean by (auto simp: quote_safe_def)
    with True show ?thesis by (simp add: quote_char_def)
  next
    case False
    have "ord c div 16 < 16" "ord c mod 16 < 16"
      using ord_less_256 [of c] by (simp_all add: div_less_iff_less_mult)
    then have "clean_char (hex_digit (ord c div 16))" "clean_char (hex_digit (ord c mod 16))"
      by (blast intro: alnum_clean hex_digit_alnum)+
    with False show ?thesis by (simp add: quote_char_def)
  qed
  then show ?thesis by (auto simp: quote_def)
qed

lemma safe_sets_clean:
  "\<forall>c \<in> set USER_SAFE. clean_char c" "\<forall>c \<in> set PARAM_SAFE. clean_char c"
  unfolding list_all_iff [symmetric] by code_simp+

lemma angle_separators: "CHR ''<'' \<in> set TOKEN_SEPARATORS" "CHR ''>'' \<in> set TOKEN_SEPARATORS"
  by (simp_all add: TOKEN_SEPARATORS_def)

lemma token_char_clean: "token_char c \<Longrightarrow> clean_char c"
proof -
  assume t: "token_char c"
  then have "0x20 < ord c" by (simp add: token_char_def)
  moreover have "c \<noteq> CHR ''<''" "c \<noteq> CHR ''>''"
    using t angle_separators by (blast | metis token_char_def)+
  ultimately show ?thesis by (simp add: clean_char_def)
qed

lemma token_clean: "is_sip_token k \<Longrightarrow> c \<in> set k \<Longrightarrow> clean_char c"
  by (auto simp: is_sip_token_def list_all_iff intro: token_char_clean)

lemma render_params_clean:
  "render_params ps = Inr s \<Longrightarrow> c \<in> set s \<Longrightarrow> clean_char c"
proof (induction ps arbitrary: s rule: render_params.induct)
  case (2 key v ps)
  then show ?case
    using quote_clean [OF safe_sets_clean(2)] token_clean [of key c]
    by (auto simp: bindE_eq_Inr split: if_splits option.splits)
qed simp

lemma dec_clean: "c \<in> set (dec n) \<Longrightarrow> clean_char c"
  using dec_digits [of n] alnum_clean by (auto simp: is_alnum_def)

lemma not_bad_host_clean: "\<not> bad_host_char c \<Longrightarrow> clean_char c"
  by (simp add: bad_host_char_def clean_char_def)

lemma uri_str_clean:
  assumes "uri_str u = Inr s" and "c \<in> set s"
  shows "clean_char c"
proof -
  define host where "host = strip (uri_host u)"
  obtain port params where host: "\<not> list_ex bad_host_char host"
    and port: "port = (case uri_port u of None \<Rightarrow> [] | Some p \<Rightarrow> CHR '':'' # dec (nat p))"
    and params: "render_params (uri_params u) = Inr params"
    and s: "s = ''sip:'' @ (if quote USER_SAFE (strip (uri_user u)) \<noteq> []
        then quote USER_SAFE (strip (uri_user u)) @ ''@'' @ host else host) @ port @ params"
    using assms(1)
    by (auto simp: uri_str_def Let_def host_def bindE_eq_Inr dec_int_def split: if_splits option.splits)
  have "clean_char d" if "d \<in> set host" for d
    using host that not_bad_host_clean by (auto simp: list_ex_iff)
  moreover have "clean_char d" if "d \<in> set port" for d
    using port that dec_clean by (auto split: option.splits)
  moreover have "clean_char d" if "d \<in> set params" for d
    using render_params_clean [OF params that] .
  ultimately show ?thesis
    using assms(2) quote_clean [OF safe_sets_clean(1), of "strip (uri_user u)"]
    by (auto simp: s split: if_splits)
qed

section \<open>Tags\<close>

definition tag_value :: "string \<Rightarrow> bool" where
  "tag_value t \<longleftrightarrow> t \<noteq> [] \<and>
     (\<forall>c \<in> set t. c \<noteq> CHR '';'' \<and> c \<noteq> CHR ''>'' \<and> c \<noteq> DQUOTE \<and> \<not> is_space c)"

lemma blank_quoted_plain: "DQUOTE \<notin> set s \<Longrightarrow> blank_quoted s = s"
  by (induction s) auto

lemma quoted_rest_plain:
  "DQUOTE \<notin> set d \<Longrightarrow> BSLASH \<notin> set d \<Longrightarrow> quoted_rest (d @ DQUOTE # r) = Some r"
  by (induction d) auto

lemma search_tag_skip: "CHR '';'' \<notin> set s \<Longrightarrow> search_tag (s @ r) = search_tag r"
  by (induction s) auto

lemma tag_here_tag: "tag_value t \<Longrightarrow> tag_here (''tag='' @ t) = Some t"
proof -
  assume t: "tag_value t"
  then have tw: "takeWhile (\<lambda>c. c \<noteq> CHR '';'' \<and> c \<noteq> CHR ''>'' \<and> \<not> is_space c) t = t" and "t \<noteq> []"
    by (simp_all add: tag_value_def takeWhile_eq_all_conv)
  moreover have "lower ''tag='' = ''tag=''"
    by code_simp
  ultimately show ?thesis
    by (simp add: tag_here_def Let_def tw del: takeWhile_eq_all_conv takeWhile_eq_Nil_iff)
qed

lemma tag_here_not_t: "lower_char c \<noteq> CHR ''t'' \<Longrightarrow> tag_here (c # s) = None"
  by (simp add: tag_here_def lower_def)

lemma lower_char_specials: "lower_char (CHR ''<'') \<noteq> CHR ''t''" "lower_char DQUOTE \<noteq> CHR ''t''"
  by (simp_all add: lower_char_def is_upper_def DQUOTE_def)

lemma extract_tag_name_addr:
  assumes "DQUOTE \<notin> set uri" "CHR '';'' \<notin> set uri" and "tag_value t"
  shows "extract_tag (''<'' @ uri @ ''>;tag='' @ t) = t"
proof -
  let ?h = "''<'' @ uri @ ''>;tag='' @ t"
  have "DQUOTE \<notin> set ?h"
    using assms by (auto simp: tag_value_def DQUOTE_def)
  then have "blank_quoted ?h = ?h"
    by (rule blank_quoted_plain)
  moreover have "search_tag ?h = Some t"
    using search_tag_skip [of "''<'' @ uri @ ''>''" "CHR '';'' # ''tag='' @ t"] assms(2)
      tag_here_tag [OF assms(3)] by simp
  ultimately show ?thesis
    using tag_here_not_t [OF lower_char_specials(1), of "uri @ ''>;tag='' @ t"]
    by (simp only: extract_tag_def Let_def append_Cons append_Nil option.case)
qed

text \<open>A display name cannot forge the tag of a From or To header: whatever stands between the
  quotes, the tag read from a header with a quoted display name is the header parameter behind the
  closing angle bracket.\<close>

lemma quoted_display_name_cannot_forge_tag:
  assumes d: "DQUOTE \<notin> set d" "BSLASH \<notin> set d"
    and uri: "DQUOTE \<notin> set uri" "CHR '';'' \<notin> set uri" and t: "tag_value t"
  shows "extract_tag (DQUOTE # d @ DQUOTE # '' <'' @ uri @ ''>;tag='' @ t) = t"
proof -
  let ?r = "'' <'' @ uri @ ''>;tag='' @ t"
  have "DQUOTE \<notin> set ?r"
    using uri t by (auto simp: tag_value_def DQUOTE_def)
  then have b: "blank_quoted (DQUOTE # d @ DQUOTE # ?r) = DQUOTE # DQUOTE # ?r"
    using quoted_rest_plain [OF d, of ?r] blank_quoted_plain [of ?r] by simp
  have "search_tag (DQUOTE # DQUOTE # ?r) = Some t"
    using search_tag_skip [of "[DQUOTE, DQUOTE] @ '' <'' @ uri @ ''>''" "CHR '';'' # ''tag='' @ t"]
      uri(2) tag_here_tag [OF t] by (simp add: DQUOTE_def)
  then show ?thesis
    using tag_here_not_t [OF lower_char_specials(2), of "DQUOTE # ?r"]
    by (simp only: extract_tag_def Let_def b option.case)
qed

lemma quoted_display_name_cannot_forge_tag_example:
  "extract_tag (DQUOTE # ''x>;tag=evil'' @ DQUOTE # '' <'' @ ''sip:bob@10.0.0.9'' @ ''>;tag='' @ ''real1'')
     = ''real1''"
  by (rule quoted_display_name_cannot_forge_tag) (simp_all add: DQUOTE_def BSLASH_def tag_value_def is_space_def)

text \<open>But a URI parameter can: inside the angle brackets a parameter named tag is found before
  the tag of the header.\<close>

lemma uri_parameter_shadows_tag:
  "extract_tag ''<sip:bob@10.0.0.9;tag=evil>;tag=real1'' = ''evil''"
  by code_simp

section \<open>Rendered URIs\<close>

lemma uri_str_shape:
  assumes "uri_str u = Inr s"
  shows "\<exists>r. s = ''sip:'' @ r"
proof -
  define host where "host = strip (uri_host u)"
  obtain port params where
    "s = ''sip:'' @ (if quote USER_SAFE (strip (uri_user u)) \<noteq> []
        then quote USER_SAFE (strip (uri_user u)) @ ''@'' @ host else host) @ port @ params"
    using assms
    by (auto simp: uri_str_def Let_def host_def bindE_eq_Inr split: if_splits)
  then show ?thesis by blast
qed

text \<open>A rendered URI is one word that starts with its scheme and holds no control character,
  blank or angle bracket, so that it cannot break out of a request line, a header or the name-address
  form it is put into; user and parameters are free text.\<close>

lemma rendered_uri_is_one_word:
  assumes "uri_str u = Inr s"
  shows "startswith s ''sip:'' \<and> (\<forall>c \<in> set s. 0x20 < ord c \<and> c \<noteq> CHR ''<'' \<and> c \<noteq> CHR ''>'')"
proof -
  have "startswith s ''sip:''"
    using uri_str_shape [OF assms] by (auto simp: startswith_def)
  moreover have "\<forall>c \<in> set s. clean_char c"
    using uri_str_clean [OF assms] by blast
  ultimately show ?thesis
    unfolding clean_char_def by blast
qed

lemma rendered_uri_is_one_word_example:
  "\<exists>s. uri_str \<lparr> uri_user = ''a b>'', uri_host = '' h '', uri_port = Some 7,
      uri_params = [(''x'', Some ''<1>'')] \<rparr> = Inr s \<and> startswith s ''sip:'' \<and>
    (\<forall>c \<in> set s. 0x20 < ord c \<and> c \<noteq> CHR ''<'' \<and> c \<noteq> CHR ''>'')"
proof -
  have e: "uri_str \<lparr> uri_user = ''a b>'', uri_host = '' h '', uri_port = Some 7,
      uri_params = [(''x'', Some ''<1>'')] \<rparr> = Inr ''sip:a%20b%3E@h:7;x=%3C1%3E''"
    by code_simp
  show ?thesis
    using rendered_uri_is_one_word [OF e] e by blast
qed

section \<open>In-dialog routing\<close>

text \<open>The hops a request still has to visit, as name-addresses: its request URI and its Route
  headers, in the order of RFC 3261, 16.12: a loose router pops the Route header that names it and
  leaves the request URI to the end, a strict router is named by the request URI.\<close>

definition itinerary :: "bool \<Rightarrow> dialog_route \<Rightarrow> string list" where
  "itinerary loose r =
     (if loose then dr_route_headers r @ [''<'' @ dr_request_uri r @ ''>'']
      else (''<'' @ dr_request_uri r @ ''>'') # dr_route_headers r)"

definition first_is_loose :: "string list \<Rightarrow> bool" where
  "first_is_loose route_set =
     (case parse_sip_uri (strip (hd route_set)) of
        Inl _ \<Rightarrow> False
      | Inr u \<Rightarrow> list_ex (\<lambda>(key, _). lower (strip key) = ''lr'') (uri_params u))"

text \<open>C27: An in-dialog request visits every proxy of the route set once and in order and ends at
  the dialog's remote target, whether the first proxy is a loose or a strict router, and the next hop
  is the first proxy, or the remote target when there is no route set.\<close>

theorem routing_visits_every_hop:
  assumes "dialog_request_routing target route_set = Inr r"
  shows "\<exists>final u. parse_sip_uri target = Inr u \<and> uri_str u = Inr final \<and>
    (if route_set = [] then itinerary False r = [''<'' @ final @ ''>''] \<and> dr_next_hop_uri r = final
     else \<exists>v first. parse_sip_uri (strip (hd route_set)) = Inr v \<and> uri_str v = Inr first \<and>
       dr_next_hop_uri r = first \<and>
       itinerary (first_is_loose route_set) r =
         (if first_is_loose route_set then strip (hd route_set) else ''<'' @ first @ ''>'')
         # map strip (tl route_set) @ [''<'' @ final @ ''>''])"
proof (cases route_set)
  case Nil
  with assms show ?thesis
    by (auto simp: dialog_request_routing_def Let_def bindE_eq_Inr itinerary_def)
next
  case (Cons x xs)
  with assms show ?thesis
    by (auto simp: dialog_request_routing_def Let_def bindE_eq_Inr itinerary_def first_is_loose_def
        split: if_splits sum.splits)
qed

theorem routing_visits_every_hop_witness:
  "\<exists>r. dialog_request_routing ''sip:b@10.0.0.9'' [''<sip:p1;lr>'', ''<sip:p2>''] = Inr r \<and>
     dr_next_hop_uri r = ''sip:p1;lr''"
proof -
  let ?r = "\<lparr> dr_request_uri = ''sip:b@10.0.0.9'', dr_route_headers = [''<sip:p1;lr>'', ''<sip:p2>''],
              dr_next_hop_uri = ''sip:p1;lr'' \<rparr>"
  have e: "dialog_request_routing ''sip:b@10.0.0.9'' [''<sip:p1;lr>'', ''<sip:p2>''] = Inr ?r"
    by code_simp
  from routing_visits_every_hop [OF e] show ?thesis
    using e by auto
qed

text \<open>The remote target taken from a Contact header is either absent (no Contact) or one
  rendered SIP URI: one word with its scheme, whatever the peer sent.\<close>

lemma contact_target_is_rendered_uri:
  assumes "contact_target_uri hs = Inr t"
  shows "if header_values hs ''Contact'' = [] then t = []
    else \<exists>v c u. header_values hs ''Contact'' = [v] \<and> split_comma_header_values (strip v) = Inr [c] \<and>
      parse_sip_uri c = Inr u \<and> uri_str u = Inr t"
proof (cases "header_values hs ''Contact''")
  case Nil
  with assms show ?thesis by (simp add: contact_target_uri_def)
next
  case (Cons v vs)
  with assms have vs: "vs = []"
    by (cases vs) (simp_all add: contact_target_uri_def)
  then obtain cs where cs: "split_comma_header_values (strip v) = Inr cs"
    and t: "(case cs of [c] \<Rightarrow> bindE (parse_sip_uri c) uri_str
        | _ \<Rightarrow> Inl (SipError ''SIP dialog Contact must not contain a contact list'')) = Inr t"
    using assms Cons by (auto simp: contact_target_uri_def Let_def bindE_eq_Inr split: if_splits)
  then obtain c where "cs = [c]"
    by (auto split: list.splits)
  with t cs Cons vs show ?thesis
    by (auto simp: bindE_eq_Inr)
qed

lemma contact_target_is_rendered_uri_example:
  "\<exists>v c u. header_values [(''m'', ''Bob <sip:bob@h>;expires=60'')] ''Contact'' = [v] \<and>
     split_comma_header_values (strip v) = Inr [c] \<and> parse_sip_uri c = Inr u \<and>
     uri_str u = Inr ''sip:bob@h''"
proof -
  let ?hs = "[(''m'', ''Bob <sip:bob@h>;expires=60'')]"
  have e: "contact_target_uri ?hs = Inr ''sip:bob@h''"
    by code_simp
  have c: "header_values ?hs ''Contact'' \<noteq> []"
    by code_simp
  show ?thesis
    using contact_target_is_rendered_uri [OF e] c by presburger
qed

end
