(* ===== verification/Sip_Message.thy ===== *)
theory Sip_Message
  imports Sip_Uri Call_State
begin

text \<open>
  The message half of \<open>custom_components/voip_stack/sip.py\<close>: Via and CSeq values, parsing and
  building of SIP/2.0 messages, the header set of a dialog request.

  A datagram is the byte list of its content; \<open>utf8_valid\<close> is the strict decoding of the head.
\<close>

section \<open>Limits and names\<close>

definition SIP_VERSION :: string where "SIP_VERSION = ''SIP/2.0''"
definition MAX_SIP_MESSAGE_BYTES :: nat where "MAX_SIP_MESSAGE_BYTES = 8192"
definition MAX_SIP_BODY_BYTES :: int where "MAX_SIP_BODY_BYTES = 4096"

text \<open>In the order of \<open>sorted(SUPPORTED_METHODS)\<close>, which the Allow header uses.\<close>

definition SUPPORTED_METHODS :: "string list" where
  "SUPPORTED_METHODS =
     [''ACK'', ''BYE'', ''CANCEL'', ''INFO'', ''INVITE'', ''OPTIONS'', ''REGISTER'', ''UPDATE'']"

definition SINGLETON_HEADERS :: "string list" where
  "SINGLETON_HEADERS = [''call-id'', ''cseq'', ''from'', ''to'']"

record sip_message =
  msg_method :: "string option"
  msg_uri :: string
  status_code :: "int option"
  msg_reason :: string
  msg_headers :: headers
  msg_body :: string

definition is_request :: "sip_message \<Rightarrow> bool" where
  "is_request m \<longleftrightarrow> msg_method m \<noteq> None"

definition is_response :: "sip_message \<Rightarrow> bool" where
  "is_response m \<longleftrightarrow> status_code m \<noteq> None"

section \<open>Via and CSeq\<close>

record sip_via =
  via_transport :: string
  via_host :: string
  via_port :: int
  via_branch :: string
  via_rport :: "int option"
  via_received :: string
  via_params :: "(string \<times> string option) list"

definition split_semicolon_params :: "string \<Rightarrow> string \<times> (string \<times> string option) list" where
  "split_semicolon_params value =
     (let parts = map strip (split_on (CHR '';'') value)
      in (hd parts,
          map (\<lambda>part.
             if contains (CHR ''='') part
             then (lower (strip (before (CHR ''='') part)), Some (strip (after (CHR ''='') part)))
             else (lower (strip part), None))
           (filter (\<lambda>part. part \<noteq> []) (tl parts))))"

text \<open>\<open>param_map.get(key)\<close>: the last parameter of that name wins.\<close>

definition param_get :: "(string \<times> string option) list \<Rightarrow> string \<Rightarrow> string option" where
  "param_get params key =
     (case assoc (rev params) key of Some (Some v) \<Rightarrow> Some v | _ \<Rightarrow> None)"

definition parse_via :: "string \<Rightarrow> exn + sip_via" where
  "parse_via value =
     (let (head, params) = split_semicolon_params (strip value); bits = words head in
      if length bits \<noteq> 2 \<or> \<not> startswith (upper (bits ! 0)) ''SIP/2.0/''
        then Inl (SipError ''bad Via header'')
      else
      let transport = upper (rafter (CHR ''/'') (bits ! 0)); sent_by = bits ! 1 in
      if transport \<notin> {''UDP'', ''TCP''} then Inl (SipError ''unsupported Via transport'')
      else bindE
        (if length (filter (\<lambda>c. c = CHR '':'') sent_by) = 1 \<and> \<not> startswith sent_by ''['' then
           (case py_int (rafter (CHR '':'') sent_by) of
              None \<Rightarrow> Inl ValueError
            | Some p \<Rightarrow> Inr (rbefore (CHR '':'') sent_by, p))
         else Inr (sent_by, 5060))
        (\<lambda>(host, port).
          if host = [] \<or> \<not> (1 \<le> port \<and> port \<le> 65535) then Inl (SipError ''bad Via sent-by'')
          else bindE
            (case param_get params ''rport'' of
               None \<Rightarrow> Inr None
             | Some raw \<Rightarrow>
                 if raw = [] then Inr None
                 else (case py_int raw of
                         None \<Rightarrow> Inl ValueError
                       | Some r \<Rightarrow>
                           if \<not> (1 \<le> r \<and> r \<le> 65535) then Inl (SipError ''bad Via rport'')
                           else Inr (Some r)))
            (\<lambda>rport. Inr \<lparr> via_transport = transport, via_host = host, via_port = port,
               via_branch = (case param_get params ''branch'' of Some b \<Rightarrow> b | None \<Rightarrow> []),
               via_rport = rport,
               via_received = (case param_get params ''received'' of Some r \<Rightarrow> r | None \<Rightarrow> []),
               via_params = params \<rparr>)))"

record sip_cseq =
  cseq_number :: int
  cseq_method :: string

definition parse_cseq :: "string \<Rightarrow> exn + sip_cseq" where
  "parse_cseq value =
     (let parts = words (strip value) in
      if length parts \<noteq> 2 then Inl (SipError ''bad CSeq header'')
      else case py_int (parts ! 0) of
        None \<Rightarrow> Inl ValueError
      | Some number \<Rightarrow>
          let method = upper (parts ! 1) in
          if \<not> (0 \<le> number \<and> number \<le> 0x7FFFFFFF) then Inl (SipError ''bad CSeq number'')
          else if method \<notin> set SUPPORTED_METHODS
            then Inl (SipError ''unsupported CSeq method'')
          else Inr \<lparr> cseq_number = number, cseq_method = method \<rparr>)"

definition sip_failure_reason :: "int \<Rightarrow> string" where
  "sip_failure_reason code =
     (if code = 401 then ''auth_required_unsupported''
      else if code = 407 then ''proxy_auth_required_unsupported''
      else if code = 486 then ''busy''
      else if code = 487 then ''cancelled''
      else if code = 488 then ''media_incompatible''
      else if code = 603 then ''declined''
      else ''sip_'' @ dec_int code)"

section \<open>Parsing a message\<close>

definition split_header_body :: "string \<Rightarrow> exn + (string \<times> string)" where
  "split_header_body data =
     (if MAX_SIP_MESSAGE_BYTES < length data then Inl (SipError ''SIP message too large'')
      else case cut_at (CRLF @ CRLF) data of
        None \<Rightarrow> Inl (SipError ''SIP message missing CRLF CRLF separator'')
      | Some (head, body) \<Rightarrow>
          if \<not> utf8_valid head then Inl (SipError ''SIP header is not strict UTF-8'')
          else Inr (head, body))"

definition blank :: "char \<Rightarrow> bool" where
  "blank c \<longleftrightarrow> c = CHR '' '' \<or> c = CHR 0x09"

text \<open>Continuation lines are appended to the line before; \<open>sofar\<close> holds the unfolded lines so far,
  last first.\<close>

fun unfold_lines :: "string list \<Rightarrow> string list \<Rightarrow> exn + string list" where
  "unfold_lines sofar [] = Inr (rev sofar)"
| "unfold_lines sofar (line # lines) =
     (if line = [] then unfold_lines sofar lines
      else if blank (hd line) then
        (case sofar of
           [] \<Rightarrow> Inl (SipError ''SIP header continuation has no preceding header'')
         | d # ds \<Rightarrow> unfold_lines ((d @ '' '' @ dropWhile blank line) # ds) lines)
      else unfold_lines (line # sofar) lines)"

definition bad_value_char :: "char \<Rightarrow> bool" where
  "bad_value_char c \<longleftrightarrow> control_char c \<and> c \<noteq> CHR 0x09"

definition parse_header_line :: "string \<Rightarrow> exn + (string \<times> string)" where
  "parse_header_line line =
     (if \<not> contains (CHR '':'') line then Inl (SipError ''malformed SIP header'')
      else
      let key = strip (before (CHR '':'') line) in
      if \<not> is_sip_token key then Inl (SipError ''invalid SIP header name'')
      else
      let value = strip (after (CHR '':'') line) in
      if list_ex bad_value_char value
        then Inl (SipError ''invalid control character in SIP header'')
      else Inr (key, value))"

definition header_count :: "headers \<Rightarrow> string \<Rightarrow> nat" where
  "header_count hs name =
     length (filter (\<lambda>(key, _). canonical_name (lower key) = name) hs)"

definition is_content_length :: "string \<Rightarrow> bool" where
  "is_content_length key \<longleftrightarrow> lower key = ''content-length'' \<or> lower key = ''l''"

definition content_length :: "headers \<Rightarrow> exn + int" where
  "content_length hs =
     (case map snd (filter (\<lambda>(key, _). is_content_length key) hs) of
        [] \<Rightarrow> Inr 0
      | [v] \<Rightarrow>
          (case py_int v of
             None \<Rightarrow> Inl (SipError ''invalid SIP Content-Length'')
           | Some n \<Rightarrow>
               if n < 0 \<or> MAX_SIP_BODY_BYTES < n
               then Inl (SipError ''invalid SIP Content-Length'') else Inr n)
      | _ \<Rightarrow> Inl (SipError ''ambiguous SIP Content-Length''))"

text \<open>\<open>start.split(" ", 2)\<close>.\<close>

definition split_start :: "string \<Rightarrow> string list" where
  "split_start s =
     (if \<not> contains (CHR '' '') s then [s]
      else let a = before (CHR '' '') s; r = after (CHR '' '') s in
        if \<not> contains (CHR '' '') r then [a, r]
        else [a, before (CHR '' '') r, after (CHR '' '') r])"

definition angle_bracket :: "char \<Rightarrow> bool" where
  "angle_bracket c \<longleftrightarrow> c = CHR ''<'' \<or> c = CHR ''>''"

definition parse_start_line :: "string \<Rightarrow> headers \<Rightarrow> string \<Rightarrow> exn + sip_message" where
  "parse_start_line start hs body =
     (let parts = split_start start in
      if startswith start (SIP_VERSION @ '' '') then
        (if length parts < 3 then Inl (SipError ''malformed SIP status line'')
         else case py_int (parts ! 1) of
           None \<Rightarrow> Inl ValueError
         | Some code \<Rightarrow>
             if \<not> (100 \<le> code \<and> code \<le> 699)
               then Inl (SipError ''SIP status code out of range'')
             else if list_ex control_char (parts ! 2)
               then Inl (SipError ''invalid SIP reason phrase'')
             else Inr \<lparr> msg_method = None, msg_uri = [], status_code = Some code,
                        msg_reason = parts ! 2, msg_headers = hs, msg_body = body \<rparr>)
      else if length parts \<noteq> 3 \<or> parts ! 2 \<noteq> SIP_VERSION
        then Inl (SipError ''malformed SIP request line'')
      else
      let method = upper (parts ! 0) in
      if \<not> is_sip_token method then Inl (SipError ''malformed SIP method'')
      else if list_ex angle_bracket (parts ! 1)
        then Inl (SipError ''SIP request URI must not use name-address syntax'')
      else bindE (parse_sip_uri (parts ! 1)) (\<lambda>_.
        Inr \<lparr> msg_method = Some method, msg_uri = parts ! 1, status_code = None,
              msg_reason = [], msg_headers = hs, msg_body = body \<rparr>))"

definition parse_message :: "string \<Rightarrow> exn + sip_message" where
  "parse_message data =
     bindE (split_header_body data) (\<lambda>(head, body_tail).
       let lines = split_crlf head in
       if lines = [] \<or> hd lines = [] then Inl (SipError ''empty SIP start line'')
       else bindE (unfold_lines [] (tl lines)) (\<lambda>unfolded.
         bindE (mapE parse_header_line unfolded) (\<lambda>hs.
           if list_ex (\<lambda>name. 1 < header_count hs name) SINGLETON_HEADERS
             then Inl (SipError ''ambiguous duplicate SIP dialog header'')
           else bindE (content_length hs) (\<lambda>n.
             if int (length body_tail) < n
               then Inl (SipError ''SIP body shorter than Content-Length'')
             else parse_start_line (hd lines) hs (take (nat n) body_tail)))))"

section \<open>Building a message\<close>

fun render_header_list :: "headers \<Rightarrow> string \<Rightarrow> exn + headers" where
  "render_header_list [] body = Inr []"
| "render_header_list ((key, value) # hs) body =
     (if \<not> is_sip_token key \<or> list_ex bad_value_char value
        then Inl (SipError ''invalid SIP header'')
      else bindE (render_header_list hs body) (\<lambda>out.
        Inr ((key, if is_content_length key then dec (length body) else value) # out)))"

text \<open>The header fields as emitted: the given ones, the length corrected, and a Content-Length when
  none was given.\<close>

definition emitted_headers :: "headers \<Rightarrow> string \<Rightarrow> exn + headers" where
  "emitted_headers hs body =
     bindE (render_header_list hs body) (\<lambda>out.
       Inr (if list_ex (\<lambda>(key, _). is_content_length key) hs then out
            else out @ [(''Content-Length'', dec (length body))]))"

definition header_line :: "string \<times> string \<Rightarrow> string" where
  "header_line h = fst h @ '': '' @ snd h"

definition render_headers :: "headers \<Rightarrow> string \<Rightarrow> exn + string" where
  "render_headers hs body =
     bindE (emitted_headers hs body) (\<lambda>out. Inr (join CRLF (map header_line out)))"

definition build_request :: "string \<Rightarrow> string \<Rightarrow> headers \<Rightarrow> string \<Rightarrow> exn + string" where
  "build_request method0 uri_text hs body =
     (let method = upper method0 in
      if method \<notin> set SUPPORTED_METHODS then Inl (SipError ''unsupported SIP method'')
      else if list_ex angle_bracket uri_text
        then Inl (SipError ''SIP request URI must not use name-address syntax'')
      else bindE (parse_sip_uri uri_text) (\<lambda>_.
        bindE (render_headers hs body) (\<lambda>rendered.
          Inr (method @ '' '' @ uri_text @ '' '' @ SIP_VERSION @ CRLF @ rendered
               @ CRLF @ CRLF @ body))))"

definition build_response :: "int \<Rightarrow> string \<Rightarrow> headers \<Rightarrow> string \<Rightarrow> exn + string" where
  "build_response code reason hs body =
     (if \<not> (100 \<le> code \<and> code \<le> 699) then Inl (SipError ''SIP status code out of range'')
      else if list_ex control_char reason then Inl (SipError ''invalid SIP reason phrase'')
      else bindE (render_headers hs body) (\<lambda>rendered.
        Inr (SIP_VERSION @ '' '' @ dec_int code @ '' '' @ reason @ CRLF @ rendered
             @ CRLF @ CRLF @ body)))"

section \<open>The headers of a dialog request\<close>

record dialog_ids =
  dlg_call_id :: string
  dlg_local_tag :: string
  dlg_remote_tag :: string
  dlg_cseq :: int
  dlg_branch :: string

definition via_value :: "string \<Rightarrow> sip_uri \<Rightarrow> string \<Rightarrow> string" where
  "via_value transport contact branch =
     ''SIP/2.0/'' @ transport @ '' '' @ uri_host contact
     @ (case uri_port contact of
          None \<Rightarrow> []
        | Some p \<Rightarrow> if p = 0 then [] else CHR '':'' # dec_int p)
     @ '';branch='' @ branch @ '';rport''"

definition dialog_header_list ::
  "string \<Rightarrow> string \<Rightarrow> string \<Rightarrow> dialog_ids \<Rightarrow> string \<Rightarrow> string \<Rightarrow> int \<Rightarrow> headers" where
  "dialog_header_list via local_uri remote_uri dialog method contact_uri max_forwards =
     [(''Via'', via),
      (''Max-Forwards'', dec_int max_forwards),
      (''From'', ''<'' @ local_uri @ ''>;tag='' @ dlg_local_tag dialog),
      (''To'', ''<'' @ remote_uri @ ''>''
          @ (if dlg_remote_tag dialog \<noteq> [] then '';tag='' @ dlg_remote_tag dialog else [])),
      (''Call-ID'', dlg_call_id dialog),
      (''CSeq'', dec_int (dlg_cseq dialog) @ '' '' @ upper method),
      (''Contact'', ''<'' @ contact_uri @ ''>''),
      (''Allow'', join '', '' SUPPORTED_METHODS)]"

definition dialog_headers ::
  "string \<Rightarrow> string \<Rightarrow> string \<Rightarrow> dialog_ids \<Rightarrow> string \<Rightarrow> string \<Rightarrow> int \<Rightarrow> string option \<Rightarrow> string
    \<Rightarrow> exn + headers" where
  "dialog_headers request_uri local_uri remote_uri dialog method contact_uri max_forwards
     content_type transport =
     bindE (parse_sip_uri contact_uri) (\<lambda>contact.
       let transport' = upper (strip (or_else transport ''UDP'')) in
       if transport' \<notin> {''UDP'', ''TCP''} then Inl (SipError ''unsupported SIP transport'')
       else
       let hs = dialog_header_list (via_value transport' contact (dlg_branch dialog))
                  local_uri remote_uri dialog method contact_uri max_forwards
         @ (case content_type of
              Some t \<Rightarrow> if t \<noteq> [] then [(''Content-Type'', t)] else []
            | None \<Rightarrow> [])
       in bindE (parse_sip_uri request_uri) (\<lambda>_. Inr hs))"

section \<open>Lines and separators\<close>

lemma CR_neq_LF [simp]: "CR \<noteq> LF" "LF \<noteq> CR"
  by (simp_all add: CR_def LF_def)

lemma ord_CR_LF [simp]: "ord CR = 13" "ord LF = 10"
  by (simp_all add: CR_def LF_def)

lemma split_crlf_no_CR: "CR \<notin> set x \<Longrightarrow> split_crlf x = [x]"
  by (induction x rule: split_crlf.induct) auto

lemma split_crlf_line: "CR \<notin> set x \<Longrightarrow> split_crlf (x @ CRLF @ y) = x # split_crlf y"
proof (induction x)
  case Nil
  then show ?case by (simp add: CRLF_def)
next
  case (Cons c x)
  then have "c \<noteq> CR" and "split_crlf (x @ CRLF @ y) = x # split_crlf y"
    by auto
  moreover obtain d s where "x @ CRLF @ y = d # s"
    by (cases "x @ CRLF @ y") (auto simp: CRLF_def)
  ultimately show ?case by simp
qed

lemma split_crlf_join:
  "ls \<noteq> [] \<Longrightarrow> \<forall>l \<in> set ls. CR \<notin> set l \<Longrightarrow> split_crlf (join CRLF ls) = ls"
proof (induction ls rule: induct_list012)
  case (3 x y ys)
  then show ?case by (simp add: split_crlf_line)
qed (simp_all add: split_crlf_no_CR)

lemma cut_at_skip:
  "p \<notin> set x \<Longrightarrow> cut_at (p # ps) (x @ r) = map_option (\<lambda>(a, b). (x @ a, b)) (cut_at (p # ps) r)"
  by (induction x) (auto simp: startswith_Cons option.map_comp comp_def split_def option.map_ident)

lemma cut_at_head:
  "ls \<noteq> [] \<Longrightarrow> \<forall>l \<in> set ls. l \<noteq> [] \<and> CR \<notin> set l \<Longrightarrow>
   cut_at (CRLF @ CRLF) (join CRLF ls @ CRLF @ CRLF @ body) = Some (join CRLF ls, body)"
proof (induction ls rule: induct_list012)
  case 1
  then show ?case by simp
next
  case (2 x)
  then show ?case
    by (simp add: CRLF_def cut_at_skip startswith_Cons startswith_def)
next
  case (3 x y ys)
  let ?rest = "join CRLF (y # ys) @ CRLF @ CRLF @ body"
  have IH: "cut_at (CRLF @ CRLF) ?rest = Some (join CRLF (y # ys), body)"
    using 3 by simp
  obtain c y' where y: "y = c # y'" and c: "c \<noteq> CR"
    using 3 by (cases y) auto
  then obtain s where s: "?rest = c # s"
    by (cases ys) auto
  have "cut_at (CRLF @ CRLF) (CRLF @ ?rest) = Some (CRLF @ join CRLF (y # ys), body)"
    using IH c unfolding s by (simp add: CRLF_def startswith_Cons)
  then have "cut_at (CRLF @ CRLF) (x @ CRLF @ ?rest) = Some (x @ CRLF @ join CRLF (y # ys), body)"
    using 3 cut_at_skip [of CR x "[LF, CR, LF]" "CRLF @ ?rest"] by (simp add: CRLF_def)
  then show ?case by simp
qed

lemma unfold_lines_plain:
  "\<forall>l \<in> set ls. l \<noteq> [] \<and> \<not> blank (hd l) \<Longrightarrow> unfold_lines sofar ls = Inr (rev sofar @ ls)"
  by (induction ls arbitrary: sofar) auto

section \<open>Header lines\<close>

lemma token_char_props:
  assumes "token_char c"
  shows "c \<noteq> CR" "c \<noteq> LF" "c \<noteq> CHR '':''" "\<not> is_space c" "\<not> blank c" "c \<noteq> CHR '' ''"
    "ord c < 0x80"
  using assms
  by (auto simp: token_char_def is_space_def blank_def TOKEN_SEPARATORS_def)

lemma strip_space_Cons: "is_space c \<Longrightarrow> strip (c # s) = strip s"
  by (simp add: strip_def lstrip_def)

lemma token_hd:
  assumes "is_sip_token k"
  shows "k \<noteq> []" and "\<not> blank (hd k)" and "CR \<notin> set k" and "strip k = k"
    and "CHR '':'' \<notin> set k" and "CHR '' '' \<notin> set k" and "utf8_valid k"
proof -
  have t: "\<forall>c \<in> set k. token_char c" and k: "k \<noteq> []"
    using assms by (auto simp: is_sip_token_def list_all_iff)
  show "k \<noteq> []" by (rule k)
  show "\<not> blank (hd k)"
    using t k token_char_props(5) by (cases k) auto
  show "CR \<notin> set k"
    using t token_char_props(1) by auto
  show "CHR '':'' \<notin> set k"
    using t token_char_props(3) by auto
  show "CHR '' '' \<notin> set k"
    using t token_char_props(6) by auto
  show "strip k = k"
    using t token_char_props(4) by (blast intro: strip_no_space)
  show "utf8_valid k"
    using t token_char_props(7) by (blast intro: utf8_valid_ascii)
qed

lemma before_after_first:
  "c \<notin> set k \<Longrightarrow> before c (k @ c # r) = k \<and> after c (k @ c # r) = r \<and> contains c (k @ c # r)"
  by (induction k) (auto simp: before_def after_def contains_def)

lemma parse_header_line_rendered:
  assumes "is_sip_token k" and "\<not> list_ex bad_value_char v" and "strip v = v"
  shows "parse_header_line (header_line (k, v)) = Inr (k, v)"
proof -
  have l: "header_line (k, v) = k @ CHR '':'' # CHR '' '' # v"
    by (simp add: header_line_def)
  have "strip (CHR '' '' # v) = v"
    using assms(3) by (subst strip_space_Cons) (simp_all add: is_space_def)
  with assms token_hd [OF assms(1)] before_after_first [of "CHR '':''" k "CHR '' '' # v"]
  show ?thesis
    by (simp add: parse_header_line_def l)
qed

lemma no_bad_no_CR: "\<not> list_ex bad_value_char v \<Longrightarrow> CR \<notin> set v \<and> LF \<notin> set v"
  by (auto simp: list_ex_iff bad_value_char_def control_char_def CR_def LF_def)

lemma header_line_no_CR:
  assumes "is_sip_token k" and "\<not> list_ex bad_value_char v"
  shows "header_line (k, v) \<noteq> [] \<and> \<not> blank (hd (header_line (k, v))) \<and>
    CR \<notin> set (header_line (k, v))"
  using token_hd [OF assms(1)] no_bad_no_CR [OF assms(2)]
  by (auto simp: header_line_def CR_def)

section \<open>Emitted headers\<close>

definition wf_headers :: "headers \<Rightarrow> bool" where
  "wf_headers hs \<longleftrightarrow>
     (\<forall>(k, v) \<in> set hs. strip v = v \<and> utf8_valid v) \<and>
     (\<forall>name \<in> set SINGLETON_HEADERS. header_count hs name \<le> 1) \<and>
     length (filter (\<lambda>(k, _). is_content_length k) hs) \<le> 1"

definition good_header :: "string \<times> string \<Rightarrow> bool" where
  "good_header h \<longleftrightarrow> is_sip_token (fst h) \<and> \<not> list_ex bad_value_char (snd h) \<and>
     strip (snd h) = snd h \<and> utf8_valid (snd h)"

lemma good_headerI:
  "is_sip_token k \<Longrightarrow> \<not> list_ex bad_value_char v \<Longrightarrow> strip v = v \<Longrightarrow> utf8_valid v \<Longrightarrow>
   good_header (k, v)"
  by (simp add: good_header_def)

lemma dec_good: "\<not> list_ex bad_value_char (dec n)" "utf8_valid (dec n)"
proof -
  have "is_digit c \<Longrightarrow> \<not> bad_value_char c \<and> ord c < 0x80" for c
    by (auto simp: is_digit_def bad_value_char_def control_char_def)
  then show "\<not> list_ex bad_value_char (dec n)" "utf8_valid (dec n)"
    using dec_digits [of n] by (auto simp: list_ex_iff intro!: utf8_valid_ascii)
qed

lemma render_header_list_map:
  "render_header_list hs body = Inr out \<Longrightarrow>
   out = map (\<lambda>(k, v). (k, if is_content_length k then dec (length body) else v)) hs"
  by (induction hs body arbitrary: out rule: render_header_list.induct)
     (auto simp: bindE_eq_Inr split: if_splits)

lemma render_header_list_good:
  "render_header_list hs body = Inr out \<Longrightarrow> \<forall>(k, v) \<in> set hs. strip v = v \<and> utf8_valid v \<Longrightarrow>
   list_all good_header out"
  by (induction hs body arbitrary: out rule: render_header_list.induct)
     (auto simp: bindE_eq_Inr dec_good good_headerI split: if_splits)

lemma Content_Length_good: "good_header (''Content-Length'', dec n)"
  by (simp add: good_header_def dec_good is_sip_token_def token_char_def TOKEN_SEPARATORS_def
      BSLASH_def DQUOTE_def)

lemma lower_Content_Length: "lower ''Content-Length'' = ''content-length''"
  by code_simp

lemma is_content_length_emitted: "is_content_length ''Content-Length''"
  by (simp add: is_content_length_def lower_Content_Length)

lemma emitted_headers_good:
  assumes "emitted_headers hs body = Inr out" and "wf_headers hs"
  shows "list_all good_header out"
  using assms render_header_list_good Content_Length_good
  by (fastforce simp: emitted_headers_def bindE_eq_Inr wf_headers_def split: if_splits)

lemma canonical_content_length: "canonical_name ''content-length'' = ''content-length''"
  by (simp add: canonical_name_def CANONICAL_HEADER_NAMES_def COMPACT_HEADER_NAMES_def)

lemma header_count_emitted:
  assumes "emitted_headers hs body = Inr out" and "name \<in> set SINGLETON_HEADERS"
  shows "header_count out name = header_count hs name"
proof -
  obtain l where r: "render_header_list hs body = Inr l"
    and out: "out = l \<or> out = l @ [(''Content-Length'', dec (length body))]"
    using assms(1) by (auto simp: emitted_headers_def bindE_eq_Inr split: if_splits)
  have "header_count l name = header_count hs name"
    unfolding render_header_list_map [OF r] header_count_def
    by (simp add: filter_map comp_def split_def)
  moreover have "''content-length'' \<noteq> name"
    using assms(2) by (auto simp: SINGLETON_HEADERS_def)
  ultimately show ?thesis
    using out by (auto simp: header_count_def lower_Content_Length canonical_content_length)
qed

lemma content_length_emitted:
  assumes "emitted_headers hs body = Inr out" and "wf_headers hs" and "length body \<le> 4096"
  shows "content_length out = Inr (int (length body))"
proof -
  let ?cl = "\<lambda>hs. map snd (filter (\<lambda>(key, _). is_content_length key) hs)"
  obtain l where r: "render_header_list hs body = Inr l"
    and out: "out = (if list_ex (\<lambda>(key, _). is_content_length key) hs then l
                     else l @ [(''Content-Length'', dec (length body))])"
    using assms(1) by (auto simp: emitted_headers_def bindE_eq_Inr split: if_splits)
  have l: "?cl l = map (\<lambda>_. dec (length body)) (filter (\<lambda>(key, _). is_content_length key) hs)"
    unfolding render_header_list_map [OF r] by (induction hs) (auto split: if_splits)
  have "?cl out = [dec (length body)]"
  proof (cases "list_ex (\<lambda>(key, _). is_content_length key) hs")
    case True
    then have "filter (\<lambda>(key, _). is_content_length key) hs \<noteq> []"
      by (auto simp: list_ex_iff filter_empty_conv)
    then have "length (filter (\<lambda>(key, _). is_content_length key) hs) = 1"
      using assms(2) by (auto simp: wf_headers_def le_Suc_eq)
    then show ?thesis
      using True by (auto simp: out l length_Suc_conv)
  next
    case False
    then have "filter (\<lambda>(key, _). is_content_length key) hs = []"
      by (auto simp: list_ex_iff filter_empty_conv)
    with False show ?thesis
      using l by (simp add: out is_content_length_emitted)
  qed
  then show ?thesis
    using assms(3) by (simp add: content_length_def MAX_SIP_BODY_BYTES_def)
qed

lemma emitted_headers_not_Nil: "emitted_headers hs body = Inr out \<Longrightarrow> out \<noteq> []"
  by (auto simp: emitted_headers_def bindE_eq_Inr dest!: render_header_list_map split: if_splits)

section \<open>Building and parsing are inverse\<close>

lemma bad_header_char_facts: "good_header h \<Longrightarrow> header_line h \<noteq> [] \<and> \<not> blank (hd (header_line h)) \<and>
    CR \<notin> set (header_line h) \<and> parse_header_line (header_line h) = Inr h"
  using header_line_no_CR [of "fst h" "snd h"] parse_header_line_rendered [of "fst h" "snd h"]
  by (simp add: good_header_def)

lemma utf8_valid_CRLF [simp]: "utf8_valid CRLF"
  by (simp add: CRLF_def CR_def LF_def)

lemma utf8_valid_join:
  "\<forall>l \<in> set ls. utf8_valid l \<Longrightarrow> utf8_valid (join CRLF ls)"
  by (induction ls rule: induct_list012) (simp_all add: utf8_valid_append)

lemma utf8_header_line: "good_header h \<Longrightarrow> utf8_valid (header_line h)"
  using token_hd(7) [of "fst h"]
  by (simp add: good_header_def header_line_def utf8_valid_append)

lemma mapE_parse_header_lines:
  "list_all good_header hs \<Longrightarrow> mapE parse_header_line (map header_line hs) = Inr hs"
  by (induction hs) (simp_all add: bad_header_char_facts)

text \<open>What the parser sees of a message put together from a start line and good headers.\<close>

lemma parse_message_rendered:
  assumes start: "start \<noteq> []" "CR \<notin> set start" "utf8_valid start"
    and good: "list_all good_header out" and ne: "out \<noteq> []"
    and single: "\<forall>name \<in> set SINGLETON_HEADERS. header_count out name \<le> 1"
    and len: "content_length out = Inr (int (length body))"
    and data: "data = start @ CRLF @ join CRLF (map header_line out) @ CRLF @ CRLF @ body"
    and size: "length data \<le> MAX_SIP_MESSAGE_BYTES"
  shows "parse_message data = parse_start_line start out body"
proof -
  let ?lines = "start # map header_line out"
  have lines: "\<forall>l \<in> set ?lines. l \<noteq> [] \<and> CR \<notin> set l"
    using start good by (auto simp: list_all_iff dest: bad_header_char_facts)
  have d: "data = join CRLF ?lines @ CRLF @ CRLF @ body"
    using ne by (cases out) (simp_all add: data)
  have "utf8_valid (join CRLF ?lines)"
    using start good utf8_header_line by (intro utf8_valid_join) (auto simp: list_all_iff)
  then have "split_header_body data = Inr (join CRLF ?lines, body)"
    using size lines cut_at_head [of ?lines body] by (simp add: split_header_body_def d)
  moreover have "split_crlf (join CRLF ?lines) = ?lines"
    by (rule split_crlf_join) (use lines in auto)
  moreover have "unfold_lines [] (map header_line out) = Inr (map header_line out)"
    using good by (subst unfold_lines_plain) (auto simp: list_all_iff dest: bad_header_char_facts)
  moreover have "\<not> list_ex (\<lambda>name. 1 < header_count out name) SINGLETON_HEADERS"
    using single by (auto simp: list_ex_iff)
  ultimately show ?thesis
    using start(1) len mapE_parse_header_lines [OF good]
    by (simp add: parse_message_def Let_def)
qed

lemma supported_method_props:
  assumes "m \<in> set SUPPORTED_METHODS"
  shows "is_sip_token m" and "upper m = m" and "\<not> startswith (m @ s) ''SIP/2.0 ''"
proof -
  have "list_all (\<lambda>m. is_sip_token m \<and> upper m = m \<and> m \<noteq> [] \<and> hd m \<noteq> CHR ''S'') SUPPORTED_METHODS"
    by code_simp
  then have m: "is_sip_token m" "upper m = m" "m \<noteq> []" "hd m \<noteq> CHR ''S''"
    using assms by (auto simp: list_all_iff)
  then show "is_sip_token m" "upper m = m"
    by simp_all
  show "\<not> startswith (m @ s) ''SIP/2.0 ''"
    using m(3,4) by (cases m) (auto simp: startswith_Cons)
qed

lemma split_start_three:
  "CHR '' '' \<notin> set a \<Longrightarrow> CHR '' '' \<notin> set b \<Longrightarrow>
   split_start (a @ CHR '' '' # b @ CHR '' '' # c) = [a, b, c]"
  by (simp add: split_start_def before_after_first)

lemma parse_start_line_request:
  assumes "m \<in> set SUPPORTED_METHODS" and "CHR '' '' \<notin> set uri"
    and "\<not> list_ex angle_bracket uri" and "parse_sip_uri uri = Inr u"
  shows "parse_start_line (m @ '' '' @ uri @ '' '' @ SIP_VERSION) hs body =
    Inr \<lparr> msg_method = Some m, msg_uri = uri, status_code = None,
          msg_reason = [], msg_headers = hs, msg_body = body \<rparr>"
proof -
  have "split_start (m @ '' '' @ uri @ '' '' @ SIP_VERSION) = [m, uri, SIP_VERSION]"
    using split_start_three [of m uri SIP_VERSION] token_hd(6) supported_method_props(1) assms(1,2)
    by auto
  moreover have "\<not> startswith (m @ '' '' @ uri @ '' '' @ SIP_VERSION) (SIP_VERSION @ '' '')"
    using supported_method_props(3) [OF assms(1)] by (simp add: SIP_VERSION_def)
  ultimately show ?thesis
    using supported_method_props(1,2) [OF assms(1)] assms(3,4)
    by (simp add: parse_start_line_def Let_def)
qed

lemma utf8_SIP_VERSION [simp]: "utf8_valid SIP_VERSION" "CR \<notin> set SIP_VERSION" "CHR '' '' \<notin> set SIP_VERSION"
  by (simp_all add: SIP_VERSION_def CR_def)

lemma CR_not_space_char [simp]: "CR \<noteq> CHR '' ''" 
  by (simp add: CR_def)

lemma emitted_headers_parse:
  assumes "emitted_headers hs body = Inr out" and "wf_headers hs" and "length body \<le> 4096"
    and "start \<noteq> []" "CR \<notin> set start" "utf8_valid start"
    and "length (start @ CRLF @ join CRLF (map header_line out) @ CRLF @ CRLF @ body) \<le> 8192"
  shows "parse_message (start @ CRLF @ join CRLF (map header_line out) @ CRLF @ CRLF @ body)
    = parse_start_line start out body"
proof (rule parse_message_rendered [OF assms(4-6) emitted_headers_good [OF assms(1,2)]
      emitted_headers_not_Nil [OF assms(1)] _ content_length_emitted [OF assms(1-3)] refl])
  show "\<forall>name \<in> set SINGLETON_HEADERS. header_count out name \<le> 1"
    using assms(2) header_count_emitted [OF assms(1)] by (simp add: wf_headers_def)
qed (use assms(7) in \<open>simp add: MAX_SIP_MESSAGE_BYTES_def\<close>)

lemma build_parse_request:
  assumes built: "build_request m uri hs body = Inr data"
    and hs: "wf_headers hs"
    and uri: "\<forall>c \<in> set uri. \<not> is_space c" "utf8_valid uri"
    and size: "length body \<le> 4096" "length data \<le> 8192"
  shows "\<exists>out. emitted_headers hs body = Inr out \<and>
    parse_message data = Inr \<lparr> msg_method = Some (upper m), msg_uri = uri, status_code = None,
      msg_reason = [], msg_headers = out, msg_body = body \<rparr>"
proof -
  let ?start = "upper m @ '' '' @ uri @ '' '' @ SIP_VERSION"
  obtain u out where m: "upper m \<in> set SUPPORTED_METHODS" and angle: "\<not> list_ex angle_bracket uri"
    and u: "parse_sip_uri uri = Inr u" and out: "emitted_headers hs body = Inr out"
    and data: "data = ?start @ CRLF @ join CRLF (map header_line out) @ CRLF @ CRLF @ body"
    using built
    by (auto simp: build_request_def render_headers_def Let_def bindE_eq_Inr split: if_splits)
  have sp: "CHR '' '' \<notin> set uri" "CR \<notin> set uri"
    using uri(1) by (auto simp: is_space_def)
  have "CR \<notin> set ?start" "utf8_valid ?start"
    using sp uri(2) token_hd(3,7) [OF supported_method_props(1) [OF m]]
    by (simp_all add: utf8_valid_append)
  then have "parse_message data = parse_start_line ?start out body"
    unfolding data using hs size out by (intro emitted_headers_parse) (simp_all add: data)
  then show ?thesis
    using parse_start_line_request [OF m sp(1) angle u] out by simp
qed

text \<open>C23: A request that the code builds is parsed back by the code: method, request URI, header
  fields (with the emitted Content-Length) and body all come out of the datagram as they were put in,
  provided the header values are stripped and unambiguous, the URI is one word and the size limits of
  the parser are kept.\<close>

theorem request_roundtrip:
  assumes built: "build_request m uri hs body = Inr data"
    and hs: "wf_headers hs"
    and uri: "\<forall>c \<in> set uri. \<not> is_space c" "utf8_valid uri"
    and size: "length body \<le> 4096" "length data \<le> 8192"
  shows "\<exists>out. emitted_headers hs body = Inr out \<and>
    parse_message data = Inr \<lparr> msg_method = Some (upper m), msg_uri = uri, status_code = None,
      msg_reason = [], msg_headers = out, msg_body = body \<rparr>"
  by (rule build_parse_request [OF assms])

theorem request_roundtrip_witness:
  "\<exists>data out. build_request ''invite'' ''sip:100@10.0.0.7'' [(''Call-ID'', ''a1''), (''l'', ''9'')] ''v=0''
      = Inr data \<and> emitted_headers [(''Call-ID'', ''a1''), (''l'', ''9'')] ''v=0'' = Inr out \<and>
    parse_message data = Inr \<lparr> msg_method = Some (upper ''invite''), msg_uri = ''sip:100@10.0.0.7'',
      status_code = None, msg_reason = [], msg_headers = out, msg_body = ''v=0'' \<rparr>"
proof -
  let ?hs = "[(''Call-ID'', ''a1''), (''l'', ''9'')]"
  let ?d = "''INVITE sip:100@10.0.0.7 SIP/2.0'' @ CRLF @ ''Call-ID: a1'' @ CRLF @ ''l: 3'' @ CRLF @ CRLF @ ''v=0''"
  have b: "build_request ''invite'' ''sip:100@10.0.0.7'' ?hs ''v=0'' = Inr ?d"
    by code_simp
  have w: "wf_headers ?hs"
    by code_simp
  have u: "\<forall>c \<in> set ''sip:100@10.0.0.7''. \<not> is_space c" "utf8_valid ''sip:100@10.0.0.7''"
    by code_simp+
  show ?thesis
    using request_roundtrip [OF b w u] b by (simp add: CRLF_def)
qed

text \<open>A response that the code builds is parsed back by the code: status code, reason phrase,
  header fields and body all come out of the datagram as they were put in.\<close>

lemma response_roundtrip:
  assumes built: "build_response code reason hs body = Inr data"
    and hs: "wf_headers hs" and reason: "utf8_valid reason"
    and size: "length body \<le> 4096" "length data \<le> 8192"
  shows "\<exists>out. emitted_headers hs body = Inr out \<and>
    parse_message data = Inr \<lparr> msg_method = None, msg_uri = [], status_code = Some code,
      msg_reason = reason, msg_headers = out, msg_body = body \<rparr>"
proof -
  let ?start = "SIP_VERSION @ '' '' @ dec_int code @ '' '' @ reason"
  obtain out where code: "100 \<le> code" "code \<le> 699" and ctl: "\<not> list_ex control_char reason"
    and out: "emitted_headers hs body = Inr out"
    and data: "data = ?start @ CRLF @ join CRLF (map header_line out) @ CRLF @ CRLF @ body"
    using built by (auto simp: build_response_def render_headers_def bindE_eq_Inr split: if_splits)
  have dec: "dec_int code = dec (nat code)" "py_int (dec (nat code)) = Some code"
    using code by (simp_all add: dec_int_def)
  have "CHR '' '' \<notin> set (dec (nat code))" "CR \<notin> set (dec (nat code))"
    using dec_digits [of "nat code"] by (auto simp: is_digit_def)
  moreover have "CR \<notin> set reason"
    using ctl by (auto simp: list_ex_iff control_char_def)
  ultimately have "CR \<notin> set ?start" "utf8_valid ?start"
    and split: "split_start ?start = [SIP_VERSION, dec (nat code), reason]"
    using reason dec_good(2) [of "nat code"] split_start_three [of SIP_VERSION "dec (nat code)" reason]
    by (simp_all add: utf8_valid_append dec)
  then have "parse_message data = parse_start_line ?start out body"
    unfolding data using hs size out by (intro emitted_headers_parse) (simp_all add: data SIP_VERSION_def)
  moreover have "startswith ?start (SIP_VERSION @ '' '')"
    using startswith_append [of "SIP_VERSION @ '' ''"] by simp
  ultimately show ?thesis
    using split code ctl dec out by (simp add: parse_start_line_def Let_def)
qed

lemma response_roundtrip_example:
  "\<exists>data out. build_response 486 ''Busy Here'' [(''v'', ''SIP/2.0/UDP h''), (''Call-ID'', ''a1'')] [] = Inr data \<and>
    emitted_headers [(''v'', ''SIP/2.0/UDP h''), (''Call-ID'', ''a1'')] [] = Inr out \<and>
    parse_message data = Inr \<lparr> msg_method = None, msg_uri = [], status_code = Some 486,
      msg_reason = ''Busy Here'', msg_headers = out, msg_body = [] \<rparr>"
proof -
  let ?hs = "[(''v'', ''SIP/2.0/UDP h''), (''Call-ID'', ''a1'')]"
  let ?d = "''SIP/2.0 486 Busy Here'' @ CRLF @ ''v: SIP/2.0/UDP h'' @ CRLF @ ''Call-ID: a1'' @ CRLF
    @ ''Content-Length: 0'' @ CRLF @ CRLF"
  have b: "build_response 486 ''Busy Here'' ?hs [] = Inr ?d"
    by code_simp
  have w: "wf_headers ?hs" and u: "utf8_valid ''Busy Here''"
    by code_simp+
  show ?thesis
    using response_roundtrip [OF b w u] b by (simp add: CRLF_def)
qed

section \<open>What the parser accepts\<close>

lemma parse_header_line_sound:
  "parse_header_line line = Inr (k, v) \<Longrightarrow> is_sip_token k \<and> \<not> list_ex bad_value_char v"
  by (auto simp: parse_header_line_def Let_def split: if_splits)

lemma parse_headers_sound:
  "mapE parse_header_line ls = Inr hs \<Longrightarrow>
   list_all (\<lambda>(k, v). is_sip_token k \<and> \<not> list_ex bad_value_char v) hs"
  by (induction ls arbitrary: hs) (auto simp: bindE_eq_Inr dest: parse_header_line_sound)

lemma parse_start_line_sound:
  assumes "parse_start_line start hs body = Inr msg"
  shows "msg_headers msg = hs" "msg_body msg = body" "is_request msg \<noteq> is_response msg"
    "\<forall>m. msg_method msg = Some m \<longrightarrow> is_sip_token m \<and> \<not> list_ex angle_bracket (msg_uri msg) \<and>
       (\<exists>u. parse_sip_uri (msg_uri msg) = Inr u)"
    "\<forall>c. status_code msg = Some c \<longrightarrow> 100 \<le> c \<and> c \<le> 699 \<and> \<not> list_ex control_char (msg_reason msg)"
  using assms
  by (auto simp: parse_start_line_def Let_def bindE_eq_Inr is_request_def is_response_def
      split: if_splits option.splits)

lemma content_length_bounds:
  "content_length hs = Inr n \<Longrightarrow> 0 \<le> n \<and> n \<le> 4096"
  by (auto simp: content_length_def MAX_SIP_BODY_BYTES_def split: list.splits option.splits if_splits)

text \<open>C25: Whatever datagram arrives, a message the parser accepts is well formed: it is either a
  request or a response, a request has a token for its method and a URI that parses and is not in
  name-address form, a status code lies in 100..699, the header names are tokens without control
  characters in the values, the dialog headers (Call-ID, CSeq, From, To) are not duplicated, the body
  has exactly the length that Content-Length announces and at most 4096 bytes.\<close>

theorem parsed_message_well_formed:
  assumes "parse_message data = Inr msg"
  shows "is_request msg \<noteq> is_response msg
    \<and> list_all (\<lambda>(k, v). is_sip_token k \<and> \<not> list_ex bad_value_char v) (msg_headers msg)
    \<and> list_all (\<lambda>name. header_count (msg_headers msg) name \<le> 1) SINGLETON_HEADERS
    \<and> content_length (msg_headers msg) = Inr (int (length (msg_body msg)))
    \<and> length (msg_body msg) \<le> 4096 \<and> length data \<le> 8192
    \<and> (\<forall>m. msg_method msg = Some m \<longrightarrow> is_sip_token m \<and> \<not> list_ex angle_bracket (msg_uri msg) \<and>
         (\<exists>u. parse_sip_uri (msg_uri msg) = Inr u))
    \<and> (\<forall>c. status_code msg = Some c \<longrightarrow> 100 \<le> c \<and> c \<le> 699 \<and> \<not> list_ex control_char (msg_reason msg))"
proof -
  obtain head tail ls hs n where split: "split_header_body data = Inr (head, tail)"
    and hs: "mapE parse_header_line ls = Inr hs"
    and dup: "\<not> list_ex (\<lambda>name. 1 < header_count hs name) SINGLETON_HEADERS"
    and n: "content_length hs = Inr n" "\<not> int (length tail) < n"
    and start: "parse_start_line (hd (split_crlf head)) hs (take (nat n) tail) = Inr msg"
    using assms by (auto simp: parse_message_def Let_def bindE_eq_Inr split: if_splits)
  note s = parse_start_line_sound [OF start]
  have "length data \<le> 8192"
    using split by (simp add: split_header_body_def MAX_SIP_MESSAGE_BYTES_def split: if_splits)
  moreover have "content_length hs = Inr (int (length (msg_body msg)))" "length (msg_body msg) \<le> 4096"
    using n content_length_bounds [OF n(1)] s(2) by (simp_all add: nat_le_iff)
  moreover have "list_all (\<lambda>name. header_count hs name \<le> 1) SINGLETON_HEADERS"
    using dup by (simp add: list_all_iff list_ex_iff not_less)
  ultimately show ?thesis
    using s parse_headers_sound [OF hs] by simp
qed

theorem parsed_message_well_formed_witness:
  "\<exists>msg. parse_message (''BYE sip:a@h SIP/2.0'' @ CRLF @ ''t: <sip:b@h>'' @ CRLF @ CRLF) = Inr msg \<and>
     length (msg_body msg) \<le> 4096 \<and> is_request msg \<noteq> is_response msg"
proof -
  let ?m = "\<lparr> msg_method = Some ''BYE'', msg_uri = ''sip:a@h'', status_code = None, msg_reason = [],
     msg_headers = [(''t'', ''<sip:b@h>'')], msg_body = [] \<rparr>"
  have p: "parse_message (''BYE sip:a@h SIP/2.0'' @ CRLF @ ''t: <sip:b@h>'' @ CRLF @ CRLF) = Inr ?m"
    by code_simp
  show ?thesis
    using parsed_message_well_formed [OF p] p by blast
qed

end
