(* ===== verification/Sip_Dialog.thy ===== *)
theory Sip_Dialog
  imports Sip_Message
begin

text \<open>
  \<open>custom_components/voip_stack/sip_dialog.py\<close>: the identity of a dialog as the called side sees
  it, and the properties that tie it to the header sets that \<open>sip.py\<close> emits.
\<close>

record dialog_key =
  dk_call_id :: string
  dk_local_tag :: string
  dk_remote_tag :: string

definition for_uas_dialog :: "sip_message \<Rightarrow> string \<Rightarrow> dialog_key" where
  "for_uas_dialog initial_request local_tag =
     \<lparr> dk_call_id = header (msg_headers initial_request) ''Call-ID'',
       dk_local_tag = local_tag,
       dk_remote_tag = extract_tag (header (msg_headers initial_request) ''From'') \<rparr>"

definition from_uas_request :: "sip_message \<Rightarrow> dialog_key" where
  "from_uas_request request =
     \<lparr> dk_call_id = header (msg_headers request) ''Call-ID'',
       dk_local_tag = extract_tag (header (msg_headers request) ''To''),
       dk_remote_tag = extract_tag (header (msg_headers request) ''From'') \<rparr>"

definition key_complete :: "dialog_key \<Rightarrow> bool" where
  "key_complete k \<longleftrightarrow> dk_call_id k \<noteq> [] \<and> dk_local_tag k \<noteq> [] \<and> dk_remote_tag k \<noteq> []"

definition uas_request_matches_dialog :: "sip_message \<Rightarrow> sip_message \<Rightarrow> string \<Rightarrow> bool" where
  "uas_request_matches_dialog request initial_request local_tag \<longleftrightarrow>
     (let expected = for_uas_dialog initial_request local_tag;
          received = from_uas_request request
      in key_complete expected \<and> key_complete received \<and> received = expected)"

section \<open>Reading back the headers of a dialog request\<close>

lemma lower_names [simp]:
  "lower ''Via'' = ''via''" "lower ''Max-Forwards'' = ''max-forwards''" "lower ''From'' = ''from''"
  "lower ''To'' = ''to''" "lower ''Call-ID'' = ''call-id''" "lower ''CSeq'' = ''cseq''"
  "lower ''Contact'' = ''contact''" "lower ''Allow'' = ''allow''"
  "lower ''Content-Type'' = ''content-type''"
  by code_simp+

lemma canonical_dialog_names [simp]:
  "canonical_name ''from'' = ''from''" "canonical_name ''to'' = ''to''"
  "canonical_name ''call-id'' = ''call-id''" "canonical_name ''cseq'' = ''cseq''"
  by code_simp+

lemma compact_dialog_names [simp]:
  "assoc COMPACT_HEADER_NAMES ''from'' = Some ''f''" "assoc COMPACT_HEADER_NAMES ''to'' = Some ''t''"
  "assoc COMPACT_HEADER_NAMES ''call-id'' = Some ''i''" "assoc COMPACT_HEADER_NAMES ''cseq'' = None"
  by code_simp+

lemma dialog_headers_shape:
  assumes "dialog_headers ruri local remote d m contact mf ct tr = Inr hs"
  shows "\<exists>via tail. hs = dialog_header_list via local remote d m contact mf @ tail \<and>
      (tail = [] \<or> (\<exists>t. tail = [(''Content-Type'', t)]))"
  using assms
  by (auto simp: dialog_headers_def Let_def bindE_eq_Inr split: if_splits option.splits)

lemma dialog_headers_fields:
  assumes "dialog_headers ruri local remote d m contact mf ct tr = Inr hs"
  shows "header hs ''From'' = ''<'' @ local @ ''>;tag='' @ dlg_local_tag d"
    and "header hs ''To'' = ''<'' @ remote @ ''>''
              @ (if dlg_remote_tag d \<noteq> [] then '';tag='' @ dlg_remote_tag d else [])"
    and "header hs ''Call-ID'' = dlg_call_id d"
    and "header hs ''CSeq'' = dec_int (dlg_cseq d) @ '' '' @ upper m"
proof -
  obtain via tail where hs: "hs = dialog_header_list via local remote d m contact mf @ tail"
    and tail: "tail = [] \<or> (\<exists>t. tail = [(''Content-Type'', t)])"
    using dialog_headers_shape [OF assms] by blast
  show "header hs ''From'' = ''<'' @ local @ ''>;tag='' @ dlg_local_tag d"
    using tail by (auto simp: hs dialog_header_list_def header_def header_values_def)
  show "header hs ''To'' = ''<'' @ remote @ ''>''
              @ (if dlg_remote_tag d \<noteq> [] then '';tag='' @ dlg_remote_tag d else [])"
    using tail by (auto simp: hs dialog_header_list_def header_def header_values_def)
  show "header hs ''Call-ID'' = dlg_call_id d"
    using tail by (auto simp: hs dialog_header_list_def header_def header_values_def)
  show "header hs ''CSeq'' = dec_int (dlg_cseq d) @ '' '' @ upper m"
    using tail by (auto simp: hs dialog_header_list_def header_def header_values_def)
qed

lemma header_values_emitted:
  assumes "emitted_headers hs body = Inr out"
    and canon: "canonical_name (lower name) = canonical"
    and no_len: "canonical \<notin> {''content-length'', ''l''}"
      "assoc COMPACT_HEADER_NAMES canonical \<notin> {Some ''content-length'', Some ''l''}"
  shows "header_values out name = header_values hs name"
proof -
  let ?sel = "\<lambda>(key, value :: string). lower key = canonical \<or> Some (lower key) = assoc COMPACT_HEADER_NAMES canonical"
  obtain l where r: "render_header_list hs body = Inr l"
    and out: "out = l \<or> out = l @ [(''Content-Length'', dec (length body))]"
    using assms(1) by (auto simp: emitted_headers_def bindE_eq_Inr split: if_splits)
  have "map snd (filter ?sel l) = map snd (filter ?sel hs)"
    unfolding render_header_list_map [OF r] using no_len
    by (induction hs) (auto simp: is_content_length_def)
  moreover have "\<not> ?sel (''Content-Length'', v)" for v
    using no_len by (auto simp: lower_Content_Length)
  ultimately show ?thesis
    using out by (auto simp: header_values_def canon Let_def)
qed

lemma emitted_dialog_fields:
  assumes "emitted_headers hs body = Inr out"
  shows "header out ''From'' = header hs ''From''" "header out ''To'' = header hs ''To''"
    "header out ''Call-ID'' = header hs ''Call-ID''" "header out ''CSeq'' = header hs ''CSeq''"
  by (simp_all add: header_def header_values_emitted [OF assms refl])

lemma words_two:
  assumes "\<forall>c \<in> set a. \<not> is_space c" "\<forall>c \<in> set b. \<not> is_space c" "a \<noteq> []" "b \<noteq> []"
  shows "words (a @ CHR '' '' # b) = [a, b]"
proof -
  have b: "split_by is_space b = [b]"
    using assms(2) by (induction b) auto
  have "split_by is_space (a @ CHR '' '' # b) = [a, b]"
    using assms(1) by (induction a) (auto simp: b is_space_def)
  with assms(3,4) show ?thesis by (simp add: words_def)
qed

lemma parse_cseq_rendered:
  assumes "0 \<le> n" "n \<le> 0x7FFFFFFF" and m: "m \<in> set SUPPORTED_METHODS"
  shows "parse_cseq (dec_int n @ '' '' @ m) = Inr \<lparr> cseq_number = n, cseq_method = m \<rparr>"
proof -
  note mp = supported_method_props [OF m]
  have d: "dec_int n = dec (nat n)"
    using assms(1) by (simp add: dec_int_def)
  have dsp: "\<forall>c \<in> set (dec (nat n)). \<not> is_space c"
    using dec_digits is_digit_not_space by blast
  have msp: "\<forall>c \<in> set m. \<not> is_space c" "m \<noteq> []"
    using mp(1) token_char_props(4) by (auto simp: is_sip_token_def list_all_iff)
  have s: "strip (dec (nat n) @ CHR '' '' # m) = dec (nat n) @ CHR '' '' # m"
    by (rule strip_ends) (use dsp msp in auto)
  have "nat n < 10000000000"
    using assms(2) by simp
  then have "py_int (dec (nat n)) = Some n"
    using assms(1) by simp
  then show ?thesis
    using words_two [OF dsp msp(1) _ msp(2)] assms mp(2)
    by (simp add: parse_cseq_def d s Let_def)
qed

section \<open>A dialog is recognised across the wire\<close>

text \<open>C24: A request that the calling side builds inside a dialog, with the headers of
  \<open>dialog_headers\<close>, is recognised by the called side after the way over the wire: it matches the
  INVITE that created the dialog under exactly one local tag, the one the called side gave, and
  carries the dialog's sequence number and method.\<close>

theorem in_dialog_request_matches:
  assumes hs: "dialog_headers ruri local remote d m contact mf ct tr = Inr hs" "wf_headers hs"
    and data: "build_request m ruri hs body = Inr data"
      "\<forall>c \<in> set ruri. \<not> is_space c" "utf8_valid ruri" "length body \<le> 4096" "length data \<le> 8192"
    and uris: "DQUOTE \<notin> set local" "CHR '';'' \<notin> set local" "DQUOTE \<notin> set remote" "CHR '';'' \<notin> set remote"
    and tags: "tag_value (dlg_local_tag d)" "tag_value (dlg_remote_tag d)"
    and initial: "header (msg_headers invite) ''Call-ID'' = dlg_call_id d" "dlg_call_id d \<noteq> []"
      "extract_tag (header (msg_headers invite) ''From'') = dlg_local_tag d"
    and cseq: "0 \<le> dlg_cseq d" "dlg_cseq d \<le> 0x7FFFFFFF"
  shows "\<exists>request. parse_message data = Inr request \<and>
    (\<forall>our_tag. uas_request_matches_dialog request invite our_tag \<longleftrightarrow> our_tag = dlg_remote_tag d) \<and>
    parse_cseq (header (msg_headers request) ''CSeq'')
      = Inr \<lparr> cseq_number = dlg_cseq d, cseq_method = upper m \<rparr>"
proof -
  obtain out where out: "emitted_headers hs body = Inr out"
    and parsed: "parse_message data = Inr \<lparr> msg_method = Some (upper m), msg_uri = ruri, status_code = None,
      msg_reason = [], msg_headers = out, msg_body = body \<rparr>" (is "_ = Inr ?req")
    using build_parse_request [OF data(1) hs(2) data(2-5)] by blast
  have m: "upper m \<in> set SUPPORTED_METHODS"
    using data(1) by (auto simp: build_request_def Let_def split: if_splits)
  note fields = emitted_dialog_fields [OF out, unfolded dialog_headers_fields [OF hs(1)]]
  have from_tag: "extract_tag (header out ''From'') = dlg_local_tag d"
    using extract_tag_name_addr [OF uris(1,2) tags(1)] by (simp add: fields)
  have to_tag: "extract_tag (header out ''To'') = dlg_remote_tag d"
    using extract_tag_name_addr [OF uris(3,4) tags(2)] tags(2) by (simp add: fields tag_value_def)
  have "parse_cseq (header out ''CSeq'') = Inr \<lparr> cseq_number = dlg_cseq d, cseq_method = upper m \<rparr>"
    using parse_cseq_rendered [OF cseq m] by (simp add: fields)
  then show ?thesis
    using parsed from_tag to_tag fields(3) initial tags
    by (auto simp: uas_request_matches_dialog_def for_uas_dialog_def from_uas_request_def
        key_complete_def Let_def tag_value_def)
qed

definition example_ids :: dialog_ids where
  "example_ids = \<lparr> dlg_call_id = ''c1'', dlg_local_tag = ''pa'', dlg_remote_tag = ''ua'', dlg_cseq = 2,
     dlg_branch = ''z9'' \<rparr>"

definition example_headers :: headers where
  "example_headers = dialog_header_list ''SIP/2.0/UDP h;branch=z9;rport'' ''sip:a@h'' ''sip:b@h''
     example_ids ''BYE'' ''sip:a@h'' 70"

definition example_invite :: sip_message where
  "example_invite = \<lparr> msg_method = Some ''INVITE'', msg_uri = ''sip:b@h'', status_code = None,
     msg_reason = [], msg_headers = [(''i'', ''c1''), (''f'', ''<sip:a@h>;tag=pa'')], msg_body = [] \<rparr>"

theorem in_dialog_request_matches_witness:
  "\<exists>data request. build_request ''BYE'' ''sip:b@h'' example_headers [] = Inr data \<and>
     parse_message data = Inr request \<and>
     uas_request_matches_dialog request example_invite ''ua'' \<and>
     \<not> uas_request_matches_dialog request example_invite ''pa''"
proof -
  have hs: "dialog_headers ''sip:b@h'' ''sip:a@h'' ''sip:b@h'' example_ids ''BYE'' ''sip:a@h'' 70 None ''UDP''
      = Inr example_headers"
    by code_simp
  have wf: "wf_headers example_headers"
    by code_simp
  have "case build_request ''BYE'' ''sip:b@h'' example_headers [] of
      Inl _ \<Rightarrow> False | Inr data \<Rightarrow> length data \<le> 1000"
    by code_simp
  then obtain data where data: "build_request ''BYE'' ''sip:b@h'' example_headers [] = Inr data"
    "length data \<le> 1000"
    by (cases "build_request ''BYE'' ''sip:b@h'' example_headers []") simp_all
  have uri: "\<forall>c \<in> set ''sip:b@h''. \<not> is_space c" "utf8_valid ''sip:b@h''"
    by code_simp+
  have inv: "header (msg_headers example_invite) ''Call-ID'' = dlg_call_id example_ids"
    "extract_tag (header (msg_headers example_invite) ''From'') = dlg_local_tag example_ids"
    by code_simp+
  have ids: "tag_value (dlg_local_tag example_ids)" "tag_value (dlg_remote_tag example_ids)"
    "dlg_call_id example_ids \<noteq> []" "0 \<le> dlg_cseq example_ids" "dlg_cseq example_ids \<le> 0x7FFFFFFF"
    "dlg_remote_tag example_ids = ''ua''"
    by (simp_all add: example_ids_def tag_value_def DQUOTE_def is_space_def)
  have q: "DQUOTE \<notin> set ''sip:a@h''" "CHR '';'' \<notin> set ''sip:a@h''"
    "DQUOTE \<notin> set ''sip:b@h''" "CHR '';'' \<notin> set ''sip:b@h''"
    by (simp_all add: DQUOTE_def)
  have len: "length ([] :: string) \<le> 4096" "length data \<le> 8192"
    using data(2) by simp_all
  obtain request where "parse_message data = Inr request"
    "\<forall>our_tag. uas_request_matches_dialog request example_invite our_tag \<longleftrightarrow>
       our_tag = dlg_remote_tag example_ids"
    using in_dialog_request_matches [OF hs wf data(1) uri len q ids(1,2) inv(1) ids(3) inv(2) ids(4,5)]
    by blast
  then show ?thesis
    using data(1) ids(6) by (intro exI [of _ data] exI [of _ request]) simp
qed

end
