(* ===== verification/Sip_Transaction.thy ===== *)
theory Sip_Transaction
  imports Prelude
begin

text \<open>
  \<open>custom_components/voip_stack/sip_transaction.py\<close>: the retransmission timers of a SIP client
  transaction and of a server transaction.

  Times are integers, in milliseconds; the code's \<open>float\<close> seconds are multiples of a millisecond
  wherever it sets them.  What the loops wait for is the environment: one record per iteration says
  how late the event loop wakes up, what the reader or the \<open>active\<close> callback answers and whether
  the send succeeded.  A loop that has used up its list of iterations is still running (\<open>None\<close>).
\<close>

section \<open>Timers\<close>

definition SIP_T1 :: int where "SIP_T1 = 500"
definition SIP_T2 :: int where "SIP_T2 = 4000"
definition SIP_TIMER_B :: int where "SIP_TIMER_B = 64 * SIP_T1"
definition SIP_TIMER_H :: int where "SIP_TIMER_H = 64 * SIP_T1"

definition is_reliable :: "string \<Rightarrow> bool" where
  "is_reliable transport \<longleftrightarrow>
     upper (or_else transport ''UDP'') \<in> {''TCP'', ''TLS'', ''WS'', ''WSS''}"

definition timers_ok :: "int \<Rightarrow> int \<Rightarrow> int \<Rightarrow> bool" where
  "timers_ok timeout t1 t2 \<longleftrightarrow> \<not> (timeout < 0 \<or> t1 \<le> 0 \<or> t2 < t1)"

section \<open>Client transaction\<close>

record client_tx =
  ct_reliable :: bool
  ct_timeout :: int
  ct_t1 :: int
  ct_t2 :: int
  ct_deadline :: int
  ct_interval :: int
  ct_next :: int
  ct_retransmissions :: nat

definition client_new :: "string \<Rightarrow> int \<Rightarrow> int \<Rightarrow> int \<Rightarrow> int \<Rightarrow> exn + client_tx" where
  "client_new transport timeout t1 t2 now =
     (if \<not> timers_ok timeout t1 t2 then Inl ValueError
      else Inr \<lparr> ct_reliable = is_reliable transport, ct_timeout = timeout, ct_t1 = t1, ct_t2 = t2,
                 ct_deadline = now + timeout, ct_interval = t1, ct_next = now + t1,
                 ct_retransmissions = 0 \<rparr>)"

definition restart_retransmissions :: "client_tx \<Rightarrow> int \<Rightarrow> client_tx" where
  "restart_retransmissions tx now = tx\<lparr> ct_interval := ct_t1 tx, ct_next := now + ct_t1 tx \<rparr>"

definition client_remaining :: "client_tx \<Rightarrow> int \<Rightarrow> int" where
  "client_remaining tx now = max 0 (ct_deadline tx - now)"

text \<open>One iteration of the environment: the response the reader returns, if any, and the time that
  passes inside the reader and inside \<open>retransmit\<close>.\<close>

record 'a client_io =
  io_response :: "'a option"
  io_read :: int
  io_send :: int

definition read_timeout :: "client_tx \<Rightarrow> bool \<Rightarrow> int \<Rightarrow> int" where
  "read_timeout tx enabled now =
     (if \<not> ct_reliable tx \<and> enabled
      then min (ct_deadline tx - now) (max 0 (ct_next tx - now))
      else ct_deadline tx - now)"

definition retransmitted :: "client_tx \<Rightarrow> int \<Rightarrow> client_tx" where
  "retransmitted tx now =
     (let interval = min (ct_interval tx * 2) (ct_t2 tx)
      in tx\<lparr> ct_retransmissions := ct_retransmissions tx + 1, ct_interval := interval,
             ct_next := now + interval \<rparr>)"

text \<open>The result of \<open>receive\<close>: the response or \<open>None\<close>, with the transaction and the
  time at the return.\<close>

fun client_receive ::
  "client_tx \<Rightarrow> bool \<Rightarrow> int \<Rightarrow> 'a client_io list \<Rightarrow> ('a option \<times> client_tx \<times> int) option" where
  "client_receive tx enabled now [] =
     (if ct_deadline tx - now \<le> 0 then Some (None, tx, now) else None)"
| "client_receive tx enabled now (io # ios) =
     (if ct_deadline tx - now \<le> 0 then Some (None, tx, now)
      else
        let now1 = now + io_read io in
        case io_response io of
          Some r \<Rightarrow> Some (Some r, tx, now1)
        | None \<Rightarrow>
            if ct_reliable tx \<or> \<not> enabled \<or> ct_deadline tx \<le> now1 then Some (None, tx, now1)
            else
              let now2 = now1 + io_send io
              in client_receive (retransmitted tx now2) enabled now2 ios)"

section \<open>Server transaction\<close>

record server_cfg =
  sc_reliable :: bool
  sc_retransmit_reliable :: bool
  sc_t2 :: int
  sc_deadline :: int

record server_io =
  active_before :: bool
  late :: int
  active_after :: bool
  send_ok :: bool

record server_result =
  sr_retransmissions :: nat
  sr_timed_out :: bool

fun server_loop :: "server_cfg \<Rightarrow> int \<Rightarrow> int \<Rightarrow> nat \<Rightarrow> server_io list \<Rightarrow> server_result option" where
  "server_loop c now interval n [] = None"
| "server_loop c now interval n (io # ios) =
     (if \<not> active_before io then Some \<lparr> sr_retransmissions = n, sr_timed_out = False \<rparr>
      else
        let remaining = sc_deadline c - now in
        if remaining \<le> 0 then Some \<lparr> sr_retransmissions = n, sr_timed_out = True \<rparr>
        else
          let now' = now + min interval remaining + late io in
          if \<not> active_after io then Some \<lparr> sr_retransmissions = n, sr_timed_out = False \<rparr>
          else if sc_deadline c \<le> now' then Some \<lparr> sr_retransmissions = n, sr_timed_out = True \<rparr>
          else if \<not> sc_reliable c \<or> sc_retransmit_reliable c then
            server_loop c now' (min (interval * 2) (sc_t2 c)) (if send_ok io then n + 1 else n) ios
          else server_loop c now' interval n ios)"

definition run_server_transaction ::
  "string \<Rightarrow> int \<Rightarrow> int \<Rightarrow> int \<Rightarrow> bool \<Rightarrow> int \<Rightarrow> server_io list \<Rightarrow> exn + server_result option" where
  "run_server_transaction transport timeout t1 t2 retransmit_reliable now ios =
     (if \<not> timers_ok timeout t1 t2 then Inl ValueError
      else Inr (server_loop
        \<lparr> sc_reliable = is_reliable transport, sc_retransmit_reliable = retransmit_reliable,
          sc_t2 = t2, sc_deadline = now + timeout \<rparr> now t1 0 ios))"

section \<open>The server loop ends\<close>

lemma server_loop_ends:
  assumes "0 < interval" "interval \<le> sc_t2 c" "\<forall>io \<in> set ios. 0 \<le> late io"
    and "nat (sc_deadline c - now) \<le> length ios * nat interval" "ios \<noteq> []"
  shows "server_loop c now interval n ios \<noteq> None"
  using assms
proof (induction ios arbitrary: now interval n)
  case Nil
  then show ?case by simp
next
  case (Cons io ios)
  show ?case
  proof (cases "\<not> active_before io \<or> sc_deadline c - now \<le> 0 \<or> \<not> active_after io \<or>
      sc_deadline c \<le> now + min interval (sc_deadline c - now) + late io")
    case True
    then show ?thesis by (auto simp: Let_def)
  next
    case False
    let ?now = "now + min interval (sc_deadline c - now) + late io"
    let ?i = "min (interval * 2) (sc_t2 c)"
    have late: "0 \<le> late io" using Cons.prems by simp
    have m: "min interval (sc_deadline c - now) = interval"
      using False late by linarith
    have len: "int (Suc (length ios)) * interval \<ge> sc_deadline c - now"
      using Cons.prems(1,4) by (metis int_eq_iff length_Cons nat_le_iff of_nat_mult less_imp_le of_nat_0_le_iff int_nat_eq)
    have d: "sc_deadline c - ?now \<le> int (length ios) * interval"
      using len late by (simp add: m algebra_simps)
    have ne: "ios \<noteq> []"
      using d False by auto
    have i: "0 < ?i" "?i \<le> sc_t2 c" "interval \<le> ?i"
      using Cons.prems(1,2) by auto
    have le: "nat (sc_deadline c - ?now) \<le> length ios * nat j" if "interval \<le> j" for j
    proof -
      have "sc_deadline c - ?now \<le> int (length ios) * j"
        using d that mult_left_mono [of interval j "int (length ios)"] by linarith
      then show ?thesis
        using that Cons.prems(1) by (simp add: nat_le_iff)
    qed
    show ?thesis
      using False Cons.IH [OF i(1,2) _ le [OF i(3)] ne] Cons.IH [OF Cons.prems(1,2) _ le ne] Cons.prems(3)
      by (simp add: Let_def)
  qed
qed

text \<open>C28: A server transaction ends: with valid timers the loop returns after at most as many
  iterations as T1 goes into the timeout, whatever the callbacks answer and however late the event
  loop wakes it up; 64 iterations are enough with the default timers.\<close>

theorem server_transaction_returns:
  assumes "timers_ok timeout t1 t2" and "\<forall>io \<in> set ios. 0 \<le> late io"
    and "nat timeout \<le> length ios * nat t1" "ios \<noteq> []"
  shows "\<exists>result. run_server_transaction transport timeout t1 t2 retransmit_reliable now ios = Inr (Some result)"
  using assms server_loop_ends [of t1 "\<lparr> sc_reliable = is_reliable transport,
      sc_retransmit_reliable = retransmit_reliable, sc_t2 = t2, sc_deadline = now + timeout \<rparr>" ios now 0]
  by (auto simp: run_server_transaction_def timers_ok_def)

theorem server_transaction_returns_witness:
  "\<exists>result. run_server_transaction ''UDP'' SIP_TIMER_H SIP_T1 SIP_T2 False 0
     (replicate 64 \<lparr> active_before = True, late = 0, active_after = True, send_ok = True \<rparr>)
     = Inr (Some result)"
  by (rule server_transaction_returns)
     (auto simp: timers_ok_def SIP_TIMER_H_def SIP_T1_def SIP_T2_def)

section \<open>How often the server retransmits\<close>

text \<open>The sends of the ideal schedule that come before the deadline.\<close>

function schedule :: "int \<Rightarrow> int \<Rightarrow> int \<Rightarrow> nat" where
  "schedule t2 interval remaining =
     (if interval \<le> 0 \<or> remaining \<le> interval then 0
      else Suc (schedule t2 (min (interval * 2) t2) (remaining - interval)))"
  by pat_completeness auto
termination
  by (relation "measure (\<lambda>(_, _, r). nat r)") auto

declare schedule.simps [simp del]

lemma schedule_mono: "r \<le> r' \<Longrightarrow> schedule t2 i r \<le> schedule t2 i r'"
proof (induction t2 i r arbitrary: r' rule: schedule.induct)
  case (1 t2 i r)
  show ?case
  proof (cases "i \<le> 0 \<or> r \<le> i")
    case True
    then show ?thesis by (simp add: schedule.simps [of t2 i r])
  next
    case False
    with 1 show ?thesis
      by (simp add: schedule.simps [of t2 i r] schedule.simps [of t2 i r'])
  qed
qed

lemma server_loop_bound:
  assumes "server_loop c now interval n ios = Some r" "0 < interval" "interval \<le> sc_t2 c"
    and "\<forall>io \<in> set ios. 0 \<le> late io"
  shows "sr_retransmissions r \<le> n + schedule (sc_t2 c) interval (sc_deadline c - now)
    \<and> (sc_reliable c \<and> \<not> sc_retransmit_reliable c \<longrightarrow> sr_retransmissions r = n)"
  using assms
proof (induction ios arbitrary: now interval n)
  case Nil
  then show ?case by simp
next
  case (Cons io ios)
  let ?now = "now + min interval (sc_deadline c - now) + late io"
  let ?i = "min (interval * 2) (sc_t2 c)"
  show ?case
  proof (cases "\<not> active_before io \<or> sc_deadline c - now \<le> 0 \<or> \<not> active_after io \<or> sc_deadline c \<le> ?now")
    case True
    with Cons.prems(1) show ?thesis by (auto simp: Let_def split: if_splits)
  next
    case False
    have late: "0 \<le> late io" using Cons.prems by simp
    have le: "interval < sc_deadline c - now" "sc_deadline c - ?now \<le> sc_deadline c - now - interval"
      using False late by linarith+
    have step: "schedule (sc_t2 c) interval (sc_deadline c - now)
        = Suc (schedule (sc_t2 c) ?i (sc_deadline c - now - interval))"
      using le Cons.prems(2) by (subst schedule.simps) simp
    have m: "schedule (sc_t2 c) ?i (sc_deadline c - ?now) \<le> schedule (sc_t2 c) ?i (sc_deadline c - now - interval)"
      by (rule schedule_mono [OF le(2)])
    have m': "schedule (sc_t2 c) interval (sc_deadline c - ?now) \<le> schedule (sc_t2 c) interval (sc_deadline c - now)"
      by (rule schedule_mono) (use le Cons.prems(2) in linarith)
    have i: "0 < ?i" "?i \<le> sc_t2 c"
      using Cons.prems(2,3) by auto
    have l: "\<forall>io \<in> set ios. 0 \<le> late io" using Cons.prems(4) by simp
    show ?thesis
    proof (cases "\<not> sc_reliable c \<or> sc_retransmit_reliable c")
      case True
      then have "server_loop c ?now ?i (if send_ok io then n + 1 else n) ios = Some r"
        using False Cons.prems(1) by (simp add: Let_def)
      from Cons.IH [OF this i l] show ?thesis
        using step m True by (auto split: if_splits)
    next
      case rel: False
      then have "server_loop c ?now interval n ios = Some r"
        using False Cons.prems(1) by (simp add: Let_def)
      from Cons.IH [OF this Cons.prems(2,3) l] show ?thesis
        using m' rel by auto
    qed
  qed
qed

lemma default_schedule: "schedule 4000 500 32000 = 10"
  by (simp add: schedule.simps)

text \<open>With the default timers of RFC 3261 a server transaction retransmits at most ten times
  before Timer H ends it, and never over a reliable transport, unless reliable retransmission (of a
  2xx response) is asked for.\<close>

lemma server_retransmissions_bounded:
  assumes "run_server_transaction transport SIP_TIMER_H SIP_T1 SIP_T2 retransmit_reliable now ios
      = Inr (Some r)"
    and "\<forall>io \<in> set ios. 0 \<le> late io"
  shows "sr_retransmissions r \<le> 10 \<and>
    (is_reliable transport \<and> \<not> retransmit_reliable \<longrightarrow> sr_retransmissions r = 0)"
  using assms server_loop_bound [of "\<lparr> sc_reliable = is_reliable transport,
      sc_retransmit_reliable = retransmit_reliable, sc_t2 = SIP_T2, sc_deadline = now + SIP_TIMER_H \<rparr>"
      now SIP_T1 0 ios r] default_schedule
  by (simp add: run_server_transaction_def SIP_T1_def SIP_T2_def SIP_TIMER_H_def split: if_splits)

lemma server_retransmissions_bounded_example:
  "\<exists>r. run_server_transaction ''tcp'' SIP_TIMER_H SIP_T1 SIP_T2 False 7
      [\<lparr> active_before = True, late = 3, active_after = True, send_ok = True \<rparr>,
       \<lparr> active_before = True, late = 0, active_after = False, send_ok = True \<rparr>] = Inr (Some r) \<and>
     sr_retransmissions r \<le> 10 \<and> sr_retransmissions r = 0"
proof -
  have t: "is_reliable ''tcp''"
    by code_simp
  then have e: "run_server_transaction ''tcp'' SIP_TIMER_H SIP_T1 SIP_T2 False 7
      [\<lparr> active_before = True, late = 3, active_after = True, send_ok = True \<rparr>,
       \<lparr> active_before = True, late = 0, active_after = False, send_ok = True \<rparr>]
      = Inr (Some \<lparr> sr_retransmissions = 0, sr_timed_out = False \<rparr>)"
    by (simp add: run_server_transaction_def timers_ok_def SIP_T1_def SIP_T2_def SIP_TIMER_H_def Let_def)
  show ?thesis
    using server_retransmissions_bounded [OF e] t e by simp
qed

section \<open>The client loop\<close>

text \<open>A reader that says nothing keeps the time it was given, and time does not run backwards.\<close>

fun reader_honest :: "client_tx \<Rightarrow> bool \<Rightarrow> int \<Rightarrow> 'a client_io list \<Rightarrow> bool" where
  "reader_honest tx enabled now [] = True"
| "reader_honest tx enabled now (io # ios) =
     ((io_response io = None \<longrightarrow> read_timeout tx enabled now \<le> io_read io) \<and> 0 \<le> io_send io \<and>
      reader_honest (retransmitted tx (now + io_read io + io_send io)) enabled
        (now + io_read io + io_send io) ios)"

lemma client_receive_returns:
  assumes "reader_honest tx enabled now ios" "ios \<noteq> []"
    and "0 < ct_t1 tx" "ct_t1 tx \<le> ct_interval tx" "ct_t1 tx \<le> ct_t2 tx"
    and "ct_deadline tx - ct_next tx \<le> int (length ios - 1) * ct_t1 tx"
  shows "\<exists>r tx' t. client_receive tx enabled now ios = Some (r, tx', t) \<and>
    (r = None \<longrightarrow> ct_deadline tx \<le> t) \<and>
    (ct_reliable tx \<or> \<not> enabled \<longrightarrow> ct_retransmissions tx' = ct_retransmissions tx)"
  using assms
proof (induction ios arbitrary: tx now)
  case Nil
  then show ?case by simp
next
  case (Cons io ios)
  let ?now1 = "now + io_read io" and ?now2 = "now + io_read io + io_send io"
  show ?case
  proof (cases "ct_deadline tx - now \<le> 0 \<or> io_response io \<noteq> None \<or> ct_reliable tx \<or> \<not> enabled
      \<or> ct_deadline tx \<le> ?now1")
    case True
    then show ?thesis
      using Cons.prems(1) by (auto simp: Let_def read_timeout_def split: option.splits if_splits)
  next
    case False
    have honest: "min (ct_deadline tx - now) (max 0 (ct_next tx - now)) \<le> io_read io" "0 \<le> io_send io"
      using False Cons.prems(1) by (auto simp: read_timeout_def)
    then have passed: "ct_next tx \<le> ?now1"
      using False by linarith
    have ne: "ios \<noteq> []"
      using Cons.prems(6) passed False by auto
    let ?tx = "retransmitted tx ?now2"
    have tx: "0 < ct_t1 ?tx" "ct_t1 ?tx \<le> ct_interval ?tx" "ct_t1 ?tx \<le> ct_t2 ?tx"
      "ct_deadline ?tx = ct_deadline tx" "ct_next tx + ct_t1 tx \<le> ct_next ?tx"
      "ct_reliable ?tx = ct_reliable tx" "ct_t1 ?tx = ct_t1 tx"
      using Cons.prems(3-5) passed honest(2) by (auto simp: retransmitted_def Let_def)
    have "int (length (io # ios) - 1) * ct_t1 tx = int (length ios - 1) * ct_t1 tx + ct_t1 tx"
      using ne by (cases ios) (simp_all add: algebra_simps)
    then have "ct_deadline ?tx - ct_next ?tx \<le> int (length ios - 1) * ct_t1 ?tx"
      unfolding tx(7) using Cons.prems(6) tx(4,5) by linarith
    from Cons.IH [OF _ ne tx(1-3) this, of ?now2] show ?thesis
      using False Cons.prems(1) tx(4,6) by (auto simp: Let_def)
  qed
qed

text \<open>A client transaction returns: with a reader that waits as long as it is told to, \<open>receive\<close>
  ends after at most as many iterations as T1 goes into the timeout (and one more), it gives up only at
  the deadline, and it does not retransmit over a reliable transport or when retransmission is off.\<close>

lemma client_transaction_returns:
  assumes "client_new transport timeout t1 t2 now = Inr tx"
    and "reader_honest tx enabled now ios" "ios \<noteq> []" "timeout \<le> int (length ios) * t1"
  shows "\<exists>r tx' t. client_receive tx enabled now ios = Some (r, tx', t) \<and>
    (r = None \<longrightarrow> now + timeout \<le> t) \<and>
    (is_reliable transport \<or> \<not> enabled \<longrightarrow> ct_retransmissions tx' = 0)"
proof -
  have tx: "ct_deadline tx = now + timeout" "ct_next tx = now + t1" "ct_t1 tx = t1" "ct_t2 tx = t2"
    "ct_interval tx = t1" "ct_reliable tx = is_reliable transport" "ct_retransmissions tx = 0"
    and ok: "timers_ok timeout t1 t2"
    using assms(1) by (auto simp: client_new_def split: if_splits)
  have "int (length ios) * t1 = int (length ios - 1) * t1 + t1"
    using assms(3) by (cases ios) (simp_all add: algebra_simps)
  then show ?thesis
    using client_receive_returns [OF assms(2,3)] assms(4) ok by (auto simp: tx timers_ok_def)
qed

lemma client_transaction_returns_example:
  "\<exists>tx r tx' t. client_new ''UDP'' 1200 500 4000 0 = Inr tx \<and>
     client_receive tx True 0 [\<lparr> io_response = None, io_read = 500, io_send = 1 \<rparr>,
       \<lparr> io_response = None, io_read = 900, io_send = 0 \<rparr>,
       \<lparr> io_response = Some ''200'', io_read = 5, io_send = 0 \<rparr>] = Some (r, tx', t) \<and>
     (r = None \<longrightarrow> 0 + 1200 \<le> t)"
proof -
  let ?ios = "[\<lparr> io_response = None, io_read = 500, io_send = 1 \<rparr>,
       \<lparr> io_response = None, io_read = 900, io_send = 0 \<rparr>,
       \<lparr> io_response = Some ''200'', io_read = 5, io_send = 0 \<rparr>]"
  have u: "\<not> is_reliable ''UDP''"
    by code_simp
  obtain tx where tx: "client_new ''UDP'' 1200 500 4000 0 = Inr tx"
    by (simp add: client_new_def timers_ok_def)
  have "reader_honest tx True 0 ?ios"
    using tx u by (auto simp: client_new_def timers_ok_def read_timeout_def retransmitted_def)
  then have "\<exists>r tx' t. client_receive tx True 0 ?ios = Some (r, tx', t) \<and>
      (r = None \<longrightarrow> 0 + 1200 \<le> t) \<and> (is_reliable ''UDP'' \<or> \<not> True \<longrightarrow> ct_retransmissions tx' = 0)"
    by (rule client_transaction_returns [OF tx]) simp_all
  with tx show ?thesis by blast
qed

end
