(* ===== verification/Audio_Format.thy ===== *)
theory Audio_Format
  imports Prelude
begin

text \<open>
  \<open>custom_components/voip_stack/audio_format.py\<close>: the PCM format contract of the transports.

  \<open>AudioFormat\<close> is a record; its constructor, which validates, is \<open>make_format\<close>.  Sets of
  integers are lists.
\<close>

datatype pcm_format = S16LE | S24LE | S24LE_IN_S32 | S32LE

fun pcm_value :: "pcm_format \<Rightarrow> string" where
  "pcm_value S16LE = ''s16le''"
| "pcm_value S24LE = ''s24le''"
| "pcm_value S24LE_IN_S32 = ''s24le_in_s32''"
| "pcm_value S32LE = ''s32le''"

definition all_pcm_formats :: "pcm_format list" where
  "all_pcm_formats = [S16LE, S24LE, S24LE_IN_S32, S32LE]"

text \<open>\<open>PcmFormat(text)\<close>.\<close>

definition pcm_of_text :: "string \<Rightarrow> exn + pcm_format" where
  "pcm_of_text t =
     (case find (\<lambda>p. pcm_value p = t) all_pcm_formats of
        Some p \<Rightarrow> Inr p | None \<Rightarrow> Inl ValueError)"

fun CONTAINER_BYTES :: "pcm_format \<Rightarrow> int" where
  "CONTAINER_BYTES S16LE = 2"
| "CONTAINER_BYTES S24LE = 3"
| "CONTAINER_BYTES S24LE_IN_S32 = 4"
| "CONTAINER_BYTES S32LE = 4"

definition SUPPORTED_SAMPLE_RATES :: "int list" where
  "SUPPORTED_SAMPLE_RATES = [8000, 12000, 16000, 24000, 32000, 44100, 48000]"
definition SUPPORTED_CHANNELS :: "int list" where "SUPPORTED_CHANNELS = [1, 2]"
definition SUPPORTED_FRAME_MS :: "int list" where "SUPPORTED_FRAME_MS = [10, 16, 20, 32]"
definition UDP_SAFE_PAYLOAD_BYTES :: int where "UDP_SAFE_PAYLOAD_BYTES = 1200"

record audio_format =
  af_rate :: int
  af_pcm :: pcm_format
  af_channels :: int
  af_frame_ms :: int

definition make_format :: "int \<Rightarrow> pcm_format \<Rightarrow> int \<Rightarrow> int \<Rightarrow> exn + audio_format" where
  "make_format rate pcm channels frame_ms =
     (if rate \<notin> set SUPPORTED_SAMPLE_RATES then Inl (FormatError ''unsupported sample_rate'')
      else if channels \<notin> set SUPPORTED_CHANNELS
        then Inl (FormatError ''unsupported channel count'')
      else if frame_ms \<notin> set SUPPORTED_FRAME_MS then Inl (FormatError ''unsupported frame_ms'')
      else if (rate * frame_ms) mod 1000 \<noteq> 0
        then Inl (FormatError ''sample_rate and frame_ms do not form whole PCM frames'')
      else Inr \<lparr> af_rate = rate, af_pcm = pcm, af_channels = channels, af_frame_ms = frame_ms \<rparr>)"

definition nominal_frame_samples :: "audio_format \<Rightarrow> int" where
  "nominal_frame_samples f = (af_rate f * af_frame_ms f) div 1000"

definition nominal_frame_bytes :: "audio_format \<Rightarrow> int" where
  "nominal_frame_bytes f = nominal_frame_samples f * af_channels f * CONTAINER_BYTES (af_pcm f)"

definition fits_udp_payload :: "audio_format \<Rightarrow> int \<Rightarrow> bool" where
  "fits_udp_payload f max_payload \<longleftrightarrow> nominal_frame_bytes f \<le> max_payload"

definition wire_token :: "audio_format \<Rightarrow> string" where
  "wire_token f =
     dec_int (af_rate f) @ '':'' @ pcm_value (af_pcm f) @ '':'' @ dec_int (af_channels f)
     @ '':'' @ dec_int (af_frame_ms f)"

definition PREFERRED_FRAME_MS :: "int list" where "PREFERRED_FRAME_MS = [10, 16, 20, 32]"

definition fmt :: "int \<Rightarrow> int \<Rightarrow> int \<Rightarrow> audio_format" where
  "fmt rate channels frame_ms =
     \<lparr> af_rate = rate, af_pcm = S16LE, af_channels = channels, af_frame_ms = frame_ms \<rparr>"

definition HA_SIP_PCM_FORMATS :: "audio_format list" where
  "HA_SIP_PCM_FORMATS =
     [fmt 48000 2 20, fmt 48000 1 20, fmt 48000 1 10, fmt 32000 1 16, fmt 32000 1 10,
      fmt 16000 1 16, fmt 16000 1 10, fmt 16000 1 20, fmt 16000 1 32, fmt 8000 1 20]"

definition HA_TRUNK_AUDIO_FORMATS :: "audio_format list" where
  "HA_TRUNK_AUDIO_FORMATS = [fmt 48000 2 20, fmt 48000 1 20, fmt 16000 1 20, fmt 8000 1 20]"

definition int_or_error :: "string \<Rightarrow> exn + int" where
  "int_or_error s = (case py_int s of Some i \<Rightarrow> Inr i | None \<Rightarrow> Inl ValueError)"

definition parse_audio_format_token :: "string \<Rightarrow> exn + audio_format" where
  "parse_audio_format_token token =
     (if token = [] then Inl (FormatError ''audio format token is required'')
      else case map strip (split_on (CHR '':'') token) of
        [sample_rate, pcm, channels, frame_ms] \<Rightarrow>
          bindE (int_or_error sample_rate) (\<lambda>rate.
          bindE (pcm_of_text pcm) (\<lambda>p.
          bindE (int_or_error channels) (\<lambda>ch.
          bindE (int_or_error frame_ms) (\<lambda>ms. make_format rate p ch ms))))
      | _ \<Rightarrow> Inl (FormatError ''invalid audio format token''))"

definition parse_audio_format_list :: "string \<Rightarrow> exn + audio_format list" where
  "parse_audio_format_list value =
     bindE (mapE parse_audio_format_token
        (map strip (filter (\<lambda>p. strip p \<noteq> []) (split_on (CHR '';'') value))))
       (\<lambda>formats. if 8 < length formats then Inl (FormatError ''too many audio formats (max 8)'')
                  else Inr formats)"

text \<open>The loop over the argument lists; \<open>available\<close> is the accumulator, \<open>None\<close> before the
  first list.\<close>

fun common_frames :: "int list option \<Rightarrow> audio_format list list \<Rightarrow> int list option" where
  "common_frames available [] = available"
| "common_frames available (formats # tail) =
     (let frames = map af_frame_ms formats in
      if frames = [] then None
      else common_frames
        (Some (case available of None \<Rightarrow> frames | Some a \<Rightarrow> filter (\<lambda>m. m \<in> set frames) a)) tail)"

definition choose_common_frame_ms :: "audio_format list list \<Rightarrow> int option" where
  "choose_common_frame_ms format_lists =
     (case common_frames None format_lists of
        None \<Rightarrow> None
      | Some [] \<Rightarrow> None
      | Some available \<Rightarrow>
          (case find (\<lambda>m. m \<in> set available) PREFERRED_FRAME_MS of
             Some m \<Rightarrow> Some m
           | None \<Rightarrow> Some (fold min (tl available) (hd available))))"

section \<open>Valid formats\<close>

definition valid_format :: "audio_format \<Rightarrow> bool" where
  "valid_format f \<longleftrightarrow>
     make_format (af_rate f) (af_pcm f) (af_channels f) (af_frame_ms f) = Inr f"

lemma make_format_valid: "make_format r p c m = Inr f \<Longrightarrow>
    f = \<lparr> af_rate = r, af_pcm = p, af_channels = c, af_frame_ms = m \<rparr> \<and> valid_format f"
  by (auto simp: make_format_def valid_format_def split: if_splits)

lemma valid_format_iff:
  "valid_format f \<longleftrightarrow> af_rate f \<in> set SUPPORTED_SAMPLE_RATES \<and> af_channels f \<in> set SUPPORTED_CHANNELS \<and>
     af_frame_ms f \<in> set SUPPORTED_FRAME_MS \<and> (af_rate f * af_frame_ms f) mod 1000 = 0"
  by (auto simp: valid_format_def make_format_def)

lemma parsed_token_valid: "parse_audio_format_token t = Inr f \<Longrightarrow> valid_format f"
  by (auto simp: parse_audio_format_token_def bindE_eq_Inr make_format_valid split: if_splits list.splits)

section \<open>Tokens\<close>

lemma pcm_of_text_value [simp]: "pcm_of_text (pcm_value p) = Inr p"
  by (cases p) (simp_all add: pcm_of_text_def all_pcm_formats_def)

lemma pcm_value_plain: "CHR '':'' \<notin> set (pcm_value p)" "strip (pcm_value p) = pcm_value p"
  by (cases p; simp add: strip_no_space is_space_def)+

lemma dec_plain: "CHR '':'' \<notin> set (dec n)"
  using dec_digits [of n] by (auto simp: is_digit_def)

lemma token_roundtrip:
  assumes "valid_format f"
  shows "parse_audio_format_token (wire_token f) = Inr f"
proof -
  have nn: "0 \<le> af_rate f" "0 \<le> af_channels f" "0 \<le> af_frame_ms f"
    "nat (af_rate f) < 10000000000" "nat (af_channels f) < 10000000000" "nat (af_frame_ms f) < 10000000000"
    using assms by (auto simp: valid_format_iff SUPPORTED_SAMPLE_RATES_def SUPPORTED_CHANNELS_def
        SUPPORTED_FRAME_MS_def)
  then have d: "dec_int (af_rate f) = dec (nat (af_rate f))"
    "dec_int (af_channels f) = dec (nat (af_channels f))"
    "dec_int (af_frame_ms f) = dec (nat (af_frame_ms f))"
    by (simp_all add: dec_int_def)
  have split: "split_on (CHR '':'') (wire_token f) =
      [dec (nat (af_rate f)), pcm_value (af_pcm f), dec (nat (af_channels f)), dec (nat (af_frame_ms f))]"
    by (simp add: wire_token_def d split_on_skip split_on_single dec_plain pcm_value_plain)
  moreover have "wire_token f \<noteq> []"
    by (simp add: wire_token_def)
  moreover have "make_format (af_rate f) (af_pcm f) (af_channels f) (af_frame_ms f) = Inr f"
    using assms by (simp add: valid_format_def)
  ultimately show ?thesis
    using nn py_int_dec_small
    by (simp add: parse_audio_format_token_def pcm_value_plain int_or_error_def)
qed

text \<open>Whatever text announces the formats, the ones that are accepted are at most eight, each
  within the supported rates, channel counts and frame lengths, and its frame is a whole, positive
  number of samples of at most 12288 bytes; its wire token is read back as the same format.\<close>

lemma parsed_formats_valid:
  assumes "parse_audio_format_list text = Inr formats" and "f \<in> set formats"
  shows "length formats \<le> 8 \<and> valid_format f \<and>
    nominal_frame_samples f * 1000 = af_rate f * af_frame_ms f \<and>
    0 < nominal_frame_bytes f \<and> nominal_frame_bytes f \<le> 12288 \<and>
    parse_audio_format_token (wire_token f) = Inr f"
proof -
  obtain parts where "mapE parse_audio_format_token parts = Inr formats" and len: "length formats \<le> 8"
    using assms(1) by (auto simp: parse_audio_format_list_def bindE_eq_Inr split: if_splits)
  then have "\<exists>t. parse_audio_format_token t = Inr f"
    using assms(2) by (auto simp: mapE_Inr list_all2_conv_all_nth in_set_conv_nth)
  then have v: "valid_format f"
    using parsed_token_valid by blast
  moreover have "0 < nominal_frame_bytes f \<and> nominal_frame_bytes f \<le> 12288"
    using v by (cases "af_pcm f")
      (auto simp: valid_format_iff SUPPORTED_SAMPLE_RATES_def SUPPORTED_CHANNELS_def
        SUPPORTED_FRAME_MS_def nominal_frame_bytes_def nominal_frame_samples_def)
  moreover have "nominal_frame_samples f * 1000 = af_rate f * af_frame_ms f"
    using v by (auto simp: valid_format_iff nominal_frame_samples_def)
  ultimately show ?thesis
    using len token_roundtrip by blast
qed

lemma parsed_formats_valid_example:
  "\<exists>formats f. parse_audio_format_list (wire_token (fmt 8000 1 20)) = Inr formats \<and> f \<in> set formats \<and>
     nominal_frame_bytes f \<le> 12288"
proof -
  let ?f = "fmt 8000 1 20"
  have v: "valid_format ?f"
    by (simp add: valid_format_def fmt_def make_format_def SUPPORTED_SAMPLE_RATES_def
        SUPPORTED_CHANNELS_def SUPPORTED_FRAME_MS_def)
  have w: "wire_token ?f = ''8000:s16le:1:20''"
    by (simp add: wire_token_def fmt_def dec_int_def dec.simps digit_char_def) code_simp
  have "parse_audio_format_list (wire_token ?f) = Inr [?f]"
    using token_roundtrip [OF v] unfolding w
    by (simp add: parse_audio_format_list_def split_on_def strip_no_space is_space_def)
  then show ?thesis
    using parsed_formats_valid [of "wire_token ?f" "[?f]" ?f] by auto
qed

section \<open>A common frame length\<close>

lemma common_frames_Some:
  "set_option (map_option set (common_frames (Some a) ls)) \<subseteq>
     {set a \<inter> (\<Inter>l \<in> set ls. af_frame_ms ` set l)}"
  by (induction "Some a" ls arbitrary: a rule: common_frames.induct) (auto simp: Let_def)

lemma common_frames_None: "common_frames (Some a) ls = None \<longleftrightarrow> [] \<in> set ls"
  by (induction "Some a" ls arbitrary: a rule: common_frames.induct) (auto simp: Let_def)

definition common_frame :: "audio_format list list \<Rightarrow> int \<Rightarrow> bool" where
  "common_frame ls m \<longleftrightarrow> ls \<noteq> [] \<and> (\<forall>l \<in> set ls. m \<in> af_frame_ms ` set l)"

lemma common_frames_spec:
  "(case common_frames None ls of None \<Rightarrow> {} | Some a \<Rightarrow> set a) = {m. common_frame ls m}"
proof (cases ls)
  case Nil
  then show ?thesis by (simp add: common_frame_def)
next
  case (Cons l rest)
  show ?thesis
  proof (cases "l = [] \<or> [] \<in> set rest")
    case True
    then show ?thesis
      using common_frames_None [of "map af_frame_ms l" rest] Cons
      by (auto simp: common_frame_def Let_def)
  next
    case False
    then obtain a where a: "common_frames (Some (map af_frame_ms l)) rest = Some a"
      using common_frames_None [of "map af_frame_ms l" rest] by auto
    then show ?thesis
      using common_frames_Some [of "map af_frame_ms l" rest] Cons False
      by (auto simp: common_frame_def Let_def)
  qed
qed

lemma find_preferred:
  assumes "A \<subseteq> set PREFERRED_FRAME_MS" "A \<noteq> {}"
  shows "\<exists>m. find (\<lambda>m. m \<in> A) PREFERRED_FRAME_MS = Some m \<and> m \<in> A \<and> (\<forall>n \<in> A. m \<le> n)"
proof -
  have s: "n = 10 \<or> n = 16 \<or> n = 20 \<or> n = 32" if "n \<in> A" for n
    using assms(1) that by (auto simp: PREFERRED_FRAME_MS_def)
  obtain n where "n \<in> A" using assms(2) by blast
  with s consider (a) "10 \<in> A" | (b) "10 \<notin> A" "16 \<in> A" | (c) "10 \<notin> A" "16 \<notin> A" "20 \<in> A"
    | (d) "10 \<notin> A" "16 \<notin> A" "20 \<notin> A" "32 \<in> A"
    by metis
  then show ?thesis
  proof cases
    case a
    then have "find (\<lambda>m. m \<in> A) PREFERRED_FRAME_MS = Some 10" by (simp add: PREFERRED_FRAME_MS_def)
    moreover have "10 \<le> k" if "k \<in> A" for k using s [OF that] by auto
    ultimately show ?thesis using a by blast
  next
    case b
    then have "find (\<lambda>m. m \<in> A) PREFERRED_FRAME_MS = Some 16" by (simp add: PREFERRED_FRAME_MS_def)
    moreover have "16 \<le> k" if "k \<in> A" for k using s [OF that] that b by auto
    ultimately show ?thesis using b by blast
  next
    case c
    then have "find (\<lambda>m. m \<in> A) PREFERRED_FRAME_MS = Some 20" by (simp add: PREFERRED_FRAME_MS_def)
    moreover have "20 \<le> k" if "k \<in> A" for k using s [OF that] that c by auto
    ultimately show ?thesis using c by blast
  next
    case d
    then have "find (\<lambda>m. m \<in> A) PREFERRED_FRAME_MS = Some 32" by (simp add: PREFERRED_FRAME_MS_def)
    moreover have "32 \<le> k" if "k \<in> A" for k using s [OF that] that d by auto
    ultimately show ?thesis using d by blast
  qed
qed

text \<open>For lists of valid formats the negotiation picks the smallest frame length that every list
  offers, and picks nothing exactly when there is none.\<close>

lemma common_frame_is_least:
  assumes "\<forall>l \<in> set ls. \<forall>f \<in> set l. valid_format f"
  shows "case choose_common_frame_ms ls of
      None \<Rightarrow> \<not> (\<exists>m. common_frame ls m)
    | Some m \<Rightarrow> common_frame ls m \<and> (\<forall>n. common_frame ls n \<longrightarrow> m \<le> n)"
proof (cases "common_frames None ls")
  case None
  then show ?thesis
    using common_frames_spec [of ls] by (auto simp: choose_common_frame_ms_def)
next
  case (Some a)
  then have a: "set a = {m. common_frame ls m}"
    using common_frames_spec [of ls] by simp
  show ?thesis
  proof (cases "a = []")
    case True
    with Some a show ?thesis by (auto simp: choose_common_frame_ms_def)
  next
    case False
    have "set a \<subseteq> set PREFERRED_FRAME_MS"
    proof
      fix m assume "m \<in> set a"
      then have "ls \<noteq> []" "\<forall>l \<in> set ls. m \<in> af_frame_ms ` set l"
        using a by (auto simp: common_frame_def)
      then obtain f l where "l \<in> set ls" "f \<in> set l" "m = af_frame_ms f"
        by (cases ls) auto
      then show "m \<in> set PREFERRED_FRAME_MS"
        using assms by (auto simp: valid_format_iff SUPPORTED_FRAME_MS_def PREFERRED_FRAME_MS_def)
    qed
    from find_preferred [OF this] False obtain m where
      m: "find (\<lambda>m. m \<in> set a) PREFERRED_FRAME_MS = Some m" "m \<in> set a" "\<forall>n \<in> set a. m \<le> n"
      by auto
    then have "choose_common_frame_ms ls = Some m"
      using Some False by (cases a) (simp_all add: choose_common_frame_ms_def)
    then show ?thesis
      using m(2,3) a by simp
  qed
qed

lemma common_frame_is_least_example:
  "case choose_common_frame_ms [HA_SIP_PCM_FORMATS, HA_TRUNK_AUDIO_FORMATS] of
      None \<Rightarrow> False
    | Some m \<Rightarrow> common_frame [HA_SIP_PCM_FORMATS, HA_TRUNK_AUDIO_FORMATS] m"
proof -
  have v: "\<forall>l \<in> set [HA_SIP_PCM_FORMATS, HA_TRUNK_AUDIO_FORMATS]. \<forall>f \<in> set l. valid_format f"
    by (simp add: HA_SIP_PCM_FORMATS_def HA_TRUNK_AUDIO_FORMATS_def fmt_def valid_format_def make_format_def
        SUPPORTED_SAMPLE_RATES_def SUPPORTED_CHANNELS_def SUPPORTED_FRAME_MS_def)
  have c: "common_frame [HA_SIP_PCM_FORMATS, HA_TRUNK_AUDIO_FORMATS] 20"
    by (simp add: common_frame_def HA_SIP_PCM_FORMATS_def HA_TRUNK_AUDIO_FORMATS_def fmt_def)
  from common_frame_is_least [OF v] show ?thesis
    using c by (auto split: option.splits)
qed

end
