(* ===== verification/Dtmf.thy ===== *)
theory Dtmf
  imports Prelude Rtp
begin

text \<open>
  \<open>custom_components/voip_stack/dtmf.py\<close>: DTMF digits from SIP INFO bodies and from RTP
  telephone events, and their collection into a dialled code.

  A digit is a one-character text.  The routes are the association list of a dictionary.  The socket
  and the timeout of the collectors are outside: a collector is the fold of its \<open>on_digit\<close> over the
  digits that arrive, followed by its reading at the timeout.
\<close>

section \<open>Digits in SIP INFO\<close>

definition EVENT_DIGITS :: "(int \<times> string) list" where
  "EVENT_DIGITS =
     [(0, ''0''), (1, ''1''), (2, ''2''), (3, ''3''), (4, ''4''), (5, ''5''), (6, ''6''), (7, ''7''),
      (8, ''8''), (9, ''9''), (10, ''*''), (11, ''#''), (12, ''A''), (13, ''B''), (14, ''C''), (15, ''D'')]"

definition DIGIT_EVENT_CODES :: "(string \<times> int) list" where
  "DIGIT_EVENT_CODES = map (\<lambda>(event, digit). (digit, event)) EVENT_DIGITS"

definition INFO_EVENT_CODES :: "(string \<times> string) list" where
  "INFO_EVENT_CODES =
     [(''10'', ''*''), (''11'', ''#''), (''12'', ''A''), (''13'', ''B''), (''14'', ''C''), (''15'', ''D'')]"

definition DTMF_ALPHABET :: string where
  "DTMF_ALPHABET = ''0123456789*#ABCD''"

text \<open>\<open>text in other\<close>, the substring test.\<close>

definition is_substring :: "string \<Rightarrow> string \<Rightarrow> bool" where
  "is_substring x s = list_ex (\<lambda>i. startswith (drop i s) x) [0..<Suc (length s)]"

text \<open>\<open>\s*(?:\r?\n|$)\<close>: the white space here runs to the end of the text or holds a line feed.\<close>

definition line_end :: "string \<Rightarrow> bool" where
  "line_end s = (let w = takeWhile is_space s in length w = length s \<or> LF \<in> set w)"

text \<open>\<open>([0-9]{1,2}|[*#A-D])\s*(?:\r?\n|$)\<close>.\<close>

definition signal_value :: "string \<Rightarrow> string option" where
  "signal_value s =
     (let ds = takeWhile is_digit s in
      if ds \<noteq> [] then
        (if length ds \<le> 2 \<and> line_end (drop (length ds) s) then Some ds else None)
      else (case s of
              [] \<Rightarrow> None
            | c # r \<Rightarrow> if upper_char c \<in> set ''*#ABCD'' \<and> line_end r then Some [c] else None))"

text \<open>The whole expression at a place where \<open>Signal\<close> may start.\<close>

definition signal_here :: "string \<Rightarrow> string option" where
  "signal_here s =
     (if lower (take 6 s) \<noteq> ''signal'' then None
      else case lstrip (drop 6 s) of
        [] \<Rightarrow> None
      | c # r \<Rightarrow> if c = CHR ''='' then signal_value (lstrip r) else None)"

text \<open>The search: \<open>ok\<close> holds where only white space lies between here and the start of the text
  or some line feed before.\<close>

fun search_signal :: "bool \<Rightarrow> string \<Rightarrow> string option" where
  "search_signal ok [] = None"
| "search_signal ok (c # s) =
     (case (if ok then signal_here (c # s) else None) of
        Some v \<Rightarrow> Some v
      | None \<Rightarrow> search_signal (c = LF \<or> (ok \<and> is_space c)) s)"

definition parse_sip_info_digit :: "string \<Rightarrow> string \<Rightarrow> string" where
  "parse_sip_info_digit content_type body =
     (let media_type = lower (strip (before (CHR '';'') content_type));
          text = strip (filter (\<lambda>c. ord c < 0x80) body)
      in if media_type = ''application/dtmf-relay'' then
           (case search_signal True text of
              None \<Rightarrow> []
            | Some v \<Rightarrow>
                let signal = upper v in
                (case assoc INFO_EVENT_CODES signal of
                   Some d \<Rightarrow> d
                 | None \<Rightarrow> if is_substring signal DTMF_ALPHABET then signal else []))
         else if media_type = ''application/dtmf'' \<and> text \<noteq> [] then
           (let digit = upper_char (hd text)
            in if digit \<in> set DTMF_ALPHABET then [digit] else [])
         else [])"

section \<open>Telephone events\<close>

definition telephone_event_code :: "string \<Rightarrow> int option" where
  "telephone_event_code digit = assoc DIGIT_EVENT_CODES (upper (strip digit))"

definition build_telephone_event_payload :: "string \<Rightarrow> int \<Rightarrow> bool \<Rightarrow> int \<Rightarrow> exn + int list" where
  "build_telephone_event_payload digit duration end_bit volume =
     (case telephone_event_code digit of
        None \<Rightarrow> Inl ValueError
      | Some event \<Rightarrow>
          if \<not> (1 \<le> duration \<and> duration \<le> 0xFFFF) then Inl ValueError
          else if \<not> (0 \<le> volume \<and> volume \<le> 63) then Inl ValueError
          else Inr ([event, (if end_bit then 0x80 else 0) OR volume] @ be16 duration))"

record dtmf_decoder =
  dd_payload_type :: int
  dd_ssrc :: "int option"
  dd_seen :: "(int \<times> int) list"

definition new_decoder :: "int \<Rightarrow> dtmf_decoder" where
  "new_decoder pt = \<lparr> dd_payload_type = pt, dd_ssrc = None, dd_seen = [] \<rparr>"

text \<open>\<open>decode\<close>: the digit, or the empty text, and the decoder afterwards.  The set of seen events is
  a list without repetitions.\<close>

definition decode_event :: "dtmf_decoder \<Rightarrow> int list \<Rightarrow> int option \<Rightarrow> string \<times> dtmf_decoder" where
  "decode_event d data expected_ssrc =
     (case parse_packet data of
        Inl _ \<Rightarrow> ([], d)
      | Inr packet \<Rightarrow>
          if payload_type packet \<noteq> dd_payload_type d \<or> length (payload packet) < 4 then ([], d)
          else if (case expected_ssrc of Some s \<Rightarrow> ssrc packet \<noteq> s | None \<Rightarrow> False) then ([], d)
          else if (case dd_ssrc d of Some s \<Rightarrow> ssrc packet \<noteq> s | None \<Rightarrow> False) then ([], d)
          else
            let d1 = d\<lparr> dd_ssrc := Some (ssrc packet) \<rparr>; event = payload packet ! 0 in
            case assoc EVENT_DIGITS event of
              None \<Rightarrow> ([], d1)
            | Some digit \<Rightarrow>
                let key = (timestamp packet, event) in
                if key \<in> set (dd_seen d) then ([], d1)
                else let seen = key # dd_seen d
                     in (digit, d1\<lparr> dd_seen := (if 256 < length seen then [key] else seen) \<rparr>))"

text \<open>\<open>_DtmfProtocol.datagram_received\<close>, for the datagrams that arrive on the socket with their
  source addresses: the digits handed to \<open>on_digit\<close>.\<close>

fun datagrams_received :: "string \<Rightarrow> dtmf_decoder \<Rightarrow> (string \<times> int list) list \<Rightarrow> string list" where
  "datagrams_received remote_host d [] = []"
| "datagrams_received remote_host d ((source, data) # rest) =
     (if remote_host \<noteq> [] \<and> source \<noteq> remote_host then datagrams_received remote_host d rest
      else let (digit, d') = decode_event d data None
           in if digit = [] then datagrams_received remote_host d' rest
              else digit # datagrams_received remote_host d' rest)"

section \<open>Collecting a code\<close>

definition route_get :: "(string \<times> string) list \<Rightarrow> string \<Rightarrow> string" where
  "route_get routes code = (case assoc routes code of Some d \<Rightarrow> d | None \<Rightarrow> [])"

definition match_dtmf :: "string \<Rightarrow> (string \<times> string) list \<Rightarrow> string \<Rightarrow> string \<times> bool" where
  "match_dtmf buffer routes terminator =
     (if terminator \<noteq> [] \<and> endswith buffer terminator
        then (route_get routes (take (length buffer - length terminator) buffer), True)
      else case assoc routes buffer of
        Some dest \<Rightarrow>
          if list_ex (\<lambda>(key, _). key \<noteq> buffer \<and> startswith key buffer) routes then ([], False)
          else (dest, True)
      | None \<Rightarrow> ([], False))"

text \<open>A collector: the digits so far, and the destination once it is done.\<close>

record collector =
  col_buffer :: string
  col_done :: "string option"

definition on_digit :: "(string \<times> string) list \<Rightarrow> string \<Rightarrow> collector \<Rightarrow> string \<Rightarrow> collector" where
  "on_digit routes terminator c digit =
     (if col_done c \<noteq> None then c
      else
        let buffer = col_buffer c @ digit; (destination, terminal) = match_dtmf buffer routes terminator
        in \<lparr> col_buffer = buffer, col_done = (if terminal then Some destination else None) \<rparr>)"

definition collect_digits :: "(string \<times> string) list \<Rightarrow> string \<Rightarrow> string list \<Rightarrow> collector" where
  "collect_digits routes terminator digits =
     foldl (on_digit routes terminator) \<lparr> col_buffer = [], col_done = None \<rparr> digits"

text \<open>What \<open>collect\<close> returns: the destination, or at the timeout the route of the digits so far.\<close>

definition collect_result :: "(string \<times> string) list \<Rightarrow> collector \<Rightarrow> string \<times> string" where
  "collect_result routes c =
     (col_buffer c, case col_done c of Some d \<Rightarrow> d | None \<Rightarrow> route_get routes (col_buffer c))"

text \<open>The SIP INFO collector takes that route also when a terminated code has none.\<close>

definition collect_info_result :: "(string \<times> string) list \<Rightarrow> collector \<Rightarrow> string \<times> string" where
  "collect_info_result routes c =
     (let destination = (case col_done c of Some d \<Rightarrow> d | None \<Rightarrow> [])
      in (col_buffer c, if destination = [] then route_get routes (col_buffer c) else destination))"

section \<open>One press, one digit\<close>

lemma event_tables:
  "assoc DIGIT_EVENT_CODES digit = Some event \<Longrightarrow> assoc EVENT_DIGITS event = Some digit \<and> digit \<noteq> []"
proof -
  assume "assoc DIGIT_EVENT_CODES digit = Some event"
  then have "(digit, event) \<in> set DIGIT_EVENT_CODES"
    by (rule assoc_Some_in)
  moreover have "list_all (\<lambda>(digit, event). assoc EVENT_DIGITS event = Some digit \<and> digit \<noteq> [])
      DIGIT_EVENT_CODES"
    by (simp add: DIGIT_EVENT_CODES_def EVENT_DIGITS_def)
  ultimately show ?thesis
    by (auto simp: list_all_iff)
qed

text \<open>A packet that carries a telephone event of a press, as built by the sender.\<close>

definition press_packet :: "string \<Rightarrow> int \<Rightarrow> int \<Rightarrow> int \<Rightarrow> rtp_packet \<Rightarrow> bool" where
  "press_packet digit pt s ts p \<longleftrightarrow>
     payload_type p = pt \<and> ssrc p = s \<and> timestamp p = ts \<and>
     (\<exists>duration end_bit volume.
        build_telephone_event_payload digit duration end_bit volume = Inr (payload p))"

lemma decode_press:
  assumes "build_packet p = Inr bs" and "press_packet digit (dd_payload_type d) s ts p"
    and "telephone_event_code digit = Some event" and "dd_ssrc d \<in> {None, Some s}"
  shows "decode_event d bs None =
    (if (ts, event) \<in> set (dd_seen d) then ([], d\<lparr> dd_ssrc := Some s \<rparr>)
     else (upper (strip digit), d\<lparr> dd_ssrc := Some s, dd_seen :=
       (if 256 < length ((ts, event) # dd_seen d) then [(ts, event)] else (ts, event) # dd_seen d) \<rparr>))"
proof -
  have ev: "assoc EVENT_DIGITS event = Some (upper (strip digit))"
    using assms(3) event_tables by (simp add: telephone_event_code_def)
  obtain duration end_bit volume where
    "build_telephone_event_payload digit duration end_bit volume = Inr (payload p)"
    using assms(2) by (auto simp: press_packet_def)
  then have "payload p ! 0 = event" "length (payload p) = 4"
    using assms(3) by (auto simp: build_telephone_event_payload_def be16_def dest!: sym [of _ "payload p"] split: if_splits)
  then show ?thesis
    using parse_build_packet [OF assms(1)] assms(2,4) ev
    by (auto simp: decode_event_def press_packet_def Let_def)
qed

lemma repeated_press_silent:
  assumes "list_all (\<lambda>(source, bs). source = host \<and> (\<exists>p. build_packet p = Inr bs \<and>
      press_packet digit (dd_payload_type d) s ts p)) datagrams"
    and "telephone_event_code digit = Some event" and "dd_ssrc d = Some s" and "(ts, event) \<in> set (dd_seen d)"
  shows "datagrams_received host d datagrams = []"
proof -
  have d: "d\<lparr> dd_ssrc := Some s \<rparr> = d"
    using assms(3) by simp
  then have "decode_event d bs None = ([], d)"
    if "build_packet p = Inr bs" "press_packet digit (dd_payload_type d) s ts p" for p bs
    using decode_press [OF that assms(2)] assms(3,4) by simp
  with assms(1) show ?thesis
    by (induction datagrams) auto
qed

text \<open>C29: One key press is one digit: the RTP packets that a sender builds for a press (same stream and
  timestamp, repeated with growing duration and end flags as RFC 4733 wants it) yield exactly the digit
  pressed, once, when the decoder has not seen that press before.\<close>

theorem press_decoded_once:
  assumes "list_all (\<lambda>(source, bs). source = host \<and> (\<exists>p. build_packet p = Inr bs \<and>
      press_packet digit (dd_payload_type d) s ts p)) datagrams"
    and "datagrams \<noteq> []" and "telephone_event_code digit = Some event"
    and "dd_ssrc d \<in> {None, Some s}" and "(ts, event) \<notin> set (dd_seen d)"
  shows "datagrams_received host d datagrams = [upper (strip digit)]"
proof -
  obtain bs rest p where dg: "datagrams = (host, bs) # rest" and p: "build_packet p = Inr bs"
    "press_packet digit (dd_payload_type d) s ts p"
    using assms(1,2) by (cases datagrams) auto
  let ?seen = "if 256 < length ((ts, event) # dd_seen d) then [(ts, event)] else (ts, event) # dd_seen d"
  let ?d = "d\<lparr> dd_ssrc := Some s, dd_seen := ?seen \<rparr>"
  have e: "decode_event d bs None = (upper (strip digit), ?d)"
    using decode_press [OF p assms(3,4)] assms(5) by simp
  have "datagrams_received host ?d rest = []"
    by (rule repeated_press_silent [where s = s and ts = ts]) (use assms dg in auto)
  moreover have "upper (strip digit) \<noteq> []"
    using assms(3) event_tables by (simp add: telephone_event_code_def)
  ultimately show ?thesis
    by (simp add: dg e)
qed

theorem press_decoded_once_witness:
  "\<exists>b1 b2. build_packet \<lparr> payload_type = 101, sequence = 9, timestamp = 160, ssrc = 7,
        payload = [5, 10, 0, 160], marker = True \<rparr> = Inr b1 \<and>
     build_packet \<lparr> payload_type = 101, sequence = 10, timestamp = 160, ssrc = 7,
        payload = [5, 138, 1, 64], marker = False \<rparr> = Inr b2 \<and>
     datagrams_received ''h'' (new_decoder 101) [(''h'', b1), (''h'', b2)] = [''5'']"
proof -
  let ?p1 = "\<lparr> payload_type = 101, sequence = 9, timestamp = 160, ssrc = 7,
        payload = [5, 10, 0, 160], marker = True \<rparr>"
  let ?p2 = "\<lparr> payload_type = 101, sequence = 10, timestamp = 160, ssrc = 7,
        payload = [5, 138, 1, 64], marker = False \<rparr>"
  have e: "upper (strip ''5'') = ''5''" "telephone_event_code ''5'' = Some 5"
    by code_simp+
  have b: "build_telephone_event_payload ''5'' 160 False 10 = Inr (payload ?p1)"
    "build_telephone_event_payload ''5'' 320 True 10 = Inr (payload ?p2)"
    using e(2) by (simp_all add: build_telephone_event_payload_def be16_def)
  obtain b1 b2 where p: "build_packet ?p1 = Inr b1" "build_packet ?p2 = Inr b2"
    by (simp add: build_packet_def MAX_RTP_PAYLOAD_BYTES_def)
  have "press_packet ''5'' 101 7 160 ?p1" "press_packet ''5'' 101 7 160 ?p2"
    unfolding press_packet_def using b by auto
  then have "list_all (\<lambda>(source, bs). source = ''h'' \<and> (\<exists>p. build_packet p = Inr bs \<and>
      press_packet ''5'' (dd_payload_type (new_decoder 101)) 7 160 p)) [(''h'', b1), (''h'', b2)]"
    using p by (auto simp: new_decoder_def)
  from press_decoded_once [OF this _ e(2)] show ?thesis
    using p e(1) by (simp add: new_decoder_def)
qed

section \<open>Dialling a code\<close>

lemma startswith_take: "startswith s (take n s)"
  by (cases "n \<le> length s") (simp_all add: startswith_def min_def)

lemma endswith_char: "endswith s [t] \<Longrightarrow> t \<in> set s"
proof -
  assume "endswith s [t]"
  then have "rev s \<noteq> []" "hd (rev s) = t"
    by (cases "rev s"; simp add: endswith_def startswith_def)+
  then show ?thesis
    by (metis hd_in_set set_rev)
qed

lemma assoc_in: "assoc routes k = Some v \<Longrightarrow> k \<in> fst ` set routes"
  by (force dest: assoc_Some_in)

lemma partial_code:
  assumes "assoc routes code = Some dest" "n < length code" "T = [] \<or> (\<exists>t. T = [t] \<and> t \<notin> set code)"
  shows "match_dtmf (take n code) routes T = ([], False)"
proof -
  have "code \<noteq> take n code" using assms(2) by (metis length_take min.absorb4 nless_le)
  then have amb: "list_ex (\<lambda>(key, _). key \<noteq> take n code \<and> startswith key (take n code)) routes"
    using assoc_Some_in [OF assms(1)] startswith_take [of code n]
    unfolding list_ex_iff by (intro bexI [of _ "(code, dest)"]) simp_all
  have "\<not> (T \<noteq> [] \<and> endswith (take n code) T)"
    using assms(3) endswith_char in_set_takeD by fastforce
  then show ?thesis
    using amb by (simp add: match_dtmf_def split: option.split)
qed

lemma partial_collect:
  assumes "assoc routes code = Some dest" "T = [] \<or> (\<exists>t. T = [t] \<and> t \<notin> set code)"
  shows "n < length code \<Longrightarrow> collect_digits routes T (map (\<lambda>c. [c]) (take n code)) =
    \<lparr> col_buffer = take n code, col_done = None \<rparr>"
proof (induction n)
  case 0
  then show ?case by (simp add: collect_digits_def)
next
  case (Suc n)
  then have "take (Suc n) code = take n code @ [code ! n]"
    by (simp add: take_Suc_conv_app_nth)
  with Suc partial_code [OF assms(1) Suc.prems assms(2)] show ?case
    by (simp add: collect_digits_def on_digit_def)
qed

lemma collect_code:
  assumes "assoc routes code = Some dest" "code \<noteq> []" "T = [] \<or> (\<exists>t. T = [t] \<and> t \<notin> set code)"
  shows "collect_digits routes T (map (\<lambda>c. [c]) code) =
    \<lparr> col_buffer = code, col_done =
       (if list_ex (\<lambda>(key, _). key \<noteq> code \<and> startswith key code) routes then None else Some dest) \<rparr>"
proof -
  let ?n = "length code - 1"
  have code: "code = take ?n code @ [code ! ?n]"
    using assms(2) by (metis append_butlast_last_id butlast_conv_take last_conv_nth)
  have "\<not> (T \<noteq> [] \<and> endswith code T)"
    using assms(3) endswith_char by fastforce
  then have m: "match_dtmf code routes T =
      (if list_ex (\<lambda>(key, _). key \<noteq> code \<and> startswith key code) routes then ([], False) else (dest, True))"
    using assms(1) by (auto simp: match_dtmf_def)
  have "collect_digits routes T (map (\<lambda>c. [c]) code) = on_digit routes T
      (collect_digits routes T (map (\<lambda>c. [c]) (take ?n code))) [code ! ?n]"
    by (subst code) (simp add: collect_digits_def)
  then show ?thesis
    using partial_collect [OF assms(1,3), of ?n] assms(2) m code
    by (simp add: on_digit_def)
qed

text \<open>Dialling works: typing a routed code digit by digit ends the collection at its last digit with
  its destination when no other code extends it; a code that others extend is kept open and gets its
  destination at the timeout, or at once when the terminator is typed.\<close>

lemma dialled_code_is_routed:
  assumes "assoc routes code = Some dest" "code \<noteq> []" "t \<notin> set code"
  shows "collect_result routes (collect_digits routes [] (map (\<lambda>c. [c]) code)) = (code, dest) \<and>
    (col_done (collect_digits routes [] (map (\<lambda>c. [c]) code)) \<noteq> None \<longleftrightarrow>
       \<not> list_ex (\<lambda>(key, _). key \<noteq> code \<and> startswith key code) routes) \<and>
    col_done (collect_digits routes [t] (map (\<lambda>c. [c]) (code @ [t]))) = Some dest"
proof -
  let ?c = "collect_digits routes [t] (map (\<lambda>c. [c]) code)"
  have c: "?c = \<lparr> col_buffer = code, col_done =
       (if list_ex (\<lambda>(key, _). key \<noteq> code \<and> startswith key code) routes then None else Some dest) \<rparr>"
    by (rule collect_code) (use assms in auto)
  have "collect_digits routes [t] (map (\<lambda>c. [c]) (code @ [t])) = on_digit routes [t] ?c [t]"
    by (simp add: collect_digits_def)
  moreover have "match_dtmf (code @ [t]) routes [t] = (dest, True)"
    using assms(1) by (simp add: match_dtmf_def endswith_def startswith_def route_get_def)
  ultimately have "col_done (collect_digits routes [t] (map (\<lambda>c. [c]) (code @ [t]))) = Some dest"
    by (simp add: c on_digit_def)
  moreover have "collect_digits routes [] (map (\<lambda>c. [c]) code) = ?c"
    by (subst c, rule collect_code) (use assms in auto)
  ultimately show ?thesis
    using assms(1) by (simp add: c collect_result_def route_get_def)
qed

lemma dialled_code_is_routed_example:
  "collect_result [(''12'', ''kitchen''), (''123'', ''garage'')]
     (collect_digits [(''12'', ''kitchen''), (''123'', ''garage'')] [] (map (\<lambda>c. [c]) ''12'')) = (''12'', ''kitchen'') \<and>
   col_done (collect_digits [(''12'', ''kitchen''), (''123'', ''garage'')] ''#'' (map (\<lambda>c. [c]) ''12#'')) = Some ''kitchen''"
  using dialled_code_is_routed [of "[(''12'', ''kitchen''), (''123'', ''garage'')]" "''12''" "''kitchen''" "CHR ''#''"]
  by simp

text \<open>A SIP INFO signal of two digits that is no event code is not rejected: the substring test
  against the alphabet lets consecutive digits pass, and one INFO yields two digits.\<close>

lemma info_signal_yields_two_digits:
  "parse_sip_info_digit ''application/dtmf-relay'' ''Signal=23'' = ''23''"
  by code_simp

end
