(* ===== verification/Roster.thy ===== *)
theory Roster
  imports Prelude
begin

text \<open>
  \<open>custom_components/voip_stack/roster.py\<close>: the phonebook entries, their lookup keys and the merge
  of the manual phonebook over the discovered phones.

  A roster entry is a record.  Its metadata is the association list of a dictionary with scalar values;
  list-valued metadata (group members, format lists) is not read by the code modelled here.  Keys are
  ASCII: every byte of a multi-byte character counts as a letter.  \<open>json\<close> is left out; the parser
  starts from the loaded list, each item with its scalar fields and its metadata object.
\<close>

section \<open>Metadata values\<close>

datatype mval = MNone | MBool bool | MInt int | MStr string

type_synonym metadata = "(string \<times> mval) list"

fun truthy :: "mval \<Rightarrow> bool" where
  "truthy MNone = False"
| "truthy (MBool b) = b"
| "truthy (MInt i) = (i \<noteq> 0)"
| "truthy (MStr s) = (s \<noteq> [])"

definition mget :: "metadata \<Rightarrow> string \<Rightarrow> mval" where
  "mget md key = (case assoc md key of Some v \<Rightarrow> v | None \<Rightarrow> MNone)"

text \<open>\<open>a or b\<close>, and \<open>str(v)\<close>.\<close>

definition por :: "mval \<Rightarrow> mval \<Rightarrow> mval" where
  "por a b = (if truthy a then a else b)"

fun mstr :: "mval \<Rightarrow> string" where
  "mstr MNone = ''None''"
| "mstr (MBool b) = (if b then ''True'' else ''False'')"
| "mstr (MInt i) = dec_int i"
| "mstr (MStr s) = s"

text \<open>\<open>int(v)\<close>, \<open>None\<close> for the \<open>TypeError\<close> or \<open>ValueError\<close>.\<close>

fun mint :: "mval \<Rightarrow> int option" where
  "mint MNone = None"
| "mint (MBool b) = Some (if b then 1 else 0)"
| "mint (MInt i) = Some i"
| "mint (MStr s) = py_int s"

definition mtext :: "mval \<Rightarrow> string" where
  "mtext v = mstr (por v (MStr []))"

text \<open>Assignment in a dictionary: in place for a key it has, behind the others for a new one.\<close>

fun md_set :: "('k \<times> 'v) list \<Rightarrow> 'k \<Rightarrow> 'v \<Rightarrow> ('k \<times> 'v) list" where
  "md_set [] k v = [(k, v)]"
| "md_set ((a, w) # md) k v = (if a = k then (a, v) # md else (a, w) # md_set md k v)"

lemma assoc_md_set: "assoc (md_set md k v) k' = (if k' = k then Some v else assoc md k')"
  by (induction md k v rule: md_set.induct) auto

lemma keys_md_set:
  "map fst (md_set md k v) = map fst md @ (if k \<in> fst ` set md then [] else [k])"
  by (induction md k v rule: md_set.induct) auto

lemma set_md_set:
  "distinct (map fst md) \<Longrightarrow> set (md_set md k v) = insert (k, v) {(a, w) \<in> set md. a \<noteq> k}"
  by (induction md k v rule: md_set.induct) force+

lemma distinct_md_set: "distinct (map fst md) \<Longrightarrow> distinct (map fst (md_set md k v))"
  by (simp add: keys_md_set)

section \<open>Entries\<close>

record roster_entry =
  re_id :: string
  re_name :: string
  re_address :: string
  re_sip_uri :: string
  re_extension :: string
  re_number :: string
  re_port :: int
  re_ha_bridge :: bool
  re_enabled :: bool
  re_metadata :: metadata

definition display_name :: "roster_entry \<Rightarrow> string" where
  "display_name e = or_else (re_name e) (re_id e)"

definition parse_port :: "mval \<Rightarrow> int" where
  "parse_port value =
     (case mint (por value (MInt 0)) of
        None \<Rightarrow> 0
      | Some port \<Rightarrow> if 1 \<le> port \<and> port \<le> 65535 then port else 0)"

definition entry_from_mapping :: "metadata \<Rightarrow> metadata \<Rightarrow> exn + roster_entry" where
  "entry_from_mapping raw md =
     (let entry_id = strip (mstr (por (mget raw ''id'') (por (mget raw ''name'') (MStr [])))) in
      if entry_id = [] then Inl (RosterError ''roster entry missing id'')
      else Inr
        \<lparr> re_id = entry_id,
          re_name = strip (mstr (por (mget raw ''name'') (MStr entry_id))),
          re_address = strip (mtext (por (mget raw ''address'') (mget raw ''host''))),
          re_sip_uri = strip (mtext (mget raw ''sip_uri'')),
          re_extension = strip (mtext (mget raw ''extension'')),
          re_number = strip (mtext (mget raw ''number'')),
          re_port = parse_port (por (mget raw ''port'') (por (mget raw ''sip_port'')
             (por (mget md ''port'') (mget md ''sip_port'')))),
          re_ha_bridge = truthy (mget raw ''ha_bridge''),
          re_enabled = (case assoc raw ''enabled'' of None \<Rightarrow> True | Some v \<Rightarrow> truthy v),
          re_metadata = md \<rparr>)"

definition parse_roster :: "(metadata \<times> metadata) list \<Rightarrow> exn + roster_entry list" where
  "parse_roster entries =
     bindE (mapE (\<lambda>(raw, md). entry_from_mapping raw md) entries) (\<lambda>out.
       if distinct (map (\<lambda>e. lower (re_id e)) out) then Inr out
       else Inl (RosterError ''duplicate roster id''))"

section \<open>Lookup\<close>

definition key_char :: "char \<Rightarrow> bool" where
  "key_char c \<longleftrightarrow> is_alnum c \<or> 0x80 \<le> ord c"

definition normalize_roster_key :: "string \<Rightarrow> string" where
  "normalize_roster_key value = filter key_char (lower (strip (unquote_bytes value)))"

definition entry_matches_extension :: "roster_entry \<Rightarrow> string \<Rightarrow> bool" where
  "entry_matches_extension entry target \<longleftrightarrow>
     re_extension entry \<noteq> [] \<and>
     normalize_roster_key (re_extension entry) = normalize_roster_key target"

definition entry_keys :: "bool \<Rightarrow> roster_entry \<Rightarrow> string list" where
  "entry_keys include_extension entry =
     filter (\<lambda>k. k \<noteq> [])
       ([normalize_roster_key (re_id entry), normalize_roster_key (re_name entry)]
        @ (if include_extension then [normalize_roster_key (re_extension entry)] else []))"

definition find_entry :: "roster_entry list \<Rightarrow> string \<Rightarrow> bool \<Rightarrow> bool \<Rightarrow> roster_entry option" where
  "find_entry entries target include_extension include_number =
     (let wanted = normalize_roster_key target in
      case find (\<lambda>e. wanted \<in> set (entry_keys include_extension e)) entries of
        Some e \<Rightarrow> Some e
      | None \<Rightarrow>
          if include_number
          then find (\<lambda>e. wanted \<noteq> [] \<and> wanted = normalize_roster_key (re_number e)) entries
          else None)"

section \<open>Merging the manual phonebook\<close>

definition shares_key :: "roster_entry \<Rightarrow> roster_entry \<Rightarrow> bool" where
  "shares_key a b \<longleftrightarrow>
     list_ex (\<lambda>k. k \<in> set (entry_keys False b)) (entry_keys False a)"

definition update_metadata :: "metadata \<Rightarrow> metadata \<Rightarrow> metadata" where
  "update_metadata current new =
     foldl (\<lambda>md (k, v). md_set md k v) current (filter (\<lambda>(k, v). v \<noteq> MNone \<and> v \<noteq> MStr []) new)"

definition overlay :: "roster_entry \<Rightarrow> roster_entry \<Rightarrow> roster_entry" where
  "overlay ov current =
     \<lparr> re_id = or_else (re_id ov) (re_id current),
       re_name = or_else (re_name ov) (re_name current),
       re_address = or_else (re_address ov) (re_address current),
       re_sip_uri = or_else (re_sip_uri ov) (re_sip_uri current),
       re_extension = or_else (re_extension ov) (re_extension current),
       re_number = or_else (re_number ov) (re_number current),
       re_port = (if re_port ov \<noteq> 0 then re_port ov else re_port current),
       re_ha_bridge = (re_ha_bridge ov \<or> re_ha_bridge current),
       re_enabled = (re_enabled ov \<and> re_enabled current),
       re_metadata = update_metadata (re_metadata current) (re_metadata ov) \<rparr>"

fun merge_one :: "roster_entry list \<Rightarrow> roster_entry \<Rightarrow> roster_entry list" where
  "merge_one [] ov = [ov]"
| "merge_one (e # es) ov = (if shares_key ov e then overlay ov e # es else e # merge_one es ov)"

definition merge_roster_overrides :: "roster_entry list \<Rightarrow> roster_entry list \<Rightarrow> roster_entry list" where
  "merge_roster_overrides entries overrides = foldl merge_one entries overrides"

section \<open>Properties\<close>

lemma entry_from_mapping_ok:
  "entry_from_mapping raw md = Inr e \<Longrightarrow> re_id e \<noteq> [] \<and> 0 \<le> re_port e \<and> re_port e \<le> 65535"
  by (auto simp: entry_from_mapping_def Let_def parse_port_def split: if_splits option.splits)

text \<open>A roster that loads has non-empty identifiers that differ when case is ignored, and ports
  that are 0 (none) or valid.\<close>

lemma loaded_roster_valid:
  assumes "parse_roster raw = Inr entries"
  shows "distinct (map (\<lambda>e. lower (re_id e)) entries) \<and> length entries = length raw \<and>
    list_all (\<lambda>e. re_id e \<noteq> [] \<and> 0 \<le> re_port e \<and> re_port e \<le> 65535) entries"
proof -
  have "list_all2 (\<lambda>x e. (case x of (raw, md) \<Rightarrow> entry_from_mapping raw md) = Inr e) raw entries"
    using assms by (auto simp: parse_roster_def bindE_eq_Inr mapE_Inr split: if_splits)
  then have "list_all (\<lambda>e. re_id e \<noteq> [] \<and> 0 \<le> re_port e \<and> re_port e \<le> 65535) entries"
    and "length entries = length raw"
    by (induction rule: list_all2_induct) (auto dest: entry_from_mapping_ok)
  then show ?thesis
    using assms by (auto simp: parse_roster_def bindE_eq_Inr split: if_splits)
qed

lemma loaded_roster_valid_example:
  "\<exists>entries. parse_roster [([(''name'', MStr '' Kitchen ''), (''port'', MInt 5062)], [])] = Inr entries \<and>
     list_all (\<lambda>e. re_id e \<noteq> [] \<and> 0 \<le> re_port e \<and> re_port e \<le> 65535) entries"
proof -
  obtain entries where e: "parse_roster [([(''name'', MStr '' Kitchen ''), (''port'', MInt 5062)], [])] = Inr entries"
    by (simp add: parse_roster_def entry_from_mapping_def mget_def por_def strip_def lstrip_def rstrip_def
        is_space_def)
  show ?thesis
    using loaded_roster_valid [OF e] e by blast
qed

text \<open>Which entries answer to a target, as the lookup ranks them.\<close>

definition named :: "bool \<Rightarrow> string \<Rightarrow> roster_entry \<Rightarrow> bool" where
  "named include_extension target e \<longleftrightarrow>
     normalize_roster_key target \<noteq> [] \<and>
     (normalize_roster_key target \<in> {normalize_roster_key (re_id e), normalize_roster_key (re_name e)} \<or>
      include_extension \<and> normalize_roster_key target = normalize_roster_key (re_extension e))"

definition numbered :: "string \<Rightarrow> roster_entry \<Rightarrow> bool" where
  "numbered target e \<longleftrightarrow> normalize_roster_key target \<noteq> [] \<and>
     normalize_roster_key target = normalize_roster_key (re_number e)"

lemma entry_keys_named:
  "normalize_roster_key target \<in> set (entry_keys ext e) \<longleftrightarrow> named ext target e"
  by (auto simp: entry_keys_def named_def)

lemma find_append: "P x \<Longrightarrow> \<forall>u \<in> set us. \<not> P u \<Longrightarrow> find P (us @ x # vs) = Some x"
  by (induction us) auto

lemma find_first:
  "find P xs = Some x \<longleftrightarrow> (\<exists>us vs. xs = us @ x # vs \<and> P x \<and> (\<forall>u \<in> set us. \<not> P u))"
proof
  show "find P xs = Some x \<Longrightarrow> \<exists>us vs. xs = us @ x # vs \<and> P x \<and> (\<forall>u \<in> set us. \<not> P u)"
  proof (induction xs)
    case (Cons a xs)
    show ?case
    proof (cases "P a")
      case True
      with Cons.prems show ?thesis by (intro exI [of _ "[]"] exI [of _ xs]) simp
    next
      case False
      with Cons obtain us vs where "xs = us @ x # vs" "P x" "\<forall>u \<in> set us. \<not> P u"
        by auto
      with False show ?thesis by (intro exI [of _ "a # us"] exI [of _ vs]) simp
    qed
  qed simp
qed (auto simp: find_append)

lemma find_entry_cases:
  "find_entry entries target ext num =
    (case find (named ext target) entries of
       Some e \<Rightarrow> Some e
     | None \<Rightarrow> if num then find (numbered target) entries else None)"
proof -
  have "numbered target = (\<lambda>e. normalize_roster_key target \<noteq> [] \<and>
      normalize_roster_key target = normalize_roster_key (re_number e))"
    by (rule ext) (simp add: numbered_def)
  then show ?thesis
    by (cases "find (named ext target) entries") (simp_all add: find_entry_def entry_keys_named Let_def)
qed

lemma find_entry_in: "find_entry entries target ext num = Some e \<Longrightarrow> e \<in> set entries"
  by (auto simp: find_entry_cases find_first split: option.splits if_splits)

text \<open>The lookup is ranked: the answer is the first entry whose identifier, name or (where asked
  for) extension is the target, and only when there is none the first entry whose outside number is; a
  target without letters and digits names nobody.\<close>

lemma lookup_is_ranked:
  "find_entry entries target ext num = Some e \<longleftrightarrow>
     (\<exists>us vs. entries = us @ e # vs \<and> named ext target e \<and> list_all (\<lambda>u. \<not> named ext target u) us) \<or>
     (num \<and> list_all (\<lambda>u. \<not> named ext target u) entries \<and>
      (\<exists>us vs. entries = us @ e # vs \<and> numbered target e \<and> list_all (\<lambda>u. \<not> numbered target u) us))"
proof (cases "find (named ext target) entries")
  case None
  then have none: "list_all (\<lambda>u. \<not> named ext target u) entries"
    by (simp add: find_None_iff list_all_iff)
  then have "\<not> (\<exists>us vs. entries = us @ e # vs \<and> named ext target e \<and> list_all (\<lambda>u. \<not> named ext target u) us)"
    by auto
  moreover have "find_entry entries target ext num = Some e \<longleftrightarrow>
      num \<and> (\<exists>us vs. entries = us @ e # vs \<and> numbered target e \<and> list_all (\<lambda>u. \<not> numbered target u) us)"
    using None find_first [of "numbered target" entries e] by (simp add: find_entry_cases list_all_iff)
  ultimately show ?thesis
    using none by blast
next
  case (Some x)
  then have "\<not> list_all (\<lambda>u. \<not> named ext target u) entries"
    by (auto simp: find_first)
  moreover have "x = e \<longleftrightarrow> (\<exists>us vs. entries = us @ e # vs \<and> named ext target e \<and>
      list_all (\<lambda>u. \<not> named ext target u) us)"
    using Some find_first [of "named ext target" entries e] by (auto simp: list_all_iff)
  ultimately show ?thesis
    using Some by (simp add: find_entry_cases)
qed

text \<open>What an overlay may not take away from a discovered entry.\<close>

definition overlaid :: "roster_entry \<Rightarrow> roster_entry \<Rightarrow> bool" where
  "overlaid e m \<longleftrightarrow> (re_enabled m \<longrightarrow> re_enabled e) \<and> (re_ha_bridge e \<longrightarrow> re_ha_bridge m) \<and>
     (re_id e \<noteq> [] \<longrightarrow> re_id m \<noteq> []) \<and> (re_address e \<noteq> [] \<longrightarrow> re_address m \<noteq> []) \<and>
     (re_sip_uri e \<noteq> [] \<longrightarrow> re_sip_uri m \<noteq> []) \<and> (re_extension e \<noteq> [] \<longrightarrow> re_extension m \<noteq> []) \<and>
     fst ` set (re_metadata e) \<subseteq> fst ` set (re_metadata m)"

lemma update_metadata_keys: "fst ` set md \<subseteq> fst ` set (update_metadata md new)"
proof -
  have "fst ` set md \<subseteq> fst ` set (foldl (\<lambda>md (k, v). md_set md k v) md kvs)" for kvs
  proof (induction kvs arbitrary: md)
    case (Cons kv kvs)
    obtain k v where "kv = (k, v)" by force
    moreover have "fst ` set md \<subseteq> set (map fst (md_set md k v))"
      by (simp add: keys_md_set)
    ultimately show ?case
      using Cons [of "md_set md k v"] by auto
  qed simp
  then show ?thesis by (simp add: update_metadata_def)
qed

lemma overlay_overlaid: "overlaid e (overlay ov e)"
  by (auto simp: overlaid_def overlay_def or_else_def intro: update_metadata_keys [THEN subsetD])

lemma overlaid_refl: "overlaid e e"
  by (simp add: overlaid_def)

lemma overlaid_trans: "overlaid a b \<Longrightarrow> overlaid b c \<Longrightarrow> overlaid a c"
  unfolding overlaid_def by blast

lemma merge_one_prefix:
  "length (merge_one es ov) \<in> {length es, Suc (length es)} \<and>
   list_all2 overlaid es (take (length es) (merge_one es ov))"
  by (induction es ov rule: merge_one.induct)
    (auto simp: overlay_overlaid overlaid_refl list_all2_refl)

text \<open>The manual phonebook only adds to the discovered phones: merging keeps every discovered entry
  at its place, enables none that was disabled, takes no address, URI, extension or metadata key away,
  and appends at most one entry for each override.\<close>

lemma merge_is_conservative:
  "length entries \<le> length (merge_roster_overrides entries overrides) \<and>
   length (merge_roster_overrides entries overrides) \<le> length entries + length overrides \<and>
   list_all2 overlaid entries (take (length entries) (merge_roster_overrides entries overrides))"
  unfolding merge_roster_overrides_def
proof (induction overrides arbitrary: entries)
  case Nil
  then show ?case by (simp add: list_all2_refl overlaid_refl)
next
  case (Cons ov ovs)
  let ?m = "merge_one entries ov" and ?r = "foldl merge_one (merge_one entries ov) ovs"
  have one: "length ?m \<in> {length entries, Suc (length entries)}"
    "list_all2 overlaid entries (take (length entries) ?m)"
    using merge_one_prefix [of entries ov] by auto
  have "list_all2 overlaid (take (length entries) ?m) (take (length entries) (take (length ?m) ?r))"
    using Cons [of ?m] by (intro list_all2_takeI) simp
  moreover have "take (length entries) (take (length ?m) ?r) = take (length entries) ?r"
    using one(1) by (auto simp: min_def)
  ultimately have "list_all2 overlaid entries (take (length entries) ?r)"
    using one(2) list_all2_trans [of overlaid overlaid overlaid] overlaid_trans by metis
  then show ?case
    using one(1) Cons [of ?m] by auto
qed

end
