(* ===== verification/Phone_Endpoint.thy ===== *)
theory Phone_Endpoint
  imports Roster "HOL-Library.List_Lexorder" "HOL-Library.Char_ord"
begin

text \<open>
  \<open>custom_components/voip_stack/phone_endpoint.py\<close>: the immutable snapshot of a logical phone and
  the validation its constructor runs.

  The arguments of the constructor are the record \<open>raw_endpoint\<close> (texts and unparsed booleans),
  its result \<open>phone_endpoint\<close>.  A \<open>frozenset\<close> of texts is the sorted list of its elements, so
  that equal sets are equal lists.
\<close>

section \<open>Vocabulary\<close>

datatype endpoint_kind = BROWSER | SIP_ACCOUNT | ESPHOME

fun kind_value :: "endpoint_kind \<Rightarrow> string" where
  "kind_value BROWSER = ''browser''"
| "kind_value SIP_ACCOUNT = ''sip_account''"
| "kind_value ESPHOME = ''esphome''"

datatype availability = AVAILABLE | OFFLINE | UNAVAILABLE

fun availability_value :: "availability \<Rightarrow> string" where
  "availability_value AVAILABLE = ''available''"
| "availability_value OFFLINE = ''offline''"
| "availability_value UNAVAILABLE = ''unavailable''"

datatype offline_policy = POLICY_UNAVAILABLE | POLICY_FORWARD

fun policy_value :: "offline_policy \<Rightarrow> string" where
  "policy_value POLICY_UNAVAILABLE = ''unavailable''"
| "policy_value POLICY_FORWARD = ''forward''"

definition enum_of :: "('a \<Rightarrow> string) \<Rightarrow> 'a list \<Rightarrow> string \<Rightarrow> string \<Rightarrow> exn + 'a" where
  "enum_of val members message text =
     (case find (\<lambda>m. val m = text) members of
        Some m \<Rightarrow> Inr m | None \<Rightarrow> Inl (EndpointError message))"

section \<open>Construction\<close>

record phone_endpoint =
  pe_id :: string
  pe_name :: string
  pe_kind :: endpoint_kind
  pe_extension :: string
  pe_username :: string
  pe_device_id :: string
  pe_entity_ids :: "string list"
  pe_availability :: availability
  pe_capabilities :: "string list"
  pe_dnd :: bool
  pe_auto_answer :: bool
  pe_send_video :: bool
  pe_offline_policy :: offline_policy
  pe_ring_group :: string
  pe_conference_group :: string
  pe_conference_ring :: bool
  pe_offline_forward_target :: string
  pe_active_call_id :: string

record raw_endpoint =
  raw_id :: string
  raw_name :: string
  raw_kind :: string
  raw_extension :: string
  raw_username :: string
  raw_device_id :: string
  raw_entity_ids :: "string list"
  raw_availability :: string
  raw_capabilities :: "string list"
  raw_dnd :: mval
  raw_auto_answer :: mval
  raw_send_video :: mval
  raw_offline_policy :: string
  raw_ring_group :: string
  raw_conference_group :: string
  raw_conference_ring :: mval
  raw_offline_forward_target :: string
  raw_active_call_id :: string

definition required_text :: "string \<Rightarrow> string \<Rightarrow> exn + string" where
  "required_text value field =
     (if strip value = [] then Inl (EndpointError (field @ '' must not be empty''))
      else Inr (strip value))"

definition parse_boolean :: "mval \<Rightarrow> string \<Rightarrow> exn + bool" where
  "parse_boolean value field =
     (let bad = Inl (EndpointError (field @ '' must be a boolean'')) in
      case value of
        MBool b \<Rightarrow> Inr b
      | MInt i \<Rightarrow> if i = 0 \<or> i = 1 then Inr (i = 1) else bad
      | MStr s \<Rightarrow>
          (let normalized = lower (strip s) in
           if normalized \<in> {''1'', ''true'', ''yes'', ''on''} then Inr True
           else if normalized \<in> {''0'', ''false'', ''no'', ''off'', []} then Inr False
           else bad)
      | MNone \<Rightarrow> bad)"

definition text_set :: "string list \<Rightarrow> string list" where
  "text_set xs = sort (remdups (filter (\<lambda>x. x \<noteq> []) xs))"

definition token_set :: "string list \<Rightarrow> string list" where
  "token_set values = text_set (map (\<lambda>x. lower (strip x)) values)"

definition entity_id_set :: "string list \<Rightarrow> string list" where
  "entity_id_set values = text_set (map strip values)"

definition check_policy :: "phone_endpoint \<Rightarrow> exn + phone_endpoint" where
  "check_policy e =
     (if pe_offline_policy e = POLICY_FORWARD \<and> pe_offline_forward_target e = []
        then Inl (EndpointError ''offline_forward_target is required for the forward offline policy'')
      else if pe_kind e = BROWSER \<and>
          (pe_offline_policy e \<noteq> POLICY_UNAVAILABLE \<or> pe_offline_forward_target e \<noteq> [])
        then Inl (EndpointError ''browser phones do not use card-presence routing policies'')
      else Inr e)"

definition make_endpoint :: "raw_endpoint \<Rightarrow> exn + phone_endpoint" where
  "make_endpoint r =
     bindE (required_text (raw_id r) ''endpoint_id'') (\<lambda>eid.
     bindE (required_text (raw_name r) ''name'') (\<lambda>name.
     bindE (enum_of kind_value [BROWSER, SIP_ACCOUNT, ESPHOME] ''unsupported endpoint kind''
       (raw_kind r)) (\<lambda>kind.
     bindE (enum_of availability_value [AVAILABLE, OFFLINE, UNAVAILABLE]
       ''unsupported endpoint availability'' (raw_availability r)) (\<lambda>avail.
     bindE (enum_of policy_value [POLICY_UNAVAILABLE, POLICY_FORWARD]
       ''unsupported offline policy'' (raw_offline_policy r)) (\<lambda>policy.
     bindE (parse_boolean (raw_dnd r) ''dnd'') (\<lambda>dnd.
     bindE (parse_boolean (raw_auto_answer r) ''auto_answer'') (\<lambda>auto.
     bindE (parse_boolean (raw_send_video r) ''send_video'') (\<lambda>video.
     bindE (parse_boolean (raw_conference_ring r) ''conference_ring'') (\<lambda>ring.
       check_policy
         \<lparr> pe_id = eid, pe_name = name, pe_kind = kind, pe_extension = strip (raw_extension r),
           pe_username = strip (raw_username r), pe_device_id = strip (raw_device_id r),
           pe_entity_ids = entity_id_set (raw_entity_ids r), pe_availability = avail,
           pe_capabilities = token_set (raw_capabilities r), pe_dnd = dnd, pe_auto_answer = auto,
           pe_send_video = video, pe_offline_policy = policy,
           pe_ring_group = strip (raw_ring_group r),
           pe_conference_group = strip (raw_conference_group r), pe_conference_ring = ring,
           pe_offline_forward_target = strip (raw_offline_forward_target r),
           pe_active_call_id = strip (raw_active_call_id r) \<rparr>)))))))))"

text \<open>The fields of an endpoint as \<open>dataclasses.replace\<close> passes them to the constructor again.\<close>

definition raw_of :: "phone_endpoint \<Rightarrow> raw_endpoint" where
  "raw_of e =
     \<lparr> raw_id = pe_id e, raw_name = pe_name e, raw_kind = kind_value (pe_kind e),
       raw_extension = pe_extension e, raw_username = pe_username e,
       raw_device_id = pe_device_id e, raw_entity_ids = pe_entity_ids e,
       raw_availability = availability_value (pe_availability e),
       raw_capabilities = pe_capabilities e, raw_dnd = MBool (pe_dnd e),
       raw_auto_answer = MBool (pe_auto_answer e), raw_send_video = MBool (pe_send_video e),
       raw_offline_policy = policy_value (pe_offline_policy e),
       raw_ring_group = pe_ring_group e, raw_conference_group = pe_conference_group e,
       raw_conference_ring = MBool (pe_conference_ring e),
       raw_offline_forward_target = pe_offline_forward_target e,
       raw_active_call_id = pe_active_call_id e \<rparr>"

section \<open>Derived attributes\<close>

fun unique_casefold :: "string list \<Rightarrow> string list \<Rightarrow> string list" where
  "unique_casefold seen [] = []"
| "unique_casefold seen (v # vs) =
     (if v \<noteq> [] \<and> lower v \<notin> set seen then v # unique_casefold (lower v # seen) vs
      else unique_casefold seen vs)"

definition route_aliases :: "phone_endpoint \<Rightarrow> string list" where
  "route_aliases e = unique_casefold [] [pe_name e, pe_extension e, pe_username e]"

definition has_active_call :: "phone_endpoint \<Rightarrow> bool" where
  "has_active_call e \<longleftrightarrow> pe_active_call_id e \<noteq> []"

definition is_available :: "phone_endpoint \<Rightarrow> bool" where
  "is_available e \<longleftrightarrow> pe_availability e = AVAILABLE"

definition supports :: "phone_endpoint \<Rightarrow> string \<Rightarrow> bool" where
  "supports e capability \<longleftrightarrow> lower (strip capability) \<in> set (pe_capabilities e)"

section \<open>Validated endpoints are fixed points\<close>

lemma text_set_props: "sorted (text_set xs)" "distinct (text_set xs)"
    "set (text_set xs) = {x \<in> set xs. x \<noteq> []}"
  by (auto simp: text_set_def)

lemma text_set_fixed: "sorted xs \<Longrightarrow> distinct xs \<Longrightarrow> [] \<notin> set xs \<Longrightarrow> text_set xs = xs"
proof -
  assume a: "sorted xs" "distinct xs" "[] \<notin> set xs"
  then have "filter (\<lambda>x. x \<noteq> []) xs = xs"
    by (auto simp: filter_id_conv)
  with a show ?thesis
    by (simp add: text_set_def distinct_remdups_id sorted_sort_id)
qed

lemma text_set_map_fixed:
  assumes "\<forall>x \<in> set xs. f x = x"
  shows "text_set (map f (text_set xs)) = text_set xs"
proof -
  have "map f (text_set xs) = text_set xs"
    by (rule map_idI) (use assms in \<open>auto simp: text_set_props\<close>)
  then show ?thesis
    by (simp add: text_set_fixed text_set_props)
qed

lemma token_set_token_set [simp]: "token_set (token_set xs) = token_set xs"
  unfolding token_set_def by (rule text_set_map_fixed) (auto simp: strip_lower)

lemma entity_id_set_idem [simp]: "entity_id_set (entity_id_set xs) = entity_id_set xs"
  unfolding entity_id_set_def by (rule text_set_map_fixed) auto

lemma enum_kind [simp]: "enum_of kind_value [BROWSER, SIP_ACCOUNT, ESPHOME] m (kind_value k) = Inr k"
  by (cases k) (simp_all add: enum_of_def)

lemma enum_availability [simp]:
  "enum_of availability_value [AVAILABLE, OFFLINE, UNAVAILABLE] m (availability_value a) = Inr a"
  by (cases a) (simp_all add: enum_of_def)

lemma enum_policy [simp]:
  "enum_of policy_value [POLICY_UNAVAILABLE, POLICY_FORWARD] m (policy_value p) = Inr p"
  by (cases p) (simp_all add: enum_of_def)

lemma strip_Nil [simp]: "strip [] = []"
  by (simp add: strip_def lstrip_def rstrip_def)

text \<open>What holds of every endpoint that the constructor returns.\<close>

definition endpoint_ok :: "phone_endpoint \<Rightarrow> bool" where
  "endpoint_ok e \<longleftrightarrow>
     pe_id e \<noteq> [] \<and> pe_name e \<noteq> [] \<and>
     list_all (\<lambda>t. strip t = t)
       [pe_id e, pe_name e, pe_extension e, pe_username e, pe_device_id e, pe_ring_group e,
        pe_conference_group e, pe_offline_forward_target e, pe_active_call_id e] \<and>
     entity_id_set (pe_entity_ids e) = pe_entity_ids e \<and>
     token_set (pe_capabilities e) = pe_capabilities e \<and>
     (pe_offline_policy e = POLICY_FORWARD \<longrightarrow> pe_offline_forward_target e \<noteq> []) \<and>
     (pe_kind e = BROWSER \<longrightarrow> pe_offline_policy e = POLICY_UNAVAILABLE \<and> pe_offline_forward_target e = [])"

lemma check_policy_Inr:
  "check_policy e = Inr e' \<longleftrightarrow> e' = e \<and>
     (pe_offline_policy e = POLICY_FORWARD \<longrightarrow> pe_offline_forward_target e \<noteq> []) \<and>
     (pe_kind e = BROWSER \<longrightarrow> pe_offline_policy e = POLICY_UNAVAILABLE \<and> pe_offline_forward_target e = [])"
  by (auto simp: check_policy_def)

lemma required_text_Inr: "required_text v f = Inr t \<longleftrightarrow> t = strip v \<and> strip v \<noteq> []"
  by (auto simp: required_text_def)

lemma make_endpoint_ok: "make_endpoint r = Inr e \<Longrightarrow> endpoint_ok e"
  by (auto simp: make_endpoint_def bindE_eq_Inr check_policy_Inr required_text_Inr endpoint_ok_def)

lemma remake_endpoint:
  assumes "endpoint_ok e"
  shows "make_endpoint ((raw_of e)\<lparr> raw_active_call_id := c \<rparr>) = Inr (e\<lparr> pe_active_call_id := strip c \<rparr>)"
  using assms
  by (simp add: make_endpoint_def raw_of_def endpoint_ok_def required_text_def parse_boolean_def
      check_policy_def)

lemma endpoint_ok_active: "endpoint_ok e \<Longrightarrow> endpoint_ok (e\<lparr> pe_active_call_id := strip c \<rparr>)"
  by (simp add: endpoint_ok_def)

end
