(* ===== verification/Endpoint_Registry.thy ===== *)
theory Endpoint_Registry
  imports Phone_Endpoint
begin

text \<open>
  \<open>custom_components/voip_stack/endpoint_registry.py\<close>: the in-memory registry of the logical
  phones, its lookup indexes and the claims of calls on phones.

  A dictionary is an association list in insertion order.  A method that may raise returns
  \<open>registry_error + 'a\<close>; one that changes the registry returns it with its value.  The
  notifications to the listeners are appended to \<open>er_events\<close>.  The keyword arguments of
  \<open>update\<close> are a list of changes.
\<close>

section \<open>State and errors\<close>

datatype registry_error =
    EndpointNotFound string
  | EndpointCollision string string string string
  | EndpointAmbiguous string "string list"
  | EndpointBusy string string string
  | RegistryError string
  | InvalidEndpoint exn
  | MissingKey

datatype event_type = REGISTERED | UPDATED | REMOVED

record registry_event =
  ev_type :: event_type
  ev_endpoint :: phone_endpoint
  ev_previous :: "phone_endpoint option"

type_synonym index = "(string \<times> string) list"
type_synonym endpoint_table = "(string \<times> phone_endpoint) list"

record endpoint_registry =
  er_endpoints :: endpoint_table
  er_device_index :: index
  er_entity_index :: index
  er_name_index :: index
  er_extension_index :: index
  er_username_index :: index
  er_route_index :: index
  er_events :: "registry_event list"

definition empty_registry :: endpoint_registry where
  "empty_registry = \<lparr> er_endpoints = [], er_device_index = [], er_entity_index = [], er_name_index = [],
     er_extension_index = [], er_username_index = [], er_route_index = [], er_events = [] \<rparr>"

text \<open>\<open>_key\<close>.\<close>

definition reg_key :: "string \<Rightarrow> string" where
  "reg_key value = lower (strip value)"

section \<open>Indexes\<close>

definition device_keys :: "phone_endpoint \<Rightarrow> string list" where
  "device_keys e = [reg_key (pe_device_id e)]"

definition entity_keys :: "phone_endpoint \<Rightarrow> string list" where
  "entity_keys e = map reg_key (pe_entity_ids e)"

definition name_keys :: "phone_endpoint \<Rightarrow> string list" where
  "name_keys e = [reg_key (pe_name e)]"

definition extension_keys :: "phone_endpoint \<Rightarrow> string list" where
  "extension_keys e = [reg_key (pe_extension e)]"

definition username_keys :: "phone_endpoint \<Rightarrow> string list" where
  "username_keys e = [reg_key (pe_username e)]"

definition route_keys :: "phone_endpoint \<Rightarrow> string list" where
  "route_keys e = map normalize_roster_key (route_aliases e)"

text \<open>\<open>_add_index\<close> for the keys of one endpoint, and the loop over all endpoints.\<close>

definition add_index :: "index \<Rightarrow> string list \<Rightarrow> string \<Rightarrow> index" where
  "add_index idx keys endpoint_key =
     foldl (\<lambda>idx v. if v \<noteq> [] then md_set idx v endpoint_key else idx) idx keys"

definition build_index :: "(phone_endpoint \<Rightarrow> string list) \<Rightarrow> endpoint_table \<Rightarrow> index" where
  "build_index keys eps = foldl (\<lambda>idx (k, e). add_index idx (keys e) k) [] eps"

definition rebuild_indexes :: "endpoint_registry \<Rightarrow> endpoint_registry" where
  "rebuild_indexes reg = reg
     \<lparr> er_device_index := build_index device_keys (er_endpoints reg),
       er_entity_index := build_index entity_keys (er_endpoints reg),
       er_name_index := build_index name_keys (er_endpoints reg),
       er_extension_index := build_index extension_keys (er_endpoints reg),
       er_username_index := build_index username_keys (er_endpoints reg),
       er_route_index := build_index route_keys (er_endpoints reg) \<rparr>"

definition emit_event ::
  "event_type \<Rightarrow> phone_endpoint \<Rightarrow> phone_endpoint option \<Rightarrow> endpoint_registry \<Rightarrow> endpoint_registry" where
  "emit_event t e prev reg =
     reg\<lparr> er_events := er_events reg @ [\<lparr> ev_type = t, ev_endpoint = e, ev_previous = prev \<rparr>] \<rparr>"

section \<open>Lookup\<close>

definition get_endpoint :: "endpoint_registry \<Rightarrow> string \<Rightarrow> phone_endpoint option" where
  "get_endpoint reg endpoint_id = assoc (er_endpoints reg) (reg_key endpoint_id)"

definition require_endpoint :: "endpoint_registry \<Rightarrow> string \<Rightarrow> registry_error + phone_endpoint" where
  "require_endpoint reg endpoint_id =
     (case get_endpoint reg endpoint_id of
        Some e \<Rightarrow> Inr e | None \<Rightarrow> Inl (EndpointNotFound (strip endpoint_id)))"

definition from_index :: "endpoint_registry \<Rightarrow> index \<Rightarrow> string \<Rightarrow> phone_endpoint option" where
  "from_index reg idx value =
     (case assoc idx (reg_key value) of
        Some k \<Rightarrow> assoc (er_endpoints reg) k | None \<Rightarrow> None)"

datatype endpoint_lookup = L_ENDPOINT_ID | L_DEVICE_ID | L_ENTITY_ID | L_NAME | L_EXTENSION | L_USERNAME

fun lookup_value :: "endpoint_lookup \<Rightarrow> string" where
  "lookup_value L_ENDPOINT_ID = ''endpoint_id''"
| "lookup_value L_DEVICE_ID = ''device_id''"
| "lookup_value L_ENTITY_ID = ''entity_id''"
| "lookup_value L_NAME = ''name''"
| "lookup_value L_EXTENSION = ''extension''"
| "lookup_value L_USERNAME = ''username''"

definition all_lookups :: "endpoint_lookup list" where
  "all_lookups = [L_ENDPOINT_ID, L_DEVICE_ID, L_ENTITY_ID, L_NAME, L_EXTENSION, L_USERNAME]"

fun lookup_in :: "endpoint_registry \<Rightarrow> endpoint_lookup \<Rightarrow> string \<Rightarrow> phone_endpoint option" where
  "lookup_in reg L_ENDPOINT_ID value = get_endpoint reg value"
| "lookup_in reg L_DEVICE_ID value = from_index reg (er_device_index reg) value"
| "lookup_in reg L_ENTITY_ID value = from_index reg (er_entity_index reg) value"
| "lookup_in reg L_NAME value = from_index reg (er_name_index reg) value"
| "lookup_in reg L_EXTENSION value = from_index reg (er_extension_index reg) value"
| "lookup_in reg L_USERNAME value = from_index reg (er_username_index reg) value"

definition resolve_endpoint ::
  "endpoint_registry \<Rightarrow> string \<Rightarrow> string option \<Rightarrow> registry_error + phone_endpoint option" where
  "resolve_endpoint reg value namespace =
     (case namespace of
        Some ns \<Rightarrow>
          (case find (\<lambda>l. lookup_value l = ns) all_lookups of
             Some l \<Rightarrow> Inr (lookup_in reg l value)
           | None \<Rightarrow> Inl (RegistryError ''unsupported endpoint lookup namespace''))
      | None \<Rightarrow>
          let found = List.map_filter (\<lambda>l. lookup_in reg l value) all_lookups;
              matches = foldl (\<lambda>md e. md_set md (pe_id e) e) [] found
          in if 1 < length matches
             then Inl (EndpointAmbiguous (strip value) (sort (map fst matches)))
             else Inr (case matches of [] \<Rightarrow> None | (_, e) # _ \<Rightarrow> Some e))"

section \<open>Validation\<close>

definition collision ::
  "endpoint_registry \<Rightarrow> phone_endpoint \<Rightarrow> string \<Rightarrow> string \<Rightarrow> string \<Rightarrow> registry_error + unit" where
  "collision reg e field value owner_key =
     (case assoc (er_endpoints reg) owner_key of
        None \<Rightarrow> Inl MissingKey
      | Some owner \<Rightarrow> Inl (EndpointCollision field value (pe_id e) (pe_id owner)))"

definition validate_key ::
  "endpoint_registry \<Rightarrow> phone_endpoint \<Rightarrow> index \<Rightarrow> string \<Rightarrow> string \<Rightarrow> string \<Rightarrow> string \<Rightarrow> registry_error + unit"
  where
  "validate_key reg e idx replacing_key field value value_key =
     (if value_key = [] then Inr ()
      else case assoc idx value_key of
        None \<Rightarrow> Inr ()
      | Some owner_key \<Rightarrow>
          if owner_key = replacing_key then Inr () else collision reg e field value owner_key)"

fun validate_all :: "(registry_error + unit) list \<Rightarrow> registry_error + unit" where
  "validate_all [] = Inr ()"
| "validate_all (c # cs) = bindE c (\<lambda>_. validate_all cs)"

definition validate_endpoint ::
  "endpoint_registry \<Rightarrow> phone_endpoint \<Rightarrow> string option \<Rightarrow> registry_error + unit" where
  "validate_endpoint reg e replacing =
     (let replacing_key = (case replacing of Some r \<Rightarrow> reg_key r | None \<Rightarrow> []);
          endpoint_key = reg_key (pe_id e) in
      bindE (case assoc (er_endpoints reg) endpoint_key of
               Some existing \<Rightarrow>
                 if endpoint_key \<noteq> replacing_key
                 then Inl (EndpointCollision ''endpoint_id'' (pe_id e) (pe_id e) (pe_id existing))
                 else Inr ()
             | None \<Rightarrow> Inr ())
        (\<lambda>_. validate_all
          (validate_key reg e (er_device_index reg) replacing_key ''device_id''
             (pe_device_id e) (reg_key (pe_device_id e))
           # map (\<lambda>v. validate_key reg e (er_entity_index reg) replacing_key ''entity_id'' v (reg_key v))
               (pe_entity_ids e)
           @ map (\<lambda>(field, v). validate_key reg e (er_route_index reg) replacing_key field v
                                 (normalize_roster_key v))
               [(''name'', pe_name e), (''extension'', pe_extension e), (''username'', pe_username e)])))"

section \<open>Registration\<close>

definition store_endpoint :: "string \<Rightarrow> phone_endpoint \<Rightarrow> endpoint_registry \<Rightarrow> endpoint_registry" where
  "store_endpoint k e reg = rebuild_indexes (reg\<lparr> er_endpoints := md_set (er_endpoints reg) k e \<rparr>)"

definition register_endpoint ::
  "endpoint_registry \<Rightarrow> phone_endpoint \<Rightarrow> registry_error + (endpoint_registry \<times> phone_endpoint)" where
  "register_endpoint reg e =
     (let k = reg_key (pe_id e) in
      case assoc (er_endpoints reg) k of
        Some existing \<Rightarrow>
          Inl (EndpointCollision ''endpoint_id'' (pe_id e) (pe_id e) (pe_id existing))
      | None \<Rightarrow>
          bindE (validate_endpoint reg e None) (\<lambda>_.
            Inr (emit_event REGISTERED e None (store_endpoint k e reg), e)))"

definition upsert_endpoint ::
  "endpoint_registry \<Rightarrow> phone_endpoint \<Rightarrow> registry_error + (endpoint_registry \<times> phone_endpoint)" where
  "upsert_endpoint reg e =
     (let k = reg_key (pe_id e); previous = assoc (er_endpoints reg) k in
      bindE (case previous of
               None \<Rightarrow> Inr ()
             | Some p \<Rightarrow>
                 if pe_id p \<noteq> pe_id e then Inl (RegistryError ''endpoint_id is immutable'')
                 else if pe_active_call_id p \<noteq> [] \<and> pe_active_call_id e \<noteq> pe_active_call_id p
                   then Inl (EndpointBusy (pe_id p) (pe_active_call_id p) (pe_active_call_id e))
                 else Inr ())
        (\<lambda>_. bindE (validate_endpoint reg e (map_option pe_id previous)) (\<lambda>_.
          if previous = Some e then Inr (reg, e)
          else Inr (emit_event (if previous \<noteq> None then UPDATED else REGISTERED) e previous
                      (store_endpoint k e reg), e))))"

datatype endpoint_change =
    Ch_endpoint_id string | Ch_active_call_id string | Ch_name string | Ch_kind string
  | Ch_extension string | Ch_username string | Ch_device_id string | Ch_entity_ids "string list"
  | Ch_availability string | Ch_capabilities "string list" | Ch_dnd mval | Ch_auto_answer mval
  | Ch_send_video mval | Ch_offline_policy string | Ch_ring_group string
  | Ch_conference_group string | Ch_conference_ring mval | Ch_offline_forward_target string

fun apply_change :: "raw_endpoint \<Rightarrow> endpoint_change \<Rightarrow> raw_endpoint" where
  "apply_change r (Ch_endpoint_id v) = r\<lparr> raw_id := v \<rparr>"
| "apply_change r (Ch_active_call_id v) = r\<lparr> raw_active_call_id := v \<rparr>"
| "apply_change r (Ch_name v) = r\<lparr> raw_name := v \<rparr>"
| "apply_change r (Ch_kind v) = r\<lparr> raw_kind := v \<rparr>"
| "apply_change r (Ch_extension v) = r\<lparr> raw_extension := v \<rparr>"
| "apply_change r (Ch_username v) = r\<lparr> raw_username := v \<rparr>"
| "apply_change r (Ch_device_id v) = r\<lparr> raw_device_id := v \<rparr>"
| "apply_change r (Ch_entity_ids v) = r\<lparr> raw_entity_ids := v \<rparr>"
| "apply_change r (Ch_availability v) = r\<lparr> raw_availability := v \<rparr>"
| "apply_change r (Ch_capabilities v) = r\<lparr> raw_capabilities := v \<rparr>"
| "apply_change r (Ch_dnd v) = r\<lparr> raw_dnd := v \<rparr>"
| "apply_change r (Ch_auto_answer v) = r\<lparr> raw_auto_answer := v \<rparr>"
| "apply_change r (Ch_send_video v) = r\<lparr> raw_send_video := v \<rparr>"
| "apply_change r (Ch_offline_policy v) = r\<lparr> raw_offline_policy := v \<rparr>"
| "apply_change r (Ch_ring_group v) = r\<lparr> raw_ring_group := v \<rparr>"
| "apply_change r (Ch_conference_group v) = r\<lparr> raw_conference_group := v \<rparr>"
| "apply_change r (Ch_conference_ring v) = r\<lparr> raw_conference_ring := v \<rparr>"
| "apply_change r (Ch_offline_forward_target v) = r\<lparr> raw_offline_forward_target := v \<rparr>"

fun changes_endpoint_id :: "endpoint_change \<Rightarrow> bool" where
  "changes_endpoint_id (Ch_endpoint_id v) = True"
| "changes_endpoint_id _ = False"

fun changes_active_call :: "endpoint_change \<Rightarrow> bool" where
  "changes_active_call (Ch_active_call_id v) = True"
| "changes_active_call _ = False"

definition lift_exn :: "exn + 'a \<Rightarrow> registry_error + 'a" where
  "lift_exn r = (case r of Inl e \<Rightarrow> Inl (InvalidEndpoint e) | Inr x \<Rightarrow> Inr x)"

definition update_endpoint ::
  "endpoint_registry \<Rightarrow> string \<Rightarrow> endpoint_change list
    \<Rightarrow> registry_error + (endpoint_registry \<times> phone_endpoint)" where
  "update_endpoint reg endpoint_id changes =
     (if list_ex changes_endpoint_id changes
        then Inl (RegistryError ''endpoint_id is immutable'')
      else if list_ex changes_active_call changes
        then Inl (RegistryError ''active_call_id must be changed with claim_call or release_call'')
      else bindE (require_endpoint reg endpoint_id) (\<lambda>previous.
        bindE (lift_exn (make_endpoint (foldl apply_change (raw_of previous) changes)))
          (upsert_endpoint reg)))"

definition remove_endpoint ::
  "endpoint_registry \<Rightarrow> string \<Rightarrow> bool \<Rightarrow> registry_error + (endpoint_registry \<times> phone_endpoint)" where
  "remove_endpoint reg endpoint_id force =
     bindE (require_endpoint reg endpoint_id) (\<lambda>e.
       if pe_active_call_id e \<noteq> [] \<and> \<not> force
         then Inl (EndpointBusy (pe_id e) (pe_active_call_id e) [])
       else
         let reg1 = reg\<lparr> er_endpoints :=
               filter (\<lambda>(k, _). k \<noteq> reg_key (pe_id e)) (er_endpoints reg) \<rparr>
         in Inr (emit_event REMOVED e (Some e) (rebuild_indexes reg1), e))"

section \<open>Claims\<close>

definition replace_active ::
  "endpoint_registry \<Rightarrow> phone_endpoint \<Rightarrow> string \<Rightarrow> registry_error + (endpoint_registry \<times> phone_endpoint)" where
  "replace_active reg e call_id =
     bindE (lift_exn (make_endpoint ((raw_of e)\<lparr> raw_active_call_id := call_id \<rparr>))) (\<lambda>updated.
       Inr (emit_event UPDATED updated (Some e) (store_endpoint (reg_key (pe_id e)) updated reg), updated))"

definition claim_call ::
  "endpoint_registry \<Rightarrow> string \<Rightarrow> string \<Rightarrow> registry_error + (endpoint_registry \<times> phone_endpoint)" where
  "claim_call reg endpoint_id call_id =
     (let requested = strip call_id in
      if requested = [] then Inl (RegistryError ''call_id must not be empty'')
      else bindE (require_endpoint reg endpoint_id) (\<lambda>e.
        if pe_active_call_id e \<noteq> [] then
          (if pe_active_call_id e = requested then Inr (reg, e)
           else Inl (EndpointBusy (pe_id e) (pe_active_call_id e) requested))
        else replace_active reg e requested))"

definition release_call ::
  "endpoint_registry \<Rightarrow> string \<Rightarrow> string \<Rightarrow> registry_error + (endpoint_registry \<times> bool)" where
  "release_call reg endpoint_id call_id =
     (let requested = strip call_id in
      bindE (require_endpoint reg endpoint_id) (\<lambda>e.
        if pe_active_call_id e = [] \<or> pe_active_call_id e \<noteq> requested then Inr (reg, False)
        else bindE (replace_active reg e []) (\<lambda>(reg1, _). Inr (reg1, True))))"

definition sync_transport_call ::
  "endpoint_registry \<Rightarrow> string \<Rightarrow> bool \<Rightarrow> string \<Rightarrow> registry_error + (endpoint_registry \<times> phone_endpoint)" where
  "sync_transport_call reg endpoint_id active fallback_call_id =
     bindE (require_endpoint reg endpoint_id) (\<lambda>e.
       if active then
         (let call_id = or_else (pe_active_call_id e) (strip fallback_call_id) in
          if call_id = []
            then Inl (RegistryError ''fallback_call_id must not be empty for an unclaimed endpoint'')
          else claim_call reg (pe_id e) call_id)
       else bindE
         (if pe_active_call_id e \<noteq> []
          then bindE (release_call reg (pe_id e) (pe_active_call_id e)) (\<lambda>(reg1, _). Inr reg1)
          else Inr reg)
         (\<lambda>reg1. bindE (require_endpoint reg1 (pe_id e)) (\<lambda>e1. Inr (reg1, e1))))"

definition adopt_transport_call ::
  "endpoint_registry \<Rightarrow> string \<Rightarrow> string \<Rightarrow> string \<Rightarrow> registry_error + (endpoint_registry \<times> phone_endpoint)" where
  "adopt_transport_call reg endpoint_id call_id transport_prefix =
     (let requested = strip call_id in
      if requested = [] then Inl (RegistryError ''call_id must not be empty'')
      else bindE (require_endpoint reg endpoint_id) (\<lambda>e.
        if pe_active_call_id e = [] then claim_call reg (pe_id e) requested
        else if pe_active_call_id e = requested then Inr (reg, e)
        else if startswith (pe_active_call_id e) (or_else transport_prefix ''physical:'')
          then replace_active reg e requested
        else Inl (EndpointBusy (pe_id e) (pe_active_call_id e) requested)))"

section \<open>Keys\<close>

lemma lower_percent: "lower_char c = CHR ''%'' \<longleftrightarrow> c = CHR ''%''"
proof -
  have "lower_char (CHR ''%'') = CHR ''%''" by code_simp
  moreover have "lower_char c \<noteq> CHR ''%''" if "is_upper c"
  proof
    assume "lower_char c = CHR ''%''"
    then have "ord (lower_char c) = 37" by simp
    with that show False
      by (simp add: lower_char_def is_upper_def)
  qed
  ultimately show ?thesis
    by (cases "is_upper c") (auto simp: lower_char_def)
qed

lemma lower_Cons: "lower (c # s) = lower_char c # lower s"
  by (simp add: lower_def)

text \<open>The escape sequence behind a percent sign.\<close>

definition escape :: "string \<Rightarrow> (char \<times> string) option" where
  "escape s =
     (case s of
        a # b # r \<Rightarrow>
          (case (hex_val a, hex_val b) of
             (Some x, Some y) \<Rightarrow> Some (char_of (16 * x + y), r) | _ \<Rightarrow> None)
      | _ \<Rightarrow> None)"

lemma unquote_percent:
  "unquote_bytes (CHR ''%'' # s) =
     (case escape s of Some (d, r) \<Rightarrow> d # unquote_bytes r | None \<Rightarrow> CHR ''%'' # unquote_bytes s)"
  by (subst unquote_bytes.simps(2))
    (simp del: unquote_bytes.simps add: escape_def split: list.split option.split)

lemma unquote_other: "c \<noteq> CHR ''%'' \<Longrightarrow> unquote_bytes (c # s) = c # unquote_bytes s"
  by simp

lemma escape_lower: "escape (lower s) = map_option (\<lambda>(d, r). (d, lower r)) (escape s)"
  by (simp add: escape_def lower_def hex_val_lower split: list.split option.split)

lemma escape_length: "escape s = Some (d, r) \<Longrightarrow> length r < length s"
  by (auto simp: escape_def split: list.splits option.splits)

lemma lower_unquote: "lower (unquote_bytes (lower s)) = lower (unquote_bytes s)"
proof (induction s rule: length_induct)
  case (1 s)
  have lc: "lower_char (CHR ''%'') = CHR ''%''" by code_simp
  note simps = lower_Cons unquote_percent unquote_other escape_lower lower_char_idem lc
  show ?case
  proof (cases s)
    case Nil
    then show ?thesis by (simp add: lower_def)
  next
    case (Cons c t)
    show ?thesis
    proof (cases "c = CHR ''%''")
      case False
      with 1 Cons show ?thesis
        by (simp del: unquote_bytes.simps add: simps lower_percent)
    next
      case True
      show ?thesis
      proof (cases "escape t")
        case None
        with 1 Cons True show ?thesis
          by (simp del: unquote_bytes.simps add: simps)
      next
        case (Some dr)
        obtain d r where dr: "dr = (d, r)" by force
        with Some have "length r < length s"
          using escape_length Cons by (metis length_Cons less_SucI)
        with 1 have "lower (unquote_bytes (lower r)) = lower (unquote_bytes r)"
          by blast
        with Cons True Some dr show ?thesis
          by (simp del: unquote_bytes.simps add: simps)
      qed
    qed
  qed
qed

lemma normalize_lower: "normalize_roster_key (lower s) = normalize_roster_key s"
  unfolding normalize_roster_key_def by (metis lower_unquote strip_lower)

lemma normalize_casefold: "lower v = lower w \<Longrightarrow> normalize_roster_key v = normalize_roster_key w"
  by (metis normalize_lower)

lemma normalize_Nil [simp]: "normalize_roster_key [] = []"
  by (simp add: normalize_roster_key_def lower_def)

lemma unique_casefold_sub: "set (unique_casefold seen vs) \<subseteq> set vs"
  by (induction vs arbitrary: seen) auto

lemma unique_casefold_covers:
  "v \<in> set vs \<Longrightarrow> lower v \<notin> set seen \<Longrightarrow> normalize_roster_key v \<noteq> [] \<Longrightarrow>
   normalize_roster_key v \<in> normalize_roster_key ` set (unique_casefold seen vs)"
proof (induction vs arbitrary: seen)
  case (Cons w vs)
  show ?case
  proof (cases "w \<noteq> [] \<and> lower w \<notin> set seen")
    case True
    then show ?thesis
      using Cons.IH [of "lower w # seen"] Cons.prems normalize_casefold [of v w]
      by (cases "lower v = lower w") auto
  next
    case False
    then have "v \<noteq> w" using Cons.prems(2,3) by auto
    then show ?thesis
      using Cons.IH [of seen] Cons.prems False by auto
  qed
qed simp

lemma route_keys_set:
  "set (route_keys e) - {[]} =
     {normalize_roster_key (pe_name e), normalize_roster_key (pe_extension e),
      normalize_roster_key (pe_username e)} - {[]}"
proof -
  let ?vs = "[pe_name e, pe_extension e, pe_username e]"
  have "set (route_keys e) \<subseteq> normalize_roster_key ` set ?vs"
    using unique_casefold_sub [of "[]" ?vs] by (auto simp only: route_keys_def route_aliases_def set_map)
  moreover have "normalize_roster_key ` set ?vs - {[]} \<subseteq> set (route_keys e)"
    using unique_casefold_covers [of _ ?vs "[]"] by (auto simp only: route_keys_def route_aliases_def set_map list.set)
  ultimately show ?thesis by auto
qed

section \<open>What an index holds\<close>

lemma assoc_add_index:
  "assoc (add_index idx vs k) v = (if v \<in> set vs \<and> v \<noteq> [] then Some k else assoc idx v)"
  unfolding add_index_def
  by (induction vs arbitrary: idx) (auto simp: assoc_md_set)

lemma build_index_snoc:
  "build_index f (eps @ [(k, e)]) = add_index (build_index f eps) (f e) k"
  by (simp add: build_index_def)

lemma assoc_build_index_Some:
  "assoc (build_index f eps) v = Some k \<Longrightarrow> v \<noteq> [] \<and> (\<exists>e. (k, e) \<in> set eps \<and> v \<in> set (f e))"
proof (induction eps rule: rev_induct)
  case Nil
  then show ?case by (simp add: build_index_def)
next
  case (snoc x eps)
  then show ?case
    by (cases x) (auto simp: build_index_snoc assoc_add_index split: if_splits)
qed

lemma assoc_build_index_ex:
  "(k, e) \<in> set eps \<Longrightarrow> v \<in> set (f e) \<Longrightarrow> v \<noteq> [] \<Longrightarrow> \<exists>k'. assoc (build_index f eps) v = Some k'"
proof (induction eps rule: rev_induct)
  case (snoc x eps)
  then show ?case
    by (cases x) (auto simp: build_index_snoc assoc_add_index)
qed simp

text \<open>No two endpoints of the table share a key.\<close>

definition disjoint_keys :: "(phone_endpoint \<Rightarrow> string list) \<Rightarrow> endpoint_table \<Rightarrow> bool" where
  "disjoint_keys f eps \<longleftrightarrow>
     (\<forall>(k, e) \<in> set eps. \<forall>(k', e') \<in> set eps. k \<noteq> k' \<longrightarrow> set (f e) \<inter> set (f e') \<subseteq> {[]})"

lemma disjoint_keysD:
  "disjoint_keys f eps \<Longrightarrow> (k, e) \<in> set eps \<Longrightarrow> (k', e') \<in> set eps \<Longrightarrow> v \<in> set (f e) \<Longrightarrow>
   v \<in> set (f e') \<Longrightarrow> v \<noteq> [] \<Longrightarrow> k = k'"
  unfolding disjoint_keys_def by fast

lemma assoc_build_index:
  assumes "disjoint_keys f eps" "(k, e) \<in> set eps" "v \<in> set (f e)" "v \<noteq> []"
  shows "assoc (build_index f eps) v = Some k"
proof -
  obtain k' where k': "assoc (build_index f eps) v = Some k'"
    using assoc_build_index_ex assms(2-4) by blast
  then obtain e' where "(k', e') \<in> set eps" "v \<in> set (f e')"
    using assoc_build_index_Some by blast
  then have "k = k'"
    using disjoint_keysD assms by blast
  with k' show ?thesis by simp
qed

section \<open>The registry invariant\<close>

definition registry_ok :: "endpoint_registry \<Rightarrow> bool" where
  "registry_ok reg \<longleftrightarrow>
     distinct (map fst (er_endpoints reg)) \<and>
     (\<forall>(k, e) \<in> set (er_endpoints reg). k = reg_key (pe_id e) \<and> endpoint_ok e) \<and>
     disjoint_keys device_keys (er_endpoints reg) \<and>
     disjoint_keys entity_keys (er_endpoints reg) \<and>
     disjoint_keys route_keys (er_endpoints reg) \<and>
     rebuild_indexes reg = reg"

lemma registry_ok_indexes:
  assumes "registry_ok reg"
  shows "er_device_index reg = build_index device_keys (er_endpoints reg)"
    "er_entity_index reg = build_index entity_keys (er_endpoints reg)"
    "er_name_index reg = build_index name_keys (er_endpoints reg)"
    "er_extension_index reg = build_index extension_keys (er_endpoints reg)"
    "er_username_index reg = build_index username_keys (er_endpoints reg)"
    "er_route_index reg = build_index route_keys (er_endpoints reg)"
proof -
  have r: "rebuild_indexes reg = reg"
    using assms by (simp add: registry_ok_def)
  show "er_device_index reg = build_index device_keys (er_endpoints reg)"
    "er_entity_index reg = build_index entity_keys (er_endpoints reg)"
    "er_name_index reg = build_index name_keys (er_endpoints reg)"
    "er_extension_index reg = build_index extension_keys (er_endpoints reg)"
    "er_username_index reg = build_index username_keys (er_endpoints reg)"
    "er_route_index reg = build_index route_keys (er_endpoints reg)"
    by (subst r [symmetric], simp add: rebuild_indexes_def)+
qed

lemma rebuild_simps [simp]:
  "er_endpoints (rebuild_indexes reg) = er_endpoints reg"
  "rebuild_indexes (rebuild_indexes reg) = rebuild_indexes reg"
  "er_endpoints (emit_event t e p reg) = er_endpoints reg"
  "rebuild_indexes (emit_event t e p reg) = emit_event t e p (rebuild_indexes reg)"
  by (simp_all add: rebuild_indexes_def emit_event_def)

lemma registry_ok_emit [simp]: "registry_ok (emit_event t e p reg) = registry_ok reg"
proof -
  have "emit_event t e p (rebuild_indexes reg) = emit_event t e p reg \<longleftrightarrow> rebuild_indexes reg = reg"
    by (cases reg) (simp add: emit_event_def rebuild_indexes_def)
  then show ?thesis
    by (simp add: registry_ok_def)
qed

lemma registry_ok_empty: "registry_ok empty_registry"
  by (simp add: registry_ok_def empty_registry_def disjoint_keys_def rebuild_indexes_def build_index_def)

lemma disjoint_keys_store:
  assumes "distinct (map fst eps)" "disjoint_keys f eps"
    and "\<forall>(k', e') \<in> set eps. k' \<noteq> k \<longrightarrow> set (f e) \<inter> set (f e') \<subseteq> {[]}"
  shows "disjoint_keys f (md_set eps k e)"
proof -
  have "set (f e1) \<inter> set (f e2) \<subseteq> {[]}"
    if "(k1, e1) \<in> set (md_set eps k e)" "(k2, e2) \<in> set (md_set eps k e)" "k1 \<noteq> k2" for k1 e1 k2 e2
    using that assms(3) disjoint_keysD [OF assms(2), of k1 e1 k2 e2]
    by (auto simp: set_md_set [OF assms(1)])
  then show ?thesis
    unfolding disjoint_keys_def by blast
qed

text \<open>Storing an endpoint keeps the invariant when its keys are free or its own.\<close>

definition keys_free :: "endpoint_registry \<Rightarrow> phone_endpoint \<Rightarrow> bool" where
  "keys_free reg e \<longleftrightarrow>
     (\<forall>(k', e') \<in> set (er_endpoints reg). k' \<noteq> reg_key (pe_id e) \<longrightarrow>
        set (device_keys e) \<inter> set (device_keys e') \<subseteq> {[]} \<and>
        set (entity_keys e) \<inter> set (entity_keys e') \<subseteq> {[]} \<and>
        set (route_keys e) \<inter> set (route_keys e') \<subseteq> {[]})"

lemma registry_ok_store:
  assumes "registry_ok reg" "endpoint_ok e" "keys_free reg e"
  shows "registry_ok (store_endpoint (reg_key (pe_id e)) e reg)"
proof -
  let ?k = "reg_key (pe_id e)"
  have d: "distinct (map fst (er_endpoints reg))"
    using assms(1) by (simp add: registry_ok_def)
  have f: "disjoint_keys f (md_set (er_endpoints reg) ?k e)"
    if "f \<in> {device_keys, entity_keys, route_keys}" for f
    by (rule disjoint_keys_store [OF d]) (use assms(1,3) that in \<open>auto simp: registry_ok_def keys_free_def\<close>)
  show ?thesis
    using assms(1,2) f distinct_md_set [OF d]
    by (auto simp: registry_ok_def store_endpoint_def set_md_set [OF d])
qed

section \<open>Every operation keeps the invariant\<close>

lemma validate_all_ok: "validate_all cs = Inr u \<longleftrightarrow> (\<forall>c \<in> set cs. c = Inr ())"
  by (induction cs) (auto simp: bindE_eq_Inr)

lemma validate_key_ok:
  "validate_key reg e idx r field v vk = Inr u \<Longrightarrow> vk = [] \<or> assoc idx vk = None \<or> assoc idx vk = Some r"
  by (auto simp: validate_key_def collision_def split: if_splits option.splits)

lemma reg_key_nonempty: "endpoint_ok e \<Longrightarrow> reg_key (pe_id e) \<noteq> []"
  by (simp add: endpoint_ok_def reg_key_def)

lemma index_owner:
  assumes "registry_ok reg" "(k', e') \<in> set (er_endpoints reg)" "v \<in> set (f e')" "v \<noteq> []"
    and "f \<in> {device_keys, entity_keys, route_keys}"
  shows "assoc (build_index f (er_endpoints reg)) v = Some k'"
  by (rule assoc_build_index) (use assms in \<open>auto simp: registry_ok_def\<close>)

lemma validate_keys_free:
  assumes ok: "registry_ok reg" and e: "endpoint_ok e"
    and v: "validate_endpoint reg e replacing = Inr u"
    and r: "replacing = None \<or> (\<exists>i. replacing = Some i \<and> reg_key i = reg_key (pe_id e))"
  shows "keys_free reg e"
proof -
  define rk where "rk = (case replacing of Some i \<Rightarrow> reg_key i | None \<Rightarrow> [])"
  note idx = registry_ok_indexes [OF ok]
  have all: "validate_key reg e (er_device_index reg) rk ''device_id'' (pe_device_id e) (reg_key (pe_device_id e)) = Inr ()"
    "\<forall>i \<in> set (pe_entity_ids e).
       validate_key reg e (er_entity_index reg) rk ''entity_id'' i (reg_key i) = Inr ()"
    "\<forall>(f, n) \<in> {(''name'', pe_name e), (''extension'', pe_extension e), (''username'', pe_username e)}.
       validate_key reg e (er_route_index reg) rk f n (normalize_roster_key n) = Inr ()"
    using v by (auto simp: validate_endpoint_def Let_def rk_def [symmetric] bindE_eq_Inr validate_all_ok)
  have free: "v = []"
    if "(k', e') \<in> set (er_endpoints reg)" "k' \<noteq> reg_key (pe_id e)" "v \<in> set (f e')"
      and f: "f \<in> {device_keys, entity_keys, route_keys}"
      and a: "v = [] \<or> assoc (build_index f (er_endpoints reg)) v \<in> {None, Some rk}" for v k' e' f
  proof (rule ccontr)
    assume "v \<noteq> []"
    with a index_owner [OF ok that(1,3) _ f] have "k' = rk" by auto
    moreover have "k' \<noteq> []"
      using that(1) ok reg_key_nonempty [of e'] unfolding registry_ok_def by fastforce
    ultimately show False
      using r that(2) by (auto simp: rk_def)
  qed
  have "set (device_keys e) \<inter> set (device_keys e') \<subseteq> {[]} \<and>
      set (entity_keys e) \<inter> set (entity_keys e') \<subseteq> {[]} \<and>
      set (route_keys e) \<inter> set (route_keys e') \<subseteq> {[]}"
    if "(k', e') \<in> set (er_endpoints reg)" "k' \<noteq> reg_key (pe_id e)" for k' e'
  proof (intro conjI subsetI)
    fix v assume "v \<in> set (device_keys e) \<inter> set (device_keys e')"
    then show "v \<in> {[]}"
      using free [OF that, of v device_keys] validate_key_ok [OF all(1)] idx(1)
      by (auto simp: device_keys_def)
  next
    fix v assume v: "v \<in> set (entity_keys e) \<inter> set (entity_keys e')"
    then obtain i where i: "i \<in> set (pe_entity_ids e)" "v = reg_key i"
      by (auto simp: entity_keys_def)
    then have "v = [] \<or> assoc (er_entity_index reg) v \<in> {None, Some rk}"
      using validate_key_ok [OF bspec [OF all(2) i(1)]] by simp
    with v show "v \<in> {[]}"
      using free [OF that, of v entity_keys] idx(2) by auto
  next
    fix v assume v: "v \<in> set (route_keys e) \<inter> set (route_keys e')"
    show "v \<in> {[]}"
    proof (cases "v = []")
      case False
      then have "v \<in> {normalize_roster_key (pe_name e), normalize_roster_key (pe_extension e),
          normalize_roster_key (pe_username e)}"
        using v route_keys_set [of e] by auto
      then have "v = [] \<or> assoc (er_route_index reg) v \<in> {None, Some rk}"
        using all(3) validate_key_ok by fastforce
      with v show ?thesis
        using free [OF that, of v route_keys] idx(6) by auto
    qed simp
  qed
  then show ?thesis
    unfolding keys_free_def by blast
qed

lemma register_ok:
  assumes "registry_ok reg" "endpoint_ok e" "register_endpoint reg e = Inr (reg', r)"
  shows "registry_ok reg'"
  using assms validate_keys_free [of reg e None] registry_ok_store
  by (auto simp: register_endpoint_def Let_def bindE_eq_Inr split: option.splits)

lemma upsert_ok:
  assumes "registry_ok reg" "endpoint_ok e" "upsert_endpoint reg e = Inr (reg', r)"
  shows "registry_ok reg'"
proof -
  let ?p = "assoc (er_endpoints reg) (reg_key (pe_id e))"
  have "validate_endpoint reg e (map_option pe_id ?p) = Inr ()"
    "map_option pe_id ?p = None \<or> (\<exists>i. map_option pe_id ?p = Some i \<and> reg_key i = reg_key (pe_id e))"
    using assms(3) by (auto simp: upsert_endpoint_def Let_def bindE_eq_Inr split: option.splits if_splits)
  then have "registry_ok (store_endpoint (reg_key (pe_id e)) e reg)"
    using validate_keys_free assms registry_ok_store by blast
  with assms show ?thesis
    by (auto simp: upsert_endpoint_def Let_def bindE_eq_Inr split: option.splits if_splits)
qed

lemma update_ok:
  assumes "registry_ok reg" "update_endpoint reg i changes = Inr (reg', r)"
  shows "registry_ok reg'"
proof -
  obtain p where "bindE (lift_exn (make_endpoint (foldl apply_change (raw_of p) changes))) (upsert_endpoint reg)
      = Inr (reg', r)"
    using assms(2) by (auto simp: update_endpoint_def bindE_eq_Inr split: if_splits)
  then obtain e where "make_endpoint (foldl apply_change (raw_of p) changes) = Inr e"
    "upsert_endpoint reg e = Inr (reg', r)"
    by (cases "make_endpoint (foldl apply_change (raw_of p) changes)") (auto simp: lift_exn_def)
  with assms(1) show ?thesis
    using upsert_ok make_endpoint_ok by blast
qed

lemma remove_ok:
  assumes "registry_ok reg" "remove_endpoint reg i force = Inr (reg', r)"
  shows "registry_ok reg'"
proof -
  have d: "distinct (map fst (filter P md))" if "distinct (map fst md)" for P and md :: endpoint_table
    using that by (induction md) auto
  have "disjoint_keys f (filter P eps)" if dj: "disjoint_keys f eps" for P f eps
    unfolding disjoint_keys_def using disjoint_keysD [OF dj] by auto blast
  with assms d show ?thesis
    by (auto simp: remove_endpoint_def Let_def bindE_eq_Inr registry_ok_def split: if_splits)
qed

lemma assoc_in_set: "distinct (map fst md) \<Longrightarrow> (k, v) \<in> set md \<Longrightarrow> assoc md k = Some v"
  by (simp add: assoc_eq_map_of)

lemma get_endpoint_props:
  assumes "registry_ok reg" "get_endpoint reg i = Some e"
  shows "(reg_key i, e) \<in> set (er_endpoints reg)" "reg_key (pe_id e) = reg_key i" "endpoint_ok e"
    "get_endpoint reg (pe_id e) = Some e"
proof -
  show in_: "(reg_key i, e) \<in> set (er_endpoints reg)"
    using assms(2) assoc_Some_in by (auto simp: get_endpoint_def)
  then show "reg_key (pe_id e) = reg_key i" "endpoint_ok e"
    using assms(1) by (auto simp: registry_ok_def)
  then show "get_endpoint reg (pe_id e) = Some e"
    using assms(2) by (simp add: get_endpoint_def)
qed

lemma require_Inr: "require_endpoint reg i = Inr e \<longleftrightarrow> get_endpoint reg i = Some e"
  by (auto simp: require_endpoint_def split: option.splits)

lemma get_store: "get_endpoint (store_endpoint k e reg) i = (if reg_key i = k then Some e else get_endpoint reg i)"
  by (simp add: get_endpoint_def store_endpoint_def assoc_md_set)

lemma get_emit [simp]: "get_endpoint (emit_event t e p reg) i = get_endpoint reg i"
  by (simp add: get_endpoint_def)

lemma replace_active_eq:
  assumes "endpoint_ok e"
  shows "replace_active reg e c = Inr
    (emit_event UPDATED (e\<lparr> pe_active_call_id := strip c \<rparr>) (Some e)
       (store_endpoint (reg_key (pe_id e)) (e\<lparr> pe_active_call_id := strip c \<rparr>) reg),
     e\<lparr> pe_active_call_id := strip c \<rparr>)"
  using remake_endpoint [OF assms] by (simp add: replace_active_def lift_exn_def)

lemma replace_active_ok:
  assumes "registry_ok reg" "get_endpoint reg i = Some e" "replace_active reg e c = Inr (reg', r)"
  shows "registry_ok reg'"
proof -
  note p = get_endpoint_props [OF assms(1,2)]
  let ?e = "e\<lparr> pe_active_call_id := strip c \<rparr>"
  have same: "device_keys ?e = device_keys e" "entity_keys ?e = entity_keys e" "route_keys ?e = route_keys e"
    "pe_id ?e = pe_id e"
    by (simp_all add: device_keys_def entity_keys_def route_keys_def route_aliases_def)
  have "keys_free reg ?e"
  proof -
    have dj: "set (f e) \<inter> set (f e') \<subseteq> {[]}"
      if "(k', e') \<in> set (er_endpoints reg)" "k' \<noteq> reg_key i" "f \<in> {device_keys, entity_keys, route_keys}"
      for k' e' f
    proof -
      have "disjoint_keys f (er_endpoints reg)"
        using assms(1) that(3) by (auto simp: registry_ok_def)
      from disjoint_keysD [OF this p(1) that(1)] show ?thesis
        using that(2) by auto
    qed
    show ?thesis
      unfolding keys_free_def same p(2) using dj by auto
  qed
  then show ?thesis
    using registry_ok_store [OF assms(1) endpoint_ok_active [OF p(3), of c]] assms(3)
    by (simp add: replace_active_eq [OF p(3)] same) auto
qed

lemma claim_ok:
  assumes "registry_ok reg" "claim_call reg i c = Inr (reg', r)"
  shows "registry_ok reg'"
  using assms(2) replace_active_ok [OF assms(1)] assms(1)
  unfolding claim_call_def Let_def by (auto simp: bindE_eq_Inr require_Inr split: if_splits)

lemma release_ok:
  assumes "registry_ok reg" "release_call reg i c = Inr (reg', r)"
  shows "registry_ok reg'"
  using assms(2) replace_active_ok [OF assms(1)] assms(1)
  unfolding release_call_def Let_def by (auto simp: bindE_eq_Inr require_Inr split: if_splits)

lemma sync_ok:
  assumes "registry_ok reg" "sync_transport_call reg i active f = Inr (reg', r)"
  shows "registry_ok reg'"
  using assms(2) claim_ok [OF assms(1)] release_ok [OF assms(1)] assms(1)
  unfolding sync_transport_call_def Let_def by (auto simp: bindE_eq_Inr require_Inr split: if_splits)

lemma adopt_ok:
  assumes "registry_ok reg" "adopt_transport_call reg i c p = Inr (reg', r)"
  shows "registry_ok reg'"
  using assms(2) claim_ok [OF assms(1)] replace_active_ok [OF assms(1)] assms(1)
  unfolding adopt_transport_call_def Let_def by (auto simp: bindE_eq_Inr require_Inr split: if_splits)

section \<open>Reachable registries\<close>

datatype registry_op =
    R_register raw_endpoint | R_upsert raw_endpoint | R_update string "endpoint_change list"
  | R_remove string bool | R_claim string string | R_release string string
  | R_sync string bool string | R_adopt string string string

inductive registry_step :: "endpoint_registry \<Rightarrow> registry_op \<Rightarrow> endpoint_registry \<Rightarrow> bool" where
  step_register: "make_endpoint raw = Inr e \<Longrightarrow> register_endpoint reg e = Inr (reg', r) \<Longrightarrow>
    registry_step reg (R_register raw) reg'"
| step_upsert: "make_endpoint raw = Inr e \<Longrightarrow> upsert_endpoint reg e = Inr (reg', r) \<Longrightarrow>
    registry_step reg (R_upsert raw) reg'"
| step_update: "update_endpoint reg i changes = Inr (reg', r) \<Longrightarrow> registry_step reg (R_update i changes) reg'"
| step_remove: "remove_endpoint reg i force = Inr (reg', r) \<Longrightarrow> registry_step reg (R_remove i force) reg'"
| step_claim: "claim_call reg i c = Inr (reg', r) \<Longrightarrow> registry_step reg (R_claim i c) reg'"
| step_release: "release_call reg i c = Inr (reg', b) \<Longrightarrow> registry_step reg (R_release i c) reg'"
| step_sync: "sync_transport_call reg i active f = Inr (reg', r) \<Longrightarrow> registry_step reg (R_sync i active f) reg'"
| step_adopt: "adopt_transport_call reg i c p = Inr (reg', r) \<Longrightarrow> registry_step reg (R_adopt i c p) reg'"

inductive_cases registry_stepE: "registry_step reg op reg'"

inductive registry_reachable :: "endpoint_registry \<Rightarrow> bool" where
  reach_empty: "registry_reachable empty_registry"
| reach_step: "registry_reachable reg \<Longrightarrow> registry_step reg op reg' \<Longrightarrow> registry_reachable reg'"

lemma registry_step_ok: "registry_step reg op reg' \<Longrightarrow> registry_ok reg \<Longrightarrow> registry_ok reg'"
  by (induction rule: registry_step.induct)
    (auto intro: register_ok upsert_ok update_ok remove_ok claim_ok release_ok sync_ok adopt_ok
      dest: make_endpoint_ok)

lemma reachable_ok: "registry_reachable reg \<Longrightarrow> registry_ok reg"
  by (induction rule: registry_reachable.induct) (auto intro: registry_ok_empty registry_step_ok)

section \<open>Lookups in a reachable registry\<close>

lemma route_keys_field:
  "normalize_roster_key v \<noteq> [] \<Longrightarrow> v \<in> {pe_name e, pe_extension e, pe_username e} \<Longrightarrow>
   normalize_roster_key v \<in> set (route_keys e)"
  using route_keys_set [of e] by auto

lemma alias_index:
  assumes ok: "registry_ok reg" and e: "(k, e) \<in> set (er_endpoints reg)"
    and fld: "fld \<in> {pe_name, pe_extension, pe_username}" and n: "normalize_roster_key (fld e) \<noteq> []"
  shows "assoc (build_index (\<lambda>e. [reg_key (fld e)]) (er_endpoints reg)) (reg_key (fld e)) = Some k"
proof -
  have stripped: "strip (fld e') = fld e'" if "(k', e') \<in> set (er_endpoints reg)" for k' e'
  proof -
    have "endpoint_ok e'" using ok that by (auto simp: registry_ok_def)
    then show ?thesis using fld by (auto simp: endpoint_ok_def)
  qed
  have "reg_key (fld e) \<noteq> []"
    using n stripped [OF e] by (auto simp: reg_key_def)
  then obtain k' where k': "assoc (build_index (\<lambda>e. [reg_key (fld e)]) (er_endpoints reg)) (reg_key (fld e)) = Some k'"
    using assoc_build_index_ex [OF e, of "reg_key (fld e)" "\<lambda>e. [reg_key (fld e)]"] by auto
  then obtain e' where e': "(k', e') \<in> set (er_endpoints reg)" "reg_key (fld e) = reg_key (fld e')"
    using assoc_build_index_Some [OF k'] by auto
  then have "lower (fld e) = lower (fld e')"
    using stripped e by (simp add: reg_key_def)
  then have same: "normalize_roster_key (fld e) = normalize_roster_key (fld e')"
    by (rule normalize_casefold)
  have "normalize_roster_key (fld e) \<in> set (route_keys e)" "normalize_roster_key (fld e) \<in> set (route_keys e')"
    using route_keys_field [of "fld e" e] route_keys_field [of "fld e'" e'] n fld same by auto
  then have "k = k'"
    using disjoint_keysD [of route_keys "er_endpoints reg"] ok e e'(1) n by (auto simp: registry_ok_def)
  with k' show ?thesis by simp
qed

lemma assoc_endpoint:
  "registry_ok reg \<Longrightarrow> (k, e) \<in> set (er_endpoints reg) \<Longrightarrow> assoc (er_endpoints reg) k = Some e"
  by (simp add: registry_ok_def assoc_in_set)

lemma registry_lookup:
  assumes ok: "registry_ok reg" and e: "(k, e) \<in> set (er_endpoints reg)"
  shows "get_endpoint reg (pe_id e) = Some e"
    and "pe_device_id e \<noteq> [] \<Longrightarrow> lookup_in reg L_DEVICE_ID (pe_device_id e) = Some e"
    and "i \<in> set (pe_entity_ids e) \<Longrightarrow> lookup_in reg L_ENTITY_ID i = Some e"
    and "normalize_roster_key (pe_name e) \<noteq> [] \<Longrightarrow> lookup_in reg L_NAME (pe_name e) = Some e"
    and "normalize_roster_key (pe_extension e) \<noteq> [] \<Longrightarrow> lookup_in reg L_EXTENSION (pe_extension e) = Some e"
    and "normalize_roster_key (pe_username e) \<noteq> [] \<Longrightarrow> lookup_in reg L_USERNAME (pe_username e) = Some e"
proof -
  note idx = registry_ok_indexes [OF ok]
  note a = assoc_endpoint [OF ok e]
  have e_ok: "endpoint_ok e" and k: "k = reg_key (pe_id e)"
    using ok e by (auto simp: registry_ok_def)
  show "get_endpoint reg (pe_id e) = Some e"
    using a k by (simp add: get_endpoint_def)
  show "lookup_in reg L_DEVICE_ID (pe_device_id e) = Some e" if "pe_device_id e \<noteq> []"
  proof -
    have "reg_key (pe_device_id e) \<noteq> []"
      using that e_ok by (simp add: endpoint_ok_def reg_key_def)
    then show ?thesis
      using index_owner [OF ok e, of "reg_key (pe_device_id e)" device_keys] a
      by (simp add: from_index_def idx(1) device_keys_def)
  qed
  show "lookup_in reg L_ENTITY_ID i = Some e" if "i \<in> set (pe_entity_ids e)" for i
  proof -
    have "i \<in> set (entity_id_set (pe_entity_ids e))"
      using e_ok that by (simp add: endpoint_ok_def)
    then have "reg_key i \<noteq> []"
      by (auto simp: entity_id_set_def text_set_props reg_key_def)
    then show ?thesis
      using index_owner [OF ok e, of "reg_key i" entity_keys] a that
      by (simp add: from_index_def idx(2) entity_keys_def)
  qed
  show "lookup_in reg L_NAME (pe_name e) = Some e" if "normalize_roster_key (pe_name e) \<noteq> []"
    using alias_index [OF ok e, of pe_name] that a
    by (simp add: from_index_def idx(3) name_keys_def [abs_def])
  show "lookup_in reg L_EXTENSION (pe_extension e) = Some e" if "normalize_roster_key (pe_extension e) \<noteq> []"
    using alias_index [OF ok e, of pe_extension] that a
    by (simp add: from_index_def idx(4) extension_keys_def [abs_def])
  show "lookup_in reg L_USERNAME (pe_username e) = Some e" if "normalize_roster_key (pe_username e) \<noteq> []"
    using alias_index [OF ok e, of pe_username] that a
    by (simp add: from_index_def idx(5) username_keys_def [abs_def])
qed

text \<open>C30: In every registry that the operations can produce, each phone is found under its identifier
  and under its own device, entity, name, extension and user name: no other phone can take one of them
  over, not even across kinds of names.  (A name, extension or user name without letters and digits is
  not protected.)\<close>

theorem registered_phone_is_found:
  assumes "registry_reachable reg" and "e \<in> snd ` set (er_endpoints reg)"
  shows "get_endpoint reg (pe_id e) = Some e \<and>
    (pe_device_id e \<noteq> [] \<longrightarrow> lookup_in reg L_DEVICE_ID (pe_device_id e) = Some e) \<and>
    list_all (\<lambda>i. lookup_in reg L_ENTITY_ID i = Some e) (pe_entity_ids e) \<and>
    (normalize_roster_key (pe_name e) \<noteq> [] \<longrightarrow> lookup_in reg L_NAME (pe_name e) = Some e) \<and>
    (normalize_roster_key (pe_extension e) \<noteq> [] \<longrightarrow> lookup_in reg L_EXTENSION (pe_extension e) = Some e) \<and>
    (normalize_roster_key (pe_username e) \<noteq> [] \<longrightarrow> lookup_in reg L_USERNAME (pe_username e) = Some e)"
proof -
  obtain k where e: "(k, e) \<in> set (er_endpoints reg)"
    using assms(2) by auto
  note l = registry_lookup [OF reachable_ok [OF assms(1)] e]
  show ?thesis
    using l by (simp add: list_all_iff)
qed

section \<open>Who owns a phone\<close>

definition call_owner :: "endpoint_registry \<Rightarrow> string \<Rightarrow> string option" where
  "call_owner reg i =
     (case get_endpoint reg i of
        Some e \<Rightarrow> if pe_active_call_id e = [] then None else Some (pe_active_call_id e)
      | None \<Rightarrow> None)"

lemma call_owner_key: "reg_key i = reg_key j \<Longrightarrow> call_owner reg i = call_owner reg j"
  by (simp add: call_owner_def get_endpoint_def)

lemma replace_active_get:
  assumes "registry_ok reg" "get_endpoint reg i = Some e" "replace_active reg e c = Inr (reg', r)"
  shows "get_endpoint reg' j =
    (if reg_key j = reg_key i then Some (e\<lparr> pe_active_call_id := strip c \<rparr>) else get_endpoint reg j)"
  using assms(3) replace_active_eq [of e reg c] get_endpoint_props [OF assms(1,2)]
  by (auto simp: get_store)

lemma replace_active_owner:
  assumes "registry_ok reg" "get_endpoint reg i = Some e" "replace_active reg e c = Inr (reg', r)"
  shows "call_owner reg' j =
    (if reg_key j = reg_key i then (if strip c = [] then None else Some (strip c)) else call_owner reg j)"
  by (simp add: call_owner_def replace_active_get [OF assms])

lemma claim_owner:
  assumes "registry_ok reg" "claim_call reg i c = Inr (reg', r)"
  shows "call_owner reg' j = (if reg_key j = reg_key i then Some (strip c) else call_owner reg j)"
    and "call_owner reg i \<in> {None, Some (strip c)}"
proof -
  obtain e where c: "strip c \<noteq> []" and e: "get_endpoint reg i = Some e"
    and st: "(if pe_active_call_id e \<noteq> [] then
          (if pe_active_call_id e = strip c then Inr (reg, e)
           else Inl (EndpointBusy (pe_id e) (pe_active_call_id e) (strip c)))
        else replace_active reg e (strip c)) = Inr (reg', r)"
    using assms(2) by (auto simp: claim_call_def Let_def bindE_eq_Inr require_Inr split: if_splits)
  show "call_owner reg' j = (if reg_key j = reg_key i then Some (strip c) else call_owner reg j)"
  proof (cases "pe_active_call_id e = []")
    case True
    then have "replace_active reg e (strip c) = Inr (reg', r)" using st by simp
    from replace_active_owner [OF assms(1) e this] show ?thesis
      using c by simp
  next
    case False
    then have "reg' = reg" "pe_active_call_id e = strip c"
      using st by (auto split: if_splits)
    then show ?thesis
      using e c call_owner_key [of j i reg] by (auto simp: call_owner_def)
  qed
  show "call_owner reg i \<in> {None, Some (strip c)}"
    using st e by (auto simp: call_owner_def split: if_splits)
qed

lemma release_owner:
  assumes "registry_ok reg" "release_call reg i c = Inr (reg', b)"
  shows "call_owner reg' j =
    (if reg_key j = reg_key i \<and> call_owner reg i = Some (strip c) then None else call_owner reg j)"
proof -
  obtain e where e: "get_endpoint reg i = Some e"
    and st: "(if pe_active_call_id e = [] \<or> pe_active_call_id e \<noteq> strip c then Inr (reg, False)
        else bindE (replace_active reg e []) (\<lambda>(reg1, _). Inr (reg1, True))) = Inr (reg', b)"
    using assms(2) by (auto simp: release_call_def Let_def bindE_eq_Inr require_Inr)
  show ?thesis
  proof (cases "pe_active_call_id e = [] \<or> pe_active_call_id e \<noteq> strip c")
    case True
    then show ?thesis
      using st e by (auto simp: call_owner_def)
  next
    case False
    then obtain r where "replace_active reg e [] = Inr (reg', r)"
      using st by (auto simp: bindE_eq_Inr)
    from replace_active_owner [OF assms(1) e this] show ?thesis
      using False e by (auto simp: call_owner_def)
  qed
qed

lemma store_owner:
  "call_owner (emit_event t e p (store_endpoint (reg_key (pe_id e)) e reg)) j =
    (if reg_key j = reg_key (pe_id e)
     then (if pe_active_call_id e = [] then None else Some (pe_active_call_id e)) else call_owner reg j)"
  by (simp add: call_owner_def get_store)

lemma register_owner:
  assumes "register_endpoint reg e = Inr (reg', r)" "call_owner reg j = Some c"
  shows "call_owner reg' j = Some c"
proof -
  have new: "assoc (er_endpoints reg) (reg_key (pe_id e)) = None"
    and r: "reg' = emit_event REGISTERED e None (store_endpoint (reg_key (pe_id e)) e reg)"
    using assms(1) by (auto simp: register_endpoint_def Let_def bindE_eq_Inr split: option.splits)
  then have "reg_key j \<noteq> reg_key (pe_id e)"
    using assms(2) by (auto simp: call_owner_def get_endpoint_def)
  with assms(2) show ?thesis
    by (simp add: r store_owner)
qed

lemma upsert_owner:
  assumes "upsert_endpoint reg e = Inr (reg', r)" "call_owner reg j = Some c"
  shows "call_owner reg' j = Some c"
proof -
  let ?p = "assoc (er_endpoints reg) (reg_key (pe_id e))"
  have r: "reg' = reg \<or> (\<exists>t. reg' = emit_event t e ?p (store_endpoint (reg_key (pe_id e)) e reg))"
    using assms(1) by (auto simp: upsert_endpoint_def Let_def bindE_eq_Inr split: if_splits)
  have keep: "pe_active_call_id e = pe_active_call_id p"
    if "?p = Some p" "pe_active_call_id p \<noteq> []" for p
    using assms(1) that by (auto simp: upsert_endpoint_def Let_def bindE_eq_Inr split: if_splits)
  have "pe_active_call_id e = c \<and> c \<noteq> []" if "reg_key j = reg_key (pe_id e)"
    using assms(2) that keep by (auto simp: call_owner_def get_endpoint_def split: option.splits if_splits)
  with r assms(2) show ?thesis
    by (auto simp: store_owner)
qed

lemma update_owner:
  assumes "update_endpoint reg i changes = Inr (reg', r)" "call_owner reg j = Some c"
  shows "call_owner reg' j = Some c"
proof -
  obtain p where "bindE (lift_exn (make_endpoint (foldl apply_change (raw_of p) changes))) (upsert_endpoint reg)
      = Inr (reg', r)"
    using assms(1) by (auto simp: update_endpoint_def bindE_eq_Inr split: if_splits)
  then show ?thesis
    using upsert_owner assms(2) by (auto simp: bindE_eq_Inr)
qed

lemma assoc_filter_other: "k' \<noteq> k \<Longrightarrow> assoc (filter (\<lambda>(a, _). a \<noteq> k) md) k' = assoc md k'"
  by (induction md) auto

lemma remove_owner:
  assumes "registry_ok reg" "remove_endpoint reg i force = Inr (reg', r)" "call_owner reg j = Some c"
  shows "call_owner reg' j = Some c \<or> (force \<and> reg_key i = reg_key j)"
proof -
  obtain e where e: "get_endpoint reg i = Some e" and idle: "pe_active_call_id e = [] \<or> force"
    and r: "reg' = emit_event REMOVED e (Some e) (rebuild_indexes (reg\<lparr> er_endpoints :=
               filter (\<lambda>(k, _). k \<noteq> reg_key (pe_id e)) (er_endpoints reg) \<rparr>))"
    using assms(2) by (auto simp: remove_endpoint_def Let_def bindE_eq_Inr require_Inr split: if_splits)
  have k: "reg_key (pe_id e) = reg_key i"
    using get_endpoint_props [OF assms(1) e] by simp
  show ?thesis
  proof (cases "reg_key j = reg_key i")
    case True
    then have "get_endpoint reg j = Some e"
      using e by (simp add: get_endpoint_def)
    then show ?thesis
      using True idle assms(3) by (auto simp: call_owner_def)
  next
    case False
    then have "get_endpoint reg' j = get_endpoint reg j"
      by (simp add: r k get_endpoint_def assoc_filter_other)
    then show ?thesis
      using assms(3) by (simp add: call_owner_def)
  qed
qed

lemma sync_owner:
  assumes "registry_ok reg" "sync_transport_call reg i active f = Inr (reg', r)" "call_owner reg j = Some c"
  shows "call_owner reg' j = Some c \<or> (\<not> active \<and> reg_key i = reg_key j)"
proof -
  obtain e where e: "get_endpoint reg i = Some e"
    using assms(2) by (auto simp: sync_transport_call_def bindE_eq_Inr require_Inr)
  note p = get_endpoint_props [OF assms(1) e]
  show ?thesis
  proof (cases active)
    case True
    then have cl: "claim_call reg (pe_id e) (or_else (pe_active_call_id e) (strip f)) = Inr (reg', r)"
      using assms(2) e by (auto simp: sync_transport_call_def require_endpoint_def Let_def split: if_splits)
    note o = claim_owner [OF assms(1) cl]
    have "call_owner reg (pe_id e) = call_owner reg i"
      using call_owner_key p(2) by blast
    then show ?thesis
      using o assms(3) call_owner_key [of j i reg] p(2) by auto
  next
    case False
    show ?thesis
    proof (cases "pe_active_call_id e = []")
      case True
      then have "reg' = reg"
        using assms(2) e False by (auto simp: sync_transport_call_def bindE_eq_Inr require_endpoint_def split: option.splits)
      then show ?thesis using assms(3) by simp
    next
      case act: False
      then obtain b where "release_call reg (pe_id e) (pe_active_call_id e) = Inr (reg', b)"
        using assms(2) e False by (auto simp: sync_transport_call_def bindE_eq_Inr require_Inr)
      from release_owner [OF assms(1) this, of j] show ?thesis
        using assms(3) False p(2) by auto
    qed
  qed
qed

lemma adopt_owner:
  assumes "registry_ok reg" "adopt_transport_call reg i d pfx = Inr (reg', r)" "call_owner reg j = Some c"
  shows "call_owner reg' j = Some c \<or>
    (reg_key i = reg_key j \<and> startswith c (or_else pfx ''physical:''))"
proof -
  obtain e where e: "get_endpoint reg i = Some e" and st: "(if pe_active_call_id e = [] then claim_call reg (pe_id e) (strip d)
        else if pe_active_call_id e = strip d then Inr (reg, e)
        else if startswith (pe_active_call_id e) (or_else pfx ''physical:'')
          then replace_active reg e (strip d)
        else Inl (EndpointBusy (pe_id e) (pe_active_call_id e) (strip d))) = Inr (reg', r)"
    using assms(2) by (auto simp: adopt_transport_call_def Let_def bindE_eq_Inr require_Inr split: if_splits)
  note p = get_endpoint_props [OF assms(1) e]
  consider (claim) "pe_active_call_id e = []" "claim_call reg (pe_id e) (strip d) = Inr (reg', r)"
    | (same) "reg' = reg"
    | (adopt) "pe_active_call_id e \<noteq> []" "startswith (pe_active_call_id e) (or_else pfx ''physical:'')"
        "replace_active reg e (strip d) = Inr (reg', r)"
    using st by (auto split: if_splits)
  then show ?thesis
  proof cases
    case claim
    have "call_owner reg i = None"
      using e claim(1) by (simp add: call_owner_def)
    then have "reg_key j \<noteq> reg_key i"
      using assms(3) call_owner_key [of j i reg] by auto
    then show ?thesis
      using claim_owner(1) [OF assms(1) claim(2)] assms(3) p(2) by simp
  next
    case same
    then show ?thesis using assms(3) by simp
  next
    case adopt
    from replace_active_owner [OF assms(1) e adopt(3), of j] show ?thesis
      using assms(3) adopt(1,2) e call_owner_key [of j i reg] by (auto simp: call_owner_def)
  qed
qed

text \<open>C31: A claimed phone stays with its call: through every operation a phone that call c owns remains
  owned by c, except when c itself is released on it, when the physical phone reports a terminal state,
  when the phone is removed by force, or when a provisional transport token is replaced by the call that
  adopts it.\<close>

theorem claim_is_kept:
  assumes "registry_reachable reg" and "registry_step reg op reg'" and "call_owner reg i = Some c"
  shows "call_owner reg' i = Some c \<or>
    (\<exists>j. reg_key j = reg_key i \<and>
      ((\<exists>d. op = R_release j d \<and> strip d = c) \<or> (\<exists>f. op = R_sync j False f) \<or> op = R_remove j True \<or>
       (\<exists>d pfx. op = R_adopt j d pfx \<and> startswith c (or_else pfx ''physical:''))))"
  using assms(2)
proof (cases rule: registry_step.cases)
  case (step_register raw e r)
  then show ?thesis using register_owner assms(3) by blast
next
  case (step_upsert raw e r)
  then show ?thesis using upsert_owner assms(3) by blast
next
  case (step_update i changes r)
  then show ?thesis using update_owner assms(3) by blast
next
  case (step_remove j force r)
  then show ?thesis using remove_owner [OF reachable_ok [OF assms(1)] step_remove(2) assms(3)] by (cases force) auto
next
  case (step_claim j d r)
  then show ?thesis
    using claim_owner [OF reachable_ok [OF assms(1)] step_claim(2)] assms(3) call_owner_key [of i j reg] by auto
next
  case (step_release j d b)
  then show ?thesis
    using release_owner [OF reachable_ok [OF assms(1)] step_release(2), of i] assms(3)
      call_owner_key [of i j reg] by auto
next
  case (step_sync j active f r)
  then show ?thesis using sync_owner [OF reachable_ok [OF assms(1)] step_sync(2) assms(3)] by (cases active) auto
next
  case (step_adopt j d pfx r)
  then show ?thesis using adopt_owner [OF reachable_ok [OF assms(1)] step_adopt(2) assms(3)] by auto
qed

section \<open>The claim interface\<close>

text \<open>What the call registry relies on: \<open>claim\<close> gives a phone to a call or refuses, \<open>release\<close>
  takes it back from that call only, and neither touches other phones.\<close>

locale call_claims =
  fixes ok :: "'s \<Rightarrow> bool" and key :: "string \<Rightarrow> string"
    and claim :: "'s \<Rightarrow> string \<Rightarrow> string \<Rightarrow> 's option"
    and release :: "'s \<Rightarrow> string \<Rightarrow> string \<Rightarrow> 's option"
    and owner :: "'s \<Rightarrow> string \<Rightarrow> string option"
  assumes claim_keeps_ok: "ok s \<Longrightarrow> claim s x c = Some s' \<Longrightarrow> ok s'"
    and claim_sets: "ok s \<Longrightarrow> claim s x c = Some s' \<Longrightarrow>
      owner s' y = (if key y = key x then Some (strip c) else owner s y)"
    and claim_needs: "ok s \<Longrightarrow> claim s x c = Some s' \<Longrightarrow> owner s x \<in> {None, Some (strip c)}"
    and release_keeps_ok: "ok s \<Longrightarrow> release s x c = Some s' \<Longrightarrow> ok s'"
    and release_sets: "ok s \<Longrightarrow> release s x c = Some s' \<Longrightarrow>
      owner s' y = (if key y = key x \<and> owner s x = Some (strip c) then None else owner s y)"
    and release_unknown: "ok s \<Longrightarrow> release s x c = None \<Longrightarrow> owner s x = None"
    and owner_key: "key x = key y \<Longrightarrow> owner s x = owner s y"
begin

lemma claim_excludes:
  assumes "ok s" "claim s x c = Some s'" "key y = key x" "strip d \<noteq> strip c"
  shows "claim s' y d = None"
proof (rule ccontr)
  assume "claim s' y d \<noteq> None"
  then obtain s'' where "claim s' y d = Some s''" by blast
  then have "owner s' y \<in> {None, Some (strip d)}"
    using claim_needs claim_keeps_ok assms(1,2) by blast
  then show False
    using claim_sets [OF assms(1,2), of y] assms(3,4) by simp
qed

lemma claim_release:
  assumes "ok s" "claim s x c = Some s1" "release s1 x c = Some s2"
  shows "owner s2 y = (if key y = key x then None else owner s y)"
  using claim_sets [OF assms(1,2)] release_sets [OF claim_keeps_ok [OF assms(1,2)] assms(3)] by simp

lemma stale_release:
  assumes "ok s" "owner s x = Some c" "strip d \<noteq> c" "release s x d = Some s'"
  shows "owner s' y = owner s y"
  using release_sets [OF assms(1,4), of y] assms(2,3) by auto

text \<open>Releasing a list of phones, those that are no longer known being passed over.\<close>

lemma release_list_ok:
  "ok s \<Longrightarrow> ok (foldl (\<lambda>s x. case release s x c of Some s' \<Rightarrow> s' | None \<Rightarrow> s) s xs)"
  by (induction xs arbitrary: s) (auto intro: release_keeps_ok split: option.split)

lemma release_list_owner:
  "ok s \<Longrightarrow> owner (foldl (\<lambda>s x. case release s x c of Some s' \<Rightarrow> s' | None \<Rightarrow> s) s xs) y =
    (if owner s y = Some (strip c) \<and> key y \<in> key ` set xs then None else owner s y)"
proof (induction xs arbitrary: s)
  case (Cons x xs)
  show ?case
  proof (cases "release s x c")
    case None
    then have "owner s x = None"
      using release_unknown Cons.prems by blast
    then have "key y = key x \<Longrightarrow> owner s y = None"
      using owner_key [of y x s] by simp
    then show ?thesis
      using Cons None by auto
  next
    case (Some s')
    then show ?thesis
      using Cons.IH [OF release_keeps_ok [OF Cons.prems Some]] release_sets [OF Cons.prems Some, of y]
        owner_key [of y x s] by auto
  qed
qed simp

end

definition claim_opt :: "endpoint_registry \<Rightarrow> string \<Rightarrow> string \<Rightarrow> endpoint_registry option" where
  "claim_opt reg i c = (case claim_call reg i c of Inr (reg', _) \<Rightarrow> Some reg' | Inl _ \<Rightarrow> None)"

definition release_opt :: "endpoint_registry \<Rightarrow> string \<Rightarrow> string \<Rightarrow> endpoint_registry option" where
  "release_opt reg i c = (case release_call reg i c of Inr (reg', _) \<Rightarrow> Some reg' | Inl _ \<Rightarrow> None)"

lemma claim_opt_Some: "claim_opt reg i c = Some reg' \<longleftrightarrow> (\<exists>r. claim_call reg i c = Inr (reg', r))"
  by (auto simp: claim_opt_def split: sum.splits prod.splits)

lemma release_opt_Some: "release_opt reg i c = Some reg' \<longleftrightarrow> (\<exists>b. release_call reg i c = Inr (reg', b))"
  by (auto simp: release_opt_def split: sum.splits prod.splits)

lemma release_opt_None:
  "registry_ok reg \<Longrightarrow> release_opt reg i c = None \<Longrightarrow> get_endpoint reg i = None"
proof (rule ccontr)
  assume ok: "registry_ok reg" and n: "release_opt reg i c = None" and "get_endpoint reg i \<noteq> None"
  then obtain e where e: "get_endpoint reg i = Some e" by blast
  then show False
    using n get_endpoint_props(3) [OF ok e] replace_active_eq [of e reg "[]"]
    by (auto simp: release_opt_def release_call_def require_endpoint_def Let_def split: if_splits)
qed

interpretation phone_claims: call_claims registry_ok reg_key claim_opt release_opt call_owner
proof
  show "registry_ok s'" if "registry_ok s" "claim_opt s x c = Some s'" for s x c s'
    using that claim_ok by (auto simp: claim_opt_Some)
  show "call_owner s' y = (if reg_key y = reg_key x then Some (strip c) else call_owner s y)"
    if "registry_ok s" "claim_opt s x c = Some s'" for s x c s' y
    using that claim_owner(1) by (auto simp: claim_opt_Some)
  show "call_owner s x \<in> {None, Some (strip c)}" if "registry_ok s" "claim_opt s x c = Some s'" for s x c s'
    using that claim_owner(2) unfolding claim_opt_Some by blast
  show "registry_ok s'" if "registry_ok s" "release_opt s x c = Some s'" for s x c s'
    using that release_ok by (auto simp: release_opt_Some)
  show "call_owner s' y = (if reg_key y = reg_key x \<and> call_owner s x = Some (strip c) then None else call_owner s y)"
    if "registry_ok s" "release_opt s x c = Some s'" for s x c s' y
    using that release_owner by (auto simp: release_opt_Some)
  show "call_owner s x = None" if "registry_ok s" "release_opt s x c = None" for s x c
    using release_opt_None [OF that] by (simp add: call_owner_def)
  show "call_owner s x = call_owner s y" if "reg_key x = reg_key y" for s x y
    using call_owner_key that by blast
qed

text \<open>A phone serves one call at a time: after a call has claimed it, under whatever spelling of
  its identifier, the claim of another call is refused as busy and changes nothing, and releasing it for
  another call changes no owner.\<close>

lemma claim_is_exclusive:
  assumes "registry_reachable reg" and "claim_call reg i c = Inr (reg1, e)"
    and "reg_key j = reg_key i" and "strip d \<noteq> strip c" and "strip d \<noteq> []"
  shows "claim_call reg1 j d = Inl (EndpointBusy (pe_id e) (strip c) (strip d)) \<and>
    (\<exists>reg2 b. release_call reg1 j d = Inr (reg2, b) \<and> call_owner reg2 i = Some (strip c))"
proof -
  note ok = reachable_ok [OF assms(1)]
  have c1: "claim_opt reg i c = Some reg1"
    using assms(2) by (auto simp: claim_opt_Some)
  note ok1 = phone_claims.claim_keeps_ok [OF ok c1]
  have own: "call_owner reg1 i = Some (strip c)" "call_owner reg1 j = Some (strip c)"
    using phone_claims.claim_sets [OF ok c1] assms(3) by simp_all
  then obtain e' where e': "get_endpoint reg1 j = Some e'" "pe_active_call_id e' = strip c" "strip c \<noteq> []"
    by (auto simp: call_owner_def split: option.splits if_splits)
  have "pe_id e' = pe_id e"
  proof -
    obtain e0 where e0: "get_endpoint reg i = Some e0"
      and st: "claim_call reg i c = (if pe_active_call_id e0 \<noteq> [] then
          (if pe_active_call_id e0 = strip c then Inr (reg, e0)
           else Inl (EndpointBusy (pe_id e0) (pe_active_call_id e0) (strip c)))
        else replace_active reg e0 (strip c))"
      using assms(2) e'(3) by (auto simp: claim_call_def Let_def require_endpoint_def split: option.splits)
    have "pe_id e = pe_id e0"
      using assms(2) st replace_active_eq [OF get_endpoint_props(3) [OF ok e0], of reg "strip c"]
      by (auto split: if_splits)
    moreover have "pe_id e' = pe_id e0"
      using assms(2) st replace_active_get [OF ok e0, of "strip c" reg1] e'(1) e0 assms(3)
      by (auto simp: get_endpoint_def split: if_splits)
    ultimately show ?thesis by simp
  qed
  then have "claim_call reg1 j d = Inl (EndpointBusy (pe_id e) (strip c) (strip d))"
    using e' assms(4,5) by (auto simp: claim_call_def require_endpoint_def)
  moreover obtain reg2 b where r: "release_call reg1 j d = Inr (reg2, b)"
    using release_opt_None [OF ok1, of j d] e'(1) by (cases "release_call reg1 j d") (auto simp: release_opt_def)
  then have "call_owner reg2 i = Some (strip c)"
    using phone_claims.stale_release [OF ok1 own(2) assms(4), of reg2 i] own(1) by (auto simp: release_opt_Some)
  ultimately show ?thesis
    using r by blast
qed

section \<open>Examples\<close>

definition example_raw :: raw_endpoint where
  "example_raw = \<lparr> raw_id = ''p1'', raw_name = ''K'', raw_kind = ''browser'', raw_extension = ''12'',
     raw_username = [], raw_device_id = ''d'', raw_entity_ids = [], raw_availability = ''available'',
     raw_capabilities = [], raw_dnd = MBool False, raw_auto_answer = MStr ''no'',
     raw_send_video = MInt 0, raw_offline_policy = ''unavailable'', raw_ring_group = [],
     raw_conference_group = [], raw_conference_ring = MBool False, raw_offline_forward_target = [],
     raw_active_call_id = [] \<rparr>"

definition example_phone :: phone_endpoint where
  "example_phone = \<lparr> pe_id = ''p1'', pe_name = ''K'', pe_kind = BROWSER, pe_extension = ''12'',
     pe_username = [], pe_device_id = ''d'', pe_entity_ids = [], pe_availability = AVAILABLE,
     pe_capabilities = [], pe_dnd = False, pe_auto_answer = False, pe_send_video = False,
     pe_offline_policy = POLICY_UNAVAILABLE, pe_ring_group = [], pe_conference_group = [],
     pe_conference_ring = False, pe_offline_forward_target = [], pe_active_call_id = [] \<rparr>"

lemma example_made: "make_endpoint example_raw = Inr example_phone"
  by code_simp

definition example_registry :: endpoint_registry where
  "example_registry = emit_event REGISTERED example_phone None
     (store_endpoint (reg_key (pe_id example_phone)) example_phone empty_registry)"

lemma example_registered:
  "register_endpoint empty_registry example_phone = Inr (example_registry, example_phone)"
  by (simp add: register_endpoint_def example_registry_def Let_def empty_registry_def validate_endpoint_def
      validate_key_def example_phone_def)

lemma example_reachable: "registry_reachable example_registry"
  by (rule reach_step [OF reach_empty step_register [OF example_made example_registered]])

lemma example_endpoints: "er_endpoints example_registry = [(reg_key ''p1'', example_phone)]"
  by (simp add: example_registry_def store_endpoint_def empty_registry_def example_phone_def)

theorem registered_phone_is_found_witness:
  "lookup_in example_registry L_EXTENSION ''12'' = Some example_phone \<and>
   lookup_in example_registry L_NAME ''K'' = Some example_phone"
proof -
  have n: "normalize_roster_key ''12'' \<noteq> []" "normalize_roster_key ''K'' \<noteq> []"
    by code_simp+
  have "example_phone \<in> snd ` set (er_endpoints example_registry)"
    by (simp add: example_endpoints)
  from registered_phone_is_found [OF example_reachable this] show ?thesis
    using n by (simp add: example_phone_def)
qed

definition claimed_registry :: endpoint_registry where
  "claimed_registry = emit_event UPDATED (example_phone\<lparr> pe_active_call_id := ''c1'' \<rparr>) (Some example_phone)
     (store_endpoint (reg_key ''p1'') (example_phone\<lparr> pe_active_call_id := ''c1'' \<rparr>) example_registry)"

lemma example_claimed:
  "claim_call example_registry '' P1'' ''c1'' = Inr (claimed_registry, example_phone\<lparr> pe_active_call_id := ''c1'' \<rparr>)"
proof -
  have s: "strip ''c1'' = ''c1''" "reg_key '' P1'' = reg_key ''p1''"
    by code_simp+
  have "get_endpoint example_registry '' P1'' = Some example_phone"
    by (simp add: get_endpoint_def example_endpoints s)
  moreover have "pe_active_call_id example_phone = []" "pe_id example_phone = ''p1''"
    by (simp_all add: example_phone_def)
  ultimately show ?thesis
    using replace_active_eq [OF make_endpoint_ok [OF example_made], of example_registry "''c1''"]
    by (simp add: claim_call_def require_endpoint_def claimed_registry_def s Let_def)
qed

lemma claimed_reachable: "registry_reachable claimed_registry"
  by (rule reach_step [OF example_reachable step_claim [OF example_claimed]])

lemma claimed_owner: "call_owner claimed_registry ''p1'' = Some ''c1''"
  by (simp add: call_owner_def claimed_registry_def get_store)

theorem claim_is_kept_witness:
  "\<exists>reg. registry_step claimed_registry (R_release ''p1'' ''c2'') reg \<and> call_owner reg ''p1'' = Some ''c1''"
proof -
  have s: "strip ''c2'' = ''c2''"
    by code_simp
  obtain reg b where "release_call claimed_registry ''p1'' ''c2'' = Inr (reg, b)"
    using release_opt_None [OF reachable_ok [OF claimed_reachable], of "''p1''" "''c2''"] claimed_owner
    by (cases "release_call claimed_registry ''p1'' ''c2''") (auto simp: release_opt_def call_owner_def)
  then have st: "registry_step claimed_registry (R_release ''p1'' ''c2'') reg"
    by (rule step_release)
  from claim_is_kept [OF claimed_reachable st claimed_owner] show ?thesis
    using st s by auto
qed

lemma claim_is_exclusive_example:
  "claim_call claimed_registry ''p1'' ''c2'' = Inl (EndpointBusy ''p1'' ''c1'' ''c2'')"
proof -
  have s: "strip ''c2'' = ''c2''" "strip ''c1'' = ''c1''" "reg_key ''p1'' = reg_key '' P1''"
    by code_simp+
  from claim_is_exclusive [OF example_reachable example_claimed s(3), of "''c2''"] show ?thesis
    by (simp add: s(1,2) example_phone_def)
qed

end
