(* ===== verification/Dial_Groups.thy ===== *)
theory Dial_Groups
  imports Roster
begin

text \<open>
  \<open>custom_components/voip_stack/groups.py\<close> and the peer snapshot of \<open>peer.py\<close>: the dial groups
  that phones and phonebook entries declare.

  The dictionary of groups is an association list in insertion order; a group is changed in place.
\<close>

section \<open>Peers and groups\<close>

record peer =
  pr_name :: string
  pr_host :: string
  pr_endpoint_id :: string
  pr_is_ha :: bool
  pr_extension :: string
  pr_conference_group :: string
  pr_conference_ring :: bool
  pr_ring_group :: string
  pr_tx_formats :: "string list"
  pr_rx_formats :: "string list"

datatype group_type = GROUP_TYPE_CONFERENCE | GROUP_TYPE_RING

record group_def =
  gr_name :: string
  gr_type :: group_type
  gr_members :: "string list"
  gr_ring_members :: "string list"
  gr_auto :: bool

type_synonym groups = "(string \<times> group_def) list"

definition append_unique :: "string \<Rightarrow> string list \<Rightarrow> string list" where
  "append_unique member members =
     (if member \<noteq> [] \<and> member \<notin> set members then members @ [member] else members)"

definition append_member :: "group_def \<Rightarrow> string \<Rightarrow> group_def" where
  "append_member g member = g\<lparr> gr_members := append_unique member (gr_members g) \<rparr>"

definition append_ring_member :: "group_def \<Rightarrow> string \<Rightarrow> group_def" where
  "append_ring_member g member =
     (append_member g member)\<lparr> gr_ring_members := append_unique member (gr_ring_members g) \<rparr>"

definition metadata_bool :: "mval \<Rightarrow> bool" where
  "metadata_bool value =
     (case value of
        MBool b \<Rightarrow> b
      | _ \<Rightarrow> lower (strip (mtext value)) \<in> {''1'', ''true'', ''yes'', ''on''})"

section \<open>Declarations\<close>

definition declare_group :: "groups \<Rightarrow> string \<Rightarrow> group_type \<Rightarrow> string \<Rightarrow> bool \<Rightarrow> groups" where
  "declare_group groups name group_type member ring =
     (let group_name = strip name; add = (if ring then append_ring_member else append_member) in
      if group_name = [] \<or> member = [] then groups
      else
      let key = normalize_roster_key group_name in
      case assoc groups key of
        None \<Rightarrow>
          md_set groups key
            (add \<lparr> gr_name = group_name, gr_type = group_type, gr_members = [],
                   gr_ring_members = [], gr_auto = True \<rparr> member)
      | Some existing \<Rightarrow>
          if gr_type existing \<noteq> group_type then
            (if gr_type existing \<noteq> GROUP_TYPE_CONFERENCE \<and> group_type = GROUP_TYPE_CONFERENCE then
               let cleared = existing\<lparr> gr_type := GROUP_TYPE_CONFERENCE, gr_members := [], gr_ring_members := [] \<rparr>
               in md_set groups key (add (foldl append_ring_member cleared (gr_members existing)) member)
             else groups)
          else md_set groups key (add existing member))"

definition group_names :: "string \<Rightarrow> string list" where
  "group_names value = foldl (\<lambda>names raw. append_unique (strip raw) names) [] (split_on (CHR '','') value)"

text \<open>A declaration: name, type, member, whether the member is rung.\<close>

type_synonym group_decl = "string \<times> group_type \<times> string \<times> bool"

definition run_declaration :: "groups \<Rightarrow> group_decl \<Rightarrow> groups" where
  "run_declaration gs d = (case d of (name, t, member, ring) \<Rightarrow> declare_group gs name t member ring)"

definition run_declarations :: "groups \<Rightarrow> group_decl list \<Rightarrow> groups" where
  "run_declarations groups ds = foldl run_declaration groups ds"

definition peer_declarations :: "peer \<Rightarrow> group_decl list" where
  "peer_declarations p =
     (let member = strip (pr_name p) in
      map (\<lambda>name. (name, GROUP_TYPE_CONFERENCE, member, pr_conference_ring p))
        (group_names (pr_conference_group p))
      @ map (\<lambda>name. (name, GROUP_TYPE_RING, member, False)) (group_names (pr_ring_group p)))"

definition entry_group :: "roster_entry \<Rightarrow> string \<Rightarrow> string" where
  "entry_group e key = strip (mtext (mget (re_metadata e) key))"

definition entry_declarations :: "roster_entry \<Rightarrow> group_decl list" where
  "entry_declarations e =
     (let member = or_else (re_id e) (re_name e) in
      map (\<lambda>name. (name, GROUP_TYPE_CONFERENCE, member,
               metadata_bool (mget (re_metadata e) ''conference_ring'')))
        (group_names (entry_group e ''conference_group''))
      @ map (\<lambda>name. (name, GROUP_TYPE_RING, member, False)) (group_names (entry_group e ''ring_group'')))"

text \<open>All declarations in the order of \<open>collect_groups\<close>: the phones that are not Home Assistant, the
  manual and the registered entries, Home Assistant itself.\<close>

definition all_declarations ::
  "peer list \<Rightarrow> roster_entry list \<Rightarrow> roster_entry list \<Rightarrow> group_decl list" where
  "all_declarations peers manual_entries registered_entries =
     concat (map peer_declarations (filter (\<lambda>p. \<not> pr_is_ha p) peers))
     @ concat (map entry_declarations (manual_entries @ registered_entries))
     @ concat (map peer_declarations (filter pr_is_ha peers))"

definition reserved_keys :: "roster_entry list \<Rightarrow> string list" where
  "reserved_keys existing_entries =
     filter (\<lambda>k. k \<noteq> [])
       (map (\<lambda>e. normalize_roster_key (re_id e)) existing_entries
        @ map (\<lambda>e. normalize_roster_key (re_name e)) existing_entries)"

definition collect_groups ::
  "peer list \<Rightarrow> roster_entry list \<Rightarrow> roster_entry list \<Rightarrow> roster_entry list \<Rightarrow> groups" where
  "collect_groups peers manual_entries registered_entries existing_entries =
     (let groups = run_declarations [] (all_declarations peers manual_entries registered_entries);
          kept = filter (\<lambda>(k, _). k \<notin> set (reserved_keys existing_entries)) groups
      in foldl (\<lambda>out (_, g). md_set out (gr_name g) g) [] kept)"

section \<open>Well-formed groups\<close>

definition group_ok :: "string \<Rightarrow> group_def \<Rightarrow> bool" where
  "group_ok key g \<longleftrightarrow>
     key = normalize_roster_key (gr_name g) \<and> gr_name g \<noteq> [] \<and> gr_members g \<noteq> [] \<and>
     distinct (gr_members g) \<and> distinct (gr_ring_members g) \<and> [] \<notin> set (gr_members g) \<and>
     set (gr_ring_members g) \<subseteq> set (gr_members g) \<and>
     (gr_type g = GROUP_TYPE_RING \<longrightarrow> gr_ring_members g = [])"

definition groups_ok :: "groups \<Rightarrow> bool" where
  "groups_ok gs \<longleftrightarrow> distinct (map fst gs) \<and> (\<forall>(k, g) \<in> set gs. group_ok k g)"

lemma append_unique_props:
  "set (append_unique m ms) = set ms \<union> ({m} - {[]})"
  "distinct ms \<Longrightarrow> distinct (append_unique m ms)"
  "append_unique m ms = [] \<longleftrightarrow> m = [] \<and> ms = []"
  by (auto simp: append_unique_def)

lemma foldl_append_ring_member:
  "gr_name (foldl append_ring_member g ms) = gr_name g"
  "gr_type (foldl append_ring_member g ms) = gr_type g"
  "set (gr_members (foldl append_ring_member g ms)) = set (gr_members g) \<union> (set ms - {[]})"
  "set (gr_ring_members (foldl append_ring_member g ms)) = set (gr_ring_members g) \<union> (set ms - {[]})"
  "distinct (gr_members g) \<Longrightarrow> distinct (gr_members (foldl append_ring_member g ms))"
  "distinct (gr_ring_members g) \<Longrightarrow> distinct (gr_ring_members (foldl append_ring_member g ms))"
  by (induction ms arbitrary: g)
    (auto simp: append_ring_member_def append_member_def append_unique_props)

lemma declare_ok:
  assumes "groups_ok gs" and "t = GROUP_TYPE_RING \<Longrightarrow> \<not> ring"
  shows "groups_ok (declare_group gs name t member ring)"
proof (cases "strip name = [] \<or> member = []")
  case True
  with assms(1) show ?thesis by (simp add: declare_group_def Let_def)
next
  case False
  let ?key = "normalize_roster_key (strip name)"
  let ?add = "if ring then append_ring_member else append_member"
  have d: "distinct (map fst gs)"
    using assms(1) by (simp add: groups_ok_def)
  have put: "groups_ok (md_set gs ?key g)" if "group_ok ?key g" for g
    using assms(1) that distinct_md_set [OF d]
    by (auto simp: groups_ok_def set_md_set [OF d])
  have add_ok: "group_ok k (?add g member)"
    if "group_ok k g \<or> (k = normalize_roster_key (gr_name g) \<and> gr_name g \<noteq> [] \<and> distinct (gr_members g) \<and>
        distinct (gr_ring_members g) \<and> [] \<notin> set (gr_members g) \<and>
        set (gr_ring_members g) \<subseteq> set (gr_members g) \<and>
        (gr_type g = GROUP_TYPE_RING \<longrightarrow> gr_ring_members g = []))"
      "gr_type g = t" for k g
    using that False assms(2)
    by (auto simp: group_ok_def append_ring_member_def append_member_def append_unique_props)
  show ?thesis
  proof (cases "assoc gs ?key")
    case None
    then have "declare_group gs name t member ring = md_set gs ?key
        (?add \<lparr> gr_name = strip name, gr_type = t, gr_members = [], gr_ring_members = [], gr_auto = True \<rparr> member)"
      using False by (simp add: declare_group_def Let_def)
    moreover have "group_ok ?key
        (?add \<lparr> gr_name = strip name, gr_type = t, gr_members = [], gr_ring_members = [], gr_auto = True \<rparr> member)"
      by (rule add_ok) (use False in auto)
    ultimately show ?thesis
      using put by simp
  next
    case (Some g)
    then have g: "group_ok ?key g"
      using assms(1) assoc_Some_in by (fastforce simp: groups_ok_def)
    let ?c = "foldl append_ring_member (g\<lparr> gr_type := GROUP_TYPE_CONFERENCE, gr_members := [],
        gr_ring_members := [] \<rparr>) (gr_members g)"
    consider "gr_type g = t"
      | "gr_type g \<noteq> t" "t = GROUP_TYPE_CONFERENCE"
      | "gr_type g \<noteq> t" "t \<noteq> GROUP_TYPE_CONFERENCE" by blast
    then show ?thesis
    proof cases
      case 1
      then show ?thesis
        using Some False put [OF add_ok [of ?key g]] g by (simp add: declare_group_def Let_def)
    next
      case 2
      have "group_ok ?key (?add ?c member)"
        by (rule add_ok) (use g 2 in \<open>auto simp: foldl_append_ring_member group_ok_def\<close>)
      then show ?thesis
        using Some False put 2 by (simp add: declare_group_def Let_def)
    next
      case 3
      then show ?thesis
        using Some False assms(1) by (auto simp: declare_group_def Let_def)
    qed
  qed
qed

lemma declare_irrelevant:
  "strip name = [] \<or> member = [] \<Longrightarrow> declare_group gs name t member ring = gs"
  by (simp add: declare_group_def Let_def)

text \<open>A declaration takes effect on the group with key \<open>k\<close>.\<close>

definition declares :: "string \<Rightarrow> group_decl \<Rightarrow> bool" where
  "declares k d =
     (case d of (name, t, member, ring) \<Rightarrow>
        strip name \<noteq> [] \<and> member \<noteq> [] \<and> normalize_roster_key (strip name) = k)"

definition declares_conference :: "string \<Rightarrow> group_decl \<Rightarrow> bool" where
  "declares_conference k d \<longleftrightarrow> declares k d \<and> fst (snd d) = GROUP_TYPE_CONFERENCE"

lemma run_declarations_snoc:
  "run_declarations gs (ds @ [d]) = run_declaration (run_declarations gs ds) d"
  by (simp add: run_declarations_def)

lemma gr_type_add [simp]:
  "gr_type ((if ring then append_ring_member else append_member) g m) = gr_type g"
  by (simp add: append_ring_member_def append_member_def)

lemma run_declaration_type:
  "map_option gr_type (assoc (run_declaration gs d) k) =
     (if \<not> declares k d then map_option gr_type (assoc gs k)
      else if fst (snd d) = GROUP_TYPE_CONFERENCE then Some GROUP_TYPE_CONFERENCE
      else Some (case assoc gs k of None \<Rightarrow> GROUP_TYPE_RING | Some g \<Rightarrow> gr_type g))"
proof -
  obtain name t member ring where d: "d = (name, t, member, ring)"
    by (cases d) auto
  show ?thesis
  proof (cases "strip name = [] \<or> member = []")
    case True
    then show ?thesis
      by (auto simp: d run_declaration_def declares_def declare_irrelevant)
  next
    case False
    let ?key = "normalize_roster_key (strip name)"
    show ?thesis
    proof (cases "assoc gs ?key")
      case None
      then show ?thesis
        using False
        by (cases t) (auto simp: d run_declaration_def declares_def declare_group_def Let_def assoc_md_set)
    next
      case (Some g)
      then show ?thesis
        using False
        by (cases t; cases "gr_type g")
          (auto simp: d run_declaration_def declares_def declare_group_def Let_def assoc_md_set
            foldl_append_ring_member)
    qed
  qed
qed

lemma run_declarations_type:
  "map_option gr_type (assoc (run_declarations [] ds) k) =
     (if list_ex (declares_conference k) ds then Some GROUP_TYPE_CONFERENCE
      else if list_ex (declares k) ds then Some GROUP_TYPE_RING
      else None)"
proof (induction ds rule: rev_induct)
  case Nil
  show ?case by (simp add: run_declarations_def)
next
  case (snoc d ds)
  let ?old = "assoc (run_declarations [] ds) k"
  have old: "(case ?old of None \<Rightarrow> GROUP_TYPE_RING | Some g \<Rightarrow> gr_type g) =
      (if list_ex (declares_conference k) ds then GROUP_TYPE_CONFERENCE else GROUP_TYPE_RING)"
    using snoc.IH by (cases ?old) (auto split: if_splits)
  show ?case
    unfolding run_declarations_snoc run_declaration_type old
    using snoc.IH by (auto simp: declares_conference_def list_ex_iff)
qed

text \<open>Which members a group has.\<close>

definition decl_members :: "string \<Rightarrow> group_decl list \<Rightarrow> string list" where
  "decl_members k ds = map (\<lambda>d. fst (snd (snd d))) (filter (declares k) ds)"

definition group_members_at :: "groups \<Rightarrow> string \<Rightarrow> string list" where
  "group_members_at gs k = (case assoc gs k of None \<Rightarrow> [] | Some g \<Rightarrow> gr_members g)"

lemma members_of_add [simp]:
  "set (gr_members ((if ring then append_ring_member else append_member) g m)) =
     set (gr_members g) \<union> ({m} - {[]})"
  by (simp add: append_ring_member_def append_member_def append_unique_props)

lemma run_declaration_members:
  assumes "groups_ok gs"
  shows "set (group_members_at (run_declaration gs d) k) =
     (if \<not> declares k d then set (group_members_at gs k)
      else if fst (snd d) = GROUP_TYPE_RING \<and> map_option gr_type (assoc gs k) = Some GROUP_TYPE_CONFERENCE
      then set (group_members_at gs k)
      else insert (fst (snd (snd d))) (set (group_members_at gs k)))"
proof -
  obtain name t member ring where d: "d = (name, t, member, ring)"
    by (cases d) auto
  show ?thesis
  proof (cases "strip name = [] \<or> member = []")
    case True
    then show ?thesis
      by (auto simp: d run_declaration_def declares_def declare_irrelevant)
  next
    case False
    let ?key = "normalize_roster_key (strip name)"
    show ?thesis
    proof (cases "assoc gs ?key")
      case None
      then show ?thesis
        using False
        by (cases t) (auto simp: d run_declaration_def declares_def declare_group_def Let_def assoc_md_set
            group_members_at_def)
    next
      case (Some g)
      then have "[] \<notin> set (gr_members g)"
        using assms assoc_Some_in by (fastforce simp: groups_ok_def group_ok_def)
      then show ?thesis
        using False Some
        by (cases t; cases "gr_type g")
          (auto simp: d run_declaration_def declares_def declare_group_def Let_def assoc_md_set
            group_members_at_def foldl_append_ring_member)
    qed
  qed
qed

text \<open>The declarations that count for a group: all of them until the first conference declaration, from
  then on those of a conference.\<close>

definition counted :: "string \<Rightarrow> group_decl list \<Rightarrow> group_decl list" where
  "counted k ds = takeWhile (\<lambda>d. \<not> declares_conference k d) ds @ filter (declares_conference k) ds"

lemma takeWhile_none: "\<not> list_ex P xs \<Longrightarrow> takeWhile (\<lambda>x. \<not> P x) xs = xs"
  by (simp add: takeWhile_eq_all_conv list_ex_iff)

lemma filter_none: "\<not> list_ex P xs \<Longrightarrow> filter P xs = []"
  by (simp add: list_ex_iff filter_empty_conv)

lemma takeWhile_some: "list_ex P xs \<Longrightarrow> takeWhile (\<lambda>x. \<not> P x) (xs @ ys) = takeWhile (\<lambda>x. \<not> P x) xs"
  by (auto simp: list_ex_iff)

lemma counted_snoc:
  "counted k (ds @ [d]) =
     (if declares_conference k d \<or> \<not> list_ex (declares_conference k) ds then counted k ds @ [d]
      else counted k ds)"
proof (cases "list_ex (declares_conference k) ds")
  case True
  then show ?thesis by (simp add: counted_def takeWhile_some)
next
  case False
  then have "takeWhile (\<lambda>d. \<not> declares_conference k d) (ds @ [d]) =
      ds @ takeWhile (\<lambda>d. \<not> declares_conference k d) [d]"
    by (intro takeWhile_append2) (auto simp: list_ex_iff)
  with False show ?thesis
    by (simp add: counted_def takeWhile_none filter_none)
qed

lemma decl_members_snoc:
  "set (decl_members k (ds @ [d])) =
     (if declares k d then insert (fst (snd (snd d))) (set (decl_members k ds)) else set (decl_members k ds))"
  by (simp add: decl_members_def)

definition ring_only_in_conference :: "group_decl \<Rightarrow> bool" where
  "ring_only_in_conference d = (case d of (name, t, member, ring) \<Rightarrow> t = GROUP_TYPE_RING \<longrightarrow> \<not> ring)"

lemma run_declaration_ok:
  "groups_ok gs \<Longrightarrow> ring_only_in_conference d \<Longrightarrow> groups_ok (run_declaration gs d)"
  by (cases d) (auto simp: run_declaration_def ring_only_in_conference_def intro!: declare_ok)

lemma run_declarations_ok:
  "groups_ok gs \<Longrightarrow> list_all ring_only_in_conference ds \<Longrightarrow> groups_ok (run_declarations gs ds)"
  by (induction ds arbitrary: gs) (simp_all add: run_declarations_def run_declaration_ok)

lemma run_declarations_members:
  "list_all ring_only_in_conference ds \<Longrightarrow>
   set (group_members_at (run_declarations [] ds) k) = set (decl_members k (counted k ds))"
proof (induction ds rule: rev_induct)
  case Nil
  show ?case by (simp add: run_declarations_def group_members_at_def decl_members_def counted_def)
next
  case (snoc d ds)
  have ok: "groups_ok (run_declarations [] ds)"
    using snoc.prems by (intro run_declarations_ok) (auto simp: groups_ok_def)
  have conf: "map_option gr_type (assoc (run_declarations [] ds) k) = Some GROUP_TYPE_CONFERENCE
      \<longleftrightarrow> list_ex (declares_conference k) ds"
    by (simp add: run_declarations_type)
  have IH: "set (group_members_at (run_declarations [] ds) k) = set (decl_members k (counted k ds))"
    using snoc by simp
  show ?case
    unfolding run_declarations_snoc run_declaration_members [OF ok] IH conf counted_snoc
    by (cases "fst (snd d)") (auto simp: decl_members_snoc declares_conference_def)
qed

lemma all_declarations_ring:
  "list_all ring_only_in_conference (all_declarations peers manual_entries registered_entries)"
  by (auto simp: all_declarations_def peer_declarations_def entry_declarations_def ring_only_in_conference_def
      list_all_iff Let_def)

text \<open>Who is rung in a conference: the members that ring declarations gave the group before it became one, and
  those whose conference declaration asks for it.\<close>

definition rung_members :: "string \<Rightarrow> group_decl list \<Rightarrow> string list" where
  "rung_members k ds =
     (if list_ex (declares_conference k) ds then
        decl_members k (takeWhile (\<lambda>d. \<not> declares_conference k d) ds)
        @ decl_members k (filter (\<lambda>d. declares_conference k d \<and> snd (snd (snd d))) ds)
      else [])"

definition ring_members_at :: "groups \<Rightarrow> string \<Rightarrow> string list" where
  "ring_members_at gs k = (case assoc gs k of None \<Rightarrow> [] | Some g \<Rightarrow> gr_ring_members g)"

lemma rung_of_add [simp]:
  "set (gr_ring_members ((if ring then append_ring_member else append_member) g m)) =
     set (gr_ring_members g) \<union> (if ring then {m} - {[]} else {})"
  by (simp add: append_ring_member_def append_member_def append_unique_props)

lemma foldl_append_rung:
  "[] \<notin> set ms \<Longrightarrow> set (gr_ring_members (foldl append_ring_member g ms)) = set (gr_ring_members g) \<union> set ms"
  by (induction ms arbitrary: g) (auto simp: append_ring_member_def append_member_def append_unique_props)

lemma run_declaration_rung:
  assumes "groups_ok gs" "ring_only_in_conference d"
  shows "set (ring_members_at (run_declaration gs d) k) =
     (if declares_conference k d
      then set (if map_option gr_type (assoc gs k) = Some GROUP_TYPE_RING then group_members_at gs k else ring_members_at gs k)
        \<union> (if snd (snd (snd d)) then {fst (snd (snd d))} else {})
      else set (ring_members_at gs k))"
proof -
  obtain name t member ring where d: "d = (name, t, member, ring)"
    by (cases d) auto
  show ?thesis
  proof (cases "strip name = [] \<or> member = []")
    case True
    then show ?thesis
      by (auto simp: d run_declaration_def declares_conference_def declares_def declare_irrelevant)
  next
    case False
    let ?key = "normalize_roster_key (strip name)"
    show ?thesis
    proof (cases "assoc gs ?key")
      case None
      then show ?thesis
        using False assms(2)
        by (cases t) (auto simp: d run_declaration_def declares_conference_def declares_def declare_group_def Let_def
            assoc_md_set ring_members_at_def group_members_at_def ring_only_in_conference_def append_member_def)
    next
      case (Some g)
      then have "group_ok ?key g"
        using assms assoc_Some_in by (fastforce simp: groups_ok_def)
      then have "[] \<notin> set (gr_members g)" "gr_type g = GROUP_TYPE_RING \<longrightarrow> gr_ring_members g = []"
        by (simp_all add: group_ok_def)
      then show ?thesis
        using False Some assms(2)
        by (cases t; cases "gr_type g")
          (auto simp: d run_declaration_def declares_conference_def declares_def declare_group_def Let_def assoc_md_set
            ring_members_at_def group_members_at_def foldl_append_rung ring_only_in_conference_def append_member_def)
    qed
  qed
qed

lemma conference_declares: "declares_conference k d \<Longrightarrow> declares k d"
  by (simp add: declares_conference_def)

lemma run_declarations_rung:
  "list_all ring_only_in_conference ds \<Longrightarrow>
   set (ring_members_at (run_declarations [] ds) k) = set (rung_members k ds)"
proof (induction ds rule: rev_induct)
  case Nil
  show ?case by (simp add: run_declarations_def ring_members_at_def rung_members_def)
next
  case (snoc d ds)
  have ok: "groups_ok (run_declarations [] ds)"
    using snoc.prems by (intro run_declarations_ok) (auto simp: groups_ok_def)
  have d: "ring_only_in_conference d"
    using snoc.prems by simp
  have all: "set (group_members_at (run_declarations [] ds) k) = set (decl_members k (counted k ds))"
    using snoc.prems by (simp add: run_declarations_members)
  have IH: "set (ring_members_at (run_declarations [] ds) k) = set (rung_members k ds)"
    using snoc by simp
  show ?case
  proof (cases "list_ex (declares_conference k) ds")
    case True
    then show ?thesis
      using all IH
      by (auto simp: run_declarations_snoc run_declaration_rung [OF ok d] run_declarations_type rung_members_def
          takeWhile_some decl_members_def conference_declares)
  next
    case False
    then have early: "takeWhile (\<lambda>d. \<not> declares_conference k d) (ds @ [d]) =
        (if declares_conference k d then ds else ds @ [d])" "counted k ds = ds"
      using takeWhile_tail [of "\<lambda>d. \<not> declares_conference k d" d ds]
      by (auto simp: takeWhile_none counted_def filter_none list_ex_iff)
    show ?thesis
      using False all IH unfolding early(2)
      by (auto simp: run_declarations_snoc run_declaration_rung [OF ok d] run_declarations_type rung_members_def
          early(1) decl_members_def conference_declares list_ex_iff filter_empty_conv split: if_splits)
  qed
qed

text \<open>The result: keyed by name, without the groups whose key is taken.\<close>

definition listed_group_ok :: "string list \<Rightarrow> string \<times> group_def \<Rightarrow> bool" where
  "listed_group_ok taken = (\<lambda>(name, g).
     name = gr_name g \<and> group_ok (normalize_roster_key name) g \<and> normalize_roster_key name \<notin> set taken)"

lemma md_set_all:
  "list_all P md \<Longrightarrow> P (k, v) \<Longrightarrow> list_all P (md_set md k v)"
  by (induction md k v rule: md_set.induct) auto

lemma relist_ok:
  assumes "list_all (\<lambda>(k, g). group_ok k g \<and> k \<notin> set taken) gs" and "list_all (listed_group_ok taken) out"
  shows "list_all (listed_group_ok taken) (foldl (\<lambda>out (_, g). md_set out (gr_name g) g) out gs)"
  using assms
proof (induction gs arbitrary: out)
  case (Cons kg gs)
  obtain k g where kg: "kg = (k, g)"
    by (cases kg) auto
  have "listed_group_ok taken (gr_name g, g)"
    using Cons.prems(1) by (auto simp: kg listed_group_ok_def group_ok_def)
  then show ?case
    using Cons by (simp add: kg md_set_all)
qed simp

lemma collect_groups_ok:
  "list_all (listed_group_ok (reserved_keys existing)) (collect_groups peers manual registered existing)"
proof -
  have "groups_ok (run_declarations [] (all_declarations peers manual registered))"
    by (intro run_declarations_ok all_declarations_ring) (auto simp: groups_ok_def)
  then show ?thesis
    unfolding collect_groups_def Let_def
    by (intro relist_ok) (auto simp: groups_ok_def list_all_iff)
qed

text \<open>Every group that \<open>collect_groups\<close> hands out is stored under its own name, has at least one
  member and no member twice, rings only its own members (a ring group keeps no ring list), and its key
  is not that of an existing phonebook entry.\<close>

lemma collected_groups_valid:
  "list_all (listed_group_ok (reserved_keys existing_entries))
     (collect_groups peers manual_entries registered_entries existing_entries)"
  by (rule collect_groups_ok)

text \<open>C32: A conference declaration wins: whatever the order of the declarations of a group, it is a
  conference as soon as one of them says so and a ring group otherwise.  Ring declarations that come before the first
  conference declaration are not lost: they still give members, and these are rung when the conference is called (the
  guide says that the ring declaration is ignored); those that come later are ignored.  So the members are those of all
  declarations until the first conference declaration and of the conference declarations after it, and of these members
  the early ones and those whose conference declaration asks for it are rung.\<close>

theorem conference_declaration_wins:
  "(let ds = all_declarations peers manual_entries registered_entries;
        groups = run_declarations [] ds in
    map_option gr_type (assoc groups k) =
      (if list_ex (declares_conference k) ds then Some GROUP_TYPE_CONFERENCE
       else if list_ex (declares k) ds then Some GROUP_TYPE_RING else None)
    \<and> set (group_members_at groups k) = set (decl_members k (counted k ds))
    \<and> set (ring_members_at groups k) = set (rung_members k ds))"
  by (simp add: Let_def run_declarations_type run_declarations_members run_declarations_rung all_declarations_ring)

end
