(* ===== verification/Router.thy ===== *)
theory Router
  imports Roster
begin

text \<open>
  \<open>custom_components/voip_stack/router.py\<close>: which way a dialled target goes.  Three resolvers share
  one decision record: for a call a phone places (\<open>resolve_esp_origin\<close>), for a call Home Assistant
  routes (\<open>resolve_ha_router\<close>) and for a call that arrives from the trunk (\<open>route_inbound_trunk\<close>).
\<close>

section \<open>Decisions\<close>

datatype route_action =
  DIRECT | ANSWER_HA | FORWARD | BRIDGE | TRUNK | GROUP | ASSIST | REJECT | BUSY

datatype route_reason =
  DEFAULT_HA | EXPLICIT_ROUTE | NUMBER_VIA_HA | NAME_VIA_HA | DIRECT_URI | TARGET_DISABLED
| TARGET_UNREACHABLE | ROUTE_NOT_FOUND | MEDIA_INCOMPATIBLE | TRUNK_UNAVAILABLE

datatype target_class = SIP_URI | NAME_AT_HOST | NUMERIC | NAME

datatype route_source = BUILTIN | PHONEBOOK | AUTOMATION | TRUNK_SOURCE

record call_context =
  cc_call_id :: string
  cc_caller :: string
  cc_route_hint :: string
  cc_source_host :: string

definition has_explicit_route_hint :: "call_context \<Rightarrow> bool" where
  "has_explicit_route_hint ctx \<longleftrightarrow> strip (cc_route_hint ctx) \<noteq> []"

record route_decision =
  rd_action :: route_action
  rd_target :: string
  rd_sip_uri :: string
  rd_status :: int
  rd_reason :: route_reason
  rd_source :: route_source
  rd_entry :: "roster_entry option"

text \<open>\<open>RouteDecision(action)\<close> with the defaults of the class.\<close>

definition decision :: "route_action \<Rightarrow> string \<Rightarrow> route_decision" where
  "decision action target =
     \<lparr> rd_action = action, rd_target = target, rd_sip_uri = [], rd_status = 0,
       rd_reason = DEFAULT_HA, rd_source = BUILTIN, rd_entry = None \<rparr>"

section \<open>Targets\<close>

definition number_char :: "char \<Rightarrow> bool" where
  "number_char c \<longleftrightarrow> is_digit c \<or> c \<in> set '' .()/-''"

definition numeric_re :: "string \<Rightarrow> bool" where
  "numeric_re s \<longleftrightarrow> s \<noteq> [] \<and> is_digit (hd s) \<and> list_all number_char (tl s)"

definition public_number_re :: "string \<Rightarrow> bool" where
  "public_number_re s =
     (let n = (if startswith s ''+'' then tl s else s) in numeric_re n \<and> 3 \<le> length n)"

definition classify_target :: "string \<Rightarrow> target_class" where
  "classify_target target =
     (let raw = strip target; at = CHR ''@'' in
      if startswith (lower raw) ''sip:'' \<and> contains at raw then SIP_URI
      else if contains at raw \<and> strip (before at raw) \<noteq> [] \<and> strip (after at raw) \<noteq> [] then NAME_AT_HOST
      else if numeric_re raw then NUMERIC
      else NAME)"

definition looks_public_number :: "string \<Rightarrow> bool" where
  "looks_public_number target \<longleftrightarrow> public_number_re (strip target)"

definition to_sip_uri :: "string \<Rightarrow> string" where
  "to_sip_uri target =
     (let raw = strip target in
      if startswith (lower raw) ''sip:'' then raw
      else if contains (CHR ''@'') raw then ''sip:'' @ raw
      else raw)"

section \<open>The address of an entry\<close>

definition known_transport :: "string \<Rightarrow> string" where
  "known_transport value = (if value \<in> {''tcp'', ''udp''} then value else [])"

definition entry_transport :: "roster_entry \<Rightarrow> string" where
  "entry_transport entry =
     known_transport (lower (strip (mtext
       (por (mget (re_metadata entry) ''transport'') (mget (re_metadata entry) ''sip_transport'')))))"

definition entry_port :: "roster_entry \<Rightarrow> int" where
  "entry_port entry =
     (case mint (por (MInt (re_port entry)) (por (mget (re_metadata entry) ''port'')
              (por (mget (re_metadata entry) ''sip_port'') (MInt 5060)))) of
        Some port \<Rightarrow> port
      | None \<Rightarrow> 5060)"

definition uri_transport :: "string \<Rightarrow> string" where
  "uri_transport uri =
     (case cut_at '';transport='' (lower (strip uri)) of
        None \<Rightarrow> []
      | Some (_, rest) \<Rightarrow> known_transport (strip (before (CHR '';'') rest)))"

definition uri_port :: "string \<Rightarrow> int" where
  "uri_port uri =
     (let raw = strip uri;
          user_host = (if startswith (lower raw) ''sip:'' then drop 4 raw else raw);
          host = (if contains (CHR ''@'') user_host then after (CHR ''@'') user_host else user_host);
          host' = before (CHR '';'') host
      in if \<not> contains (CHR '':'') host' then 5060
         else case py_int (rafter (CHR '':'') host') of Some port \<Rightarrow> port | None \<Rightarrow> 5060)"

text \<open>\<open>re.sub("[^A-Za-z0-9_.!~*'()-]+", "_", s)\<close>: a run of other characters becomes one underscore.\<close>

definition uri_safe :: "char \<Rightarrow> bool" where
  "uri_safe c \<longleftrightarrow> is_alnum c \<or> c \<in> set ''_.!~*()-'' \<or> c = CHR 0x27"

fun squash :: "bool \<Rightarrow> string \<Rightarrow> string" where
  "squash run [] = []"
| "squash run (c # s) =
     (if uri_safe c then c # squash False s
      else if run then squash True s
      else CHR ''_'' # squash True s)"

definition safe_user :: "string \<Rightarrow> string" where
  "safe_user user =
     or_else (strip_chars ''_'' (squash False (strip (or_else user ''voip'')))) ''voip''"

definition uri_of :: "string \<Rightarrow> string \<Rightarrow> int \<Rightarrow> string \<Rightarrow> string" where
  "uri_of user host port transport =
     ''sip:'' @ safe_user user @ ''@'' @ host
     @ (if port = 5060 then [] else '':'' @ dec_int port)
     @ (if transport \<in> {''tcp'', ''udp''} then '';transport='' @ transport else [])"

definition local_ha :: "roster_entry \<Rightarrow> bool" where
  "local_ha entry \<longleftrightarrow> truthy (mget (re_metadata entry) ''local_ha'')"

definition entry_of_uri :: "string \<Rightarrow> roster_entry option" where
  "entry_of_uri ha_uri =
     (let user_host = (if startswith (lower ha_uri) ''sip:'' then drop 4 ha_uri else ha_uri) in
      if \<not> contains (CHR ''@'') user_host then None
      else
      let user = before (CHR ''@'') user_host;
          host = before (CHR '';'') (after (CHR ''@'') user_host);
          (host', port) =
            (if contains (CHR '':'') host then (rbefore (CHR '':'') host, rafter (CHR '':'') host)
             else (host, ''5060''))
      in case py_int port of
           None \<Rightarrow> None
         | Some p \<Rightarrow> Some
             \<lparr> re_id = or_else user ''HA'', re_name = [], re_address = host', re_sip_uri = [],
               re_extension = [], re_number = [], re_port = p, re_ha_bridge = False,
               re_enabled = True, re_metadata = [(''local_ha'', MBool True)] \<rparr>)"

definition ha_entry :: "roster_entry list \<Rightarrow> string \<Rightarrow> roster_entry option" where
  "ha_entry entries ha_uri =
     (case find (\<lambda>e. local_ha e \<and> re_enabled e \<and> re_address e \<noteq> []) entries of
        Some e \<Rightarrow> Some e
      | None \<Rightarrow> if ha_uri \<noteq> [] then entry_of_uri ha_uri else None)"

definition ha_uri_for :: "string \<Rightarrow> roster_entry list \<Rightarrow> string \<Rightarrow> string" where
  "ha_uri_for target entries ha_uri =
     (case ha_entry entries ha_uri of
        None \<Rightarrow> ha_uri
      | Some ha \<Rightarrow>
          if re_address ha = [] then ha_uri
          else
          let port = entry_port ha;
              port' = (if port = 5060 \<and> ha_uri \<noteq> [] then uri_port ha_uri else port)
          in uri_of (or_else target (or_else (re_id ha) ''HA'')) (re_address ha) port'
               (or_else (entry_transport ha) (uri_transport ha_uri)))"

section \<open>The resolvers\<close>

definition reject :: "string \<Rightarrow> int \<Rightarrow> route_reason \<Rightarrow> roster_entry option \<Rightarrow> route_decision" where
  "reject target status reason entry =
     (decision REJECT target)\<lparr> rd_status := status, rd_reason := reason, rd_entry := entry \<rparr>"

definition entry_uri :: "roster_entry \<Rightarrow> string" where
  "entry_uri entry =
     or_else (re_sip_uri entry)
       (if re_address entry \<noteq> []
        then uri_of (re_id entry) (re_address entry) (entry_port entry) (entry_transport entry)
        else [])"

definition resolve_esp_origin :: "string \<Rightarrow> roster_entry list \<Rightarrow> string \<Rightarrow> route_decision" where
  "resolve_esp_origin raw_target entries ha_uri =
     (let target = strip raw_target; target_class = classify_target target in
      if target_class \<in> {SIP_URI, NAME_AT_HOST} then
        (decision DIRECT target)\<lparr> rd_sip_uri := to_sip_uri target, rd_reason := DIRECT_URI \<rparr>
      else if target_class = NUMERIC then
        (decision BRIDGE target)\<lparr> rd_sip_uri := ha_uri_for target entries ha_uri,
           rd_reason := NUMBER_VIA_HA \<rparr>
      else case find_entry entries target True False of
        None \<Rightarrow> (decision BRIDGE target)\<lparr> rd_sip_uri := ha_uri, rd_reason := NAME_VIA_HA \<rparr>
      | Some entry \<Rightarrow>
          if \<not> re_enabled entry then reject target 403 TARGET_DISABLED (Some entry)
          else if entry_uri entry \<noteq> [] \<and> \<not> re_ha_bridge entry then
            (decision DIRECT (re_id entry))\<lparr> rd_sip_uri := entry_uri entry, rd_source := PHONEBOOK,
               rd_entry := Some entry \<rparr>
          else
          let bridge_target = or_else (re_extension entry) (re_id entry) in
          (decision BRIDGE bridge_target)\<lparr> rd_sip_uri := ha_uri_for bridge_target entries ha_uri,
             rd_reason := NAME_VIA_HA, rd_source := PHONEBOOK, rd_entry := Some entry \<rparr>)"

text \<open>The part of \<open>resolve_ha_router\<close> for an enabled entry.\<close>

definition route_entry :: "string \<Rightarrow> roster_entry \<Rightarrow> bool \<Rightarrow> route_decision" where
  "route_entry target entry trunk_ready =
     (let md = re_metadata entry;
          found = (\<lambda>action. (decision action (re_id entry))\<lparr> rd_source := PHONEBOOK, rd_entry := Some entry \<rparr>)
      in
      if mget md ''virtual_endpoint'' = MStr ''assist_pipeline'' then
        (found ASSIST)\<lparr> rd_sip_uri := re_sip_uri entry, rd_reason := EXPLICIT_ROUTE \<rparr>
      else if truthy (mget md ''group_type'') then (found GROUP)\<lparr> rd_reason := EXPLICIT_ROUTE \<rparr>
      else if local_ha entry then found ANSWER_HA
      else if mtext (mget md ''endpoint_kind'') = ''sip_account'' \<and> re_sip_uri entry = [] then
        (found REJECT)\<lparr> rd_status := 480, rd_reason := TARGET_UNREACHABLE \<rparr>
      else if re_number entry \<noteq> [] \<and> re_address entry = [] \<and> re_sip_uri entry = []
           \<and> \<not> entry_matches_extension entry target then
        (if trunk_ready then
           (decision TRUNK (re_number entry))\<lparr> rd_source := TRUNK_SOURCE, rd_entry := Some entry \<rparr>
         else reject (re_number entry) 503 TRUNK_UNAVAILABLE (Some entry))
      else if entry_uri entry = [] \<and> re_number entry = [] then
        (found ANSWER_HA)\<lparr> rd_reason := NAME_VIA_HA \<rparr>
      else if entry_uri entry \<noteq> [] then (found FORWARD)\<lparr> rd_sip_uri := entry_uri entry \<rparr>
      else reject target 404 ROUTE_NOT_FOUND (Some entry))"

definition resolve_ha_router :: "string \<Rightarrow> roster_entry list \<Rightarrow> bool \<Rightarrow> route_decision" where
  "resolve_ha_router raw_target entries trunk_ready =
     (let target = strip raw_target in
      if classify_target target \<in> {SIP_URI, NAME_AT_HOST} then
        (decision DIRECT target)\<lparr> rd_sip_uri := to_sip_uri target, rd_reason := DIRECT_URI \<rparr>
      else case find_entry entries target True True of
        Some entry \<Rightarrow>
          if \<not> re_enabled entry then reject target 403 TARGET_DISABLED (Some entry)
          else route_entry target entry trunk_ready
      | None \<Rightarrow>
          if looks_public_number target then
            (if trunk_ready then (decision TRUNK target)\<lparr> rd_source := TRUNK_SOURCE \<rparr>
             else reject target 503 TRUNK_UNAVAILABLE None)
          else reject target 404 ROUTE_NOT_FOUND None)"

definition route_inbound_trunk :: "call_context \<Rightarrow> roster_entry list \<Rightarrow> bool \<Rightarrow> route_decision" where
  "route_inbound_trunk ctx entries trunk_ready =
     (if \<not> has_explicit_route_hint ctx then decision ANSWER_HA []
      else case find_entry entries (cc_route_hint ctx) True False of
        None \<Rightarrow> reject (cc_route_hint ctx) 404 ROUTE_NOT_FOUND None
      | Some internal_entry \<Rightarrow>
          let resolved = resolve_ha_router (or_else (re_extension internal_entry) (re_id internal_entry))
                entries trunk_ready
          in if rd_action resolved = REJECT then reject (cc_route_hint ctx) 404 ROUTE_NOT_FOUND None
             else resolved)"

section \<open>Admissible decisions\<close>

text \<open>What a decision of the router may look like.\<close>

definition admissible :: "roster_entry list \<Rightarrow> bool \<Rightarrow> route_decision \<Rightarrow> bool" where
  "admissible entries trunk_ready d \<longleftrightarrow>
     (rd_status d \<noteq> 0 \<longleftrightarrow> rd_action d = REJECT) \<and> rd_status d \<in> {0, 403, 404, 480, 503} \<and>
     rd_action d \<notin> {BRIDGE, BUSY} \<and>
     (rd_action d \<in> {DIRECT, FORWARD} \<longrightarrow> rd_sip_uri d \<noteq> []) \<and>
     (rd_action d = TRUNK \<longrightarrow> trunk_ready) \<and>
     (case rd_entry d of
        None \<Rightarrow> rd_action d \<in> {DIRECT, TRUNK, REJECT}
      | Some e \<Rightarrow> e \<in> set entries \<and> (re_enabled e \<or> rd_action d = REJECT))"

lemmas decision_simps = decision_def reject_def

lemma to_sip_uri_nonempty: "strip target \<noteq> [] \<Longrightarrow> to_sip_uri target \<noteq> []"
  by (simp add: to_sip_uri_def Let_def)

lemma strip_empty [simp]: "strip [] = []"
  by (simp add: strip_def lstrip_def rstrip_def)

lemma address_class_nonempty: "classify_target target \<in> {SIP_URI, NAME_AT_HOST} \<Longrightarrow> strip target \<noteq> []"
  by (auto simp: classify_target_def Let_def contains_def numeric_re_def split: if_splits)

lemma route_entry_admissible:
  assumes "re_enabled e" and "e \<in> set entries"
  shows "admissible entries trunk_ready (route_entry target e trunk_ready)"
  using assms by (simp add: admissible_def route_entry_def decision_simps Let_def)

lemma resolve_ha_router_admissible:
  "admissible entries trunk_ready (resolve_ha_router target entries trunk_ready)"
proof (cases "classify_target (strip target) \<in> {SIP_URI, NAME_AT_HOST}")
  case True
  then show ?thesis
    using to_sip_uri_nonempty [OF address_class_nonempty [OF True]]
    by (simp add: resolve_ha_router_def Let_def admissible_def decision_simps)
next
  case False
  show ?thesis
  proof (cases "find_entry entries (strip target) True True")
    case None
    with False show ?thesis
      by (simp add: resolve_ha_router_def Let_def admissible_def decision_simps)
  next
    case (Some e)
    show ?thesis
    proof (cases "re_enabled e")
      case True
      with False Some find_entry_in [OF Some] show ?thesis
        by (simp add: resolve_ha_router_def Let_def route_entry_admissible)
    next
      case False
      with \<open>classify_target (strip target) \<notin> _\<close> Some find_entry_in [OF Some] show ?thesis
        by (simp add: resolve_ha_router_def Let_def admissible_def decision_simps)
    qed
  qed
qed

text \<open>C33: Whatever is dialled, the router's decision is admissible: it is an error exactly when it
  rejects, with one of the codes 403, 404, 480 and 503; a forwarded or direct call has an address; the
  trunk is only used when it is ready; and a phonebook entry it names is an entry of the phonebook that
  is enabled, unless the call is rejected.\<close>

theorem routed_call_is_admissible:
  "admissible entries trunk_ready (resolve_ha_router target entries trunk_ready)"
  by (rule resolve_ha_router_admissible)

section \<open>Calls from the trunk\<close>

lemma strip_subset: "set (strip s) \<subseteq> set s"
  by (auto simp: strip_def lstrip_def rstrip_def dest!: set_dropWhileD)

lemma space_not_key: "is_space c \<Longrightarrow> \<not> key_char c"
  by (auto simp: is_space_def key_char_def is_alnum_def is_digit_def is_upper_def is_lower_def)

lemma filter_dropWhile_space:
  "filter key_char (map lower_char (dropWhile is_space s)) = filter key_char (map lower_char s)"
  by (induction s) (auto simp: lower_char_def is_upper_def is_space_def space_not_key)

lemma filter_key_rev: "filter key_char (map lower_char (rev s)) = rev (filter key_char (map lower_char s))"
  by (simp add: rev_filter rev_map)

lemma filter_key_strip: "filter key_char (lower (strip s)) = filter key_char (lower s)"
  by (simp add: lower_def strip_def lstrip_def rstrip_def filter_key_rev filter_dropWhile_space)

lemma unquote_bytes_plain: "CHR ''%'' \<notin> set s \<Longrightarrow> unquote_bytes s = s"
  by (induction s rule: unquote_bytes.induct) auto

lemma normalize_plain:
  assumes "CHR ''%'' \<notin> set s"
  shows "normalize_roster_key s = filter key_char (lower s)"
  using assms by (simp add: normalize_roster_key_def filter_key_strip unquote_bytes_plain)

lemma digit_key: "is_digit c \<Longrightarrow> key_char (lower_char c)"
  by (simp add: lower_char_def is_upper_def is_digit_def key_char_def is_alnum_def)

text \<open>A public number has a key, and the same with the white space around it.\<close>

lemma public_number_key:
  assumes "looks_public_number (strip s)"
  shows "normalize_roster_key (strip s) = normalize_roster_key s \<and> normalize_roster_key s \<noteq> []"
proof -
  let ?r = "strip s"
  have r: "public_number_re ?r"
    using assms by (simp add: looks_public_number_def)
  let ?n = "if startswith ?r ''+'' then tl ?r else ?r"
  have n: "numeric_re ?n"
    using r by (simp add: public_number_re_def Let_def)
  have plus: "set ?r \<subseteq> insert (CHR ''+'') (set ?n)"
    by (cases ?r) (auto simp: startswith_def)
  have chars: "CHR ''%'' \<notin> set ?n"
    using n by (cases ?n) (auto simp: numeric_re_def number_char_def is_digit_def list_all_iff)
  have "CHR ''%'' \<notin> set ?r"
    using plus chars by auto
  then have s1: "CHR ''%'' \<notin> set (strip s)" .
  then have s: "CHR ''%'' \<notin> set s"
    using set_unstripped [of s] by (auto simp: is_space_def)
  have "\<exists>c \<in> set ?n. is_digit c"
    using n by (cases ?n) (auto simp: numeric_re_def)
  moreover have "set ?n \<subseteq> set ?r"
    by (cases ?r) auto
  ultimately obtain c where "c \<in> set s" "is_digit c"
    using strip_subset by blast
  then have "filter key_char (lower s) \<noteq> []"
    using digit_key by (auto simp: filter_empty_conv lower_def)
  with s s1 show ?thesis
    by (simp add: normalize_plain filter_key_strip)
qed

lemma own_label_finds:
  assumes "e \<in> set entries" and "normalize_roster_key target \<noteq> []"
    and "normalize_roster_key target = normalize_roster_key (or_else (re_extension e) (re_id e))"
  shows "find_entry entries target True num \<noteq> None"
proof -
  have "named True target e"
    using assms(2,3) by (auto simp: named_def or_else_def split: if_splits)
  with assms(1) have "find (named True target) entries \<noteq> None"
    by (auto simp: find_None_iff)
  then show ?thesis
    by (auto simp: find_entry_cases)
qed

text \<open>What a routed target is, seen from the phonebook.\<close>

definition dialled_entry :: "roster_entry list \<Rightarrow> route_decision \<Rightarrow> bool" where
  "dialled_entry entries d \<longleftrightarrow>
     (case rd_action d of
        REJECT \<Rightarrow> True
      | DIRECT \<Rightarrow> list_ex (\<lambda>e. rd_target d = strip (or_else (re_extension e) (re_id e))) entries
      | TRUNK \<Rightarrow> list_ex (\<lambda>e. rd_entry d = Some e \<and> re_enabled e \<and> re_number e \<noteq> [] \<and>
                       rd_target d = re_number e) entries
      | _ \<Rightarrow> list_ex (\<lambda>e. rd_entry d = Some e \<and> re_enabled e) entries)"

lemma route_entry_dialled:
  "e \<in> set entries \<Longrightarrow> re_enabled e \<Longrightarrow> dialled_entry entries (route_entry target e trunk_ready)"
  by (auto simp: dialled_entry_def route_entry_def decision_simps Let_def list_ex_iff)

lemma resolve_label_dialled:
  assumes "e \<in> set entries" and "target = or_else (re_extension e) (re_id e)"
  shows "dialled_entry entries (resolve_ha_router target entries trunk_ready)"
proof (cases "classify_target (strip target) \<in> {SIP_URI, NAME_AT_HOST}")
  case True
  then show ?thesis
    using assms by (auto simp: resolve_ha_router_def Let_def dialled_entry_def decision_simps list_ex_iff)
next
  case False
  show ?thesis
  proof (cases "find_entry entries (strip target) True True")
    case None
    have "\<not> looks_public_number (strip target)"
    proof
      assume "looks_public_number (strip target)"
      then show False
        using public_number_key own_label_finds [OF assms(1), of "strip target" True] None assms(2) by simp
    qed
    with False None show ?thesis
      by (simp add: resolve_ha_router_def Let_def dialled_entry_def decision_simps)
  next
    case (Some x)
    show ?thesis
    proof (cases "re_enabled x")
      case True
      with False Some show ?thesis
        using route_entry_dialled [OF find_entry_in [OF Some]] by (simp add: resolve_ha_router_def Let_def)
    next
      case disabled: False
      with False Some show ?thesis
        by (simp add: resolve_ha_router_def Let_def dialled_entry_def decision_simps)
    qed
  qed
qed

text \<open>C34: A call from the trunk stays inside. Without a route hint Home Assistant answers it; with one it
  is rejected with 404, or it goes where an entry of the phonebook leads: to an enabled entry, to the
  address that is an entry's own label, or out on the trunk again only to the number stored in an enabled
  entry and only when the trunk is ready. No number a caller chooses is ever dialled.\<close>

theorem inbound_trunk_stays_inside:
  "let d = route_inbound_trunk ctx entries trunk_ready in
   if strip (cc_route_hint ctx) = [] then d = decision ANSWER_HA []
   else admissible entries trunk_ready d \<and> rd_status d \<in> {0, 404} \<and> dialled_entry entries d"
proof (cases "has_explicit_route_hint ctx")
  case False
  then show ?thesis
    by (simp add: route_inbound_trunk_def has_explicit_route_hint_def Let_def)
next
  case True
  show ?thesis
  proof (cases "find_entry entries (cc_route_hint ctx) True False")
    case None
    with True show ?thesis
      by (simp add: route_inbound_trunk_def decision_simps admissible_def dialled_entry_def
          has_explicit_route_hint_def Let_def)
  next
    case (Some e)
    let ?r = "resolve_ha_router (or_else (re_extension e) (re_id e)) entries trunk_ready"
    have r: "admissible entries trunk_ready ?r" "dialled_entry entries ?r"
      using resolve_ha_router_admissible resolve_label_dialled find_entry_in [OF Some] by blast+
    have hint: "strip (cc_route_hint ctx) \<noteq> []"
      using True by (simp add: has_explicit_route_hint_def)
    show ?thesis
    proof (cases "rd_action ?r = REJECT")
      case rejected: True
      with True Some hint show ?thesis
        by (simp add: route_inbound_trunk_def Let_def decision_simps admissible_def dialled_entry_def)
    next
      case routed: False
      then have "route_inbound_trunk ctx entries trunk_ready = ?r"
        using True Some by (simp add: route_inbound_trunk_def Let_def)
      moreover have "rd_status ?r = 0"
        using r(1) routed by (simp add: admissible_def)
      ultimately show ?thesis
        using r hint by (simp add: Let_def)
    qed
  qed
qed

section \<open>Addresses\<close>

lemma squash_safe: "\<forall>c \<in> set (squash run s). uri_safe c"
  by (induction run s rule: squash.induct) (auto simp: uri_safe_def)

lemma strip_chars_subset: "set (strip_chars cs s) \<subseteq> set s"
  by (auto simp: strip_chars_def dest!: set_dropWhileD)

lemma safe_user_props: "safe_user user \<noteq> []" "\<forall>c \<in> set (safe_user user). uri_safe c"
proof -
  show "safe_user user \<noteq> []"
    by (simp add: safe_user_def or_else_def)
  have "\<forall>c \<in> set ''voip''. uri_safe c"
    by (simp add: uri_safe_def is_alnum_def is_digit_def is_upper_def is_lower_def)
  then show "\<forall>c \<in> set (safe_user user). uri_safe c"
    using squash_safe strip_chars_subset by (simp add: safe_user_def or_else_def) blast
qed

lemma cut_at_first: "p \<notin> set x \<Longrightarrow> cut_at (p # pat) (x @ p # pat @ y) = Some (x, y)"
  by (induction x) (auto simp: startswith_def)

lemma cut_at_none: "p \<notin> set x \<Longrightarrow> cut_at (p # pat) x = None"
  by (induction x) (auto simp: startswith_def)

lemma lower_char_mark: "\<not> is_alnum m \<Longrightarrow> lower_char c = m \<longleftrightarrow> c = m"
  by (auto simp: lower_char_def is_alnum_def is_upper_def is_lower_def)

lemma lower_mark: "\<not> is_alnum m \<Longrightarrow> m \<in> set (lower s) \<longleftrightarrow> m \<in> set s"
  using lower_char_mark by (force simp: lower_def)

definition plain_host :: "string \<Rightarrow> bool" where
  "plain_host host \<longleftrightarrow> list_all (\<lambda>c. \<not> is_space c \<and> c \<notin> set ''@:;'') host"

lemma uri_safe_props: "uri_safe c \<Longrightarrow> \<not> is_space c \<and> c \<notin> set ''@:;''"
  by (auto simp: uri_safe_def is_space_def is_alnum_def is_digit_def is_upper_def is_lower_def)

lemma digit_not_mark: "is_digit c \<Longrightarrow> \<not> is_space c \<and> c \<notin> set ''@:;''"
  by (auto simp: is_digit_def is_space_def)

lemma safe_user_marks: "c \<in> set (safe_user user) \<Longrightarrow> \<not> is_space c \<and> c \<notin> set ''@:;''"
  using safe_user_props(2) uri_safe_props by blast

lemma dec_marks: "c \<in> set (dec n) \<Longrightarrow> \<not> is_space c \<and> c \<notin> set ''@:;''"
  using dec_digits digit_not_mark by blast

lemma before_append: "m \<notin> set x \<Longrightarrow> before m (x @ m # y) = x" "m \<notin> set x \<Longrightarrow> before m x = x"
  by (auto simp: before_def takeWhile_append takeWhile_eq_all_conv)

lemma after_append: "m \<notin> set x \<Longrightarrow> after m (x @ m # y) = y"
  by (simp add: after_def dropWhile_append)

lemma rafter_append: "m \<notin> set y \<Longrightarrow> rafter m (x @ m # y) = y"
  using before_append(1) [of m "rev y" "rev x"] by (simp add: rafter_def)

definition port_part :: "int \<Rightarrow> string" where
  "port_part port = (if port = 5060 then [] else CHR '':'' # dec_int port)"

definition transport_part :: "string \<Rightarrow> string" where
  "transport_part tr = (if tr \<in> {''tcp'', ''udp''} then '';transport='' @ tr else [])"

lemma uri_of_parts:
  "uri_of user host port tr =
     ''sip:'' @ safe_user user @ CHR ''@'' # host @ port_part port @ transport_part tr"
  by (simp add: uri_of_def port_part_def transport_part_def)

lemma transport_part_cases:
  "transport_part tr = [] \<or> transport_part tr = CHR '';'' # ''transport='' @ tr"
  by (simp add: transport_part_def)

lemma uri_of_no_space:
  assumes "plain_host host" and "0 \<le> port"
  shows "\<forall>c \<in> set (uri_of user host port tr). \<not> is_space c"
proof -
  have "\<forall>c \<in> set (port_part port). \<not> is_space c"
    using assms(2) dec_marks by (auto simp: port_part_def dec_int_def is_space_def)
  moreover have "\<forall>c \<in> set (transport_part tr). \<not> is_space c"
    by (auto simp: transport_part_def is_space_def)
  moreover have "\<forall>c \<in> set host. \<not> is_space c"
    using assms(1) by (auto simp: plain_host_def list_all_iff)
  moreover have "\<forall>c \<in> set (safe_user user). \<not> is_space c"
    using safe_user_marks by blast
  ultimately show ?thesis
    by (auto simp: uri_of_parts is_space_def)
qed

lemma port_part_marks:
  assumes "0 \<le> port"
  shows "CHR ''@'' \<notin> set (port_part port)" "CHR '';'' \<notin> set (port_part port)"
  using assms dec_marks [of _ "nat port"] by (auto simp: port_part_def dec_int_def)

lemma sip_prefix [simp]: "startswith (lower (''sip:'' @ s)) ''sip:''"
proof -
  have "lower ''sip:'' = ''sip:''"
    by (simp add: lower_def lower_char_def is_upper_def)
  then show ?thesis
    by (simp add: lower_def startswith_def)
qed

lemma uri_port_of_uri:
  assumes "plain_host host" and "0 \<le> port" and "port \<le> 65535"
  shows "uri_port (uri_of user host port tr) = port"
proof -
  have strip: "strip (uri_of user host port tr) = uri_of user host port tr"
    using uri_of_no_space [OF assms(1,2)] by (rule strip_no_space)
  have host: "CHR ''@'' \<notin> set host" "CHR '';'' \<notin> set host" "CHR '':'' \<notin> set host"
    using assms(1) by (auto simp: plain_host_def list_all_iff)
  have user: "CHR ''@'' \<notin> set (safe_user user)"
    using safe_user_marks by fastforce
  have drop: "drop 4 (uri_of user host port tr) = safe_user user @ CHR ''@'' # host @ port_part port @ transport_part tr"
    by (simp add: uri_of_parts)
  have semi: "CHR '';'' \<notin> set (host @ port_part port)"
    using host(2) port_part_marks(2) [OF assms(2)] by simp
  have b: "before (CHR '';'') (host @ port_part port @ transport_part tr) = host @ port_part port"
    using transport_part_cases [of tr] before_append(1) [OF semi] before_append(2) [OF semi] by auto
  have sip: "startswith (lower (uri_of user host port tr)) ''sip:''"
    unfolding uri_of_parts by (rule sip_prefix)
  have eq: "uri_port (uri_of user host port tr) =
      (if CHR '':'' \<notin> set (host @ port_part port) then 5060
       else case py_int (rafter (CHR '':'') (host @ port_part port)) of Some p \<Rightarrow> p | None \<Rightarrow> 5060)"
    using user by (simp add: uri_port_def Let_def strip sip drop contains_def after_append b)
  show ?thesis
  proof (cases "port = 5060")
    case True
    then show ?thesis
      using host(3) unfolding eq by (simp add: port_part_def)
  next
    case False
    have "CHR '':'' \<notin> set (dec (nat port))"
      using dec_marks by fastforce
    then have "rafter (CHR '':'') (host @ port_part port) = dec (nat port)"
      using False assms(2) rafter_append by (simp add: port_part_def dec_int_def)
    moreover have "py_int (dec (nat port)) = Some port"
      using assms(2,3) by simp
    moreover have "CHR '':'' \<in> set (host @ port_part port)"
      using False by (simp add: port_part_def)
    ultimately show ?thesis
      unfolding eq by (simp only: if_False not_not option.case simp_thms)
  qed
qed

lemma uri_transport_of_uri:
  assumes "plain_host host" and "0 \<le> port"
  shows "uri_transport (uri_of user host port tr) = known_transport tr"
proof -
  let ?x = "''sip:'' @ safe_user user @ CHR ''@'' # host @ port_part port"
  have strip: "strip (uri_of user host port tr) = uri_of user host port tr"
    using uri_of_no_space [OF assms] by (rule strip_no_space)
  have "CHR '';'' \<notin> set ?x"
    using assms safe_user_marks port_part_marks(2) [OF assms(2)]
    by (fastforce simp: plain_host_def list_all_iff)
  moreover have "\<not> is_alnum (CHR '';'')"
    by (simp add: is_alnum_def is_digit_def is_upper_def is_lower_def)
  ultimately have x: "CHR '';'' \<notin> set (lower ?x)"
    using lower_mark by blast
  show ?thesis
  proof (cases "tr \<in> {''tcp'', ''udp''}")
    case True
    have marker: "lower '';transport='' = '';transport=''" and tr: "lower tr = tr"
      using True by (auto simp: lower_def lower_char_def is_upper_def)
    have "lower (uri_of user host port tr) = lower ?x @ '';transport='' @ tr"
      using True by (simp add: uri_of_parts transport_part_def lower_def tr [unfolded lower_def] marker [unfolded lower_def, simplified])
    then have "cut_at '';transport='' (lower (uri_of user host port tr)) = Some (lower ?x, tr)"
      using cut_at_first [OF x, of "''transport=''" tr] by simp
    moreover have "strip (before (CHR '';'') tr) = tr"
      using True by (auto simp: before_def strip_def lstrip_def rstrip_def is_space_def)
    ultimately show ?thesis
      by (simp add: uri_transport_def strip)
  next
    case False
    then have "uri_of user host port tr = ?x"
      by (simp add: uri_of_parts transport_part_def)
    then have "cut_at '';transport='' (lower (uri_of user host port tr)) = None"
      using cut_at_none [OF x] by simp
    with False show ?thesis
      by (simp add: uri_transport_def strip known_transport_def)
  qed
qed

text \<open>Whatever name is dialled, the address built from it keeps its parts: the user part holds only
  safe characters, so that the port and the transport read back from the address are the ones it was
  built with (a transport other than TCP and UDP is left out).\<close>

lemma address_parts_read_back:
  assumes "plain_host host" and "0 \<le> port" and "port \<le> 65535"
  shows "uri_port (uri_of user host port transport) = port \<and>
    uri_transport (uri_of user host port transport) = known_transport transport \<and>
    list_all uri_safe (safe_user user)"
  using uri_port_of_uri [OF assms] uri_transport_of_uri [OF assms(1,2)] safe_user_props(2)
  by (simp add: list_all_iff)

lemma address_parts_read_back_example:
  "uri_port (uri_of ''a;transport=udp@evil:1'' ''pbx.local'' 5070 ''tcp'') = 5070 \<and>
   uri_transport (uri_of ''a;transport=udp@evil:1'' ''pbx.local'' 5070 ''tcp'') = ''tcp''"
proof -
  have "plain_host ''pbx.local''"
    by (simp add: plain_host_def is_space_def)
  from address_parts_read_back [OF this, of 5070 "''a;transport=udp@evil:1''" "''tcp''"] show ?thesis
    by (simp add: known_transport_def)
qed

end
