(* ===== verification/Pbx_Routing.thy ===== *)
theory Pbx_Routing
  imports Dial_Groups Audio_Format Dtmf Phone_Endpoint
begin

text \<open>
  The routing helpers of \<open>custom_components/voip_stack/endpoint_routing.py\<close> and \<open>pbx_routing.py\<close>:
  names of peers, dial targets, the extensions a DTMF caller may dial, the originator in a dial group
  and the audio formats offered to a target.

  \<open>roster_from_peers\<close> reads Home Assistant's data and is left out.  The format lists of peers that
  are \<open>None\<close> in the code are empty here.
\<close>

section \<open>Names\<close>

definition route_name :: "string \<Rightarrow> string" where
  "route_name value = filter key_char (lower value)"

definition same_route_name :: "string \<Rightarrow> string \<Rightarrow> bool" where
  "same_route_name left right \<longleftrightarrow> left \<noteq> [] \<and> right \<noteq> [] \<and> route_name left = route_name right"

definition peer_for_target :: "string \<Rightarrow> peer list \<Rightarrow> peer option" where
  "peer_for_target target peers = find (\<lambda>p. \<not> pr_is_ha p \<and> same_route_name target (pr_name p)) peers"

definition roster_entry_for_target :: "string \<Rightarrow> roster_entry list \<Rightarrow> roster_entry option" where
  "roster_entry_for_target target entries =
     find (\<lambda>e. same_route_name (re_id e) target \<or> same_route_name (re_name e) target \<or>
        (re_extension e \<noteq> [] \<and> strip (re_extension e) = strip target)) entries"

definition browser_endpoint_can_ring :: "phone_endpoint option \<Rightarrow> bool" where
  "browser_endpoint_can_ring endpoint \<longleftrightarrow>
     (case endpoint of
        None \<Rightarrow> True
      | Some e \<Rightarrow> \<not> pe_dnd e \<and> pe_availability e \<noteq> UNAVAILABLE)"

definition caller_matches_group_member ::
  "string \<Rightarrow> string \<Rightarrow> string \<Rightarrow> peer list \<Rightarrow> string \<Rightarrow> bool" where
  "caller_matches_group_member caller source_host member peers source_endpoint_id =
     (if same_route_name member caller then True
      else
      let peer = peer_for_target member peers in
      if source_endpoint_id \<noteq> [] then
        (case peer of None \<Rightarrow> False
         | Some p \<Rightarrow> pr_endpoint_id p \<noteq> [] \<and> pr_endpoint_id p = source_endpoint_id)
      else case peer of None \<Rightarrow> False
      | Some p \<Rightarrow>
          if pr_host p = [] \<or> pr_host p \<noteq> source_host then False
          else length (filter (\<lambda>candidate. pr_host candidate = source_host) peers) = 1)"

section \<open>Group members and extensions\<close>

text \<open>\<open>unique_group_members\<close> of a text, split at its commas, or of a list.\<close>

fun unique_members :: "string list \<Rightarrow> string list \<Rightarrow> string list" where
  "unique_members seen [] = []"
| "unique_members seen (raw # rest) =
     (let member = strip raw; key = lower member in
      if member \<noteq> [] \<and> key \<notin> set seen then member # unique_members (key # seen) rest
      else unique_members seen rest)"

definition unique_group_members :: "string + string list \<Rightarrow> string list" where
  "unique_group_members value =
     unique_members [] (case value of Inl text \<Rightarrow> split_on (CHR '','') text | Inr raw_members \<Rightarrow> raw_members)"

definition dtmf_extension_routes :: "roster_entry list \<Rightarrow> (string \<times> string) list" where
  "dtmf_extension_routes entries =
     foldl (\<lambda>routes e. md_set routes (strip (re_extension e)) (strip (re_extension e))) []
       (filter (\<lambda>e. strip (re_extension e) \<noteq> []) entries)"

section \<open>Audio formats\<close>

definition formats_or_none :: "string \<Rightarrow> audio_format list" where
  "formats_or_none raw =
     (if strip raw = [] then []
      else case parse_audio_format_list raw of Inr formats \<Rightarrow> formats | Inl _ \<Rightarrow> [])"

definition peer_audio_formats :: "peer option \<Rightarrow> string \<Rightarrow> audio_format list" where
  "peer_audio_formats peer key =
     (case peer of
        None \<Rightarrow> []
      | Some p \<Rightarrow> formats_or_none
          (join '';'' (if key = ''tx_formats'' then pr_tx_formats p else pr_rx_formats p)))"

definition sip_target_audio_profile ::
  "audio_format list \<Rightarrow> audio_format list \<Rightarrow> audio_format list \<times> audio_format list" where
  "sip_target_audio_profile remote_tx remote_rx =
     (let send_candidates =
            (if remote_rx \<noteq> [] then filter (\<lambda>f. f \<in> set remote_rx) HA_SIP_PCM_FORMATS
             else HA_SIP_PCM_FORMATS);
          recv_candidates =
            (if remote_tx \<noteq> [] then filter (\<lambda>f. f \<in> set remote_tx) HA_SIP_PCM_FORMATS
             else HA_SIP_PCM_FORMATS)
      in if send_candidates = [] \<or> recv_candidates = [] then ([], [])
      else
      let common_formats = filter (\<lambda>f. f \<in> set recv_candidates) send_candidates in
      if common_formats = [] then ([], [])
      else (filter (\<lambda>f. f \<in> set common_formats) send_candidates,
            filter (\<lambda>f. f \<in> set common_formats) recv_candidates))"

section \<open>Properties\<close>

text \<open>The audio profile for a target is symmetric: the formats offered for sending and for receiving
  are the same list, Home Assistant's formats in its order of preference, kept exactly when the target
  can both receive and send them (a target that names none takes all).\<close>

lemma audio_profile_is_symmetric:
  "sip_target_audio_profile remote_tx remote_rx =
     (let formats = filter (\<lambda>f. (remote_rx = [] \<or> f \<in> set remote_rx) \<and> (remote_tx = [] \<or> f \<in> set remote_tx))
            HA_SIP_PCM_FORMATS
      in (formats, formats))"
proof -
  have "filter P (filter Q HA_SIP_PCM_FORMATS) = filter (\<lambda>f. Q f \<and> P f) HA_SIP_PCM_FORMATS" for P Q
    by (induction HA_SIP_PCM_FORMATS) auto
  show ?thesis
    by (cases "remote_rx = []"; cases "remote_tx = []")
      (auto simp: sip_target_audio_profile_def Let_def filter_empty_conv intro!: filter_cong)
qed

lemma unique_members_props:
  "set (map lower (unique_members seen raws)) =
     {lower (strip r) | r. r \<in> set raws \<and> strip r \<noteq> []} - set seen \<and>
   distinct (map lower (unique_members seen raws))"
proof (induction seen raws rule: unique_members.induct)
  case (1 seen)
  show ?case by simp
next
  case (2 seen raw rest)
  show ?case
  proof (cases "strip raw \<noteq> [] \<and> lower (strip raw) \<notin> set seen")
    case True
    with "2.IH"(1) show ?thesis
      by (simp add: Let_def) blast
  next
    case False
    with "2.IH"(2) show ?thesis
      by (simp add: Let_def) blast
  qed
qed

lemma unique_members_subseq: "subseq (unique_members seen raws) (map strip raws)"
  by (induction seen raws rule: unique_members.induct) (auto simp: Let_def)

text \<open>The members of a dial group are told apart without regard to case: of each name that is
  given, in whatever case and however often, exactly one spelling is kept, in the order given.\<close>

lemma group_members_are_unique:
  "distinct (map lower (unique_group_members (Inr raws))) \<and>
   set (map lower (unique_group_members (Inr raws))) = set (filter (\<lambda>k. k \<noteq> []) (map (\<lambda>r. lower (strip r)) raws)) \<and>
   subseq (unique_group_members (Inr raws)) (map strip raws)"
proof -
  have "lower (strip r) \<noteq> [] \<longleftrightarrow> strip r \<noteq> []" for r
    by (simp add: lower_def)
  then show ?thesis
    using unique_members_props [of "[]" raws] unique_members_subseq
    by (auto simp: unique_group_members_def)
qed

section \<open>Dialling an extension\<close>

lemma assoc_foldl_md_set:
  "assoc (foldl (\<lambda>routes e. md_set routes (f e) (f e)) routes es) k =
     (if k \<in> f ` set es then Some k else assoc routes k)"
  by (induction es arbitrary: routes) (auto simp: assoc_md_set)

lemma dtmf_extension_routes_assoc:
  "assoc (dtmf_extension_routes entries) k =
     (if k \<noteq> [] \<and> list_ex (\<lambda>e. strip (re_extension e) = k) entries then Some k else None)"
  by (auto simp: dtmf_extension_routes_def assoc_foldl_md_set list_ex_iff)

lemma entry_for_extension:
  assumes "e \<in> set entries" and "strip (re_extension e) = strip target" and "strip target \<noteq> []"
  shows "roster_entry_for_target target entries \<noteq> None"
proof -
  have "strip [] = []"
    by (simp add: strip_def lstrip_def rstrip_def)
  then have "re_extension e \<noteq> []"
    using assms(2,3) by metis
  with assms(1,2) show ?thesis
    by (auto simp: roster_entry_for_target_def find_None_iff)
qed

text \<open>A caller who types an extension of the phonebook reaches an entry: the collector, given the
  routes built from the phonebook, answers with that extension, and the extension leads to an entry
  again.\<close>

lemma dialled_extension_reaches_entry:
  assumes "e \<in> set entries" and "ext = strip (re_extension e)" and "ext \<noteq> []"
  shows "collect_result (dtmf_extension_routes entries)
      (collect_digits (dtmf_extension_routes entries) [] (map (\<lambda>c. [c]) ext)) = (ext, ext) \<and>
    roster_entry_for_target ext entries \<noteq> None"
proof -
  have a: "assoc (dtmf_extension_routes entries) ext = Some ext"
    using assms by (auto simp: dtmf_extension_routes_assoc list_ex_iff)
  then have "collect_result (dtmf_extension_routes entries)
      (collect_digits (dtmf_extension_routes entries) [] (map (\<lambda>c. [c]) ext)) = (ext, ext)"
    using collect_code [OF a assms(3), of "[]"] by (auto simp: collect_result_def route_get_def)
  moreover have "roster_entry_for_target ext entries \<noteq> None"
    using assms by (intro entry_for_extension [of e]) auto
  ultimately show ?thesis ..
qed

lemma dialled_extension_reaches_entry_example:
  "\<exists>e. strip (re_extension e) = ''42'' \<and>
     collect_result (dtmf_extension_routes [e])
       (collect_digits (dtmf_extension_routes [e]) [] [''4'', ''2'']) = (''42'', ''42'')"
proof -
  let ?e = "\<lparr> re_id = ''door'', re_name = [], re_address = [], re_sip_uri = [], re_extension = '' 42'',
      re_number = [], re_port = 0, re_ha_bridge = False, re_enabled = True, re_metadata = [] \<rparr>"
  have "strip (re_extension ?e) = ''42''"
    by (simp add: strip_def lstrip_def rstrip_def is_space_def)
  then show ?thesis
    using dialled_extension_reaches_entry [of ?e "[?e]" "''42''"] by (intro exI [of _ ?e]) simp
qed

end
