(* ===== verification/Endpoint_Session.thy ===== *)
theory Endpoint_Session
  imports Prelude Roster "HOL-Library.Multiset"
begin

text \<open>
  \<open>custom_components/voip_stack/endpoint_session.py\<close>: the session that owns one PBX call, its legs,
  resources and background tasks, and tears them down.

  Dialogs, media and tasks are objects of other modules: they are handles (\<open>nat\<close>), equal when they are
  the same object.  A closer is a closure: the name of its function and what it captures.  What a closer or a cancelled task does is a parameter, the record
  \<open>runtime\<close>: \<open>None\<close> when it returns, otherwise the class name of the exception it raises.  The calls a
  session makes (closers, cancellations, observers) are its log.  A \<open>create_task\<close> splits an operation:
  \<open>start_termination\<close> is the synchronous part and \<open>run_termination\<close> the task it starts; any
  operation may come between the two.  A set of tasks is a list without repetitions.
\<close>

section \<open>Vocabulary\<close>

datatype session_phase =
    P_NEW | P_ROUTING | P_CALLING | P_RINGING | P_CONNECTING | P_ESTABLISHED | P_HELD
  | P_TRANSFERRING | P_TERMINATING | P_TERMINATED

datatype leg_kind = K_SIP | K_BROWSER | K_ESPHOME | K_TRUNK | K_ASSIST | K_CONFERENCE

datatype leg_phase = L_NEW | L_INVITING | L_RINGING | L_ANSWERED | L_HELD | L_CLOSING | L_CLOSED

text \<open>\<open>CleanupStage\<close> is an \<open>IntEnum\<close>: its members compare as their numbers.\<close>

datatype cleanup_stage = OBSERVER | MEDIA | LEG | RESERVATION | PROJECTION

fun stage_value :: "cleanup_stage \<Rightarrow> int" where
  "stage_value OBSERVER = 40"
| "stage_value MEDIA = 30"
| "stage_value LEG = 20"
| "stage_value RESERVATION = 10"
| "stage_value PROJECTION = 0"

lemma stage_value_inject [simp]: "stage_value a = stage_value b \<longleftrightarrow> a = b"
  by (cases a; cases b) simp_all

instantiation cleanup_stage :: linorder
begin

definition less_eq_cleanup_stage :: "cleanup_stage \<Rightarrow> cleanup_stage \<Rightarrow> bool" where
  "less_eq_cleanup_stage a b \<longleftrightarrow> stage_value a \<le> stage_value b"

definition less_cleanup_stage :: "cleanup_stage \<Rightarrow> cleanup_stage \<Rightarrow> bool" where
  "less_cleanup_stage a b \<longleftrightarrow> stage_value a < stage_value b"

instance
  by standard (auto simp: less_eq_cleanup_stage_def less_cleanup_stage_def)

end

type_synonym handle = nat

datatype closer = Closer string "string list" "handle list"

record call_token =
  ct_call_id :: string
  ct_generation :: int

section \<open>Legs, resources and sessions\<close>

text \<open>A close task is the outcome of its closer, once it has run.\<close>

type_synonym outcome = "string option"

record call_leg =
  cl_leg_id :: string
  cl_kind :: leg_kind
  cl_endpoint_id :: string
  cl_sip_call_id :: string
  cl_phase :: leg_phase
  cl_dialog :: "handle option"
  cl_media :: "handle option"
  cl_closer :: "closer option"
  cl_close_task :: "outcome option"

record managed_resource =
  mr_name :: string
  mr_value :: handle
  mr_closer :: closer
  mr_stage :: cleanup_stage
  mr_close_task :: "outcome option"

record termination_result =
  tr_reason :: string
  tr_closed_legs :: "string list"
  tr_closed_resources :: "string list"
  tr_errors :: "string list"

record runtime =
  rt_closer :: "closer \<Rightarrow> string \<Rightarrow> outcome"
  rt_task_error :: "handle \<Rightarrow> outcome"
  rt_task_name :: "handle \<Rightarrow> string"

datatype session_event =
    Changed session_phase
  | Ran_Closer string closer string
  | Cancelled handle
  | Terminated termination_result

record endpoint_session =
  es_call_id :: string
  es_generation :: int
  es_phase :: session_phase
  es_terminal_reason :: string
  es_legs :: "(string \<times> call_leg) list"
  es_resources :: "managed_resource list"
  es_tasks :: "handle list"
  es_metadata :: metadata
  es_termination_started :: bool
  es_terminated :: bool
  es_termination_task :: "termination_result option option"
  es_initiator :: "handle option"
  es_log :: "session_event list"

text \<open>\<open>es_termination_task\<close>: not created, running, or done with its result.\<close>

definition new_session :: "string \<Rightarrow> int \<Rightarrow> session_phase \<Rightarrow> exn + endpoint_session" where
  "new_session call_id generation phase =
     (let clean_call_id = strip call_id in
      if clean_call_id = [] then Inl ValueError
      else if generation \<le> 0 then Inl ValueError
      else Inr
        \<lparr> es_call_id = clean_call_id, es_generation = generation, es_phase = phase,
          es_terminal_reason = [], es_legs = [], es_resources = [], es_tasks = [], es_metadata = [],
          es_termination_started = False, es_terminated = False, es_termination_task = None,
          es_initiator = None, es_log = [] \<rparr>)"

definition token :: "endpoint_session \<Rightarrow> call_token" where
  "token s = \<lparr> ct_call_id = es_call_id s, ct_generation = es_generation s \<rparr>"

definition live :: "endpoint_session \<Rightarrow> bool" where
  "live s \<longleftrightarrow> es_phase s \<notin> {P_TERMINATING, P_TERMINATED}"

definition owns :: "endpoint_session \<Rightarrow> call_token \<Rightarrow> bool" where
  "owns s tok \<longleftrightarrow>
     live s \<and> ct_call_id tok = es_call_id s \<and> ct_generation tok = es_generation s"

definition ensure_live :: "endpoint_session \<Rightarrow> call_token option \<Rightarrow> exn + unit" where
  "ensure_live s tok =
     (if \<not> live s \<or> (case tok of None \<Rightarrow> False | Some t \<Rightarrow> \<not> owns s t)
      then Inl (RuntimeError ''call session is no longer current'') else Inr ())"

definition log_event :: "session_event \<Rightarrow> endpoint_session \<Rightarrow> endpoint_session" where
  "log_event e s = s\<lparr> es_log := es_log s @ [e] \<rparr>"

section \<open>Operations of a live session\<close>

definition transition ::
  "endpoint_session \<Rightarrow> session_phase \<Rightarrow> session_phase list option \<Rightarrow> exn + endpoint_session" where
  "transition s phase expected =
     bindE (ensure_live s None) (\<lambda>_.
       if (case expected of None \<Rightarrow> False | Some ps \<Rightarrow> es_phase s \<notin> set ps)
       then Inl (RuntimeError ''invalid call transition'')
       else Inr (log_event (Changed phase) (s\<lparr> es_phase := phase \<rparr>)))"

definition update_value :: "metadata \<times> bool \<Rightarrow> string \<times> mval \<Rightarrow> metadata \<times> bool" where
  "update_value acc kv =
     (case (acc, kv) of ((md, changed), (key, value)) \<Rightarrow>
        if mget md key \<noteq> value then (md_set md key value, True) else (md, changed))"

definition update_session_metadata ::
  "endpoint_session \<Rightarrow> (string \<times> mval) list \<Rightarrow> exn + endpoint_session" where
  "update_session_metadata s values =
     bindE (ensure_live s None) (\<lambda>_.
       let (md, changed) = foldl update_value (es_metadata s, False) values;
           s' = s\<lparr> es_metadata := md \<rparr>
       in Inr (if changed then log_event (Changed (es_phase s')) s' else s'))"

definition add_leg :: "endpoint_session \<Rightarrow> call_leg \<Rightarrow> exn + endpoint_session" where
  "add_leg s leg =
     bindE (ensure_live s None) (\<lambda>_.
       if cl_leg_id leg = [] \<or> assoc (es_legs s) (cl_leg_id leg) \<noteq> None then Inl ValueError
       else Inr (s\<lparr> es_legs := md_set (es_legs s) (cl_leg_id leg) leg \<rparr>))"

definition add_resource ::
  "endpoint_session \<Rightarrow> string \<Rightarrow> handle \<Rightarrow> closer \<Rightarrow> cleanup_stage \<Rightarrow> exn + endpoint_session" where
  "add_resource s name val closer stage =
     bindE (ensure_live s None) (\<lambda>_.
       if strip name = [] then Inl ValueError
       else if list_ex (\<lambda>r. mr_name r = name) (es_resources s) then Inl ValueError
       else Inr (s\<lparr> es_resources := es_resources s @
              [\<lparr> mr_name = name, mr_value = val, mr_closer = closer, mr_stage = stage,
                 mr_close_task = None \<rparr>] \<rparr>))"

text \<open>\<open>pop\<close> of the first resource that matches.\<close>

fun take_resource ::
  "(managed_resource \<Rightarrow> bool) \<Rightarrow> managed_resource list \<Rightarrow> (managed_resource \<times> managed_resource list) option" where
  "take_resource P [] = None"
| "take_resource P (r # rs) =
     (if P r then Some (r, rs) else map_option (\<lambda>(x, ys). (x, r # ys)) (take_resource P rs))"

definition release_resource ::
  "endpoint_session \<Rightarrow> string \<Rightarrow> handle option \<Rightarrow> exn + (endpoint_session \<times> managed_resource option)" where
  "release_resource s name val =
     bindE (ensure_live s None) (\<lambda>_.
       case take_resource (\<lambda>r. mr_name r = name \<and> (val = None \<or> val = Some (mr_value r)))
              (es_resources s) of
         None \<Rightarrow> Inr (s, None)
       | Some (r, rest) \<Rightarrow> Inr (s\<lparr> es_resources := rest \<rparr>, Some r))"

definition md_del :: "(string \<times> 'v) list \<Rightarrow> string \<Rightarrow> (string \<times> 'v) list" where
  "md_del md k = filter (\<lambda>(a, _). a \<noteq> k) md"

definition release_leg ::
  "endpoint_session \<Rightarrow> string \<Rightarrow> handle option \<Rightarrow> exn + (endpoint_session \<times> call_leg option)" where
  "release_leg s leg_id dialog =
     bindE (ensure_live s None) (\<lambda>_.
       case assoc (es_legs s) (strip leg_id) of
         None \<Rightarrow> Inr (s, None)
       | Some leg \<Rightarrow>
           if dialog \<noteq> None \<and> cl_dialog leg \<noteq> dialog then Inr (s, None)
           else Inr (s\<lparr> es_legs := md_del (es_legs s) (cl_leg_id leg) \<rparr>, Some leg))"

definition own_task :: "endpoint_session \<Rightarrow> handle \<Rightarrow> exn + endpoint_session" where
  "own_task s task =
     bindE (ensure_live s None) (\<lambda>_. Inr (s\<lparr> es_tasks := List.insert task (es_tasks s) \<rparr>))"

text \<open>The done callback of an owned task.\<close>

definition task_done :: "endpoint_session \<Rightarrow> handle \<Rightarrow> endpoint_session" where
  "task_done s task = s\<lparr> es_tasks := removeAll task (es_tasks s) \<rparr>"

definition release_task :: "endpoint_session \<Rightarrow> handle \<Rightarrow> exn + (endpoint_session \<times> bool)" where
  "release_task s task =
     bindE (ensure_live s None) (\<lambda>_.
       if task \<notin> set (es_tasks s) then Inr (s, False)
       else Inr (s\<lparr> es_tasks := removeAll task (es_tasks s) \<rparr>, True))"

section \<open>Closing\<close>

text \<open>\<open>CallLeg.close\<close> and \<open>ManagedResource.close\<close>: the leg or resource afterwards, and the closer
  calls made.  The outcome that every caller awaits is the one of the close task.\<close>

definition run_closer :: "runtime \<Rightarrow> closer option \<Rightarrow> string \<Rightarrow> outcome" where
  "run_closer rt closer reason = (case closer of None \<Rightarrow> None | Some c \<Rightarrow> rt_closer rt c reason)"

definition close_leg :: "runtime \<Rightarrow> string \<Rightarrow> call_leg \<Rightarrow> call_leg" where
  "close_leg rt reason leg =
     (case cl_close_task leg of
        Some _ \<Rightarrow> leg
      | None \<Rightarrow> leg\<lparr> cl_phase := L_CLOSED, cl_close_task := Some (run_closer rt (cl_closer leg) reason) \<rparr>)"

definition leg_calls :: "string \<Rightarrow> call_leg \<Rightarrow> session_event list" where
  "leg_calls reason leg =
     (case (cl_close_task leg, cl_closer leg) of
        (None, Some c) \<Rightarrow> [Ran_Closer (cl_leg_id leg) c reason]
      | _ \<Rightarrow> [])"

definition close_resource :: "runtime \<Rightarrow> string \<Rightarrow> managed_resource \<Rightarrow> managed_resource" where
  "close_resource rt reason r =
     (case mr_close_task r of
        Some _ \<Rightarrow> r
      | None \<Rightarrow> r\<lparr> mr_close_task := Some (run_closer rt (Some (mr_closer r)) reason) \<rparr>)"

definition resource_calls :: "string \<Rightarrow> managed_resource \<Rightarrow> session_event list" where
  "resource_calls reason r =
     (case mr_close_task r of
        None \<Rightarrow> [Ran_Closer (mr_name r) (mr_closer r) reason]
      | Some _ \<Rightarrow> [])"

definition outcome_of :: "outcome option \<Rightarrow> outcome" where
  "outcome_of task = (case task of Some o' \<Rightarrow> o' | None \<Rightarrow> None)"

text \<open>One step of a teardown loop: names closed, errors, closer calls.\<close>

type_synonym teardown = "string list \<times> string list \<times> session_event list"

definition close_one_resource :: "runtime \<Rightarrow> string \<Rightarrow> teardown \<Rightarrow> managed_resource \<Rightarrow> teardown" where
  "close_one_resource rt reason acc r =
     (case acc of (closed, errors, calls) \<Rightarrow>
        case outcome_of (mr_close_task (close_resource rt reason r)) of
          None \<Rightarrow> (closed @ [mr_name r], errors, calls @ resource_calls reason r)
        | Some err \<Rightarrow>
            (closed, errors @ [''resource:'' @ mr_name r @ '':'' @ err], calls @ resource_calls reason r))"

definition close_resources :: "runtime \<Rightarrow> string \<Rightarrow> managed_resource list \<Rightarrow> teardown \<Rightarrow> teardown" where
  "close_resources rt reason resources acc = foldl (close_one_resource rt reason) acc resources"

definition close_one_leg :: "runtime \<Rightarrow> string \<Rightarrow> teardown \<Rightarrow> call_leg \<Rightarrow> teardown" where
  "close_one_leg rt reason acc leg =
     (case acc of (closed, errors, calls) \<Rightarrow>
        case outcome_of (cl_close_task (close_leg rt reason leg)) of
          None \<Rightarrow> (closed @ [cl_leg_id leg], errors, calls @ leg_calls reason leg)
        | Some err \<Rightarrow>
            (closed, errors @ [''leg:'' @ cl_leg_id leg @ '':'' @ err], calls @ leg_calls reason leg))"

section \<open>Termination\<close>

definition start_termination ::
  "handle option \<Rightarrow> endpoint_session \<Rightarrow> string \<Rightarrow> endpoint_session" where
  "start_termination current s reason =
     (case es_termination_task s of
        Some _ \<Rightarrow> s
      | None \<Rightarrow>
          let tasks = (case current of None \<Rightarrow> es_tasks s | Some t \<Rightarrow> removeAll t (es_tasks s));
              s1 = s\<lparr> es_initiator := current, es_tasks := tasks, es_phase := P_TERMINATING,
                     es_terminal_reason := or_else reason ''terminated'',
                     es_termination_started := True \<rparr>
          in (log_event (Changed P_TERMINATING) s1)\<lparr> es_termination_task := Some None \<rparr>)"

definition ordered_resources :: "managed_resource list \<Rightarrow> managed_resource list" where
  "ordered_resources rs = sort_key (\<lambda>r. - stage_value (mr_stage r)) (rev rs)"

definition before_legs :: "managed_resource list \<Rightarrow> managed_resource list" where
  "before_legs rs = filter (\<lambda>r. LEG \<le> mr_stage r) (ordered_resources rs)"

definition after_legs :: "managed_resource list \<Rightarrow> managed_resource list" where
  "after_legs rs = filter (\<lambda>r. mr_stage r < LEG) (ordered_resources rs)"

definition task_errors :: "runtime \<Rightarrow> handle list \<Rightarrow> string list" where
  "task_errors rt tasks =
     concat (map (\<lambda>t. case rt_task_error rt t of
        None \<Rightarrow> [] | Some err \<Rightarrow> [''task:'' @ rt_task_name rt t @ '':'' @ err]) tasks)"

definition teardown_of :: "runtime \<Rightarrow> endpoint_session \<Rightarrow> termination_result \<times> session_event list" where
  "teardown_of rt s =
     (let reason = es_terminal_reason s;
          tasks = filter (\<lambda>t. Some t \<noteq> es_initiator s) (es_tasks s);
          errors = task_errors rt tasks;
          (closed1, errors1, calls1) =
            close_resources rt reason (before_legs (es_resources s)) ([], errors, map Cancelled tasks);
          (closed_legs, errors2, calls2) =
            foldl (close_one_leg rt reason) ([], errors1, calls1) (rev (map snd (es_legs s)));
          (closed_resources, errors3, calls3) =
            close_resources rt reason (after_legs (es_resources s)) (closed1, errors2, calls2)
      in (\<lparr> tr_reason = reason, tr_closed_legs = closed_legs,
            tr_closed_resources = closed_resources, tr_errors = errors3 \<rparr>, calls3))"

definition run_termination :: "runtime \<Rightarrow> endpoint_session \<Rightarrow> endpoint_session" where
  "run_termination rt s =
     (let (result, calls) = teardown_of rt s; reason = es_terminal_reason s in
      s\<lparr> es_tasks := filter (\<lambda>t. Some t = es_initiator s) (es_tasks s),
         es_resources := map (close_resource rt reason) (es_resources s),
         es_legs := map (\<lambda>(k, leg). (k, close_leg rt reason leg)) (es_legs s),
         es_phase := P_TERMINATED, es_terminated := True,
         es_termination_task := Some (Some result),
         es_log := es_log s @ calls @ [Terminated result] \<rparr>)"

section \<open>What a termination does\<close>

definition resource_fault :: "runtime \<Rightarrow> string \<Rightarrow> managed_resource \<Rightarrow> outcome" where
  "resource_fault rt reason r = outcome_of (mr_close_task (close_resource rt reason r))"

definition leg_fault :: "runtime \<Rightarrow> string \<Rightarrow> call_leg \<Rightarrow> outcome" where
  "leg_fault rt reason leg = outcome_of (cl_close_task (close_leg rt reason leg))"

definition fault_text :: "string \<Rightarrow> string \<Rightarrow> outcome \<Rightarrow> string list" where
  "fault_text kind name o' = (case o' of None \<Rightarrow> [] | Some err \<Rightarrow> [kind @ '':'' @ name @ '':'' @ err])"

lemma close_resources_eq:
  "close_resources rt reason rs (closed, errors, calls) =
     (closed @ map mr_name (filter (\<lambda>r. resource_fault rt reason r = None) rs),
      errors @ concat (map (\<lambda>r. fault_text ''resource'' (mr_name r) (resource_fault rt reason r)) rs),
      calls @ concat (map (resource_calls reason) rs))"
  by (induction rs arbitrary: closed errors calls)
    (simp_all add: close_resources_def close_one_resource_def resource_fault_def fault_text_def split: option.split)

lemma close_legs_eq:
  "foldl (close_one_leg rt reason) (closed, errors, calls) legs =
     (closed @ map cl_leg_id (filter (\<lambda>l. leg_fault rt reason l = None) legs),
      errors @ concat (map (\<lambda>l. fault_text ''leg'' (cl_leg_id l) (leg_fault rt reason l)) legs),
      calls @ concat (map (leg_calls reason) legs))"
  by (induction legs arbitrary: closed errors calls)
    (simp_all add: close_one_leg_def leg_fault_def fault_text_def split: option.split)

text \<open>The teardown in one formula.\<close>

definition pending_tasks :: "endpoint_session \<Rightarrow> handle list" where
  "pending_tasks s = filter (\<lambda>t. Some t \<noteq> es_initiator s) (es_tasks s)"

definition teardown_order :: "endpoint_session \<Rightarrow> managed_resource list" where
  "teardown_order s = before_legs (es_resources s) @ after_legs (es_resources s)"

definition teardown_legs :: "endpoint_session \<Rightarrow> call_leg list" where
  "teardown_legs s = rev (map snd (es_legs s))"

definition teardown_calls :: "endpoint_session \<Rightarrow> session_event list" where
  "teardown_calls s =
     map Cancelled (pending_tasks s)
     @ concat (map (resource_calls (es_terminal_reason s)) (before_legs (es_resources s)))
     @ concat (map (leg_calls (es_terminal_reason s)) (teardown_legs s))
     @ concat (map (resource_calls (es_terminal_reason s)) (after_legs (es_resources s)))"

lemma teardown_of_eq:
  "teardown_of rt s =
     (\<lparr> tr_reason = es_terminal_reason s,
        tr_closed_legs =
          map cl_leg_id (filter (\<lambda>l. leg_fault rt (es_terminal_reason s) l = None) (teardown_legs s)),
        tr_closed_resources =
          map mr_name (filter (\<lambda>r. resource_fault rt (es_terminal_reason s) r = None) (teardown_order s)),
        tr_errors =
          task_errors rt (pending_tasks s)
          @ concat (map (\<lambda>r. fault_text ''resource'' (mr_name r) (resource_fault rt (es_terminal_reason s) r))
              (before_legs (es_resources s)))
          @ concat (map (\<lambda>l. fault_text ''leg'' (cl_leg_id l) (leg_fault rt (es_terminal_reason s) l))
              (teardown_legs s))
          @ concat (map (\<lambda>r. fault_text ''resource'' (mr_name r) (resource_fault rt (es_terminal_reason s) r))
              (after_legs (es_resources s))) \<rparr>,
      teardown_calls s)"
  by (simp add: teardown_of_def Let_def close_resources_eq close_legs_eq teardown_legs_def
      teardown_order_def teardown_calls_def pending_tasks_def)

lemma stage_split: "\<not> LEG \<le> st \<longleftrightarrow> st < LEG" for st :: cleanup_stage
  by auto

lemma ordered_resources_mset: "mset (ordered_resources rs) = mset rs"
  by (simp add: ordered_resources_def)

lemma teardown_order_mset: "mset (teardown_order s) = mset (es_resources s)"
proof -
  have "mset (filter P xs) + mset (filter (\<lambda>x. \<not> P x) xs) = mset xs" for P and xs :: "managed_resource list"
    by (induction xs) auto
  from this [of "\<lambda>r. LEG \<le> mr_stage r" "ordered_resources (es_resources s)"] show ?thesis
    by (simp add: teardown_order_def before_legs_def after_legs_def stage_split ordered_resources_mset)
qed

lemma ordered_resources_sorted: "sorted_wrt (\<lambda>a b. mr_stage b \<le> mr_stage a) (ordered_resources rs)"
proof -
  have "sorted (map (\<lambda>r. - stage_value (mr_stage r)) (ordered_resources rs))"
    by (simp add: ordered_resources_def)
  then show ?thesis
    by (simp add: sorted_map less_eq_cleanup_stage_def)
qed

lemma teardown_order_sorted: "sorted_wrt (\<lambda>a b. mr_stage b \<le> mr_stage a) (teardown_order s)"
proof -
  have "sorted_wrt (\<lambda>a b. mr_stage b \<le> mr_stage a) (filter P (ordered_resources (es_resources s)))" for P
    using ordered_resources_sorted by (rule sorted_wrt_filter)
  moreover have "mr_stage b \<le> mr_stage a"
    if "a \<in> set (before_legs rs)" "b \<in> set (after_legs rs)" for a b rs
    using that by (auto simp: before_legs_def after_legs_def)
  ultimately show ?thesis
    by (auto simp: teardown_order_def sorted_wrt_append before_legs_def after_legs_def)
qed

lemma filter_stage:
  "filter (\<lambda>r. mr_stage r = st) (filter (\<lambda>r. P (mr_stage r)) xs) =
     (if P st then filter (\<lambda>r. mr_stage r = st) xs else [])"
  for xs :: "managed_resource list"
  by (induction xs) auto

lemma teardown_order_lifo:
  "filter (\<lambda>r. mr_stage r = st) (teardown_order s) = rev (filter (\<lambda>r. mr_stage r = st) (es_resources s))"
proof -
  have "filter (\<lambda>r. mr_stage r = st) (ordered_resources rs) = rev (filter (\<lambda>r. mr_stage r = st) rs)" for rs
    using sort_key_stable [of "\<lambda>r. - stage_value (mr_stage r)" "- stage_value st" "rev rs"]
    by (simp add: ordered_resources_def rev_filter)
  moreover have "filter (\<lambda>r. mr_stage r = st) (teardown_order s) =
      filter (\<lambda>r. mr_stage r = st) (ordered_resources (es_resources s))"
    unfolding teardown_order_def before_legs_def after_legs_def filter_append
    using filter_stage [of st "\<lambda>x. LEG \<le> x"] filter_stage [of st "\<lambda>x. x < LEG"] stage_split [of st]
    by (cases "LEG \<le> st") simp_all
  ultimately show ?thesis by simp
qed

definition all_closed :: "endpoint_session \<Rightarrow> bool" where
  "all_closed s \<longleftrightarrow> list_all (\<lambda>(k, leg). cl_close_task leg \<noteq> None) (es_legs s) \<and>
     list_all (\<lambda>r. mr_close_task r \<noteq> None) (es_resources s)"

lemma run_termination_closed: "all_closed (run_termination rt s)"
  by (auto simp: all_closed_def run_termination_def Let_def case_prod_beta list_all_iff close_leg_def
      close_resource_def split: option.splits)

lemma run_termination_log:
  "es_log (run_termination rt s) = es_log s @ teardown_calls s @ [Terminated (fst (teardown_of rt s))]"
  by (simp add: run_termination_def teardown_of_eq Let_def)

lemma closed_before_legs:
  "filter (\<lambda>r. mr_stage r \<in> {OBSERVER, MEDIA, LEG}) (teardown_order s) = before_legs (es_resources s)"
  "filter (\<lambda>r. mr_stage r \<in> {RESERVATION, PROJECTION}) (teardown_order s) = after_legs (es_resources s)"
proof -
  have early: "st \<in> {OBSERVER, MEDIA, LEG} \<longleftrightarrow> LEG \<le> st" and late: "st \<in> {RESERVATION, PROJECTION} \<longleftrightarrow> st < LEG" for st
    by (cases st; simp add: less_eq_cleanup_stage_def less_cleanup_stage_def)+
  show "filter (\<lambda>r. mr_stage r \<in> {OBSERVER, MEDIA, LEG}) (teardown_order s) = before_legs (es_resources s)"
    "filter (\<lambda>r. mr_stage r \<in> {RESERVATION, PROJECTION}) (teardown_order s) = after_legs (es_resources s)"
    unfolding early late by (auto simp: teardown_order_def before_legs_def after_legs_def filter_empty_conv)
qed

text \<open>C35: The termination task closes everything the session owns, whatever the closers raise: afterwards
  every leg and every resource is closed, and the result lists those whose closer did not raise. The tasks are
  cancelled first; then the observers, the media and the resources of the stage of the legs are closed, then the legs,
  last leg first, then the reservations and the projections, each closer once and only where it has not run before. The
  resources go by descending stage, last added first within a stage, and each resource is in that order exactly
  once. The observer of the session hears of the end last.\<close>

theorem termination_closes_everything:
  "all_closed (run_termination rt s) \<and>
   es_log (run_termination rt s) =
     es_log s @ map Cancelled (pending_tasks s)
     @ concat (map (resource_calls (es_terminal_reason s))
         (filter (\<lambda>r. mr_stage r \<in> {OBSERVER, MEDIA, LEG}) (teardown_order s)))
     @ concat (map (leg_calls (es_terminal_reason s)) (rev (map snd (es_legs s))))
     @ concat (map (resource_calls (es_terminal_reason s))
         (filter (\<lambda>r. mr_stage r \<in> {RESERVATION, PROJECTION}) (teardown_order s)))
     @ [Terminated (fst (teardown_of rt s))] \<and>
   mset (teardown_order s) = mset (es_resources s) \<and>
   sorted_wrt (\<lambda>a b. stage_value (mr_stage b) \<le> stage_value (mr_stage a)) (teardown_order s) \<and>
   filter (\<lambda>r. mr_stage r = st) (teardown_order s) = rev (filter (\<lambda>r. mr_stage r = st) (es_resources s)) \<and>
   tr_closed_legs (fst (teardown_of rt s)) =
     map cl_leg_id (filter (\<lambda>l. leg_fault rt (es_terminal_reason s) l = None) (rev (map snd (es_legs s)))) \<and>
   tr_closed_resources (fst (teardown_of rt s)) =
     map mr_name (filter (\<lambda>r. resource_fault rt (es_terminal_reason s) r = None) (teardown_order s))"
  unfolding closed_before_legs
  using run_termination_closed teardown_order_mset [of s] teardown_order_sorted [of s]
    teardown_order_lifo [of st s]
  by (simp add: run_termination_log teardown_calls_def teardown_legs_def teardown_of_eq less_eq_cleanup_stage_def)

section \<open>Sessions over time\<close>

text \<open>Legs and resources can also be closed by whoever holds them.\<close>

definition close_leg_of :: "runtime \<Rightarrow> endpoint_session \<Rightarrow> string \<Rightarrow> string \<Rightarrow> endpoint_session" where
  "close_leg_of rt s k reason =
     (case assoc (es_legs s) k of
        None \<Rightarrow> s
      | Some leg \<Rightarrow>
          s\<lparr> es_legs := md_set (es_legs s) k (close_leg rt reason leg), es_log := es_log s @ leg_calls reason leg \<rparr>)"

definition close_resource_of :: "runtime \<Rightarrow> endpoint_session \<Rightarrow> string \<Rightarrow> string \<Rightarrow> endpoint_session" where
  "close_resource_of rt s name reason =
     s\<lparr> es_resources := map (\<lambda>r. if mr_name r = name then close_resource rt reason r else r) (es_resources s),
        es_log := es_log s @ concat (map (resource_calls reason) (filter (\<lambda>r. mr_name r = name) (es_resources s))) \<rparr>"

text \<open>\<open>run_termination\<close> is the termination task when nothing comes between its awaits.  It is made of the same steps: it
  cancels, closes one resource or leg after the other, and ends.  What can come between these steps on a session that is
  not live is a closer that some holder calls itself, or a task that is done, and this is a step of its own before the
  rest.\<close>

definition teardown_steps :: "runtime \<Rightarrow> endpoint_session \<Rightarrow> endpoint_session" where
  "teardown_steps rt s =
     (let reason = es_terminal_reason s;
          cancelled = s\<lparr> es_tasks := filter (\<lambda>t. Some t = es_initiator s) (es_tasks s),
                         es_log := es_log s @ map Cancelled (pending_tasks s) \<rparr>;
          resources = (\<lambda>rs s. foldl (\<lambda>s r. close_resource_of rt s (mr_name r) reason) s rs);
          s1 = resources (before_legs (es_resources s)) cancelled;
          s2 = foldl (\<lambda>s leg. close_leg_of rt s (cl_leg_id leg) reason) s1 (rev (map snd (es_legs s)))
      in resources (after_legs (es_resources s)) s2)"

lemma filter_itself: "distinct xs \<Longrightarrow> x \<in> set xs \<Longrightarrow> filter (\<lambda>y. y = x) xs = [x]"
  by (induction xs) (auto simp: filter_empty_conv)

lemma close_resources_of:
  assumes "distinct (map mr_name (es_resources s))" "distinct (map mr_name rs)" "set rs \<subseteq> set (es_resources s)"
  shows "foldl (\<lambda>s r. close_resource_of rt s (mr_name r) reason) s rs =
    s\<lparr> es_resources := map (\<lambda>r. if r \<in> set rs then close_resource rt reason r else r) (es_resources s),
       es_log := es_log s @ concat (map (resource_calls reason) rs) \<rparr>"
  using assms(2,3)
proof (induction rs rule: rev_induct)
  case (snoc r rs)
  have name: "mr_name x = mr_name r \<longleftrightarrow> x = r" if "x \<in> set (es_resources s)" for x
    using that snoc.prems(2) assms(1) by (auto simp: distinct_map inj_on_def)
  let ?f = "\<lambda>x. if x \<in> set rs then close_resource rt reason x else x"
  have kept: "mr_name (?f x) = mr_name x" for x
    by (simp add: close_resource_def split: option.split)
  have "filter (\<lambda>x. mr_name x = mr_name r) (map ?f (es_resources s)) = [r]"
  proof -
    have "filter (\<lambda>x. mr_name x = mr_name r) (map ?f (es_resources s)) = map ?f (filter (\<lambda>x. x = r) (es_resources s))"
      by (simp add: filter_map o_def kept name cong: filter_cong)
    also have "filter (\<lambda>x. x = r) (es_resources s) = [r]"
      using snoc.prems(2) assms(1) by (intro filter_itself) (simp_all add: distinct_map)
    finally show ?thesis using snoc.prems(1) by auto
  qed
  moreover have "r \<notin> set rs"
    using snoc.prems(1) by auto
  moreover have "map (\<lambda>x. if mr_name x = mr_name r then close_resource rt reason x else x) (map ?f (es_resources s)) =
      map (\<lambda>x. if x \<in> set (rs @ [r]) then close_resource rt reason x else x) (es_resources s)"
    using \<open>r \<notin> set rs\<close> by (auto simp: kept name)
  ultimately show ?case
    using snoc by (simp add: close_resource_of_def)
qed simp

lemma md_set_map:
  "distinct (map fst md) \<Longrightarrow> (k, v) \<in> set md \<Longrightarrow>
   md_set (map (\<lambda>(k, v). (k, g k v)) md) k v' = map (\<lambda>(k', v). (k', if k' = k then v' else g k' v)) md"
  by (induction md) (auto simp: rev_image_eqI)

lemma assoc_of_map:
  "distinct (map fst md) \<Longrightarrow> (k, v) \<in> set md \<Longrightarrow> assoc (map (\<lambda>(k, v). (k, g k v)) md) k = Some (g k v)"
  by (induction md) (auto simp: rev_image_eqI)

lemma close_legs_of:
  assumes "distinct (map fst (es_legs s))" "list_all (\<lambda>(k, leg). k = cl_leg_id leg) (es_legs s)"
    and "distinct (map cl_leg_id legs)" "set legs \<subseteq> snd ` set (es_legs s)"
  shows "foldl (\<lambda>s leg. close_leg_of rt s (cl_leg_id leg) reason) s legs =
    s\<lparr> es_legs := map (\<lambda>(k, leg). (k, if leg \<in> set legs then close_leg rt reason leg else leg)) (es_legs s),
       es_log := es_log s @ concat (map (leg_calls reason) legs) \<rparr>"
  using assms(3,4)
proof (induction legs rule: rev_induct)
  case (snoc leg legs)
  let ?f = "\<lambda>(k :: string) x. if x \<in> set legs then close_leg rt reason x else x"
  have in_legs: "(cl_leg_id leg, leg) \<in> set (es_legs s)"
    using snoc.prems(2) assms(2) by (auto simp: list_all_iff)
  have name: "k = cl_leg_id leg \<longleftrightarrow> x = leg" if "(k, x) \<in> set (es_legs s)" for k x
    using that in_legs assms(1,2) eq_key_imp_eq_value [OF assms(1), of k x leg] by (auto simp: list_all_iff)
  have "assoc (map (\<lambda>(k, x). (k, ?f k x)) (es_legs s)) (cl_leg_id leg) = Some leg"
    using assoc_of_map [OF assms(1) in_legs, of ?f] snoc.prems(1) by auto
  moreover have "md_set (map (\<lambda>(k, x). (k, ?f k x)) (es_legs s)) (cl_leg_id leg) (close_leg rt reason leg) =
      map (\<lambda>(k, x). (k, if x \<in> set (legs @ [leg]) then close_leg rt reason x else x)) (es_legs s)"
    unfolding md_set_map [OF assms(1) in_legs] by (auto simp: name)
  ultimately show ?case
    using snoc by (simp add: close_leg_of_def)
qed (simp add: case_prod_beta)

lemma termination_by_steps:
  assumes "distinct (map fst (es_legs s))" "list_all (\<lambda>(k, leg). k = cl_leg_id leg) (es_legs s)"
    and "distinct (map mr_name (es_resources s))"
  shows "run_termination rt s =
    (teardown_steps rt s)\<lparr> es_phase := P_TERMINATED, es_terminated := True,
       es_termination_task := Some (Some (fst (teardown_of rt s))),
       es_log := es_log (teardown_steps rt s) @ [Terminated (fst (teardown_of rt s))] \<rparr>"
proof -
  let ?reason = "es_terminal_reason s" and ?rs = "es_resources s"
  let ?close = "\<lambda>rs. map (\<lambda>r. if r \<in> set rs then close_resource rt ?reason r else r)"
  have m: "mset (map mr_name (before_legs ?rs @ after_legs ?rs)) = mset (map mr_name ?rs)"
    using arg_cong [OF teardown_order_mset [of s], of "image_mset mr_name"] by (simp add: teardown_order_def)
  have distinct: "distinct (map mr_name (before_legs ?rs))" "distinct (map mr_name (after_legs ?rs))"
    using mset_eq_imp_distinct_iff [OF m] assms(3) by simp_all
  have parts: "set (before_legs ?rs) \<union> set (after_legs ?rs) = set ?rs"
    using arg_cong [OF teardown_order_mset [of s], of set_mset] by (simp add: teardown_order_def)
  have disjoint: "r \<notin> set (before_legs ?rs)" if "r \<in> set (after_legs ?rs)" for r
    using that by (auto simp: before_legs_def after_legs_def)
  have kept: "distinct (map mr_name (?close (before_legs ?rs) ?rs))"
  proof -
    have "mr_name (close_resource rt ?reason r) = mr_name r" for r
      by (simp add: close_resource_def split: option.split)
    then have "map mr_name (?close (before_legs ?rs) ?rs) = map mr_name ?rs"
      by simp
    with assms(3) show ?thesis by (simp only:)
  qed
  have sub: "set (after_legs ?rs) \<subseteq> set (?close (before_legs ?rs) ?rs)"
    using parts disjoint by force
  have all: "?close (after_legs ?rs) (?close (before_legs ?rs) ?rs) = map (close_resource rt ?reason) ?rs"
    using parts by (auto simp: close_resource_def split: option.split)
  have legs: "set (rev (map snd (es_legs s))) \<subseteq> snd ` set (es_legs s)" "distinct (map cl_leg_id (rev (map snd (es_legs s))))"
    using assms(1,2) by (simp_all add: rev_map [symmetric] list_all_iff case_prod_beta o_def cong: map_cong)
  have every: "map (\<lambda>(k, leg). (k, if leg \<in> snd ` set (es_legs s) then close_leg rt ?reason leg else leg)) (es_legs s) =
      map (\<lambda>(k, leg). (k, close_leg rt ?reason leg)) (es_legs s)"
    by force
  let ?s0 = "s\<lparr> es_tasks := filter (\<lambda>t. Some t = es_initiator s) (es_tasks s), es_log := es_log s @ map Cancelled (pending_tasks s) \<rparr>"
  have s1: "foldl (\<lambda>s r. close_resource_of rt s (mr_name r) ?reason) ?s0 (before_legs ?rs) =
      ?s0\<lparr> es_resources := ?close (before_legs ?rs) ?rs,
        es_log := es_log ?s0 @ concat (map (resource_calls ?reason) (before_legs ?rs)) \<rparr>" (is "_ = ?s1")
    using close_resources_of [of ?s0 "before_legs ?rs"] assms(3) distinct(1) parts by auto
  have s2: "foldl (\<lambda>s leg. close_leg_of rt s (cl_leg_id leg) ?reason) ?s1 (rev (map snd (es_legs s))) =
      ?s1\<lparr> es_legs := map (\<lambda>(k, leg). (k, close_leg rt ?reason leg)) (es_legs s),
        es_log := es_log ?s1 @ concat (map (leg_calls ?reason) (rev (map snd (es_legs s)))) \<rparr>" (is "_ = ?s2")
    using close_legs_of [of ?s1 "rev (map snd (es_legs s))" rt ?reason] assms(1,2) legs every by simp
  have s3: "foldl (\<lambda>s r. close_resource_of rt s (mr_name r) ?reason) ?s2 (after_legs ?rs) =
      ?s2\<lparr> es_resources := map (close_resource rt ?reason) ?rs,
        es_log := es_log ?s2 @ concat (map (resource_calls ?reason) (after_legs ?rs)) \<rparr>"
    using close_resources_of [of ?s2 "after_legs ?rs" rt ?reason] distinct(2) sub kept all by (simp del: map_map set_map)
  show ?thesis
    unfolding teardown_steps_def Let_def s1 s2 s3
    by (simp add: run_termination_def teardown_of_eq Let_def teardown_calls_def teardown_legs_def)
qed

inductive session_step :: "runtime \<Rightarrow> endpoint_session \<Rightarrow> endpoint_session \<Rightarrow> bool" for rt where
  step_transition: "transition s phase expected = Inr s' \<Longrightarrow> phase \<notin> {P_TERMINATING, P_TERMINATED} \<Longrightarrow>
    session_step rt s s'"
| step_metadata: "update_session_metadata s vals = Inr s' \<Longrightarrow> session_step rt s s'"
| step_add_leg: "add_leg s leg = Inr s' \<Longrightarrow> session_step rt s s'"
| step_add_resource: "add_resource s name val closer stage = Inr s' \<Longrightarrow> session_step rt s s'"
| step_release_resource: "release_resource s name val = Inr (s', r) \<Longrightarrow> session_step rt s s'"
| step_release_leg: "release_leg s leg_id dialog = Inr (s', leg) \<Longrightarrow> session_step rt s s'"
| step_own_task: "own_task s task = Inr s' \<Longrightarrow> session_step rt s s'"
| step_task_done: "session_step rt s (task_done s task)"
| step_release_task: "release_task s task = Inr (s', b) \<Longrightarrow> session_step rt s s'"
| step_close_leg: "session_step rt s (close_leg_of rt s k reason)"
| step_close_resource: "session_step rt s (close_resource_of rt s name reason)"
| step_start: "session_step rt s (start_termination current s reason)"
| step_run: "es_termination_task s = Some None \<Longrightarrow> session_step rt s (run_termination rt s)"

inductive_cases session_stepE: "session_step rt s s'"

inductive session_reachable :: "runtime \<Rightarrow> endpoint_session \<Rightarrow> bool" for rt where
  reach_new: "new_session call_id generation phase = Inr s \<Longrightarrow> phase \<notin> {P_TERMINATING, P_TERMINATED} \<Longrightarrow>
    session_reachable rt s"
| reach_step: "session_reachable rt s \<Longrightarrow> session_step rt s s' \<Longrightarrow> session_reachable rt s'"

definition is_terminated_event :: "session_event \<Rightarrow> bool" where
  "is_terminated_event e = (case e of Terminated _ \<Rightarrow> True | _ \<Rightarrow> False)"

text \<open>The invariant of a session.\<close>

definition session_ok :: "endpoint_session \<Rightarrow> bool" where
  "session_ok s \<longleftrightarrow>
     es_call_id s \<noteq> [] \<and> 0 < es_generation s \<and>
     distinct (map fst (es_legs s)) \<and> list_all (\<lambda>(k, leg). k = cl_leg_id leg \<and> k \<noteq> []) (es_legs s) \<and>
     distinct (map mr_name (es_resources s)) \<and> list_all (\<lambda>r. strip (mr_name r) \<noteq> []) (es_resources s) \<and>
     distinct (es_tasks s) \<and>
     (case es_termination_task s of
        None \<Rightarrow> live s \<and> \<not> es_termination_started s \<and> \<not> es_terminated s
      | Some None \<Rightarrow> es_phase s = P_TERMINATING \<and> es_termination_started s \<and> \<not> es_terminated s
      | Some (Some r) \<Rightarrow> es_phase s = P_TERMINATED \<and> es_termination_started s \<and> es_terminated s \<and>
          all_closed s \<and> tr_reason r = es_terminal_reason s) \<and>
     (es_termination_task s = None \<or> es_terminal_reason s \<noteq> []) \<and>
     length (filter is_terminated_event (es_log s)) = (if es_terminated s then 1 else 0)"

lemmas session_op_defs = transition_def update_session_metadata_def add_leg_def add_resource_def
  release_resource_def release_leg_def own_task_def release_task_def ensure_live_def

lemma take_resource_props:
  "take_resource P rs = Some (r, rest) \<Longrightarrow>
   set rs = insert r (set rest) \<and> (distinct (map mr_name rs) \<longrightarrow> distinct (map mr_name rest))"
  by (induction P rs arbitrary: r rest rule: take_resource.induct) (auto split: if_splits)

lemma session_ok_live: "session_ok s \<Longrightarrow> live s \<Longrightarrow> es_termination_task s = None"
  by (auto simp: session_ok_def live_def split: option.splits)

lemma session_ok_task: "session_ok s \<Longrightarrow> es_termination_task s = None \<Longrightarrow> live s"
  by (auto simp: session_ok_def)

text \<open>The part of the invariant an operation of a live session has to keep.\<close>

definition owned_ok :: "endpoint_session \<Rightarrow> bool" where
  "owned_ok s \<longleftrightarrow>
     distinct (map fst (es_legs s)) \<and> list_all (\<lambda>(k, leg). k = cl_leg_id leg \<and> k \<noteq> []) (es_legs s) \<and>
     distinct (map mr_name (es_resources s)) \<and> list_all (\<lambda>r. strip (mr_name r) \<noteq> []) (es_resources s) \<and>
     distinct (es_tasks s)"

lemma session_ok_owned: "session_ok s \<Longrightarrow> owned_ok s"
  by (simp add: session_ok_def owned_ok_def)

definition same_identity :: "endpoint_session \<Rightarrow> endpoint_session \<Rightarrow> bool" where
  "same_identity s s' \<longleftrightarrow> es_call_id s' = es_call_id s \<and> es_generation s' = es_generation s"

text \<open>What an operation of a live session may change.\<close>

definition live_change :: "endpoint_session \<Rightarrow> endpoint_session \<Rightarrow> bool" where
  "live_change s s' \<longleftrightarrow>
     live s \<and> live s' \<and> same_identity s s' \<and> owned_ok s' \<and>
     es_termination_task s' = es_termination_task s \<and> es_termination_started s' = es_termination_started s \<and>
     es_terminated s' = es_terminated s \<and> es_terminal_reason s' = es_terminal_reason s \<and>
     filter is_terminated_event (es_log s') = filter is_terminated_event (es_log s)"

lemma live_change_ok:
  assumes "session_ok s" and "live_change s s'"
  shows "session_ok s'"
proof -
  have "es_termination_task s = None"
    using assms session_ok_live by (simp add: live_change_def)
  moreover have "length (filter is_terminated_event (es_log s')) = length (filter is_terminated_event (es_log s))"
    using assms(2) by (simp add: live_change_def)
  moreover have "es_call_id s \<noteq> []" "0 < es_generation s" "\<not> es_termination_started s" "\<not> es_terminated s"
    "length (filter is_terminated_event (es_log s)) = (if es_terminated s then 1 else 0)"
    using assms(1) calculation(1) by (simp_all add: session_ok_def)
  ultimately show ?thesis
    using assms(2) unfolding session_ok_def live_change_def owned_ok_def same_identity_def by simp
qed

lemma transition_change:
  assumes "owned_ok s" "transition s phase expected = Inr s'" "phase \<notin> {P_TERMINATING, P_TERMINATED}"
  shows "live_change s s'"
  using assms
  by (auto simp: session_op_defs live_change_def live_def same_identity_def owned_ok_def log_event_def
      is_terminated_event_def split: if_splits)

lemma metadata_change:
  assumes "owned_ok s" "update_session_metadata s values = Inr s'"
  shows "live_change s s'"
  using assms
  by (auto simp: session_op_defs live_change_def live_def same_identity_def owned_ok_def log_event_def
      is_terminated_event_def case_prod_beta Let_def split: if_splits)

lemma add_leg_change:
  assumes "owned_ok s" "add_leg s leg = Inr s'"
  shows "live_change s s'"
proof -
  have leg: "cl_leg_id leg \<noteq> []" "assoc (es_legs s) (cl_leg_id leg) = None" and l: "live s"
    and s': "s' = s\<lparr> es_legs := md_set (es_legs s) (cl_leg_id leg) leg \<rparr>"
    using assms(2) by (auto simp: session_op_defs split: if_splits)
  have d: "distinct (map fst (es_legs s))"
    using assms(1) by (simp add: owned_ok_def)
  have "list_all (\<lambda>(k, leg). k = cl_leg_id leg \<and> k \<noteq> []) (md_set (es_legs s) (cl_leg_id leg) leg)"
    using assms(1) leg(1) by (auto simp: list_all_iff owned_ok_def set_md_set [OF d])
  then show ?thesis
    using assms(1) l distinct_md_set [OF d]
    by (simp add: s' live_change_def live_def same_identity_def owned_ok_def)
qed

lemma add_resource_change:
  assumes "owned_ok s" "add_resource s name val closer stage = Inr s'"
  shows "live_change s s'"
  using assms
  by (auto simp: session_op_defs live_change_def live_def same_identity_def owned_ok_def list_ex_iff
      split: if_splits)

lemma release_resource_change:
  assumes "owned_ok s" "release_resource s name val = Inr (s', r)"
  shows "live_change s s'"
proof -
  have l: "live s"
    using assms(2) by (auto simp: session_op_defs split: if_splits)
  show ?thesis
  proof (cases "take_resource (\<lambda>r. mr_name r = name \<and> (val = None \<or> val = Some (mr_value r))) (es_resources s)")
    case None
    with assms l show ?thesis
      by (auto simp: session_op_defs live_change_def same_identity_def)
  next
    case (Some p)
    obtain x rest where p: "p = (x, rest)" by (cases p)
    have s': "s' = s\<lparr> es_resources := rest \<rparr>"
      using assms(2) Some l by (simp add: session_op_defs p)
    have "distinct (map mr_name rest)" "list_all (\<lambda>r. strip (mr_name r) \<noteq> []) rest"
      using assms(1) take_resource_props [OF Some [unfolded p]] by (auto simp: owned_ok_def list_all_iff)
    with assms(1) l show ?thesis
      by (simp add: s' live_change_def live_def same_identity_def owned_ok_def)
  qed
qed

lemma release_leg_change:
  assumes "owned_ok s" "release_leg s leg_id dialog = Inr (s', leg)"
  shows "live_change s s'"
proof -
  have l: "live s"
    using assms(2) by (auto simp: session_op_defs split: if_splits)
  have del: "distinct (map fst (md_del (es_legs s) k))"
    "list_all (\<lambda>(k, leg). k = cl_leg_id leg \<and> k \<noteq> []) (md_del (es_legs s) k)" for k
    using assms(1) distinct_map_filter by (auto simp: owned_ok_def md_del_def list_all_iff)
  show ?thesis
    using assms l del
    by (auto simp: session_op_defs live_change_def live_def same_identity_def owned_ok_def
        split: option.splits if_splits)
qed

lemma task_changes:
  assumes "owned_ok s"
  shows "own_task s task = Inr s' \<Longrightarrow> live_change s s'"
    and "release_task s task = Inr (s', b) \<Longrightarrow> live_change s s'"
  using assms
  by (auto simp: session_op_defs live_change_def live_def same_identity_def owned_ok_def distinct_removeAll
      split: if_splits)

lemma task_done_ok: "session_ok s \<Longrightarrow> session_ok (task_done s task)"
  by (cases "es_termination_task s")
    (auto simp: session_ok_def task_done_def live_def all_closed_def distinct_removeAll split: option.splits)

lemma leg_calls_no_end: "filter is_terminated_event (leg_calls reason leg) = []"
  by (auto simp: leg_calls_def is_terminated_event_def split: option.splits)

lemma resource_calls_no_end: "filter is_terminated_event (resource_calls reason r) = []"
  by (auto simp: resource_calls_def is_terminated_event_def split: option.splits)

lemma concat_calls_no_end:
  "(\<And>x. filter P (f x) = []) \<Longrightarrow> filter P (concat (map f xs)) = []"
  by (induction xs) auto

lemma close_leg_props [simp]:
  "cl_leg_id (close_leg rt reason leg) = cl_leg_id leg"
  "\<exists>y. cl_close_task (close_leg rt reason leg) = Some y"
  by (simp_all add: close_leg_def split: option.split)

lemma close_resource_props [simp]:
  "mr_name (close_resource rt reason r) = mr_name r"
  "\<exists>y. mr_close_task (close_resource rt reason r) = Some y"
  by (simp_all add: close_resource_def split: option.split)

text \<open>A change of close tasks and of the log only.\<close>

definition closing_change :: "endpoint_session \<Rightarrow> endpoint_session \<Rightarrow> bool" where
  "closing_change s s' \<longleftrightarrow>
     same_identity s s' \<and> es_phase s' = es_phase s \<and> owned_ok s' \<and>
     map fst (es_legs s') = map fst (es_legs s) \<and>
     map mr_name (es_resources s') = map mr_name (es_resources s) \<and>
     es_termination_task s' = es_termination_task s \<and> es_termination_started s' = es_termination_started s \<and>
     es_terminated s' = es_terminated s \<and> es_terminal_reason s' = es_terminal_reason s \<and>
     filter is_terminated_event (es_log s') = filter is_terminated_event (es_log s) \<and>
     (all_closed s \<longrightarrow> all_closed s')"

lemma closing_change_ok:
  assumes "session_ok s" and "closing_change s s'"
  shows "session_ok s'"
proof -
  have live: "live s' = live s"
    using assms(2) by (simp add: closing_change_def live_def)
  show ?thesis
    using assms live
    by (cases "es_termination_task s"; cases "the (es_termination_task s)")
      (simp_all add: session_ok_def closing_change_def same_identity_def owned_ok_def)
qed

lemma md_set_present: "k \<in> fst ` set md \<Longrightarrow> map fst (md_set md k v) = map fst md"
  by (simp add: keys_md_set)

lemma close_leg_of_change:
  assumes "owned_ok s"
  shows "closing_change s (close_leg_of rt s k reason)"
proof (cases "assoc (es_legs s) k")
  case None
  then show ?thesis
    using assms by (simp add: close_leg_of_def closing_change_def same_identity_def)
next
  case (Some leg)
  then have k: "(k, leg) \<in> set (es_legs s)"
    by (rule assoc_Some_in)
  then have keys: "map fst (md_set (es_legs s) k (close_leg rt reason leg)) = map fst (es_legs s)"
    by (intro md_set_present) force
  have d: "distinct (map fst (es_legs s))" "k = cl_leg_id leg" "k \<noteq> []"
    using assms k by (auto simp: owned_ok_def list_all_iff)
  have "list_all (\<lambda>(k, leg). k = cl_leg_id leg \<and> k \<noteq> []) (md_set (es_legs s) k (close_leg rt reason leg))"
    using assms d by (auto simp: owned_ok_def list_all_iff set_md_set [OF d(1)])
  then have "owned_ok (close_leg_of rt s k reason)"
    using assms Some keys by (simp add: owned_ok_def close_leg_of_def)
  moreover have "all_closed s \<longrightarrow> all_closed (close_leg_of rt s k reason)"
    using Some by (auto simp: all_closed_def close_leg_of_def list_all_iff set_md_set [OF d(1)])
  ultimately show ?thesis
    using Some keys by (simp add: closing_change_def close_leg_of_def same_identity_def leg_calls_no_end)
qed

lemma close_resource_of_change:
  assumes "owned_ok s"
  shows "closing_change s (close_resource_of rt s name reason)"
proof -
  have names: "mr_name \<circ> (\<lambda>r. if mr_name r = name then close_resource rt reason r else r) = mr_name"
    by (rule ext) simp
  have "owned_ok (close_resource_of rt s name reason)"
    using assms by (auto simp: owned_ok_def close_resource_of_def list_all_iff names)
  then show ?thesis
    by (auto simp: closing_change_def close_resource_of_def same_identity_def all_closed_def list_all_iff names
        concat_calls_no_end resource_calls_no_end)
qed

lemma start_termination_ok:
  assumes "session_ok s"
  shows "session_ok (start_termination current s reason)"
proof (cases "es_termination_task s")
  case None
  with assms show ?thesis
    by (auto simp: session_ok_def start_termination_def Let_def log_event_def or_else_def is_terminated_event_def
        distinct_removeAll split: option.split)
next
  case (Some r)
  with assms show ?thesis
    by (simp add: start_termination_def)
qed

lemma teardown_calls_no_end: "filter is_terminated_event (teardown_calls s) = []"
proof -
  have "filter is_terminated_event (map Cancelled ts) = []" for ts
    by (induction ts) (simp_all add: is_terminated_event_def)
  then show ?thesis
    by (simp add: teardown_calls_def concat_calls_no_end leg_calls_no_end resource_calls_no_end)
qed

lemma run_termination_keys:
  "map fst (es_legs (run_termination rt s)) = map fst (es_legs s)"
  "map mr_name (es_resources (run_termination rt s)) = map mr_name (es_resources s)"
  "same_identity s (run_termination rt s)"
  "es_terminal_reason (run_termination rt s) = es_terminal_reason s"
  "es_termination_task (run_termination rt s) = Some (Some (fst (teardown_of rt s)))"
  by (simp_all add: run_termination_def Let_def case_prod_beta same_identity_def comp_def)

lemma run_termination_ok:
  assumes "session_ok s" and "es_termination_task s = Some None"
  shows "session_ok (run_termination rt s)"
proof -
  let ?s = "run_termination rt s"
  have legs: "list_all (\<lambda>(k, leg). k = cl_leg_id leg \<and> k \<noteq> []) (es_legs ?s)"
    and res: "list_all (\<lambda>r. strip (mr_name r) \<noteq> []) (es_resources ?s)"
    and tasks: "distinct (es_tasks ?s)"
    using assms(1) by (auto simp: session_ok_def run_termination_def Let_def case_prod_beta list_all_iff)
  have "es_phase ?s = P_TERMINATED" "es_terminated ?s" "es_termination_started ?s"
    "tr_reason (fst (teardown_of rt s)) = es_terminal_reason s"
    using assms by (simp_all add: run_termination_def Let_def case_prod_beta session_ok_def teardown_of_eq)
  moreover have "length (filter is_terminated_event (es_log ?s)) = 1"
  proof -
    have "\<not> es_terminated s" "length (filter is_terminated_event (es_log s)) = (if es_terminated s then 1 else 0)"
      using assms by (simp_all add: session_ok_def)
    then have "filter is_terminated_event (es_log s) = []"
      by simp
    then show ?thesis
      by (simp add: run_termination_log teardown_calls_no_end) (simp add: is_terminated_event_def)
  qed
  ultimately show ?thesis
    using assms legs res tasks run_termination_closed [of rt s] run_termination_keys [where rt = rt and s = s]
    unfolding session_ok_def same_identity_def by simp
qed

lemma session_step_ok:
  assumes "session_step rt s s'" and "session_ok s"
  shows "session_ok s'"
proof -
  have o': "owned_ok s"
    using assms(2) by (rule session_ok_owned)
  show ?thesis
    using assms(1)
  proof (cases rule: session_step.cases)
    case (step_transition phase expected)
    then show ?thesis using live_change_ok [OF assms(2)] transition_change [OF o'] by blast
  next
    case (step_metadata vals)
    then show ?thesis using live_change_ok [OF assms(2)] metadata_change [OF o'] by blast
  next
    case (step_add_leg leg)
    then show ?thesis using live_change_ok [OF assms(2)] add_leg_change [OF o'] by blast
  next
    case (step_add_resource name val closer stage)
    then show ?thesis using live_change_ok [OF assms(2)] add_resource_change [OF o'] by blast
  next
    case (step_release_resource name val r)
    then show ?thesis using live_change_ok [OF assms(2)] release_resource_change [OF o'] by blast
  next
    case (step_release_leg leg_id dialog leg)
    then show ?thesis using live_change_ok [OF assms(2)] release_leg_change [OF o'] by blast
  next
    case (step_own_task task)
    then show ?thesis using live_change_ok [OF assms(2)] task_changes(1) [OF o'] by blast
  next
    case (step_task_done task)
    then show ?thesis using task_done_ok assms(2) by simp
  next
    case (step_release_task task b)
    then show ?thesis using live_change_ok [OF assms(2)] task_changes(2) [OF o'] by blast
  next
    case (step_close_leg k reason)
    then show ?thesis using closing_change_ok [OF assms(2)] close_leg_of_change [OF o'] by simp
  next
    case (step_close_resource name reason)
    then show ?thesis using closing_change_ok [OF assms(2)] close_resource_of_change [OF o'] by simp
  next
    case (step_start current reason)
    then show ?thesis using start_termination_ok assms(2) by simp
  next
    case step_run
    then show ?thesis using run_termination_ok assms(2) by simp
  qed
qed

lemma new_session_ok:
  "new_session call_id generation phase = Inr s \<Longrightarrow> phase \<notin> {P_TERMINATING, P_TERMINATED} \<Longrightarrow> session_ok s"
  by (auto simp: new_session_def Let_def session_ok_def live_def split: if_splits)

lemma session_reachable_ok: "session_reachable rt s \<Longrightarrow> session_ok s"
  by (induction rule: session_reachable.induct) (auto intro: new_session_ok session_step_ok)

section \<open>Termination is final\<close>

lemma refused_when_terminating:
  assumes "\<not> live s"
  shows "transition s phase expected = Inl (RuntimeError ''call session is no longer current'')"
    "update_session_metadata s vals = Inl (RuntimeError ''call session is no longer current'')"
    "add_leg s leg = Inl (RuntimeError ''call session is no longer current'')"
    "add_resource s name val closer stage = Inl (RuntimeError ''call session is no longer current'')"
    "release_resource s name val' = Inl (RuntimeError ''call session is no longer current'')"
    "release_leg s leg_id dialog = Inl (RuntimeError ''call session is no longer current'')"
    "own_task s task = Inl (RuntimeError ''call session is no longer current'')"
    "release_task s task = Inl (RuntimeError ''call session is no longer current'')"
  using assms by (simp_all add: session_op_defs)

definition same_shape :: "endpoint_session \<Rightarrow> endpoint_session \<Rightarrow> bool" where
  "same_shape s s' \<longleftrightarrow>
     same_identity s s' \<and> es_terminal_reason s' = es_terminal_reason s \<and>
     map fst (es_legs s') = map fst (es_legs s) \<and>
     map mr_name (es_resources s') = map mr_name (es_resources s) \<and>
     es_termination_task s' \<noteq> None \<and>
     (\<forall>r. es_termination_task s = Some (Some r) \<longrightarrow> es_termination_task s' = Some (Some r))"

lemma same_shape_trans: "same_shape a b \<Longrightarrow> same_shape b c \<Longrightarrow> same_shape a c"
  by (simp add: same_shape_def same_identity_def)

lemma closing_change_shape: "closing_change s s' \<Longrightarrow> es_termination_task s \<noteq> None \<Longrightarrow> same_shape s s'"
  by (simp add: closing_change_def same_shape_def)

lemma not_live: "session_ok s \<Longrightarrow> es_termination_task s \<noteq> None \<Longrightarrow> \<not> live s"
  using session_ok_live [of s] by metis

lemma terminating_step:
  assumes "session_step rt s s'" and "session_ok s" and "es_termination_task s \<noteq> None"
  shows "same_shape s s'"
proof -
  note refused = refused_when_terminating [OF not_live [OF assms(2,3)]]
  have o': "owned_ok s"
    using assms(2) by (rule session_ok_owned)
  show ?thesis
    using assms(1)
  proof (cases rule: session_step.cases)
    case (step_task_done task)
    then show ?thesis using assms(3) by (simp add: same_shape_def task_done_def same_identity_def)
  next
    case (step_close_leg k reason)
    then show ?thesis using closing_change_shape [OF close_leg_of_change [OF o'] assms(3)] by simp
  next
    case (step_close_resource name reason)
    then show ?thesis using closing_change_shape [OF close_resource_of_change [OF o'] assms(3)] by simp
  next
    case (step_start current reason)
    then show ?thesis using assms(3) by (auto simp: same_shape_def start_termination_def same_identity_def)
  next
    case step_run
    then show ?thesis
      using run_termination_keys [where rt = rt and s = s] by (simp add: same_shape_def)
  qed (simp_all add: refused)
qed

lemma terminating_steps:
  assumes "(session_step rt)\<^sup>*\<^sup>* s s'" and "session_ok s" and "es_termination_task s \<noteq> None"
  shows "session_ok s' \<and> same_shape s s'"
  using assms(1)
proof (induction rule: rtranclp_induct)
  case base
  then show ?case using assms(2,3) by (simp add: same_shape_def same_identity_def)
next
  case (step a b)
  then have a: "session_ok a" "same_shape s a" and "es_termination_task a \<noteq> None"
    by (auto simp: same_shape_def)
  with step have "session_ok b" "same_shape a b"
    using session_step_ok terminating_step by blast+
  with a show ?case
    using same_shape_trans by blast
qed

text \<open>C40: Termination is final: from the moment it is started no later operation, in any order, makes the
  session live again, changes its reason or identity, or adds or takes away a leg or a resource; its
  observer is told of the end at most once, and once it has ended everything it owns is closed and its
  result stays the same.\<close>

theorem termination_is_final:
  assumes "session_reachable rt s" and "es_termination_task s \<noteq> None" and "(session_step rt)\<^sup>*\<^sup>* s s'"
  shows "\<not> live s' \<and> es_call_id s' = es_call_id s \<and> es_generation s' = es_generation s \<and>
    es_terminal_reason s' = es_terminal_reason s \<and> es_terminal_reason s \<noteq> [] \<and>
    map fst (es_legs s') = map fst (es_legs s) \<and>
    map mr_name (es_resources s') = map mr_name (es_resources s) \<and>
    length (filter is_terminated_event (es_log s')) \<le> 1 \<and>
    (es_terminated s' \<longrightarrow> all_closed s') \<and>
    (es_terminated s \<longrightarrow> es_termination_task s' = es_termination_task s)"
proof -
  have ok: "session_ok s"
    using assms(1) by (rule session_reachable_ok)
  have s': "session_ok s'" "same_shape s s'"
    using terminating_steps [OF assms(3) ok assms(2)] by auto
  have "\<not> live s'" "es_terminal_reason s \<noteq> []"
    using not_live [OF s'(1)] s'(2) assms(2) ok by (auto simp: same_shape_def session_ok_def)
  moreover have "length (filter is_terminated_event (es_log s')) = (if es_terminated s' then 1 else 0)"
    using s'(1) by (simp add: session_ok_def)
  moreover have "es_terminated s \<longrightarrow> es_termination_task s' = es_termination_task s"
    using s'(2) ok by (auto simp: same_shape_def session_ok_def split: option.splits)
  moreover have "es_terminated s' \<longrightarrow> all_closed s'"
    using s'(1) by (auto simp: session_ok_def split: option.splits)
  ultimately show ?thesis
    using s'(2) unfolding same_shape_def same_identity_def by simp
qed

definition example_runtime :: runtime where
  "example_runtime = \<lparr> rt_closer = (\<lambda>c reason. if c = Closer ''stop'' [] [7] then Some ''OSError'' else None),
     rt_task_error = (\<lambda>t. None), rt_task_name = (\<lambda>t. ''task'') \<rparr>"

definition example_session :: endpoint_session where
  "example_session =
     \<lparr> es_call_id = ''c1'', es_generation = 1, es_phase = P_ROUTING, es_terminal_reason = [],
       es_legs = [(''a'', \<lparr> cl_leg_id = ''a'', cl_kind = K_SIP, cl_endpoint_id = [], cl_sip_call_id = [],
          cl_phase = L_NEW, cl_dialog = None, cl_media = None, cl_closer = Some (Closer ''bye'' [] [5]), cl_close_task = None \<rparr>)],
       es_resources = [\<lparr> mr_name = ''relay'', mr_value = 1, mr_closer = Closer ''stop'' [] [7], mr_stage = MEDIA, mr_close_task = None \<rparr>],
       es_tasks = [], es_metadata = [], es_termination_started = False, es_terminated = False,
       es_termination_task = None, es_initiator = None, es_log = [Changed P_ROUTING] \<rparr>"

lemma example_session_reachable: "session_reachable rt example_session"
proof -
  let ?s0 = "\<lparr> es_call_id = ''c1'', es_generation = 1, es_phase = P_NEW,
          es_terminal_reason = [], es_legs = [], es_resources = [], es_tasks = [], es_metadata = [],
          es_termination_started = False, es_terminated = False, es_termination_task = None,
          es_initiator = None, es_log = [] \<rparr>"
  let ?leg = "\<lparr> cl_leg_id = ''a'', cl_kind = K_SIP, cl_endpoint_id = [], cl_sip_call_id = [],
          cl_phase = L_NEW, cl_dialog = None, cl_media = None, cl_closer = Some (Closer ''bye'' [] [5]), cl_close_task = None \<rparr>"
  have strips: "strip ''c1'' = ''c1''" "strip ''relay'' = ''relay''"
    by (simp_all add: strip_def lstrip_def rstrip_def is_space_def)
  have "session_reachable rt ?s0"
    by (rule reach_new [where call_id = "''c1''" and generation = 1 and phase = P_NEW])
      (simp_all add: new_session_def strips)
  moreover have "transition ?s0 P_ROUTING None = Inr (?s0\<lparr> es_phase := P_ROUTING, es_log := [Changed P_ROUTING] \<rparr>)"
    by (simp add: session_op_defs live_def log_event_def)
  ultimately have "session_reachable rt (?s0\<lparr> es_phase := P_ROUTING, es_log := [Changed P_ROUTING] \<rparr>)"
    by (rule reach_step [OF _ step_transition]) simp_all
  moreover have "add_leg (?s0\<lparr> es_phase := P_ROUTING, es_log := [Changed P_ROUTING] \<rparr>) ?leg =
      Inr (?s0\<lparr> es_phase := P_ROUTING, es_log := [Changed P_ROUTING], es_legs := [(''a'', ?leg)] \<rparr>)"
    by (simp add: session_op_defs live_def)
  ultimately have "session_reachable rt
      (?s0\<lparr> es_phase := P_ROUTING, es_log := [Changed P_ROUTING], es_legs := [(''a'', ?leg)] \<rparr>)"
    by (rule reach_step [OF _ step_add_leg])
  moreover have "add_resource (?s0\<lparr> es_phase := P_ROUTING, es_log := [Changed P_ROUTING], es_legs := [(''a'', ?leg)] \<rparr>)
      ''relay'' 1 (Closer ''stop'' [] [7]) MEDIA = Inr example_session"
    by (simp add: session_op_defs live_def strips example_session_def)
  ultimately show ?thesis
    by (rule reach_step [OF _ step_add_resource])
qed

theorem termination_is_final_witness:
  "let s = start_termination None example_session ''bye'';
       s' = run_termination example_runtime s in
   \<not> live s' \<and> es_terminal_reason s' = ''bye'' \<and> all_closed s' \<and>
   tr_errors (fst (teardown_of example_runtime s)) = [''resource:relay:OSError'']"
proof -
  let ?s = "start_termination None example_session ''bye''"
  let ?s' = "run_termination example_runtime ?s"
  have task: "es_termination_task ?s = Some None" "es_terminal_reason ?s = ''bye''"
    by (simp_all add: start_termination_def example_session_def Let_def log_event_def or_else_def)
  have r: "session_reachable example_runtime ?s"
    using example_session_reachable step_start by (rule reach_step)
  have step: "(session_step example_runtime)\<^sup>*\<^sup>* ?s ?s'"
    using step_run [OF task(1)] by blast
  have "tr_errors (fst (teardown_of example_runtime ?s)) = [''resource:relay:OSError'']"
    by code_simp
  then show ?thesis
    using termination_is_final [OF r _ step] task run_termination_closed by (simp add: Let_def)
qed

end
