(* ===== verification/Pbx_Runtime.thy ===== *)
theory Pbx_Runtime
  imports Endpoint_Session
begin

text \<open>
  \<open>custom_components/voip_stack/pbx_runtime.py\<close>: the owner of all call sessions and of the endpoint's
  components.

  The projection is another module: an operation returns the calls it makes to it, in order, beside the
  new state (\<open>publish\<close> and \<open>remove\<close> never call back).  A session observes its changes through
  \<open>_publish\<close>, so that the snapshots of an operation are those of the sessions it changed.  The task that
  tears a session down is \<open>finish_session\<close>.  The shutdown task is \<open>begin_shutdown\<close>, a \<open>shutdown_call\<close> for each
  session it takes, any other operations in between, and \<open>finish_shutdown\<close> when every session has ended.
\<close>

section \<open>Vocabulary\<close>

datatype runtime_phase = DARK | ACTIVE | STOPPING | STOPPED

record snapshot =
  sn_call_id :: string
  sn_generation :: int
  sn_phase :: session_phase
  sn_terminal_reason :: string
  sn_leg_ids :: "string list"
  sn_metadata :: metadata

datatype projection = Publish snapshot | Remove snapshot

record component =
  co_value :: handle
  co_closer :: "handle option"

record pbx =
  pb_phase :: runtime_phase
  pb_calls :: "(string \<times> endpoint_session) list"
  pb_generation :: int
  pb_projected :: bool
  pb_components :: "(string \<times> component) list"

definition public_phases :: "(string \<times> session_phase) list" where
  "public_phases =
     [(''new'', P_NEW), (''route_requested'', P_ROUTING), (''calling'', P_CALLING),
      (''remote_ringing'', P_RINGING), (''ringing'', P_RINGING), (''connecting'', P_CONNECTING),
      (''answered'', P_ESTABLISHED), (''in_call'', P_ESTABLISHED), (''held'', P_HELD),
      (''transferring'', P_TRANSFERRING)]"

fun observed_transitions :: "session_phase \<Rightarrow> session_phase list" where
  "observed_transitions P_NEW = [P_ROUTING, P_CALLING, P_RINGING, P_CONNECTING, P_ESTABLISHED]"
| "observed_transitions P_ROUTING = [P_CALLING, P_RINGING, P_CONNECTING, P_ESTABLISHED]"
| "observed_transitions P_CALLING = [P_RINGING, P_CONNECTING, P_ESTABLISHED]"
| "observed_transitions P_RINGING = [P_CONNECTING, P_ESTABLISHED]"
| "observed_transitions P_CONNECTING = [P_RINGING, P_ESTABLISHED]"
| "observed_transitions P_ESTABLISHED = [P_HELD, P_TRANSFERRING]"
| "observed_transitions P_HELD = [P_ESTABLISHED, P_TRANSFERRING]"
| "observed_transitions P_TRANSFERRING = [P_ESTABLISHED]"
| "observed_transitions P_TERMINATING = []"
| "observed_transitions P_TERMINATED = []"

definition public_leg_phases :: "(string \<times> leg_phase) list" where
  "public_leg_phases =
     [(''new'', L_NEW), (''calling'', L_INVITING), (''connecting'', L_INVITING),
      (''remote_ringing'', L_RINGING), (''ringing'', L_RINGING), (''answered'', L_ANSWERED),
      (''in_call'', L_ANSWERED), (''held'', L_HELD)]"

definition leg_kinds :: "(string \<times> leg_kind) list" where
  "leg_kinds =
     [(''trunk'', K_TRUNK), (''ha_softphone'', K_BROWSER), (''softphone'', K_BROWSER),
      (''local_phone'', K_BROWSER), (''esp'', K_ESPHOME), (''assist'', K_ASSIST),
      (''conference'', K_CONFERENCE)]"

definition new_pbx :: "bool \<Rightarrow> pbx" where
  "new_pbx projected =
     \<lparr> pb_phase = DARK, pb_calls = [], pb_generation = 0, pb_projected = projected, pb_components = [] \<rparr>"

section \<open>Components\<close>

definition attach_component :: "pbx \<Rightarrow> string \<Rightarrow> handle \<Rightarrow> handle option \<Rightarrow> exn + pbx" where
  "attach_component p name val closer =
     (if pb_phase p \<noteq> DARK then Inl (RuntimeError ''PBX components can only be attached while dark'')
      else
      let clean_name = strip name in
      if clean_name = [] then Inl ValueError
      else if assoc (pb_components p) clean_name \<noteq> None then Inl ValueError
      else Inr (p\<lparr> pb_components :=
             md_set (pb_components p) clean_name \<lparr> co_value = val, co_closer = closer \<rparr> \<rparr>))"

definition adopt_component :: "pbx \<Rightarrow> string \<Rightarrow> handle \<Rightarrow> handle option \<Rightarrow> exn + pbx" where
  "adopt_component p name val closer =
     (if pb_phase p \<notin> {DARK, ACTIVE} then Inl (RuntimeError ''cannot adopt PBX component'')
      else
      let clean_name = strip name in
      if clean_name = [] then Inl ValueError
      else case assoc (pb_components p) clean_name of
        Some current \<Rightarrow>
          if co_value current \<noteq> val then Inl ValueError
          else if closer \<noteq> None then
            Inr (p\<lparr> pb_components := md_set (pb_components p) clean_name (current\<lparr> co_closer := closer \<rparr>) \<rparr>)
          else Inr p
      | None \<Rightarrow> Inr (p\<lparr> pb_components :=
             md_set (pb_components p) clean_name \<lparr> co_value = val, co_closer = closer \<rparr> \<rparr>))"

definition release_component :: "pbx \<Rightarrow> string \<Rightarrow> handle \<Rightarrow> pbx \<times> bool" where
  "release_component p name val =
     (case assoc (pb_components p) (strip name) of
        None \<Rightarrow> (p, False)
      | Some current \<Rightarrow>
          if co_value current \<noteq> val then (p, False)
          else (p\<lparr> pb_components := md_del (pb_components p) (strip name) \<rparr>, True))"

definition pbx_component :: "pbx \<Rightarrow> string \<Rightarrow> handle option" where
  "pbx_component p name = map_option co_value (assoc (pb_components p) (strip name))"

definition activate :: "pbx \<Rightarrow> exn + pbx" where
  "activate p =
     (if pb_phase p \<noteq> DARK then Inl (RuntimeError ''cannot activate PBX runtime'')
      else Inr (p\<lparr> pb_phase := ACTIVE \<rparr>))"

section \<open>Sessions\<close>

definition snapshot_of :: "endpoint_session \<Rightarrow> snapshot" where
  "snapshot_of s =
     \<lparr> sn_call_id = es_call_id s, sn_generation = es_generation s, sn_phase = es_phase s,
       sn_terminal_reason = es_terminal_reason s, sn_leg_ids = map fst (es_legs s),
       sn_metadata = es_metadata s \<rparr>"

definition published :: "pbx \<Rightarrow> endpoint_session \<Rightarrow> projection list" where
  "published p s = (if pb_projected p then [Publish (snapshot_of s)] else [])"

text \<open>The observer of a session: called once when an operation has logged a change.\<close>

definition notified :: "pbx \<Rightarrow> endpoint_session \<Rightarrow> endpoint_session \<Rightarrow> projection list" where
  "notified p s s' = (if es_log s' = es_log s then [] else published p s')"

definition put_call :: "pbx \<Rightarrow> endpoint_session \<Rightarrow> pbx" where
  "put_call p s = p\<lparr> pb_calls := md_set (pb_calls p) (es_call_id s) s \<rparr>"

definition get_session :: "pbx \<Rightarrow> string \<Rightarrow> int option \<Rightarrow> endpoint_session option" where
  "get_session p call_id generation =
     (case assoc (pb_calls p) (strip call_id) of
        None \<Rightarrow> None
      | Some s \<Rightarrow> if generation \<noteq> None \<and> generation \<noteq> Some (es_generation s) then None else Some s)"

definition set_metadata :: "metadata \<Rightarrow> (string \<times> mval) list \<Rightarrow> metadata" where
  "set_metadata md values = foldl (\<lambda>md (k, v). md_set md k v) md values"

definition create_session ::
  "pbx \<Rightarrow> string \<Rightarrow> session_phase \<Rightarrow> (string \<times> mval) list \<Rightarrow> exn + (pbx \<times> endpoint_session \<times> projection list)" where
  "create_session p call_id phase metadata =
     (if pb_phase p \<noteq> ACTIVE then Inl (RuntimeError ''PBX runtime is not active'')
      else
      let clean_call_id = strip call_id in
      if clean_call_id = [] then Inl ValueError
      else if assoc (pb_calls p) clean_call_id \<noteq> None then Inl ValueError
      else
      let p1 = p\<lparr> pb_generation := pb_generation p + 1 \<rparr> in
      bindE (new_session clean_call_id (pb_generation p1) phase) (\<lambda>s.
        let s1 = s\<lparr> es_metadata := set_metadata (es_metadata s) metadata \<rparr>;
            p2 = put_call p1 s1
        in Inr (p2, s1, published p2 s1)))"

definition ensure_session ::
  "pbx \<Rightarrow> string \<Rightarrow> (string \<times> mval) list \<Rightarrow> exn + (pbx \<times> endpoint_session \<times> projection list)" where
  "ensure_session p call_id metadata =
     (case get_session p call_id None of
        None \<Rightarrow> create_session p call_id P_NEW metadata
      | Some s \<Rightarrow>
          if metadata \<noteq> [] then
            bindE (update_session_metadata s metadata) (\<lambda>s'.
              let p' = put_call p s' in Inr (p', s', notified p' s s'))
          else Inr (p, s, []))"

text \<open>The guard of every operation on behalf of a generation: a current, live session.\<close>

definition live_session :: "pbx \<Rightarrow> string \<Rightarrow> int option \<Rightarrow> endpoint_session option" where
  "live_session p call_id generation =
     (case get_session p call_id generation of
        None \<Rightarrow> None
      | Some s \<Rightarrow> if live s then Some s else None)"

definition observe_phase :: "endpoint_session \<Rightarrow> string \<Rightarrow> endpoint_session \<times> bool" where
  "observe_phase s state =
     (case assoc public_phases (strip state) of
        None \<Rightarrow> (s, False)
      | Some next_phase \<Rightarrow>
          if es_phase s \<noteq> next_phase \<and> next_phase \<in> set (observed_transitions (es_phase s))
          then (s\<lparr> es_phase := next_phase \<rparr>, True)
          else (s, False))"

definition clean_values :: "(string \<times> mval) list \<Rightarrow> (string \<times> mval) list" where
  "clean_values values = filter (\<lambda>(k, v). v \<noteq> MNone \<and> v \<noteq> MStr []) values"

definition any_new_value :: "metadata \<Rightarrow> (string \<times> mval) list \<Rightarrow> bool" where
  "any_new_value md values = list_ex (\<lambda>(k, v). mget md k \<noteq> v) values"

definition observe_call ::
  "pbx \<Rightarrow> string \<Rightarrow> string \<Rightarrow> int option \<Rightarrow> (string \<times> mval) list \<Rightarrow> pbx \<times> bool \<times> projection list" where
  "observe_call p call_id state generation metadata =
     (case live_session p call_id generation of
        None \<Rightarrow> (p, False, [])
      | Some s \<Rightarrow>
          let (s1, moved) = observe_phase s state;
              clean_metadata = clean_values metadata;
              new_values = any_new_value (es_metadata s1) clean_metadata;
              s2 = (if new_values then s1\<lparr> es_metadata := set_metadata (es_metadata s1) clean_metadata \<rparr> else s1);
              p' = put_call p s2
          in (p', True, if moved \<or> new_values then published p' s2 else []))"

record leg_observation =
  lo_role :: string
  lo_state :: string
  lo_sip_call_id :: string
  lo_endpoint_id :: string
  lo_dialog :: "handle option"
  lo_media :: "handle option"
  lo_closer :: "closer option"

definition observed_leg :: "string \<Rightarrow> leg_observation \<Rightarrow> call_leg" where
  "observed_leg leg_id o' =
     \<lparr> cl_leg_id = leg_id,
       cl_kind = (case assoc leg_kinds (strip (lo_role o')) of Some k \<Rightarrow> k | None \<Rightarrow> K_SIP),
       cl_endpoint_id = strip (lo_endpoint_id o'),
       cl_sip_call_id = strip (or_else (lo_sip_call_id o') leg_id),
       cl_phase = L_NEW, cl_dialog = lo_dialog o', cl_media = lo_media o', cl_closer = lo_closer o',
       cl_close_task = None \<rparr>"

definition update_leg :: "call_leg \<Rightarrow> leg_observation \<Rightarrow> call_leg" where
  "update_leg leg o' = leg
     \<lparr> cl_phase := (case assoc public_leg_phases (strip (lo_state o')) of
          Some ph \<Rightarrow> ph | None \<Rightarrow> cl_phase leg),
       cl_endpoint_id := (if lo_endpoint_id o' \<noteq> [] then strip (lo_endpoint_id o') else cl_endpoint_id leg),
       cl_sip_call_id := (if lo_sip_call_id o' \<noteq> [] then strip (lo_sip_call_id o') else cl_sip_call_id leg),
       cl_dialog := (if lo_dialog o' \<noteq> None then lo_dialog o' else cl_dialog leg),
       cl_media := (if lo_media o' \<noteq> None then lo_media o' else cl_media leg),
       cl_closer := (if lo_closer o' \<noteq> None then lo_closer o' else cl_closer leg) \<rparr>"

definition observe_leg ::
  "pbx \<Rightarrow> string \<Rightarrow> string \<Rightarrow> leg_observation \<Rightarrow> int option \<Rightarrow> exn + (pbx \<times> bool \<times> projection list)" where
  "observe_leg p call_id leg_id o' generation =
     (case live_session p call_id generation of
        None \<Rightarrow> Inr (p, False, [])
      | Some s \<Rightarrow>
          let clean_leg_id = strip leg_id in
          if clean_leg_id = [] then Inr (p, False, [])
          else
          bindE (case assoc (es_legs s) clean_leg_id of
                   Some leg \<Rightarrow> Inr (s, leg)
                 | None \<Rightarrow>
                     let leg = observed_leg clean_leg_id o'
                     in bindE (add_leg s leg) (\<lambda>s1. Inr (s1, leg)))
            (\<lambda>(s1, leg).
               let s2 = s1\<lparr> es_legs := md_set (es_legs s1) clean_leg_id (update_leg leg o') \<rparr>;
                   p' = put_call p s2
               in Inr (p', True, published p' s2)))"

definition pbx_release_leg ::
  "pbx \<Rightarrow> string \<Rightarrow> string \<Rightarrow> handle option \<Rightarrow> int option \<Rightarrow> exn + (pbx \<times> bool)" where
  "pbx_release_leg p call_id leg_id dialog generation =
     (case live_session p call_id generation of
        None \<Rightarrow> Inr (p, False)
      | Some s \<Rightarrow>
          bindE (release_leg s leg_id dialog) (\<lambda>(s', leg). Inr (put_call p s', leg \<noteq> None)))"

definition own_resource ::
  "pbx \<Rightarrow> string \<Rightarrow> string \<Rightarrow> handle \<Rightarrow> closer \<Rightarrow> cleanup_stage \<Rightarrow> int option \<Rightarrow> exn + (pbx \<times> bool)" where
  "own_resource p call_id name val closer stage generation =
     (case live_session p call_id generation of
        None \<Rightarrow> Inr (p, False)
      | Some s \<Rightarrow>
          (case find (\<lambda>r. mr_name r = name) (es_resources s) of
             Some current \<Rightarrow> if mr_value current = val then Inr (p, True) else Inl ValueError
           | None \<Rightarrow> bindE (add_resource s name val closer stage) (\<lambda>s'. Inr (put_call p s', True))))"

definition pbx_release_resource ::
  "pbx \<Rightarrow> string \<Rightarrow> string \<Rightarrow> handle option \<Rightarrow> int option \<Rightarrow> exn + (pbx \<times> bool)" where
  "pbx_release_resource p call_id name val generation =
     (case live_session p call_id generation of
        None \<Rightarrow> Inr (p, False)
      | Some s \<Rightarrow>
          bindE (release_resource s name val) (\<lambda>(s', r). Inr (put_call p s', r \<noteq> None)))"

definition pbx_own_task :: "pbx \<Rightarrow> string \<Rightarrow> handle \<Rightarrow> int option \<Rightarrow> exn + (pbx \<times> bool)" where
  "pbx_own_task p call_id task generation =
     (case live_session p call_id generation of
        None \<Rightarrow> Inr (p, False)
      | Some s \<Rightarrow> bindE (own_task s task) (\<lambda>s'. Inr (put_call p s', True)))"

definition pbx_release_task :: "pbx \<Rightarrow> string \<Rightarrow> handle \<Rightarrow> int option \<Rightarrow> exn + (pbx \<times> bool)" where
  "pbx_release_task p call_id task generation =
     (case live_session p call_id generation of
        None \<Rightarrow> Inr (p, False)
      | Some s \<Rightarrow> bindE (release_task s task) (\<lambda>(s', b). Inr (put_call p s', b)))"

definition request_termination ::
  "handle option \<Rightarrow> pbx \<Rightarrow> string \<Rightarrow> string \<Rightarrow> int option \<Rightarrow> pbx \<times> bool \<times> projection list" where
  "request_termination current p call_id reason generation =
     (case get_session p call_id generation of
        None \<Rightarrow> (p, False, [])
      | Some s \<Rightarrow>
          let s' = start_termination current s reason; p' = put_call p s'
          in (p', True, notified p' s s'))"

text \<open>The termination task of a session, and the observer of its end.\<close>

definition finish_session :: "runtime \<Rightarrow> pbx \<Rightarrow> string \<Rightarrow> (pbx \<times> session_event list \<times> projection list) option" where
  "finish_session rt p call_id =
     (case assoc (pb_calls p) call_id of
        None \<Rightarrow> None
      | Some s \<Rightarrow>
          if es_termination_task s \<noteq> Some None then None
          else
          let s' = run_termination rt s
          in Some (p\<lparr> pb_calls := md_del (pb_calls p) call_id \<rparr>,
                   drop (length (es_log s)) (es_log s'),
                   if pb_projected p then [Remove (snapshot_of s')] else []))"

section \<open>Shutdown\<close>

definition COMPONENT_STOP_ORDER :: "string list" where
  "COMPONENT_STOP_ORDER = [''trunk'', ''conference_manager'', ''registrar'', ''tcp_listener'', ''udp_listener'']"

definition stop_order :: "(string \<times> component) list \<Rightarrow> string list" where
  "stop_order components =
     (let known = filter (\<lambda>n. n \<in> fst ` set components) COMPONENT_STOP_ORDER
      in known @ filter (\<lambda>n. n \<notin> set known) (rev (map fst components)))"

text \<open>\<open>_run_shutdown\<close> takes the sessions there are and gathers the coroutines of their \<open>terminate\<close>: each is a task
  that starts in a later step of the event loop, so that other operations come between \<open>begin_shutdown\<close> and each
  \<open>shutdown_call\<close>.  A session is the object of its Call-ID and generation; one that is gone by then has ended.  The
  result of \<open>begin_shutdown\<close> names the sessions gathered.\<close>

definition begin_shutdown :: "pbx \<Rightarrow> pbx \<times> (string \<times> int) list" where
  "begin_shutdown p =
     (p\<lparr> pb_phase := STOPPING \<rparr>, map (\<lambda>(k, s). (k, es_generation s)) (pb_calls p))"

definition shutdown_call :: "handle option \<Rightarrow> pbx \<Rightarrow> string \<times> int \<Rightarrow> pbx \<times> projection list" where
  "shutdown_call current p session =
     (let (p', _, out) = request_termination current p (fst session) ''runtime_shutdown'' (Some (snd session)) in (p', out))"

text \<open>Closing a component: its name, the closer that is called, and the class of the exception that is caught and
  logged.  What a closer raises, while it is called or awaited, is a parameter.\<close>

type_synonym component_stop = "string \<times> handle option \<times> outcome"

definition close_component :: "(handle \<Rightarrow> outcome) \<Rightarrow> pbx \<Rightarrow> string \<Rightarrow> component_stop" where
  "close_component err p name =
     (case assoc (pb_components p) name of
        None \<Rightarrow> (name, None, Some ''KeyError'')
      | Some c \<Rightarrow> (name, co_closer c, case co_closer c of None \<Rightarrow> None | Some h \<Rightarrow> err h))"

fun stop_components :: "(handle \<Rightarrow> outcome) \<Rightarrow> pbx \<Rightarrow> string list \<Rightarrow> component_stop list" where
  "stop_components err p [] = []"
| "stop_components err p (name # names) = close_component err p name # stop_components err p names"

text \<open>The rest of the shutdown, once the gathered coroutines have ended: every session has left the runtime.\<close>

definition finish_shutdown :: "(handle \<Rightarrow> outcome) \<Rightarrow> pbx \<Rightarrow> (pbx \<times> component_stop list) option" where
  "finish_shutdown err p =
     (if pb_phase p = STOPPING \<and> pb_calls p = []
      then Some (p\<lparr> pb_phase := STOPPED \<rparr>, stop_components err p (stop_order (pb_components p)))
      else None)"

section \<open>The invariant\<close>

definition call_ok :: "pbx \<Rightarrow> string \<times> endpoint_session \<Rightarrow> bool" where
  "call_ok p c =
     (case c of (k, s) \<Rightarrow> k = es_call_id s \<and> strip k = k \<and> session_ok s \<and> \<not> es_terminated s \<and>
        es_generation s \<le> pb_generation p)"

definition pbx_ok :: "pbx \<Rightarrow> bool" where
  "pbx_ok p \<longleftrightarrow>
     0 \<le> pb_generation p \<and> distinct (map fst (pb_calls p)) \<and> list_all (call_ok p) (pb_calls p) \<and>
     distinct (map (\<lambda>(k, s). es_generation s) (pb_calls p))"

lemma pbx_call: "pbx_ok p \<Longrightarrow> assoc (pb_calls p) k = Some s \<Longrightarrow> call_ok p (k, s)"
  by (auto simp: pbx_ok_def list_all_iff dest: assoc_Some_in)

lemma get_session_call:
  assumes "pbx_ok p" and "get_session p call_id generation = Some s"
  shows "assoc (pb_calls p) (es_call_id s) = Some s \<and> es_call_id s = strip call_id \<and>
    (generation = None \<or> generation = Some (es_generation s)) \<and> call_ok p (es_call_id s, s)"
  using assms pbx_call [OF assms(1)]
  by (auto simp: get_session_def call_ok_def split: option.splits if_splits)

text \<open>Replacing a session by its successor.\<close>

lemma map_md_set_same:
  "assoc md k = Some x \<Longrightarrow> f (k, y) = f (k, x) \<Longrightarrow> map f (md_set md k y) = map f md"
  by (induction md k y rule: md_set.induct) (auto split: if_splits)

lemma put_call_ok:
  assumes "pbx_ok p" and "assoc (pb_calls p) (es_call_id s) = Some s"
    and "session_ok s'" and "same_identity s s'" and "\<not> es_terminated s'"
  shows "pbx_ok (put_call p s')"
proof -
  have s: "call_ok p (es_call_id s, s)"
    using pbx_call [OF assms(1,2)] .
  have id: "es_call_id s' = es_call_id s" "es_generation s' = es_generation s"
    using assms(4) by (simp_all add: same_identity_def)
  have d: "distinct (map fst (pb_calls p))"
    using assms(1) by (simp add: pbx_ok_def)
  have "map (\<lambda>(k, s). es_generation s) (md_set (pb_calls p) (es_call_id s) s') =
      map (\<lambda>(k, s). es_generation s) (pb_calls p)"
    using assms(2) id by (intro map_md_set_same [where x = s]) auto
  moreover have "list_all (call_ok p) (md_set (pb_calls p) (es_call_id s) s')"
    using assms(1,3,5) s id by (auto simp: pbx_ok_def list_all_iff set_md_set [OF d] call_ok_def)
  ultimately show ?thesis
    using assms(1) id distinct_md_set [OF d]
    by (simp add: pbx_ok_def put_call_def call_ok_def [abs_def])
qed

lemma live_session_call:
  assumes "pbx_ok p" and "live_session p call_id generation = Some s"
  shows "get_session p call_id generation = Some s" "live s" "session_ok s" "owned_ok s"
    "\<not> es_terminated s" "assoc (pb_calls p) (es_call_id s) = Some s"
proof -
  show g: "get_session p call_id generation = Some s" and "live s"
    using assms(2) by (auto simp: live_session_def split: option.splits if_splits)
  show "session_ok s" "\<not> es_terminated s" "assoc (pb_calls p) (es_call_id s) = Some s" "owned_ok s"
    using get_session_call [OF assms(1) g] session_ok_owned by (auto simp: call_ok_def)
qed

lemma put_live_change:
  assumes "pbx_ok p" and "live_session p call_id generation = Some s" and "live_change s s'"
  shows "pbx_ok (put_call p s')"
proof -
  note s = live_session_call [OF assms(1,2)]
  show ?thesis
    using put_call_ok [OF assms(1) s(6) live_change_ok [OF s(3) assms(3)]] assms(3) s(5)
    by (simp add: live_change_def)
qed

section \<open>What one operation may do\<close>

definition phase_moves :: "endpoint_session \<Rightarrow> endpoint_session \<Rightarrow> bool" where
  "phase_moves s s' \<longleftrightarrow>
     es_phase s' = es_phase s \<or> es_phase s' \<in> set (observed_transitions (es_phase s)) \<or>
     es_phase s' = P_TERMINATING"

definition calls_evolve :: "pbx \<Rightarrow> pbx \<Rightarrow> bool" where
  "calls_evolve p p' \<longleftrightarrow>
     pb_generation p \<le> pb_generation p' \<and>
     (\<forall>(k, s') \<in> set (pb_calls p').
        (\<exists>s. (k, s) \<in> set (pb_calls p) \<and> es_generation s' = es_generation s \<and> phase_moves s s') \<or>
        pb_generation p < es_generation s')"

definition good_step :: "pbx \<Rightarrow> pbx \<Rightarrow> bool" where
  "good_step p p' \<longleftrightarrow> pbx_ok p' \<and> calls_evolve p p'"

lemma good_step_same_calls:
  "pbx_ok p \<Longrightarrow> pb_calls p' = pb_calls p \<Longrightarrow> pb_generation p' = pb_generation p \<Longrightarrow> good_step p p'"
  by (auto simp: good_step_def calls_evolve_def pbx_ok_def call_ok_def [abs_def] phase_moves_def)

lemma put_call_good:
  assumes "pbx_ok p" and "assoc (pb_calls p) (es_call_id s) = Some s"
    and "session_ok s'" and "same_identity s s'" and "\<not> es_terminated s'" and "phase_moves s s'"
  shows "good_step p (put_call p s')"
proof -
  have d: "distinct (map fst (pb_calls p))"
    using assms(1) by (simp add: pbx_ok_def)
  have id: "es_call_id s' = es_call_id s" "es_generation s' = es_generation s"
    using assms(4) by (simp_all add: same_identity_def)
  have "calls_evolve p (put_call p s')"
    using assms(2,6) id assoc_Some_in [OF assms(2)]
    by (auto simp: calls_evolve_def put_call_def set_md_set [OF d] phase_moves_def)
  then show ?thesis
    using put_call_ok [OF assms(1-5)] by (simp add: good_step_def)
qed

lemma put_live_good:
  assumes "pbx_ok p" and "live_session p call_id generation = Some s" and "live_change s s'"
    and "phase_moves s s'"
  shows "good_step p (put_call p s')"
proof -
  note s = live_session_call [OF assms(1,2)]
  show ?thesis
    using put_call_good [OF assms(1) s(6) live_change_ok [OF s(3) assms(3)]] assms(3,4) s(5)
    by (simp add: live_change_def)
qed

lemma same_phase: "es_phase s' = es_phase s \<Longrightarrow> phase_moves s s'"
  by (simp add: phase_moves_def)

lemma session_op_phase:
  "update_session_metadata s vals = Inr s' \<Longrightarrow> es_phase s' = es_phase s"
  "add_leg s leg = Inr s' \<Longrightarrow> es_phase s' = es_phase s"
  "add_resource s name val closer stage = Inr s' \<Longrightarrow> es_phase s' = es_phase s"
  "release_resource s name val' = Inr (s', r) \<Longrightarrow> es_phase s' = es_phase s"
  "release_leg s leg_id dialog = Inr (s', l) \<Longrightarrow> es_phase s' = es_phase s"
  "own_task s task = Inr s' \<Longrightarrow> es_phase s' = es_phase s"
  "release_task s task = Inr (s', b) \<Longrightarrow> es_phase s' = es_phase s"
  by (auto simp: session_op_defs log_event_def Let_def case_prod_beta split: if_splits option.splits)

lemma create_session_good:
  assumes "pbx_ok p" and "create_session p call_id phase metadata = Inr (p', s, out)"
    and "phase \<notin> {P_TERMINATING, P_TERMINATED}"
  shows "good_step p p'"
proof -
  let ?id = "strip call_id"
  obtain s0 where new: "new_session ?id (pb_generation p + 1) phase = Inr s0"
    and fresh: "assoc (pb_calls p) ?id = None" "?id \<noteq> []"
    and s: "s = s0\<lparr> es_metadata := set_metadata (es_metadata s0) metadata \<rparr>"
    and p': "p' = put_call (p\<lparr> pb_generation := pb_generation p + 1 \<rparr>) s"
    using assms(2) by (auto simp: create_session_def Let_def bindE_eq_Inr split: if_splits)
  have s0: "es_call_id s0 = ?id" "es_generation s0 = pb_generation p + 1" "\<not> es_terminated s0"
    using new by (auto simp: new_session_def Let_def strip_strip split: if_splits)
  have "session_ok s0"
    using new_session_ok [OF new assms(3)] .
  then have ok: "session_ok s"
    by (cases "es_termination_task s0")
      (simp_all add: s session_ok_def live_def all_closed_def split: option.splits)
  have d: "distinct (map fst (pb_calls p))"
    using assms(1) by (simp add: pbx_ok_def)
  have sub: "?id \<notin> fst ` set (pb_calls p)"
    using fresh(1) by (simp add: assoc_eq_map_of map_of_eq_None_iff)
  have calls: "pb_calls p' = pb_calls p @ [(?id, s)]"
  proof -
    have "md_set md k v = md @ [(k, v)]" if "k \<notin> fst ` set md" for md :: "(string \<times> endpoint_session) list" and k v
      using that by (induction md k v rule: md_set.induct) auto
    then show ?thesis
      using sub by (simp add: p' put_call_def s s0)
  qed
  have gen: "pb_generation p' = pb_generation p + 1"
    by (simp add: p' put_call_def)
  have le: "es_generation x \<le> pb_generation p" if "(k, x) \<in> set (pb_calls p)" for k x
    using assms(1) that by (auto simp: pbx_ok_def list_all_iff call_ok_def)
  have "distinct (map (\<lambda>(k, s). es_generation s) (pb_calls p @ [(?id, s)]))"
    using assms(1) le by (fastforce simp: pbx_ok_def s s0)
  moreover have "list_all (call_ok p') (pb_calls p @ [(?id, s)])"
    using assms(1) ok gen by (auto simp: pbx_ok_def list_all_iff call_ok_def s s0 strip_strip)
  ultimately have "pbx_ok p'"
    using assms(1) d sub gen calls by (auto simp: pbx_ok_def)
  moreover have "calls_evolve p p'"
    by (auto simp: calls_evolve_def calls gen s s0 phase_moves_def)
  ultimately show ?thesis by (simp add: good_step_def)
qed

lemma ensure_session_good:
  assumes "pbx_ok p" and "ensure_session p call_id metadata = Inr (p', s, out)"
  shows "good_step p p'"
proof (cases "get_session p call_id None")
  case None
  then show ?thesis
    using assms create_session_good [OF assms(1)] by (simp add: ensure_session_def)
next
  case (Some s0)
  note g = get_session_call [OF assms(1) Some]
  show ?thesis
  proof (cases "metadata = []")
    case True
    then show ?thesis
      using assms Some good_step_same_calls by (simp add: ensure_session_def)
  next
    case False
    then obtain s' where u: "update_session_metadata s0 metadata = Inr s'" and p': "p' = put_call p s'"
      using assms(2) Some by (auto simp: ensure_session_def bindE_eq_Inr Let_def)
    have "live_change s0 s'"
      using metadata_change [OF _ u] g session_ok_owned by (simp add: call_ok_def)
    moreover from this have "live_session p call_id None = Some s0"
      using Some by (simp add: live_session_def live_change_def)
    ultimately show ?thesis
      using put_live_good [OF assms(1)] session_op_phase(1) [OF u] same_phase by (simp add: p')
  qed
qed

lemma observe_phase_change:
  assumes "owned_ok s" and "live s"
  shows "live_change s (fst (observe_phase s state)) \<and> phase_moves s (fst (observe_phase s state))"
proof -
  have "ph \<notin> {P_TERMINATING, P_TERMINATED}" if "ph \<in> set (observed_transitions q)" for ph q
    using that by (cases q) auto
  then show ?thesis
    using assms
    by (auto simp: observe_phase_def live_change_def live_def same_identity_def owned_ok_def phase_moves_def
        split: option.splits)
qed

lemma observe_call_good:
  assumes "pbx_ok p" and "observe_call p call_id state generation metadata = (p', b, out)"
  shows "good_step p p'"
proof (cases "live_session p call_id generation")
  case None
  then show ?thesis
    using assms good_step_same_calls by (simp add: observe_call_def)
next
  case (Some s)
  note s = live_session_call [OF assms(1) Some]
  let ?s1 = "fst (observe_phase s state)"
  have o1: "live_change s ?s1" "phase_moves s ?s1"
    using observe_phase_change [OF s(4,2)] by auto
  obtain md where p': "p' = put_call p (?s1\<lparr> es_metadata := md \<rparr>)"
  proof
    show "p' = put_call p (?s1\<lparr> es_metadata :=
        (if any_new_value (es_metadata ?s1) (clean_values metadata)
         then set_metadata (es_metadata ?s1) (clean_values metadata) else es_metadata ?s1) \<rparr>)"
      using assms(2) Some by (auto simp: observe_call_def Let_def case_prod_beta split: if_splits)
  qed
  have "live_change s (?s1\<lparr> es_metadata := md \<rparr>)" "phase_moves s (?s1\<lparr> es_metadata := md \<rparr>)"
    using o1 by (simp_all add: live_change_def live_def same_identity_def owned_ok_def phase_moves_def)
  then show ?thesis
    using put_live_good [OF assms(1) Some] by (simp add: p')
qed

lemma update_leg_id [simp]: "cl_leg_id (update_leg leg o') = cl_leg_id leg"
  by (simp add: update_leg_def)

lemma set_leg_change:
  assumes "owned_ok s" and "live s" and "k \<noteq> []" and "cl_leg_id leg = k"
  shows "live_change s (s\<lparr> es_legs := md_set (es_legs s) k leg \<rparr>)"
proof -
  have d: "distinct (map fst (es_legs s))"
    using assms(1) by (simp add: owned_ok_def)
  show ?thesis
    using assms distinct_md_set [OF d]
    by (auto simp: live_change_def live_def same_identity_def owned_ok_def list_all_iff set_md_set [OF d])
qed

lemma live_change_trans: "live_change a b \<Longrightarrow> live_change b c \<Longrightarrow> live_change a c"
  by (simp add: live_change_def same_identity_def)

lemma observe_leg_good:
  assumes "pbx_ok p" and "observe_leg p call_id leg_id o' generation = Inr (p', b, out)"
  shows "good_step p p'"
proof (cases "live_session p call_id generation")
  case None
  then show ?thesis
    using assms good_step_same_calls by (simp add: observe_leg_def)
next
  case (Some s)
  note s = live_session_call [OF assms(1) Some]
  show ?thesis
  proof (cases "strip leg_id = []")
    case True
    then show ?thesis
      using assms Some good_step_same_calls by (simp add: observe_leg_def)
  next
    case False
    obtain s1 leg where s1: "live_change s s1 \<or> s1 = s" "es_phase s1 = es_phase s"
      and leg: "cl_leg_id leg = strip leg_id"
      and p': "p' = put_call p (s1\<lparr> es_legs := md_set (es_legs s1) (strip leg_id) (update_leg leg o') \<rparr>)"
    proof (cases "assoc (es_legs s) (strip leg_id)")
      case None
      let ?leg = "observed_leg (strip leg_id) o'"
      obtain s1 where a: "add_leg s ?leg = Inr s1" and q: "p' = put_call p
          (s1\<lparr> es_legs := md_set (es_legs s1) (strip leg_id) (update_leg ?leg o') \<rparr>)"
        using assms(2) Some False None by (auto simp: observe_leg_def Let_def bindE_eq_Inr)
      show ?thesis
        by (rule that [OF _ _ _ q]) (use add_leg_change [OF s(4) a] session_op_phase(2) [OF a] in
            \<open>simp_all add: observed_leg_def\<close>)
    next
      case leg: (Some leg)
      then have "cl_leg_id leg = strip leg_id"
        using s(4) assoc_Some_in [OF leg] by (auto simp: owned_ok_def list_all_iff)
      moreover have "p' = put_call p
          (s\<lparr> es_legs := md_set (es_legs s) (strip leg_id) (update_leg leg o') \<rparr>)"
        using assms(2) Some False leg by (simp add: observe_leg_def Let_def)
      ultimately show ?thesis
        using that [of s leg] by simp
    qed
    have "owned_ok s1" "live s1"
      using s1(1) s(2,4) by (auto simp: live_change_def)
    then have "live_change s1 (s1\<lparr> es_legs := md_set (es_legs s1) (strip leg_id) (update_leg leg o') \<rparr>)"
      using False leg by (intro set_leg_change) simp_all
    then have "live_change s (s1\<lparr> es_legs := md_set (es_legs s1) (strip leg_id) (update_leg leg o') \<rparr>)"
      using s1(1) live_change_trans by blast
    then show ?thesis
      using put_live_good [OF assms(1) Some] s1(2) same_phase by (simp add: p')
  qed
qed

lemma guarded_good:
  assumes "pbx_ok p" and "live_session p call_id generation = Some s" and "live_change s s'"
    and "es_phase s' = es_phase s"
  shows "good_step p (put_call p s')"
  using put_live_good [OF assms(1-3) same_phase [OF assms(4)]] .

lemma pbx_resource_ops_good:
  assumes "pbx_ok p"
  shows "pbx_release_leg p call_id leg_id dialog generation = Inr (p', b) \<Longrightarrow> good_step p p'"
    and "own_resource p call_id name val closer stage generation = Inr (p', b) \<Longrightarrow> good_step p p'"
    and "pbx_release_resource p call_id name val' generation = Inr (p', b) \<Longrightarrow> good_step p p'"
    and "pbx_own_task p call_id task generation = Inr (p', b) \<Longrightarrow> good_step p p'"
    and "pbx_release_task p call_id task generation = Inr (p', b) \<Longrightarrow> good_step p p'"
proof -
  have o': "owned_ok s" if "live_session p call_id generation = Some s" for s
    using live_session_call [OF assms that] by simp
  have same: "good_step p p"
    using assms good_step_same_calls by blast
  note guarded = guarded_good [OF assms]
  show "good_step p p'" if "pbx_release_leg p call_id leg_id dialog generation = Inr (p', b)"
    using that same guarded release_leg_change [OF o'] session_op_phase(5)
    by (auto simp: pbx_release_leg_def bindE_eq_Inr split: option.splits)
  show "good_step p p'" if "own_resource p call_id name val closer stage generation = Inr (p', b)"
    using that same guarded add_resource_change [OF o'] session_op_phase(3)
    by (auto simp: own_resource_def bindE_eq_Inr split: option.splits if_splits)
  show "good_step p p'" if "pbx_release_resource p call_id name val' generation = Inr (p', b)"
    using that same guarded release_resource_change [OF o'] session_op_phase(4)
    by (auto simp: pbx_release_resource_def bindE_eq_Inr split: option.splits)
  show "good_step p p'" if "pbx_own_task p call_id task generation = Inr (p', b)"
    using that same guarded task_changes(1) [OF o'] session_op_phase(6)
    by (auto simp: pbx_own_task_def bindE_eq_Inr split: option.splits)
  show "good_step p p'" if "pbx_release_task p call_id task generation = Inr (p', b)"
    using that same guarded task_changes(2) [OF o'] session_op_phase(7)
    by (auto simp: pbx_release_task_def bindE_eq_Inr split: option.splits)
qed

lemma start_termination_moves:
  assumes "session_ok s"
  shows "same_identity s (start_termination current s reason)"
    "\<not> es_terminated s \<Longrightarrow> \<not> es_terminated (start_termination current s reason)"
    "phase_moves s (start_termination current s reason)"
    "es_termination_task (start_termination current s reason) \<noteq> None"
  by (auto simp: start_termination_def Let_def log_event_def same_identity_def phase_moves_def split: option.splits)

lemma request_termination_good:
  assumes "pbx_ok p" and "request_termination current p call_id reason generation = (p', b, out)"
  shows "good_step p p'"
proof (cases "get_session p call_id generation")
  case None
  then show ?thesis
    using assms good_step_same_calls by (simp add: request_termination_def)
next
  case (Some s)
  note g = get_session_call [OF assms(1) Some]
  then have s: "session_ok s" "\<not> es_terminated s"
    by (auto simp: call_ok_def)
  have p': "p' = put_call p (start_termination current s reason)"
    using assms(2) Some by (simp add: request_termination_def Let_def)
  have a: "assoc (pb_calls p) (es_call_id s) = Some s"
    using g by (rule conjunct1)
  show ?thesis
    unfolding p'
    by (rule put_call_good [OF assms(1) a start_termination_ok [OF s(1)] start_termination_moves(1) [OF s(1)]
          start_termination_moves(2) [OF s] start_termination_moves(3) [OF s(1)]])
qed

lemma finish_session_good:
  assumes "pbx_ok p" and "finish_session rt p call_id = Some (p', calls, out)"
  shows "good_step p p'"
proof -
  have p': "p' = p\<lparr> pb_calls := md_del (pb_calls p) call_id \<rparr>"
    using assms(2) by (auto simp: finish_session_def Let_def split: option.splits if_splits)
  have "distinct (map fst (pb_calls p'))" "distinct (map (\<lambda>(k, s). es_generation s) (pb_calls p'))"
    using assms(1) unfolding p' pbx_ok_def md_del_def by (auto intro!: distinct_map_filter)
  then have "pbx_ok p'"
    using assms(1) by (auto simp: p' pbx_ok_def md_del_def list_all_iff call_ok_def)
  moreover have "calls_evolve p p'"
    by (auto simp: p' calls_evolve_def md_del_def phase_moves_def)
  ultimately show ?thesis by (simp add: good_step_def)
qed

lemma task_done_good:
  assumes "pbx_ok p" and "assoc (pb_calls p) call_id = Some s"
  shows "good_step p (put_call p (task_done s task))"
proof -
  have "call_ok p (call_id, s)"
    using pbx_call [OF assms] .
  then show ?thesis
    using put_call_good [OF assms(1) _ task_done_ok [of s task]] assms(2)
    by (simp add: call_ok_def task_done_def same_identity_def phase_moves_def)
qed

section \<open>The runtime over time\<close>

inductive pbx_step :: "runtime \<Rightarrow> pbx \<Rightarrow> pbx \<Rightarrow> bool" for rt where
  ps_attach: "attach_component p name val closer = Inr p' \<Longrightarrow> pbx_step rt p p'"
| ps_adopt: "adopt_component p name val closer = Inr p' \<Longrightarrow> pbx_step rt p p'"
| ps_drop: "release_component p name val = (p', b) \<Longrightarrow> pbx_step rt p p'"
| ps_activate: "activate p = Inr p' \<Longrightarrow> pbx_step rt p p'"
| ps_create: "create_session p call_id phase metadata = Inr (p', s, out) \<Longrightarrow>
    phase \<notin> {P_TERMINATING, P_TERMINATED} \<Longrightarrow> pbx_step rt p p'"
| ps_ensure: "ensure_session p call_id metadata = Inr (p', s, out) \<Longrightarrow> pbx_step rt p p'"
| ps_observe_call: "observe_call p call_id state generation metadata = (p', b, out) \<Longrightarrow> pbx_step rt p p'"
| ps_observe_leg: "observe_leg p call_id leg_id o' generation = Inr (p', b, out) \<Longrightarrow> pbx_step rt p p'"
| ps_release_leg: "pbx_release_leg p call_id leg_id dialog generation = Inr (p', b) \<Longrightarrow> pbx_step rt p p'"
| ps_own_resource: "own_resource p call_id name val closer stage generation = Inr (p', b) \<Longrightarrow> pbx_step rt p p'"
| ps_release_resource: "pbx_release_resource p call_id name val' generation = Inr (p', b) \<Longrightarrow> pbx_step rt p p'"
| ps_own_task: "pbx_own_task p call_id task generation = Inr (p', b) \<Longrightarrow> pbx_step rt p p'"
| ps_release_task: "pbx_release_task p call_id task generation = Inr (p', b) \<Longrightarrow> pbx_step rt p p'"
| ps_task_done: "assoc (pb_calls p) call_id = Some s \<Longrightarrow> pbx_step rt p (put_call p (task_done s task))"
| ps_request: "request_termination current p call_id reason generation = (p', b, out) \<Longrightarrow> pbx_step rt p p'"
| ps_finish: "finish_session rt p call_id = Some (p', calls, out) \<Longrightarrow> pbx_step rt p p'"
| ps_stopping: "pbx_step rt p (p\<lparr> pb_phase := STOPPING \<rparr>)"
| ps_stopped: "finish_shutdown err p = Some (p', stops) \<Longrightarrow> pbx_step rt p p'"

lemma component_calls:
  "attach_component p name val closer = Inr p' \<Longrightarrow> pb_calls p' = pb_calls p \<and> pb_generation p' = pb_generation p"
  "adopt_component p name val closer = Inr p' \<Longrightarrow> pb_calls p' = pb_calls p \<and> pb_generation p' = pb_generation p"
  "release_component p name val = (p', b) \<Longrightarrow> pb_calls p' = pb_calls p \<and> pb_generation p' = pb_generation p"
  "activate p = Inr p' \<Longrightarrow> pb_calls p' = pb_calls p \<and> pb_generation p' = pb_generation p"
  "finish_shutdown err p = Some (p', stops) \<Longrightarrow> pb_calls p' = pb_calls p \<and> pb_generation p' = pb_generation p"
  by (auto simp: attach_component_def adopt_component_def release_component_def activate_def finish_shutdown_def
      Let_def split: if_splits option.splits)

lemma pbx_step_good: "pbx_step rt p p' \<Longrightarrow> pbx_ok p \<Longrightarrow> good_step p p'"
proof (induction rule: pbx_step.induct)
  case ps_attach then show ?case using good_step_same_calls component_calls(1) by blast
next
  case ps_adopt then show ?case using good_step_same_calls component_calls(2) by blast
next
  case ps_drop then show ?case using good_step_same_calls component_calls(3) by blast
next
  case ps_activate then show ?case using good_step_same_calls component_calls(4) by blast
next
  case ps_create then show ?case using create_session_good by blast
next
  case ps_ensure then show ?case using ensure_session_good by blast
next
  case ps_observe_call then show ?case using observe_call_good by blast
next
  case ps_observe_leg then show ?case using observe_leg_good by blast
next
  case ps_release_leg then show ?case using pbx_resource_ops_good(1) by blast
next
  case ps_own_resource then show ?case using pbx_resource_ops_good(2) by blast
next
  case ps_release_resource then show ?case using pbx_resource_ops_good(3) by blast
next
  case ps_own_task then show ?case using pbx_resource_ops_good(4) by blast
next
  case ps_release_task then show ?case using pbx_resource_ops_good(5) by blast
next
  case ps_task_done then show ?case using task_done_good by blast
next
  case ps_request then show ?case using request_termination_good by blast
next
  case ps_finish then show ?case using finish_session_good by blast
next
  case ps_stopping then show ?case using good_step_same_calls by simp
next
  case ps_stopped then show ?case using good_step_same_calls component_calls(5) by blast
qed

lemma shutdown_call_step: "pbx_step rt p (fst (shutdown_call current p session))"
  by (cases "request_termination current p (fst session) ''runtime_shutdown'' (Some (snd session))")
    (simp add: shutdown_call_def ps_request)

inductive pbx_reachable :: "runtime \<Rightarrow> pbx \<Rightarrow> bool" for rt where
  pbx_new: "pbx_reachable rt (new_pbx projected)"
| pbx_next: "pbx_reachable rt p \<Longrightarrow> pbx_step rt p p' \<Longrightarrow> pbx_reachable rt p'"

lemma pbx_reachable_ok: "pbx_reachable rt p \<Longrightarrow> pbx_ok p"
proof (induction rule: pbx_reachable.induct)
  case (pbx_new projected)
  show ?case by (simp add: pbx_ok_def new_pbx_def)
next
  case (pbx_next p p')
  then show ?case
    using pbx_step_good by (simp add: good_step_def)
qed

section \<open>Generations\<close>

text \<open>A generation whose session is gone.\<close>

definition generation_gone :: "int \<Rightarrow> pbx \<Rightarrow> bool" where
  "generation_gone g p \<longleftrightarrow> g \<le> pb_generation p \<and> list_all (\<lambda>(k, s). es_generation s \<noteq> g) (pb_calls p)"

lemma generation_gone_step:
  assumes "good_step p p'" and "generation_gone g p"
  shows "generation_gone g p'"
  using assms by (fastforce simp: good_step_def calls_evolve_def generation_gone_def list_all_iff)

text \<open>A property of single steps, along a sequence of steps.\<close>

lemma pbx_steps_invariant:
  assumes "(pbx_step rt)\<^sup>*\<^sup>* p p'" and "pbx_ok p" and "Q p"
    and "\<And>a b. good_step a b \<Longrightarrow> Q a \<Longrightarrow> Q b"
  shows "pbx_ok p' \<and> Q p'"
  using assms(1)
proof (induction rule: rtranclp_induct)
  case (step a b)
  then have "good_step a b"
    using pbx_step_good by blast
  then show ?case
    using step.IH assms(4) by (auto simp: good_step_def)
qed (use assms(2,3) in simp)

lemma gone_get_session: "generation_gone g p \<Longrightarrow> get_session p call_id (Some g) = None"
  by (auto simp: get_session_def generation_gone_def list_all_iff dest!: assoc_Some_in split: option.splits)

lemma finish_generation_gone:
  assumes "pbx_ok p" and "assoc (pb_calls p) k = Some s" and "finish_session rt p k = Some (p1, calls, out)"
  shows "generation_gone (es_generation s) p1"
proof -
  have p1: "p1 = p\<lparr> pb_calls := md_del (pb_calls p) k \<rparr>"
    using assms(3) by (auto simp: finish_session_def Let_def split: option.splits if_splits)
  have k: "(k, s) \<in> set (pb_calls p)" and le: "es_generation s \<le> pb_generation p"
    using assoc_Some_in [OF assms(2)] pbx_call [OF assms(1,2)] by (auto simp: call_ok_def)
  have "inj_on (\<lambda>(k, s). es_generation s) (set (pb_calls p))"
    using assms(1) by (simp add: pbx_ok_def distinct_map)
  then have "es_generation x \<noteq> es_generation s" if "(a, x) \<in> set (pb_calls p)" "a \<noteq> k" for a x
    using that k by (fastforce simp: inj_on_def)
  then show ?thesis
    using le by (auto simp: generation_gone_def p1 md_del_def list_all_iff)
qed

text \<open>C37: A call that has ended stays ended: after the session of a generation has been torn down,
  whatever the runtime does next, even when the same Call-ID is used again, no operation that carries the
  old generation finds a session: it changes nothing, publishes nothing and takes no resource.\<close>

theorem ended_generation_is_refused:
  assumes "pbx_reachable rt p" and "assoc (pb_calls p) k = Some s"
    and "finish_session rt p k = Some (p1, calls, out)" and "(pbx_step rt)\<^sup>*\<^sup>* p1 p2"
  shows "get_session p2 call_id (Some (es_generation s)) = None \<and>
    observe_call p2 call_id state (Some (es_generation s)) metadata = (p2, False, []) \<and>
    observe_leg p2 call_id leg_id o' (Some (es_generation s)) = Inr (p2, False, []) \<and>
    own_resource p2 call_id name val closer stage (Some (es_generation s)) = Inr (p2, False) \<and>
    request_termination current p2 call_id reason (Some (es_generation s)) = (p2, False, [])"
proof -
  have ok: "pbx_ok p"
    using assms(1) by (rule pbx_reachable_ok)
  then have "pbx_ok p1"
    using finish_session_good [OF ok assms(3)] by (simp add: good_step_def)
  then have "generation_gone (es_generation s) p2"
    using pbx_steps_invariant [OF assms(4), of "generation_gone (es_generation s)"]
      finish_generation_gone [OF ok assms(2,3)] generation_gone_step by blast
  then have "get_session p2 call_id (Some (es_generation s)) = None"
    by (rule gone_get_session)
  then show ?thesis
    by (simp add: observe_call_def observe_leg_def own_resource_def request_termination_def live_session_def)
qed

section \<open>Phases\<close>

definition answered_phases :: "session_phase list" where
  "answered_phases = [P_ESTABLISHED, P_HELD, P_TRANSFERRING, P_TERMINATING]"

definition answered_generation :: "int \<Rightarrow> pbx \<Rightarrow> bool" where
  "answered_generation g p \<longleftrightarrow> g \<le> pb_generation p \<and>
     list_all (\<lambda>(k, s). es_generation s = g \<longrightarrow> es_phase s \<in> set answered_phases) (pb_calls p)"

lemma answered_phase_moves:
  "es_phase s \<in> set answered_phases \<Longrightarrow> phase_moves s s' \<Longrightarrow> es_phase s' \<in> set answered_phases"
  by (auto simp: answered_phases_def phase_moves_def)

lemma answered_generation_step:
  assumes "good_step p p'" and "answered_generation g p"
  shows "answered_generation g p'"
  using assms answered_phase_moves
  by (fastforce simp: good_step_def calls_evolve_def answered_generation_def list_all_iff)

text \<open>C38: An answered call never rings again: once a session is established, held or transferring, every
  later state of the runtime has it in one of these phases or terminating, whatever stale states of the
  call are observed.\<close>

theorem answered_call_stays_answered:
  assumes "pbx_reachable rt p" and "assoc (pb_calls p) k = Some s"
    and "es_phase s \<in> {P_ESTABLISHED, P_HELD, P_TRANSFERRING}"
    and "(pbx_step rt)\<^sup>*\<^sup>* p p'" and "assoc (pb_calls p') k' = Some s'"
    and "es_generation s' = es_generation s"
  shows "es_phase s' \<in> {P_ESTABLISHED, P_HELD, P_TRANSFERRING, P_TERMINATING}"
proof -
  have ok: "pbx_ok p"
    using assms(1) by (rule pbx_reachable_ok)
  have k: "(k, s) \<in> set (pb_calls p)" "es_generation s \<le> pb_generation p"
    using assoc_Some_in [OF assms(2)] pbx_call [OF ok assms(2)] by (auto simp: call_ok_def)
  have "inj_on (\<lambda>(k, s). es_generation s) (set (pb_calls p))"
    using ok by (simp add: pbx_ok_def distinct_map)
  then have "x = s" if "(a, x) \<in> set (pb_calls p)" "es_generation x = es_generation s" for a x
    using that k(1) by (fastforce simp: inj_on_def)
  then have "answered_generation (es_generation s) p"
    using k(2) assms(3) by (auto simp: answered_generation_def list_all_iff answered_phases_def)
  then have "answered_generation (es_generation s) p'"
    using pbx_steps_invariant [OF assms(4) ok, of "answered_generation (es_generation s)"]
      answered_generation_step by blast
  then show ?thesis
    using assoc_Some_in [OF assms(5)] assms(6)
    by (auto simp: answered_generation_def list_all_iff answered_phases_def)
qed

section \<open>Shutdown\<close>

lemma stop_order_mset:
  assumes "distinct (map fst components)"
  shows "mset (stop_order components) = mset (map fst components)"
proof -
  have "distinct (stop_order components)"
    using assms by (auto simp: stop_order_def Let_def COMPONENT_STOP_ORDER_def)
  moreover have "set (stop_order components) = fst ` set components"
    by (auto simp: stop_order_def Let_def)
  ultimately have "set (stop_order components) = set (map fst components) \<longleftrightarrow>
      mset (stop_order components) = mset (map fst components)"
    using assms by (intro set_eq_iff_mset_eq_distinct)
  then show ?thesis
    using \<open>set (stop_order components) = fst ` set components\<close> by simp
qed

lemma pbx_step_components:
  "pbx_step rt p p' \<Longrightarrow> distinct (map fst (pb_components p)) \<Longrightarrow> distinct (map fst (pb_components p'))"
proof (induction rule: pbx_step.induct)
  case (ps_attach p name val closer p')
  then show ?case by (auto simp: attach_component_def Let_def distinct_md_set split: if_splits)
next
  case (ps_adopt p name val closer p')
  then show ?case by (auto simp: adopt_component_def Let_def distinct_md_set split: if_splits option.splits)
next
  case (ps_drop p name val p' b)
  then show ?case
    by (auto simp: release_component_def md_del_def intro!: distinct_map_filter split: if_splits option.splits)
qed (auto simp: activate_def create_session_def ensure_session_def observe_call_def observe_leg_def
    pbx_release_leg_def own_resource_def pbx_release_resource_def pbx_own_task_def pbx_release_task_def
    request_termination_def finish_session_def finish_shutdown_def put_call_def Let_def bindE_eq_Inr
    split: option.splits if_splits prod.splits)

lemma pbx_reachable_components: "pbx_reachable rt p \<Longrightarrow> distinct (map fst (pb_components p))"
  by (induction rule: pbx_reachable.induct) (simp_all add: new_pbx_def pbx_step_components)

text \<open>A shutdown under way: the sessions gathered whose coroutine has not started yet.  Meanwhile the runtime goes on,
  but only the shutdown task changes its phase.\<close>

inductive shutting_down :: "runtime \<Rightarrow> pbx \<times> (string \<times> int) list \<Rightarrow> pbx \<times> (string \<times> int) list \<Rightarrow> bool" for rt where
  sd_terminate: "shutting_down rt (p, session # todo) (fst (shutdown_call current p session), todo)"
| sd_meanwhile: "pbx_step rt p p' \<Longrightarrow> pb_phase p' = pb_phase p \<Longrightarrow> shutting_down rt (p, todo) (p', todo)"

lemma inactive_step:
  "pbx_step rt p p' \<Longrightarrow> pb_phase p \<noteq> ACTIVE \<Longrightarrow> pb_generation p' = pb_generation p"
  by (induction rule: pbx_step.induct)
    (auto simp: attach_component_def adopt_component_def release_component_def activate_def create_session_def
      ensure_session_def observe_call_def observe_leg_def pbx_release_leg_def own_resource_def
      pbx_release_resource_def pbx_own_task_def pbx_release_task_def request_termination_def finish_session_def
      finish_shutdown_def put_call_def Let_def bindE_eq_Inr split: option.splits if_splits prod.splits)

text \<open>The state of a shutdown: every call is one of those gathered, and either it is terminating or its coroutine has
  yet to start.\<close>

definition shutdown_ok :: "(string \<times> int) list \<Rightarrow> pbx \<times> (string \<times> int) list \<Rightarrow> bool" where
  "shutdown_ok all st \<longleftrightarrow>
     pbx_ok (fst st) \<and> pb_phase (fst st) = STOPPING \<and>
     (\<forall>(k, s) \<in> set (pb_calls (fst st)). (k, es_generation s) \<in> set all \<and>
        (es_phase s = P_TERMINATING \<or> (k, es_generation s) \<in> set (snd st)))"

lemma shutdown_ok_step:
  assumes "shutdown_ok all (p, todo)" "pbx_step rt p p'" "pb_phase p' = pb_phase p"
  shows "shutdown_ok all (p', todo)"
proof -
  have good: "good_step p p'" and "pb_generation p' = pb_generation p"
    using assms pbx_step_good inactive_step by (auto simp: shutdown_ok_def)
  then have "\<exists>s. (k, s) \<in> set (pb_calls p) \<and> es_generation s' = es_generation s \<and> phase_moves s s'"
    if "(k, s') \<in> set (pb_calls p')" for k s'
    using that by (fastforce simp: good_step_def calls_evolve_def pbx_ok_def list_all_iff call_ok_def)
  then have "(k, es_generation s') \<in> set all \<and> (es_phase s' = P_TERMINATING \<or> (k, es_generation s') \<in> set todo)"
    if "(k, s') \<in> set (pb_calls p')" for k s'
    using that assms(1) by (fastforce simp: shutdown_ok_def phase_moves_def)
  then show ?thesis
    using good assms(1,3) by (auto simp: shutdown_ok_def good_step_def)
qed

lemma terminating_call:
  assumes "pbx_ok p" "(k, s) \<in> set (pb_calls p)"
  shows "es_phase s = P_TERMINATING \<longleftrightarrow> es_termination_task s = Some None"
    and "es_termination_task s \<noteq> None \<Longrightarrow> es_termination_task s = Some None"
proof -
  have "session_ok s" "\<not> es_terminated s"
    using assms by (auto simp: pbx_ok_def list_all_iff call_ok_def)
  then show "es_phase s = P_TERMINATING \<longleftrightarrow> es_termination_task s = Some None"
    "es_termination_task s \<noteq> None \<Longrightarrow> es_termination_task s = Some None"
    by (auto simp: session_ok_def live_def split: option.splits)
qed

lemma shutdown_ok_terminate:
  assumes "shutdown_ok all (p, session # todo)"
  shows "shutdown_ok all (fst (shutdown_call current p session), todo)"
proof -
  obtain k g where session: "session = (k, g)"
    by (cases session)
  let ?p' = "fst (shutdown_call current p session)"
  have ok: "pbx_ok p"
    using assms by (simp add: shutdown_ok_def)
  show ?thesis
  proof (cases "get_session p k (Some g)")
    case None
    then have p': "?p' = p"
      by (simp add: shutdown_call_def request_termination_def session)
    have "assoc (pb_calls p) k = Some s" "strip k = k" if "(k, s) \<in> set (pb_calls p)" for s
      using that ok by (auto simp: pbx_ok_def assoc_eq_map_of list_all_iff call_ok_def)
    then have "es_generation s \<noteq> g" if "(k, s) \<in> set (pb_calls p)" for s
      using that None by (auto simp: get_session_def)
    with assms show ?thesis
      unfolding p' by (fastforce simp: shutdown_ok_def session)
  next
    case (Some s)
    note s = get_session_call [OF ok Some]
    let ?s = "start_termination current s ''runtime_shutdown''"
    have so: "session_ok s"
      using s by (simp add: call_ok_def)
    have p': "?p' = put_call p ?s"
      using Some by (simp add: shutdown_call_def request_termination_def session Let_def)
    have ph: "pb_phase ?p' = pb_phase p"
      by (simp add: p' put_call_def)
    have id: "es_call_id ?s = es_call_id s" "es_generation ?s = g"
      using start_termination_moves(1) [OF so] s by (auto simp: same_identity_def)
    have after_step: "shutdown_ok all (?p', session # todo)"
      using shutdown_ok_step [OF assms shutdown_call_step ph] .
    have d: "distinct (map fst (pb_calls p))"
      using ok by (simp add: pbx_ok_def)
    have mem: "(es_call_id s, ?s) \<in> set (pb_calls ?p')"
      by (simp add: p' put_call_def id set_md_set [OF d])
    have "es_phase ?s = P_TERMINATING"
      using terminating_call [OF _ mem] start_termination_moves(4) [OF so] after_step by (simp add: shutdown_ok_def)
    moreover have "x = ?s" if "(a, x) \<in> set (pb_calls ?p')" "es_generation x = g" for a x
    proof -
      have "inj_on (\<lambda>(k, s). es_generation s) (set (pb_calls ?p'))"
        using after_step by (simp add: shutdown_ok_def pbx_ok_def distinct_map)
      with that mem id(2) show ?thesis
        by (fastforce simp: inj_on_def)
    qed
    ultimately show ?thesis
      using after_step by (fastforce simp: shutdown_ok_def session)
  qed
qed

lemma shutting_down_ok: "shutting_down rt st st' \<Longrightarrow> shutdown_ok all st \<Longrightarrow> shutdown_ok all st'"
  by (induction rule: shutting_down.induct) (auto intro: shutdown_ok_terminate shutdown_ok_step)

lemma shutting_down_steps:
  assumes "pbx_ok p" "(shutting_down rt)\<^sup>*\<^sup>* (begin_shutdown p) st"
  shows "shutdown_ok (snd (begin_shutdown p)) st"
  using assms(2)
proof (induction rule: rtranclp_induct)
  case base
  have "pbx_ok (p\<lparr> pb_phase := STOPPING \<rparr>)"
    using good_step_same_calls [OF assms(1), of "p\<lparr> pb_phase := STOPPING \<rparr>"] by (simp add: good_step_def)
  then show ?case
    by (auto simp: begin_shutdown_def shutdown_ok_def)
qed (rule shutting_down_ok)

lemma shutting_down_reachable:
  "(shutting_down rt)\<^sup>*\<^sup>* (begin_shutdown p) st \<Longrightarrow> pbx_reachable rt p \<Longrightarrow> pbx_reachable rt (fst st)"
proof (induction rule: rtranclp_induct)
  case base
  then show ?case
    by (auto simp: begin_shutdown_def intro: pbx_next ps_stopping)
next
  case (step st st')
  from step(2) have "pbx_step rt (fst st) (fst st')"
    by cases (simp_all add: shutdown_call_step)
  with step show ?case
    by (blast intro: pbx_next)
qed

text \<open>What stopping the components does.\<close>

lemma stop_components_map: "stop_components err p names = map (close_component err p) names"
  by (induction names) simp_all

definition component_stop_of :: "(handle \<Rightarrow> outcome) \<Rightarrow> string \<times> component \<Rightarrow> component_stop" where
  "component_stop_of err c = (fst c, co_closer (snd c), case co_closer (snd c) of None \<Rightarrow> None | Some h \<Rightarrow> err h)"

lemma stop_components_mset:
  assumes "distinct (map fst (pb_components p))"
  shows "mset (stop_components err p (stop_order (pb_components p))) = mset (map (component_stop_of err) (pb_components p))"
proof -
  have "close_component err p (fst c) = component_stop_of err c" if "c \<in> set (pb_components p)" for c
  proof -
    obtain n x where c: "c = (n, x)"
      by (cases c)
    with that assms have "assoc (pb_components p) n = Some x"
      by (simp add: assoc_eq_map_of)
    then show ?thesis
      by (simp add: c close_component_def component_stop_of_def)
  qed
  then have "map (close_component err p) (map fst (pb_components p)) = map (component_stop_of err) (pb_components p)"
    by simp
  moreover have "mset (map (close_component err p) (stop_order (pb_components p))) =
      mset (map (close_component err p) (map fst (pb_components p)))"
    using stop_order_mset [OF assms] by (simp only: mset_map)
  ultimately show ?thesis
    by (simp only: stop_components_map)
qed

lemma stop_components_order:
  "map fst (stop_components err p (stop_order (pb_components p))) =
    filter (\<lambda>n. n \<in> fst ` set (pb_components p))
      [''trunk'', ''conference_manager'', ''registrar'', ''tcp_listener'', ''udp_listener'']
    @ filter (\<lambda>n. n \<notin> set [''trunk'', ''conference_manager'', ''registrar'', ''tcp_listener'', ''udp_listener''])
      (rev (map fst (pb_components p)))"
proof -
  have "map fst (map (close_component err p) names) = names" for names
    by (induction names) (simp_all add: close_component_def split: option.split)
  moreover have "filter (\<lambda>n. n \<notin> set (filter (\<lambda>n. n \<in> fst ` set cs) xs)) (rev (map fst cs)) =
      filter (\<lambda>n. n \<notin> set xs) (rev (map fst cs))" for xs and cs :: "(string \<times> component) list"
    by (rule filter_cong) auto
  ultimately show ?thesis
    by (simp only: stop_components_map stop_order_def Let_def COMPONENT_STOP_ORDER_def)
qed

text \<open>C39: A shutdown reaches everything.  It takes the calls there are and starts their terminations one after
  the other, while the runtime goes on: when the last has been started, every call still there is one of those taken
  and its termination is running, and no new call can be created.  When no call is left the components are stopped,
  each exactly once, also when a closer raises: the trunk first, then the conferences, the registrar and the listeners,
  then the others, last attached first; and the runtime is stopped.\<close>

theorem shutdown_reaches_everything:
  assumes "pbx_reachable rt p" and "(shutting_down rt)\<^sup>*\<^sup>* (begin_shutdown p) (p', [])"
  shows "list_all (\<lambda>(k, s). (k, es_generation s) \<in> set (map (\<lambda>(k, s). (k, es_generation s)) (pb_calls p)) \<and>
        es_termination_task s = Some None) (pb_calls p') \<and>
    create_session p' call_id phase metadata = Inl (RuntimeError ''PBX runtime is not active'') \<and>
    (pb_calls p' = [] \<longrightarrow> (\<exists>stops. finish_shutdown err p' = Some (p'\<lparr> pb_phase := STOPPED \<rparr>, stops) \<and>
       mset stops = mset (map (component_stop_of err) (pb_components p')) \<and>
       map fst stops =
         filter (\<lambda>n. n \<in> fst ` set (pb_components p'))
           [''trunk'', ''conference_manager'', ''registrar'', ''tcp_listener'', ''udp_listener'']
         @ filter (\<lambda>n. n \<notin> set [''trunk'', ''conference_manager'', ''registrar'', ''tcp_listener'', ''udp_listener''])
             (rev (map fst (pb_components p')))))"
proof -
  have ok: "shutdown_ok (snd (begin_shutdown p)) (p', [])"
    using shutting_down_steps [OF pbx_reachable_ok [OF assms(1)] assms(2)] .
  have "pbx_reachable rt (fst (p', [] :: (string \<times> int) list))"
    using assms(2,1) by (rule shutting_down_reachable)
  then have "pbx_reachable rt p'"
    by simp
  then have "distinct (map fst (pb_components p'))"
    by (rule pbx_reachable_components)
  moreover have "list_all (\<lambda>(k, s). (k, es_generation s) \<in> set (map (\<lambda>(k, s). (k, es_generation s)) (pb_calls p)) \<and>
      es_termination_task s = Some None) (pb_calls p')"
    using ok terminating_call(1) by (fastforce simp: shutdown_ok_def list_all_iff begin_shutdown_def)
  moreover have "pb_phase p' = STOPPING"
    using ok by (simp add: shutdown_ok_def)
  ultimately show ?thesis
    using stop_components_mset [of p' err] stop_components_order [of err p']
    by (simp add: create_session_def finish_shutdown_def del: list.set filter.simps)
qed

section \<open>An example run\<close>

definition example_active :: pbx where
  "example_active = (new_pbx True)\<lparr> pb_phase := ACTIVE, pb_components := [(''extra'', \<lparr> co_value = 1, co_closer = None \<rparr>),
     (''trunk'', \<lparr> co_value = 2, co_closer = Some 3 \<rparr>)] \<rparr>"

definition created :: "exn + (pbx \<times> endpoint_session \<times> projection list) \<Rightarrow> pbx" where
  "created r = (case r of Inr (p, _, _) \<Rightarrow> p | Inl _ \<Rightarrow> new_pbx False)"

definition example_call :: pbx where
  "example_call = created (create_session example_active ''c1'' P_NEW [(''caller'', MStr ''bob'')])"

definition example_pbx :: pbx where
  "example_pbx = fst (observe_call example_call ''c1'' ''in_call'' (Some 1) [])"

definition example_ending :: pbx where
  "example_ending = fst (request_termination None example_pbx ''c1'' ''bye'' (Some 1))"

definition example_ended :: pbx where
  "example_ended = fst (the (finish_session example_runtime example_ending ''c1''))"

definition example_again :: pbx where
  "example_again = created (create_session example_ended ''c1'' P_NEW [])"

lemma example_active_reachable: "pbx_reachable rt example_active"
proof -
  have c: "strip ''extra'' = ''extra''" "strip ''trunk'' = ''trunk''"
    by (simp_all add: strip_def lstrip_def rstrip_def is_space_def)
  have "pbx_reachable rt (new_pbx True)"
    by (rule pbx_new)
  moreover have "pbx_step rt (new_pbx True)
      ((new_pbx True)\<lparr> pb_components := [(''extra'', \<lparr> co_value = 1, co_closer = None \<rparr>)] \<rparr>)"
    by (rule ps_attach [where name = "''extra''"]) (simp add: attach_component_def new_pbx_def c)
  ultimately have "pbx_reachable rt ((new_pbx True)\<lparr> pb_components := [(''extra'', \<lparr> co_value = 1, co_closer = None \<rparr>)] \<rparr>)"
    by (rule pbx_next)
  moreover have "pbx_step rt \<dots> (example_active\<lparr> pb_phase := DARK \<rparr>)"
    by (rule ps_attach [where name = "''trunk''"]) (simp add: attach_component_def new_pbx_def c example_active_def)
  ultimately have "pbx_reachable rt (example_active\<lparr> pb_phase := DARK \<rparr>)"
    by (rule pbx_next)
  moreover have "pbx_step rt (example_active\<lparr> pb_phase := DARK \<rparr>) example_active"
    by (rule ps_activate) (simp add: activate_def example_active_def new_pbx_def)
  ultimately show ?thesis
    by (rule pbx_next)
qed

lemma createdI: "isl r = False \<Longrightarrow> \<exists>s out. r = Inr (created r, s, out)"
  by (cases r) (auto simp: created_def)

lemma example_results:
  "isl (create_session example_active ''c1'' P_NEW [(''caller'', MStr ''bob'')]) = False"
  "assoc (pb_calls example_pbx) ''c1'' = Some (snd (hd (pb_calls example_pbx)))"
  "es_phase (snd (hd (pb_calls example_pbx))) = P_ESTABLISHED"
  "es_generation (snd (hd (pb_calls example_pbx))) = 1"
  "assoc (pb_calls example_ending) ''c1'' = Some (snd (hd (pb_calls example_ending)))"
  "es_generation (snd (hd (pb_calls example_ending))) = 1"
  "finish_session example_runtime example_ending ''c1'' \<noteq> None"
  "isl (create_session example_ended ''c1'' P_NEW []) = False"
  "get_session example_again ''c1'' None \<noteq> None"
  "pb_calls example_pbx \<noteq> [] \<and> pb_phase example_pbx = ACTIVE"
proof -
  show "isl (create_session example_active ''c1'' P_NEW [(''caller'', MStr ''bob'')]) = False"
    by code_simp
  show "assoc (pb_calls example_pbx) ''c1'' = Some (snd (hd (pb_calls example_pbx)))"
    by code_simp
  show "es_phase (snd (hd (pb_calls example_pbx))) = P_ESTABLISHED"
    by code_simp
  show "es_generation (snd (hd (pb_calls example_pbx))) = 1"
    by code_simp
  show "assoc (pb_calls example_ending) ''c1'' = Some (snd (hd (pb_calls example_ending)))"
    by code_simp
  show "es_generation (snd (hd (pb_calls example_ending))) = 1"
    by code_simp
  show "finish_session example_runtime example_ending ''c1'' \<noteq> None"
    by code_simp
  show "isl (create_session example_ended ''c1'' P_NEW []) = False"
    by code_simp
  show "get_session example_again ''c1'' None \<noteq> None"
    by code_simp
  show "pb_calls example_pbx \<noteq> [] \<and> pb_phase example_pbx = ACTIVE"
    by code_simp
qed

lemma example_pbx_reachable:
  "pbx_reachable rt example_pbx" "pbx_reachable rt example_ending"
  "(pbx_step rt)\<^sup>*\<^sup>* example_ended example_again"
proof -
  obtain s out where "create_session example_active ''c1'' P_NEW [(''caller'', MStr ''bob'')] = Inr (example_call, s, out)"
    using createdI [OF example_results(1)] unfolding example_call_def by blast
  then have "pbx_reachable rt example_call"
    by (intro pbx_next [OF example_active_reachable ps_create]) auto
  moreover obtain b out' where "observe_call example_call ''c1'' ''in_call'' (Some 1) [] = (example_pbx, b, out')"
    unfolding example_pbx_def by (cases "observe_call example_call ''c1'' ''in_call'' (Some 1) []") auto
  ultimately show p: "pbx_reachable rt example_pbx"
    by (rule pbx_next [OF _ ps_observe_call])
  obtain b' out'' where "request_termination None example_pbx ''c1'' ''bye'' (Some 1) = (example_ending, b', out'')"
    unfolding example_ending_def by (cases "request_termination None example_pbx ''c1'' ''bye'' (Some 1)") auto
  with p show "pbx_reachable rt example_ending"
    by (rule pbx_next [OF _ ps_request])
  obtain s' out2 where "create_session example_ended ''c1'' P_NEW [] = Inr (example_again, s', out2)"
    using createdI [OF example_results(8)] unfolding example_again_def by blast
  then show "(pbx_step rt)\<^sup>*\<^sup>* example_ended example_again"
    by (intro r_into_rtranclp ps_create) auto
qed

theorem ended_generation_is_refused_witness:
  "get_session example_again ''c1'' None \<noteq> None \<and> get_session example_again ''c1'' (Some 1) = None"
proof -
  obtain calls out where f: "finish_session example_runtime example_ending ''c1'' = Some (example_ended, calls, out)"
    using example_results(7) unfolding example_ended_def
    by (cases "finish_session example_runtime example_ending ''c1''") auto
  show ?thesis
    using ended_generation_is_refused [OF example_pbx_reachable(2) example_results(5) f example_pbx_reachable(3)]
      example_results(6,9) by simp
qed

theorem answered_call_stays_answered_witness:
  "es_phase (snd (hd (pb_calls example_ending))) \<in> {P_ESTABLISHED, P_HELD, P_TRANSFERRING, P_TERMINATING}"
proof -
  have "pbx_step example_runtime example_pbx example_ending"
    unfolding example_ending_def
    by (cases "request_termination None example_pbx ''c1'' ''bye'' (Some 1)") (auto intro: ps_request)
  from r_into_rtranclp [of "pbx_step example_runtime", OF this] show ?thesis
    using answered_call_stays_answered [OF example_pbx_reachable(1) example_results(2) _ _ example_results(5)]
      example_results(3,4,6) by simp
qed


definition example_stopping :: pbx where
  "example_stopping = fst (shutdown_call (Some 9) (fst (begin_shutdown example_pbx)) (''c1'', 1))"

theorem shutdown_reaches_everything_witness:
  "es_termination_task (snd (hd (pb_calls example_stopping))) = Some None \<and>
   (\<exists>p' stops. (shutting_down example_runtime)\<^sup>*\<^sup>* (begin_shutdown example_pbx) (p', []) \<and>
      finish_shutdown (\<lambda>h. Some ''OSError'') p' = Some (p'\<lparr> pb_phase := STOPPED \<rparr>, stops) \<and>
      mset stops = {# (''trunk'', Some 3, Some ''OSError''), (''extra'', None, None) #} \<and>
      map fst stops = [''trunk'', ''extra''])"
proof -
  let ?rt = example_runtime
  let ?p' = "fst (the (finish_session ?rt example_stopping ''c1''))"
  have facts: "snd (begin_shutdown example_pbx) = [(''c1'', 1)]" "finish_session ?rt example_stopping ''c1'' \<noteq> None"
    "pb_phase ?p' = pb_phase example_stopping" "pb_calls ?p' = []" "pb_calls example_stopping \<noteq> []"
    "pb_components ?p' = [(''extra'', \<lparr> co_value = 1, co_closer = None \<rparr>), (''trunk'', \<lparr> co_value = 2, co_closer = Some 3 \<rparr>)]"
    by code_simp+
  then obtain calls out where f: "finish_session ?rt example_stopping ''c1'' = Some (?p', calls, out)"
    by (cases "finish_session ?rt example_stopping ''c1''") auto
  have start: "shutting_down ?rt (begin_shutdown example_pbx) (example_stopping, [])"
    using sd_terminate [of ?rt "fst (begin_shutdown example_pbx)" "(''c1'', 1)" "[]" "Some 9"] facts(1)
    by (metis example_stopping_def prod.collapse)
  then have run: "(shutting_down ?rt)\<^sup>*\<^sup>* (begin_shutdown example_pbx) (?p', [])"
    using sd_meanwhile [OF ps_finish [OF f] facts(3)] by (meson converse_rtranclp_into_rtranclp r_into_rtranclp)
  have "es_termination_task (snd (hd (pb_calls example_stopping))) = Some None"
    using shutdown_reaches_everything [OF example_pbx_reachable(1) r_into_rtranclp, OF start] facts(5)
    by (cases "pb_calls example_stopping") auto
  moreover obtain stops where stops: "finish_shutdown (\<lambda>h. Some ''OSError'') ?p' = Some (?p'\<lparr> pb_phase := STOPPED \<rparr>, stops)"
    "mset stops = mset (map (component_stop_of (\<lambda>h. Some ''OSError'')) (pb_components ?p'))"
    "map fst stops = filter (\<lambda>n. n \<in> fst ` set (pb_components ?p'))
           [''trunk'', ''conference_manager'', ''registrar'', ''tcp_listener'', ''udp_listener'']
         @ filter (\<lambda>n. n \<notin> set [''trunk'', ''conference_manager'', ''registrar'', ''tcp_listener'', ''udp_listener''])
             (rev (map fst (pb_components ?p')))"
    using shutdown_reaches_everything [OF example_pbx_reachable(1) run, of _ _ _ "\<lambda>h. Some ''OSError''"] facts(4) by blast
  ultimately show ?thesis
    using run by (intro conjI exI [of _ ?p'] exI [of _ stops]) (simp_all add: facts(6) component_stop_of_def)
qed

end
