(* ===== verification/Call_Registry.thy ===== *)
theory Call_Registry
  imports Pbx_Runtime Endpoint_Registry "HOL-Library.Char_ord" "HOL-Library.List_Lexorder"
begin

text \<open>
  \<open>custom_components/voip_stack/call_registry.py\<close>: the index of the calls that the softphone, the
  router and the trunk handlers share, in front of the PBX runtime that owns the sessions.

  An operation maps the registry to the registry after it and its result, \<open>Inl\<close> for an exception: what
  was changed before the exception stays changed.  The owner, when it is bound, is the state of
  \<open>Pbx_Runtime\<close>, whose projection is this registry: \<open>with_owner\<close> runs an operation of the owner and
  applies the projection calls it made, which is the order of the code because the owner never reads the
  registry.  Objects that are only stored and compared (clients, relays, tasks, media, futures) are
  handles; closures given to the owner are closers with their captured values.  Operations that return a
  session return its key here.
\<close>

section \<open>State\<close>

record reg_leg =
  rl_leg_id :: string
  rl_role :: string
  rl_sip_call_id :: string
  rl_state :: string

text \<open>The two entries of the metadata whose values are no plain values, \<open>controller_user_ids\<close> and
  \<open>ha_context\<close>, are fields of their own; they are not copied to the owner.\<close>

record reg_session =
  rs_id :: string
  rs_generation :: int
  rs_revision :: int
  rs_state :: string
  rs_owner :: string
  rs_outcome :: string
  rs_caller :: string
  rs_callee :: string
  rs_route_kind :: string
  rs_terminal_reason :: string
  rs_legs :: "(string \<times> reg_leg) list"
  rs_metadata :: metadata
  rs_controllers :: "(string \<times> string) list"
  rs_ha_context :: "handle option"

type_synonym route_step = "string \<times> string \<times> string"

text \<open>The monotonic clock is read in milliseconds.\<close>

record event_context =
  ec_sequence :: int
  ec_state :: string
  ec_previous_state :: string
  ec_route_history :: "route_step list"
  ec_connected_at :: int
  ec_duration :: "int option"

text \<open>A pending route holds the future that waits for it, and whether it is done.\<close>

record call_registry =
  cr_sessions :: "(string \<times> reg_session) list"
  cr_leg_index :: "(string \<times> string) list"
  cr_pending_routes :: "(string \<times> (handle \<times> bool) option) list"
  cr_pending_invites :: "(string \<times> handle) list"
  cr_preanswered :: "(string \<times> handle) list"
  cr_softphone_media :: "(string \<times> handle) list"
  cr_video_parameter_sets :: "(string \<times> handle) list"
  cr_sip_clients :: "(string \<times> handle) list"
  cr_client_watchers :: "(string \<times> handle) list"
  cr_relays :: "(string \<times> handle) list"
  cr_bridge_clients :: "(string \<times> string) list"
  cr_event_contexts :: "(string \<times> event_context) list"
  cr_terminal_summary_ids :: "string list"
  cr_endpoint_claims :: "(string \<times> (string \<times> string) list) list"
  cr_terminated :: "(string \<times> int) list"
  cr_generation :: int
  cr_endpoint_registry :: "endpoint_registry option"
  cr_session_owner :: "pbx option"

definition TERMINAL_STATES :: "string list" where
  "TERMINAL_STATES =
     [''idle'', ''busy'', ''declined'', ''cancelled'', ''media_incompatible'', ''transport_unreachable'',
      ''auth_required_unsupported'', ''protocol_error'', ''error'']"

definition MAX_TERMINATED_CALL_IDS :: nat where "MAX_TERMINATED_CALL_IDS = 512"
definition MAX_TERMINAL_SUMMARY_IDS :: nat where "MAX_TERMINAL_SUMMARY_IDS = 512"

definition new_reg_session :: "string \<Rightarrow> int \<Rightarrow> reg_session" where
  "new_reg_session i generation =
     \<lparr> rs_id = i, rs_generation = generation, rs_revision = 0, rs_state = ''new'', rs_owner = [],
       rs_outcome = [], rs_caller = [], rs_callee = [], rs_route_kind = [], rs_terminal_reason = [],
       rs_legs = [], rs_metadata = [], rs_controllers = [], rs_ha_context = None \<rparr>"

definition new_registry :: call_registry where
  "new_registry =
     \<lparr> cr_sessions = [], cr_leg_index = [], cr_pending_routes = [], cr_pending_invites = [],
       cr_preanswered = [], cr_softphone_media = [], cr_video_parameter_sets = [], cr_sip_clients = [],
       cr_client_watchers = [], cr_relays = [], cr_bridge_clients = [], cr_event_contexts = [],
       cr_terminal_summary_ids = [], cr_endpoint_claims = [], cr_terminated = [], cr_generation = 0,
       cr_endpoint_registry = None, cr_session_owner = None \<rparr>"

datatype call_error = CE_Exn exn | CE_Registry registry_error

definition find_session :: "call_registry \<Rightarrow> string \<Rightarrow> reg_session option" where
  "find_session reg k = assoc (cr_sessions reg) k"

definition put_session :: "string \<Rightarrow> reg_session \<Rightarrow> call_registry \<Rightarrow> call_registry" where
  "put_session k s reg = reg\<lparr> cr_sessions := md_set (cr_sessions reg) k s \<rparr>"

definition touch :: "reg_session \<Rightarrow> reg_session" where
  "touch s = s\<lparr> rs_revision := rs_revision s + 1 \<rparr>"

definition resolve_session_id :: "call_registry \<Rightarrow> string \<Rightarrow> string" where
  "resolve_session_id reg call_id =
     (case assoc (cr_leg_index reg) call_id of Some k \<Rightarrow> k | None \<Rightarrow> call_id)"

section \<open>The projection of the owner\<close>

fun phase_value :: "session_phase \<Rightarrow> string" where
  "phase_value P_NEW = ''new''"
| "phase_value P_ROUTING = ''routing''"
| "phase_value P_CALLING = ''calling''"
| "phase_value P_RINGING = ''ringing''"
| "phase_value P_CONNECTING = ''connecting''"
| "phase_value P_ESTABLISHED = ''established''"
| "phase_value P_HELD = ''held''"
| "phase_value P_TRANSFERRING = ''transferring''"
| "phase_value P_TERMINATING = ''terminating''"
| "phase_value P_TERMINATED = ''terminated''"

text \<open>\<open>session.metadata[key] = value\<close> with the mark of a change.\<close>

definition publish_value :: "metadata \<times> bool \<Rightarrow> string \<times> mval \<Rightarrow> metadata \<times> bool" where
  "publish_value acc kv =
     (if fst kv = ''pbx_phase'' then acc else update_value acc kv)"

definition published_session :: "snapshot \<Rightarrow> reg_session \<Rightarrow> reg_session" where
  "published_session sn s =
     (let phase = MStr (phase_value (sn_phase sn));
          changed0 = (mget (rs_metadata s) ''pbx_phase'' \<noteq> phase);
          md0 = md_set (rs_metadata s) ''pbx_phase'' phase;
          (md, changed1) = foldl publish_value (md0, changed0) (sn_metadata sn);
          new_reason = (sn_terminal_reason sn \<noteq> [] \<and> rs_terminal_reason s \<noteq> sn_terminal_reason sn);
          s1 = s\<lparr> rs_metadata := md,
                 rs_terminal_reason := (if new_reason then sn_terminal_reason sn else rs_terminal_reason s) \<rparr>
      in if changed1 \<or> new_reason then touch s1 else s1)"

definition registry_publish :: "snapshot \<Rightarrow> call_registry \<Rightarrow> call_registry" where
  "registry_publish sn reg =
     (let call_id = strip (sn_call_id sn) in
      if call_id = [] then reg
      else
      let s = (case find_session reg call_id of Some s \<Rightarrow> s
               | None \<Rightarrow> new_reg_session call_id (sn_generation sn))
      in if rs_generation s \<noteq> sn_generation sn then reg
         else put_session call_id (published_session sn s)
                (reg\<lparr> cr_generation := max (cr_generation reg) (sn_generation sn) \<rparr>))"

definition registry_remove :: "snapshot \<Rightarrow> call_registry \<Rightarrow> call_registry" where
  "registry_remove sn reg =
     (let call_id = strip (sn_call_id sn) in
      case find_session reg call_id of
        None \<Rightarrow> reg
      | Some s \<Rightarrow>
          if rs_generation s \<noteq> sn_generation sn then reg
          else put_session call_id
             (s\<lparr> rs_metadata := md_set (rs_metadata s) ''pbx_phase'' (MStr ''terminated''),
                rs_terminal_reason := or_else (sn_terminal_reason sn) (rs_terminal_reason s) \<rparr>) reg)"

fun apply_projection :: "call_registry \<Rightarrow> projection \<Rightarrow> call_registry" where
  "apply_projection reg (Publish sn) = registry_publish sn reg"
| "apply_projection reg (Remove sn) = registry_remove sn reg"

text \<open>An operation of the owner, when one is bound.\<close>

definition with_owner ::
  "(pbx \<Rightarrow> exn + (pbx \<times> 'b \<times> projection list)) \<Rightarrow> 'b \<Rightarrow> call_registry \<Rightarrow> call_registry \<times> (call_error + 'b)" where
  "with_owner f dflt reg =
     (case cr_session_owner reg of
        None \<Rightarrow> (reg, Inr dflt)
      | Some p \<Rightarrow>
          (case f p of
             Inl e \<Rightarrow> (reg, Inl (CE_Exn e))
           | Inr (p', x, out) \<Rightarrow>
               (foldl apply_projection (reg\<lparr> cr_session_owner := Some p' \<rparr>) out, Inr x)))"

definition quiet :: "exn + (pbx \<times> 'b) \<Rightarrow> exn + (pbx \<times> 'b \<times> projection list)" where
  "quiet r = bindE r (\<lambda>(p', x). Inr (p', x, []))"

text \<open>An operation of the owner on behalf of a session of the registry.\<close>

definition for_session ::
  "string \<Rightarrow> (reg_session \<Rightarrow> pbx \<Rightarrow> exn + (pbx \<times> 'b \<times> projection list)) \<Rightarrow> 'b \<Rightarrow> call_registry \<Rightarrow>
    call_registry \<times> (call_error + 'b)" where
  "for_session k f dflt reg =
     (case find_session reg k of None \<Rightarrow> (reg, Inr dflt) | Some s \<Rightarrow> with_owner (f s) dflt reg)"

text \<open>Running one operation after another.\<close>

definition andthen ::
  "call_registry \<times> ('e + 'a) \<Rightarrow> ('a \<Rightarrow> call_registry \<Rightarrow> call_registry \<times> ('e + 'b)) \<Rightarrow> call_registry \<times> ('e + 'b)" where
  "andthen r k = (case r of (reg, Inl e) \<Rightarrow> (reg, Inl e) | (reg, Inr x) \<Rightarrow> k x reg)"

lemma andthen_simps [simp]:
  "andthen (reg, Inl e) k = (reg, Inl e)"
  "andthen (reg, Inr x) k = k x reg"
  by (simp_all add: andthen_def)

definition owner_observation :: "metadata \<Rightarrow> metadata" where
  "owner_observation md = filter (\<lambda>(k, _). k \<noteq> ''pbx_phase'') md"

text \<open>\<open>observe_call\<close> with the fields of a session.\<close>

definition observe_session ::
  "string \<Rightarrow> (reg_session \<Rightarrow> (string \<times> mval) list) \<Rightarrow> reg_session \<Rightarrow> call_registry \<Rightarrow> call_registry \<times> (call_error + bool)" where
  "observe_session call_id extra s reg =
     with_owner (\<lambda>p. Inr (observe_call p call_id (rs_state s) (Some (rs_generation s))
         (set_metadata (owner_observation (rs_metadata s)) (extra s)))) False reg"

definition bound_fields :: "reg_session \<Rightarrow> (string \<times> mval) list" where
  "bound_fields s =
     [(''owner'', MStr (rs_owner s)), (''caller'', MStr (rs_caller s)), (''callee'', MStr (rs_callee s)),
      (''route_kind'', MStr (rs_route_kind s))]"

text \<open>The sessions already there become the owner's: one iteration of the loop.\<close>

definition adopt_session :: "string \<Rightarrow> call_registry \<Rightarrow> call_registry \<times> (call_error + unit)" where
  "adopt_session k reg =
     (case find_session reg k of
        None \<Rightarrow> (reg, Inr ())
      | Some s \<Rightarrow>
          andthen (with_owner (\<lambda>p. bindE (ensure_session p (rs_id s)
                [(''caller'', MStr (rs_caller s)), (''callee'', MStr (rs_callee s)),
                 (''route_kind'', MStr (rs_route_kind s))])
                (\<lambda>(p', es, out). Inr (p', es_generation es, out))) 0 reg)
            (\<lambda>generation reg1.
               let s1 = (case find_session reg1 k of Some s1 \<Rightarrow> s1 | None \<Rightarrow> s)\<lparr> rs_generation := generation \<rparr>
               in andthen (observe_session (rs_id s1) bound_fields s1 (put_session k s1 reg1))
                    (\<lambda>_ reg2. (reg2, Inr ()))))"

fun adopt_sessions :: "string list \<Rightarrow> call_registry \<Rightarrow> call_registry \<times> (call_error + unit)" where
  "adopt_sessions [] reg = (reg, Inr ())"
| "adopt_sessions (k # ks) reg = andthen (adopt_session k reg) (\<lambda>_. adopt_sessions ks)"

text \<open>\<open>same\<close>: the owner given is the object bound already.\<close>

definition bind_session_owner ::
  "bool \<Rightarrow> pbx option \<Rightarrow> call_registry \<Rightarrow> call_registry \<times> (call_error + unit)" where
  "bind_session_owner same owner reg =
     (if same then (reg, Inr ())
      else if cr_session_owner reg \<noteq> None \<and> owner \<noteq> None \<and> cr_sessions reg \<noteq> [] then
        (reg, Inl (CE_Exn (RuntimeError ''cannot replace the PBX owner while calls are active'')))
      else
      let reg1 = reg\<lparr> cr_session_owner := owner \<rparr> in
      if owner = None then (reg1, Inr ())
      else adopt_sessions (map fst (cr_sessions reg1)) reg1)"

section \<open>Terminated calls\<close>

definition remember :: "int \<Rightarrow> (string \<times> int) list \<Rightarrow> string \<Rightarrow> (string \<times> int) list" where
  "remember generation xs call_id =
     (if strip call_id = [] then xs
      else md_del xs (strip call_id) @ [(strip call_id, generation)])"

definition keep_last :: "nat \<Rightarrow> 'a list \<Rightarrow> 'a list" where
  "keep_last n xs = drop (length xs - n) xs"

definition remember_terminated :: "string list \<Rightarrow> int \<Rightarrow> call_registry \<Rightarrow> call_registry" where
  "remember_terminated call_ids generation reg =
     reg\<lparr> cr_terminated :=
       keep_last MAX_TERMINATED_CALL_IDS (foldl (remember generation) (cr_terminated reg) call_ids) \<rparr>"

definition is_terminated :: "call_registry \<Rightarrow> string \<Rightarrow> int option \<Rightarrow> bool" where
  "is_terminated reg call_id generation =
     (let call_id = strip call_id in
      list_ex (\<lambda>candidate. case assoc (cr_terminated reg) candidate of
          None \<Rightarrow> False
        | Some terminal_generation \<Rightarrow> generation = None \<or> generation = Some terminal_generation)
        [call_id, resolve_session_id reg call_id])"

definition generation_of :: "reg_session option \<Rightarrow> int" where
  "generation_of s = (case s of Some s \<Rightarrow> rs_generation s | None \<Rightarrow> 0)"

definition begin_termination :: "string \<Rightarrow> call_registry \<Rightarrow> call_registry \<times> bool" where
  "begin_termination call_id reg =
     (let call_id = strip call_id in
      if call_id = [] then (reg, False)
      else
      let session_id = resolve_session_id reg call_id in
      if is_terminated reg call_id None then (reg, False)
      else
      let session = find_session reg session_id;
          reg1 = remember_terminated [call_id, session_id] (generation_of session) reg
      in (case session of
            None \<Rightarrow> reg1
          | Some s \<Rightarrow>
              if mget (rs_metadata s) ''pbx_phase'' \<noteq> MStr ''terminating''
              then put_session session_id
                (touch (s\<lparr> rs_metadata := md_set (rs_metadata s) ''pbx_phase'' (MStr ''terminating'') \<rparr>)) reg1
              else reg1, True))"

section \<open>Endpoint claims\<close>

definition self_handle :: handle where "self_handle = 0"

definition claims_of :: "call_registry \<Rightarrow> string \<Rightarrow> (string \<times> string) list" where
  "claims_of reg k = (case assoc (cr_endpoint_claims reg) k of Some cs \<Rightarrow> cs | None \<Rightarrow> [])"

definition touch_session :: "string \<Rightarrow> call_registry \<Rightarrow> call_registry" where
  "touch_session k reg = (case find_session reg k of None \<Rightarrow> reg | Some s \<Rightarrow> put_session k (touch s) reg)"

definition claim_endpoint ::
  "string \<Rightarrow> string \<Rightarrow> string \<Rightarrow> bool \<Rightarrow> call_registry \<Rightarrow> call_registry \<times> (call_error + bool)" where
  "claim_endpoint call_id endpoint_id role adopt_transport reg =
     (let endpoint_id = strip endpoint_id in
      case cr_endpoint_registry reg of
        None \<Rightarrow> (reg, Inr False)
      | Some er \<Rightarrow>
          if endpoint_id = [] then (reg, Inr False)
          else
          let session_id = resolve_session_id reg (strip call_id) in
          if session_id = [] then (reg, Inl (CE_Exn ValueError))
          else
          (case (if adopt_transport then adopt_transport_call er endpoint_id session_id ''physical:''
                 else claim_call er endpoint_id session_id) of
             Inl e \<Rightarrow> (reg, Inl (CE_Registry e))
           | Inr (er', _) \<Rightarrow>
               let claims = claims_of reg session_id;
                   role' = or_else role ''endpoint'';
                   reg1 = reg\<lparr> cr_endpoint_registry := Some er',
                              cr_endpoint_claims := md_set (cr_endpoint_claims reg) session_id
                                 (md_set claims endpoint_id role') \<rparr>;
                   owned = for_session session_id (\<lambda>s p. quiet (own_resource p session_id
                       (''endpoint_claim:'' @ endpoint_id) self_handle
                       (Closer ''release_claim'' [session_id, endpoint_id] []) RESERVATION
                       (Some (rs_generation s)))) False reg1
               in andthen owned (\<lambda>_ reg2.
                    (if assoc claims endpoint_id \<noteq> Some role' then touch_session session_id reg2 else reg2,
                     Inr True))))"

text \<open>The phone itself, as far as the endpoint registry still has it.\<close>

definition release_phone :: "string \<Rightarrow> string \<Rightarrow> call_registry \<Rightarrow> call_registry \<times> (call_error + bool)" where
  "release_phone session_id endpoint_id reg =
     (case cr_endpoint_registry reg of
        None \<Rightarrow> (reg, Inr False)
      | Some er \<Rightarrow>
          if get_endpoint er endpoint_id = None then (reg, Inr False)
          else (case release_call er endpoint_id session_id of
             Inl e \<Rightarrow> (reg, Inl (CE_Registry e))
           | Inr (er', b) \<Rightarrow> (reg\<lparr> cr_endpoint_registry := Some er' \<rparr>, Inr b)))"

definition drop_claim :: "string \<Rightarrow> string \<Rightarrow> call_registry \<Rightarrow> call_registry" where
  "drop_claim session_id endpoint_id reg =
     reg\<lparr> cr_endpoint_claims := md_set (cr_endpoint_claims reg) session_id
       (md_del (claims_of reg session_id) endpoint_id) \<rparr>"

definition forget_claims :: "string \<Rightarrow> call_registry \<Rightarrow> call_registry" where
  "forget_claims session_id reg = reg\<lparr> cr_endpoint_claims := md_del (cr_endpoint_claims reg) session_id \<rparr>"

fun release_listed :: "string \<Rightarrow> string list \<Rightarrow> call_registry \<Rightarrow> call_registry \<times> (call_error + unit)" where
  "release_listed session_id [] reg = (reg, Inr ())"
| "release_listed session_id (e # es) reg =
     andthen (release_phone session_id e reg)
       (\<lambda>_ reg1. release_listed session_id es (drop_claim session_id e reg1))"

definition release_endpoint_claims :: "string \<Rightarrow> call_registry \<Rightarrow> call_registry \<times> (call_error + unit)" where
  "release_endpoint_claims call_id reg =
     (let session_id = resolve_session_id reg (strip call_id) in
      if cr_endpoint_registry reg = None then (forget_claims session_id reg, Inr ())
      else andthen (release_listed session_id (map fst (claims_of reg session_id)) reg)
             (\<lambda>_ reg1. (forget_claims session_id reg1, Inr ())))"

definition release_endpoint_claim ::
  "string \<Rightarrow> string \<Rightarrow> call_registry \<Rightarrow> call_registry \<times> (call_error + bool)" where
  "release_endpoint_claim call_id endpoint_id reg =
     (let session_id = resolve_session_id reg (strip call_id); endpoint_id = strip endpoint_id in
      if endpoint_id = [] \<or> assoc (claims_of reg session_id) endpoint_id = None then (reg, Inr False)
      else andthen (release_phone session_id endpoint_id reg) (\<lambda>released reg1.
        let reg2 = drop_claim session_id endpoint_id reg1;
            reg3 = (if claims_of reg2 session_id = [] then forget_claims session_id reg2 else reg2)
        in andthen (for_session session_id (\<lambda>s p. quiet (pbx_release_resource p session_id
                 (''endpoint_claim:'' @ endpoint_id) (Some self_handle) (Some (rs_generation s)))) False
               (touch_session session_id reg3))
             (\<lambda>_ reg4. (reg4, Inr released))))"

fun release_calls :: "string list \<Rightarrow> call_registry \<Rightarrow> call_registry \<times> (call_error + unit)" where
  "release_calls [] reg = (reg, Inr ())"
| "release_calls (k # ks) reg = andthen (release_endpoint_claims k reg) (\<lambda>_. release_calls ks)"

definition release_all_endpoint_claims :: "call_registry \<Rightarrow> call_registry \<times> (call_error + unit)" where
  "release_all_endpoint_claims reg = release_calls (map fst (cr_endpoint_claims reg)) reg"

definition bind_endpoint_registry ::
  "bool \<Rightarrow> endpoint_registry option \<Rightarrow> call_registry \<Rightarrow> call_registry \<times> (call_error + unit)" where
  "bind_endpoint_registry same er reg =
     (if same then (reg, Inr ())
      else andthen (if cr_endpoint_claims reg \<noteq> [] then release_all_endpoint_claims reg else (reg, Inr ()))
             (\<lambda>_ reg1. (reg1\<lparr> cr_endpoint_registry := er \<rparr>, Inr ())))"

section \<open>Events for automations\<close>

record event_fields =
  ef_sequence :: int
  ef_revision :: int
  ef_generation :: int
  ef_pbx_phase :: string
  ef_owner :: string
  ef_previous_state :: string
  ef_route_history :: "route_step list"
  ef_duration_seconds :: "int option"
  ef_identity :: metadata
  ef_participants :: "string list"

definition no_event_fields :: event_fields where
  "no_event_fields =
     \<lparr> ef_sequence = 0, ef_revision = 0, ef_generation = 0, ef_pbx_phase = [], ef_owner = [],
       ef_previous_state = [], ef_route_history = [], ef_duration_seconds = None, ef_identity = [],
       ef_participants = [] \<rparr>"

definition new_event_context :: event_context where
  "new_event_context =
     \<lparr> ec_sequence = 0, ec_state = [], ec_previous_state = [], ec_route_history = [],
       ec_connected_at = 0, ec_duration = None \<rparr>"

definition MAX_EVENT_CONTEXTS :: nat where "MAX_EVENT_CONTEXTS = 256"
definition MAX_ROUTE_HISTORY :: nat where "MAX_ROUTE_HISTORY = 8"

text \<open>\<open>round(ms / 1000)\<close>: to the nearest second, halves to the even one.\<close>

definition round_seconds :: "int \<Rightarrow> int" where
  "round_seconds ms =
     (let q = ms div 1000; r = ms mod 1000
      in if r > 500 \<or> (r = 500 \<and> odd q) then q + 1 else q)"

definition starts_new_lifecycle :: "event_context \<Rightarrow> string \<Rightarrow> bool" where
  "starts_new_lifecycle ctx state \<longleftrightarrow>
     state \<noteq> [] \<and> state \<notin> set TERMINAL_STATES \<and> (ec_state ctx = [] \<or> ec_state ctx \<in> set TERMINAL_STATES)"

text \<open>The context after one event: a new lifecycle, the change of state, the time of connection and the
  duration.\<close>

definition restart_context :: "string \<Rightarrow> event_context \<Rightarrow> event_context" where
  "restart_context state ctx =
     (if starts_new_lifecycle ctx state then ctx\<lparr> ec_connected_at := 0, ec_duration := None \<rparr> else ctx)"

definition change_context :: "string \<Rightarrow> event_context \<Rightarrow> event_context" where
  "change_context state ctx =
     (if state \<noteq> [] \<and> state \<noteq> ec_state ctx
      then ctx\<lparr> ec_previous_state := ec_state ctx, ec_state := state, ec_sequence := ec_sequence ctx + 1 \<rparr>
      else ctx)"

definition connect_context :: "int \<Rightarrow> string \<Rightarrow> event_context \<Rightarrow> event_context" where
  "connect_context now state ctx =
     (if state = ''in_call'' \<and> ec_connected_at ctx = 0 then ctx\<lparr> ec_connected_at := now \<rparr> else ctx)"

definition close_context :: "int \<Rightarrow> string \<Rightarrow> event_context \<Rightarrow> event_context" where
  "close_context now state ctx =
     (if state \<in> set TERMINAL_STATES \<and> ec_connected_at ctx \<noteq> 0 \<and> ec_duration ctx = None
      then ctx\<lparr> ec_duration := Some (max 0 (round_seconds (now - ec_connected_at ctx))) \<rparr>
      else ctx)"

definition advance_context :: "int \<Rightarrow> string \<Rightarrow> event_context \<Rightarrow> event_context" where
  "advance_context now state ctx =
     close_context now state (connect_context now state (change_context state (restart_context state ctx)))"

definition present :: "metadata \<Rightarrow> string \<Rightarrow> bool" where
  "present md k \<longleftrightarrow> mget md k \<noteq> MNone \<and> mget md k \<noteq> MStr []"

definition identity_keys :: "string list" where
  "identity_keys =
     [''endpoint_id'', ''source_endpoint_id'', ''dest_endpoint_id'', ''target_endpoint_id'',
      ''device_id'', ''source_device_id'', ''dest_device_id'', ''target_device_id'']"

definition identity_fields :: "reg_session \<Rightarrow> metadata" where
  "identity_fields s =
     map (\<lambda>k. (k, mget (rs_metadata s) k))
       (filter (present (rs_metadata s)) (identity_keys @ [''ingress'', ''origin'']))"

definition participants :: "call_registry \<Rightarrow> string \<Rightarrow> reg_session \<Rightarrow> string list" where
  "participants reg call_id s =
     sort (remdups (filter (\<lambda>x. x \<noteq> [])
       (map (\<lambda>k. strip (mstr (mget (rs_metadata s) k))) (filter (present (rs_metadata s)) (take 4 identity_keys))
        @ map fst (claims_of reg call_id))))"

definition fields_of :: "call_registry \<Rightarrow> string \<Rightarrow> string \<Rightarrow> event_context \<Rightarrow> event_fields" where
  "fields_of reg call_id state ctx =
     (let base = no_event_fields
        \<lparr> ef_sequence := ec_sequence ctx, ef_previous_state := ec_previous_state ctx,
          ef_route_history := ec_route_history ctx,
          ef_duration_seconds :=
            (if state \<in> set TERMINAL_STATES \<and> ec_connected_at ctx \<noteq> 0 then ec_duration ctx else None) \<rparr>
      in case find_session reg call_id of
           None \<Rightarrow> base
         | Some s \<Rightarrow> base
             \<lparr> ef_revision := rs_revision s, ef_generation := rs_generation s,
               ef_pbx_phase := mstr (por (mget (rs_metadata s) ''pbx_phase'') (MStr (rs_state s))),
               ef_owner := rs_owner s, ef_identity := identity_fields s,
               ef_participants := participants reg call_id s \<rparr>)"

definition context_for :: "string \<Rightarrow> call_registry \<Rightarrow> call_registry \<times> event_context" where
  "context_for call_id reg =
     (case assoc (cr_event_contexts reg) call_id of
        Some ctx \<Rightarrow> (reg, ctx)
      | None \<Rightarrow>
          let kept = (if MAX_EVENT_CONTEXTS \<le> length (cr_event_contexts reg)
                      then tl (cr_event_contexts reg) else cr_event_contexts reg)
          in (reg\<lparr> cr_event_contexts := md_set kept call_id new_event_context \<rparr>, new_event_context))"

definition registry_event_fields ::
  "int \<Rightarrow> string \<Rightarrow> string \<Rightarrow> call_registry \<Rightarrow> call_registry \<times> event_fields" where
  "registry_event_fields now call_id state reg =
     (let state = strip state in
      if strip call_id = [] then (reg, no_event_fields)
      else
      let call_id = resolve_session_id reg (strip call_id);
          (reg1, ctx) = context_for call_id reg;
          reg2 = (if starts_new_lifecycle ctx state
                  then reg1\<lparr> cr_terminal_summary_ids := removeAll call_id (cr_terminal_summary_ids reg1) \<rparr>
                  else reg1);
          ctx' = advance_context now state ctx
      in (reg2\<lparr> cr_event_contexts := md_set (cr_event_contexts reg2) call_id ctx' \<rparr>,
          fields_of reg2 call_id state ctx'))"

definition claim_terminal_summary :: "string \<Rightarrow> call_registry \<Rightarrow> call_registry \<times> bool" where
  "claim_terminal_summary call_id reg =
     (let call_id = resolve_session_id reg (strip call_id) in
      if call_id = [] \<or> call_id \<in> set (cr_terminal_summary_ids reg) then (reg, False)
      else (reg\<lparr> cr_terminal_summary_ids :=
                keep_last MAX_TERMINAL_SUMMARY_IDS (cr_terminal_summary_ids reg @ [call_id]) \<rparr>, True))"

definition registry_event_context :: "call_registry \<Rightarrow> string \<Rightarrow> event_context option" where
  "registry_event_context reg call_id =
     assoc (cr_event_contexts reg) (resolve_session_id reg (strip call_id))"

text \<open>A call id of white space has no context, and indexing it is the \<open>KeyError\<close>.\<close>

definition record_route ::
  "int \<Rightarrow> string \<Rightarrow> string \<Rightarrow> string \<Rightarrow> string \<Rightarrow> call_registry \<Rightarrow> call_registry \<times> (route_step list) option" where
  "record_route now call_id action destination src reg =
     (let call_id = resolve_session_id reg (strip call_id);
          reg1 = (if assoc (cr_event_contexts reg) call_id = None
                  then fst (registry_event_fields now call_id [] reg) else reg)
      in case assoc (cr_event_contexts reg1) call_id of
           None \<Rightarrow> (reg1, None)
         | Some ctx \<Rightarrow>
             let step = (strip action, strip destination, strip (or_else src ''automation''));
                 history = keep_last MAX_ROUTE_HISTORY (ec_route_history ctx @ [step])
             in (touch_session call_id (reg1\<lparr> cr_event_contexts :=
                   md_set (cr_event_contexts reg1) call_id (ctx\<lparr> ec_route_history := history \<rparr>) \<rparr>),
                 Some history))"


section \<open>Sessions\<close>

record call_update =
  cu_state :: string
  cu_owner :: string
  cu_caller :: string
  cu_callee :: string
  cu_route_kind :: string
  cu_ingress :: string
  cu_origin :: string
  cu_terminal_reason :: string
  cu_metadata :: metadata

definition no_update :: call_update where
  "no_update =
     \<lparr> cu_state = [], cu_owner = [], cu_caller = [], cu_callee = [], cu_route_kind = [], cu_ingress = [],
       cu_origin = [], cu_terminal_reason = [], cu_metadata = [] \<rparr>"

definition ownership_metadata :: "call_update \<Rightarrow> metadata" where
  "ownership_metadata u =
     (let md1 = (if cu_ingress u \<noteq> [] then md_set (cu_metadata u) ''ingress'' (MStr (cu_ingress u)) else cu_metadata u)
      in if cu_origin u \<noteq> [] then md_set md1 ''origin'' (MStr (cu_origin u)) else md1)"

definition updated_session :: "call_update \<Rightarrow> reg_session \<Rightarrow> reg_session" where
  "updated_session u s =
     (let new = (\<lambda>v old. v \<noteq> [] \<and> old \<noteq> v);
          changed = (new (cu_state u) (rs_state s) \<or> new (cu_owner u) (rs_owner s) \<or> new (cu_caller u) (rs_caller s)
              \<or> new (cu_callee u) (rs_callee s) \<or> new (cu_route_kind u) (rs_route_kind s)
              \<or> new (cu_terminal_reason u) (rs_terminal_reason s));
          s1 = s\<lparr> rs_state := or_else (cu_state u) (rs_state s), rs_owner := or_else (cu_owner u) (rs_owner s),
                 rs_caller := or_else (cu_caller u) (rs_caller s), rs_callee := or_else (cu_callee u) (rs_callee s),
                 rs_route_kind := or_else (cu_route_kind u) (rs_route_kind s),
                 rs_terminal_reason := or_else (cu_terminal_reason u) (rs_terminal_reason s) \<rparr>;
          clean = clean_values (ownership_metadata u);
          fresh = any_new_value (rs_metadata s) clean;
          s2 = (if fresh then s1\<lparr> rs_metadata := set_metadata (rs_metadata s1) clean \<rparr> else s1)
      in if changed \<or> fresh then touch s2 else s2)"

definition registry_upsert :: "string \<Rightarrow> call_update \<Rightarrow> call_registry \<Rightarrow> call_registry \<times> (call_error + unit)" where
  "registry_upsert call_id u reg =
     andthen
       (with_owner (\<lambda>p. bindE (ensure_session p call_id
            (set_metadata [(''caller'', MStr (cu_caller u)), (''callee'', MStr (cu_callee u)),
                           (''route_kind'', MStr (cu_route_kind u))] (ownership_metadata u)))
            (\<lambda>(p', es, out). Inr (p', Some (es_generation es), out))) None reg)
       (\<lambda>authoritative reg1.
          let (s, reg2) = (case find_session reg1 call_id of
                Some s \<Rightarrow> (s, reg1)
              | None \<Rightarrow>
                  let generation = (case authoritative of None \<Rightarrow> cr_generation reg1 + 1 | Some g \<Rightarrow> g)
                  in (new_reg_session call_id generation,
                      reg1\<lparr> cr_generation := max (cr_generation reg1) generation \<rparr>));
              s' = updated_session u s
          in andthen (observe_session call_id
                 (\<lambda>s. bound_fields s @ [(''terminal_reason'', MStr (rs_terminal_reason s))]) s'
                 (put_session call_id s' reg2))
               (\<lambda>_ reg3. (reg3, Inr ())))"

record guarded_update =
  gu_state :: string
  gu_owner :: "string option"
  gu_outcome :: "string option"
  gu_caller :: string
  gu_callee :: string
  gu_route_kind :: string
  gu_expected_revision :: "int option"
  gu_expected_generation :: "int option"
  gu_expected_owner :: "string option"
  gu_metadata :: metadata

definition expected :: "'a option \<Rightarrow> 'a \<Rightarrow> bool" where
  "expected e x \<longleftrightarrow> e = None \<or> e = Some x"

definition is_terminal_session :: "reg_session \<Rightarrow> bool" where
  "is_terminal_session s \<longleftrightarrow> rs_owner s = ''terminal'' \<or> rs_state s \<in> set TERMINAL_STATES"

definition moved_session :: "guarded_update \<Rightarrow> reg_session \<Rightarrow> reg_session" where
  "moved_session u s =
     touch (s\<lparr> rs_state := or_else (gu_state u) (rs_state s),
              rs_owner := (case gu_owner u of Some v \<Rightarrow> v | None \<Rightarrow> rs_owner s),
              rs_outcome := (case gu_outcome u of Some v \<Rightarrow> v | None \<Rightarrow> rs_outcome s),
              rs_caller := or_else (gu_caller u) (rs_caller s),
              rs_callee := or_else (gu_callee u) (rs_callee s),
              rs_route_kind := or_else (gu_route_kind u) (rs_route_kind s),
              rs_metadata := set_metadata (rs_metadata s) (clean_values (gu_metadata u)) \<rparr>)"

definition registry_transition ::
  "string \<Rightarrow> guarded_update \<Rightarrow> call_registry \<Rightarrow> call_registry \<times> (call_error + bool)" where
  "registry_transition call_id u reg =
     (let session_id = resolve_session_id reg (strip call_id) in
      case find_session reg session_id of
        None \<Rightarrow> (reg, Inr False)
      | Some s \<Rightarrow>
          if \<not> expected (gu_expected_revision u) (rs_revision s) then (reg, Inr False)
          else if \<not> expected (gu_expected_generation u) (rs_generation s) then (reg, Inr False)
          else if \<not> expected (gu_expected_owner u) (rs_owner s) then (reg, Inr False)
          else if is_terminal_session s then (reg, Inr False)
          else
          let s' = moved_session u s in
          andthen (observe_session session_id
              (\<lambda>s. (''outcome'', MStr (rs_outcome s)) # bound_fields s) s' (put_session session_id s' reg))
            (\<lambda>_ reg1. (reg1, Inr True)))"

definition is_current :: "call_registry \<Rightarrow> string \<Rightarrow> int \<Rightarrow> int option \<Rightarrow> string option \<Rightarrow> bool" where
  "is_current reg call_id revision generation owner =
     (case find_session reg (resolve_session_id reg (strip call_id)) of
        None \<Rightarrow> False
      | Some s \<Rightarrow> rs_revision s = revision \<and> expected generation (rs_generation s) \<and> expected owner (rs_owner s))"

definition is_generation_current :: "call_registry \<Rightarrow> string \<Rightarrow> int \<Rightarrow> bool" where
  "is_generation_current reg call_id generation =
     (case find_session reg (resolve_session_id reg (strip call_id)) of
        None \<Rightarrow> False
      | Some s \<Rightarrow> rs_generation s = generation \<and> \<not> is_terminal_session s \<and>
          \<not> is_terminated reg call_id (Some generation))"

section \<open>Legs\<close>

definition add_session_metadata :: "metadata \<Rightarrow> reg_session \<Rightarrow> reg_session" where
  "add_session_metadata md s =
     (if any_new_value (rs_metadata s) (clean_values md)
      then touch (s\<lparr> rs_metadata := set_metadata (rs_metadata s) (clean_values md) \<rparr>) else s)"

definition next_leg :: "string \<Rightarrow> string \<Rightarrow> string \<Rightarrow> string \<Rightarrow> reg_leg option \<Rightarrow> reg_leg" where
  "next_leg leg_id role state sip_call_id old =
     (let leg = (case old of Some l \<Rightarrow> l
                 | None \<Rightarrow> \<lparr> rl_leg_id = leg_id, rl_role = role, rl_sip_call_id = or_else sip_call_id leg_id,
                            rl_state = ''idle'' \<rparr>)
      in leg\<lparr> rl_role := role, rl_state := or_else state (rl_state leg),
              rl_sip_call_id := or_else sip_call_id (rl_sip_call_id leg) \<rparr>)"

definition registry_add_leg ::
  "string \<Rightarrow> string \<Rightarrow> string \<Rightarrow> string \<Rightarrow> string \<Rightarrow> metadata \<Rightarrow> call_registry \<Rightarrow> call_registry \<times> (call_error + unit)" where
  "registry_add_leg call_id leg_id role state sip_call_id metadata reg =
     andthen
       (case find_session reg call_id of
          None \<Rightarrow> registry_upsert call_id
            (no_update\<lparr> cu_state := or_else state ''active'', cu_metadata := metadata \<rparr>) reg
        | Some s \<Rightarrow> (put_session call_id (add_session_metadata metadata s) reg, Inr ()))
       (\<lambda>_ reg1. case find_session reg1 call_id of
          None \<Rightarrow> (reg1, Inr ())
        | Some s \<Rightarrow>
            let old = assoc (rs_legs s) leg_id;
                leg = next_leg leg_id role state sip_call_id old;
                s1 = s\<lparr> rs_legs := md_set (rs_legs s) leg_id leg \<rparr>;
                s2 = (if old \<noteq> Some leg then touch s1 else s1);
                reg2 = (put_session call_id s2 reg1)\<lparr> cr_leg_index := md_set (cr_leg_index reg1) leg_id call_id \<rparr>
            in andthen (for_session call_id (\<lambda>s p. observe_leg p call_id leg_id
                   \<lparr> lo_role = role, lo_state = rl_state leg, lo_sip_call_id = rl_sip_call_id leg,
                     lo_endpoint_id = mtext (mget metadata ''endpoint_id''), lo_dialog = None,
                     lo_media = None, lo_closer = None \<rparr> (Some (rs_generation s))) False reg2)
                 (\<lambda>_ reg3. (reg3, Inr ())))"

definition registry_remove_leg ::
  "string \<Rightarrow> string \<Rightarrow> call_registry \<Rightarrow> call_registry \<times> (call_error + reg_leg option)" where
  "registry_remove_leg call_id leg_id reg =
     (let session_id = resolve_session_id reg call_id in
      case find_session reg session_id of
        None \<Rightarrow> (reg, Inr None)
      | Some s \<Rightarrow>
          let reg1 = reg\<lparr> cr_leg_index := md_del (cr_leg_index reg) leg_id \<rparr> in
          (case assoc (rs_legs s) leg_id of
             None \<Rightarrow> (reg1, Inr None)
           | Some leg \<Rightarrow>
               andthen (for_session session_id (\<lambda>s p. quiet (pbx_release_leg p session_id leg_id None
                     (Some (rs_generation s)))) False
                   (put_session session_id (touch (s\<lparr> rs_legs := md_del (rs_legs s) leg_id \<rparr>)) reg1))
                 (\<lambda>_ reg2. (reg2, Inr (Some leg)))))"

section \<open>Clients, relays, watchers and media\<close>

definition attach_sip_client ::
  "string \<Rightarrow> string \<Rightarrow> handle \<Rightarrow> string \<Rightarrow> string \<Rightarrow> call_registry \<Rightarrow> call_registry \<times> (call_error + bool)" where
  "attach_sip_client source_call_id dest_call_id client role state reg =
     (let session_id = resolve_session_id reg (strip source_call_id)
      in for_session session_id (\<lambda>s p. observe_leg p session_id dest_call_id
           \<lparr> lo_role = role, lo_state = state, lo_sip_call_id = dest_call_id, lo_endpoint_id = [],
             lo_dialog = Some client, lo_media = None,
             lo_closer = Some (Closer ''close_client'' [dest_call_id] [client]) \<rparr> (Some (rs_generation s))) False
           (reg\<lparr> cr_sip_clients := md_set (cr_sip_clients reg) dest_call_id client \<rparr>))"

definition take_sip_client :: "string \<Rightarrow> call_registry \<Rightarrow> call_registry \<times> (call_error + handle option)" where
  "take_sip_client call_id reg =
     (let session_id = resolve_session_id reg (strip call_id);
          reg1 = reg\<lparr> cr_sip_clients := md_del (cr_sip_clients reg) call_id \<rparr>
      in case assoc (cr_sip_clients reg) call_id of
           None \<Rightarrow> (reg1, Inr None)
         | Some client \<Rightarrow>
             andthen (for_session session_id (\<lambda>s p. quiet (pbx_release_leg p session_id call_id (Some client)
                   (Some (rs_generation s)))) False reg1)
               (\<lambda>_ reg2. (reg2, Inr (Some client))))"

definition attach_relay :: "string \<Rightarrow> handle \<Rightarrow> call_registry \<Rightarrow> call_registry \<times> (call_error + bool)" where
  "attach_relay call_id relay reg =
     (let session_id = resolve_session_id reg (strip call_id)
      in for_session session_id (\<lambda>s p. quiet (own_resource p session_id (''relay:'' @ call_id) relay
             (Closer ''stop_relay'' [call_id] [relay]) MEDIA (Some (rs_generation s)))) False
           (reg\<lparr> cr_relays := md_set (cr_relays reg) call_id relay \<rparr>))"

definition take_relay :: "string \<Rightarrow> call_registry \<Rightarrow> call_registry \<times> (call_error + handle option)" where
  "take_relay call_id reg =
     (let session_id = resolve_session_id reg (strip call_id);
          reg1 = reg\<lparr> cr_relays := md_del (cr_relays reg) call_id \<rparr>
      in case assoc (cr_relays reg) call_id of
           None \<Rightarrow> (reg1, Inr None)
         | Some relay \<Rightarrow>
             andthen (for_session session_id (\<lambda>s p. quiet (pbx_release_resource p session_id (''relay:'' @ call_id)
                   (Some relay) (Some (rs_generation s)))) False reg1)
               (\<lambda>_ reg2. (reg2, Inr (Some relay))))"

definition attach_client_watcher :: "string \<Rightarrow> handle \<Rightarrow> call_registry \<Rightarrow> call_registry \<times> (call_error + bool)" where
  "attach_client_watcher call_id task reg =
     (let session_id = resolve_session_id reg (strip call_id)
      in for_session session_id (\<lambda>s p. quiet (pbx_own_task p session_id task (Some (rs_generation s)))) False
           (reg\<lparr> cr_client_watchers := md_set (cr_client_watchers reg) call_id task \<rparr>))"

text \<open>The callback of a watcher that has completed.\<close>

definition forget_handle :: "(string \<times> handle) list \<Rightarrow> string \<Rightarrow> handle \<Rightarrow> (string \<times> handle) list" where
  "forget_handle index k h = (if assoc index k = Some h then md_del index k else index)"

definition watcher_done :: "string \<Rightarrow> handle \<Rightarrow> call_registry \<Rightarrow> call_registry" where
  "watcher_done call_id task reg =
     reg\<lparr> cr_client_watchers := forget_handle (cr_client_watchers reg) call_id task \<rparr>"

definition take_client_watcher :: "string \<Rightarrow> call_registry \<Rightarrow> call_registry \<times> (call_error + handle option)" where
  "take_client_watcher call_id reg =
     (let session_id = resolve_session_id reg (strip call_id);
          reg1 = reg\<lparr> cr_client_watchers := md_del (cr_client_watchers reg) call_id \<rparr>
      in case assoc (cr_client_watchers reg) call_id of
           None \<Rightarrow> (reg1, Inr None)
         | Some task \<Rightarrow>
             andthen (for_session session_id (\<lambda>s p. quiet (pbx_release_task p session_id task
                   (Some (rs_generation s)))) False reg1)
               (\<lambda>_ reg2. (reg2, Inr (Some task))))"

definition media_prefix :: "bool \<Rightarrow> string" where
  "media_prefix provisional = (if provisional then ''preanswered'' else ''softphone_media'')"

definition media_index :: "bool \<Rightarrow> call_registry \<Rightarrow> (string \<times> handle) list" where
  "media_index provisional reg = (if provisional then cr_preanswered reg else cr_softphone_media reg)"

definition set_media_index :: "bool \<Rightarrow> (string \<times> handle) list \<Rightarrow> call_registry \<Rightarrow> call_registry" where
  "set_media_index provisional index reg =
     (if provisional then reg\<lparr> cr_preanswered := index \<rparr> else reg\<lparr> cr_softphone_media := index \<rparr>)"

definition attach_media :: "string \<Rightarrow> handle \<Rightarrow> bool \<Rightarrow> call_registry \<Rightarrow> call_registry \<times> (call_error + bool)" where
  "attach_media call_id media provisional reg =
     (let session_id = resolve_session_id reg (strip call_id); pre = media_prefix provisional
      in for_session session_id (\<lambda>s p. quiet (own_resource p session_id (pre @ '':'' @ call_id) media
             (Closer ''release_media'' [pre, call_id] [media]) RESERVATION (Some (rs_generation s)))) False
           (set_media_index provisional (md_set (media_index provisional reg) call_id media) reg))"

definition take_media ::
  "string \<Rightarrow> bool \<Rightarrow> handle option \<Rightarrow> call_registry \<Rightarrow> call_registry \<times> (call_error + handle option)" where
  "take_media call_id provisional dflt reg =
     (let session_id = resolve_session_id reg (strip call_id);
          found = assoc (media_index provisional reg) call_id;
          reg1 = set_media_index provisional (md_del (media_index provisional reg) call_id) reg
      in case found of
           None \<Rightarrow> (reg1, Inr dflt)
         | Some media \<Rightarrow>
             if dflt = Some media then (reg1, Inr dflt)
             else andthen (for_session session_id (\<lambda>s p. quiet (pbx_release_resource p session_id
                   (media_prefix provisional @ '':'' @ call_id) (Some media) (Some (rs_generation s)))) False reg1)
               (\<lambda>_ reg2. (reg2, Inr (Some media))))"

text \<open>What a closer given to the owner does to the registry; stopping the relay, closing the client and
  releasing the media are the effects outside.\<close>

fun closer_effect :: "closer \<Rightarrow> call_registry \<Rightarrow> call_registry" where
  "closer_effect (Closer kind texts handles) reg =
     (case (texts, handles) of
        ([session_id, endpoint_id], []) \<Rightarrow>
          if kind = ''release_claim'' then fst (release_endpoint_claim session_id endpoint_id reg) else reg
      | ([call_id], [h]) \<Rightarrow>
          if kind = ''close_client'' then reg\<lparr> cr_sip_clients := forget_handle (cr_sip_clients reg) call_id h \<rparr>
          else if kind = ''stop_relay'' then reg\<lparr> cr_relays := forget_handle (cr_relays reg) call_id h \<rparr>
          else reg
      | ([pre, call_id], [h]) \<Rightarrow>
          if kind = ''release_media''
          then let provisional = (pre = ''preanswered'')
               in set_media_index provisional (forget_handle (media_index provisional reg) call_id h) reg
          else reg
      | _ \<Rightarrow> reg)"

fun event_effect :: "call_registry \<Rightarrow> session_event \<Rightarrow> call_registry" where
  "event_effect reg (Ran_Closer _ c _) = closer_effect c reg"
| "event_effect reg _ = reg"

text \<open>The termination task of a session of the owner: its closers run, then the owner forgets it.\<close>

definition finish_owner_session :: "runtime \<Rightarrow> string \<Rightarrow> call_registry \<Rightarrow> call_registry option" where
  "finish_owner_session rt call_id reg =
     (case cr_session_owner reg of
        None \<Rightarrow> None
      | Some p \<Rightarrow>
          (case finish_session rt p call_id of
             None \<Rightarrow> None
           | Some (_, events, _) \<Rightarrow>
               let reg1 = foldl event_effect reg events in
               (case map_option (\<lambda>p1. finish_session rt p1 call_id) (cr_session_owner reg1) of
                  Some (Some (p2, _, out)) \<Rightarrow>
                    Some (foldl apply_projection (reg1\<lparr> cr_session_owner := Some p2 \<rparr>) out)
                | _ \<Rightarrow> None)))"


section \<open>Controllers\<close>

text \<open>A call between two browsers has one controlling user per endpoint.\<close>

definition is_scoped :: "string \<Rightarrow> reg_session \<Rightarrow> bool" where
  "is_scoped endpoint_id s \<longleftrightarrow> endpoint_id \<noteq> [] \<and> truthy (mget (rs_metadata s) ''local_bridge'')"

definition current_controller :: "string \<Rightarrow> reg_session \<Rightarrow> string" where
  "current_controller endpoint_id s =
     strip (if is_scoped endpoint_id s
       then (case assoc (rs_controllers s) endpoint_id of Some u \<Rightarrow> u | None \<Rightarrow> [])
       else mtext (mget (rs_metadata s) ''controller_user_id''))"

definition set_controller :: "string \<Rightarrow> string \<Rightarrow> reg_session \<Rightarrow> reg_session" where
  "set_controller endpoint_id user s =
     (if is_scoped endpoint_id s then s\<lparr> rs_controllers := md_set (rs_controllers s) endpoint_id user \<rparr>
      else s\<lparr> rs_metadata := md_set (rs_metadata s) ''controller_user_id'' (MStr user) \<rparr>)"

text \<open>The Home Assistant context, given with its user, is kept from the first caller that has one.\<close>

definition bound_session :: "bool \<Rightarrow> (handle \<times> string) option \<Rightarrow> string \<Rightarrow> string \<Rightarrow> reg_session \<Rightarrow> reg_session" where
  "bound_session new_user ctx endpoint_id user s =
     (let s1 = (if new_user then set_controller endpoint_id user s else s);
          new_context = (ctx \<noteq> None \<and> rs_ha_context s1 = None);
          s2 = (if new_context then s1\<lparr> rs_ha_context := map_option fst ctx \<rparr> else s1)
      in if new_user \<or> new_context then touch s2 else s2)"

definition bind_controller ::
  "string \<Rightarrow> (handle \<times> string) option \<Rightarrow> string \<Rightarrow> string \<Rightarrow> call_registry \<Rightarrow> call_registry \<times> (exn + string)" where
  "bind_controller call_id ctx user_id endpoint_id reg =
     (let session_id = resolve_session_id reg (strip call_id) in
      case find_session reg session_id of
        None \<Rightarrow> (reg, Inl ValueError)
      | Some s \<Rightarrow>
          let requested = strip (or_else user_id (case ctx of Some (_, u) \<Rightarrow> u | None \<Rightarrow> []));
              current = current_controller (strip endpoint_id) s
          in if current \<noteq> [] \<and> requested \<noteq> [] \<and> current \<noteq> requested then (reg, Inl ValueError)
             else (put_session session_id
                 (bound_session (requested \<noteq> [] \<and> current = []) ctx (strip endpoint_id) requested s) reg,
               Inr session_id))"

definition registry_ha_context :: "call_registry \<Rightarrow> string \<Rightarrow> handle option" where
  "registry_ha_context reg call_id =
     (case find_session reg (resolve_session_id reg (strip call_id)) of
        None \<Rightarrow> None | Some s \<Rightarrow> rs_ha_context s)"

section \<open>The end of a call\<close>

definition registry_finish :: "string \<Rightarrow> string \<Rightarrow> string \<Rightarrow> call_registry \<Rightarrow> call_registry" where
  "registry_finish call_id reason state reg =
     (let session_id = resolve_session_id reg call_id in
      case find_session reg session_id of
        None \<Rightarrow> reg
      | Some s \<Rightarrow> put_session session_id
          (touch (s\<lparr> rs_state := state, rs_terminal_reason := or_else reason (rs_terminal_reason s),
                    rs_owner := ''terminal'', rs_outcome := or_else reason (rs_outcome s) \<rparr>)) reg)"

definition md_del_all :: "(string \<times> 'v) list \<Rightarrow> string list \<Rightarrow> (string \<times> 'v) list" where
  "md_del_all md ks = filter (\<lambda>(k, _). k \<notin> set ks) md"

definition forget_call :: "string \<Rightarrow> string \<Rightarrow> string list \<Rightarrow> call_registry \<Rightarrow> call_registry" where
  "forget_call call_id session_id leg_ids reg = reg
     \<lparr> cr_sessions := md_del (cr_sessions reg) session_id,
       cr_bridge_clients := md_del (cr_bridge_clients reg) session_id,
       cr_leg_index := md_del_all (cr_leg_index reg) (call_id # leg_ids),
       cr_event_contexts := md_del_all (cr_event_contexts reg) (call_id # session_id # leg_ids),
       cr_pending_invites := md_del (cr_pending_invites reg) session_id,
       cr_video_parameter_sets := md_del_all (cr_video_parameter_sets reg) [session_id, call_id],
       cr_pending_routes := md_del (cr_pending_routes reg) session_id \<rparr>"

text \<open>The result: the session removed, and the futures cancelled.  \<open>current\<close> is the running task.\<close>

definition registry_pop ::
  "handle option \<Rightarrow> string \<Rightarrow> call_registry \<Rightarrow> call_registry \<times> (call_error + reg_session option \<times> handle list)" where
  "registry_pop current call_id reg =
     (let call_id = strip call_id; session_id = resolve_session_id reg call_id in
      andthen (if cr_session_owner reg = None then release_endpoint_claims session_id reg else (reg, Inr ()))
        (\<lambda>_ reg1. andthen
          (for_session session_id (\<lambda>s p. Inr (request_termination current p session_id
              (or_else (or_else (rs_terminal_reason s) (rs_outcome s)) ''removed'') (Some (rs_generation s))))
            False reg1)
          (\<lambda>_ reg2.
             let session = find_session reg2 session_id;
                 leg_ids = (case session of None \<Rightarrow> [] | Some s \<Rightarrow> map fst (rs_legs s));
                 cancelled = (case assoc (cr_pending_routes reg2) session_id of
                    Some (Some (future, False)) \<Rightarrow> [future] | _ \<Rightarrow> [])
             in (forget_call call_id session_id leg_ids reg2, Inr (session, cancelled)))))"

definition bridge_for :: "call_registry \<Rightarrow> string \<Rightarrow> string \<times> string" where
  "bridge_for reg call_id =
     (case (call_id, assoc (cr_bridge_clients reg) call_id) of
        (_ # _, Some dest) \<Rightarrow> (call_id, dest)
      | _ \<Rightarrow> (case find (\<lambda>(_, dest). dest = call_id) (cr_bridge_clients reg) of
                Some bridge \<Rightarrow> bridge | None \<Rightarrow> ([], [])))"

record detached =
  dt_source :: string
  dt_dest :: string
  dt_relay :: "handle option"
  dt_client :: "handle option"
  dt_watcher :: "handle option"
  dt_called_by_dest :: bool

definition no_bridge :: detached where
  "no_bridge =
     \<lparr> dt_source = [], dt_dest = [], dt_relay = None, dt_client = None, dt_watcher = None,
       dt_called_by_dest = False \<rparr>"

definition detach_bridge :: "string \<Rightarrow> call_registry \<Rightarrow> call_registry \<times> (call_error + detached)" where
  "detach_bridge call_id reg =
     (let (source, dest) = bridge_for reg call_id in
      if source = [] then (reg, Inr no_bridge)
      else
      andthen (take_relay source (reg\<lparr> cr_bridge_clients := md_del (cr_bridge_clients reg) source \<rparr>))
        (\<lambda>relay reg1. andthen (if dest \<noteq> [] then take_sip_client dest reg1 else (reg1, Inr None))
          (\<lambda>client reg2. andthen (if dest \<noteq> [] then take_client_watcher dest reg2 else (reg2, Inr None))
            (\<lambda>watcher reg3.
              (reg3, Inr \<lparr> dt_source = source, dt_dest = dest, dt_relay = relay, dt_client = client,
                           dt_watcher = watcher, dt_called_by_dest = (call_id = dest) \<rparr>)))))"

definition finish_and_pop ::
  "handle option \<Rightarrow> string \<Rightarrow> string \<Rightarrow> string \<Rightarrow> call_registry \<Rightarrow>
    call_registry \<times> (call_error + reg_session option \<times> handle list)" where
  "finish_and_pop current call_id reason state reg =
     (let session_id = resolve_session_id reg (strip call_id);
          reg1 = (if session_id \<noteq> []
            then remember_terminated [strip call_id, session_id] (generation_of (find_session reg session_id)) reg
            else reg)
      in registry_pop current call_id (registry_finish call_id reason state reg1))"

definition discard_bridge_session ::
  "handle option \<Rightarrow> string \<Rightarrow> string \<Rightarrow> string \<Rightarrow> string \<Rightarrow> call_registry \<Rightarrow>
    call_registry \<times> (call_error + handle option)" where
  "discard_bridge_session current source dest_call_id reason state reg =
     (let dest = or_else dest_call_id
            (case assoc (cr_bridge_clients reg) source of Some d \<Rightarrow> d | None \<Rightarrow> []);
          reg1 = reg\<lparr> cr_bridge_clients := md_del (cr_bridge_clients reg) source \<rparr>
      in andthen (if dest \<noteq> [] then take_sip_client dest reg1 else (reg1, Inr None))
           (\<lambda>client reg2. andthen (finish_and_pop current source reason state reg2)
              (\<lambda>_ reg3. (reg3, Inr client))))"

definition detach_client ::
  "string \<Rightarrow> call_registry \<Rightarrow> call_registry \<times> (call_error + handle option \<times> handle option)" where
  "detach_client call_id reg =
     andthen (take_sip_client call_id reg)
       (\<lambda>client reg1. andthen (take_client_watcher call_id reg1)
          (\<lambda>watcher reg2. (reg2, Inr (client, watcher))))"

section \<open>Bridges\<close>

record bridge_request =
  br_source :: string
  br_dest :: string
  br_client :: handle
  br_update :: call_update
  br_source_role :: string
  br_dest_role :: string
  br_source_state :: string
  br_dest_state :: string
  br_expected_generation :: "int option"

definition register_bridge :: "bridge_request \<Rightarrow> call_registry \<Rightarrow> call_registry \<times> (call_error + bool)" where
  "register_bridge b reg =
     (if (case br_expected_generation b of None \<Rightarrow> False
          | Some generation \<Rightarrow> \<not> is_generation_current reg (br_source b) generation)
      then (reg, Inr False)
      else
      let state = cu_state (br_update b) in
      andthen (registry_upsert (br_source b) (br_update b\<lparr> cu_owner := ''bridge'' \<rparr>)
          (reg\<lparr> cr_bridge_clients := md_set (cr_bridge_clients reg) (br_source b) (br_dest b) \<rparr>))
        (\<lambda>_ reg1. andthen
          (registry_add_leg (br_source b) (br_source b) (br_source_role b) (or_else (br_source_state b) state) [] [] reg1)
          (\<lambda>_ reg2. andthen
            (registry_add_leg (br_source b) (br_dest b) (br_dest_role b) (or_else (br_dest_state b) state) [] [] reg2)
            (\<lambda>_ reg3. andthen
              (attach_sip_client (br_source b) (br_dest b) (br_client b) (br_dest_role b)
                 (or_else (br_dest_state b) state) reg3)
              (\<lambda>_ reg4. (reg4, Inr True))))))"

section \<open>The whole registry\<close>

definition clear_runtime :: "call_registry \<Rightarrow> call_registry \<times> (call_error + unit)" where
  "clear_runtime reg =
     andthen (release_all_endpoint_claims reg)
       (\<lambda>_ reg1. (new_registry
          \<lparr> cr_endpoint_claims := cr_endpoint_claims reg1, cr_generation := cr_generation reg1,
            cr_endpoint_registry := cr_endpoint_registry reg1, cr_session_owner := cr_session_owner reg1 \<rparr>, Inr ()))"

definition active_count :: "call_registry \<Rightarrow> bool \<Rightarrow> nat" where
  "active_count reg include_ha_softphone =
     length (filter (\<lambda>(_, s). rs_state s \<notin> set TERMINAL_STATES \<and>
        (include_ha_softphone \<or> \<not> list_ex (\<lambda>(_, leg). rl_role leg = ''ha_softphone'') (rs_legs s)))
       (cr_sessions reg))"

record registry_snapshot =
  ss_sessions :: nat
  ss_active_sessions :: nat
  ss_terminated_calls :: nat
  ss_resource_counts :: "(string \<times> nat) list"
  ss_call_ids :: "string list"
  ss_pending_call_ids :: "string list"
  ss_media_call_ids :: "string list"
  ss_bridge_call_ids :: "string list"
  ss_endpoint_claims :: "(string \<times> (string \<times> string) list) list"

definition snapshot_of_registry :: "call_registry \<Rightarrow> registry_snapshot" where
  "snapshot_of_registry reg =
     \<lparr> ss_sessions = length (cr_sessions reg), ss_active_sessions = active_count reg True,
       ss_terminated_calls = length (cr_terminated reg),
       ss_resource_counts =
         [(''sessions'', length (cr_sessions reg)),
          (''legs'', sum_list (map (\<lambda>(_, s). length (rs_legs s)) (cr_sessions reg))),
          (''pending_routes'', length (cr_pending_routes reg)),
          (''pending_invites'', length (cr_pending_invites reg)),
          (''preanswered'', length (cr_preanswered reg)),
          (''softphone_media'', length (cr_softphone_media reg)),
          (''sip_clients'', length (cr_sip_clients reg)),
          (''client_watchers'', length (cr_client_watchers reg)),
          (''relays'', length (cr_relays reg)),
          (''bridges'', length (cr_bridge_clients reg)),
          (''endpoint_claims'', sum_list (map (\<lambda>(_, cs). length cs) (cr_endpoint_claims reg)))],
       ss_call_ids = sort (map fst (cr_sessions reg)),
       ss_pending_call_ids = sort (map fst (cr_pending_invites reg)),
       ss_media_call_ids = sort (map fst (cr_softphone_media reg)),
       ss_bridge_call_ids = sort (map fst (cr_bridge_clients reg)),
       ss_endpoint_claims = sort_key fst (cr_endpoint_claims reg) \<rparr>"

section \<open>What the owner can change\<close>

lemma same_registry: "\<exists>ss g. reg = reg\<lparr> cr_sessions := ss, cr_generation := g \<rparr>"
  by (rule exI [of _ "cr_sessions reg"], rule exI [of _ "cr_generation reg"]) simp

lemma put_session_frame:
  "\<exists>ss g. put_session k s reg = reg\<lparr> cr_sessions := ss, cr_generation := g \<rparr>"
  "\<exists>ss g. put_session k s (reg\<lparr> cr_generation := m \<rparr>) = reg\<lparr> cr_sessions := ss, cr_generation := g \<rparr>"
  by (rule exI [of _ "md_set (cr_sessions reg) k s"], rule exI [of _ "cr_generation reg"],
      simp add: put_session_def)
    (rule exI [of _ "md_set (cr_sessions reg) k s"], rule exI [of _ m], simp add: put_session_def)

lemma apply_projection_frame:
  "\<exists>ss g. foldl apply_projection reg out = reg\<lparr> cr_sessions := ss, cr_generation := g \<rparr>"
proof (induction out arbitrary: reg)
  case Nil
  show ?case using same_registry [of reg] by (simp only: foldl.simps)
next
  case (Cons o' out)
  have "\<exists>ss g. apply_projection reg o' = reg\<lparr> cr_sessions := ss, cr_generation := g \<rparr>"
  proof (cases "apply_projection reg o' = reg")
    case True
    show ?thesis unfolding True by (rule same_registry)
  next
    case False
    then show ?thesis
    proof (cases o')
      case (Remove sn)
      show ?thesis
        using False Remove put_session_frame by (auto simp: registry_remove_def Let_def split: option.splits)
    qed (use False put_session_frame(2) in \<open>auto simp: registry_publish_def Let_def split: option.splits\<close>)
  qed
  then obtain ss g where "apply_projection reg o' = reg\<lparr> cr_sessions := ss, cr_generation := g \<rparr>" by blast
  then show ?case
    using Cons.IH [of "reg\<lparr> cr_sessions := ss, cr_generation := g \<rparr>"] by simp
qed

lemma with_owner_frame:
  "\<exists>ss g ow. fst (with_owner f d reg) = reg\<lparr> cr_sessions := ss, cr_generation := g, cr_session_owner := ow \<rparr>"
proof -
  have r: "\<exists>ss g ow. reg = reg\<lparr> cr_sessions := ss, cr_generation := g, cr_session_owner := ow \<rparr>" for reg
    by (rule exI [of _ "cr_sessions reg"], rule exI [of _ "cr_generation reg"],
        rule exI [of _ "cr_session_owner reg"]) simp
  show ?thesis
  proof (cases "cr_session_owner reg")
    case (Some p)
    show ?thesis
    proof (cases "f p")
      case (Inr y)
      obtain p' x out where y: "y = (p', x, out)" by (cases y) auto
      obtain ss g where "foldl apply_projection (reg\<lparr> cr_session_owner := Some p' \<rparr>) out =
          (reg\<lparr> cr_session_owner := Some p' \<rparr>)\<lparr> cr_sessions := ss, cr_generation := g \<rparr>"
        using apply_projection_frame by blast
      then have "fst (with_owner f d reg) =
          reg\<lparr> cr_sessions := ss, cr_generation := g, cr_session_owner := Some p' \<rparr>"
        using Some Inr y by (simp add: with_owner_def)
      then show ?thesis by blast
    qed (use Some r in \<open>simp add: with_owner_def\<close>)
  qed (use r in \<open>simp add: with_owner_def\<close>)
qed

lemma for_session_frame:
  "\<exists>ss g ow. fst (for_session k f d reg) = reg\<lparr> cr_sessions := ss, cr_generation := g, cr_session_owner := ow \<rparr>"
proof (cases "find_session reg k")
  case None
  show ?thesis
    by (rule exI [of _ "cr_sessions reg"], rule exI [of _ "cr_generation reg"],
        rule exI [of _ "cr_session_owner reg"]) (simp add: for_session_def None)
qed (simp add: for_session_def with_owner_frame)

lemma with_owner_same [simp]:
  "cr_leg_index (fst (with_owner f d reg)) = cr_leg_index reg"
  "cr_event_contexts (fst (with_owner f d reg)) = cr_event_contexts reg"
  "cr_terminal_summary_ids (fst (with_owner f d reg)) = cr_terminal_summary_ids reg"
  "cr_endpoint_claims (fst (with_owner f d reg)) = cr_endpoint_claims reg"
  "cr_terminated (fst (with_owner f d reg)) = cr_terminated reg"
  "cr_endpoint_registry (fst (with_owner f d reg)) = cr_endpoint_registry reg"
  "cr_bridge_clients (fst (with_owner f d reg)) = cr_bridge_clients reg"
  using with_owner_frame [of f d reg] by auto

lemma for_session_same [simp]:
  "cr_leg_index (fst (for_session k f d reg)) = cr_leg_index reg"
  "cr_event_contexts (fst (for_session k f d reg)) = cr_event_contexts reg"
  "cr_terminal_summary_ids (fst (for_session k f d reg)) = cr_terminal_summary_ids reg"
  "cr_endpoint_claims (fst (for_session k f d reg)) = cr_endpoint_claims reg"
  "cr_terminated (fst (for_session k f d reg)) = cr_terminated reg"
  "cr_endpoint_registry (fst (for_session k f d reg)) = cr_endpoint_registry reg"
  "cr_bridge_clients (fst (for_session k f d reg)) = cr_bridge_clients reg"
  using for_session_frame [of k f d reg] by auto

lemma put_session_same [simp]:
  "cr_leg_index (put_session k s reg) = cr_leg_index reg"
  "cr_event_contexts (put_session k s reg) = cr_event_contexts reg"
  "cr_terminal_summary_ids (put_session k s reg) = cr_terminal_summary_ids reg"
  "cr_endpoint_claims (put_session k s reg) = cr_endpoint_claims reg"
  "cr_terminated (put_session k s reg) = cr_terminated reg"
  "cr_endpoint_registry (put_session k s reg) = cr_endpoint_registry reg"
  "cr_bridge_clients (put_session k s reg) = cr_bridge_clients reg"
  "cr_session_owner (put_session k s reg) = cr_session_owner reg"
  by (simp_all add: put_session_def)

lemma touch_session_frame: "touch_session k reg = reg \<or> (\<exists>s. touch_session k reg = put_session k (touch s) reg)"
  by (auto simp: touch_session_def split: option.splits)

lemma andthen_fst:
  "P (fst r) \<Longrightarrow> (\<And>x. snd r = Inr x \<Longrightarrow> P (fst (k x (fst r)))) \<Longrightarrow> P (fst (andthen r k))"
  by (cases r; cases "snd r") (auto simp: andthen_def)

end
