(* ===== verification/Call_Memory.thy ===== *)
theory Call_Memory
  imports Call_Registry
begin

text \<open>
  The bounded memories of the call registry: the terminated calls, the event contexts with their route
  histories, and the summaries.  Every operation keeps them within their caps.
\<close>

section \<open>The memories\<close>

definition memory :: "call_registry \<Rightarrow> (string \<times> int) list \<times> (string \<times> event_context) list \<times> string list" where
  "memory reg = (cr_terminated reg, cr_event_contexts reg, cr_terminal_summary_ids reg)"

lemma memory_andthen: "memory (fst r) = m \<Longrightarrow> (\<And>x. memory (fst (k x (fst r))) = m) \<Longrightarrow> memory (fst (andthen r k)) = m"
  using andthen_fst [of "\<lambda>reg. memory reg = m"] by blast

lemma memory_basic [simp]:
  "memory (fst (with_owner f d reg)) = memory reg"
  "memory (fst (for_session k f' d' reg)) = memory reg"
  "memory (put_session k s reg) = memory reg"
  "memory (touch_session k reg) = memory reg"
  "memory (foldl apply_projection reg out) = memory reg"
  "memory (drop_claim k e reg) = memory reg"
  "memory (forget_claims k reg) = memory reg"
  "memory (fst (release_phone k e reg)) = memory reg"
  "memory (fst (observe_session c extra s' reg)) = memory reg"
  "memory (set_media_index b ix reg) = memory reg"
  "memory (registry_finish c r st reg) = memory reg"
  "memory (watcher_done c t reg) = memory reg"
  "memory (fst (bind_controller c ctx u e reg)) = memory reg"
proof -
  show "memory (foldl apply_projection reg out) = memory reg"
    using apply_projection_frame [of reg out] by (auto simp: memory_def)
  show "memory (fst (bind_controller c ctx u e reg)) = memory reg"
    by (auto simp: memory_def bind_controller_def Let_def split: option.splits)
qed (auto simp: memory_def touch_session_def drop_claim_def forget_claims_def release_phone_def observe_session_def
    set_media_index_def registry_finish_def watcher_done_def Let_def split: option.splits sum.splits prod.splits)

lemma memory_updates [simp]:
  "memory (reg\<lparr> cr_sessions := a1 \<rparr>) = memory reg" "memory (reg\<lparr> cr_leg_index := a2 \<rparr>) = memory reg"
  "memory (reg\<lparr> cr_pending_routes := a3 \<rparr>) = memory reg" "memory (reg\<lparr> cr_sip_clients := a4 \<rparr>) = memory reg"
  "memory (reg\<lparr> cr_client_watchers := a5 \<rparr>) = memory reg" "memory (reg\<lparr> cr_relays := a6 \<rparr>) = memory reg"
  "memory (reg\<lparr> cr_bridge_clients := a7 \<rparr>) = memory reg" "memory (reg\<lparr> cr_endpoint_claims := a8 \<rparr>) = memory reg"
  "memory (reg\<lparr> cr_generation := a9 \<rparr>) = memory reg" "memory (reg\<lparr> cr_session_owner := a10 \<rparr>) = memory reg"
  "memory (reg\<lparr> cr_endpoint_registry := a11 \<rparr>) = memory reg"
  by (simp_all add: memory_def)

lemma memory_ops [simp]:
  "memory (fst (claim_endpoint c e r b reg)) = memory reg"
  "memory (fst (release_endpoint_claims c reg)) = memory reg"
  "memory (fst (release_endpoint_claim c e reg)) = memory reg"
  "memory (fst (registry_upsert c u reg)) = memory reg"
  "memory (fst (registry_transition c g reg)) = memory reg"
  "memory (fst (registry_remove_leg c l reg)) = memory reg"
  "memory (fst (attach_sip_client c e h r st reg)) = memory reg"
  "memory (fst (take_sip_client c reg)) = memory reg"
  "memory (fst (attach_relay c h reg)) = memory reg"
  "memory (fst (take_relay c reg)) = memory reg"
  "memory (fst (attach_client_watcher c h reg)) = memory reg"
  "memory (fst (take_client_watcher c reg)) = memory reg"
  "memory (fst (attach_media c h b reg)) = memory reg"
  "memory (fst (take_media c b d reg)) = memory reg"
proof -
  have listed: "memory (fst (release_listed k es reg)) = memory reg" for k es reg
    by (induction k es reg rule: release_listed.induct) (auto intro!: memory_andthen)
  show "memory (fst (release_endpoint_claims c reg)) = memory reg"
    by (auto simp: release_endpoint_claims_def Let_def listed intro!: memory_andthen)
  show "memory (fst (claim_endpoint c e r b reg)) = memory reg"
    by (auto simp: claim_endpoint_def Let_def intro!: memory_andthen split: option.splits sum.splits)
  show "memory (fst (release_endpoint_claim c e reg)) = memory reg"
    by (auto simp: release_endpoint_claim_def Let_def intro!: memory_andthen)
  show "memory (fst (registry_upsert c u reg)) = memory reg"
    by (auto simp: registry_upsert_def Let_def intro!: memory_andthen split: option.splits)
  show "memory (fst (registry_transition c g reg)) = memory reg"
    by (auto simp: registry_transition_def Let_def intro!: memory_andthen split: option.splits)
  show "memory (fst (registry_remove_leg c l reg)) = memory reg"
    by (auto simp: registry_remove_leg_def Let_def intro!: memory_andthen split: option.splits)
  show "memory (fst (take_media c b d reg)) = memory reg"
    by (auto simp: take_media_def Let_def intro!: memory_andthen split: option.splits)
qed (auto simp: attach_sip_client_def take_sip_client_def attach_relay_def take_relay_def attach_client_watcher_def
    take_client_watcher_def attach_media_def Let_def intro!: memory_andthen split: option.splits)

lemma memory_composed [simp]:
  "memory (fst (registry_add_leg c l r st sip md reg)) = memory reg"
  "memory (fst (register_bridge b reg)) = memory reg"
  "memory (fst (detach_bridge c reg)) = memory reg"
  "memory (fst (detach_client c reg)) = memory reg"
  "memory (fst (release_all_endpoint_claims reg)) = memory reg"
  "memory (fst (bind_endpoint_registry same er reg)) = memory reg"
  "memory (fst (bind_session_owner same ow reg)) = memory reg"
  "memory (foldl event_effect reg events) = memory reg"
proof -
  show leg: "memory (fst (registry_add_leg c l r st sip md reg)) = memory reg" for c l r st sip md reg
    by (auto simp: registry_add_leg_def Let_def intro!: memory_andthen split: option.splits)
  show "memory (fst (register_bridge b reg)) = memory reg"
    by (auto simp: register_bridge_def Let_def leg intro!: memory_andthen split: option.splits)
  show "memory (fst (detach_bridge c reg)) = memory reg"
    by (auto simp: detach_bridge_def Let_def intro!: memory_andthen split: prod.splits)
  show "memory (fst (detach_client c reg)) = memory reg"
    by (auto simp: detach_client_def intro!: memory_andthen)
  have calls: "memory (fst (release_calls ks reg)) = memory reg" for ks reg
    by (induction ks reg rule: release_calls.induct) (auto intro!: memory_andthen)
  then show all: "memory (fst (release_all_endpoint_claims reg)) = memory reg" for reg
    by (simp add: release_all_endpoint_claims_def)
  show "memory (fst (bind_endpoint_registry same er reg)) = memory reg"
    by (auto simp: bind_endpoint_registry_def all intro!: memory_andthen)
  have adopt: "memory (fst (adopt_session k reg)) = memory reg" for k reg
    by (auto simp: adopt_session_def Let_def intro!: memory_andthen split: option.splits)
  have "memory (fst (adopt_sessions ks reg)) = memory reg" for ks reg
    by (induction ks reg rule: adopt_sessions.induct) (auto simp: adopt intro!: memory_andthen)
  then show "memory (fst (bind_session_owner same ow reg)) = memory reg"
    by (simp add: bind_session_owner_def Let_def)
  have "memory (closer_effect c reg) = memory reg" for c reg
    by (induction c reg rule: closer_effect.induct) (auto simp: Let_def split: list.split)
  then have "memory (event_effect reg e) = memory reg" for reg e
    by (cases e) simp_all
  then show "memory (foldl event_effect reg events) = memory reg"
    by (induction events arbitrary: reg) simp_all
qed

lemma finish_owner_memory: "finish_owner_session rt c reg = Some reg' \<Longrightarrow> memory reg' = memory reg"
  by (auto simp: finish_owner_session_def Let_def split: option.splits)

text \<open>The bounds: every memory keeps to its cap, and to one entry per key.\<close>

definition context_ok :: "event_context \<Rightarrow> bool" where
  "context_ok ctx \<longleftrightarrow> length (ec_route_history ctx) \<le> MAX_ROUTE_HISTORY"

definition memories_ok :: "(string \<times> int) list \<times> (string \<times> event_context) list \<times> string list \<Rightarrow> bool" where
  "memories_ok m =
     (case m of (terminated, contexts, summaries) \<Rightarrow>
        length terminated \<le> MAX_TERMINATED_CALL_IDS \<and> distinct (map fst terminated) \<and>
        length contexts \<le> MAX_EVENT_CONTEXTS \<and> distinct (map fst contexts) \<and>
        list_all (\<lambda>(k, ctx). context_ok ctx) contexts \<and>
        length summaries \<le> MAX_TERMINAL_SUMMARY_IDS \<and> distinct summaries)"

definition memory_ok :: "call_registry \<Rightarrow> bool" where
  "memory_ok reg \<longleftrightarrow> memories_ok (memory reg)"

lemma memory_ok_parts:
  "memory_ok reg \<longleftrightarrow>
     length (cr_terminated reg) \<le> MAX_TERMINATED_CALL_IDS \<and> distinct (map fst (cr_terminated reg)) \<and>
     length (cr_event_contexts reg) \<le> MAX_EVENT_CONTEXTS \<and> distinct (map fst (cr_event_contexts reg)) \<and>
     list_all (\<lambda>(k, ctx). context_ok ctx) (cr_event_contexts reg) \<and>
     length (cr_terminal_summary_ids reg) \<le> MAX_TERMINAL_SUMMARY_IDS \<and> distinct (cr_terminal_summary_ids reg)"
  by (simp add: memory_ok_def memories_ok_def memory_def)

lemma memory_ok_same: "memory reg' = memory reg \<Longrightarrow> memory_ok reg' = memory_ok reg"
  by (simp add: memory_ok_def)

lemma memory_ok_andthen:
  "memory_ok (fst r) \<Longrightarrow> (\<And>x reg. memory_ok reg \<Longrightarrow> memory_ok (fst (k x reg))) \<Longrightarrow> memory_ok (fst (andthen r k))"
  by (rule andthen_fst) auto

lemma keep_last_length: "length (keep_last n xs) \<le> n"
  by (simp add: keep_last_def)

lemma keep_last_map: "map f (keep_last n xs) = keep_last n (map f xs)"
  by (simp add: keep_last_def drop_map)

lemma keep_last_distinct: "distinct xs \<Longrightarrow> distinct (keep_last n xs)"
  by (simp add: keep_last_def)

lemma distinct_md_del: "distinct (map fst md) \<Longrightarrow> distinct (map fst (md_del md k))"
  by (simp add: md_del_def distinct_map_filter)

lemma distinct_remember: "distinct (map fst xs) \<Longrightarrow> distinct (map fst (remember g xs c))"
  by (auto simp: remember_def distinct_md_del) (auto simp: md_del_def)

lemma remember_terminated_ok: "memory_ok reg \<Longrightarrow> memory_ok (remember_terminated cs g reg)"
proof -
  have "distinct (map fst xs) \<Longrightarrow> distinct (map fst (foldl (remember g) xs cs))" for xs
    by (induction cs arbitrary: xs) (simp_all add: distinct_remember)
  then show "memory_ok reg \<Longrightarrow> memory_ok (remember_terminated cs g reg)"
    by (simp add: memory_ok_parts remember_terminated_def keep_last_length keep_last_map keep_last_distinct)
qed

lemma begin_termination_memory: "memory_ok reg \<Longrightarrow> memory_ok (fst (begin_termination c reg))"
  using remember_terminated_ok [of reg] memory_ok_same [OF memory_basic(3)]
  by (auto simp: begin_termination_def Let_def split: option.splits)

lemma context_for_ok:
  assumes "memory_ok reg" and "context_for k reg = (reg1, ctx)"
  shows "memory_ok reg1 \<and> context_ok ctx \<and> k \<in> fst ` set (cr_event_contexts reg1) \<and>
    cr_terminal_summary_ids reg1 = cr_terminal_summary_ids reg"
proof (cases "assoc (cr_event_contexts reg) k")
  case (Some c)
  then show ?thesis
    using assms assoc_Some_in [OF Some] by (force simp: context_for_def memory_ok_parts list_all_iff)
next
  case None
  define kept where "kept = (if MAX_EVENT_CONTEXTS \<le> length (cr_event_contexts reg)
    then tl (cr_event_contexts reg) else cr_event_contexts reg)"
  have kept: "length kept < MAX_EVENT_CONTEXTS" "distinct (map fst kept)" "set kept \<subseteq> set (cr_event_contexts reg)"
    using assms(1) by (auto simp: kept_def memory_ok_parts MAX_EVENT_CONTEXTS_def map_tl distinct_tl
        dest: list.set_sel(2) [rotated])
  have new: "k \<notin> fst ` set kept"
    using None kept(3) by (auto simp: assoc_eq_map_of map_of_eq_None_iff)
  let ?cs = "md_set kept k new_event_context"
  have "length ?cs \<le> MAX_EVENT_CONTEXTS"
    using kept(1) new keys_md_set [of kept k new_event_context]
    by (metis length_map length_append_singleton Suc_leI)
  moreover have hist: "context_ok new_event_context"
    by (simp add: context_ok_def new_event_context_def)
  moreover have "list_all (\<lambda>(k, ctx). context_ok ctx) (cr_event_contexts reg)"
    using assms(1) by (simp add: memory_ok_parts)
  then have "list_all (\<lambda>(k, ctx). context_ok ctx) ?cs"
    using kept(3) hist by (auto simp: list_all_iff set_md_set [OF kept(2)])
  moreover have "reg1 = reg\<lparr> cr_event_contexts := ?cs \<rparr>" "ctx = new_event_context"
    using assms(2) None by (auto simp: context_for_def Let_def kept_def)
  ultimately show ?thesis
    using assms(1) distinct_md_set [OF kept(2)] by (simp add: memory_ok_parts set_md_set [OF kept(2)])
qed

lemma set_context_ok:
  assumes "memory_ok reg" and "k \<in> fst ` set (cr_event_contexts reg)" and "context_ok ctx"
  shows "memory_ok (reg\<lparr> cr_event_contexts := md_set (cr_event_contexts reg) k ctx \<rparr>)"
proof -
  have d: "distinct (map fst (cr_event_contexts reg))"
    using assms(1) by (simp add: memory_ok_parts)
  have "length (md_set (cr_event_contexts reg) k ctx) = length (cr_event_contexts reg)"
    using assms(2) keys_md_set [of "cr_event_contexts reg" k ctx] by (metis append_Nil2 length_map)
  then show ?thesis
    using assms distinct_md_set [OF d]
    by (auto simp: memory_ok_parts list_all_iff set_md_set [OF d])
qed

lemma advance_context_history [simp]: "ec_route_history (advance_context now state ctx) = ec_route_history ctx"
  by (simp add: advance_context_def restart_context_def change_context_def connect_context_def close_context_def)

lemma event_fields_memory: "memory_ok reg \<Longrightarrow> memory_ok (fst (registry_event_fields now c state reg))"
proof -
  assume ok: "memory_ok reg"
  let ?k = "resolve_session_id reg (strip c)"
  obtain reg1 ctx where c: "context_for ?k reg = (reg1, ctx)"
    by (cases "context_for ?k reg")
  note cf = context_for_ok [OF ok c]
  let ?reg2 = "if starts_new_lifecycle ctx (strip state)
    then reg1\<lparr> cr_terminal_summary_ids := removeAll ?k (cr_terminal_summary_ids reg1) \<rparr> else reg1"
  have "memory_ok ?reg2" "cr_event_contexts ?reg2 = cr_event_contexts reg1"
    using cf by (auto simp: memory_ok_parts removeAll_filter_not_eq intro: le_trans [OF length_filter_le])
  then have "memory_ok (?reg2\<lparr> cr_event_contexts := md_set (cr_event_contexts ?reg2) ?k (advance_context now (strip state) ctx) \<rparr>)"
    using cf by (intro set_context_ok) (simp_all add: context_ok_def)
  then show ?thesis
    using ok by (simp add: registry_event_fields_def Let_def c)
qed

lemma record_route_memory: "memory_ok reg \<Longrightarrow> memory_ok (fst (record_route now c a d src reg))"
proof -
  assume ok: "memory_ok reg"
  have touch: "memory_ok reg \<Longrightarrow> memory_ok (touch_session k reg)" for k reg
    by (simp add: memory_ok_def)
  show ?thesis
    using ok event_fields_memory [OF ok]
    by (auto simp: record_route_def Let_def context_ok_def keep_last_length
        intro!: touch set_context_ok dest: assoc_Some_in intro: rev_image_eqI split: option.splits)
qed

lemma claim_summary_memory: "memory_ok reg \<Longrightarrow> memory_ok (fst (claim_terminal_summary c reg))"
  by (auto simp: claim_terminal_summary_def Let_def memory_ok_parts keep_last_length intro!: keep_last_distinct)

lemma forget_call_memory: "memory_ok reg \<Longrightarrow> memory_ok (forget_call c k ls reg)"
  by (auto simp: memory_ok_parts forget_call_def md_del_all_def list_all_iff distinct_map_filter
      intro: le_trans [OF length_filter_le])

lemma pop_memory: "memory_ok reg \<Longrightarrow> memory_ok (fst (registry_pop current c reg))"
  unfolding registry_pop_def Let_def
  by (intro memory_ok_andthen) (simp_all add: memory_ok_def forget_call_memory [unfolded memory_ok_def])

lemma finish_and_pop_memory: "memory_ok reg \<Longrightarrow> memory_ok (fst (finish_and_pop current c r st reg))"
  unfolding finish_and_pop_def Let_def
  by (rule pop_memory) (simp add: memory_ok_def remember_terminated_ok [unfolded memory_ok_def])

lemma discard_memory: "memory_ok reg \<Longrightarrow> memory_ok (fst (discard_bridge_session current s d r st reg))"
  unfolding discard_bridge_session_def Let_def
  by (intro memory_ok_andthen) (simp_all add: memory_ok_def finish_and_pop_memory [unfolded memory_ok_def])

lemma clear_runtime_memory: "memory_ok reg \<Longrightarrow> memory_ok (fst (clear_runtime reg))"
  unfolding clear_runtime_def
  by (intro memory_ok_andthen) (simp add: memory_ok_def, simp add: memory_ok_parts new_registry_def)

section \<open>Who tears a call down\<close>

text \<open>A call is remembered among the last \<open>n\<close> terminated ones.\<close>

definition recent :: "nat \<Rightarrow> (string \<times> int) list \<Rightarrow> string \<Rightarrow> bool" where
  "recent n xs k \<longleftrightarrow> (\<exists>ys zs. xs = ys @ zs \<and> length zs \<le> n \<and> k \<in> fst ` set zs)"

lemma recent_mono: "recent n xs k \<Longrightarrow> n \<le> m \<Longrightarrow> recent m xs k"
  unfolding recent_def using le_trans by blast

lemma recent_assoc: "recent n xs k \<Longrightarrow> assoc xs k \<noteq> None"
  by (auto simp: recent_def assoc_eq_map_of map_of_eq_None_iff image_iff)

lemma recent_remember:
  assumes "recent n xs k"
  shows "recent (n + 1) (remember g xs c) k"
proof -
  obtain ys zs where xs: "xs = ys @ zs" "length zs \<le> n" "k \<in> fst ` set zs"
    using assms by (auto simp: recent_def)
  show ?thesis
  proof (cases "strip c = []")
    case True
    then show ?thesis
      using recent_mono [OF assms] by (simp add: remember_def)
  next
    case False
    have "remember g xs c = md_del ys (strip c) @ md_del zs (strip c) @ [(strip c, g)]"
      using False xs(1) by (simp add: remember_def md_del_def)
    moreover have "length (md_del zs (strip c)) \<le> n"
      using xs(2) le_trans [OF length_filter_le] by (simp add: md_del_def)
    moreover have "k \<in> fst ` set (md_del zs (strip c) @ [(strip c, g)])"
      using xs(3) by (auto simp: md_del_def image_iff)
    ultimately show ?thesis
      unfolding recent_def by (metis One_nat_def add.right_neutral add_Suc_right add_le_cancel_right
          length_append_singleton)
  qed
qed

lemma recent_keep_last:
  assumes "recent n xs k" and "n \<le> m"
  shows "recent n (keep_last m xs) k"
proof -
  obtain ys zs where xs: "xs = ys @ zs" "length zs \<le> n" "k \<in> fst ` set zs"
    using assms(1) by (auto simp: recent_def)
  then have "keep_last m xs = drop (length xs - m) ys @ zs"
    using assms(2) by (simp add: keep_last_def)
  then show ?thesis
    using xs(2,3) by (auto simp: recent_def)
qed

definition begin_terminations :: "string list \<Rightarrow> call_registry \<Rightarrow> call_registry" where
  "begin_terminations cs reg = foldl (\<lambda>reg c. fst (begin_termination c reg)) reg cs"

lemma begin_termination_index [simp]: "cr_leg_index (fst (begin_termination c reg)) = cr_leg_index reg"
  by (simp add: begin_termination_def remember_terminated_def Let_def split: option.split)

lemma begin_terminated:
  "begin_termination c reg = (reg1, True) \<Longrightarrow>
    \<exists>g. cr_terminated reg1 = keep_last MAX_TERMINATED_CALL_IDS
      (remember g (remember g (cr_terminated reg) (strip c)) (resolve_session_id reg (strip c)))"
  by (auto simp: begin_termination_def Let_def remember_terminated_def split: if_splits option.splits)

lemma recent_begin:
  assumes "recent n (cr_terminated reg) k" and "n + 2 \<le> MAX_TERMINATED_CALL_IDS"
  shows "recent (n + 2) (cr_terminated (fst (begin_termination c reg))) k"
proof (cases "begin_termination c reg")
  case (Pair reg1 b)
  show ?thesis
  proof (cases b)
    case True
    have "recent (n + 2) (remember g (remember g (cr_terminated reg) x) y) k" for g x y
      using recent_remember [OF recent_remember [OF assms(1), of g x], of g y] by (simp add: add.commute)
    moreover obtain g where "cr_terminated reg1 = keep_last MAX_TERMINATED_CALL_IDS
        (remember g (remember g (cr_terminated reg) (strip c)) (resolve_session_id reg (strip c)))"
      using begin_terminated [of c reg reg1] Pair True by auto
    ultimately show ?thesis
      using Pair recent_keep_last [OF _ assms(2)] by simp
  next
    case False
    then have "reg1 = reg"
      using Pair by (auto simp: begin_termination_def Let_def split: if_splits)
    then show ?thesis
      using Pair assms(1) recent_mono by simp
  qed
qed

text \<open>The teardown of a call is claimed once: when \<open>begin_termination\<close> has answered yes for a call, it
  answers no, and changes nothing, to every later caller that names the same call by any of its leg ids,
  as long as not more than 255 other teardowns came in between.\<close>

lemma teardown_is_claimed_once:
  assumes "begin_termination c reg = (reg1, True)"
    and "resolve_session_id reg (strip c) = k" and "strip k = k" and "k \<noteq> []"
    and "resolve_session_id reg (strip c') = k"
    and "length cs \<le> 255"
  shows "begin_termination c' (begin_terminations cs reg1) = (begin_terminations cs reg1, False)"
proof -
  have idx1: "cr_leg_index reg1 = cr_leg_index reg"
    using begin_termination_index [of c reg] assms(1) by simp
  have "recent 1 (cr_terminated reg1) k"
  proof -
    have "recent 1 (remember g xs k) k" for g xs
      unfolding recent_def using assms(3,4)
      by (intro exI [of _ "md_del xs k"] exI [of _ "[(k, g)]"]) (simp add: remember_def)
    moreover obtain g where "cr_terminated reg1 = keep_last MAX_TERMINATED_CALL_IDS
        (remember g (remember g (cr_terminated reg) (strip c)) k)"
      using begin_terminated [OF assms(1)] assms(2) by blast
    moreover have "1 \<le> MAX_TERMINATED_CALL_IDS"
      by (simp add: MAX_TERMINATED_CALL_IDS_def)
    ultimately show ?thesis
      using recent_keep_last by metis
  qed
  moreover have many: "recent n (cr_terminated reg) k \<Longrightarrow> n + 2 * length cs \<le> 512 \<Longrightarrow>
      recent (n + 2 * length cs) (cr_terminated (begin_terminations cs reg)) k \<and>
      cr_leg_index (begin_terminations cs reg) = cr_leg_index reg" for n reg cs
  proof (induction cs arbitrary: n reg)
    case (Cons x cs)
    then show ?case
      using recent_begin [of n reg k x] Cons.IH [of "n + 2" "fst (begin_termination x reg)"]
      by (simp add: begin_terminations_def MAX_TERMINATED_CALL_IDS_def)
  qed (simp add: begin_terminations_def)
  ultimately have r: "recent (1 + 2 * length cs) (cr_terminated (begin_terminations cs reg1)) k"
    and idx: "cr_leg_index (begin_terminations cs reg1) = cr_leg_index reg"
    using assms(6) idx1 many [of 1 reg1 cs] by simp_all
  have "resolve_session_id (begin_terminations cs reg1) (strip c') = k"
    using assms(5) idx by (simp add: resolve_session_id_def)
  then have "is_terminated (begin_terminations cs reg1) (strip c') None"
    using recent_assoc [OF r] by (auto simp: is_terminated_def strip_strip split: option.split)
  then show ?thesis
    by (simp add: begin_termination_def Let_def)
qed

lemma teardown_is_claimed_once_example:
  "begin_termination ''d1'' (begin_terminations [''x'', ''y'']
     (fst (begin_termination ''c1'' (new_registry\<lparr> cr_leg_index := [(''d1'', ''c1'')] \<rparr>)))) =
   (begin_terminations [''x'', ''y'']
     (fst (begin_termination ''c1'' (new_registry\<lparr> cr_leg_index := [(''d1'', ''c1'')] \<rparr>))), False)"
proof -
  let ?reg = "new_registry\<lparr> cr_leg_index := [(''d1'', ''c1'')] \<rparr>"
  have s: "strip ''c1'' = ''c1''" "strip ''d1'' = ''d1''"
    by (simp_all add: strip_def lstrip_def rstrip_def is_space_def)
  have "begin_termination ''c1'' ?reg = (fst (begin_termination ''c1'' ?reg), True)"
    by code_simp
  from teardown_is_claimed_once [OF this, of "''c1''" "''d1''"] show ?thesis
    by (simp add: s resolve_session_id_def)
qed

section \<open>The numbers of events\<close>

text \<open>The events of one call, in order, each with the time and the state it reports.\<close>

definition after_events :: "string \<Rightarrow> (int \<times> string) list \<Rightarrow> call_registry \<Rightarrow> call_registry" where
  "after_events c evs reg = foldl (\<lambda>reg (now, state). fst (registry_event_fields now c state reg)) reg evs"

definition reported_states :: "(int \<times> string) list \<Rightarrow> string list" where
  "reported_states evs = remdups_adj (filter (\<lambda>st. st \<noteq> []) (map (strip \<circ> snd) evs))"

definition last_or_empty :: "string list \<Rightarrow> string" where
  "last_or_empty xs = (if xs = [] then [] else last xs)"

definition tracks :: "event_context \<Rightarrow> string list \<Rightarrow> bool" where
  "tracks ctx sts \<longleftrightarrow> ec_sequence ctx = int (length sts) \<and> ec_state ctx = last_or_empty sts \<and>
     ec_previous_state ctx = last_or_empty (butlast sts)"

lemma remdups_adj_snoc:
  "remdups_adj (xs @ [x]) = (if xs \<noteq> [] \<and> last xs = x then remdups_adj xs else remdups_adj xs @ [x])"
  by (induction xs rule: remdups_adj.induct) auto

lemma context_stages [simp]:
  "ec_state (restart_context st ctx) = ec_state ctx" "ec_sequence (restart_context st ctx) = ec_sequence ctx"
  "ec_previous_state (restart_context st ctx) = ec_previous_state ctx"
  "ec_state (connect_context now st ctx) = ec_state ctx" "ec_sequence (connect_context now st ctx) = ec_sequence ctx"
  "ec_previous_state (connect_context now st ctx) = ec_previous_state ctx"
  "ec_state (close_context now st ctx) = ec_state ctx" "ec_sequence (close_context now st ctx) = ec_sequence ctx"
  "ec_previous_state (close_context now st ctx) = ec_previous_state ctx"
  by (simp_all add: restart_context_def connect_context_def close_context_def)

lemma advance_context_states:
  "ec_state (advance_context now st ctx) = (if st \<noteq> [] then st else ec_state ctx)"
  "ec_sequence (advance_context now st ctx) = ec_sequence ctx + (if st \<noteq> [] \<and> st \<noteq> ec_state ctx then 1 else 0)"
  "ec_previous_state (advance_context now st ctx) =
     (if st \<noteq> [] \<and> st \<noteq> ec_state ctx then ec_state ctx else ec_previous_state ctx)"
  by (simp_all add: advance_context_def change_context_def)

lemma advance_tracks:
  assumes "tracks ctx (remdups_adj sts)" and "[] \<notin> set sts"
  shows "tracks (advance_context now st ctx) (remdups_adj (sts @ (if st = [] then [] else [st])))"
proof -
  let ?xs = "remdups_adj sts"
  note state = advance_context_states
  have last: "ec_state ctx = (if sts = [] then [] else last sts)"
    using assms(1) by (simp add: tracks_def last_or_empty_def last_remdups_adj)
  show ?thesis
  proof (cases "st = [] \<or> (sts \<noteq> [] \<and> last sts = st)")
    case True
    then have new: "(st \<noteq> [] \<and> st \<noteq> ec_state ctx) = False" "(if st \<noteq> [] then st else ec_state ctx) = ec_state ctx"
      using last by auto
    have "remdups_adj (sts @ (if st = [] then [] else [st])) = ?xs"
      using True by (auto simp: remdups_adj_snoc)
    moreover have "ec_sequence (advance_context now st ctx) = ec_sequence ctx"
      "ec_state (advance_context now st ctx) = ec_state ctx"
      "ec_previous_state (advance_context now st ctx) = ec_previous_state ctx"
      by (simp_all only: state new if_False add_0_right)
    ultimately show ?thesis
      using assms(1) by (simp only: tracks_def)
  next
    case False
    then have "st \<noteq> ec_state ctx"
      using last by auto
    then show ?thesis
      using False assms(1) by (simp add: tracks_def state remdups_adj_snoc last_or_empty_def)
  qed
qed

definition context_of :: "call_registry \<Rightarrow> string \<Rightarrow> event_context" where
  "context_of reg k = (case assoc (cr_event_contexts reg) k of Some ctx \<Rightarrow> ctx | None \<Rightarrow> new_event_context)"

lemma context_for_eq: "snd (context_for k reg) = context_of reg k \<and> cr_leg_index (fst (context_for k reg)) = cr_leg_index reg"
  by (simp add: context_for_def context_of_def Let_def split: option.split)

lemma fields_of_simps [simp]:
  "ef_sequence (fields_of reg k st ctx) = ec_sequence ctx"
  "ef_previous_state (fields_of reg k st ctx) = ec_previous_state ctx"
  by (simp_all add: fields_of_def no_event_fields_def Let_def split: option.split)

lemma event_fields_context:
  assumes "strip c \<noteq> []" and "resolve_session_id reg (strip c) = k"
  shows "context_of (fst (registry_event_fields now c state reg)) k = advance_context now (strip state) (context_of reg k)"
    and "resolve_session_id (fst (registry_event_fields now c state reg)) (strip c) = k"
    and "ef_sequence (snd (registry_event_fields now c state reg)) =
      ec_sequence (advance_context now (strip state) (context_of reg k))"
    and "ef_previous_state (snd (registry_event_fields now c state reg)) =
      ec_previous_state (advance_context now (strip state) (context_of reg k))"
proof -
  obtain reg1 where c: "context_for k reg = (reg1, context_of reg k)" "cr_leg_index reg1 = cr_leg_index reg"
    using context_for_eq [of k reg] by (cases "context_for k reg") auto
  show "context_of (fst (registry_event_fields now c state reg)) k = advance_context now (strip state) (context_of reg k)"
    using assms c by (simp add: registry_event_fields_def Let_def context_of_def assoc_md_set)
  show "resolve_session_id (fst (registry_event_fields now c state reg)) (strip c) = k"
    using assms c by (simp add: registry_event_fields_def Let_def resolve_session_id_def)
  show "ef_sequence (snd (registry_event_fields now c state reg)) =
      ec_sequence (advance_context now (strip state) (context_of reg k))"
    using assms c by (simp add: registry_event_fields_def Let_def)
  show "ef_previous_state (snd (registry_event_fields now c state reg)) =
      ec_previous_state (advance_context now (strip state) (context_of reg k))"
    using assms c by (simp add: registry_event_fields_def Let_def)
qed

lemma reported_snoc:
  "reported_states (evs @ [(now, st)]) =
    remdups_adj (filter (\<lambda>st. st \<noteq> []) (map (strip \<circ> snd) evs) @ (if strip st = [] then [] else [strip st]))"
  by (simp add: reported_states_def)

lemma after_events_tracks:
  assumes "strip c \<noteq> []" and "resolve_session_id reg (strip c) = k" and "assoc (cr_event_contexts reg) k = None"
  shows "tracks (context_of (after_events c evs reg) k) (reported_states evs) \<and> resolve_session_id (after_events c evs reg) (strip c) = k"
proof (induction evs rule: rev_induct)
  case Nil
  then show ?case
    using assms by (simp add: after_events_def reported_states_def tracks_def context_of_def new_event_context_def last_or_empty_def)
next
  case (snoc ev evs)
  obtain now st where ev: "ev = (now, st)" by (cases ev)
  let ?r = "after_events c evs reg"
  have nxt: "after_events c (evs @ [ev]) reg = fst (registry_event_fields now c st ?r)"
    by (simp add: after_events_def ev)
  note e = event_fields_context [OF assms(1) conjunct2 [OF snoc], of now st]
  show ?case
    using advance_tracks [OF conjunct1 [OF snoc, unfolded reported_states_def], of now "strip st"] e(1,2)
    unfolding ev nxt [unfolded ev] reported_snoc by simp
qed

text \<open>The events of a call are numbered by its state changes: whatever states are reported, repeated
  or empty, the next event of a call carries as its sequence number the count of changes so far, and names
  the state before the current one.\<close>

lemma events_count_state_changes:
  assumes "strip c \<noteq> []" and "assoc (cr_event_contexts reg) (resolve_session_id reg (strip c)) = None"
  shows "ef_sequence (snd (registry_event_fields now c state (after_events c evs reg))) =
      int (length (reported_states (evs @ [(now, state)]))) \<and>
    ef_previous_state (snd (registry_event_fields now c state (after_events c evs reg))) =
      last_or_empty (butlast (reported_states (evs @ [(now, state)])))"
proof -
  note t = after_events_tracks [OF assms(1) refl assms(2), of evs]
  have "tracks (advance_context now (strip state) (context_of (after_events c evs reg) (resolve_session_id reg (strip c))))
      (reported_states (evs @ [(now, state)]))"
    using advance_tracks [OF conjunct1 [OF t, unfolded reported_states_def], of now "strip state"]
    by (simp only: reported_snoc) (simp add: image_iff)
  then show ?thesis
    using event_fields_context(3,4) [OF assms(1) conjunct2 [OF t], of now state] by (simp add: tracks_def)
qed

lemma events_count_state_changes_example:
  "ef_sequence (snd (registry_event_fields 40 ''c1'' ''in_call'' (after_events ''c1''
     [(10, ''calling''), (20, ''ringing''), (30, ''ringing'')] new_registry))) = 3"
proof -
  have "strip ''c1'' \<noteq> []" "strip ''calling'' = ''calling''" "strip ''ringing'' = ''ringing''" "strip ''in_call'' = ''in_call''"
    by (simp_all add: strip_def lstrip_def rstrip_def is_space_def)
  then show ?thesis
    using events_count_state_changes [of "''c1''" new_registry 40 "''in_call''"
        "[(10, ''calling''), (20, ''ringing''), (30, ''ringing'')]"]
    by (simp add: new_registry_def reported_states_def)
qed

end
