(* ===== verification/Call_Generations.thy ===== *)
theory Call_Generations
  imports Call_Memory
begin

text \<open>
  The generations of calls, across the call registry and the owner of the sessions: what an asynchronous
  task that comes too late can and cannot do.
\<close>

section \<open>Generations in the owner\<close>

text \<open>A generation that exists but whose session no longer accepts anything, or is gone.\<close>

definition dead_generation :: "int \<Rightarrow> pbx \<Rightarrow> bool" where
  "dead_generation g p \<longleftrightarrow>
     g \<le> pb_generation p \<and> list_all (\<lambda>(k, s). es_generation s = g \<longrightarrow> \<not> live s) (pb_calls p)"

lemma dead_generation_step:
  assumes "good_step p p'" and "pbx_ok p" and "dead_generation g p"
  shows "dead_generation g p'"
proof -
  have "\<not> live s'" if s': "(k, s') \<in> set (pb_calls p')" and g: "es_generation s' = g" for k s'
  proof -
    have "\<not> pb_generation p < es_generation s'"
      using assms(3) g by (simp add: dead_generation_def)
    then obtain s where s: "(k, s) \<in> set (pb_calls p)" "es_generation s' = es_generation s" "phase_moves s s'"
      using assms(1) s' by (fastforce simp: good_step_def calls_evolve_def)
    then have "\<not> live s"
      using assms(3) g by (auto simp: dead_generation_def list_all_iff)
    then show ?thesis
      using s(3) by (auto simp: live_def phase_moves_def)
  qed
  moreover have "g \<le> pb_generation p'"
    using assms(1,3) by (simp add: good_step_def calls_evolve_def dead_generation_def)
  ultimately show ?thesis
    by (auto simp: dead_generation_def list_all_iff)
qed

lemma live_not_dead: "(k, s) \<in> set (pb_calls p) \<Longrightarrow> live s \<Longrightarrow> \<not> dead_generation (es_generation s) p"
  by (auto simp: dead_generation_def list_all_iff)

text \<open>What an operation of the owner tells the projection is about a session it still has, whose
  generation was not dead before.\<close>

definition tells :: "pbx \<Rightarrow> pbx \<Rightarrow> projection list \<Rightarrow> bool" where
  "tells p p' out \<longleftrightarrow> (\<forall>sn. Publish sn \<in> set out \<longrightarrow>
     (\<exists>s. (sn_call_id sn, s) \<in> set (pb_calls p') \<and> es_generation s = sn_generation sn) \<and>
     \<not> dead_generation (sn_generation sn) p)"

definition sound_op :: "(pbx \<Rightarrow> exn + (pbx \<times> 'b \<times> projection list)) \<Rightarrow> bool" where
  "sound_op f \<longleftrightarrow> (\<forall>p p' x out. pbx_ok p \<longrightarrow> f p = Inr (p', x, out) \<longrightarrow> good_step p p' \<and> tells p p' out)"

lemma tells_Nil [simp]: "tells p p' []"
  by (simp add: tells_def)

lemma tells_published:
  assumes "\<not> dead_generation (es_generation s') p"
  shows "tells p (put_call q s') (published r s')" "tells p (put_call q s') (notified r s s')"
proof -
  have "assoc (pb_calls (put_call q s')) (es_call_id s') = Some s'"
    by (simp add: put_call_def assoc_md_set)
  then have "(es_call_id s', s') \<in> set (pb_calls (put_call q s'))"
    by (rule assoc_Some_in)
  then show t: "tells p (put_call q s') (published r s')"
    using assms by (auto simp: tells_def published_def snapshot_of_def)
  show "tells p (put_call q s') (notified r s s')"
    using t by (simp add: notified_def)
qed

lemma live_session_not_dead:
  assumes "pbx_ok p" and "live_session p c g = Some s" and "es_generation s' = es_generation s"
  shows "\<not> dead_generation (es_generation s') p"
  using live_not_dead [OF assoc_Some_in [OF live_session_call(6) [OF assms(1,2)]] live_session_call(2) [OF assms(1,2)]]
    assms(3) by simp

lemma ensure_session_tells:
  assumes "pbx_ok p" and "ensure_session p c md = Inr (p', s, out)" and "md \<noteq> []"
  shows "tells p p' out \<and> \<not> dead_generation (es_generation s) p \<and>
    (\<exists>s'. (strip c, s') \<in> set (pb_calls p') \<and> es_generation s' = es_generation s)"
proof (cases "get_session p c None")
  case None
  then have "create_session p c P_NEW md = Inr (p', s, out)"
    using assms(2) by (simp add: ensure_session_def)
  then obtain s0 p1 where new: "new_session (strip c) (pb_generation p + 1) P_NEW = Inr s0"
    and s: "s = s0\<lparr> es_metadata := set_metadata (es_metadata s0) md \<rparr>"
    and p': "p' = put_call p1 s" and out: "out = published p' s"
    by (auto simp: create_session_def Let_def bindE_eq_Inr split: if_splits)
  have g: "es_generation s = pb_generation p + 1" "es_call_id s = strip c"
    using new by (auto simp: s new_session_def Let_def strip_strip split: if_splits)
  then have d: "\<not> dead_generation (es_generation s) p"
    by (simp add: dead_generation_def)
  have "assoc (pb_calls p') (strip c) = Some s"
    by (simp add: p' put_call_def assoc_md_set g)
  then show ?thesis
    using tells_published(1) [OF d] d assoc_Some_in by (force simp: p' out)
next
  case (Some s0)
  then obtain s' where u: "update_session_metadata s0 md = Inr s'" and p': "p' = put_call p s'"
    and s: "s = s'" and out: "out = notified p' s0 s'"
    using assms(2,3) by (auto simp: ensure_session_def bindE_eq_Inr Let_def)
  note g = get_session_call [OF assms(1) Some]
  have "live_change s0 s'"
    using metadata_change [OF _ u] g session_ok_owned by (simp add: call_ok_def)
  then have id: "es_generation s' = es_generation s0" "es_call_id s' = es_call_id s0" "live s0"
    by (auto simp: live_change_def same_identity_def)
  have d: "\<not> dead_generation (es_generation s') p"
    using live_not_dead [OF assoc_Some_in id(3)] g id(1) by metis
  have "assoc (pb_calls p') (strip c) = Some s'"
    using g by (simp add: p' put_call_def assoc_md_set id)
  then show ?thesis
    using tells_published(2) [OF d] d assoc_Some_in by (force simp: p' out s)
qed

lemma sound_ensure: "md \<noteq> [] \<Longrightarrow> sound_op (\<lambda>p. bindE (ensure_session p c md) (\<lambda>(p', es, out). Inr (p', h es, out)))"
  using ensure_session_good ensure_session_tells by (fastforce simp: sound_op_def bindE_eq_Inr)

lemma sound_observe_call: "sound_op (\<lambda>p. Inr (observe_call p c st g md))"
proof -
  have "good_step p p' \<and> tells p p' out"
    if "pbx_ok p" and o': "observe_call p c st g md = (p', b, out)" for p p' b out
  proof (cases "live_session p c g")
    case None
    then show ?thesis
      using that good_step_same_calls [OF that(1), of p] by (simp add: observe_call_def)
  next
    case (Some s)
    obtain s2 where p': "p' = put_call p s2" and out: "out = [] \<or> out = published p' s2"
      and g: "es_generation s2 = es_generation s"
      using o' Some by (auto simp: observe_call_def observe_phase_def Let_def split: option.splits if_splits)
    show ?thesis
      using that observe_call_good tells_published(1) [OF live_session_not_dead [OF that(1) Some g]] p' out
      by auto
  qed
  then show ?thesis by (simp add: sound_op_def)
qed

lemma sound_observe_leg: "sound_op (\<lambda>p. observe_leg p c l o' g)"
proof -
  have "good_step p p' \<and> tells p p' out"
    if "pbx_ok p" and o: "observe_leg p c l o' g = Inr (p', b, out)" for p p' b out
  proof (cases "live_session p c g")
    case None
    then show ?thesis
      using that good_step_same_calls [OF that(1), of p] by (simp add: observe_leg_def)
  next
    case (Some s)
    note s = live_session_call [OF that(1) Some]
    show ?thesis
    proof (cases "strip l = []")
      case True
      then show ?thesis
        using that Some good_step_same_calls [OF that(1), of p] by (simp add: observe_leg_def)
    next
      case False
      then obtain s1 leg ll where s1: "s1 = s \<or> add_leg s ll = Inr s1"
        and p': "p' = put_call p (s1\<lparr> es_legs := md_set (es_legs s1) (strip l) leg \<rparr>)"
        and out: "out = published p' (s1\<lparr> es_legs := md_set (es_legs s1) (strip l) leg \<rparr>)"
        using o Some by (auto simp: observe_leg_def Let_def bindE_eq_Inr split: option.splits)
      have "es_generation s1 = es_generation s"
        using s1 by (auto simp: add_leg_def bindE_eq_Inr Let_def split: if_splits)
      then show ?thesis
        using that observe_leg_good p' out
          tells_published(1) [OF live_session_not_dead [OF that(1) Some,
            of "s1\<lparr> es_legs := md_set (es_legs s1) (strip l) leg \<rparr>"]] by simp
    qed
  qed
  then show ?thesis by (simp add: sound_op_def)
qed

lemma sound_request: "sound_op (\<lambda>p. Inr (request_termination current p c r g))"
proof -
  have "good_step p p' \<and> tells p p' out"
    if ok: "pbx_ok p" and o: "request_termination current p c r g = (p', b, out)" for p p' b out
  proof (cases "get_session p c g")
    case None
    then show ?thesis
      using that good_step_same_calls [OF that(1), of p] by (simp add: request_termination_def)
  next
    case (Some s)
    let ?s = "start_termination current s r"
    have p': "p' = put_call p ?s" and out: "out = notified p' s ?s"
      using o Some by (auto simp: request_termination_def Let_def)
    note gs = get_session_call [OF ok Some]
    have sok: "session_ok s"
      using gs by (simp add: call_ok_def)
    have "tells p p' out"
    proof (cases "es_termination_task s")
      case None
      then have "live s"
        using session_ok_task [OF sok] by simp
      then have "\<not> dead_generation (es_generation ?s) p"
        using live_not_dead [OF assoc_Some_in] gs start_termination_moves(1) [OF sok]
        unfolding same_identity_def by metis
      then show ?thesis
        using tells_published(2) by (simp add: p' out)
    next
      case (Some t)
      then show ?thesis
        by (simp add: out notified_def start_termination_def)
    qed
    then show ?thesis
      using request_termination_good [OF ok o] by simp
  qed
  then show ?thesis by (simp add: sound_op_def)
qed

lemma sound_quiet: "(\<And>p p' x. pbx_ok p \<Longrightarrow> f p = Inr (p', x) \<Longrightarrow> good_step p p') \<Longrightarrow> sound_op (\<lambda>p. quiet (f p))"
  by (auto simp: sound_op_def quiet_def bindE_eq_Inr)

lemma sound_quiet_ops:
  "sound_op (\<lambda>p. quiet (pbx_release_leg p c l d g))"
  "sound_op (\<lambda>p. quiet (own_resource p c n v cl stage g))"
  "sound_op (\<lambda>p. quiet (pbx_release_resource p c n v' g))"
  "sound_op (\<lambda>p. quiet (pbx_own_task p c t g))"
  "sound_op (\<lambda>p. quiet (pbx_release_task p c t g))"
  by (rule sound_quiet, erule (1) pbx_resource_ops_good)+

lemmas sound_ops [simp, intro!] = sound_observe_call sound_observe_leg sound_request sound_quiet_ops

section \<open>Generations in the registry\<close>

text \<open>A session of the registry belongs to the owner's call of its generation, if that still exists.\<close>

definition linked :: "pbx \<Rightarrow> string \<Rightarrow> reg_session \<Rightarrow> bool" where
  "linked p k s \<longleftrightarrow> rs_generation s \<le> pb_generation p \<and>
     (\<forall>(k', es) \<in> set (pb_calls p). es_generation es = rs_generation s \<longrightarrow> k' = strip k)"

definition avoids :: "(string \<times> int) option \<Rightarrow> pbx \<Rightarrow> call_registry \<Rightarrow> bool" where
  "avoids G p reg \<longleftrightarrow> (case G of None \<Rightarrow> True
     | Some (k, g) \<Rightarrow> dead_generation g p \<and> (\<forall>s. find_session reg k = Some s \<longrightarrow> rs_generation s \<noteq> g))"

definition fenced :: "(string \<times> int) option \<Rightarrow> call_registry \<Rightarrow> bool" where
  "fenced G reg \<longleftrightarrow> (\<exists>p. cr_session_owner reg = Some p \<and> pbx_ok p \<and>
     (\<forall>k s. find_session reg k = Some s \<longrightarrow> linked p k s) \<and> avoids G p reg)"

definition calls_part :: "call_registry \<Rightarrow> pbx option \<times> (string \<times> reg_session) list" where
  "calls_part reg = (cr_session_owner reg, cr_sessions reg)"

lemma fenced_same: "calls_part reg' = calls_part reg \<Longrightarrow> fenced G reg' = fenced G reg"
  by (cases G) (auto simp: fenced_def avoids_def calls_part_def find_session_def)

lemma find_put [simp]: "find_session (put_session k s reg) k' = (if k' = k then Some s else find_session reg k')"
  by (simp add: find_session_def put_session_def assoc_md_set)

lemma fenced_put:
  "fenced G reg \<Longrightarrow> find_session reg k = Some s \<Longrightarrow> rs_generation s' = rs_generation s \<Longrightarrow> fenced G (put_session k s' reg)"
  by (cases G) (auto simp: fenced_def avoids_def linked_def)

lemma fenced_put_new:
  assumes "fenced G reg" and "cr_session_owner reg = Some p" and "linked p k s"
    and "\<And>k g. G = Some (k, g) \<Longrightarrow> rs_generation s \<noteq> g"
  shows "fenced G (put_session k s reg)"
  using assms by (auto simp: fenced_def avoids_def split: option.splits)

lemma linked_step:
  assumes "good_step p p'" and "linked p k s"
  shows "linked p' k s"
proof -
  have "k' = strip k" if i: "(k', es) \<in> set (pb_calls p')" and g: "es_generation es = rs_generation s" for k' es
  proof -
    have "\<not> pb_generation p < es_generation es"
      using assms(2) g by (simp add: linked_def)
    then obtain es0 where "(k', es0) \<in> set (pb_calls p)" "es_generation es = es_generation es0"
      using assms(1) i by (fastforce simp: good_step_def calls_evolve_def)
    then show ?thesis
      using assms(2) g by (auto simp: linked_def)
  qed
  then show ?thesis
    using assms by (auto simp: linked_def good_step_def calls_evolve_def)
qed

lemma call_linked:
  assumes "pbx_ok p" and "(c, es) \<in> set (pb_calls p)" and "es_generation es = rs_generation s" and "c = strip k"
  shows "linked p k s"
proof -
  have inj: "inj_on (\<lambda>(k, s). es_generation s) (set (pb_calls p))"
    using assms(1) by (simp add: pbx_ok_def distinct_map)
  have "k' = strip k" if "(k', x) \<in> set (pb_calls p)" "es_generation x = rs_generation s" for k' x
    using inj_onD [OF inj, of "(c, es)" "(k', x)"] assms(2-4) that by auto
  moreover have "rs_generation s \<le> pb_generation p"
    using assms(1-3) by (auto simp: pbx_ok_def list_all_iff call_ok_def)
  ultimately show ?thesis
    by (auto simp: linked_def)
qed

lemma published_generation [simp]: "rs_generation (published_session sn s) = rs_generation s"
  by (simp add: published_session_def touch_def Let_def split: prod.splits)

lemma touch_generation [simp]: "rs_generation (touch s) = rs_generation s"
  by (simp add: touch_def)

lemma publish_fenced:
  assumes "fenced G reg" and "cr_session_owner reg = Some p"
    and "(sn_call_id sn, es) \<in> set (pb_calls p)" and "es_generation es = sn_generation sn"
    and "\<And>k g. G = Some (k, g) \<Longrightarrow> sn_generation sn \<noteq> g"
  shows "fenced G (registry_publish sn reg)"
proof -
  have ok: "pbx_ok p"
    using assms(1,2) by (auto simp: fenced_def)
  let ?c = "strip (sn_call_id sn)"
  have c: "?c = sn_call_id sn"
    using ok assms(3) by (auto simp: pbx_ok_def list_all_iff call_ok_def)
  have gen: "fenced G (reg\<lparr> cr_generation := m \<rparr>)" for m
    using assms(1) fenced_same [of "reg\<lparr> cr_generation := m \<rparr>" reg] by (simp add: calls_part_def)
  have "fenced G (put_session ?c (published_session sn s) (reg\<lparr> cr_generation := m \<rparr>))"
    if "rs_generation s = sn_generation sn" for s m
  proof (rule fenced_put_new [OF gen, where p = p])
    show "cr_session_owner (reg\<lparr> cr_generation := m \<rparr>) = Some p"
      by (simp add: assms(2))
    show "linked p ?c (published_session sn s)"
    proof (rule call_linked [OF ok assms(3)])
      show "es_generation es = rs_generation (published_session sn s)"
        by (simp add: assms(4) that)
      show "sn_call_id sn = strip ?c"
        by (simp only: c)
    qed
    show "rs_generation (published_session sn s) \<noteq> g" if "G = Some (k, g)" for k g
      using assms(5) [OF that] \<open>rs_generation s = sn_generation sn\<close> by simp
  qed
  moreover have "rs_generation (new_reg_session ?c (sn_generation sn)) = sn_generation sn"
    by (simp add: new_reg_session_def)
  ultimately show ?thesis
    using assms(1) by (auto simp: registry_publish_def Let_def split: option.split)
qed

lemma remove_fenced: "fenced G reg \<Longrightarrow> fenced G (registry_remove sn reg)"
  by (auto simp: registry_remove_def Let_def intro!: fenced_put split: option.splits)

lemma projection_owner [simp]: "cr_session_owner (apply_projection reg o') = cr_session_owner reg"
  using apply_projection_frame [of reg "[o']"] by auto

lemma projections_fenced:
  assumes "fenced G reg" and "cr_session_owner reg = Some p'"
    and "\<forall>sn. Publish sn \<in> set out \<longrightarrow> (\<exists>s. (sn_call_id sn, s) \<in> set (pb_calls p') \<and> es_generation s = sn_generation sn) \<and>
      (\<forall>k g. G = Some (k, g) \<longrightarrow> sn_generation sn \<noteq> g)"
  shows "fenced G (foldl apply_projection reg out)"
  using assms
proof (induction out arbitrary: reg)
  case (Cons o' out)
  have "fenced G (apply_projection reg o')"
  proof (cases o')
    case (Publish sn)
    then show ?thesis
      using Cons.prems publish_fenced [OF Cons.prems(1,2)] by fastforce
  qed (use Cons.prems(1) remove_fenced in simp)
  then show ?case
    using Cons.IH [of "apply_projection reg o'"] Cons.prems by simp
qed simp

lemma owner_step_fenced:
  assumes "fenced G reg" and "cr_session_owner reg = Some p" and "good_step p p'"
  shows "fenced G (reg\<lparr> cr_session_owner := Some p' \<rparr>)"
proof -
  have p: "pbx_ok p" "\<And>k s. find_session reg k = Some s \<Longrightarrow> linked p k s" "avoids G p reg"
    using assms(1,2) by (auto simp: fenced_def)
  then show ?thesis
    using assms(3) linked_step [OF assms(3)] dead_generation_step [OF assms(3) p(1)]
    by (auto simp: fenced_def avoids_def find_session_def good_step_def split: option.splits)
qed

lemma with_owner_fenced:
  assumes "sound_op f" and "fenced G reg"
  shows "fenced G (fst (with_owner f d reg))"
proof -
  obtain p where p: "cr_session_owner reg = Some p" "pbx_ok p" "avoids G p reg"
    using assms(2) by (auto simp: fenced_def)
  show ?thesis
  proof (cases "f p")
    case (Inr y)
    obtain p' x out where y: "f p = Inr (p', x, out)"
      using Inr by (cases y) auto
    have s: "good_step p p'" "tells p p' out"
      using assms(1) p(2) y unfolding sound_op_def by blast+
    have "\<forall>sn. Publish sn \<in> set out \<longrightarrow>
        (\<exists>s. (sn_call_id sn, s) \<in> set (pb_calls p') \<and> es_generation s = sn_generation sn) \<and>
        (\<forall>k g. G = Some (k, g) \<longrightarrow> sn_generation sn \<noteq> g)"
      using s(2) p(3) by (auto simp: tells_def avoids_def)
    with owner_step_fenced [OF assms(2) p(1) s(1)] show ?thesis
      by (simp add: with_owner_def p(1) y projections_fenced [where p' = p'])
  qed (use assms(2) p(1) in \<open>simp add: with_owner_def\<close>)
qed

lemma for_session_fenced: "(\<And>s. sound_op (f s)) \<Longrightarrow> fenced G reg \<Longrightarrow> fenced G (fst (for_session k f d reg))"
  by (simp add: for_session_def with_owner_fenced split: option.split)

lemma fenced_andthen:
  "fenced G (fst r) \<Longrightarrow> (\<And>x reg. fenced G reg \<Longrightarrow> fenced G (fst (k x reg))) \<Longrightarrow> fenced G (fst (andthen r k))"
  by (rule andthen_fst) auto

lemma calls_part_updates [simp]:
  "calls_part (reg\<lparr> cr_leg_index := a1 \<rparr>) = calls_part reg"
  "calls_part (reg\<lparr> cr_event_contexts := a2 \<rparr>) = calls_part reg"
  "calls_part (reg\<lparr> cr_terminal_summary_ids := a3 \<rparr>) = calls_part reg"
  "calls_part (reg\<lparr> cr_sip_clients := a4 \<rparr>) = calls_part reg"
  "calls_part (reg\<lparr> cr_client_watchers := a5 \<rparr>) = calls_part reg"
  "calls_part (reg\<lparr> cr_relays := a6 \<rparr>) = calls_part reg"
  "calls_part (reg\<lparr> cr_bridge_clients := a7 \<rparr>) = calls_part reg"
  "calls_part (reg\<lparr> cr_endpoint_claims := a8 \<rparr>) = calls_part reg"
  "calls_part (reg\<lparr> cr_generation := a9 \<rparr>) = calls_part reg"
  "calls_part (reg\<lparr> cr_endpoint_registry := a10 \<rparr>) = calls_part reg"
  "calls_part (reg\<lparr> cr_terminated := a11 \<rparr>) = calls_part reg"
  "calls_part (set_media_index b ix reg) = calls_part reg"
  "calls_part (remember_terminated cs g reg) = calls_part reg"
  "calls_part (drop_claim k e reg) = calls_part reg"
  "calls_part (forget_claims k reg) = calls_part reg"
  "calls_part (fst (release_phone k e reg)) = calls_part reg"
  "calls_part (watcher_done c t reg) = calls_part reg"
  by (auto simp: calls_part_def set_media_index_def remember_terminated_def drop_claim_def forget_claims_def
      release_phone_def watcher_done_def split: option.splits sum.splits)

lemma fenced_updates [simp]:
  "fenced G (reg\<lparr> cr_leg_index := a1 \<rparr>) = fenced G reg"
  "fenced G (reg\<lparr> cr_event_contexts := a2 \<rparr>) = fenced G reg"
  "fenced G (reg\<lparr> cr_terminal_summary_ids := a3 \<rparr>) = fenced G reg"
  "fenced G (reg\<lparr> cr_sip_clients := a4 \<rparr>) = fenced G reg"
  "fenced G (reg\<lparr> cr_client_watchers := a5 \<rparr>) = fenced G reg"
  "fenced G (reg\<lparr> cr_relays := a6 \<rparr>) = fenced G reg"
  "fenced G (reg\<lparr> cr_bridge_clients := a7 \<rparr>) = fenced G reg"
  "fenced G (reg\<lparr> cr_endpoint_claims := a8 \<rparr>) = fenced G reg"
  "fenced G (reg\<lparr> cr_generation := a9 \<rparr>) = fenced G reg"
  "fenced G (reg\<lparr> cr_endpoint_registry := a10 \<rparr>) = fenced G reg"
  "fenced G (reg\<lparr> cr_terminated := a11 \<rparr>) = fenced G reg"
  "fenced G (set_media_index b ix reg) = fenced G reg"
  "fenced G (remember_terminated cs g reg) = fenced G reg"
  "fenced G (drop_claim k e reg) = fenced G reg"
  "fenced G (forget_claims k reg) = fenced G reg"
  "fenced G (fst (release_phone k e reg)) = fenced G reg"
  "fenced G (watcher_done c t reg) = fenced G reg"
  by (rule fenced_same, simp)+

lemma observe_session_fenced [simp]: "fenced G reg \<Longrightarrow> fenced G (fst (observe_session c extra s reg))"
  by (simp add: observe_session_def with_owner_fenced)

lemma touch_session_fenced [simp]: "fenced G reg \<Longrightarrow> fenced G (touch_session k reg)"
  by (auto simp: touch_session_def intro: fenced_put split: option.split)

lemma with_owner_result:
  "cr_session_owner reg = Some p \<Longrightarrow> snd (with_owner f d reg) = Inr x \<Longrightarrow>
    \<exists>p' out. f p = Inr (p', x, out) \<and> cr_session_owner (fst (with_owner f d reg)) = Some p'"
proof -
  have "cr_session_owner (foldl apply_projection reg out) = cr_session_owner reg" for reg out
    using apply_projection_frame [of reg out] by auto
  then show "cr_session_owner reg = Some p \<Longrightarrow> snd (with_owner f d reg) = Inr x \<Longrightarrow> ?thesis"
    by (auto simp: with_owner_def split: sum.splits prod.splits)
qed

lemma updated_generation [simp]: "rs_generation (updated_session u s) = rs_generation s"
  by (simp add: updated_session_def touch_def Let_def)

lemma registry_upsert_fenced [simp]:
  assumes "fenced G reg"
  shows "fenced G (fst (registry_upsert c u reg))"
proof -
  obtain p where p: "cr_session_owner reg = Some p" "pbx_ok p" "avoids G p reg"
    using assms by (auto simp: fenced_def)
  let ?md = "set_metadata [(''caller'', MStr (cu_caller u)), (''callee'', MStr (cu_callee u)),
      (''route_kind'', MStr (cu_route_kind u))] (ownership_metadata u)"
  let ?f = "\<lambda>p. bindE (ensure_session p c ?md) (\<lambda>(p', es, out). Inr (p', Some (es_generation es), out))"
  let ?r = "with_owner ?f None reg"
  have "foldl (\<lambda>md (k, v). md_set md k v) (a # md) xs \<noteq> []" for a md xs
  proof (induction xs arbitrary: a md)
    case (Cons x xs)
    then show ?case by (cases x; cases a) auto
  qed simp
  then have md: "?md \<noteq> []"
    by (simp add: set_metadata_def)
  have r: "fenced G (fst ?r)"
    by (rule with_owner_fenced [OF sound_ensure [OF md] assms])
  show ?thesis
    unfolding registry_upsert_def
  proof (rule andthen_fst)
    show "fenced G (fst ?r)" by (rule r)
    fix x assume x: "snd ?r = Inr x"
    obtain p' out where f: "?f p = Inr (p', x, out)" and p': "cr_session_owner (fst ?r) = Some p'"
      using with_owner_result [OF p(1) x] by blast
    obtain es where e: "ensure_session p c ?md = Inr (p', es, out)" and xe: "x = Some (es_generation es)"
      using f by (auto simp: bindE_eq_Inr)
    note t = ensure_session_tells [OF p(2) e md]
    have ok': "pbx_ok p'"
      using r p' by (auto simp: fenced_def)
    obtain s' where s': "(strip c, s') \<in> set (pb_calls p')" "es_generation s' = es_generation es"
      using t by blast
    have new: "fenced G (put_session c (updated_session u (new_reg_session c (es_generation es))) reg')"
      if "calls_part reg' = calls_part (fst ?r)" for reg'
    proof (rule fenced_put_new)
      show "fenced G reg'" using r fenced_same [OF that] by simp
      show "cr_session_owner reg' = Some p'" using that p' by (simp add: calls_part_def)
      show "linked p' c (updated_session u (new_reg_session c (es_generation es)))"
        by (rule call_linked [OF ok' s'(1)]) (simp_all add: s'(2) new_reg_session_def)
      show "rs_generation (updated_session u (new_reg_session c (es_generation es))) \<noteq> g" if "G = Some (k, g)" for k g
        using t p(3) that by (auto simp: avoids_def new_reg_session_def)
    qed
    show "fenced G (fst (let (s, reg2) = (case find_session (fst ?r) c of
                Some s \<Rightarrow> (s, fst ?r)
              | None \<Rightarrow>
                  let generation = (case x of None \<Rightarrow> cr_generation (fst ?r) + 1 | Some g \<Rightarrow> g)
                  in (new_reg_session c generation,
                      (fst ?r)\<lparr> cr_generation := max (cr_generation (fst ?r)) generation \<rparr>));
              s' = updated_session u s
          in andthen (observe_session c
                 (\<lambda>s. bound_fields s @ [(''terminal_reason'', MStr (rs_terminal_reason s))]) s'
                 (put_session c s' reg2))
               (\<lambda>_ reg3. (reg3, Inr ()))))"
      using r new by (auto simp: Let_def xe intro!: fenced_andthen observe_session_fenced intro: fenced_put split: option.split)
  qed
qed

lemma moved_generation [simp]: "rs_generation (moved_session u s) = rs_generation s"
  by (simp add: moved_session_def)

lemma add_metadata_generation [simp]: "rs_generation (add_session_metadata md s) = rs_generation s"
  by (simp add: add_session_metadata_def)

lemma find_session_updates [simp]:
  "find_session (reg\<lparr> cr_leg_index := a1 \<rparr>) k = find_session reg k"
  "find_session (reg\<lparr> cr_generation := a2 \<rparr>) k = find_session reg k"
  "find_session (reg\<lparr> cr_bridge_clients := a3 \<rparr>) k = find_session reg k"
  "find_session (reg\<lparr> cr_event_contexts := a4 \<rparr>) k = find_session reg k"
  "find_session (remember_terminated cs g reg) k = find_session reg k"
  by (simp_all add: find_session_def remember_terminated_def)

lemma release_listed_fenced [simp]: "fenced G reg \<Longrightarrow> fenced G (fst (release_listed k es reg))"
  by (induction es arbitrary: reg) (auto intro!: fenced_andthen)

lemma bound_generation [simp]: "rs_generation (bound_session n ctx e u s) = rs_generation s"
  by (simp add: bound_session_def set_controller_def Let_def)

lemma fenced_ops [simp]:
  assumes "fenced G reg"
  shows "fenced G (fst (claim_endpoint c e r b reg))"
    and "fenced G (fst (release_endpoint_claims c reg))"
    and "fenced G (fst (release_endpoint_claim c e reg))"
    and "fenced G (fst (registry_transition c g reg))"
    and "fenced G (fst (registry_remove_leg c l reg))"
    and "fenced G (fst (attach_sip_client c e h r st reg))"
    and "fenced G (fst (take_sip_client c reg))"
    and "fenced G (fst (attach_relay c h reg))"
    and "fenced G (fst (take_relay c reg))"
    and "fenced G (fst (attach_client_watcher c h reg))"
    and "fenced G (fst (take_client_watcher c reg))"
    and "fenced G (fst (attach_media c h b reg))"
    and "fenced G (fst (take_media c b d reg))"
    and "fenced G (fst (bind_controller c ctx u e reg))"
    and "fenced G (registry_finish c r st reg)"
    and "fenced G (fst (begin_termination c reg))"
    and "fenced G (fst (claim_terminal_summary c reg))"
    and "fenced G (fst (registry_event_fields now c st reg))"
proof -
  note a = assms
  show "fenced G (fst (claim_endpoint c e r b reg))"
    using a by (auto simp: claim_endpoint_def Let_def intro!: fenced_andthen for_session_fenced split: option.split sum.split)
  show "fenced G (fst (release_endpoint_claims c reg))"
    using a by (auto simp: release_endpoint_claims_def Let_def intro!: fenced_andthen)
  show "fenced G (fst (release_endpoint_claim c e reg))"
    using a by (auto simp: release_endpoint_claim_def Let_def intro!: fenced_andthen for_session_fenced)
  show "fenced G (fst (registry_transition c g reg))"
    using a by (auto simp: registry_transition_def Let_def intro!: fenced_andthen observe_session_fenced
        intro: fenced_put split: option.split)
  show "fenced G (fst (registry_remove_leg c l reg))"
    using a by (auto simp: registry_remove_leg_def Let_def intro!: fenced_andthen for_session_fenced
        intro: fenced_put split: option.split)
  show "fenced G (fst (attach_sip_client c e h r st reg))"
    using a by (simp add: attach_sip_client_def Let_def for_session_fenced)
  show "fenced G (fst (take_sip_client c reg))"
    using a by (auto simp: take_sip_client_def Let_def intro!: fenced_andthen for_session_fenced split: option.split)
  show "fenced G (fst (attach_relay c h reg))"
    using a by (simp add: attach_relay_def Let_def for_session_fenced)
  show "fenced G (fst (take_relay c reg))"
    using a by (auto simp: take_relay_def Let_def intro!: fenced_andthen for_session_fenced split: option.split)
  show "fenced G (fst (attach_client_watcher c h reg))"
    using a by (simp add: attach_client_watcher_def Let_def for_session_fenced)
  show "fenced G (fst (take_client_watcher c reg))"
    using a by (auto simp: take_client_watcher_def Let_def intro!: fenced_andthen for_session_fenced split: option.split)
  show "fenced G (fst (attach_media c h b reg))"
    using a by (simp add: attach_media_def Let_def for_session_fenced)
  show "fenced G (fst (take_media c b d reg))"
    using a by (auto simp: take_media_def Let_def intro!: fenced_andthen for_session_fenced split: option.split)
  show "fenced G (fst (bind_controller c ctx u e reg))"
    using a by (auto simp: bind_controller_def Let_def intro: fenced_put split: option.split)
  show "fenced G (registry_finish c r st reg)"
    using a by (auto simp: registry_finish_def Let_def intro: fenced_put split: option.split)
  show "fenced G (fst (begin_termination c reg))"
    using a by (auto simp: begin_termination_def Let_def intro: fenced_put split: option.split)
  show "fenced G (fst (claim_terminal_summary c reg))"
    using a by (simp add: claim_terminal_summary_def Let_def)
  show "fenced G (fst (registry_event_fields now c st reg))"
    using a by (auto simp: registry_event_fields_def context_for_def Let_def split: option.split)
qed

lemma fenced_put_metadata:
  "fenced G reg \<Longrightarrow> find_session reg k = Some s \<Longrightarrow> fenced G (put_session k (add_session_metadata md s) reg)"
  by (erule (1) fenced_put, simp)

lemma fenced_put_legs:
  "fenced G reg \<Longrightarrow> find_session reg k = Some s \<Longrightarrow> fenced G (put_session k (s\<lparr> rs_legs := x \<rparr>) reg)"
  "fenced G reg \<Longrightarrow> find_session reg k = Some s \<Longrightarrow> fenced G (put_session k (touch (s\<lparr> rs_legs := x \<rparr>)) reg)"
  by (erule (1) fenced_put, simp)+

lemma fenced_composed [simp]:
  assumes "fenced G reg"
  shows "fenced G (fst (registry_add_leg c l r st sip md reg))"
    and "fenced G (fst (register_bridge b reg))"
    and "fenced G (fst (detach_bridge c reg))"
    and "fenced G (fst (detach_client c reg))"
    and "fenced G (fst (record_route now c ac d src reg))"
    and "fenced G (fst (bind_endpoint_registry same er reg))"
    and "fenced G (foldl event_effect reg events)"
proof -
  note a = assms
  have leg: "fenced G (fst (registry_add_leg c l r st sip md reg))" if "fenced G reg" for c l r st sip md reg
    using that by (auto simp: registry_add_leg_def Let_def intro!: fenced_andthen for_session_fenced fenced_put_legs
        fenced_put_metadata split: option.split)
  then show "fenced G (fst (registry_add_leg c l r st sip md reg))"
    using a by blast
  show "fenced G (fst (register_bridge b reg))"
    using a by (auto simp: register_bridge_def Let_def leg intro!: fenced_andthen)
  show "fenced G (fst (detach_bridge c reg))"
    using a by (auto simp: detach_bridge_def Let_def intro!: fenced_andthen split: prod.split)
  show "fenced G (fst (detach_client c reg))"
    using a by (auto simp: detach_client_def intro!: fenced_andthen)
  show "fenced G (fst (record_route now c ac d src reg))"
    using a by (auto simp: record_route_def Let_def split: option.split)
  have calls: "fenced G reg \<Longrightarrow> fenced G (fst (release_calls ks reg))" for ks reg
    by (induction ks arbitrary: reg) (auto intro!: fenced_andthen)
  show "fenced G (fst (bind_endpoint_registry same er reg))"
    using a by (auto simp: bind_endpoint_registry_def release_all_endpoint_claims_def calls intro!: fenced_andthen)
  have "fenced G reg \<Longrightarrow> fenced G (closer_effect c reg)" for c reg
    by (induction c reg rule: closer_effect.induct) (auto simp: Let_def split: list.split)
  then have "fenced G reg \<Longrightarrow> fenced G (event_effect reg e)" for reg e
    by (cases e) simp_all
  with a show "fenced G (foldl event_effect reg events)"
    by (induction events arbitrary: reg) simp_all
qed

lemma finish_owner_fenced:
  assumes "finish_owner_session rt c reg = Some reg'" and "fenced G reg"
  shows "fenced G reg'"
proof -
  obtain p events out0 p0 reg1 p1 p2 ev out where
      e: "finish_session rt p c = Some (p0, events, out0)" and reg1: "reg1 = foldl event_effect reg events"
      and p1: "cr_session_owner reg1 = Some p1" and p2: "finish_session rt p1 c = Some (p2, ev, out)"
      and reg': "reg' = foldl apply_projection (reg1\<lparr> cr_session_owner := Some p2 \<rparr>) out"
    using assms(1) by (auto simp: finish_owner_session_def Let_def split: option.splits)
  have f: "fenced G reg1"
    using assms(2) by (simp add: reg1)
  then have "pbx_ok p1"
    using p1 by (auto simp: fenced_def)
  then have "fenced G (reg1\<lparr> cr_session_owner := Some p2 \<rparr>)"
    using owner_step_fenced [OF f p1] finish_session_good p2 by blast
  moreover have "\<forall>sn. Publish sn \<notin> set out"
    using p2 by (auto simp: finish_session_def Let_def split: option.splits if_splits)
  ultimately show ?thesis
    unfolding reg' by (intro projections_fenced [where p' = p2]) auto
qed

lemma assoc_md_del [simp]: "assoc (md_del md k) k' = (if k' = k then None else assoc md k')"
  by (induction md) (auto simp: md_del_def)

lemma forget_call_fenced: "fenced G reg \<Longrightarrow> fenced G (forget_call c k ls reg)"
  by (cases G) (auto simp: fenced_def avoids_def find_session_def forget_call_def split: if_splits)

lemma pop_fenced: "fenced G reg \<Longrightarrow> fenced G (fst (registry_pop current c reg))"
  unfolding registry_pop_def Let_def
  by (intro fenced_andthen) (auto simp: forget_call_fenced intro!: for_session_fenced split: if_splits)

lemma finish_and_pop_fenced: "fenced G reg \<Longrightarrow> fenced G (fst (finish_and_pop current c r st reg))"
  by (simp add: finish_and_pop_def Let_def pop_fenced)

lemma discard_fenced: "fenced G reg \<Longrightarrow> fenced G (fst (discard_bridge_session current s d r st reg))"
  unfolding discard_bridge_session_def Let_def
  by (intro fenced_andthen) (auto simp: finish_and_pop_fenced split: if_splits)

section \<open>The registry over time\<close>

text \<open>What other modules do to a registry: they fill the tables it only keeps, and use the endpoint
  registry themselves.\<close>

definition outside_step :: "call_registry \<Rightarrow> call_registry \<Rightarrow> bool" where
  "outside_step reg reg' \<longleftrightarrow>
     reg' = reg\<lparr> cr_pending_routes := cr_pending_routes reg', cr_pending_invites := cr_pending_invites reg',
                cr_video_parameter_sets := cr_video_parameter_sets reg',
                cr_endpoint_registry := cr_endpoint_registry reg' \<rparr>"

inductive registry_move :: "runtime \<Rightarrow> call_registry \<Rightarrow> call_registry \<Rightarrow> bool" for rt where
  rm_begin: "registry_move rt reg (fst (begin_termination c reg))"
| rm_bind_endpoints: "registry_move rt reg (fst (bind_endpoint_registry same er reg))"
| rm_claim: "registry_move rt reg (fst (claim_endpoint c e r adopt reg))"
| rm_release_all: "registry_move rt reg (fst (release_endpoint_claims c reg))"
| rm_release: "registry_move rt reg (fst (release_endpoint_claim c e reg))"
| rm_event: "registry_move rt reg (fst (registry_event_fields now c state reg))"
| rm_summary: "registry_move rt reg (fst (claim_terminal_summary c reg))"
| rm_route: "registry_move rt reg (fst (record_route now c act d src reg))"
| rm_upsert: "registry_move rt reg (fst (registry_upsert c u reg))"
| rm_transition: "registry_move rt reg (fst (registry_transition c g reg))"
| rm_add_leg: "registry_move rt reg (fst (registry_add_leg c l role state sip md reg))"
| rm_remove_leg: "registry_move rt reg (fst (registry_remove_leg c l reg))"
| rm_attach_client: "registry_move rt reg (fst (attach_sip_client c d h role state reg))"
| rm_take_client: "registry_move rt reg (fst (take_sip_client c reg))"
| rm_attach_relay: "registry_move rt reg (fst (attach_relay c h reg))"
| rm_take_relay: "registry_move rt reg (fst (take_relay c reg))"
| rm_attach_watcher: "registry_move rt reg (fst (attach_client_watcher c h reg))"
| rm_watcher_done: "registry_move rt reg (watcher_done c h reg)"
| rm_take_watcher: "registry_move rt reg (fst (take_client_watcher c reg))"
| rm_attach_media: "registry_move rt reg (fst (attach_media c h prov reg))"
| rm_take_media: "registry_move rt reg (fst (take_media c prov dflt reg))"
| rm_controller: "registry_move rt reg (fst (bind_controller c ctx u e reg))"
| rm_finish: "registry_move rt reg (registry_finish c r state reg)"
| rm_pop: "registry_move rt reg (fst (registry_pop current c reg))"
| rm_finish_and_pop: "registry_move rt reg (fst (finish_and_pop current c r state reg))"
| rm_detach_bridge: "registry_move rt reg (fst (detach_bridge c reg))"
| rm_discard: "registry_move rt reg (fst (discard_bridge_session current c d r state reg))"
| rm_detach_client: "registry_move rt reg (fst (detach_client c reg))"
| rm_bridge: "registry_move rt reg (fst (register_bridge b reg))"
| rm_owner: "finish_owner_session rt c reg = Some reg' \<Longrightarrow> registry_move rt reg reg'"
| rm_outside: "outside_step reg reg' \<Longrightarrow> registry_move rt reg reg'"

text \<open>With the two operations that start the registry over.\<close>

inductive calls_reachable :: "runtime \<Rightarrow> call_registry \<Rightarrow> bool" for rt where
  rr_new: "calls_reachable rt new_registry"
| rr_move: "calls_reachable rt reg \<Longrightarrow> registry_move rt reg reg' \<Longrightarrow> calls_reachable rt reg'"
| rr_bind: "calls_reachable rt reg \<Longrightarrow> calls_reachable rt (fst (bind_session_owner same owner reg))"
| rr_clear: "calls_reachable rt reg \<Longrightarrow> calls_reachable rt (fst (clear_runtime reg))"

lemma outside_calls: "outside_step reg reg' \<Longrightarrow> calls_part reg' = calls_part reg \<and> memory reg' = memory reg"
proof -
  assume "outside_step reg reg'"
  then obtain a b c d where "reg' = reg\<lparr> cr_pending_routes := a, cr_pending_invites := b,
      cr_video_parameter_sets := c, cr_endpoint_registry := d \<rparr>"
    unfolding outside_step_def by blast
  then show ?thesis
    by (simp add: calls_part_def memory_def)
qed

lemma registry_move_fenced: "registry_move rt reg reg' \<Longrightarrow> fenced G reg \<Longrightarrow> fenced G reg'"
proof (induction rule: registry_move.induct)
  case (rm_outside reg reg')
  then show ?case using outside_calls fenced_same by blast
qed (simp_all add: pop_fenced finish_and_pop_fenced discard_fenced finish_owner_fenced)

lemma registry_moves_fenced: "(registry_move rt)\<^sup>*\<^sup>* reg reg' \<Longrightarrow> fenced G reg \<Longrightarrow> fenced G reg'"
  by (induction rule: rtranclp_induct) (simp_all add: registry_move_fenced)

lemma registry_move_memory: "registry_move rt reg reg' \<Longrightarrow> memory_ok reg \<Longrightarrow> memory_ok reg'"
proof (induction rule: registry_move.induct)
  case (rm_outside reg reg')
  then show ?case using outside_calls memory_ok_same by blast
next
  case (rm_owner c reg reg')
  then show ?case using finish_owner_memory memory_ok_same by blast
qed (simp_all add: begin_termination_memory event_fields_memory claim_summary_memory record_route_memory
    pop_memory finish_and_pop_memory discard_memory, simp_all add: memory_ok_def)

section \<open>Bounded memories\<close>

text \<open>The registry cannot grow with the number of calls it has seen: in every registry reached by any
  sequence of its operations, the owner's and other modules' included, at most 512 terminated calls, 256
  event contexts of at most 8 routing steps each and 512 summaries are remembered, each key once.\<close>

lemma memories_are_bounded:
  assumes "calls_reachable rt reg"
  shows "length (cr_terminated reg) \<le> 512 \<and> distinct (map fst (cr_terminated reg)) \<and>
    length (cr_event_contexts reg) \<le> 256 \<and> distinct (map fst (cr_event_contexts reg)) \<and>
    list_all (\<lambda>(k, ctx). length (ec_route_history ctx) \<le> 8) (cr_event_contexts reg) \<and>
    length (cr_terminal_summary_ids reg) \<le> 512 \<and> distinct (cr_terminal_summary_ids reg)"
proof -
  from assms have "memory_ok reg"
  proof (induction rule: calls_reachable.induct)
    case rr_new
    show ?case by (simp add: memory_ok_parts new_registry_def)
  next
    case (rr_move reg reg')
    then show ?case using registry_move_memory by blast
  next
    case (rr_bind reg same owner)
    then show ?case by (simp add: memory_ok_def)
  next
    case (rr_clear reg)
    then show ?case using clear_runtime_memory by blast
  qed
  then show ?thesis
    by (simp add: memory_ok_parts context_ok_def MAX_TERMINATED_CALL_IDS_def MAX_EVENT_CONTEXTS_def
        MAX_ROUTE_HISTORY_def MAX_TERMINAL_SUMMARY_IDS_def)
qed

section \<open>Late winners\<close>

lemma projection_generation:
  "find_session reg k = Some s \<Longrightarrow>
    \<exists>s'. find_session (foldl apply_projection reg out) k = Some s' \<and> rs_generation s' = rs_generation s"
proof (induction out arbitrary: reg s)
  case (Cons o' out)
  have "\<exists>s'. find_session (apply_projection reg o') k = Some s' \<and> rs_generation s' = rs_generation s"
    using Cons.prems by (cases o') (auto simp: registry_publish_def registry_remove_def Let_def split: option.splits)
  then show ?case
    using Cons.IH by force
qed simp

lemma request_termination_dead:
  assumes "pbx_ok p" and "linked p k s" and "request_termination current p k r (Some (rs_generation s)) = (p', b, out)"
  shows "dead_generation (rs_generation s) p'"
proof (cases "get_session p k (Some (rs_generation s))")
  case None
  have "es_generation es \<noteq> rs_generation s" if "(k', es) \<in> set (pb_calls p)" for k' es
  proof
    assume g: "es_generation es = rs_generation s"
    then have "k' = strip k"
      using assms(2) that by (auto simp: linked_def)
    moreover have "assoc (pb_calls p) k' = Some es"
      using assms(1) that by (simp add: pbx_ok_def assoc_eq_map_of)
    ultimately show False
      using None g by (simp add: get_session_def)
  qed
  then have "dead_generation (rs_generation s) p"
    using assms(2) by (auto simp: dead_generation_def linked_def list_all_iff)
  then show ?thesis
    using assms(3) None by (simp add: request_termination_def)
next
  case (Some es)
  note g = get_session_call [OF assms(1) Some]
  let ?es = "start_termination current es r"
  have sok: "session_ok es"
    using g by (simp add: call_ok_def)
  have p': "p' = put_call p ?es"
    using assms(3) Some by (auto simp: request_termination_def Let_def)
  have id: "es_generation ?es = rs_generation s" "es_call_id ?es = es_call_id es"
    using g start_termination_moves(1) [OF sok] by (simp_all add: same_identity_def)
  have nl: "\<not> live ?es"
    using not_live [OF start_termination_ok [OF sok] start_termination_moves(4) [OF sok]] .
  have gs: "good_step p p'"
    using request_termination_good [OF assms(1,3)] .
  have link': "linked p' k s"
    using linked_step [OF gs assms(2)] .
  have "\<not> live x" if x: "(k', x) \<in> set (pb_calls p')" "es_generation x = rs_generation s" for k' x
  proof -
    have "k' = strip k"
      using link' x by (auto simp: linked_def)
    moreover have "strip k = es_call_id es"
      using g by simp
    ultimately have "assoc (pb_calls p') (es_call_id es) = Some x"
      using gs x(1) by (simp add: good_step_def pbx_ok_def assoc_eq_map_of)
    then show ?thesis
      using nl by (simp add: p' put_call_def assoc_md_set id)
  qed
  then show ?thesis
    using link' by (auto simp: dead_generation_def linked_def list_all_iff)
qed

lemma pop_fences:
  assumes "fenced None reg" and "registry_pop current c reg = (reg1, Inr (Some s, cancelled))"
  shows "fenced (Some (resolve_session_id reg (strip c), rs_generation s)) reg1"
proof -
  let ?k = "resolve_session_id reg (strip c)"
  obtain p where p: "cr_session_owner reg = Some p" "pbx_ok p"
      "\<And>k s. find_session reg k = Some s \<Longrightarrow> linked p k s"
    using assms(1) by (auto simp: fenced_def)
  obtain s0 where s0: "find_session reg ?k = Some s0"
    using assms(2) p(1) by (cases "find_session reg ?k") (auto simp: registry_pop_def Let_def for_session_def)
  obtain p' b out where r: "request_termination current p ?k
      (or_else (or_else (rs_terminal_reason s0) (rs_outcome s0)) ''removed'') (Some (rs_generation s0)) = (p', b, out)"
    by (metis prod_cases3)
  let ?reg2 = "foldl apply_projection (reg\<lparr> cr_session_owner := Some p' \<rparr>) out"
  have reg1: "reg1 = forget_call (strip c) ?k (case find_session ?reg2 ?k of None \<Rightarrow> [] | Some s \<Rightarrow> map fst (rs_legs s)) ?reg2"
    and s: "find_session ?reg2 ?k = Some s"
    using assms(2) p(1) s0 r by (auto simp: registry_pop_def Let_def for_session_def with_owner_def)
  have "find_session (reg\<lparr> cr_session_owner := Some p' \<rparr>) ?k = Some s0"
    using s0 by (simp add: find_session_def)
  from projection_generation [OF this, of out] have g: "rs_generation s = rs_generation s0"
    using s by simp
  have "dead_generation (rs_generation s) p'"
    using request_termination_dead [OF p(2) p(3) [OF s0] r] by (simp add: g)
  moreover have "cr_session_owner reg1 = Some p'"
    using apply_projection_frame [of "reg\<lparr> cr_session_owner := Some p' \<rparr>" out]
    by (auto simp: reg1 forget_call_def)
  moreover have "find_session reg1 ?k = None"
    by (simp add: reg1 find_session_def forget_call_def)
  moreover have "fenced None reg1"
    using pop_fenced [OF assms(1), of current c] assms(2) by simp
  ultimately show ?thesis
    by (auto simp: fenced_def avoids_def)
qed

text \<open>C36: A late winner is refused: once a call has been torn down, a dial or fork task that still
  carries its generation is not current, and the bridge it asks for is not registered and changes nothing,
  whatever has happened to the registry and the owner in between, a new call under the same id
  included.\<close>

theorem late_winner_is_refused:
  assumes "pbx_reachable rt p"
    and "(registry_move rt)\<^sup>*\<^sup>* (new_registry\<lparr> cr_session_owner := Some p \<rparr>) reg"
    and "finish_and_pop current c reason state reg = (reg1, Inr (Some s, cancelled))"
    and "(registry_move rt)\<^sup>*\<^sup>* reg1 reg2"
    and "resolve_session_id reg2 (strip (br_source b)) = resolve_session_id reg (strip c)"
    and "br_expected_generation b = Some (rs_generation s)"
  shows "\<not> is_generation_current reg2 (br_source b) (rs_generation s) \<and> register_bridge b reg2 = (reg2, Inr False)"
proof -
  have "fenced None (new_registry\<lparr> cr_session_owner := Some p \<rparr>)"
    using pbx_reachable_ok [OF assms(1)] by (simp add: fenced_def avoids_def find_session_def new_registry_def)
  then have f: "fenced None reg"
    using registry_moves_fenced [OF assms(2)] by blast
  define k where "k = resolve_session_id reg (strip c)"
  obtain reg0 where reg0: "fenced None reg0" "registry_pop current c reg0 = (reg1, Inr (Some s, cancelled))"
    and k0: "resolve_session_id reg0 (strip c) = k"
  proof
    let ?reg0 = "registry_finish c reason state (if k \<noteq> []
        then remember_terminated [strip c, k] (generation_of (find_session reg k)) reg else reg)"
    show "fenced None ?reg0"
      using f by simp
    show "registry_pop current c ?reg0 = (reg1, Inr (Some s, cancelled))"
      using assms(3) by (simp only: finish_and_pop_def Let_def k_def)
    show "resolve_session_id ?reg0 (strip c) = k"
      by (auto simp: k_def registry_finish_def remember_terminated_def resolve_session_id_def Let_def split: option.split)
  qed
  have "fenced (Some (k, rs_generation s)) reg2"
    using registry_moves_fenced [OF assms(4)] pop_fences [OF reg0] k0 by simp
  then have "\<not> is_generation_current reg2 (br_source b) (rs_generation s)"
    using assms(5) by (auto simp: fenced_def avoids_def is_generation_current_def k_def split: option.split)
  then show ?thesis
    using assms(6) by (simp add: register_bridge_def)
qed

section \<open>An example run\<close>

definition example_owner :: pbx where
  "example_owner = (new_pbx True)\<lparr> pb_phase := ACTIVE \<rparr>"

definition example_start :: call_registry where
  "example_start = new_registry\<lparr> cr_session_owner := Some example_owner \<rparr>"

definition example_calling :: call_registry where
  "example_calling = fst (registry_upsert ''c1'' (no_update\<lparr> cu_state := ''calling'', cu_owner := ''router'' \<rparr>) example_start)"

definition example_torn :: "call_registry \<times> (call_error + reg_session option \<times> handle list)" where
  "example_torn = finish_and_pop None ''c1'' ''cancelled'' ''cancelled'' example_calling"

definition torn_session :: "call_registry \<times> (call_error + reg_session option \<times> handle list) \<Rightarrow> reg_session option" where
  "torn_session r = (case snd r of Inr (s, _) \<Rightarrow> s | Inl _ \<Rightarrow> None)"

definition example_winner :: bridge_request where
  "example_winner =
     \<lparr> br_source = ''c1'', br_dest = ''d1'', br_client = 7, br_update = no_update\<lparr> cu_state := ''in_call'' \<rparr>,
       br_source_role = ''caller'', br_dest_role = ''callee'', br_source_state = [], br_dest_state = [],
       br_expected_generation = Some 1 \<rparr>"

lemma example_torn_values:
  "map_option rs_generation (torn_session example_torn) = Some 1"
  "resolve_session_id (fst example_torn) (strip ''c1'') = resolve_session_id example_calling (strip ''c1'')"
  "snd (register_bridge (example_winner\<lparr> br_expected_generation := None \<rparr>) example_calling) = Inr True"
proof -
  show "map_option rs_generation (torn_session example_torn) = Some 1"
    by code_simp
  show "resolve_session_id (fst example_torn) (strip ''c1'') = resolve_session_id example_calling (strip ''c1'')"
    by code_simp
  show "snd (register_bridge (example_winner\<lparr> br_expected_generation := None \<rparr>) example_calling) = Inr True"
    by code_simp
qed

lemma example_owner_reachable: "pbx_reachable rt example_owner"
proof -
  have "pbx_step rt (new_pbx True) example_owner"
    by (rule ps_activate) (simp add: activate_def example_owner_def new_pbx_def)
  then show ?thesis
    by (rule pbx_next [OF pbx_new])
qed

theorem late_winner_is_refused_witness:
  "register_bridge example_winner (fst example_torn) = (fst example_torn, Inr False)"
proof -
  obtain s cancelled where t: "finish_and_pop None ''c1'' ''cancelled'' ''cancelled'' example_calling =
      (fst example_torn, Inr (Some s, cancelled))" and g: "rs_generation s = 1"
    using example_torn_values(1) by (cases example_torn; cases "snd example_torn")
      (auto simp: torn_session_def example_torn_def split: prod.splits)
  have "registry_move example_runtime example_start example_calling"
    unfolding example_calling_def by (rule rm_upsert)
  then have m: "(registry_move example_runtime)\<^sup>*\<^sup>* (new_registry\<lparr> cr_session_owner := Some example_owner \<rparr>) example_calling"
    by (simp add: example_start_def r_into_rtranclp)
  show ?thesis
    using late_winner_is_refused [OF example_owner_reachable m t rtranclp.rtrancl_refl, of example_winner]
      example_torn_values(2) g by (simp add: example_winner_def)
qed

lemma memories_are_bounded_example:
  "length (cr_terminated (fst example_torn)) \<le> 512 \<and> cr_terminated (fst example_torn) \<noteq> []"
proof -
  have "calls_reachable example_runtime (fst (bind_session_owner False (Some example_owner) new_registry))"
    by (intro rr_bind rr_new)
  moreover have "fst (bind_session_owner False (Some example_owner) new_registry) = example_start"
    by (simp add: bind_session_owner_def Let_def new_registry_def example_start_def)
  ultimately have "calls_reachable example_runtime example_calling"
    unfolding example_calling_def by (metis rr_move rm_upsert)
  then have "calls_reachable example_runtime (fst example_torn)"
    unfolding example_torn_def by (metis rr_move rm_finish_and_pop)
  moreover have "cr_terminated (fst example_torn) \<noteq> []"
    by code_simp
  ultimately show ?thesis
    using memories_are_bounded by blast
qed

end
