(* ===== verification/Call_Claims.thy ===== *)
theory Call_Claims
  imports Call_Registry
begin

text \<open>
  The phones and the users of a call: what the call registry promises about the endpoints it has claimed in
  the endpoint registry, through the claim interface of that registry, and about the user that controls a
  call.
\<close>

section \<open>Releasing\<close>

text \<open>One phone of the list, as the interface has it: a phone that is no longer known is passed over.\<close>

definition released_registry :: "string \<Rightarrow> string list \<Rightarrow> endpoint_registry \<Rightarrow> endpoint_registry" where
  "released_registry k es er = foldl (\<lambda>er e. case release_opt er e k of Some er' \<Rightarrow> er' | None \<Rightarrow> er) er es"

lemma release_phone_eq:
  assumes "cr_endpoint_registry reg = Some er" and "registry_ok er"
  shows "\<exists>b. release_phone k e reg = (reg\<lparr> cr_endpoint_registry := Some (released_registry k [e] er) \<rparr>, Inr b)"
proof (cases "release_opt er e k")
  case None
  then have "get_endpoint er e = None"
    using release_opt_None [OF assms(2)] by blast
  then show ?thesis
    using assms(1) None by (intro exI [of _ False]) (simp add: release_phone_def released_registry_def)
next
  case (Some er')
  then obtain b where r: "release_call er e k = Inr (er', b)"
    by (auto simp: release_opt_Some)
  then have "get_endpoint er e \<noteq> None"
    by (auto simp: release_call_def require_endpoint_def Let_def split: option.splits)
  then show ?thesis
    using assms(1) Some r by (auto simp: release_phone_def released_registry_def)
qed

lemma released_ok: "registry_ok er \<Longrightarrow> registry_ok (released_registry k es er)"
  unfolding released_registry_def by (rule phone_claims.release_list_ok)

lemma released_owner:
  "registry_ok er \<Longrightarrow> call_owner (released_registry k es er) i =
    (if call_owner er i = Some (strip k) \<and> reg_key i \<in> reg_key ` set es then None else call_owner er i)"
  unfolding released_registry_def by (rule phone_claims.release_list_owner)

lemma release_listed_eq:
  assumes "cr_endpoint_registry reg = Some er" and "registry_ok er"
  shows "\<exists>claims. release_listed k es reg =
      (reg\<lparr> cr_endpoint_registry := Some (released_registry k es er), cr_endpoint_claims := claims \<rparr>, Inr ()) \<and>
    (\<forall>k'. k' \<noteq> k \<longrightarrow> assoc claims k' = assoc (cr_endpoint_claims reg) k')"
  using assms
proof (induction es arbitrary: reg er)
  case Nil
  then show ?case
    by (intro exI [of _ "cr_endpoint_claims reg"]) (simp add: released_registry_def)
next
  case (Cons e es)
  obtain b where b: "release_phone k e reg = (reg\<lparr> cr_endpoint_registry := Some (released_registry k [e] er) \<rparr>, Inr b)"
    using release_phone_eq [OF Cons.prems] by blast
  let ?reg1 = "drop_claim k e (reg\<lparr> cr_endpoint_registry := Some (released_registry k [e] er) \<rparr>)"
  have r: "cr_endpoint_registry ?reg1 = Some (released_registry k [e] er)"
    by (simp add: drop_claim_def)
  obtain claims where c: "release_listed k es ?reg1 =
      (?reg1\<lparr> cr_endpoint_registry := Some (released_registry k es (released_registry k [e] er)),
              cr_endpoint_claims := claims \<rparr>, Inr ())"
    "\<forall>k'. k' \<noteq> k \<longrightarrow> assoc claims k' = assoc (cr_endpoint_claims ?reg1) k'"
    using Cons.IH [OF r released_ok [OF Cons.prems(2)]] by blast
  show ?case
    using b c by (intro exI [of _ claims]) (auto simp: drop_claim_def released_registry_def assoc_md_set)
qed

text \<open>The end of a call frees its phones: releasing the claims of a call never fails, leaves the call
  without claims and those of other calls as they were; every phone it had claimed and still owned is free
  again, and no phone that another call owns changes hands.\<close>

lemma released_call_frees_its_phones:
  assumes "cr_endpoint_registry reg = Some er" and "registry_reachable er"
    and "resolve_session_id reg (strip c) = k"
  shows "case release_endpoint_claims c reg of (reg', r) \<Rightarrow>
    r = Inr () \<and> claims_of reg' k = [] \<and> (k' = k \<or> claims_of reg' k' = claims_of reg k') \<and>
    map_option (\<lambda>er'. call_owner er' i) (cr_endpoint_registry reg') =
      Some (if call_owner er i = Some (strip k) \<and> reg_key i \<in> reg_key ` set (map fst (claims_of reg k))
            then None else call_owner er i)"
proof -
  have ok: "registry_ok er"
    using reachable_ok [OF assms(2)] .
  obtain claims where l: "release_listed k (map fst (claims_of reg k)) reg =
      (reg\<lparr> cr_endpoint_registry := Some (released_registry k (map fst (claims_of reg k)) er),
            cr_endpoint_claims := claims \<rparr>, Inr ())"
    "\<forall>k'. k' \<noteq> k \<longrightarrow> assoc claims k' = assoc (cr_endpoint_claims reg) k'"
    using release_listed_eq [OF assms(1) ok] by blast
  have "release_endpoint_claims c reg =
      (reg\<lparr> cr_endpoint_registry := Some (released_registry k (map fst (claims_of reg k)) er),
            cr_endpoint_claims := md_del claims k \<rparr>, Inr ())"
    using assms(1,3) l(1) by (simp add: release_endpoint_claims_def Let_def forget_claims_def)
  moreover have "assoc (md_del claims k) k' = (if k' = k then None else assoc claims k')" for k'
    by (induction claims) (auto simp: md_del_def)
  ultimately show ?thesis
    using l(2) released_owner [OF ok] by (simp add: claims_of_def)
qed

section \<open>Controllers\<close>

text \<open>The user who controls a call, or one leg of a call between two browsers, keeps it: once a
  user has been bound, an attempt to bind another one to the same call and endpoint is refused and changes
  nothing.\<close>

lemma controller_is_sticky:
  assumes "bind_controller c ctx u e reg = (reg1, Inr k)"
    and "strip u \<noteq> []" and "strip v \<noteq> []" and "strip v \<noteq> strip u"
  shows "bind_controller c ctx' v e reg1 = (reg1, Inl ValueError)"
proof -
  have u: "u \<noteq> []" "v \<noteq> []"
    using assms(2,3) by (auto simp: strip_def lstrip_def rstrip_def)
  let ?e = "strip e" and ?k = "resolve_session_id reg (strip c)"
  obtain s where s: "find_session reg ?k = Some s"
    using assms(1) by (auto simp: bind_controller_def Let_def split: option.splits)
  let ?s1 = "bound_session (current_controller ?e s = []) ctx ?e (strip u) s"
  have c: "current_controller ?e s \<in> {[], strip u}" and reg1: "reg1 = put_session ?k ?s1 reg"
    using assms(1,2) s u by (auto simp: bind_controller_def Let_def or_else_def split: if_splits)
  have "current_controller ?e ?s1 = strip u"
  proof (cases "current_controller ?e s = []")
    case True
    have "current_controller ?e (set_controller ?e (strip u) s) = strip u"
      by (simp add: current_controller_def set_controller_def is_scoped_def assoc_md_set mget_def mtext_def por_def
          strip_strip assms(2))
    moreover have "current_controller ?e (s'\<lparr> rs_ha_context := h \<rparr>) = current_controller ?e s'"
      "current_controller ?e (touch s') = current_controller ?e s'" for s' h
      by (simp_all add: current_controller_def is_scoped_def touch_def)
    ultimately show ?thesis
      using True by (simp add: bound_session_def Let_def)
  next
    case False
    have "current_controller ?e (s'\<lparr> rs_ha_context := h \<rparr>) = current_controller ?e s'"
      "current_controller ?e (touch s') = current_controller ?e s'" for s' h
      by (simp_all add: current_controller_def is_scoped_def touch_def)
    then show ?thesis
      using False c by (simp add: bound_session_def Let_def)
  qed
  moreover have "resolve_session_id reg1 (strip c) = ?k"
    by (simp add: reg1 resolve_session_id_def)
  moreover have "find_session reg1 ?k = Some ?s1"
    by (simp add: reg1 find_session_def put_session_def assoc_md_set)
  ultimately show ?thesis
    using assms(2-4) u by (simp add: bind_controller_def Let_def or_else_def)
qed

section \<open>Examples\<close>

definition claiming_registry :: call_registry where
  "claiming_registry = new_registry\<lparr> cr_endpoint_registry := Some claimed_registry,
     cr_endpoint_claims := [(''c1'', [(''p1'', ''endpoint'')])] \<rparr>"

lemma released_call_frees_its_phones_example:
  "map_option (\<lambda>er. call_owner er ''p1'') (cr_endpoint_registry (fst (release_endpoint_claims ''c1'' claiming_registry))) =
     Some None \<and> map_option (\<lambda>er. call_owner er ''p1'') (cr_endpoint_registry claiming_registry) = Some (Some ''c1'')"
proof -
  have c: "strip ''c1'' = ''c1''"
    by (simp add: strip_def lstrip_def rstrip_def is_space_def)
  have "resolve_session_id claiming_registry (strip ''c1'') = ''c1''" "claims_of claiming_registry ''c1'' = [(''p1'', ''endpoint'')]"
    by (simp_all add: c resolve_session_id_def claiming_registry_def new_registry_def claims_of_def)
  then show ?thesis
    using released_call_frees_its_phones [OF _ claimed_reachable, of claiming_registry "''c1''" "''c1''" "''c1''" "''p1''"]
    by (simp add: claiming_registry_def claimed_owner c case_prod_beta)
qed

definition controlled_registry :: call_registry where
  "controlled_registry = new_registry\<lparr> cr_sessions := [(''c1'', new_reg_session ''c1'' 1)] \<rparr>"

lemma controller_is_sticky_example:
  "snd (bind_controller ''c1'' None ''bob'' [] (fst (bind_controller ''c1'' None ''alice'' [] controlled_registry))) =
    Inl ValueError"
proof -
  have s: "strip ''alice'' = ''alice''" "strip ''bob'' = ''bob''"
    by (simp_all add: strip_def lstrip_def rstrip_def is_space_def)
  have "bind_controller ''c1'' None ''alice'' [] controlled_registry =
      (fst (bind_controller ''c1'' None ''alice'' [] controlled_registry), Inr ''c1'')"
    by code_simp
  from controller_is_sticky [OF this, of "''bob''" None] show ?thesis
    by (simp add: s)
qed

end
