(* ===== verification/Sdp_Format.thy ===== *)
theory Sdp_Format
  imports Complex_Main Audio_Format Roster
begin

unbundle bit_operations_syntax

text \<open>
  \<open>custom_components/voip_stack/sdp.py\<close>, first part: media directions, the origin line, the audio and
  video formats of an RTP session, and the rules of RFC 6184 by which two H.264 contracts are compared.

  A dictionary of format parameters is an association list in source order.  \<open>Fraction\<close> is
  \<^typ>\<open>rat\<close>.  The three bytes of a profile-level-id are integers.  Descriptions are given as text
  (\<open>bytes\<close> arguments are decoded first).
\<close>

section \<open>Loops over lines\<close>

fun foldE :: "('s \<Rightarrow> 'a \<Rightarrow> 'e + 's) \<Rightarrow> 's \<Rightarrow> 'a list \<Rightarrow> 'e + 's" where
  "foldE f s [] = Inr s"
| "foldE f s (x # xs) = bindE (f s x) (\<lambda>s'. foldE f s' xs)"

lemma foldE_append: "foldE f s (xs @ ys) = bindE (foldE f s xs) (\<lambda>s'. foldE f s' ys)"
  by (induction xs arbitrary: s) (auto simp: bindE_def split: sum.split)

text \<open>\<open>s.replace("\r\n", "\n").split("\n")\<close>.\<close>

fun replace_crlf :: "string \<Rightarrow> string" where
  "replace_crlf [] = []"
| "replace_crlf [c] = [c]"
| "replace_crlf (c # d # r) = (if c = CR \<and> d = LF then LF # replace_crlf r else c # replace_crlf (d # r))"

definition sdp_lines :: "string \<Rightarrow> string list" where
  "sdp_lines s = split_on LF (replace_crlf s)"

fun has_crlf :: "string \<Rightarrow> bool" where
  "has_crlf (c # d # r) = (c = CR \<and> d = LF \<or> has_crlf (d # r))"
| "has_crlf _ = False"

section \<open>Directions\<close>

definition SDP_DIRECTIONS :: "string list" where
  "SDP_DIRECTIONS = [''sendrecv'', ''sendonly'', ''recvonly'', ''inactive'']"

definition normalize_direction :: "string \<Rightarrow> exn + string" where
  "normalize_direction value =
     (let direction = lower (strip (or_else value ''sendrecv'')) in
      if direction \<in> set SDP_DIRECTIONS then Inr direction
      else Inl (SdpError ''unsupported SDP media direction''))"

definition local_direction_for_remote :: "string \<Rightarrow> exn + string" where
  "local_direction_for_remote remote_direction =
     bindE (normalize_direction remote_direction) (\<lambda>d. Inr
       (case assoc [(''sendonly'', ''recvonly''), (''recvonly'', ''sendonly''), (''inactive'', ''inactive'')]
              (lower (or_else d ''sendrecv'')) of
          Some x \<Rightarrow> x | None \<Rightarrow> ''sendrecv''))"

definition constrained_media_direction :: "string \<Rightarrow> bool \<Rightarrow> bool \<Rightarrow> exn + string" where
  "constrained_media_direction remote_direction allow_send allow_receive =
     bindE (normalize_direction remote_direction) (\<lambda>remote.
       let can_send = (allow_send \<and> remote \<in> {''sendrecv'', ''recvonly''});
           can_receive = (allow_receive \<and> remote \<in> {''sendrecv'', ''sendonly''})
       in Inr (if can_send \<and> can_receive then ''sendrecv''
               else if can_send then ''sendonly''
               else if can_receive then ''recvonly''
               else ''inactive''))"

definition local_direction_for_offer :: "string \<Rightarrow> bool \<Rightarrow> exn + string" where
  "local_direction_for_offer remote_direction remote_connection_held =
     constrained_media_direction remote_direction (\<not> remote_connection_held) True"

definition suppress_local_send :: "string \<Rightarrow> exn + string" where
  "suppress_local_send direction =
     bindE (normalize_direction direction) (\<lambda>d. Inr
       (case assoc [(''sendrecv'', ''recvonly''), (''sendonly'', ''inactive'')] d of Some x \<Rightarrow> x | None \<Rightarrow> d))"

definition constrained_video_direction :: "string \<Rightarrow> bool \<Rightarrow> bool \<Rightarrow> exn + string" where
  "constrained_video_direction remote_direction allow_send allow_receive =
     constrained_media_direction remote_direction allow_send allow_receive"

section \<open>The origin line\<close>

definition new_origin :: "int \<Rightarrow> int \<Rightarrow> string \<Rightarrow> exn + string" where
  "new_origin session_id session_version line =
     (let parts = words (drop 2 line) in
      if length parts \<noteq> 6 then Inl (SdpError ''bad SDP origin line'')
      else Inr (''o='' @ join '' '' (parts[1 := dec_int session_id, 2 := dec_int session_version])))"

text \<open>The first origin line, replaced; \<open>None\<close> when there is none.\<close>

fun rewrite_first :: "int \<Rightarrow> int \<Rightarrow> string list \<Rightarrow> exn + string list option" where
  "rewrite_first i v [] = Inr None"
| "rewrite_first i v (line # lines) =
     (if startswith line ''o='' then bindE (new_origin i v line) (\<lambda>l. Inr (Some (l # lines)))
      else bindE (rewrite_first i v lines) (\<lambda>r. Inr (map_option ((#) line) r)))"

definition rewrite_sdp_origin :: "string \<Rightarrow> int \<Rightarrow> int \<Rightarrow> exn + string" where
  "rewrite_sdp_origin sdp session_id session_version =
     (if session_id < 0 \<or> session_version < 0
      then Inl (SdpError ''SDP origin session id/version must be non-negative'')
      else
      let separator = (if has_crlf sdp then CRLF else [LF]) in
      bindE (rewrite_first session_id session_version (sdp_lines sdp)) (\<lambda>r. Inr
        (case r of
           None \<Rightarrow> sdp
         | Some lines \<Rightarrow>
             let rendered = join separator lines
             in if (endswith sdp CRLF \<or> endswith sdp [LF]) \<and> \<not> endswith rendered separator
                then rendered @ separator else rendered)))"

definition sdp_description :: "string \<Rightarrow> string list" where
  "sdp_description sdp = map strip (filter (\<lambda>l. strip l \<noteq> [] \<and> \<not> startswith l ''o='') (sdp_lines sdp))"

definition sdp_description_changed :: "string \<Rightarrow> string \<Rightarrow> bool" where
  "sdp_description_changed previous updated \<longleftrightarrow> sdp_description previous \<noteq> sdp_description updated"

section \<open>Formats\<close>

record rtp_format =
  rf_payload_type :: int
  rf_encoding :: string
  rf_rate :: int
  rf_channels :: int
  rf_frame_ms :: int
  rf_min_frame_ms :: int
  rf_max_frame_ms :: int

definition mk_rtp_format :: "int \<Rightarrow> string \<Rightarrow> int \<Rightarrow> int \<Rightarrow> int \<Rightarrow> rtp_format" where
  "mk_rtp_format pt encoding rate channels frame_ms =
     \<lparr> rf_payload_type = pt, rf_encoding = encoding, rf_rate = rate, rf_channels = channels,
       rf_frame_ms = frame_ms, rf_min_frame_ms = 0, rf_max_frame_ms = 0 \<rparr>"

definition rtp_bits :: "rtp_format \<Rightarrow> exn + int" where
  "rtp_bits f =
     (if rf_encoding f = ''L16'' then Inr 16
      else if rf_encoding f = ''L24'' then Inr 24
      else if rf_encoding f \<in> {''PCMA'', ''PCMU''} then Inr 8
      else if rf_encoding f = ''OPUS'' then Inr 0
      else Inl (SdpError ''unsupported RTP PCM encoding''))"

definition rtp_audio_format :: "rtp_format \<Rightarrow> exn + audio_format" where
  "rtp_audio_format f =
     (let frame = (if rf_frame_ms f \<noteq> 0 then rf_frame_ms f else 20) in
      if rf_encoding f \<in> {''PCMA'', ''PCMU''} then make_format (rf_rate f) S16LE (rf_channels f) frame
      else if rf_encoding f = ''OPUS'' then make_format 48000 S16LE (rf_channels f) frame
      else make_format (rf_rate f) (if rf_encoding f = ''L16'' then S16LE else S24LE) (rf_channels f) (rf_frame_ms f))"

definition rtp_wire_token :: "rtp_format \<Rightarrow> string" where
  "rtp_wire_token f =
     ''pt='' @ dec_int (rf_payload_type f) @ '':'' @ rf_encoding f @ ''/'' @ dec_int (rf_rate f) @ ''/''
     @ dec_int (rf_channels f) @ ''/'' @ dec_int (rf_frame_ms f) @ ''ms''"

record dtmf_format =
  df_payload_type :: int
  df_rate :: int
  df_events :: "int list"

record pcm_direction =
  pd_send :: rtp_format
  pd_recv :: rtp_format

record video_format =
  vf_payload_type :: int
  vf_profile_level_id :: string
  vf_packetization_mode :: int
  vf_level_asymmetry :: bool
  vf_direction :: string
  vf_sprop :: string
  vf_encoding :: string
  vf_clock_rate :: int
  vf_transport :: string
  vf_fmtp :: string
  vf_feedback :: "string list"

definition DEFAULT_H264_FORMAT :: video_format where
  "DEFAULT_H264_FORMAT =
     \<lparr> vf_payload_type = 103, vf_profile_level_id = ''42801f'', vf_packetization_mode = 1,
       vf_level_asymmetry = True, vf_direction = ''sendrecv'', vf_sprop = [], vf_encoding = ''H264'',
       vf_clock_rate = 90000, vf_transport = ''RTP/AVP'', vf_fmtp = [], vf_feedback = [] \<rparr>"

definition DEFAULT_VIDEO_FORMATS :: "video_format list" where
  "DEFAULT_VIDEO_FORMATS =
     [DEFAULT_H264_FORMAT,
      DEFAULT_H264_FORMAT\<lparr> vf_payload_type := 104, vf_encoding := ''VP8'', vf_fmtp := ''max-fr=20;max-fs=3600'' \<rparr>,
      DEFAULT_H264_FORMAT\<lparr> vf_payload_type := 26, vf_encoding := ''JPEG'' \<rparr>]"

definition video_wire_token :: "video_format \<Rightarrow> string" where
  "video_wire_token f =
     (let base = ''pt='' @ dec_int (vf_payload_type f) @ '':'' @ vf_encoding f @ ''/'' @ dec_int (vf_clock_rate f);
          token = (if vf_encoding f = ''H264'' then
              base @ '';profile-level-id='' @ vf_profile_level_id f @ '';packetization-mode=''
                @ dec_int (vf_packetization_mode f)
            else if vf_fmtp f \<noteq> [] then base @ '';fmtp='' @ vf_fmtp f
            else base)
      in token @ '';rtp-profile='' @ vf_transport f @ '';direction='' @ vf_direction f)"

definition browser_codec :: "video_format \<Rightarrow> string" where
  "browser_codec f =
     (if vf_encoding f = ''H264'' then ''avc1.'' @ upper (vf_profile_level_id f)
      else case assoc [(''VP8'', ''vp8''), (''VP9'', ''vp09.00.10.08''), (''AV1'', ''av01.0.04M.08''),
                       (''JPEG'', ''jpeg'')] (vf_encoding f) of
        Some c \<Rightarrow> c | None \<Rightarrow> [])"

record video_direction =
  vd_send :: video_format
  vd_recv :: video_format
  vd_answer :: "video_format option"

definition answer_format :: "video_direction \<Rightarrow> video_format" where
  "answer_format d = (case vd_answer d of Some f \<Rightarrow> f | None \<Rightarrow> vd_recv d)"

definition SUPPORTED_RTCP_FEEDBACK :: "string list" where
  "SUPPORTED_RTCP_FEEDBACK = [''nack pli'', ''ccm fir'']"

definition browser_video_send_supported :: "video_format \<Rightarrow> bool" where
  "browser_video_send_supported f \<longleftrightarrow>
     vf_encoding f = ''VP8'' \<or> (vf_encoding f = ''H264'' \<and> vf_packetization_mode f = 1)"

definition browser_video_receive_supported :: "video_format \<Rightarrow> bool" where
  "browser_video_receive_supported f \<longleftrightarrow> vf_encoding f \<in> {''H264'', ''VP8'', ''JPEG''}"

section \<open>Remote targets\<close>

text \<open>The fields of a parsed section that a target is made from.\<close>

record target_fields =
  tf_connection_ip :: string
  tf_media_port :: int
  tf_rtcp_address :: string
  tf_rtcp_port :: int
  tf_rtcp_mux :: bool
  tf_payload_order :: "int list"
  tf_connection_held :: bool

record media_target =
  mt_rtp_host :: string
  mt_rtp_port :: int
  mt_rtcp_host :: string
  mt_rtcp_port :: int
  mt_rtcp_mux :: bool
  mt_payload_types :: "int list"
  mt_connection_held :: bool

definition no_target :: media_target where
  "no_target =
     \<lparr> mt_rtp_host = [], mt_rtp_port = 0, mt_rtcp_host = [], mt_rtcp_port = 0, mt_rtcp_mux = False,
       mt_payload_types = [], mt_connection_held = False \<rparr>"

definition target_from_section :: "target_fields option \<Rightarrow> bool option \<Rightarrow> exn + media_target" where
  "target_from_section sect rtcp_mux =
     (case sect of
        None \<Rightarrow> Inr no_target
      | Some s \<Rightarrow>
          if tf_connection_ip s = [] \<or> \<not> (0 \<le> tf_media_port s \<and> tf_media_port s \<le> 65535)
          then Inl (SdpError ''remote media section has an invalid RTP target'')
          else
          let rtcp_port = (if tf_rtcp_port s \<noteq> 0 then tf_rtcp_port s
                           else if tf_media_port s \<noteq> 0 then tf_media_port s + 1 else 0) in
          if \<not> (0 \<le> rtcp_port \<and> rtcp_port \<le> 65535)
          then Inl (SdpError ''remote media section has an invalid RTCP target'')
          else Inr
            \<lparr> mt_rtp_host = tf_connection_ip s, mt_rtp_port = tf_media_port s,
              mt_rtcp_host = or_else (tf_rtcp_address s) (tf_connection_ip s), mt_rtcp_port = rtcp_port,
              mt_rtcp_mux = (case rtcp_mux of None \<Rightarrow> tf_rtcp_mux s | Some b \<Rightarrow> b),
              mt_payload_types = tf_payload_order s, mt_connection_held = tf_connection_held s \<rparr>)"

section \<open>Format parameters\<close>

definition partition_eq :: "string \<Rightarrow> string \<times> string" where
  "partition_eq s = (before (CHR ''='') s, after (CHR ''='') s)"

definition add_parameter :: "(string \<times> string) list \<Rightarrow> string \<Rightarrow> (string \<times> string) list" where
  "add_parameter out item =
     (let (key, raw) = partition_eq (strip item)
      in if key = [] then out else md_set out (lower key) (strip raw))"

definition fmtp_parameters :: "string \<Rightarrow> (string \<times> string) list" where
  "fmtp_parameters value = foldl add_parameter [] (split_on (CHR '';'') value)"

text \<open>Equality of dictionaries.\<close>

definition dict_eq :: "(string \<times> 'v) list \<Rightarrow> (string \<times> 'v) list \<Rightarrow> bool" where
  "dict_eq a b \<longleftrightarrow> list_all (\<lambda>k. assoc a k = assoc b k) (map fst a @ map fst b)"

definition same_fmtp :: "video_format \<Rightarrow> video_format \<Rightarrow> bool" where
  "same_fmtp a b \<longleftrightarrow> dict_eq (fmtp_parameters (vf_fmtp a)) (fmtp_parameters (vf_fmtp b))"

definition render_parameter :: "string \<times> string \<Rightarrow> string" where
  "render_parameter kv = (if snd kv \<noteq> [] then fst kv @ ''='' @ snd kv else fst kv)"

definition fmtp_without_parameters :: "string \<Rightarrow> string list \<Rightarrow> string" where
  "fmtp_without_parameters value excluded =
     join '';'' (map render_parameter (filter (\<lambda>(k, _). k \<notin> set excluded) (fmtp_parameters value)))"

end
