(* ===== verification/Sdp_Parse.thy ===== *)
theory Sdp_Parse
  imports Sdp_Format
begin

text \<open>
  \<open>custom_components/voip_stack/sdp.py\<close>, fourth part: the two readers of a session description and the
  check of an answer against its offer.

  \<open>parse_sdp\<close> keeps only the audio section a call uses; its local variables are the fields of
  \<open>audio_scan\<close> and one round of its loop is \<open>scan_line\<close>.  \<open>_parse_media_sections\<close> keeps every
  section; the dictionary of a section is the record \<open>sdp_section\<close>, the key \<open>"*"\<close> of its RTCP
  feedback is \<open>None\<close>.  Both loops are \<open>foldE\<close> over the lines.  Any \<open>ValueError\<close> inside an
  attribute becomes an \<open>SdpError\<close>, as the \<open>except\<close> clauses do.
\<close>

section \<open>Splitting attributes\<close>

text \<open>\<open>s.split(None, 1)\<close> unpacked into two values.\<close>

definition split_first :: "string \<Rightarrow> (string \<times> string) option" where
  "split_first s =
     (let t = lstrip s; w = takeWhile (\<lambda>c. \<not> is_space c) t; r = lstrip (dropWhile (\<lambda>c. \<not> is_space c) t)
      in if w = [] \<or> r = [] then None else Some (w, r))"

definition removeprefix :: "string \<Rightarrow> string \<Rightarrow> string" where
  "removeprefix s p = (if startswith s p then drop (length p) s else s)"

definition DIRECTION_LINES :: "string list" where
  "DIRECTION_LINES = [''a=sendrecv'', ''a=sendonly'', ''a=recvonly'', ''a=inactive'']"

definition IP4_PREFIX :: string where "IP4_PREFIX = ''c=IN IP4 ''"

section \<open>The audio section of a call\<close>

type_synonym rtp_mapping = "string \<times> int \<times> int"

record audio_scan =
  as_session_conn :: string
  as_media_conn :: string
  as_media_port :: int
  as_payload_order :: "int list"
  as_rtpmap :: "(int \<times> rtp_mapping) list"
  as_fmtp :: "(int \<times> string) list"
  as_ptime :: int
  as_minptime :: int
  as_maxptime :: int
  as_saw_media :: bool
  as_selected_audio :: bool
  as_in_selected_audio :: bool
  as_session_direction :: string
  as_media_direction :: string

definition initial_scan :: audio_scan where
  "initial_scan =
     \<lparr> as_session_conn = [], as_media_conn = [], as_media_port = 0, as_payload_order = [], as_rtpmap = [],
       as_fmtp = [], as_ptime = 0, as_minptime = 0, as_maxptime = 0, as_saw_media = False,
       as_selected_audio = False, as_in_selected_audio = False, as_session_direction = ''sendrecv'',
       as_media_direction = [] \<rparr>"

definition ints_of :: "string list \<Rightarrow> int list option" where
  "ints_of ss = (if list_all (\<lambda>s. py_int s \<noteq> None) ss then Some (map (\<lambda>s. the (py_int s)) ss) else None)"

definition scan_media :: "string \<Rightarrow> audio_scan \<Rightarrow> exn + audio_scan" where
  "scan_media line st =
     (let st1 = st\<lparr> as_saw_media := True, as_in_selected_audio := False \<rparr>; parts = words line in
      if as_selected_audio st \<or> length parts < 4 \<or> parts ! 0 \<noteq> ''m=audio'' \<or> upper (parts ! 2) \<noteq> ''RTP/AVP''
      then Inr st1
      else case (py_int (parts ! 1), ints_of (drop 3 parts)) of
        (Some port, Some payloads) \<Rightarrow>
          if port = 0 then Inr st1
          else if \<not> (1 \<le> port \<and> port \<le> 65535) then Inl (SdpError ''bad audio media port'')
          else if payloads = [] \<or> \<not> list_all (\<lambda>pt. 0 \<le> pt \<and> pt \<le> 127) payloads
            then Inl (SdpError ''bad audio payload list'')
          else Inr (st1\<lparr> as_media_port := port, as_payload_order := payloads, as_selected_audio := True,
                         as_in_selected_audio := True \<rparr>)
      | _ \<Rightarrow> Inl (SdpError ''bad audio media line''))"

definition scan_connection :: "string \<Rightarrow> audio_scan \<Rightarrow> exn + audio_scan" where
  "scan_connection line st =
     (if \<not> as_saw_media st then
        (if \<not> startswith line IP4_PREFIX then Inl (SdpError ''unsupported SDP connection'')
         else Inr (st\<lparr> as_session_conn := strip (removeprefix line IP4_PREFIX) \<rparr>))
      else if as_in_selected_audio st then
        (if \<not> startswith line IP4_PREFIX then Inl (SdpError ''unsupported SDP audio connection'')
         else Inr (st\<lparr> as_media_conn := strip (removeprefix line IP4_PREFIX) \<rparr>))
      else Inr st)"

definition scan_direction :: "string \<Rightarrow> audio_scan \<Rightarrow> audio_scan" where
  "scan_direction line st =
     (if \<not> as_saw_media st then st\<lparr> as_session_direction := drop 2 line \<rparr>
      else if as_in_selected_audio st then st\<lparr> as_media_direction := drop 2 line \<rparr>
      else st)"

text \<open>The mapping of an \<open>a=rtpmap\<close> specification; \<open>None\<close> for a \<open>ValueError\<close>.\<close>

definition mapping_of_spec :: "string \<Rightarrow> rtp_mapping option" where
  "mapping_of_spec spec =
     (case split_on (CHR ''/'') spec of
        [encoding, rate] \<Rightarrow> map_option (\<lambda>r. (upper encoding, r, 1)) (py_int rate)
      | [encoding, rate, channels] \<Rightarrow>
          (case (py_int channels, py_int rate) of (Some c, Some r) \<Rightarrow> Some (upper encoding, r, c) | _ \<Rightarrow> None)
      | _ \<Rightarrow> None)"

definition scan_rtpmap :: "string \<Rightarrow> audio_scan \<Rightarrow> audio_scan option" where
  "scan_rtpmap text st =
     (case split_first text of
        None \<Rightarrow> None
      | Some (left, spec) \<Rightarrow>
          (case (py_int left, mapping_of_spec spec) of
             (Some pt, Some m) \<Rightarrow>
               if 0 \<le> pt \<and> pt \<le> 127 then Some (st\<lparr> as_rtpmap := md_set (as_rtpmap st) pt m \<rparr>) else None
           | _ \<Rightarrow> None))"

definition scan_fmtp :: "string \<Rightarrow> audio_scan \<Rightarrow> audio_scan option" where
  "scan_fmtp text st =
     (case split_first text of
        None \<Rightarrow> None
      | Some (left, spec) \<Rightarrow>
          map_option (\<lambda>pt. st\<lparr> as_fmtp := md_set (as_fmtp st) pt (strip spec) \<rparr>) (py_int left))"

text \<open>\<open>None\<close> for a \<open>ValueError\<close>.\<close>

definition scan_attribute :: "string \<Rightarrow> audio_scan \<Rightarrow> audio_scan option" where
  "scan_attribute line st =
     (if startswith line ''a=rtpmap:'' then scan_rtpmap (removeprefix line ''a=rtpmap:'') st
      else if startswith line ''a=fmtp:'' then scan_fmtp (removeprefix line ''a=fmtp:'') st
      else if startswith line ''a=ptime:''
        then map_option (\<lambda>i. st\<lparr> as_ptime := i \<rparr>) (py_int (strip (removeprefix line ''a=ptime:'')))
      else if startswith line ''a=minptime:''
        then map_option (\<lambda>i. st\<lparr> as_minptime := i \<rparr>) (py_int (strip (removeprefix line ''a=minptime:'')))
      else if startswith line ''a=maxptime:''
        then map_option (\<lambda>i. st\<lparr> as_maxptime := i \<rparr>) (py_int (strip (removeprefix line ''a=maxptime:'')))
      else Some st)"

definition scan_line :: "audio_scan \<Rightarrow> string \<Rightarrow> exn + audio_scan" where
  "scan_line st raw =
     (let line = strip raw in
      if line = [] then Inr st
      else if startswith line ''m='' then scan_media line st
      else if startswith line ''c='' then scan_connection line st
      else if line \<in> set DIRECTION_LINES then Inr (scan_direction line st)
      else if \<not> as_in_selected_audio st then Inr st
      else case scan_attribute line st of
        None \<Rightarrow> Inl (SdpError ''bad SDP audio attribute'')
      | Some st' \<Rightarrow> Inr st')"

record parsed_audio =
  pa_connection_ip :: string
  pa_media_port :: int
  pa_payload_order :: "int list"
  pa_rtpmap :: "(int \<times> rtp_mapping) list"
  pa_fmtp :: "(int \<times> string) list"
  pa_ptime :: int
  pa_minptime :: int
  pa_maxptime :: int
  pa_direction :: string
  pa_connection_held :: bool

definition finish_scan :: "audio_scan \<Rightarrow> exn + parsed_audio" where
  "finish_scan st =
     (let connection_ip = or_else (as_media_conn st) (as_session_conn st) in
      if connection_ip = [] \<or> as_media_port st = 0 \<or> as_payload_order st = []
      then Inl (SdpError ''SDP missing c=, m=audio port, or payload list'')
      else Inr
        \<lparr> pa_connection_ip = connection_ip, pa_media_port = as_media_port st,
          pa_payload_order = as_payload_order st, pa_rtpmap = as_rtpmap st, pa_fmtp = as_fmtp st,
          pa_ptime = as_ptime st, pa_minptime = as_minptime st, pa_maxptime = as_maxptime st,
          pa_direction = or_else (as_media_direction st) (as_session_direction st),
          pa_connection_held = (connection_ip = ''0.0.0.0'') \<rparr>)"

definition parse_sdp :: "string \<Rightarrow> exn + parsed_audio" where
  "parse_sdp sdp = bindE (foldE scan_line initial_scan (sdp_lines sdp)) finish_scan"

section \<open>Every media section\<close>

record sdp_section =
  se_media :: string
  se_port :: int
  se_transport :: string
  se_formats :: "string list"
  se_connection_ip :: string
  se_connection_seen :: bool
  se_connection_supported :: bool
  se_rtpmap :: "(int \<times> string) list"
  se_fmtp :: "(int \<times> string) list"
  se_rtcp_feedback :: "(int option \<times> string list) list"
  se_rtcp_port :: int
  se_rtcp_address :: string
  se_rtcp_address_supported :: bool
  se_rtcp_mux :: bool
  se_rtcp_mux_only :: bool
  se_direction :: string
  se_connection_held :: bool

text \<open>The loop's variables: the sections before the current one, oldest first, and the current one.\<close>

record section_scan =
  ss_session_connection :: string
  ss_session_direction :: string
  ss_done :: "sdp_section list"
  ss_current :: "sdp_section option"

definition new_section :: "string \<Rightarrow> int \<Rightarrow> string \<Rightarrow> string list \<Rightarrow> string \<Rightarrow> sdp_section" where
  "new_section media port transport formats direction =
     \<lparr> se_media = media, se_port = port, se_transport = transport, se_formats = formats, se_connection_ip = [],
       se_connection_seen = False, se_connection_supported = True, se_rtpmap = [], se_fmtp = [],
       se_rtcp_feedback = [], se_rtcp_port = 0, se_rtcp_address = [], se_rtcp_address_supported = True,
       se_rtcp_mux = False, se_rtcp_mux_only = False, se_direction = direction, se_connection_held = False \<rparr>"

definition all_sections :: "section_scan \<Rightarrow> sdp_section list" where
  "all_sections st = ss_done st @ (case ss_current st of None \<Rightarrow> [] | Some s \<Rightarrow> [s])"

definition section_media :: "string \<Rightarrow> section_scan \<Rightarrow> exn + section_scan" where
  "section_media line st =
     (let parts = words (drop 2 line) in
      if length parts < 4 then Inl (SdpError ''bad media line'')
      else case py_int (parts ! 1) of
        None \<Rightarrow> Inl (SdpError ''bad media port'')
      | Some port \<Rightarrow>
          if \<not> (0 \<le> port \<and> port \<le> 65535) then Inl (SdpError ''bad media port'')
          else Inr (st\<lparr> ss_done := all_sections st,
                        ss_current := Some (new_section (lower (parts ! 0)) port (upper (parts ! 2)) (drop 3 parts)
                                              (ss_session_direction st)) \<rparr>))"

definition section_connection :: "string \<Rightarrow> section_scan \<Rightarrow> exn + section_scan" where
  "section_connection line st =
     (case ss_current st of
        None \<Rightarrow>
          if \<not> startswith line IP4_PREFIX then Inl (SdpError ''unsupported SDP connection'')
          else Inr (st\<lparr> ss_session_connection := strip (removeprefix line IP4_PREFIX) \<rparr>)
      | Some s \<Rightarrow> Inr (st\<lparr> ss_current := Some
          (if startswith line IP4_PREFIX
           then s\<lparr> se_connection_seen := True, se_connection_ip := strip (removeprefix line IP4_PREFIX) \<rparr>
           else s\<lparr> se_connection_seen := True, se_connection_ip := [], se_connection_supported := False \<rparr>) \<rparr>))"

definition section_direction :: "string \<Rightarrow> section_scan \<Rightarrow> section_scan" where
  "section_direction line st =
     (case ss_current st of
        None \<Rightarrow> st\<lparr> ss_session_direction := drop 2 line \<rparr>
      | Some s \<Rightarrow> st\<lparr> ss_current := Some (s\<lparr> se_direction := drop 2 line \<rparr>) \<rparr>)"

definition section_rtcp :: "string \<Rightarrow> sdp_section \<Rightarrow> sdp_section option" where
  "section_rtcp text s =
     (let parts = words text in
      if length parts \<notin> {1, 4} then None
      else case py_int (parts ! 0) of
        None \<Rightarrow> None
      | Some port \<Rightarrow>
          if \<not> (1 \<le> port \<and> port \<le> 65535) then None
          else
          let s1 = s\<lparr> se_rtcp_port := port \<rparr> in
          if length parts \<noteq> 4 then Some s1
          else if upper (parts ! 1) = ''IN'' \<and> upper (parts ! 2) = ''IP4'' then Some (s1\<lparr> se_rtcp_address := parts ! 3 \<rparr>)
          else Some (s1\<lparr> se_rtcp_address_supported := False \<rparr>))"

definition feedback_key :: "string \<Rightarrow> int option option" where
  "feedback_key left = (if left = ''*'' then Some None else map_option Some (py_int left))"

definition feedback_of :: "sdp_section \<Rightarrow> int option \<Rightarrow> string list" where
  "feedback_of s key = (case assoc (se_rtcp_feedback s) key of Some vs \<Rightarrow> vs | None \<Rightarrow> [])"

definition section_feedback :: "string \<Rightarrow> sdp_section \<Rightarrow> sdp_section option" where
  "section_feedback text s =
     (case split_first text of
        None \<Rightarrow> None
      | Some (left, spec) \<Rightarrow>
          map_option (\<lambda>key. s\<lparr> se_rtcp_feedback := md_set (se_rtcp_feedback s) key (feedback_of s key @ [strip spec]) \<rparr>)
            (feedback_key left))"

definition section_rtpmap :: "string \<Rightarrow> sdp_section \<Rightarrow> sdp_section option" where
  "section_rtpmap text s =
     (case split_first text of
        None \<Rightarrow> None
      | Some (left, spec) \<Rightarrow>
          map_option (\<lambda>pt. s\<lparr> se_rtpmap := md_set (se_rtpmap s) pt (strip spec) \<rparr>) (py_int left))"

definition section_fmtp :: "string \<Rightarrow> sdp_section \<Rightarrow> sdp_section option" where
  "section_fmtp text s =
     (case split_first text of
        None \<Rightarrow> None
      | Some (left, spec) \<Rightarrow>
          map_option (\<lambda>pt. s\<lparr> se_fmtp := md_set (se_fmtp s) pt (strip spec) \<rparr>) (py_int left))"

text \<open>\<open>None\<close> for a \<open>ValueError\<close>.\<close>

definition section_attribute :: "string \<Rightarrow> sdp_section \<Rightarrow> sdp_section option" where
  "section_attribute line s =
     (if startswith line ''a=rtpmap:'' then section_rtpmap (removeprefix line ''a=rtpmap:'') s
      else if startswith line ''a=fmtp:'' then section_fmtp (removeprefix line ''a=fmtp:'') s
      else if startswith line ''a=rtcp-fb:'' then section_feedback (removeprefix line ''a=rtcp-fb:'') s
      else if startswith line ''a=rtcp:'' then section_rtcp (removeprefix line ''a=rtcp:'') s
      else if line = ''a=rtcp-mux'' then Some (s\<lparr> se_rtcp_mux := True \<rparr>)
      else if line = ''a=rtcp-mux-only'' then Some (s\<lparr> se_rtcp_mux_only := True \<rparr>)
      else Some s)"

definition section_line :: "section_scan \<Rightarrow> string \<Rightarrow> exn + section_scan" where
  "section_line st raw =
     (let line = strip raw in
      if line = [] then Inr st
      else if startswith line ''m='' then section_media line st
      else if startswith line ''c='' then section_connection line st
      else if line \<in> set DIRECTION_LINES then Inr (section_direction line st)
      else case ss_current st of
        None \<Rightarrow> Inr st
      | Some s \<Rightarrow>
          (case section_attribute line s of
             None \<Rightarrow> Inl (SdpError ''bad SDP media attribute'')
           | Some s' \<Rightarrow> Inr (st\<lparr> ss_current := Some s' \<rparr>)))"

definition finish_section :: "string \<Rightarrow> sdp_section \<Rightarrow> sdp_section" where
  "finish_section session_connection s =
     (let ip = (if se_connection_seen s then se_connection_ip s else session_connection)
      in s\<lparr> se_connection_ip := ip, se_connection_held := (ip = ''0.0.0.0'') \<rparr>)"

definition initial_sections :: section_scan where
  "initial_sections =
     \<lparr> ss_session_connection = [], ss_session_direction = ''sendrecv'', ss_done = [], ss_current = None \<rparr>"

definition parse_media_sections :: "string \<Rightarrow> exn + string \<times> string \<times> sdp_section list" where
  "parse_media_sections sdp =
     bindE (foldE section_line initial_sections (sdp_lines sdp)) (\<lambda>st. Inr
       (ss_session_connection st, ss_session_direction st,
        map (finish_section (ss_session_connection st)) (all_sections st)))"

definition sdp_sections :: "string \<Rightarrow> exn + sdp_section list" where
  "sdp_sections sdp = bindE (parse_media_sections sdp) (\<lambda>r. Inr (snd (snd r)))"

section \<open>RTP mappings\<close>

definition STATIC_RTPMAP :: "(int \<times> rtp_mapping) list" where
  "STATIC_RTPMAP = [(0, (''PCMU'', 8000, 1)), (8, (''PCMA'', 8000, 1))]"

definition static_section_mapping :: "string \<Rightarrow> int \<Rightarrow> rtp_mapping option" where
  "static_section_mapping media payload_type =
     (if media = ''audio'' \<and> assoc STATIC_RTPMAP payload_type \<noteq> None then assoc STATIC_RTPMAP payload_type
      else if media = ''video'' \<and> payload_type = 26 then Some (''JPEG'', 90000, 1)
      else if media = ''video'' \<and> payload_type = 34 then Some (''H263'', 90000, 1)
      else None)"

definition explicit_section_mapping :: "string \<Rightarrow> exn + rtp_mapping" where
  "explicit_section_mapping text =
     (let bad = Inl (SdpError ''bad rtpmap for payload type'') in
      case split_on (CHR ''/'') text of
        [e, r] \<Rightarrow> (case py_int r of Some rate \<Rightarrow> Inr (upper (strip e), rate, 1) | None \<Rightarrow> bad)
      | [e, r, c] \<Rightarrow>
          (case (py_int r, py_int c) of (Some rate, Some ch) \<Rightarrow> Inr (upper (strip e), rate, ch) | _ \<Rightarrow> bad)
      | _ \<Rightarrow> bad)"

definition section_mapping :: "sdp_section \<Rightarrow> int \<Rightarrow> exn + rtp_mapping option" where
  "section_mapping s payload_type =
     (let text = strip (case assoc (se_rtpmap s) payload_type of Some t \<Rightarrow> t | None \<Rightarrow> []) in
      if text \<noteq> [] then bindE (explicit_section_mapping text) (\<lambda>m. Inr (Some m))
      else Inr (static_section_mapping (se_media s) payload_type))"

definition normalized_rtcp_feedback :: "string list \<Rightarrow> string list" where
  "normalized_rtcp_feedback vs = map (\<lambda>v. join '' '' (words (lower (strip v)))) vs"

text \<open>The offer's payloads equivalent to one payload of the answer.\<close>

definition filterE :: "('a \<Rightarrow> 'e + bool) \<Rightarrow> 'a list \<Rightarrow> 'e + 'a list" where
  "filterE f xs = concatE (\<lambda>x. bindE (f x) (\<lambda>b. Inr (if b then [x] else []))) xs"

definition equivalent_of ::
  "sdp_section \<Rightarrow> int list \<Rightarrow> sdp_section \<Rightarrow> int \<Rightarrow> exn + (int \<times> int list) list" where
  "equivalent_of offered offered_payloads answered answer_payload =
     bindE (section_mapping answered answer_payload) (\<lambda>answer_mapping.
     bindE (if answer_payload \<in> set offered_payloads
            then bindE (section_mapping offered answer_payload) (\<lambda>m.
                   if m \<noteq> answer_mapping then Inl (SdpError ''SDP answer remapped payload type'') else Inr ())
            else Inr ()) (\<lambda>_.
     if answer_mapping = None then Inr []
     else bindE (filterE (\<lambda>p. bindE (section_mapping offered p) (\<lambda>m. Inr (m = answer_mapping))) offered_payloads)
            (\<lambda>eq. Inr (if eq \<noteq> [] then [(answer_payload, eq)] else []))))"

definition equivalent_rtp_payloads :: "sdp_section \<Rightarrow> sdp_section \<Rightarrow> exn + (int \<times> int list) list" where
  "equivalent_rtp_payloads offered answered =
     (case (ints_of (se_formats offered), ints_of (se_formats answered)) of
        (Some offered_payloads, Some answered_payloads) \<Rightarrow>
          concatE (equivalent_of offered (remdups offered_payloads) answered) (remdups answered_payloads)
      | _ \<Rightarrow> Inl (SdpError ''RTP media formats must be numeric payload types''))"

section \<open>The check of an answer\<close>

definition allowed_directions :: "string \<Rightarrow> string list" where
  "allowed_directions offer_direction =
     (if offer_direction = ''sendrecv'' then [''sendrecv'', ''sendonly'', ''recvonly'', ''inactive'']
      else if offer_direction = ''sendonly'' then [''recvonly'', ''inactive'']
      else if offer_direction = ''recvonly'' then [''sendonly'', ''inactive'']
      else [''inactive''])"

definition check_that :: "bool \<Rightarrow> string \<Rightarrow> exn + unit" where
  "check_that ok message = (if ok then Inr () else Inl (SdpError message))"

definition all_digits :: "string \<Rightarrow> bool" where
  "all_digits s \<longleftrightarrow> s \<noteq> [] \<and> list_all is_digit s"

text \<open>The RTCP feedback of one key of the answer.\<close>

definition feedback_allowed ::
  "sdp_section \<Rightarrow> sdp_section \<Rightarrow> (int \<times> int list) list \<Rightarrow> int option \<times> string list \<Rightarrow> exn + unit" where
  "feedback_allowed offered answered equivalent entry =
     (let (key, vs) = entry;
          wildcard = normalized_rtcp_feedback (feedback_of offered None);
          offered_only = (\<lambda>allowed. check_that (set (normalized_rtcp_feedback vs) \<subseteq> set allowed)
                      ''SDP answer added unoffered RTCP feedback'')
      in case key of
           None \<Rightarrow> offered_only wildcard
         | Some pt \<Rightarrow>
             bindE (check_that (pt \<in> set (List.map_filter py_int (filter all_digits (se_formats answered))))
                      ''SDP answer attached RTCP feedback to an unselected payload type'') (\<lambda>_.
             offered_only (wildcard @ concat (map (\<lambda>o_pt. normalized_rtcp_feedback (feedback_of offered (Some o_pt)))
                       (case assoc equivalent pt of Some ps \<Rightarrow> ps | None \<Rightarrow> [])))))"

definition check_feedback :: "sdp_section \<Rightarrow> sdp_section \<Rightarrow> (int \<times> int list) list \<Rightarrow> exn + unit" where
  "check_feedback offered answered equivalent =
     (if upper (se_transport answered) \<noteq> ''RTP/AVPF'' then Inr ()
      else bindE (mapE (feedback_allowed offered answered equivalent) (se_rtcp_feedback answered)) (\<lambda>_. Inr ()))"

definition check_formats :: "sdp_section \<Rightarrow> sdp_section \<Rightarrow> exn + (int \<times> int list) list" where
  "check_formats offered answered =
     (if startswith (upper (se_transport answered)) ''RTP/'' then
        bindE (equivalent_rtp_payloads offered answered) (\<lambda>eq.
        bindE (check_that (eq \<noteq> []) ''SDP answer selected no offered codec'') (\<lambda>_. Inr eq))
      else
        bindE (check_that (set (se_formats answered) \<inter> set (se_formats offered) \<noteq> {})
                 ''SDP answer selected an unoffered format'') (\<lambda>_. Inr []))"

definition check_section :: "sdp_section \<times> sdp_section \<Rightarrow> exn + unit" where
  "check_section pair =
     (let (offered, answered) = pair in
      bindE (check_that (se_media answered = se_media offered) ''SDP answer changed the media'') (\<lambda>_.
      bindE (check_that (se_transport answered = se_transport offered) ''SDP answer changed the transport profile'') (\<lambda>_.
      bindE (check_that (\<not> (se_port offered = 0 \<and> se_port answered \<noteq> 0)) ''SDP answer accepted a rejected offer'') (\<lambda>_.
      bindE (check_that (se_formats answered \<noteq> []) ''SDP answer has no format'') (\<lambda>_.
      if se_port answered = 0 then Inr ()
      else
      bindE (check_formats offered answered) (\<lambda>equivalent.
      bindE (check_that (se_rtcp_mux answered \<longrightarrow> se_rtcp_mux offered) ''SDP answer added unoffered rtcp-mux'') (\<lambda>_.
      bindE (check_that (se_rtcp_mux_only answered \<longrightarrow> se_rtcp_mux_only offered)
               ''SDP answer added unoffered rtcp-mux-only'') (\<lambda>_.
      bindE (check_feedback offered answered equivalent) (\<lambda>_.
      bindE (normalize_direction (se_direction offered)) (\<lambda>od.
      bindE (normalize_direction (se_direction answered)) (\<lambda>ad.
      check_that (ad \<in> set (allowed_directions od)) ''SDP answer direction is invalid'')))))))))))"

definition validate_sdp_answer :: "string \<Rightarrow> string \<Rightarrow> bool \<Rightarrow> exn + unit" where
  "validate_sdp_answer offer answer allow_omitted_trailing_media =
     bindE (sdp_sections offer) (\<lambda>offered.
     bindE (sdp_sections answer) (\<lambda>answered.
     bindE (check_that (offered \<noteq> []) ''SDP offer has no media sections'') (\<lambda>_.
     bindE (check_that (\<not> (length offered < length answered \<or>
                             (length answered < length offered \<and> \<not> allow_omitted_trailing_media)))
              ''SDP answer must preserve the offer's media-section count and order'') (\<lambda>_.
     bindE (check_that (\<not> (allow_omitted_trailing_media \<and> length answered < length offered \<and>
                             (answered = [] \<or> list_ex (\<lambda>s. se_media s = ''audio'') (drop (length answered) offered))))
              ''SDP answer omitted a required audio media section'') (\<lambda>_.
     bindE (mapE check_section (zip offered answered)) (\<lambda>_. Inr ()))))))"

section \<open>The video section\<close>

record parsed_video =
  pv_connection_ip :: string
  pv_media_port :: int
  pv_transport :: string
  pv_payload_order :: "int list"
  pv_rtpmap :: "(int \<times> string) list"
  pv_fmtp :: "(int \<times> string) list"
  pv_rtcp_feedback :: "(int option \<times> string list) list"
  pv_rtcp_port :: int
  pv_rtcp_address :: string
  pv_rtcp_mux :: bool
  pv_rtcp_mux_only :: bool
  pv_direction :: string
  pv_connection_held :: bool

definition video_of_section :: "sdp_section \<Rightarrow> exn + parsed_video option" where
  "video_of_section s =
     (if se_port s = 0 \<or> se_transport s \<notin> {''RTP/AVP'', ''RTP/AVPF''} \<or> \<not> se_connection_supported s \<or>
         \<not> se_rtcp_address_supported s \<or> se_rtcp_mux_only s
      then Inr None
      else if se_connection_ip s = [] then Inl (SdpError ''SDP video section has no connection address'')
      else case ints_of (se_formats s) of
        None \<Rightarrow> Inl (SdpError ''bad video payload list'')
      | Some payload_order \<Rightarrow>
          if payload_order = [] \<or> \<not> list_all (\<lambda>pt. 0 \<le> pt \<and> pt \<le> 127) payload_order
          then Inl (SdpError ''bad video payload list'')
          else Inr (Some
            \<lparr> pv_connection_ip = se_connection_ip s, pv_media_port = se_port s, pv_transport = se_transport s,
              pv_payload_order = payload_order, pv_rtpmap = se_rtpmap s, pv_fmtp = se_fmtp s,
              pv_rtcp_feedback = se_rtcp_feedback s, pv_rtcp_port = se_rtcp_port s,
              pv_rtcp_address = se_rtcp_address s, pv_rtcp_mux = se_rtcp_mux s,
              pv_rtcp_mux_only = se_rtcp_mux_only s, pv_direction = se_direction s,
              pv_connection_held = se_connection_held s \<rparr>))"

definition parse_video_sdp :: "string \<Rightarrow> exn + parsed_video option" where
  "parse_video_sdp sdp =
     bindE (sdp_sections sdp) (\<lambda>sections.
       case find (\<lambda>s. se_media s = ''video'') sections of
         None \<Rightarrow> Inr None
       | Some s \<Rightarrow> video_of_section s)"

end
