(* ===== verification/Sdp_H264.thy ===== *)
theory Sdp_H264
  imports Sdp_Format
begin

text \<open>
  \<open>custom_components/voip_stack/sdp.py\<close>, second part: H.264 profiles and levels (RFC 6184), receiver
  limits, and the contracts that result when one side of a call answers the other.
\<close>

section \<open>Profiles and levels\<close>

definition hex_space :: "char \<Rightarrow> bool" where
  "hex_space c \<longleftrightarrow> (9 \<le> ord c \<and> ord c \<le> 13) \<or> ord c = 32"

text \<open>\<open>bytes.fromhex\<close>: pairs of digits, with white space between them.\<close>

fun from_hex :: "string \<Rightarrow> int list option" where
  "from_hex [] = Some []"
| "from_hex [c] = (if hex_space c then Some [] else None)"
| "from_hex (c # d # r) =
     (if hex_space c then from_hex (d # r)
      else case (hex_val c, hex_val d) of
        (Some x, Some y) \<Rightarrow> map_option ((#) (int (16 * x + y))) (from_hex r)
      | _ \<Rightarrow> None)"

definition three_bytes :: "string \<Rightarrow> (int \<times> int \<times> int) option" where
  "three_bytes s = (case from_hex s of Some [a, b, c] \<Rightarrow> Some (a, b, c) | _ \<Rightarrow> None)"

definition hex_lower_digit :: "int \<Rightarrow> char" where
  "hex_lower_digit n = lower_char (hex_digit (nat n))"

definition to_hex :: "int list \<Rightarrow> string" where
  "to_hex bs = concat (map (\<lambda>b. [hex_lower_digit (b div 16), hex_lower_digit (b mod 16)]) bs)"

definition H264_SUBPROFILE_PATTERNS :: "(string \<times> int \<times> int \<times> int) list" where
  "H264_SUBPROFILE_PATTERNS =
     [(''constrained-baseline'', 0x42, 0x4F, 0x40), (''constrained-baseline'', 0x4D, 0x8F, 0x80),
      (''constrained-baseline'', 0x58, 0xCF, 0xC0), (''baseline'', 0x42, 0x4F, 0x00),
      (''baseline'', 0x58, 0xCF, 0x80), (''main'', 0x4D, 0xAF, 0x00), (''extended'', 0x58, 0xCF, 0x00),
      (''high'', 0x64, 0xFF, 0x00), (''high-10'', 0x6E, 0xFF, 0x00), (''high-4:2:2'', 0x7A, 0xFF, 0x00),
      (''high-4:4:4'', 0xF4, 0xFF, 0x00), (''high-10-intra'', 0x6E, 0xFF, 0x10),
      (''high-4:2:2-intra'', 0x7A, 0xFF, 0x10), (''high-4:4:4-intra'', 0xF4, 0xFF, 0x10),
      (''cavlc-4:4:4-intra'', 0x2C, 0xFF, 0x10)]"

definition subprofile_of :: "int \<Rightarrow> int \<Rightarrow> string option" where
  "subprofile_of profile_idc profile_iop =
     map_option fst (find (\<lambda>(name, wanted_idc, mask, val). profile_idc = wanted_idc \<and> (profile_iop AND mask) = val)
       H264_SUBPROFILE_PATTERNS)"

definition is_level_1b :: "int \<Rightarrow> int \<Rightarrow> int \<Rightarrow> bool" where
  "is_level_1b profile_idc profile_iop level_idc \<longleftrightarrow>
     (profile_idc \<in> {0x42, 0x4D, 0x58} \<and> level_idc = 11 \<and> (profile_iop AND 0x10) \<noteq> 0) \<or>
     (profile_idc \<notin> {0x42, 0x4D, 0x58} \<and> level_idc = 9)"

definition h264_profile_level :: "string \<Rightarrow> (string \<times> int) option" where
  "h264_profile_level profile_level_id =
     (case three_bytes profile_level_id of
        None \<Rightarrow> None
      | Some (profile_idc, profile_iop, level_idc) \<Rightarrow>
          (case subprofile_of profile_idc profile_iop of
             None \<Rightarrow> None
           | Some subprofile \<Rightarrow>
               Some (subprofile, if is_level_1b profile_idc profile_iop level_idc then 105 else level_idc * 10)))"

text \<open>The answer's level in the offer's sub-profile: the three bytes.\<close>

definition level_bytes :: "int \<times> int \<times> int \<Rightarrow> int \<Rightarrow> int \<Rightarrow> int \<times> int \<times> int" where
  "level_bytes offered answer_level_idc answered_level =
     (case offered of (profile_idc, profile_iop, _) \<Rightarrow>
        let is_level_1b = (answered_level = 105) in
        if profile_idc \<in> {0x42, 0x4D, 0x58} then
          (if is_level_1b then (profile_idc, profile_iop OR 0x10, 11)
           else if answer_level_idc = 11 then (profile_idc, profile_iop AND NOT 0x10, 11)
           else (profile_idc, profile_iop, answer_level_idc))
        else (profile_idc, profile_iop, if is_level_1b then 9 else answer_level_idc))"

definition h264_answer_level_for_offer :: "string \<Rightarrow> string \<Rightarrow> string option" where
  "h264_answer_level_for_offer offered_id answered_id =
     (case (h264_profile_level (lower offered_id), h264_profile_level (lower answered_id)) of
        (Some (offered_name, _), Some (answered_name, answered_level)) \<Rightarrow>
          if offered_name \<noteq> answered_name then None
          else (case (three_bytes offered_id, three_bytes answered_id) of
            (Some offered, Some (_, _, answer_level_idc)) \<Rightarrow>
              (case level_bytes offered answer_level_idc answered_level of
                 (a, b, c) \<Rightarrow> Some (to_hex [a, b, c]))
          | _ \<Rightarrow> None)
      | _ \<Rightarrow> None)"

definition h264_subprofiles_compatible :: "video_format \<Rightarrow> video_format \<Rightarrow> bool" where
  "h264_subprofiles_compatible a b \<longleftrightarrow>
     (case (h264_profile_level (lower (vf_profile_level_id a)), h264_profile_level (lower (vf_profile_level_id b))) of
        (Some (x, _), Some (y, _)) \<Rightarrow> x = y
      | _ \<Rightarrow> False)"

definition h264_answer_compatible :: "video_format \<Rightarrow> video_format \<Rightarrow> bool" where
  "h264_answer_compatible offered answered \<longleftrightarrow>
     (case (h264_profile_level (lower (vf_profile_level_id offered)),
            h264_profile_level (lower (vf_profile_level_id answered))) of
        (Some (x, offered_level), Some (y, answered_level)) \<Rightarrow>
          x = y \<and> ((vf_level_asymmetry offered \<and> vf_level_asymmetry answered) \<or> answered_level \<le> offered_level)
      | _ \<Rightarrow> False)"

section \<open>Receiver limits\<close>

definition H264_INTEGER_RECEIVER_LIMITS :: "string list" where
  "H264_INTEGER_RECEIVER_LIMITS =
     [''max-mbps'', ''max-smbps'', ''max-fs'', ''max-cpb'', ''max-dpb'', ''max-br'']"

record level_limits =
  ll_max_mbps :: int
  ll_max_fs :: int
  ll_max_dpb_mbs :: int
  ll_max_br :: int
  ll_max_cpb :: int

definition mk_level :: "int \<Rightarrow> int \<Rightarrow> int \<Rightarrow> int \<Rightarrow> int \<Rightarrow> level_limits" where
  "mk_level mbps fs dpb br cpb =
     \<lparr> ll_max_mbps = mbps, ll_max_fs = fs, ll_max_dpb_mbs = dpb, ll_max_br = br, ll_max_cpb = cpb \<rparr>"

definition H264_LEVEL_LIMITS :: "(int \<times> level_limits) list" where
  "H264_LEVEL_LIMITS =
     [(100, mk_level 1485 99 396 64 175),
      (105, mk_level 1485 99 396 128 350),
      (110, mk_level 3000 396 900 192 500),
      (120, mk_level 6000 396 2376 384 1000),
      (130, mk_level 11880 396 2376 768 2000),
      (200, mk_level 11880 396 2376 2000 2000),
      (210, mk_level 19800 792 4752 4000 4000),
      (220, mk_level 20250 1620 8100 4000 4000),
      (300, mk_level 40500 1620 8100 10000 10000),
      (310, mk_level 108000 3600 18000 14000 14000),
      (320, mk_level 216000 5120 20480 20000 20000),
      (400, mk_level 245760 8192 32768 20000 25000),
      (410, mk_level 245760 8192 32768 50000 62500),
      (420, mk_level 522240 8704 34816 50000 62500),
      (500, mk_level 589824 22080 110400 135000 135000),
      (510, mk_level 983040 36864 184320 240000 240000),
      (520, mk_level 2073600 36864 184320 240000 240000)]"

definition h264_br_cpb_scale :: "string \<Rightarrow> rat" where
  "h264_br_cpb_scale subprofile =
     (if subprofile = ''high'' then 5 / 4
      else if subprofile \<in> {''high-10'', ''high-10-intra''} then 3
      else if subprofile \<in> {''high-4:2:2'', ''high-4:4:4'', ''high-4:2:2-intra'', ''high-4:4:4-intra'',
                             ''cavlc-4:4:4-intra''} then 4
      else 1)"

definition h264_receiver_profile_level :: "video_format \<Rightarrow> (string \<times> int) option" where
  "h264_receiver_profile_level f =
     (case h264_profile_level (lower (vf_profile_level_id f)) of
        None \<Rightarrow> None
      | Some dflt \<Rightarrow>
          let raw = (case assoc (fmtp_parameters (vf_fmtp f)) ''max-recv-level'' of Some r \<Rightarrow> r | None \<Rightarrow> []) in
          if raw = [] then Some dflt
          else (case h264_profile_level (take 2 (vf_profile_level_id f) @ lower raw) of
             None \<Rightarrow> None
           | Some parsed \<Rightarrow>
               if fst parsed \<noteq> fst dflt \<or> snd parsed \<le> snd dflt then None else Some parsed))"

type_synonym limits = "(string \<times> rat) list"

definition limit :: "limits \<Rightarrow> string \<Rightarrow> rat" where
  "limit ls name = (case assoc ls name of Some v \<Rightarrow> v | None \<Rightarrow> 0)"

definition default_limits :: "string \<Rightarrow> level_limits \<Rightarrow> limits" where
  "default_limits subprofile level =
     (let scale = h264_br_cpb_scale subprofile in
      [(''max-mbps'', of_int (ll_max_mbps level)), (''max-smbps'', of_int (ll_max_mbps level)),
       (''max-fs'', of_int (ll_max_fs level)), (''max-cpb'', of_int (ll_max_cpb level) * scale),
       (''max-dpb'', of_int (ll_max_dpb_mbs level * 3) / 8), (''max-br'', of_int (ll_max_br level) * scale)])"

text \<open>One explicit parameter: \<open>None\<close> for a malformed claim.\<close>

definition explicit_limit ::
  "limits \<Rightarrow> (string \<times> string) list \<Rightarrow> limits \<times> string list \<Rightarrow> string \<Rightarrow> unit + limits \<times> string list" where
  "explicit_limit defaults parameters acc name =
     (case assoc parameters name of
        None \<Rightarrow> Inr acc
      | Some raw \<Rightarrow>
          (case py_int raw of
             None \<Rightarrow> Inl ()
           | Some v \<Rightarrow>
               if v \<le> 0 then Inl ()
               else
               let minimum = (if name = ''max-smbps'' then limit (fst acc) ''max-mbps'' else limit defaults name)
               in if of_int v < minimum then Inl ()
                  else Inr (md_set (fst acc) name (of_int v), name # snd acc)))"

definition h264_receiver_limits :: "video_format \<Rightarrow> limits option" where
  "h264_receiver_limits f =
     (case h264_receiver_profile_level f of
        None \<Rightarrow> None
      | Some (subprofile, level_value) \<Rightarrow>
          (case assoc H264_LEVEL_LIMITS level_value of
             None \<Rightarrow> None
           | Some level \<Rightarrow>
               let defaults = default_limits subprofile level in
               (case foldE (explicit_limit defaults (fmtp_parameters (vf_fmtp f))) (defaults, [])
                       H264_INTEGER_RECEIVER_LIMITS of
                  Inl _ \<Rightarrow> None
                | Inr (limits, explicit) \<Rightarrow>
                    let l1 = (if ''max-smbps'' \<in> set explicit then limits
                              else md_set limits ''max-smbps'' (limit limits ''max-mbps''))
                    in Some (if ''max-br'' \<in> set explicit \<and> ''max-cpb'' \<notin> set explicit
                             then md_set l1 ''max-cpb''
                               (limit defaults ''max-cpb'' * limit l1 ''max-br'' / limit defaults ''max-br'')
                             else l1))))"

definition h264_stream_fits :: "video_format \<Rightarrow> video_format \<Rightarrow> bool" where
  "h264_stream_fits source destination \<longleftrightarrow>
     (case (h264_receiver_profile_level source, h264_receiver_profile_level destination) of
        (Some (x, source_level), Some (y, destination_level)) \<Rightarrow>
          x = y \<and> source_level \<le> destination_level \<and>
          (case (h264_receiver_limits source, h264_receiver_limits destination) of
             (Some source_limits, Some destination_limits) \<Rightarrow>
               list_all (\<lambda>(name, v). v \<le> limit destination_limits name) source_limits
           | _ \<Rightarrow> False)
      | _ \<Rightarrow> False)"

section \<open>Compatibility of two contracts\<close>

definition video_formats_passthrough_compatible :: "video_format option \<Rightarrow> video_format option \<Rightarrow> bool" where
  "video_formats_passthrough_compatible source destination \<longleftrightarrow>
     (case (source, destination) of
        (Some s, Some d) \<Rightarrow>
          vf_encoding s = vf_encoding d \<and> vf_clock_rate s = vf_clock_rate d \<and> vf_transport s = vf_transport d \<and>
          (if vf_encoding s = ''H264'' then vf_packetization_mode s = vf_packetization_mode d \<and> h264_stream_fits s d
           else vf_encoding s = ''VP8'' \<or> same_fmtp s d)
      | _ \<Rightarrow> False)"

definition video_formats_renegotiation_compatible :: "video_format option \<Rightarrow> video_format option \<Rightarrow> bool" where
  "video_formats_renegotiation_compatible previous updated \<longleftrightarrow>
     (case (previous, updated) of
        (Some s, Some d) \<Rightarrow>
          vf_encoding s = vf_encoding d \<and> vf_clock_rate s = vf_clock_rate d \<and> vf_transport s = vf_transport d \<and>
          (if vf_encoding s = ''H264''
           then vf_packetization_mode s = vf_packetization_mode d \<and> h264_subprofiles_compatible s d
           else vf_encoding s = ''VP8'' \<or> same_fmtp s d)
      | _ \<Rightarrow> False)"

definition directional_video_renegotiation_compatible ::
  "video_format option \<Rightarrow> video_format option \<Rightarrow> video_format option \<Rightarrow> video_format option \<Rightarrow> exn + bool" where
  "directional_video_renegotiation_compatible previous_send previous_recv updated_send updated_recv =
     (case (previous_send, updated_send) of
        (Some ps, Some us) \<Rightarrow>
          bindE (normalize_direction (vf_direction ps)) (\<lambda>pd.
          bindE (normalize_direction (vf_direction us)) (\<lambda>ud.
            let sends = (\<lambda>d. d \<in> {''sendrecv'', ''recvonly''}); receives = (\<lambda>d. d \<in> {''sendrecv'', ''sendonly''})
            in Inr ((\<not> (sends pd \<and> sends ud) \<or> video_formats_renegotiation_compatible previous_send updated_send) \<and>
                    (\<not> (receives pd \<and> receives ud) \<or> video_formats_renegotiation_compatible previous_recv updated_recv))))
      | _ \<Rightarrow> Inr False)"

section \<open>Contracts of an answer\<close>

definition h264_stream_contract :: "video_format \<Rightarrow> video_format \<Rightarrow> video_format" where
  "h264_stream_contract receiver sender = receiver
     \<lparr> vf_sprop := vf_sprop sender,
       vf_fmtp := fmtp_without_parameters (vf_fmtp receiver)
         [''sprop-parameter-sets'', ''sprop-level-parameter-sets''] \<rparr>"

definition same_codec :: "video_format \<Rightarrow> video_format \<Rightarrow> bool" where
  "same_codec a b \<longleftrightarrow>
     vf_encoding a = vf_encoding b \<and> vf_clock_rate a = vf_clock_rate b \<and> vf_transport a = vf_transport b"

definition video_answer_contract :: "video_format \<Rightarrow> video_format \<Rightarrow> video_format option" where
  "video_answer_contract offered answered =
     (if \<not> same_codec offered answered then None
      else if vf_encoding offered = ''VP8'' then Some (offered\<lparr> vf_fmtp := vf_fmtp answered \<rparr>)
      else if vf_encoding offered \<noteq> ''H264'' then (if same_fmtp offered answered then Some offered else None)
      else if vf_packetization_mode offered \<noteq> vf_packetization_mode answered \<or> \<not> h264_answer_compatible offered answered
        then None
      else case h264_answer_level_for_offer (vf_profile_level_id offered) (vf_profile_level_id answered) of
        None \<Rightarrow> None
      | Some profile_level_id \<Rightarrow>
          let receiver = answered
            \<lparr> vf_payload_type := vf_payload_type offered, vf_profile_level_id := profile_level_id,
              vf_level_asymmetry := vf_level_asymmetry offered \<and> vf_level_asymmetry answered,
              vf_direction := vf_direction offered, vf_transport := vf_transport offered \<rparr>
          in Some (h264_stream_contract receiver answered))"

definition video_offer_answer_directional :: "video_format \<Rightarrow> video_format \<Rightarrow> video_direction option" where
  "video_offer_answer_directional offered answered =
     (if \<not> same_codec offered answered then None
      else if vf_encoding offered = ''H264'' then
        (if vf_packetization_mode offered \<noteq> vf_packetization_mode answered \<or> \<not> h264_answer_compatible offered answered
         then None
         else
         let receivers =
           (if vf_level_asymmetry offered \<and> vf_level_asymmetry answered then Some (offered, answered)
            else case h264_answer_level_for_offer (vf_profile_level_id offered) (vf_profile_level_id answered) of
              None \<Rightarrow> None
            | Some common \<Rightarrow>
                Some (offered\<lparr> vf_profile_level_id := common, vf_level_asymmetry := False \<rparr>,
                      answered\<lparr> vf_profile_level_id := common, vf_level_asymmetry := False \<rparr>))
         in map_option (\<lambda>(send_receiver, recv_receiver).
              \<lparr> vd_send = h264_stream_contract send_receiver answered,
                vd_recv = h264_stream_contract recv_receiver offered, vd_answer = Some answered \<rparr>) receivers)
      else if vf_encoding offered = ''VP8'' \<or> same_fmtp offered answered
        then Some \<lparr> vd_send = offered, vd_recv = answered, vd_answer = Some answered \<rparr>
      else None)"

section \<open>Levels are transcribed\<close>

lemma from_hex_lower: "from_hex (lower s) = from_hex s"
proof (induction s rule: from_hex.induct)
  case (2 c)
  have "hex_space (lower_char c) = hex_space c"
    by (auto simp: hex_space_def lower_char_def is_upper_def)
  then show ?case by (simp add: lower_def)
next
  case (3 c d r)
  have "hex_space (lower_char c) = hex_space c"
    by (auto simp: hex_space_def lower_char_def is_upper_def)
  with 3 show ?case
    by (simp add: lower_def hex_val_lower split: option.split)
qed (simp add: lower_def)

lemma three_bytes_lower: "three_bytes (lower s) = three_bytes s"
  by (simp add: three_bytes_def from_hex_lower)

lemma hex_val_less: "hex_val c = Some n \<Longrightarrow> n < 16"
  by (auto simp: hex_val_def is_digit_def split: if_splits)

lemma from_hex_bytes: "from_hex s = Some bs \<Longrightarrow> b \<in> set bs \<Longrightarrow> 0 \<le> b \<and> b < 256"
proof (induction s arbitrary: bs rule: from_hex.induct)
  case (3 c d r)
  then show ?case
    by (auto split: if_splits option.splits dest!: hex_val_less)
qed (auto split: if_splits)

lemma three_bytes_range:
  "three_bytes s = Some (a, b, c) \<Longrightarrow> 0 \<le> a \<and> a < 256 \<and> 0 \<le> b \<and> b < 256 \<and> 0 \<le> c \<and> c < 256"
proof -
  assume "three_bytes s = Some (a, b, c)"
  then have "from_hex s = Some [a, b, c]"
    by (auto simp: three_bytes_def split: option.splits list.splits)
  then show ?thesis
    using from_hex_bytes [of s "[a, b, c]"] by auto
qed

lemma hex_lower_digit_val: "0 \<le> n \<Longrightarrow> n < 16 \<Longrightarrow> hex_val (hex_lower_digit n) = Some (nat n)"
  by (simp add: hex_lower_digit_def hex_val_lower hex_digit_val)

lemma hex_digit_no_space: "0 \<le> n \<Longrightarrow> n < 16 \<Longrightarrow> \<not> hex_space (hex_lower_digit n)"
proof -
  assume "0 \<le> n" "n < 16"
  then have "hex_val (hex_lower_digit n) = Some (nat n)"
    by (rule hex_lower_digit_val)
  then show ?thesis
    by (auto simp: hex_val_def hex_space_def is_digit_def split: if_splits)
qed

lemma from_to_hex: "\<forall>b \<in> set bs. 0 \<le> b \<and> b < 256 \<Longrightarrow> from_hex (to_hex bs) = Some bs"
proof (induction bs)
  case (Cons b bs)
  then have "0 \<le> b div 16" "b div 16 < 16" "0 \<le> b mod 16" "b mod 16 < 16"
    by auto
  then show ?case
    using Cons by (simp add: to_hex_def hex_lower_digit_val hex_digit_no_space)
qed (simp add: to_hex_def)

lemma three_bytes_to_hex:
  "0 \<le> a \<Longrightarrow> a < 256 \<Longrightarrow> 0 \<le> b \<Longrightarrow> b < 256 \<Longrightarrow> 0 \<le> c \<Longrightarrow> c < 256 \<Longrightarrow> three_bytes (to_hex [a, b, c]) = Some (a, b, c)"
  by (simp add: three_bytes_def from_to_hex)

text \<open>The bit that tells level 1b from level 1.1 is in none of the masks of its profiles.\<close>

definition LOW_PROFILES :: "int set" where "LOW_PROFILES = {0x42, 0x4D, 0x58}"

lemma level_bit:
  "(x OR 0x10) AND 0x4F = x AND 0x4F" "(x OR 0x10) AND 0x8F = x AND 0x8F" "(x OR 0x10) AND 0xCF = x AND 0xCF"
  "(x OR 0x10) AND 0xAF = x AND 0xAF"
  "(x AND NOT 0x10) AND 0x4F = x AND 0x4F" "(x AND NOT 0x10) AND 0x8F = x AND 0x8F"
  "(x AND NOT 0x10) AND 0xCF = x AND 0xCF" "(x AND NOT 0x10) AND 0xAF = x AND 0xAF" for x :: int
  by (simp_all add: bit.conj_disj_distrib2 and.assoc)

lemma level_bit_off:
  "(x AND - 17) AND 0x4F = x AND 0x4F" "(x AND - 17) AND 0x8F = x AND 0x8F"
  "(x AND - 17) AND 0xCF = x AND 0xCF" "(x AND - 17) AND 0xAF = x AND 0xAF" for x :: int
  by (simp_all add: and.assoc)

lemma subprofile_level_bit:
  assumes "idc \<in> LOW_PROFILES"
  shows "subprofile_of idc (iop OR 0x10) = subprofile_of idc iop"
    "subprofile_of idc (iop AND NOT 0x10) = subprofile_of idc iop"
proof -
  consider "idc = 0x42" | "idc = 0x4D" | "idc = 0x58"
    using assms by (auto simp: LOW_PROFILES_def)
  then show "subprofile_of idc (iop OR 0x10) = subprofile_of idc iop"
    by cases (simp_all add: subprofile_of_def H264_SUBPROFILE_PATTERNS_def level_bit)
  from \<open>idc \<in> LOW_PROFILES\<close> consider "idc = 0x42" | "idc = 0x4D" | "idc = 0x58"
    by (auto simp: LOW_PROFILES_def)
  then show "subprofile_of idc (iop AND NOT 0x10) = subprofile_of idc iop"
    by cases (simp_all add: subprofile_of_def H264_SUBPROFILE_PATTERNS_def level_bit level_bit_off)
qed

definition low_names :: "string list" where
  "low_names = [''constrained-baseline'', ''baseline'', ''main'', ''extended'']"

lemma subprofile_names:
  assumes "subprofile_of idc iop = Some name"
  shows "idc \<in> LOW_PROFILES \<longleftrightarrow> name \<in> set low_names"
proof -
  from assms obtain p where p: "find (\<lambda>(_, expected, m, v). idc = expected \<and> iop AND m = v) H264_SUBPROFILE_PATTERNS = Some p" "fst p = name"
    by (auto simp: subprofile_of_def)
  from p(1) obtain i where "i < length H264_SUBPROFILE_PATTERNS" "p = H264_SUBPROFILE_PATTERNS ! i"
    "case p of (_, expected, m, v) \<Rightarrow> idc = expected \<and> iop AND m = v"
    by (auto simp: find_Some_iff)
  then have "p \<in> set H264_SUBPROFILE_PATTERNS" and "fst (snd p) = idc"
    by (simp_all add: nth_mem split: prod.splits)
  then obtain m v where "(name, idc, m, v) \<in> set H264_SUBPROFILE_PATTERNS"
    using p(2) by (metis prod.collapse)
  moreover have "list_all (\<lambda>(n, w, _, _). w \<in> set [0x42, 0x4D, 0x58] \<longleftrightarrow> n \<in> set low_names) H264_SUBPROFILE_PATTERNS"
    by code_simp
  ultimately show ?thesis
    by (force simp: list_all_iff LOW_PROFILES_def)
qed

lemma profile_levelD:
  assumes "h264_profile_level s = Some (name, level)"
  obtains a b c where "three_bytes s = Some (a, b, c)" "subprofile_of a b = Some name"
    "level = (if is_level_1b a b c then 105 else c * 10)"
  using assms by (auto simp: h264_profile_level_def split: option.splits prod.splits)

lemma or_byte: "0 \<le> x \<Longrightarrow> x < 256 \<Longrightarrow> 0 \<le> x OR 0x10 \<and> x OR 0x10 < 256" for x :: int
  using OR_upper [of x 8 "0x10"] by simp

lemma and_byte: "0 \<le> x \<Longrightarrow> x < 256 \<Longrightarrow> 0 \<le> x AND NOT 0x10 \<and> x AND NOT 0x10 < 256" for x :: int
  using AND_upper1 [of x "NOT 0x10"] by (simp add: AND_lower)

text \<open>The bytes of the offer with the level of the answer: the profile byte is the offer's, and so are the constraint flags,
  but for the one that makes a level 1b of a level 1.1 and the other way round.\<close>

definition in_offered_bytes :: "string \<Rightarrow> string \<Rightarrow> bool" where
  "in_offered_bytes offered contract \<longleftrightarrow>
     (case (three_bytes offered, three_bytes contract) of
        (Some (idc, iop, _), Some (idc', iop', level_idc)) \<Rightarrow>
          idc' = idc \<and> iop' AND NOT 0x10 = iop AND NOT 0x10 \<and> (iop' = iop \<or> level_idc = 11)
      | _ \<Rightarrow> False)"

lemma level_transcribed:
  assumes "h264_answer_level_for_offer offered answered = Some r"
    and "h264_profile_level (lower offered) = Some (name, offered_level)"
    and "h264_profile_level (lower answered) = Some (name', level)"
  shows "h264_profile_level r = Some (name, level) \<and> name' = name \<and> in_offered_bytes offered r"
proof -
  obtain a b c where o: "three_bytes offered = Some (a, b, c)" "subprofile_of a b = Some name"
    using profile_levelD [OF assms(2)] three_bytes_lower by metis
  obtain x y z where an: "three_bytes answered = Some (x, y, z)" "subprofile_of x y = Some name'"
    "level = (if is_level_1b x y z then 105 else z * 10)"
    using profile_levelD [OF assms(3)] three_bytes_lower by metis
  have name: "name' = name" and r: "r = (case level_bytes (a, b, c) z level of (p, q, l) \<Rightarrow> to_hex [p, q, l])"
    using assms o an by (auto simp: h264_answer_level_for_offer_def split: if_splits prod.splits)
  have same: "a \<in> LOW_PROFILES \<longleftrightarrow> x \<in> LOW_PROFILES"
    using subprofile_names [OF o(2)] subprofile_names [OF an(2)] name by simp
  note ra = three_bytes_range [OF o(1)] and rx = three_bytes_range [OF an(1)]
  have bytes: "three_bytes (to_hex [p, q, l]) = Some (p, q, l)"
    if "level_bytes (a, b, c) z level = (p, q, l)" for p q l
    using that ra rx or_byte [of b] and_byte [of b]
    by (auto simp: level_bytes_def Let_def intro!: three_bytes_to_hex split: if_splits)
  have z105: "z * 10 \<noteq> 105" by presburger
  obtain p q l where l: "level_bytes (a, b, c) z level = (p, q, l)" by (cases "level_bytes (a, b, c) z level")
  have "subprofile_of p q = Some name \<and> (if is_level_1b p q l then 105 else l * 10) = level"
  proof (cases "a \<in> LOW_PROFILES")
    case True
    then have x: "x \<in> LOW_PROFILES" using same by simp
    have lvl: "level = 105 \<longleftrightarrow> z = 11 \<and> y AND 0x10 \<noteq> 0"
      using an(3) x z105 by (auto simp: is_level_1b_def LOW_PROFILES_def)
    have lvl2: "level \<noteq> 105 \<Longrightarrow> level = z * 10"
      using an(3) by auto
    have bits: "(b OR 0x10) AND 0x10 \<noteq> 0" "(b AND NOT 0x10) AND 0x10 = 0"
      by (simp_all add: bit.conj_disj_distrib2 and.assoc or_eq_0_iff)
    show ?thesis
      using l True lvl lvl2 o(2) bits subprofile_level_bit [OF True, of b]
      by (auto simp: level_bytes_def Let_def is_level_1b_def LOW_PROFILES_def [symmetric] split: if_splits)
  next
    case False
    then have x: "x \<notin> LOW_PROFILES" using same by simp
    have "level = 105 \<longleftrightarrow> z = 9" "level \<noteq> 105 \<Longrightarrow> level = z * 10"
      using an(3) x z105 by (auto simp: is_level_1b_def LOW_PROFILES_def)
    then show ?thesis
      using l False o(2) by (auto simp: level_bytes_def Let_def is_level_1b_def LOW_PROFILES_def [symmetric] split: if_splits)
  qed
  moreover have "in_offered_bytes offered r"
  proof -
    have "p = a \<and> q AND NOT 0x10 = b AND NOT 0x10 \<and> (q = b \<or> l = 11)"
      using l by (auto simp: level_bytes_def Let_def bit.conj_disj_distrib2 and.assoc and.commute [of "NOT 16"] split: if_splits)
    then show ?thesis
      using bytes [OF l] o(1) by (simp add: in_offered_bytes_def r l)
  qed
  ultimately show ?thesis
    using bytes [OF l] name by (simp add: r l h264_profile_level_def)
qed

text \<open>C15: The H.264 contract this side answers with keeps the sub-profile of the offer and states exactly the
  level of the answer, although the two may write that sub-profile and that level with different bytes.  It is written
  in the bytes of the offer: the same profile byte and the same constraint flags, apart from the flag for level 1b at
  level 1.1.  It is refused when the level is above the offered one, unless both sides allow level asymmetry.\<close>

theorem answered_level_is_transcribed:
  assumes "video_answer_contract offered answered = Some contract"
    and "vf_encoding offered = ''H264''"
    and "h264_profile_level (lower (vf_profile_level_id offered)) = Some (name, offered_level)"
    and "h264_profile_level (lower (vf_profile_level_id answered)) = Some (name', level)"
  shows "h264_profile_level (vf_profile_level_id contract) = Some (name, level) \<and> name' = name \<and>
    in_offered_bytes (vf_profile_level_id offered) (vf_profile_level_id contract) \<and>
    vf_payload_type contract = vf_payload_type offered \<and> (level \<le> offered_level \<or> vf_level_asymmetry contract)"
proof -
  obtain r where r: "h264_answer_level_for_offer (vf_profile_level_id offered) (vf_profile_level_id answered) = Some r"
    and c: "vf_profile_level_id contract = r" "vf_payload_type contract = vf_payload_type offered"
      "vf_level_asymmetry contract = (vf_level_asymmetry offered \<and> vf_level_asymmetry answered)"
    and ok: "h264_answer_compatible offered answered"
    using assms(1, 2) by (auto simp: video_answer_contract_def h264_stream_contract_def Let_def split: if_splits option.splits)
  show ?thesis
    using level_transcribed [OF r assms(3, 4)] c ok assms(3, 4) by (auto simp: h264_answer_compatible_def)
qed

lemma answered_level_is_transcribed_witness:
  "\<exists>contract. video_answer_contract (DEFAULT_H264_FORMAT\<lparr> vf_profile_level_id := ''42c01f'' \<rparr>)
      (DEFAULT_H264_FORMAT\<lparr> vf_profile_level_id := ''4d800d'' \<rparr>) = Some contract \<and>
    vf_profile_level_id contract = ''42c00d'' \<and>
    h264_profile_level (vf_profile_level_id contract) = Some (''constrained-baseline'', 130)"
proof -
  let ?o = "DEFAULT_H264_FORMAT\<lparr> vf_profile_level_id := ''42c01f'' \<rparr>"
  let ?a = "DEFAULT_H264_FORMAT\<lparr> vf_profile_level_id := ''4d800d'' \<rparr>"
  have hex: "to_hex [0x42, 0xC0, 0x0D] = ''42c00d''"
    by (simp add: to_hex_def hex_lower_digit_def hex_digit_def lower_char_def is_upper_def char_of_def bit_Suc_0_iff)
  have tb: "three_bytes ''42c01f'' = Some (0x42, 0xC0, 0x1F)" "three_bytes ''4d800d'' = Some (0x4D, 0x80, 0x0D)"
    by code_simp+
  have pl: "h264_profile_level ''42c01f'' = Some (''constrained-baseline'', 310)"
    "h264_profile_level ''4d800d'' = Some (''constrained-baseline'', 130)"
    by code_simp+
  have lo: "lower ''42c01f'' = ''42c01f''" "lower ''4d800d'' = ''4d800d''"
    by code_simp+
  have "h264_answer_level_for_offer ''42c01f'' ''4d800d'' = Some ''42c00d''"
    by (simp add: h264_answer_level_for_offer_def lo pl tb level_bytes_def hex)
  then obtain contract where c: "video_answer_contract ?o ?a = Some contract" "vf_profile_level_id contract = ''42c00d''"
    by (simp add: video_answer_contract_def same_codec_def DEFAULT_H264_FORMAT_def h264_answer_compatible_def lo pl
        h264_stream_contract_def Let_def)
  show ?thesis
    using c answered_level_is_transcribed [OF c(1), of "''constrained-baseline''" 310 "''constrained-baseline''" 130]
    by (simp add: DEFAULT_H264_FORMAT_def lo pl)
qed

end
