(* ===== verification/Sdp_Video.thy ===== *)
theory Sdp_Video
  imports Sdp_Parse Sdp_H264
begin

text \<open>
  \<open>custom_components/voip_stack/sdp.py\<close>, fifth part: the video formats a description offers, the choice
  among them, and the send and receive contracts of a local or a remote answer.

  \<open>next(generator, None)\<close> is \<open>find\<close>; \<open>continue\<close> in the loop over the payloads is \<open>None\<close> of
  \<open>offered_video_format\<close>.  An argument that may be one format or a tuple is a list.
\<close>

section \<open>Offered formats\<close>

definition STATIC_VIDEO_RTPMAP :: "(int \<times> string) list" where
  "STATIC_VIDEO_RTPMAP = [(26, ''JPEG/90000''), (34, ''H263/90000'')]"

definition VIDEO_ENCODING_ALIASES :: "(string \<times> string) list" where
  "VIDEO_ENCODING_ALIASES =
     [(''H264'', ''H264''), (''H265'', ''H265''), (''HEVC'', ''H265''), (''VP8'', ''VP8''), (''VP9'', ''VP9''),
      (''AV1'', ''AV1''), (''JPEG'', ''JPEG''), (''MJPEG'', ''JPEG''), (''H263'', ''H263''),
      (''H263-1998'', ''H263P''), (''H263-2000'', ''H263P'')]"

definition RFC6184_DEFAULT_PROFILE_LEVEL_ID :: string where
  "RFC6184_DEFAULT_PROFILE_LEVEL_ID = ''42000a''"

definition get_or :: "('k \<times> string) list \<Rightarrow> 'k \<Rightarrow> string \<Rightarrow> string" where
  "get_or m k d = (case assoc m k of Some v \<Rightarrow> v | None \<Rightarrow> d)"

text \<open>The mapping of one payload type; empty when it has none.\<close>

definition video_mapping :: "parsed_video \<Rightarrow> int \<Rightarrow> string" where
  "video_mapping p pt =
     (let explicit = get_or (pv_rtpmap p) pt [] in
      if pt < 96 then
        (case assoc STATIC_VIDEO_RTPMAP pt of
           None \<Rightarrow> []
         | Some static \<Rightarrow> if explicit \<noteq> [] \<and> upper explicit \<noteq> upper static then [] else static)
      else explicit)"

text \<open>Encoding and clock rate of a mapping.\<close>

definition video_codec :: "string \<Rightarrow> (string \<times> int) option" where
  "video_codec mapping =
     (case split_on (CHR ''/'') (upper mapping) of
        enc # rate # _ \<Rightarrow>
          (case (assoc VIDEO_ENCODING_ALIASES enc, py_int rate) of
             (Some e, Some r) \<Rightarrow> if r = 90000 then Some (e, r) else None
           | _ \<Rightarrow> None)
      | _ \<Rightarrow> None)"

text \<open>Packetization mode and parameter sets of an H.264 payload.\<close>

definition h264_parameters :: "(string \<times> string) list \<Rightarrow> string \<Rightarrow> (int \<times> string) option" where
  "h264_parameters parameters profile =
     (let raw = get_or parameters ''packetization-mode'' ''0'' in
      case (if raw = [] then Some 0 else py_int raw) of
        None \<Rightarrow> None
      | Some mode \<Rightarrow>
          if mode \<notin> {0, 1} \<or> length profile \<noteq> 6 then None
          else if h264_profile_level profile = None then None
          else Some (mode, get_or parameters ''sprop-parameter-sets'' []))"

definition unique_first :: "'a list \<Rightarrow> 'a list" where
  "unique_first xs = rev (remdups (rev xs))"

definition pv_feedback_of :: "parsed_video \<Rightarrow> int option \<Rightarrow> string list" where
  "pv_feedback_of p key = (case assoc (pv_rtcp_feedback p) key of Some vs \<Rightarrow> vs | None \<Rightarrow> [])"

definition video_feedback :: "parsed_video \<Rightarrow> int \<Rightarrow> string list" where
  "video_feedback p pt =
     (if pv_transport p = ''RTP/AVPF''
      then filter (\<lambda>v. v \<in> set SUPPORTED_RTCP_FEEDBACK)
             (unique_first (pv_feedback_of p None @ pv_feedback_of p (Some pt)))
      else [])"

definition offered_video_format :: "parsed_video \<Rightarrow> int \<Rightarrow> video_format option" where
  "offered_video_format p pt =
     (case video_codec (video_mapping p pt) of
        None \<Rightarrow> None
      | Some (encoding, clock_rate) \<Rightarrow>
          let fmtp = get_or (pv_fmtp p) pt []; parameters = fmtp_parameters fmtp;
              profile = lower (get_or parameters ''profile-level-id'' RFC6184_DEFAULT_PROFILE_LEVEL_ID)
          in case (if encoding = ''H264'' then h264_parameters parameters profile else Some (1, [])) of
               None \<Rightarrow> None
             | Some (mode, sprop) \<Rightarrow> Some
                 \<lparr> vf_payload_type = pt, vf_profile_level_id = profile, vf_packetization_mode = mode,
                   vf_level_asymmetry = (get_or parameters ''level-asymmetry-allowed'' ''0'' = ''1''),
                   vf_direction = or_else (pv_direction p) ''sendrecv'', vf_sprop = sprop,
                   vf_encoding = encoding, vf_clock_rate = clock_rate, vf_transport = pv_transport p,
                   vf_fmtp = strip fmtp, vf_feedback = video_feedback p pt \<rparr>)"

definition offered_video_formats :: "string \<Rightarrow> exn + video_format list" where
  "offered_video_formats sdp =
     bindE (parse_video_sdp sdp) (\<lambda>r. Inr (case r of
        None \<Rightarrow> []
      | Some p \<Rightarrow> List.map_filter (offered_video_format p) (pv_payload_order p)))"

definition offered_h264_formats :: "string \<Rightarrow> exn + video_format list" where
  "offered_h264_formats sdp =
     bindE (offered_video_formats sdp) (\<lambda>fs. Inr (filter (\<lambda>f. vf_encoding f = ''H264'') fs))"

section \<open>Choosing a format\<close>

definition or_option :: "'a option \<Rightarrow> 'a option \<Rightarrow> 'a option" where
  "or_option a b = (case a of None \<Rightarrow> b | Some x \<Rightarrow> Some x)"

text \<open>A format to send when that is preferred, then one to show, then the first.\<close>

definition prefer_browser :: "('a \<Rightarrow> bool) \<Rightarrow> ('a \<Rightarrow> bool) \<Rightarrow> bool \<Rightarrow> 'a list \<Rightarrow> 'a option" where
  "prefer_browser can_send can_show prefer_send xs =
     or_option (if prefer_send then find can_send xs else None)
       (or_option (find can_show xs) (find (\<lambda>_. True) xs))"

definition accepted_by :: "string list \<Rightarrow> video_format \<Rightarrow> bool" where
  "accepted_by accepted_encodings f \<longleftrightarrow> vf_encoding f \<in> set (map upper accepted_encodings)"

definition negotiate_video :: "string \<Rightarrow> string list \<Rightarrow> bool \<Rightarrow> exn + video_format option" where
  "negotiate_video remote_sdp accepted_encodings prefer_browser_send =
     bindE (offered_video_formats remote_sdp) (\<lambda>fs. Inr
       (prefer_browser browser_video_send_supported browser_video_receive_supported prefer_browser_send
          (filter (accepted_by accepted_encodings) fs)))"

definition matching_local_video_capability :: "video_format \<Rightarrow> video_format list \<Rightarrow> video_format option" where
  "matching_local_video_capability offered local_formats =
     find (\<lambda>l. vf_encoding l = vf_encoding offered \<and> vf_clock_rate l = vf_clock_rate offered \<and>
               \<not> (vf_encoding offered = ''H264'' \<and>
                  (vf_packetization_mode l \<noteq> vf_packetization_mode offered \<or>
                   \<not> h264_subprofiles_compatible offered l))) local_formats"

section \<open>A local answer\<close>

definition project_h264_answer :: "video_format \<Rightarrow> video_format \<Rightarrow> video_direction option" where
  "project_h264_answer offered loc =
     (if vf_packetization_mode offered \<noteq> vf_packetization_mode loc \<or> \<not> h264_subprofiles_compatible offered loc
      then None
      else
      let bilateral = (vf_level_asymmetry offered \<and> vf_level_asymmetry loc) in
      case (h264_profile_level (lower (vf_profile_level_id offered)), h264_profile_level (lower (vf_profile_level_id loc))) of
        (Some (_, offered_level), Some (_, local_level)) \<Rightarrow>
          let source = (if bilateral then loc else if offered_level \<le> local_level then offered else loc) in
          (case h264_answer_level_for_offer (vf_profile_level_id offered) (vf_profile_level_id source) of
             None \<Rightarrow> None
           | Some answer_profile \<Rightarrow>
               let receiver = offered\<lparr> vf_profile_level_id := answer_profile, vf_level_asymmetry := bilateral,
                                       vf_fmtp := vf_fmtp loc \<rparr>;
                   answer = h264_stream_contract receiver loc
               in Some \<lparr> vd_send = (if bilateral then h264_stream_contract (offered\<lparr> vf_level_asymmetry := True \<rparr>) loc
                                    else h264_stream_contract receiver loc),
                         vd_recv = h264_stream_contract receiver offered, vd_answer = Some answer \<rparr>)
      | _ \<Rightarrow> None)"

definition project_local_video_answer :: "video_format \<Rightarrow> video_format \<Rightarrow> video_direction option" where
  "project_local_video_answer offered loc =
     (if vf_encoding offered = ''H264'' then project_h264_answer offered loc
      else
      let answer = loc\<lparr> vf_payload_type := vf_payload_type offered, vf_direction := vf_direction offered,
                        vf_transport := vf_transport offered, vf_feedback := vf_feedback offered \<rparr>;
          result = \<lparr> vd_send = offered, vd_recv = answer, vd_answer = Some answer \<rparr>
      in if vf_encoding offered = ''VP8'' then Some result
         else if \<not> same_fmtp offered answer then None
         else Some result)"

definition project_offered ::
  "video_format list \<Rightarrow> string list \<Rightarrow> bool \<Rightarrow> video_format \<Rightarrow> video_direction option" where
  "project_offered local_formats accepted_encodings allow_passthrough_fallback offered =
     (if \<not> accepted_by accepted_encodings offered then None
      else case or_option (matching_local_video_capability offered local_formats)
                  (if allow_passthrough_fallback then Some offered else None) of
        None \<Rightarrow> None
      | Some loc \<Rightarrow> project_local_video_answer offered loc)"

definition negotiate_video_offer_directional ::
  "string \<Rightarrow> video_format list \<Rightarrow> string list \<Rightarrow> bool \<Rightarrow> bool \<Rightarrow> exn + video_direction option" where
  "negotiate_video_offer_directional remote_sdp local_formats accepted_encodings prefer_browser_send
     allow_passthrough_fallback =
     bindE (offered_video_formats remote_sdp) (\<lambda>fs. Inr
       (prefer_browser (\<lambda>d. browser_video_send_supported (vd_send d)) (\<lambda>d. browser_video_receive_supported (vd_recv d))
          prefer_browser_send
          (List.map_filter (project_offered local_formats accepted_encodings allow_passthrough_fallback) fs)))"

definition negotiate_h264 :: "string \<Rightarrow> exn + video_format option" where
  "negotiate_h264 remote_sdp =
     bindE (offered_h264_formats remote_sdp) (\<lambda>fs. Inr (case fs of [] \<Rightarrow> None | f # _ \<Rightarrow> Some f))"

section \<open>A remote answer\<close>

definition answers_offered :: "video_format \<Rightarrow> video_format \<Rightarrow> bool" where
  "answers_offered selected candidate \<longleftrightarrow>
     same_codec candidate selected \<and>
     (if vf_encoding candidate = ''H264''
      then vf_packetization_mode candidate = vf_packetization_mode selected \<and> h264_answer_compatible candidate selected
      else vf_encoding candidate = ''VP8'' \<or> same_fmtp candidate selected)"

definition matching_offered_video_answer :: "video_format \<Rightarrow> video_format list \<Rightarrow> video_format option" where
  "matching_offered_video_answer selected offered_formats =
     find (answers_offered selected)
       (case find (\<lambda>f. vf_payload_type f = vf_payload_type selected) offered_formats of
          Some exact \<Rightarrow> [exact]
        | None \<Rightarrow> offered_formats)"

definition negotiate_video_answer :: "string \<Rightarrow> video_format list \<Rightarrow> exn + video_format option" where
  "negotiate_video_answer remote_sdp offered =
     bindE (offered_video_formats remote_sdp) (\<lambda>fs. Inr
       (find (\<lambda>s. matching_offered_video_answer s offered \<noteq> None) fs))"

definition answer_direction :: "video_format \<Rightarrow> video_format \<Rightarrow> video_direction option" where
  "answer_direction candidate selected =
     (if vf_encoding candidate \<noteq> ''H264'' then
        Some \<lparr> vd_send = selected, vd_recv = candidate\<lparr> vf_direction := vf_direction selected \<rparr>, vd_answer = None \<rparr>
      else if vf_level_asymmetry candidate \<and> vf_level_asymmetry selected then
        Some \<lparr> vd_send = h264_stream_contract (selected\<lparr> vf_level_asymmetry := True \<rparr>) candidate,
               vd_recv = h264_stream_contract
                 (candidate\<lparr> vf_direction := vf_direction selected, vf_level_asymmetry := True \<rparr>) selected,
               vd_answer = None \<rparr>
      else map_option (\<lambda>c.
        let common = c\<lparr> vf_direction := vf_direction selected \<rparr> in
        \<lparr> vd_send = h264_stream_contract (common\<lparr> vf_payload_type := vf_payload_type selected \<rparr>) candidate,
          vd_recv = h264_stream_contract common selected, vd_answer = None \<rparr>)
        (video_answer_contract candidate selected))"

definition negotiate_video_answer_directional ::
  "string \<Rightarrow> video_format list \<Rightarrow> exn + video_direction option" where
  "negotiate_video_answer_directional remote_sdp offered =
     bindE (negotiate_video_answer remote_sdp offered) (\<lambda>r. Inr (case r of
        None \<Rightarrow> None
      | Some selected \<Rightarrow>
          (case matching_offered_video_answer selected offered of
             None \<Rightarrow> None
           | Some candidate \<Rightarrow> answer_direction candidate selected)))"

end
