(* ===== verification/Sdp_Audio.thy ===== *)
theory Sdp_Audio
  imports Sdp_Format "HOL-Library.Product_Lexorder"
begin

text \<open>
  \<open>custom_components/voip_stack/sdp.py\<close>, third part: which local PCM formats an audio section of RTP
  can carry, the order in which they are offered, and how an offered format is matched with a local one.

  The generator expressions over two lists are \<open>first_some\<close> over the list of pairs in the order of the
  source; tuples used as keys are compared in the lexicographic order of the library.
\<close>

section \<open>First match\<close>

fun first_someE :: "('a \<Rightarrow> 'e + 'b option) \<Rightarrow> 'a list \<Rightarrow> 'e + 'b option" where
  "first_someE f [] = Inr None"
| "first_someE f (x # xs) =
     bindE (f x) (\<lambda>r. case r of None \<Rightarrow> first_someE f xs | Some y \<Rightarrow> Inr (Some y))"

lemma first_someE_SomeD: "first_someE f xs = Inr (Some y) \<Longrightarrow> \<exists>x \<in> set xs. f x = Inr (Some y)"
  by (induction xs) (auto simp: bindE_eq_Inr split: option.splits)

lemma first_someE_None: "first_someE f xs = Inr None \<Longrightarrow> x \<in> set xs \<Longrightarrow> f x = Inr None"
  by (induction xs) (auto simp: bindE_eq_Inr split: option.splits)

lemma first_someE_total: "\<forall>x \<in> set xs. \<exists>r. f x = Inr r \<Longrightarrow> \<exists>r. first_someE f xs = Inr r"
  by (induction xs) (auto simp: bindE_def split: option.splits)

section \<open>Formats an audio section can carry\<close>

definition MAX_RTP_OFFER_FORMATS :: nat where "MAX_RTP_OFFER_FORMATS = 11"

type_synonym fmt_key = "int \<times> pcm_format \<times> int \<times> int"

definition format_key :: "audio_format \<Rightarrow> fmt_key" where
  "format_key f =
     (af_rate f, if af_pcm f = S24LE_IN_S32 then S24LE else af_pcm f, af_channels f, af_frame_ms f)"

definition PREFERRED_RTP_AUDIO_KEYS :: "(fmt_key \<times> int) list" where
  "PREFERRED_RTP_AUDIO_KEYS =
     [((48000, S16LE, 1, 10), 0), ((32000, S16LE, 1, 16), 1), ((32000, S16LE, 1, 10), 2),
      ((24000, S16LE, 1, 20), 3), ((16000, S16LE, 1, 16), 4), ((16000, S16LE, 1, 10), 5),
      ((16000, S16LE, 1, 20), 6), ((16000, S16LE, 1, 32), 7), ((8000, S16LE, 1, 20), 8)]"

definition audio_format_to_rtp :: "audio_format \<Rightarrow> int \<Rightarrow> exn + rtp_format" where
  "audio_format_to_rtp f payload_type =
     (if \<not> (96 \<le> payload_type \<and> payload_type \<le> 127)
      then Inl (SdpError ''phase-1 PCM uses dynamic RTP payload types 96-127'')
      else if af_channels f \<noteq> 1 then Inl (SdpError ''phase-1 ESP RTP PCM is mono only'')
      else if \<not> fits_udp_payload f UDP_SAFE_PAYLOAD_BYTES
        then Inl (SdpError ''RTP PCM frame too large for voip-pcm/1'')
      else case af_pcm f of
        S16LE \<Rightarrow> Inr (mk_rtp_format payload_type ''L16'' (af_rate f) (af_channels f) (af_frame_ms f))
      | S24LE \<Rightarrow> Inr (mk_rtp_format payload_type ''L24'' (af_rate f) (af_channels f) (af_frame_ms f))
      | S24LE_IN_S32 \<Rightarrow> Inr (mk_rtp_format payload_type ''L24'' (af_rate f) (af_channels f) (af_frame_ms f))
      | S32LE \<Rightarrow> Inl (SdpError ''no phase-1 RTP PCM mapping''))"

definition is_rtp_pcm_mappable :: "audio_format \<Rightarrow> bool" where
  "is_rtp_pcm_mappable f \<longleftrightarrow>
     af_channels f = 1 \<and> fits_udp_payload f UDP_SAFE_PAYLOAD_BYTES \<and> af_pcm f \<in> {S16LE, S24LE, S24LE_IN_S32}"

definition rtp_mappable_formats :: "audio_format list \<Rightarrow> audio_format list" where
  "rtp_mappable_formats formats = filter is_rtp_pcm_mappable formats"

fun pcm_rank :: "pcm_format \<Rightarrow> int" where
  "pcm_rank S16LE = 0"
| "pcm_rank S24LE = 1"
| "pcm_rank S24LE_IN_S32 = 2"
| "pcm_rank S32LE = 3"

definition frame_rank :: "int \<Rightarrow> int" where
  "frame_rank ms = (case assoc [(16, 0), (10, 1), (20, 2), (32, 3)] ms of Some r \<Rightarrow> r | None \<Rightarrow> 9)"

definition rtp_offer_rank :: "audio_format \<Rightarrow> int \<times> int \<times> int" where
  "rtp_offer_rank f =
     (case assoc PREFERRED_RTP_AUDIO_KEYS (format_key f) of
        Some r \<Rightarrow> (0, r, 0)
      | None \<Rightarrow> (1 + pcm_rank (af_pcm f), - af_rate f, frame_rank (af_frame_ms f)))"

fun dedupe :: "fmt_key list \<Rightarrow> audio_format list \<Rightarrow> audio_format list" where
  "dedupe seen [] = []"
| "dedupe seen (f # fs) =
     (if format_key f \<in> set seen then dedupe seen fs else f # dedupe (format_key f # seen) fs)"

definition dedupe_formats :: "audio_format list \<Rightarrow> audio_format list" where
  "dedupe_formats formats = dedupe [] formats"

definition rtp_offer_formats :: "audio_format list \<Rightarrow> audio_format list" where
  "rtp_offer_formats formats =
     (let ranked = sort_key rtp_offer_rank (dedupe_formats (rtp_mappable_formats formats)) in
      case ranked of
        [] \<Rightarrow> []
      | f # _ \<Rightarrow> take MAX_RTP_OFFER_FORMATS (filter (\<lambda>g. af_frame_ms g = af_frame_ms f) ranked))"

definition bidirectional_formats :: "audio_format list \<Rightarrow> audio_format list \<Rightarrow> audio_format list" where
  "bidirectional_formats send_formats recv_formats =
     dedupe_formats (filter (\<lambda>f. format_key f \<in> set (map format_key recv_formats)) send_formats)"

definition formats_for_local_direction ::
  "audio_format list \<Rightarrow> audio_format list \<Rightarrow> string \<Rightarrow> exn + audio_format list" where
  "formats_for_local_direction send_formats recv_formats direction =
     bindE (normalize_direction direction) (\<lambda>d. Inr
       (if d = ''sendonly'' then dedupe_formats send_formats
        else if d = ''recvonly'' then dedupe_formats recv_formats
        else bidirectional_formats send_formats recv_formats))"

definition common_codec_offer_formats :: "audio_format list \<Rightarrow> rtp_format list" where
  "common_codec_offer_formats formats =
     (if \<lparr> af_rate = 48000, af_pcm = S16LE, af_channels = 2, af_frame_ms = 20 \<rparr> \<in> set formats
      then [mk_rtp_format 98 ''OPUS'' 48000 2 20] else []) @
     (if \<lparr> af_rate = 8000, af_pcm = S16LE, af_channels = 1, af_frame_ms = 20 \<rparr> \<in> set formats
      then [mk_rtp_format 8 ''PCMA'' 8000 1 20, mk_rtp_format 0 ''PCMU'' 8000 1 20] else [])"

section \<open>One offered and one local format\<close>

text \<open>The packet times the offer leaves to the local format.\<close>

definition frame_ms_acceptable :: "rtp_format \<Rightarrow> int \<Rightarrow> bool" where
  "frame_ms_acceptable offered ms \<longleftrightarrow>
     (let lo = rf_min_frame_ms offered; hi = rf_max_frame_ms offered; wanted = rf_frame_ms offered in
      (if wanted \<noteq> 0 \<and> wanted \<noteq> ms
       then \<not> (lo \<noteq> 0 \<and> ms < lo) \<and> \<not> (hi \<noteq> 0 \<and> hi < ms) \<and> \<not> (lo = 0 \<and> hi = 0) \<and>
            \<not> (lo \<noteq> 0 \<and> hi = 0 \<and> wanted < ms) \<and> \<not> (hi \<noteq> 0 \<and> lo = 0 \<and> ms < wanted)
       else True) \<and>
      \<not> (wanted = 0 \<and> lo \<noteq> 0 \<and> ms < lo) \<and> \<not> (wanted = 0 \<and> hi \<noteq> 0 \<and> hi < ms))"

definition rtp_compatible_audio :: "rtp_format \<Rightarrow> audio_format \<Rightarrow> exn + rtp_format option" where
  "rtp_compatible_audio offered loc =
     (if \<not> frame_ms_acceptable offered (af_frame_ms loc) then Inr None
      else if rf_encoding offered = ''OPUS'' then Inr
        (if af_pcm loc = S16LE \<and> af_rate loc = 48000 \<and> af_channels loc = rf_channels offered \<and> af_frame_ms loc = 20
         then Some (mk_rtp_format (rf_payload_type offered) ''OPUS'' 48000 (rf_channels offered) (af_frame_ms loc))
         else None)
      else if \<not> is_rtp_pcm_mappable loc then Inr None
      else if rf_encoding offered \<in> {''PCMA'', ''PCMU''} then Inr
        (if af_pcm loc = S16LE \<and> af_rate loc = rf_rate offered \<and> af_channels loc = rf_channels offered
         then Some (mk_rtp_format (rf_payload_type offered) (rf_encoding offered) (rf_rate offered) (rf_channels offered)
                      (af_frame_ms loc))
         else None)
      else bindE (audio_format_to_rtp loc (rf_payload_type offered)) (\<lambda>wanted. Inr
        (if rf_encoding offered = rf_encoding wanted \<and> rf_rate offered = rf_rate wanted \<and>
            rf_channels offered = rf_channels wanted
         then Some wanted else None)))"

section \<open>Matching lists of formats\<close>

definition best_offered_match :: "rtp_format list \<Rightarrow> audio_format list \<Rightarrow> exn + rtp_format option" where
  "best_offered_match offered local_preferred =
     first_someE (\<lambda>loc. first_someE (\<lambda>o_fmt. rtp_compatible_audio o_fmt loc) offered) local_preferred"

definition first_offered_match :: "rtp_format list \<Rightarrow> audio_format list \<Rightarrow> exn + rtp_format option" where
  "first_offered_match offered local_preferred =
     first_someE (\<lambda>o_fmt. first_someE (rtp_compatible_audio o_fmt) local_preferred) offered"

definition rtp_contract_key :: "rtp_format \<Rightarrow> int \<times> string \<times> int \<times> int \<times> int" where
  "rtp_contract_key f = (rf_payload_type f, rf_encoding f, rf_rate f, rf_channels f, rf_frame_ms f)"

definition bidirectional_pair ::
  "audio_format list \<Rightarrow> rtp_format \<times> audio_format \<Rightarrow> exn + pcm_direction option" where
  "bidirectional_pair local_recv_preferred pair =
     bindE (rtp_compatible_audio (fst pair) (snd pair)) (\<lambda>r. case r of
        None \<Rightarrow> Inr None
      | Some send \<Rightarrow>
          first_someE (\<lambda>local_recv.
            bindE (rtp_compatible_audio (fst pair) local_recv) (\<lambda>q. Inr (case q of
               None \<Rightarrow> None
             | Some recv \<Rightarrow>
                 if rtp_contract_key recv = rtp_contract_key send then Some \<lparr> pd_send = send, pd_recv = recv \<rparr>
                 else None))) local_recv_preferred)"

definition bidirectional_offered_match ::
  "rtp_format list \<Rightarrow> audio_format list \<Rightarrow> audio_format list \<Rightarrow> bool \<Rightarrow> exn + pcm_direction option" where
  "bidirectional_offered_match offered local_send local_recv prefer_offer_order =
     first_someE (bidirectional_pair local_recv)
       (if prefer_offer_order then List.product offered local_send
        else map prod.swap (List.product local_send offered))"

definition format_direction_for_remote :: "string \<Rightarrow> string \<Rightarrow> string \<Rightarrow> exn + string" where
  "format_direction_for_remote remote_direction effective_local_direction inactive_default =
     bindE (normalize_direction effective_local_direction) (\<lambda>eff.
       if eff \<noteq> ''inactive'' then Inr eff
       else bindE (normalize_direction remote_direction) (\<lambda>remote.
         if remote = ''sendonly'' then Inr ''recvonly''
         else if remote = ''recvonly'' then Inr ''sendonly''
         else bindE (normalize_direction inactive_default) (\<lambda>d. Inr
           (if d \<noteq> ''inactive'' then d else ''sendrecv''))))"

definition both_ways :: "rtp_format option \<Rightarrow> pcm_direction option" where
  "both_ways selected = map_option (\<lambda>f. \<lparr> pd_send = f, pd_recv = f \<rparr>) selected"

definition match_in_order :: "bool \<Rightarrow> rtp_format list \<Rightarrow> audio_format list \<Rightarrow> exn + rtp_format option" where
  "match_in_order prefer_offer_order offered loc =
     (if prefer_offer_order then first_offered_match offered loc else best_offered_match offered loc)"

definition negotiate_for_local_direction ::
  "rtp_format list \<Rightarrow> audio_format list \<Rightarrow> audio_format list \<Rightarrow> string \<Rightarrow> bool \<Rightarrow> exn + pcm_direction option" where
  "negotiate_for_local_direction offered local_send local_recv direction prefer_offer_order =
     bindE (normalize_direction direction) (\<lambda>d.
       if d = ''sendonly'' then bindE (match_in_order prefer_offer_order offered local_send) (\<lambda>s. Inr (both_ways s))
       else if d = ''recvonly'' then bindE (match_in_order prefer_offer_order offered local_recv) (\<lambda>s. Inr (both_ways s))
       else bidirectional_offered_match offered local_send local_recv prefer_offer_order)"

definition same_rtp_audio_codec :: "rtp_format \<Rightarrow> rtp_format \<Rightarrow> bool" where
  "same_rtp_audio_codec a b \<longleftrightarrow>
     rf_encoding a = rf_encoding b \<and> rf_rate a = rf_rate b \<and> rf_channels a = rf_channels b"

definition with_payload_of :: "rtp_format \<Rightarrow> rtp_format \<Rightarrow> rtp_format" where
  "with_payload_of f other = f\<lparr> rf_payload_type := rf_payload_type other, rf_frame_ms := rf_frame_ms other \<rparr>"

definition answer_pair ::
  "audio_format list \<Rightarrow> audio_format list \<Rightarrow> string \<Rightarrow> rtp_format \<times> rtp_format \<Rightarrow> exn + pcm_direction option" where
  "answer_pair local_send local_recv direction pair =
     (let (answered, offered) = pair in
      if \<not> same_rtp_audio_codec answered offered then Inr None
      else if direction = ''sendonly'' then
        bindE (first_someE (rtp_compatible_audio answered) local_send) (\<lambda>r. Inr (map_option (\<lambda>send.
          \<lparr> pd_send = send, pd_recv = with_payload_of send offered \<rparr>) r))
      else if direction = ''recvonly'' then
        bindE (first_someE (rtp_compatible_audio offered) local_recv) (\<lambda>r. Inr (map_option (\<lambda>recv.
          \<lparr> pd_send = with_payload_of recv answered, pd_recv = recv \<rparr>) r))
      else first_someE (\<lambda>loc_send.
        bindE (rtp_compatible_audio answered loc_send) (\<lambda>r. case r of
           None \<Rightarrow> Inr None
         | Some send \<Rightarrow>
             first_someE (\<lambda>loc_recv. bindE (rtp_compatible_audio offered loc_recv) (\<lambda>q. Inr
               (map_option (\<lambda>recv. \<lparr> pd_send = send, pd_recv = recv \<rparr>) q))) local_recv)) local_send)"

definition negotiate_answer_with_offer_payloads ::
  "rtp_format list \<Rightarrow> rtp_format list \<Rightarrow> audio_format list \<Rightarrow> audio_format list \<Rightarrow> string \<Rightarrow> exn + pcm_direction option" where
  "negotiate_answer_with_offer_payloads answered offered local_send local_recv direction =
     bindE (normalize_direction direction) (\<lambda>d.
       first_someE (answer_pair local_send local_recv d) (List.product answered offered))"

end
