(* ===== verification/Sdp_Build.thy ===== *)
theory Sdp_Build
  imports Sdp_Audio Sdp_Parse Sdp_H264
begin

text \<open>
  \<open>custom_components/voip_stack/sdp.py\<close>, sixth part: the audio and telephone-event formats a
  description offers, their negotiation, and the offers and answers this side writes.

  A frozen set of event codes is a list whose order and repetitions do not matter.  An optional keyword
  argument is an option; a description given as \<open>None\<close> or empty is the empty text.
\<close>

section \<open>Offered audio formats\<close>

definition offered_audio_mapping :: "parsed_audio \<Rightarrow> int \<Rightarrow> rtp_mapping option" where
  "offered_audio_mapping parsed payload_type =
     (let explicit = assoc (pa_rtpmap parsed) payload_type in
      if payload_type < 96 then
        (case assoc STATIC_RTPMAP payload_type of
           None \<Rightarrow> None
         | Some static \<Rightarrow> if explicit \<noteq> None \<and> explicit \<noteq> Some static then None else Some static)
      else explicit)"

definition pcm_format_of :: "parsed_audio \<Rightarrow> int \<Rightarrow> rtp_format option" where
  "pcm_format_of parsed pt =
     (case offered_audio_mapping parsed pt of
        None \<Rightarrow> None
      | Some (encoding, rate, channels) \<Rightarrow>
          if encoding \<notin> {''L16'', ''L24'', ''PCMA'', ''PCMU'', ''OPUS''} then None
          else Some (mk_rtp_format pt encoding rate channels (pa_ptime parsed)
                 \<lparr> rf_min_frame_ms := pa_minptime parsed, rf_max_frame_ms := pa_maxptime parsed \<rparr>))"

definition pcm_formats_of :: "parsed_audio \<Rightarrow> rtp_format list" where
  "pcm_formats_of parsed = List.map_filter (pcm_format_of parsed) (pa_payload_order parsed)"

definition offered_pcm_formats :: "string \<Rightarrow> exn + rtp_format list" where
  "offered_pcm_formats sdp = bindE (parse_sdp sdp) (\<lambda>parsed. Inr (pcm_formats_of parsed))"

definition media_description :: "parsed_audio \<Rightarrow> int \<Rightarrow> string" where
  "media_description parsed pt =
     (case offered_audio_mapping parsed pt of
        None \<Rightarrow> ''pt='' @ dec_int pt
      | Some (encoding, rate, channels) \<Rightarrow>
          ''pt='' @ dec_int pt @ '':'' @ encoding @ ''/'' @ dec_int rate
          @ (if channels \<noteq> 1 then ''/'' @ dec_int channels else []))"

definition offered_media_descriptions :: "string \<Rightarrow> exn + string list" where
  "offered_media_descriptions sdp =
     bindE (parse_sdp sdp) (\<lambda>parsed. Inr
       (map (media_description parsed) (pa_payload_order parsed) @
        (if pa_ptime parsed \<noteq> 0 then [''ptime='' @ dec_int (pa_ptime parsed)] else [])))"

section \<open>Telephone events\<close>

text \<open>One item of an event list: \<open>item.strip().split("-", 1)\<close>; \<open>None\<close> for an item that makes the list
  unusable.\<close>

definition event_range :: "string \<Rightarrow> int list option" where
  "event_range item =
     (let t = strip item;
          first = before (CHR ''-'') t;
          last = (if contains (CHR ''-'') t then after (CHR ''-'') t else t)
      in case (py_int first, py_int last) of
           (Some a, Some b) \<Rightarrow> if 0 \<le> a \<and> a \<le> b \<and> b \<le> 255 then Some [a..b] else None
         | _ \<Rightarrow> None)"

definition dtmf_events_from_fmtp :: "string \<Rightarrow> int list" where
  "dtmf_events_from_fmtp v =
     (if strip v = [] then [0..15]
      else
      let ranges = map event_range (split_on (CHR '','') v)
      in if None \<in> set ranges then [] else concat (map the ranges))"

definition render_range :: "int \<Rightarrow> int \<Rightarrow> string" where
  "render_range start previous =
     (if start = previous then dec_int start else dec_int start @ ''-'' @ dec_int previous)"

text \<open>The loop over the sorted codes, with \<open>start\<close> and \<open>previous\<close>.\<close>

fun group_ranges :: "int \<Rightarrow> int \<Rightarrow> int list \<Rightarrow> string list" where
  "group_ranges start previous [] = [render_range start previous]"
| "group_ranges start previous (v # vs) =
     (if v = previous + 1 then group_ranges start v vs
      else render_range start previous # group_ranges v v vs)"

definition format_dtmf_events :: "int list \<Rightarrow> string" where
  "format_dtmf_events events =
     (case sort (remdups (filter (\<lambda>e. 0 \<le> e \<and> e \<le> 255) events)) of
        [] \<Rightarrow> []
      | v # vs \<Rightarrow> join '','' (group_ranges v v vs))"

definition dtmf_format_of :: "parsed_audio \<Rightarrow> int \<Rightarrow> dtmf_format option" where
  "dtmf_format_of parsed pt =
     (case offered_audio_mapping parsed pt of
        None \<Rightarrow> None
      | Some (encoding, rate, _) \<Rightarrow>
          if encoding = ''TELEPHONE-EVENT'' then
            Some \<lparr> df_payload_type = pt, df_rate = rate,
                   df_events = dtmf_events_from_fmtp (case assoc (pa_fmtp parsed) pt of Some f \<Rightarrow> f | None \<Rightarrow> []) \<rparr>
          else None)"

definition offered_dtmf_formats :: "string \<Rightarrow> exn + dtmf_format list" where
  "offered_dtmf_formats sdp =
     bindE (parse_sdp sdp) (\<lambda>parsed. Inr (List.map_filter (dtmf_format_of parsed) (pa_payload_order parsed)))"

definition dtmf_pair :: "dtmf_format \<times> dtmf_format \<Rightarrow> dtmf_format option" where
  "dtmf_pair pair =
     (let (answered, offered) = pair; events = filter (\<lambda>e. e \<in> set (df_events offered)) (df_events answered) in
      if df_rate answered = df_rate offered \<and> events \<noteq> []
      then Some \<lparr> df_payload_type = df_payload_type offered, df_rate = df_rate offered, df_events = events \<rparr>
      else None)"

definition negotiate_dtmf_answer :: "string \<Rightarrow> string \<Rightarrow> exn + dtmf_format option" where
  "negotiate_dtmf_answer remote_sdp local_offer_sdp =
     bindE (offered_dtmf_formats remote_sdp) (\<lambda>answered.
     bindE (offered_dtmf_formats local_offer_sdp) (\<lambda>offered.
       first_someE (\<lambda>pair. Inr (dtmf_pair pair)) (List.product answered offered)))"

section \<open>Negotiation\<close>

definition negotiate_directional ::
  "string \<Rightarrow> audio_format list \<Rightarrow> audio_format list \<Rightarrow> exn + pcm_direction option" where
  "negotiate_directional remote_sdp local_send local_recv =
     bindE (parse_sdp remote_sdp) (\<lambda>parsed.
     bindE (local_direction_for_offer (pa_direction parsed) (pa_connection_held parsed)) (\<lambda>local_direction.
     bindE (format_direction_for_remote (pa_direction parsed) local_direction ''sendrecv'') (\<lambda>format_direction.
     bindE (offered_pcm_formats remote_sdp) (\<lambda>offered.
       negotiate_for_local_direction offered local_send local_recv format_direction False))))"

definition negotiate_answer_directional ::
  "string \<Rightarrow> audio_format list \<Rightarrow> audio_format list \<Rightarrow> string \<Rightarrow> string option \<Rightarrow> exn + pcm_direction option" where
  "negotiate_answer_directional remote_sdp local_send local_recv local_offer_direction local_offer_sdp =
     bindE (parse_sdp remote_sdp) (\<lambda>parsed.
     bindE (local_direction_for_offer (pa_direction parsed) (pa_connection_held parsed)) (\<lambda>local_direction.
     bindE (format_direction_for_remote (pa_direction parsed) local_direction local_offer_direction) (\<lambda>format_direction.
     bindE (offered_pcm_formats remote_sdp) (\<lambda>answered.
       case local_offer_sdp of
         Some offer \<Rightarrow>
           bindE (offered_pcm_formats offer) (\<lambda>offered.
             negotiate_answer_with_offer_payloads answered offered local_send local_recv format_direction)
       | None \<Rightarrow> negotiate_for_local_direction answered local_send local_recv format_direction True))))"

section \<open>Video lines\<close>

definition serialized_video_fmtp :: "video_format \<Rightarrow> string" where
  "serialized_video_fmtp f =
     (let parsed = fmtp_parameters (vf_fmtp f) in
      if vf_encoding f \<noteq> ''H264'' then join '';'' (map render_parameter parsed)
      else
      let extras = filter (\<lambda>(k, _). k \<notin> {''profile-level-id'', ''packetization-mode'', ''level-asymmetry-allowed'',
                                         ''sprop-parameter-sets''}) parsed;
          sprop = strip (or_else (vf_sprop f)
                    (case assoc parsed ''sprop-parameter-sets'' of Some s \<Rightarrow> s | None \<Rightarrow> []))
      in join '';'' (map render_parameter
           ([(''profile-level-id'', lower (vf_profile_level_id f)),
             (''packetization-mode'', dec_int (vf_packetization_mode f))] @
            (if vf_level_asymmetry f then [(''level-asymmetry-allowed'', ''1'')] else []) @
            (if sprop \<noteq> [] then [(''sprop-parameter-sets'', sprop)] else []) @ extras)))"

definition rtp_encoding :: "video_format \<Rightarrow> string" where
  "rtp_encoding f = (if vf_encoding f = ''H263P'' then ''H263-1998'' else vf_encoding f)"

definition feedback_lines :: "int \<Rightarrow> string list \<Rightarrow> string list" where
  "feedback_lines pt vs = map (\<lambda>v. ''a=rtcp-fb:'' @ dec_int pt @ '' '' @ v) vs"

text \<open>The mapping and parameter lines of one payload.\<close>

definition video_payload_lines :: "video_format \<Rightarrow> string list" where
  "video_payload_lines f =
     (let fmtp = serialized_video_fmtp f in
      (''a=rtpmap:'' @ dec_int (vf_payload_type f) @ '' '' @ rtp_encoding f @ ''/'' @ dec_int (vf_clock_rate f))
      # (if fmtp \<noteq> [] then [''a=fmtp:'' @ dec_int (vf_payload_type f) @ '' '' @ fmtp] else []))"

definition video_media_lines :: "int \<Rightarrow> video_format \<Rightarrow> string \<Rightarrow> string list" where
  "video_media_lines media_port f direction =
     [''m=video '' @ dec_int media_port @ '' '' @ vf_transport f @ '' '' @ dec_int (vf_payload_type f)] @
     video_payload_lines f @
     (if vf_transport f = ''RTP/AVPF'' then feedback_lines (vf_payload_type f) (vf_feedback f) else []) @
     [''a=rtcp:'' @ dec_int (media_port + 1), ''a='' @ direction]"

definition offer_feedback :: "video_format \<Rightarrow> string list" where
  "offer_feedback f =
     (if vf_feedback f \<noteq> [] then vf_feedback f
      else if vf_encoding f \<in> {''H264'', ''VP8''} then [''nack pli'', ''ccm fir''] else [])"

definition video_media_lines_many :: "int \<Rightarrow> video_format list \<Rightarrow> string \<Rightarrow> exn + string list" where
  "video_media_lines_many media_port formats direction =
     (case formats of
        [] \<Rightarrow> Inl (SdpError ''video offer requires at least one format'')
      | f # _ \<Rightarrow>
          if \<not> list_all (\<lambda>g. vf_transport g = vf_transport f) formats
          then Inl (SdpError ''one video media section cannot mix RTP profiles'')
          else if vf_transport f \<notin> {''RTP/AVP'', ''RTP/AVPF''} then Inl (SdpError ''unsupported video RTP profile'')
          else Inr
            ([''m=video '' @ dec_int media_port @ '' '' @ vf_transport f @ '' ''
                @ join '' '' (map (\<lambda>g. dec_int (vf_payload_type g)) formats)] @
             concat (map (\<lambda>g. video_payload_lines g @
                (if vf_transport f = ''RTP/AVPF'' then feedback_lines (vf_payload_type g) (offer_feedback g) else [])) formats) @
             [''a=rtcp:'' @ dec_int (media_port + 1), ''a='' @ direction]))"

section \<open>An offer\<close>

text \<open>\<open>while next_payload in used_payloads: next_payload += 1\<close>.\<close>

function free_payload :: "int list \<Rightarrow> int \<Rightarrow> int" where
  "free_payload used n = (if n \<in> set used then free_payload used (n + 1) else n)"
  by auto
termination
proof (relation "measure (\<lambda>(used, n). card {x \<in> set used. n \<le> x})")
  fix used :: "int list" and n :: int
  assume "n \<in> set used"
  then have "{x \<in> set used. n + 1 \<le> x} \<subset> {x \<in> set used. n \<le> x}"
    by force
  then show "((used, n + 1), used, n) \<in> measure (\<lambda>(used, n). card {x \<in> set used. n \<le> x})"
    by (simp add: psubset_card_mono)
qed simp

declare free_payload.simps [simp del]

text \<open>The loop that gives each format a free payload type: the formats, the types in use and the next one
  to try.\<close>

fun assign_payloads :: "int list \<Rightarrow> int \<Rightarrow> audio_format list \<Rightarrow> exn + rtp_format list \<times> int list \<times> int" where
  "assign_payloads used n [] = Inr ([], used, n)"
| "assign_payloads used n (f # fs) =
     (let pt = free_payload used n in
      bindE (audio_format_to_rtp f pt) (\<lambda>r.
      bindE (assign_payloads (pt # used) (pt + 1) fs) (\<lambda>(rs, used', n'). Inr (r # rs, used', n'))))"

definition rtpmap_line :: "rtp_format \<Rightarrow> string" where
  "rtpmap_line f =
     ''a=rtpmap:'' @ dec_int (rf_payload_type f) @ '' '' @ rf_encoding f @ ''/'' @ dec_int (rf_rate f) @ ''/''
     @ dec_int (rf_channels f)"

definition offer_format_lines :: "rtp_format \<Rightarrow> string list" where
  "offer_format_lines f =
     rtpmap_line f #
     (if rf_encoding f = ''OPUS''
      then [''a=fmtp:'' @ dec_int (rf_payload_type f) @ '' stereo=1;sprop-stereo=1;maxaveragebitrate=28000'']
      else [])"

definition ptime_lines :: "int \<Rightarrow> string list" where
  "ptime_lines ms = [''a=ptime:'' @ dec_int ms, ''a=maxptime:'' @ dec_int ms]"

definition session_lines :: "string \<Rightarrow> string \<Rightarrow> string list \<Rightarrow> string list" where
  "session_lines origin_ip media_ip time_lines =
     [''v=0'', ''o=- 0 0 IN IP4 '' @ origin_ip, ''s=VoIP Stack'', ''c=IN IP4 '' @ media_ip] @ time_lines"

definition audio_media_line :: "int \<Rightarrow> string list \<Rightarrow> string" where
  "audio_media_line media_port payloads = ''m=audio '' @ dec_int media_port @ '' RTP/AVP '' @ join '' '' payloads"

definition offer_audio_lines :: "int \<Rightarrow> rtp_format list \<Rightarrow> int \<Rightarrow> string \<Rightarrow> string list" where
  "offer_audio_lines media_port rtp_formats dtmf_payload_type audio_direction =
     [audio_media_line media_port
        (map (\<lambda>f. dec_int (rf_payload_type f)) rtp_formats @ [dec_int dtmf_payload_type])] @
     concat (map offer_format_lines rtp_formats) @
     [''a=rtpmap:'' @ dec_int dtmf_payload_type @ '' telephone-event/8000'',
      ''a=fmtp:'' @ dec_int dtmf_payload_type @ '' 0-15''] @
     ptime_lines (rf_frame_ms (hd rtp_formats)) @ [''a='' @ audio_direction]"

definition render_sdp :: "string list \<Rightarrow> string" where
  "render_sdp lines = join CRLF lines @ CRLF"

text \<open>The RTP formats of the offer and the payload type of the telephone events.\<close>

definition offer_rtp_formats :: "audio_format list \<Rightarrow> bool \<Rightarrow> exn + rtp_format list \<times> int" where
  "offer_rtp_formats capability_formats include_common_codecs =
     (let formats = rtp_offer_formats capability_formats;
          common = (if include_common_codecs then common_codec_offer_formats capability_formats else [])
      in if formats = [] then Inl (SdpError ''SDP offer requires at least one compatible RTP-mappable PCM format'')
         else bindE (assign_payloads (map rf_payload_type common) 96 formats) (\<lambda>(rs, used, n).
                Inr (common @ rs, free_payload used n)))"

definition build_offer_directional ::
  "string \<Rightarrow> string \<Rightarrow> int \<Rightarrow> audio_format list \<Rightarrow> audio_format list \<Rightarrow> bool \<Rightarrow> int \<Rightarrow> video_format list \<Rightarrow>
   string \<Rightarrow> string \<Rightarrow> exn + string" where
  "build_offer_directional origin_ip media_ip media_port send_formats recv_formats include_common_codecs video_port
     video_formats audio_direction video_direction =
     bindE (normalize_direction audio_direction) (\<lambda>ad.
     bindE (normalize_direction video_direction) (\<lambda>vd.
     bindE (formats_for_local_direction send_formats recv_formats ad) (\<lambda>capability_formats.
     bindE (offer_rtp_formats capability_formats include_common_codecs) (\<lambda>(rtp_formats, dtmf_payload_type).
     bindE (if video_formats \<noteq> [] \<and> 0 < video_port then video_media_lines_many video_port video_formats vd
            else Inr []) (\<lambda>video_lines. Inr
       (render_sdp (session_lines origin_ip media_ip [''t=0 0''] @
          offer_audio_lines media_port rtp_formats dtmf_payload_type ad @ video_lines)))))))"

definition build_offer :: "string \<Rightarrow> string \<Rightarrow> int \<Rightarrow> audio_format list \<Rightarrow> exn + string" where
  "build_offer origin_ip media_ip media_port formats =
     build_offer_directional origin_ip media_ip media_port formats formats False 0 [] ''sendrecv'' ''sendrecv''"

section \<open>An answer\<close>

definition rejected_media_line :: "sdp_section \<Rightarrow> string" where
  "rejected_media_line s =
     ''m='' @ se_media s @ '' 0 '' @ se_transport s @ '' ''
     @ join '' '' (if se_formats s = [] then [''0''] else se_formats s)"

definition time_lines_of :: "string list \<Rightarrow> string list" where
  "time_lines_of lines =
     filter (\<lambda>l. startswith l ''t='' \<or> startswith l ''r='')
       (takeWhile (\<lambda>l. \<not> startswith l ''m='') (map strip lines))"

definition offered_time_lines :: "string \<Rightarrow> string list" where
  "offered_time_lines sdp = (let ls = time_lines_of (sdp_lines sdp) in if ls = [] then [''t=0 0''] else ls)"

text \<open>What the sections of an answer share.\<close>

record answer_media =
  am_audio_lines :: "string list"
  am_video_port :: int
  am_video_format :: "video_format option"
  am_video_direction :: "string option"

definition answer_video_direction :: "answer_media \<Rightarrow> video_format \<Rightarrow> bool \<Rightarrow> exn + string" where
  "answer_video_direction m f held =
     bindE (case am_video_direction m of
              Some d \<Rightarrow> if d \<noteq> [] then Inr d else local_direction_for_remote (vf_direction f)
            | None \<Rightarrow> local_direction_for_remote (vf_direction f)) (\<lambda>d.
       if held then suppress_local_send d else Inr d)"

definition accepts_video :: "answer_media \<Rightarrow> sdp_section \<Rightarrow> video_format \<Rightarrow> bool" where
  "accepts_video m s f \<longleftrightarrow>
     0 < am_video_port m \<and> 0 < se_port s \<and> se_transport s \<in> {''RTP/AVP'', ''RTP/AVPF''} \<and>
     se_connection_supported s \<and> \<not> se_rtcp_mux_only s \<and> dec_int (vf_payload_type f) \<in> set (se_formats s)"

definition answer_video_section :: "answer_media \<Rightarrow> sdp_section \<Rightarrow> exn + string list" where
  "answer_video_section m s =
     (case am_video_format m of
        Some f \<Rightarrow>
          if accepts_video m s f then
            bindE (answer_video_direction m f (se_connection_held s)) (\<lambda>d. Inr (video_media_lines (am_video_port m) f d))
          else Inr [rejected_media_line s]
      | None \<Rightarrow> Inr [rejected_media_line s])"

definition is_used_audio :: "sdp_section \<Rightarrow> bool" where
  "is_used_audio s \<longleftrightarrow>
     se_media s = ''audio'' \<and> 0 < se_port s \<and> se_transport s = ''RTP/AVP'' \<and> se_connection_supported s"

text \<open>The loop over the offer's sections, with \<open>used_audio\<close> and \<open>used_video\<close>.\<close>

fun answer_sections :: "answer_media \<Rightarrow> bool \<Rightarrow> bool \<Rightarrow> sdp_section list \<Rightarrow> exn + string list \<times> bool" where
  "answer_sections m used_audio used_video [] = Inr ([], used_audio)"
| "answer_sections m used_audio used_video (s # ss) =
     (if is_used_audio s \<and> \<not> used_audio then
        bindE (answer_sections m True used_video ss) (\<lambda>(ls, a). Inr (am_audio_lines m @ ls, a))
      else if se_media s = ''video'' \<and> \<not> used_video then
        bindE (answer_video_section m s) (\<lambda>vl.
        bindE (answer_sections m used_audio True ss) (\<lambda>(ls, a). Inr (vl @ ls, a)))
      else
        bindE (answer_sections m used_audio used_video ss) (\<lambda>(ls, a). Inr (rejected_media_line s # ls, a)))"

definition answer_with_offered_media_order :: "string \<Rightarrow> string \<Rightarrow> answer_media \<Rightarrow> string \<Rightarrow> exn + string" where
  "answer_with_offered_media_order origin_ip media_ip m remote_sdp =
     bindE (sdp_sections remote_sdp) (\<lambda>sections.
     bindE (answer_sections m False False sections) (\<lambda>(ls, used_audio). Inr
       (render_sdp (session_lines origin_ip media_ip (offered_time_lines remote_sdp) @ ls @
          (if used_audio then [] else am_audio_lines m)))))"

definition answer_audio_direction :: "parsed_audio option \<Rightarrow> string option \<Rightarrow> exn + string" where
  "answer_audio_direction remote_audio audio_direction =
     bindE (case (audio_direction, remote_audio) of
              (None, Some r) \<Rightarrow> local_direction_for_offer (pa_direction r) (pa_connection_held r)
            | (None, None) \<Rightarrow> Inr ''sendrecv''
            | (Some d, Some r) \<Rightarrow> if pa_connection_held r then suppress_local_send d else Inr d
            | (Some d, None) \<Rightarrow> Inr d) normalize_direction"

text \<open>The one format of the answer's audio section.\<close>

definition answer_audio_format :: "parsed_audio option \<Rightarrow> string \<Rightarrow> rtp_format \<Rightarrow> rtp_format \<Rightarrow> exn + rtp_format" where
  "answer_audio_format remote_audio audio_direction send recv =
     bindE (format_direction_for_remote (case remote_audio of Some r \<Rightarrow> pa_direction r | None \<Rightarrow> ''sendrecv'')
              audio_direction ''sendrecv'') (\<lambda>fd.
       if fd = ''sendonly'' then Inr send
       else if fd = ''recvonly'' then Inr recv
       else if rtp_contract_key send \<noteq> rtp_contract_key recv
         then Inl (SdpError ''SDP sendrecv answer requires one RTP payload usable for both TX and RX'')
       else Inr send)"

definition active_dtmf :: "dtmf_format option \<Rightarrow> dtmf_format option" where
  "active_dtmf dtmf = (case dtmf of Some d \<Rightarrow> if df_events d \<noteq> [] then Some d else None | None \<Rightarrow> None)"

definition answer_audio_lines :: "int \<Rightarrow> rtp_format \<Rightarrow> dtmf_format option \<Rightarrow> string \<Rightarrow> string list" where
  "answer_audio_lines media_port f dtmf audio_direction =
     (let payload = dec_int (rf_payload_type f) in
      [audio_media_line media_port
         (payload # (case active_dtmf dtmf of
            Some d \<Rightarrow> if dec_int (df_payload_type d) \<noteq> payload then [dec_int (df_payload_type d)] else []
          | None \<Rightarrow> [])),
       rtpmap_line f] @
      (case active_dtmf dtmf of
         Some d \<Rightarrow>
           [''a=rtpmap:'' @ dec_int (df_payload_type d) @ '' telephone-event/'' @ dec_int (df_rate d),
            ''a=fmtp:'' @ dec_int (df_payload_type d) @ '' '' @ format_dtmf_events (df_events d)]
       | None \<Rightarrow> []) @
      ptime_lines (rf_frame_ms f) @ [''a='' @ audio_direction])"

text \<open>The keyword arguments of \<open>build_answer_directional\<close>.\<close>

record answer_options =
  ao_dtmf :: "dtmf_format option"
  ao_remote_sdp :: string
  ao_video_port :: int
  ao_video_format :: "video_format option"
  ao_audio_direction :: "string option"
  ao_video_direction :: "string option"

definition single_audio :: "sdp_section list \<Rightarrow> bool" where
  "single_audio sections \<longleftrightarrow> map se_media sections = [''audio'']"

definition build_answer_directional ::
  "string \<Rightarrow> string \<Rightarrow> int \<Rightarrow> rtp_format \<Rightarrow> rtp_format \<Rightarrow> answer_options \<Rightarrow> exn + string" where
  "build_answer_directional origin_ip media_ip media_port send recv opts =
     (let remote_sdp = ao_remote_sdp opts in
      bindE (if remote_sdp \<noteq> [] then bindE (parse_sdp remote_sdp) (\<lambda>p. Inr (Some p)) else Inr None) (\<lambda>remote_audio.
      bindE (answer_audio_direction remote_audio (ao_audio_direction opts)) (\<lambda>audio_direction.
      bindE (answer_audio_format remote_audio audio_direction send recv) (\<lambda>f.
        let audio_lines = answer_audio_lines media_port f (ao_dtmf opts) audio_direction in
        bindE (if remote_sdp \<noteq> [] then sdp_sections remote_sdp else Inr []) (\<lambda>sections.
          if remote_sdp \<noteq> [] \<and> \<not> single_audio sections then
            answer_with_offered_media_order origin_ip media_ip
              \<lparr> am_audio_lines = audio_lines, am_video_port = ao_video_port opts,
                am_video_format = ao_video_format opts, am_video_direction = ao_video_direction opts \<rparr> remote_sdp
          else Inr (render_sdp (session_lines origin_ip media_ip
                 (if remote_sdp \<noteq> [] then offered_time_lines remote_sdp else [''t=0 0'']) @ audio_lines)))))))"

end
