(* ===== verification/Sdp_Roundtrip.thy ===== *)
theory Sdp_Roundtrip
  imports Sdp_Build
begin

text \<open>
  What \<open>sdp.py\<close> writes, it reads back: the lines of a rendered description, the state of
  \<open>parse_sdp\<close> after each of them, and the formats of an offer with their payload types.
\<close>

section \<open>Lines\<close>

definition one_line :: "string \<Rightarrow> bool" where
  "one_line s \<longleftrightarrow> CR \<notin> set s \<and> LF \<notin> set s"

lemma replace_crlf_line: "CR \<notin> set l \<Longrightarrow> replace_crlf (l @ CR # LF # r) = l @ LF # replace_crlf r"
proof (induction l)
  case Nil
  then show ?case by simp
next
  case (Cons c l)
  then show ?case by (cases l) (auto simp: LF_def CR_def)
qed

lemma sdp_lines_line: "one_line l \<Longrightarrow> sdp_lines (l @ CRLF @ r) = l # sdp_lines r"
  by (simp add: sdp_lines_def CRLF_def replace_crlf_line one_line_def split_on_skip)

lemma sdp_lines_render:
  "ls \<noteq> [] \<Longrightarrow> list_all one_line ls \<Longrightarrow> sdp_lines (render_sdp ls) = ls @ [[]]"
proof (induction CRLF ls rule: join.induct)
  case (2 x)
  have "sdp_lines [] = [[]]" by (simp add: sdp_lines_def split_on_def)
  with 2 show ?case using sdp_lines_line [of x "[]"] by (simp add: render_sdp_def)
next
  case (3 x y ys)
  then show ?case using sdp_lines_line [of x] by (simp add: render_sdp_def)
qed simp

lemma one_line_append [simp]: "one_line (a @ b) \<longleftrightarrow> one_line a \<and> one_line b"
  by (auto simp: one_line_def)

lemma one_line_Cons [simp]: "one_line (c # b) \<longleftrightarrow> c \<noteq> CR \<and> c \<noteq> LF \<and> one_line b"
  by (auto simp: one_line_def)

lemma one_line_Nil [simp]: "one_line []"
  by (simp add: one_line_def)

lemma token_one_line: "is_token t \<Longrightarrow> one_line t"
  by (auto simp: is_token_def one_line_def is_space_def CR_def LF_def)

lemma one_line_dec_int [simp]: "one_line (dec_int i)"
  by (simp add: token_one_line)

lemma one_line_join: "list_all one_line ls \<Longrightarrow> one_line sep \<Longrightarrow> one_line (join sep ls)"
  by (induction sep ls rule: join.induct) auto

lemma printable_not_crlf [simp]:
  "CHR '' '' \<noteq> CR" "CHR '' '' \<noteq> LF"
  by (simp_all add: CR_def LF_def)

section \<open>Reading one line\<close>

lemma strip_marked:
  assumes "\<not> is_space c" "\<not> is_space d"
  obtains s' where "strip (c # d # s) = c # d # s'"
proof -
  let ?drop = "\<lambda>xs. dropWhile is_space xs"
  have "\<exists>s'. rev (?drop (rev (c # d # s))) = c # d # s'"
  proof (induction s rule: rev_induct)
    case Nil
    then show ?case using assms by simp
  next
    case (snoc x xs)
    then show ?case using assms by (cases "is_space x") auto
  qed
  then show ?thesis
    using assms that by (auto simp: strip_def lstrip_def rstrip_def)
qed

lemma strip_marked_ex: "\<not> is_space c \<Longrightarrow> \<not> is_space d \<Longrightarrow> \<exists>s'. strip (c # d # s) = c # d # s'"
  by (metis strip_marked)

lemma last_join_token: "ts \<noteq> [] \<Longrightarrow> list_all is_token ts \<Longrightarrow> join sep ts \<noteq> [] \<and> \<not> is_space (last (join sep ts))"
proof (induction sep ts rule: join.induct)
  case (2 sep x)
  then show ?case by (auto simp: is_token_def)
qed auto

lemma py_int_dec_int [simp]: "0 \<le> i \<Longrightarrow> i < 10000000000 \<Longrightarrow> py_int (dec_int i) = Some i"
  by (simp add: dec_int_def)

lemma strip_token_end:
  assumes "is_token t" "\<not> is_space c"
  shows "strip (c # p @ t) = c # p @ t"
  by (rule strip_ends) (use assms in \<open>auto simp: is_token_def\<close>)

lemma is_space_blank: "is_space (CHR '' '')"
  by (simp add: is_space_def)

lemma split_first_dec:
  assumes "s \<noteq> []" "\<not> is_space (hd s)"
  shows "split_first (dec_int i @ CHR '' '' # s) = Some (dec_int i, s)"
proof -
  have t: "is_token (dec_int i)" by simp
  then have "lstrip (dec_int i @ CHR '' '' # s) = dec_int i @ CHR '' '' # s"
    by (cases "dec_int i") (auto simp: is_token_def lstrip_def)
  moreover have "takeWhile (\<lambda>c. \<not> is_space c) (dec_int i @ CHR '' '' # s) = dec_int i"
    using t by (subst takeWhile_append2) (auto simp: is_token_def is_space_def)
  moreover have "dropWhile (\<lambda>c. \<not> is_space c) (dec_int i @ CHR '' '' # s) = CHR '' '' # s"
    using t by (subst dropWhile_append2) (auto simp: is_token_def is_space_def)
  moreover have "lstrip (CHR '' '' # s) = s"
    using assms by (cases s) (auto simp: lstrip_def is_space_blank)
  ultimately show ?thesis
    using assms t by (simp add: split_first_def is_token_def)
qed

lemma startswith_empty [simp]: "startswith s []" "startswith [] (p # ps) = False"
  by (simp_all add: startswith_def)

lemma removeprefix_append: "removeprefix (p @ s) p = s"
  by (simp add: removeprefix_def)

lemma no_direction_line: "c \<noteq> CHR ''a'' \<Longrightarrow> c # s \<notin> set DIRECTION_LINES"
  by (simp add: DIRECTION_LINES_def)

lemma scan_plain_line:
  assumes "\<not> is_space c" "c \<noteq> CHR ''m''" "c \<noteq> CHR ''c''" "c \<noteq> CHR ''a''" "\<not> as_in_selected_audio st"
  shows "scan_line st (c # CHR ''='' # s) = Inr st"
proof -
  obtain s' where "strip (c # CHR ''='' # s) = c # CHR ''='' # s'"
    by (rule strip_marked [of c "CHR ''=''" s]) (use assms(1) in \<open>simp_all add: is_space_def\<close>)
  then show ?thesis
    using assms no_direction_line by (simp add: scan_line_def startswith_Cons)
qed

lemma scan_session_connection:
  assumes "is_token ip" "\<not> as_saw_media st"
  shows "scan_line st (IP4_PREFIX @ ip) = Inr (st\<lparr> as_session_conn := ip \<rparr>)"
proof -
  have "strip (IP4_PREFIX @ ip) = IP4_PREFIX @ ip"
    using strip_token_end [OF assms(1), of "CHR ''c''" "''=IN IP4 ''"] by (simp add: IP4_PREFIX_def is_space_def)
  moreover have "scan_connection (IP4_PREFIX @ ip) st = Inr (st\<lparr> as_session_conn := ip \<rparr>)"
    using assms by (simp add: scan_connection_def removeprefix_append strip_token)
  moreover have "startswith (IP4_PREFIX @ ip) ''c=''" "\<not> startswith (IP4_PREFIX @ ip) ''m=''" "IP4_PREFIX \<noteq> []"
    by (simp_all add: IP4_PREFIX_def startswith_Cons)
  ultimately show ?thesis by (simp add: scan_line_def Let_def)
qed

lemma words_audio_media_line:
  assumes "list_all is_token ps"
  shows "words (audio_media_line port ps) = ''m=audio'' # dec_int port # ''RTP/AVP'' # ps"
proof -
  have m: "is_token ''m=audio''" "is_token ''RTP/AVP''"
    by (simp_all add: is_token_def is_space_def)
  have "words (audio_media_line port ps) =
      words (''m=audio'' @ CHR '' '' # dec_int port @ CHR '' '' # ''RTP/AVP'' @ CHR '' '' # join '' '' ps)"
    by (simp add: audio_media_line_def)
  also have "\<dots> = ''m=audio'' # dec_int port # ''RTP/AVP'' # ps"
    by (simp only: words_cons [OF m(1)] words_cons [OF dec_int_token] words_cons [OF m(2)] words_join [OF assms])
  finally show ?thesis .
qed

lemma ints_of_dec: "list_all (\<lambda>i. 0 \<le> i \<and> i < 10000000000) is \<Longrightarrow> ints_of (map dec_int is) = Some is"
  by (induction "is") (auto simp: ints_of_def split: if_splits)

lemma strip_audio_media_line:
  assumes "ps \<noteq> []" "list_all is_token ps"
  shows "strip (audio_media_line port ps) = audio_media_line port ps"
  by (rule strip_ends)
     (use last_join_token [OF assms, of "'' ''"] in \<open>auto simp: audio_media_line_def is_space_def\<close>)

lemma scan_audio_media_line:
  assumes "\<not> as_selected_audio st" "1 \<le> port" "port \<le> 65535" "pts \<noteq> []" "list_all (\<lambda>p. 0 \<le> p \<and> p \<le> 127) pts"
  shows "scan_line st (audio_media_line port (map dec_int pts)) =
    Inr (st\<lparr> as_saw_media := True, as_in_selected_audio := True, as_media_port := port,
             as_payload_order := pts, as_selected_audio := True \<rparr>)"
proof -
  have t: "list_all is_token (map dec_int pts)" by (simp add: list_all_iff)
  have "strip (audio_media_line port (map dec_int pts)) = audio_media_line port (map dec_int pts)"
    using assms(4) t by (intro strip_audio_media_line) auto
  moreover have "startswith (audio_media_line port (map dec_int pts)) ''m=''" "audio_media_line port (map dec_int pts) \<noteq> []"
    by (simp_all add: audio_media_line_def startswith_Cons)
  moreover have "scan_media (audio_media_line port (map dec_int pts)) st =
    Inr (st\<lparr> as_saw_media := True, as_in_selected_audio := True, as_media_port := port,
             as_payload_order := pts, as_selected_audio := True \<rparr>)"
  proof -
    have "ints_of (map dec_int pts) = Some pts"
      by (rule ints_of_dec) (use assms(5) in \<open>auto simp: list_all_iff\<close>)
    moreover have "upper ''RTP/AVP'' = ''RTP/AVP''" by code_simp
    moreover have "length pts \<ge> 1" using assms(4) by (cases pts) auto
    ultimately show ?thesis
      using assms by (simp add: scan_media_def words_audio_media_line [OF t] eval_nat_numeral list_all_iff)
  qed
  ultimately show ?thesis by (simp add: scan_line_def)
qed

text \<open>An attribute line of the selected audio section.\<close>

lemma scan_attribute_line:
  assumes "strip line = line" "startswith line ''a=''" "line \<notin> set DIRECTION_LINES" "as_in_selected_audio st"
    and "scan_attribute line st = Some st'"
  shows "scan_line st line = Inr st'"
proof -
  obtain s where "line = CHR ''a'' # CHR ''='' # s"
    using assms(2) by (cases line; cases "tl line") (auto simp: startswith_Cons)
  then show ?thesis
    using assms by (simp add: scan_line_def startswith_Cons)
qed

definition slash_free :: "string \<Rightarrow> bool" where
  "slash_free s \<longleftrightarrow> is_token s \<and> CHR ''/'' \<notin> set s"

lemma dec_int_no_slash [simp]: "CHR ''/'' \<notin> set (dec_int i)"
proof -
  have "CHR ''/'' \<notin> set (dec n)" for n
    using dec_digits [of n] by (auto simp: is_digit_def)
  then show ?thesis by (simp add: dec_int_def)
qed

lemma mapping_of_rendered:
  assumes "slash_free enc" "0 \<le> rate" "rate < 10000000000" "0 \<le> ch" "ch < 10000000000"
  shows "mapping_of_spec (enc @ ''/'' @ dec_int rate @ ''/'' @ dec_int ch) = Some (upper enc, rate, ch)"
    "mapping_of_spec (enc @ ''/'' @ dec_int rate) = Some (upper enc, rate, 1)"
  using assms by (simp_all add: mapping_of_spec_def slash_free_def split_on_skip split_on_single)

lemma direction_line_letters: "line \<in> set DIRECTION_LINES \<Longrightarrow> CHR '':'' \<notin> set line"
  by (auto simp: DIRECTION_LINES_def)

lemma scan_rtpmap_line:
  assumes "as_in_selected_audio st" "0 \<le> pt" "pt \<le> 127" "mapping_of_spec spec = Some m"
    and "spec \<noteq> []" "\<not> is_space (hd spec)" "\<not> is_space (last spec)"
  shows "scan_line st (''a=rtpmap:'' @ dec_int pt @ '' '' @ spec) =
    Inr (st\<lparr> as_rtpmap := md_set (as_rtpmap st) pt m \<rparr>)"
proof (rule scan_attribute_line)
  show "strip (''a=rtpmap:'' @ dec_int pt @ '' '' @ spec) = ''a=rtpmap:'' @ dec_int pt @ '' '' @ spec"
    by (rule strip_ends) (use assms in \<open>auto simp: is_space_def\<close>)
  show "''a=rtpmap:'' @ dec_int pt @ '' '' @ spec \<notin> set DIRECTION_LINES"
    using direction_line_letters by fastforce
  have "removeprefix (''a=rtpmap:'' @ dec_int pt @ '' '' @ spec) ''a=rtpmap:'' = dec_int pt @ '' '' @ spec"
    by (rule removeprefix_append)
  then show "scan_attribute (''a=rtpmap:'' @ dec_int pt @ '' '' @ spec) st =
      Some (st\<lparr> as_rtpmap := md_set (as_rtpmap st) pt m \<rparr>)"
    using assms split_first_dec [of spec pt]
    by (simp add: scan_attribute_def startswith_Cons scan_rtpmap_def)
qed (use assms in \<open>simp_all add: startswith_Cons\<close>)

lemma scan_fmtp_line:
  assumes "as_in_selected_audio st" "0 \<le> pt" "pt \<le> 127"
    and "spec \<noteq> []" "\<not> is_space (hd spec)" "\<not> is_space (last spec)"
  shows "scan_line st (''a=fmtp:'' @ dec_int pt @ '' '' @ spec) =
    Inr (st\<lparr> as_fmtp := md_set (as_fmtp st) pt spec \<rparr>)"
proof (rule scan_attribute_line)
  show "strip (''a=fmtp:'' @ dec_int pt @ '' '' @ spec) = ''a=fmtp:'' @ dec_int pt @ '' '' @ spec"
    by (rule strip_ends) (use assms in \<open>auto simp: is_space_def\<close>)
  show "''a=fmtp:'' @ dec_int pt @ '' '' @ spec \<notin> set DIRECTION_LINES"
    using direction_line_letters by fastforce
  have "removeprefix (''a=fmtp:'' @ dec_int pt @ '' '' @ spec) ''a=fmtp:'' = dec_int pt @ '' '' @ spec"
    by (rule removeprefix_append)
  moreover have "strip spec = spec"
    by (rule strip_ends) (use assms in auto)
  ultimately show "scan_attribute (''a=fmtp:'' @ dec_int pt @ '' '' @ spec) st =
      Some (st\<lparr> as_fmtp := md_set (as_fmtp st) pt spec \<rparr>)"
    using assms split_first_dec [of spec pt]
    by (simp add: scan_attribute_def startswith_Cons scan_fmtp_def)
qed (use assms in \<open>simp_all add: startswith_Cons\<close>)

lemma scan_ptime_lines:
  assumes "as_in_selected_audio st" "0 \<le> ms" "ms < 10000000000"
  shows "foldE scan_line st (ptime_lines ms @ rest) = foldE scan_line (st\<lparr> as_ptime := ms, as_maxptime := ms \<rparr>) rest"
proof -
  have a: "scan_line st' (''a=ptime:'' @ dec_int ms) = Inr (st'\<lparr> as_ptime := ms \<rparr>)"
    "scan_line st' (''a=maxptime:'' @ dec_int ms) = Inr (st'\<lparr> as_maxptime := ms \<rparr>)"
    if "as_in_selected_audio st'" for st'
  proof -
    have s: "strip (''a=ptime:'' @ dec_int ms) = ''a=ptime:'' @ dec_int ms"
      "strip (''a=maxptime:'' @ dec_int ms) = ''a=maxptime:'' @ dec_int ms"
      using strip_token_end [of "dec_int ms" "CHR ''a''" "''=ptime:''"]
        strip_token_end [of "dec_int ms" "CHR ''a''" "''=maxptime:''"] by (simp_all add: is_space_def)
    have n: "''a=ptime:'' @ dec_int ms \<notin> set DIRECTION_LINES" "''a=maxptime:'' @ dec_int ms \<notin> set DIRECTION_LINES"
      using direction_line_letters by fastforce+
    have r: "removeprefix (''a=ptime:'' @ dec_int ms) ''a=ptime:'' = dec_int ms"
      "removeprefix (''a=maxptime:'' @ dec_int ms) ''a=maxptime:'' = dec_int ms"
      by (rule removeprefix_append)+
    show "scan_line st' (''a=ptime:'' @ dec_int ms) = Inr (st'\<lparr> as_ptime := ms \<rparr>)"
      by (rule scan_attribute_line [OF s(1) _ n(1) that])
         (use assms r in \<open>simp_all add: startswith_Cons scan_attribute_def strip_token\<close>)
    show "scan_line st' (''a=maxptime:'' @ dec_int ms) = Inr (st'\<lparr> as_maxptime := ms \<rparr>)"
      by (rule scan_attribute_line [OF s(2) _ n(2) that])
         (use assms r in \<open>simp_all add: startswith_Cons scan_attribute_def strip_token\<close>)
  qed
  show ?thesis
    using assms a by (simp add: ptime_lines_def)
qed

section \<open>Reading an audio section\<close>

lemma scan_direction_line:
  assumes "d \<in> set SDP_DIRECTIONS" "as_in_selected_audio st" "as_saw_media st"
  shows "scan_line st (''a='' @ d) = Inr (st\<lparr> as_media_direction := d \<rparr>)"
proof -
  have "list_all (\<lambda>d. strip (''a='' @ d) = ''a='' @ d \<and> ''a='' @ d \<in> set DIRECTION_LINES) SDP_DIRECTIONS"
    by code_simp
  then show ?thesis
    using assms by (simp add: scan_line_def scan_direction_def list_all_iff startswith_Cons)
qed

lemma scan_direction_line_session:
  assumes "d \<in> set SDP_DIRECTIONS"
  shows "one_line (''a='' @ d)"
proof -
  have "list_all (\<lambda>d. one_line (''a='' @ d)) SDP_DIRECTIONS"
    by code_simp
  with assms show ?thesis by (simp add: list_all_iff)
qed

text \<open>Lines of other sections are passed over.\<close>

definition marked_line :: "string \<Rightarrow> bool" where
  "marked_line l \<longleftrightarrow> startswith l ''m='' \<or> startswith l ''a=''"

lemma scan_passed_over:
  assumes "marked_line l" "as_saw_media st" "as_selected_audio st" "\<not> as_in_selected_audio st"
  shows "scan_line st l = Inr st"
proof -
  obtain c s where l: "l = c # CHR ''='' # s" "c = CHR ''m'' \<or> c = CHR ''a''"
    using assms(1) by (cases l; cases "tl l") (auto simp: marked_line_def startswith_Cons)
  obtain s' where s': "strip l = c # CHR ''='' # s'"
    using strip_marked_ex [of c "CHR ''=''" s] l by (auto simp: is_space_def)
  have "st\<lparr> as_saw_media := True, as_in_selected_audio := False \<rparr> = st"
    using assms by simp
  then show ?thesis
    using assms s' l(2) by (auto simp: scan_line_def scan_media_def scan_direction_def startswith_Cons Let_def)
qed

lemma scan_other_section:
  assumes "startswith l ''m=''" "list_all marked_line ls" "as_saw_media st" "as_selected_audio st"
  shows "foldE scan_line st (l # ls @ [[]]) = Inr (st\<lparr> as_in_selected_audio := False \<rparr>)"
proof -
  let ?st = "st\<lparr> as_in_selected_audio := False \<rparr>"
  have rest: "foldE scan_line ?st (ls @ [[]]) = Inr ?st"
    using assms(2)
  proof (induction ls)
    case Nil
    then show ?case by (simp add: scan_line_def strip_def lstrip_def rstrip_def)
  next
    case (Cons l' ls)
    then show ?case using assms by (simp add: scan_passed_over)
  qed
  obtain s where l: "l = CHR ''m'' # CHR ''='' # s"
    using assms(1) by (cases l; cases "tl l") (auto simp: startswith_Cons)
  obtain s' where s': "strip l = CHR ''m'' # CHR ''='' # s'"
    using strip_marked_ex [of "CHR ''m''" "CHR ''=''" s] l by (auto simp: is_space_def)
  have "st\<lparr> as_saw_media := True, as_in_selected_audio := False \<rparr> = ?st"
    using assms by simp
  then have "scan_line st l = Inr ?st"
    using assms s' by (simp add: scan_line_def scan_media_def startswith_Cons Let_def)
  then show ?thesis using rest by simp
qed

definition other_sections :: "string list \<Rightarrow> bool" where
  "other_sections ls \<longleftrightarrow> (case ls of [] \<Rightarrow> True | l # r \<Rightarrow> startswith l ''m='' \<and> list_all marked_line r)"

lemma finish_other_sections:
  assumes "other_sections ls" "as_saw_media st" "as_selected_audio st"
  shows "bindE (foldE scan_line st (ls @ [[]])) finish_scan = finish_scan st"
proof (cases ls)
  case Nil
  then show ?thesis by (simp add: scan_line_def strip_def lstrip_def rstrip_def)
next
  case (Cons l r)
  have "finish_scan (st\<lparr> as_in_selected_audio := False \<rparr>) = finish_scan st"
    by (simp add: finish_scan_def Let_def)
  then show ?thesis
    using scan_other_section [of l r st] assms Cons by (simp add: other_sections_def)
qed

section \<open>Reading formats\<close>

definition small_nat :: "int \<Rightarrow> bool" where
  "small_nat i \<longleftrightarrow> 0 \<le> i \<and> i < 10000000000"

definition readable_format :: "rtp_format \<Rightarrow> bool" where
  "readable_format f \<longleftrightarrow> 0 \<le> rf_payload_type f \<and> rf_payload_type f \<le> 127 \<and> slash_free (rf_encoding f) \<and>
     upper (rf_encoding f) = rf_encoding f \<and> small_nat (rf_rate f) \<and> small_nat (rf_channels f)"

definition mapping_of :: "rtp_format \<Rightarrow> rtp_mapping" where
  "mapping_of f = (rf_encoding f, rf_rate f, rf_channels f)"

lemma scan_rtpmap_format:
  assumes "as_in_selected_audio st" "readable_format f"
  shows "scan_line st (rtpmap_line f) = Inr (st\<lparr> as_rtpmap := md_set (as_rtpmap st) (rf_payload_type f) (mapping_of f) \<rparr>)"
proof -
  have "mapping_of_spec (rf_encoding f @ ''/'' @ dec_int (rf_rate f) @ ''/'' @ dec_int (rf_channels f)) = Some (mapping_of f)"
    using assms mapping_of_rendered(1) [of "rf_encoding f" "rf_rate f" "rf_channels f"]
    by (simp add: readable_format_def small_nat_def mapping_of_def)
  moreover have "rf_encoding f \<noteq> []" "\<not> is_space (hd (rf_encoding f))"
    using assms by (auto simp: readable_format_def slash_free_def is_token_def)
  moreover have "dec_int (rf_channels f) \<noteq> []" "\<not> is_space (last (dec_int (rf_channels f)))"
    using dec_int_token [of "rf_channels f"] by (auto simp: is_token_def simp del: dec_int_token)
  ultimately show ?thesis
    using assms scan_rtpmap_line [of st "rf_payload_type f" "rf_encoding f @ ''/'' @ dec_int (rf_rate f) @ ''/'' @ dec_int (rf_channels f)"]
    by (simp add: readable_format_def rtpmap_line_def)
qed

definition OPUS_FMTP :: string where "OPUS_FMTP = ''stereo=1;sprop-stereo=1;maxaveragebitrate=28000''"

definition read_format :: "audio_scan \<Rightarrow> rtp_format \<Rightarrow> audio_scan" where
  "read_format st f = st
     \<lparr> as_rtpmap := md_set (as_rtpmap st) (rf_payload_type f) (mapping_of f),
       as_fmtp := (if rf_encoding f = ''OPUS'' then md_set (as_fmtp st) (rf_payload_type f) OPUS_FMTP else as_fmtp st) \<rparr>"

lemma scan_offer_format:
  assumes "as_in_selected_audio st" "readable_format f"
  shows "foldE scan_line st (offer_format_lines f @ rest) = foldE scan_line (read_format st f) rest"
proof (cases "rf_encoding f = ''OPUS''")
  case True
  have "scan_line st' (''a=fmtp:'' @ dec_int (rf_payload_type f) @ '' '' @ OPUS_FMTP) =
      Inr (st'\<lparr> as_fmtp := md_set (as_fmtp st') (rf_payload_type f) OPUS_FMTP \<rparr>)" if "as_in_selected_audio st'" for st'
    by (rule scan_fmtp_line) (use that assms in \<open>auto simp: readable_format_def OPUS_FMTP_def is_space_def\<close>)
  then show ?thesis
    using assms True by (simp add: offer_format_lines_def scan_rtpmap_format read_format_def OPUS_FMTP_def)
next
  case False
  then show ?thesis
    using assms by (simp add: offer_format_lines_def scan_rtpmap_format read_format_def)
qed

lemma read_format_in [simp]: "as_in_selected_audio (read_format st f) = as_in_selected_audio st"
  by (simp add: read_format_def)

lemma scan_offer_formats:
  "as_in_selected_audio st \<Longrightarrow> list_all readable_format fs \<Longrightarrow>
   foldE scan_line st (concat (map offer_format_lines fs) @ rest) = foldE scan_line (foldl read_format st fs) rest"
  by (induction fs arbitrary: st) (simp_all add: scan_offer_format)

section \<open>The formats of an offer\<close>

lemma free_payload_free: "free_payload used n \<notin> set used \<and> n \<le> free_payload used n"
proof (induction used n rule: free_payload.induct)
  case (1 used n)
  then show ?case by (subst (1 2) free_payload.simps) auto
qed

lemma free_payload_eq:
  assumes "\<forall>x \<in> set used. x < n \<or> x = 98"
  shows "free_payload used n = (if n = 98 \<and> 98 \<in> set used then 99 else n)"
proof -
  have f: "free_payload used m = m" if "m \<notin> set used" for m
    using that by (simp add: free_payload.simps)
  show ?thesis
  proof (cases "n \<in> set used")
    case True
    then have "n = 98" using assms by auto
    moreover have "99 \<notin> set used" using assms \<open>n = 98\<close> by auto
    ultimately show ?thesis using True f [of 99] by (simp add: free_payload.simps [of used 98])
  next
    case False
    then show ?thesis using f [of n] by auto
  qed
qed

lemma audio_format_to_rtp_Inr:
  assumes "audio_format_to_rtp f pt = Inr r"
  shows "r = mk_rtp_format pt (rf_encoding r) (af_rate f) 1 (af_frame_ms f)" "rf_encoding r \<in> {''L16'', ''L24''}"
    "96 \<le> pt" "pt \<le> 127"
  using assms by (auto simp: audio_format_to_rtp_def mk_rtp_format_def split: if_splits pcm_format.splits)

lemma assign_payloads_Inr:
  "assign_payloads used n fs = Inr (rs, used', n') \<Longrightarrow> \<forall>x \<in> set used. x < n \<or> x = 98 \<Longrightarrow>
    list_all2 (\<lambda>f r. audio_format_to_rtp f (rf_payload_type r) = Inr r) fs rs \<and>
    set used' = rf_payload_type ` set rs \<union> set used \<and> distinct (map rf_payload_type rs) \<and>
    set used \<inter> rf_payload_type ` set rs = {} \<and>
    (\<forall>x \<in> set used'. x < n' \<or> x = 98) \<and> n' \<le> n + int (length fs) + (if n \<le> 98 then 1 else 0) \<and> n \<le> n'"
proof (induction used n fs arbitrary: rs used' n' rule: assign_payloads.induct)
  case (2 used n f fs)
  let ?pt = "free_payload used n"
  from "2.prems"(1) obtain r rs0 where r: "audio_format_to_rtp f ?pt = Inr r"
    and rs0: "assign_payloads (?pt # used) (?pt + 1) fs = Inr (rs0, used', n')" and rs: "rs = r # rs0"
    by (auto simp: Let_def bindE_eq_Inr)
  have pt: "rf_payload_type r = ?pt"
    using audio_format_to_rtp_Inr(1) [OF r] by (metis mk_rtp_format_def rtp_format.select_convs(1))
  have free: "?pt \<notin> set used" "n \<le> ?pt" by (simp_all add: free_payload_free)
  have inv: "\<forall>x \<in> set (?pt # used). x < ?pt + 1 \<or> x = 98"
    using "2.prems"(2) free by force
  note IH = "2.IH" [OF refl rs0 inv]
  have le: "?pt + 1 + (if ?pt + 1 \<le> 98 then 1 else 0) \<le> n + 1 + (if n \<le> 98 then 1 else (0::int))"
    using free_payload_eq [OF "2.prems"(2)] by simp
  show ?case
    using IH free r le by (auto simp: rs pt)
qed simp

lemma dedupe_subset: "set (dedupe seen fs) \<subseteq> set fs"
  by (induction seen fs rule: dedupe.induct) auto

lemma rtp_offer_formats_props:
  "set (rtp_offer_formats fs) \<subseteq> set fs" "length (rtp_offer_formats fs) \<le> 11"
  "list_all is_rtp_pcm_mappable (rtp_offer_formats fs)"
proof -
  have sub: "set (rtp_offer_formats fs) \<subseteq> set (rtp_mappable_formats fs)"
  proof (cases "sort_key rtp_offer_rank (dedupe_formats (rtp_mappable_formats fs))")
    case (Cons g gs)
    have "set (g # gs) \<subseteq> set (rtp_mappable_formats fs)"
      using arg_cong [OF Cons, of set] dedupe_subset [of "[]" "rtp_mappable_formats fs"] by (simp add: dedupe_formats_def)
    then show ?thesis
      using Cons by (auto simp: rtp_offer_formats_def dest!: in_set_takeD)
  qed (simp add: rtp_offer_formats_def)
  show "set (rtp_offer_formats fs) \<subseteq> set fs"
    using sub by (auto simp: rtp_mappable_formats_def)
  show "list_all is_rtp_pcm_mappable (rtp_offer_formats fs)"
    using sub by (auto simp: rtp_mappable_formats_def list_all_iff)
  show "length (rtp_offer_formats fs) \<le> 11"
    by (auto simp: rtp_offer_formats_def MAX_RTP_OFFER_FORMATS_def Let_def split: list.split)
qed

lemma formats_for_local_direction_subset:
  "formats_for_local_direction send recv d = Inr caps \<Longrightarrow> set caps \<subseteq> set send \<union> set recv"
  using dedupe_subset
  by (fastforce simp: formats_for_local_direction_def bindE_eq_Inr dedupe_formats_def bidirectional_formats_def split: if_splits)

definition RTP_ENCODINGS :: "string list" where
  "RTP_ENCODINGS = [''L16'', ''L24'', ''PCMA'', ''PCMU'', ''OPUS'']"

definition offerable :: "rtp_format \<Rightarrow> bool" where
  "offerable f \<longleftrightarrow> readable_format f \<and> rf_encoding f \<in> set RTP_ENCODINGS \<and> small_nat (rf_frame_ms f) \<and>
     rf_min_frame_ms f = 0 \<and> rf_max_frame_ms f = 0 \<and>
     (rf_payload_type f < 96 \<longrightarrow> assoc STATIC_RTPMAP (rf_payload_type f) = Some (mapping_of f))"

lemma offerable_common: "list_all offerable (common_codec_offer_formats fs)"
proof -
  have "offerable (mk_rtp_format 98 ''OPUS'' 48000 2 20)" "offerable (mk_rtp_format 8 ''PCMA'' 8000 1 20)"
    "offerable (mk_rtp_format 0 ''PCMU'' 8000 1 20)"
    by code_simp+
  then show ?thesis by (simp add: common_codec_offer_formats_def)
qed

lemma encodings_readable: "e \<in> set RTP_ENCODINGS \<Longrightarrow> slash_free e \<and> upper e = e"
proof -
  have "list_all (\<lambda>e. slash_free e \<and> upper e = e) RTP_ENCODINGS" by code_simp
  then show "e \<in> set RTP_ENCODINGS \<Longrightarrow> slash_free e \<and> upper e = e" by (auto simp: list_all_iff)
qed

lemma offerable_dynamic:
  assumes "audio_format_to_rtp f pt = Inr r" "valid_format f"
  shows "offerable r"
proof -
  note r = audio_format_to_rtp_Inr [OF assms(1)]
  have e: "rf_encoding r \<in> set RTP_ENCODINGS" using r(2) by (auto simp: RTP_ENCODINGS_def)
  have f: "small_nat (af_rate f)" "small_nat (af_frame_ms f)"
    using assms(2) by (auto simp: valid_format_iff small_nat_def SUPPORTED_SAMPLE_RATES_def SUPPORTED_FRAME_MS_def)
  have sel: "rf_payload_type r = pt" "rf_rate r = af_rate f" "rf_channels r = 1" "rf_frame_ms r = af_frame_ms f"
    "rf_min_frame_ms r = 0" "rf_max_frame_ms r = 0"
    by (subst r(1), simp add: mk_rtp_format_def)+
  show ?thesis
    using encodings_readable [OF e] e r(3, 4) f
    by (simp add: offerable_def readable_format_def sel small_nat_def)
qed

lemma offer_rtp_formats_props:
  assumes "offer_rtp_formats caps common = Inr (fs, dt)" "list_all valid_format caps"
  shows "fs \<noteq> []" "list_all offerable fs" "distinct (map rf_payload_type fs @ [dt])" "96 \<le> dt" "dt \<le> 127"
proof -
  let ?common = "if common then common_codec_offer_formats caps else []"
  obtain rs used n where a: "assign_payloads (map rf_payload_type ?common) 96 (rtp_offer_formats caps) = Inr (rs, used, n)"
    and fs: "fs = ?common @ rs" and dt: "dt = free_payload used n" and ne: "rtp_offer_formats caps \<noteq> []"
    using assms(1) by (auto simp: offer_rtp_formats_def Let_def bindE_eq_Inr split: if_splits)
  have inv: "\<forall>x \<in> set (map rf_payload_type ?common). x < 96 \<or> x = 98"
    by (auto simp: common_codec_offer_formats_def mk_rtp_format_def)
  note A = assign_payloads_Inr [OF a inv]
  have l2: "list_all2 (\<lambda>f r. audio_format_to_rtp f (rf_payload_type r) = Inr r) (rtp_offer_formats caps) rs"
    using A by blast
  then show "fs \<noteq> []"
    using ne fs by auto
  have valid: "list_all valid_format (rtp_offer_formats caps)"
    using rtp_offer_formats_props(1) [of caps] assms(2) by (auto simp: list_all_iff)
  have "list_all offerable rs"
    using l2 valid by (induction rule: list_all2_induct) (auto intro: offerable_dynamic)
  then show "list_all offerable fs"
    using offerable_common by (simp add: fs)
  have dc: "distinct (map rf_payload_type ?common)"
    by (auto simp: common_codec_offer_formats_def mk_rtp_format_def)
  show "distinct (map rf_payload_type fs @ [dt])"
    using A dc free_payload_free [of used n] unfolding fs dt by auto
  show "96 \<le> dt"
    using A free_payload_free [of used n] by (simp add: dt)
  have "n \<le> 96 + 11 + 1"
    using A rtp_offer_formats_props(2) [of caps] by simp
  then show "dt \<le> 127"
    using A free_payload_eq [of used n] by (simp add: dt split: if_splits)
qed

section \<open>The offer read back\<close>

lemma assoc_read_formats:
  "distinct (map rf_payload_type fs) \<Longrightarrow> f \<in> set fs \<Longrightarrow>
   assoc (as_rtpmap (foldl read_format st fs)) (rf_payload_type f) = Some (mapping_of f)"
  by (induction fs rule: rev_induct) (auto simp: read_format_def assoc_md_set, metis imageI)

lemma read_formats_fields [simp]:
  "as_saw_media (foldl read_format st fs) = as_saw_media st"
  "as_selected_audio (foldl read_format st fs) = as_selected_audio st"
  "as_in_selected_audio (foldl read_format st fs) = as_in_selected_audio st"
  "as_media_port (foldl read_format st fs) = as_media_port st"
  "as_media_conn (foldl read_format st fs) = as_media_conn st"
  "as_session_conn (foldl read_format st fs) = as_session_conn st"
  "as_payload_order (foldl read_format st fs) = as_payload_order st"
  "as_minptime (foldl read_format st fs) = as_minptime st"
  by (induction fs arbitrary: st) (simp_all add: read_format_def)

definition packet_time :: "int \<Rightarrow> rtp_format \<Rightarrow> rtp_format" where
  "packet_time ms f = f\<lparr> rf_frame_ms := ms, rf_min_frame_ms := 0, rf_max_frame_ms := ms \<rparr>"

definition DTMF_MAPPING :: rtp_mapping where "DTMF_MAPPING = (''TELEPHONE-EVENT'', 8000, 1)"

text \<open>The state of the reader after the lines of \<open>offer_audio_lines\<close>.\<close>

definition audio_read :: "audio_scan \<Rightarrow> int \<Rightarrow> rtp_format list \<Rightarrow> int \<Rightarrow> string \<Rightarrow> audio_scan" where
  "audio_read st port fs dt d =
     (let st1 = foldl read_format (st\<lparr> as_saw_media := True, as_in_selected_audio := True, as_media_port := port,
                  as_payload_order := map rf_payload_type fs @ [dt], as_selected_audio := True \<rparr>) fs
      in st1\<lparr> as_rtpmap := md_set (as_rtpmap st1) dt DTMF_MAPPING, as_fmtp := md_set (as_fmtp st1) dt ''0-15'',
              as_ptime := rf_frame_ms (hd fs), as_maxptime := rf_frame_ms (hd fs), as_media_direction := d \<rparr>)"

lemma scan_dtmf_lines:
  assumes "as_in_selected_audio st" "0 \<le> dt" "dt \<le> 127"
  shows "foldE scan_line st ([''a=rtpmap:'' @ dec_int dt @ '' telephone-event/8000'', ''a=fmtp:'' @ dec_int dt @ '' 0-15''] @ rest) =
    foldE scan_line (st\<lparr> as_rtpmap := md_set (as_rtpmap st) dt DTMF_MAPPING, as_fmtp := md_set (as_fmtp st) dt ''0-15'' \<rparr>) rest"
proof -
  have m: "mapping_of_spec ''telephone-event/8000'' = Some DTMF_MAPPING" by code_simp
  have a: "scan_line st (''a=rtpmap:'' @ dec_int dt @ '' '' @ ''telephone-event/8000'') =
      Inr (st\<lparr> as_rtpmap := md_set (as_rtpmap st) dt DTMF_MAPPING \<rparr>)"
    by (rule scan_rtpmap_line) (use assms m in \<open>simp_all add: is_space_def\<close>)
  have b: "scan_line st' (''a=fmtp:'' @ dec_int dt @ '' '' @ ''0-15'') =
      Inr (st'\<lparr> as_fmtp := md_set (as_fmtp st') dt ''0-15'' \<rparr>)" if "as_in_selected_audio st'" for st'
    by (rule scan_fmtp_line) (use assms that in \<open>simp_all add: is_space_def\<close>)
  show ?thesis using a b assms by simp
qed

lemma scan_offer_audio:
  assumes "\<not> as_selected_audio st" "1 \<le> port" "port \<le> 65535" "list_all offerable fs" "fs \<noteq> []"
    and "96 \<le> dt" "dt \<le> 127" "d \<in> set SDP_DIRECTIONS"
  shows "foldE scan_line st (offer_audio_lines port fs dt d @ rest) = foldE scan_line (audio_read st port fs dt d) rest"
proof -
  let ?st0 = "st\<lparr> as_saw_media := True, as_in_selected_audio := True, as_media_port := port,
                  as_payload_order := map rf_payload_type fs @ [dt], as_selected_audio := True \<rparr>"
  let ?st1 = "foldl read_format ?st0 fs"
  have m: "scan_line st (audio_media_line port (map dec_int (map rf_payload_type fs @ [dt]))) = Inr ?st0"
    by (rule scan_audio_media_line)
       (use assms in \<open>auto simp: list_all_iff offerable_def readable_format_def\<close>)
  have r: "list_all readable_format fs"
    using assms(4) by (auto simp: list_all_iff offerable_def)
  have in1: "as_in_selected_audio ?st1" "as_saw_media ?st1"
    by simp_all
  have ms: "0 \<le> rf_frame_ms (hd fs)" "rf_frame_ms (hd fs) < 10000000000"
    using assms(4, 5) by (cases fs; simp add: offerable_def small_nat_def)+
  let ?st2 = "?st1\<lparr> as_rtpmap := md_set (as_rtpmap ?st1) dt DTMF_MAPPING, as_fmtp := md_set (as_fmtp ?st1) dt ''0-15'' \<rparr>"
  have "foldE scan_line st (offer_audio_lines port fs dt d @ rest) =
      foldE scan_line ?st1 ([''a=rtpmap:'' @ dec_int dt @ '' telephone-event/8000'', ''a=fmtp:'' @ dec_int dt @ '' 0-15''] @
        ptime_lines (rf_frame_ms (hd fs)) @ (''a='' @ d) # rest)"
    using m scan_offer_formats [OF _ r, of ?st0] by (simp add: offer_audio_lines_def comp_def)
  also have "\<dots> = foldE scan_line ?st2 (ptime_lines (rf_frame_ms (hd fs)) @ (''a='' @ d) # rest)"
    by (rule scan_dtmf_lines) (use in1 assms in simp_all)
  also have "\<dots> = foldE scan_line (?st2\<lparr> as_ptime := rf_frame_ms (hd fs), as_maxptime := rf_frame_ms (hd fs) \<rparr>) ((''a='' @ d) # rest)"
    by (rule scan_ptime_lines) (use in1 ms in simp_all)
  also have "\<dots> = foldE scan_line (audio_read st port fs dt d) rest"
    using in1 scan_direction_line [OF assms(8)] by (simp add: audio_read_def Let_def)
  finally show ?thesis .
qed

lemma audio_read_fields:
  "as_saw_media (audio_read st port fs dt d)" "as_selected_audio (audio_read st port fs dt d)"
  "as_media_port (audio_read st port fs dt d) = port" "as_media_conn (audio_read st port fs dt d) = as_media_conn st"
  "as_session_conn (audio_read st port fs dt d) = as_session_conn st"
  "as_payload_order (audio_read st port fs dt d) = map rf_payload_type fs @ [dt]"
  "as_ptime (audio_read st port fs dt d) = rf_frame_ms (hd fs)"
  "as_minptime (audio_read st port fs dt d) = as_minptime st"
  "as_maxptime (audio_read st port fs dt d) = rf_frame_ms (hd fs)"
  "as_media_direction (audio_read st port fs dt d) = d"
  by (simp_all add: audio_read_def Let_def)

lemma assoc_audio_read:
  assumes "distinct (map rf_payload_type fs @ [dt])"
  shows "f \<in> set fs \<Longrightarrow> assoc (as_rtpmap (audio_read st port fs dt d)) (rf_payload_type f) = Some (mapping_of f)"
    "assoc (as_rtpmap (audio_read st port fs dt d)) dt = Some DTMF_MAPPING"
    "assoc (as_fmtp (audio_read st port fs dt d)) dt = Some ''0-15''"
proof -
  show "f \<in> set fs \<Longrightarrow> assoc (as_rtpmap (audio_read st port fs dt d)) (rf_payload_type f) = Some (mapping_of f)"
    using assms by (auto simp: audio_read_def Let_def assoc_md_set assoc_read_formats)
qed (simp_all add: audio_read_def Let_def assoc_md_set)

definition session_read :: "string \<Rightarrow> audio_scan" where
  "session_read ip = initial_scan\<lparr> as_session_conn := ip \<rparr>"

lemma scan_session_lines:
  assumes "is_token ip" "list_all (\<lambda>l. startswith l ''t='' \<or> startswith l ''r='') ts"
  shows "foldE scan_line initial_scan (session_lines origin ip ts @ rest) = foldE scan_line (session_read ip) rest"
proof -
  have v: "scan_line initial_scan ''v=0'' = Inr initial_scan"
    "scan_line initial_scan (''o=- 0 0 IN IP4 '' @ origin) = Inr initial_scan"
    "scan_line initial_scan ''s=VoIP Stack'' = Inr initial_scan"
    by (simp_all add: scan_plain_line initial_scan_def is_space_def)
  have c: "scan_line initial_scan (''c=IN IP4 '' @ ip) = Inr (session_read ip)"
    using scan_session_connection [OF assms(1), of initial_scan]
    by (simp add: IP4_PREFIX_def session_read_def initial_scan_def)
  have t: "foldE scan_line (session_read ip) (ts @ rest) = foldE scan_line (session_read ip) rest"
    using assms(2)
  proof (induction ts)
    case (Cons t ts)
    obtain x s where "t = x # CHR ''='' # s" "x = CHR ''t'' \<or> x = CHR ''r''"
      using Cons.prems by (cases t; cases "tl t") (auto simp: startswith_Cons)
    then have "scan_line (session_read ip) t = Inr (session_read ip)"
      by (auto simp: scan_plain_line session_read_def initial_scan_def is_space_def)
    then show ?case using Cons by simp
  qed simp
  show ?thesis
    using v c t by (simp add: session_lines_def)
qed

lemma parse_offer_lines:
  assumes "is_token ip" "1 \<le> port" "port \<le> 65535" "list_all offerable fs" "fs \<noteq> []"
    and "96 \<le> dt" "dt \<le> 127" "d \<in> set SDP_DIRECTIONS" "other_sections ls"
    and "list_all one_line (session_lines origin ip [''t=0 0''] @ offer_audio_lines port fs dt d @ ls)"
  shows "parse_sdp (render_sdp (session_lines origin ip [''t=0 0''] @ offer_audio_lines port fs dt d @ ls)) =
    finish_scan (audio_read (session_read ip) port fs dt d)"
proof -
  have ne: "session_lines origin ip [''t=0 0''] @ offer_audio_lines port fs dt d @ ls \<noteq> []"
    by (simp add: session_lines_def)
  have "foldE scan_line initial_scan (session_lines origin ip [''t=0 0''] @ offer_audio_lines port fs dt d @ ls @ [[]]) =
      foldE scan_line (session_read ip) (offer_audio_lines port fs dt d @ ls @ [[]])"
    by (rule scan_session_lines) (use assms in \<open>simp_all add: startswith_Cons\<close>)
  also have "\<dots> = foldE scan_line (audio_read (session_read ip) port fs dt d) (ls @ [[]])"
    by (rule scan_offer_audio) (use assms in \<open>simp_all add: session_read_def initial_scan_def\<close>)
  finally show ?thesis
    using finish_other_sections [OF assms(9) audio_read_fields(1,2)]
    by (simp add: parse_sdp_def sdp_lines_render [OF ne assms(10)])
qed

section \<open>An offer is read back\<close>

definition one_line_video :: "video_format \<Rightarrow> bool" where
  "one_line_video f \<longleftrightarrow>
     one_line (vf_encoding f) \<and> one_line (serialized_video_fmtp f) \<and> list_all one_line (vf_feedback f)"

lemma one_line_payloads: "one_line_video f \<Longrightarrow> list_all one_line (video_payload_lines f)"
  by (auto simp: video_payload_lines_def one_line_video_def rtp_encoding_def CR_def LF_def Let_def)

lemma one_line_feedback: "list_all one_line vs \<Longrightarrow> list_all one_line (feedback_lines pt vs)"
  by (auto simp: feedback_lines_def CR_def LF_def list_all_iff)

lemma direction_one_line: "d \<in> set SDP_DIRECTIONS \<Longrightarrow> one_line (''a='' @ d)"
  by (rule scan_direction_line_session)

lemma video_lines_many_other:
  assumes "video_media_lines_many port fs d = Inr ls"
  shows "other_sections ls"
    and "list_all one_line_video fs \<Longrightarrow> d \<in> set SDP_DIRECTIONS \<Longrightarrow> list_all one_line ls"
proof -
  obtain f r where fs: "fs = f # r" and ls: "ls =
      [''m=video '' @ dec_int port @ '' '' @ vf_transport f @ '' '' @ join '' '' (map (\<lambda>g. dec_int (vf_payload_type g)) fs)] @
       concat (map (\<lambda>g. video_payload_lines g @
          (if vf_transport f = ''RTP/AVPF'' then feedback_lines (vf_payload_type g) (offer_feedback g) else [])) fs) @
       [''a=rtcp:'' @ dec_int (port + 1), ''a='' @ d]"
    and t: "vf_transport f \<in> {''RTP/AVP'', ''RTP/AVPF''}"
    using assms by (auto simp: video_media_lines_many_def split: list.splits if_splits)
  show "other_sections ls"
    by (auto simp: other_sections_def ls startswith_Cons list_all_iff marked_line_def video_payload_lines_def
        feedback_lines_def Let_def split: if_splits)
  assume v: "list_all one_line_video fs" and d: "d \<in> set SDP_DIRECTIONS"
  have "list_all one_line (video_payload_lines g @
      (if vf_transport f = ''RTP/AVPF'' then feedback_lines (vf_payload_type g) (offer_feedback g) else []))"
    if "g \<in> set fs" for g
  proof -
    have g: "one_line_video g" using v that by (auto simp: list_all_iff)
    then have "list_all one_line (offer_feedback g)"
      by (auto simp: offer_feedback_def one_line_video_def CR_def LF_def)
    then show ?thesis using one_line_payloads [OF g] one_line_feedback by simp
  qed
  moreover have "one_line (vf_transport f)" using t by (auto simp: CR_def LF_def)
  moreover have "one_line (join '' '' (map (\<lambda>g. dec_int (vf_payload_type g)) fs))"
    by (rule one_line_join) (auto simp: list_all_iff)
  ultimately show "list_all one_line ls"
    using direction_one_line [OF d] by (auto simp: ls list_all_iff CR_def LF_def)
qed

lemma one_line_offer_audio:
  assumes "list_all offerable fs" "d \<in> set SDP_DIRECTIONS"
  shows "list_all one_line (offer_audio_lines port fs dt d)"
proof -
  have "list_all one_line (offer_format_lines f)" if "f \<in> set fs" for f
  proof -
    have "one_line (rf_encoding f)"
      using assms(1) that token_one_line by (auto simp: list_all_iff offerable_def readable_format_def slash_free_def)
    then show ?thesis
      by (auto simp: offer_format_lines_def rtpmap_line_def CR_def LF_def)
  qed
  moreover have "one_line (join '' '' (map (\<lambda>f. dec_int (rf_payload_type f)) fs @ [dec_int dt]))"
    by (rule one_line_join) (auto simp: list_all_iff)
  ultimately show ?thesis
    using direction_one_line [OF assms(2)]
    by (auto simp: offer_audio_lines_def audio_media_line_def ptime_lines_def list_all_iff CR_def LF_def)
qed

lemma one_line_session:
  "one_line origin \<Longrightarrow> is_token ip \<Longrightarrow> list_all one_line ts \<Longrightarrow> list_all one_line (session_lines origin ip ts)"
  using token_one_line [of ip] by (auto simp: session_lines_def CR_def LF_def)

lemma normalize_direction_known: "normalize_direction d = Inr d' \<Longrightarrow> d' \<in> set SDP_DIRECTIONS"
  by (auto simp: normalize_direction_def Let_def split: if_splits)

lemma map_filter_append: "List.map_filter f (xs @ ys) = List.map_filter f xs @ List.map_filter f ys"
  by (simp add: List.map_filter_def)

lemma map_filter_Some: "(\<And>x. x \<in> set xs \<Longrightarrow> f (g x) = Some (h x)) \<Longrightarrow> List.map_filter f (map g xs) = map h xs"
  by (induction xs) (simp_all add: List.map_filter_def)

lemma map_filter_None: "(\<And>x. x \<in> set xs \<Longrightarrow> f x = None) \<Longrightarrow> List.map_filter f xs = []"
  by (induction xs) (simp_all add: List.map_filter_def)

lemma pcm_formats_read:
  assumes p: "finish_scan (audio_read (session_read ip) port fs dt d) = Inr p"
    and fs: "list_all offerable fs" "distinct (map rf_payload_type fs @ [dt])" "96 \<le> dt"
  shows "pcm_formats_of p = map (packet_time (rf_frame_ms (hd fs))) fs"
    "List.map_filter (dtmf_format_of p) (pa_payload_order p) = [\<lparr> df_payload_type = dt, df_rate = 8000, df_events = [0..15] \<rparr>]"
proof -
  have q: "pa_payload_order p = map rf_payload_type fs @ [dt]" "pa_ptime p = rf_frame_ms (hd fs)" "pa_minptime p = 0"
    "pa_maxptime p = rf_frame_ms (hd fs)" "pa_rtpmap p = as_rtpmap (audio_read (session_read ip) port fs dt d)"
    "pa_fmtp p = as_fmtp (audio_read (session_read ip) port fs dt d)"
    using p by (auto simp: finish_scan_def Let_def audio_read_fields session_read_def initial_scan_def split: if_splits)
  note m = assoc_audio_read [OF fs(2), where st = "session_read ip" and port = port and d = d]
  have map: "offered_audio_mapping p (rf_payload_type f) = Some (mapping_of f)" if "f \<in> set fs" for f
    using fs(1) that m(1) [OF that] by (auto simp: offered_audio_mapping_def q list_all_iff offerable_def Let_def)
  have dtm: "offered_audio_mapping p dt = Some DTMF_MAPPING"
    using fs(3) m(2) by (simp add: offered_audio_mapping_def q Let_def)
  have pcm: "pcm_format_of p (rf_payload_type f) = Some (packet_time (rf_frame_ms (hd fs)) f)" if "f \<in> set fs" for f
    using fs(1) that map [OF that]
    by (auto simp: pcm_format_of_def mapping_of_def q mk_rtp_format_def packet_time_def list_all_iff offerable_def RTP_ENCODINGS_def)
  have "pcm_format_of p dt = None"
    by (simp add: pcm_format_of_def dtm DTMF_MAPPING_def)
  then show "pcm_formats_of p = map (packet_time (rf_frame_ms (hd fs))) fs"
    using map_filter_Some [of fs "pcm_format_of p" rf_payload_type "packet_time (rf_frame_ms (hd fs))"] pcm
    by (simp add: pcm_formats_of_def q map_filter_append map_filter_None)
  have "dtmf_format_of p (rf_payload_type f) = None" if "f \<in> set fs" for f
  proof -
    have "rf_encoding f \<noteq> ''TELEPHONE-EVENT''"
      using fs(1) that by (auto simp: list_all_iff offerable_def RTP_ENCODINGS_def)
    then show ?thesis using map [OF that] by (simp add: dtmf_format_of_def mapping_of_def)
  qed
  then have "List.map_filter (dtmf_format_of p) (map rf_payload_type fs) = []"
    by (intro map_filter_None) auto
  moreover have "dtmf_events_from_fmtp ''0-15'' = [0..15]" by code_simp
  then have "dtmf_format_of p dt = Some \<lparr> df_payload_type = dt, df_rate = 8000, df_events = [0..15] \<rparr>"
    using m(3) by (simp add: dtmf_format_of_def dtm DTMF_MAPPING_def q)
  ultimately show "List.map_filter (dtmf_format_of p) (pa_payload_order p) = [\<lparr> df_payload_type = dt, df_rate = 8000, df_events = [0..15] \<rparr>]"
    by (simp add: q map_filter_append map_filter_None List.map_filter_simps)
qed

text \<open>C13: An offer says what it was built from: parsed again it names the address, the port and the direction it
  was built with, offers exactly the chosen formats under their payload types and in their order, all with the
  packet time of the first, and telephone events 0 to 15 under a payload type of their own; the video section
  that follows does not disturb any of this.\<close>

theorem offer_is_read_back:
  assumes build: "build_offer_directional origin ip port send recv common video_port videos audio_direction video_direction = Inr sdp"
    and formats: "list_all valid_format (send @ recv)"
    and address: "is_token ip" "one_line origin" "1 \<le> port" "port \<le> 65535"
    and videos: "list_all one_line_video videos"
  shows "\<exists>d caps fs dt parsed. normalize_direction audio_direction = Inr d \<and>
      formats_for_local_direction send recv d = Inr caps \<and> offer_rtp_formats caps common = Inr (fs, dt) \<and>
      offered_pcm_formats sdp = Inr (map (packet_time (rf_frame_ms (hd fs))) fs) \<and>
      offered_dtmf_formats sdp = Inr [\<lparr> df_payload_type = dt, df_rate = 8000, df_events = [0..15] \<rparr>] \<and>
      parse_sdp sdp = Inr parsed \<and> pa_connection_ip parsed = ip \<and> pa_media_port parsed = port \<and>
      pa_direction parsed = d"
proof -
  obtain d vd caps fs dt ls where d: "normalize_direction audio_direction = Inr d"
    and vd: "normalize_direction video_direction = Inr vd"
    and caps: "formats_for_local_direction send recv d = Inr caps" and fs: "offer_rtp_formats caps common = Inr (fs, dt)"
    and ls: "(if videos \<noteq> [] \<and> 0 < video_port then video_media_lines_many video_port videos vd else Inr []) = Inr ls"
    and sdp: "sdp = render_sdp (session_lines origin ip [''t=0 0''] @ offer_audio_lines port fs dt d @ ls)"
    using build by (auto simp: build_offer_directional_def bindE_eq_Inr)
  have valid: "list_all valid_format caps"
    using formats formats_for_local_direction_subset [OF caps] by (auto simp: list_all_iff)
  note F = offer_rtp_formats_props [OF fs valid]
  have dd: "d \<in> set SDP_DIRECTIONS" "vd \<in> set SDP_DIRECTIONS"
    using normalize_direction_known d vd by blast+
  have other: "other_sections ls" "list_all one_line ls"
    using ls video_lines_many_other [where d = vd] videos dd by (auto simp: other_sections_def split: if_splits)
  have "list_all one_line (session_lines origin ip [''t=0 0''] @ offer_audio_lines port fs dt d @ ls)"
    using one_line_session [of origin ip "[''t=0 0'']"] address other one_line_offer_audio [OF F(2) dd(1), of port dt]
    by (simp add: CR_def LF_def)
  then have parse: "parse_sdp sdp = finish_scan (audio_read (session_read ip) port fs dt d)"
    unfolding sdp by (intro parse_offer_lines) (use address F dd other in simp_all)
  have "ip \<noteq> []" "d \<noteq> []"
    using address(1) dd(1) by (auto simp: is_token_def SDP_DIRECTIONS_def)
  then obtain p where p: "finish_scan (audio_read (session_read ip) port fs dt d) = Inr p"
    and q: "pa_connection_ip p = ip" "pa_media_port p = port" "pa_direction p = d"
    using address(3) by (auto simp: finish_scan_def Let_def audio_read_fields session_read_def initial_scan_def or_else_def)
  show ?thesis
    using d caps fs pcm_formats_read [OF p F(2,3,4)] p q parse
    by (auto simp: offered_pcm_formats_def offered_dtmf_formats_def)
qed

lemma offer_is_read_back_witness:
  "\<exists>sdp d caps fs dt parsed.
      build_offer_directional ''192.0.2.1'' ''192.0.2.1'' 40000 [fmt 8000 1 20] [fmt 8000 1 20] True 0 [] ''sendrecv'' [] = Inr sdp \<and>
      normalize_direction ''sendrecv'' = Inr d \<and>
      formats_for_local_direction [fmt 8000 1 20] [fmt 8000 1 20] d = Inr caps \<and> offer_rtp_formats caps True = Inr (fs, dt) \<and>
      offered_pcm_formats sdp = Inr (map (packet_time (rf_frame_ms (hd fs))) fs) \<and>
      offered_dtmf_formats sdp = Inr [\<lparr> df_payload_type = dt, df_rate = 8000, df_events = [0..15] \<rparr>] \<and>
      parse_sdp sdp = Inr parsed \<and> pa_connection_ip parsed = ''192.0.2.1'' \<and> pa_media_port parsed = 40000 \<and>
      pa_direction parsed = d"
proof -
  have n: "normalize_direction ''sendrecv'' = Inr ''sendrecv''" "normalize_direction [] = Inr ''sendrecv''"
    by code_simp+
  have c: "formats_for_local_direction [fmt 8000 1 20] [fmt 8000 1 20] ''sendrecv'' = Inr [fmt 8000 1 20]"
    by code_simp
  have o: "offer_rtp_formats [fmt 8000 1 20] True =
      Inr ([mk_rtp_format 8 ''PCMA'' 8000 1 20, mk_rtp_format 0 ''PCMU'' 8000 1 20, mk_rtp_format 96 ''L16'' 8000 1 20], 97)"
    by code_simp
  obtain sdp where b: "build_offer_directional ''192.0.2.1'' ''192.0.2.1'' 40000 [fmt 8000 1 20] [fmt 8000 1 20] True 0 [] ''sendrecv'' [] = Inr sdp"
    by (simp add: build_offer_directional_def n c o)
  have "list_all valid_format ([fmt 8000 1 20] @ [fmt 8000 1 20])" by code_simp
  moreover have "is_token ''192.0.2.1''" "one_line ''192.0.2.1''" by code_simp+
  ultimately show ?thesis
    using offer_is_read_back [OF b] b by fastforce
qed

section \<open>Common codecs and the packet time\<close>

definition common_offer :: "rtp_format list" where
  "common_offer =
     [mk_rtp_format 98 ''OPUS'' 48000 2 20, mk_rtp_format 8 ''PCMA'' 8000 1 20, mk_rtp_format 0 ''PCMU'' 8000 1 20,
      mk_rtp_format 96 ''L16'' 48000 1 10, mk_rtp_format 97 ''L16'' 32000 1 10, mk_rtp_format 99 ''L16'' 16000 1 10]"

lemma common_offer_formats:
  "formats_for_local_direction HA_SIP_PCM_FORMATS HA_SIP_PCM_FORMATS ''sendrecv'' = Inr HA_SIP_PCM_FORMATS"
  "offer_rtp_formats HA_SIP_PCM_FORMATS True = Inr (common_offer, 100)"
  by code_simp+

lemma common_offer_ok:
  "list_all offerable common_offer" "distinct (map rf_payload_type common_offer @ [100])"
  "rf_frame_ms (hd common_offer) = 20" "common_offer \<noteq> []"
  "normalize_direction ''sendrecv'' = Inr ''sendrecv''" "''sendrecv'' \<in> set SDP_DIRECTIONS"
  by code_simp+

text \<open>The packet time of an offer is that of its first format.  When the common codecs come first, 20 ms,
  the linear formats after them keep the 10 ms they were chosen with only in memory: the offer this side makes
  with its default formats says L16 at 48 kHz with a packet time of 20 ms, and no local format would accept it in
  an answer.\<close>

lemma common_offer_contradicts_itself:
  "\<exists>sdp formats. build_offer_directional ''192.0.2.1'' ''192.0.2.1'' 40000 HA_SIP_PCM_FORMATS HA_SIP_PCM_FORMATS True 0 []
       ''sendrecv'' ''sendrecv'' = Inr sdp \<and>
     offered_pcm_formats sdp = Inr formats \<and>
     list_ex (\<lambda>f. rf_encoding f = ''L16'' \<and> rf_rate f = 48000 \<and> rf_frame_ms f = 20 \<and>
       list_all (\<lambda>loc. rtp_compatible_audio f loc = Inr None) HA_SIP_PCM_FORMATS) formats"
proof -
  let ?ip = "''192.0.2.1''" and ?fs = common_offer
  let ?sdp = "render_sdp (session_lines ?ip ?ip [''t=0 0''] @ offer_audio_lines 40000 ?fs 100 ''sendrecv'' @ [])"
  have b: "build_offer_directional ?ip ?ip 40000 HA_SIP_PCM_FORMATS HA_SIP_PCM_FORMATS True 0 [] ''sendrecv'' ''sendrecv'' = Inr ?sdp"
    by (simp add: build_offer_directional_def common_offer_formats common_offer_ok)
  have ip: "is_token ?ip" "one_line ?ip" by code_simp+
  have "parse_sdp ?sdp = finish_scan (audio_read (session_read ?ip) 40000 ?fs 100 ''sendrecv'')"
    by (rule parse_offer_lines)
       (use common_offer_ok ip one_line_session [OF ip(2,1), of "[''t=0 0'']"]
          one_line_offer_audio [OF common_offer_ok(1,6), of 40000 100] in \<open>simp_all add: other_sections_def CR_def LF_def\<close>)
  moreover obtain p where p: "finish_scan (audio_read (session_read ?ip) 40000 ?fs 100 ''sendrecv'') = Inr p"
    by (auto simp: finish_scan_def Let_def audio_read_fields session_read_def initial_scan_def or_else_def)
  ultimately have "offered_pcm_formats ?sdp = Inr (map (packet_time 20) ?fs)"
    using pcm_formats_read(1) [OF p common_offer_ok(1,2)] common_offer_ok(3) by (simp add: offered_pcm_formats_def)
  moreover have "list_ex (\<lambda>f. rf_encoding f = ''L16'' \<and> rf_rate f = 48000 \<and> rf_frame_ms f = 20 \<and>
       list_all (\<lambda>loc. rtp_compatible_audio f loc = Inr None) HA_SIP_PCM_FORMATS) (map (packet_time 20) ?fs)"
    by code_simp
  ultimately show ?thesis using b by blast
qed

end
