(* ===== verification/Sdp_Negotiation.thy ===== *)
theory Sdp_Negotiation
  imports Sdp_Roundtrip
begin

text \<open>
  The outcome of audio negotiation in \<open>sdp.py\<close>: what a description that was read promises, when a
  match exists and what it is, and the event lists of telephone events.
\<close>

section \<open>What a read description promises\<close>

lemma foldE_invariant:
  "foldE f s xs = Inr s' \<Longrightarrow> P s \<Longrightarrow> (\<And>t x t'. P t \<Longrightarrow> f t x = Inr t' \<Longrightarrow> P t') \<Longrightarrow> P s'"
  by (induction xs arbitrary: s) (auto simp: bindE_eq_Inr)

definition payload_list :: "int list \<Rightarrow> bool" where
  "payload_list pts \<longleftrightarrow> list_all (\<lambda>p. 0 \<le> p \<and> p \<le> 127) pts"

definition scan_ok :: "audio_scan \<Rightarrow> bool" where
  "scan_ok st \<longleftrightarrow> payload_list (as_payload_order st) \<and> 0 \<le> as_media_port st \<and> as_media_port st \<le> 65535 \<and>
     as_session_direction st \<in> set SDP_DIRECTIONS \<and> as_media_direction st \<in> insert [] (set SDP_DIRECTIONS)"

lemma direction_lines: "line \<in> set DIRECTION_LINES \<Longrightarrow> drop 2 line \<in> set SDP_DIRECTIONS"
  by (auto simp: DIRECTION_LINES_def SDP_DIRECTIONS_def)

lemma scan_ok_media: "scan_ok st \<Longrightarrow> scan_media line st = Inr st' \<Longrightarrow> scan_ok st'"
  by (auto simp: scan_media_def scan_ok_def payload_list_def Let_def split: if_splits option.splits)

lemma scan_ok_connection: "scan_ok st \<Longrightarrow> scan_connection line st = Inr st' \<Longrightarrow> scan_ok st'"
  by (auto simp: scan_connection_def scan_ok_def split: if_splits)

lemma scan_ok_attribute: "scan_ok st \<Longrightarrow> scan_attribute line st = Some st' \<Longrightarrow> scan_ok st'"
proof -
  assume ok: "scan_ok st" and a: "scan_attribute line st = Some st'"
  have "scan_rtpmap t st = Some st' \<Longrightarrow> scan_ok st'" "scan_fmtp t st = Some st' \<Longrightarrow> scan_ok st'"
    "map_option (\<lambda>i. st\<lparr> as_ptime := i \<rparr>) x = Some st' \<Longrightarrow> scan_ok st'"
    "map_option (\<lambda>i. st\<lparr> as_minptime := i \<rparr>) x = Some st' \<Longrightarrow> scan_ok st'"
    "map_option (\<lambda>i. st\<lparr> as_maxptime := i \<rparr>) x = Some st' \<Longrightarrow> scan_ok st'" for t x
    using ok by (auto simp: scan_rtpmap_def scan_fmtp_def scan_ok_def split: if_splits option.splits prod.splits)
  then show "scan_ok st'"
    using a ok unfolding scan_attribute_def by (simp only: option.inject split: if_split_asm)
qed

lemma scan_ok_direction: "scan_ok st \<Longrightarrow> line \<in> set DIRECTION_LINES \<Longrightarrow> scan_ok (scan_direction line st)"
  using direction_lines by (simp add: scan_direction_def scan_ok_def)

lemma scan_ok_line: "scan_ok st \<Longrightarrow> scan_line st raw = Inr st' \<Longrightarrow> scan_ok st'"
  unfolding scan_line_def Let_def
  by (simp only: sum.inject split: if_split_asm option.split_asm)
     (blast intro: scan_ok_media scan_ok_connection scan_ok_attribute scan_ok_direction)+

lemma scan_ok_initial: "scan_ok initial_scan"
  by (simp add: scan_ok_def initial_scan_def payload_list_def SDP_DIRECTIONS_def)

lemma parse_sdp_ok:
  assumes "parse_sdp sdp = Inr p"
  shows "payload_list (pa_payload_order p)" "pa_payload_order p \<noteq> []" "1 \<le> pa_media_port p" "pa_media_port p \<le> 65535"
    "pa_direction p \<in> set SDP_DIRECTIONS" "pa_connection_ip p \<noteq> []"
proof -
  obtain st where st: "foldE scan_line initial_scan (sdp_lines sdp) = Inr st" and p: "finish_scan st = Inr p"
    using assms by (auto simp: parse_sdp_def bindE_eq_Inr)
  have ok: "scan_ok st"
    using foldE_invariant [OF st, of scan_ok] scan_ok_initial scan_ok_line by blast
  show "payload_list (pa_payload_order p)" "pa_payload_order p \<noteq> []" "1 \<le> pa_media_port p" "pa_media_port p \<le> 65535"
    "pa_direction p \<in> set SDP_DIRECTIONS" "pa_connection_ip p \<noteq> []"
    using ok p by (auto simp: finish_scan_def scan_ok_def Let_def or_else_def split: if_splits)
qed

lemma normalize_known: "d \<in> set SDP_DIRECTIONS \<Longrightarrow> normalize_direction d = Inr d"
proof -
  have "list_all (\<lambda>d. normalize_direction d = Inr d) SDP_DIRECTIONS" by code_simp
  then show "d \<in> set SDP_DIRECTIONS \<Longrightarrow> normalize_direction d = Inr d" by (auto simp: list_all_iff)
qed

section \<open>Matching never fails with an error\<close>

text \<open>A linear format has a dynamic payload type.\<close>

definition dynamic_linear :: "rtp_format \<Rightarrow> bool" where
  "dynamic_linear f \<longleftrightarrow> rf_payload_type f \<le> 127 \<and> (rf_encoding f \<in> {''L16'', ''L24''} \<longrightarrow> 96 \<le> rf_payload_type f) \<and>
     rf_encoding f \<in> {''L16'', ''L24'', ''PCMA'', ''PCMU'', ''OPUS''}"

lemma static_encodings: "assoc STATIC_RTPMAP pt = Some (e, r, c) \<Longrightarrow> e \<in> {''PCMU'', ''PCMA''}"
  by (auto simp: STATIC_RTPMAP_def split: if_splits)

lemma pcm_formats_of_dynamic:
  assumes "payload_list (pa_payload_order p)"
  shows "list_all dynamic_linear (pcm_formats_of p)"
  using assms
  by (force simp: pcm_formats_of_def List.map_filter_def pcm_format_of_def offered_audio_mapping_def list_all_iff payload_list_def
      dynamic_linear_def mk_rtp_format_def Let_def dest: static_encodings split: option.splits if_splits)

lemma rtp_compatible_total: "dynamic_linear f \<Longrightarrow> \<exists>r. rtp_compatible_audio f loc = Inr r"
  by (auto simp: rtp_compatible_audio_def audio_format_to_rtp_def dynamic_linear_def is_rtp_pcm_mappable_def split: pcm_format.splits)

lemma first_offered_total:
  "list_all dynamic_linear fs \<Longrightarrow> \<exists>r. match_in_order b fs locs = Inr r"
  unfolding match_in_order_def first_offered_match_def best_offered_match_def
  by (auto intro!: first_someE_total rtp_compatible_total simp: list_all_iff)

lemma bindE_total: "\<exists>x. m = Inr x \<Longrightarrow> (\<And>x. \<exists>y. k x = Inr y) \<Longrightarrow> \<exists>y. bindE m k = Inr y"
  by (auto simp: bindE_def)

lemma bidirectional_total:
  assumes "list_all dynamic_linear fs"
  shows "\<exists>r. bidirectional_offered_match fs send recv b = Inr r"
proof -
  have "\<exists>r. bidirectional_pair recv (f, loc) = Inr r" if f: "f \<in> set fs" for f loc
  proof -
    have d: "dynamic_linear f" using assms f by (auto simp: list_all_iff)
    obtain q where q: "rtp_compatible_audio f loc = Inr q" using rtp_compatible_total [OF d] by blast
    have "\<exists>r. first_someE (\<lambda>local_recv. bindE (rtp_compatible_audio f local_recv) (\<lambda>q. Inr (case q of
               None \<Rightarrow> None
             | Some recv \<Rightarrow>
                 if rtp_contract_key recv = rtp_contract_key x then Some \<lparr> pd_send = x, pd_recv = recv \<rparr>
                 else None))) recv = Inr r" for x
      by (intro first_someE_total ballI bindE_total rtp_compatible_total [OF d]) auto
    then show ?thesis using q by (auto simp: bidirectional_pair_def split: option.split)
  qed
  then show ?thesis
    unfolding bidirectional_offered_match_def by (intro first_someE_total) auto
qed

lemma negotiate_local_total:
  assumes "list_all dynamic_linear fs" "d \<in> set SDP_DIRECTIONS"
  shows "\<exists>r. negotiate_for_local_direction fs send recv d b = Inr r"
proof -
  obtain s r q where "match_in_order b fs send = Inr s" "match_in_order b fs recv = Inr r"
      "bidirectional_offered_match fs send recv b = Inr q"
    using first_offered_total [OF assms(1)] bidirectional_total [OF assms(1)] by meson
  then show ?thesis
    using normalize_known [OF assms(2)] by (simp add: negotiate_for_local_direction_def)
qed

lemma local_direction_known:
  assumes "d \<in> set SDP_DIRECTIONS"
  obtains l where "local_direction_for_offer d held = Inr l" "l \<in> set SDP_DIRECTIONS"
proof -
  have "local_direction_for_offer d held = Inr
      (if held then (if d \<in> {''sendrecv'', ''sendonly''} then ''recvonly'' else ''inactive'')
       else if d = ''sendrecv'' then ''sendrecv'' else if d = ''sendonly'' then ''recvonly''
       else if d = ''recvonly'' then ''sendonly'' else ''inactive'')"
    using assms normalize_known [OF assms]
    by (auto simp: local_direction_for_offer_def constrained_media_direction_def SDP_DIRECTIONS_def Let_def)
  then show ?thesis using that by (auto simp: SDP_DIRECTIONS_def split: if_splits)
qed

lemma format_direction_known:
  assumes "remote \<in> set SDP_DIRECTIONS" "loc \<in> set SDP_DIRECTIONS" "dflt \<in> set SDP_DIRECTIONS"
  obtains d where "format_direction_for_remote remote loc dflt = Inr d" "d \<in> {''sendrecv'', ''sendonly'', ''recvonly''}"
proof -
  have "\<exists>d. format_direction_for_remote remote loc dflt = Inr d \<and> d \<in> {''sendrecv'', ''sendonly'', ''recvonly''}"
    using assms normalize_known by (auto simp: format_direction_for_remote_def SDP_DIRECTIONS_def)
  then show ?thesis using that by blast
qed

section \<open>What a match means\<close>

text \<open>The format \<open>f\<close> is the offered one, with the packet time of a local format that is the same PCM.\<close>

definition matched :: "rtp_format \<Rightarrow> audio_format \<Rightarrow> rtp_format \<Rightarrow> bool" where
  "matched offered loc f \<longleftrightarrow>
     rf_encoding f = rf_encoding offered \<and> rf_channels f = rf_channels offered \<and>
     (rf_rate f = rf_rate offered \<or> rf_encoding f = ''OPUS'') \<and>
     rf_payload_type f = rf_payload_type offered \<and> rf_frame_ms f = af_frame_ms loc \<and>
     frame_ms_acceptable offered (rf_frame_ms f) \<and>
     (case rtp_audio_format f of Inr a \<Rightarrow> format_key a = format_key loc | Inl _ \<Rightarrow> False)"

lemma valid_frame: "valid_format loc \<Longrightarrow> af_frame_ms loc \<noteq> 0"
  by (auto simp: valid_format_iff SUPPORTED_FRAME_MS_def)

lemma make_valid: "valid_format f \<Longrightarrow> make_format (af_rate f) p (af_channels f) (af_frame_ms f) = Inr (f\<lparr> af_pcm := p \<rparr>)"
  by (simp add: valid_format_iff make_format_def)

lemma compatible_matched:
  assumes "rtp_compatible_audio offered loc = Inr (Some f)" "valid_format loc"
  shows "matched offered loc f"
proof -
  have v: "af_frame_ms loc \<noteq> 0" using assms(2) by (rule valid_frame)
  have ms: "frame_ms_acceptable offered (af_frame_ms loc)"
    using assms(1) by (auto simp: rtp_compatible_audio_def split: if_splits)
  note mk = make_valid [OF assms(2)]
  consider "rf_encoding offered = ''OPUS''" | "rf_encoding offered \<in> {''PCMA'', ''PCMU''}"
    | "rf_encoding offered \<notin> {''OPUS'', ''PCMA'', ''PCMU''}" by auto
  then show ?thesis
  proof cases
    case 1
    then have "f = mk_rtp_format (rf_payload_type offered) ''OPUS'' 48000 (rf_channels offered) (af_frame_ms loc)"
      "af_pcm loc = S16LE" "af_rate loc = 48000" "af_channels loc = rf_channels offered"
      using assms(1) ms by (auto simp: rtp_compatible_audio_def split: if_splits)
    then show ?thesis
      using 1 ms v mk [of S16LE]
      by (simp add: matched_def mk_rtp_format_def rtp_audio_format_def format_key_def)
  next
    case 2
    then have "f = mk_rtp_format (rf_payload_type offered) (rf_encoding offered) (rf_rate offered) (rf_channels offered) (af_frame_ms loc)"
      "af_pcm loc = S16LE" "af_rate loc = rf_rate offered" "af_channels loc = rf_channels offered"
      using assms(1) ms by (auto simp: rtp_compatible_audio_def split: if_splits)
    then show ?thesis
      using 2 ms v mk [of S16LE]
      by (auto simp: matched_def mk_rtp_format_def rtp_audio_format_def format_key_def)
  next
    case 3
    then have r: "audio_format_to_rtp loc (rf_payload_type offered) = Inr f" and same: "same_rtp_audio_codec f offered"
      using assms(1) ms by (auto simp: rtp_compatible_audio_def bindE_eq_Inr same_rtp_audio_codec_def split: if_splits)
    have "rtp_audio_format f = Inr (loc\<lparr> af_pcm := if af_pcm loc = S24LE_IN_S32 then S24LE else af_pcm loc \<rparr>)
        \<and> rf_payload_type f = rf_payload_type offered \<and> rf_frame_ms f = af_frame_ms loc"
      using r mk by (auto simp: audio_format_to_rtp_def rtp_audio_format_def mk_rtp_format_def split: if_splits pcm_format.splits)
    then show ?thesis
      using ms same by (simp add: matched_def format_key_def same_rtp_audio_codec_def)
  qed
qed

section \<open>The outcome of a negotiation\<close>

definition supported :: "rtp_format list \<Rightarrow> audio_format list \<Rightarrow> rtp_format \<Rightarrow> bool" where
  "supported offered locs f \<longleftrightarrow> (\<exists>o_fmt \<in> set offered. \<exists>loc \<in> set locs. matched o_fmt loc f)"

definition unmatched :: "rtp_format list \<Rightarrow> audio_format list \<Rightarrow> bool" where
  "unmatched offered locs \<longleftrightarrow> (\<forall>o_fmt \<in> set offered. \<forall>loc \<in> set locs. rtp_compatible_audio o_fmt loc = Inr None)"

definition unmatched_pair :: "rtp_format list \<Rightarrow> audio_format list \<Rightarrow> audio_format list \<Rightarrow> bool" where
  "unmatched_pair offered send recv \<longleftrightarrow>
     (\<forall>o_fmt \<in> set offered. \<forall>l \<in> set send. \<forall>m \<in> set recv. \<forall>s r.
        rtp_compatible_audio o_fmt l = Inr (Some s) \<and> rtp_compatible_audio o_fmt m = Inr (Some r) \<longrightarrow>
        rtp_contract_key s \<noteq> rtp_contract_key r)"

definition nothing_in_common :: "string \<Rightarrow> rtp_format list \<Rightarrow> audio_format list \<Rightarrow> audio_format list \<Rightarrow> bool" where
  "nothing_in_common direction offered send recv \<longleftrightarrow>
     (if direction = ''sendonly'' then unmatched offered send
      else if direction = ''recvonly'' then unmatched offered recv
      else unmatched_pair offered send recv)"

definition agreed :: "string \<Rightarrow> rtp_format list \<Rightarrow> audio_format list \<Rightarrow> audio_format list \<Rightarrow> pcm_direction \<Rightarrow> bool" where
  "agreed direction offered send recv d \<longleftrightarrow>
     rtp_contract_key (pd_send d) = rtp_contract_key (pd_recv d) \<and>
     (direction = ''recvonly'' \<or> supported offered send (pd_send d)) \<and>
     (direction = ''sendonly'' \<or> supported offered recv (pd_recv d))"

lemma match_in_order_Some:
  assumes "match_in_order b offered locs = Inr (Some f)" "list_all valid_format locs"
  shows "supported offered locs f"
  using assms
  by (auto simp: match_in_order_def first_offered_match_def best_offered_match_def supported_def list_all_iff
      dest!: first_someE_SomeD split: if_splits intro: compatible_matched)

lemma match_in_order_None: "match_in_order b offered locs = Inr None \<Longrightarrow> unmatched offered locs"
  unfolding match_in_order_def first_offered_match_def best_offered_match_def unmatched_def
  by (metis first_someE_None)

lemma bidirectional_pair_Some:
  assumes "bidirectional_pair recv (f, l) = Inr (Some d)"
  obtains m where "m \<in> set recv" "rtp_compatible_audio f l = Inr (Some (pd_send d))"
    "rtp_compatible_audio f m = Inr (Some (pd_recv d))" "rtp_contract_key (pd_recv d) = rtp_contract_key (pd_send d)"
proof -
  obtain y where y: "rtp_compatible_audio f l = Inr (Some y)" and "first_someE (\<lambda>local_recv.
      bindE (rtp_compatible_audio f local_recv) (\<lambda>q. Inr (case q of
         None \<Rightarrow> None
       | Some recv \<Rightarrow> if rtp_contract_key recv = rtp_contract_key y then Some \<lparr> pd_send = y, pd_recv = recv \<rparr> else None))) recv = Inr (Some d)"
    using assms by (auto simp: bidirectional_pair_def bindE_eq_Inr split: option.splits)
  then obtain m q where "m \<in> set recv" "rtp_compatible_audio f m = Inr (Some q)"
      "rtp_contract_key q = rtp_contract_key y" "d = \<lparr> pd_send = y, pd_recv = q \<rparr>"
    by (auto dest!: first_someE_SomeD simp: bindE_eq_Inr split: option.split_asm if_split_asm) metis
  then show ?thesis using that y by simp
qed

lemma pairs_in_order:
  "set (if b then List.product xs ys else map prod.swap (List.product ys xs)) = set xs \<times> set ys"
  by auto

lemma bidirectional_Some:
  assumes "bidirectional_offered_match offered send recv b = Inr (Some d)" "list_all valid_format (send @ recv)"
  shows "agreed ''sendrecv'' offered send recv d"
proof -
  obtain f l where fl: "f \<in> set offered" "l \<in> set send" "bidirectional_pair recv (f, l) = Inr (Some d)"
    using first_someE_SomeD [OF assms(1) [unfolded bidirectional_offered_match_def]] unfolding pairs_in_order by auto
  obtain m where "m \<in> set recv" "rtp_compatible_audio f l = Inr (Some (pd_send d))"
    "rtp_compatible_audio f m = Inr (Some (pd_recv d))" "rtp_contract_key (pd_recv d) = rtp_contract_key (pd_send d)"
    by (rule bidirectional_pair_Some [OF fl(3)])
  then show ?thesis
    using fl assms(2) compatible_matched by (auto simp: agreed_def supported_def list_all_iff) blast+
qed

lemma bidirectional_None:
  assumes "bidirectional_offered_match offered send recv b = Inr None"
  shows "unmatched_pair offered send recv"
  unfolding unmatched_pair_def
proof (intro ballI allI impI, elim conjE)
  fix f l m s r
  assume f: "f \<in> set offered" and l: "l \<in> set send" and m: "m \<in> set recv"
    and s: "rtp_compatible_audio f l = Inr (Some s)" and r: "rtp_compatible_audio f m = Inr (Some r)"
  have "(f, l) \<in> set (if b then List.product offered send else map prod.swap (List.product send offered))"
    using f l unfolding pairs_in_order by simp
  then have "bidirectional_pair recv (f, l) = Inr None"
    by (rule first_someE_None [OF assms [unfolded bidirectional_offered_match_def]])
  then show "rtp_contract_key s \<noteq> rtp_contract_key r"
    using first_someE_None [OF _ m] s r by (force simp: bidirectional_pair_def bindE_eq_Inr split: if_splits)
qed

lemma negotiate_local_outcome:
  assumes "negotiate_for_local_direction offered send recv d b = Inr r" "list_all valid_format (send @ recv)"
    and "d \<in> {''sendrecv'', ''sendonly'', ''recvonly''}"
  shows "case r of None \<Rightarrow> nothing_in_common d offered send recv | Some x \<Rightarrow> agreed d offered send recv x"
proof -
  have n: "normalize_direction d = Inr d"
    using assms(3) by (intro normalize_known) (auto simp: SDP_DIRECTIONS_def)
  show ?thesis
    using assms n match_in_order_None match_in_order_Some [where b = b] bidirectional_None
      bidirectional_Some [where b = b and send = send and recv = recv]
    by (auto simp: negotiate_for_local_direction_def bindE_eq_Inr both_ways_def nothing_in_common_def agreed_def
        split: if_splits option.splits)
qed

text \<open>C14: Audio negotiation never fails on a description that was read: either nothing offered suits a local
  format in the direction that is used, or the outcome is one contract, whose payload type and codec are offered
  and whose PCM is that of a local format of each used direction, with a packet time the offer allows.\<close>

theorem negotiated_audio_is_supported:
  assumes "parse_sdp sdp = Inr parsed" "list_all valid_format (send @ recv)"
  shows "\<exists>loc d offered result. local_direction_for_offer (pa_direction parsed) (pa_connection_held parsed) = Inr loc \<and>
    format_direction_for_remote (pa_direction parsed) loc ''sendrecv'' = Inr d \<and>
    offered_pcm_formats sdp = Inr offered \<and> negotiate_directional sdp send recv = Inr result \<and>
    (case result of None \<Rightarrow> nothing_in_common d offered send recv | Some x \<Rightarrow> agreed d offered send recv x)"
proof -
  note ok = parse_sdp_ok [OF assms(1)]
  obtain loc where loc: "local_direction_for_offer (pa_direction parsed) (pa_connection_held parsed) = Inr loc" "loc \<in> set SDP_DIRECTIONS"
    using local_direction_known [OF ok(5)] by blast
  obtain d where d: "format_direction_for_remote (pa_direction parsed) loc ''sendrecv'' = Inr d"
      "d \<in> {''sendrecv'', ''sendonly'', ''recvonly''}"
    using format_direction_known [OF ok(5) loc(2), of "''sendrecv''"] by (auto simp: SDP_DIRECTIONS_def)
  let ?offered = "pcm_formats_of parsed"
  have "d \<in> set SDP_DIRECTIONS" using d(2) by (auto simp: SDP_DIRECTIONS_def)
  then obtain r where r: "negotiate_for_local_direction ?offered send recv d False = Inr r"
    using negotiate_local_total [OF pcm_formats_of_dynamic [OF ok(1)]] by blast
  have "negotiate_directional sdp send recv = Inr r" "offered_pcm_formats sdp = Inr ?offered"
    using assms(1) loc d r by (simp_all add: negotiate_directional_def offered_pcm_formats_def)
  then show ?thesis
    using loc d negotiate_local_outcome [OF r assms(2) d(2)] by blast
qed

lemma negotiated_audio_is_supported_witness:
  "\<exists>parsed loc d offered result. parse_sdp (render_sdp [''c=IN IP4 h'', ''m=audio 9 RTP/AVP 0'']) = Inr parsed \<and>
    local_direction_for_offer (pa_direction parsed) (pa_connection_held parsed) = Inr loc \<and>
    format_direction_for_remote (pa_direction parsed) loc ''sendrecv'' = Inr d \<and>
    offered_pcm_formats (render_sdp [''c=IN IP4 h'', ''m=audio 9 RTP/AVP 0'']) = Inr offered \<and>
    negotiate_directional (render_sdp [''c=IN IP4 h'', ''m=audio 9 RTP/AVP 0'']) [fmt 8000 1 20] [fmt 8000 1 20] = Inr result \<and>
    (case result of None \<Rightarrow> nothing_in_common d offered [fmt 8000 1 20] [fmt 8000 1 20]
     | Some x \<Rightarrow> agreed d offered [fmt 8000 1 20] [fmt 8000 1 20] x)"
proof -
  have p: "parse_sdp (render_sdp [''c=IN IP4 h'', ''m=audio 9 RTP/AVP 0'']) = Inr
      \<lparr> pa_connection_ip = ''h'', pa_media_port = 9, pa_payload_order = [0], pa_rtpmap = [], pa_fmtp = [],
        pa_ptime = 0, pa_minptime = 0, pa_maxptime = 0, pa_direction = ''sendrecv'', pa_connection_held = False \<rparr>"
    by code_simp
  have v: "list_all valid_format ([fmt 8000 1 20] @ [fmt 8000 1 20])" by code_simp
  show ?thesis
    using negotiated_audio_is_supported [OF p v] p by blast
qed

section \<open>Telephone events\<close>

lemma py_int_dec_byte [simp]: "0 \<le> i \<Longrightarrow> i \<le> 255 \<Longrightarrow> py_int (dec_int i) = Some i"
  by simp

lemma dec_int_letters: "0 \<le> i \<Longrightarrow> c \<in> set (dec_int i) \<Longrightarrow> is_digit c"
  using dec_digits by (auto simp: dec_int_def)

lemma event_range_rendered:
  assumes "0 \<le> a" "a \<le> b" "b \<le> 255"
  shows "event_range (render_range a b) = Some [a..b]"
proof (cases "a = b")
  case True
  have "CHR ''-'' \<notin> set (dec_int b)"
    using dec_int_letters [of b "CHR ''-''"] assms by (auto simp: is_digit_def)
  then have "before (CHR ''-'') (dec_int b) = dec_int b" "\<not> contains (CHR ''-'') (dec_int b)"
    by (auto simp: before_def contains_def takeWhile_eq_all_conv)
  then show ?thesis
    using True assms by (simp add: render_range_def event_range_def strip_token)
next
  case False
  have m: "CHR ''-'' \<notin> set (dec_int a)"
    using dec_int_letters [of a "CHR ''-''"] assms by (auto simp: is_digit_def)
  have t: "is_token (dec_int a @ CHR ''-'' # dec_int b)"
    using dec_int_token [of a] dec_int_token [of b] by (auto simp: is_token_def is_space_def simp del: dec_int_token)
  have "before (CHR ''-'') (dec_int a @ CHR ''-'' # dec_int b) = dec_int a"
    using m unfolding before_def by (subst takeWhile_append2) auto
  moreover have "after (CHR ''-'') (dec_int a @ CHR ''-'' # dec_int b) = dec_int b"
    using m unfolding after_def by (subst dropWhile_append2) auto
  ultimately show ?thesis
    using False assms t by (simp add: render_range_def event_range_def strip_token contains_def)
qed

lemma group_ranges_read:
  assumes "0 \<le> start" "start \<le> previous" "sorted_wrt (<) (previous # vs)" "\<forall>v \<in> set (previous # vs). v \<le> 255"
  shows "None \<notin> set (map event_range (group_ranges start previous vs)) \<and>
    set (concat (map (\<lambda>r. the (event_range r)) (group_ranges start previous vs))) = {start..previous} \<union> set vs"
  using assms
proof (induction start previous vs rule: group_ranges.induct)
  case (1 start previous)
  then show ?case by (simp add: event_range_rendered)
next
  case (2 start previous v vs)
  show ?case
  proof (cases "v = previous + 1")
    case True
    have "None \<notin> set (map event_range (group_ranges start v vs)) \<and>
        set (concat (map (\<lambda>r. the (event_range r)) (group_ranges start v vs))) = {start..v} \<union> set vs"
      using 2 True by auto
    then show ?thesis using True 2(4) by auto
  next
    case False
    have "None \<notin> set (map event_range (group_ranges v v vs)) \<and>
        set (concat (map (\<lambda>r. the (event_range r)) (group_ranges v v vs))) = {v..v} \<union> set vs"
      using 2 False by auto
    then show ?thesis
      using 2 False event_range_rendered [of start previous] by auto
  qed
qed

lemma range_letters: "0 \<le> a \<Longrightarrow> a \<le> b \<Longrightarrow> CHR '','' \<notin> set (render_range a b)"
  using dec_int_letters [of a "CHR '',''"] dec_int_letters [of b "CHR '',''"]
  by (auto simp: render_range_def is_digit_def)

lemma group_ranges_letters:
  "0 \<le> start \<Longrightarrow> start \<le> previous \<Longrightarrow> sorted_wrt (<) (previous # vs) \<Longrightarrow>
   r \<in> set (group_ranges start previous vs) \<Longrightarrow> CHR '','' \<notin> set r"
  by (induction start previous vs rule: group_ranges.induct) (auto simp: range_letters split: if_splits)

lemma group_ranges_nonempty: "group_ranges start previous vs \<noteq> []"
  by (induction start previous vs rule: group_ranges.induct) auto

lemma group_ranges_start: "set (dec_int start) \<subseteq> set (hd (group_ranges start previous vs))"
  by (induction start previous vs rule: group_ranges.induct) (auto simp: render_range_def)

lemma hd_join: "ps \<noteq> [] \<Longrightarrow> set (hd ps) \<subseteq> set (join sep ps)"
  by (induction sep ps rule: join.induct) auto

text \<open>The compact event list written for telephone events reads back as exactly the events it was written
  from, those between 0 and 255, in ranges or alone, in whatever order and however often they were given.\<close>

lemma dtmf_events_read_back:
  assumes "list_ex (\<lambda>e. 0 \<le> e \<and> e \<le> 255) es"
  shows "set (dtmf_events_from_fmtp (format_dtmf_events es)) = {e \<in> set es. 0 \<le> e \<and> e \<le> 255}"
proof -
  let ?es = "filter (\<lambda>e. 0 \<le> e \<and> e \<le> 255) es"
  have set_es: "set (sort (remdups ?es)) = {e \<in> set es. 0 \<le> e \<and> e \<le> 255}" by auto
  then obtain v vs where vs: "sort (remdups ?es) = v # vs"
    using assms by (cases "sort (remdups ?es)") (auto simp: list_ex_iff)
  have sorted: "sorted_wrt (<) (v # vs)"
    using vs by (metis distinct_remdups distinct_sort sorted_sort strict_sorted_iff)
  have rng: "0 \<le> v" "\<forall>w \<in> set (v # vs). w \<le> 255"
    using set_es unfolding vs by auto
  let ?rs = "group_ranges v v vs"
  have written: "format_dtmf_events es = join '','' ?rs"
    by (simp add: format_dtmf_events_def vs)
  have parts: "split_on (CHR '','') (join '','' ?rs) = ?rs"
    by (rule split_on_join [OF group_ranges_nonempty]) (use group_ranges_letters [OF rng(1) order.refl sorted] in blast)
  have read: "None \<notin> set (map event_range ?rs) \<and> set (concat (map (\<lambda>r. the (event_range r)) ?rs)) = {v..v} \<union> set vs"
    by (rule group_ranges_read) (use rng sorted in auto)
  have "\<exists>c \<in> set (join '','' ?rs). is_digit c"
  proof -
    have "hd (dec_int v) \<in> set (dec_int v)" by (rule hd_in_set) (use dec_int_token [of v] in \<open>simp add: is_token_def\<close>)
    moreover have "set (dec_int v) \<subseteq> set (hd ?rs)" "set (hd ?rs) \<subseteq> set (join '','' ?rs)"
      by (rule group_ranges_start, rule hd_join [OF group_ranges_nonempty])
    ultimately show ?thesis using dec_int_letters [OF rng(1)] by blast
  qed
  then have "strip (join '','' ?rs) \<noteq> []"
    using set_unstripped [of "join '','' ?rs"] is_digit_not_space by fastforce
  then show ?thesis
    using read set_es unfolding vs by (simp add: dtmf_events_from_fmtp_def written parts comp_def)
qed

lemma dtmf_events_read_back_witness:
  "format_dtmf_events [5, 0, 1, 2, 300, 1] = ''0-2,5'' \<and> set (dtmf_events_from_fmtp (format_dtmf_events [5, 0, 1, 2, 300, 1])) = {0, 1, 2, 5}"
proof -
  have "list_ex (\<lambda>e :: int. 0 \<le> e \<and> e \<le> 255) [5, 0, 1, 2, 300, 1]" by simp
  moreover have "{e \<in> set [5, 0, 1, 2, 300, 1]. 0 \<le> e \<and> e \<le> 255} = {0, 1, 2, 5 :: int}" by auto
  moreover have "format_dtmf_events [5, 0, 1, 2, 300, 1] = ''0-2,5''" by code_simp
  ultimately show ?thesis using dtmf_events_read_back by metis
qed

end
