(* ===== verification/H264_Rtp.thy ===== *)
theory H264_Rtp
  imports Rtp
begin

text \<open>
  \<open>custom_components/voip_stack/video_rtp.py\<close>, H.264: Annex B byte streams, the packetizer of
  RFC 6184 mode 1 and the depacketizer.

  Bytes are \<^typ>\<open>int\<close> values; indices into a byte string are \<^typ>\<open>nat\<close>.  A method of
  the depacketizer that may raise returns the outcome with the state it leaves, since the caller
  catches the exception and keeps the object.
\<close>

section \<open>Annex B\<close>

definition ANNEX_B_START_CODE :: "int list" where "ANNEX_B_START_CODE = [0, 0, 0, 1]"
definition DEFAULT_MAX_RTP_PAYLOAD :: int where "DEFAULT_MAX_RTP_PAYLOAD = 1200"
definition MAX_ACCESS_UNIT_BYTES :: nat where "MAX_ACCESS_UNIT_BYTES = 4 * 1024 * 1024"
definition MAX_NAL_UNIT_BYTES :: nat where "MAX_NAL_UNIT_BYTES = 2 * 1024 * 1024"
definition MAX_ACCESS_UNIT_NALS :: nat where "MAX_ACCESS_UNIT_NALS = 512"

text \<open>The scan for start codes, over what is left of the data from \<open>index\<close> on.\<close>

fun start_codes :: "nat \<Rightarrow> int list \<Rightarrow> (nat \<times> nat) list" where
  "start_codes index [] = []"
| "start_codes index (b # rest) =
     (if length (b # rest) < 3 then []
      else if take 4 (b # rest) = ANNEX_B_START_CODE
        then (index, 4) # start_codes (index + 4) (drop 3 rest)
      else if take 3 (b # rest) = [0, 0, 1]
        then (index, 3) # start_codes (index + 3) (drop 2 rest)
      else start_codes (index + 1) rest)"

definition trim_zeros :: "int list \<Rightarrow> int list" where
  "trim_zeros nal = rev (dropWhile (\<lambda>b. b = 0) (rev nal))"

fun cut_nals :: "int list \<Rightarrow> (nat \<times> nat) list \<Rightarrow> exn + int list list" where
  "cut_nals data [] = Inr []"
| "cut_nals data ((start, prefix_len) # starts) =
     (let nal_start = start + prefix_len;
          nal_end = (case starts of [] \<Rightarrow> length data | (s, _) # _ \<Rightarrow> s);
          nal = trim_zeros (take (nal_end - nal_start) (drop nal_start data))
      in if nal = [] then cut_nals data starts
         else if length nal > MAX_NAL_UNIT_BYTES
           then Inl (H264RtpError ''H.264 NAL unit exceeds safety limit'')
         else bindE (cut_nals data starts) (\<lambda>out. Inr (nal # out)))"

definition split_annex_b :: "int list \<Rightarrow> exn + int list list" where
  "split_annex_b data =
     (if data = [] then Inr []
      else
        let starts = start_codes 0 data
        in if starts = [] then Inl (H264RtpError ''H.264 access unit is not Annex B'')
           else bindE (cut_nals data starts) (\<lambda>out.
             if out = [] then Inl (H264RtpError ''H.264 access unit has no NAL units'')
             else if length out > MAX_ACCESS_UNIT_NALS
               then Inl (H264RtpError ''H.264 access unit has too many NAL units'')
             else Inr out))"

definition nals_size :: "int list list \<Rightarrow> nat" where
  "nals_size nals = sum_list (map (\<lambda>nal. length nal + 4) nals)"

definition join_annex_b :: "int list list \<Rightarrow> exn + int list" where
  "join_annex_b nals =
     (if nals = [] then Inl (H264RtpError ''cannot build an empty H.264 access unit'')
      else if nals_size nals > MAX_ACCESS_UNIT_BYTES
        then Inl (H264RtpError ''H.264 access unit exceeds safety limit'')
      else Inr (concat (map (\<lambda>nal. ANNEX_B_START_CODE @ nal) nals)))"

section \<open>The depacketizer\<close>

record h264_unit =
  au_data :: "int list"
  au_timestamp :: int
  au_key_frame :: bool

record h264_depacketizer =
  hd_timestamp :: "int option"
  hd_expected :: "int option"
  hd_nals :: "int list list"
  hd_fu :: "int list option"
  hd_damaged :: bool
  hd_sps :: "int list option"
  hd_pps :: "int list option"
  hd_dropped :: int
  hd_gaps :: int

definition nal_type :: "int list \<Rightarrow> int" where
  "nal_type nal = nal ! 0 AND 0x1F"

text \<open>The cache of parameter sets takes a sequence or a picture parameter set.\<close>

definition remember_parameter_set :: "int list \<Rightarrow> h264_depacketizer \<Rightarrow> h264_depacketizer" where
  "remember_parameter_set nal d =
     (if nal_type nal = 7 then d\<lparr> hd_sps := Some nal \<rparr>
      else if nal_type nal = 8 then d\<lparr> hd_pps := Some nal \<rparr>
      else d)"

definition new_h264_depacketizer :: "int list list \<Rightarrow> h264_depacketizer" where
  "new_h264_depacketizer parameter_sets =
     fold (\<lambda>nal d. if nal = [] then d else remember_parameter_set nal d) parameter_sets
       \<lparr> hd_timestamp = None, hd_expected = None, hd_nals = [], hd_fu = None, hd_damaged = False,
         hd_sps = None, hd_pps = None, hd_dropped = 0, hd_gaps = 0 \<rparr>"

definition reset_h264 :: "h264_depacketizer \<Rightarrow> h264_depacketizer" where
  "reset_h264 d = d\<lparr> hd_timestamp := None, hd_expected := None, hd_nals := [], hd_fu := None,
     hd_damaged := False \<rparr>"

definition parameter_sets :: "h264_depacketizer \<Rightarrow> int list list" where
  "parameter_sets d = List.map_filter (\<lambda>x. x) [hd_sps d, hd_pps d]"

definition damage :: "h264_depacketizer \<Rightarrow> h264_depacketizer" where
  "damage d = d\<lparr> hd_damaged := True, hd_fu := None \<rparr>"

type_synonym h264_step = "(exn + unit) \<times> h264_depacketizer"

definition append_nal :: "int list \<Rightarrow> h264_depacketizer \<Rightarrow> h264_step" where
  "append_nal nal d =
     (if nal = [] \<or> length nal > MAX_NAL_UNIT_BYTES
        then (Inl (H264RtpError ''invalid H.264 NAL unit size''), d)
      else if \<not> (1 \<le> nal_type nal \<and> nal_type nal \<le> 23)
        then (Inl (H264RtpError ''invalid nested H.264 packetization NAL type''), d)
      else if length (hd_nals d) \<ge> MAX_ACCESS_UNIT_NALS
        then (Inl (H264RtpError ''too many H.264 NAL units''), d)
      else
        let d1 = d\<lparr> hd_nals := hd_nals d @ [nal] \<rparr>
        in if nals_size (hd_nals d1) > MAX_ACCESS_UNIT_BYTES
             then (Inl (H264RtpError ''H.264 access unit exceeds safety limit''), d1)
           else (Inr (), d1))"

text \<open>The loop over a STAP-A, over what is left of the payload from \<open>offset\<close> on; each round
  consumes at least three bytes.\<close>

function stap_a :: "int list \<Rightarrow> nat \<Rightarrow> h264_depacketizer \<Rightarrow> h264_step" where
  "stap_a rest appended d =
     (if rest = [] then
        (if appended = 0 then (Inl (H264RtpError ''empty STAP-A''), d) else (Inr (), d))
      else if length rest < 2 then (Inl (H264RtpError ''truncated STAP-A length''), d)
      else
        let size = nat (u16_at rest 0); body = drop 2 rest
        in if size = 0 \<or> size > length body
             then (Inl (H264RtpError ''invalid STAP-A NAL size''), d)
           else
             case append_nal (take size body) d of
               (Inl e, d1) \<Rightarrow> (Inl e, d1)
             | (Inr _, d1) \<Rightarrow> stap_a (drop size body) (appended + 1) d1)"
  by pat_completeness auto
termination by (relation "measure (\<lambda>(rest, _). length rest)") auto

declare stap_a.simps [simp del]

definition fu_a :: "int list \<Rightarrow> h264_depacketizer \<Rightarrow> h264_step" where
  "fu_a pl d =
     (if length pl < 3 then (Inl (H264RtpError ''truncated FU-A''), d)
      else
        let indicator = pl ! 0;
            header = pl ! 1;
            start = (header AND 0x80 \<noteq> 0);
            final = (header AND 0x40 \<noteq> 0);
            reconstructed_type = header AND 0x1F;
            first = (indicator AND 0xE0) OR reconstructed_type;
            fragment = drop 2 pl
        in if \<not> (1 \<le> reconstructed_type \<and> reconstructed_type \<le> 23) \<or> header AND 0x20 \<noteq> 0
              \<or> start \<and> final
             then (Inl (H264RtpError ''invalid FU-A header''), d)
           else if fragment = [] then (Inl (H264RtpError ''empty FU-A fragment''), d)
           else if start \<and> hd_fu d \<noteq> None then (Inl (H264RtpError ''nested FU-A start''), d)
           else if \<not> start \<and> hd_fu d = None
             then (Inl (H264RtpError ''FU-A continuation without start''), d)
           else
             let fu = (if start then [first] else the (hd_fu d));
                 d1 = d\<lparr> hd_fu := Some fu \<rparr>
             in if fu ! 0 \<noteq> first
                  then (Inl (H264RtpError ''FU-A NRI/type changed during fragmentation''), d1)
                else
                  let d2 = d1\<lparr> hd_fu := Some (fu @ fragment) \<rparr>
                  in if length (fu @ fragment) > MAX_NAL_UNIT_BYTES
                       then (Inl (H264RtpError ''FU-A NAL exceeds safety limit''), d2)
                     else if final then append_nal (fu @ fragment) (d2\<lparr> hd_fu := None \<rparr>)
                     else (Inr (), d2))"

definition consume_payload :: "int list \<Rightarrow> h264_depacketizer \<Rightarrow> h264_step" where
  "consume_payload pl d =
     (let ty = pl ! 0 AND 0x1F in
      if 1 \<le> ty \<and> ty \<le> 23 then
        (if hd_fu d \<noteq> None then (Inl (H264RtpError ''single NAL interrupted an FU-A''), d)
         else append_nal pl d)
      else if ty = 24 then
        (if hd_fu d \<noteq> None then (Inl (H264RtpError ''STAP-A interrupted an FU-A''), d)
         else stap_a (drop 1 pl) 0 d)
      else if ty = 28 then fu_a pl d
      else (Inl (H264RtpError ''unsupported RFC 6184 NAL packet type''), d))"

text \<open>The parameter sets put before a key frame that does not carry its own.\<close>

definition bootstrap :: "h264_depacketizer \<Rightarrow> int list list \<Rightarrow> int list list" where
  "bootstrap d nals =
     (let present = map nal_type nals
      in (case hd_sps d of Some sps \<Rightarrow> if 7 \<notin> set present then [sps] else [] | None \<Rightarrow> []) @
         (case hd_pps d of Some pps \<Rightarrow> if 8 \<notin> set present then [pps] else [] | None \<Rightarrow> []))"

definition finish_unit :: "int \<Rightarrow> h264_depacketizer \<Rightarrow> h264_unit option \<times> h264_depacketizer" where
  "finish_unit ts d =
     (let received = hd_nals d;
          damaged = (hd_damaged d \<or> hd_fu d \<noteq> None \<or> received = []);
          d1 = d\<lparr> hd_timestamp := None, hd_expected := None, hd_nals := [], hd_fu := None,
                  hd_damaged := False \<rparr>
      in if damaged then (None, d1\<lparr> hd_dropped := hd_dropped d1 + 1 \<rparr>)
         else
           let key_frame = list_ex (\<lambda>nal. nal_type nal = 5) received;
               nals = (if key_frame then bootstrap d1 received @ received else received)
           in case join_annex_b nals of
                Inl _ \<Rightarrow> (None, d1\<lparr> hd_dropped := hd_dropped d1 + 1 \<rparr>)
              | Inr data \<Rightarrow>
                  (Some \<lparr> au_data = data, au_timestamp = ts, au_key_frame = key_frame \<rparr>,
                   fold remember_parameter_set received d1))"

text \<open>The head of \<open>push\<close>: a new timestamp drops an unfinished unit, a sequence gap damages
  the current one.\<close>

definition enter_packet :: "rtp_packet \<Rightarrow> h264_depacketizer \<Rightarrow> h264_depacketizer" where
  "enter_packet p d =
     (let d1 =
        (case hd_timestamp d of
           None \<Rightarrow> d\<lparr> hd_timestamp := Some (timestamp p) \<rparr>
         | Some ts \<Rightarrow>
             if timestamp p \<noteq> ts then
               d\<lparr> hd_dropped := hd_dropped d + (if hd_nals d \<noteq> [] \<or> hd_fu d \<noteq> None then 1 else 0),
                  hd_timestamp := Some (timestamp p), hd_expected := None, hd_nals := [],
                  hd_fu := None, hd_damaged := False \<rparr>
             else d);
          d2 =
        (case hd_expected d1 of
           Some s \<Rightarrow>
             if sequence p \<noteq> s then damage (d1\<lparr> hd_gaps := hd_gaps d1 + 1 \<rparr>) else d1
         | None \<Rightarrow> d1)
      in d2\<lparr> hd_expected := Some (next_sequence (sequence p)) \<rparr>)"

definition h264_push ::
  "rtp_packet \<Rightarrow> h264_depacketizer \<Rightarrow> h264_unit option \<times> h264_depacketizer" where
  "h264_push p d =
     (let d1 =
        (if payload p = [] then damage d
         else case consume_payload (payload p) (enter_packet p d) of
                (Inl _, d') \<Rightarrow> damage d'
              | (Inr _, d') \<Rightarrow> d')
      in if marker p then finish_unit (timestamp p) d1 else (None, d1))"

section \<open>The packetizer\<close>

text \<open>The fragments of one NAL unit: the loop over its body, \<open>rest\<close> being what is left from
  \<open>offset\<close> on and \<open>first\<close> whether \<open>offset\<close> is 0.\<close>

function fu_payloads :: "int \<Rightarrow> int \<Rightarrow> nat \<Rightarrow> bool \<Rightarrow> int list \<Rightarrow> int list list" where
  "fu_payloads indicator ty fragment_size first rest =
     (if rest = [] \<or> fragment_size = 0 then []
      else
        let header0 = (if first then ty OR 0x80 else ty);
            header = (if length rest \<le> fragment_size then header0 OR 0x40 else header0)
        in ([indicator, header] @ take fragment_size rest) #
           fu_payloads indicator ty fragment_size False (drop fragment_size rest))"
  by pat_completeness auto
termination by (relation "measure (\<lambda>(_, _, _, _, rest). length rest)") auto

declare fu_payloads.simps [simp del]

definition nal_payloads :: "nat \<Rightarrow> int list \<Rightarrow> exn + int list list" where
  "nal_payloads max_payload nal =
     (if \<not> (1 \<le> nal_type nal \<and> nal_type nal \<le> 23)
        then Inl (H264RtpError ''cannot packetize reserved or nested H.264 NAL type'')
      else if length nal \<le> max_payload then Inr [nal]
      else Inr (fu_payloads ((nal ! 0 AND 0xE0) OR 28) (nal_type nal) (max_payload - 2) True
             (drop 1 nal)))"

fun number_packets :: "int \<Rightarrow> int \<Rightarrow> int \<Rightarrow> int \<Rightarrow> int list list \<Rightarrow> rtp_packet list" where
  "number_packets pt ts src s [] = []"
| "number_packets pt ts src s (pl # pls) =
     \<lparr> payload_type = pt, sequence = s, timestamp = ts, ssrc = src, payload = pl, marker = False \<rparr>
     # number_packets pt ts src (next_sequence s) pls"

definition mark_last :: "rtp_packet list \<Rightarrow> rtp_packet list" where
  "mark_last ps = butlast ps @ [(last ps)\<lparr> marker := True \<rparr>]"

definition packetize_annex_b ::
  "int list \<Rightarrow> int \<Rightarrow> int \<Rightarrow> int \<Rightarrow> int \<Rightarrow> int \<Rightarrow> exn + rtp_packet list" where
  "packetize_annex_b access_unit pt s ts src max_payload =
     (if \<not> (3 \<le> max_payload \<and> max_payload \<le> int MAX_RTP_PAYLOAD_BYTES)
        then Inl (H264RtpError ''invalid H.264 RTP payload limit'')
      else
        bindE (split_annex_b access_unit) (\<lambda>nals.
        bindE (concatE (nal_payloads (nat max_payload)) nals) (\<lambda>pls.
          let packets = number_packets pt ts src (s AND 0xFFFF) pls
          in if packets = [] then Inl (H264RtpError ''H.264 access unit produced no RTP packets'')
             else Inr (mark_last packets))))"

end
