(* ===== verification/Video_Rtp.thy ===== *)
theory Video_Rtp
  imports Complex_Main Rtp
begin

text \<open>
  \<open>custom_components/voip_stack/video_rtp.py\<close>, the parts that deal with packets and not with a
  codec: the clock and the source identity of a sender, the extended sequence number of a receiver
  and the reorder window.

  Wall-clock seconds are real numbers where the code multiplies them by a clock rate; the reorder
  window only compares and subtracts times, which are integers there (one tick being whatever the
  caller's clock resolves).  A source's random start (\<open>secrets.randbelow\<close>) is an argument.
\<close>

section \<open>The clock of a sender\<close>

text \<open>\<open>round\<close> of Python: to the nearest integer, halves to the even one.\<close>

definition round_half_even :: "real \<Rightarrow> int" where
  "round_half_even x =
     (let f = \<lfloor>x\<rfloor>; d = x - of_int f in
      if d < 1 / 2 then f else if 1 / 2 < d then f + 1 else if even f then f else f + 1)"

record timestamp_clock =
  tc_clock_rate :: int
  tc_origin_timestamp :: int
  tc_origin_time :: real
  tc_browser_source_base :: "int option"
  tc_browser_clock_base :: "int option"

definition clock_current :: "timestamp_clock \<Rightarrow> real \<Rightarrow> int" where
  "clock_current c now =
     (let elapsed = max 0 (now - tc_origin_time c)
      in (tc_origin_timestamp c + round_half_even (elapsed * of_int (tc_clock_rate c)))
           AND 0xFFFFFFFF)"

definition map_browser :: "int \<Rightarrow> real \<Rightarrow> timestamp_clock \<Rightarrow> int \<times> timestamp_clock" where
  "map_browser source_timestamp now c =
     (let source = source_timestamp AND 0xFFFFFFFF;
          c1 = (if tc_browser_source_base c = None \<or> tc_browser_clock_base c = None
                then c\<lparr> tc_browser_source_base := Some source,
                        tc_browser_clock_base := Some (clock_current c now) \<rparr>
                else c);
          delta = (source - the (tc_browser_source_base c1)) AND 0xFFFFFFFF
      in ((the (tc_browser_clock_base c1) + delta) AND 0xFFFFFFFF, c1))"

definition reset_browser :: "timestamp_clock \<Rightarrow> timestamp_clock" where
  "reset_browser c = c\<lparr> tc_browser_source_base := None, tc_browser_clock_base := None \<rparr>"

section \<open>The source identity of a sender\<close>

record rtp_sender_state =
  ss_sequence :: int
  ss_ssrc :: int
  ss_clock :: timestamp_clock
  ss_keepalives :: int

text \<open>The three draws: below \<open>0x10000\<close>, below \<open>0xFFFFFFFF\<close> and below \<open>0x100000000\<close>.\<close>

definition create_sender :: "int \<Rightarrow> int \<Rightarrow> int \<Rightarrow> int \<Rightarrow> real \<Rightarrow> rtp_sender_state" where
  "create_sender draw_sequence draw_ssrc draw_timestamp clock_rate now =
     \<lparr> ss_sequence = draw_sequence,
       ss_ssrc = draw_ssrc + 1,
       ss_clock = \<lparr> tc_clock_rate = clock_rate, tc_origin_timestamp = draw_timestamp,
                    tc_origin_time = now, tc_browser_source_base = None,
                    tc_browser_clock_base = None \<rparr>,
       ss_keepalives = 0 \<rparr>"

definition build_keepalive ::
  "int \<Rightarrow> real \<Rightarrow> rtp_sender_state \<Rightarrow> exn + (int list \<times> rtp_sender_state)" where
  "build_keepalive pt now st =
     bindE (build_packet \<lparr> payload_type = pt, sequence = ss_sequence st,
              timestamp = clock_current (ss_clock st) now, ssrc = ss_ssrc st,
              payload = [], marker = False \<rparr>)
       (\<lambda>packet. Inr (packet, st\<lparr> ss_sequence := next_sequence (ss_sequence st),
                                  ss_keepalives := ss_keepalives st + 1 \<rparr>))"

definition DYNAMIC_RTP_PAYLOAD_TYPES :: "int list" where
  "DYNAMIC_RTP_PAYLOAD_TYPES = rev [96..127]"

definition unknown_dynamic_payload_type :: "int list \<Rightarrow> int option" where
  "unknown_dynamic_payload_type payload_types =
     find (\<lambda>pt. pt \<notin> set payload_types) DYNAMIC_RTP_PAYLOAD_TYPES"

section \<open>The extended sequence number\<close>

definition cycles_of :: "int \<Rightarrow> int" where
  "cycles_of h = h AND NOT 0xFFFF"

definition observe :: "int \<Rightarrow> int option \<Rightarrow> int option" where
  "observe sequence0 highest =
     (let s = sequence0 AND 0xFFFF in
      case highest of
        None \<Rightarrow> Some s
      | Some h \<Rightarrow>
          (let low = h AND 0xFFFF;
               cycles = cycles_of h;
               candidate =
                 (if s < low \<and> low - s > 0x8000 then cycles + 0x10000 + s
                  else if s > low \<and> s - low > 0x8000 then cycles - 0x10000 + s
                  else cycles + s)
           in Some (if candidate > h then candidate else h)))"

definition highest_sequence :: "int option \<Rightarrow> int" where
  "highest_sequence highest = (case highest of None \<Rightarrow> 0 | Some h \<Rightarrow> h)"

section \<open>The reorder window\<close>

text \<open>\<open>rb_pending\<close> is the dictionary of waiting items with their arrival times, in insertion
  order.\<close>

record 'a reorder_buffer =
  rb_max_delay :: int
  rb_max_packets :: int
  rb_expected :: "int option"
  rb_pending :: "(int \<times> 'a \<times> int) list"
  rb_duplicates :: int
  rb_late :: int
  rb_lost :: int
  rb_reordered :: int
  rb_max_depth :: int

definition new_reorder_buffer :: "int \<Rightarrow> int \<Rightarrow> 'a reorder_buffer" where
  "new_reorder_buffer delay packets =
     \<lparr> rb_max_delay = max 0 delay, rb_max_packets = max 2 packets, rb_expected = None,
       rb_pending = [], rb_duplicates = 0, rb_late = 0, rb_lost = 0, rb_reordered = 0,
       rb_max_depth = 0 \<rparr>"

definition ahead :: "int \<Rightarrow> int \<Rightarrow> int" where
  "ahead s e = (s - e) AND 0xFFFF"

definition arrivals :: "(int \<times> 'a \<times> int) list \<Rightarrow> int list" where
  "arrivals pending = map (\<lambda>(_, _, t). t) pending"

definition next_deadline :: "'a reorder_buffer \<Rightarrow> int option" where
  "next_deadline b =
     (case rb_expected b of
        None \<Rightarrow> None
      | Some e \<Rightarrow>
          if rb_pending b = [] \<or> e \<in> set (map fst (rb_pending b)) then None
          else Some (Min (set (arrivals (rb_pending b))) + rb_max_delay b))"

definition without :: "int \<Rightarrow> (int \<times> 'b) list \<Rightarrow> (int \<times> 'b) list" where
  "without k pending = filter (\<lambda>(a, _). a \<noteq> k) pending"

lemma without_shorter: "assoc pending k = Some v \<Longrightarrow> length (without k pending) < length pending"
  unfolding without_def by (rule length_filter_less [OF assoc_Some_in]) simp_all

definition has_key :: "int \<Rightarrow> (int \<times> 'b) list \<Rightarrow> bool" where
  "has_key k pending \<longleftrightarrow> assoc pending k \<noteq> None"

lemma has_key_iff: "has_key k pending \<longleftrightarrow> k \<in> fst ` set pending"
  by (simp add: has_key_def assoc_eq_map_of map_of_eq_None_iff)

lemma arg_min_list_in: "xs \<noteq> [] \<Longrightarrow> arg_min_list f xs \<in> set xs"
  by (induction f xs rule: arg_min_list.induct) (auto simp: Let_def)

text \<open>The body of the loop in \<open>_drain\<close> when the expected packet is missing: the buffer after
  moving on to the nearest waiting packet, or \<open>None\<close> when the loop is left.\<close>

definition skip_gap ::
  "int \<Rightarrow> bool \<Rightarrow> int \<Rightarrow> 'a reorder_buffer \<Rightarrow> 'a reorder_buffer option" where
  "skip_gap now force e b =
     (if \<not> force \<and> now - Min (set (arrivals (rb_pending b))) < rb_max_delay b then None
      else
        let nearest = arg_min_list (\<lambda>k. ahead k e) (map fst (rb_pending b));
            skipped = ahead nearest e
        in if skipped \<ge> 0x8000 then None
           else Some (b\<lparr> rb_lost := rb_lost b + skipped, rb_expected := Some nearest \<rparr>))"

lemma skip_gap_next:
  assumes "skip_gap now force e b = Some b'" and "rb_pending b \<noteq> []"
  shows "rb_pending b' = rb_pending b" and "\<exists>k. rb_expected b' = Some k \<and> has_key k (rb_pending b)"
  using assms arg_min_list_in [of "map fst (rb_pending b)"]
  by (auto simp: skip_gap_def has_key_iff Let_def split: if_splits)

function drain :: "int \<Rightarrow> bool \<Rightarrow> 'a reorder_buffer \<Rightarrow> 'a list \<times> 'a reorder_buffer" where
  "drain now force b =
     (case rb_expected b of
        None \<Rightarrow> ([], b)
      | Some e \<Rightarrow>
          if rb_pending b = [] then ([], b)
          else
            case assoc (rb_pending b) e of
              Some (item, _) \<Rightarrow>
                (case drain now force
                        (b\<lparr> rb_pending := without e (rb_pending b),
                            rb_expected := Some (next_sequence e) \<rparr>) of
                   (out, b') \<Rightarrow> (item # out, b'))
            | None \<Rightarrow>
                (case skip_gap now force e b of
                   None \<Rightarrow> ([], b)
                 | Some b' \<Rightarrow> drain now (int (length (rb_pending b)) > rb_max_packets b) b'))"
  by pat_completeness auto

termination drain
proof (relation "measure (\<lambda>(now, force, b). 2 * length (rb_pending b) +
    (case rb_expected b of None \<Rightarrow> 0 | Some e \<Rightarrow> if has_key e (rb_pending b) then 0 else 1))")
  fix now :: int and force and b :: "'a reorder_buffer" and e v item t
  assume "assoc (rb_pending b) e = Some v"
  then show "((now, force, b\<lparr> rb_pending := without e (rb_pending b),
      rb_expected := Some (next_sequence e) \<rparr>), (now, force, b)) \<in>
      measure (\<lambda>(now, force, b). 2 * length (rb_pending b) +
        (case rb_expected b of None \<Rightarrow> 0 | Some e \<Rightarrow> if has_key e (rb_pending b) then 0 else 1))"
    if "rb_expected b = Some e"
    using without_shorter [of "rb_pending b" e v] that by simp
next
  fix now :: int and force and b b' :: "'a reorder_buffer" and e
  assume "rb_expected b = Some e" "rb_pending b \<noteq> []" "assoc (rb_pending b) e = None"
    "skip_gap now force e b = Some b'"
  then show "((now, rb_max_packets b < int (length (rb_pending b)), b'), (now, force, b)) \<in>
      measure (\<lambda>(now, force, b). 2 * length (rb_pending b) +
        (case rb_expected b of None \<Rightarrow> 0 | Some e \<Rightarrow> if has_key e (rb_pending b) then 0 else 1))"
    using skip_gap_next [of now force e b b'] by (auto simp: has_key_def)
qed simp_all

declare drain.simps [simp del]

definition push_packet ::
  "int \<Rightarrow> 'a \<Rightarrow> int \<Rightarrow> 'a reorder_buffer \<Rightarrow> 'a list \<times> 'a reorder_buffer" where
  "push_packet sequence0 item now b0 =
     (let s = sequence0 AND 0xFFFF;
          e = (case rb_expected b0 of None \<Rightarrow> s | Some e \<Rightarrow> e);
          b = b0\<lparr> rb_expected := Some e \<rparr>;
          delta = ahead s e
      in if delta \<ge> 0x8000 then ([], b\<lparr> rb_late := rb_late b + 1 \<rparr>)
         else if has_key s (rb_pending b) then ([], b\<lparr> rb_duplicates := rb_duplicates b + 1 \<rparr>)
         else
           let waiting = rb_pending b @ [(s, item, now)];
               depth = int (length waiting)
           in drain now (depth > rb_max_packets b)
                (b\<lparr> rb_reordered := rb_reordered b + (if delta \<noteq> 0 then 1 else 0),
                    rb_pending := waiting,
                    rb_max_depth := max (rb_max_depth b) depth \<rparr>))"

definition flush_packets ::
  "int \<Rightarrow> bool \<Rightarrow> 'a reorder_buffer \<Rightarrow> 'a list \<times> 'a reorder_buffer" where
  "flush_packets now force b = drain now force b"

definition reset_reorder :: "'a reorder_buffer \<Rightarrow> 'a reorder_buffer" where
  "reset_reorder b = b\<lparr> rb_expected := None, rb_pending := [] \<rparr>"

end
