(* ===== verification/Video_Reorder.thy ===== *)
theory Video_Reorder
  imports Video_Rtp
begin

text \<open>
  The contract of the reorder window of \<open>video_rtp.py\<close>.  The specification is the same buffer
  over unbounded sequence numbers: there is no wrap-around, a gap is skipped to the least waiting
  number, and a packet is late when its number is below the expected one.  \<open>wrap\<close> maps its
  state to a state of the code, and the code's operations refine the specification's as long as a
  sender stays within half the 16-bit window of the receiver.
\<close>

section \<open>The specification\<close>

definition wrap_key :: "int \<times> 'b \<Rightarrow> int \<times> 'b" where
  "wrap_key = apfst (\<lambda>n. n mod 65536)"

definition wrap :: "'a reorder_buffer \<Rightarrow> 'a reorder_buffer" where
  "wrap b = b\<lparr> rb_expected := map_option (\<lambda>e. e mod 65536) (rb_expected b),
               rb_pending := map wrap_key (rb_pending b) \<rparr>"

definition seq_gap ::
  "int \<Rightarrow> bool \<Rightarrow> int \<Rightarrow> 'a reorder_buffer \<Rightarrow> 'a reorder_buffer option" where
  "seq_gap now force e b =
     (if \<not> force \<and> now - Min (set (arrivals (rb_pending b))) < rb_max_delay b then None
      else
        let nearest = Min (fst ` set (rb_pending b))
        in Some (b\<lparr> rb_lost := rb_lost b + (nearest - e), rb_expected := Some nearest \<rparr>))"

lemma seq_gap_next:
  assumes "seq_gap now force e b = Some b'" and "rb_pending b \<noteq> []"
  shows "rb_pending b' = rb_pending b" and "\<exists>k. rb_expected b' = Some k \<and> has_key k (rb_pending b)"
  using assms Min_in [of "fst ` set (rb_pending b)"]
  by (auto simp: seq_gap_def has_key_iff Let_def split: if_splits)

function seq_drain :: "int \<Rightarrow> bool \<Rightarrow> 'a reorder_buffer \<Rightarrow> 'a list \<times> 'a reorder_buffer" where
  "seq_drain now force b =
     (case rb_expected b of
        None \<Rightarrow> ([], b)
      | Some e \<Rightarrow>
          if rb_pending b = [] then ([], b)
          else
            case assoc (rb_pending b) e of
              Some (item, _) \<Rightarrow>
                (case seq_drain now force
                        (b\<lparr> rb_pending := without e (rb_pending b), rb_expected := Some (e + 1) \<rparr>) of
                   (out, b') \<Rightarrow> (item # out, b'))
            | None \<Rightarrow>
                (case seq_gap now force e b of
                   None \<Rightarrow> ([], b)
                 | Some b' \<Rightarrow> seq_drain now (int (length (rb_pending b)) > rb_max_packets b) b'))"
  by pat_completeness auto

termination seq_drain
proof (relation "measure (\<lambda>(now, force, b). 2 * length (rb_pending b) +
    (case rb_expected b of None \<Rightarrow> 0 | Some e \<Rightarrow> if has_key e (rb_pending b) then 0 else 1))")
  fix now :: int and force and b :: "'a reorder_buffer" and e v item t
  assume "assoc (rb_pending b) e = Some v"
  then show "((now, force, b\<lparr> rb_pending := without e (rb_pending b),
      rb_expected := Some (e + 1) \<rparr>), (now, force, b)) \<in>
      measure (\<lambda>(now, force, b). 2 * length (rb_pending b) +
        (case rb_expected b of None \<Rightarrow> 0 | Some e \<Rightarrow> if has_key e (rb_pending b) then 0 else 1))"
    if "rb_expected b = Some e"
    using without_shorter [of "rb_pending b" e v] that by simp
next
  fix now :: int and force and b b' :: "'a reorder_buffer" and e
  assume "rb_expected b = Some e" "rb_pending b \<noteq> []" "assoc (rb_pending b) e = None"
    "seq_gap now force e b = Some b'"
  then show "((now, rb_max_packets b < int (length (rb_pending b)), b'), (now, force, b)) \<in>
      measure (\<lambda>(now, force, b). 2 * length (rb_pending b) +
        (case rb_expected b of None \<Rightarrow> 0 | Some e \<Rightarrow> if has_key e (rb_pending b) then 0 else 1))"
    using seq_gap_next [of now force e b b'] by (auto simp: has_key_def)
qed simp_all

declare seq_drain.simps [simp del]

text \<open>The buffer once the expected packet has been taken.\<close>

definition take_next :: "int \<Rightarrow> 'a reorder_buffer \<Rightarrow> 'a reorder_buffer" where
  "take_next e b = b\<lparr> rb_pending := without e (rb_pending b), rb_expected := Some (e + 1) \<rparr>"

lemma seq_drain_idle:
  "rb_expected b = None \<or> rb_pending b = [] \<Longrightarrow> seq_drain now force b = ([], b)"
  by (auto simp: seq_drain.simps [of _ _ b] split: option.split)

lemma seq_drain_hit:
  assumes "rb_expected b = Some e" and "assoc (rb_pending b) e = Some (item, t)"
  shows "seq_drain now force b = apfst ((#) item) (seq_drain now force (take_next e b))"
  using assms by (cases "rb_pending b = []")
    (auto simp: seq_drain.simps [of _ _ b] take_next_def split: prod.split)

lemma seq_drain_miss:
  assumes "rb_expected b = Some e" "rb_pending b \<noteq> []" "assoc (rb_pending b) e = None"
  shows "seq_drain now force b =
    (case seq_gap now force e b of
       None \<Rightarrow> ([], b)
     | Some b' \<Rightarrow> seq_drain now (int (length (rb_pending b)) > rb_max_packets b) b')"
  using assms by (simp add: seq_drain.simps [of _ _ b])

lemma seq_drain_induct [case_names idle hit stop skip]:
  assumes idle: "\<And>now force b. rb_expected b = None \<or> rb_pending b = [] \<Longrightarrow> P now force b"
    and hit: "\<And>now force b e item t. \<lbrakk> rb_expected b = Some e; rb_pending b \<noteq> [];
      assoc (rb_pending b) e = Some (item, t); P now force (take_next e b) \<rbrakk> \<Longrightarrow> P now force b"
    and stop: "\<And>now force b e. \<lbrakk> rb_expected b = Some e; rb_pending b \<noteq> [];
      assoc (rb_pending b) e = None; seq_gap now force e b = None \<rbrakk> \<Longrightarrow> P now force b"
    and skip: "\<And>now force b e b'. \<lbrakk> rb_expected b = Some e; rb_pending b \<noteq> [];
      assoc (rb_pending b) e = None; seq_gap now force e b = Some b';
      P now (int (length (rb_pending b)) > rb_max_packets b) b' \<rbrakk> \<Longrightarrow> P now force b"
  shows "P now force b"
proof (induction now force b rule: seq_drain.induct)
  case (1 now force b)
  show ?case
  proof (cases "rb_expected b = None \<or> rb_pending b = []")
    case False
    then obtain e where e: "rb_expected b = Some e" "rb_pending b \<noteq> []"
      by auto
    show ?thesis
    proof (cases "assoc (rb_pending b) e")
      case None
      then show ?thesis
        using stop [OF e None, of now force] skip [OF e None] 1(1) [OF e None]
        by (cases "seq_gap now force e b") simp_all
    next
      case (Some v)
      then have "P now force (take_next e b)"
        using 1(2) [OF e Some, of "fst v" "snd v"] by (simp add: take_next_def)
      then show ?thesis
        using hit e Some by (cases v) blast
    qed
  qed (rule idle)
qed

definition seq_push :: "int \<Rightarrow> 'a \<Rightarrow> int \<Rightarrow> 'a reorder_buffer \<Rightarrow> 'a list \<times> 'a reorder_buffer" where
  "seq_push n item now b0 =
     (let e = (case rb_expected b0 of None \<Rightarrow> n | Some e \<Rightarrow> e);
          b = b0\<lparr> rb_expected := Some e \<rparr>
      in if n < e then ([], b\<lparr> rb_late := rb_late b + 1 \<rparr>)
         else if has_key n (rb_pending b) then ([], b\<lparr> rb_duplicates := rb_duplicates b + 1 \<rparr>)
         else
           let waiting = rb_pending b @ [(n, item, now)];
               depth = int (length waiting)
           in seq_drain now (depth > rb_max_packets b)
                (b\<lparr> rb_reordered := rb_reordered b + (if n \<noteq> e then 1 else 0),
                    rb_pending := waiting,
                    rb_max_depth := max (rb_max_depth b) depth \<rparr>))"

text \<open>The numbers waiting are distinct and in the half window from the expected one.\<close>

definition in_window :: "'a reorder_buffer \<Rightarrow> bool" where
  "in_window b \<longleftrightarrow> distinct (map fst (rb_pending b)) \<and>
     (case rb_expected b of
        None \<Rightarrow> rb_pending b = []
      | Some e \<Rightarrow> \<forall>k \<in> fst ` set (rb_pending b). e \<le> k \<and> k < e + 0x8000)"

text \<open>A sender is near when its number is within half the 16-bit window of the expected one.\<close>

definition near :: "int \<Rightarrow> 'a reorder_buffer \<Rightarrow> bool" where
  "near n b \<longleftrightarrow>
     (case rb_expected b of None \<Rightarrow> True | Some e \<Rightarrow> e - 0x8000 \<le> n \<and> n < e + 0x8000)"

section \<open>Simulation\<close>

lemma ahead_wrap: "ahead (n mod 65536) (e mod 65536) = (n - e) mod 65536"
  by (simp add: ahead_def and_FFFF mod_diff_eq)

lemma mod_eq_near:
  assumes "e \<le> k" "k < e + 0x8000"
  shows "k mod 65536 = e mod 65536 \<longleftrightarrow> k = (e :: int)"
proof -
  have "k mod 65536 = e mod 65536 \<longleftrightarrow> (k - e) mod 65536 = 0"
    by (simp add: mod_eq_dvd_iff dvd_eq_mod_eq_0)
  also have "(k - e) mod 65536 = k - e"
    using assms by (intro mod_pos_pos_trivial) simp_all
  finally show ?thesis by simp
qed

lemma mod_eq_window:
  "\<lbrakk> e \<le> k; k < e + 0x8000; e \<le> k'; k' < e + 0x8000 \<rbrakk> \<Longrightarrow> k mod 65536 = k' mod 65536 \<longleftrightarrow> k = (k' :: int)"
  using mod_eq_near [of k k'] mod_eq_near [of k' k] by (cases "k \<le> k'") auto

lemma assoc_wrap:
  "\<forall>k \<in> fst ` set p. k mod 65536 = e mod 65536 \<longleftrightarrow> k = e \<Longrightarrow>
   assoc (map wrap_key p) (e mod 65536) = assoc p e"
  by (induction p) (auto simp: wrap_key_def)

lemma without_wrap:
  "\<forall>k \<in> fst ` set p. k mod 65536 = e mod 65536 \<longleftrightarrow> k = e \<Longrightarrow>
   without (e mod 65536) (map wrap_key p) = map wrap_key (without e p)"
  by (induction p) (auto simp: wrap_key_def without_def)

lemma arrivals_wrap [simp]: "arrivals (map wrap_key p) = arrivals p"
  by (auto simp: arrivals_def wrap_key_def)

lemma keys_wrap: "map fst (map wrap_key p) = map (\<lambda>n. n mod 65536) (map fst p)"
  by (simp add: wrap_key_def)

lemma wrap_selectors [simp]:
  "rb_pending (wrap b) = map wrap_key (rb_pending b)"
  "rb_expected (wrap b) = map_option (\<lambda>e. e mod 65536) (rb_expected b)"
  "rb_max_delay (wrap b) = rb_max_delay b" "rb_max_packets (wrap b) = rb_max_packets b"
  "rb_lost (wrap b) = rb_lost b" "rb_late (wrap b) = rb_late b"
  "rb_duplicates (wrap b) = rb_duplicates b" "rb_reordered (wrap b) = rb_reordered b"
  "rb_max_depth (wrap b) = rb_max_depth b"
  by (simp_all add: wrap_def)

lemma windowD:
  assumes "in_window b" and "rb_expected b = Some e"
  shows "\<forall>k \<in> fst ` set (rb_pending b). e \<le> k \<and> k < e + 0x8000"
  using assms by (simp add: in_window_def)

lemma nearest_wrap:
  assumes keys: "\<forall>k \<in> fst ` set p. e \<le> k \<and> k < e + 0x8000" and "p \<noteq> []"
  shows "arg_min_list (\<lambda>k. ahead k (e mod 65536)) (map fst (map wrap_key p))
           = Min (fst ` set p) mod 65536" (is "arg_min_list ?f ?ks = _")
    and "ahead (Min (fst ` set p) mod 65536) (e mod 65536) = Min (fst ` set p) - e"
proof -
  let ?m = "Min (fst ` set p)"
  have small: "ahead (k mod 65536) (e mod 65536) = k - e" if "k \<in> fst ` set p" for k
    unfolding ahead_wrap using keys that by (intro mod_pos_pos_trivial) fastforce+
  have m: "?m \<in> fst ` set p"
    using \<open>p \<noteq> []\<close> by (intro Min_in) auto
  show "ahead (?m mod 65536) (e mod 65536) = ?m - e"
    by (rule small [OF m])
  have "arg_min_list ?f ?ks \<in> set ?ks"
    using \<open>p \<noteq> []\<close> by (intro arg_min_list_in) simp
  then obtain k where k: "k \<in> fst ` set p" "arg_min_list ?f ?ks = k mod 65536"
    unfolding keys_wrap by auto
  have "?f (arg_min_list ?f ?ks) = Min (?f ` set ?ks)"
    using \<open>p \<noteq> []\<close> by (intro f_arg_min_list_f) simp
  also have "\<dots> \<le> ?f (?m mod 65536)"
    using m unfolding keys_wrap set_map by (intro Min_le imageI) simp_all
  finally have "k - e \<le> ?m - e"
    by (simp only: k(2) small [OF k(1)] small [OF m])
  moreover have "?m \<le> k"
    using k(1) by (intro Min_le) auto
  ultimately show "arg_min_list ?f ?ks = ?m mod 65536"
    using k(2) by simp
qed

lemma skip_gap_wrap:
  assumes "in_window b" "rb_expected b = Some e" "rb_pending b \<noteq> []"
  shows "skip_gap now force (e mod 65536) (wrap b) = map_option wrap (seq_gap now force e b)"
proof -
  have keys: "\<forall>k \<in> fst ` set (rb_pending b). e \<le> k \<and> k < e + 0x8000"
    using assms(1,2) by (rule windowD)
  have "Min (fst ` set (rb_pending b)) \<in> fst ` set (rb_pending b)"
    using assms(3) by (intro Min_in) auto
  with keys have "\<not> 0x8000 \<le> Min (fst ` set (rb_pending b)) - e"
    by fastforce
  then show ?thesis
    using nearest_wrap [OF keys assms(3)]
    by (simp add: skip_gap_def seq_gap_def Let_def wrap_def del: map_map)
qed

lemma next_sequence_mod: "next_sequence (e mod 65536) = (e + 1) mod 65536"
  by (simp add: next_sequence_def and_FFFF mod_add_left_eq)

lemma in_window_counters [simp]:
  "in_window (b\<lparr> rb_late := l \<rparr>) = in_window b"
  "in_window (b\<lparr> rb_duplicates := d \<rparr>) = in_window b"
  by (simp_all add: in_window_def split: option.split)

lemma window_deliver:
  "in_window b \<Longrightarrow> rb_expected b = Some e \<Longrightarrow> in_window (take_next e b)"
  by (force simp: in_window_def without_def distinct_map inj_on_def take_next_def)

lemma window_gap:
  assumes "in_window b" "rb_expected b = Some e" "rb_pending b \<noteq> []" "seq_gap now force e b = Some b'"
  shows "in_window b'"
proof -
  have m: "Min (fst ` set (rb_pending b)) \<le> k" if "k \<in> fst ` set (rb_pending b)" for k
    using that by (intro Min_le) auto
  have "Min (fst ` set (rb_pending b)) \<in> fst ` set (rb_pending b)"
    using assms(3) by (intro Min_in) auto
  with windowD [OF assms(1,2)] have e: "e \<le> Min (fst ` set (rb_pending b))"
    by blast
  have "rb_pending b' = rb_pending b" "rb_expected b' = Some (Min (fst ` set (rb_pending b)))"
    using assms(4) by (auto simp: seq_gap_def Let_def split: if_splits)
  then show ?thesis
    using assms(1,2) m e by (fastforce simp: in_window_def)
qed

lemma seq_drain_window: "in_window b \<Longrightarrow> in_window (snd (seq_drain now force b))"
  by (induction now force b rule: seq_drain_induct)
    (simp_all add: seq_drain_idle seq_drain_hit seq_drain_miss window_deliver window_gap)

lemma take_next_wrap:
  assumes "in_window b" "rb_expected b = Some e"
  shows "wrap (take_next e b) =
    wrap b\<lparr> rb_pending := without (e mod 65536) (map wrap_key (rb_pending b)),
            rb_expected := Some (next_sequence (e mod 65536)) \<rparr>"
    and "assoc (map wrap_key (rb_pending b)) (e mod 65536) = assoc (rb_pending b) e"
proof -
  have keys: "\<forall>k \<in> fst ` set (rb_pending b). k mod 65536 = e mod 65536 \<longleftrightarrow> k = e"
    using windowD [OF assms] mod_eq_near by blast
  show "wrap (take_next e b) =
      wrap b\<lparr> rb_pending := without (e mod 65536) (map wrap_key (rb_pending b)),
              rb_expected := Some (next_sequence (e mod 65536)) \<rparr>"
    by (simp add: wrap_def take_next_def without_wrap [OF keys] next_sequence_mod)
  show "assoc (map wrap_key (rb_pending b)) (e mod 65536) = assoc (rb_pending b) e"
    by (rule assoc_wrap [OF keys])
qed

lemma drain_wrap: "in_window b \<Longrightarrow> drain now force (wrap b) = apsnd wrap (seq_drain now force b)"
proof (induction now force b rule: seq_drain_induct)
  case (idle now force b)
  then show ?case
    by (auto simp: drain.simps [of _ _ "wrap b"] seq_drain_idle split: option.split)
next
  case (hit now force b e item t)
  then show ?case
    by (simp add: drain.simps [of _ _ "wrap b"] seq_drain_hit window_deliver take_next_wrap
        apfst_def apsnd_def map_prod_def split: prod.split)
next
  case (stop now force b e)
  then show ?case
    by (simp add: drain.simps [of _ _ "wrap b"] seq_drain_miss take_next_wrap skip_gap_wrap)
next
  case (skip now force b e b')
  then show ?case
    by (simp add: drain.simps [of _ _ "wrap b"] seq_drain_miss take_next_wrap skip_gap_wrap
        window_gap)
qed

lemma push_wrap:
  assumes "in_window b" "near n b"
  shows "push_packet n x now (wrap b) = apsnd wrap (seq_push n x now b)"
    and "in_window (snd (seq_push n x now b))"
proof -
  define e where "e = (case rb_expected b of None \<Rightarrow> n | Some e \<Rightarrow> e)"
  define b1 where "b1 = b\<lparr> rb_expected := Some e \<rparr>"
  define b2 where "b2 = b1\<lparr> rb_reordered := rb_reordered b1 + (if n \<noteq> e then 1 else 0),
      rb_pending := rb_pending b1 @ [(n, x, now)],
      rb_max_depth := max (rb_max_depth b1) (int (length (rb_pending b1 @ [(n, x, now)]))) \<rparr>"
  have w1: "in_window b1"
    using assms(1) by (auto simp: in_window_def b1_def e_def split: option.splits)
  have n: "e - 0x8000 \<le> n" "n < e + 0x8000"
    using assms(2) by (auto simp: near_def e_def split: option.splits)
  have late: "ahead (n mod 65536) (e mod 65536) \<ge> 0x8000 \<longleftrightarrow> n < e"
  proof (cases "n < e")
    case True
    have "(n - e) mod 65536 = (n - e + 65536) mod 65536"
      by simp
    also have "\<dots> = n - e + 65536"
      using True n by (intro mod_pos_pos_trivial) simp_all
    finally show ?thesis using True n by (simp add: ahead_wrap)
  qed (use n in \<open>simp add: ahead_wrap\<close>)
  have delta: "n \<ge> e \<Longrightarrow> ahead (n mod 65536) (e mod 65536) \<noteq> 0 \<longleftrightarrow> n \<noteq> e"
    using n by (simp add: ahead_wrap)
  have keys: "n \<ge> e \<Longrightarrow> \<forall>k \<in> fst ` set (rb_pending b). k mod 65536 = n mod 65536 \<longleftrightarrow> k = n"
    using windowD [OF w1, of e] n mod_eq_window [of e _ n] by (simp add: b1_def)
  have dup: "n \<ge> e \<Longrightarrow>
      has_key (n mod 65536) (map wrap_key (rb_pending b)) \<longleftrightarrow> has_key n (rb_pending b)"
    using assoc_wrap [OF keys] by (simp add: has_key_def)
  have w2: "in_window b2" if "n \<ge> e" "\<not> has_key n (rb_pending b)"
    using w1 n that by (auto simp: in_window_def b2_def b1_def has_key_iff)
  have b2: "wrap b2 = wrap b1\<lparr> rb_reordered := rb_reordered b + (if n \<noteq> e then 1 else 0),
      rb_pending := map wrap_key (rb_pending b) @ [(n mod 65536, x, now)],
      rb_max_depth := max (rb_max_depth b) (int (Suc (length (rb_pending b)))) \<rparr>"
    by (simp add: wrap_def b2_def b1_def wrap_key_def)
  have b1: "wrap b1 = wrap b\<lparr> rb_expected := Some (e mod 65536) \<rparr>"
    by (simp add: wrap_def b1_def)
  have e: "(case rb_expected (wrap b) of None \<Rightarrow> n mod 65536 | Some e \<Rightarrow> e) = e mod 65536"
    by (simp add: e_def split: option.split)
  have seq: "seq_push n x now b =
      (if n < e then ([], b1\<lparr> rb_late := rb_late b1 + 1 \<rparr>)
       else if has_key n (rb_pending b) then ([], b1\<lparr> rb_duplicates := rb_duplicates b1 + 1 \<rparr>)
       else seq_drain now (int (Suc (length (rb_pending b))) > rb_max_packets b) b2)"
    by (simp add: seq_push_def Let_def flip: e_def b1_def) (simp add: b1_def b2_def)
  show "in_window (snd (seq_push n x now b))"
    using w1 seq_drain_window [OF w2] unfolding seq by (simp add: in_window_counters)
  have code: "push_packet n x now (wrap b) =
      (if n < e then ([], wrap b1\<lparr> rb_late := rb_late b + 1 \<rparr>)
       else if has_key n (rb_pending b) then ([], wrap b1\<lparr> rb_duplicates := rb_duplicates b + 1 \<rparr>)
       else drain now (int (Suc (length (rb_pending b))) > rb_max_packets b) (wrap b2))"
    unfolding push_packet_def Let_def and_FFFF e using late delta dup by (simp add: b1 b2)
  show "push_packet n x now (wrap b) = apsnd wrap (seq_push n x now b)"
    unfolding code seq using drain_wrap [OF w2] by (simp add: wrap_def b1_def)
qed

section \<open>Runs\<close>

type_synonym 'a arrival = "int \<times> 'a \<times> int"

fun run_pushes :: "'a arrival list \<Rightarrow> 'a reorder_buffer \<Rightarrow> 'a list \<times> 'a reorder_buffer" where
  "run_pushes [] b = ([], b)"
| "run_pushes ((n, x, t) # ps) b =
     (case push_packet n x t b of (out, b') \<Rightarrow> apfst ((@) out) (run_pushes ps b'))"

fun seq_run :: "'a arrival list \<Rightarrow> 'a reorder_buffer \<Rightarrow> 'a list \<times> 'a reorder_buffer" where
  "seq_run [] b = ([], b)"
| "seq_run ((n, x, t) # ps) b =
     (case seq_push n x t b of (out, b') \<Rightarrow> apfst ((@) out) (seq_run ps b'))"

text \<open>Every packet of the run is near the expected one when it arrives.\<close>

fun paced :: "'a arrival list \<Rightarrow> 'a reorder_buffer \<Rightarrow> bool" where
  "paced [] b \<longleftrightarrow> True"
| "paced ((n, x, t) # ps) b \<longleftrightarrow> near n b \<and> paced ps (snd (seq_push n x t b))"

lemma run_wrap:
  "in_window b \<Longrightarrow> paced ps b \<Longrightarrow>
   run_pushes ps (wrap b) = apsnd wrap (seq_run ps b) \<and> in_window (snd (seq_run ps b))"
proof (induction ps arbitrary: b)
  case (Cons p ps)
  obtain n x t where p: "p = (n, x, t)"
    by (cases p)
  obtain out b' where push: "seq_push n x t b = (out, b')"
    by (cases "seq_push n x t b")
  with p Cons.prems have code: "push_packet n x t (wrap b) = (out, wrap b')" and w: "in_window b'"
    using push_wrap [of b n x t] by simp_all
  have "paced ps b'"
    using Cons.prems(2) push p by simp
  with Cons.IH [OF w] show ?case
    by (cases "seq_run ps b'") (simp add: p push code)
qed simp

section \<open>Order and accounting\<close>

text \<open>What a step of the specification promises: the items it hands over carry, under
  \<open>num\<close>, increasing numbers between the old and the new position, and each number passed
  over is either delivered or counted as lost.\<close>

definition advances ::
  "('a \<Rightarrow> int) \<Rightarrow> 'a reorder_buffer \<Rightarrow> 'a list \<Rightarrow> 'a reorder_buffer \<Rightarrow> bool" where
  "advances num b out b' \<longleftrightarrow>
     (\<exists>e e'. rb_expected b = Some e \<and> rb_expected b' = Some e' \<and> e \<le> e' \<and>
        sorted_wrt (<) (map num out) \<and> (\<forall>x \<in> set out. e \<le> num x \<and> num x < e') \<and>
        e' = e + int (length out) + (rb_lost b' - rb_lost b) \<and>
        length out + length (rb_pending b') = length (rb_pending b) \<and>
        rb_late b' = rb_late b \<and> rb_duplicates b' = rb_duplicates b \<and>
        set out \<union> (fst \<circ> snd) ` set (rb_pending b') = (fst \<circ> snd) ` set (rb_pending b))"

definition carries_number :: "('a \<Rightarrow> int) \<Rightarrow> 'a reorder_buffer \<Rightarrow> bool" where
  "carries_number num b \<longleftrightarrow> (\<forall>(k, x, t) \<in> set (rb_pending b). num x = k)"

lemma advances_refl: "rb_expected b = Some e \<Longrightarrow> advances num b [] b"
  by (simp add: advances_def)

lemma advances_trans:
  assumes "advances num b out b'" and "advances num b' out' b''"
  shows "advances num b (out @ out') b''"
proof -
  obtain e e' where 1: "rb_expected b = Some e" "rb_expected b' = Some e'" "e \<le> e'"
      "sorted_wrt (<) (map num out)" "\<forall>x \<in> set out. e \<le> num x \<and> num x < e'"
    and n1: "e' = e + int (length out) + (rb_lost b' - rb_lost b)"
      "length out + length (rb_pending b') = length (rb_pending b)"
      "rb_late b' = rb_late b \<and> rb_duplicates b' = rb_duplicates b"
    and s1: "set out \<union> (fst \<circ> snd) ` set (rb_pending b') = (fst \<circ> snd) ` set (rb_pending b)"
    using assms(1) unfolding advances_def by blast
  obtain e'' where 2: "rb_expected b'' = Some e''" "e' \<le> e''"
      "sorted_wrt (<) (map num out')" "\<forall>x \<in> set out'. e' \<le> num x \<and> num x < e''"
    and n2: "e'' = e' + int (length out') + (rb_lost b'' - rb_lost b')"
      "length out' + length (rb_pending b'') = length (rb_pending b')"
      "rb_late b'' = rb_late b' \<and> rb_duplicates b'' = rb_duplicates b'"
    and s2: "set out' \<union> (fst \<circ> snd) ` set (rb_pending b'') = (fst \<circ> snd) ` set (rb_pending b')"
    using assms(2) 1(2) unfolding advances_def by auto
  have "sorted_wrt (<) (map num (out @ out'))"
    using 1 2 by (fastforce simp: sorted_wrt_append)
  moreover have "\<forall>x \<in> set (out @ out'). e \<le> num x \<and> num x < e''"
    using 1 2 by fastforce
  moreover have "set (out @ out') \<union> (fst \<circ> snd) ` set (rb_pending b'')
      = (fst \<circ> snd) ` set (rb_pending b)"
    unfolding set_append using s1 s2 by blast
  ultimately show ?thesis
    unfolding advances_def using 1 2 n1 n2 by (intro exI [of _ e] exI [of _ e''] conjI) simp_all
qed

lemma without_entries:
  assumes "assoc p e = Some (item, t)" and "distinct (map fst p)"
  shows "Suc (length (without e p)) = length p"
    and "insert item ((fst \<circ> snd) ` set (without e p)) = (fst \<circ> snd) ` set p"
proof -
  obtain p1 p2 where p: "p = p1 @ (e, item, t) # p2"
    using assoc_Some_in [OF assms(1)] by (meson in_set_conv_decomp)
  with assms(2) have "e \<notin> fst ` set p1" "e \<notin> fst ` set p2"
    by auto
  then have "without e p1 = p1" "without e p2 = p2"
    unfolding without_def by (force intro!: filter_True)+
  with p have "without e p = p1 @ p2"
    by (simp add: without_def)
  with p show "Suc (length (without e p)) = length p"
    "insert item ((fst \<circ> snd) ` set (without e p)) = (fst \<circ> snd) ` set p"
    by auto
qed

lemma take_next_advances:
  assumes "in_window b" "carries_number num b" "rb_expected b = Some e"
    "assoc (rb_pending b) e = Some (item, t)"
  shows "advances num b [item] (take_next e b)" and "carries_number num (take_next e b)"
  using assms assoc_Some_in [OF assms(4)] without_entries [OF assms(4)]
  by (auto simp: advances_def take_next_def carries_number_def without_def in_window_def)

lemma seq_gap_advances:
  assumes "in_window b" "carries_number num b" "rb_expected b = Some e" "rb_pending b \<noteq> []"
    "seq_gap now force e b = Some b'"
  shows "advances num b [] b'" and "carries_number num b'"
proof -
  have "Min (fst ` set (rb_pending b)) \<in> fst ` set (rb_pending b)"
    using assms(4) by (intro Min_in) auto
  with windowD [OF assms(1,3)] have "e \<le> Min (fst ` set (rb_pending b))"
    by blast
  then show "advances num b [] b'" "carries_number num b'"
    using assms by (auto simp: advances_def carries_number_def seq_gap_def Let_def split: if_splits)
qed

lemma seq_drain_advances:
  "\<lbrakk> in_window b; carries_number num b; rb_expected b \<noteq> None \<rbrakk> \<Longrightarrow>
   advances num b (fst (seq_drain now force b)) (snd (seq_drain now force b)) \<and>
   carries_number num (snd (seq_drain now force b))"
proof (induction now force b rule: seq_drain_induct)
  case (idle now force b)
  then show ?case
    by (auto simp: seq_drain_idle advances_refl)
next
  case (hit now force b e item t)
  note this = take_next_advances [OF hit(5,6,1,3)]
  moreover have "rb_expected (take_next e b) \<noteq> None"
    by (simp add: take_next_def)
  ultimately show ?case
    using hit advances_trans [of num b "[item]" "take_next e b"]
    by (simp add: seq_drain_hit window_deliver)
next
  case (stop now force b e)
  then show ?case
    by (simp add: seq_drain_miss advances_refl)
next
  case (skip now force b e b')
  note this = seq_gap_advances [OF skip(6,7,1,2,4)]
  moreover have "rb_expected b' \<noteq> None"
    using skip(2,4) seq_gap_next by blast
  ultimately show ?case
    using skip advances_trans [of num b "[]" b'] by (simp add: seq_drain_miss window_gap)
qed

text \<open>The books of a run from a position: \<open>pushed\<close> packets came in.\<close>

definition accounted ::
  "('a \<Rightarrow> int) \<Rightarrow> int \<Rightarrow> 'a set \<Rightarrow> nat \<Rightarrow> 'a list \<Rightarrow> 'a reorder_buffer \<Rightarrow> bool" where
  "accounted num e0 items pushed out b \<longleftrightarrow>
     (\<exists>e. rb_expected b = Some e \<and> e0 \<le> e \<and> e = e0 + int (length out) + rb_lost b \<and>
        sorted_wrt (<) (map num out) \<and> (\<forall>x \<in> set out. e0 \<le> num x \<and> num x < e) \<and>
        int pushed = int (length out + length (rb_pending b)) + rb_late b + rb_duplicates b \<and>
        set out \<union> (fst \<circ> snd) ` set (rb_pending b) \<subseteq> items)"

lemma accounted_advances:
  assumes "accounted num e0 items pushed out b" and "advances num b out' b'"
  shows "accounted num e0 items pushed (out @ out') b'"
proof -
  obtain e where 1: "rb_expected b = Some e" "e0 \<le> e"
      "sorted_wrt (<) (map num out)" "\<forall>x \<in> set out. e0 \<le> num x \<and> num x < e"
    and n1: "e = e0 + int (length out) + rb_lost b"
      "int pushed = int (length out + length (rb_pending b)) + rb_late b + rb_duplicates b"
    and s1: "set out \<union> (fst \<circ> snd) ` set (rb_pending b) \<subseteq> items"
    using assms(1) unfolding accounted_def by blast
  obtain e' where 2: "rb_expected b' = Some e'" "e \<le> e'"
      "sorted_wrt (<) (map num out')" "\<forall>x \<in> set out'. e \<le> num x \<and> num x < e'"
    and n2: "e' = e + int (length out') + (rb_lost b' - rb_lost b)"
      "length out' + length (rb_pending b') = length (rb_pending b)"
      "rb_late b' = rb_late b \<and> rb_duplicates b' = rb_duplicates b"
    and s2: "set out' \<union> (fst \<circ> snd) ` set (rb_pending b') = (fst \<circ> snd) ` set (rb_pending b)"
    using assms(2) 1(1) unfolding advances_def by auto
  have "sorted_wrt (<) (map num (out @ out'))"
    using 1 2 by (fastforce simp: sorted_wrt_append)
  moreover have "\<forall>x \<in> set (out @ out'). e0 \<le> num x \<and> num x < e'"
    using 1 2 by fastforce
  moreover have "set (out @ out') \<union> (fst \<circ> snd) ` set (rb_pending b') \<subseteq> items"
    unfolding set_append using s1 s2 by blast
  ultimately show ?thesis
    unfolding accounted_def using 1 2 n1 n2 by (intro exI [of _ e'] conjI) simp_all
qed

lemma seq_push_accounted:
  assumes "in_window b" "near n b" "carries_number num b" "num x = n" "rb_expected b = Some e"
    "accounted num e0 items pushed out b" "seq_push n x t b = (out', b')"
  shows "accounted num e0 (insert x items) (Suc pushed) (out @ out') b' \<and> carries_number num b' \<and>
    rb_expected b' \<noteq> None"
proof (cases "n < e \<or> has_key n (rb_pending b)")
  case True
  then have "out' = [] \<and> (b' = b\<lparr> rb_late := rb_late b + 1 \<rparr> \<or>
      b' = b\<lparr> rb_duplicates := rb_duplicates b + 1 \<rparr>)"
    using assms(5,7) by (auto simp: seq_push_def Let_def split: if_splits)
  moreover have "insert x items \<supseteq> items" by blast
  ultimately show ?thesis
    using assms(3,5,6) unfolding accounted_def carries_number_def by (elim conjE disjE) (simp_all, blast+)
next
  case False
  define b2 where "b2 = b\<lparr> rb_expected := Some e,
      rb_reordered := rb_reordered b + (if n \<noteq> e then 1 else 0),
      rb_pending := rb_pending b @ [(n, x, t)],
      rb_max_depth := max (rb_max_depth b) (int (length (rb_pending b @ [(n, x, t)]))) \<rparr>"
  define force where "force \<longleftrightarrow> rb_max_packets b < int (length (rb_pending b @ [(n, x, t)]))"
  have drain: "seq_drain t force b2 = (out', b')"
    using False assms(5,7) by (simp add: seq_push_def b2_def force_def Let_def)
  have "in_window b2" "carries_number num b2" "rb_expected b2 \<noteq> None"
    using False assms(1-5) by (auto simp: in_window_def near_def carries_number_def b2_def has_key_iff)
  then have adv: "advances num b2 out' b'" "carries_number num b'"
    using seq_drain_advances [of b2 num t force] drain by simp_all
  moreover have "accounted num e0 (insert x items) (Suc pushed) out b2"
    using assms(5,6) by (auto simp: accounted_def b2_def)
  moreover have "rb_expected b' \<noteq> None"
    using adv(1) by (auto simp: advances_def)
  ultimately show ?thesis
    using accounted_advances by blast
qed

lemma seq_run_accounted:
  "\<lbrakk> in_window b; paced ps b; carries_number num b; list_all (\<lambda>(n, x, t). num x = n) ps;
     rb_expected b = Some e; accounted num e0 items pushed out b \<rbrakk> \<Longrightarrow>
   accounted num e0 (items \<union> (fst \<circ> snd) ` set ps) (pushed + length ps)
     (out @ fst (seq_run ps b)) (snd (seq_run ps b))"
proof (induction ps arbitrary: b e items pushed out)
  case (Cons p ps)
  obtain n x t where p: "p = (n, x, t)"
    by (cases p)
  obtain out' b' where push: "seq_push n x t b = (out', b')"
    by (cases "seq_push n x t b")
  have step: "near n b" "num x = n" "list_all (\<lambda>(n, x, t). num x = n) ps" "paced ps b'"
    using Cons.prems(2,4) push p by simp_all
  have w: "in_window b'"
    using push_wrap(2) [OF Cons.prems(1) step(1), of x t] push by simp
  note acc = seq_push_accounted [OF Cons.prems(1) step(1) Cons.prems(3) step(2) Cons.prems(5,6) push]
  then obtain e' where "rb_expected b' = Some e'" by blast
  with Cons.IH [OF w step(4) _ step(3) this, of "insert x items" "Suc pushed" "out @ out'"] acc
  show ?case
    by (simp add: p push)
qed simp
section \<open>A complete burst\<close>

text \<open>\<open>arrived\<close>: the numbers received so far from \<open>e0\<close> on; everything below the expected
  number has been handed over in order, the rest waits.\<close>

definition caught_up ::
  "(int \<Rightarrow> 'a) \<Rightarrow> int \<Rightarrow> int \<Rightarrow> int set \<Rightarrow> 'a list \<Rightarrow> 'a reorder_buffer \<Rightarrow> bool" where
  "caught_up f e0 t0 arrived out b \<longleftrightarrow>
     (\<exists>e. rb_expected b = Some e \<and> e0 \<le> e \<and> out = map f [e0..e - 1] \<and>
        fst ` set (rb_pending b) = arrived - {..<e} \<and> {e0..<e} \<subseteq> arrived \<and>
        (\<forall>(k, x, t) \<in> set (rb_pending b). x = f k \<and> t0 \<le> t))"

definition nothing_due :: "int set \<Rightarrow> 'a reorder_buffer \<Rightarrow> bool" where
  "nothing_due arrived b \<longleftrightarrow> (\<forall>e. rb_expected b = Some e \<longrightarrow> e \<notin> arrived)"

lemma caught_up_take:
  assumes "caught_up f e0 t0 arrived out b" "rb_expected b = Some e"
    "assoc (rb_pending b) e = Some (item, t)"
  shows "caught_up f e0 t0 arrived (out @ [item]) (take_next e b)"
proof -
  have e: "e0 \<le> e" "out = map f [e0..e - 1]" "fst ` set (rb_pending b) = arrived - {..<e}"
    "{e0..<e} \<subseteq> arrived" "\<forall>(k, x, t) \<in> set (rb_pending b). x = f k \<and> t0 \<le> t"
    using assms(1,2) by (auto simp: caught_up_def)
  have "item = f e" "e \<in> arrived"
    using e(3,5) assoc_Some_in [OF assms(3)] by force+
  moreover have "[e0..e] = [e0..e - 1] @ [e]"
    using e(1) by (simp add: upto_rec2)
  moreover have "fst ` set (without e (rb_pending b)) = fst ` set (rb_pending b) - {e}"
    by (force simp: without_def)
  moreover have "{e0..<e + 1} = insert e {e0..<e}" "{..<e + 1} = insert e {..<e}"
    using e(1) by auto
  ultimately show ?thesis
    using e by (auto simp: caught_up_def take_next_def without_def)
qed

lemma seq_drain_caught_up:
  "\<lbrakk> caught_up f e0 t0 arrived out b; \<not> force; now < t0 + rb_max_delay b; {e0..} \<supseteq> arrived \<rbrakk> \<Longrightarrow>
   caught_up f e0 t0 arrived (out @ fst (seq_drain now force b)) (snd (seq_drain now force b)) \<and>
   nothing_due arrived (snd (seq_drain now force b))"
proof (induction now force b arbitrary: out rule: seq_drain_induct)
  case (idle now force b)
  then show ?case
    by (auto simp: seq_drain_idle caught_up_def nothing_due_def)
next
  case (hit now force b e item t)
  have "now < t0 + rb_max_delay (take_next e b)"
    using hit.prems(3) by (simp add: take_next_def)
  with hit.IH [OF caught_up_take [OF hit.prems(1) hit.hyps(1,3)] hit.prems(2) _ hit.prems(4)]
  show ?case
    using hit.hyps by (simp add: seq_drain_hit)
next
  case (stop now force b e)
  have "e \<notin> fst ` set (rb_pending b)"
    using stop.hyps(3) by (simp add: assoc_eq_map_of map_of_eq_None_iff)
  then show ?case
    using stop by (auto simp: seq_drain_miss caught_up_def nothing_due_def)
next
  case (skip now force b e b')
  have "t0 \<le> t" if "t \<in> set (arrivals (rb_pending b))" for t
    using skip.prems(1) that by (auto simp: caught_up_def arrivals_def)
  then have "t0 \<le> Min (set (arrivals (rb_pending b)))"
    using skip.hyps(2) by (simp add: arrivals_def)
  with skip.hyps(4) skip.prems(2,3) show ?case
    by (simp add: seq_gap_def)
qed

text \<open>The packets of a burst: numbers from \<open>e0\<close> on, \<open>k\<close> of them, arriving within the
  window's delay of \<open>t0\<close>.\<close>

definition burst_packet :: "(int \<Rightarrow> 'a) \<Rightarrow> int \<Rightarrow> int \<Rightarrow> int \<Rightarrow> int \<Rightarrow> 'a arrival \<Rightarrow> bool" where
  "burst_packet f e0 k t0 delay = (\<lambda>(n, x, t). x = f n \<and> e0 \<le> n \<and> n < e0 + k \<and> t0 \<le> t \<and> t < t0 + delay)"

lemma seq_push_config:
  "rb_max_delay (snd (seq_drain now force b)) = rb_max_delay b \<and>
   rb_max_packets (snd (seq_drain now force b)) = rb_max_packets b"
  by (induction now force b rule: seq_drain_induct)
    (auto simp: seq_drain_idle seq_drain_hit seq_drain_miss take_next_def seq_gap_def Let_def
      split: if_splits)

lemma window_count:
  assumes "distinct (map fst p)" and "fst ` set p \<subseteq> {e0..<e0 + k} - {n}" and "n \<in> {e0..<e0 + k}"
  shows "int (Suc (length p)) \<le> k"
proof -
  have "length p = card (fst ` set p)"
    using distinct_card [OF assms(1)] by simp
  also have "\<dots> \<le> card ({e0..<e0 + k} - {n})"
    using assms(2) by (intro card_mono) simp_all
  also have "\<dots> = nat k - 1"
    using assms(3) by simp
  finally show ?thesis
    using assms(3) by auto
qed

lemma seq_push_caught_up:
  assumes "in_window b" "caught_up f e0 t0 arrived out b" "nothing_due arrived b"
    and "arrived \<subseteq> {e0..<e0 + k}" "burst_packet f e0 k t0 (rb_max_delay b) (n, x, t)"
    and "k \<le> 0x8000" "k \<le> rb_max_packets b" "seq_push n x t b = (out', b')"
  shows "caught_up f e0 t0 (insert n arrived) (out @ out') b' \<and> nothing_due (insert n arrived) b' \<and>
    near n b \<and> rb_max_delay b' = rb_max_delay b \<and> rb_max_packets b' = rb_max_packets b"
proof -
  obtain e where e: "rb_expected b = Some e" "e0 \<le> e" "out = map f [e0..e - 1]"
      "fst ` set (rb_pending b) = arrived - {..<e}" "{e0..<e} \<subseteq> arrived"
    and pend: "\<forall>(k, x, t) \<in> set (rb_pending b). x = f k \<and> t0 \<le> t"
    using assms(2) by (auto simp: caught_up_def)
  have p: "x = f n" "e0 \<le> n" "n < e0 + k" "t0 \<le> t" "t < t0 + rb_max_delay b"
    using assms(5) by (simp_all add: burst_packet_def)
  have "e \<le> e0 + k"
  proof (rule ccontr)
    assume "\<not> e \<le> e0 + k"
    then have "e0 + k \<in> {e0..<e}" using p by simp
    with e(5) assms(4) have "e0 + k \<in> {e0..<e0 + k}" by blast
    then show False by simp
  qed
  with p e(2) assms(6) have near: "near n b"
    by (simp add: near_def e(1))
  show ?thesis
  proof (cases "n < e \<or> has_key n (rb_pending b)")
    case True
    then have "n \<in> arrived"
      using e(4,5) p(2) by (auto simp: has_key_iff)
    then have "insert n arrived = arrived" by blast
    moreover have "out' = [] \<and> (b' = b\<lparr> rb_late := rb_late b + 1 \<rparr> \<or>
        b' = b\<lparr> rb_duplicates := rb_duplicates b + 1 \<rparr>)"
      using True assms(8) e(1) by (auto simp: seq_push_def Let_def split: if_splits)
    ultimately show ?thesis
      using assms(2,3) near by (auto simp: caught_up_def nothing_due_def)
  next
    case False
    define b2 where "b2 = b\<lparr> rb_expected := Some e,
        rb_reordered := rb_reordered b + (if n \<noteq> e then 1 else 0),
        rb_pending := rb_pending b @ [(n, x, t)],
        rb_max_depth := max (rb_max_depth b) (int (length (rb_pending b @ [(n, x, t)]))) \<rparr>"
    have "int (Suc (length (rb_pending b))) \<le> k"
      using assms(1,4) e(4) False p(2,3)
      by (intro window_count [of _ e0 k n]) (auto simp: in_window_def has_key_iff)
    then have drain: "seq_drain t False b2 = (out', b')"
      using False assms(7,8) e(1) by (simp add: seq_push_def b2_def Let_def)
    have "caught_up f e0 t0 (insert n arrived) out b2"
      using e pend p False by (auto simp: caught_up_def b2_def)
    moreover have "t < t0 + rb_max_delay b2"
      using p by (simp add: b2_def)
    moreover have "{e0..} \<supseteq> insert n arrived"
      using assms(4) p by auto
    ultimately show ?thesis
      using seq_drain_caught_up [of f e0 t0 "insert n arrived" out b2 False t]
        seq_push_config [of t False b2] near
      by (simp add: drain) (simp add: b2_def)
  qed
qed

lemma seq_run_burst:
  "\<lbrakk> in_window b; caught_up f e0 t0 arrived out b; nothing_due arrived b; arrived \<subseteq> {e0..<e0 + k};
     list_all (burst_packet f e0 k t0 (rb_max_delay b)) ps; k \<le> 0x8000; k \<le> rb_max_packets b \<rbrakk> \<Longrightarrow>
   caught_up f e0 t0 (arrived \<union> fst ` set ps) (out @ fst (seq_run ps b)) (snd (seq_run ps b)) \<and>
   nothing_due (arrived \<union> fst ` set ps) (snd (seq_run ps b)) \<and> paced ps b"
proof (induction ps arbitrary: b arrived out)
  case (Cons p ps)
  obtain n x t where p: "p = (n, x, t)"
    by (cases p)
  obtain out' b' where push: "seq_push n x t b = (out', b')"
    by (cases "seq_push n x t b")
  have bp: "burst_packet f e0 k t0 (rb_max_delay b) (n, x, t)"
    using Cons.prems(5) p by simp
  note step = seq_push_caught_up [OF Cons.prems(1-4) bp Cons.prems(6,7) push]
  then have "in_window b'"
    using push_wrap(2) [OF Cons.prems(1), of n x t] push by simp
  moreover have "insert n arrived \<subseteq> {e0..<e0 + k}"
    using Cons.prems(4) bp by (auto simp: burst_packet_def)
  ultimately show ?case
    using Cons.IH [of b' "insert n arrived" "out @ out'"] step Cons.prems(5-7) p push
    by simp
qed simp

definition with_numbers :: "'a arrival list \<Rightarrow> (int \<times> 'a) arrival list" where
  "with_numbers ps = map (\<lambda>(n, x, t). (n, (n, x), t)) ps"

definition books_balance :: "int \<Rightarrow> nat \<Rightarrow> (int \<times> 'a) list \<Rightarrow> (int \<times> 'a) reorder_buffer \<Rightarrow> bool" where
  "books_balance n0 pushed out b \<longleftrightarrow>
     rb_expected b = Some ((n0 + int (length out) + rb_lost b) mod 65536) \<and>
     int pushed = int (length out) + int (length (rb_pending b)) + rb_late b + rb_duplicates b"

lemma new_buffer [simp]:
  "in_window (new_reorder_buffer d m)" "wrap (new_reorder_buffer d m) = new_reorder_buffer d m"
  "carries_number num (new_reorder_buffer d m)"
  by (simp_all add: in_window_def wrap_def new_reorder_buffer_def carries_number_def)

section \<open>The extended sequence number\<close>

lemma cycles_of_eq: "cycles_of h = h - h mod 65536"
proof -
  have "h - take_bit 16 h = h AND NOT (take_bit 16 h)"
    by (rule disjunctive_diff) (simp add: bit_take_bit_iff)
  also have "\<dots> = h AND NOT (mask 16)"
    by (rule bit_eqI) (auto simp: bit_and_iff bit_not_iff bit_take_bit_iff bit_mask_iff)
  also have "(mask 16 :: int) = 0xFFFF"
    by (simp add: mask_eq_exp_minus_1)
  finally show ?thesis
    by (simp add: cycles_of_def take_bit_eq_mod)
qed

lemma observe_near:
  assumes "\<bar>n - h\<bar> < 0x8000"
  shows "observe n (Some h) = Some (max h n)"
proof -
  define q r q' r' where "q = h div 65536" and "r = h mod 65536"
    and "q' = n div 65536" and "r' = n mod 65536"
  have h: "h = 65536 * q + r" and n: "n = 65536 * q' + r'"
    by (simp_all add: q_def r_def q'_def r'_def)
  have r: "0 \<le> r" "r < 65536" "0 \<le> r'" "r' < 65536"
    by (simp_all add: r_def r'_def)
  have "q' = q - 1 \<or> q' = q \<or> q' = q + 1"
    using assms r unfolding h n by linarith
  moreover have "observe n (Some h) =
      (let candidate = (if r' < r \<and> r - r' > 0x8000 then h - r + 0x10000 + r'
          else if r' > r \<and> r' - r > 0x8000 then h - r - 0x10000 + r' else h - r + r')
       in Some (if candidate > h then candidate else h))"
    by (simp only: observe_def Let_def and_FFFF cycles_of_eq option.case r_def r'_def)
  ultimately show ?thesis
    using assms r unfolding h n by (elim disjE) (auto simp: Let_def max_def)
qed

text \<open>Every number observed is within half the sequence space of the highest before it.\<close>

fun within_half :: "int \<Rightarrow> int list \<Rightarrow> bool" where
  "within_half h [] \<longleftrightarrow> True"
| "within_half h (n # ns) \<longleftrightarrow> \<bar>n - h\<bar> < 0x8000 \<and> within_half (max h n) ns"

section \<open>Properties\<close>

text \<open>C12: the reorder window with its 16-bit sequence numbers refines the window over unbounded
  sequence numbers: from a state that holds its invariant, a run of packets that each arrive within
  half the sequence space of the expected one hands over the same items in the same order, counts
  the same losses, duplicates and late packets, and leaves a state of the same meaning.\<close>

theorem reorder_window_refines_unbounded:
  assumes "in_window b" and "paced ps b"
  shows "run_pushes ps (wrap b) = apsnd wrap (seq_run ps b) \<and> in_window (snd (seq_run ps b))"
  using run_wrap [OF assms] .

theorem reorder_window_refines_unbounded_witness:
  "fst (run_pushes [(65535, ''a'', 0), (65537, ''c'', 1), (65536, ''b'', 2)] (new_reorder_buffer 20 128))
     = [''a'', ''b'', ''c'']"
proof -
  let ?ps = "[(65535, ''a'', 0), (65537, ''c'', 1), (65536, ''b'', 2)]"
    and ?b = "new_reorder_buffer 20 128"
  have "paced ?ps ?b" "fst (seq_run ?ps ?b) = [''a'', ''b'', ''c'']"
    by code_simp+
  then show ?thesis
    using reorder_window_refines_unbounded [of ?b ?ps] by simp
qed

text \<open>C16: whatever arrives, in whatever order, a fresh reorder window hands every item over at
  most once and in the order of the sender's numbers, across wrap-around; every number passed over
  is either delivered or counted as lost, and every packet that came in is either delivered, still
  waiting, or counted as late or duplicate.\<close>

theorem reorder_window_delivers_in_order:
  fixes ps :: "'a arrival list"
  assumes "ps = (n0, x0, t0) # rest" and "paced (with_numbers ps) (new_reorder_buffer d m)"
    and "run_pushes (with_numbers ps) (new_reorder_buffer d m) = (out, b)"
  shows "sorted_wrt (<) (map fst out) \<and> set out \<subseteq> (\<lambda>(n, x, t). (n, x)) ` set ps \<and>
    books_balance n0 (length ps) out b"
proof -
  let ?new = "new_reorder_buffer d m" and ?ps = "with_numbers ps"
  let ?b0 = "?new\<lparr> rb_expected := Some n0 \<rparr>"
  have start: "seq_push n0 x t ?new = seq_push n0 x t ?b0" for x :: "int \<times> 'a" and t
    by (simp add: seq_push_def new_reorder_buffer_def)
  have w: "in_window ?b0" "carries_number fst ?b0" "rb_expected ?b0 = Some n0"
    "accounted fst n0 {} 0 [] ?b0"
    by (simp_all add: in_window_def new_reorder_buffer_def carries_number_def accounted_def)
  have paced: "paced ?ps ?b0"
    using assms(1,2) start by (simp add: with_numbers_def near_def)
  have same: "seq_run ?ps ?new = seq_run ?ps ?b0"
    using assms(1) start by (simp add: with_numbers_def)
  have "list_all (\<lambda>(n, x, t). fst x = n) ?ps"
    by (auto simp: with_numbers_def list_all_iff)
  note acc = seq_run_accounted [OF w(1) paced w(2) this w(3,4)]
  have code: "out = fst (seq_run ?ps ?b0)" "b = wrap (snd (seq_run ?ps ?b0))"
    using run_wrap [OF _ assms(2)] assms(3) by (cases "seq_run ?ps ?b0"; simp add: same)+
  have "(fst \<circ> snd) ` set ?ps = (\<lambda>(n, x, t). (n, x)) ` set ps" "length ?ps = length ps"
    by (force simp: with_numbers_def)+
  with acc show ?thesis
    unfolding code by (auto simp: accounted_def books_balance_def)
qed

theorem reorder_window_delivers_in_order_witness:
  "let (out, b) = run_pushes (with_numbers [(65535, ''a'', 0), (65537, ''c'', 1), (65537, ''c'', 2), (65538, ''d'', 22)])
                    (new_reorder_buffer 20 128)
   in out = [(65535, ''a''), (65537, ''c''), (65538, ''d'')] \<and> sorted_wrt (<) (map fst out) \<and>
      books_balance 65535 4 out b"
proof -
  let ?ps = "[(65535, ''a'', 0), (65537, ''c'', 1), (65537, ''c'', 2), (65538, ''d'', 22 :: int)]"
    and ?b = "new_reorder_buffer 20 128 :: (int \<times> string) reorder_buffer"
  obtain out b where run: "run_pushes (with_numbers ?ps) ?b = (out, b)"
    by (cases "run_pushes (with_numbers ?ps) ?b")
  have "paced (with_numbers ?ps) ?b"
    by code_simp
  note reorder_window_delivers_in_order [OF refl this run]
  moreover have "fst (run_pushes (with_numbers ?ps) ?b) = [(65535, ''a''), (65537, ''c''), (65538, ''d'')]"
    by code_simp
  ultimately show ?thesis
    using run by (simp add: numeral_eq_Suc)
qed

text \<open>A burst of packets that arrives complete is handed over complete and in order, however it
  was shuffled and duplicated on the way, when the window expected its first packet, had nothing
  waiting, and the burst fits its depth and its delay.\<close>

lemma complete_burst_restored:
  assumes "rb_expected b = Some (n0 mod 65536)" and "rb_pending b = []"
    and "list_all (burst_packet f n0 k t0 (rb_max_delay b)) ps" and "fst ` set ps = {n0..<n0 + k}"
    and "0 \<le> k" "k \<le> 0x8000" "k \<le> rb_max_packets b"
  shows "fst (run_pushes ps b) = map f [n0..n0 + k - 1]"
proof -
  let ?b = "b\<lparr> rb_expected := Some n0 \<rparr>"
  have b: "b = wrap ?b"
    using assms(1,2) by (simp add: wrap_def)
  have "in_window ?b" "caught_up f n0 t0 {} [] ?b" "nothing_due {} ?b"
    using assms(2) by (simp_all add: in_window_def caught_up_def nothing_due_def)
  then have run: "caught_up f n0 t0 {n0..<n0 + k} (fst (seq_run ps ?b)) (snd (seq_run ps ?b))"
      "nothing_due {n0..<n0 + k} (snd (seq_run ps ?b))"
    and code: "fst (run_pushes ps b) = fst (seq_run ps ?b)"
    using seq_run_burst [of ?b f n0 t0 "{}" "[]" k ps] run_wrap [of ?b ps] b assms(3-7) by auto
  obtain e where e: "rb_expected (snd (seq_run ps ?b)) = Some e" "n0 \<le> e"
      "fst (seq_run ps ?b) = map f [n0..e - 1]" "{n0..<e} \<subseteq> {n0..<n0 + k}"
    using run(1) by (auto simp: caught_up_def)
  have "e \<notin> {n0..<n0 + k}"
    using run(2) e(1) by (simp add: nothing_due_def)
  moreover have "e \<le> n0 + k"
  proof (rule ccontr)
    assume "\<not> e \<le> n0 + k"
    then have "n0 + k \<in> {n0..<e}" using assms(5) by simp
    with e(4) have "n0 + k \<in> {n0..<n0 + k}" by blast
    then show False by simp
  qed
  ultimately have "e = n0 + k" using e(2) by simp
  with e(3) code show ?thesis by simp
qed

lemma observe_mod: "observe (n mod 65536) h = observe n h"
  by (simp add: observe_def and_FFFF)

lemma observe_run:
  "within_half h ns \<Longrightarrow>
   foldl (\<lambda>h n. observe (n mod 65536) h) (Some h) ns = Some (foldl max h ns)"
  by (induction ns arbitrary: h) (simp_all add: observe_mod observe_near)

text \<open>The extended sequence tracker, which sees 16-bit numbers only, reports the greatest of the
  sender's numbers, counted from the first packet's, as long as every packet is within half the
  sequence space of the greatest one before it.\<close>

lemma extended_sequence_is_maximum:
  assumes "0 \<le> n" and "n < 65536" and "within_half n ns"
  shows "foldl (\<lambda>h n. observe (n mod 65536) h) None (n # ns) = Some (foldl max n ns)"
  using observe_run [OF assms(3)] assms(1,2) by (simp add: observe_def and_FFFF)

lemma extended_sequence_is_maximum_example:
  "foldl (\<lambda>h n. observe (n mod 65536) h) None [65534, 65537, 65535, 65538] = Some 65538"
  using extended_sequence_is_maximum [of 65534 "[65537, 65535, 65538]"] by simp

end
