(* ===== verification/Media_Path.thy ===== *)
theory Media_Path
  imports Video_Reorder
begin

text \<open>
  What \<open>video_ws_view.py\<close> does with the packets of a peer: each goes through the reorder window,
  and what the window hands over goes to the depacketizer of the negotiated codec.  The depacketizer
  is an interface: the H.264 and the VP8 depacketizer are its two instances.
\<close>

section \<open>Feeding a depacketizer\<close>

fun feed :: "('p \<Rightarrow> 's \<Rightarrow> 'u option \<times> 's) \<Rightarrow> 'p list \<Rightarrow> 's \<Rightarrow> 'u list \<times> 's" where
  "feed push [] d = ([], d)"
| "feed push (p # ps) d =
     (case push p d of
        (None, d') \<Rightarrow> feed push ps d'
      | (Some u, d') \<Rightarrow> apfst ((#) u) (feed push ps d'))"

lemma feed_append:
  "feed push (ps @ qs) d =
     (case feed push ps d of (us, d') \<Rightarrow> apfst ((@) us) (feed push qs d'))"
  by (induction ps arbitrary: d)
    (auto simp: apfst_def map_prod_def split: prod.split option.split)

section \<open>Numbered packets\<close>

definition consecutive :: "rtp_packet list \<Rightarrow> bool" where
  "consecutive ps \<longleftrightarrow>
     (\<forall>i < length ps. sequence (ps ! i) = (sequence (ps ! 0) + int i) mod 65536)"

text \<open>A packet as it arrives: the packet and the time.\<close>

definition arrival_of :: "rtp_packet \<times> int \<Rightarrow> rtp_packet arrival" where
  "arrival_of = (\<lambda>(p, t). (sequence p, p, t))"

text \<open>The unbounded number of a packet of a frame that starts at \<open>n0\<close>.\<close>

definition number_of :: "int \<Rightarrow> rtp_packet \<Rightarrow> int" where
  "number_of n0 p = n0 + (sequence p - n0) mod 65536"

lemma push_packet_mod: "push_packet (n mod 65536) x t b = push_packet n x t b"
  by (simp add: push_packet_def and_FFFF)

lemma run_pushes_mod:
  "map (\<lambda>(n, x, t). (n mod 65536, x, t)) ps = map (\<lambda>(n, x, t). (n mod 65536, x, t)) qs \<Longrightarrow>
   run_pushes ps b = run_pushes qs b"
proof (induction ps arbitrary: qs b)
  case (Cons p ps)
  obtain n x t where p: "p = (n, x, t)"
    by (cases p)
  then obtain n' qs' where qs: "qs = (n', x, t) # qs'" "n mod 65536 = n' mod 65536"
    and rest: "map (\<lambda>(n, x, t). (n mod 65536, x, t)) ps = map (\<lambda>(n, x, t). (n mod 65536, x, t)) qs'"
    using Cons.prems by (cases qs) auto
  have "push_packet n x t b = push_packet n' x t b"
    using qs(2) push_packet_mod [of n] push_packet_mod [of n'] by metis
  then show ?case
    using Cons.IH [OF rest] by (simp add: p qs(1))
qed simp

lemma number_of_nth:
  assumes "consecutive ps" "i < length ps" "length ps \<le> 65536"
  shows "number_of (sequence (ps ! 0)) (ps ! i) = sequence (ps ! 0) + int i"
proof -
  have "sequence (ps ! i) = (sequence (ps ! 0) + int i) mod 65536"
    using assms(1,2) by (simp add: consecutive_def)
  then have "(sequence (ps ! i) - sequence (ps ! 0)) mod 65536 = int i mod 65536"
    by (simp add: mod_diff_left_eq)
  with assms(2,3) show ?thesis
    by (simp add: number_of_def)
qed

lemma shifted_range: "(\<lambda>i. n0 + int i) ` {..<k} = {n0..<n0 + int k}"
proof (rule set_eqI)
  fix x
  show "x \<in> (\<lambda>i. n0 + int i) ` {..<k} \<longleftrightarrow> x \<in> {n0..<n0 + int k}"
  proof
    assume "x \<in> {n0..<n0 + int k}"
    then have "x = n0 + int (nat (x - n0))" "nat (x - n0) \<in> {..<k}"
      by auto
    then show "x \<in> (\<lambda>i. n0 + int i) ` {..<k}"
      by (rule image_eqI)
  qed auto
qed

lemma frame_is_reordered:
  assumes frame: "consecutive ps" "length ps \<le> 0x8000" "int (length ps) \<le> rb_max_packets b"
    and buffer: "rb_expected b = Some (sequence (ps ! 0))" "rb_pending b = []" "ps \<noteq> []"
    and arrivals: "set (map fst arr) = set ps"
      "list_all (\<lambda>(p, t). t0 \<le> t \<and> t < t0 + rb_max_delay b) arr"
  shows "fst (run_pushes (map arrival_of arr) b) = ps"
proof -
  define n0 where "n0 = sequence (ps ! 0)"
  define f where "f n = ps ! nat (n - n0)" for n
  let ?num = "\<lambda>(p, t). (number_of n0 p, p, t)"
  have num: "number_of n0 (ps ! i) = n0 + int i" if "i < length ps" for i
    unfolding n0_def by (rule number_of_nth [OF frame(1) that]) (use frame(2) in simp)
  have "sequence (ps ! 0) = (sequence (ps ! 0) + int 0) mod 65536"
    using frame(1) buffer(3) unfolding consecutive_def by blast
  then have "(n0 + int 0) mod 65536 = n0"
    unfolding n0_def by (rule sym)
  then have n0: "n0 mod 65536 = n0"
    by simp
  have "sequence p mod 65536 = number_of n0 p mod 65536" for p
    by (simp add: number_of_def mod_add_right_eq)
  then have code: "run_pushes (map arrival_of arr) b = run_pushes (map ?num arr) b"
    by (intro run_pushes_mod) (auto simp: arrival_of_def)
  have "list_all (burst_packet f n0 (int (length ps)) t0 (rb_max_delay b)) (map ?num arr)"
  proof (clarsimp simp: list_all_iff burst_packet_def)
    fix p t assume pt: "(p, t) \<in> set arr"
    then have "p \<in> set ps"
      using arrivals(1) by force
    then obtain i where i: "i < length ps" "p = ps ! i"
      by (auto simp: in_set_conv_nth)
    have "t0 \<le> t \<and> t < t0 + rb_max_delay b"
      using pt arrivals(2) by (auto simp: list_all_iff)
    with num [OF i(1)] i show "p = f (number_of n0 p) \<and> n0 \<le> number_of n0 p \<and>
        number_of n0 p < n0 + int (length ps) \<and> t0 \<le> t \<and> t < t0 + rb_max_delay b"
      by (simp add: f_def)
  qed
  moreover have "fst ` set (map ?num arr) = {n0..<n0 + int (length ps)}"
  proof -
    have "fst ` set (map ?num arr) = number_of n0 ` set (map fst arr)"
      by force
    also have "\<dots> = number_of n0 ` set ps"
      by (simp only: arrivals(1))
    also have "\<dots> = (\<lambda>i. number_of n0 (ps ! i)) ` {..<length ps}"
      by (auto simp: set_conv_nth)
    also have "\<dots> = (\<lambda>i. n0 + int i) ` {..<length ps}"
      by (intro image_cong) (simp_all add: num)
    also have "\<dots> = {n0..<n0 + int (length ps)}"
      by (rule shifted_range)
    finally show ?thesis .
  qed
  ultimately have "fst (run_pushes (map ?num arr) b) = map f [n0..n0 + int (length ps) - 1]"
    using buffer(1,2) frame(2,3)
      complete_burst_restored [where ?n0.0 = n0 and ?t0.0 = t0 and f = f and b = b and k = "int (length ps)" and ps = "map ?num arr"]
    by (simp flip: n0_def add: n0)
  also have "\<dots> = ps"
    by (rule nth_equalityI) (simp_all add: f_def nth_upto)
  finally show ?thesis
    by (simp add: code)
qed

section \<open>The interface of a depacketizer\<close>

text \<open>\<open>carries d ps u\<close>: in state \<open>d\<close>, the packet train \<open>ps\<close> of one frame
  yields the unit \<open>u\<close>.\<close>

locale frame_receiver =
  fixes push :: "rtp_packet \<Rightarrow> 's \<Rightarrow> 'u option \<times> 's"
    and carries :: "'s \<Rightarrow> rtp_packet list \<Rightarrow> 'u \<Rightarrow> bool"
  assumes one_unit: "carries d ps u \<Longrightarrow> fst (feed push ps d) = [u]"
    and in_sequence: "carries d ps u \<Longrightarrow> consecutive ps"
begin

lemma carries_some: "carries d ps u \<Longrightarrow> ps \<noteq> []"
  using one_unit [of d ps u] by auto

lemma shuffled_frame:
  assumes "carries d ps u" "length ps \<le> 0x8000" "int (length ps) \<le> rb_max_packets b"
    and "rb_expected b = Some (sequence (ps ! 0))" "rb_pending b = []"
    and "set (map fst arr) = set ps"
    and "list_all (\<lambda>(p, t). t0 \<le> t \<and> t < t0 + rb_max_delay b) arr"
  shows "fst (feed push (fst (run_pushes (map arrival_of arr) b)) d) = [u]"
  using frame_is_reordered [OF in_sequence [OF assms(1)] assms(2-5) carries_some [OF assms(1)] assms(6,7)]
    one_unit [OF assms(1)]
  by simp

end

end
