(* ===== verification/H264_Roundtrip.thy ===== *)
theory H264_Roundtrip
  imports H264_Rtp Media_Path
begin

text \<open>
  An H.264 access unit through the air: \<open>packetize_annex_b\<close>, the reorder window and the
  depacketizer of \<open>video_rtp.py\<close>.
\<close>

section \<open>Splitting what was joined\<close>

text \<open>A NAL unit as an encoder emits it: no start code inside, no zero at the end, a type the
  packetizer carries and a size within the limit.\<close>

definition clean_nal :: "int list \<Rightarrow> bool" where
  "clean_nal nal \<longleftrightarrow> nal \<noteq> [] \<and> last nal \<noteq> 0 \<and> \<not> sublist [0, 0, 1] nal \<and> is_byte (hd nal) \<and>
     1 \<le> nal_type nal \<and> nal_type nal \<le> 23 \<and> length nal \<le> MAX_NAL_UNIT_BYTES"

definition joined :: "int list list \<Rightarrow> int list" where
  "joined nals = concat (map (\<lambda>nal. ANNEX_B_START_CODE @ nal) nals)"

lemma no_code_inside:
  assumes "nal \<noteq> []" "last nal \<noteq> (0 :: int)" "\<not> sublist [0, 0, 1] nal"
  shows "take 3 (nal @ rest) \<noteq> [0, 0, 1]" and "take 4 (nal @ rest) \<noteq> [0, 0, 0, 1]"
proof -
  consider (one) a where "nal = [a]" | (two) a b where "nal = [a, b]"
    | (three) a b c where "nal = [a, b, c]" | (more) a b c d r where "nal = a # b # c # d # r"
    using assms(1) by (metis neq_Nil_conv)
  note cases = this
  show "take 3 (nal @ rest) \<noteq> [0, 0, 1]"
  proof
    assume code: "take 3 (nal @ rest) = [0, 0, 1]"
    from cases show False
    proof cases
      case more
      then have "nal = [0, 0, 1] @ d # r" using code by simp
      with assms(3) show False by (metis sublist_append_rightI)
    qed (use code assms in \<open>auto simp: take_Cons'\<close>)
  qed
  show "take 4 (nal @ rest) \<noteq> [0, 0, 0, 1]"
  proof
    assume code: "take 4 (nal @ rest) = [0, 0, 0, 1]"
    from cases show False
    proof cases
      case more
      then have "nal = [0] @ [0, 0, 1] @ r" using code by simp
      with assms(3) show False by (metis sublist_appendI)
    qed (use code assms in \<open>auto simp: take_Cons'\<close>)
  qed
qed

lemma start_codes_short: "length xs < 3 \<Longrightarrow> start_codes i xs = []"
  by (cases xs) simp_all

lemma start_codes_skip:
  "\<lbrakk> last nal \<noteq> 0; \<not> sublist [0, 0, 1] nal \<rbrakk> \<Longrightarrow>
   start_codes i (nal @ rest) = start_codes (i + length nal) rest"
proof (induction nal arbitrary: i)
  case (Cons b nal)
  have b: "\<not> sublist [0, 0, 1] (b # nal)" "last (b # nal) \<noteq> 0" "b # nal \<noteq> []"
    using Cons.prems by simp_all
  have tail: "start_codes (Suc i) (nal @ rest) = start_codes (Suc i + length nal) rest"
  proof (cases "nal = []")
    case False
    moreover have "\<not> sublist [0, 0, 1] nal"
      using b(1) by (meson sublist_Cons_right)
    ultimately show ?thesis
      using Cons.IH [of "Suc i"] b(2) by simp
  qed simp
  show ?case
  proof (cases "length (b # nal @ rest) < 3")
    case True
    then show ?thesis
      by (simp add: start_codes_short)
  next
    case False
    with no_code_inside [OF b(3,2,1), of rest] tail show ?thesis
      by (auto simp: ANNEX_B_START_CODE_def)
  qed
qed simp

fun nal_starts :: "nat \<Rightarrow> int list list \<Rightarrow> (nat \<times> nat) list" where
  "nal_starts i [] = []"
| "nal_starts i (nal # nals) = (i, 4) # nal_starts (i + 4 + length nal) nals"

lemma joined_Cons: "joined (nal # nals) = [0, 0, 0, 1] @ nal @ joined nals"
  by (simp add: joined_def ANNEX_B_START_CODE_def)

lemma start_codes_joined:
  "list_all clean_nal nals \<Longrightarrow> start_codes i (joined nals) = nal_starts i nals"
proof (induction nals arbitrary: i)
  case (Cons nal nals)
  have "start_codes i (joined (nal # nals)) = (i, 4) # start_codes (i + 4) (nal @ joined nals)"
    by (simp add: joined_Cons ANNEX_B_START_CODE_def)
  also have "start_codes (i + 4) (nal @ joined nals) = start_codes (i + 4 + length nal) (joined nals)"
    using Cons.prems by (intro start_codes_skip) (simp_all add: clean_nal_def)
  finally show ?case
    using Cons by simp
qed (simp add: joined_def)

lemma trim_zeros_clean: "nal \<noteq> [] \<Longrightarrow> last nal \<noteq> 0 \<Longrightarrow> trim_zeros nal = nal"
  by (cases nal rule: rev_cases) (simp_all add: trim_zeros_def)

lemma nal_end:
  "(case nal_starts i nals of [] \<Rightarrow> i + length (joined nals) | (s, _) # _ \<Rightarrow> s) = i"
  by (cases nals) (simp_all add: joined_def)

lemma cut_nals_joined:
  "list_all clean_nal nals \<Longrightarrow> length pre = i \<Longrightarrow>
   cut_nals (pre @ joined nals) (nal_starts i nals) = Inr nals"
proof (induction nals arbitrary: pre i)
  case (Cons nal nals)
  let ?data = "pre @ joined (nal # nals)"
  have data: "?data = (pre @ [0, 0, 0, 1] @ nal) @ joined nals"
    by (simp add: joined_Cons)
  have len: "length ?data = i + 4 + length nal + length (joined nals)"
    using Cons.prems(2) by (simp add: joined_Cons)
  have fin: "(case nal_starts (i + 4 + length nal) nals of [] \<Rightarrow> length ?data | (s, _) # _ \<Rightarrow> s)
      = i + 4 + length nal"
    using nal_end [of "i + 4 + length nal" nals] by (simp only: len)
  have slice: "take (i + 4 + length nal - (i + 4)) (drop (i + 4) ?data) = nal"
    using Cons.prems(2) by (simp add: joined_Cons)
  have nal: "trim_zeros nal = nal" "nal \<noteq> []" "\<not> length nal > MAX_NAL_UNIT_BYTES"
    using Cons.prems(1) by (simp_all add: clean_nal_def trim_zeros_clean)
  have "cut_nals ?data (nal_starts (i + 4 + length nal) nals) = Inr nals"
    unfolding data by (rule Cons.IH) (use Cons.prems in simp_all)
  then show ?case
    unfolding nal_starts.simps cut_nals.simps Let_def fin slice using nal by simp
qed simp

lemma split_joined:
  assumes "list_all clean_nal nals" "nals \<noteq> []" "length nals \<le> MAX_ACCESS_UNIT_NALS"
  shows "split_annex_b (joined nals) = Inr nals"
proof -
  have "cut_nals (joined nals) (nal_starts 0 nals) = Inr nals"
    using cut_nals_joined [OF assms(1), of "[]" 0] by simp
  moreover have "joined nals \<noteq> []" "nal_starts 0 nals \<noteq> []"
    using assms(2) by (cases nals; simp add: joined_Cons)+
  ultimately show ?thesis
    using assms by (simp add: split_annex_b_def start_codes_joined)
qed

section \<open>The bits of a fragment\<close>

lemma indicator_table:
  "list_all (\<lambda>b. ((b AND 0xE0) OR 28) AND 0x1F = (28 :: int) \<and>
     (((b AND 0xE0) OR 28) AND 0xE0) OR (b AND 0x1F) = b) [0..255]"
  by code_simp

lemma fu_header_table:
  "list_all (\<lambda>ty. list_all (\<lambda>first. list_all (\<lambda>final.
     let h0 = (if first then ty OR 0x80 else ty); h = (if final then h0 OR 0x40 else h0)
     in h AND 0x1F = (ty :: int) \<and> h AND 0x20 = 0 \<and> (h AND 0x80 \<noteq> 0 \<longleftrightarrow> first) \<and>
        (h AND 0x40 \<noteq> 0 \<longleftrightarrow> final)) [False, True]) [False, True]) [1..23]"
  by code_simp

definition fu_header :: "int \<Rightarrow> bool \<Rightarrow> bool \<Rightarrow> int" where
  "fu_header ty first final =
     (let h0 = (if first then ty OR 0x80 else ty) in if final then h0 OR 0x40 else h0)"

lemma fu_header_bits:
  assumes "1 \<le> ty" "ty \<le> 23"
  shows "fu_header ty first final AND 0x1F = ty" "fu_header ty first final AND 0x20 = 0"
    "fu_header ty first final AND 0x80 \<noteq> 0 \<longleftrightarrow> first"
    "fu_header ty first final AND 0x40 \<noteq> 0 \<longleftrightarrow> final"
proof -
  have "ty \<in> set [1..23]" "first \<in> set [False, True]" "final \<in> set [False, True]"
    using assms by auto
  with fu_header_table show
    "fu_header ty first final AND 0x1F = ty" "fu_header ty first final AND 0x20 = 0"
    "fu_header ty first final AND 0x80 \<noteq> 0 \<longleftrightarrow> first"
    "fu_header ty first final AND 0x40 \<noteq> 0 \<longleftrightarrow> final"
    unfolding list_all_iff fu_header_def Let_def by blast+
qed

lemma indicator_bits:
  assumes "is_byte b"
  shows "((b AND 0xE0) OR 28) AND 0x1F = 28"
    and "(((b AND 0xE0) OR 28) AND 0xE0) OR (b AND 0x1F) = b"
  using indicator_table assms by (auto simp: list_all_iff is_byte_def)

section \<open>Payloads into NAL units\<close>

text \<open>A receiver in the middle of a unit: \<open>nals\<close> complete, \<open>fu\<close> being put together.\<close>

definition mid ::
  "h264_depacketizer \<Rightarrow> int \<Rightarrow> int \<Rightarrow> int list list \<Rightarrow> int list option \<Rightarrow> h264_depacketizer" where
  "mid d ts s nals fu = d\<lparr> hd_timestamp := Some ts, hd_expected := Some s, hd_nals := nals,
     hd_fu := fu, hd_damaged := False \<rparr>"

lemma mid_fu [simp]: "mid d ts s nals fu\<lparr> hd_fu := g \<rparr> = mid d ts s nals g"
  by (simp add: mid_def)

definition takes ::
  "int list \<Rightarrow> int list list \<times> int list option \<Rightarrow> int list list \<times> int list option \<Rightarrow> bool" where
  "takes pl x y \<longleftrightarrow> pl \<noteq> [] \<and>
     (\<forall>d ts s. consume_payload pl (mid d ts s (fst x) (snd x)) = (Inr (), mid d ts s (fst y) (snd y)))"

fun takes_all ::
  "int list list \<Rightarrow> int list list \<times> int list option \<Rightarrow> int list list \<times> int list option \<Rightarrow> bool" where
  "takes_all [] x y \<longleftrightarrow> x = y"
| "takes_all (pl # pls) x y \<longleftrightarrow> (\<exists>z. takes pl x z \<and> takes_all pls z y)"

lemma takes_all_append: "takes_all ps x y \<Longrightarrow> takes_all qs y z \<Longrightarrow> takes_all (ps @ qs) x z"
  by (induction ps x y rule: takes_all.induct) auto

definition room :: "int list list \<Rightarrow> bool" where
  "room nals \<longleftrightarrow> length nals \<le> MAX_ACCESS_UNIT_NALS \<and> nals_size nals \<le> MAX_ACCESS_UNIT_BYTES"

lemma room_prefix: "room (nals @ rem) \<Longrightarrow> room nals"
  by (simp add: room_def nals_size_def)

lemma append_mid:
  assumes "clean_nal nal" "room (nals @ [nal])"
  shows "append_nal nal (mid d ts s nals fu) = (Inr (), mid d ts s (nals @ [nal]) fu)"
  using assms by (simp add: append_nal_def mid_def clean_nal_def room_def)

lemma takes_single:
  assumes "clean_nal nal" "room (nals @ [nal])"
  shows "takes nal (nals, None) (nals @ [nal], None)"
proof -
  have "hd_fu (mid d ts s nals None) = None" for d ts s
    by (simp add: mid_def)
  with assms append_mid [OF assms] show ?thesis
    by (simp add: takes_def consume_payload_def clean_nal_def nal_type_def)
qed

lemma takes_fragment:
  assumes "is_byte b" "1 \<le> ty" "ty \<le> 23" "b AND 0x1F = ty" "frag \<noteq> []" "\<not> (first \<and> final)"
    and "fu = (if first then None else Some (b # acc))" "first \<Longrightarrow> acc = []"
    and "length (b # acc @ frag) \<le> MAX_NAL_UNIT_BYTES"
    and "final \<Longrightarrow> clean_nal (b # acc @ frag) \<and> room (nals @ [b # acc @ frag])"
  shows "takes ([(b AND 0xE0) OR 28, fu_header ty first final] @ frag) (nals, fu)
    (if final then (nals @ [b # acc @ frag], None) else (nals, Some (b # acc @ frag)))"
proof -
  let ?ind = "(b AND 0xE0) OR 28" and ?h = "fu_header ty first final"
  note ind = indicator_bits [OF assms(1)] and h = fu_header_bits [OF assms(2,3), of first final]
  have frag: "fu_a ([?ind, ?h] @ frag) (mid d ts s nals fu) =
      (Inr (), if final then mid d ts s (nals @ [b # acc @ frag]) None
               else mid d ts s nals (Some (b # acc @ frag)))" for d ts s
  proof -
    have len: "\<not> length ([?ind, ?h] @ frag) < 3"
      using assms(5) by (cases frag) simp_all
    have "the (hd_fu (mid d ts s nals fu)) = b # acc" if "\<not> first"
      using that assms(7) by (simp add: mid_def)
    moreover have "hd_fu (mid d ts s nals fu) = None \<longleftrightarrow> first"
      using assms(7) by (simp add: mid_def)
    ultimately show ?thesis
      using len assms ind h append_mid
      by (cases first; cases final) (simp_all add: fu_a_def Let_def)
  qed
  have "consume_payload ([?ind, ?h] @ frag) d = fu_a ([?ind, ?h] @ frag) d" for d
    using ind by (simp add: consume_payload_def)
  with frag show ?thesis
    by (simp add: takes_def)
qed

lemma takes_rest:
  assumes "is_byte b" "1 \<le> ty" "ty \<le> 23" "b AND 0x1F = ty" "0 < n"
  shows "\<lbrakk> rest \<noteq> []; clean_nal (b # acc @ rest); room (nals @ [b # acc @ rest]) \<rbrakk> \<Longrightarrow>
    takes_all (fu_payloads ((b AND 0xE0) OR 28) ty n False rest) (nals, Some (b # acc))
      (nals @ [b # acc @ rest], None)"
proof (induction rest arbitrary: acc rule: length_induct)
  case (1 rest)
  let ?ind = "(b AND 0xE0) OR 28"
  have len: "length (b # acc @ rest) \<le> MAX_NAL_UNIT_BYTES"
    using "1.prems"(2) by (simp only: clean_nal_def)
  show ?case
  proof (cases "length rest \<le> n")
    case True
    have "fu_payloads ?ind ty n False rest = [[?ind, fu_header ty False True] @ rest]"
      using "1.prems"(1) True assms(5)
      by (subst fu_payloads.simps) (simp add: fu_header_def fu_payloads.simps [of _ _ _ _ "[]"])
    moreover have "takes ([?ind, fu_header ty False True] @ rest) (nals, Some (b # acc))
        (nals @ [b # acc @ rest], None)"
      using takes_fragment [OF assms(1-4) "1.prems"(1), of False True "Some (b # acc)" acc nals]
        "1.prems" len by simp
    ultimately show ?thesis by simp
  next
    case False
    have "fu_payloads ?ind ty n False rest = ([?ind, fu_header ty False False] @ take n rest) #
        fu_payloads ?ind ty n False (drop n rest)"
      using "1.prems"(1) False assms(5)
      by (subst fu_payloads.simps) (simp add: fu_header_def)
    moreover have "takes ([?ind, fu_header ty False False] @ take n rest) (nals, Some (b # acc))
        (nals, Some (b # acc @ take n rest))"
      using takes_fragment [OF assms(1-4), of "take n rest" False False "Some (b # acc)" acc nals]
        "1.prems"(1) len assms(5) by simp
    moreover have "length (drop n rest) < length rest" "drop n rest \<noteq> []"
      using False assms(5) by simp_all
    then have "takes_all (fu_payloads ?ind ty n False (drop n rest))
        (nals, Some (b # (acc @ take n rest))) (nals @ [b # (acc @ take n rest) @ drop n rest], None)"
      using "1.prems"(2,3) by (intro "1.IH" [rule_format]) simp_all
    ultimately show ?thesis by auto
  qed
qed

lemma takes_nal:
  assumes "clean_nal nal" "room (nals @ [nal])" "3 \<le> m" "nal_payloads m nal = Inr pls"
  shows "takes_all pls (nals, None) (nals @ [nal], None)"
proof (cases "length nal \<le> m")
  case True
  then have "pls = [nal]"
    using assms(4) by (simp add: nal_payloads_def split: if_splits)
  with takes_single [OF assms(1,2)] show ?thesis by simp
next
  case False
  obtain b body where nal: "nal = b # body"
    using assms(1) by (cases nal) (simp_all add: clean_nal_def)
  let ?ind = "(b AND 0xE0) OR 28" and ?ty = "b AND 0x1F" and ?n = "m - 2"
  have b: "is_byte b" "1 \<le> ?ty" "?ty \<le> 23" and len: "length nal \<le> MAX_NAL_UNIT_BYTES"
    using assms(1) by (simp_all add: clean_nal_def nal nal_type_def)
  have n: "0 < ?n" "\<not> length body \<le> ?n" "body \<noteq> []" "drop ?n body \<noteq> []"
    using False assms(3) by (auto simp: nal)
  have "pls = ([?ind, fu_header ?ty True False] @ take ?n body) #
      fu_payloads ?ind ?ty ?n False (drop ?n body)"
    using assms(4) False b n
    by (subst (asm) nal_payloads_def, subst (asm) fu_payloads.simps)
      (simp add: nal nal_type_def fu_header_def split: if_splits)
  moreover have "takes ([?ind, fu_header ?ty True False] @ take ?n body) (nals, None)
      (nals, Some (b # take ?n body))"
    using takes_fragment [OF b refl, of "take ?n body" True False None "[]" nals] n len
    by (simp add: nal)
  moreover have "takes_all (fu_payloads ?ind ?ty ?n False (drop ?n body))
      (nals, Some (b # take ?n body)) (nals @ [b # take ?n body @ drop ?n body], None)"
    using assms(1,2) n by (intro takes_rest [OF b refl]) (simp_all add: nal)
  ultimately show ?thesis
    by (auto simp: nal)
qed

lemma takes_nals:
  "\<lbrakk> list_all clean_nal rem; room (nals @ rem); 3 \<le> m; concatE (nal_payloads m) rem = Inr pls \<rbrakk> \<Longrightarrow>
   takes_all pls (nals, None) (nals @ rem, None)"
proof (induction rem arbitrary: nals pls)
  case (Cons nal rem)
  then obtain p ps where p: "nal_payloads m nal = Inr p" "concatE (nal_payloads m) rem = Inr ps"
    "pls = p @ ps"
    by (auto simp: bindE_eq_Inr)
  have "room ((nals @ [nal]) @ rem)"
    using Cons.prems(2) by simp
  then have "takes_all p (nals, None) (nals @ [nal], None)"
    using Cons.prems p(1) room_prefix by (intro takes_nal) simp_all
  moreover have "takes_all ps (nals @ [nal], None) ((nals @ [nal]) @ rem, None)"
    using Cons.prems p(2) by (intro Cons.IH) simp_all
  ultimately show ?case
    using takes_all_append p(3) by simp
qed simp

lemma nal_payloads_total: "clean_nal nal \<Longrightarrow> \<exists>pls. nal_payloads m nal = Inr pls"
  by (simp add: nal_payloads_def clean_nal_def)

lemma nals_payloads_total:
  "list_all clean_nal nals \<Longrightarrow> \<exists>pls. concatE (nal_payloads m) nals = Inr pls"
proof (induction nals)
  case (Cons nal nals)
  then obtain p ps where "nal_payloads m nal = Inr p" "concatE (nal_payloads m) nals = Inr ps"
    using nal_payloads_total [of nal m] by auto
  then show ?case by simp
qed simp

lemma fu_payloads_length:
  "list_all (\<lambda>pl. length pl \<le> n + 2) (fu_payloads ind ty n first rest)"
proof (induction ind ty n first rest rule: fu_payloads.induct)
  case (1 ind ty n first rest)
  then show ?case
    by (subst fu_payloads.simps) (simp add: Let_def)
qed

lemma fu_payloads_some: "rest \<noteq> [] \<Longrightarrow> n \<noteq> 0 \<Longrightarrow> fu_payloads ind ty n first rest \<noteq> []"
  by (subst fu_payloads.simps) (simp add: Let_def)

lemma nals_payloads_length:
  "concatE (nal_payloads m) nals = Inr pls \<Longrightarrow> 2 \<le> m \<Longrightarrow> list_all (\<lambda>pl. length pl \<le> m) pls"
proof (induction nals arbitrary: pls)
  case (Cons nal nals)
  then obtain p ps where p: "nal_payloads m nal = Inr p" "concatE (nal_payloads m) nals = Inr ps"
    "pls = p @ ps"
    by (auto simp: bindE_eq_Inr)
  have "list_all (\<lambda>pl. length pl \<le> m) p"
    using p(1) Cons.prems(2) fu_payloads_length [of "m - 2"]
    by (auto simp: nal_payloads_def numeral_2_eq_2 Suc_diff_Suc split: if_splits)
  with Cons p show ?case by simp
qed simp

section \<open>A train of packets\<close>

definition idle_h264 :: "h264_depacketizer \<Rightarrow> bool" where
  "idle_h264 d \<longleftrightarrow> hd_timestamp d = None \<and> hd_expected d = None \<and> hd_nals d = [] \<and>
     hd_fu d = None \<and> \<not> hd_damaged d"

text \<open>What \<open>finish_unit\<close> joins, and the unit it makes of it.\<close>

definition with_bootstrap :: "h264_depacketizer \<Rightarrow> int list list \<Rightarrow> int list list" where
  "with_bootstrap d nals =
     (if list_ex (\<lambda>nal. nal_type nal = 5) nals then bootstrap d nals @ nals else nals)"

definition the_unit :: "int list \<Rightarrow> int \<Rightarrow> int list list \<Rightarrow> h264_unit" where
  "the_unit data ts nals =
     \<lparr> au_data = data, au_timestamp = ts, au_key_frame = list_ex (\<lambda>nal. nal_type nal = 5) nals \<rparr>"

text \<open>The states of a receiver that is to take packet number \<open>s\<close> of the unit with timestamp
  \<open>ts\<close>: at rest before the first packet, in the middle after it.\<close>

definition receiving ::
  "h264_depacketizer \<Rightarrow> int \<Rightarrow> int \<Rightarrow> int list list \<times> int list option \<Rightarrow> h264_depacketizer \<Rightarrow> bool" where
  "receiving d ts s x st \<longleftrightarrow>
     st = mid d ts s (fst x) (snd x) \<or> (idle_h264 d \<and> st = d \<and> x = ([], None))"

lemma enter_receiving:
  assumes "receiving d ts s x st" "timestamp p = ts" "sequence p = s"
  shows "enter_packet p st = mid d ts (next_sequence s) (fst x) (snd x)"
  using assms
  by (auto simp: receiving_def enter_packet_def mid_def idle_h264_def Let_def)

lemma push_receiving:
  assumes "receiving d ts s x st" "timestamp p = ts" "sequence p = s" "takes (payload p) x y"
  shows "h264_push p st =
    (if marker p then finish_unit ts (mid d ts (next_sequence s) (fst y) (snd y))
     else (None, mid d ts (next_sequence s) (fst y) (snd y)))"
  using assms enter_receiving [OF assms(1-3)] by (simp add: h264_push_def takes_def)

lemma mark_last_Cons: "ps \<noteq> [] \<Longrightarrow> mark_last (p # ps) = p # mark_last ps"
  by (simp add: mark_last_def)

lemma number_packets_Nil [simp]: "number_packets pt ts src s pls = [] \<longleftrightarrow> pls = []"
  by (cases pls) simp_all

lemma feed_train:
  "\<lbrakk> pls \<noteq> []; receiving d ts s x st; takes_all pls x y \<rbrakk> \<Longrightarrow>
   \<exists>s'. feed h264_push (mark_last (number_packets pt ts src s pls)) st =
     (case finish_unit ts (mid d ts s' (fst y) (snd y)) of
        (None, d') \<Rightarrow> ([], d') | (Some u, d') \<Rightarrow> ([u], d'))"
proof (induction pls arbitrary: s x st)
  case (Cons pl pls)
  obtain z where z: "takes pl x z" "takes_all pls z y"
    using Cons.prems(3) by auto
  let ?p = "\<lparr> payload_type = pt, sequence = s, timestamp = ts, ssrc = src, payload = pl,
    marker = False \<rparr>"
  show ?case
  proof (cases "pls = []")
    case True
    then have "z = y" using z(2) by simp
    with True push_receiving [OF Cons.prems(2), of "?p\<lparr> marker := True \<rparr>"] z(1) show ?thesis
      by (intro exI [of _ "next_sequence s"])
        (auto simp: mark_last_def split: prod.split option.split)
  next
    case False
    let ?st = "mid d ts (next_sequence s) (fst z) (snd z)"
    have "h264_push ?p st = (None, ?st)"
      using push_receiving [OF Cons.prems(2), of ?p] z(1) by simp
    moreover have "receiving d ts (next_sequence s) z ?st"
      by (simp add: receiving_def)
    ultimately show ?thesis
      using Cons.IH [OF False _ z(2)] False by (simp add: mark_last_Cons)
  qed
qed simp

lemma finish_mid:
  assumes "idle_h264 d" "nals \<noteq> []" "join_annex_b (with_bootstrap d nals) = Inr data"
  shows "finish_unit ts (mid d ts s nals None) =
    (Some (the_unit data ts nals), fold remember_parameter_set nals d)"
proof -
  have "mid d ts s nals None\<lparr> hd_timestamp := None, hd_expected := None, hd_nals := [],
      hd_fu := None, hd_damaged := False \<rparr> = d"
    using assms(1) by (simp add: mid_def idle_h264_def)
  moreover have "hd_nals (mid d ts s nals None) = nals" "\<not> hd_damaged (mid d ts s nals None)"
    "hd_fu (mid d ts s nals None) = None"
    by (simp_all add: mid_def)
  ultimately show ?thesis
    using assms(2,3) by (simp add: finish_unit_def with_bootstrap_def the_unit_def Let_def)
qed

lemma room_of_join:
  assumes "join_annex_b (with_bootstrap d nals) = Inr data" "length nals \<le> MAX_ACCESS_UNIT_NALS"
  shows "room nals"
  using assms by (auto simp: room_def with_bootstrap_def join_annex_b_def nals_size_def
      split: if_splits)

lemma packets_of_unit:
  assumes "list_all clean_nal nals" "nals \<noteq> []" "length nals \<le> MAX_ACCESS_UNIT_NALS"
    and "3 \<le> m" "m \<le> int MAX_RTP_PAYLOAD_BYTES"
  obtains pls where "pls \<noteq> []" "concatE (nal_payloads (nat m)) nals = Inr pls"
    "packetize_annex_b (joined nals) pt s ts src m
       = Inr (mark_last (number_packets pt ts src (s AND 0xFFFF) pls))"
proof -
  obtain pls where pls: "concatE (nal_payloads (nat m)) nals = Inr pls"
    using nals_payloads_total [OF assms(1)] by blast
  have "pls \<noteq> []"
  proof
    assume "pls = []"
    with pls assms(1,2,4) obtain nal where "nal_payloads (nat m) nal = Inr []" "clean_nal nal"
      by (cases nals) (auto simp: bindE_eq_Inr)
    then show False
      using assms(4) fu_payloads_some by (auto simp: nal_payloads_def clean_nal_def split: if_splits)
  qed
  moreover from this pls have "packetize_annex_b (joined nals) pt s ts src m
      = Inr (mark_last (number_packets pt ts src (s AND 0xFFFF) pls))"
    using assms(4,5) split_joined [OF assms(1-3)] by (simp add: packetize_annex_b_def)
  ultimately show thesis
    using that pls by blast
qed

lemma unit_survives:
  assumes "list_all clean_nal nals" "nals \<noteq> []" "length nals \<le> MAX_ACCESS_UNIT_NALS"
    and "3 \<le> m" "m \<le> int MAX_RTP_PAYLOAD_BYTES" "idle_h264 d"
    and "join_annex_b (with_bootstrap d nals) = Inr data"
    and "packetize_annex_b (joined nals) pt s ts src m = Inr ps"
  shows "feed h264_push ps d = ([the_unit data ts nals], fold remember_parameter_set nals d)"
proof -
  obtain pls where pls: "pls \<noteq> []" "concatE (nal_payloads (nat m)) nals = Inr pls"
    "ps = mark_last (number_packets pt ts src (s AND 0xFFFF) pls)"
    using packets_of_unit [OF assms(1-5), of pt s ts src] assms(8) by auto
  have "room ([] @ nals)"
    using room_of_join assms(3,7) by simp
  then have "takes_all pls ([], None) (nals, None)"
    using takes_nals [of nals "[]" "nat m" pls] assms(1,4) pls(2) by simp
  moreover have "receiving d ts (s AND 0xFFFF) ([], None) d"
    using assms(6) by (simp add: receiving_def)
  ultimately obtain s' where "feed h264_push ps d =
      (case finish_unit ts (mid d ts s' nals None) of
        (None, d') \<Rightarrow> ([], d') | (Some u, d') \<Rightarrow> ([u], d'))"
    using feed_train [OF pls(1)] pls(3) by fastforce
  with finish_mid [OF assms(6,2,7)] show ?thesis by simp
qed

section \<open>The H.264 depacketizer behind the reorder window\<close>

definition carries_h264 :: "h264_depacketizer \<Rightarrow> rtp_packet list \<Rightarrow> h264_unit \<Rightarrow> bool" where
  "carries_h264 d ps u \<longleftrightarrow> idle_h264 d \<and>
     (\<exists>nals data pt s ts src m.
        list_all clean_nal nals \<and> nals \<noteq> [] \<and> length nals \<le> MAX_ACCESS_UNIT_NALS \<and>
        3 \<le> m \<and> m \<le> int MAX_RTP_PAYLOAD_BYTES \<and>
        join_annex_b (with_bootstrap d nals) = Inr data \<and>
        packetize_annex_b (joined nals) pt s ts src m = Inr ps \<and> u = the_unit data ts nals)"

lemma number_packets_nth:
  "i < length pls \<Longrightarrow> 0 \<le> s \<Longrightarrow> s < 65536 \<Longrightarrow>
   sequence (number_packets pt ts src s pls ! i) = (s + int i) mod 65536"
proof (induction pls arbitrary: s i)
  case (Cons pl pls)
  show ?case
  proof (cases i)
    case (Suc j)
    with Cons.prems Cons.IH [of j "next_sequence s"] show ?thesis
      by (simp add: next_sequence_def and_FFFF mod_add_left_eq add.assoc)
  qed (use Cons.prems in simp)
qed simp

lemma length_number_packets [simp]: "length (number_packets pt ts src s pls) = length pls"
  by (induction pls arbitrary: s) simp_all

lemma train_payloads:
  "list_all P pls \<Longrightarrow> pls \<noteq> [] \<Longrightarrow>
   list_all (\<lambda>p. P (payload p)) (mark_last (number_packets pt ts src s pls))"
proof (induction pls arbitrary: s)
  case (Cons pl pls)
  then show ?case
    by (cases "pls = []") (simp_all add: mark_last_Cons, simp add: mark_last_def)
qed simp

lemma mark_last_sequence:
  "ps \<noteq> [] \<Longrightarrow> map sequence (mark_last ps) = map sequence ps"
  by (cases ps rule: rev_cases) (simp_all add: mark_last_def)

lemma consecutive_cong: "map sequence ps = map sequence qs \<Longrightarrow> consecutive ps = consecutive qs"
proof -
  assume eq: "map sequence ps = map sequence qs"
  then have len: "length ps = length qs"
    by (rule map_eq_imp_length_eq)
  moreover have "sequence (ps ! i) = sequence (qs ! i)" if "i < length qs" for i
    using eq len that by (metis nth_map)
  ultimately show ?thesis
    unfolding consecutive_def by (metis gr_zeroI not_less_zero)
qed

lemma train_consecutive:
  assumes "pls \<noteq> []"
  shows "consecutive (mark_last (number_packets pt ts src (s AND 0xFFFF) pls))"
proof -
  have s: "0 \<le> s AND 0xFFFF" "s AND 0xFFFF < 65536"
    by (simp_all add: and_FFFF)
  have "consecutive (number_packets pt ts src (s AND 0xFFFF) pls)"
    unfolding consecutive_def using number_packets_nth [OF _ s] assms
    by (auto simp: mod_add_left_eq)
  then show ?thesis
    using consecutive_cong mark_last_sequence assms by (metis number_packets_Nil)
qed

interpretation h264: frame_receiver h264_push carries_h264
proof
  fix d :: h264_depacketizer and ps u
  assume "carries_h264 d ps u"
  then obtain nals data pt s ts src m where u: "idle_h264 d" "list_all clean_nal nals" "nals \<noteq> []"
      "length nals \<le> MAX_ACCESS_UNIT_NALS" "3 \<le> m" "m \<le> int MAX_RTP_PAYLOAD_BYTES"
      "join_annex_b (with_bootstrap d nals) = Inr data"
      "packetize_annex_b (joined nals) pt s ts src m = Inr ps" "u = the_unit data ts nals"
    unfolding carries_h264_def by blast
  show "fst (feed h264_push ps d) = [u]"
    using unit_survives [OF u(2-6,1,7,8)] u(9) by simp
  show "consecutive ps"
    using packets_of_unit [OF u(2-6), of pt s ts src] u(8) train_consecutive by (metis sum.inject(2))
qed

lemmas h264_example = clean_nal_def nal_type_def is_byte_def sublist_Cons_right join_annex_b_def
  nals_size_def with_bootstrap_def bootstrap_def the_unit_def joined_def ANNEX_B_START_CODE_def
  idle_h264_def new_h264_depacketizer_def remember_parameter_set_def MAX_NAL_UNIT_BYTES_def
  MAX_ACCESS_UNIT_BYTES_def MAX_ACCESS_UNIT_NALS_def MAX_RTP_PAYLOAD_BYTES_def

section \<open>Properties\<close>

text \<open>C17: an H.264 access unit made of clean NAL units goes through RTP unchanged: the packetizer
  accepts it and keeps every payload within the limit, whatever mixture of single packets and
  fragments that takes; the depacketizer, fed with the packets, yields exactly one unit, which is
  the joined NAL units again (behind the cached parameter sets when it is a key frame without its
  own), and it is left at rest with the parameter sets of the unit remembered.\<close>

theorem access_unit_survives_rtp:
  assumes "list_all clean_nal nals" "nals \<noteq> []" "length nals \<le> MAX_ACCESS_UNIT_NALS"
    and "3 \<le> m" "m \<le> int MAX_RTP_PAYLOAD_BYTES" "idle_h264 d"
    and "join_annex_b (with_bootstrap d nals) = Inr data"
  shows "\<exists>ps. packetize_annex_b (joined nals) pt s ts src m = Inr ps \<and>
    list_all (\<lambda>p. int (length (payload p)) \<le> m) ps \<and>
    feed h264_push ps d = ([the_unit data ts nals], fold remember_parameter_set nals d)"
proof -
  obtain pls where pls: "pls \<noteq> []" "concatE (nal_payloads (nat m)) nals = Inr pls"
    "packetize_annex_b (joined nals) pt s ts src m
       = Inr (mark_last (number_packets pt ts src (s AND 0xFFFF) pls))"
    using packets_of_unit [OF assms(1-5)] by blast
  have "list_all (\<lambda>pl. length pl \<le> nat m) pls"
    using nals_payloads_length [OF pls(2)] assms(4) by simp
  then have "list_all (\<lambda>p. length (payload p) \<le> nat m)
      (mark_last (number_packets pt ts src (s AND 0xFFFF) pls))"
    using train_payloads [of "\<lambda>pl. length pl \<le> nat m" pls] pls(1) by simp
  then have "list_all (\<lambda>p. int (length (payload p)) \<le> m)
      (mark_last (number_packets pt ts src (s AND 0xFFFF) pls))"
    using assms(4) by (auto simp: list_all_iff)
  with pls(3) unit_survives [OF assms pls(3)] show ?thesis by blast
qed

theorem access_unit_survives_rtp_witness:
  "\<exists>ps. packetize_annex_b [0, 0, 0, 1, 103, 66, 0, 0, 0, 1, 101, 1, 2, 3, 4, 5] 96 65535 9 7 4 = Inr ps \<and>
     list_all (\<lambda>p. int (length (payload p)) \<le> 4) ps \<and>
     fst (feed h264_push ps (new_h264_depacketizer [[104, 9]])) =
       [\<lparr> au_data = [0, 0, 0, 1, 104, 9, 0, 0, 0, 1, 103, 66, 0, 0, 0, 1, 101, 1, 2, 3, 4, 5],
         au_timestamp = 9, au_key_frame = True \<rparr>]"
proof -
  let ?nals = "[[103, 66], [101, 1, 2, 3, 4, 5]]" and ?d = "new_h264_depacketizer [[104, 9]]"
  have "list_all clean_nal ?nals" "idle_h264 ?d" "length ?nals \<le> MAX_ACCESS_UNIT_NALS"
    "join_annex_b (with_bootstrap ?d ?nals)
       = Inr [0, 0, 0, 1, 104, 9, 0, 0, 0, 1, 103, 66, 0, 0, 0, 1, 101, 1, 2, 3, 4, 5]"
    "joined ?nals = [0, 0, 0, 1, 103, 66, 0, 0, 0, 1, 101, 1, 2, 3, 4, 5]"
    "the_unit [0, 0, 0, 1, 104, 9, 0, 0, 0, 1, 103, 66, 0, 0, 0, 1, 101, 1, 2, 3, 4, 5] 9 ?nals =
       \<lparr> au_data = [0, 0, 0, 1, 104, 9, 0, 0, 0, 1, 103, 66, 0, 0, 0, 1, 101, 1, 2, 3, 4, 5],
         au_timestamp = 9, au_key_frame = True \<rparr>"
    by (simp_all add: h264_example)
  note facts = this
  show ?thesis
    using access_unit_survives_rtp [OF facts(1) _ facts(3) _ _ facts(2,4), of 4 96 65535 9 7]
    by (simp add: facts(5,6) MAX_RTP_PAYLOAD_BYTES_def) (metis fst_conv)
qed

text \<open>C11: the packets of an access unit may be shuffled and duplicated on the way: behind a reorder
  window that expects the first of them, has room for all and waits long enough, the depacketizer
  still yields exactly the unit that was sent.\<close>

theorem shuffled_access_unit_is_recovered:
  assumes "list_all clean_nal nals" "nals \<noteq> []" "length nals \<le> MAX_ACCESS_UNIT_NALS"
    and "3 \<le> m" "m \<le> int MAX_RTP_PAYLOAD_BYTES" "idle_h264 d"
    and "join_annex_b (with_bootstrap d nals) = Inr data"
    and "packetize_annex_b (joined nals) pt s ts src m = Inr ps"
    and "length ps \<le> 0x8000" "int (length ps) \<le> rb_max_packets b"
    and "rb_expected b = Some (sequence (ps ! 0))" "rb_pending b = []"
    and "set (map fst arr) = set ps"
    and "list_all (\<lambda>(p, t). t0 \<le> t \<and> t < t0 + rb_max_delay b) arr"
  shows "fst (feed h264_push (fst (run_pushes (map arrival_of arr) b)) d) = [the_unit data ts nals]"
proof -
  have "carries_h264 d ps (the_unit data ts nals)"
    unfolding carries_h264_def using assms(1-8) by blast
  then show ?thesis
    by (rule h264.shuffled_frame [OF _ assms(9-14)])
qed

theorem shuffled_access_unit_is_recovered_witness:
  "let ps = number_packets 96 9 7 65535 [[124, 133, 1, 2], [124, 5, 3, 4], [124, 69, 5]]
   in fst (feed h264_push
        (fst (run_pushes (map arrival_of
            [(mark_last ps ! 2, 1), (mark_last ps ! 1, 2), (mark_last ps ! 2, 3), (mark_last ps ! 0, 4)])
          (new_reorder_buffer 20 128\<lparr> rb_expected := Some 65535 \<rparr>)))
        (new_h264_depacketizer [])) =
      [\<lparr> au_data = [0, 0, 0, 1, 101, 1, 2, 3, 4, 5], au_timestamp = 9, au_key_frame = True \<rparr>]"
proof -
  let ?ps = "mark_last (number_packets 96 9 7 65535 [[124, 133, 1, 2], [124, 5, 3, 4], [124, 69, 5]])"
    and ?nals = "[[101, 1, 2, 3, 4, 5]]" and ?d = "new_h264_depacketizer []"
    and ?b = "new_reorder_buffer 20 128\<lparr> rb_expected := Some 65535 \<rparr> :: rtp_packet reorder_buffer"
    and ?data = "[0, 0, 0, 1, 101, 1, 2, 3, 4, 5]"
  let ?arr = "[(?ps ! 2, 1), (?ps ! 1, 2), (?ps ! 2, 3), (?ps ! 0, 4)] :: (rtp_packet \<times> int) list"
  have clean: "list_all clean_nal ?nals" "idle_h264 ?d" "length ?nals \<le> MAX_ACCESS_UNIT_NALS"
    "join_annex_b (with_bootstrap ?d ?nals) = Inr ?data" "4 \<le> int MAX_RTP_PAYLOAD_BYTES"
    "the_unit ?data 9 ?nals = \<lparr> au_data = ?data, au_timestamp = 9, au_key_frame = True \<rparr>"
    by (simp_all add: h264_example)
  have "concatE (nal_payloads 4) ?nals = Inr [[124, 133, 1, 2], [124, 5, 3, 4], [124, 69, 5]]"
    by code_simp
  then have sent: "packetize_annex_b (joined ?nals) 96 65535 9 7 4 = Inr ?ps"
    using split_joined [OF clean(1) _ clean(3)] clean(5) by (simp add: packetize_annex_b_def)
  have buffer: "rb_expected ?b = Some (sequence (?ps ! 0))" "rb_pending ?b = []"
    "length ?ps \<le> 0x8000" "int (length ?ps) \<le> rb_max_packets ?b" "set (map fst ?arr) = set ?ps"
    "list_all (\<lambda>(p, t). 0 \<le> t \<and> t < 0 + rb_max_delay ?b) ?arr"
    by (auto simp: new_reorder_buffer_def mark_last_def)
  have "fst (feed h264_push (fst (run_pushes (map arrival_of ?arr) ?b)) ?d) = [the_unit ?data 9 ?nals]"
    by (rule shuffled_access_unit_is_recovered
        [OF clean(1) _ clean(3) _ clean(5,2,4) sent buffer(3,4,1,2,5,6)]) simp_all
  then show ?thesis
    by (simp only: clean(6) Let_def)
qed

section \<open>Whatever arrives\<close>

definition acceptable_nal :: "int list \<Rightarrow> bool" where
  "acceptable_nal nal \<longleftrightarrow> nal \<noteq> [] \<and> length nal \<le> MAX_NAL_UNIT_BYTES \<and> 1 \<le> nal_type nal \<and> nal_type nal \<le> 23"

definition nals_bounded :: "h264_depacketizer \<Rightarrow> bool" where
  "nals_bounded d \<longleftrightarrow> length (hd_nals d) \<le> MAX_ACCESS_UNIT_NALS \<and> list_all acceptable_nal (hd_nals d)"

definition fu_bounded :: "h264_depacketizer \<Rightarrow> bool" where
  "fu_bounded d \<longleftrightarrow> (case hd_fu d of None \<Rightarrow> True | Some fu \<Rightarrow> length fu \<le> MAX_NAL_UNIT_BYTES)"

lemma append_nal_bounded:
  assumes "nals_bounded d"
  shows "nals_bounded (snd (append_nal nal d)) \<and> hd_fu (snd (append_nal nal d)) = hd_fu d"
  using assms by (auto simp: append_nal_def nals_bounded_def acceptable_nal_def Let_def)

lemma stap_a_bounded:
  "nals_bounded d \<Longrightarrow> nals_bounded (snd (stap_a rest n d)) \<and> hd_fu (snd (stap_a rest n d)) = hd_fu d"
proof (induction rest n d rule: stap_a.induct)
  case (1 rest n d)
  let ?size = "nat (u16_at rest 0)"
  obtain r d' where app: "append_nal (take ?size (drop 2 rest)) d = (r, d')"
    by (cases "append_nal (take ?size (drop 2 rest)) d")
  have d': "nals_bounded d'" "hd_fu d' = hd_fu d"
    using append_nal_bounded [OF "1.prems", of "take ?size (drop 2 rest)"] by (simp_all add: app)
  show ?case
  proof (cases "rest = [] \<or> length rest < 2 \<or> ?size = 0 \<or> ?size > length (drop 2 rest)")
    case True
    with "1.prems" show ?thesis
      by (auto simp: stap_a.simps [of rest] Let_def)
  next
    case False
    with "1.IH" [OF _ _ refl refl _ app [symmetric]] d' app show ?thesis
      by (cases r) (simp_all add: stap_a.simps [of rest] Let_def)
  qed
qed

lemma fu_a_bounded:
  assumes "nals_bounded d" "fu_bounded d"
  shows "nals_bounded (snd (fu_a pl d))"
    and "fst (fu_a pl d) = Inr () \<Longrightarrow> fu_bounded (snd (fu_a pl d))"
proof -
  have upd: "nals_bounded (d\<lparr> hd_fu := x \<rparr>)" for x
    using assms(1) by (simp add: nals_bounded_def)
  show "nals_bounded (snd (fu_a pl d))"
    using assms(1) upd append_nal_bounded by (simp add: fu_a_def Let_def)
  show "fst (fu_a pl d) = Inr () \<Longrightarrow> fu_bounded (snd (fu_a pl d))"
    using append_nal_bounded [OF upd [of None]]
    by (auto simp: fu_a_def Let_def fu_bounded_def split: if_split_asm)
qed

lemma consume_bounded:
  assumes "nals_bounded d" "fu_bounded d"
  shows "nals_bounded (snd (consume_payload pl d))"
    and "fst (consume_payload pl d) = Inr () \<Longrightarrow> fu_bounded (snd (consume_payload pl d))"
  using append_nal_bounded [OF assms(1), of pl] stap_a_bounded [OF assms(1), of "drop 1 pl" 0]
    fu_a_bounded [OF assms, of pl] assms
  by (auto simp: consume_payload_def Let_def fu_bounded_def)

lemma damage_bounded: "nals_bounded d \<Longrightarrow> nals_bounded (damage d) \<and> fu_bounded (damage d)"
  by (simp add: nals_bounded_def fu_bounded_def damage_def)

lemma enter_bounded:
  "nals_bounded d \<Longrightarrow> fu_bounded d \<Longrightarrow>
   nals_bounded (enter_packet p d) \<and> fu_bounded (enter_packet p d)"
  by (auto simp: enter_packet_def Let_def nals_bounded_def fu_bounded_def damage_def
      split: option.split)

lemma remember_frame:
  "hd_nals (fold remember_parameter_set nals d) = hd_nals d"
  "hd_fu (fold remember_parameter_set nals d) = hd_fu d"
  by (induction nals arbitrary: d) (simp_all add: remember_parameter_set_def)

lemma finish_bounded:
  "nals_bounded (snd (finish_unit ts d)) \<and> fu_bounded (snd (finish_unit ts d)) \<and>
   (case fst (finish_unit ts d) of None \<Rightarrow> True | Some u \<Rightarrow> length (au_data u) \<le> MAX_ACCESS_UNIT_BYTES)"
proof -
  have "length data \<le> MAX_ACCESS_UNIT_BYTES" if "join_annex_b nals = Inr data" for nals data
  proof -
    have "length (concat (map (\<lambda>nal. ANNEX_B_START_CODE @ nal) nals)) = nals_size nals"
      by (induction nals) (simp_all add: nals_size_def ANNEX_B_START_CODE_def)
    with that show ?thesis
      by (auto simp: join_annex_b_def split: if_splits)
  qed
  then show ?thesis
    by (auto simp: finish_unit_def Let_def nals_bounded_def fu_bounded_def remember_frame
        split: sum.split)
qed

lemma push_bounded:
  assumes "nals_bounded d" "fu_bounded d"
  shows "nals_bounded (snd (h264_push p d)) \<and> fu_bounded (snd (h264_push p d)) \<and>
    (case fst (h264_push p d) of None \<Rightarrow> True | Some u \<Rightarrow> length (au_data u) \<le> MAX_ACCESS_UNIT_BYTES)"
proof -
  let ?c = "consume_payload (payload p) (enter_packet p d)"
  let ?d = "if payload p = [] then damage d else (case ?c of (Inl _, d') \<Rightarrow> damage d' | (Inr _, d') \<Rightarrow> d')"
  obtain r d' where c: "?c = (r, d')"
    by (cases ?c)
  have "nals_bounded d'" "r = Inr () \<Longrightarrow> fu_bounded d'"
    using consume_bounded [of "enter_packet p d" "payload p"] enter_bounded [OF assms, of p]
    by (simp_all add: c)
  then have "nals_bounded ?d \<and> fu_bounded ?d"
    using damage_bounded assms(1) by (cases r) (simp_all add: c)
  moreover have "h264_push p d = (if marker p then finish_unit (timestamp p) ?d else (None, ?d))"
    by (simp only: h264_push_def Let_def)
  ultimately show ?thesis
    using finish_bounded [of "timestamp p" ?d] by (cases "marker p") simp_all
qed

lemma feed_bounded:
  "nals_bounded d \<Longrightarrow> fu_bounded d \<Longrightarrow>
   list_all (\<lambda>u. length (au_data u) \<le> MAX_ACCESS_UNIT_BYTES) (fst (feed h264_push ps d)) \<and>
   nals_bounded (snd (feed h264_push ps d)) \<and> fu_bounded (snd (feed h264_push ps d))"
proof (induction ps arbitrary: d)
  case (Cons p ps)
  obtain u d' where push: "h264_push p d = (u, d')"
    by (cases "h264_push p d")
  with push_bounded [OF Cons.prems, of p] Cons.IH [of d'] show ?case
    by (cases u) simp_all
qed simp

lemma new_depacketizer_bounded:
  "nals_bounded (new_h264_depacketizer sets)" "fu_bounded (new_h264_depacketizer sets)"
proof -
  have "hd_nals (fold (\<lambda>nal d. if nal = [] then d else remember_parameter_set nal d) sets d) = hd_nals d \<and>
      hd_fu (fold (\<lambda>nal d. if nal = [] then d else remember_parameter_set nal d) sets d) = hd_fu d" for d
    by (induction sets arbitrary: d) (simp_all add: remember_parameter_set_def)
  then show "nals_bounded (new_h264_depacketizer sets)" "fu_bounded (new_h264_depacketizer sets)"
    by (simp_all add: nals_bounded_def fu_bounded_def new_h264_depacketizer_def)
qed

text \<open>C18: whatever packets arrive, a depacketizer never emits an access unit above the limit of
  4 MiB, and what it holds stays bounded: at most 512 NAL units of an acceptable type, each of at
  most 2 MiB, and a fragment under construction of at most 2 MiB.\<close>

theorem h264_depacketizer_is_bounded:
  "list_all (\<lambda>u. length (au_data u) \<le> MAX_ACCESS_UNIT_BYTES)
     (fst (feed h264_push ps (new_h264_depacketizer sets))) \<and>
   nals_bounded (snd (feed h264_push ps (new_h264_depacketizer sets))) \<and>
   fu_bounded (snd (feed h264_push ps (new_h264_depacketizer sets)))"
  by (rule feed_bounded [OF new_depacketizer_bounded])

text \<open>The limit of 4 MiB is not a limit of what the depacketizer holds: \<open>_append_nal\<close> tests the
  size after it has appended, and a damaged unit goes on collecting.\<close>

lemma oversized_unit_keeps_growing:
  assumes "acceptable_nal (payload p)" "\<not> marker p" "length (hd_nals d) < MAX_ACCESS_UNIT_NALS"
    and "hd_timestamp d \<in> {None, Some (timestamp p)}" "hd_expected d \<in> {None, Some (sequence p)}"
    and "hd_fu d = None" "h264_push p d = (u, d')"
  shows "u = None \<and> hd_nals d' = hd_nals d @ [payload p] \<and> hd_timestamp d' = Some (timestamp p) \<and>
    hd_expected d' = Some (next_sequence (sequence p)) \<and> hd_fu d' = None"
proof -
  have "enter_packet p d = d\<lparr> hd_timestamp := Some (timestamp p),
      hd_expected := Some (next_sequence (sequence p)) \<rparr>"
    using assms(4,5) by (auto simp: enter_packet_def)
  then show ?thesis
    using assms by (auto simp: h264_push_def consume_payload_def append_nal_def acceptable_nal_def
        nal_type_def damage_def Let_def split: if_split_asm)
qed

lemma oversized_unit_collects:
  "\<lbrakk> list_all acceptable_nal pls; length (hd_nals d) + length pls \<le> MAX_ACCESS_UNIT_NALS;
     hd_timestamp d \<in> {None, Some ts}; hd_expected d \<in> {None, Some s}; hd_fu d = None \<rbrakk> \<Longrightarrow>
   hd_nals (snd (feed h264_push (number_packets pt ts src s pls) d)) = hd_nals d @ pls"
proof (induction pls arbitrary: s d)
  case (Cons pl pls)
  let ?p = "\<lparr> payload_type = pt, sequence = s, timestamp = ts, ssrc = src, payload = pl,
    marker = False \<rparr>"
  obtain u d' where push: "h264_push ?p d = (u, d')"
    by (cases "h264_push ?p d")
  have "u = None \<and> hd_nals d' = hd_nals d @ [pl] \<and> hd_timestamp d' = Some ts \<and>
      hd_expected d' = Some (next_sequence s) \<and> hd_fu d' = None"
    using oversized_unit_keeps_growing [OF _ _ _ _ _ _ push] Cons.prems by simp
  with Cons.IH [of d' "next_sequence s"] Cons.prems push show ?case
    by simp
qed simp

lemma held_data_exceeds_unit_limit:
  assumes "acceptable_nal nal" "length nal = MAX_RTP_RECEIVE_PAYLOAD_BYTES"
  shows "nals_size (hd_nals (snd (feed h264_push (number_packets pt ts src s (replicate 512 nal))
    (new_h264_depacketizer [])))) = 512 * (65507 + 4) \<and> 512 * (65507 + 4) > MAX_ACCESS_UNIT_BYTES"
proof -
  let ?d = "new_h264_depacketizer []"
  have "hd_nals (snd (feed h264_push (number_packets pt ts src s (replicate 512 nal)) ?d))
      = hd_nals ?d @ replicate 512 nal"
    using assms(1) by (intro oversized_unit_collects)
      (simp_all add: new_h264_depacketizer_def list_all_iff MAX_ACCESS_UNIT_NALS_def)
  then show ?thesis
    using assms(2) by (simp add: nals_size_def new_h264_depacketizer_def sum_list_replicate
        MAX_RTP_RECEIVE_PAYLOAD_BYTES_def MAX_ACCESS_UNIT_BYTES_def)
qed

end
