(* ===== verification/Vp8_Rtp.thy ===== *)
theory Vp8_Rtp
  imports H264_Rtp Media_Path
begin

text \<open>
  \<open>custom_components/voip_stack/video_rtp.py\<close>, VP8: the payload descriptor of RFC 7741, the
  packetizer and the depacketizer.
\<close>

section \<open>The depacketizer\<close>

definition MAX_ACCESS_UNIT_FRAGMENTS :: nat where "MAX_ACCESS_UNIT_FRAGMENTS = 4096"

record video_unit =
  vu_data :: "int list"
  vu_timestamp :: int
  vu_key_frame :: bool
  vu_encoding :: string

record vp8_depacketizer =
  vd_timestamp :: "int option"
  vd_expected :: "int option"
  vd_parts :: "int list list"
  vd_parts_bytes :: nat
  vd_started :: bool
  vd_key_frame :: bool
  vd_damaged :: bool
  vd_dropped :: int
  vd_gaps :: int

definition new_vp8_depacketizer :: vp8_depacketizer where
  "new_vp8_depacketizer =
     \<lparr> vd_timestamp = None, vd_expected = None, vd_parts = [], vd_parts_bytes = 0,
       vd_started = False, vd_key_frame = False, vd_damaged = False, vd_dropped = 0, vd_gaps = 0 \<rparr>"

definition reset_unit :: "vp8_depacketizer \<Rightarrow> vp8_depacketizer" where
  "reset_unit d = d\<lparr> vd_parts := [], vd_parts_bytes := 0, vd_started := False,
     vd_damaged := False, vd_expected := None \<rparr>"

text \<open>The length of the descriptor's extension, from \<open>offset\<close> 1 on.\<close>

definition vp8_extension :: "int list \<Rightarrow> exn + nat" where
  "vp8_extension pl =
     (if 1 \<ge> length pl then Inl ValueError
      else
        let extension = pl ! 1 in
        bindE
          (if extension AND 0x80 \<noteq> 0 then
             (if 2 \<ge> length pl then Inl ValueError
              else Inr (2 + (if pl ! 2 AND 0x80 \<noteq> 0 then 2 else 1)))
           else Inr 2)
          (\<lambda>offset. Inr (offset + (if extension AND 0x40 \<noteq> 0 then 1 else 0)
             + (if extension AND 0x20 \<noteq> 0 \<or> extension AND 0x10 \<noteq> 0 then 1 else 0))))"

text \<open>The body behind the descriptor, the start bit and the partition.\<close>

definition vp8_payload :: "int list \<Rightarrow> exn + (int list \<times> bool \<times> int)" where
  "vp8_payload pl =
     (if pl = [] then Inl ValueError
      else
        let first = pl ! 0 in
        bindE (if first AND 0x80 \<noteq> 0 then vp8_extension pl else Inr 1) (\<lambda>offset.
          if offset > length pl then Inl ValueError
          else Inr (drop offset pl, first AND 0x10 \<noteq> 0, first AND 0x0F)))"

text \<open>The head of \<open>push\<close>, up to the parsing of the payload.\<close>

definition vp8_enter :: "rtp_packet \<Rightarrow> vp8_depacketizer \<Rightarrow> vp8_depacketizer" where
  "vp8_enter p d =
     (let d1 =
        (case vd_timestamp d of
           Some ts \<Rightarrow>
             if timestamp p \<noteq> ts
             then reset_unit (d\<lparr> vd_dropped := vd_dropped d + (if vd_parts d \<noteq> [] then 1 else 0) \<rparr>)
             else d
         | None \<Rightarrow> d)\<lparr> vd_timestamp := Some (timestamp p) \<rparr>;
          d2 =
        (case vd_expected d1 of
           Some s \<Rightarrow>
             if sequence p \<noteq> s then d1\<lparr> vd_gaps := vd_gaps d1 + 1, vd_damaged := True \<rparr> else d1
         | None \<Rightarrow> d1)
      in d2\<lparr> vd_expected := Some (next_sequence (sequence p)) \<rparr>)"

definition drop_vp8 :: "vp8_depacketizer \<Rightarrow> vp8_depacketizer" where
  "drop_vp8 d = d\<lparr> vd_dropped := vd_dropped d + 1 \<rparr>"

text \<open>The rest of \<open>push\<close>: the start of a frame, then the collecting of the bodies.\<close>

definition vp8_start :: "int list \<Rightarrow> bool \<Rightarrow> int \<Rightarrow> vp8_depacketizer \<Rightarrow> vp8_depacketizer" where
  "vp8_start body start part d =
     (if start \<and> part = 0
      then d\<lparr> vd_parts := [], vd_parts_bytes := 0, vd_started := True,
              vd_key_frame := (body \<noteq> [] \<and> body ! 0 AND 0x01 = 0) \<rparr>
      else d)"

definition vp8_collect ::
  "rtp_packet \<Rightarrow> int list \<Rightarrow> vp8_depacketizer \<Rightarrow> video_unit option \<times> vp8_depacketizer" where
  "vp8_collect p body d =
     (if \<not> vd_started d \<or> body = []
      then (None, if marker p then drop_vp8 d else d)
      else if length (vd_parts d) \<ge> MAX_ACCESS_UNIT_FRAGMENTS \<or>
              vd_parts_bytes d + length body > MAX_ACCESS_UNIT_BYTES
      then (None, drop_vp8 (reset_unit d))
      else
        let d2 = d\<lparr> vd_parts := vd_parts d @ [body],
                    vd_parts_bytes := vd_parts_bytes d + length body \<rparr>
        in if \<not> marker p then (None, d2)
           else
             let d3 = d2\<lparr> vd_parts := [], vd_parts_bytes := 0, vd_started := False,
                          vd_damaged := False, vd_timestamp := None, vd_expected := None \<rparr>
             in if vd_damaged d2 then (None, drop_vp8 d3)
                else (Some \<lparr> vu_data = concat (vd_parts d2),
                             vu_timestamp = the (vd_timestamp d2),
                             vu_key_frame = vd_key_frame d2, vu_encoding = ''VP8'' \<rparr>, d3))"

definition vp8_push :: "rtp_packet \<Rightarrow> vp8_depacketizer \<Rightarrow> video_unit option \<times> vp8_depacketizer" where
  "vp8_push p d =
     (case vp8_payload (payload p) of
        Inl _ \<Rightarrow> (None, drop_vp8 (reset_unit (vp8_enter p d)))
      | Inr (body, start, part) \<Rightarrow> vp8_collect p body (vp8_start body start part (vp8_enter p d)))"

section \<open>The packetizer\<close>

text \<open>The loop over the frame: \<open>rest\<close> is what is left from \<open>offset\<close> on, \<open>first\<close>
  whether \<open>offset\<close> is 0.\<close>

function vp8_packets ::
  "nat \<Rightarrow> int \<Rightarrow> int \<Rightarrow> int \<Rightarrow> int \<Rightarrow> bool \<Rightarrow> int list \<Rightarrow> rtp_packet list" where
  "vp8_packets chunk_size pt ts src current first rest =
     (if rest = [] \<or> chunk_size = 0 then []
      else
        \<lparr> payload_type = pt, sequence = current, timestamp = ts AND 0xFFFFFFFF,
          ssrc = src AND 0xFFFFFFFF,
          payload = (if first then 0x10 else 0x00) # take chunk_size rest,
          marker = (length rest \<le> chunk_size) \<rparr> #
        vp8_packets chunk_size pt ts src (next_sequence current) False (drop chunk_size rest))"
  by pat_completeness auto
termination by (relation "measure (\<lambda>(_, _, _, _, _, _, rest). length rest)") auto

declare vp8_packets.simps [simp del]

definition packetize_vp8 ::
  "int list \<Rightarrow> int \<Rightarrow> int \<Rightarrow> int \<Rightarrow> int \<Rightarrow> int \<Rightarrow> exn + rtp_packet list" where
  "packetize_vp8 access_unit pt s ts src max_payload =
     (if access_unit = [] \<or> max_payload < 2 then Inl ValueError
      else Inr (vp8_packets (nat (max_payload - 1)) pt ts src (s AND 0xFFFF) True access_unit))"

section \<open>Round trip\<close>

definition idle_vp8 :: "vp8_depacketizer \<Rightarrow> bool" where
  "idle_vp8 d \<longleftrightarrow> vd_timestamp d = None \<and> vd_expected d = None \<and> vd_parts d = [] \<and>
     \<not> vd_started d \<and> \<not> vd_damaged d"

text \<open>A receiver that has collected \<open>parts\<close> of the frame and is to take number \<open>s\<close>.\<close>

definition vp8_mid ::
  "vp8_depacketizer \<Rightarrow> int \<Rightarrow> int \<Rightarrow> bool \<Rightarrow> int list list \<Rightarrow> vp8_depacketizer" where
  "vp8_mid d ts s key parts = d\<lparr> vd_timestamp := Some ts, vd_expected := Some s, vd_parts := parts,
     vd_parts_bytes := length (concat parts), vd_started := True, vd_key_frame := key,
     vd_damaged := False \<rparr>"

definition vp8_unit :: "int list \<Rightarrow> int \<Rightarrow> bool \<Rightarrow> video_unit" where
  "vp8_unit frame ts key =
     \<lparr> vu_data = frame, vu_timestamp = ts, vu_key_frame = key, vu_encoding = ''VP8'' \<rparr>"

lemma vp8_payload_plain:
  "vp8_payload (0x10 # body) = Inr (body, True, 0)"
  "vp8_payload (0 # body) = Inr (body, False, 0)"
  by (simp_all add: vp8_payload_def)

lemma vp8_push_first:
  assumes "idle_vp8 d" "payload p = 0x10 # body" "body \<noteq> []" "\<not> marker p"
    and "length body \<le> MAX_ACCESS_UNIT_BYTES"
  shows "vp8_push p d = (None,
    vp8_mid d (timestamp p) (next_sequence (sequence p)) (hd body AND 1 = 0) [body])"
  using assms
  by (simp add: vp8_push_def vp8_start_def vp8_collect_def vp8_enter_def idle_vp8_def vp8_payload_plain vp8_mid_def hd_conv_nth
      MAX_ACCESS_UNIT_FRAGMENTS_def Let_def)

lemma vp8_push_mid:
  assumes "payload p = 0 # body" "body \<noteq> []" "timestamp p = ts" "sequence p = s"
    and "length parts < MAX_ACCESS_UNIT_FRAGMENTS"
    and "length (concat parts) + length body \<le> MAX_ACCESS_UNIT_BYTES"
  shows "vp8_push p (vp8_mid d ts s key parts) =
    (if marker p then (Some (vp8_unit (concat parts @ body) ts key),
       d\<lparr> vd_timestamp := None, vd_expected := None, vd_parts := [], vd_parts_bytes := 0,
          vd_started := False, vd_key_frame := key, vd_damaged := False \<rparr>)
     else (None, vp8_mid d ts (next_sequence s) key (parts @ [body])))"
  using assms
  by (simp add: vp8_push_def vp8_start_def vp8_collect_def vp8_enter_def vp8_payload_plain vp8_mid_def vp8_unit_def Let_def)

lemma vp8_push_only:
  assumes "idle_vp8 d" "payload p = 0x10 # body" "body \<noteq> []" "marker p"
    and "length body \<le> MAX_ACCESS_UNIT_BYTES"
  shows "fst (vp8_push p d) = Some (vp8_unit body (timestamp p) (hd body AND 1 = 0)) \<and>
    idle_vp8 (snd (vp8_push p d))"
  using assms
  by (simp add: vp8_push_def vp8_start_def vp8_collect_def vp8_enter_def idle_vp8_def vp8_payload_plain vp8_unit_def hd_conv_nth
      MAX_ACCESS_UNIT_FRAGMENTS_def Let_def)

lemma vp8_feed_rest:
  assumes "0 < n"
  shows "\<lbrakk> rest \<noteq> []; length (concat parts) + length rest \<le> MAX_ACCESS_UNIT_BYTES;
     length parts + length (vp8_packets n pt ts src s False rest) \<le> MAX_ACCESS_UNIT_FRAGMENTS \<rbrakk> \<Longrightarrow>
   fst (feed vp8_push (vp8_packets n pt ts src s False rest)
      (vp8_mid d (ts AND 0xFFFFFFFF) s key parts))
     = [vp8_unit (concat parts @ rest) (ts AND 0xFFFFFFFF) key] \<and>
   idle_vp8 (snd (feed vp8_push (vp8_packets n pt ts src s False rest)
      (vp8_mid d (ts AND 0xFFFFFFFF) s key parts)))"
proof (induction rest arbitrary: s parts rule: length_induct)
  case (1 rest)
  let ?p = "\<lparr> payload_type = pt, sequence = s, timestamp = ts AND 0xFFFFFFFF,
      ssrc = src AND 0xFFFFFFFF, payload = 0 # take n rest, marker = (length rest \<le> n) \<rparr>"
  have ps: "vp8_packets n pt ts src s False rest
      = ?p # vp8_packets n pt ts src (next_sequence s) False (drop n rest)"
    using "1.prems"(1) assms by (simp add: vp8_packets.simps [of n pt ts src s False rest])
  have "take n rest \<noteq> []" "length parts < MAX_ACCESS_UNIT_FRAGMENTS"
    "length (concat parts) + length (take n rest) \<le> MAX_ACCESS_UNIT_BYTES"
    using "1.prems" assms ps by simp_all
  note push = vp8_push_mid [of ?p, OF _ this(1) _ _ this(2,3), of "ts AND 0xFFFFFFFF" s d key]
  show ?case
  proof (cases "length rest \<le> n")
    case True
    then have "vp8_packets n pt ts src (next_sequence s) False (drop n rest) = []"
      by (simp add: vp8_packets.simps)
    with ps push True show ?thesis
      by (simp add: idle_vp8_def)
  next
    case False
    let ?parts = "parts @ [take n rest]"
    have "length (drop n rest) < length rest" "drop n rest \<noteq> []"
      "length (concat ?parts) + length (drop n rest) \<le> MAX_ACCESS_UNIT_BYTES"
      using False assms "1.prems"(2) by simp_all
    with "1.IH" [rule_format, of "drop n rest" ?parts "next_sequence s"] "1.prems"(3) ps push False
    show ?thesis by simp
  qed
qed

lemma vp8_frame_survives:
  assumes "packetize_vp8 frame pt s ts src m = Inr ps" "idle_vp8 d"
    and "length frame \<le> MAX_ACCESS_UNIT_BYTES" "length ps \<le> MAX_ACCESS_UNIT_FRAGMENTS"
  shows "fst (feed vp8_push ps d) = [vp8_unit frame (ts AND 0xFFFFFFFF) (hd frame AND 1 = 0)] \<and>
    idle_vp8 (snd (feed vp8_push ps d))"
proof -
  define n where "n = nat (m - 1)"
  let ?s = "s AND 0xFFFF" and ?ts = "ts AND 0xFFFFFFFF" and ?key = "hd frame AND 1 = 0"
  have frame: "frame \<noteq> []" and n: "0 < n" and ps: "ps = vp8_packets n pt ts src ?s True frame"
    using assms(1) by (auto simp: packetize_vp8_def n_def split: if_splits)
  let ?p = "\<lparr> payload_type = pt, sequence = ?s, timestamp = ?ts,
      ssrc = src AND 0xFFFFFFFF, payload = 0x10 # take n frame, marker = (length frame \<le> n) \<rparr>"
  have Cons: "ps = ?p # vp8_packets n pt ts src (next_sequence ?s) False (drop n frame)"
    using frame n by (simp add: ps vp8_packets.simps [of n pt ts src ?s True frame])
  have body: "take n frame \<noteq> []" "hd (take n frame) = hd frame"
    "length (take n frame) \<le> MAX_ACCESS_UNIT_BYTES"
    using frame n assms(3) by simp_all
  show ?thesis
  proof (cases "length frame \<le> n")
    case True
    then have "ps = [?p]"
      using Cons by (simp add: vp8_packets.simps)
    with vp8_push_only [OF assms(2), of ?p "take n frame"] body True show ?thesis
      by (cases "vp8_push ?p d") simp
  next
    case False
    have "vp8_push ?p d = (None, vp8_mid d ?ts (next_sequence ?s) ?key [take n frame])"
      using vp8_push_first [OF assms(2), of ?p "take n frame"] body False by simp
    moreover have "length (drop n frame) \<noteq> 0" using False by simp
    ultimately show ?thesis
      using vp8_feed_rest [OF n, of "drop n frame" "[take n frame]" pt ts src "next_sequence ?s" d ?key]
        assms(3,4) False by (simp add: Cons)
  qed
qed

lemma vp8_packets_nth:
  "i < length (vp8_packets n pt ts src s first rest) \<Longrightarrow> 0 \<le> s \<Longrightarrow> s < 65536 \<Longrightarrow>
   sequence (vp8_packets n pt ts src s first rest ! i) = (s + int i) mod 65536"
proof (induction n pt ts src s first rest arbitrary: i rule: vp8_packets.induct)
  case (1 n pt ts src s first rest)
  let ?tail = "vp8_packets n pt ts src (next_sequence s) False (drop n rest)"
  have some: "\<not> (rest = [] \<or> n = 0)"
    using "1.prems"(1)
    by (auto simp: vp8_packets.simps [of n pt ts src s first rest] split: if_split_asm)
  have ps: "tl (vp8_packets n pt ts src s first rest) = ?tail"
    "sequence (hd (vp8_packets n pt ts src s first rest)) = s"
    "vp8_packets n pt ts src s first rest \<noteq> []"
    using some by (simp_all add: vp8_packets.simps [of n pt ts src s first rest])
  show ?case
  proof (cases i)
    case 0
    with ps "1.prems" show ?thesis by (simp add: hd_conv_nth)
  next
    case (Suc j)
    obtain p where p: "vp8_packets n pt ts src s first rest = p # ?tail"
      using ps(1,3) by (metis list.exhaust_sel)
    then have "vp8_packets n pt ts src s first rest ! Suc j = ?tail ! j" "j < length ?tail"
      using "1.prems"(1) Suc by simp_all
    then show ?thesis
      using "1.IH" [OF some, of j] Suc
      by (simp add: next_sequence_def and_FFFF mod_add_left_eq add.assoc)
  qed
qed

lemma vp8_consecutive:
  assumes "packetize_vp8 frame pt s ts src m = Inr ps"
  shows "consecutive ps"
proof -
  have s: "0 \<le> s AND 0xFFFF" "s AND 0xFFFF < 65536"
    by (simp_all add: and_FFFF)
  have n: "frame \<noteq> []" "nat (m - 1) \<noteq> 0"
    and ps: "ps = vp8_packets (nat (m - 1)) pt ts src (s AND 0xFFFF) True frame"
    using assms by (auto simp: packetize_vp8_def split: if_split_asm)
  have "ps \<noteq> []"
    unfolding ps using n by (subst vp8_packets.simps) simp
  show ?thesis
    unfolding consecutive_def using vp8_packets_nth [OF _ s] ps \<open>ps \<noteq> []\<close>
    by (auto simp: mod_add_left_eq)
qed

section \<open>The VP8 depacketizer behind the reorder window\<close>

definition carries_vp8 :: "vp8_depacketizer \<Rightarrow> rtp_packet list \<Rightarrow> video_unit \<Rightarrow> bool" where
  "carries_vp8 d ps u \<longleftrightarrow> idle_vp8 d \<and> length ps \<le> MAX_ACCESS_UNIT_FRAGMENTS \<and>
     (\<exists>frame pt s ts src m.
        packetize_vp8 frame pt s ts src m = Inr ps \<and> length frame \<le> MAX_ACCESS_UNIT_BYTES \<and>
        u = vp8_unit frame (ts AND 0xFFFFFFFF) (hd frame AND 1 = 0))"

interpretation vp8: frame_receiver vp8_push carries_vp8
proof
  fix d :: vp8_depacketizer and ps u
  assume "carries_vp8 d ps u"
  then show "fst (feed vp8_push ps d) = [u]" "consecutive ps"
    using vp8_frame_survives vp8_consecutive by (auto simp: carries_vp8_def)
qed

section \<open>What an emitted frame is made of\<close>

definition vp8_body :: "rtp_packet \<Rightarrow> int list" where
  "vp8_body p = (case vp8_payload (payload p) of Inr (body, _, _) \<Rightarrow> body | Inl _ \<Rightarrow> [])"

definition vp8_first :: "rtp_packet \<Rightarrow> bool" where
  "vp8_first p \<longleftrightarrow> (case vp8_payload (payload p) of Inr (_, start, part) \<Rightarrow> start \<and> part = 0 | Inl _ \<Rightarrow> False)"

fun successive :: "rtp_packet list \<Rightarrow> bool" where
  "successive (p # q # ps) \<longleftrightarrow> sequence q = next_sequence (sequence p) \<and> successive (q # ps)"
| "successive _ \<longleftrightarrow> True"

lemma successive_snoc:
  "ps \<noteq> [] \<Longrightarrow> successive (ps @ [p]) \<longleftrightarrow> successive ps \<and> sequence p = next_sequence (sequence (last ps))"
  by (induction ps rule: successive.induct) auto

text \<open>A gapless run of packets of one timestamp, from the start of a frame on.\<close>

definition frame_run :: "rtp_packet list \<Rightarrow> int \<Rightarrow> bool" where
  "frame_run ps ts \<longleftrightarrow> ps \<noteq> [] \<and> vp8_first (hd ps) \<and> list_all (\<lambda>p. timestamp p = ts) ps"

definition whole_frame :: "rtp_packet list \<Rightarrow> video_unit \<Rightarrow> bool" where
  "whole_frame ps u \<longleftrightarrow> frame_run ps (vu_timestamp u) \<and> successive ps \<and> marker (last ps) \<and>
     vu_data u = concat (map vp8_body ps)"

text \<open>A depacketizer that has started a frame holds the bodies of the run that ends with the last
  packet it saw; unless it is damaged, that run has no gap.\<close>

definition holds_run :: "rtp_packet list \<Rightarrow> vp8_depacketizer \<Rightarrow> bool" where
  "holds_run seen d \<longleftrightarrow> (vd_started d \<longrightarrow>
     (\<exists>pre run ts. seen = pre @ run \<and> frame_run run ts \<and> vd_timestamp d = Some ts \<and>
        concat (vd_parts d) = concat (map vp8_body run) \<and>
        vd_expected d = Some (next_sequence (sequence (last run))) \<and>
        (vd_damaged d \<or> successive run)))"

lemma holds_runI:
  "\<lbrakk> seen = pre @ run; frame_run run ts; vd_timestamp d = Some ts;
     concat (vd_parts d) = concat (map vp8_body run);
     vd_expected d = Some (next_sequence (sequence (last run))); vd_damaged d \<or> successive run \<rbrakk> \<Longrightarrow>
   holds_run seen d"
  unfolding holds_run_def by blast

lemma vp8_enter_run:
  assumes "holds_run seen d"
  shows "vd_timestamp (vp8_enter p d) = Some (timestamp p)"
    and "vd_expected (vp8_enter p d) = Some (next_sequence (sequence p))"
    and "vd_started (vp8_enter p d) \<Longrightarrow>
      \<exists>pre run. seen = pre @ run \<and> frame_run run (timestamp p) \<and>
        concat (vd_parts (vp8_enter p d)) = concat (map vp8_body run) \<and>
        (vd_damaged (vp8_enter p d) \<or> successive (run @ [p]))"
proof -
  show "vd_timestamp (vp8_enter p d) = Some (timestamp p)"
    "vd_expected (vp8_enter p d) = Some (next_sequence (sequence p))"
    by (simp_all add: vp8_enter_def Let_def split: option.split)
  assume started: "vd_started (vp8_enter p d)"
  have same: "vd_started d" "vd_timestamp d = None \<or> vd_timestamp d = Some (timestamp p)"
    using started
    by (auto simp: vp8_enter_def Let_def reset_unit_def split: option.split_asm if_split_asm)
  then obtain pre run ts where run: "seen = pre @ run" "frame_run run ts" "vd_timestamp d = Some ts"
      "concat (vd_parts d) = concat (map vp8_body run)"
      "vd_expected d = Some (next_sequence (sequence (last run)))" "vd_damaged d \<or> successive run"
    using assms by (auto simp: holds_run_def)
  have ts: "ts = timestamp p"
    using same(2) run(3) by simp
  have enter: "vp8_enter p d = (if sequence p \<noteq> next_sequence (sequence (last run))
      then d\<lparr> vd_timestamp := Some (timestamp p), vd_gaps := vd_gaps d + 1, vd_damaged := True \<rparr>
      else d\<lparr> vd_timestamp := Some (timestamp p) \<rparr>)\<lparr> vd_expected := Some (next_sequence (sequence p)) \<rparr>"
    using run(3,5) ts by (simp add: vp8_enter_def Let_def)
  have "run \<noteq> []"
    using run(2) by (simp add: frame_run_def)
  then show "\<exists>pre run. seen = pre @ run \<and> frame_run run (timestamp p) \<and>
      concat (vd_parts (vp8_enter p d)) = concat (map vp8_body run) \<and>
      (vd_damaged (vp8_enter p d) \<or> successive (run @ [p]))"
    using run ts by (intro exI [of _ pre] exI [of _ run]) (auto simp: enter successive_snoc)
qed

text \<open>The run with the packet that has just been parsed, as long as the frame goes on.\<close>

lemma run_extended:
  assumes "holds_run seen d" "vp8_payload (payload p) = Inr (body, start, part)"
    and "d1 = vp8_start body start part (vp8_enter p d)"
    and "vd_started d1"
  shows "vd_timestamp d1 = Some (timestamp p)" "vd_expected d1 = Some (next_sequence (sequence p))"
    "\<exists>pre run. seen @ [p] = pre @ run \<and> frame_run run (timestamp p) \<and> last run = p \<and>
       concat (vd_parts d1) @ body = concat (map vp8_body run) \<and> (vd_damaged d1 \<or> successive run)"
proof -
  note enter = vp8_enter_run [OF assms(1), of p]
  show "vd_timestamp d1 = Some (timestamp p)" "vd_expected d1 = Some (next_sequence (sequence p))"
    using enter(1,2) by (simp_all add: assms(3) vp8_start_def)
  show "\<exists>pre run. seen @ [p] = pre @ run \<and> frame_run run (timestamp p) \<and> last run = p \<and>
       concat (vd_parts d1) @ body = concat (map vp8_body run) \<and> (vd_damaged d1 \<or> successive run)"
  proof (cases "start \<and> part = 0")
    case True
    then show ?thesis
      using assms(2,3)
      by (intro exI [of _ seen] exI [of _ "[p]"]) (simp add: frame_run_def vp8_first_def vp8_body_def vp8_start_def)
  next
    case False
    then obtain pre run where "seen = pre @ run" "frame_run run (timestamp p)"
      "concat (vd_parts d1) = concat (map vp8_body run)" "vd_damaged d1 \<or> successive (run @ [p])"
      using enter(3) assms(3,4) by (auto simp: vp8_start_def simp del: concat_eq_concat_iff)
    then show ?thesis
      using assms(2) by (intro exI [of _ pre] exI [of _ "run @ [p]"]) (simp add: frame_run_def vp8_body_def)
  qed
qed

lemma vp8_push_run:
  assumes "holds_run seen d" "vp8_push p d = (u, d')"
  shows "holds_run (seen @ [p]) d' \<and>
    (case u of None \<Rightarrow> True | Some x \<Rightarrow> \<exists>pre run. seen @ [p] = pre @ run \<and> whole_frame run x)"
proof (cases "vp8_payload (payload p)")
  case (Inl e)
  then show ?thesis
    using assms(2) by (auto simp: vp8_push_def holds_run_def drop_vp8_def reset_unit_def Let_def)
next
  case (Inr r)
  then obtain body start part where pl: "vp8_payload (payload p) = Inr (body, start, part)"
    by (cases r) auto
  define d1 where "d1 = vp8_start body start part (vp8_enter p d)"
  note run = run_extended [OF assms(1) pl d1_def]
  have push: "vp8_collect p body d1 = (u, d')"
    using assms(2) by (simp add: vp8_push_def pl d1_def)
  show ?thesis
  proof (cases "vd_started d1")
    case False
    then have "u = None" "\<not> vd_started d'"
      using push by (auto simp: vp8_collect_def drop_vp8_def split: if_splits)
    then show ?thesis
      by (simp add: holds_run_def)
  next
    case True
    obtain pre run where r: "seen @ [p] = pre @ run" "frame_run run (timestamp p)" "last run = p"
      "concat (vd_parts d1) @ body = concat (map vp8_body run)" "vd_damaged d1 \<or> successive run"
      using run(3) [OF True] by blast
    note at = run(1,2) [OF True]
    consider (empty) "body = []" "u = None" "d' = d1 \<or> d' = drop_vp8 d1"
      | (full) "u = None" "\<not> vd_started d'"
      | (part) "u = None" "d' = d1\<lparr> vd_parts := vd_parts d1 @ [body],
          vd_parts_bytes := vd_parts_bytes d1 + length body \<rparr>"
      | (unit) x where "u = Some x" "marker p" "\<not> vd_damaged d1" "\<not> vd_started d'"
          "vu_data x = concat (vd_parts d1) @ body" "vu_timestamp x = timestamp p"
      using push True at
      by (auto simp: vp8_collect_def Let_def drop_vp8_def reset_unit_def split: if_split_asm)
    then show ?thesis
    proof cases
      case empty
      then show ?thesis
        using holds_runI [OF r(1,2), of d'] r at by (auto simp: drop_vp8_def)
    next
      case part
      then show ?thesis
        using holds_runI [OF r(1,2), of d'] r at by simp
    next
      case unit
      then show ?thesis
        using r by (auto simp: holds_run_def whole_frame_def)
    qed (simp add: holds_run_def)
  qed
qed

lemma vp8_feed_run:
  "holds_run seen d \<Longrightarrow>
   list_all (\<lambda>u. \<exists>pre run post. seen @ ps = pre @ run @ post \<and> whole_frame run u)
     (fst (feed vp8_push ps d))"
proof (induction ps arbitrary: seen d)
  case (Cons p ps)
  obtain u d' where push: "vp8_push p d = (u, d')"
    by (cases "vp8_push p d")
  note step = vp8_push_run [OF Cons.prems push]
  have rest: "list_all (\<lambda>u. \<exists>pre run post. seen @ p # ps = pre @ run @ post \<and> whole_frame run u)
      (fst (feed vp8_push ps d'))"
    using Cons.IH [of "seen @ [p]" d'] step by simp
  show ?case
  proof (cases u)
    case (Some x)
    then obtain pre run where "seen @ [p] = pre @ run" "whole_frame run x"
      using step by auto
    then have "\<exists>pre run post. seen @ p # ps = pre @ run @ post \<and> whole_frame run x"
      using append.assoc [of seen "[p]" ps] by (intro exI [of _ pre] exI [of _ run] exI [of _ ps]) simp
    with rest Some push show ?thesis by simp
  qed (use rest push in simp)
qed simp

section \<open>Properties\<close>

text \<open>C20: whatever packets a VP8 depacketizer is fed, in whatever order and with whatever losses,
  every frame it emits is whole: its data are the bodies of a contiguous run of the packets, all of
  the frame's timestamp, without a gap in their sequence numbers, from one with the start bit to one
  with the marker.\<close>

theorem vp8_frames_are_whole:
  "list_all (\<lambda>u. \<exists>pre run post. ps = pre @ run @ post \<and> whole_frame run u)
     (fst (feed vp8_push ps new_vp8_depacketizer))"
  using vp8_feed_run [of "[]" new_vp8_depacketizer ps]
  by (simp add: holds_run_def new_vp8_depacketizer_def)

text \<open>The packets of a VP8 frame, shuffled and duplicated, still give the frame.\<close>

lemma shuffled_vp8_frame_is_recovered:
  assumes "packetize_vp8 frame pt s ts src m = Inr ps" "idle_vp8 d"
    and "length frame \<le> MAX_ACCESS_UNIT_BYTES" "length ps \<le> MAX_ACCESS_UNIT_FRAGMENTS"
    and "int (length ps) \<le> rb_max_packets b"
    and "rb_expected b = Some (sequence (ps ! 0))" "rb_pending b = []"
    and "set (map fst arr) = set ps"
    and "list_all (\<lambda>(p, t). t0 \<le> t \<and> t < t0 + rb_max_delay b) arr"
  shows "fst (feed vp8_push (fst (run_pushes (map arrival_of arr) b)) d)
    = [vp8_unit frame (ts AND 0xFFFFFFFF) (hd frame AND 1 = 0)]"
proof -
  have "carries_vp8 d ps (vp8_unit frame (ts AND 0xFFFFFFFF) (hd frame AND 1 = 0))"
    unfolding carries_vp8_def using assms(1-4) by blast
  moreover have "length ps \<le> 0x8000"
    using assms(4) by (simp add: MAX_ACCESS_UNIT_FRAGMENTS_def)
  ultimately show ?thesis
    by (rule vp8.shuffled_frame [OF _ _ assms(5-9)])
qed

end
