(* ===== verification/Jpeg_Rtp.thy ===== *)
theory Jpeg_Rtp
  imports Vp8_Rtp Roster
begin

text \<open>
  \<open>custom_components/voip_stack/video_rtp.py\<close>, JPEG: the quantizer tables and the interchange
  header of RFC 2435, and the depacketizer that rebuilds a JFIF frame.
\<close>

section \<open>Tables and header\<close>

definition JPEG_BASE_QUANTIZERS :: "int list" where
  "JPEG_BASE_QUANTIZERS = [
   16, 11, 12, 14, 12, 10, 16, 14, 13, 14, 18, 17, 16, 19, 24, 40, 26, 24, 22, 22, 24, 49, 35,
   37, 29, 40, 58, 51, 61, 60, 57, 51, 56, 55, 64, 72, 92, 78, 64, 68, 87, 69, 55, 56, 80, 109,
   81, 87, 95, 98, 103, 104, 103, 62, 77, 113, 121, 112, 100, 120, 92, 101, 103, 99, 17, 18, 18,
   24, 21, 24, 47, 26, 26, 47, 99, 66, 56, 66, 99, 99, 99, 99, 99, 99, 99, 99, 99, 99, 99, 99,
   99, 99, 99, 99, 99, 99, 99, 99, 99, 99, 99, 99, 99, 99, 99, 99, 99, 99, 99, 99, 99, 99, 99,
   99, 99, 99, 99, 99, 99, 99, 99, 99, 99, 99, 99, 99, 99, 99]"

definition JPEG_STANDARD_DHT :: "int list" where
  "JPEG_STANDARD_DHT = [
   255, 196, 1, 162, 0, 0, 1, 5, 1, 1, 1, 1, 1, 1, 0, 0, 0, 0, 0, 0, 0, 0, 1, 2, 3, 4, 5, 6, 7,
   8, 9, 10, 11, 1, 0, 3, 1, 1, 1, 1, 1, 1, 1, 1, 1, 0, 0, 0, 0, 0, 0, 1, 2, 3, 4, 5, 6, 7, 8, 9,
   10, 11, 16, 0, 2, 1, 3, 3, 2, 4, 3, 5, 5, 4, 4, 0, 0, 1, 125, 1, 2, 3, 0, 4, 17, 5, 18, 33,
   49, 65, 6, 19, 81, 97, 7, 34, 113, 20, 50, 129, 145, 161, 8, 35, 66, 177, 193, 21, 82, 209,
   240, 36, 51, 98, 114, 130, 9, 10, 22, 23, 24, 25, 26, 37, 38, 39, 40, 41, 42, 52, 53, 54, 55,
   56, 57, 58, 67, 68, 69, 70, 71, 72, 73, 74, 83, 84, 85, 86, 87, 88, 89, 90, 99, 100, 101, 102,
   103, 104, 105, 106, 115, 116, 117, 118, 119, 120, 121, 122, 131, 132, 133, 134, 135, 136, 137,
   138, 146, 147, 148, 149, 150, 151, 152, 153, 154, 162, 163, 164, 165, 166, 167, 168, 169, 170,
   178, 179, 180, 181, 182, 183, 184, 185, 186, 194, 195, 196, 197, 198, 199, 200, 201, 202, 210,
   211, 212, 213, 214, 215, 216, 217, 218, 225, 226, 227, 228, 229, 230, 231, 232, 233, 234, 241,
   242, 243, 244, 245, 246, 247, 248, 249, 250, 17, 0, 2, 1, 2, 4, 4, 3, 4, 7, 5, 4, 4, 0, 1, 2,
   119, 0, 1, 2, 3, 17, 4, 5, 33, 49, 6, 18, 65, 81, 7, 97, 113, 19, 34, 50, 129, 8, 20, 66, 145,
   161, 177, 193, 9, 35, 51, 82, 240, 21, 98, 114, 209, 10, 22, 36, 52, 225, 37, 241, 23, 24, 25,
   26, 38, 39, 40, 41, 42, 53, 54, 55, 56, 57, 58, 67, 68, 69, 70, 71, 72, 73, 74, 83, 84, 85,
   86, 87, 88, 89, 90, 99, 100, 101, 102, 103, 104, 105, 106, 115, 116, 117, 118, 119, 120, 121,
   122, 130, 131, 132, 133, 134, 135, 136, 137, 138, 146, 147, 148, 149, 150, 151, 152, 153, 154,
   162, 163, 164, 165, 166, 167, 168, 169, 170, 178, 179, 180, 181, 182, 183, 184, 185, 186, 194,
   195, 196, 197, 198, 199, 200, 201, 202, 210, 211, 212, 213, 214, 215, 216, 217, 218, 226, 227,
   228, 229, 230, 231, 232, 233, 234, 242, 243, 244, 245, 246, 247, 248, 249, 250]"

definition jpeg_quantizers :: "int \<Rightarrow> exn + int list" where
  "jpeg_quantizers quality =
     (if \<not> (1 \<le> quality \<and> quality \<le> 99) then Inl ValueError
      else
        let scale = (if quality < 50 then 5000 div quality else 200 - quality * 2)
        in Inr (map (\<lambda>value. max 1 (min 255 ((value * scale + 50) div 100))) JPEG_BASE_QUANTIZERS))"

definition jpeg_interchange_header ::
  "int \<Rightarrow> int \<Rightarrow> int \<Rightarrow> int list \<Rightarrow> int \<Rightarrow> exn + int list" where
  "jpeg_interchange_header jpeg_type width_blocks height_blocks quantizers dri =
     (if jpeg_type \<notin> {0, 1} \<or> width_blocks = 0 \<or> height_blocks = 0 then Inl ValueError
      else if length quantizers \<noteq> 128 then Inl ValueError
      else
        let width = push_bit 3 width_blocks; height = push_bit 3 height_blocks
        in Inr ([0xFF, 0xD8]
          @ [0xFF, 0xE0, 0x00, 0x10, 0x4A, 0x46, 0x49, 0x46, 0x00, 0x01, 0x02, 0x00, 0x00, 0x01,
             0x00, 0x01, 0x00, 0x00]
          @ [0xFF, 0xDB] @ be16 (2 + (int (length quantizers) div 64) * 65)
          @ [0] @ take 64 quantizers @ [1] @ take 64 (drop 64 quantizers)
          @ (if dri \<noteq> 0 then [0xFF, 0xDD, 0x00, 0x04] @ be16 dri else [])
          @ [0xFF, 0xC0, 0x00, 0x11, 0x08] @ be16 height @ be16 width
          @ [3, 1, (if jpeg_type \<noteq> 0 then 0x22 else 0x21), 0, 2, 0x11, 1, 3, 0x11, 1]
          @ JPEG_STANDARD_DHT
          @ [0xFF, 0xDA, 0x00, 0x0C, 0x03, 0x01, 0x00, 0x02, 0x11, 0x03, 0x11, 0x00, 0x3F, 0x00]))"

section \<open>The depacketizer\<close>

record jpeg_depacketizer =
  jd_timestamp :: "int option"
  jd_frame_header :: "(int \<times> int \<times> int \<times> int \<times> int \<times> int) option"
  jd_header :: "int list"
  jd_scan :: "int list"
  jd_dynamic :: "(int \<times> int list) list"
  jd_dropped :: int

definition new_jpeg_depacketizer :: jpeg_depacketizer where
  "new_jpeg_depacketizer =
     \<lparr> jd_timestamp = None, jd_frame_header = None, jd_header = [], jd_scan = [], jd_dynamic = [],
       jd_dropped = 0 \<rparr>"

definition drop_jpeg :: "jpeg_depacketizer \<Rightarrow> jpeg_depacketizer" where
  "drop_jpeg d = d\<lparr> jd_timestamp := None, jd_frame_header := None, jd_header := [], jd_scan := [],
     jd_dropped := jd_dropped d + 1 \<rparr>"

definition u24_at :: "int list \<Rightarrow> nat \<Rightarrow> int" where
  "u24_at d i = d ! i * 65536 + d ! (i + 1) * 256 + d ! (i + 2)"

text \<open>The fields behind the main header: the cursor, the restart interval and the type without its
  restart bit; \<open>None\<close> when the packet is dropped.\<close>

definition jpeg_restart :: "int list \<Rightarrow> (nat \<times> int \<times> int) option" where
  "jpeg_restart pl =
     (let jpeg_type = pl ! 4 in
      if pl ! 0 \<noteq> 0 then None
      else
        case (if jpeg_type AND 0x40 \<noteq> 0 then
                (if length pl < 8 + 4 then None
                 else if u16_at pl 8 = 0 then None
                 else Some (12, u16_at pl 8, jpeg_type AND NOT 0x40))
              else Some (8, 0, jpeg_type)) of
          None \<Rightarrow> None
        | Some (cursor, dri, ty) \<Rightarrow> if ty \<notin> {0, 1} then None else Some (cursor, dri, ty))"

text \<open>The quantization tables of the first fragment, with the cursor behind them and the tables
  remembered.\<close>

definition jpeg_tables ::
  "int list \<Rightarrow> nat \<Rightarrow> int \<Rightarrow> (int \<times> int list) list \<Rightarrow> exn + (int list \<times> nat \<times> (int \<times> int list) list)" where
  "jpeg_tables pl cursor quality tables =
     (if quality \<ge> 128 then
        (if length pl < cursor + 4 then Inl ValueError
         else
           let precision = pl ! (cursor + 1);
               table_len = u16_at pl (cursor + 2);
               cursor2 = cursor + 4
           in if precision \<noteq> 0 \<or> table_len \<notin> {0, 128} then Inl ValueError
              else if table_len \<noteq> 0 then
                (if length pl < cursor2 + nat table_len then Inl ValueError
                 else
                   let quantizers = take (nat table_len) (drop cursor2 pl)
                   in Inr (quantizers, cursor2 + nat table_len,
                           if quality < 255 then md_set tables quality quantizers else tables))
              else
                case assoc tables quality of
                  None \<Rightarrow> Inl ValueError
                | Some quantizers \<Rightarrow>
                    if quantizers = [] then Inl ValueError else Inr (quantizers, cursor2, tables))
      else bindE (jpeg_quantizers quality) (\<lambda>quantizers. Inr (quantizers, cursor, tables)))"

text \<open>The first fragment of a frame and a later one: the state in which the scan data are taken and
  where in the payload they start, or the state after a drop.\<close>

definition jpeg_first ::
  "rtp_packet \<Rightarrow> nat \<Rightarrow> int \<Rightarrow> int \<Rightarrow> jpeg_depacketizer \<Rightarrow> jpeg_depacketizer + (nat \<times> jpeg_depacketizer)" where
  "jpeg_first p cursor dri ty d =
     (let pl = payload p; quality = pl ! 5; width = pl ! 6; height = pl ! 7 in
      case jpeg_tables pl cursor quality (jd_dynamic d) of
        Inl _ \<Rightarrow> Inl (drop_jpeg d)
      | Inr (quantizers, cursor2, tables) \<Rightarrow>
          let d1 = d\<lparr> jd_dynamic := tables \<rparr>
          in case jpeg_interchange_header ty width height quantizers dri of
               Inl _ \<Rightarrow> Inl (drop_jpeg d1)
             | Inr header \<Rightarrow>
                 Inr (cursor2, d1\<lparr> jd_header := header, jd_timestamp := Some (timestamp p),
                   jd_frame_header := Some (pl ! 0, pl ! 4, quality, width, height, dri),
                   jd_scan := [] \<rparr>))"

definition jpeg_later ::
  "rtp_packet \<Rightarrow> nat \<Rightarrow> int \<Rightarrow> jpeg_depacketizer \<Rightarrow> jpeg_depacketizer + (nat \<times> jpeg_depacketizer)" where
  "jpeg_later p cursor dri d =
     (let pl = payload p in
      if jd_timestamp d \<noteq> Some (timestamp p) \<or> u24_at pl 1 \<noteq> int (length (jd_scan d))
         \<or> jd_frame_header d \<noteq> Some (pl ! 0, pl ! 4, pl ! 5, pl ! 6, pl ! 7, dri)
      then Inl (drop_jpeg d)
      else Inr (cursor, d))"

definition jpeg_collect ::
  "rtp_packet \<Rightarrow> nat \<Rightarrow> jpeg_depacketizer \<Rightarrow> video_unit option \<times> jpeg_depacketizer" where
  "jpeg_collect p cursor d =
     (let frame_data = drop cursor (payload p) in
      if u24_at (payload p) 1 \<noteq> int (length (jd_scan d))
         \<or> length (jd_scan d) + length frame_data > MAX_ACCESS_UNIT_BYTES
      then (None, drop_jpeg d)
      else
        let d1 = d\<lparr> jd_scan := jd_scan d @ frame_data \<rparr>
        in if \<not> marker p then (None, d1)
           else if jd_timestamp d1 \<noteq> Some (timestamp p) \<or> jd_header d1 = [] \<or> jd_scan d1 = []
           then (None, drop_jpeg d1)
           else (Some \<lparr> vu_data = jd_header d1 @ jd_scan d1 @ [0xFF, 0xD9],
                        vu_timestamp = timestamp p, vu_key_frame = True, vu_encoding = ''JPEG'' \<rparr>,
                 d1\<lparr> jd_timestamp := None, jd_frame_header := None, jd_header := [], jd_scan := [] \<rparr>))"

definition jpeg_push :: "rtp_packet \<Rightarrow> jpeg_depacketizer \<Rightarrow> video_unit option \<times> jpeg_depacketizer" where
  "jpeg_push p d =
     (if length (payload p) < 8 then (None, drop_jpeg d)
      else
        case jpeg_restart (payload p) of
          None \<Rightarrow> (None, drop_jpeg d)
        | Some (cursor, dri, ty) \<Rightarrow>
            case (if u24_at (payload p) 1 = 0 then jpeg_first p cursor dri ty d
                  else jpeg_later p cursor dri d) of
              Inl d1 \<Rightarrow> (None, d1)
            | Inr (cursor2, d1) \<Rightarrow> jpeg_collect p cursor2 d1)"

section \<open>The tables\<close>

lemma jpeg_quantizers_valid:
  assumes "jpeg_quantizers quality = Inr q"
  shows "length q = 128 \<and> list_all (\<lambda>v. 1 \<le> v \<and> v \<le> 255) q"
proof -
  have "length JPEG_BASE_QUANTIZERS = 128"
    by code_simp
  with assms show ?thesis
    by (auto simp: jpeg_quantizers_def Let_def list_all_iff split: if_splits)
qed

lemma jpeg_header_some:
  assumes "jpeg_interchange_header ty w h q dri = Inr header"
  shows "header \<noteq> []"
  using assms by (auto simp: jpeg_interchange_header_def Let_def split: if_splits)

section \<open>A frame in fragments\<close>

text \<open>The fragments of a frame as RFC 2435 lays them out.  The main header of each has the offset of its chunk; a
  restart interval \<open>dri\<close> that is not 0 goes with bit 6 of the type and a restart header; a quality from 128 up with a
  quantization header in the first fragment, which sends the tables or says that they were sent before.\<close>

definition be24 :: "int \<Rightarrow> int list" where
  "be24 x = [x div 65536, x div 256 mod 256, x mod 256]"

definition jpeg_main_header :: "int \<Rightarrow> int \<Rightarrow> int \<Rightarrow> int \<Rightarrow> int \<Rightarrow> int \<Rightarrow> int list" where
  "jpeg_main_header off ty q w h dri =
     [0] @ be24 off @ [if dri \<noteq> 0 then ty + 64 else ty, q, w, h] @ (if dri \<noteq> 0 then be16 dri @ [255, 255] else [])"

definition jpeg_table_header :: "int \<Rightarrow> bool \<Rightarrow> int list \<Rightarrow> int list" where
  "jpeg_table_header q sent tables =
     (if q < 128 then [] else if sent then [0, 0] @ be16 128 @ tables else [0, 0] @ be16 0)"

fun jpeg_fragments ::
  "int \<Rightarrow> int \<Rightarrow> int \<Rightarrow> int \<Rightarrow> int \<Rightarrow> int \<Rightarrow> int list \<Rightarrow> int \<Rightarrow> int list list \<Rightarrow> rtp_packet list" where
  "jpeg_fragments ts ty q w h dri th off [] = []"
| "jpeg_fragments ts ty q w h dri th off (c # cs) =
     \<lparr> payload_type = 26, sequence = 0, timestamp = ts, ssrc = 0,
       payload = jpeg_main_header off ty q w h dri @ th @ c, marker = (cs = []) \<rparr>
     # jpeg_fragments ts ty q w h dri [] (off + int (length c)) cs"

text \<open>The tables a receiver knows for the frame.\<close>

definition jpeg_tables_known :: "jpeg_depacketizer \<Rightarrow> int \<Rightarrow> bool \<Rightarrow> int list \<Rightarrow> bool" where
  "jpeg_tables_known d q sent tables \<longleftrightarrow>
     length tables = 128 \<and>
     (if q < 128 then jpeg_quantizers q = Inr tables else sent \<or> assoc (jd_dynamic d) q = Some tables)"

definition jpeg_dimensions_ok :: "int \<Rightarrow> int \<Rightarrow> int \<Rightarrow> int \<Rightarrow> bool" where
  "jpeg_dimensions_ok ty w h dri \<longleftrightarrow>
     ty \<in> {0, 1} \<and> 0 < w \<and> w < 256 \<and> 0 < h \<and> h < 256 \<and> 0 \<le> dri \<and> dri < 65536"

definition header_end :: "int \<Rightarrow> nat" where
  "header_end dri = (if dri \<noteq> 0 then 12 else 8)"

lemma u24_be24: "u24_at (a # be24 x @ rest) 1 = x"
proof -
  define y r where "y = x div 256" and "r = x mod 256"
  have "x = 256 * y + r" "y = 256 * (y div 256) + y mod 256"
    by (simp_all only: y_def r_def mult_div_mod_eq)
  moreover have "x div 65536 = y div 256"
    by (simp add: y_def zdiv_zmult2_eq [symmetric])
  ultimately have "x div 65536 * 65536 + y mod 256 * 256 + r = x"
    by linarith
  then show ?thesis
    by (simp add: u24_at_def be24_def flip: y_def r_def)
qed

lemma u24_main_header: "u24_at (jpeg_main_header off ty q w h dri @ rest) 1 = off"
  using u24_be24 [of 0 off] by (simp add: jpeg_main_header_def)

lemma fragment_fields:
  assumes "jpeg_dimensions_ok ty w h dri"
  shows "jpeg_restart (jpeg_main_header off ty q w h dri @ rest) = Some (header_end dri, dri, ty)"
    and "(jpeg_main_header off ty q w h dri @ rest) ! 0 = 0"
    and "(jpeg_main_header off ty q w h dri @ rest) ! 4 = (if dri \<noteq> 0 then ty + 64 else ty)"
    and "(jpeg_main_header off ty q w h dri @ rest) ! 5 = q"
    and "(jpeg_main_header off ty q w h dri @ rest) ! 6 = w" and "(jpeg_main_header off ty q w h dri @ rest) ! 7 = h"
    and "drop (header_end dri) (jpeg_main_header off ty q w h dri @ rest) = rest"
    and "\<not> length (jpeg_main_header off ty q w h dri @ rest) < 8"
    and "length (jpeg_main_header off ty q w h dri @ rest) = header_end dri + length rest"
proof -
  let ?pl = "jpeg_main_header off ty q w h dri @ rest"
  have dri: "be16 dri = [dri div 256, dri mod 256]" "dri div 256 * 256 + dri mod 256 = dri"
    by (simp_all add: be16_def)
  have "u16_at ?pl 8 = dri" if "dri \<noteq> 0"
    using that dri by (simp add: jpeg_main_header_def be24_def u16_at_def)
  moreover have "(ty + 64) AND 0x40 \<noteq> 0" "ty AND 0x40 = 0" "(ty + 64) AND NOT 0x40 = ty"
    using assms by (auto simp: jpeg_dimensions_ok_def)
  ultimately show "jpeg_restart ?pl = Some (header_end dri, dri, ty)"
    using assms dri by (auto simp: jpeg_restart_def jpeg_main_header_def be24_def header_end_def jpeg_dimensions_ok_def)
qed (simp_all add: jpeg_main_header_def be24_def be16_def header_end_def)

text \<open>The state in the middle of a frame.\<close>

definition jpeg_mid ::
  "jpeg_depacketizer \<Rightarrow> int \<Rightarrow> int \<times> int \<times> int \<times> int \<times> int \<times> int \<Rightarrow> int list \<Rightarrow> int list \<Rightarrow> jpeg_depacketizer" where
  "jpeg_mid d ts hdr header scan = d\<lparr> jd_header := header, jd_timestamp := Some ts,
     jd_frame_header := Some hdr, jd_scan := scan \<rparr>"

definition jpeg_unit :: "int list \<Rightarrow> int list \<Rightarrow> int \<Rightarrow> video_unit" where
  "jpeg_unit header scan ts =
     \<lparr> vu_data = header @ scan @ [0xFF, 0xD9], vu_timestamp = ts, vu_key_frame = True,
       vu_encoding = ''JPEG'' \<rparr>"

lemma jpeg_collect_mid:
  assumes "timestamp p = ts" "payload p = jpeg_main_header (int (length scan)) ty q w h dri @ rest"
    and "drop cursor (payload p) = c"
    and "length scan + length c \<le> MAX_ACCESS_UNIT_BYTES" "header \<noteq> []" "c \<noteq> []"
  shows "jpeg_collect p cursor (jpeg_mid d ts hdr header scan) =
    (if marker p then (Some (jpeg_unit header (scan @ c) ts),
       d\<lparr> jd_timestamp := None, jd_frame_header := None, jd_header := [], jd_scan := [] \<rparr>)
     else (None, jpeg_mid d ts hdr header (scan @ c)))"
  using assms u24_main_header [of "int (length scan)" ty q w h dri rest]
  by (simp add: jpeg_collect_def jpeg_mid_def jpeg_unit_def Let_def)

abbreviation frame_header :: "int \<Rightarrow> int \<Rightarrow> int \<Rightarrow> int \<Rightarrow> int \<Rightarrow> int \<times> int \<times> int \<times> int \<times> int \<times> int" where
  "frame_header ty q w h dri \<equiv> (0, if dri \<noteq> 0 then ty + 64 else ty, q, w, h, dri)"

lemma jpeg_push_later:
  assumes "jpeg_dimensions_ok ty w h dri" "timestamp p = ts" "scan \<noteq> []"
    and "payload p = jpeg_main_header (int (length scan)) ty q w h dri @ c"
  shows "jpeg_push p (jpeg_mid d ts (frame_header ty q w h dri) header scan) =
    jpeg_collect p (header_end dri) (jpeg_mid d ts (frame_header ty q w h dri) header scan)"
  using assms(2,3) fragment_fields [OF assms(1), of "int (length scan)" q c]
    u24_main_header [of "int (length scan)" ty q w h dri c]
  by (simp add: jpeg_push_def jpeg_later_def jpeg_mid_def assms(4) del: append_Cons append_Nil)

lemma jpeg_feed_later:
  "\<lbrakk> cs \<noteq> []; [] \<notin> set cs; scan \<noteq> []; jpeg_dimensions_ok ty w h dri; header \<noteq> [];
     length scan + length (concat cs) \<le> MAX_ACCESS_UNIT_BYTES \<rbrakk> \<Longrightarrow>
   fst (feed jpeg_push (jpeg_fragments ts ty q w h dri [] (int (length scan)) cs)
     (jpeg_mid d ts (frame_header ty q w h dri) header scan)) = [jpeg_unit header (scan @ concat cs) ts]"
proof (induction cs arbitrary: scan)
  case (Cons c cs)
  let ?hdr = "frame_header ty q w h dri"
  let ?p = "\<lparr> payload_type = 26, sequence = 0, timestamp = ts, ssrc = 0,
    payload = jpeg_main_header (int (length scan)) ty q w h dri @ [] @ c, marker = (cs = []) \<rparr>"
  have c: "c \<noteq> []" "length scan + length c \<le> MAX_ACCESS_UNIT_BYTES"
    using Cons.prems(2,6) by auto
  have push: "jpeg_push ?p (jpeg_mid d ts ?hdr header scan) =
      jpeg_collect ?p (header_end dri) (jpeg_mid d ts ?hdr header scan)"
    using Cons.prems(3,4) by (intro jpeg_push_later) simp_all
  have collect: "jpeg_collect ?p (header_end dri) (jpeg_mid d ts ?hdr header scan) =
    (if cs = [] then (Some (jpeg_unit header (scan @ c) ts),
       d\<lparr> jd_timestamp := None, jd_frame_header := None, jd_header := [], jd_scan := [] \<rparr>)
     else (None, jpeg_mid d ts ?hdr header (scan @ c)))"
    using jpeg_collect_mid [of ?p ts scan ty q w h dri c "header_end dri" c header d ?hdr]
      fragment_fields(7) [OF Cons.prems(4), of "int (length scan)" q c] c Cons.prems(5) by simp
  show ?case
  proof (cases "cs = []")
    case True
    with push collect show ?thesis by simp
  next
    case False
    have "fst (feed jpeg_push (jpeg_fragments ts ty q w h dri [] (int (length (scan @ c))) cs)
        (jpeg_mid d ts ?hdr header (scan @ c))) = [jpeg_unit header ((scan @ c) @ concat cs) ts]"
      using Cons.prems False by (intro Cons.IH) simp_all
    with push collect False show ?thesis by (simp add: add.commute)
  qed
qed simp

lemma jpeg_tables_read:
  assumes "jpeg_dimensions_ok ty w h dri" "jpeg_tables_known d q sent tables"
    and pl: "pl = jpeg_main_header 0 ty q w h dri @ jpeg_table_header q sent tables @ c"
  shows "\<exists>dyn. jpeg_tables pl (header_end dri) q (jd_dynamic d) =
    Inr (tables, header_end dri + length (jpeg_table_header q sent tables), dyn)"
proof (cases "q < 128")
  case True
  then show ?thesis
    using assms(2) by (simp add: jpeg_tables_def jpeg_tables_known_def jpeg_table_header_def)
next
  case False
  let ?th = "jpeg_table_header q sent tables"
  note fields = fragment_fields [OF assms(1), of 0 q "?th @ c"]
  have nth: "pl ! (header_end dri + i) = (?th @ c) ! i" for i
    using fields(7) unfolding pl by (metis nth_drop fields(9) le_add1)
  have known: "length tables = 128" "\<not> sent \<Longrightarrow> assoc (jd_dynamic d) q = Some tables" "tables \<noteq> []"
    using False assms(2) by (auto simp: jpeg_tables_known_def)
  have len: "length pl = header_end dri + length (?th @ c)"
    using fields(9) pl by simp
  have "drop (header_end dri + 4) pl = drop 4 (?th @ c)"
    using fields(7) unfolding pl by (metis add.commute drop_drop)
  moreover have "u16_at pl (header_end dri + 2) = (if sent then 128 else 0)" "pl ! (header_end dri + 1) = 0"
    using nth [of 1] nth [of 2] nth [of 3] False
    by (simp_all add: u16_at_def jpeg_table_header_def be16_def add.assoc numeral_3_eq_3)
  ultimately show ?thesis
    using False known len
    by (simp add: jpeg_tables_def Let_def jpeg_table_header_def be16_def)
qed

lemma jpeg_push_first:
  assumes "jpeg_dimensions_ok ty w h dri" "timestamp p = ts"
    and "payload p = jpeg_main_header 0 ty q w h dri @ jpeg_table_header q sent tables @ c"
    and "jpeg_tables_known d q sent tables" "jpeg_interchange_header ty w h tables dri = Inr header"
  shows "\<exists>d'. jpeg_push p d = jpeg_collect p (header_end dri + length (jpeg_table_header q sent tables))
    (jpeg_mid d' ts (frame_header ty q w h dri) header [])"
proof -
  let ?rest = "jpeg_table_header q sent tables @ c"
  obtain dyn where "jpeg_tables (payload p) (header_end dri) q (jd_dynamic d) =
      Inr (tables, header_end dri + length (jpeg_table_header q sent tables), dyn)"
    using jpeg_tables_read [OF assms(1,4,3)] by blast
  then have "jpeg_push p d = jpeg_collect p (header_end dri + length (jpeg_table_header q sent tables))
    (jpeg_mid (d\<lparr> jd_dynamic := dyn \<rparr>) ts (frame_header ty q w h dri) header [])"
    using assms(2,5) fragment_fields [OF assms(1), of 0 q ?rest] u24_main_header [of 0 ty q w h dri ?rest]
    by (simp add: jpeg_push_def jpeg_first_def jpeg_mid_def assms(3) del: append_Cons append_Nil)
  then show ?thesis
    by blast
qed

section \<open>Reading a JFIF file\<close>

text \<open>A reader of baseline JFIF files that has nothing to do with the writer: it splits the file into its marker
  segments, reads the two quantization tables, the restart interval, the frame header and the Huffman tables, and gives
  what lies between the scan header and the end marker.\<close>

fun jfif_segments :: "nat \<Rightarrow> int list \<Rightarrow> ((int \<times> int list) list \<times> int list) option" where
  "jfif_segments (Suc n) (f # m # a # b # rest) =
     (let len = nat (a * 256 + b - 2) in
      if f \<noteq> 0xFF \<or> a * 256 + b < 2 \<or> length rest < len then None
      else if m = 0xDA then Some ([(m, take len rest)], drop len rest)
      else map_option (apfst ((#) (m, take len rest))) (jfif_segments n (drop len rest)))"
| "jfif_segments n d = None"

text \<open>Huffman tables of a segment: class and number, how many codes there are of each length, and the symbols.\<close>

fun huffman_tables :: "nat \<Rightarrow> int list \<Rightarrow> (int \<times> int list \<times> int list) list option" where
  "huffman_tables (Suc n) (t # rest) =
     (let counts = take 16 rest; symbols = nat (sum_list counts) in
      if length rest < 16 + symbols then None
      else map_option ((#) (t, counts, take symbols (drop 16 rest))) (huffman_tables n (drop (16 + symbols) rest)))"
| "huffman_tables (Suc n) [] = Some []"
| "huffman_tables 0 d = None"

record jpeg_image =
  ji_width :: int
  ji_height :: int
  ji_luma_sampling :: int
  ji_luma :: "int list"
  ji_chroma :: "int list"
  ji_restart :: int
  ji_huffman :: "(int \<times> int list \<times> int list) list"
  ji_scan :: "int list"

text \<open>Three components of 8 bits: the first with the table 0 and the sampling that is read, the others with table 1 and no
  subsampling; each with the Huffman tables of its kind.\<close>

definition read_frame_header :: "int list \<Rightarrow> (int \<times> int \<times> int) option" where
  "read_frame_header body =
     (if length body = 15 \<and> body ! 0 = 8 \<and> body ! 5 = 3 \<and> body ! 6 = 1 \<and> body ! 8 = 0 \<and> drop 9 body = [2, 0x11, 1, 3, 0x11, 1]
      then Some (u16_at body 3, u16_at body 1, body ! 7) else None)"

definition read_jfif :: "int list \<Rightarrow> jpeg_image option" where
  "read_jfif file =
     (if take 2 file \<noteq> [0xFF, 0xD8] then None
      else case jfif_segments (length file) (drop 2 file) of
        None \<Rightarrow> None
      | Some (segs, rest) \<Rightarrow>
          (case (assoc segs 0xDB, assoc segs 0xC0, assoc segs 0xC4, assoc segs 0xDA) of
             (Some tables, Some frame, Some dht, Some scan_header) \<Rightarrow>
               (case (read_frame_header frame, huffman_tables 5 dht) of
                  (Some (width, height, sampling), Some huffman) \<Rightarrow>
                    if length tables = 130 \<and> tables ! 0 = 0 \<and> tables ! 65 = 1
                      \<and> scan_header = [3, 1, 0x00, 2, 0x11, 3, 0x11, 0, 0x3F, 0]
                      \<and> 2 \<le> length rest \<and> drop (length rest - 2) rest = [0xFF, 0xD9]
                    then Some \<lparr> ji_width = width, ji_height = height, ji_luma_sampling = sampling,
                      ji_luma = take 64 (drop 1 tables), ji_chroma = drop 66 tables,
                      ji_restart = (case assoc segs 0xDD of None \<Rightarrow> 0 | Some body \<Rightarrow> u16_at body 0),
                      ji_huffman = huffman, ji_scan = take (length rest - 2) rest \<rparr>
                    else None
                | _ \<Rightarrow> None)
           | _ \<Rightarrow> None))"

definition jfif_segment :: "int \<Rightarrow> int list \<Rightarrow> int list" where
  "jfif_segment m body = [0xFF, m] @ be16 (int (length body) + 2) @ body"

lemma be16_digits:
  obtains a b where "be16 x = [a, b]" "a * 256 + b = x"
  by (rule that [of "x div 256" "x mod 256"]) (simp_all add: be16_def)

lemma jfif_segments_step:
  "jfif_segments (Suc n) (jfif_segment m body @ rest) =
     (if m = 0xDA then Some ([(m, body)], rest) else map_option (apfst ((#) (m, body))) (jfif_segments n rest))"
proof -
  obtain a b where be: "be16 (int (length body) + 2) = [a, b]" and sum: "a * 256 + b = int (length body) + 2"
    by (rule be16_digits)
  have "nat (a * 256 + b - 2) = length body" "(a * 256 + b < 2) = False" "(length (body @ rest) < length body) = False"
    "take (length body) (body @ rest) = body" "drop (length body) (body @ rest) = rest"
    using sum by simp_all
  then show ?thesis
    by (simp only: jfif_segment_def be append_Cons append_Nil append_assoc jfif_segments.simps Let_def simp_thms if_False)
qed

text \<open>The typical Huffman tables of annex K of ITU-T T.81: the DC tables of luminance and chrominance, then the AC
  tables.\<close>

definition STANDARD_HUFFMAN :: "(int \<times> int list \<times> int list) list" where
  "STANDARD_HUFFMAN =
    [(0, [0, 1, 5, 1, 1, 1, 1, 1, 1, 0, 0, 0, 0, 0, 0, 0], [0, 1, 2, 3, 4, 5, 6, 7, 8, 9, 10, 11]),
    (1, [0, 3, 1, 1, 1, 1, 1, 1, 1, 1, 1, 0, 0, 0, 0, 0], [0, 1, 2, 3, 4, 5, 6, 7, 8, 9, 10, 11]),
    (16, [0, 2, 1, 3, 3, 2, 4, 3, 5, 5, 4, 4, 0, 0, 1, 125], [1, 2, 3, 0, 4, 17, 5, 18, 33, 49, 65, 6, 19, 81,
      97, 7, 34, 113, 20, 50, 129, 145, 161, 8, 35, 66, 177, 193, 21, 82, 209, 240, 36, 51, 98, 114, 130, 9,
      10, 22, 23, 24, 25, 26, 37, 38, 39, 40, 41, 42, 52, 53, 54, 55, 56, 57, 58, 67, 68, 69, 70, 71, 72, 73,
      74, 83, 84, 85, 86, 87, 88, 89, 90, 99, 100, 101, 102, 103, 104, 105, 106, 115, 116, 117, 118, 119, 120,
      121, 122, 131, 132, 133, 134, 135, 136, 137, 138, 146, 147, 148, 149, 150, 151, 152, 153, 154, 162, 163,
      164, 165, 166, 167, 168, 169, 170, 178, 179, 180, 181, 182, 183, 184, 185, 186, 194, 195, 196, 197, 198,
      199, 200, 201, 202, 210, 211, 212, 213, 214, 215, 216, 217, 218, 225, 226, 227, 228, 229, 230, 231, 232,
      233, 234, 241, 242, 243, 244, 245, 246, 247, 248, 249, 250]),
    (17, [0, 2, 1, 2, 4, 4, 3, 4, 7, 5, 4, 4, 0, 1, 2, 119], [0, 1, 2, 3, 17, 4, 5, 33, 49, 6, 18, 65, 81, 7,
      97, 113, 19, 34, 50, 129, 8, 20, 66, 145, 161, 177, 193, 9, 35, 51, 82, 240, 21, 98, 114, 209, 10, 22,
      36, 52, 225, 37, 241, 23, 24, 25, 26, 38, 39, 40, 41, 42, 53, 54, 55, 56, 57, 58, 67, 68, 69, 70, 71,
      72, 73, 74, 83, 84, 85, 86, 87, 88, 89, 90, 99, 100, 101, 102, 103, 104, 105, 106, 115, 116, 117, 118,
      119, 120, 121, 122, 130, 131, 132, 133, 134, 135, 136, 137, 138, 146, 147, 148, 149, 150, 151, 152, 153,
      154, 162, 163, 164, 165, 166, 167, 168, 169, 170, 178, 179, 180, 181, 182, 183, 184, 185, 186, 194, 195,
      196, 197, 198, 199, 200, 201, 202, 210, 211, 212, 213, 214, 215, 216, 217, 218, 226, 227, 228, 229, 230,
      231, 232, 233, 234, 242, 243, 244, 245, 246, 247, 248, 249, 250])]"

lemma standard_huffman: "huffman_tables 5 (drop 4 JPEG_STANDARD_DHT) = Some STANDARD_HUFFMAN"
  by code_simp

text \<open>The interchange header is a sequence of segments.\<close>

lemma header_segments:
  assumes "jpeg_interchange_header ty w h tables dri = Inr header"
  shows "header = [0xFF, 0xD8] @ jfif_segment 0xE0 [0x4A, 0x46, 0x49, 0x46, 0x00, 0x01, 0x02, 0x00, 0x00, 0x01, 0x00, 0x01, 0x00, 0x00]
    @ jfif_segment 0xDB ([0] @ take 64 tables @ [1] @ take 64 (drop 64 tables))
    @ (if dri \<noteq> 0 then jfif_segment 0xDD (be16 dri) else [])
    @ jfif_segment 0xC0 ([8] @ be16 (8 * h) @ be16 (8 * w) @ [3, 1, if ty \<noteq> 0 then 0x22 else 0x21, 0, 2, 0x11, 1, 3, 0x11, 1])
    @ jfif_segment 0xC4 (drop 4 JPEG_STANDARD_DHT)
    @ jfif_segment 0xDA [3, 1, 0x00, 2, 0x11, 3, 0x11, 0, 0x3F, 0]"
proof -
  have "jfif_segment 0xC4 (drop 4 JPEG_STANDARD_DHT) = JPEG_STANDARD_DHT"
    by code_simp
  moreover have "length tables = 128"
    using assms by (simp add: jpeg_interchange_header_def Let_def split: if_splits)
  ultimately show ?thesis
    using assms by (simp add: jpeg_interchange_header_def jfif_segment_def be16_def Let_def push_bit_eq_mult mult.commute split: if_splits)
qed

lemma read_jfifI:
  assumes "take 2 file = [0xFF, 0xD8]" "jfif_segments (length file) (drop 2 file) = Some (segs, scan @ [0xFF, 0xD9])"
    and "assoc segs 0xDB = Some tables" "length tables = 130" "tables ! 0 = 0" "tables ! 65 = 1"
    and "assoc segs 0xC0 = Some frame" "read_frame_header frame = Some (width, height, sampling)"
    and "assoc segs 0xC4 = Some dht" "huffman_tables 5 dht = Some huffman"
    and "assoc segs 0xDA = Some [3, 1, 0x00, 2, 0x11, 3, 0x11, 0, 0x3F, 0]"
  shows "read_jfif file = Some \<lparr> ji_width = width, ji_height = height, ji_luma_sampling = sampling,
    ji_luma = take 64 (drop 1 tables), ji_chroma = drop 66 tables,
    ji_restart = (case assoc segs 0xDD of None \<Rightarrow> 0 | Some body \<Rightarrow> u16_at body 0),
    ji_huffman = huffman, ji_scan = scan \<rparr>"
  using assms by (simp add: read_jfif_def)

lemma rebuilt_file_is_read:
  assumes "jpeg_dimensions_ok ty w h dri" "jpeg_interchange_header ty w h tables dri = Inr header"
  shows "read_jfif (header @ scan @ [0xFF, 0xD9]) =
    Some \<lparr> ji_width = 8 * w, ji_height = 8 * h, ji_luma_sampling = (if ty = 0 then 0x21 else 0x22), ji_luma = take 64 tables,
      ji_chroma = drop 64 tables, ji_restart = dri, ji_huffman = STANDARD_HUFFMAN, ji_scan = scan \<rparr>"
proof -
  let ?file = "header @ scan @ [0xFF, 0xD9]"
  have len: "length tables = 128"
    using assms(2) by (simp add: jpeg_interchange_header_def Let_def split: if_splits)
  obtain n where n: "length ?file = Suc (Suc (Suc (Suc (Suc (Suc n)))))"
    unfolding header_segments [OF assms(2)] by (simp add: jfif_segment_def be16_def)
  let ?dqt = "[0] @ take 64 tables @ [1] @ take 64 (drop 64 tables)"
  let ?sof = "[8] @ be16 (8 * h) @ be16 (8 * w) @ [3, 1, if ty \<noteq> 0 then 0x22 else 0x21, 0, 2, 0x11, 1, 3, 0x11, 1]"
  have segs: "jfif_segments (length ?file) (drop 2 ?file) =
    Some ((0xE0, [0x4A, 0x46, 0x49, 0x46, 0x00, 0x01, 0x02, 0x00, 0x00, 0x01, 0x00, 0x01, 0x00, 0x00]) # (0xDB, ?dqt)
      # (if dri \<noteq> 0 then [(0xDD, be16 dri)] else []) @ [(0xC0, ?sof), (0xC4, drop 4 JPEG_STANDARD_DHT),
        (0xDA, [3, 1, 0x00, 2, 0x11, 3, 0x11, 0, 0x3F, 0])], scan @ [0xFF, 0xD9])"
    unfolding n unfolding header_segments [OF assms(2)] by (simp add: jfif_segments_step del: jfif_segments.simps)
  have sof: "read_frame_header ?sof = Some (8 * w, 8 * h, if ty = 0 then 0x21 else 0x22)"
  proof -
    obtain a b where w: "be16 (8 * w) = [a, b]" "a * 256 + b = 8 * w"
      by (rule be16_digits)
    obtain a' b' where h: "be16 (8 * h) = [a', b']" "a' * 256 + b' = 8 * h"
      by (rule be16_digits)
    show ?thesis
      unfolding w(1) h(1) by (simp add: read_frame_header_def u16_at_def w(2) h(2))
  qed
  have dri: "u16_at (be16 dri) 0 = dri"
    by (rule be16_digits [of dri]) (simp add: u16_at_def)
  have dqt: "length ?dqt = 130" "?dqt ! 0 = 0" "?dqt ! 65 = 1" "take 64 (drop 1 ?dqt) = take 64 tables" "drop 66 ?dqt = drop 64 tables"
    using len by (simp_all add: nth_append)
  have start: "take 2 ?file = [0xFF, 0xD8]"
    unfolding header_segments [OF assms(2)] by simp
  show ?thesis
    by (subst read_jfifI [OF start segs _ dqt(1-3) _ sof _ standard_huffman]) (simp_all add: dqt dri len)
qed

section \<open>Properties\<close>

text \<open>C21: A JPEG frame that arrives in fragments as RFC 2435 lays them out is rebuilt as one JFIF file, from
  whatever state the depacketizer was in: of type 0 or 1, with restart markers or without, with the static tables of a
  quality up to 99 or with tables of its own, sent with it or before, in fragments of whatever sizes.  A reader of JFIF
  finds in the file the size of the frame in blocks of 8 pixels, the sampling of its type, the two halves of its
  quantization tables, its restart interval, the standard Huffman tables, and the scan data of the fragments in
  order.\<close>

theorem jpeg_frame_is_rebuilt:
  assumes "cs \<noteq> []" "[] \<notin> set cs" "length (concat cs) \<le> MAX_ACCESS_UNIT_BYTES"
    and "jpeg_dimensions_ok ty w h dri" "jpeg_tables_known d q sent tables"
  shows "\<exists>u. fst (feed jpeg_push (jpeg_fragments ts ty q w h dri (jpeg_table_header q sent tables) 0 cs) d) = [u] \<and>
    vu_timestamp u = ts \<and> vu_encoding u = ''JPEG'' \<and> vu_key_frame u \<and>
    read_jfif (vu_data u) =
      Some \<lparr> ji_width = 8 * w, ji_height = 8 * h, ji_luma_sampling = (if ty = 0 then 0x21 else 0x22), ji_luma = take 64 tables,
        ji_chroma = drop 64 tables, ji_restart = dri, ji_huffman = STANDARD_HUFFMAN, ji_scan = concat cs \<rparr>"
proof -
  obtain c cs' where cs: "cs = c # cs'"
    using assms(1) by (cases cs) simp_all
  let ?th = "jpeg_table_header q sent tables" and ?hdr = "frame_header ty q w h dri"
  let ?p = "\<lparr> payload_type = 26, sequence = 0, timestamp = ts, ssrc = 0,
    payload = jpeg_main_header 0 ty q w h dri @ ?th @ c, marker = (cs' = []) \<rparr>"
  obtain header where header: "jpeg_interchange_header ty w h tables dri = Inr header"
    using assms(4,5) by (auto simp: jpeg_interchange_header_def jpeg_dimensions_ok_def jpeg_tables_known_def Let_def)
  have c: "c \<noteq> []" "length ([] :: int list) + length c \<le> MAX_ACCESS_UNIT_BYTES"
    using assms(2,3) by (auto simp: cs)
  obtain d' where push: "jpeg_push ?p d = jpeg_collect ?p (header_end dri + length ?th) (jpeg_mid d' ts ?hdr header [])"
    using jpeg_push_first [OF assms(4) _ _ assms(5) header, of ?p ts c] by auto
  have "drop (header_end dri + length ?th) (payload ?p) = c"
    using arg_cong [OF fragment_fields(7) [OF assms(4), of 0 q "?th @ c"], of "drop (length ?th)"]
    by (simp only: drop_drop rtp_packet.select_convs add.commute append_eq_conv_conj) simp
  note collect = jpeg_collect_mid [of ?p ts "[]" ty q w h dri "?th @ c" _ c header d' ?hdr,
      OF _ _ this c(2) jpeg_header_some [OF header] c(1)]
  have "fst (feed jpeg_push (jpeg_fragments ts ty q w h dri ?th 0 cs) d) = [jpeg_unit header (concat cs) ts]"
  proof (cases "cs' = []")
    case True
    with push collect show ?thesis by (simp add: cs)
  next
    case False
    with push collect jpeg_feed_later [of cs' c ty w h dri header ts q d'] assms(2-4)
      jpeg_header_some [OF header] c(1)
    show ?thesis by (simp add: cs)
  qed
  with rebuilt_file_is_read [OF assms(4) header] show ?thesis
    by (simp add: jpeg_unit_def)
qed

theorem jpeg_frame_is_rebuilt_witness:
  "\<exists>u. fst (feed jpeg_push (jpeg_fragments 90 1 200 40 30 7 (jpeg_table_header 200 True (replicate 64 3 @ replicate 64 5)) 0
      [[7, 8], [9]]) new_jpeg_depacketizer) = [u] \<and>
    map_option (\<lambda>i. (ji_width i, ji_height i, ji_chroma i, ji_restart i, ji_scan i)) (read_jfif (vu_data u)) =
      Some (320, 240, replicate 64 5, 7, [7, 8, 9])"
proof -
  have "jpeg_tables_known new_jpeg_depacketizer 200 True (replicate 64 3 @ replicate 64 5)"
    by (simp add: jpeg_tables_known_def)
  from jpeg_frame_is_rebuilt [OF _ _ _ _ this, of "[[7, 8], [9]]" 1 40 30 7 90] show ?thesis
    by (auto simp: MAX_ACCESS_UNIT_BYTES_def jpeg_dimensions_ok_def)
qed

end
