(* ===== verification/Video_Rtcp.thy ===== *)
theory Video_Rtcp
  imports Rtp
begin

text \<open>
  \<open>custom_components/voip_stack/video_rtcp.py\<close>: receiver and sender reports, the canonical name,
  picture-loss and full-intra feedback, and the parser of a compound datagram.  Bytes are
  \<^typ>\<open>int\<close> values; a canonical name is a text, encoded byte by byte.
\<close>

section \<open>Parsing\<close>

record rtcp_packet =
  rc_packet_type :: int
  rc_fmt :: int
  rc_payload :: "int list"

definition validate_feedback_payload :: "int \<Rightarrow> int \<Rightarrow> int list \<Rightarrow> exn + unit" where
  "validate_feedback_payload packet_type fmt pl =
     (if packet_type \<noteq> 206 then Inr ()
      else if fmt = 1 then
        (if length pl \<noteq> 8 then Inl (RtcpError ''invalid RTCP PLI payload length'') else Inr ())
      else if fmt \<noteq> 4 then Inr ()
      else if length pl < 16 \<or> (length pl - 8) mod 8 \<noteq> 0
        then Inl (RtcpError ''invalid RTCP FIR payload length'')
      else if u32_at pl 4 \<noteq> 0 then Inl (RtcpError ''RTCP FIR media-source SSRC must be zero'')
      else Inr ())"

text \<open>The payload without its padding; \<open>final\<close> says that the packet ends the datagram.\<close>

definition unpad :: "int \<Rightarrow> bool \<Rightarrow> int list \<Rightarrow> exn + int list" where
  "unpad first final pl =
     (if first AND 0x20 = 0 then Inr pl
      else if \<not> final then Inl (RtcpError ''only the final RTCP packet may contain padding'')
      else if pl = [] then Inl (RtcpError ''RTCP padding bit set without padding'')
      else
        let padding = last pl
        in if padding = 0 \<or> padding > int (length pl)
             then Inl (RtcpError ''invalid RTCP padding length'')
           else Inr (take (length pl - nat padding) pl))"

text \<open>The loop, over what is left of the datagram from \<open>offset\<close> on.\<close>

function parse_rtcp :: "int list \<Rightarrow> exn + rtcp_packet list" where
  "parse_rtcp data =
     (if data = [] then Inr []
      else if length data < 4 then Inl (RtcpError ''truncated RTCP header'')
      else
        let first = data ! 0; packet_type = data ! 1; size = (nat (u16_at data 2) + 1) * 4
        in if drop_bit 6 first \<noteq> 2 then Inl (RtcpError ''unsupported RTCP version'')
           else if size > length data then Inl (RtcpError ''truncated RTCP packet'')
           else
             bindE (unpad first (size = length data) (take (size - 4) (drop 4 data))) (\<lambda>pl.
             bindE (validate_feedback_payload packet_type (first AND 0x1F) pl) (\<lambda>_.
             bindE (parse_rtcp (drop size data)) (\<lambda>packets.
               Inr (\<lparr> rc_packet_type = packet_type, rc_fmt = first AND 0x1F, rc_payload = pl \<rparr>
                    # packets)))))"
  by pat_completeness auto
termination by (relation "measure length") auto

declare parse_rtcp.simps [simp del]

definition parse_compound :: "int list \<Rightarrow> exn + rtcp_packet list" where
  "parse_compound data =
     (if data = [] \<or> length data mod 4 \<noteq> 0
        then Inl (RtcpError ''RTCP compound packet must be non-empty and word aligned'')
      else parse_rtcp data)"

section \<open>Building\<close>

definition rtcp_header :: "int \<Rightarrow> int \<Rightarrow> int list \<Rightarrow> exn + int list" where
  "rtcp_header fmt packet_type pl =
     (if length pl mod 4 \<noteq> 0 then Inl (RtcpError ''RTCP payload must be word aligned'')
      else Inr ([0x80 OR (fmt AND 0x1F), packet_type] @ be16 (int (length pl div 4)) @ pl))"

definition word32 :: "int \<Rightarrow> int list" where
  "word32 x = be32 (x AND 0xFFFFFFFF)"

definition build_pli :: "int \<Rightarrow> int \<Rightarrow> exn + int list" where
  "build_pli sender_ssrc media_ssrc = rtcp_header 1 206 (word32 sender_ssrc @ word32 media_ssrc)"

definition build_fir :: "int \<Rightarrow> int \<Rightarrow> int \<Rightarrow> exn + int list" where
  "build_fir sender_ssrc media_ssrc seq =
     rtcp_header 4 206 (word32 sender_ssrc @ be32 0 @ word32 media_ssrc @ [seq AND 0xFF, 0, 0, 0])"

record reception =
  rx_fraction_lost :: int
  rx_cumulative_lost :: int
  rx_highest_sequence :: int
  rx_jitter :: int

definition receiver_report_block :: "int \<Rightarrow> reception \<Rightarrow> int list" where
  "receiver_report_block media_ssrc rx =
     (let cumulative = max (- 0x800000) (min 0x7FFFFF (rx_cumulative_lost rx)) AND 0xFFFFFF;
          lost_word = push_bit 24 (rx_fraction_lost rx AND 0xFF) OR cumulative
      in word32 media_ssrc @ be32 lost_word @ word32 (rx_highest_sequence rx) @ word32 (rx_jitter rx)
         @ be32 0 @ be32 0)"

definition build_receiver_report :: "int \<Rightarrow> int \<Rightarrow> reception \<Rightarrow> exn + int list" where
  "build_receiver_report sender_ssrc media_ssrc rx =
     rtcp_header 1 201 (word32 sender_ssrc @ receiver_report_block media_ssrc rx)"

record sender_info =
  sr_ntp_seconds :: int
  sr_ntp_fraction :: int
  sr_rtp_timestamp :: int
  sr_packet_count :: int
  sr_octet_count :: int

definition build_sender_report ::
  "int \<Rightarrow> int option \<Rightarrow> sender_info \<Rightarrow> reception \<Rightarrow> exn + int list" where
  "build_sender_report sender_ssrc media_ssrc sr rx =
     (let info = word32 sender_ssrc @ word32 (sr_ntp_seconds sr) @ word32 (sr_ntp_fraction sr)
                 @ word32 (sr_rtp_timestamp sr) @ word32 (sr_packet_count sr)
                 @ word32 (sr_octet_count sr)
      in case media_ssrc of
           None \<Rightarrow> rtcp_header 0 200 info
         | Some media \<Rightarrow> rtcp_header 1 200 (info @ receiver_report_block media rx))"

definition build_sdes_cname :: "int \<Rightarrow> string \<Rightarrow> exn + int list" where
  "build_sdes_cname sender_ssrc cname =
     (let encoded = map (\<lambda>c. int (ord c)) cname in
      if encoded = [] \<or> length encoded > 255
        then Inl (RtcpError ''RTCP CNAME must contain between 1 and 255 bytes'')
      else
        let pl = word32 sender_ssrc @ [1, int (length encoded)] @ encoded @ [0]
        in rtcp_header 1 202 (pl @ replicate ((4 - length pl mod 4) mod 4) 0))"

text \<open>\<open>f"{x:08x}"\<close> of a 32-bit value.\<close>

definition hex_lower :: "int \<Rightarrow> char" where
  "hex_lower d = char_of (if d < 10 then 48 + nat d else 87 + nat d)"

definition hex08 :: "int \<Rightarrow> string" where
  "hex08 x = map (\<lambda>i. hex_lower (drop_bit (4 * i) x AND 0xF)) [7, 6, 5, 4, 3, 2, 1, 0]"

definition stack_cname :: "int \<Rightarrow> string" where
  "stack_cname sender_ssrc = ''voip-stack-'' @ hex08 (sender_ssrc AND 0xFFFFFFFF)"

definition build_receiver_compound ::
  "int \<Rightarrow> int \<Rightarrow> reception \<Rightarrow> int list \<Rightarrow> exn + int list" where
  "build_receiver_compound sender_ssrc media_ssrc rx feedback =
     bindE (build_receiver_report sender_ssrc media_ssrc rx) (\<lambda>report.
     bindE (build_sdes_cname sender_ssrc (stack_cname sender_ssrc)) (\<lambda>cname.
     bindE (if feedback \<noteq> [] then parse_compound feedback else Inr []) (\<lambda>_.
       Inr (report @ cname @ feedback))))"

definition build_sender_compound ::
  "int \<Rightarrow> int option \<Rightarrow> sender_info \<Rightarrow> reception \<Rightarrow> exn + int list" where
  "build_sender_compound sender_ssrc media_ssrc sr rx =
     bindE (build_sender_report sender_ssrc media_ssrc sr rx) (\<lambda>report.
     bindE (build_sdes_cname sender_ssrc (stack_cname sender_ssrc)) (\<lambda>cname.
       Inr (report @ cname)))"

section \<open>Reading back\<close>

lemma header_bits_table:
  "list_all (\<lambda>f. let b = 0x80 OR (f AND 0x1F) in drop_bit 6 b = 2 \<and> b AND 0x20 = 0 \<and> b AND 0x1F = (f :: int))
     [0..31]"
  by code_simp

lemma parse_rtcp_packet:
  assumes "rtcp_header fmt pt pl = Inr bs" "0 \<le> fmt" "fmt \<le> 31" "length pl < 4 * 65536"
    and "validate_feedback_payload pt fmt pl = Inr ()"
  shows "parse_rtcp (bs @ rest) = bindE (parse_rtcp rest) (\<lambda>packets.
      Inr (\<lparr> rc_packet_type = pt, rc_fmt = fmt, rc_payload = pl \<rparr> # packets))"
    and "length bs = 4 + length pl" and "length bs mod 4 = 0"
proof -
  let ?b = "0x80 OR (fmt AND 0x1F)" and ?n = "int (length pl div 4)"
  have bs: "bs = [?b, pt] @ be16 ?n @ pl" and align: "length pl mod 4 = 0"
    using assms(1) by (auto simp: rtcp_header_def split: if_splits)
  have "fmt \<in> set [0..31]"
    using assms(2,3) by simp
  with header_bits_table have b: "drop_bit 6 ?b = 2" "?b AND 0x20 = 0" "?b AND 0x1F = fmt"
    unfolding list_all_iff Let_def by blast+
  show len: "length bs = 4 + length pl"
    by (simp add: bs be16_def)
  then show "length bs mod 4 = 0"
    using align by simp
  let ?data = "bs @ rest"
  have "u16_at ?data 2 = ?n"
    by (simp add: bs be16_def u16_at_def)
  moreover have "length pl = length pl div 4 * 4"
    using align by presburger
  ultimately have size: "(nat (u16_at ?data 2) + 1) * 4 = length bs"
    by (simp add: len)
  have fields: "?data ! 0 = ?b" "?data ! 1 = pt" "\<not> length ?data < 4" "?data \<noteq> []"
    "take (length bs - 4) (drop 4 ?data) = pl" "drop (length bs) ?data = rest"
    "\<not> length bs > length ?data"
    by (simp_all add: bs be16_def)
  show "parse_rtcp ?data = bindE (parse_rtcp rest) (\<lambda>packets.
      Inr (\<lparr> rc_packet_type = pt, rc_fmt = fmt, rc_payload = pl \<rparr> # packets))"
    by (subst parse_rtcp.simps)
      (simp only: Let_def size fields b unpad_def assms(5) bindE_simps if_True if_False
        not_True_eq_False simp_thms)
qed

lemma parse_rtcp_Nil [simp]: "parse_rtcp [] = Inr []"
  by (subst parse_rtcp.simps) simp

lemma length_be32 [simp]: "length (be32 x) = 4"
  by (simp add: be32_def)

lemma length_word32 [simp]: "length (word32 x) = 4"
  by (simp add: word32_def)

lemma length_block [simp]: "length (receiver_report_block media rx) = 24"
  by (simp add: receiver_report_block_def Let_def)

lemma length_stack_cname [simp]: "length (stack_cname s) = 19"
  by (simp add: stack_cname_def hex08_def)

definition sdes_payload :: "int \<Rightarrow> int list" where
  "sdes_payload sender_ssrc =
     word32 sender_ssrc @ [1, 19] @ map (\<lambda>c. int (ord c)) (stack_cname sender_ssrc) @ [0, 0, 0]"

lemma sdes_built:
  "build_sdes_cname s (stack_cname s) = rtcp_header 1 202 (sdes_payload s)"
proof -
  have "stack_cname s \<noteq> []"
    by (simp add: stack_cname_def)
  moreover have "replicate ((4 - 26 mod 4) mod 4) (0 :: int) = [0, 0]"
    by (simp add: numeral_2_eq_2)
  ultimately show ?thesis
    by (simp add: build_sdes_cname_def sdes_payload_def Let_def)
qed

lemma length_sdes [simp]: "length (sdes_payload s) = 28"
  by (simp add: sdes_payload_def)

lemma header_total: "length pl mod 4 = 0 \<Longrightarrow> \<exists>bs. rtcp_header fmt pt pl = Inr bs"
  by (simp add: rtcp_header_def)

lemma receiver_compound_parsed:
  assumes "feedback = [] \<and> packets = [] \<or> parse_compound feedback = Inr packets"
  shows "\<exists>bs. build_receiver_compound s m rx feedback = Inr bs \<and>
    parse_compound bs = Inr (
      \<lparr> rc_packet_type = 201, rc_fmt = 1, rc_payload = word32 s @ receiver_report_block m rx \<rparr>
      # \<lparr> rc_packet_type = 202, rc_fmt = 1, rc_payload = sdes_payload s \<rparr> # packets)"
proof -
  obtain rr where rr: "rtcp_header 1 201 (word32 s @ receiver_report_block m rx) = Inr rr"
    using header_total [of "word32 s @ receiver_report_block m rx"] by auto
  obtain sdes where sdes: "rtcp_header 1 202 (sdes_payload s) = Inr sdes"
    using header_total [of "sdes_payload s"] by auto
  have fb: "parse_rtcp feedback = Inr packets" "length feedback mod 4 = 0"
    using assms by (auto simp: parse_compound_def split: if_splits)
  note first = parse_rtcp_packet [OF rr] and second = parse_rtcp_packet [OF sdes]
  have "build_receiver_compound s m rx feedback = Inr (rr @ sdes @ feedback)"
    using assms by (auto simp: build_receiver_compound_def build_receiver_report_def rr sdes_built sdes)
  moreover have "parse_rtcp (rr @ sdes @ feedback) = Inr (
      \<lparr> rc_packet_type = 201, rc_fmt = 1, rc_payload = word32 s @ receiver_report_block m rx \<rparr>
      # \<lparr> rc_packet_type = 202, rc_fmt = 1, rc_payload = sdes_payload s \<rparr> # packets)"
    by (simp add: first(1) second(1) fb(1) validate_feedback_payload_def)
  moreover have "rr @ sdes @ feedback \<noteq> []" "length (rr @ sdes @ feedback) mod 4 = 0"
    using first(2,3) second(2,3) fb(2) by (auto simp: validate_feedback_payload_def)
  ultimately show ?thesis
    by (simp add: parse_compound_def)
qed

section \<open>The fields of a report\<close>

lemma u32_be32: "u32_at (be32 x @ rest) 0 = x"
  by (simp add: u32_at_def be32_def be32_digits)

lemma u32_skip: "u32_at (a @ rest) (length a + i) = u32_at rest i"
  by (simp add: u32_at_def nth_append)

lemma u32_word32: "u32_at (word32 x @ rest) 0 = x mod 4294967296"
  by (simp add: word32_def u32_be32 and_FFFFFFFF)

lemma u32_skip_words:
  "u32_at (word32 a @ rest) (4 + i) = u32_at rest i" "u32_at (be32 b @ rest) (4 + i) = u32_at rest i"
  using u32_skip [of "word32 a" rest i] u32_skip [of "be32 b" rest i] by simp_all

text \<open>Two's complement on 24 bits.\<close>

definition signed24 :: "int \<Rightarrow> int" where
  "signed24 x = (if x \<ge> 0x800000 then x - 0x1000000 else x)"

lemma signed24_mod:
  "- 0x800000 \<le> c \<Longrightarrow> c \<le> 0x7FFFFF \<Longrightarrow> signed24 (c mod 0x1000000) = c"
proof -
  assume c: "- 0x800000 \<le> c" "c \<le> 0x7FFFFF"
  show "signed24 (c mod 0x1000000) = c"
  proof (cases "c < 0")
    case True
    have "c mod 0x1000000 = (c + 0x1000000) mod 0x1000000"
      by simp
    also have "\<dots> = c + 0x1000000"
      using c True by (intro mod_pos_pos_trivial) simp_all
    finally show ?thesis using c by (simp add: signed24_def)
  qed (use c in \<open>simp add: signed24_def\<close>)
qed

lemma lost_word_fields:
  "push_bit 24 (f AND 0xFF) OR (c AND 0xFFFFFF) = f mod 256 * 16777216 + c mod (16777216 :: int)"
proof -
  have masks: "f AND 0xFF = f mod 256" "c AND 0xFFFFFF = c mod 16777216"
    using and_mask [of f 8] and_mask [of c 24] by simp_all
  have "c mod 16777216 = take_bit 24 c"
    by (simp add: take_bit_eq_mod)
  then have "push_bit 24 (f mod 256) OR (c mod 16777216) = push_bit 24 (f mod 256) + c mod 16777216"
    by (intro disjunctive_add [symmetric]) (auto simp: bit_simps)
  then show ?thesis
    by (simp add: masks push_bit_eq_mult)
qed

definition clamp24 :: "int \<Rightarrow> int" where
  "clamp24 c = max (- 0x800000) (min 0x7FFFFF c)"

definition reads_back :: "int \<Rightarrow> int \<Rightarrow> reception \<Rightarrow> int list \<Rightarrow> bool" where
  "reads_back s m rx pl \<longleftrightarrow>
     u32_at pl 0 = s mod 2 ^ 32 \<and> u32_at pl 4 = m mod 2 ^ 32 \<and>
     u32_at pl 8 div 2 ^ 24 = rx_fraction_lost rx mod 256 \<and>
     signed24 (u32_at pl 8 mod 2 ^ 24) = clamp24 (rx_cumulative_lost rx) \<and>
     u32_at pl 12 = rx_highest_sequence rx mod 2 ^ 32 \<and> u32_at pl 16 = rx_jitter rx mod 2 ^ 32"

lemma report_reads_back: "reads_back s m rx (word32 s @ receiver_report_block m rx)"
proof -
  let ?lost = "rx_fraction_lost rx mod 256 * 16777216 + clamp24 (rx_cumulative_lost rx) mod 16777216"
  let ?tail = "word32 (rx_highest_sequence rx) @ word32 (rx_jitter rx) @ be32 0 @ be32 0"
  have block: "receiver_report_block m rx = word32 m @ be32 ?lost @ ?tail"
    by (simp only: receiver_report_block_def Let_def lost_word_fields clamp24_def)
  have "- 0x800000 \<le> clamp24 c" "clamp24 c \<le> 0x7FFFFF" for c
    by (simp_all add: clamp24_def)
  then have "signed24 (clamp24 c mod 16777216) = clamp24 c" for c
    by (intro signed24_mod) simp_all
  moreover have "0 \<le> c mod 16777216" "c mod 16777216 < (16777216 :: int)" for c
    by simp_all
  moreover have "u32_at (word32 s @ word32 m @ be32 ?lost @ ?tail) 8 = ?lost"
    using u32_skip_words(1) [of s _ 4] u32_skip_words(1) [of m _ 0] u32_be32 by simp
  moreover have "u32_at (word32 s @ word32 m @ be32 ?lost @ ?tail) 4 = m mod 4294967296"
    using u32_skip_words(1) [of s _ 0] u32_word32 by simp
  moreover have "u32_at (word32 s @ word32 m @ be32 ?lost @ ?tail) 12 = rx_highest_sequence rx mod 4294967296"
    using u32_skip_words(1) [of s _ 8] u32_skip_words(1) [of m _ 4] u32_skip_words(2) [of ?lost _ 0]
      u32_word32 by simp
  moreover have "u32_at (word32 s @ word32 m @ be32 ?lost @ ?tail) 16 = rx_jitter rx mod 4294967296"
    using u32_skip_words(1) [of s _ 12] u32_skip_words(1) [of m _ 8] u32_skip_words(2) [of ?lost _ 4]
      u32_skip_words(1) [of "rx_highest_sequence rx" _ 0] u32_word32 by simp
  ultimately show ?thesis
    by (simp add: reads_back_def block u32_word32)
qed

text \<open>The feedback a video receiver appends: none, a picture-loss indication or a full intra
  request.\<close>

datatype feedback = No_Feedback | Pli | Fir int

definition feedback_bytes :: "int \<Rightarrow> int \<Rightarrow> feedback \<Rightarrow> exn + int list" where
  "feedback_bytes s m fb =
     (case fb of No_Feedback \<Rightarrow> Inr [] | Pli \<Rightarrow> build_pli s m | Fir n \<Rightarrow> build_fir s m n)"

definition feedback_packets :: "int \<Rightarrow> int \<Rightarrow> feedback \<Rightarrow> rtcp_packet list" where
  "feedback_packets s m fb =
     (case fb of
        No_Feedback \<Rightarrow> []
      | Pli \<Rightarrow> [\<lparr> rc_packet_type = 206, rc_fmt = 1, rc_payload = word32 s @ word32 m \<rparr>]
      | Fir n \<Rightarrow> [\<lparr> rc_packet_type = 206, rc_fmt = 4,
                   rc_payload = word32 s @ be32 0 @ word32 m @ [n AND 0xFF, 0, 0, 0] \<rparr>])"

lemma feedback_parsed:
  "\<exists>bs. feedback_bytes s m fb = Inr bs \<and>
    (bs = [] \<and> feedback_packets s m fb = [] \<or> parse_compound bs = Inr (feedback_packets s m fb))"
proof (cases fb)
  case Pli
  obtain bs where bs: "rtcp_header 1 206 (word32 s @ word32 m) = Inr bs"
    using header_total [of "word32 s @ word32 m"] by auto
  note parsed = parse_rtcp_packet(1) [OF bs, of "[]"] parse_rtcp_packet(2,3) [OF bs]
  show ?thesis
    using parsed bs
    by (auto simp: Pli feedback_bytes_def feedback_packets_def build_pli_def parse_compound_def
        validate_feedback_payload_def)
next
  case (Fir n)
  let ?pl = "word32 s @ be32 0 @ word32 m @ [n AND 0xFF, 0, 0, 0]"
  obtain bs where bs: "rtcp_header 4 206 ?pl = Inr bs"
    using header_total [of ?pl] by auto
  have "u32_at ?pl 4 = 0"
    using u32_skip_words(1) [of s _ 0] u32_be32 by simp
  then have "validate_feedback_payload 206 4 ?pl = Inr ()"
    by (simp add: validate_feedback_payload_def)
  then show ?thesis
    using parse_rtcp_packet(1) [OF bs, of "[]"] parse_rtcp_packet(2,3) [OF bs] bs
    by (auto simp: Fir feedback_bytes_def feedback_packets_def build_fir_def parse_compound_def)
qed (simp add: feedback_bytes_def feedback_packets_def)

text \<open>C22: the compound datagram a video receiver sends, whatever the counters and the feedback, is
  read back by the parser as a receiver report, the canonical name and the feedback; the fields of
  the report are the counters modulo their width, and the cumulative loss comes back as the signed
  number, clamped to 24 bits.\<close>

theorem receiver_compound_is_read_back:
  "\<exists>fb_bytes bs report cname.
     feedback_bytes s m fb = Inr fb_bytes \<and>
     build_receiver_compound s m rx fb_bytes = Inr bs \<and>
     parse_compound bs = Inr (
       \<lparr> rc_packet_type = 201, rc_fmt = 1, rc_payload = report \<rparr>
       # \<lparr> rc_packet_type = 202, rc_fmt = 1, rc_payload = cname \<rparr>
       # feedback_packets s m fb) \<and>
     reads_back s m rx report"
proof -
  obtain fbs where fbs: "feedback_bytes s m fb = Inr fbs"
    "fbs = [] \<and> feedback_packets s m fb = [] \<or> parse_compound fbs = Inr (feedback_packets s m fb)"
    using feedback_parsed by blast
  show ?thesis
    using receiver_compound_parsed [OF fbs(2), of s m rx] fbs(1) report_reads_back by blast
qed

end
