(* ===== verification/Video_View.thy ===== *)
theory Video_View
  imports H264_Roundtrip Jpeg_Rtp Video_Rtcp
begin

text \<open>
  \<open>custom_components/voip_stack/video_ws_view.py\<close>, the receiving side: packets go through the
  reorder window into the depacketizer of the negotiated codec, and the units it yields into the
  queue to the browser, past a gate that is closed after a loss until the next key frame.

  The local variables of the view are a record, what the session and the sockets contribute another.
  The depacketizer is a record of its methods.  A step returns, in order, the units it put into the
  queue and the losses it noticed.
\<close>

section \<open>The state of the view\<close>

record ('s, 'u) codec =
  cd_push :: "rtp_packet \<Rightarrow> 's \<Rightarrow> 'u option \<times> 's"
  cd_dropped :: "'s \<Rightarrow> int"
  cd_key_frame :: "'u \<Rightarrow> bool"

definition h264_codec :: "(h264_depacketizer, h264_unit) codec" where
  "h264_codec = \<lparr> cd_push = h264_push, cd_dropped = hd_dropped, cd_key_frame = au_key_frame \<rparr>"

definition vp8_codec :: "(vp8_depacketizer, video_unit) codec" where
  "vp8_codec = \<lparr> cd_push = vp8_push, cd_dropped = vd_dropped, cd_key_frame = vu_key_frame \<rparr>"

definition jpeg_codec :: "(jpeg_depacketizer, video_unit) codec" where
  "jpeg_codec = \<lparr> cd_push = jpeg_push, cd_dropped = jd_dropped, cd_key_frame = vu_key_frame \<rparr>"

definition VIDEO_ACCESS_UNIT_QUEUE :: nat where "VIDEO_ACCESS_UNIT_QUEUE = 12"

text \<open>\<open>vs_interval\<close> is one second in the clock's ticks; \<open>vs_send_ok\<close> whether the RTCP
  socket takes a datagram.\<close>

record view_session =
  vs_transcoding :: bool
  vs_held :: bool
  vs_rtcp_open :: bool
  vs_send_ok :: bool
  vs_ssrc :: int
  vs_latched_ssrc :: "int option"
  vs_feedback :: "string list"
  vs_interval :: int

record ('s, 'u) video_view =
  vv_depacketizer :: "'s option"
  vv_reorder :: "rtp_packet reorder_buffer"
  vv_input_lost :: int
  vv_needs_key :: bool
  vv_units :: "'u list"
  vv_tracker :: "int option"
  vv_highest :: int
  vv_last_feedback :: int
  vv_requests :: int
  vv_rtcp_sent :: "int list list"
  vv_drop_error :: int
  vv_queue_drops :: int
  vv_units_rx :: int

definition new_view :: "'s option \<Rightarrow> int \<Rightarrow> int \<Rightarrow> ('s, 'u) video_view" where
  "new_view depacketizer delay packets =
     \<lparr> vv_depacketizer = depacketizer, vv_reorder = new_reorder_buffer delay packets,
       vv_input_lost = 0, vv_needs_key = True, vv_units = [], vv_tracker = None, vv_highest = 0,
       vv_last_feedback = 0, vv_requests = 0, vv_rtcp_sent = [], vv_drop_error = 0,
       vv_queue_drops = 0, vv_units_rx = 0 \<rparr>"

datatype 'u view_outcome = Lost | Put 'u

section \<open>Key frame requests\<close>

definition feedback_packet ::
  "view_session \<Rightarrow> ('s, 'u) video_view \<Rightarrow> int \<Rightarrow> (exn + int list) option" where
  "feedback_packet vs v latched =
     (if ''nack pli'' \<in> set (vs_feedback vs) then Some (build_pli (vs_ssrc vs) latched)
      else if ''ccm fir'' \<in> set (vs_feedback vs)
        then Some (build_fir (vs_ssrc vs) latched (vv_requests v + 1))
      else None)"

text \<open>No call in it can fail, since the feedback is built by the module itself
  (\<open>receiver_compound_is_read_back\<close>); an error would leave the state as it is.\<close>

definition request_key_frame ::
  "view_session \<Rightarrow> int \<Rightarrow> ('s, 'u) video_view \<Rightarrow> ('s, 'u) video_view" where
  "request_key_frame vs now v =
     (if vs_held vs \<or> \<not> vs_rtcp_open vs \<or> now - vv_last_feedback v < vs_interval vs then v
      else
        case vs_latched_ssrc vs of
          None \<Rightarrow> v
        | Some latched \<Rightarrow>
            case feedback_packet vs v latched of
              None \<Rightarrow> v
            | Some packet \<Rightarrow>
                case bindE packet (build_receiver_compound (vs_ssrc vs) latched
                  \<lparr> rx_fraction_lost = 0,
                    rx_cumulative_lost =
                      (if vs_transcoding vs then vv_input_lost v else rb_lost (vv_reorder v)),
                    rx_highest_sequence = vv_highest v, rx_jitter = 0 \<rparr>) of
                  Inl _ \<Rightarrow> v
                | Inr raw \<Rightarrow>
                    if \<not> vs_send_ok vs then v\<lparr> vv_last_feedback := now \<rparr>
                    else v\<lparr> vv_rtcp_sent := vv_rtcp_sent v @ [raw], vv_last_feedback := now,
                            vv_requests := vv_requests v + 1 \<rparr>)"

section \<open>Units to the browser\<close>

definition queue_access_unit ::
  "('s, 'u) codec \<Rightarrow> view_session \<Rightarrow> 'u \<Rightarrow> int \<Rightarrow> ('s, 'u) video_view \<Rightarrow>
   'u view_outcome list \<times> ('s, 'u) video_view" where
  "queue_access_unit cd vs u now v =
     (if length (vv_units v) \<ge> VIDEO_ACCESS_UNIT_QUEUE then
        let n = int (length (vv_units v));
            v1 = v\<lparr> vv_units := [], vv_queue_drops := vv_queue_drops v + n,
                    vv_drop_error := vv_drop_error v + n \<rparr>
        in if \<not> cd_key_frame cd u then
             ([Lost], request_key_frame vs now
                (v1\<lparr> vv_needs_key := True, vv_queue_drops := vv_queue_drops v1 + 1,
                     vv_drop_error := vv_drop_error v1 + 1 \<rparr>))
           else ([Put u], v1\<lparr> vv_needs_key := False, vv_units := [u] \<rparr>)
      else ([Put u], v\<lparr> vv_units := vv_units v @ [u] \<rparr>))"

text \<open>What becomes of a unit the depacketizer has yielded: the gate, then the queue.\<close>

definition deliver_unit ::
  "('s, 'u) codec \<Rightarrow> view_session \<Rightarrow> 'u \<Rightarrow> int \<Rightarrow> ('s, 'u) video_view \<Rightarrow>
   'u view_outcome list \<times> ('s, 'u) video_view" where
  "deliver_unit cd vs u now v =
     (if vv_needs_key v \<and> \<not> cd_key_frame cd u
      then ([], request_key_frame vs now (v\<lparr> vv_drop_error := vv_drop_error v + 1 \<rparr>))
      else
        let v1 = (if cd_key_frame cd u then v\<lparr> vv_needs_key := False \<rparr> else v)
        in apsnd (\<lambda>v2. v2\<lparr> vv_units_rx := vv_units_rx v2 + 1 \<rparr>) (queue_access_unit cd vs u now v1))"

definition observe_packet :: "view_session \<Rightarrow> rtp_packet \<Rightarrow> ('s, 'u) video_view \<Rightarrow> ('s, 'u) video_view" where
  "observe_packet vs p v =
     (if vs_transcoding vs then v
      else let tracker = observe (sequence p) (vv_tracker v)
           in v\<lparr> vv_tracker := tracker, vv_highest := highest_sequence tracker \<rparr>)"

definition consume_ordered ::
  "('s, 'u) codec \<Rightarrow> view_session \<Rightarrow> rtp_packet \<Rightarrow> int \<Rightarrow> ('s, 'u) video_view \<Rightarrow>
   'u view_outcome list \<times> ('s, 'u) video_view" where
  "consume_ordered cd vs p now v =
     (let v1 = observe_packet vs p v
      in case vv_depacketizer v1 of
           None \<Rightarrow> ([], v1\<lparr> vv_drop_error := vv_drop_error v1 + 1 \<rparr>)
         | Some d \<Rightarrow>
             (case cd_push cd p d of
                (result, d') \<Rightarrow>
                  let dropped = cd_dropped cd d' > cd_dropped cd d;
                      v2 = v1\<lparr> vv_depacketizer := Some d' \<rparr>;
                      v3 = (if dropped then request_key_frame vs now (v2\<lparr> vv_needs_key := True \<rparr>)
                            else v2);
                      losses = (if dropped then [Lost] else [])
                  in case result of
                       None \<Rightarrow> (losses, v3)
                     | Some u \<Rightarrow> apfst ((@) losses) (deliver_unit cd vs u now v3)))"

fun consume_all ::
  "('s, 'u) codec \<Rightarrow> view_session \<Rightarrow> rtp_packet list \<Rightarrow> int \<Rightarrow> ('s, 'u) video_view \<Rightarrow>
   'u view_outcome list \<times> ('s, 'u) video_view" where
  "consume_all cd vs [] now v = ([], v)"
| "consume_all cd vs (p # ps) now v =
     (case consume_ordered cd vs p now v of
        (out, v') \<Rightarrow> apfst ((@) out) (consume_all cd vs ps now v'))"

section \<open>Packets and timeouts\<close>

text \<open>What the window hands over is consumed, and only then a loss it has counted closes the gate.
  Between the push and the end of the loop the counter of the window has its new value.  A key frame is asked for then,
  except after a packet from the transcoder: its input side asks for itself.\<close>

definition take_ordered ::
  "('s, 'u) codec \<Rightarrow> view_session \<Rightarrow> bool \<Rightarrow> int \<Rightarrow> rtp_packet list \<times> rtp_packet reorder_buffer \<Rightarrow>
   ('s, 'u) video_view \<Rightarrow> 'u view_outcome list \<times> ('s, 'u) video_view" where
  "take_ordered cd vs request now ordered v =
     (let lost_before = rb_lost (vv_reorder v);
          (out, v1) = consume_all cd vs (fst ordered) now (v\<lparr> vv_reorder := snd ordered \<rparr>)
      in if rb_lost (vv_reorder v1) > lost_before
         then (out @ [Lost], (if request then request_key_frame vs now else id) (v1\<lparr> vv_needs_key := True \<rparr>))
         else (out, v1))"

definition receive_packet ::
  "('s, 'u) codec \<Rightarrow> view_session \<Rightarrow> rtp_packet \<Rightarrow> int \<Rightarrow> ('s, 'u) video_view \<Rightarrow>
   'u view_outcome list \<times> ('s, 'u) video_view" where
  "receive_packet cd vs p now v =
     take_ordered cd vs (\<not> vs_transcoding vs) now (push_packet (sequence p) p now (vv_reorder v)) v"

definition receive_timeout ::
  "('s, 'u) codec \<Rightarrow> view_session \<Rightarrow> int \<Rightarrow> ('s, 'u) video_view \<Rightarrow>
   'u view_outcome list \<times> ('s, 'u) video_view" where
  "receive_timeout cd vs now v =
     take_ordered cd vs True now (flush_packets now False (vv_reorder v)) v"

text \<open>The task that sends the units to the browser takes them from the queue one by one.\<close>

definition take_unit :: "('s, 'u) video_view \<Rightarrow> 'u option \<times> ('s, 'u) video_view" where
  "take_unit v =
     (case vv_units v of [] \<Rightarrow> (None, v) | u # us \<Rightarrow> (Some u, v\<lparr> vv_units := us \<rparr>))"

datatype view_event = Packet rtp_packet int | Timeout int | Sent

definition view_step ::
  "('s, 'u) codec \<Rightarrow> view_session \<Rightarrow> view_event \<Rightarrow> ('s, 'u) video_view \<Rightarrow>
   'u view_outcome list \<times> ('s, 'u) video_view" where
  "view_step cd vs ev v =
     (case ev of
        Packet p now \<Rightarrow> receive_packet cd vs p now v
      | Timeout now \<Rightarrow> receive_timeout cd vs now v
      | Sent \<Rightarrow> ([], snd (take_unit v)))"

fun view_run ::
  "('s, 'u) codec \<Rightarrow> view_session \<Rightarrow> view_event list \<Rightarrow> ('s, 'u) video_view \<Rightarrow>
   'u view_outcome list \<times> ('s, 'u) video_view" where
  "view_run cd vs [] v = ([], v)"
| "view_run cd vs (ev # evs) v =
     (case view_step cd vs ev v of (out, v') \<Rightarrow> apfst ((@) out) (view_run cd vs evs v'))"

section \<open>The gate\<close>

text \<open>After a loss, and at the start, the next unit put into the queue is a key frame.\<close>

fun resumes_on_key :: "('u \<Rightarrow> bool) \<Rightarrow> bool \<Rightarrow> 'u view_outcome list \<Rightarrow> bool" where
  "resumes_on_key key shut [] \<longleftrightarrow> True"
| "resumes_on_key key shut (Lost # outs) \<longleftrightarrow> resumes_on_key key True outs"
| "resumes_on_key key shut (Put u # outs) \<longleftrightarrow> (shut \<longrightarrow> key u) \<and> resumes_on_key key False outs"

definition gate_after :: "bool \<Rightarrow> 'u view_outcome list \<Rightarrow> bool" where
  "gate_after shut outs = (if outs = [] then shut else last outs = Lost)"

lemma resumes_append:
  "resumes_on_key key shut (xs @ ys) \<longleftrightarrow>
   resumes_on_key key shut xs \<and> resumes_on_key key (gate_after shut xs) ys"
  by (induction key shut xs rule: resumes_on_key.induct) (auto simp: gate_after_def)

lemma gate_after_append: "gate_after shut (xs @ ys) = gate_after (gate_after shut xs) ys"
  by (simp add: gate_after_def)

text \<open>A step keeps to the gate: its outcomes resume on a key frame when the flag was set, and the
  flag is set whenever the outcomes leave the gate closed.\<close>

definition keeps_gate ::
  "('s, 'u) codec \<Rightarrow> ('s, 'u) video_view \<Rightarrow> 'u view_outcome list \<times> ('s, 'u) video_view \<Rightarrow> bool" where
  "keeps_gate cd v r \<longleftrightarrow>
     (\<forall>shut. (shut \<longrightarrow> vv_needs_key v) \<longrightarrow>
        resumes_on_key (cd_key_frame cd) shut (fst r) \<and>
        (gate_after shut (fst r) \<longrightarrow> vv_needs_key (snd r)))"

lemma keeps_gate_step:
  assumes "keeps_gate cd v (out, v1)" "keeps_gate cd v1 r"
  shows "keeps_gate cd v (apfst ((@) out) r)"
  using assms unfolding keeps_gate_def fst_apfst snd_apfst resumes_append gate_after_append fst_conv
    snd_conv by blast

lemma request_keeps [simp]:
  "vv_needs_key (request_key_frame vs now v) = vv_needs_key v"
  "vv_units (request_key_frame vs now v) = vv_units v"
  "vv_reorder (request_key_frame vs now v) = vv_reorder v"
  "vv_depacketizer (request_key_frame vs now v) = vv_depacketizer v"
  by (simp_all add: request_key_frame_def split: option.split sum.split del: bindE_simps)

lemma deliver_gate: "keeps_gate cd v (deliver_unit cd vs u now v)"
  unfolding keeps_gate_def deliver_unit_def queue_access_unit_def gate_after_def Let_def
  by (cases "vv_needs_key v"; cases "cd_key_frame cd u"; cases "VIDEO_ACCESS_UNIT_QUEUE \<le> length (vv_units v)")
    simp_all

lemma apfst_append_Nil: "apfst ((@) []) r = r"
  by (cases r) simp

lemma keeps_gate_cong:
  "keeps_gate cd v r \<Longrightarrow> vv_needs_key v' = vv_needs_key v \<Longrightarrow> keeps_gate cd v' r"
  by (simp add: keeps_gate_def)

lemma keeps_gate_lost:
  "vv_needs_key v' \<Longrightarrow> keeps_gate cd v' r \<Longrightarrow> keeps_gate cd v (apfst ((@) [Lost]) r)"
  by (rule keeps_gate_step [of cd v "[Lost]" v']) (simp_all add: keeps_gate_def gate_after_def)

lemma keeps_gate_id: "vv_needs_key v' = vv_needs_key v \<Longrightarrow> keeps_gate cd v ([], v')"
  by (simp add: keeps_gate_def gate_after_def)

lemma consume_gate: "keeps_gate cd v (consume_ordered cd vs p now v)"
proof -
  let ?v1 = "observe_packet vs p v"
  have v1: "vv_needs_key ?v1 = vv_needs_key v"
    by (simp add: observe_packet_def Let_def)
  show ?thesis
  proof (cases "vv_depacketizer ?v1")
    case None
    then show ?thesis
      using v1 by (simp add: consume_ordered_def keeps_gate_id Let_def)
  next
    case (Some d)
    obtain result d' where push: "cd_push cd p d = (result, d')"
      by (cases "cd_push cd p d")
    define v2 where "v2 = ?v1\<lparr> vv_depacketizer := Some d' \<rparr>"
    have v2: "vv_needs_key v2 = vv_needs_key v"
      using v1 by (simp add: v2_def)
    have deliver: "keeps_gate cd w (case result of None \<Rightarrow> ([], w) | Some u \<Rightarrow> deliver_unit cd vs u now w)" for w
      by (simp add: keeps_gate_id deliver_gate split: option.split)
    define w where "w = request_key_frame vs now (v2\<lparr> vv_needs_key := True \<rparr>)"
    have "consume_ordered cd vs p now v = (if cd_dropped cd d' > cd_dropped cd d
        then apfst ((@) [Lost]) (case result of None \<Rightarrow> ([], w) | Some u \<Rightarrow> deliver_unit cd vs u now w)
        else (case result of None \<Rightarrow> ([], v2) | Some u \<Rightarrow> deliver_unit cd vs u now v2))"
      by (simp add: consume_ordered_def Let_def Some push v2_def w_def apfst_append_Nil
          split: option.split)
    then show ?thesis
      using keeps_gate_lost [OF _ deliver, of w] keeps_gate_cong [OF deliver [of v2], of v] v2
      by (simp add: w_def)
  qed
qed

lemma consume_all_gate: "keeps_gate cd v (consume_all cd vs ps now v)"
proof (induction ps arbitrary: v)
  case (Cons p ps)
  obtain out v' where step: "consume_ordered cd vs p now v = (out, v')"
    by (cases "consume_ordered cd vs p now v")
  then have "keeps_gate cd v (out, v')"
    using consume_gate [of cd v vs p now] by simp
  from keeps_gate_step [OF this Cons.IH] show ?case
    by (simp add: step)
qed (simp add: keeps_gate_id)

lemma take_ordered_gate: "keeps_gate cd v (take_ordered cd vs request now ordered v)"
proof -
  let ?v0 = "v\<lparr> vv_reorder := snd ordered \<rparr>"
  obtain out v1 where run: "consume_all cd vs (fst ordered) now ?v0 = (out, v1)"
    by (cases "consume_all cd vs (fst ordered) now ?v0")
  then have "keeps_gate cd v (out, v1)"
    using consume_all_gate [of cd ?v0 vs "fst ordered" now] keeps_gate_cong [of cd ?v0 _ v] by simp
  then show ?thesis
    using run by (auto simp: take_ordered_def Let_def keeps_gate_def resumes_append gate_after_append
        gate_after_def)
qed

lemma view_step_gate: "keeps_gate cd v (view_step cd vs ev v)"
  by (auto simp: view_step_def receive_packet_def receive_timeout_def take_ordered_gate take_unit_def
      intro: keeps_gate_id split: view_event.split list.split)

lemma view_run_gate: "keeps_gate cd v (view_run cd vs evs v)"
proof (induction evs arbitrary: v)
  case (Cons ev evs)
  obtain out v' where step: "view_step cd vs ev v = (out, v')"
    by (cases "view_step cd vs ev v")
  then have "keeps_gate cd v (out, v')"
    using view_step_gate [of cd v vs ev] by simp
  from keeps_gate_step [OF this Cons.IH] show ?case
    by (simp add: step)
qed (simp add: keeps_gate_id)

section \<open>Properties\<close>

text \<open>C19: whatever packets arrive, with whatever losses, timeouts and stalls of the browser, a video
  view puts a key frame first into the queue to the browser, and again a key frame first after every
  loss it has noticed: a dropped unit, a gap in the window, a full queue.\<close>

theorem video_resumes_on_key_frame:
  "resumes_on_key (cd_key_frame cd) True (fst (view_run cd vs evs (new_view d delay packets)))"
  using view_run_gate [of cd "new_view d delay packets" vs evs]
  by (simp add: keeps_gate_def new_view_def)

text \<open>A loss the window has skipped is noticed too late for the packets behind the gap, which are
  consumed before the gate closes: of three VP8 frames of one packet each, the second is lost, and
  the third, a delta frame that depends on it, goes to the browser.\<close>

definition delta_demo_session :: view_session where
  "delta_demo_session = \<lparr> vs_transcoding = False, vs_held = False, vs_rtcp_open = False,
     vs_send_ok = True, vs_ssrc = 1, vs_latched_ssrc = Some 2, vs_feedback = [], vs_interval = 1000 \<rparr>"

definition vp8_packet :: "int \<Rightarrow> int \<Rightarrow> rtp_packet" where
  "vp8_packet s b = \<lparr> payload_type = 96, sequence = s, timestamp = s * 3000, ssrc = 2,
     payload = [0x10, b], marker = True \<rparr>"

lemma vp8_single:
  assumes "vv_depacketizer v = Some d" "idle_vp8 d" "vd_dropped d = 0"
    and "\<not> vv_needs_key v \<or> b AND 1 = 0" "length (vv_units v) < 12"
  shows "\<exists>d' v'. consume_ordered vp8_codec delta_demo_session (vp8_packet s b) now v
      = ([Put (vp8_unit [b] (s * 3000) (b AND 1 = 0))], v') \<and>
    vv_depacketizer v' = Some d' \<and> idle_vp8 d' \<and> vd_dropped d' = 0 \<and> \<not> vv_needs_key v' \<and>
    vv_reorder v' = vv_reorder v \<and> length (vv_units v') = Suc (length (vv_units v))"
  using assms
  by (auto simp: consume_ordered_def observe_packet_def delta_demo_session_def vp8_codec_def vp8_packet_def
      vp8_push_def vp8_start_def vp8_collect_def vp8_enter_def idle_vp8_def vp8_payload_plain vp8_unit_def
      MAX_ACCESS_UNIT_FRAGMENTS_def MAX_ACCESS_UNIT_BYTES_def deliver_unit_def queue_access_unit_def
      VIDEO_ACCESS_UNIT_QUEUE_def Let_def)

lemma delta_after_lost_frame_is_queued:
  "fst (view_run vp8_codec delta_demo_session
      [Packet (vp8_packet 1 0) 0, Packet (vp8_packet 3 1) 40, Timeout 60]
      (new_view (Some new_vp8_depacketizer) 20 128)) =
   [Put (vp8_unit [0] 3000 True), Put (vp8_unit [1] 9000 False), Lost]"
proof -
  let ?v0 = "new_view (Some new_vp8_depacketizer) 20 128 :: (vp8_depacketizer, video_unit) video_view"
    and ?cd = vp8_codec and ?vs = delta_demo_session
  have vp: "sequence (vp8_packet s b) = s" for s b
    by (simp add: vp8_packet_def)
  define b1 where "b1 = snd (push_packet 1 (vp8_packet 1 0) 0 (new_reorder_buffer 20 128))"
  define b2 where "b2 = snd (push_packet 3 (vp8_packet 3 1) 40 b1)"
  define b3 where "b3 = snd (flush_packets 60 False b2)"
  have b1: "push_packet 1 (vp8_packet 1 0) 0 (new_reorder_buffer 20 128) = ([vp8_packet 1 0], b1)"
    "rb_lost b1 = 0"
    unfolding b1_def by code_simp+
  have b2: "push_packet 3 (vp8_packet 3 1) 40 b1 = ([], b2)" "rb_lost b2 = 0"
    unfolding b2_def b1_def by code_simp+
  have b3: "flush_packets 60 False b2 = ([vp8_packet 3 1], b3)" "rb_lost b3 = 1"
    unfolding b3_def b2_def b1_def by code_simp+
  have v0: "vv_depacketizer ?v0 = Some new_vp8_depacketizer" "idle_vp8 new_vp8_depacketizer"
    "vd_dropped new_vp8_depacketizer = 0" "vv_units ?v0 = []" "vv_reorder ?v0 = new_reorder_buffer 20 128"
    by (simp_all add: new_view_def idle_vp8_def new_vp8_depacketizer_def)
  obtain d1 v1 where v1: "consume_ordered ?cd ?vs (vp8_packet 1 0) 0 (?v0\<lparr> vv_reorder := b1 \<rparr>)
      = ([Put (vp8_unit [0] 3000 True)], v1)" "vv_depacketizer v1 = Some d1" "idle_vp8 d1"
      "vd_dropped d1 = 0" "\<not> vv_needs_key v1" "vv_reorder v1 = b1" "length (vv_units v1) = 1"
    using vp8_single [of "?v0\<lparr> vv_reorder := b1 \<rparr>" new_vp8_depacketizer 0 1 0] v0 by auto
  obtain v3 where v3: "consume_ordered ?cd ?vs (vp8_packet 3 1) 60 (v1\<lparr> vv_reorder := b3 \<rparr>)
      = ([Put (vp8_unit [1] 9000 False)], v3)" "vv_reorder v3 = b3"
    using vp8_single [of "v1\<lparr> vv_reorder := b3 \<rparr>" d1 1 3 60] v1 by auto
  have step1: "view_step ?cd ?vs (Packet (vp8_packet 1 0) 0) ?v0 = ([Put (vp8_unit [0] 3000 True)], v1)"
    using v0 v1 b1 by (simp add: view_step_def receive_packet_def take_ordered_def vp new_reorder_buffer_def)
  have step2: "view_step ?cd ?vs (Packet (vp8_packet 3 1) 40) v1 = ([], v1\<lparr> vv_reorder := b2 \<rparr>)"
    using v1 b1 b2 by (simp add: view_step_def receive_packet_def take_ordered_def vp)
  have step3: "fst (view_step ?cd ?vs (Timeout 60) (v1\<lparr> vv_reorder := b2 \<rparr>))
      = [Put (vp8_unit [1] 9000 False), Lost]"
    using v3 b2 b3 by (simp add: view_step_def receive_timeout_def take_ordered_def)
  show ?thesis
    using step3 by (simp add: step1 step2 split: prod.split)
qed

end
