(* ===== verification/Sip_Auth.thy ===== *)
theory Sip_Auth
  imports Sip_Uri Roster
begin

text \<open>
  \<open>custom_components/voip_stack/sip_auth.py\<close>: the parameters of a digest challenge or of digest
  credentials, and the credentials a client sends in answer to a challenge.

  MD5 is a parameter, a function on texts (\<open>sip_digest_md5\<close> with its hexadecimal rendering), and so is
  the random client nonce.  The regular expression \<open>_PARAM_RE\<close> is written out: a name cannot hold the equals
  sign behind it and a quoted value has one way to be read, so that its search never has a choice.
\<close>

section \<open>Parameters\<close>

definition param_name_char :: "char \<Rightarrow> bool" where
  "param_name_char c \<longleftrightarrow> is_alnum c \<or> c = CHR ''_'' \<or> c = CHR ''-''"

text \<open>The text of a quoted string whose opening quote has been read, and what stands behind it.\<close>

fun quoted_split :: "string \<Rightarrow> (string \<times> string) option" where
  "quoted_split [] = None"
| "quoted_split (c # s) =
     (if c = DQUOTE then Some ([], s)
      else if c = BSLASH then
        (case s of [] \<Rightarrow> None
         | d # s' \<Rightarrow> if d = LF then None else map_option (apfst ((@) [c, d])) (quoted_split s'))
      else map_option (apfst ((#) c)) (quoted_split s))"

definition bare_char :: "char \<Rightarrow> bool" where
  "bare_char c \<longleftrightarrow> c \<noteq> CHR '','' \<and> \<not> is_space c"

definition param_value :: "string \<Rightarrow> (string \<times> string) option" where
  "param_value s =
     (case (if startswith s [DQUOTE] then quoted_split (tl s) else None) of
        Some r \<Rightarrow> Some r
      | None \<Rightarrow>
          if takeWhile bare_char s = [] then None
          else Some (takeWhile bare_char s, dropWhile bare_char s))"

text \<open>One match of the expression at the start of a text: name, value, rest.\<close>

definition param_here :: "string \<Rightarrow> (string \<times> string \<times> string) option" where
  "param_here s =
     (let name = takeWhile param_name_char s; behind = dropWhile param_name_char s in
      if name = [] \<or> \<not> startswith behind ''='' then None
      else map_option (Pair name) (param_value (tl behind)))"

lemma quoted_split_length: "quoted_split s = Some (v, r) \<Longrightarrow> length r < length s"
  by (induction s arbitrary: v r rule: quoted_split.induct) (fastforce split: if_splits list.splits)+

lemma param_value_length: "param_value s = Some (v, r) \<Longrightarrow> length r \<le> length s"
  by (auto simp: param_value_def startswith_def dest!: quoted_split_length split: if_splits option.splits
      intro: length_dropWhile_le)

lemma param_here_length: "param_here s = Some (k, v, r) \<Longrightarrow> length r < length s"
  using length_dropWhile_le [of param_name_char s]
  by (cases "dropWhile param_name_char s")
    (auto simp: param_here_def Let_def startswith_def split: if_splits dest!: param_value_length)

text \<open>\<open>_PARAM_RE.finditer\<close>.\<close>

function find_params :: "string \<Rightarrow> (string \<times> string) list" where
  "find_params [] = []"
| "find_params (c # s) =
     (case param_here (c # s) of
        Some (key, val, r) \<Rightarrow> (key, val) # find_params r
      | None \<Rightarrow> find_params s)"
  by pat_completeness auto
termination by (relation "measure length") (auto dest: param_here_length)

declare find_params.simps(2) [simp del]

fun unescape_quotes :: "string \<Rightarrow> string" where
  "unescape_quotes (c # d # s) =
     (if c = BSLASH \<and> d = DQUOTE then DQUOTE # unescape_quotes s else c # unescape_quotes (d # s))"
| "unescape_quotes s = s"

definition parse_digest_challenge :: "string \<Rightarrow> (string \<times> string) list" where
  "parse_digest_challenge value =
     (let raw0 = strip value;
          raw = (if startswith (lower raw0) ''digest '' then strip (drop 7 raw0) else raw0)
      in foldl (\<lambda>out (key, val). md_set out (lower key) (unescape_quotes val)) [] (find_params raw))"

text \<open>\<open>params.get(key, default)\<close>.\<close>

definition param_or :: "(string \<times> string) list \<Rightarrow> string \<Rightarrow> string \<Rightarrow> string" where
  "param_or params key d = (case assoc params key of Some v \<Rightarrow> v | None \<Rightarrow> d)"

section \<open>Credentials\<close>

definition colon :: "string \<Rightarrow> string \<Rightarrow> string" where
  "colon a b = a @ '':'' @ b"

definition render_param :: "string \<times> string \<Rightarrow> string" where
  "render_param p =
     (case p of (key, val) \<Rightarrow>
        if key \<in> {''algorithm'', ''qop'', ''nc''} then key @ ''='' @ val
        else key @ ''='' @ [DQUOTE] @ filter (\<lambda>c. c \<noteq> DQUOTE) val @ [DQUOTE])"

definition build_digest_authorization ::
  "(string \<Rightarrow> string) \<Rightarrow> string \<Rightarrow> string \<Rightarrow> string \<Rightarrow> string \<Rightarrow> string \<Rightarrow> string \<Rightarrow> string \<Rightarrow> exn + string"
where
  "build_digest_authorization md5 cnonce challenge_header username password meth uri auth_username =
     (let challenge = parse_digest_challenge challenge_header;
          realm = param_or challenge ''realm'' [];
          nonce = param_or challenge ''nonce'' [];
          algorithm = upper (or_else (param_or challenge ''algorithm'' []) ''MD5'');
          qops = filter (\<lambda>p. p \<noteq> []) (map strip (split_on (CHR '','') (param_or challenge ''qop'' [])));
          digest_user = or_else auth_username username
      in
      if qops \<noteq> [] \<and> ''auth'' \<notin> set qops then Inl ValueError
      else if algorithm \<notin> {''MD5'', []} then Inl ValueError
      else
      let ha1 = md5 (colon digest_user (colon realm password));
          ha2 = md5 (colon (upper meth) uri);
          nc = ''00000001'';
          head = [(''username'', digest_user), (''realm'', realm), (''nonce'', nonce), (''uri'', uri)];
          params =
            (if qops \<noteq> [] then
               head @ [(''response'', md5 (colon ha1 (colon nonce (colon nc (colon cnonce (colon ''auth'' ha2)))))),
                       (''algorithm'', ''MD5''), (''qop'', ''auth''), (''nc'', nc), (''cnonce'', cnonce)]
             else
               head @ [(''response'', md5 (colon ha1 (colon nonce ha2))), (''algorithm'', ''MD5'')])
      in Inr (''Digest '' @ join '', '' (map render_param params)))"

section \<open>Rendered parameters are read back\<close>

text \<open>A parameter as both sides write it, quoted or not.\<close>

definition item_text :: "bool \<times> string \<times> string \<Rightarrow> string" where
  "item_text p = (case p of (quoted, key, val) \<Rightarrow>
     key @ ''='' @ (if quoted then DQUOTE # val @ [DQUOTE] else val))"

definition plain_text :: "string \<Rightarrow> bool" where
  "plain_text s \<longleftrightarrow> DQUOTE \<notin> set s \<and> BSLASH \<notin> set s"

definition good_item :: "bool \<times> string \<times> string \<Rightarrow> bool" where
  "good_item p = (case p of (quoted, key, val) \<Rightarrow>
     key \<noteq> [] \<and> list_all param_name_char key \<and> lower key = key \<and> plain_text val
     \<and> (quoted \<or> val \<noteq> [] \<and> list_all bare_char val))"

lemma quoted_split_plain: "plain_text v \<Longrightarrow> quoted_split (v @ DQUOTE # r) = Some (v, r)"
  by (induction v) (auto simp: plain_text_def)

lemma unescape_plain: "plain_text v \<Longrightarrow> unescape_quotes v = v"
  by (induction v rule: unescape_quotes.induct) (auto simp: plain_text_def)

lemma takeWhile_list_all: "list_all P xs \<Longrightarrow> takeWhile P (xs @ ys) = xs @ takeWhile P ys"
  by (induction xs) auto

lemma dropWhile_list_all: "list_all P xs \<Longrightarrow> dropWhile P (xs @ ys) = dropWhile P ys"
  by (induction xs) auto

lemma param_here_item:
  assumes "good_item p" and r: "r = [] \<or> (\<exists>r'. r = CHR '','' # r')"
  shows "param_here (item_text p @ r) = Some (fst (snd p), snd (snd p), r)"
proof -
  obtain quoted key val where p: "p = (quoted, key, val)" by (cases p)
  have key: "key \<noteq> []" "list_all param_name_char key" and plain: "plain_text val"
    and bare: "quoted \<or> val \<noteq> [] \<and> list_all bare_char val"
    using assms(1) by (auto simp: p good_item_def)
  let ?v = "if quoted then DQUOTE # val @ [DQUOTE] else val"
  have "param_value (?v @ r) = Some (val, r)"
  proof (cases quoted)
    case True
    then show ?thesis using plain
      by (simp add: param_value_def startswith_def quoted_split_plain)
  next
    case False
    then have val: "val \<noteq> []" "list_all bare_char val" using bare by auto
    have "takeWhile bare_char r = []" "dropWhile bare_char r = r"
      using r by (auto simp: bare_char_def)
    then have "takeWhile bare_char (val @ r) = val" "dropWhile bare_char (val @ r) = r"
      using val(2) by (simp_all add: takeWhile_list_all dropWhile_list_all)
    moreover have "\<not> startswith (val @ r) [DQUOTE]"
      using val plain by (cases val) (auto simp: startswith_def plain_text_def)
    ultimately show ?thesis using False val by (simp add: param_value_def)
  qed
  moreover have "\<not> param_name_char (CHR ''='')"
    by (simp add: param_name_char_def is_alnum_def is_digit_def is_upper_def is_lower_def)
  ultimately show ?thesis using key
    by (simp add: p param_here_def item_text_def takeWhile_list_all dropWhile_list_all startswith_def)
qed

lemma find_params_skip: "\<not> param_name_char c \<Longrightarrow> find_params (c # s) = find_params s"
  by (simp add: find_params.simps(2) param_here_def)

lemma find_params_found:
  assumes "param_here s = Some (key, val, r)"
  shows "find_params s = (key, val) # find_params r"
  using assms by (cases s) (auto simp: find_params.simps(2) param_here_def)

lemma find_params_items:
  assumes "list_all good_item ps"
  shows "find_params (join '', '' (map item_text ps)) = map snd ps"
  using assms
proof (induction ps rule: induct_list012)
  case (2 p)
  then show ?case using param_here_item [of p "[]"]
    by (auto dest: find_params_found)
next
  case (3 p q ps)
  have comma: "\<not> param_name_char (CHR '','')" "\<not> param_name_char (CHR '' '')"
    by (simp_all add: param_name_char_def is_alnum_def is_digit_def is_upper_def is_lower_def)
  have "param_here (item_text p @ '', '' @ join '', '' (map item_text (q # ps)))
      = Some (fst (snd p), snd (snd p), '', '' @ join '', '' (map item_text (q # ps)))"
    using 3 by (intro param_here_item) auto
  then show ?case using 3 comma by (simp add: find_params_found find_params_skip)
qed simp

lemma foldl_md_set_new:
  assumes "distinct (map fst (out @ ps))"
  shows "foldl (\<lambda>out (key, val). md_set out key val) out ps = out @ ps"
  using assms
proof (induction ps arbitrary: out)
  case (Cons p ps)
  have "md_set out (fst p) (snd p) = out @ [p]"
    using Cons.prems by (induction out) auto
  then show ?case using Cons by (cases p) auto
qed simp

lemma foldl_md_set_plain:
  assumes "list_all good_item ps"
  shows "foldl (\<lambda>out (key, val). md_set out (lower key) (unescape_quotes val)) out (map snd ps)
       = foldl (\<lambda>out (key, val). md_set out key val) out (map snd ps)"
  using assms by (induction ps arbitrary: out) (auto simp: good_item_def unescape_plain)

lemma item_ends:
  assumes "good_item p"
  shows "item_text p \<noteq> [] \<and> \<not> is_space (hd (item_text p)) \<and> \<not> is_space (last (item_text p))"
proof -
  obtain quoted key val where p: "p = (quoted, key, val)" by (cases p)
  have key: "key \<noteq> []" "param_name_char (hd key)"
    using assms by (auto simp: p good_item_def list_all_iff)
  then have "\<not> is_space (hd key)"
    by (auto simp: param_name_char_def is_alnum_def is_digit_def is_upper_def is_lower_def is_space_def)
  moreover have "\<not> is_space (last (item_text p))"
  proof (cases quoted)
    case True
    then show ?thesis by (simp add: p item_text_def DQUOTE_def is_space_def)
  next
    case False
    then have "val \<noteq> []" "bare_char (last val)"
      using assms by (simp_all add: p good_item_def list_all_iff)
    then show ?thesis using False by (simp add: p item_text_def bare_char_def)
  qed
  ultimately show ?thesis using key by (simp add: p item_text_def)
qed

lemma join_ends:
  assumes "ps \<noteq> []" "list_all good_item ps"
  shows "join '', '' (map item_text ps) \<noteq> [] \<and> \<not> is_space (hd (join '', '' (map item_text ps)))
    \<and> \<not> is_space (last (join '', '' (map item_text ps)))"
  using assms by (induction ps rule: induct_list012) (simp_all add: item_ends)

lemma parse_digest_items:
  assumes "ps \<noteq> []" "list_all good_item ps" "distinct (map (fst \<circ> snd) ps)"
  shows "parse_digest_challenge (''Digest '' @ join '', '' (map item_text ps)) = map snd ps"
proof -
  let ?j = "join '', '' (map item_text ps)"
  note j = join_ends [OF assms(1,2)]
  have "strip (''Digest '' @ ?j) = ''Digest '' @ ?j"
    using j by (intro strip_ends) (simp_all add: is_space_def)
  moreover have "startswith (lower (''Digest '' @ ?j)) ''digest ''"
    by (simp add: startswith_def lower_def lower_char_def is_upper_def char_of_def bit_simps)
  moreover have "strip ?j = ?j" using j strip_ends by blast
  moreover have "foldl (\<lambda>out (key, val). md_set out key val) [] (map snd ps) = map snd ps"
    using assms(3) foldl_md_set_new [of "[]" "map snd ps"] by simp
  ultimately show ?thesis
    using assms(2) by (simp add: parse_digest_challenge_def Let_def find_params_items foldl_md_set_plain)
qed

text \<open>The credentials for a challenge with \<open>qop\<close>, read back.\<close>

lemma render_param_item:
  "plain_text val \<Longrightarrow> render_param (key, val) = item_text (key \<notin> {''algorithm'', ''qop'', ''nc''}, key, val)"
  by (auto simp: render_param_def item_text_def plain_text_def filter_id_conv)

lemma credentials_read_back:
  assumes ch: "parse_digest_challenge ch
      = [(''realm'', realm), (''nonce'', nonce), (''algorithm'', ''MD5''), (''qop'', ''auth'')]"
    and plain: "plain_text user" "plain_text realm" "plain_text nonce" "plain_text uri" "plain_text cnonce"
      "\<And>x. plain_text (md5 x)"
    and user: "user \<noteq> []"
  shows "\<exists>creds. build_digest_authorization md5 cnonce ch user password meth uri [] = Inr creds
    \<and> parse_digest_challenge creds
      = [(''username'', user), (''realm'', realm), (''nonce'', nonce), (''uri'', uri),
         (''response'', md5 (colon (md5 (colon user (colon realm password)))
            (colon nonce (colon ''00000001'' (colon cnonce (colon ''auth'' (md5 (colon (upper meth) uri)))))))),
         (''algorithm'', ''MD5''), (''qop'', ''auth''), (''nc'', ''00000001''), (''cnonce'', cnonce)]"
proof -
  let ?items = "[(True, ''username'', user), (True, ''realm'', realm), (True, ''nonce'', nonce), (True, ''uri'', uri),
         (True, ''response'', md5 (colon (md5 (colon user (colon realm password)))
            (colon nonce (colon ''00000001'' (colon cnonce (colon ''auth'' (md5 (colon (upper meth) uri)))))))),
         (False, ''algorithm'', ''MD5''), (False, ''qop'', ''auth''), (False, ''nc'', ''00000001''), (True, ''cnonce'', cnonce)]"
  have literals: "plain_text ''MD5''" "plain_text ''auth''" "plain_text ''00000001''"
    by (simp_all add: plain_text_def DQUOTE_def BSLASH_def)
  have qops: "split_on (CHR '','') ''auth'' = [''auth'']" "strip ''auth'' = ''auth''"
    by code_simp+
  have alg: "upper ''MD5'' = ''MD5''"
    by code_simp
  have "build_digest_authorization md5 cnonce ch user password meth uri []
      = Inr (''Digest '' @ join '', '' (map item_text ?items))"
    using plain literals qops alg
    by (simp add: build_digest_authorization_def ch param_or_def or_else_def Let_def render_param_item)
  moreover have "list_all good_item ?items"
    using plain literals by (simp add: good_item_def) code_simp
  ultimately show ?thesis
    using parse_digest_items [of ?items] by simp
qed

end
