(* ===== verification/Sip_Registrar.thy ===== *)
theory Sip_Registrar
  imports Sip_Auth Sip_Message Complex_Main
    "HOL-Library.Product_Lexorder" "HOL-Library.List_Lexorder" "HOL-Library.Char_ord"
begin

text \<open>
  \<open>custom_components/voip_stack/sip_registrar.py\<close>: the accounts of the SIP phones that register with the
  integration, their bindings, and the digest challenges behind them.

  The registrar is a record with its dictionaries as association lists in insertion order.  A method is a
  function on it; the result of a method that can raise carries the registrar of that moment too, since
  what was stored before the exception stays.  Calls of the registration observer are the list
  \<open>sr_notified\<close>.  MD5, the random nonces and the clock are parameters: \<open>readings\<close> has one field for each
  place where a REGISTER is handled that reads the clock.

  \<open>hmac.compare_digest\<close> raises a \<open>TypeError\<close> on text that is not ASCII.  A q value is the exact number that
  its text denotes, where the interpreter keeps the nearest double.
\<close>

section \<open>Limits and numbers\<close>

definition REALM :: string where "REALM = ''voip_stack''"
definition NONCE_TTL :: real where "NONCE_TTL = 600"
definition MAX_ACTIVE_NONCES :: nat where "MAX_ACTIVE_NONCES = 256"
definition MAX_NONCE_USE_RECORDS :: nat where "MAX_NONCE_USE_RECORDS = 2048"

definition ascii_text :: "string \<Rightarrow> bool" where
  "ascii_text s \<longleftrightarrow> list_all (\<lambda>c. ord c < 128) s"

definition compare_digest :: "string \<Rightarrow> string \<Rightarrow> exn + bool" where
  "compare_digest a b = (if ascii_text a \<and> ascii_text b then Inr (a = b) else Inl TypeError)"

text \<open>\<open>int(s, 16)\<close>.\<close>

fun read_hex :: "nat \<Rightarrow> bool \<Rightarrow> string \<Rightarrow> nat option" where
  "read_hex acc d [] = (if d then Some acc else None)"
| "read_hex acc d (c # cs) =
     (case hex_val c of
        Some v \<Rightarrow> read_hex (acc * 16 + v) True cs
      | None \<Rightarrow> if c = CHR ''_'' \<and> d then read_hex acc False cs else None)"

definition read_hex_nat :: "string \<Rightarrow> nat option" where
  "read_hex_nat s =
     (if startswith (lower s) ''0x''
      then read_hex 0 False (if startswith (drop 2 s) ''_'' then drop 3 s else drop 2 s)
      else read_hex 0 False s)"

definition py_int_hex :: "string \<Rightarrow> int option" where
  "py_int_hex s =
     (case strip s of
        [] \<Rightarrow> None
      | c # cs \<Rightarrow>
          if c = CHR ''-'' then map_option (\<lambda>n. - int n) (read_hex_nat cs)
          else if c = CHR ''+'' then map_option int (read_hex_nat cs)
          else map_option int (read_hex_nat (c # cs)))"

text \<open>\<open>float(s)\<close> for a number in decimal notation; infinities and \<open>nan\<close>, which its only use refuses with
  the same exception, are \<open>None\<close> as well.\<close>

definition exponent_char :: "char \<Rightarrow> bool" where
  "exponent_char c \<longleftrightarrow> c = CHR ''e'' \<or> c = CHR ''E''"

definition signed :: "(string \<Rightarrow> real option) \<Rightarrow> string \<Rightarrow> real option" where
  "signed f s =
     (case s of
        c # cs \<Rightarrow> if c = CHR ''-'' then map_option uminus (f cs)
                  else if c = CHR ''+'' then f cs else f s
      | [] \<Rightarrow> f s)"

definition read_fraction :: "string \<Rightarrow> real option" where
  "read_fraction s =
     (if \<not> contains (CHR ''.'') s then map_option real (read_digits 0 False s)
      else
        let whole = before (CHR ''.'') s; frac = after (CHR ''.'') s;
            part = (\<lambda>x. if x = [] then Some 0 else read_digits 0 False x)
        in if whole = [] \<and> frac = [] then None
           else (case (part whole, part frac) of
                   (Some w, Some f) \<Rightarrow> Some (real w + real f / 10 ^ length (filter is_digit frac))
                 | _ \<Rightarrow> None))"

definition read_decimal :: "string \<Rightarrow> real option" where
  "read_decimal s =
     (let mantissa = read_fraction (takeWhile (\<lambda>c. \<not> exponent_char c) s);
          behind = dropWhile (\<lambda>c. \<not> exponent_char c) s
      in if behind = [] then mantissa
         else (case (mantissa, signed (\<lambda>t. map_option real (read_digits 0 False t)) (tl behind)) of
                 (Some m, Some e) \<Rightarrow>
                   Some (if 0 \<le> e then m * 10 ^ nat \<lfloor>e\<rfloor> else m / 10 ^ nat \<lfloor>- e\<rfloor>)
               | _ \<Rightarrow> None))"

definition py_float :: "string \<Rightarrow> real option" where
  "py_float s = signed read_decimal (strip s)"

text \<open>\<open>format(x, "g")\<close> for \<open>x\<close> in \<open>[0, 1]\<close>: six significant digits without trailing zeros.  The
  search for the first digit has room for 400 places, a double has less than 330.\<close>

fun first_place :: "nat \<Rightarrow> real \<Rightarrow> nat" where
  "first_place 0 x = 0"
| "first_place (Suc n) x = (if 1 \<le> x then 0 else Suc (first_place n (10 * x)))"

definition round_even :: "real \<Rightarrow> int" where
  "round_even x =
     (let f = \<lfloor>x\<rfloor>; r = x - of_int f in
      if r < 1 / 2 \<or> (r = 1 / 2 \<and> even f) then f else f + 1)"

definition strip_zeros :: "string \<Rightarrow> string" where
  "strip_zeros s = rev (dropWhile (\<lambda>c. c = CHR ''0'') (rev s))"

definition fmt_g :: "real \<Rightarrow> string" where
  "fmt_g x =
     (if x = 0 then ''0''
      else
        let p = first_place 400 x;
            m0 = nat (round_even (x * 10 ^ (p + 5)));
            (place, m) = (if m0 = 1000000 then (p - 1, 100000) else (p, m0));
            digits = strip_zeros (dec m)
        in if place = 0 then ''1''
           else if place \<le> 4 then ''0.'' @ replicate (place - 1) (CHR ''0'') @ digits
           else take 1 digits @ (if tl digits = [] then [] else CHR ''.'' # tl digits)
                @ ''e-'' @ (if place < 10 then ''0'' else []) @ dec place)"

section \<open>Accounts and bindings\<close>

record sip_account =
  ac_username :: string
  ac_display_name :: string
  ac_password :: string
  ac_enabled :: bool
  ac_extension :: string
  ac_conference_group :: string
  ac_conference_ring :: bool
  ac_ring_group :: string

definition account_roster_name :: "sip_account \<Rightarrow> string" where
  "account_roster_name a = or_else (ac_display_name a) (ac_username a)"

record sip_registration =
  sb_username :: string
  sb_contact_uri :: string
  sb_source_host :: string
  sb_source_port :: int
  sb_transport :: string
  sb_expires_at :: real
  sb_advertised :: string
  sb_user_agent :: string
  sb_call_id :: string
  sb_cseq :: int
  sb_q :: real

definition registration_snapshot :: "sip_registration \<Rightarrow> sip_registration" where
  "registration_snapshot b = b\<lparr> sb_transport := lower (sb_transport b) \<rparr>"

record register_result =
  rr_status :: int
  rr_reason :: string
  rr_headers :: headers

definition normalize_username :: "string \<Rightarrow> exn + string" where
  "normalize_username value =
     (let cleaned = strip value in
      if cleaned = [] then Inl ValueError
      else if \<not> list_all (\<lambda>ch. is_alnum ch \<or> ch \<in> set ''_-.'') cleaned then Inl ValueError
      else Inr cleaned)"

definition flag_or :: "metadata \<Rightarrow> string \<Rightarrow> bool \<Rightarrow> bool" where
  "flag_or raw key d = (case assoc raw key of None \<Rightarrow> d | Some v \<Rightarrow> truthy v)"

definition account_from_mapping :: "metadata \<Rightarrow> exn + sip_account" where
  "account_from_mapping raw =
     bindE (normalize_username (mtext (por (mget raw ''username'') (mget raw ''id''))))
       (\<lambda>username. Inr
         \<lparr> ac_username = username,
           ac_display_name = strip (mstr (por (mget raw ''display_name'')
              (por (mget raw ''name'') (MStr username)))),
           ac_password = mtext (mget raw ''password''),
           ac_enabled = flag_or raw ''enabled'' True,
           ac_extension = strip (mtext (mget raw ''extension'')),
           ac_conference_group = strip (mtext (mget raw ''conference_group'')),
           ac_conference_ring = flag_or raw ''conference_ring'' False,
           ac_ring_group = strip (mtext (mget raw ''ring_group'')) \<rparr>)"

definition dump_account :: "sip_account \<Rightarrow> metadata" where
  "dump_account a =
     [(''username'', MStr (ac_username a)), (''display_name'', MStr (ac_display_name a)),
      (''password'', MStr (ac_password a)), (''enabled'', MBool (ac_enabled a)),
      (''extension'', MStr (ac_extension a)), (''conference_group'', MStr (ac_conference_group a)),
      (''conference_ring'', MBool (ac_conference_ring a)), (''ring_group'', MStr (ac_ring_group a))]"

section \<open>Reading a REGISTER\<close>

definition extract_uri :: "string \<Rightarrow> string" where
  "extract_uri text_in =
     (let value = strip text_in in
      strip (if contains (CHR ''<'') value \<and> contains (CHR ''>'') value
             then drop (length (before (CHR ''<'') value) + 1) (before (CHR ''>'') value)
             else value))"

definition extract_register_username :: "sip_message \<Rightarrow> exn + string" where
  "extract_register_username request =
     (let hs = msg_headers request;
          user_of = (\<lambda>raw_uri. if raw_uri = [] then []
             else (case parse_sip_uri raw_uri of
                     Inl _ \<Rightarrow> []
                   | Inr parsed \<Rightarrow> if uri_user parsed = [] then [] else [uri_user parsed]));
          candidates = concat (map user_of
             [msg_uri request, extract_uri (header hs ''To''), extract_uri (header hs ''From'')]);
          auth = param_or (parse_digest_challenge (header hs ''Authorization'')) ''username'' [];
          candidates' = (if candidates = [] \<and> auth \<noteq> [] then [auth] else candidates)
      in case candidates' of [] \<Rightarrow> Inl IndexError | c # _ \<Rightarrow> normalize_username c)"

definition header_param :: "string \<Rightarrow> string \<Rightarrow> string" where
  "header_param raw name =
     (case filter (\<lambda>part. contains (CHR ''='') part \<and> lower (strip (before (CHR ''='') part)) = lower name)
             (tl (split_on (CHR '';'') raw)) of
        [] \<Rightarrow> []
      | part # _ \<Rightarrow> strip (after (CHR ''='') part))"

definition parse_expires :: "string \<Rightarrow> int \<Rightarrow> int" where
  "parse_expires raw d = (case py_int raw of Some n \<Rightarrow> max 0 (min n 86400) | None \<Rightarrow> d)"

text \<open>One Contact header as \<open>(uri, expires, header)\<close>; a header that does not parse is left out.\<close>

definition register_contact :: "int \<Rightarrow> string \<Rightarrow> (string \<times> int \<times> string) list" where
  "register_contact default_expires raw =
     (let header = strip raw in
      if header = [] then []
      else if header = ''*'' then [(''*'', 0, header)]
      else
        let uri = extract_uri header in
        if uri = [] then []
        else (case bindE (parse_sip_uri uri) uri_str of
                Inl _ \<Rightarrow> []
              | Inr uri' \<Rightarrow>
                  let contact_expires = header_param header ''expires'';
                      expires = (if contact_expires \<noteq> [] then parse_expires contact_expires default_expires
                                 else default_expires)
                  in [(uri', expires, header)]))"

definition register_contacts :: "headers \<Rightarrow> (string \<times> int \<times> string) list" where
  "register_contacts hs =
     concat (map (register_contact (parse_expires (or_else (header hs ''Expires'') ''3600'') 3600))
       (header_values hs ''Contact''))"

definition contact_identity :: "string \<Rightarrow> string" where
  "contact_identity uri = lower (strip (extract_uri uri))"

definition same_contact :: "string \<Rightarrow> string \<Rightarrow> bool" where
  "same_contact left right \<longleftrightarrow> contact_identity left = contact_identity right"

definition register_cseq :: "headers \<Rightarrow> exn + int" where
  "register_cseq hs =
     (case words (header hs ''CSeq'') of
        [number, meth] \<Rightarrow>
          if upper meth \<noteq> ''REGISTER'' then Inl ValueError
          else (case py_int number of
                  None \<Rightarrow> Inl ValueError
                | Some value \<Rightarrow> if value < 0 then Inl ValueError else Inr value)
      | _ \<Rightarrow> Inl ValueError)"

definition contact_q :: "string \<Rightarrow> exn + real" where
  "contact_q raw_contact =
     (let raw = header_param raw_contact ''q'' in
      if raw = [] then Inr 1
      else (case py_float raw of
              None \<Rightarrow> Inl ValueError
            | Some value \<Rightarrow> if 0 \<le> value \<and> value \<le> 1 then Inr value else Inl ValueError))"

definition is_transport_param :: "string \<times> string option \<Rightarrow> bool" where
  "is_transport_param p \<longleftrightarrow> lower (fst p) = ''transport''"

definition contact_for_source_flow :: "string \<Rightarrow> string \<times> int \<Rightarrow> string \<Rightarrow> exn + string" where
  "contact_for_source_flow contact_uri addr transport =
     bindE (parse_sip_uri contact_uri) (\<lambda>advertised.
       let host0 = strip (fst addr);
           source_host = (if contains (CHR '':'') host0 \<and> \<not> startswith host0 ''[''
                          then ''['' @ host0 @ '']'' else host0);
           source_port = snd addr
       in
       if source_host = [] \<or> \<not> (1 \<le> source_port \<and> source_port \<le> 65535)
         then Inl (SipError ''REGISTER source flow is invalid'')
       else
         let actual_transport = lower (strip (or_else transport ''UDP''));
             had_transport = list_ex is_transport_param (uri_params advertised);
             params = filter (\<lambda>p. \<not> is_transport_param p) (uri_params advertised);
             params' = (if had_transport \<or> actual_transport \<noteq> ''udp''
                        then params @ [(''transport'', Some actual_transport)] else params)
         in uri_str \<lparr> uri_user = uri_user advertised, uri_host = source_host,
                      uri_port = Some source_port, uri_params = params' \<rparr>)"

section \<open>The registrar\<close>

record fingerprint =
  fp_method :: "string option"
  fp_uri :: string
  fp_call_id :: string
  fp_cseq :: string
  fp_via :: "string list"
  fp_contacts :: "string list"
  fp_expires :: string
  fp_host :: string
  fp_port :: int
  fp_transport :: string

type_synonym use_key = "string \<times> string \<times> string"
type_synonym nonce_use = "use_key \<times> (int \<times> fingerprint)"
type_synonym bindings = "(string \<times> sip_registration) list"
type_synonym accounts = "(string \<times> sip_account) list"

record sip_registrar =
  sr_enabled :: bool
  sr_local_ip :: string
  sr_local_sip_port :: int
  sr_accounts :: accounts
  sr_registrations :: bindings
  sr_nonces :: "(string \<times> real) list"
  sr_nonce_uses :: "nonce_use list"
  sr_source_nonces :: "(string \<times> string) list"
  sr_last_event :: string
  sr_last_status :: int
  sr_last_reason :: string
  sr_observed :: bool
  sr_notified :: "(string \<times> bool) list"

record readings =
  rd_check :: real
  rd_challenge :: real
  rd_nonce :: real
  rd_expire :: real
  rd_bind :: real
  rd_reply :: real
  rd_contacts :: real

definition accounts_by_name :: "sip_account list \<Rightarrow> accounts" where
  "accounts_by_name as = foldl (\<lambda>d a. md_set d (lower (ac_username a)) a) [] as"

definition new_registrar :: "bool \<Rightarrow> sip_account list \<Rightarrow> string \<Rightarrow> int \<Rightarrow> bool \<Rightarrow> sip_registrar" where
  "new_registrar enabled accounts local_ip local_sip_port observed =
     \<lparr> sr_enabled = enabled, sr_local_ip = local_ip, sr_local_sip_port = local_sip_port,
       sr_accounts = accounts_by_name accounts, sr_registrations = [], sr_nonces = [],
       sr_nonce_uses = [], sr_source_nonces = [], sr_last_event = [], sr_last_status = 0,
       sr_last_reason = [], sr_observed = observed, sr_notified = [] \<rparr>"

definition notify_change :: "sip_registrar \<Rightarrow> string \<Rightarrow> bool \<Rightarrow> sip_registrar" where
  "notify_change r username registered =
     (if sr_observed r then r\<lparr> sr_notified := sr_notified r @ [(username, registered)] \<rparr> else r)"

abbreviation sb_user :: "sip_registration \<Rightarrow> string" where
  "sb_user b \<equiv> lower (sb_username b)"

text \<open>The loop of \<open>update_accounts\<close>: the bindings with their user names as assigned so far, and those
  retained or the exception.\<close>

fun retain_bindings ::
  "accounts \<Rightarrow> accounts \<Rightarrow> bindings \<Rightarrow> bindings \<times> (exn + sip_registration list)"
where
  "retain_bindings previous accounts [] = ([], Inr [])"
| "retain_bindings previous accounts ((k, b) # bs) =
     (let skip = (let (rest, r) = retain_bindings previous accounts bs in ((k, b) # rest, r)) in
      case (assoc accounts (sb_user b), assoc previous (sb_user b)) of
        (Some account, Some old) \<Rightarrow>
          if \<not> ac_enabled account then skip
          else (case compare_digest (ac_password old) (ac_password account) of
                  Inl e \<Rightarrow> ((k, b) # bs, Inl e)
                | Inr same \<Rightarrow>
                    if \<not> same then skip
                    else let b' = b\<lparr> sb_username := ac_username account \<rparr>;
                             (rest, r) = retain_bindings previous accounts bs
                         in ((k, b') # rest, bindE r (\<lambda>kept. Inr (b' # kept))))
      | _ \<Rightarrow> skip)"

definition append_at :: "('k \<times> 'v list) list \<Rightarrow> 'k \<Rightarrow> 'v \<Rightarrow> ('k \<times> 'v list) list" where
  "append_at d k v = md_set d k ((case assoc d k of None \<Rightarrow> [] | Some vs \<Rightarrow> vs) @ [v])"

definition binding_name :: "string \<Rightarrow> nat \<Rightarrow> string" where
  "binding_name username index =
     (if index = 0 then username else username @ ''#'' @ dec (index + 1))"

definition rekey_bindings :: "accounts \<Rightarrow> sip_registration list \<Rightarrow> bindings" where
  "rekey_bindings accounts kept =
     (let retained = foldl (\<lambda>d b. append_at d (sb_user b) b) [] kept in
      foldl (\<lambda>regs (wanted, bs).
          case assoc accounts wanted of
            None \<Rightarrow> regs
          | Some account \<Rightarrow>
              foldl (\<lambda>regs (index, b). md_set regs (binding_name (ac_username account) index) b)
                regs (enumerate 0 bs))
        [] retained)"

definition update_accounts :: "sip_account list \<Rightarrow> sip_registrar \<Rightarrow> sip_registrar \<times> (exn + unit)" where
  "update_accounts accounts r =
     (let accs = accounts_by_name accounts;
          (regs, outcome) = retain_bindings (sr_accounts r) accs (sr_registrations r);
          r1 = r\<lparr> sr_accounts := accs, sr_registrations := regs \<rparr>
      in case outcome of
           Inl e \<Rightarrow> (r1, Inl e)
         | Inr kept \<Rightarrow>
             let removed = remdups (map sb_username
                   (filter (\<lambda>b. sb_user b \<notin> set (map sb_user kept)) (map snd regs)))
             in (foldl (\<lambda>r u. notify_change r u False)
                   (r1\<lparr> sr_registrations := rekey_bindings accs kept \<rparr>) removed, Inr ()))"

definition registrations_of :: "bindings \<Rightarrow> string \<Rightarrow> sip_registration list" where
  "registrations_of regs username =
     map snd (filter (\<lambda>(key, b). lower key = lower username \<or> sb_user b = lower username) regs)"

definition expire_bindings :: "real \<Rightarrow> sip_registrar \<Rightarrow> sip_registrar \<times> bool" where
  "expire_bindings now r =
     (let regs = sr_registrations r;
          live = filter (\<lambda>(key, b). now < sb_expires_at b) regs;
          previously = foldl (\<lambda>d (key, b). md_set d (sb_user b) (sb_username b)) [] regs;
          gone = filter (\<lambda>(wanted, username). wanted \<notin> set (map (sb_user \<circ> snd) live)) previously
      in (foldl (\<lambda>r (wanted, username). notify_change r username False)
            (r\<lparr> sr_registrations := live \<rparr>) gone,
          list_ex (\<lambda>(key, b). key \<notin> set (map fst live)) regs))"

definition registered_contacts :: "real \<Rightarrow> sip_registrar \<Rightarrow> string \<Rightarrow> sip_registrar \<times> sip_registration list" where
  "registered_contacts now r username =
     (let r1 = fst (expire_bindings now r) in
      (r1, sort_key (\<lambda>b. (- sb_q b, sb_contact_uri b)) (registrations_of (sr_registrations r1) username)))"

text \<open>\<open>registration.advertised_contact_uri or registration.contact_uri\<close>.\<close>

definition bound_contact :: "sip_registration \<Rightarrow> string" where
  "bound_contact b = or_else (sb_advertised b) (sb_contact_uri b)"

definition binds_contact :: "string \<Rightarrow> string \<Rightarrow> sip_registration \<Rightarrow> bool" where
  "binds_contact wanted contact_uri b \<longleftrightarrow> sb_user b = wanted \<and> same_contact contact_uri (bound_contact b)"

definition binding_key :: "bindings \<Rightarrow> string \<Rightarrow> string \<Rightarrow> string option" where
  "binding_key regs username contact_uri =
     map_option fst (find (\<lambda>(key, b). binds_contact (lower username) contact_uri b) regs)"

text \<open>The search for a free number ends: the names tried are distinct and the dictionary is finite.\<close>

definition free_index :: "bindings \<Rightarrow> string \<Rightarrow> nat" where
  "free_index regs username =
     hd (filter (\<lambda>i. username @ ''#'' @ dec i \<notin> fst ` set regs) [2 ..< length regs + 3])"

definition new_binding_key :: "bindings \<Rightarrow> string \<Rightarrow> string" where
  "new_binding_key regs username =
     (if username \<notin> fst ` set regs then username else username @ ''#'' @ dec (free_index regs username))"

definition remove_registration :: "string \<Rightarrow> sip_registrar \<Rightarrow> sip_registrar" where
  "remove_registration username r =
     (let gone = (\<lambda>(key, b). lower key = lower username \<or> sb_user b = lower username);
          removed = filter gone (sr_registrations r);
          r1 = r\<lparr> sr_registrations := filter (\<lambda>kb. \<not> gone kb) (sr_registrations r) \<rparr>;
          removed_username = (if removed = [] then [] else sb_username (snd (last removed)))
      in if removed_username \<noteq> [] then notify_change r1 removed_username False else r1)"

definition registration_matches_source ::
  "real \<Rightarrow> sip_registrar \<Rightarrow> string \<Rightarrow> string \<Rightarrow> int \<Rightarrow> string \<Rightarrow> sip_registrar \<times> bool"
where
  "registration_matches_source now r username host port transport =
     (let r1 = fst (expire_bindings now r) in
      (r1, list_ex (\<lambda>b. sb_source_host b = host \<and> sb_source_port b = port
                        \<and> upper (sb_transport b) = upper transport)
             (registrations_of (sr_registrations r1) username)))"

section \<open>Nonces\<close>

abbreviation use_nonce :: "nonce_use \<Rightarrow> string" where
  "use_nonce u \<equiv> fst (fst u)"

definition prune_nonces :: "real \<Rightarrow> sip_registrar \<Rightarrow> sip_registrar" where
  "prune_nonces now r =
     (let nonces = filter (\<lambda>(key, expiry). now < expiry) (sr_nonces r); active = map fst nonces in
      r\<lparr> sr_nonces := nonces,
         sr_nonce_uses := filter (\<lambda>u. use_nonce u \<in> set active) (sr_nonce_uses r),
         sr_source_nonces := filter (\<lambda>(source, nonce). nonce \<in> set active) (sr_source_nonces r) \<rparr>)"

text \<open>The oldest nonces make room for a new one.\<close>

fun evict_nonces ::
  "(string \<times> real) list \<Rightarrow> nonce_use list \<Rightarrow> (string \<times> string) list \<Rightarrow>
   (string \<times> real) list \<times> nonce_use list \<times> (string \<times> string) list"
where
  "evict_nonces [] uses sources = ([], uses, sources)"
| "evict_nonces ((expired, expiry) # nonces) uses sources =
     (if MAX_ACTIVE_NONCES \<le> Suc (length nonces)
      then evict_nonces nonces (filter (\<lambda>u. use_nonce u \<noteq> expired) uses)
             (filter (\<lambda>(source, nonce). nonce \<noteq> expired) sources)
      else ((expired, expiry) # nonces, uses, sources))"

definition challenge_text :: "string \<Rightarrow> string" where
  "challenge_text nonce =
     ''Digest realm='' @ [DQUOTE] @ REALM @ [DQUOTE] @ '', nonce='' @ [DQUOTE] @ nonce @ [DQUOTE]
     @ '', algorithm=MD5, qop='' @ [DQUOTE] @ ''auth'' @ [DQUOTE]"

definition issue_challenge ::
  "string \<Rightarrow> real \<Rightarrow> real \<Rightarrow> string \<Rightarrow> sip_registrar \<Rightarrow> sip_registrar \<times> string \<times> string"
where
  "issue_challenge token prune_now now source r =
     (let r1 = prune_nonces prune_now r;
          cached = (if source = [] then [] else param_or (sr_source_nonces r1) source [])
      in
      if cached \<noteq> [] \<and> cached \<in> fst ` set (sr_nonces r1) then (r1, cached, challenge_text cached)
      else
        let (nonces, uses, sources) =
              evict_nonces (sr_nonces r1) (sr_nonce_uses r1) (sr_source_nonces r1)
        in (r1\<lparr> sr_nonces := md_set nonces token (now + NONCE_TTL),
                sr_nonce_uses := uses,
                sr_source_nonces := (if source = [] then sources else md_set sources source token) \<rparr>,
            token, challenge_text token))"

definition valid_nonce :: "real \<Rightarrow> string \<Rightarrow> sip_registrar \<Rightarrow> sip_registrar \<times> bool" where
  "valid_nonce now nonce r =
     (let r1 = prune_nonces now r in (r1, nonce \<noteq> [] \<and> nonce \<in> fst ` set (sr_nonces r1)))"

definition register_fingerprint :: "sip_message \<Rightarrow> string \<times> int \<Rightarrow> string \<Rightarrow> fingerprint" where
  "register_fingerprint request addr transport =
     (let hs = msg_headers request in
      \<lparr> fp_method = msg_method request, fp_uri = msg_uri request, fp_call_id = header hs ''Call-ID'',
        fp_cseq = header hs ''CSeq'', fp_via = take 1 (header_values hs ''Via''),
        fp_contacts = header_values hs ''Contact'', fp_expires = header hs ''Expires'',
        fp_host = fst addr, fp_port = snd addr, fp_transport = upper transport \<rparr>)"

text \<open>\<open>hmac.compare_digest(repr(a), repr(b))\<close>: the representation of a tuple tells its components
  apart and keeps what is not ASCII.\<close>

definition ascii_fingerprint :: "fingerprint \<Rightarrow> bool" where
  "ascii_fingerprint f \<longleftrightarrow>
     list_all ascii_text
       ((case fp_method f of None \<Rightarrow> [] | Some m \<Rightarrow> [m])
        @ [fp_uri f, fp_call_id f, fp_cseq f] @ fp_via f @ fp_contacts f
        @ [fp_expires f, fp_host f, fp_transport f])"

definition compare_fingerprints :: "fingerprint \<Rightarrow> fingerprint \<Rightarrow> exn + bool" where
  "compare_fingerprints a b =
     (if ascii_fingerprint a \<and> ascii_fingerprint b then Inr (a = b) else Inl TypeError)"

fun evict_uses :: "nonce_use list \<Rightarrow> nonce_use list" where
  "evict_uses [] = []"
| "evict_uses (u # uses) =
     (if MAX_NONCE_USE_RECORDS \<le> Suc (length uses) then evict_uses uses else u # uses)"

definition digest_response ::
  "(string \<Rightarrow> string) \<Rightarrow> sip_account \<Rightarrow> string \<Rightarrow> string \<Rightarrow> string \<Rightarrow> string \<Rightarrow> string \<Rightarrow> string \<Rightarrow> string"
where
  "digest_response md5 account realm nonce nc cnonce qop uri =
     (let ha1 = md5 (colon (ac_username account) (colon realm (ac_password account)));
          ha2 = md5 (colon ''REGISTER'' uri)
      in md5 (colon ha1 (colon nonce (colon nc (colon cnonce (colon qop ha2))))))"

text \<open>The part of \<open>_check_authorization\<close> behind the digest: the memory of nonce counts.\<close>

definition remember_use :: "use_key \<Rightarrow> int \<Rightarrow> fingerprint \<Rightarrow> sip_registrar \<Rightarrow> sip_registrar" where
  "remember_use key count fp r =
     (let uses = sr_nonce_uses r;
          room = (if key \<in> fst ` set uses then uses else evict_uses uses)
      in r\<lparr> sr_nonce_uses := md_set room key (count, fp) \<rparr>)"

definition check_nonce_use ::
  "use_key \<Rightarrow> int \<Rightarrow> fingerprint \<Rightarrow> sip_registrar \<Rightarrow> sip_registrar \<times> (exn + bool)"
where
  "check_nonce_use key count fp r =
     (case assoc (sr_nonce_uses r) key of
        None \<Rightarrow> (remember_use key count fp r, Inr True)
      | Some (previous_count, previous_fp) \<Rightarrow>
          if count < previous_count then (r, Inr False)
          else if count = previous_count then (r, compare_fingerprints fp previous_fp)
          else (remember_use key count fp r, Inr True))"

definition check_authorization ::
  "(string \<Rightarrow> string) \<Rightarrow> real \<Rightarrow> sip_message \<Rightarrow> sip_account \<Rightarrow> string \<times> int \<Rightarrow> string \<Rightarrow>
   sip_registrar \<Rightarrow> sip_registrar \<times> (exn + bool)"
where
  "check_authorization md5 now request account addr transport r =
     (let params = parse_digest_challenge (header (msg_headers request) ''Authorization'');
          nonce = param_or params ''nonce'' [];
          (r1, valid) = valid_nonce now nonce r;
          realm = param_or params ''realm'' REALM;
          uri = param_or params ''uri'' (msg_uri request);
          qop = lower (param_or params ''qop'' []);
          algorithm = upper (param_or params ''algorithm'' ''MD5'');
          cnonce = param_or params ''cnonce'' [];
          nc = param_or params ''nc'' []
      in
      if \<not> valid then (r1, Inr False)
      else if lower (param_or params ''username'' []) \<noteq> lower (ac_username account) then (r1, Inr False)
      else if realm \<noteq> REALM \<or> uri \<noteq> msg_uri request \<or> qop \<noteq> ''auth'' \<or> algorithm \<noteq> ''MD5''
              \<or> cnonce = [] \<or> 128 < length cnonce \<or> length nc \<noteq> 8 then (r1, Inr False)
      else (case py_int_hex nc of
              None \<Rightarrow> (r1, Inr False)
            | Some nonce_count \<Rightarrow>
                if nonce_count \<le> 0 then (r1, Inr False)
                else (case compare_digest (digest_response md5 account realm nonce nc cnonce qop uri)
                             (param_or params ''response'' []) of
                        Inl e \<Rightarrow> (r1, Inl e)
                      | Inr same \<Rightarrow>
                          if \<not> same then (r1, Inr False)
                          else check_nonce_use (nonce, lower (ac_username account), cnonce)
                                 nonce_count (register_fingerprint request addr transport) r1)))"

section \<open>REGISTER\<close>

definition sip_result ::
  "sip_registrar \<Rightarrow> int \<Rightarrow> string \<Rightarrow> headers \<Rightarrow> sip_registrar \<times> (exn + register_result)"
where
  "sip_result r status reason hs =
     (r\<lparr> sr_last_status := status, sr_last_reason := reason \<rparr>,
      Inr \<lparr> rr_status = status, rr_reason = reason, rr_headers = hs \<rparr>)"

definition contact_response_header :: "real \<Rightarrow> sip_registration \<Rightarrow> string \<times> string" where
  "contact_response_header now b =
     (''Contact'',
      ''<'' @ bound_contact b @ ''>;expires='' @ dec_int (max 0 \<lceil>sb_expires_at b - now\<rceil>)
      @ '';q='' @ fmt_g (sb_q b))"

definition contact_response_headers :: "readings \<Rightarrow> sip_registrar \<Rightarrow> string \<Rightarrow> sip_registrar \<times> headers" where
  "contact_response_headers rd r username =
     (let (r1, bs) = registered_contacts (rd_contacts rd) r username in
      (r1, map (contact_response_header (rd_reply rd)) bs))"

definition ok_with_contacts ::
  "readings \<Rightarrow> sip_registrar \<Rightarrow> sip_account \<Rightarrow> sip_registrar \<times> (exn + register_result)"
where
  "ok_with_contacts rd r account =
     (let (r1, hs) = contact_response_headers rd r (ac_username account) in sip_result r1 200 ''OK'' hs)"

record prepared_contact =
  pc_advertised :: string
  pc_expires :: int
  pc_contact_uri :: string
  pc_q :: real

fun prepare_contacts ::
  "string \<times> int \<Rightarrow> string \<Rightarrow> string list \<Rightarrow> (string \<times> int \<times> string) list \<Rightarrow> exn + prepared_contact list"
where
  "prepare_contacts addr transport seen [] = Inr []"
| "prepare_contacts addr transport seen ((advertised, expires, raw) # contacts) =
     (if advertised = ''*'' then
        bindE (prepare_contacts addr transport seen contacts) (\<lambda>ps. Inr
          (\<lparr> pc_advertised = ''*'', pc_expires = 0, pc_contact_uri = [], pc_q = 1 \<rparr> # ps))
      else if lower advertised \<in> set seen then Inl ValueError
      else
        bindE (contact_q raw) (\<lambda>q.
        bindE (if 0 < expires then contact_for_source_flow advertised addr transport else Inr [])
          (\<lambda>contact_uri.
        bindE (prepare_contacts addr transport (lower advertised # seen) contacts) (\<lambda>ps. Inr
          (\<lparr> pc_advertised = advertised, pc_expires = expires, pc_contact_uri = contact_uri,
             pc_q = q \<rparr> # ps)))))"

datatype cseq_verdict = Cseq_fresh | Cseq_stale | Cseq_retransmission

text \<open>The loop that compares the CSeq with those of the bindings concerned.\<close>

fun judge_cseq ::
  "sip_registration list \<Rightarrow> string \<Rightarrow> int \<Rightarrow> prepared_contact list \<Rightarrow> cseq_verdict"
where
  "judge_cseq current_bindings call_id cseq [] = Cseq_fresh"
| "judge_cseq current_bindings call_id cseq (p # ps) =
     (if pc_advertised p = ''*'' then judge_cseq current_bindings call_id cseq ps
      else (case find (\<lambda>b. same_contact (pc_advertised p) (bound_contact b)) current_bindings of
              None \<Rightarrow> judge_cseq current_bindings call_id cseq ps
            | Some current \<Rightarrow>
                if sb_call_id current \<noteq> call_id then judge_cseq current_bindings call_id cseq ps
                else if cseq < sb_cseq current then Cseq_stale
                else if cseq = sb_cseq current then Cseq_retransmission
                else judge_cseq current_bindings call_id cseq ps))"

definition apply_contact ::
  "sip_message \<Rightarrow> sip_account \<Rightarrow> string \<times> int \<Rightarrow> string \<Rightarrow> real \<Rightarrow> int \<Rightarrow> bindings \<Rightarrow> prepared_contact \<Rightarrow>
   bindings"
where
  "apply_contact request account addr transport now cseq regs p =
     (let key = binding_key regs (ac_username account) (pc_advertised p) in
      if pc_expires p \<le> 0 then
        (case key of None \<Rightarrow> regs | Some k \<Rightarrow> filter (\<lambda>(a, b). a \<noteq> k) regs)
      else
        md_set regs (case key of Some k \<Rightarrow> k | None \<Rightarrow> new_binding_key regs (ac_username account))
          \<lparr> sb_username = ac_username account, sb_contact_uri = pc_contact_uri p,
            sb_source_host = fst addr, sb_source_port = snd addr, sb_transport = transport,
            sb_expires_at = now + of_int (pc_expires p), sb_advertised = pc_advertised p,
            sb_user_agent = header (msg_headers request) ''User-Agent'',
            sb_call_id = strip (header (msg_headers request) ''Call-ID''), sb_cseq = cseq,
            sb_q = pc_q p \<rparr>)"

text \<open>What \<open>handle_register\<close> does for an authenticated request with contacts.\<close>

definition store_contacts ::
  "readings \<Rightarrow> sip_message \<Rightarrow> sip_account \<Rightarrow> string \<times> int \<Rightarrow> string \<Rightarrow> int \<Rightarrow> bool \<Rightarrow> prepared_contact list \<Rightarrow>
   sip_registrar \<Rightarrow> sip_registrar \<times> (exn + register_result)"
where
  "store_contacts rd request account addr transport cseq wildcard prepared r =
     (let current_bindings = registrations_of (sr_registrations r) (ac_username account) in
      case judge_cseq current_bindings (strip (header (msg_headers request) ''Call-ID'')) cseq prepared of
        Cseq_stale \<Rightarrow> sip_result r 500 ''Server Internal Error'' [(''Retry-After'', ''0'')]
      | Cseq_retransmission \<Rightarrow> ok_with_contacts rd r account
      | Cseq_fresh \<Rightarrow>
          let was_registered = current_bindings \<noteq> [];
              regs = (if wildcard
                 then filter (\<lambda>(key, b). sb_user b \<noteq> lower (ac_username account)) (sr_registrations r)
                 else foldl (apply_contact request account addr transport (rd_bind rd) cseq)
                        (sr_registrations r) prepared);
              r1 = r\<lparr> sr_registrations := regs \<rparr>;
              is_registered = registrations_of regs (ac_username account) \<noteq> [];
              r2 = (if was_registered \<noteq> is_registered
                    then notify_change r1 (ac_username account) is_registered else r1)
          in ok_with_contacts rd r2 account)"

definition register_authorized ::
  "readings \<Rightarrow> sip_message \<Rightarrow> sip_account \<Rightarrow> string \<times> int \<Rightarrow> string \<Rightarrow> sip_registrar \<Rightarrow>
   sip_registrar \<times> (exn + register_result)"
where
  "register_authorized rd request account addr transport r =
     (let hs = msg_headers request; bad = (\<lambda>r. sip_result r 400 ''Bad Request'' []) in
      case register_cseq hs of
        Inl _ \<Rightarrow> bad r
      | Inr cseq \<Rightarrow>
          if strip (header hs ''Call-ID'') = [] then bad r
          else
            let r1 = fst (expire_bindings (rd_expire rd) r);
                raw_contacts = filter (\<lambda>v. v \<noteq> []) (map strip (header_values hs ''Contact''));
                contacts = register_contacts hs;
                wildcard = list_ex (\<lambda>(uri, _). uri = ''*'') contacts
            in
            if raw_contacts = [] then ok_with_contacts rd r1 account
            else if contacts = [] \<or> length contacts \<noteq> length raw_contacts then bad r1
            else if wildcard \<and> (length contacts \<noteq> 1 \<or> strip (header hs ''Expires'') \<noteq> ''0'') then bad r1
            else (case prepare_contacts addr transport [] contacts of
                    Inl _ \<Rightarrow> bad r1
                  | Inr prepared \<Rightarrow>
                      store_contacts rd request account addr transport cseq wildcard prepared r1))"

definition unauthorized ::
  "string \<Rightarrow> readings \<Rightarrow> string \<times> int \<Rightarrow> string \<Rightarrow> sip_registrar \<Rightarrow> sip_registrar \<times> (exn + register_result)"
where
  "unauthorized token rd addr transport r =
     (case issue_challenge token (rd_challenge rd) (rd_nonce rd) (upper transport @ '':'' @ fst addr) r of
        (r1, nonce, challenge) \<Rightarrow> sip_result r1 401 ''Unauthorized'' [(''WWW-Authenticate'', challenge)])"

definition handle_register ::
  "(string \<Rightarrow> string) \<Rightarrow> string \<Rightarrow> readings \<Rightarrow> sip_message \<Rightarrow> string \<times> int \<Rightarrow> string \<Rightarrow> sip_registrar \<Rightarrow>
   sip_registrar \<times> (exn + register_result)"
where
  "handle_register md5 token rd request addr transport r0 =
     (let r = r0\<lparr> sr_last_event := ''REGISTER'' \<rparr> in
      if \<not> sr_enabled r then sip_result r 405 ''Method Not Allowed'' []
      else (case bindE (parse_sip_uri (msg_uri request)) (\<lambda>_. extract_register_username request) of
              Inl _ \<Rightarrow> sip_result r 400 ''Bad Request'' []
            | Inr username \<Rightarrow>
                (case assoc (sr_accounts r) (lower username) of
                   None \<Rightarrow> unauthorized token rd addr transport r
                 | Some account \<Rightarrow>
                     if \<not> ac_enabled account then unauthorized token rd addr transport r
                     else (case check_authorization md5 (rd_check rd) request account addr transport r of
                             (r1, Inl e) \<Rightarrow> (r1, Inl e)
                           | (r1, Inr False) \<Rightarrow> unauthorized token rd addr transport r1
                           | (r1, Inr True) \<Rightarrow>
                               register_authorized rd request account addr transport r1))))"

section \<open>What the rest of the integration sees\<close>

record sip_contact =
  sc_uri :: string
  sc_transport :: string
  sc_q :: real

text \<open>A roster entry with the list of contacts of its metadata.\<close>

definition account_entry ::
  "sip_account \<Rightarrow> sip_registration \<Rightarrow> sip_registration list \<Rightarrow> roster_entry \<times> sip_contact list"
where
  "account_entry account registration registrations =
     (\<lparr> re_id = ac_username account, re_name = account_roster_name account, re_address = [],
        re_sip_uri = sb_contact_uri registration, re_extension = ac_extension account, re_number = [],
        re_port = 0, re_ha_bridge = False, re_enabled = True,
        re_metadata =
          [(''sip_transport'', MStr (lower (sb_transport registration))), (''registered'', MBool True),
           (''user_agent'', MStr (sb_user_agent registration)),
           (''conference_group'', MStr (ac_conference_group account)),
           (''conference_ring'', MBool (ac_conference_ring account)),
           (''ring_group'', MStr (ac_ring_group account))] \<rparr>,
      map (\<lambda>b. \<lparr> sc_uri = sb_contact_uri b, sc_transport = lower (sb_transport b), sc_q = sb_q b \<rparr>)
        registrations)"

text \<open>The clock is read once for the first \<open>expire\<close> and once for each account.\<close>

fun roster_of_users ::
  "(nat \<Rightarrow> real) \<Rightarrow> string list \<Rightarrow> sip_registrar \<Rightarrow> sip_registrar \<times> (roster_entry \<times> sip_contact list) list"
where
  "roster_of_users clock [] r = (r, [])"
| "roster_of_users clock (username # usernames) r =
     (case assoc (sr_accounts r) username of
        None \<Rightarrow> roster_of_users clock usernames r
      | Some account \<Rightarrow>
          if \<not> ac_enabled account then roster_of_users clock usernames r
          else
            let (r1, registrations) = registered_contacts (clock (length usernames)) r (ac_username account);
                (r2, entries) = roster_of_users clock usernames r1
            in (r2, (case registrations of
                       [] \<Rightarrow> entries
                     | b # _ \<Rightarrow> account_entry account b registrations # entries)))"

definition registered_roster_entries ::
  "real \<Rightarrow> (nat \<Rightarrow> real) \<Rightarrow> sip_registrar \<Rightarrow> sip_registrar \<times> (roster_entry \<times> sip_contact list) list"
where
  "registered_roster_entries now clock r =
     (let r1 = fst (expire_bindings now r) in
      roster_of_users clock (sort (remdups (map (sb_user \<circ> snd) (sr_registrations r1)))) r1)"

record registrar_snapshot =
  rs_enabled :: bool
  rs_accounts :: nat
  rs_registered :: nat
  rs_binding_count :: nat
  rs_bindings :: "sip_registration list"
  rs_last_event :: string
  rs_last_status :: int
  rs_last_reason :: string

definition registrar_snapshot_of :: "real \<Rightarrow> sip_registrar \<Rightarrow> sip_registrar \<times> registrar_snapshot" where
  "registrar_snapshot_of now r =
     (let r1 = fst (expire_bindings now r) in
      (r1, \<lparr> rs_enabled = sr_enabled r1, rs_accounts = length (sr_accounts r1),
             rs_registered = length (remdups (map (sb_user \<circ> snd) (sr_registrations r1))),
             rs_binding_count = length (sr_registrations r1),
             rs_bindings = map (registration_snapshot \<circ> snd) (sr_registrations r1),
             rs_last_event = sr_last_event r1, rs_last_status = sr_last_status r1,
             rs_last_reason = sr_last_reason r1 \<rparr>))"

end
