(* ===== verification/Registrar_Bindings.thy ===== *)
theory Registrar_Bindings
  imports Sip_Registrar
begin

text \<open>
  The bindings of the registrar of \<open>sip_registrar.py\<close>: what a REGISTER does to them, as a refinement of a
  location service, a map from user and contact to the binding.
\<close>

section \<open>What an operation leaves alone\<close>

lemma notify_all:
  "\<exists>n. foldl (\<lambda>r (wanted, username). notify_change r username False) r xs = r\<lparr> sr_notified := n \<rparr>"
proof (induction xs arbitrary: r)
  case Nil
  show ?case by (rule exI [of _ "sr_notified r"]) simp
next
  case (Cons x xs)
  obtain n where "foldl (\<lambda>r (wanted, username). notify_change r username False)
      (notify_change r (snd x) False) xs = (notify_change r (snd x) False)\<lparr> sr_notified := n \<rparr>"
    using Cons by blast
  then show ?case by (cases x) (auto simp: notify_change_def)
qed

lemma notify_users:
  "\<exists>n. foldl (\<lambda>r u. notify_change r u False) r us = r\<lparr> sr_notified := n \<rparr>"
  using notify_all [of r "map (Pair ()) us"] by (simp add: foldl_map)

definition live_bindings :: "real \<Rightarrow> bindings \<Rightarrow> bindings" where
  "live_bindings now regs = filter (\<lambda>(key, b). now < sb_expires_at b) regs"

lemma expire_bindings_eq:
  "\<exists>n. fst (expire_bindings now r) = r\<lparr> sr_registrations := live_bindings now (sr_registrations r), sr_notified := n \<rparr>"
proof -
  obtain n where "fst (expire_bindings now r)
      = (r\<lparr> sr_registrations := live_bindings now (sr_registrations r) \<rparr>)\<lparr> sr_notified := n \<rparr>"
    using notify_all by (fastforce simp: expire_bindings_def Let_def live_bindings_def)
  then show ?thesis by (intro exI [of _ n]) simp
qed

lemma expire_bindings_fields [simp]:
  "sr_registrations (fst (expire_bindings now r)) = live_bindings now (sr_registrations r)"
  "sr_accounts (fst (expire_bindings now r)) = sr_accounts r"
  "sr_nonces (fst (expire_bindings now r)) = sr_nonces r"
  "sr_nonce_uses (fst (expire_bindings now r)) = sr_nonce_uses r"
  "sr_source_nonces (fst (expire_bindings now r)) = sr_source_nonces r"
  "sr_enabled (fst (expire_bindings now r)) = sr_enabled r"
  using expire_bindings_eq [of now r] by auto

lemma notify_change_fields [simp]:
  "sr_registrations (notify_change r u f) = sr_registrations r"
  "sr_accounts (notify_change r u f) = sr_accounts r"
  "sr_nonces (notify_change r u f) = sr_nonces r"
  "sr_nonce_uses (notify_change r u f) = sr_nonce_uses r"
  "sr_source_nonces (notify_change r u f) = sr_source_nonces r"
  "sr_enabled (notify_change r u f) = sr_enabled r"
  by (simp_all add: notify_change_def)

lemma ok_with_contacts_eq:
  "ok_with_contacts rd r account =
     sip_result (fst (expire_bindings (rd_contacts rd) r)) 200 ''OK''
       (map (contact_response_header (rd_reply rd))
          (sort_key (\<lambda>b. (- sb_q b, sb_contact_uri b))
             (registrations_of (live_bindings (rd_contacts rd) (sr_registrations r)) (ac_username account))))"
  by (simp add: ok_with_contacts_def contact_response_headers_def registered_contacts_def Let_def)

lemma sip_result_fields [simp]:
  "sr_registrations (fst (sip_result r s t hs)) = sr_registrations r"
  "sr_accounts (fst (sip_result r s t hs)) = sr_accounts r"
  "sr_nonces (fst (sip_result r s t hs)) = sr_nonces r"
  "sr_nonce_uses (fst (sip_result r s t hs)) = sr_nonce_uses r"
  "sr_source_nonces (fst (sip_result r s t hs)) = sr_source_nonces r"
  "sr_enabled (fst (sip_result r s t hs)) = sr_enabled r"
  "snd (sip_result r s t hs) = Inr \<lparr> rr_status = s, rr_reason = t, rr_headers = hs \<rparr>"
  by (simp_all add: sip_result_def)

lemma issue_challenge_fields [simp]:
  "sr_registrations (fst (issue_challenge token t t' source r)) = sr_registrations r"
  "sr_accounts (fst (issue_challenge token t t' source r)) = sr_accounts r"
  by (simp_all add: issue_challenge_def prune_nonces_def Let_def split: prod.split)

lemma check_authorization_fields [simp]:
  "sr_registrations (fst (check_authorization md5 now m a addr transport r)) = sr_registrations r
   \<and> sr_accounts (fst (check_authorization md5 now m a addr transport r)) = sr_accounts r"
  by (simp add: check_authorization_def valid_nonce_def prune_nonces_def check_nonce_use_def remember_use_def Let_def
      split: option.split sum.split)

lemma store_contacts_fields:
  "sr_accounts (fst (store_contacts rd m a addr tr cseq w ps r)) = sr_accounts r
   \<and> sr_nonces (fst (store_contacts rd m a addr tr cseq w ps r)) = sr_nonces r
   \<and> sr_nonce_uses (fst (store_contacts rd m a addr tr cseq w ps r)) = sr_nonce_uses r
   \<and> sr_source_nonces (fst (store_contacts rd m a addr tr cseq w ps r)) = sr_source_nonces r
   \<and> sr_enabled (fst (store_contacts rd m a addr tr cseq w ps r)) = sr_enabled r"
  by (simp add: store_contacts_def ok_with_contacts_eq Let_def split: cseq_verdict.split)

lemma register_authorized_fields:
  "sr_accounts (fst (register_authorized rd m a addr tr r)) = sr_accounts r
   \<and> sr_nonces (fst (register_authorized rd m a addr tr r)) = sr_nonces r
   \<and> sr_nonce_uses (fst (register_authorized rd m a addr tr r)) = sr_nonce_uses r
   \<and> sr_source_nonces (fst (register_authorized rd m a addr tr r)) = sr_source_nonces r
   \<and> sr_enabled (fst (register_authorized rd m a addr tr r)) = sr_enabled r"
  by (simp add: register_authorized_def store_contacts_fields ok_with_contacts_eq Let_def split: sum.split)

section \<open>The shape of a REGISTER\<close>

text \<open>A REGISTER is refused with the bindings untouched, or it is handled as that of an enabled account
  whose credentials have been checked.\<close>

lemma unauthorized_fields:
  assumes "unauthorized token rd addr tr r = (r', out)"
  shows "sr_registrations r' = sr_registrations r \<and> sr_accounts r' = sr_accounts r
    \<and> (\<exists>res. out = Inr res \<and> rr_status res = 401)"
proof -
  obtain r1 n c where i: "issue_challenge token (rd_challenge rd) (rd_nonce rd) (upper tr @ '':'' @ fst addr) r = (r1, n, c)"
    by (metis prod_cases3)
  then have "sr_registrations r1 = sr_registrations r" "sr_accounts r1 = sr_accounts r"
    using issue_challenge_fields [of token "rd_challenge rd" "rd_nonce rd" "upper tr @ '':'' @ fst addr" r] by auto
  then show ?thesis
    using assms i by (auto simp: unauthorized_def sip_result_def)
qed

lemma handle_register_cases:
  assumes "handle_register md5 token rd m addr tr r = (r', out)"
  obtains (refused) "sr_registrations r' = sr_registrations r" "sr_accounts r' = sr_accounts r"
      "\<And>res. out = Inr res \<Longrightarrow> rr_status res \<in> {400, 401, 405}"
  | (authorized) account username r1 where
      "extract_register_username m = Inr username"
      "assoc (sr_accounts r) (lower username) = Some account" "ac_enabled account"
      "check_authorization md5 (rd_check rd) m account addr tr (r\<lparr> sr_last_event := ''REGISTER'' \<rparr>) = (r1, Inr True)"
      "register_authorized rd m account addr tr r1 = (r', out)"
proof -
  note step = assms [unfolded handle_register_def Let_def]
  let ?r = "r\<lparr> sr_last_event := ''REGISTER'' \<rparr>"
  have un: thesis if "unauthorized token rd addr tr q = (r', out)"
    "sr_registrations q = sr_registrations r" "sr_accounts q = sr_accounts r" for q
    using unauthorized_fields [OF that(1)] that(2,3) by (intro refused) auto
  show thesis
  proof (cases "sr_enabled r")
    case False
    then show thesis using step by (intro refused) (auto simp: sip_result_def)
  next
    case enabled: True
    show thesis
    proof (cases "bindE (parse_sip_uri (msg_uri m)) (\<lambda>_. extract_register_username m)")
      case (Inl e)
      then show thesis using step enabled by (intro refused) (auto simp: sip_result_def)
    next
      case (Inr username)
      then have name: "extract_register_username m = Inr username" by (auto simp: bindE_eq_Inr)
      show thesis
      proof (cases "\<exists>a. assoc (sr_accounts r) (lower username) = Some a \<and> ac_enabled a")
        case False
        then show thesis using step enabled Inr un [of ?r] by (auto split: option.splits)
      next
        case True
        then obtain a where a: "assoc (sr_accounts r) (lower username) = Some a" "ac_enabled a" by blast
        obtain r1 v where v: "check_authorization md5 (rd_check rd) m a addr tr ?r = (r1, v)" by fastforce
        have same: "sr_registrations r1 = sr_registrations r" "sr_accounts r1 = sr_accounts r"
          using check_authorization_fields [of md5 "rd_check rd" m a addr tr ?r] by (simp_all add: v)
        consider e where "v = Inl e" | "v = Inr False" | "v = Inr True" by (metis (full_types) sum.exhaust)
        then show thesis
        proof cases
          case 1
          then show thesis using step enabled Inr a v same by (intro refused) auto
        next
          case 2
          then show thesis using step enabled Inr a v same un [of r1] by simp
        next
          case 3
          then show thesis using step enabled Inr a v name by (intro authorized [of username a r1]) simp_all
        qed
      qed
    qed
  qed
qed
section \<open>Bindings as a location service\<close>

text \<open>A binding belongs to a user and a contact; the abstract registrar is a map from these to bindings.
  The numbered keys of the code's dictionary do not show in it.\<close>

type_synonym location = "string \<times> string \<Rightarrow> sip_registration option"

definition binding_id :: "sip_registration \<Rightarrow> string \<times> string" where
  "binding_id b = (sb_user b, contact_identity (bound_contact b))"

definition located :: "bindings \<Rightarrow> location" where
  "located regs = map_of (map (\<lambda>(key, b). (binding_id b, b)) regs)"

definition bindings_ok :: "bindings \<Rightarrow> bool" where
  "bindings_ok regs \<longleftrightarrow> distinct (map fst regs) \<and> distinct (map (binding_id \<circ> snd) regs)"

lemma located_Some:
  assumes "bindings_ok regs"
  shows "located regs i = Some b \<longleftrightarrow> (\<exists>k. (k, b) \<in> set regs) \<and> binding_id b = i"
proof -
  have "map fst (map (\<lambda>(key, b). (binding_id b, b)) regs) = map (binding_id \<circ> snd) regs"
    by (simp add: case_prod_beta)
  then have "distinct (map fst (map (\<lambda>(key, b). (binding_id b, b)) regs))"
    using assms by (simp only: bindings_ok_def)
  then show ?thesis by (auto simp: located_def)
qed

lemma location_eqI:
  "(\<And>i b. L i = Some b \<longleftrightarrow> M i = Some b) \<Longrightarrow> L = (M :: location)"
  by (metis ext option.exhaust)

lemma binding_unique:
  assumes "bindings_ok regs" "(k, b) \<in> set regs" "(k', b') \<in> set regs"
  shows "k = k' \<longleftrightarrow> b = b'" "binding_id b = binding_id b' \<longleftrightarrow> b = b'"
proof -
  have inj: "inj_on fst (set regs)" "inj_on (binding_id \<circ> snd) (set regs)"
    using assms(1) by (simp_all add: bindings_ok_def distinct_map)
  show "k = k' \<longleftrightarrow> b = b'"
    using inj_onD [OF inj(1) _ assms(2,3)] inj_onD [OF inj(2) _ assms(2,3)] by auto
  show "binding_id b = binding_id b' \<longleftrightarrow> b = b'"
    using inj_onD [OF inj(2) _ assms(2,3)] by auto
qed

definition live_at :: "real \<Rightarrow> location \<Rightarrow> location" where
  "live_at now L i = (case L i of Some b \<Rightarrow> if now < sb_expires_at b then Some b else None | None \<Rightarrow> None)"

lemma live_at_Some: "live_at now L i = Some b \<longleftrightarrow> L i = Some b \<and> now < sb_expires_at b"
  by (auto simp: live_at_def split: option.splits if_splits)

lemma filter_bindings_ok: "bindings_ok regs \<Longrightarrow> bindings_ok (filter P regs)"
  by (simp add: bindings_ok_def distinct_map_filter)

lemma located_filter:
  assumes "bindings_ok regs"
  shows "located (filter P regs) i = Some b \<longleftrightarrow> (\<exists>k. (k, b) \<in> set regs \<and> P (k, b)) \<and> binding_id b = i"
  using located_Some [OF filter_bindings_ok [OF assms, of P]] by auto

lemma located_live:
  assumes "bindings_ok regs"
  shows "bindings_ok (live_bindings now regs)" "located (live_bindings now regs) = live_at now (located regs)"
proof -
  show "bindings_ok (live_bindings now regs)" using assms by (simp add: live_bindings_def filter_bindings_ok)
  show "located (live_bindings now regs) = live_at now (located regs)"
    by (rule location_eqI)
      (auto simp: live_bindings_def located_filter [OF assms] live_at_Some located_Some [OF assms])
qed

definition unbound :: "string \<Rightarrow> location \<Rightarrow> location" where
  "unbound user L i = (if fst i = user then None else L i)"

lemma located_unbound:
  assumes "bindings_ok regs"
  shows "located (filter (\<lambda>(key, b). sb_user b \<noteq> user) regs) = unbound user (located regs)"
  by (rule location_eqI)
    (auto simp: located_filter [OF assms] unbound_def located_Some [OF assms] binding_id_def)

section \<open>One contact\<close>

lemma binds_contact_id: "binds_contact user uri b \<longleftrightarrow> binding_id b = (user, contact_identity uri)"
  by (auto simp: binds_contact_def binding_id_def same_contact_def)

lemma binding_key_Some:
  assumes "binding_key regs username uri = Some k"
  shows "\<exists>b. (k, b) \<in> set regs \<and> binding_id b = (lower username, contact_identity uri)"
  using assms by (auto simp: binding_key_def find_Some_iff binds_contact_id) (metis nth_mem)

lemma binding_key_None:
  assumes "binding_key regs username uri = None" "(k, b) \<in> set regs"
  shows "binding_id b \<noteq> (lower username, contact_identity uri)"
  using assms by (auto simp: binding_key_def find_None_iff binds_contact_id)

lemma dec_inject: "dec m = dec n \<Longrightarrow> m = n"
  by (metis foldl_dec)

lemma free_index_exists:
  assumes user: "username \<in> fst ` set regs"
  shows "username @ ''#'' @ dec (free_index regs username) \<notin> fst ` set regs"
proof -
  let ?name = "\<lambda>i. username @ ''#'' @ dec i"
  have "inj ?name" by (auto simp: inj_def dest: dec_inject)
  then have inj: "inj_on ?name {2 ..< length regs + 3}" by (rule inj_on_subset) simp
  have "\<not> ?name ` {2 ..< length regs + 3} \<subseteq> fst ` set regs"
  proof
    assume "?name ` {2 ..< length regs + 3} \<subseteq> fst ` set regs"
    then have "card {2 ..< length regs + 3} \<le> card (fst ` set regs)"
      using inj by (metis card_image card_mono finite_imageI finite_set)
    also have "\<dots> \<le> length regs" by (metis card_length length_map set_map)
    finally show False by simp
  qed
  then have "filter (\<lambda>i. ?name i \<notin> fst ` set regs) [2 ..< length regs + 3] \<noteq> []"
    by (auto simp: filter_empty_conv)
  then have "free_index regs username \<in> set (filter (\<lambda>i. ?name i \<notin> fst ` set regs) [2 ..< length regs + 3])"
    unfolding free_index_def by (rule hd_in_set)
  then show ?thesis by simp
qed

lemma new_binding_key_free: "new_binding_key regs username \<notin> fst ` set regs"
  using free_index_exists by (simp add: new_binding_key_def)

lemma set_binding_ok:
  assumes ok: "bindings_ok regs"
    and key: "\<And>b0. (k, b0) \<in> set regs \<Longrightarrow> binding_id b0 = binding_id b"
      "\<And>k' b0. (k', b0) \<in> set regs \<Longrightarrow> binding_id b0 = binding_id b \<Longrightarrow> k' = k"
  shows "bindings_ok (md_set regs k b)" "located (md_set regs k b) = (located regs)(binding_id b \<mapsto> b)"
proof -
  have dist: "distinct (map fst regs)" using ok by (simp add: bindings_ok_def)
  note sets = set_md_set [OF dist, of k b]
  have keys: "distinct (map fst (md_set regs k b))" using dist by (rule distinct_md_set)
  have old: "inj_on (binding_id \<circ> snd) (set regs)" using ok by (simp add: bindings_ok_def distinct_map)
  have "inj_on (binding_id \<circ> snd) (set (md_set regs k b))"
  proof (rule inj_onI)
    fix x y
    assume x: "x \<in> set (md_set regs k b)" and y: "y \<in> set (md_set regs k b)"
      and eq: "(binding_id \<circ> snd) x = (binding_id \<circ> snd) y"
    consider "x = (k, b)" "y = (k, b)" | "x = (k, b)" "y \<in> set regs" "fst y \<noteq> k"
      | "x \<in> set regs" "fst x \<noteq> k" "y = (k, b)" | "x \<in> set regs" "y \<in> set regs"
      using x y by (auto simp: sets)
    then show "x = y"
    proof cases
      case 2
      then show ?thesis using key(2) [of "fst y" "snd y"] eq by simp
    next
      case 3
      then show ?thesis using key(2) [of "fst x" "snd x"] eq by simp
    next
      case 4
      then show ?thesis using inj_onD [OF old eq] by blast
    qed simp
  qed
  then show ok': "bindings_ok (md_set regs k b)"
    using keys by (simp add: bindings_ok_def distinct_map)
  show "located (md_set regs k b) = (located regs)(binding_id b \<mapsto> b)"
  proof (rule location_eqI)
    fix i c
    show "located (md_set regs k b) i = Some c \<longleftrightarrow> ((located regs)(binding_id b \<mapsto> b)) i = Some c"
    proof (cases "i = binding_id b")
      case True
      then show ?thesis using key(2) by (auto simp: located_Some [OF ok'] sets)
    next
      case False
      then show ?thesis using key(1) by (auto simp: located_Some [OF ok'] located_Some [OF ok] sets)
    qed
  qed
qed

text \<open>What one contact of a request does to the map.\<close>

definition new_binding ::
  "sip_message \<Rightarrow> sip_account \<Rightarrow> string \<times> int \<Rightarrow> string \<Rightarrow> real \<Rightarrow> int \<Rightarrow> prepared_contact \<Rightarrow> sip_registration"
where
  "new_binding m a addr transport now cseq p =
     \<lparr> sb_username = ac_username a, sb_contact_uri = pc_contact_uri p,
       sb_source_host = fst addr, sb_source_port = snd addr, sb_transport = transport,
       sb_expires_at = now + of_int (pc_expires p), sb_advertised = pc_advertised p,
       sb_user_agent = header (msg_headers m) ''User-Agent'',
       sb_call_id = strip (header (msg_headers m) ''Call-ID''), sb_cseq = cseq, sb_q = pc_q p \<rparr>"

definition locate_contact ::
  "sip_message \<Rightarrow> sip_account \<Rightarrow> string \<times> int \<Rightarrow> string \<Rightarrow> real \<Rightarrow> int \<Rightarrow> location \<Rightarrow> prepared_contact \<Rightarrow> location"
where
  "locate_contact m a addr transport now cseq L p =
     L((lower (ac_username a), contact_identity (pc_advertised p)) :=
         if pc_expires p \<le> 0 then None else Some (new_binding m a addr transport now cseq p))"

lemma new_binding_id:
  "pc_advertised p \<noteq> [] \<Longrightarrow>
   binding_id (new_binding m a addr transport now cseq p) = (lower (ac_username a), contact_identity (pc_advertised p))"
  by (simp add: binding_id_def new_binding_def bound_contact_def or_else_def)

lemma apply_contact_refines:
  assumes ok: "bindings_ok regs" and adv: "pc_advertised p \<noteq> []"
  shows "bindings_ok (apply_contact m a addr transport now cseq regs p)"
    "located (apply_contact m a addr transport now cseq regs p) = locate_contact m a addr transport now cseq (located regs) p"
proof -
  let ?id = "(lower (ac_username a), contact_identity (pc_advertised p))"
  let ?key = "binding_key regs (ac_username a) (pc_advertised p)"
  let ?b = "new_binding m a addr transport now cseq p"
  let ?regs = "apply_contact m a addr transport now cseq regs p"
  have eq: "?regs = (if pc_expires p \<le> 0 then (case ?key of None \<Rightarrow> regs | Some k \<Rightarrow> filter (\<lambda>(x, b). x \<noteq> k) regs)
      else md_set regs (case ?key of Some k \<Rightarrow> k | None \<Rightarrow> new_binding_key regs (ac_username a)) ?b)"
    by (simp add: apply_contact_def new_binding_def Let_def)
  have "bindings_ok ?regs \<and> located ?regs = locate_contact m a addr transport now cseq (located regs) p"
  proof (cases ?key)
    case None
    note absent = binding_key_None [OF None]
    have "located regs ?id = None"
      using absent located_Some [OF ok] by (metis option.exhaust)
    moreover have free: "(new_binding_key regs (ac_username a), b0) \<notin> set regs" for b0
      using new_binding_key_free by (metis fst_conv image_eqI)
    have "bindings_ok (md_set regs (new_binding_key regs (ac_username a)) ?b)"
      "located (md_set regs (new_binding_key regs (ac_username a)) ?b) = (located regs)(?id \<mapsto> ?b)"
      using set_binding_ok [OF ok, where k = "new_binding_key regs (ac_username a)" and b = ?b,
          unfolded new_binding_id [OF adv]] free absent by blast+
    ultimately show ?thesis using ok None by (auto simp: eq locate_contact_def)
  next
    case (Some k)
    then obtain b0 where b0: "(k, b0) \<in> set regs" "binding_id b0 = ?id" using binding_key_Some by blast
    have unique: "k' = k" if "(k', b') \<in> set regs" "binding_id b' = ?id" for k' b'
      using binding_unique [OF ok that(1) b0(1)] that(2) b0(2) by simp
    have same: "binding_id b' = ?id" if "(k, b') \<in> set regs" for b'
      using binding_unique [OF ok that b0(1)] b0(2) by simp
    have "located (filter (\<lambda>(x, b). x \<noteq> k) regs) = (located regs)(?id := None)"
    proof (rule location_eqI)
      fix i c
      have "located (filter (\<lambda>(x, b). x \<noteq> k) regs) i = Some c
          \<longleftrightarrow> (\<exists>k'. (k', c) \<in> set regs \<and> k' \<noteq> k) \<and> binding_id c = i"
        by (simp add: located_filter [OF ok])
      also have "\<dots> \<longleftrightarrow> i \<noteq> ?id \<and> located regs i = Some c"
        using located_Some [OF ok, of i c] unique same by metis
      finally show "located (filter (\<lambda>(x, b). x \<noteq> k) regs) i = Some c
          \<longleftrightarrow> ((located regs)(?id := None)) i = Some c" by simp
    qed
    moreover have "bindings_ok (md_set regs k ?b)" "located (md_set regs k ?b) = (located regs)(?id \<mapsto> ?b)"
      using set_binding_ok [OF ok, where k = k and b = ?b, unfolded new_binding_id [OF adv], OF same unique] by simp_all
    ultimately show ?thesis using ok Some by (auto simp: eq locate_contact_def filter_bindings_ok)
  qed
  then show "bindings_ok ?regs" "located ?regs = locate_contact m a addr transport now cseq (located regs) p" by auto
qed

lemma apply_contacts_refine:
  assumes "bindings_ok regs" "list_all (\<lambda>p. pc_advertised p \<noteq> []) ps"
  shows "bindings_ok (foldl (apply_contact m a addr transport now cseq) regs ps)
    \<and> located (foldl (apply_contact m a addr transport now cseq) regs ps)
      = foldl (locate_contact m a addr transport now cseq) (located regs) ps"
  using assms by (induction ps arbitrary: regs) (simp_all add: apply_contact_refines)

section \<open>What is bound\<close>

lemma parse_expires_range: "0 \<le> d \<Longrightarrow> d \<le> 86400 \<Longrightarrow> 0 \<le> parse_expires raw d \<and> parse_expires raw d \<le> 86400"
  by (auto simp: parse_expires_def split: option.split)

lemma uri_str_nonempty: "uri_str u = Inr s \<Longrightarrow> s \<noteq> []"
  using uri_str_shape [of u s] by fastforce

lemma bindE_uri_str: "Inr [] \<noteq> bindE x uri_str"
  by (cases x) (simp, metis bindE_simps(2) uri_str_nonempty)

lemma register_contacts_range:
  assumes "(uri, expires, raw) \<in> set (register_contacts hs)"
  shows "uri \<noteq> [] \<and> 0 \<le> expires \<and> expires \<le> 86400"
proof -
  let ?d = "parse_expires (or_else (header hs ''Expires'') ''3600'') 3600"
  have d: "0 \<le> ?d" "?d \<le> 86400" using parse_expires_range [of 3600] by simp_all
  obtain v where "(uri, expires, raw) \<in> set (register_contact ?d v)"
    using assms by (auto simp: register_contacts_def)
  then show ?thesis
    using d parse_expires_range [OF d]
    by (auto simp: register_contact_def Let_def bindE_uri_str split: if_splits sum.splits)
qed

text \<open>The host of the source as a URI shows it.\<close>

definition flow_host :: "string \<times> int \<Rightarrow> string" where
  "flow_host addr =
     (let host = strip (fst addr) in
      if contains (CHR '':'') host \<and> \<not> startswith host ''['' then ''['' @ host @ '']'' else host)"

lemma contact_for_source_flow_pinned:
  assumes "contact_for_source_flow uri addr transport = Inr s"
  shows "\<exists>u. uri_str u = Inr s \<and> uri_host u = flow_host addr \<and> uri_port u = Some (snd addr)"
  using assms by (auto simp: contact_for_source_flow_def flow_host_def Let_def bindE_eq_Inr split: if_splits)

text \<open>A binding as a REGISTER of this account over this flow may make it: its contact points to the
  source of the request, its time is limited.\<close>

definition binding_for ::
  "readings \<Rightarrow> string \<times> int \<Rightarrow> string \<Rightarrow> sip_account \<Rightarrow> sip_registration \<Rightarrow> bool"
where
  "binding_for rd addr transport a b \<longleftrightarrow>
     sb_username b = ac_username a \<and> sb_source_host b = fst addr \<and> sb_source_port b = snd addr
     \<and> sb_transport b = transport
     \<and> (\<exists>u. uri_str u = Inr (sb_contact_uri b) \<and> uri_host u = flow_host addr \<and> uri_port u = Some (snd addr))
     \<and> rd_bind rd < sb_expires_at b \<and> sb_expires_at b \<le> rd_bind rd + 86400
     \<and> 0 \<le> sb_q b \<and> sb_q b \<le> 1"

definition sound_contact :: "string \<times> int \<Rightarrow> string \<Rightarrow> prepared_contact \<Rightarrow> bool" where
  "sound_contact addr transport p \<longleftrightarrow>
     pc_advertised p \<noteq> [] \<and> pc_expires p \<le> 86400 \<and> 0 \<le> pc_q p \<and> pc_q p \<le> 1
     \<and> (0 < pc_expires p \<longrightarrow>
          (\<exists>u. uri_str u = Inr (pc_contact_uri p) \<and> uri_host u = flow_host addr \<and> uri_port u = Some (snd addr)))"

lemma contact_q_range: "contact_q raw = Inr q \<Longrightarrow> 0 \<le> q \<and> q \<le> 1"
  by (auto simp: contact_q_def Let_def split: if_splits option.splits)

lemma prepare_contacts_sound:
  assumes "prepare_contacts addr transport seen cs = Inr ps"
    and "\<forall>(uri, expires, raw) \<in> set cs. uri \<noteq> [] \<and> 0 \<le> expires \<and> expires \<le> 86400"
  shows "list_all (sound_contact addr transport) ps \<and> map pc_advertised ps = map fst cs"
  using assms
proof (induction addr transport seen cs arbitrary: ps rule: prepare_contacts.induct)
  case (2 addr transport seen advertised expires raw contacts)
  show ?case
  proof (cases "advertised = ''*''")
    case True
    then show ?thesis using 2 by (auto simp: bindE_eq_Inr sound_contact_def)
  next
    case False
    then obtain q uri ps' where p: "contact_q raw = Inr q"
      "(if 0 < expires then contact_for_source_flow advertised addr transport else Inr []) = Inr uri"
      "prepare_contacts addr transport (lower advertised # seen) contacts = Inr ps'" "lower advertised \<notin> set seen"
      "ps = \<lparr> pc_advertised = advertised, pc_expires = expires, pc_contact_uri = uri, pc_q = q \<rparr> # ps'"
      using 2(3) by (auto simp: bindE_eq_Inr split: if_splits)
    have "list_all (sound_contact addr transport) ps' \<and> map pc_advertised ps' = map fst contacts"
      using 2(2) [OF False p(4) p(3)] 2(4) by simp
    moreover have "sound_contact addr transport (hd ps)"
      using p 2(4) contact_q_range [OF p(1)] contact_for_source_flow_pinned [of advertised addr transport uri]
      by (cases "0 < expires") (simp_all add: sound_contact_def)
    ultimately show ?thesis by (simp add: p(5))
  qed
qed simp

lemma new_binding_for:
  assumes "sound_contact addr transport p" "0 < pc_expires p"
  shows "binding_for rd addr transport a (new_binding m a addr transport (rd_bind rd) cseq p)"
  using assms by (simp add: binding_for_def new_binding_def sound_contact_def)

section \<open>The abstract registrar\<close>

text \<open>One request, at the map: it is refused or rejected without a change of what is alive, answered, or
  carried out for an authentic account alone.\<close>

type_synonym location_update = "string \<times> sip_registration option"

definition relocate :: "string \<Rightarrow> location_update list \<Rightarrow> location \<Rightarrow> location" where
  "relocate user updates L = foldl (\<lambda>L (contact, b). L((user, contact) := b)) L updates"

inductive location_step ::
  "readings \<Rightarrow> string \<times> int \<Rightarrow> string \<Rightarrow> (sip_account \<Rightarrow> bool) \<Rightarrow> location \<Rightarrow> bool \<Rightarrow> location \<Rightarrow> bool"
  for rd addr transport authentic L
where
  refuse: "location_step rd addr transport authentic L False L"
| reject: "authentic a \<Longrightarrow> location_step rd addr transport authentic L False (live_at (rd_expire rd) L)"
| reply: "authentic a \<Longrightarrow>
    location_step rd addr transport authentic L True (live_at (rd_contacts rd) (live_at (rd_expire rd) L))"
| unbind: "authentic a \<Longrightarrow>
    location_step rd addr transport authentic L True
      (live_at (rd_contacts rd) (unbound (lower (ac_username a)) (live_at (rd_expire rd) L)))"
| bind: "authentic a \<Longrightarrow> list_all (\<lambda>(contact, b). pred_option (binding_for rd addr transport a) b) updates \<Longrightarrow>
    location_step rd addr transport authentic L True
      (live_at (rd_contacts rd) (relocate (lower (ac_username a)) updates (live_at (rd_expire rd) L)))"

definition succeeded :: "exn + register_result \<Rightarrow> bool" where
  "succeeded out \<longleftrightarrow> (\<exists>res. out = Inr res \<and> rr_status res = 200)"

lemma succeeded_simps [simp]:
  "succeeded (Inr res) \<longleftrightarrow> rr_status res = 200"
  "\<not> succeeded (Inl e)"
  by (simp_all add: succeeded_def)

lemma ok_with_contacts_located:
  assumes "bindings_ok (sr_registrations r)"
  shows "bindings_ok (sr_registrations (fst (ok_with_contacts rd r a)))"
    "located (sr_registrations (fst (ok_with_contacts rd r a))) = live_at (rd_contacts rd) (located (sr_registrations r))"
    "succeeded (snd (ok_with_contacts rd r a))"
  using located_live [OF assms, of "rd_contacts rd"] by (simp_all add: ok_with_contacts_eq)

lemma relocate_contacts:
  "foldl (locate_contact m a addr transport now cseq) L ps
   = relocate (lower (ac_username a))
       (map (\<lambda>p. (contact_identity (pc_advertised p),
                  if pc_expires p \<le> 0 then None else Some (new_binding m a addr transport now cseq p))) ps) L"
  by (induction ps arbitrary: L) (simp_all add: relocate_def locate_contact_def)

lemma store_contacts_cases:
  assumes "store_contacts rd m a addr transport cseq w ps r = (r', out)"
  obtains (stale) "(r', out) = sip_result r 500 ''Server Internal Error'' [(''Retry-After'', ''0'')]"
  | (again) "(r', out) = ok_with_contacts rd r a"
  | (stored) r2 where "(r', out) = ok_with_contacts rd r2 a"
      "sr_registrations r2 = (if w then filter (\<lambda>(key, b). sb_user b \<noteq> lower (ac_username a)) (sr_registrations r)
         else foldl (apply_contact m a addr transport (rd_bind rd) cseq) (sr_registrations r) ps)"
proof -
  let ?verdict = "judge_cseq (registrations_of (sr_registrations r) (ac_username a))
    (strip (header (msg_headers m) ''Call-ID'')) cseq ps"
  note step = assms [unfolded store_contacts_def Let_def, symmetric]
  show thesis
  proof (cases ?verdict)
    case Cseq_fresh
    then show thesis using step by (auto intro: stored)
  next
    case Cseq_stale
    then show thesis using step by (auto intro: stale)
  next
    case Cseq_retransmission
    then show thesis using step by (auto intro: again)
  qed
qed

lemma store_contacts_refines:
  assumes ok: "bindings_ok (sr_registrations r)" and live_bindings: "located (sr_registrations r) = live_at (rd_expire rd) L"
    and a: "authentic a" and sound: "list_all (sound_contact addr transport) ps"
    and step: "store_contacts rd m a addr transport cseq w ps r = (r', out)"
  shows "bindings_ok (sr_registrations r')
    \<and> location_step rd addr transport authentic L (succeeded out) (located (sr_registrations r'))"
proof -
  let ?user = "lower (ac_username a)"
  from step show ?thesis
  proof (cases rule: store_contacts_cases)
    case stale
    then have "r' = fst (sip_result r 500 ''Server Internal Error'' [(''Retry-After'', ''0'')])" "\<not> succeeded out"
      by (auto simp: sip_result_def succeeded_def)
    then show ?thesis using ok live_bindings reject [of authentic a rd addr transport L] a by simp
  next
    case again
    then have eq: "r' = fst (ok_with_contacts rd r a)" "out = snd (ok_with_contacts rd r a)" by (auto dest: sym)
    show ?thesis
      using ok_with_contacts_located [OF ok, of rd a] live_bindings reply [of authentic a rd addr transport L] a by (simp add: eq)
  next
    case (stored r2)
    then have eq: "r' = fst (ok_with_contacts rd r2 a)" "out = snd (ok_with_contacts rd r2 a)" by (auto dest: sym)
    show ?thesis
    proof (cases w)
      case True
      then have all: "sr_registrations r2 = filter (\<lambda>(key, b). sb_user b \<noteq> ?user) (sr_registrations r)"
        using stored(2) by simp
      have ok2: "bindings_ok (sr_registrations r2)" using ok by (simp add: all filter_bindings_ok)
      show ?thesis
        using ok_with_contacts_located [OF ok2, of rd a] located_unbound [OF ok, of ?user] live_bindings
          unbind [of authentic a rd addr transport L] a by (simp add: eq all)
    next
      case False
      then have some: "sr_registrations r2
          = foldl (apply_contact m a addr transport (rd_bind rd) cseq) (sr_registrations r) ps"
        using stored(2) by simp
      have "list_all (\<lambda>p. pc_advertised p \<noteq> []) ps" using sound by (simp add: list_all_iff sound_contact_def)
      note refined = apply_contacts_refine [OF ok this, of m a addr transport "rd_bind rd" cseq, folded some]
      then have ok2: "bindings_ok (sr_registrations r2)" by blast
      let ?ups = "map (\<lambda>p. (contact_identity (pc_advertised p), if pc_expires p \<le> 0 then None
        else Some (new_binding m a addr transport (rd_bind rd) cseq p))) ps"
      have "list_all (\<lambda>(contact, b). pred_option (binding_for rd addr transport a) b) ?ups"
        using sound by (auto simp: list_all_iff new_binding_for)
      from bind [of authentic a rd addr transport ?ups L, OF a this] show ?thesis
        using ok_with_contacts_located [OF ok2, of rd a] refined live_bindings by (simp add: eq relocate_contacts)
    qed
  qed
qed

lemma register_authorized_cases:
  assumes "register_authorized rd m a addr transport r = (r', out)"
  obtains (bad) "(r', out) = sip_result r 400 ''Bad Request'' []"
  | (bad_contacts) "(r', out) = sip_result (fst (expire_bindings (rd_expire rd) r)) 400 ''Bad Request'' []"
  | (fetch) "(r', out) = ok_with_contacts rd (fst (expire_bindings (rd_expire rd) r)) a"
  | (store) cseq w ps where "prepare_contacts addr transport [] (register_contacts (msg_headers m)) = Inr ps"
      "register_cseq (msg_headers m) = Inr cseq"
      "w = list_ex (\<lambda>(uri, _). uri = ''*'') (register_contacts (msg_headers m))"
      "store_contacts rd m a addr transport cseq w ps (fst (expire_bindings (rd_expire rd) r)) = (r', out)"
proof -
  note step = assms [unfolded register_authorized_def Let_def, symmetric]
  show thesis
  proof (cases "register_cseq (msg_headers m)")
    case (Inl e)
    then show thesis using step bad by simp
  next
    case (Inr cseq)
    note step' = step [unfolded Inr sum.case]
    show thesis
    proof (cases "prepare_contacts addr transport [] (register_contacts (msg_headers m))")
      case Inl': (Inl e)
      then show thesis
        using step' by (auto split: if_splits intro: bad bad_contacts fetch)
    next
      case Inr': (Inr ps)
      then show thesis
        using step' store [OF Inr' Inr refl] by (auto split: if_splits intro: bad bad_contacts fetch dest: sym)
    qed
  qed
qed

lemma register_authorized_refines:
  assumes ok: "bindings_ok (sr_registrations r)" and a: "authentic a"
    and step: "register_authorized rd m a addr transport r = (r', out)"
  shows "bindings_ok (sr_registrations r')
    \<and> location_step rd addr transport authentic (located (sr_registrations r)) (succeeded out)
        (located (sr_registrations r'))"
proof -
  let ?L = "located (sr_registrations r)"
  let ?r1 = "fst (expire_bindings (rd_expire rd) r)"
  note live_bindings = located_live [OF ok, of "rd_expire rd"]
  have ok1: "bindings_ok (sr_registrations ?r1)" and L1: "located (sr_registrations ?r1) = live_at (rd_expire rd) ?L"
    using live_bindings by simp_all
  from step show ?thesis
  proof (cases rule: register_authorized_cases)
    case bad
    then have "r' = fst (sip_result r 400 ''Bad Request'' [])" "\<not> succeeded out"
      by (auto simp: sip_result_def)
    then show ?thesis using ok refuse by simp
  next
    case bad_contacts
    then have "r' = fst (sip_result ?r1 400 ''Bad Request'' [])" "\<not> succeeded out"
      by (auto simp: sip_result_def)
    then show ?thesis using ok1 L1 reject [of authentic a rd addr transport ?L] a by simp
  next
    case fetch
    then have "r' = fst (ok_with_contacts rd ?r1 a)" "out = snd (ok_with_contacts rd ?r1 a)" by (auto dest: sym)
    then show ?thesis
      using ok_with_contacts_located [OF ok1, of rd a] L1 reply [of authentic a rd addr transport ?L] a by simp
  next
    case (store cseq w ps)
    have sound: "list_all (sound_contact addr transport) ps"
      using prepare_contacts_sound [OF store(1)] register_contacts_range by blast
    show ?thesis
      by (rule store_contacts_refines [where authentic = authentic, OF ok1 L1 a sound store(4)])
  qed
qed
end
