(* ===== verification/Registrar_Nonces.thy ===== *)
theory Registrar_Nonces
  imports Sip_Registrar
begin

text \<open>
  The digest challenges of \<open>sip_registrar.py\<close> with the client side of \<open>sip_auth.py\<close>: the bounded memory of nonces and
  nonce counts, and the phone that answers a challenge.
\<close>

section \<open>The memory of nonces\<close>

definition nonces_ok :: "sip_registrar \<Rightarrow> bool" where
  "nonces_ok r \<longleftrightarrow>
     distinct (map fst (sr_nonces r)) \<and> length (sr_nonces r) \<le> MAX_ACTIVE_NONCES
     \<and> distinct (map fst (sr_nonce_uses r)) \<and> length (sr_nonce_uses r) \<le> MAX_NONCE_USE_RECORDS
     \<and> distinct (map fst (sr_source_nonces r)) \<and> distinct (map snd (sr_source_nonces r))
     \<and> use_nonce ` set (sr_nonce_uses r) \<subseteq> fst ` set (sr_nonces r)
     \<and> snd ` set (sr_source_nonces r) \<subseteq> fst ` set (sr_nonces r)"

lemma nonces_ok_cong:
  assumes "sr_nonces r' = sr_nonces r" "sr_nonce_uses r' = sr_nonce_uses r"
    "sr_source_nonces r' = sr_source_nonces r"
  shows "nonces_ok r' = nonces_ok r"
  using assms by (simp add: nonces_ok_def)

lemma length_filter_bound: "length xs \<le> n \<Longrightarrow> length (filter P xs) \<le> n"
  using length_filter_le [of P xs] by linarith

lemma prune_nonces_ok: "nonces_ok r \<Longrightarrow> nonces_ok (prune_nonces now r)"
  by (auto simp: nonces_ok_def prune_nonces_def Let_def distinct_map_filter length_filter_bound)
    (force simp: image_iff)

lemma evict_nonces_spec:
  "evict_nonces nonces uses sources = (nonces', uses', sources') \<Longrightarrow>
   (\<exists>gone. nonces = gone @ nonces' \<and> uses' = filter (\<lambda>u. use_nonce u \<notin> fst ` set gone) uses
      \<and> sources' = filter (\<lambda>s. snd s \<notin> fst ` set gone) sources)
   \<and> length nonces' < MAX_ACTIVE_NONCES"
proof (induction nonces uses sources rule: evict_nonces.induct)
  case (1 uses sources)
  then show ?case by (auto simp: MAX_ACTIVE_NONCES_def)
next
  case (2 expired expiry nonces uses sources)
  show ?case
  proof (cases "MAX_ACTIVE_NONCES \<le> Suc (length nonces)")
    case True
    then obtain gone where "nonces = gone @ nonces'"
      "uses' = filter (\<lambda>u. use_nonce u \<notin> fst ` set gone) (filter (\<lambda>u. use_nonce u \<noteq> expired) uses)"
      "sources' = filter (\<lambda>s. snd s \<notin> fst ` set gone) (filter (\<lambda>(source, nonce). nonce \<noteq> expired) sources)"
      "length nonces' < MAX_ACTIVE_NONCES"
      using 2 by auto
    then show ?thesis
      by (intro conjI exI [of _ "(expired, expiry) # gone"]) (auto simp: case_prod_beta intro!: filter_cong)
  next
    case False
    then show ?thesis using 2(2) by (auto intro!: exI [of _ "[]"])
  qed
qed

lemma evict_nonces_ok:
  assumes ok: "nonces_ok r"
    and evict: "evict_nonces (sr_nonces r) (sr_nonce_uses r) (sr_source_nonces r) = (nonces, uses, sources)"
  shows "nonces_ok (r\<lparr> sr_nonces := nonces, sr_nonce_uses := uses, sr_source_nonces := sources \<rparr>)
    \<and> length nonces < MAX_ACTIVE_NONCES \<and> set nonces \<subseteq> set (sr_nonces r)"
proof -
  obtain gone where spec: "sr_nonces r = gone @ nonces"
    "uses = filter (\<lambda>u. use_nonce u \<notin> fst ` set gone) (sr_nonce_uses r)"
    "sources = filter (\<lambda>s. snd s \<notin> fst ` set gone) (sr_source_nonces r)" "length nonces < MAX_ACTIVE_NONCES"
    using evict_nonces_spec [OF evict] by blast
  then show ?thesis
    using ok by (auto simp: nonces_ok_def distinct_map_filter length_filter_bound) 
qed

lemma md_set_values:
  assumes "distinct (map snd xs)" "v \<notin> snd ` set xs"
  shows "distinct (map snd (md_set xs k v)) \<and> snd ` set (md_set xs k v) \<subseteq> insert v (snd ` set xs)"
  using assms by (induction xs k v rule: md_set.induct) auto

lemma md_set_keys: "fst ` set (md_set xs k v) = insert k (fst ` set xs)"
  by (induction xs k v rule: md_set.induct) auto

lemma length_md_set: "length (md_set xs k v) \<le> Suc (length xs)"
  by (induction xs k v rule: md_set.induct) auto

lemma add_nonce_ok:
  assumes ok: "nonces_ok r" and room: "length (sr_nonces r) < MAX_ACTIVE_NONCES"
    and fresh: "token \<notin> fst ` set (sr_nonces r)"
    and sources: "sources = sr_source_nonces r \<or> sources = md_set (sr_source_nonces r) source token"
  shows "nonces_ok (r\<lparr> sr_nonces := md_set (sr_nonces r) token expiry, sr_source_nonces := sources \<rparr>)"
proof -
  have token: "token \<notin> snd ` set (sr_source_nonces r)" using ok fresh by (auto simp: nonces_ok_def)
  note keys = md_set_keys [of "sr_nonces r" token expiry]
  have len: "length (md_set (sr_nonces r) token expiry) \<le> MAX_ACTIVE_NONCES"
    using room length_md_set [of "sr_nonces r" token expiry] by linarith
  have old: "distinct (map fst (sr_source_nonces r))" "distinct (map snd (sr_source_nonces r))"
    "snd ` set (sr_source_nonces r) \<subseteq> fst ` set (sr_nonces r)"
    using ok by (simp_all add: nonces_ok_def)
  have src: "distinct (map fst sources)" "distinct (map snd sources)"
    "snd ` set sources \<subseteq> insert token (fst ` set (sr_nonces r))"
    using sources old md_set_values [OF old(2) token, of source] distinct_md_set [OF old(1)]
    by (elim disjE, simp_all, blast, blast)
  show ?thesis
    using ok src len keys by (auto simp: nonces_ok_def distinct_md_set)
qed

lemma issue_challenge_ok:
  assumes ok: "nonces_ok r" and fresh: "token \<notin> fst ` set (sr_nonces r)"
  shows "nonces_ok (fst (issue_challenge token t t' source r))"
proof -
  let ?r = "prune_nonces t r"
  obtain nonces uses sources
    where evict: "evict_nonces (sr_nonces ?r) (sr_nonce_uses ?r) (sr_source_nonces ?r) = (nonces, uses, sources)"
    by (metis prod_cases3)
  let ?e = "?r\<lparr> sr_nonces := nonces, sr_nonce_uses := uses, sr_source_nonces := sources \<rparr>"
  have e: "nonces_ok ?e" "length nonces < MAX_ACTIVE_NONCES" "set nonces \<subseteq> set (sr_nonces ?r)"
    using evict_nonces_ok [OF prune_nonces_ok [OF ok] evict] by auto
  have "set (sr_nonces ?r) \<subseteq> set (sr_nonces r)" by (auto simp: prune_nonces_def Let_def)
  then have "token \<notin> fst ` set nonces" using fresh e(3) by blast
  then have "nonces_ok (?e\<lparr> sr_nonces := md_set nonces token (t' + NONCE_TTL),
      sr_source_nonces := (if source = [] then sources else md_set sources source token) \<rparr>)"
    using e add_nonce_ok [of ?e token "if source = [] then sources else md_set sources source token" source] by simp
  then have "nonces_ok (?r\<lparr> sr_nonces := md_set nonces token (t' + NONCE_TTL), sr_nonce_uses := uses,
      sr_source_nonces := (if source = [] then sources else md_set sources source token) \<rparr>)"
    by (simp add: nonces_ok_def)
  then show ?thesis
    using prune_nonces_ok [OF ok, of t] evict by (simp add: issue_challenge_def Let_def)
qed

lemma evict_uses_spec: "(\<exists>gone. uses = gone @ evict_uses uses) \<and> length (evict_uses uses) < MAX_NONCE_USE_RECORDS"
proof (induction uses)
  case (Cons u uses)
  then show ?case by (cases "MAX_NONCE_USE_RECORDS \<le> Suc (length uses)") (auto intro: exI [of _ "u # x" for x])
qed (simp add: MAX_NONCE_USE_RECORDS_def)

lemma uses_active:
  assumes "fst ` set us \<subseteq> insert key (fst ` U)" "use_nonce ` U \<subseteq> N" "fst key \<in> N"
  shows "use_nonce ` set us \<subseteq> N"
proof (rule image_subsetI)
  fix u
  assume "u \<in> set us"
  then have "fst u = key \<or> fst u \<in> fst ` U" using assms(1) by blast
  then show "use_nonce u \<in> N" using assms(2,3) by (elim disjE imageE) (auto simp: subset_iff image_iff)
qed

lemma remember_use_ok:
  assumes ok: "nonces_ok r" and active: "fst key \<in> fst ` set (sr_nonces r)"
  shows "nonces_ok (remember_use key count fp r)"
proof -
  let ?uses = "sr_nonce_uses r"
  let ?room = "if key \<in> fst ` set ?uses then ?uses else evict_uses ?uses"
  obtain gone where gone: "?uses = gone @ evict_uses ?uses" using evict_uses_spec by blast
  have sub: "set (evict_uses ?uses) \<subseteq> set ?uses" "distinct (map fst (evict_uses ?uses))"
    using gone ok by (metis set_append sup_ge2) (metis gone ok distinct_append map_append nonces_ok_def)
  have "length (md_set ?room key (count, fp)) \<le> MAX_NONCE_USE_RECORDS"
  proof (cases "key \<in> fst ` set ?uses")
    case True
    then have "length (md_set ?uses key (count, fp)) = length ?uses"
      using keys_md_set [of ?uses key "(count, fp)"] by (metis append_Nil2 length_map)
    then show ?thesis using True ok by (simp add: nonces_ok_def)
  next
    case False
    then show ?thesis using length_md_set [of ?room key "(count, fp)"] evict_uses_spec [of ?uses]
      by (simp add: nonces_ok_def)
  qed
  moreover have "distinct (map fst (md_set ?room key (count, fp)))"
    using sub(2) ok by (auto simp: nonces_ok_def intro: distinct_md_set)
  moreover have "fst ` set (md_set ?room key (count, fp)) \<subseteq> insert key (fst ` set ?uses)"
    using sub(1) by (auto simp: md_set_keys)
  then have "use_nonce ` set (md_set ?room key (count, fp)) \<subseteq> fst ` set (sr_nonces r)"
    using ok active by (intro uses_active) (auto simp: nonces_ok_def)
  ultimately have "nonces_ok (r\<lparr> sr_nonce_uses := md_set ?room key (count, fp) \<rparr>)"
    using ok by (simp add: nonces_ok_def)
  then show ?thesis by (simp add: remember_use_def Let_def)
qed

lemma check_nonce_use_ok:
  "nonces_ok r \<Longrightarrow> fst key \<in> fst ` set (sr_nonces r) \<Longrightarrow> nonces_ok (fst (check_nonce_use key count fp r))"
  by (simp add: check_nonce_use_def remember_use_ok split: option.split)

text \<open>The credentials in a request prove the password of the account to this nonce.\<close>

definition presents_digest :: "(string \<Rightarrow> string) \<Rightarrow> sip_message \<Rightarrow> sip_account \<Rightarrow> string \<Rightarrow> string \<Rightarrow> string \<Rightarrow> bool" where
  "presents_digest md5 m a nonce nc cnonce \<longleftrightarrow>
     (let params = parse_digest_challenge (header (msg_headers m) ''Authorization'') in
      param_or params ''nonce'' [] = nonce \<and> param_or params ''nc'' [] = nc \<and> param_or params ''cnonce'' [] = cnonce
      \<and> param_or params ''response'' [] = digest_response md5 a REALM nonce nc cnonce ''auth'' (msg_uri m))"

lemma check_authorization_cases:
  assumes "check_authorization md5 now m a addr transport r = (r1, out)"
  obtains (refused) "r1 = prune_nonces now r" "out \<noteq> Inr True"
  | (checked) nonce nc cnonce count where
      "presents_digest md5 m a nonce nc cnonce" "nonce \<in> fst ` set (sr_nonces (prune_nonces now r))"
      "py_int_hex nc = Some count" "0 < count"
      "check_nonce_use (nonce, lower (ac_username a), cnonce) count (register_fingerprint m addr transport)
         (prune_nonces now r) = (r1, out)"
proof -
  let ?params = "parse_digest_challenge (header (msg_headers m) ''Authorization'')"
  let ?p = "prune_nonces now r"
  show thesis
  proof (cases "r1 = ?p \<and> out \<noteq> Inr True")
    case True
    then show thesis using refused by blast
  next
    case False
    note step = assms [unfolded check_authorization_def valid_nonce_def Let_def prod.case]
    have valid: "param_or ?params ''nonce'' [] \<in> fst ` set (sr_nonces ?p)"
      using step False by (auto split: if_splits)
    have checks: "param_or ?params ''realm'' REALM = REALM" "param_or ?params ''uri'' (msg_uri m) = msg_uri m"
      "lower (param_or ?params ''qop'' []) = ''auth''"
      using step False by (auto split: if_splits)
    obtain count where count: "py_int_hex (param_or ?params ''nc'' []) = Some count"
      using step False by (auto split: if_splits option.splits)
    have positive: "0 < count"
      using step False count by (auto split: if_splits)
    show thesis
      using step False count positive checks valid
      by (intro checked [of "param_or ?params ''nonce'' []" "param_or ?params ''nc'' []" "param_or ?params ''cnonce'' []" count])
        (auto simp: presents_digest_def Let_def compare_digest_def split: if_splits)
  qed
qed

lemma check_authorization_ok:
  assumes "nonces_ok r"
  shows "nonces_ok (fst (check_authorization md5 now m a addr transport r))"
proof -
  obtain r1 out where c: "check_authorization md5 now m a addr transport r = (r1, out)" by fastforce
  note ok = prune_nonces_ok [OF assms, of now]
  from c have "nonces_ok r1"
  proof (cases rule: check_authorization_cases)
    case (checked nonce nc cnonce count)
    then show ?thesis
      using check_nonce_use_ok [OF ok, of "(nonce, lower (ac_username a), cnonce)"] by (metis fst_conv)
  qed (simp add: ok)
  then show ?thesis by (simp add: c)
qed
section \<open>A challenge is answered\<close>

lemma challenge_read_back:
  assumes "plain_text nonce"
  shows "parse_digest_challenge (challenge_text nonce)
    = [(''realm'', REALM), (''nonce'', nonce), (''algorithm'', ''MD5''), (''qop'', ''auth'')]"
proof -
  let ?items = "[(True, ''realm'', REALM), (True, ''nonce'', nonce), (False, ''algorithm'', ''MD5''),
    (True, ''qop'', ''auth'')]"
  have literals: "plain_text REALM" "plain_text ''MD5''" "plain_text ''auth''"
    by (simp_all add: plain_text_def DQUOTE_def BSLASH_def REALM_def)
  have "list_all good_item ?items"
    using literals assms by (simp add: good_item_def) code_simp
  moreover have "challenge_text nonce = ''Digest '' @ join '', '' (map item_text ?items)"
    by (simp add: challenge_text_def item_text_def)
  ultimately show ?thesis
    using parse_digest_items [of ?items] by simp
qed

lemma credentials_accepted:
  assumes params: "parse_digest_challenge (header (msg_headers m) ''Authorization'')
      = [(''username'', ac_username a), (''realm'', REALM), (''nonce'', nonce), (''uri'', msg_uri m),
         (''response'', digest_response md5 a REALM nonce ''00000001'' cnonce ''auth'' (msg_uri m)),
         (''algorithm'', ''MD5''), (''qop'', ''auth''), (''nc'', ''00000001''), (''cnonce'', cnonce)]"
    and nonce: "nonce \<noteq> []" "(nonce, expiry) \<in> set (sr_nonces r)" "now < expiry"
    and cnonce: "cnonce \<noteq> []" "length cnonce \<le> 128"
    and md5: "\<And>x. ascii_text (md5 x)"
    and unused: "(nonce, lower (ac_username a), cnonce) \<notin> fst ` set (sr_nonce_uses r)"
  shows "\<exists>r1. check_authorization md5 now m a addr transport r = (r1, Inr True)
    \<and> sr_registrations r1 = sr_registrations r \<and> sr_accounts r1 = sr_accounts r"
proof -
  let ?key = "(nonce, lower (ac_username a), cnonce)"
  have evaluated: "lower ''auth'' = ''auth''" "upper ''MD5'' = ''MD5''" "py_int_hex ''00000001'' = Some 1"
    by code_simp+
  have valid: "valid_nonce now nonce r = (prune_nonces now r, True)"
    using nonce by (force simp: valid_nonce_def prune_nonces_def Let_def image_iff)
  have "?key \<notin> fst ` set (sr_nonce_uses (prune_nonces now r))"
    using unused by (auto simp: prune_nonces_def Let_def)
  then have fresh: "assoc (sr_nonce_uses (prune_nonces now r)) ?key = None"
    by (metis assoc_Some_in image_eqI fst_conv option.exhaust_sel)
  have digest: "ascii_text (digest_response md5 a REALM nonce ''00000001'' cnonce ''auth'' (msg_uri m))"
    by (simp add: digest_response_def Let_def md5)
  show ?thesis
    using cnonce fresh digest
    by (simp add: check_authorization_def params param_or_def valid evaluated compare_digest_def check_nonce_use_def
        Let_def) (simp add: remember_use_def prune_nonces_def Let_def)
qed

text \<open>A phone that answers the registrar's challenge with the password of its account is let in: the
  credentials the client code builds are read back and accepted, so that the REGISTER is handled as that
  of the account, with the bindings and the accounts as they were.\<close>

lemma challenged_phone_is_admitted:
  assumes creds: "build_digest_authorization md5 cnonce (challenge_text nonce) (ac_username a) (ac_password a) ''REGISTER'' (msg_uri m) []
      = Inr creds"
    and sent: "header (msg_headers m) ''Authorization'' = creds"
    and account: "assoc (sr_accounts r1) (lower (ac_username a)) = Some a" "ac_enabled a" "sr_enabled r1"
      "ac_username a \<noteq> []"
    and target: "parse_sip_uri (msg_uri m) = Inr u" "extract_register_username m = Inr username"
      "lower username = lower (ac_username a)"
    and texts: "plain_text (ac_username a)" "plain_text (msg_uri m)" "plain_text nonce" "plain_text cnonce"
    and nonce: "nonce \<noteq> []" "(nonce, expiry) \<in> set (sr_nonces r1)" "rd_check rd < expiry"
    and cnonce: "cnonce \<noteq> []" "length cnonce \<le> 128"
    and md5: "\<And>x. ascii_text (md5 x) \<and> plain_text (md5 x)"
    and unused: "(nonce, lower (ac_username a), cnonce) \<notin> fst ` set (sr_nonce_uses r1)"
  shows "\<exists>r2. handle_register md5 token' rd m addr transport r1 = register_authorized rd m a addr transport r2
    \<and> sr_registrations r2 = sr_registrations r1 \<and> sr_accounts r2 = sr_accounts r1"
proof -
  let ?r = "r1\<lparr> sr_last_event := ''REGISTER'' \<rparr>"
  have "plain_text REALM" by (simp add: plain_text_def DQUOTE_def BSLASH_def REALM_def)
  moreover have "upper ''REGISTER'' = ''REGISTER''" by code_simp
  ultimately have params: "parse_digest_challenge (header (msg_headers m) ''Authorization'')
      = [(''username'', ac_username a), (''realm'', REALM), (''nonce'', nonce), (''uri'', msg_uri m),
         (''response'', digest_response md5 a REALM nonce ''00000001'' cnonce ''auth'' (msg_uri m)),
         (''algorithm'', ''MD5''), (''qop'', ''auth''), (''nc'', ''00000001''), (''cnonce'', cnonce)]"
    using credentials_read_back [OF challenge_read_back [OF texts(3)], of "ac_username a" "msg_uri m" cnonce md5
        "ac_password a" "''REGISTER''"] texts account(4) md5 creds sent
    by (auto simp: digest_response_def Let_def)
  obtain r2 where "check_authorization md5 (rd_check rd) m a addr transport ?r = (r2, Inr True)"
    "sr_registrations r2 = sr_registrations ?r" "sr_accounts r2 = sr_accounts ?r"
    using credentials_accepted [OF params nonce(1) _ nonce(3) cnonce, where r = ?r and addr = addr
        and transport = transport] nonce(2) md5 unused by auto
  then show ?thesis
    using account target by (auto simp: handle_register_def Let_def)
qed
end
