(* ===== verification/Registrar_State.thy ===== *)
theory Registrar_State
  imports Registrar_Bindings Registrar_Nonces
begin

text \<open>
  The registrar of \<open>sip_registrar.py\<close> as a state machine: the registrars that any sequence of requests, account
  updates, removals and queries can reach, and what holds of all of them.
\<close>

section \<open>Accounts\<close>

definition accounts_ok :: "accounts \<Rightarrow> bool" where
  "accounts_ok accs \<longleftrightarrow> distinct (map fst accs) \<and> list_all (\<lambda>(k, a). lower (ac_username a) = k) accs"

lemma accounts_by_name_ok: "accounts_ok (accounts_by_name as)"
proof (induction as rule: rev_induct)
  case (snoc a as)
  let ?d = "accounts_by_name as"
  have "distinct (map fst ?d)" using snoc by (simp add: accounts_ok_def)
  then have "accounts_ok (md_set ?d (lower (ac_username a)) a)"
    using snoc by (auto simp: accounts_ok_def distinct_md_set set_md_set list_all_iff)
  then show ?case by (simp add: accounts_by_name_def)
qed (simp add: accounts_by_name_def accounts_ok_def)

lemma accounts_lookup: "accounts_ok accs \<Longrightarrow> assoc accs k = Some a \<Longrightarrow> lower (ac_username a) = k"
  by (auto simp: accounts_ok_def list_all_iff dest!: assoc_Some_in)

section \<open>A change of the accounts\<close>

lemma renamed_id:
  "lower u = sb_user b \<Longrightarrow> binding_id (b\<lparr> sb_username := u \<rparr>) = binding_id b"
  by (simp add: binding_id_def bound_contact_def)

lemma retain_bindings_ids:
  assumes "retain_bindings previous accs regs = (regs', out)" "accounts_ok accs"
  shows "map fst regs' = map fst regs \<and> map (binding_id \<circ> snd) regs' = map (binding_id \<circ> snd) regs
    \<and> (\<forall>kept. out = Inr kept \<longrightarrow> subseq (map binding_id kept) (map (binding_id \<circ> snd) regs))"
  using assms(1)
proof (induction regs arbitrary: regs' out)
  case (Cons kb bs)
  obtain k b where kb: "kb = (k, b)" by fastforce
  obtain rest r where rest: "retain_bindings previous accs bs = (rest, r)" by fastforce
  note IH = Cons.IH [OF rest]
  consider "(regs', out) = ((k, b) # rest, r)" | e where "(regs', out) = ((k, b) # bs, Inl e)"
    | a where "assoc accs (sb_user b) = Some a"
        "(regs', out) = ((k, b\<lparr> sb_username := ac_username a \<rparr>) # rest,
           bindE r (\<lambda>kept. Inr (b\<lparr> sb_username := ac_username a \<rparr> # kept)))"
    using Cons.prems by (auto simp: kb rest Let_def split: option.splits if_splits sum.splits)
  then show ?case
  proof cases
    case 1
    then show ?thesis using IH by (auto simp: kb)
  next
    case 2
    then show ?thesis by (auto simp: kb)
  next
    case (3 a)
    have "binding_id (b\<lparr> sb_username := ac_username a \<rparr>) = binding_id b"
      using accounts_lookup [OF assms(2) 3(1)] by (rule renamed_id)
    then show ?thesis using IH 3 by (auto simp: kb bindE_eq_Inr)
  qed
qed simp

lemma append_at_values:
  "set (concat (map snd (append_at d k v))) = insert v (set (concat (map snd d)))
   \<and> (distinct (map f (concat (map snd d))) \<and> f v \<notin> f ` set (concat (map snd d)) \<longrightarrow>
        distinct (map f (concat (map snd (append_at d k v)))))"
proof (induction d)
  case (Cons x d)
  obtain a w where x: "x = (a, w)" by fastforce
  show ?case
  proof (cases "a = k")
    case True
    then show ?thesis by (auto simp: append_at_def x)
  next
    case False
    then have "append_at (x # d) k v = x # append_at d k v" by (auto simp: append_at_def x)
    then show ?thesis using Cons x by auto
  qed
qed (simp add: append_at_def)

lemma grouped_values:
  assumes "distinct (map f bs)"
  shows "set (concat (map snd (foldl (\<lambda>d b. append_at d (key b) b) [] bs))) = set bs
    \<and> distinct (map f (concat (map snd (foldl (\<lambda>d b. append_at d (key b) b) [] bs))))"
  using assms
proof (induction bs rule: rev_induct)
  case (snoc b bs)
  then show ?case using append_at_values [of "foldl (\<lambda>d b. append_at d (key b) b) [] bs" "key b" b f] by auto
qed simp

text \<open>Storing values one after the other keeps one binding for each contact.\<close>

lemma store_all_ok:
  assumes "distinct (map (f \<circ> snd) kvs)"
  shows "distinct (map fst (foldl (\<lambda>regs (k, v). md_set regs k v) [] kvs))
    \<and> set (foldl (\<lambda>regs (k, v). md_set regs k v) [] kvs) \<subseteq> set kvs"
proof (induction kvs rule: rev_induct)
  case (snoc kv kvs)
  obtain k v where kv: "kv = (k, v)" by fastforce
  then show ?case using snoc by (auto simp: distinct_md_set set_md_set)
qed simp

lemma bindings_okI:
  assumes "distinct (map fst regs)" "set regs \<subseteq> set kvs" "distinct (map (binding_id \<circ> snd) kvs)"
  shows "bindings_ok regs"
proof -
  have "distinct regs" using assms(1) by (simp add: distinct_map)
  moreover have "inj_on (binding_id \<circ> snd) (set regs)"
    using assms(2,3) by (auto simp: distinct_map intro: inj_on_subset)
  ultimately show ?thesis using assms(1) by (simp add: bindings_ok_def distinct_map)
qed

definition rekeyed_items :: "accounts \<Rightarrow> (string \<times> sip_registration list) list \<Rightarrow> (string \<times> sip_registration) list" where
  "rekeyed_items accs groups = concat (map (\<lambda>(wanted, bs).
     case assoc accs wanted of
       None \<Rightarrow> []
     | Some a \<Rightarrow> map (\<lambda>(index, b). (binding_name (ac_username a) index, b)) (enumerate 0 bs)) groups)"

lemma rekey_bindings_items:
  "rekey_bindings accs kept
   = foldl (\<lambda>regs (k, b). md_set regs k b) [] (rekeyed_items accs (foldl (\<lambda>d b. append_at d (sb_user b) b) [] kept))"
proof -
  have "foldl (\<lambda>regs (wanted, bs). case assoc accs wanted of None \<Rightarrow> regs
        | Some account \<Rightarrow> foldl (\<lambda>regs (index, b). md_set regs (binding_name (ac_username account) index) b)
            regs (enumerate 0 bs)) regs groups
      = foldl (\<lambda>regs (k, b). md_set regs k b) regs (rekeyed_items accs groups)" for regs groups
    by (induction groups arbitrary: regs)
      (auto simp: rekeyed_items_def foldl_map split_def split: option.split)
  then show ?thesis by (simp add: rekey_bindings_def Let_def)
qed

lemma rekeyed_items_values: "subseq (map snd (rekeyed_items accs groups)) (concat (map snd groups))"
proof (induction groups)
  case (Cons g groups)
  obtain wanted bs where g: "g = (wanted, bs)" by fastforce
  have "map snd (map (\<lambda>(index, b). (name index, b)) (enumerate 0 bs)) = bs" for name :: "nat \<Rightarrow> string"
    by (simp add: comp_def case_prod_beta)
  then show ?case
    using Cons by (auto simp: rekeyed_items_def g list_emb_append_mono split: option.split)
qed (simp add: rekeyed_items_def)

lemma subseq_distinct: "subseq xs ys \<Longrightarrow> distinct ys \<Longrightarrow> distinct xs"
  by (metis subseq_conv_nths distinct_nthsI)

lemma rekey_bindings_ok:
  assumes "distinct (map binding_id kept)"
  shows "bindings_ok (rekey_bindings accs kept)"
proof -
  let ?groups = "foldl (\<lambda>d b. append_at d (sb_user b) b) [] kept"
  have "subseq (map binding_id (map snd (rekeyed_items accs ?groups))) (map binding_id (concat (map snd ?groups)))"
    using rekeyed_items_values by (rule subseq_map)
  then have ids: "distinct (map (binding_id \<circ> snd) (rekeyed_items accs ?groups))"
    using grouped_values [OF assms, of sb_user] by (simp add: subseq_distinct)
  note store_all_ok [OF ids, folded rekey_bindings_items]
  then show ?thesis using bindings_okI ids by blast
qed

lemma update_accounts_ok:
  assumes "bindings_ok (sr_registrations r)"
  shows "bindings_ok (sr_registrations (fst (update_accounts as r)))"
    "sr_accounts (fst (update_accounts as r)) = accounts_by_name as"
    "sr_nonces (fst (update_accounts as r)) = sr_nonces r"
    "sr_nonce_uses (fst (update_accounts as r)) = sr_nonce_uses r"
    "sr_source_nonces (fst (update_accounts as r)) = sr_source_nonces r"
proof -
  let ?accs = "accounts_by_name as"
  obtain regs out where step: "retain_bindings (sr_accounts r) ?accs (sr_registrations r) = (regs, out)" by fastforce
  note ids = retain_bindings_ids [OF step accounts_by_name_ok]
  have fields: "\<exists>n. fst (update_accounts as r)
      = r\<lparr> sr_accounts := ?accs, sr_registrations := (case out of Inl e \<Rightarrow> regs | Inr kept \<Rightarrow> rekey_bindings ?accs kept),
           sr_notified := n \<rparr>"
  proof (cases out)
    case (Inl e)
    then show ?thesis by (auto simp: update_accounts_def Let_def step intro: exI [of _ "sr_notified r"])
  next
    case (Inr kept)
    then show ?thesis
      using notify_users [of "r\<lparr> sr_accounts := ?accs, sr_registrations := rekey_bindings ?accs kept \<rparr>"]
      by (simp add: update_accounts_def Let_def step)
  qed
  have "bindings_ok regs" using ids assms by (simp add: bindings_ok_def)
  moreover have "bindings_ok (rekey_bindings ?accs kept)" if "out = Inr kept" for kept
    using ids that assms rekey_bindings_ok subseq_distinct by (metis bindings_ok_def)
  ultimately show "bindings_ok (sr_registrations (fst (update_accounts as r)))"
    using fields by (auto split: sum.split)
  show "sr_accounts (fst (update_accounts as r)) = accounts_by_name as"
    "sr_nonces (fst (update_accounts as r)) = sr_nonces r"
    "sr_nonce_uses (fst (update_accounts as r)) = sr_nonce_uses r"
    "sr_source_nonces (fst (update_accounts as r)) = sr_source_nonces r"
    using fields by auto
qed

section \<open>Reachable registrars\<close>

text \<open>Queries of the registrar only expire bindings.\<close>

inductive registrar_step :: "(string \<Rightarrow> string) \<Rightarrow> sip_registrar \<Rightarrow> sip_registrar \<Rightarrow> bool" for md5 r where
  register: "token \<notin> fst ` set (sr_nonces r) \<Longrightarrow>
    registrar_step md5 r (fst (handle_register md5 token rd m addr transport r))"
| update: "registrar_step md5 r (fst (update_accounts as r))"
| remove: "registrar_step md5 r (remove_registration username r)"
| query: "registrar_step md5 r (fst (expire_bindings now r))"

inductive registrar_reached :: "(string \<Rightarrow> string) \<Rightarrow> sip_registrar \<Rightarrow> bool" for md5 where
  fresh: "registrar_reached md5 (new_registrar enabled as ip port observed)"
| step: "registrar_reached md5 r \<Longrightarrow> registrar_step md5 r r' \<Longrightarrow> registrar_reached md5 r'"

definition registrar_ok :: "sip_registrar \<Rightarrow> bool" where
  "registrar_ok r \<longleftrightarrow> nonces_ok r \<and> bindings_ok (sr_registrations r) \<and> accounts_ok (sr_accounts r)"

definition authentic :: "(string \<Rightarrow> string) \<Rightarrow> readings \<Rightarrow> sip_message \<Rightarrow> sip_registrar \<Rightarrow> sip_account \<Rightarrow> bool" where
  "authentic md5 rd m r a \<longleftrightarrow>
     (\<exists>name. assoc (sr_accounts r) name = Some a) \<and> ac_enabled a
     \<and> (\<exists>nonce nc cnonce. presents_digest md5 m a nonce nc cnonce
          \<and> (\<exists>expiry. (nonce, expiry) \<in> set (sr_nonces r) \<and> rd_check rd < expiry))"

lemma active_nonce: "nonce \<in> fst ` set (sr_nonces (prune_nonces now r)) \<Longrightarrow>
    \<exists>expiry. (nonce, expiry) \<in> set (sr_nonces r) \<and> now < expiry"
  by (auto simp: prune_nonces_def Let_def)

lemma authorized_account_authentic:
  assumes "assoc (sr_accounts r) (lower username) = Some a" "ac_enabled a"
    and "check_authorization md5 (rd_check rd) m a addr tr (r\<lparr> sr_last_event := ''REGISTER'' \<rparr>) = (r1, Inr True)"
  shows "authentic md5 rd m r a"
  using assms(3)
proof (cases rule: check_authorization_cases)
  case (checked nonce nc cnonce count)
  then show ?thesis
    using assms(1,2) active_nonce [OF checked(2)] unfolding authentic_def by auto
qed simp

lemma handle_register_refines:
  assumes ok: "bindings_ok (sr_registrations r)"
    and step: "handle_register md5 token rd m addr transport r = (r', out)"
  shows "bindings_ok (sr_registrations r')
    \<and> location_step rd addr transport (authentic md5 rd m r) (located (sr_registrations r)) (succeeded out)
        (located (sr_registrations r'))"
  using step
proof (cases rule: handle_register_cases)
  case refused
  have "\<not> succeeded out" using refused(3) by (auto simp: succeeded_def)
  then show ?thesis using refused ok location_step.refuse by simp
next
  case (authorized a username r1)
  have same: "sr_registrations r1 = sr_registrations r"
    using check_authorization_fields [of md5 "rd_check rd" m a addr transport "r\<lparr> sr_last_event := ''REGISTER'' \<rparr>"]
    by (simp add: authorized(4))
  have "authentic md5 rd m r a" using authorized authorized_account_authentic by blast
  then show ?thesis
    using register_authorized_refines [where authentic = "authentic md5 rd m r", OF _ _ authorized(5)] ok same by simp
qed


lemma sip_result_nonces [simp]: "nonces_ok (fst (sip_result r s t hs)) = nonces_ok r"
  by (rule nonces_ok_cong) simp_all

lemma unauthorized_nonces_ok:
  assumes "nonces_ok r" "token \<notin> fst ` set (sr_nonces r)"
  shows "nonces_ok (fst (unauthorized token rd addr tr r))"
proof -
  obtain r1 n c where i: "issue_challenge token (rd_challenge rd) (rd_nonce rd) (upper tr @ '':'' @ fst addr) r = (r1, n, c)"
    by (metis prod_cases3)
  then have "nonces_ok r1"
    using issue_challenge_ok [OF assms, of "rd_challenge rd" "rd_nonce rd" "upper tr @ '':'' @ fst addr"] by simp
  then show ?thesis using i by (simp add: unauthorized_def)
qed

lemma check_authorization_nonces:
  "set (sr_nonces (fst (check_authorization md5 now m a addr tr r))) \<subseteq> set (sr_nonces r)"
proof -
  obtain r1 out where c: "check_authorization md5 now m a addr tr r = (r1, out)" by fastforce
  have prune: "set (sr_nonces (prune_nonces now r)) \<subseteq> set (sr_nonces r)" by (auto simp: prune_nonces_def Let_def)
  from c have "sr_nonces r1 = sr_nonces (prune_nonces now r)"
  proof (cases rule: check_authorization_cases)
    case (checked nonce nc cnonce count)
    then show ?thesis
      by (auto simp: check_nonce_use_def remember_use_def Let_def split: option.splits if_splits)
  qed simp
  then show ?thesis using prune by (simp add: c)
qed

lemma handle_register_nonces_ok:
  assumes ok: "nonces_ok r" and fresh: "token \<notin> fst ` set (sr_nonces r)"
  shows "nonces_ok (fst (handle_register md5 token rd m addr tr r))"
proof -
  let ?r = "r\<lparr> sr_last_event := ''REGISTER'' \<rparr>"
  have ok': "nonces_ok ?r" using ok by (simp add: nonces_ok_cong [of ?r r])
  have un: "nonces_ok (fst (unauthorized token rd addr tr ?r))"
    using unauthorized_nonces_ok [OF ok'] fresh by simp
  have auth: "nonces_ok (fst (case check_authorization md5 (rd_check rd) m a addr tr ?r of
      (r1, Inl e) \<Rightarrow> (r1, Inl e)
    | (r1, Inr False) \<Rightarrow> unauthorized token rd addr tr r1
    | (r1, Inr True) \<Rightarrow> register_authorized rd m a addr tr r1))" for a
  proof -
    obtain r1 v where v: "check_authorization md5 (rd_check rd) m a addr tr ?r = (r1, v)" by fastforce
    have r1: "nonces_ok r1" "token \<notin> fst ` set (sr_nonces r1)"
      using check_authorization_ok [OF ok', of md5 "rd_check rd" m a addr tr]
        check_authorization_nonces [of md5 "rd_check rd" m a addr tr ?r] fresh by (auto simp: v)
    have "nonces_ok (fst (register_authorized rd m a addr tr r1))"
      using r1(1) nonces_ok_cong register_authorized_fields by blast
    then show ?thesis using r1 unauthorized_nonces_ok [OF r1] by (simp add: v split: sum.split bool.split)
  qed
  show ?thesis
    using ok' un auth by (simp add: handle_register_def Let_def split: sum.split option.split)
qed

lemma handle_register_accounts: "sr_accounts (fst (handle_register md5 token rd m addr tr r)) = sr_accounts r"
proof -
  obtain r' out where h: "handle_register md5 token rd m addr tr r = (r', out)" by fastforce
  then show ?thesis
  proof (cases rule: handle_register_cases)
    case (authorized a username r1)
    then show ?thesis
      using register_authorized_fields [of rd m a addr tr r1]
        check_authorization_fields [of md5 "rd_check rd" m a addr tr "r\<lparr> sr_last_event := ''REGISTER'' \<rparr>"]
      by (simp add: h)
  qed (simp add: h)
qed

lemma remove_registration_fields:
  "\<exists>P. sr_registrations (remove_registration u r) = filter P (sr_registrations r)"
  "sr_accounts (remove_registration u r) = sr_accounts r" "sr_nonces (remove_registration u r) = sr_nonces r"
  "sr_nonce_uses (remove_registration u r) = sr_nonce_uses r"
  "sr_source_nonces (remove_registration u r) = sr_source_nonces r"
  by (auto simp: remove_registration_def Let_def)

lemma registrar_step_ok:
  assumes "registrar_step md5 r r'" and ok: "registrar_ok r"
  shows "registrar_ok r'"
  using assms(1)
proof cases
  case (register token rd m addr transport)
  obtain q out where h: "handle_register md5 token rd m addr transport r = (q, out)" by fastforce
  have r': "r' = q" by (simp add: register(1) h)
  have "nonces_ok q" using handle_register_nonces_ok [OF _ register(2), of md5 rd m addr transport] ok
    by (simp add: registrar_ok_def h)
  moreover have "sr_accounts q = sr_accounts r"
    using handle_register_accounts [of md5 token rd m addr transport r] by (simp add: h)
  moreover have "bindings_ok (sr_registrations q)"
    using handle_register_refines [OF _ h] ok by (simp add: registrar_ok_def)
  ultimately show ?thesis using ok by (simp add: r' registrar_ok_def)
next
  case (update as)
  then show ?thesis
    using update_accounts_ok [of r as] accounts_by_name_ok ok nonces_ok_cong [of r' r]
    by (simp add: registrar_ok_def)
next
  case (remove username)
  then show ?thesis
    using remove_registration_fields [of username r] ok nonces_ok_cong [of r' r] filter_bindings_ok
    by (auto simp: registrar_ok_def)
next
  case (query now)
  then show ?thesis
    using ok nonces_ok_cong [of r' r] by (simp add: registrar_ok_def live_bindings_def filter_bindings_ok)
qed

lemma registrar_reached_ok: "registrar_reached md5 r \<Longrightarrow> registrar_ok r"
proof (induction rule: registrar_reached.induct)
  case (fresh enabled as ip port observed)
  then show ?case
    by (simp add: registrar_ok_def nonces_ok_def bindings_ok_def new_registrar_def accounts_by_name_ok)
qed (rule registrar_step_ok)

text \<open>C1: The registrar refines a location service, a map from user and contact to a binding.  In every
  reachable registrar, whatever REGISTER arrives, the map makes one step: nothing alive changes unless the
  request proves the password of an enabled account to a nonce that is active, and then only contacts of
  that account are bound, to the source of the request, or unbound; a refused request changes nothing.\<close>

theorem registrar_refines_location_service:
  assumes "registrar_reached md5 r"
    and "handle_register md5 token rd m addr transport r = (r', out)"
  shows "location_step rd addr transport (authentic md5 rd m r) (located (sr_registrations r)) (succeeded out)
    (located (sr_registrations r'))"
  using handle_register_refines [OF _ assms(2)] registrar_reached_ok [OF assms(1)] by (simp add: registrar_ok_def)

text \<open>C4: The memory of the registrar is bounded by the code's limits whatever requests arrive: at most 256
  nonces are active, as many sources hold one at most, at most 2048 nonce counts are remembered, each of an
  active nonce, and a contact of a user has one binding.\<close>

theorem registrar_memory_is_bounded:
  assumes "registrar_reached md5 r"
  shows "length (sr_nonces r) \<le> 256 \<and> length (sr_source_nonces r) \<le> length (sr_nonces r)
    \<and> length (sr_nonce_uses r) \<le> 2048
    \<and> use_nonce ` set (sr_nonce_uses r) \<subseteq> fst ` set (sr_nonces r)
    \<and> distinct (map (binding_id \<circ> snd) (sr_registrations r))"
proof -
  have ok: "nonces_ok r" "bindings_ok (sr_registrations r)"
    using registrar_reached_ok [OF assms] by (simp_all add: registrar_ok_def)
  have "length (sr_source_nonces r) = card (snd ` set (sr_source_nonces r))"
    using ok(1) by (metis distinct_card length_map nonces_ok_def set_map)
  also have "\<dots> \<le> card (fst ` set (sr_nonces r))"
    using ok(1) by (intro card_mono) (auto simp: nonces_ok_def)
  also have "\<dots> = length (sr_nonces r)"
    using ok(1) by (metis distinct_card length_map nonces_ok_def set_map)
  finally show ?thesis
    using ok by (simp add: nonces_ok_def bindings_ok_def MAX_ACTIVE_NONCES_def MAX_NONCE_USE_RECORDS_def)
qed

section \<open>Nonce counts\<close>

definition authorization_params :: "sip_message \<Rightarrow> (string \<times> string) list" where
  "authorization_params m = parse_digest_challenge (header (msg_headers m) ''Authorization'')"

definition authorization_key :: "sip_message \<Rightarrow> sip_account \<Rightarrow> use_key" where
  "authorization_key m a =
     (param_or (authorization_params m) ''nonce'' [], lower (ac_username a), param_or (authorization_params m) ''cnonce'' [])"

definition nonce_count :: "sip_message \<Rightarrow> int option" where
  "nonce_count m = py_int_hex (param_or (authorization_params m) ''nc'' [])"

lemma assoc_subset:
  assumes "distinct (map fst xs)" "distinct (map fst ys)" "set ys \<subseteq> set xs"
  shows "assoc ys k = Some v \<longleftrightarrow> assoc xs k = Some v \<and> k \<in> fst ` set ys"
proof -
  have "assoc xs k = Some v" if "assoc ys k = Some v"
    using assoc_Some_in [OF that] assms(1,3) by (auto simp: assoc_eq_map_of)
  moreover have "assoc ys k = Some v" if v: "assoc xs k = Some v" and k: "k \<in> fst ` set ys"
  proof -
    obtain w where w: "(k, w) \<in> set ys" using k by force
    then have "assoc xs k = Some w" using assms(1,3) by (auto simp: assoc_eq_map_of)
    then show ?thesis using v w assms(2) by (simp add: assoc_eq_map_of)
  qed
  ultimately show ?thesis using assoc_Some_in [of ys k v] by force
qed

lemma assoc_filter_key: "assoc (filter (\<lambda>u. P (fst u)) xs) k = (if P k then assoc xs k else None)"
  by (induction xs) auto

lemma prune_uses:
  "assoc (sr_nonce_uses (prune_nonces now r)) key
   = (if fst key \<in> fst ` set (sr_nonces (prune_nonces now r)) then assoc (sr_nonce_uses r) key else None)"
  using assoc_filter_key [of "\<lambda>k. fst k \<in> fst ` set (sr_nonces (prune_nonces now r))" "sr_nonce_uses r" key]
  by (simp add: prune_nonces_def Let_def)

lemma check_nonce_use_accepts:
  assumes "check_nonce_use key count fp r = (r1, Inr True)"
  shows "assoc (sr_nonce_uses r1) key = Some (count, fp)
    \<and> (\<forall>n old. assoc (sr_nonce_uses r) key = Some (n, old) \<longrightarrow> n < count \<or> n = count \<and> old = fp)"
  using assms
  by (auto simp: check_nonce_use_def remember_use_def assoc_md_set Let_def compare_fingerprints_def
      split: option.splits if_splits)

lemma check_nonce_use_others:
  assumes ok: "nonces_ok r" and step: "check_nonce_use key count fp r = (r1, out)"
    and k: "assoc (sr_nonce_uses r1) k = Some v" and neq: "k \<noteq> key \<or> out \<noteq> Inr True"
  shows "assoc (sr_nonce_uses r) k = Some v"
proof (cases "r1 = r")
  case True
  then show ?thesis using k by simp
next
  case False
  let ?uses = "sr_nonce_uses r"
  let ?room = "if key \<in> fst ` set ?uses then ?uses else evict_uses ?uses"
  have r1: "r1 = remember_use key count fp r" "out = Inr True"
    using step False by (auto simp: check_nonce_use_def split: option.splits if_splits)
  then have room: "assoc ?room k = Some v"
    using k neq by (simp add: remember_use_def assoc_md_set Let_def split: if_splits)
  obtain gone where gone: "?uses = gone @ evict_uses ?uses" using evict_uses_spec by blast
  have dist: "distinct (map fst ?uses)" using ok by (simp add: nonces_ok_def)
  then have "distinct (map fst (evict_uses ?uses))" "set (evict_uses ?uses) \<subseteq> set ?uses"
    using gone by (metis distinct_append map_append, metis set_append Un_upper2)
  then show ?thesis using room assoc_subset [OF dist] by (auto split: if_splits)
qed

text \<open>An accepted request leaves its count behind; it exceeds the one before, or the request is the same
  one again.\<close>

lemma check_authorization_accepts:
  assumes "check_authorization md5 now m a addr tr r = (r1, Inr True)"
  shows "\<exists>count. nonce_count m = Some count
    \<and> assoc (sr_nonce_uses r1) (authorization_key m a) = Some (count, register_fingerprint m addr tr)
    \<and> (\<forall>n old. assoc (sr_nonce_uses r) (authorization_key m a) = Some (n, old)
         \<longrightarrow> n < count \<or> n = count \<and> old = register_fingerprint m addr tr)"
  using assms
proof (cases rule: check_authorization_cases)
  case (checked nonce nc cnonce count)
  have key: "authorization_key m a = (nonce, lower (ac_username a), cnonce)" "nonce_count m = Some count"
    using checked(1,3) by (auto simp: authorization_key_def nonce_count_def authorization_params_def presents_digest_def Let_def)
  then show ?thesis
    using check_nonce_use_accepts [OF checked(5)] checked(2) prune_uses [of now r "authorization_key m a"] by simp
qed simp

lemma check_authorization_uses:
  assumes ok: "nonces_ok r" and step: "check_authorization md5 now m a addr tr r = (r1, out)"
    and old: "assoc (sr_nonce_uses r) k = Some (n, fp)" and now: "assoc (sr_nonce_uses r1) k = Some (n', fp')"
  shows "(n', fp') = (n, fp) \<or> n < n'"
  using step
proof (cases rule: check_authorization_cases)
  case refused
  then show ?thesis using old now by (simp add: prune_uses split: if_splits)
next
  case (checked nonce nc cnonce count)
  let ?key = "(nonce, lower (ac_username a), cnonce)"
  show ?thesis
  proof (cases "k = ?key \<and> out = Inr True")
    case True
    then have "assoc (sr_nonce_uses (prune_nonces now r)) ?key = Some (n, fp)"
      using old checked(2) by (simp add: prune_uses)
    then show ?thesis
      using check_nonce_use_accepts [OF checked(5) [unfolded conjunct2 [OF True]]] True now by auto
  next
    case False
    then show ?thesis
      using check_nonce_use_others [OF prune_nonces_ok [OF ok] checked(5) now] old by (simp add: prune_uses split: if_splits)
  qed
qed

lemma evict_nonces_uses:
  assumes "evict_nonces nonces uses sources = (nonces', uses', sources')" "assoc uses' k = Some v"
  shows "assoc uses k = Some v"
proof -
  obtain gone where "nonces = gone @ nonces'" "uses' = filter (\<lambda>u. use_nonce u \<notin> fst ` set gone) uses"
    using evict_nonces_spec [OF assms(1)] by blast
  then show ?thesis
    using assms(2) assoc_filter_key [of "\<lambda>x. fst x \<notin> fst ` set gone" uses k] by (simp split: if_splits)
qed

lemma issue_challenge_uses:
  assumes "assoc (sr_nonce_uses (fst (issue_challenge token t t' source r))) k = Some v"
  shows "assoc (sr_nonce_uses r) k = Some v"
proof -
  let ?p = "prune_nonces t r"
  obtain nonces uses sources
    where evict: "evict_nonces (sr_nonces ?p) (sr_nonce_uses ?p) (sr_source_nonces ?p) = (nonces, uses, sources)"
    by (metis prod_cases3)
  then have "assoc (sr_nonce_uses ?p) k = Some v"
    using assms evict_nonces_uses [OF evict] by (auto simp: issue_challenge_def Let_def split: if_splits)
  then show ?thesis by (simp add: prune_uses split: if_splits)
qed

lemma unauthorized_uses:
  assumes "unauthorized token rd addr tr r = (r', out)" "assoc (sr_nonce_uses r') k = Some v"
  shows "assoc (sr_nonce_uses r) k = Some v"
proof -
  let ?source = "upper tr @ '':'' @ fst addr"
  obtain r1 n c where i: "issue_challenge token (rd_challenge rd) (rd_nonce rd) ?source r = (r1, n, c)"
    by (metis prod_cases3)
  then have "sr_nonce_uses r' = sr_nonce_uses r1" using assms(1) by (auto simp: unauthorized_def sip_result_def)
  then show ?thesis
    using issue_challenge_uses [of token "rd_challenge rd" "rd_nonce rd" ?source r k v] i assms(2) by simp
qed

text \<open>A request that is let in as that of an account.\<close>

definition admitted_as ::
  "(string \<Rightarrow> string) \<Rightarrow> readings \<Rightarrow> sip_message \<Rightarrow> string \<times> int \<Rightarrow> string \<Rightarrow> sip_registrar \<Rightarrow> sip_account \<Rightarrow> bool"
where
  "admitted_as md5 rd m addr tr r a \<longleftrightarrow>
     sr_enabled r
     \<and> (case bindE (parse_sip_uri (msg_uri m)) (\<lambda>_. extract_register_username m) of
          Inl _ \<Rightarrow> False
        | Inr username \<Rightarrow> assoc (sr_accounts r) (lower username) = Some a)
     \<and> ac_enabled a
     \<and> snd (check_authorization md5 (rd_check rd) m a addr tr (r\<lparr> sr_last_event := ''REGISTER'' \<rparr>)) = Inr True"

lemma handle_register_uses:
  assumes h: "handle_register md5 token rd m addr tr r = (r', out)"
  obtains (shrunk) "\<And>k v. assoc (sr_nonce_uses r') k = Some v \<Longrightarrow> assoc (sr_nonce_uses r) k = Some v"
  | (checked) a r1 v where
      "check_authorization md5 (rd_check rd) m a addr tr (r\<lparr> sr_last_event := ''REGISTER'' \<rparr>) = (r1, v)"
      "\<And>k v. assoc (sr_nonce_uses r') k = Some v \<Longrightarrow> assoc (sr_nonce_uses r1) k = Some v"
proof -
  note step = h [unfolded handle_register_def Let_def]
  let ?r = "r\<lparr> sr_last_event := ''REGISTER'' \<rparr>"
  have un: thesis if "unauthorized token rd addr tr ?r = (r', out)"
    using unauthorized_uses [OF that] by (intro shrunk) simp
  have plain: thesis if "sip_result ?r s t hs = (r', out)" for s t hs
    using that by (intro shrunk) (auto simp: sip_result_def)
  show thesis
  proof (cases "bindE (parse_sip_uri (msg_uri m)) (\<lambda>_. extract_register_username m)")
    case (Inl e)
    then show thesis using step plain by (auto split: if_splits)
  next
    case (Inr username)
    show thesis
    proof (cases "sr_enabled r \<and> (\<exists>a. assoc (sr_accounts r) (lower username) = Some a \<and> ac_enabled a)")
      case False
      then show thesis using step Inr un plain by (auto split: if_splits option.splits)
    next
      case True
      then obtain a where a: "assoc (sr_accounts r) (lower username) = Some a" "ac_enabled a" "sr_enabled r" by blast
      obtain r1 v where v: "check_authorization md5 (rd_check rd) m a addr tr ?r = (r1, v)" by fastforce
      consider e where "v = Inl e" "r' = r1" | "unauthorized token rd addr tr r1 = (r', out)"
        | "register_authorized rd m a addr tr r1 = (r', out)"
        using step Inr a v by (auto split: sum.splits bool.splits)
      then have "\<And>k v. assoc (sr_nonce_uses r') k = Some v \<Longrightarrow> assoc (sr_nonce_uses r1) k = Some v"
      proof cases
        case 3
        then show "\<And>k v. assoc (sr_nonce_uses r') k = Some v \<Longrightarrow> assoc (sr_nonce_uses r1) k = Some v"
          using register_authorized_fields [of rd m a addr tr r1] by simp
      qed (auto dest: unauthorized_uses)
      then show thesis using checked [OF v] by blast
    qed
  qed
qed

lemma registrar_step_uses:
  assumes ok: "registrar_ok r" and step: "registrar_step md5 r r'"
    and old: "assoc (sr_nonce_uses r) k = Some (n, fp)" and now: "assoc (sr_nonce_uses r') k = Some (n', fp')"
  shows "(n', fp') = (n, fp) \<or> n < n'"
  using step
proof cases
  case (register token rd m addr tr)
  have ok': "nonces_ok (r\<lparr> sr_last_event := ''REGISTER'' \<rparr>)"
    using ok nonces_ok_cong [of "r\<lparr> sr_last_event := ''REGISTER'' \<rparr>" r] by (simp add: registrar_ok_def)
  obtain q out where h: "handle_register md5 token rd m addr tr r = (q, out)" by fastforce
  then have r': "r' = q" using register(1) by simp
  from h show ?thesis
  proof (cases rule: handle_register_uses)
    case shrunk
    then show ?thesis using old now r' by auto
  next
    case (checked a r1 v)
    then show ?thesis using check_authorization_uses [OF ok' checked(1)] old now r' by simp
  qed
next
  case (update as)
  then show ?thesis using update_accounts_ok(4) [of r as] ok old now by (simp add: registrar_ok_def)
next
  case (remove username)
  then show ?thesis using remove_registration_fields(4) [of username r] old now by simp
next
  case (query t)
  then show ?thesis using old now by simp
qed

text \<open>A run of the registrar during which it remembers a key.\<close>

inductive remembering :: "(string \<Rightarrow> string) \<Rightarrow> use_key \<Rightarrow> sip_registrar \<Rightarrow> sip_registrar \<Rightarrow> bool" for md5 key r where
  here: "remembering md5 key r r"
| later: "remembering md5 key r r1 \<Longrightarrow> registrar_step md5 r1 r2 \<Longrightarrow> key \<in> fst ` set (sr_nonce_uses r2)
    \<Longrightarrow> remembering md5 key r r2"

lemma remembering_counts:
  assumes "remembering md5 key r r'" "registrar_ok r" "assoc (sr_nonce_uses r) key = Some (n, fp)"
  shows "registrar_ok r' \<and> (\<exists>n' fp'. assoc (sr_nonce_uses r') key = Some (n', fp') \<and> ((n', fp') = (n, fp) \<or> n < n'))"
  using assms
proof (induction rule: remembering.induct)
  case (later r1 r2)
  then obtain n1 fp1 where 1: "registrar_ok r1" "assoc (sr_nonce_uses r1) key = Some (n1, fp1)"
    "(n1, fp1) = (n, fp) \<or> n < n1" by blast
  obtain n2 fp2 where 2: "assoc (sr_nonce_uses r2) key = Some (n2, fp2)"
    using later(3) by (metis assoc_eq_map_of map_of_eq_None_iff not_Some_eq surj_pair)
  show ?case
    using registrar_step_ok [OF later(2) 1(1)] registrar_step_uses [OF 1(1) later(2) 1(2) 2] 1(3) 2 by auto
qed auto

text \<open>C3: An accepted REGISTER cannot be replayed with anything changed.  As long as the registrar remembers
  the nonce, user and client nonce of a request it has let in, whatever happens meanwhile, it lets in another
  one with them only if its nonce count is higher, or if it repeats the request from the same source.\<close>

theorem accepted_count_is_not_replayed:
  assumes "registrar_reached md5 r" and "admitted_as md5 rd m addr tr r a"
    and "remembering md5 (authorization_key m a) (fst (handle_register md5 token rd m addr tr r)) r2"
    and "token \<notin> fst ` set (sr_nonces r)"
    and "admitted_as md5 rd' m' addr' tr' r2 a'" and "authorization_key m' a' = authorization_key m a"
  shows "\<exists>n n'. nonce_count m = Some n \<and> nonce_count m' = Some n'
    \<and> (n < n' \<or> n = n' \<and> register_fingerprint m' addr' tr' = register_fingerprint m addr tr)"
proof -
  let ?r = "r\<lparr> sr_last_event := ''REGISTER'' \<rparr>" and ?r2 = "r2\<lparr> sr_last_event := ''REGISTER'' \<rparr>"
  obtain r1 where r1: "check_authorization md5 (rd_check rd) m a addr tr ?r = (r1, Inr True)"
    using assms(2) by (metis admitted_as_def prod.collapse)
  obtain n where n: "nonce_count m = Some n"
    "assoc (sr_nonce_uses r1) (authorization_key m a) = Some (n, register_fingerprint m addr tr)"
    using check_authorization_accepts [OF r1] by blast
  have "handle_register md5 token rd m addr tr r = register_authorized rd m a addr tr r1"
    using assms(2) r1 by (auto simp: admitted_as_def handle_register_def Let_def split: sum.splits)
  then have uses: "sr_nonce_uses (fst (handle_register md5 token rd m addr tr r)) = sr_nonce_uses r1"
    using register_authorized_fields by metis
  have ok: "registrar_ok (fst (handle_register md5 token rd m addr tr r))"
    using registrar_step_ok [OF registrar_step.register [OF assms(4)] registrar_reached_ok [OF assms(1)]] .
  obtain n2 fp2 where 2: "assoc (sr_nonce_uses ?r2) (authorization_key m' a') = Some (n2, fp2)"
    "(n2, fp2) = (n, register_fingerprint m addr tr) \<or> n < n2"
    using remembering_counts [OF assms(3) ok] n(2) uses assms(6) by auto
  obtain r3 where r3: "check_authorization md5 (rd_check rd') m' a' addr' tr' ?r2 = (r3, Inr True)"
    using assms(5) by (metis admitted_as_def prod.collapse)
  show ?thesis
    using check_authorization_accepts [OF r3] n(1) 2 by auto
qed

text \<open>But the memory can be pushed out: with 2048 counts remembered, the next new one forgets the oldest,
  while its nonce stays valid.\<close>

lemma full_memory_forgets_oldest:
  assumes "length (sr_nonce_uses r) = 2048" "key \<notin> fst ` set (sr_nonce_uses r)" "distinct (map fst (sr_nonce_uses r))"
  shows "fst (hd (sr_nonce_uses r)) \<notin> fst ` set (sr_nonce_uses (remember_use key count fp r))
    \<and> sr_nonces (remember_use key count fp r) = sr_nonces r"
proof -
  obtain u us where u: "sr_nonce_uses r = u # us" using assms(1) by (cases "sr_nonce_uses r") auto
  have "evict_uses (u # us) = evict_uses us" using assms(1) by (simp add: u MAX_NONCE_USE_RECORDS_def)
  moreover have "set (evict_uses us) \<subseteq> set us" using evict_uses_spec [of us] by (metis set_append Un_upper2)
  ultimately show ?thesis
    using assms(2,3) by (auto simp: remember_use_def Let_def md_set_keys u)
qed
section \<open>A phone registers\<close>

lemma registrations_of_live: "registrations_of regs u = [] \<Longrightarrow> registrations_of (live_bindings now regs) u = []"
  by (auto simp: registrations_of_def live_bindings_def filter_empty_conv)

lemma first_contact_registered:
  assumes ok: "bindings_ok (sr_registrations r)" and none: "registrations_of (sr_registrations r) (ac_username a) = []"
    and contact: "header_values (msg_headers m) ''Contact'' = [v]" "register_contacts (msg_headers m) = [(uri, expires, raw)]"
      "uri \<noteq> ''*''" "0 < expires" "contact_q raw = Inr q" "contact_for_source_flow uri addr transport = Inr c"
    and request: "register_cseq (msg_headers m) = Inr cseq" "strip (header (msg_headers m) ''Call-ID'') \<noteq> []"
    and time: "rd_contacts rd < rd_bind rd + of_int expires"
  shows "\<exists>res. snd (register_authorized rd m a addr transport r) = Inr res \<and> rr_status res = 200
    \<and> located (sr_registrations (fst (register_authorized rd m a addr transport r)))
        (lower (ac_username a), contact_identity uri)
      = Some (new_binding m a addr transport (rd_bind rd) cseq
          \<lparr> pc_advertised = uri, pc_expires = expires, pc_contact_uri = c, pc_q = q \<rparr>)"
proof -
  let ?p = "\<lparr> pc_advertised = uri, pc_expires = expires, pc_contact_uri = c, pc_q = q \<rparr>"
  let ?r1 = "fst (expire_bindings (rd_expire rd) r)"
  have "strip v \<noteq> []" using contact(1,2) by (auto simp: register_contacts_def register_contact_def)
  then have raw: "filter (\<lambda>v. v \<noteq> []) (map strip (header_values (msg_headers m) ''Contact'')) = [strip v]"
    using contact(1) by simp
  have prepared: "prepare_contacts addr transport [] [(uri, expires, raw)] = Inr [?p]"
    using contact by simp
  have none1: "registrations_of (sr_registrations ?r1) (ac_username a) = []"
    using none by (simp add: registrations_of_live)
  let ?call = "strip (header (msg_headers m) ''Call-ID'')"
  have auth: "register_authorized rd m a addr transport r
      = store_contacts rd m a addr transport cseq False [?p] ?r1"
    unfolding register_authorized_def Let_def request(1) raw contact(2) prepared using request(2) contact(3) by simp
  have fresh: "judge_cseq (registrations_of (sr_registrations ?r1) (ac_username a)) ?call cseq [?p] = Cseq_fresh"
    unfolding none1 using contact(3) by simp
  obtain r' out where r': "store_contacts rd m a addr transport cseq False [?p] ?r1 = (r', out)" by fastforce
  obtain r2 where r2: "(r', out) = ok_with_contacts rd r2 a"
    "sr_registrations r2 = apply_contact m a addr transport (rd_bind rd) cseq (sr_registrations ?r1) ?p"
    using r' [symmetric] unfolding store_contacts_def Let_def fresh cseq_verdict.case by (auto split: if_splits)
  have uri: "pc_advertised ?p \<noteq> []" using register_contacts_range [of uri expires raw "msg_headers m"] contact(2) by simp
  have ok1: "bindings_ok (sr_registrations ?r1)" using located_live(1) [OF ok] by simp
  note refined = apply_contact_refines [OF ok1 uri, of m a addr transport "rd_bind rd" cseq, folded r2(2)]
  have "located (sr_registrations r2) (lower (ac_username a), contact_identity uri)
      = Some (new_binding m a addr transport (rd_bind rd) cseq ?p)"
    using refined(2) contact(4) by (simp add: locate_contact_def)
  moreover have "rd_contacts rd < sb_expires_at (new_binding m a addr transport (rd_bind rd) cseq ?p)"
    using time by (simp add: new_binding_def)
  ultimately show ?thesis
    using ok_with_contacts_located [OF refined(1), of rd a] r2(1) r' auth
    by (auto simp: live_at_Some succeeded_def dest!: sym [of "(r', out)"])
qed

text \<open>A request that is answered 401 carries the challenge of a nonce that is active.\<close>

lemma issued_nonce_active:
  assumes "issue_challenge token t t' source r = (r1, nonce, ch)"
  shows "nonce \<in> fst ` set (sr_nonces r1)" "ch = challenge_text nonce"
  using assms by (auto simp: issue_challenge_def Let_def md_set_keys split: if_splits prod.splits)

lemma authorized_status:
  assumes "register_authorized rd m a addr transport r = (r', Inr res)"
  shows "rr_status res \<in> {200, 400, 500}"
  using assms
proof (cases rule: register_authorized_cases)
  case (store cseq w ps)
  from store(4) show ?thesis
    by (cases rule: store_contacts_cases) (auto simp: ok_with_contacts_eq sip_result_def)
qed (auto simp: ok_with_contacts_eq sip_result_def)

lemma challenge_answered:
  assumes h: "handle_register md5 token rd m addr transport r = (r', Inr res)" and status: "rr_status res = 401"
  shows "\<exists>nonce. rr_headers res = [(''WWW-Authenticate'', challenge_text nonce)] \<and> nonce \<in> fst ` set (sr_nonces r')"
proof -
  note step = h [unfolded handle_register_def Let_def]
  obtain q where "unauthorized token rd addr transport q = (r', Inr res)"
  proof (cases "\<exists>q. unauthorized token rd addr transport q = (r', Inr res)")
    case False
    then obtain q a where "register_authorized rd m a addr transport q = (r', Inr res)"
      using step status by (auto simp: sip_result_def split: if_splits sum.splits option.splits prod.splits bool.splits)
    then show thesis using authorized_status status by fastforce
  qed blast
  moreover obtain r1 n ch
    where i: "issue_challenge token (rd_challenge rd) (rd_nonce rd) (upper transport @ '':'' @ fst addr) q = (r1, n, ch)"
    by (metis prod_cases3)
  ultimately have "(r', Inr res) = sip_result r1 401 ''Unauthorized'' [(''WWW-Authenticate'', ch)]"
    by (simp add: unauthorized_def)
  then show ?thesis using issued_nonce_active [OF i] by (auto simp: sip_result_def)
qed

lemma challenge_text_inject: "challenge_text n = challenge_text n' \<Longrightarrow> n = n'"
  by (simp add: challenge_text_def)

text \<open>C2: A phone that answers the registrar's challenge with the password of its account is registered: the
  registrar answers a request with 401 and a challenge, the credentials that the client code builds for it are
  read back and accepted while the nonce has not expired, the REGISTER with one contact of a phone that has
  none yet is answered 200, and from then on the contact is bound to the source of the request.\<close>

theorem challenged_phone_is_registered:
  assumes reached: "registrar_reached md5 r" "token \<notin> fst ` set (sr_nonces r)"
    and challenge: "handle_register md5 token rd0 m0 addr0 transport0 r = (r1, Inr res0)" "rr_status res0 = 401"
      "rr_headers res0 = [(''WWW-Authenticate'', challenge_text nonce)]"
    and creds: "build_digest_authorization md5 cnonce (challenge_text nonce) (ac_username a) (ac_password a) ''REGISTER''
      (msg_uri m) [] = Inr creds"
    and sent: "header (msg_headers m) ''Authorization'' = creds"
    and account: "assoc (sr_accounts r1) (lower (ac_username a)) = Some a" "ac_enabled a" "sr_enabled r1"
      "ac_username a \<noteq> []"
    and target: "parse_sip_uri (msg_uri m) = Inr u" "extract_register_username m = Inr username"
      "lower username = lower (ac_username a)"
    and texts: "plain_text (ac_username a)" "plain_text (msg_uri m)" "plain_text nonce" "plain_text cnonce"
    and nonce: "nonce \<noteq> []" "\<And>expiry. (nonce, expiry) \<in> set (sr_nonces r1) \<Longrightarrow> rd_check rd < expiry"
    and cnonce: "cnonce \<noteq> []" "length cnonce \<le> 128"
    and md5: "\<And>x. ascii_text (md5 x) \<and> plain_text (md5 x)"
    and unused: "(nonce, lower (ac_username a), cnonce) \<notin> fst ` set (sr_nonce_uses r1)"
    and none: "registrations_of (sr_registrations r1) (ac_username a) = []"
    and contact: "header_values (msg_headers m) ''Contact'' = [v]" "register_contacts (msg_headers m) = [(uri, expires, raw)]"
      "uri \<noteq> ''*''" "0 < expires" "contact_q raw = Inr q" "contact_for_source_flow uri addr transport = Inr c"
    and request: "register_cseq (msg_headers m) = Inr cseq" "strip (header (msg_headers m) ''Call-ID'') \<noteq> []"
    and time: "rd_contacts rd < rd_bind rd + of_int expires"
  shows "\<exists>res. snd (handle_register md5 token' rd m addr transport r1) = Inr res \<and> rr_status res = 200
    \<and> located (sr_registrations (fst (handle_register md5 token' rd m addr transport r1)))
        (lower (ac_username a), contact_identity uri)
      = Some (new_binding m a addr transport (rd_bind rd) cseq
          \<lparr> pc_advertised = uri, pc_expires = expires, pc_contact_uri = c, pc_q = q \<rparr>)"
proof -
  obtain expiry where expiry: "(nonce, expiry) \<in> set (sr_nonces r1)"
    using challenge_answered [OF challenge(1,2)] challenge(3) challenge_text_inject by fastforce
  obtain r2 where r2: "handle_register md5 token' rd m addr transport r1 = register_authorized rd m a addr transport r2"
    "sr_registrations r2 = sr_registrations r1"
    using challenged_phone_is_admitted [OF creds sent account target texts nonce(1) expiry nonce(2) [OF expiry]
        cnonce md5 unused] by blast
  have "registrar_ok r1"
    using registrar_reached_ok [OF reached(1)] registrar_step_ok registrar_step.register [OF reached(2)] challenge(1)
    by (metis fst_conv)
  then have "bindings_ok (sr_registrations r2)" by (simp add: registrar_ok_def r2(2))
  then show ?thesis
    using first_contact_registered [OF _ _ contact request time, of r2 a] none r2 by simp
qed
section \<open>An example\<close>

definition example_account :: sip_account where
  "example_account =
     \<lparr> ac_username = ''bob'', ac_display_name = ''Bob'', ac_password = ''pw'', ac_enabled = True,
       ac_extension = ''12'', ac_conference_group = [], ac_conference_ring = False, ac_ring_group = [] \<rparr>"

definition example_md5 :: "string \<Rightarrow> string" where
  "example_md5 s = dec (length s)"

definition example_nonce :: string where "example_nonce = ''n1''"

definition example_credentials :: string where
  "example_credentials = projr (build_digest_authorization example_md5 ''c1'' (challenge_text example_nonce) ''bob'' ''pw''
     ''REGISTER'' ''sip:ha'' [])"

definition example_register :: "string \<Rightarrow> string \<Rightarrow> sip_message" where
  "example_register cseq authorization =
     \<lparr> msg_method = Some ''REGISTER'', msg_uri = ''sip:ha'', status_code = None, msg_reason = [],
       msg_headers = [(''To'', ''<sip:bob@ha>''), (''Call-ID'', ''x''), (''CSeq'', cseq),
         (''Contact'', ''<sip:bob@10.0.0.9>;expires=60''), (''Authorization'', authorization)],
       msg_body = [] \<rparr>"
definition at_time :: "real \<Rightarrow> readings" where
  "at_time t = \<lparr> rd_check = t, rd_challenge = t, rd_nonce = t, rd_expire = t, rd_bind = t, rd_reply = t, rd_contacts = t \<rparr>"

definition example_registrar :: sip_registrar where
  "example_registrar = new_registrar True [example_account] ''192.0.2.1'' 5060 True"

lemma example_built: "build_digest_authorization example_md5 ''c1'' (challenge_text example_nonce) ''bob'' ''pw''
     ''REGISTER'' ''sip:ha'' [] = Inr example_credentials"
  by code_simp


abbreviation example_addr :: "string \<times> int" where "example_addr \<equiv> (''10.0.0.7'', 5070)"

definition challenged_registrar :: sip_registrar where
  "challenged_registrar = example_registrar
     \<lparr> sr_last_event := ''REGISTER'', sr_nonces := [(''n1'', 700)], sr_source_nonces := [(''UDP:10.0.0.7'', ''n1'')],
       sr_last_status := 401, sr_last_reason := ''Unauthorized'' \<rparr>"

lemma example_target:
  "parse_sip_uri ''sip:ha'' = Inr \<lparr> uri_user = [], uri_host = ''ha'', uri_port = None, uri_params = [] \<rparr>"
  "extract_register_username (example_register cs au) = Inr ''bob''"
  "msg_uri (example_register cs au) = ''sip:ha''"
  "header (msg_headers (example_register cs au)) ''Authorization'' = au"
  "sr_accounts example_registrar = [(''bob'', example_account)]"
  subgoal by code_simp
  subgoal by code_simp
  subgoal by code_simp
  subgoal by code_simp
  subgoal by code_simp
  done


lemma example_params:
  "parse_digest_challenge example_credentials =
     [(''username'', ''bob''), (''realm'', ''voip_stack''), (''nonce'', ''n1''), (''uri'', ''sip:ha''), (''response'', ''25''),
      (''algorithm'', ''MD5''), (''qop'', ''auth''), (''nc'', ''00000001''), (''cnonce'', ''c1'')]"
  "parse_digest_challenge [] = []"
  "digest_response example_md5 example_account ''voip_stack'' ''n1'' ''00000001'' ''c1'' ''auth'' ''sip:ha'' = ''25''"
  "lower ''auth'' = ''auth''" "upper ''MD5'' = ''MD5''" "py_int_hex ''00000001'' = Some 1" "lower ''bob'' = ''bob''"
  "ascii_text ''25''" "upper ''UDP'' = ''UDP''"
  subgoal by code_simp
  subgoal by code_simp
  subgoal by code_simp
  subgoal by code_simp
  subgoal by code_simp
  subgoal by code_simp
  subgoal by code_simp
  subgoal by code_simp
  subgoal by code_simp
  done

lemma example_fields:
  "ac_enabled example_account" "ac_username example_account = ''bob''" "sr_enabled example_registrar"
  "sr_nonces example_registrar = []" "sr_nonce_uses example_registrar = []" "sr_source_nonces example_registrar = []"
  "sr_registrations example_registrar = []"
  by (simp_all add: example_account_def example_registrar_def new_registrar_def)

lemma example_challenge: "handle_register example_md5 example_nonce (at_time 100) (example_register ''1 REGISTER'' []) example_addr ''UDP'' example_registrar
  = (challenged_registrar, Inr \<lparr> rr_status = 401, rr_reason = ''Unauthorized'',
     rr_headers = [(''WWW-Authenticate'', challenge_text ''n1'')] \<rparr>)"
  by (simp add: handle_register_def example_target example_fields example_params check_authorization_def valid_nonce_def
    prune_nonces_def param_or_def unauthorized_def issue_challenge_def sip_result_def challenged_registrar_def
    example_nonce_def at_time_def NONCE_TTL_def)

lemma example_admitted: "admitted_as example_md5 (at_time 101) (example_register ''2 REGISTER'' example_credentials) example_addr ''UDP''
  challenged_registrar example_account"
  by (simp add: admitted_as_def example_target example_fields example_params challenged_registrar_def check_authorization_def
   valid_nonce_def prune_nonces_def param_or_def at_time_def REALM_def compare_digest_def check_nonce_use_def Let_def)
lemma example_reached: "registrar_reached example_md5 example_registrar"
  unfolding example_registrar_def by (rule registrar_reached.fresh)

lemma example_challenged_reached: "registrar_reached example_md5 challenged_registrar"
  using registrar_reached.step [OF example_reached registrar_step.register [of example_nonce example_registrar example_md5
      "at_time 100" "example_register ''1 REGISTER'' []" example_addr "''UDP''"]]
  by (simp add: example_challenge example_fields)

theorem registrar_refines_location_service_witness:
  "location_step (at_time 100) example_addr ''UDP''
     (authentic example_md5 (at_time 100) (example_register ''1 REGISTER'' []) example_registrar)
     (located []) False (located [])"
  using registrar_refines_location_service [OF example_reached example_challenge]
  by (simp add: example_fields challenged_registrar_def)

theorem registrar_memory_is_bounded_witness:
  "length (sr_nonces challenged_registrar) \<le> 256 \<and> length (sr_source_nonces challenged_registrar) \<le> 1"
  using registrar_memory_is_bounded [OF example_challenged_reached] by (simp add: challenged_registrar_def)

abbreviation example_answer :: sip_message where
  "example_answer \<equiv> example_register ''2 REGISTER'' example_credentials"

lemma example_key: "authorization_key example_answer example_account = (''n1'', ''bob'', ''c1'')"
  by (simp add: authorization_key_def authorization_params_def example_target example_params example_fields param_or_def)

lemma example_count: "nonce_count example_answer = Some 1"
  by (simp add: nonce_count_def authorization_params_def example_target example_params param_or_def)

lemma example_ascii: "ascii_fingerprint (register_fingerprint example_answer example_addr ''UDP'')"
proof -
  have "register_fingerprint example_answer example_addr ''UDP''
      = \<lparr> fp_method = Some ''REGISTER'', fp_uri = ''sip:ha'', fp_call_id = ''x'', fp_cseq = ''2 REGISTER'', fp_via = [],
          fp_contacts = [''<sip:bob@10.0.0.9>;expires=60''], fp_expires = [], fp_host = ''10.0.0.7'', fp_port = 5070,
          fp_transport = ''UDP'' \<rparr>"
    by code_simp
  then show ?thesis by (simp add: ascii_fingerprint_def ascii_text_def)
qed

lemma example_retransmitted:
  "admitted_as example_md5 (at_time 102) example_answer example_addr ''UDP''
     (fst (handle_register example_md5 ''n2'' (at_time 101) example_answer example_addr ''UDP'' challenged_registrar))
     example_account"
proof -
  let ?answer = "handle_register example_md5 ''n2'' (at_time 101) example_answer example_addr ''UDP'' challenged_registrar"
  let ?fp = "register_fingerprint example_answer example_addr ''UDP''"
  have "\<exists>r1. ?answer = register_authorized (at_time 101) example_answer example_account example_addr ''UDP'' r1
      \<and> sr_nonces r1 = [(''n1'', 700)] \<and> sr_nonce_uses r1 = [((''n1'', ''bob'', ''c1''), 1, ?fp)]
      \<and> sr_accounts r1 = [(''bob'', example_account)] \<and> sr_enabled r1"
    by (simp add: handle_register_def example_target example_fields example_params challenged_registrar_def
        check_authorization_def valid_nonce_def prune_nonces_def param_or_def at_time_def REALM_def compare_digest_def
        check_nonce_use_def remember_use_def Let_def)
      (rule exI, rule conjI, rule refl, simp add: example_target example_fields)
  then have "sr_nonces (fst ?answer) = [(''n1'', 700)]" "sr_nonce_uses (fst ?answer) = [((''n1'', ''bob'', ''c1''), 1, ?fp)]"
    "sr_accounts (fst ?answer) = [(''bob'', example_account)]" "sr_enabled (fst ?answer)"
    using register_authorized_fields by metis+
  then show ?thesis
    by (simp add: admitted_as_def example_target example_fields example_params check_authorization_def
        valid_nonce_def prune_nonces_def param_or_def at_time_def REALM_def compare_digest_def check_nonce_use_def
        compare_fingerprints_def example_ascii Let_def)
qed

theorem accepted_count_is_not_replayed_witness:
  "\<exists>n n'. nonce_count example_answer = Some n \<and> nonce_count example_answer = Some n' \<and> n \<le> n'"
  using accepted_count_is_not_replayed [OF example_challenged_reached example_admitted remembering.here _
      example_retransmitted refl]
  by (auto simp: challenged_registrar_def)

lemma example_flow:  "contact_for_source_flow ''sip:bob@10.0.0.9'' example_addr ''UDP'' = Inr ''sip:bob@10.0.0.7:5070''"
proof -
  have "parse_sip_uri ''sip:bob@10.0.0.9'' = Inr \<lparr> uri_user = ''bob'', uri_host = ''10.0.0.9'', uri_port = None, uri_params = [] \<rparr>"
    by code_simp
  moreover have "strip ''10.0.0.7'' = ''10.0.0.7''" "strip ''bob'' = ''bob''" "quote USER_SAFE ''bob'' = ''bob''"
    "lower (strip ''UDP'') = ''udp''" "list_ex bad_host_char ''10.0.0.7'' = False"
    by code_simp+
  moreover have "dec_int 5070 = ''5070''"
    by (simp add: dec_int_def dec.simps digit_char_def) code_simp
  ultimately show ?thesis
    by (simp add: contact_for_source_flow_def uri_str_def Let_def contains_def or_else_def)
qed
lemma example_md5_texts: "ascii_text (example_md5 x) \<and> plain_text (example_md5 x)"
proof -
  have "ord c < 128 \<and> c \<noteq> DQUOTE \<and> c \<noteq> BSLASH" if "is_digit c" for c
    using that by (auto simp: is_digit_def DQUOTE_def BSLASH_def)
  then show ?thesis
    using dec_digits [of "length x"] by (auto simp: example_md5_def ascii_text_def plain_text_def list_all_iff)
qed

lemma example_contacts:
  "header_values (msg_headers example_answer) ''Contact'' = [''<sip:bob@10.0.0.9>;expires=60'']"
  "register_contacts (msg_headers example_answer) = [(''sip:bob@10.0.0.9'', 60, ''<sip:bob@10.0.0.9>;expires=60'')]"
  "contact_q ''<sip:bob@10.0.0.9>;expires=60'' = Inr 1"
  "register_cseq (msg_headers example_answer) = Inr 2"
  "strip (header (msg_headers example_answer) ''Call-ID'') = ''x''"
  "contact_identity ''sip:bob@10.0.0.9'' = ''sip:bob@10.0.0.9''"
  subgoal by code_simp
  subgoal by code_simp
  subgoal by (simp add: contact_q_def) code_simp
  subgoal by code_simp
  subgoal by code_simp
  subgoal by code_simp
  done

theorem challenged_phone_is_registered_witness:
  "\<exists>res b. snd (handle_register example_md5 ''n2'' (at_time 101) example_answer example_addr ''UDP'' challenged_registrar) = Inr res
    \<and> rr_status res = 200
    \<and> located (sr_registrations (fst (handle_register example_md5 ''n2'' (at_time 101) example_answer example_addr ''UDP''
        challenged_registrar))) (''bob'', ''sip:bob@10.0.0.9'') = Some b
    \<and> sb_contact_uri b = ''sip:bob@10.0.0.7:5070''"
proof -
  have "example_nonce \<notin> fst ` set (sr_nonces example_registrar)" by (simp add: example_fields)
  moreover have "plain_text (ac_username example_account)" "plain_text (msg_uri example_answer)" "plain_text ''n1''"
    "plain_text ''c1''"
    by (simp_all add: example_fields example_target plain_text_def DQUOTE_def BSLASH_def)
  moreover have "assoc (sr_accounts challenged_registrar) (lower (ac_username example_account)) = Some example_account"
    "sr_enabled challenged_registrar" "sr_nonces challenged_registrar = [(''n1'', 700)]"
    "sr_nonce_uses challenged_registrar = []" "sr_registrations challenged_registrar = []"
    by (simp_all add: challenged_registrar_def example_fields example_target example_params)
  moreover have "build_digest_authorization example_md5 ''c1'' (challenge_text ''n1'') (ac_username example_account)
      (ac_password example_account) ''REGISTER'' (msg_uri example_answer) [] = Inr example_credentials"
    using example_built by (simp add: example_nonce_def example_account_def example_target)
  ultimately show ?thesis
    using challenged_phone_is_registered [OF example_reached _ example_challenge, where nonce = "''n1''"
        and cnonce = "''c1''" and a = example_account and m = example_answer and rd = "at_time 101"
        and addr = example_addr and transport = "''UDP''" and token' = "''n2''" and u = "projr (parse_sip_uri ''sip:ha'')"
        and username = "''bob''" and creds = example_credentials
        and v = "''<sip:bob@10.0.0.9>;expires=60''" and uri = "''sip:bob@10.0.0.9''" and expires = 60
        and raw = "''<sip:bob@10.0.0.9>;expires=60''" and q = 1 and c = "''sip:bob@10.0.0.7:5070''" and cseq = 2]
      example_contacts example_flow example_md5_texts
    by (simp add: example_target example_fields example_params registrations_of_def at_time_def new_binding_def) fastforce
qed
section \<open>Where the registrar raises or drops\<close>

text \<open>C5: Credentials that are right in everything but whose response is not ASCII text are not refused: the
  comparison of the digests raises a TypeError that the handler does not catch, so that the request stays
  without an answer; the bindings are left as they were.\<close>

theorem non_ascii_response_raises:
  assumes enabled: "sr_enabled r" and target: "parse_sip_uri (msg_uri m) = Inr u" "extract_register_username m = Inr username"
    and account: "assoc (sr_accounts r) (lower username) = Some a" "ac_enabled a"
    and params: "authorization_params m = ps" "param_or ps ''nonce'' [] = nonce" "param_or ps ''realm'' REALM = REALM"
      "lower (param_or ps ''username'' []) = lower (ac_username a)" "param_or ps ''uri'' (msg_uri m) = msg_uri m"
      "lower (param_or ps ''qop'' []) = ''auth''" "upper (param_or ps ''algorithm'' ''MD5'') = ''MD5''"
      "param_or ps ''cnonce'' [] \<noteq> []" "length (param_or ps ''cnonce'' []) \<le> 128" "length (param_or ps ''nc'' []) = 8"
      "py_int_hex (param_or ps ''nc'' []) = Some count" "0 < count"
    and nonce: "nonce \<noteq> []" "(nonce, expiry) \<in> set (sr_nonces r)" "rd_check rd < expiry"
    and response: "\<not> ascii_text (param_or ps ''response'' [])"
  shows "snd (handle_register md5 token rd m addr transport r) = Inl TypeError
    \<and> sr_registrations (fst (handle_register md5 token rd m addr transport r)) = sr_registrations r"
proof -
  let ?r = "r\<lparr> sr_last_event := ''REGISTER'' \<rparr>"
  have valid: "valid_nonce (rd_check rd) nonce ?r = (prune_nonces (rd_check rd) ?r, True)"
    using nonce by (force simp: valid_nonce_def prune_nonces_def Let_def image_iff)
  have "check_authorization md5 (rd_check rd) m a addr transport ?r = (prune_nonces (rd_check rd) ?r, Inl TypeError)"
    using params response
    by (simp add: check_authorization_def authorization_params_def Let_def valid compare_digest_def)
  then have "handle_register md5 token rd m addr transport r = (prune_nonces (rd_check rd) ?r, Inl TypeError)"
    using enabled target account by (simp add: handle_register_def Let_def)
  then show ?thesis by (simp add: prune_nonces_def Let_def)
qed

definition odd_credentials :: string where
  "odd_credentials = ''Digest '' @ join '', '' (map item_text
     [(True, ''username'', ''bob''), (True, ''nonce'', ''n1''), (True, ''uri'', ''sip:ha''), (True, ''response'', [CHR 0xE9]),
      (False, ''qop'', ''auth''), (False, ''nc'', ''00000001''), (True, ''cnonce'', ''c1'')])"

lemma odd_params:
  "authorization_params (example_register ''2 REGISTER'' odd_credentials) =
     [(''username'', ''bob''), (''nonce'', ''n1''), (''uri'', ''sip:ha''), (''response'', [CHR 0xE9]),
      (''qop'', ''auth''), (''nc'', ''00000001''), (''cnonce'', ''c1'')]"
proof -
  let ?items = "[(True, ''username'', ''bob''), (True, ''nonce'', ''n1''), (True, ''uri'', ''sip:ha''),
     (True, ''response'', [CHR 0xE9]), (False, ''qop'', ''auth''), (False, ''nc'', ''00000001''), (True, ''cnonce'', ''c1'')]"
  have "list_all good_item ?items" by code_simp
  then show ?thesis
    using parse_digest_items [of ?items] by (simp add: authorization_params_def example_target odd_credentials_def)
qed

theorem non_ascii_response_raises_witness:
  "snd (handle_register example_md5 ''n2'' (at_time 101) (example_register ''2 REGISTER'' odd_credentials) example_addr ''UDP''
     challenged_registrar) = Inl TypeError"
  using non_ascii_response_raises [where r = challenged_registrar and m = "example_register ''2 REGISTER'' odd_credentials"
      and u = "projr (parse_sip_uri ''sip:ha'')" and username = "''bob''" and a = example_account and count = 1
      and nonce = "''n1''" and expiry = 700 and rd = "at_time 101"]
  by (simp add: odd_params example_target example_params example_fields challenged_registrar_def param_or_def at_time_def
      ascii_text_def)

text \<open>A Contact header with a list of contacts counts as one: the first is bound and the others are dropped.\<close>

lemma contact_list_is_truncated:
  "register_contacts [(''Contact'', ''<sip:a@h>, <sip:b@h>'')] = [(''sip:a@h'', 3600, ''<sip:a@h>, <sip:b@h>'')]
   \<and> length (filter (\<lambda>v. v \<noteq> []) (map strip (header_values [(''Contact'', ''<sip:a@h>, <sip:b@h>'')] ''Contact''))) = 1"
  by code_simp
end
