(* ===== verification/Async.thy ===== *)
theory Async
  imports Endpoint_Session
begin

text \<open>
  Coroutines over a script.  Python's event loop runs one task at a time, so what a task reads of the
  rest of the program changes only while it waits: the world of a coroutine is what it sees now and
  the list of what there is to see later, moment by moment, with a log of the calls it makes.  A wait goes on
  until what is waited for has come: it passes over the moments before, of which it takes as many as
  it needs.  A coroutine that has used up its script is still waiting (\<open>None\<close>).

  At each moment the waiting task may be cancelled.  \<open>await_until\<close> is a wait that is left at once
  (\<open>asyncio.wait\<close>, with a time limit or without): \<open>CancelledError\<close> is raised there.  \<open>join_when\<close> is a wait that is
  gone through with, and raises afterwards what came in between (\<open>asyncio.gather\<close> of tasks and
  \<open>async_wait_for_cleanup\<close> of \<open>session_cleanup.py\<close>).  The rules for proving what every run of a coroutine ensures
  follow the definitions.
\<close>

section \<open>Worlds and waits\<close>

datatype interrupt = CancelledError | Failed exn

text \<open>How an awaited operation ends, from the outside: with a value, cancelled from within, with
  \<open>TimeoutError\<close>, or with another exception.\<close>

datatype 'o task_end = Ended 'o | Ended_Cancelled | Ended_Timeout | Ended_Error

record 'o moment =
  mo_session :: endpoint_session
  mo_clock :: int
  mo_ended :: "(string \<times> 'o task_end) list"
  mo_settled :: bool
  mo_cancelled :: bool

text \<open>\<open>mo_ended\<close>: the operations that have ended of themselves, and how.  \<open>mo_settled\<close>: what the task has asked
  to stop or to close, and now waits for, has done so.\<close>

record ('m, 'e) world =
  wo_now :: 'm
  wo_later :: "'m list"
  wo_seen :: "'m list"
  wo_log :: "'e list"

type_synonym ('m, 'e, 'a) coroutine =
  "('m, 'e) world \<Rightarrow> ((interrupt + 'a) \<times> ('m, 'e) world) option"

definition returns :: "'a \<Rightarrow> ('m, 'e, 'a) coroutine" where
  "returns x = (\<lambda>w. Some (Inr x, w))"

definition raises :: "interrupt \<Rightarrow> ('m, 'e, 'a) coroutine" where
  "raises i = (\<lambda>w. Some (Inl i, w))"

definition and_then ::
  "('m, 'e, 'a) coroutine \<Rightarrow> ('a \<Rightarrow> ('m, 'e, 'b) coroutine) \<Rightarrow> ('m, 'e, 'b) coroutine" where
  "and_then act k = (\<lambda>w. case act w of
      None \<Rightarrow> None
    | Some (Inl i, w') \<Rightarrow> Some (Inl i, w')
    | Some (Inr x, w') \<Rightarrow> k x w')"

definition emit :: "'e list \<Rightarrow> ('m, 'e, unit) coroutine" where
  "emit evs = (\<lambda>w. Some (Inr (), w\<lparr> wo_log := wo_log w @ evs \<rparr>))"

definition now_seen :: "('m, 'e, 'm) coroutine" where
  "now_seen = (\<lambda>w. Some (Inr (wo_now w), w))"

text \<open>The world after a wait that has passed over the moments \<open>pre\<close> and ended at \<open>m\<close>.\<close>

definition waited :: "'m list \<Rightarrow> 'm \<Rightarrow> 'm list \<Rightarrow> ('m, 'e) world \<Rightarrow> ('m, 'e) world" where
  "waited pre m ms w = w\<lparr> wo_now := m, wo_later := ms, wo_seen := wo_seen w @ pre @ [m] \<rparr>"

lemma waited_simps [simp]:
  "wo_now (waited pre m ms w) = m" "wo_later (waited pre m ms w) = ms"
  "wo_seen (waited pre m ms w) = wo_seen w @ pre @ [m]" "wo_log (waited pre m ms w) = wo_log w"
  by (simp_all add: waited_def)

lemma waited_later [simp]: "(waited pre m ms w)\<lparr> wo_later := later \<rparr> = waited pre m later w"
  "waited pre m ms (w\<lparr> wo_later := later \<rparr>) = waited pre m ms w"
  by (simp_all add: waited_def)

text \<open>The first moment at which a wait is over; what it waits for may depend on all it has seen since it
  began.\<close>

primrec wait_from :: "('m list \<Rightarrow> bool) \<Rightarrow> 'm list \<Rightarrow> 'm list \<Rightarrow> ('m list \<times> 'm \<times> 'm list) option" where
  "wait_from over pre [] = None"
| "wait_from over pre (m # ms) =
     (if over (pre @ [m]) then Some (pre, m, ms) else wait_from over (pre @ [m]) ms)"

definition await_until ::
  "(('o, 'x) moment_scheme list \<Rightarrow> bool) \<Rightarrow> (('o, 'x) moment_scheme, 'e, ('o, 'x) moment_scheme) coroutine" where
  "await_until over = (\<lambda>w.
     case wait_from (\<lambda>ms. mo_cancelled (last ms) \<or> over ms) [] (wo_later w) of
       None \<Rightarrow> None
     | Some (pre, m, ms) \<Rightarrow> Some (if mo_cancelled m then Inl CancelledError else Inr m, waited pre m ms w))"

definition join_when ::
  "(('o, 'x) moment_scheme list \<Rightarrow> bool) \<Rightarrow> (('o, 'x) moment_scheme, 'e, ('o, 'x) moment_scheme) coroutine" where
  "join_when over = (\<lambda>w.
     case wait_from over [] (wo_later w) of
       None \<Rightarrow> None
     | Some (pre, m, ms) \<Rightarrow>
         Some (if list_ex mo_cancelled (pre @ [m]) then Inl CancelledError else Inr m, waited pre m ms w))"

text \<open>The tasks that were asked to stop have ended, the clean-up is through; one turn of the event loop; the time
  limit of a wait.\<close>

definition join_settled :: "(('o, 'x) moment_scheme, 'e, ('o, 'x) moment_scheme) coroutine" where
  "join_settled = join_when (\<lambda>ms. mo_settled (last ms))"

definition join_next :: "(('o, 'x) moment_scheme, 'e, ('o, 'x) moment_scheme) coroutine" where
  "join_next = join_when (\<lambda>_. True)"

definition timed_out :: "int \<Rightarrow> ('o, 'x) moment_scheme list \<Rightarrow> bool" where
  "timed_out limit ms \<longleftrightarrow> limit \<le> mo_clock (last ms)"

text \<open>\<open>try: act finally: end\<close>: what \<open>end\<close> raises replaces the result.\<close>

definition finally_do ::
  "('m, 'e, 'a) coroutine \<Rightarrow> ('m, 'e, 'b) coroutine \<Rightarrow> ('m, 'e, 'a) coroutine" where
  "finally_do act ending = (\<lambda>w. case act w of
      None \<Rightarrow> None
    | Some (r, w') \<Rightarrow> and_then ending (\<lambda>_ w''. Some (r, w'')) w')"

text \<open>\<open>try: act except CancelledError: clean; raise\<close>.\<close>

definition on_cancel ::
  "('m, 'e, 'a) coroutine \<Rightarrow> ('m, 'e, 'b) coroutine \<Rightarrow> ('m, 'e, 'a) coroutine" where
  "on_cancel act clean = (\<lambda>w. case act w of
      Some (Inl CancelledError, w') \<Rightarrow> and_then clean (\<lambda>_. raises CancelledError) w'
    | r \<Rightarrow> r)"

section \<open>What every run ensures\<close>

text \<open>The weakest precondition: when the coroutine comes to an end, the end is as said.  Its equations
  follow the coroutine, so that \<open>simp\<close> runs it.\<close>

definition ensures ::
  "('m, 'e, 'a) coroutine \<Rightarrow> (interrupt + 'a \<Rightarrow> ('m, 'e) world \<Rightarrow> bool) \<Rightarrow> ('m, 'e) world \<Rightarrow> bool"
where
  "ensures act Q w \<longleftrightarrow> (case act w of None \<Rightarrow> True | Some (r, w') \<Rightarrow> Q r w')"

named_theorems ensuring "the weakest preconditions of the coroutines"

lemma ensuresI: "(\<And>r w'. act w = Some (r, w') \<Longrightarrow> Q r w') \<Longrightarrow> ensures act Q w"
  by (auto simp: ensures_def split: option.splits)

lemma ensuresD: "ensures act Q w \<Longrightarrow> act w = Some (r, w') \<Longrightarrow> Q r w'"
  by (simp add: ensures_def)

lemma ensures_mono:
  "ensures act Q w \<Longrightarrow> (\<And>r w'. Q r w' \<Longrightarrow> Q' r w') \<Longrightarrow> ensures act Q' w"
  by (auto simp: ensures_def split: option.splits)

lemma ensures_conj: "ensures act Q w \<Longrightarrow> ensures act R w \<Longrightarrow> ensures act (\<lambda>r w'. Q r w' \<and> R r w') w"
  by (auto simp: ensures_def split: option.splits)

lemma ensures_returns [ensuring]: "ensures (returns x) Q = (\<lambda>w. Q (Inr x) w)"
  by (simp add: ensures_def returns_def fun_eq_iff)

lemma ensures_raises [ensuring]: "ensures (raises i) Q = (\<lambda>w. Q (Inl i) w)"
  by (simp add: ensures_def raises_def fun_eq_iff)

lemma ensures_emit [ensuring]:
  "ensures (emit evs) Q = (\<lambda>w. Q (Inr ()) (w\<lparr> wo_log := wo_log w @ evs \<rparr>))"
  by (simp add: ensures_def emit_def fun_eq_iff)

lemma ensures_now [ensuring]: "ensures now_seen Q = (\<lambda>w. Q (Inr (wo_now w)) w)"
  by (simp add: ensures_def now_seen_def fun_eq_iff)

lemma wait_from_Some:
  assumes "wait_from over pre ms = Some (pre', m, rest)"
  shows "\<exists>skip. pre' = pre @ skip \<and> ms = skip @ m # rest \<and> over (pre' @ [m])"
  using assms
proof (induction ms arbitrary: pre)
  case (Cons x ms)
  show ?case
  proof (cases "over (pre @ [x])")
    case True
    then show ?thesis
      using Cons.prems by auto
  next
    case False
    then have "\<exists>skip. pre' = (pre @ [x]) @ skip \<and> ms = skip @ m # rest \<and> over (pre' @ [m])"
      using Cons.prems by (intro Cons.IH) simp
    then show ?thesis
      by auto
  qed
qed simp

lemma wait_fromD:
  "wait_from over [] ms = Some (pre, m, rest) \<Longrightarrow> ms = pre @ m # rest \<and> over (pre @ [m])"
  using wait_from_Some [of over "[]"] by auto

lemma ensures_await_until [ensuring]:
  "ensures (await_until over) Q = (\<lambda>w. \<forall>pre m ms.
     wait_from (\<lambda>ms. mo_cancelled (last ms) \<or> over ms) [] (wo_later w) = Some (pre, m, ms) \<longrightarrow>
     (if mo_cancelled m then Q (Inl CancelledError) (waited pre m ms w) else Q (Inr m) (waited pre m ms w)))"
  by (auto simp: ensures_def await_until_def fun_eq_iff split: option.splits)

lemma ensures_join_when [ensuring]:
  "ensures (join_when over) Q = (\<lambda>w. \<forall>pre m ms. wait_from over [] (wo_later w) = Some (pre, m, ms) \<longrightarrow>
     (if list_ex mo_cancelled (pre @ [m]) then Q (Inl CancelledError) (waited pre m ms w)
      else Q (Inr m) (waited pre m ms w)))"
  by (auto simp: ensures_def join_when_def fun_eq_iff split: option.splits)

declare join_settled_def [ensuring] join_next_def [ensuring]

lemma ensures_and_then [ensuring]:
  "ensures (and_then act k) Q =
     ensures act (\<lambda>r w'. case r of Inl i \<Rightarrow> Q (Inl i) w' | Inr x \<Rightarrow> ensures (k x) Q w')"
  by (auto simp: ensures_def and_then_def fun_eq_iff split: option.splits sum.splits)

lemma ensures_finally [ensuring]:
  "ensures (finally_do act ending) Q =
     ensures act (\<lambda>r. ensures ending (\<lambda>r' w'. case r' of Inl i \<Rightarrow> Q (Inl i) w' | Inr _ \<Rightarrow> Q r w'))"
  by (auto simp: ensures_def finally_do_def and_then_def fun_eq_iff split: option.splits sum.splits)

lemma ensures_on_cancel [ensuring]:
  "ensures (on_cancel act clean) Q =
     ensures act (\<lambda>r w'. if r = Inl CancelledError
       then ensures clean (\<lambda>r' w''. case r' of Inl i \<Rightarrow> Q (Inl i) w'' | Inr _ \<Rightarrow> Q (Inl CancelledError) w'') w'
       else Q r w')"
  by (auto simp: ensures_def on_cancel_def and_then_def raises_def fun_eq_iff
      split: option.splits sum.splits interrupt.splits)

lemma ensures_if [ensuring]:
  "ensures (if b then act1 else act2) Q = (\<lambda>w. if b then ensures act1 Q w else ensures act2 Q w)"
  by simp

section \<open>What a run uses of its script\<close>

text \<open>A coroutine uses a prefix of its script: it does the same whatever follows, and when it was
  cancelled on the way it does not return a value.\<close>

definition uses ::
  "(('o, 'x) moment_scheme, 'e, 'a) coroutine \<Rightarrow> (('o, 'x) moment_scheme, 'e) world
    \<Rightarrow> interrupt + 'a \<Rightarrow> (('o, 'x) moment_scheme, 'e) world \<Rightarrow> ('o, 'x) moment_scheme list \<Rightarrow> bool" where
  "uses act w r w' used \<longleftrightarrow>
     wo_later w = used @ wo_later w' \<and> wo_seen w' = wo_seen w @ used \<and>
     (\<forall>x. r = Inr x \<longrightarrow> list_all (\<lambda>m. \<not> mo_cancelled m) used) \<and>
     (\<forall>rest. act (w\<lparr> wo_later := used @ rest \<rparr>) = Some (r, w'\<lparr> wo_later := rest \<rparr>))"

definition follows_script :: "(('o, 'x) moment_scheme, 'e, 'a) coroutine \<Rightarrow> bool" where
  "follows_script act \<longleftrightarrow> (\<forall>w r w'. act w = Some (r, w') \<longrightarrow> (\<exists>used. uses act w r w' used))"

lemma follows_scriptD: "follows_script act \<Longrightarrow> act w = Some (r, w') \<Longrightarrow> \<exists>used. uses act w r w' used"
  by (simp add: follows_script_def)

lemma follows_basic [simp, intro]:
  "follows_script (returns x)" "follows_script (raises i)" "follows_script (emit evs)" "follows_script now_seen"
  by (auto simp: follows_script_def uses_def returns_def raises_def emit_def now_seen_def intro: exI [of _ "[]"])

lemma wait_from_longer:
  "wait_from over pre ms = Some (pre', m, rest) \<Longrightarrow> wait_from over pre (ms @ ms') = Some (pre', m, rest @ ms')"
  by (induction ms arbitrary: pre) (auto split: if_splits)

lemma wait_from_used:
  assumes "wait_from over pre ms = Some (pre', m, rest)" "pre' = pre @ skip"
  shows "wait_from over pre (skip @ m # rest') = Some (pre', m, rest')"
  using assms
proof (induction ms arbitrary: pre skip)
  case (Cons x ms)
  show ?case
  proof (cases "over (pre @ [x])")
    case True
    then show ?thesis
      using Cons.prems by simp
  next
    case False
    then have ms: "wait_from over (pre @ [x]) ms = Some (pre', m, rest)"
      using Cons.prems(1) by simp
    from wait_from_Some [OF this] Cons.prems(2) obtain skip' where "skip = x # skip'"
      by auto
    then show ?thesis
      using Cons.IH [OF ms, of skip'] Cons.prems(2) False by simp
  qed
qed simp

lemma wait_from_uncancelled:
  assumes "wait_from (\<lambda>ms. mo_cancelled (last ms) \<or> over ms) pre' ms = Some (pre, m, rest)"
    and "list_all (\<lambda>m. \<not> mo_cancelled m) pre'"
  shows "list_all (\<lambda>m. \<not> mo_cancelled m) pre"
  using assms by (induction ms arbitrary: pre') (auto split: if_splits)

lemma follows_await [simp, intro]: "follows_script (await_until over)"
  unfolding follows_script_def
proof (intro allI impI)
  fix w r and w' :: "(('a, 'b) moment_scheme, 'c) world"
  assume run: "await_until over w = Some (r, w')"
  let ?over = "\<lambda>ms. mo_cancelled (last ms) \<or> over ms"
  obtain pre m ms where found: "wait_from ?over [] (wo_later w) = Some (pre, m, ms)"
    and end': "r = (if mo_cancelled m then Inl CancelledError else Inr m)" "w' = waited pre m ms w"
    using run by (auto simp: await_until_def split: option.splits)
  have again: "wait_from ?over [] (pre @ m # rest) = Some (pre, m, rest)" for rest
    using wait_from_used [OF found, of pre rest] by simp
  have "list_all (\<lambda>m. \<not> mo_cancelled m) pre"
    using wait_from_uncancelled [OF found] by simp
  then show "\<exists>used. uses (await_until over) w r w' used"
    using wait_fromD [OF found] end' again
    by (intro exI [of _ "pre @ [m]"]) (auto simp: uses_def await_until_def)
qed

lemma follows_join [simp, intro]: "follows_script (join_when over)"
  unfolding follows_script_def
proof (intro allI impI)
  fix w r and w' :: "(('a, 'b) moment_scheme, 'c) world"
  assume run: "join_when over w = Some (r, w')"
  obtain pre m ms where found: "wait_from over [] (wo_later w) = Some (pre, m, ms)"
    and end': "r = (if list_ex mo_cancelled (pre @ [m]) then Inl CancelledError else Inr m)" "w' = waited pre m ms w"
    using run by (auto simp: join_when_def split: option.splits)
  have again: "wait_from over [] (pre @ m # rest) = Some (pre, m, rest)" for rest
    using wait_from_used [OF found, of pre rest] by simp
  have "list_all (\<lambda>m. \<not> mo_cancelled m) (pre @ [m])" if "r = Inr x" for x
    using end'(1) that by (auto simp: list_all_iff list_ex_iff split: if_splits)
  then show "\<exists>used. uses (join_when over) w r w' used"
    using wait_fromD [OF found] end' again
    by (intro exI [of _ "pre @ [m]"]) (auto simp: uses_def join_when_def simp del: list_ex_append)
qed

lemma follows_joins [simp, intro]: "follows_script join_settled" "follows_script join_next"
  by (simp_all add: join_settled_def join_next_def)

lemma follows_and_then [intro]:
  assumes "follows_script act" "\<And>x. follows_script (k x)"
  shows "follows_script (and_then act k)"
  unfolding follows_script_def
proof (intro allI impI)
  fix w r w'
  assume run: "and_then act k w = Some (r, w')"
  then obtain r1 w1 where first: "act w = Some (r1, w1)"
    by (cases "act w") (auto simp: and_then_def)
  obtain u1 where u1: "uses act w r1 w1 u1"
    using follows_scriptD [OF assms(1) first] ..
  show "\<exists>used. uses (and_then act k) w r w' used"
  proof (cases r1)
    case (Inl i)
    then show ?thesis
      using run first u1 by (intro exI [of _ u1]) (auto simp: uses_def and_then_def)
  next
    case (Inr x)
    then have second: "k x w1 = Some (r, w')"
      using run first by (simp add: and_then_def)
    obtain u2 where "uses (k x) w1 r w' u2"
      using follows_scriptD [OF assms(2) second] ..
    then show ?thesis
      using u1 Inr by (intro exI [of _ "u1 @ u2"]) (auto simp: uses_def and_then_def)
  qed
qed

lemma follows_finally [intro]:
  assumes "follows_script act" "follows_script ending"
  shows "follows_script (finally_do act ending)"
  unfolding follows_script_def
proof (intro allI impI)
  fix w r w'
  assume run: "finally_do act ending w = Some (r, w')"
  then obtain r1 w1 where first: "act w = Some (r1, w1)"
    by (cases "act w") (auto simp: finally_do_def)
  obtain r2 w2 where second: "ending w1 = Some (r2, w2)"
    using run first by (cases "ending w1") (auto simp: finally_do_def and_then_def)
  obtain u1 u2 where "uses act w r1 w1 u1" "uses ending w1 r2 w2 u2"
    using follows_scriptD [OF assms(1) first] follows_scriptD [OF assms(2) second] by blast
  then show "\<exists>used. uses (finally_do act ending) w r w' used"
    using run first second
    by (intro exI [of _ "u1 @ u2"]) (cases r2; auto simp: uses_def finally_do_def and_then_def)
qed

lemma follows_on_cancel [intro]:
  assumes "follows_script act" "follows_script clean"
  shows "follows_script (on_cancel act clean)"
  unfolding follows_script_def
proof (intro allI impI)
  fix w r w'
  assume run: "on_cancel act clean w = Some (r, w')"
  then obtain r1 w1 where first: "act w = Some (r1, w1)"
    by (cases "act w") (auto simp: on_cancel_def)
  obtain u1 where u1: "uses act w r1 w1 u1"
    using follows_scriptD [OF assms(1) first] ..
  show "\<exists>used. uses (on_cancel act clean) w r w' used"
  proof (cases "r1 = Inl CancelledError")
    case True
    then obtain r2 w2 where second: "clean w1 = Some (r2, w2)"
      using run first by (cases "clean w1") (auto simp: on_cancel_def and_then_def)
    obtain u2 where "uses clean w1 r2 w2 u2"
      using follows_scriptD [OF assms(2) second] ..
    then show ?thesis
      using run first second u1 True
      by (intro exI [of _ "u1 @ u2"]) (cases r2; auto simp: uses_def on_cancel_def and_then_def raises_def)
  next
    case False
    then have "r = r1" "w' = w1"
      using run first by (auto simp: on_cancel_def split: sum.splits interrupt.splits)
    then show ?thesis
      using u1 False
      by (intro exI [of _ u1]) (auto simp: uses_def on_cancel_def split: sum.splits interrupt.splits)
  qed
qed

lemma follows_if [intro]:
  "follows_script act1 \<Longrightarrow> follows_script act2 \<Longrightarrow> follows_script (if b then act1 else act2)"
  by simp

text \<open>A run goes on as it would on a longer script, and a run that ends within a prefix of the script
  ends on the prefix.\<close>

lemma follows_longer:
  assumes "follows_script act" "act w = Some (r, w')"
  shows "act (w\<lparr> wo_later := wo_later w @ ms \<rparr>) = Some (r, w'\<lparr> wo_later := wo_later w' @ ms \<rparr>)"
proof -
  obtain used where "uses act w r w' used"
    using follows_scriptD [OF assms] ..
  then show ?thesis
    by (auto simp: uses_def)
qed

lemma follows_interrupted:
  assumes "follows_script act" "act w = Some (Inr x, w')"
    and "wo_later w = ms @ m # later" "mo_cancelled m"
  shows "\<exists>w1. act (w\<lparr> wo_later := ms \<rparr>) = Some (Inr x, w1)"
proof -
  obtain used where used: "uses act w (Inr x) w' used"
    using follows_scriptD [OF assms(1,2)] ..
  then have "used @ wo_later w' = ms @ m # later" "m \<notin> set used"
    using assms(3,4) by (auto simp: uses_def list_all_iff)
  then obtain rest where "ms = used @ rest"
    by (auto simp: append_eq_append_conv2 append_eq_Cons_conv)
  then show ?thesis
    using used by (auto simp: uses_def)
qed

end
