(* ===== verification/Dial_Fork.thy ===== *)
theory Dial_Fork
  imports Async "HOL-Library.Product_Lexorder" "HOL-Library.List_Lexorder" "HOL-Library.Char_ord"
begin

text \<open>
  \<open>custom_components/voip_stack/dial_fork.py\<close>: the fork that rings several legs of a call at once or in
  turn, picks one winner, and closes every other leg.

  A fork is a coroutine over a script (theory \<open>Async\<close>).  What the dial operation of a candidate comes to
  is what the script says has ended when the fork looks, if it ever ends; a dial operation that is cancelled
  passes the cancellation on, in its own time.  Closing a leg is a call in the log, its
  exceptions are swallowed by the code.  Times are integers of ticks.  A group of legs that the code
  keeps in a \<open>set\<close> is closed here in the order of the candidates: the calls are concurrent.
\<close>

section \<open>Candidates and outcomes\<close>

datatype fork_strategy = PARALLEL | SEQUENTIAL

fun strategy_value :: "fork_strategy \<Rightarrow> string" where
  "strategy_value PARALLEL = ''parallel''"
| "strategy_value SEQUENTIAL = ''sequential''"

definition fork_strategy_of :: "string \<Rightarrow> exn + fork_strategy" where
  "fork_strategy_of text =
     (if text = ''parallel'' then Inr PARALLEL
      else if text = ''sequential'' then Inr SEQUENTIAL else Inl ValueError)"

datatype dial_disposition =
    D_ANSWERED | D_BUSY | D_DND | D_DECLINED | D_UNAVAILABLE | D_TIMEOUT | D_MEDIA_INCOMPATIBLE
  | D_AUTH_FAILED | D_CANCELLED | D_SOURCE_CANCELLED | D_REROUTE | D_PROTOCOL_ERROR

datatype leg_close_mode = CANCEL_OR_BYE | BYE | CLOSE

record dial_outcome =
  do_disposition :: dial_disposition
  do_status :: int
  do_reason :: string

abbreviation DialOutcome :: "dial_disposition \<Rightarrow> int \<Rightarrow> string \<Rightarrow> dial_outcome" where
  "DialOutcome d status reason \<equiv> \<lparr> do_disposition = d, do_status = status, do_reason = reason \<rparr>"

definition answered :: "dial_outcome \<Rightarrow> bool" where
  "answered oc \<longleftrightarrow> do_disposition oc = D_ANSWERED"

record dial_candidate =
  dc_id :: string
  dc_tier :: int
  dc_order :: int
  dc_endpoint_id :: string
  dc_control :: bool

record fork_result =
  fr_outcome :: dial_outcome
  fr_winner :: "dial_candidate option"
  fr_attempted :: "string list"

text \<open>The calls a fork makes: the task of a dial operation is started, the tasks of a tier that are not
  done are asked to cancel, the close operation of a leg, the callback that commits
  the winner, the cancellation of the task of the branches after so many of its waits.\<close>

datatype fork_event =
    Dialled dial_candidate
  | Stop_Unfinished "dial_candidate list"
  | Closed_Leg leg_close_mode dial_candidate
  | Committed dial_candidate dial_outcome
  | Cancelled_Branch nat "dial_outcome moment"

type_synonym fork_moment = "dial_outcome moment"
type_synonym ('x, 'a) fork = "((dial_outcome, 'x) moment_scheme, fork_event, 'a) coroutine"
type_synonym tier_result = "dial_candidate option \<times> dial_outcome option \<times> dial_outcome list"
type_synonym 'x winner_commit = "dial_candidate \<Rightarrow> dial_outcome \<Rightarrow> ('x, bool) fork"

record fork_controller =
  fc_token :: call_token
  fc_candidates :: "dial_candidate list"
  fc_strategy :: fork_strategy
  fc_tier_strategies :: "(int \<times> fork_strategy) list"
  fc_overall_timeout :: int
  fc_step_timeout :: int

definition dial_order :: "dial_candidate \<Rightarrow> int \<times> int \<times> string" where
  "dial_order c = (dc_tier c, dc_order c, dc_id c)"

definition new_fork ::
  "endpoint_session \<Rightarrow> dial_candidate list \<Rightarrow> string \<Rightarrow> (int \<times> string) list \<Rightarrow> int \<Rightarrow> int
    \<Rightarrow> exn + fork_controller" where
  "new_fork session candidates strategy tier_strategies overall_timeout step_timeout =
     (let sorted = sort_key dial_order candidates in
      if \<not> distinct (map dc_id sorted) then Inl ValueError
      else if overall_timeout \<le> 0 \<or> step_timeout \<le> 0 then Inl ValueError
      else
        bindE (fork_strategy_of strategy) (\<lambda>strategy'.
        bindE (mapE (\<lambda>(tier, s). bindE (fork_strategy_of s) (\<lambda>s'. Inr (tier, s'))) tier_strategies)
          (\<lambda>tier_strategies'.
        Inr \<lparr> fc_token = token session, fc_candidates = sorted, fc_strategy = strategy',
              fc_tier_strategies = tier_strategies', fc_overall_timeout = overall_timeout,
              fc_step_timeout = step_timeout \<rparr>)))"

section \<open>Closing legs\<close>

text \<open>\<open>tuple(dict.fromkeys(...))\<close>.\<close>

fun first_of_each :: "'a list \<Rightarrow> 'a list" where
  "first_of_each [] = []"
| "first_of_each (x # xs) = x # first_of_each (removeAll x xs)"

definition close_candidates :: "dial_candidate list \<Rightarrow> leg_close_mode \<Rightarrow> ('x, unit) fork" where
  "close_candidates candidates mode =
     (let unique = first_of_each candidates in
      if unique = [] then returns ()
      else and_then (emit (map (Closed_Leg mode) unique)) (\<lambda>_. and_then join_settled (\<lambda>_. returns ())))"

text \<open>\<open>_wait_for_cleanup_or_termination\<close> of the cleanup task that closes the losers: the task runs on
  its own, so a cancellation of the waiter does not stop it.  The last wait is for the task that waits for the
  termination of the session, which is cancelled.\<close>

definition wait_for_cleanup_or_termination :: "call_token \<Rightarrow> ('x, bool) fork" where
  "wait_for_cleanup_or_termination tok =
     and_then now_seen (\<lambda>m.
       if es_termination_started (mo_session m) then and_then join_settled (\<lambda>_. returns True)
       else
         finally_do
           (and_then (await_until (\<lambda>ms. mo_settled (last ms) \<or> es_termination_started (mo_session (last ms)))) (\<lambda>m1.
            and_then (if mo_settled m1 then returns m1 else join_settled) (\<lambda>m2.
              returns (es_termination_started (mo_session m1) \<or> \<not> owns (mo_session m2) tok))))
           join_next)"

section \<open>Reducing failures\<close>

definition reduce_failures :: "dial_outcome list \<Rightarrow> dial_outcome" where
  "reduce_failures outcomes =
     (let dispositions = map do_disposition outcomes in
      if outcomes = [] then DialOutcome D_UNAVAILABLE 480 ''Temporarily Unavailable''
      else if list_all (\<lambda>d. d = D_DECLINED) dispositions then DialOutcome D_DECLINED 603 ''Decline''
      else if list_ex (\<lambda>d. d = D_BUSY) dispositions then DialOutcome D_BUSY 486 ''Busy Here''
      else if list_ex (\<lambda>d. d = D_DND) dispositions then DialOutcome D_DND 486 ''DND''
      else if list_all (\<lambda>d. d = D_MEDIA_INCOMPATIBLE) dispositions
        then DialOutcome D_MEDIA_INCOMPATIBLE 488 ''Not Acceptable Here''
      else if list_all (\<lambda>d. d = D_TIMEOUT) dispositions then DialOutcome D_TIMEOUT 408 ''Request Timeout''
      else DialOutcome D_UNAVAILABLE 480 ''Temporarily Unavailable'')"

definition is_route_control :: "dial_outcome \<Rightarrow> bool" where
  "is_route_control oc \<longleftrightarrow> do_disposition oc \<in> {D_SOURCE_CANCELLED, D_REROUTE}"

text \<open>The first outcome that withdraws the call from the source, otherwise the first that reroutes it.\<close>

definition route_control :: "dial_outcome list \<Rightarrow> dial_outcome option" where
  "route_control outcomes =
     (case find (\<lambda>oc. do_disposition oc = D_SOURCE_CANCELLED) outcomes of
        Some oc \<Rightarrow> Some oc
      | None \<Rightarrow> find (\<lambda>oc. do_disposition oc = D_REROUTE) outcomes)"

section \<open>A tier in parallel\<close>

text \<open>\<open>task.result()\<close> of a task that is done.\<close>

fun parallel_outcome :: "dial_outcome task_end \<Rightarrow> dial_outcome" where
  "parallel_outcome (Ended oc) = oc"
| "parallel_outcome Ended_Cancelled = DialOutcome D_CANCELLED 487 ''''"
| "parallel_outcome Ended_Timeout = DialOutcome D_PROTOCOL_ERROR 500 ''''"
| "parallel_outcome Ended_Error = DialOutcome D_PROTOCOL_ERROR 500 ''''"

definition has_ended :: "(dial_outcome, 'x) moment_scheme \<Rightarrow> dial_candidate \<Rightarrow> bool" where
  "has_ended m c \<longleftrightarrow> assoc (mo_ended m) (dc_id c) \<noteq> None"

definition parallel_batch ::
  "(dial_outcome, 'x) moment_scheme \<Rightarrow> dial_candidate list \<Rightarrow> (dial_candidate \<times> dial_outcome) list" where
  "parallel_batch m pending =
     concat (map (\<lambda>c. case assoc (mo_ended m) (dc_id c) of
        None \<Rightarrow> [] | Some e \<Rightarrow> [(c, parallel_outcome e)]) pending)"

text \<open>The first answer of a batch, and the failures before it.\<close>

fun first_answer ::
  "(dial_candidate \<times> dial_outcome) list \<Rightarrow> dial_outcome list
    \<Rightarrow> (dial_candidate \<times> dial_outcome) option \<times> dial_outcome list" where
  "first_answer [] failures = (None, failures)"
| "first_answer ((c, oc) # batch) failures =
     (if answered oc then (Some (c, oc), failures) else first_answer batch (failures @ [oc]))"

text \<open>\<open>asyncio.wait\<close> for the first of the pending dials to end or the session to terminate, with the time that is left
  as its limit; then the task that waits for the termination is cancelled and gathered.\<close>

definition wait_for_first ::
  "dial_candidate list \<Rightarrow> int \<Rightarrow> ('x, (dial_outcome, 'x) moment_scheme) fork" where
  "wait_for_first pending limit =
     finally_do
       (await_until (\<lambda>ms. list_ex (has_ended (last ms)) pending \<or> es_termination_started (mo_session (last ms)) \<or>
          timed_out limit ms))
       join_next"

lemma waits_shorten:
  "await_until over w = Some (r, w') \<Longrightarrow> length (wo_later w') < length (wo_later w)"
  "join_when over w = Some (r, w') \<Longrightarrow> length (wo_later w') < length (wo_later w)"
  by (auto simp: await_until_def join_when_def dest!: wait_fromD split: option.splits)

lemma wait_for_first_shortens:
  "wait_for_first pending limit w = Some (r, w') \<Longrightarrow> length (wo_later w') < length (wo_later w)"
  by (auto simp: wait_for_first_def finally_do_def and_then_def join_next_def dest!: waits_shorten
      split: option.splits prod.splits sum.splits)

function parallel_rounds ::
  "call_token \<Rightarrow> int \<Rightarrow> dial_candidate list \<Rightarrow> dial_outcome list \<Rightarrow> ('x, tier_result) fork" where
  "parallel_rounds tok deadline pending failures w =
     (let m = wo_now w; timeout = max 0 (deadline - mo_clock m) in
      if pending = [] then returns (None, None, failures) w
      else if \<not> owns (mo_session m) tok
      then returns (None, Some (DialOutcome D_CANCELLED 487 ''''), failures) w
      else if timeout \<le> 0
      then returns (None, None, failures @ map (\<lambda>_. DialOutcome D_TIMEOUT 408 '''') pending) w
      else case wait_for_first pending (mo_clock m + timeout) w of
        None \<Rightarrow> None
      | Some (Inl i, w') \<Rightarrow> raises i w'
      | Some (Inr m', w') \<Rightarrow>
          if es_termination_started (mo_session (wo_now w'))
          then returns (None, Some (DialOutcome D_CANCELLED 487 ''''), failures) w'
          else
            let batch = parallel_batch m' pending in
            case route_control (map snd batch) of
              Some oc \<Rightarrow> returns (None, Some oc, failures) w'
            | None \<Rightarrow>
                case first_answer batch failures of
                  (Some (c, oc), failures') \<Rightarrow> returns (Some c, Some oc, failures') w'
                | (None, failures') \<Rightarrow>
                    parallel_rounds tok deadline (filter (\<lambda>c. \<not> has_ended m' c) pending) failures' w')"
  by pat_completeness auto

termination
  by (relation "measure (\<lambda>(_, _, _, _, w). length (wo_later w))")
    (auto dest: wait_for_first_shortens)

definition dial_parallel_tier ::
  "fork_controller \<Rightarrow> dial_candidate list \<Rightarrow> int \<Rightarrow> ('x, tier_result) fork" where
  "dial_parallel_tier fc candidates deadline =
     and_then (emit (map Dialled candidates)) (\<lambda>_.
       finally_do
         (parallel_rounds (fc_token fc) deadline candidates [])
         (and_then (emit [Stop_Unfinished candidates]) (\<lambda>_. join_settled)))"

section \<open>A tier in turn\<close>

text \<open>\<open>asyncio.wait_for\<close> runs the dial in the same task: when the time is up the dial is cancelled, and it is over
  when the dial has come to its end, whether with the cancellation, which then counts as \<open>TimeoutError\<close>, or
  with something else.  A cancellation from outside goes through the dial in the same way.\<close>

definition wait_for_dial :: "dial_candidate \<Rightarrow> int \<Rightarrow> ('x, dial_outcome task_end) fork" where
  "wait_for_dial c limit =
     and_then
       (on_cancel (await_until (\<lambda>ms. has_ended (last ms) c \<or> timed_out limit ms)) join_settled)
       (\<lambda>m.
          case assoc (mo_ended m) (dc_id c) of
            Some e \<Rightarrow> returns e
          | None \<Rightarrow>
              and_then (emit [Stop_Unfinished [c]]) (\<lambda>_.
              and_then join_settled (\<lambda>m'.
                returns (case assoc (mo_ended m') (dc_id c) of
                    None \<Rightarrow> Ended_Timeout | Some Ended_Cancelled \<Rightarrow> Ended_Timeout | Some e \<Rightarrow> e))))"

definition sequential_outcome :: "dial_candidate \<Rightarrow> dial_outcome task_end \<Rightarrow> ('x, dial_outcome) fork" where
  "sequential_outcome c e =
     (case e of
        Ended_Timeout \<Rightarrow>
          and_then (close_candidates [c] CANCEL_OR_BYE) (\<lambda>_. returns (DialOutcome D_TIMEOUT 408 ''''))
      | Ended oc \<Rightarrow> returns oc
      | Ended_Cancelled \<Rightarrow> raises CancelledError
      | Ended_Error \<Rightarrow> returns (DialOutcome D_PROTOCOL_ERROR 500 ''''))"

fun dial_sequential ::
  "fork_controller \<Rightarrow> int \<Rightarrow> dial_candidate list \<Rightarrow> dial_outcome list \<Rightarrow> ('x, tier_result) fork" where
  "dial_sequential fc deadline [] failures = returns (None, None, failures)"
| "dial_sequential fc deadline (c # cs) failures =
     and_then now_seen (\<lambda>m.
       if \<not> owns (mo_session m) (fc_token fc)
       then returns (None, Some (DialOutcome D_CANCELLED 487 ''''), failures)
       else
         let remaining = max 0 (deadline - mo_clock m) in
         if remaining \<le> 0 then returns (None, None, failures)
         else
         and_then (emit [Dialled c]) (\<lambda>_.
         and_then (wait_for_dial c (mo_clock m + min (fc_step_timeout fc) remaining)) (\<lambda>e.
         and_then (sequential_outcome c e) (\<lambda>oc.
         and_then now_seen (\<lambda>m2.
           if es_termination_started (mo_session m2)
           then and_then (close_candidates [c] CANCEL_OR_BYE)
                  (\<lambda>_. returns (None, Some (DialOutcome D_CANCELLED 487 ''''), failures))
           else if is_route_control oc then returns (None, Some oc, failures)
           else if answered oc then returns (Some c, Some oc, failures)
           else and_then (close_candidates [c] CLOSE)
                  (\<lambda>_. dial_sequential fc deadline cs (failures @ [oc])))))))"

definition dial_sequential_tier ::
  "fork_controller \<Rightarrow> dial_candidate list \<Rightarrow> int \<Rightarrow> ('x, tier_result) fork" where
  "dial_sequential_tier fc candidates deadline = dial_sequential fc deadline candidates []"

section \<open>The fork\<close>

definition tier_members :: "fork_controller \<Rightarrow> int \<Rightarrow> dial_candidate list" where
  "tier_members fc tier = filter (\<lambda>c. dc_tier c = tier) (fc_candidates fc)"

definition dial_tier :: "fork_controller \<Rightarrow> int \<Rightarrow> int \<Rightarrow> ('x, tier_result) fork" where
  "dial_tier fc deadline tier =
     (case (case assoc (fc_tier_strategies fc) tier of Some s \<Rightarrow> s | None \<Rightarrow> fc_strategy fc) of
        PARALLEL \<Rightarrow> dial_parallel_tier fc (tier_members fc tier) deadline
      | SEQUENTIAL \<Rightarrow> dial_sequential_tier fc (tier_members fc tier) deadline)"

definition withdraws_fork :: "dial_outcome \<Rightarrow> bool" where
  "withdraws_fork oc \<longleftrightarrow> do_disposition oc \<in> {D_CANCELLED, D_SOURCE_CANCELLED, D_REROUTE}"

definition no_winner :: "dial_outcome \<Rightarrow> string list \<Rightarrow> fork_result" where
  "no_winner oc attempted = \<lparr> fr_outcome = oc, fr_winner = None, fr_attempted = attempted \<rparr>"

definition abandon_winner :: "dial_candidate \<Rightarrow> string list \<Rightarrow> ('x, fork_result) fork" where
  "abandon_winner c attempted =
     and_then (close_candidates [c] BYE)
       (\<lambda>_. returns (no_winner (DialOutcome D_CANCELLED 487 ''Request Terminated'') attempted))"

text \<open>After the tiers: the losers are closed, then the winner is committed if the call is still the
  one the fork was started for.\<close>

definition settle_winner ::
  "fork_controller \<Rightarrow> 'x winner_commit \<Rightarrow> dial_candidate \<Rightarrow> dial_outcome \<Rightarrow> string list \<Rightarrow> ('x, fork_result) fork" where
  "settle_winner fc commit c oc attempted =
     and_then (emit (map (Closed_Leg CANCEL_OR_BYE) (filter (\<lambda>d. d \<noteq> c) (fc_candidates fc)))) (\<lambda>_.
     and_then (wait_for_cleanup_or_termination (fc_token fc)) (\<lambda>source_terminated.
     and_then now_seen (\<lambda>m.
       if source_terminated \<or> \<not> owns (mo_session m) (fc_token fc) then abandon_winner c attempted
       else and_then (commit c oc) (\<lambda>accepted.
         if \<not> accepted then abandon_winner c attempted
         else returns \<lparr> fr_outcome = oc, fr_winner = Some c, fr_attempted = attempted \<rparr>))))"

fun dial_tiers ::
  "fork_controller \<Rightarrow> 'x winner_commit \<Rightarrow> int \<Rightarrow> int list \<Rightarrow> string list \<Rightarrow> dial_outcome list \<Rightarrow> ('x, fork_result) fork" where
  "dial_tiers fc commit deadline [] attempted failures =
     and_then (close_candidates (fc_candidates fc) CLOSE)
       (\<lambda>_. returns (no_winner (reduce_failures failures) attempted))"
| "dial_tiers fc commit deadline (tier # tiers) attempted failures =
     (let attempted' = attempted @ map dc_id (tier_members fc tier) in
      and_then (dial_tier fc deadline tier) (\<lambda>(winner, control, tier_failures).
        case (winner, control) of
          (Some c, Some oc) \<Rightarrow>
            if withdraws_fork oc
            then and_then (close_candidates (fc_candidates fc) CANCEL_OR_BYE)
                   (\<lambda>_. returns (no_winner oc attempted'))
            else settle_winner fc commit c oc attempted'
        | (None, Some oc) \<Rightarrow>
            if withdraws_fork oc
            then and_then (close_candidates (fc_candidates fc) CANCEL_OR_BYE)
                   (\<lambda>_. returns (no_winner oc attempted'))
            else dial_tiers fc commit deadline tiers attempted' (failures @ tier_failures)
        | (Some c, None) \<Rightarrow>
            and_then (close_candidates (fc_candidates fc) CLOSE)
              (\<lambda>_. returns (no_winner (reduce_failures (failures @ tier_failures)) attempted'))
        | (None, None) \<Rightarrow> dial_tiers fc commit deadline tiers attempted' (failures @ tier_failures)))"

definition run_candidates :: "fork_controller \<Rightarrow> 'x winner_commit \<Rightarrow> ('x, fork_result) fork" where
  "run_candidates fc commit =
     and_then now_seen (\<lambda>m.
       case ensure_live (mo_session m) (Some (fc_token fc)) of
         Inl e \<Rightarrow> raises (Failed e)
       | Inr _ \<Rightarrow>
           if fc_candidates fc = [] then returns (no_winner (reduce_failures []) [])
           else
             let deadline = mo_clock m + fc_overall_timeout fc;
                 tiers = sort (remdups (map dc_tier (fc_candidates fc)))
             in on_cancel (dial_tiers fc commit deadline tiers [] [])
                  (close_candidates (fc_candidates fc) CANCEL_OR_BYE))"

section \<open>The fork with route-control waiters\<close>

text \<open>The branches run as a task of their own.  What they have seen is a script too: each moment of the
  controlling task says what the branches saw since the one before (\<open>mo_branch\<close>), starting with the moment at
  which the task starts.  So the state of the branch task is that of its run on the moments so far.\<close>

record branch_moment = "dial_outcome moment" +
  mo_branch :: "fork_moment list"

type_synonym 'a control_fork = "(branch_moment, fork_event, 'a) coroutine"
type_synonym control_world = "(branch_moment, fork_event) world"

definition branch_run ::
  "fork_controller \<Rightarrow> fork_moment list \<Rightarrow> ((interrupt + fork_result) \<times> (fork_moment, fork_event) world) option"
where
  "branch_run fc script =
     (case script of
        [] \<Rightarrow> None
      | m # ms \<Rightarrow>
          let w = \<lparr> wo_now = m, wo_later = ms, wo_seen = [], wo_log = [] \<rparr> in
          if mo_cancelled m then raises CancelledError w
          else run_candidates fc (\<lambda>_ _. returns True) w)"

text \<open>The moments of the branch task, with the cancellation that was delivered after \<open>n\<close> of them.\<close>

fun delivered :: "fork_event list \<Rightarrow> fork_moment list \<Rightarrow> fork_moment list" where
  "delivered [] ms = ms"
| "delivered (Cancelled_Branch n m # evs) ms = take n ms @ m # drop n ms"
| "delivered (e # evs) ms = delivered evs ms"

definition branch_script :: "control_world \<Rightarrow> fork_moment list" where
  "branch_script w = delivered (wo_log w) (concat (map mo_branch (wo_seen w)))"

definition branch_result :: "fork_controller \<Rightarrow> control_world \<Rightarrow> (interrupt + fork_result) option" where
  "branch_result fc w = map_option fst (branch_run fc (branch_script w))"

definition branch_done :: "fork_controller \<Rightarrow> control_world \<Rightarrow> bool" where
  "branch_done fc w \<longleftrightarrow> branch_result fc w \<noteq> None"

text \<open>\<open>branch_task.cancel()\<close>, which does nothing to a task that is done.\<close>

definition cancel_branch :: "fork_controller \<Rightarrow> unit control_fork" where
  "cancel_branch fc w =
     (if branch_done fc w then returns () w
      else emit [Cancelled_Branch (length (concat (map mo_branch (wo_seen w))))
                   (moment.truncate (wo_now w) \<lparr> mo_settled := False, mo_cancelled := True \<rparr>)] w)"

text \<open>The task of the branches is done by the end of a wait that began in \<open>w\<close>.\<close>

definition branch_done_after :: "fork_controller \<Rightarrow> control_world \<Rightarrow> branch_moment list \<Rightarrow> bool" where
  "branch_done_after fc w ms \<longleftrightarrow> branch_done fc (w\<lparr> wo_seen := wo_seen w @ ms \<rparr>)"

definition gather_branch :: "fork_controller \<Rightarrow> unit control_fork" where
  "gather_branch fc w = and_then (join_when (branch_done_after fc w)) (\<lambda>_. returns ()) w"

definition task_result :: "fork_controller \<Rightarrow> fork_result control_fork" where
  "task_result fc w =
     (case branch_result fc w of
        None \<Rightarrow> None
      | Some (Inl i) \<Rightarrow> raises i w
      | Some (Inr res) \<Rightarrow> returns res w)"

text \<open>\<open>await branch_task\<close>: no wait when the task is done; a cancellation of the waiter is passed on to the task and
  raised when that is done.\<close>

definition await_branch :: "fork_controller \<Rightarrow> fork_result control_fork" where
  "await_branch fc w =
     (if branch_done fc w then task_result fc w
      else
        on_cancel (and_then (await_until (branch_done_after fc w)) (\<lambda>_. task_result fc))
          (\<lambda>w'. if branch_done fc w' then returns () w'
                else and_then (cancel_branch fc) (\<lambda>_. gather_branch fc) w') w)"

text \<open>The loop over the waiters: whether it was cancelled, the control outcome it found, and the waiters
  still pending.\<close>

function control_rounds ::
  "fork_controller \<Rightarrow> int \<Rightarrow> dial_candidate list
    \<Rightarrow> (bool \<times> dial_outcome option \<times> dial_candidate list) control_fork" where
  "control_rounds fc deadline pending w =
     (let timeout = max 0 (deadline - mo_clock (wo_now w)) in
      if pending = [] \<or> branch_done fc w then returns (False, None, pending) w
      else if timeout \<le> 0 then returns (False, None, pending) w
      else case await_until (\<lambda>ms. list_ex (has_ended (last ms)) pending \<or> branch_done_after fc w ms \<or>
          timed_out (mo_clock (wo_now w) + timeout) ms) w of
        None \<Rightarrow> None
      | Some (Inl i, w') \<Rightarrow> returns (True, None, pending) w'
      | Some (Inr m, w') \<Rightarrow>
          let pending' = filter (\<lambda>c. \<not> has_ended m c) pending;
              outcomes = concat (map (\<lambda>c. case assoc (mo_ended m) (dc_id c) of
                  Some (Ended oc) \<Rightarrow> [oc] | _ \<Rightarrow> []) pending)
          in case route_control outcomes of
               Some oc \<Rightarrow> returns (False, Some oc, pending') w'
             | None \<Rightarrow> control_rounds fc deadline pending' w')"
  by pat_completeness auto

termination
  by (relation "measure (\<lambda>(_, _, _, w). length (wo_later w))")
    (auto dest: waits_shorten)

definition withdraw_branch :: "fork_controller \<Rightarrow> unit control_fork" where
  "withdraw_branch fc w =
     (if branch_done fc w
      then and_then (task_result fc) (\<lambda>res.
             case fr_winner res of
               Some c \<Rightarrow> close_candidates [c] BYE
             | None \<Rightarrow> returns ()) w
      else and_then (cancel_branch fc) (\<lambda>_. gather_branch fc) w)"

definition after_controls ::
  "fork_controller \<Rightarrow> fork_controller \<Rightarrow> dial_candidate list
    \<Rightarrow> (dial_candidate \<Rightarrow> dial_outcome \<Rightarrow> bool control_fork)
    \<Rightarrow> dial_outcome option \<Rightarrow> fork_result control_fork" where
  "after_controls fc branch_fc controls commit control =
     (case control of
        Some oc \<Rightarrow>
          and_then (withdraw_branch branch_fc) (\<lambda>_.
          and_then (close_candidates controls CLOSE) (\<lambda>_.
          returns (no_winner oc (map dc_id (fc_candidates fc)))))
      | None \<Rightarrow>
          and_then (await_branch branch_fc) (\<lambda>res.
          and_then (close_candidates controls CLOSE) (\<lambda>_.
          case fr_winner res of
            None \<Rightarrow> returns res
          | Some c \<Rightarrow>
              and_then (commit c (fr_outcome res)) (\<lambda>accepted.
                if accepted then returns res
                else abandon_winner c (fr_attempted res)))))"

definition abort_controls ::
  "fork_controller \<Rightarrow> dial_candidate list \<Rightarrow> dial_candidate list \<Rightarrow> unit control_fork" where
  "abort_controls branch_fc controls pending =
     and_then (cancel_branch branch_fc) (\<lambda>_.
     and_then (emit [Stop_Unfinished pending]) (\<lambda>_.
     and_then (\<lambda>w. join_when (\<lambda>ms. branch_done_after branch_fc w ms \<and> mo_settled (last ms)) w) (\<lambda>_.
     close_candidates controls CANCEL_OR_BYE)))"

definition gather_controls :: "dial_candidate list \<Rightarrow> unit control_fork" where
  "gather_controls pending =
     and_then (emit [Stop_Unfinished pending]) (\<lambda>_.
       if pending = [] then returns () else and_then join_settled (\<lambda>_. returns ()))"

definition branch_controller :: "fork_controller \<Rightarrow> fork_controller" where
  "branch_controller fc = fc\<lparr> fc_candidates := filter (\<lambda>c. \<not> dc_control c) (fc_candidates fc) \<rparr>"

definition run_fork ::
  "fork_controller \<Rightarrow> (dial_candidate \<Rightarrow> dial_outcome \<Rightarrow> bool control_fork) \<Rightarrow> fork_result control_fork" where
  "run_fork fc commit =
     (let controls = filter dc_control (fc_candidates fc);
          branch_fc = branch_controller fc in
      if controls = [] \<or> fc_candidates branch_fc = [] then run_candidates fc commit
      else
        and_then (emit (map Dialled controls)) (\<lambda>_.
        and_then now_seen (\<lambda>m.
        and_then (control_rounds branch_fc (mo_clock m + fc_overall_timeout fc) controls)
          (\<lambda>(cancelled, control, pending).
            finally_do
              (on_cancel
                 (if cancelled then raises CancelledError
                  else after_controls fc branch_fc controls commit control)
                 (abort_controls branch_fc controls pending))
              (gather_controls pending)))))"

end
