(* ===== verification/Fork_Legs.thy ===== *)
theory Fork_Legs
  imports Dial_Fork
begin

text \<open>
  What every run of a fork of \<open>dial_fork.py\<close> ensures of its legs (theory \<open>Dial_Fork\<close>): each tier closes and
  dials only its own members, the whole fork closes every candidate but the winner it returns.  The proofs run
  the coroutines with the weakest preconditions of \<open>Async\<close>.
\<close>

declare parallel_rounds.simps [simp del] control_rounds.simps [simp del]

lemma set_first_of_each [simp]: "set (first_of_each xs) = set xs"
  by (induction xs rule: first_of_each.induct) auto

lemma first_of_each_empty [simp]: "first_of_each xs = [] \<longleftrightarrow> xs = []"
  by (cases xs) auto

lemma ensures_close_candidates [ensuring]:
  "ensures (close_candidates cs mode) Q = (\<lambda>w.
     if cs = [] then Q (Inr ()) w
     else \<forall>pre m ms. wait_from (\<lambda>ms. mo_settled (last ms)) [] (wo_later w) = Some (pre, m, ms) \<longrightarrow>
       Q (if list_ex mo_cancelled (pre @ [m]) then Inl CancelledError else Inr ())
         (waited pre m ms (w\<lparr> wo_log := wo_log w @ map (Closed_Leg mode) (first_of_each cs) \<rparr>)))"
  by (auto simp: close_candidates_def Let_def ensuring fun_eq_iff)

definition closed_legs :: "fork_event list \<Rightarrow> dial_candidate set" where
  "closed_legs evs = {c. \<exists>mode. Closed_Leg mode c \<in> set evs}"

lemma closed_legs_simps [simp]:
  "closed_legs [] = {}"
  "closed_legs (xs @ ys) = closed_legs xs \<union> closed_legs ys"
  "closed_legs (Dialled c # xs) = closed_legs xs"
  "closed_legs (Stop_Unfinished cs # xs) = closed_legs xs"
  "closed_legs (Committed c oc # xs) = closed_legs xs"
  "closed_legs (Cancelled_Branch n m # xs) = closed_legs xs"
  "closed_legs (Closed_Leg mode c # xs) = insert c (closed_legs xs)"
  "closed_legs (map (Closed_Leg mode) cs) = set cs"
  "closed_legs (map Dialled cs) = {}"
  by (auto simp: closed_legs_def)

definition dialled_legs :: "fork_event list \<Rightarrow> dial_candidate set" where
  "dialled_legs evs = {c. Dialled c \<in> set evs}"

lemma dialled_legs_simps [simp]:
  "dialled_legs [] = {}"
  "dialled_legs (xs @ ys) = dialled_legs xs \<union> dialled_legs ys"
  "dialled_legs (Dialled c # xs) = insert c (dialled_legs xs)"
  "dialled_legs (Stop_Unfinished cs # xs) = dialled_legs xs"
  "dialled_legs (Committed c oc # xs) = dialled_legs xs"
  "dialled_legs (Cancelled_Branch n m # xs) = dialled_legs xs"
  "dialled_legs (Closed_Leg mode c # xs) = dialled_legs xs"
  "dialled_legs (map (Closed_Leg mode) cs) = {}"
  "dialled_legs (map Dialled cs) = set cs"
  by (auto simp: dialled_legs_def)

text \<open>The dial operation of \<open>c\<close> was seen to end with the answer \<open>oc\<close>.\<close>

definition answer_seen ::
  "((dial_outcome, 'x) moment_scheme, 'e) world \<Rightarrow> dial_candidate \<Rightarrow> dial_outcome \<Rightarrow> bool" where
  "answer_seen w c oc \<longleftrightarrow> answered oc \<and>
     (\<exists>m \<in> set (wo_seen w). assoc (mo_ended m) (dc_id c) = Some (Ended oc))"

lemma answer_seen_log [simp]: "answer_seen (w\<lparr> wo_log := l \<rparr>) c oc = answer_seen w c oc"
  by (simp add: answer_seen_def)

lemma answer_seen_waited [simp]:
  "answer_seen (waited pre m ms w) c oc \<longleftrightarrow>
     answer_seen w c oc \<or> answered oc \<and> (\<exists>m' \<in> insert m (set pre). assoc (mo_ended m') (dc_id c) = Some (Ended oc))"
  by (auto simp: answer_seen_def)

definition tier_ends ::
  "dial_candidate list \<Rightarrow> ((dial_outcome, 'x) moment_scheme, fork_event) world
    \<Rightarrow> interrupt + tier_result \<Rightarrow> ((dial_outcome, 'x) moment_scheme, fork_event) world \<Rightarrow> bool" where
  "tier_ends members w r w' \<longleftrightarrow>
     (\<exists>evs. wo_log w' = wo_log w @ evs \<and> closed_legs evs \<subseteq> set members \<and> dialled_legs evs \<subseteq> set members \<and>
        (\<forall>c oc. Committed c oc \<notin> set evs) \<and> (\<forall>e. r \<noteq> Inl (Failed e)) \<and>
        (\<forall>c control failures. r = Inr (Some c, control, failures) \<longrightarrow>
           c \<in> set members \<and> c \<notin> closed_legs evs \<and> c \<in> dialled_legs evs \<and>
           (\<exists>oc. control = Some oc \<and> answer_seen w' c oc)))"

lemma first_answer_in:
  "first_answer batch failures = (Some (c, oc), failures') \<Longrightarrow> (c, oc) \<in> set batch \<and> answered oc"
  by (induction batch failures rule: first_answer.induct) (auto split: if_splits)

lemma parallel_batch_answer:
  assumes "(c, oc) \<in> set (parallel_batch m pending)" "answered oc"
  shows "c \<in> set pending \<and> assoc (mo_ended m) (dc_id c) = Some (Ended oc)"
proof -
  have "\<exists>e. c \<in> set pending \<and> assoc (mo_ended m) (dc_id c) = Some e \<and> oc = parallel_outcome e"
    using assms(1) by (auto simp: parallel_batch_def split: option.splits) (metis)
  then obtain e where "c \<in> set pending" "assoc (mo_ended m) (dc_id c) = Some e" "oc = parallel_outcome e"
    by blast
  then show ?thesis
    using assms(2) by (cases e) (auto simp: answered_def)
qed

text \<open>What one wait for the pending legs comes to: the first moment it stopped at, and the world after it.\<close>

lemma ensures_wait_for_first:
  "ensures (wait_for_first pending limit)
     (\<lambda>r w'. wo_log w' = wo_log w \<and> (\<forall>e. r \<noteq> Inl (Failed e)) \<and> (\<forall>m. r = Inr m \<longrightarrow> m \<in> set (wo_seen w')) \<and>
        length (wo_later w') < length (wo_later w)) w"
proof -
  have "length (wo_later w') < length (wo_later w)" if "wait_for_first pending limit w = Some (r, w')" for r w'
    using wait_for_first_shortens [OF that] .
  then have "ensures (wait_for_first pending limit) (\<lambda>r w'. length (wo_later w') < length (wo_later w)) w"
    by (rule ensuresI)
  moreover have "ensures (wait_for_first pending limit)
     (\<lambda>r w'. wo_log w' = wo_log w \<and> (\<forall>e. r \<noteq> Inl (Failed e)) \<and> (\<forall>m. r = Inr m \<longrightarrow> m \<in> set (wo_seen w'))) w"
    by (auto simp: wait_for_first_def ensuring)
  ultimately show ?thesis
    by (rule ensures_mono [OF ensures_conj]) auto
qed

lemma ensures_parallel_rounds_step:
  "ensures (parallel_rounds tok deadline pending failures) Q w \<longleftrightarrow>
     (let timeout = max 0 (deadline - mo_clock (wo_now w)) in
      if pending = [] then Q (Inr (None, None, failures)) w
      else if \<not> owns (mo_session (wo_now w)) tok
      then Q (Inr (None, Some (DialOutcome D_CANCELLED 487 ''''), failures)) w
      else if timeout \<le> 0
      then Q (Inr (None, None, failures @ map (\<lambda>_. DialOutcome D_TIMEOUT 408 '''') pending)) w
      else ensures (wait_for_first pending (mo_clock (wo_now w) + timeout)) (\<lambda>r w'.
        case r of Inl i \<Rightarrow> Q (Inl i) w' | Inr m' \<Rightarrow>
         if es_termination_started (mo_session (wo_now w'))
         then Q (Inr (None, Some (DialOutcome D_CANCELLED 487 ''''), failures)) w'
         else case route_control (map snd (parallel_batch m' pending)) of
           Some oc \<Rightarrow> Q (Inr (None, Some oc, failures)) w'
         | None \<Rightarrow>
             case first_answer (parallel_batch m' pending) failures of
               (Some (c, oc), failures') \<Rightarrow> Q (Inr (Some c, Some oc, failures')) w'
             | (None, failures') \<Rightarrow>
                 ensures (parallel_rounds tok deadline (filter (\<lambda>c. \<not> has_ended m' c) pending) failures') Q w') w)"
  unfolding ensures_def
  by (subst parallel_rounds.simps)
    (auto simp: Let_def returns_def raises_def split: option.split prod.split sum.split)

lemma ensures_parallel_rounds:
  "ensures (parallel_rounds tok deadline pending failures)
     (\<lambda>r w'. wo_log w' = wo_log w \<and> (\<forall>e. r \<noteq> Inl (Failed e)) \<and>
        (\<forall>c control fs. r = Inr (Some c, control, fs) \<longrightarrow>
           c \<in> set pending \<and> (\<exists>oc. control = Some oc \<and> answer_seen w' c oc))) w"
  (is "ensures _ (?Q w pending) w")
proof (induction "length (wo_later w)" arbitrary: pending failures w rule: less_induct)
  case less
  define Q where "Q = ?Q w pending"
  have quiet: "Q (Inr (None, x)) w' \<longleftrightarrow> wo_log w' = wo_log w" for x w'
    by (simp add: Q_def)
  let ?go = "\<lambda>r w'. case r of Inl i \<Rightarrow> Q (Inl i) w' | Inr m' \<Rightarrow>
       if es_termination_started (mo_session (wo_now w'))
       then Q (Inr (None, Some (DialOutcome D_CANCELLED 487 []), failures)) w'
       else case route_control (map snd (parallel_batch m' pending)) of
           Some oc \<Rightarrow> Q (Inr (None, Some oc, failures)) w'
         | None \<Rightarrow>
             case first_answer (parallel_batch m' pending) failures of
               (Some (c, oc), failures') \<Rightarrow> Q (Inr (Some c, Some oc, failures')) w'
             | (None, failures') \<Rightarrow>
                 ensures (parallel_rounds tok deadline (filter (\<lambda>c. \<not> has_ended m' c) pending) failures') Q w'"
  have "ensures (wait_for_first pending limit) ?go w" for limit
  proof (rule ensures_mono [OF ensures_wait_for_first])
    fix r and w' :: "((dial_outcome, 'a) moment_scheme, fork_event) world"
    assume end': "wo_log w' = wo_log w \<and> (\<forall>e. r \<noteq> Inl (Failed e)) \<and> (\<forall>m. r = Inr m \<longrightarrow> m \<in> set (wo_seen w')) \<and>
      length (wo_later w') < length (wo_later w)"
    have answer: "Q (Inr (Some c, Some oc, fs)) w'"
      if "first_answer (parallel_batch m pending) failures = (Some (c, oc), fs)" "r = Inr m" for m c oc fs
      using first_answer_in [OF that(1)] parallel_batch_answer that(2) end' by (fastforce simp: Q_def answer_seen_def)
    have again: "ensures (parallel_rounds tok deadline (filter (\<lambda>c. \<not> has_ended m c) pending) fs) Q w'" for m fs
      by (rule ensures_mono [OF less.hyps]) (use end' in \<open>auto simp: Q_def\<close>)
    have "Q (Inl i) w'" if "r = Inl i" for i
      using end' that by (simp add: Q_def)
    then show "?go r w'"
      using answer again end' by (auto simp: quiet split: option.split prod.split sum.split)
  qed
  then show ?case
    unfolding Q_def [symmetric] by (subst ensures_parallel_rounds_step) (simp add: Let_def quiet)
qed

lemma ensures_parallel_tier:
  "ensures (dial_parallel_tier fc candidates deadline) (tier_ends candidates w) w"
proof -
  have "ensures (parallel_rounds (fc_token fc) deadline candidates [])
     (\<lambda>r w'. ensures (and_then (emit [Stop_Unfinished candidates]) (\<lambda>_. join_settled))
        (\<lambda>r' w''. case r' of Inl i \<Rightarrow> tier_ends candidates w (Inl i) w'' | Inr _ \<Rightarrow> tier_ends candidates w r w'') w')
     (w\<lparr> wo_log := wo_log w @ map Dialled candidates \<rparr>)"
    by (rule ensures_mono [OF ensures_parallel_rounds]) (auto simp: ensuring tier_ends_def)
  then show ?thesis
    by (simp add: dial_parallel_tier_def ensuring)
qed

lemma ensures_sequential_outcome [ensuring]:
  "ensures (sequential_outcome c e) Q =
     (case e of
        Ended oc \<Rightarrow> Q (Inr oc)
      | Ended_Cancelled \<Rightarrow> Q (Inl CancelledError)
      | Ended_Error \<Rightarrow> Q (Inr (DialOutcome D_PROTOCOL_ERROR 500 []))
      | Ended_Timeout \<Rightarrow> ensures (close_candidates [c] CANCEL_OR_BYE)
          (\<lambda>r w'. case r of Inl i \<Rightarrow> Q (Inl i) w' | Inr _ \<Rightarrow> Q (Inr (DialOutcome D_TIMEOUT 408 [])) w'))"
  by (simp add: sequential_outcome_def ensures_and_then ensures_returns ensures_raises
      cong: sum.case_cong split: task_end.splits)

text \<open>The end of a dial that was waited for, with what the log got in the meantime.\<close>

definition dial_ends ::
  "dial_candidate \<Rightarrow> ((dial_outcome, 'x) moment_scheme, fork_event) world \<Rightarrow> interrupt + dial_outcome task_end
    \<Rightarrow> ((dial_outcome, 'x) moment_scheme, fork_event) world \<Rightarrow> bool" where
  "dial_ends c w r w' \<longleftrightarrow>
     (wo_log w' = wo_log w \<or> wo_log w' = wo_log w @ [Stop_Unfinished [c]]) \<and> (\<forall>e. r \<noteq> Inl (Failed e)) \<and>
     (\<forall>oc. r = Inr (Ended oc) \<longrightarrow> answered oc \<longrightarrow> answer_seen w' c oc)"

lemma ensures_wait_for_dial: "ensures (wait_for_dial c limit) (dial_ends c w) w"
  by (auto simp: wait_for_dial_def ensuring dial_ends_def split: option.split task_end.split)

lemma not_failed: "(\<forall>e. i \<noteq> Failed e) \<longleftrightarrow> i = CancelledError"
  by (cases i) auto

lemma tier_ends_quiet:
  "tier_ends members w (Inl i) w' \<longleftrightarrow> i = CancelledError \<and> (\<exists>evs. wo_log w' = wo_log w @ evs \<and>
     closed_legs evs \<subseteq> set members \<and> dialled_legs evs \<subseteq> set members \<and> (\<forall>c oc. Committed c oc \<notin> set evs))"
  "tier_ends members w (Inr (None, x)) w' \<longleftrightarrow> (\<exists>evs. wo_log w' = wo_log w @ evs \<and>
     closed_legs evs \<subseteq> set members \<and> dialled_legs evs \<subseteq> set members \<and> (\<forall>c oc. Committed c oc \<notin> set evs))"
  by (cases i) (auto simp: tier_ends_def)

lemma ensures_dial_sequential:
  fixes w :: "((dial_outcome, 'x) moment_scheme, fork_event) world"
  assumes "distinct cs"
  shows "ensures (dial_sequential fc deadline cs failures) (tier_ends cs w) w"
  using assms
proof (induction cs arbitrary: failures w)
  case Nil
  then show ?case
    by (auto simp: ensuring tier_ends_def)
next
  case (Cons c cs)
  have rest: "ensures (dial_sequential fc deadline cs fs) (tier_ends (c # cs) w) w1"
    if "wo_log w1 = wo_log w @ evs" "closed_legs evs \<subseteq> {c}" "dialled_legs evs \<subseteq> {c}" "\<forall>d oc. Committed d oc \<notin> set evs" for w1 evs fs
  proof (rule ensures_mono [OF Cons.IH])
    show "distinct cs"
      using Cons.prems by simp
    fix r w'
    assume "tier_ends cs w1 r w'"
    then obtain evs' where "wo_log w' = wo_log w1 @ evs'" "closed_legs evs' \<subseteq> set cs" "dialled_legs evs' \<subseteq> set cs"
      "\<forall>d oc. Committed d oc \<notin> set evs'" "\<forall>e. r \<noteq> Inl (Failed e)"
      "\<forall>d control fs. r = Inr (Some d, control, fs) \<longrightarrow> d \<in> set cs \<and> d \<notin> closed_legs evs' \<and>
         d \<in> dialled_legs evs' \<and> (\<exists>oc. control = Some oc \<and> answer_seen w' d oc)"
      unfolding tier_ends_def by blast
    then show "tier_ends (c # cs) w r w'"
      using that Cons.prems unfolding tier_ends_def
      by (intro exI [of _ "evs @ evs'"]) auto
  qed
  define k :: "dial_outcome \<Rightarrow> ('x, tier_result) fork" where "k = (\<lambda>oc. and_then now_seen (\<lambda>m2.
           if es_termination_started (mo_session m2)
           then and_then (close_candidates [c] CANCEL_OR_BYE)
                  (\<lambda>_. returns (None, Some (DialOutcome D_CANCELLED 487 []), failures))
           else if is_route_control oc then returns (None, Some oc, failures)
           else if answered oc then returns (Some c, Some oc, failures)
           else and_then (close_candidates [c] CLOSE)
                  (\<lambda>_. dial_sequential fc deadline cs (failures @ [oc]))))"
  have go: "ensures (k oc) (tier_ends (c # cs) w) w1"
    if "wo_log w1 = wo_log w @ Dialled c # evs" "closed_legs evs \<subseteq> {c}" "dialled_legs evs \<subseteq> {c}" "\<forall>d oc. Committed d oc \<notin> set evs"
      "answered oc \<Longrightarrow> closed_legs evs = {} \<and> answer_seen w1 c oc" for w1 evs oc
    using that
    by (auto simp: k_def ensuring tier_ends_def intro!: rest [of _ "Dialled c # evs @ [Closed_Leg CLOSE c]"])
  have run: "dial_sequential fc deadline (c # cs) failures =
     and_then now_seen (\<lambda>m.
       if \<not> owns (mo_session m) (fc_token fc)
       then returns (None, Some (DialOutcome D_CANCELLED 487 []), failures)
       else if max 0 (deadline - mo_clock m) \<le> 0 then returns (None, None, failures)
       else
         and_then (emit [Dialled c]) (\<lambda>_.
         and_then (wait_for_dial c (mo_clock m + min (fc_step_timeout fc) (max 0 (deadline - mo_clock m)))) (\<lambda>e.
         and_then (sequential_outcome c e) k)))"
    unfolding k_def by (rule dial_sequential.simps [unfolded Let_def])
  have go': "ensures (k oc) (tier_ends (c # cs) w) w1"
    if "wo_log w1 = wo_log w @ Dialled c # evs \<and> evs \<in> {[], [Stop_Unfinished [c]]} \<or>
        wo_log w1 = wo_log w @ Dialled c # evs @ [Closed_Leg CANCEL_OR_BYE c] \<and> evs \<in> {[], [Stop_Unfinished [c]]} \<and>
          \<not> answered oc"
      "answered oc \<Longrightarrow> answer_seen w1 c oc" for w1 evs oc
    using that go [of w1 evs oc] go [of w1 "evs @ [Closed_Leg CANCEL_OR_BYE c]" oc] by auto
  have dialled: "ensures (wait_for_dial c limit) (\<lambda>r w'. case r of Inl i \<Rightarrow> tier_ends (c # cs) w (Inl i) w'
      | Inr e \<Rightarrow> ensures (and_then (sequential_outcome c e) k) (tier_ends (c # cs) w) w')
     (w\<lparr> wo_log := wo_log w @ [Dialled c] \<rparr>)" for limit
  proof (rule ensures_mono [OF ensures_wait_for_dial])
    fix r and w' :: "((dial_outcome, 'x) moment_scheme, fork_event) world"
    assume "dial_ends c (w\<lparr> wo_log := wo_log w @ [Dialled c] \<rparr>) r w'"
    then obtain evs where "wo_log w' = wo_log w @ Dialled c # evs" "evs \<in> {[], [Stop_Unfinished [c]]}" "\<forall>e. r \<noteq> Inl (Failed e)"
      "\<forall>oc. r = Inr (Ended oc) \<longrightarrow> answered oc \<longrightarrow> answer_seen w' c oc"
      unfolding dial_ends_def by auto
    then show "case r of Inl i \<Rightarrow> tier_ends (c # cs) w (Inl i) w'
        | Inr e \<Rightarrow> ensures (and_then (sequential_outcome c e) k) (tier_ends (c # cs) w) w'"
      by (auto simp: ensuring tier_ends_quiet answered_def not_failed split: sum.split task_end.split
          intro!: go' [where evs = evs])
  qed
  show ?case
    unfolding run using dialled by (simp add: ensures_and_then ensures_now ensures_returns ensures_emit tier_ends_quiet)
qed

lemma ensures_dial_tier:
  assumes "distinct (fc_candidates fc)"
  shows "ensures (dial_tier fc deadline tier) (tier_ends (tier_members fc tier) w) w"
  using assms by (auto simp: dial_tier_def ensures_parallel_tier dial_sequential_tier_def tier_members_def
      intro!: ensures_dial_sequential split: fork_strategy.split)

section \<open>The whole fork\<close>

text \<open>The callback of the caller, asked at most once: it sees the session as it is then.\<close>

definition commit_by :: "(endpoint_session \<Rightarrow> dial_candidate \<Rightarrow> dial_outcome \<Rightarrow> bool) \<Rightarrow> 'x winner_commit" where
  "commit_by accepts = (\<lambda>c oc.
     and_then (emit [Committed c oc]) (\<lambda>_. and_then now_seen (\<lambda>m. returns (accepts (mo_session m) c oc))))"

definition quiet_commit ::
  "'x winner_commit \<Rightarrow> (((dial_outcome, 'x) moment_scheme, fork_event) world \<Rightarrow> dial_candidate \<Rightarrow> dial_outcome \<Rightarrow> bool)
    \<Rightarrow> bool" where
  "quiet_commit commit G \<longleftrightarrow> (\<forall>c oc w. ensures (commit c oc) (\<lambda>r w'.
     \<exists>b evs. r = Inr b \<and> w' = w\<lparr> wo_log := wo_log w @ evs \<rparr> \<and> closed_legs evs = {} \<and> dialled_legs evs = {} \<and> (b \<longrightarrow> G w' c oc)) w)"

lemma quiet_commit_by:
  "quiet_commit (commit_by accepts)
     (\<lambda>w c oc. accepts (mo_session (wo_now w)) c oc \<and> Committed c oc \<in> set (wo_log w))"
  unfolding quiet_commit_def commit_by_def ensuring
proof (intro allI, simp add: ensuring)
  fix c oc and w :: "((dial_outcome, 'a) moment_scheme, fork_event) world"
  show "\<exists>evs. w\<lparr> wo_log := wo_log w @ [Committed c oc] \<rparr> = w\<lparr> wo_log := wo_log w @ evs \<rparr> \<and> closed_legs evs = {} \<and> dialled_legs evs = {}"
    by (rule exI [of _ "[Committed c oc]"]) simp
qed

lemma quiet_commit_branch: "quiet_commit (\<lambda>_ _. returns True) (\<lambda>_ _ _. True)"
  by (simp add: quiet_commit_def ensuring) (metis append_Nil2 closed_legs_simps(1) dialled_legs_simps(1) world.surjective world.update_convs(4))

text \<open>How a fork ends, from the point where its log was \<open>log\<close>.\<close>

definition legs_settled ::
  "fork_controller \<Rightarrow> (((dial_outcome, 'x) moment_scheme, fork_event) world \<Rightarrow> dial_candidate \<Rightarrow> dial_outcome \<Rightarrow> bool)
    \<Rightarrow> fork_event list \<Rightarrow> fork_result \<Rightarrow> ((dial_outcome, 'x) moment_scheme, fork_event) world \<Rightarrow> bool" where
  "legs_settled fc G evs res w \<longleftrightarrow>
     dialled_legs evs \<subseteq> set (fc_candidates fc) \<and>
     (case fr_winner res of
        None \<Rightarrow> set (fc_candidates fc) \<subseteq> closed_legs evs
      | Some c \<Rightarrow>
          c \<in> set (fc_candidates fc) \<and> c \<notin> closed_legs evs \<and> c \<in> dialled_legs evs \<and>
          set (fc_candidates fc) - {c} \<subseteq> closed_legs evs \<and>
          answer_seen w c (fr_outcome res) \<and> owns (mo_session (wo_now w)) (fc_token fc) \<and>
          G w c (fr_outcome res))"

definition tiers_end ::
  "fork_controller \<Rightarrow> (((dial_outcome, 'x) moment_scheme, fork_event) world \<Rightarrow> dial_candidate \<Rightarrow> dial_outcome \<Rightarrow> bool)
    \<Rightarrow> fork_event list \<Rightarrow> interrupt + fork_result \<Rightarrow> ((dial_outcome, 'x) moment_scheme, fork_event) world \<Rightarrow> bool" where
  "tiers_end fc G log r w \<longleftrightarrow>
     (\<exists>evs. wo_log w = log @ evs \<and>
        dialled_legs evs \<subseteq> set (fc_candidates fc) \<and>
        (case r of Inl i \<Rightarrow> i = CancelledError | Inr res \<Rightarrow> legs_settled fc G evs res w))"

lemma ensures_settle_winner:
  fixes w :: "((dial_outcome, 'x) moment_scheme, fork_event) world"
  assumes "quiet_commit commit G" and dialled: "dialled_legs evs \<subseteq> set (fc_candidates fc)"
    and c: "c \<in> set (fc_candidates fc)" "c \<in> dialled_legs evs" "c \<notin> closed_legs evs"
    and seen: "answer_seen w c oc" and log: "wo_log w = log @ evs"
  shows "ensures (settle_winner fc commit c oc attempted) (tiers_end fc G log) w"
proof -
  have abandoned: "ensures (abandon_winner c attempted) (tiers_end fc G log) w1"
    if "\<exists>evs1. wo_log w1 = log @ evs1 \<and> set (fc_candidates fc) - {c} \<subseteq> closed_legs evs1 \<and>
        dialled_legs evs1 \<subseteq> set (fc_candidates fc)" for w1
    using that
    by (auto simp: abandon_winner_def ensuring tiers_end_def legs_settled_def no_winner_def)
  define k :: "bool \<Rightarrow> ('x, fork_result) fork" where "k = (\<lambda>accepted.
     if \<not> accepted then abandon_winner c attempted
     else returns \<lparr> fr_outcome = oc, fr_winner = Some c, fr_attempted = attempted \<rparr>)"
  have settled: "ensures (commit c oc) (\<lambda>r w'. case r of Inl i \<Rightarrow> tiers_end fc G log (Inl i) w'
      | Inr accepted \<Rightarrow> ensures (k accepted) (tiers_end fc G log) w') w1"
    if "wo_log w1 = log @ evs @ map (Closed_Leg CANCEL_OR_BYE) (filter (\<lambda>d. d \<noteq> c) (fc_candidates fc))"
      "owns (mo_session (wo_now w1)) (fc_token fc)" "answer_seen w1 c oc" for w1
    using assms(1) [unfolded quiet_commit_def, rule_format, of c oc w1] that c dialled
    by (elim ensures_mono)
      (auto simp: k_def ensuring tiers_end_def legs_settled_def intro!: abandoned)
  show ?thesis
    using seen log dialled
    unfolding settle_winner_def k_def [symmetric]
    by (auto simp: wait_for_cleanup_or_termination_def ensuring tiers_end_def
        intro!: settled abandoned)
qed

lemma ensures_close_all:
  assumes "fc_candidates fc \<noteq> []" "wo_log w = log @ evs" "dialled_legs evs \<subseteq> set (fc_candidates fc)"
  shows "ensures (close_candidates (fc_candidates fc) mode)
    (\<lambda>r w'. case r of Inl i \<Rightarrow> tiers_end fc G log (Inl i) w'
      | Inr _ \<Rightarrow> tiers_end fc G log (Inr (no_winner oc attempted)) w') w"
  using assms by (auto simp: ensuring tiers_end_def legs_settled_def no_winner_def)

lemma ensures_dial_tiers:
  fixes w :: "((dial_outcome, 'x) moment_scheme, fork_event) world"
  assumes "quiet_commit commit G" "distinct (fc_candidates fc)" "fc_candidates fc \<noteq> []"
    and "distinct tiers" "closed_legs evs \<inter> {c. dc_tier c \<in> set tiers} = {}" "wo_log w = log @ evs"
    and "dialled_legs evs \<subseteq> set (fc_candidates fc)"
  shows "ensures (dial_tiers fc commit deadline tiers attempted failures) (tiers_end fc G log) w"
  using assms(4-)
proof (induction tiers arbitrary: attempted failures evs w)
  case Nil
  then show ?case
    using ensures_close_all [OF assms(3) Nil(3,4)] by (simp add: ensures_and_then ensures_returns cong: sum.case_cong)
next
  case (Cons tier tiers)
  let ?att = "attempted @ map dc_id (tier_members fc tier)"
  define k :: "tier_result \<Rightarrow> ('x, fork_result) fork" where "k = (\<lambda>(winner, control, tier_failures).
        case (winner, control) of
          (Some c, Some oc) \<Rightarrow>
            if withdraws_fork oc
            then and_then (close_candidates (fc_candidates fc) CANCEL_OR_BYE)
                   (\<lambda>_. returns (no_winner oc ?att))
            else settle_winner fc commit c oc ?att
        | (None, Some oc) \<Rightarrow>
            if withdraws_fork oc
            then and_then (close_candidates (fc_candidates fc) CANCEL_OR_BYE)
                   (\<lambda>_. returns (no_winner oc ?att))
            else dial_tiers fc commit deadline tiers ?att (failures @ tier_failures)
        | (Some c, None) \<Rightarrow>
            and_then (close_candidates (fc_candidates fc) CLOSE)
              (\<lambda>_. returns (no_winner (reduce_failures (failures @ tier_failures)) ?att))
        | (None, None) \<Rightarrow> dial_tiers fc commit deadline tiers ?att (failures @ tier_failures))"
  have run: "dial_tiers fc commit deadline (tier # tiers) attempted failures =
      and_then (dial_tier fc deadline tier) k"
    unfolding dial_tiers.simps Let_def k_def ..
  show ?case
    unfolding run ensures_and_then
  proof (rule ensures_mono [OF ensures_dial_tier [OF assms(2)]])
    fix r :: "interrupt + tier_result" and w1 :: "((dial_outcome, 'x) moment_scheme, fork_event) world"
    assume "tier_ends (tier_members fc tier) w r w1"
    then obtain evs1 where new: "wo_log w1 = wo_log w @ evs1" "dialled_legs evs1 \<subseteq> set (tier_members fc tier)"
      and old: "closed_legs evs1 \<subseteq> set (tier_members fc tier)" "\<And>e. r \<noteq> Inl (Failed e)"
      "\<And>c control fs. r = Inr (Some c, control, fs) \<Longrightarrow>
         c \<in> set (tier_members fc tier) \<and> c \<notin> closed_legs evs1 \<and> c \<in> dialled_legs evs1 \<and>
         (\<exists>oc. control = Some oc \<and> answer_seen w1 c oc)"
      unfolding tier_ends_def by blast
    have "wo_log w1 = log @ evs @ evs1" "dialled_legs (evs @ evs1) \<subseteq> set (fc_candidates fc)"
      using new Cons.prems(3,4) by (auto simp: tier_members_def)
    note evs1 = this(1) old(1) this(2) old(2,3)
    note all = ensures_close_all [OF assms(3) evs1(1,3)]
    have go_on: "ensures (dial_tiers fc commit deadline tiers ?att fs) (tiers_end fc G log) w1" for fs
      using Cons.prems evs1(1-3) by (intro Cons.IH [where evs = "evs @ evs1"]) (auto simp: tier_members_def)
    have won: "ensures (settle_winner fc commit c oc ?att) (tiers_end fc G log) w1"
      if "r = Inr (Some c, Some oc, fs)" for c oc fs
      using evs1 that Cons.prems(2)
      by (intro ensures_settle_winner [OF assms(1), where evs = "evs @ evs1"]) (auto simp: tier_members_def)
    show "case r of Inl i \<Rightarrow> tiers_end fc G log (Inl i) w1 | Inr x \<Rightarrow> ensures (k x) (tiers_end fc G log) w1"
    proof (cases r)
      case (Inl i)
      then show ?thesis
        using evs1(1,3,4) by (cases i) (auto simp: tiers_end_def)
    next
      case (Inr x)
      obtain winner control fs where x: "x = (winner, control, fs)"
        by (cases x)
      show ?thesis
        using Inr x all go_on won
        by (cases winner; cases control)
          (auto simp: k_def ensures_and_then ensures_returns cong: sum.case_cong)
    qed
  qed
qed

definition fork_ends ::
  "fork_controller \<Rightarrow> (((dial_outcome, 'x) moment_scheme, fork_event) world \<Rightarrow> dial_candidate \<Rightarrow> dial_outcome \<Rightarrow> bool)
    \<Rightarrow> fork_event list \<Rightarrow> interrupt + fork_result \<Rightarrow> ((dial_outcome, 'x) moment_scheme, fork_event) world \<Rightarrow> bool" where
  "fork_ends fc G log r w \<longleftrightarrow>
     (\<exists>evs. wo_log w = log @ evs \<and>
        dialled_legs evs \<subseteq> set (fc_candidates fc) \<and>
        (case r of
           Inr res \<Rightarrow> legs_settled fc G evs res w
         | Inl CancelledError \<Rightarrow> set (fc_candidates fc) \<subseteq> closed_legs evs
         | Inl (Failed e) \<Rightarrow> evs = []))"

lemma ensures_run_candidates:
  fixes w :: "((dial_outcome, 'x) moment_scheme, fork_event) world"
  assumes "quiet_commit commit G" "distinct (fc_candidates fc)"
  shows "ensures (run_candidates fc commit) (fork_ends fc G (wo_log w)) w"
proof (cases "ensure_live (mo_session (wo_now w)) (Some (fc_token fc))")
  case (Inl e)
  then show ?thesis
    by (simp add: run_candidates_def ensuring fork_ends_def)
next
  case (Inr u)
  show ?thesis
  proof (cases "fc_candidates fc = []")
    case True
    then show ?thesis
      using Inr by (simp add: run_candidates_def ensuring fork_ends_def legs_settled_def no_winner_def)
  next
    case False
    let ?tiers = "sort (remdups (map dc_tier (fc_candidates fc)))"
    have "ensures (dial_tiers fc commit (mo_clock (wo_now w) + fc_overall_timeout fc) ?tiers [] [])
        (tiers_end fc G (wo_log w)) w"
      by (rule ensures_dial_tiers [where evs = "[]"]) (use assms False in auto)
    then have "ensures (on_cancel (dial_tiers fc commit (mo_clock (wo_now w) + fc_overall_timeout fc) ?tiers [] [])
          (close_candidates (fc_candidates fc) CANCEL_OR_BYE)) (fork_ends fc G (wo_log w)) w"
      unfolding ensures_on_cancel
      by (rule ensures_mono)
        (use False in \<open>auto simp: ensuring tiers_end_def fork_ends_def split: sum.splits interrupt.splits\<close>)
    then show ?thesis
      using Inr False by (simp add: run_candidates_def ensuring)
  qed
qed

end
