(* ===== verification/Fork_Control.thy ===== *)
theory Fork_Control
  imports Fork_Legs
begin

text \<open>
  The fork with route-control waiters: what the controlling task may rely on of the task of the branches (it
  follows its script, and comes to no result once it is cancelled), and what it does with it.
\<close>

lemma follows_close [simp, intro]: "follows_script (close_candidates cs mode)"
  by (auto simp: close_candidates_def Let_def)

lemma follows_wait_for_cleanup [simp, intro]: "follows_script (wait_for_cleanup_or_termination tok)"
  unfolding wait_for_cleanup_or_termination_def by (intro follows_and_then follows_if follows_finally) auto

lemma follows_wait_for_dial [simp, intro]: "follows_script (wait_for_dial c limit)"
  unfolding wait_for_dial_def
  by (intro follows_and_then follows_on_cancel) (auto split: option.split)

lemma follows_wait_for_first [simp, intro]: "follows_script (wait_for_first pending limit)"
  unfolding wait_for_first_def by (intro follows_finally) auto

lemma follows_sequential_outcome [simp, intro]: "follows_script (sequential_outcome c e)"
  unfolding sequential_outcome_def by (auto split: task_end.split)

lemma follows_dial_sequential [simp, intro]: "follows_script (dial_sequential fc deadline cs failures)"
  by (induction cs arbitrary: failures) (auto simp: Let_def intro!: follows_and_then follows_if)

text \<open>A round of a parallel tier is a coroutine that goes on with the next round.\<close>

lemma parallel_rounds_round:
  assumes "wait_for_first pending (mo_clock (wo_now w) + timeout) w = Some (Inr m, w1)"
    and "timeout = max 0 (deadline - mo_clock (wo_now w))"
    and "pending \<noteq> []" "owns (mo_session (wo_now w)) tok" "\<not> timeout \<le> 0"
    and "\<not> es_termination_started (mo_session (wo_now w1))" "route_control (map snd (parallel_batch m pending)) = None"
      "first_answer (parallel_batch m pending) failures = (None, fs)"
  shows "parallel_rounds tok deadline pending failures w =
    parallel_rounds tok deadline (filter (\<lambda>c. \<not> has_ended m c) pending) fs w1"
  using assms by (subst parallel_rounds.simps) (simp add: Let_def)

lemma parallel_rounds_ends:
  assumes "parallel_rounds tok deadline pending failures w = Some (r, w')"
  shows "\<exists>used. uses (parallel_rounds tok deadline pending failures) w r w' used"
  using assms
proof (induction "length (wo_later w)" arbitrary: pending failures w rule: less_induct)
  case less
  let ?timeout = "max 0 (deadline - mo_clock (wo_now w))"
  show ?case
  proof (cases "pending = [] \<or> \<not> owns (mo_session (wo_now w)) tok \<or> ?timeout \<le> 0")
    case True
    then show ?thesis
      using less.prems
      by (intro exI [of _ "[]"], subst (asm) parallel_rounds.simps)
        (auto simp: uses_def parallel_rounds.simps [of tok deadline pending failures] Let_def returns_def
          split: if_splits)
  next
    case False
    note going = this
    let ?wait = "wait_for_first pending (mo_clock (wo_now w) + ?timeout)"
    obtain r1 w1 where wait: "?wait w = Some (r1, w1)"
      using less.prems going by (subst (asm) parallel_rounds.simps) (auto simp: Let_def split: option.splits)
    obtain u1 where u1: "uses ?wait w r1 w1 u1"
      using follows_scriptD [OF follows_wait_for_first wait] ..
    then have wait': "?wait (w\<lparr> wo_later := u1 @ rest \<rparr>) = Some (r1, w1\<lparr> wo_later := rest \<rparr>)" for rest
      by (simp add: uses_def)
    show ?thesis
    proof (cases "\<exists>m fs. r1 = Inr m \<and> \<not> es_termination_started (mo_session (wo_now w1)) \<and>
        route_control (map snd (parallel_batch m pending)) = None \<and>
        first_answer (parallel_batch m pending) failures = (None, fs)")
      case True
      then obtain m fs where m: "r1 = Inr m" "\<not> es_termination_started (mo_session (wo_now w1))"
        "route_control (map snd (parallel_batch m pending)) = None"
        "first_answer (parallel_batch m pending) failures = (None, fs)"
        by blast
      let ?rest = "parallel_rounds tok deadline (filter (\<lambda>c. \<not> has_ended m c) pending) fs"
      have next': "parallel_rounds tok deadline pending failures w = ?rest w1"
        using wait m going by (intro parallel_rounds_round) auto
      have again: "parallel_rounds tok deadline pending failures (w\<lparr> wo_later := u1 @ rest \<rparr>) =
          ?rest (w1\<lparr> wo_later := rest \<rparr>)" for rest
        using wait' m going by (intro parallel_rounds_round) auto
      have "length (wo_later w1) < length (wo_later w)"
        using wait by (rule wait_for_first_shortens)
      then obtain u2 where "uses ?rest w1 r w' u2"
        using less.hyps less.prems next' by force
      then show ?thesis
        using u1 m(1) again by (intro exI [of _ "u1 @ u2"]) (auto simp: uses_def)
    next
      case False
      then have "parallel_rounds tok deadline pending failures (w\<lparr> wo_later := u1 @ rest \<rparr>) =
          map_option (\<lambda>(r, w''). (r, w'\<lparr> wo_later := rest \<rparr>)) (parallel_rounds tok deadline pending failures w) \<and> w' = w1 \<and>
          (\<forall>x. r = Inr x \<longrightarrow> (\<exists>y. r1 = Inr y))" for rest
        using less.prems wait wait' [of rest] going
        by (subst (asm) parallel_rounds.simps)
          (auto simp: parallel_rounds.simps [of tok deadline pending failures] Let_def returns_def raises_def
            split: option.splits sum.splits prod.splits if_splits)
      then show ?thesis
        using less.prems u1 by (intro exI [of _ u1]) (auto simp: uses_def)
    qed
  qed
qed

lemma follows_dial_tier [simp, intro]: "follows_script (dial_tier fc deadline tier)"
proof -
  have "follows_script (parallel_rounds tok deadline pending failures)" for tok pending failures
    by (simp add: follows_script_def parallel_rounds_ends)
  then show ?thesis
    unfolding dial_tier_def dial_parallel_tier_def dial_sequential_tier_def
    by (auto intro!: follows_and_then follows_finally split: fork_strategy.split)
qed

lemma follows_run_candidates:
  assumes "\<And>c oc. follows_script (commit c oc)"
  shows "follows_script (run_candidates fc commit)"
proof -
  have settle: "follows_script (settle_winner fc commit c oc attempted)" for c oc attempted
    unfolding settle_winner_def abandon_winner_def
    using assms by (intro follows_and_then follows_if) auto
  have tiers: "follows_script (dial_tiers fc commit deadline tiers attempted failures)" for deadline tiers attempted failures
    by (induction tiers arbitrary: attempted failures)
      (auto simp: Let_def intro!: follows_and_then settle split: option.split)
  show ?thesis
    unfolding run_candidates_def
    by (intro follows_and_then) (auto simp: Let_def intro!: follows_on_cancel tiers split: sum.split)
qed

section \<open>The task of the branches\<close>

definition branch_end ::
  "fork_controller \<Rightarrow> control_world \<Rightarrow> ((interrupt + fork_result) \<times> (fork_moment, fork_event) world) option" where
  "branch_end fc w = branch_run fc (branch_script w)"

definition uncut :: "fork_event list \<Rightarrow> bool" where
  "uncut evs \<longleftrightarrow> (\<forall>n m. Cancelled_Branch n m \<notin> set evs)"

lemma uncut_simps [simp]:
  "uncut []" "uncut (xs @ ys) \<longleftrightarrow> uncut xs \<and> uncut ys"
  "uncut (map (Closed_Leg mode) cs)" "uncut (map Dialled cs)"
  "uncut (Dialled c # evs) = uncut evs" "uncut (Stop_Unfinished cs # evs) = uncut evs"
  "uncut (Closed_Leg mode c # evs) = uncut evs" "uncut (Committed c oc # evs) = uncut evs"
  by (auto simp: uncut_def)

lemma delivered_uncut [simp]: "uncut evs \<Longrightarrow> delivered (evs @ evs') ms = delivered evs' ms"
  by (induction evs ms rule: delivered.induct) (auto simp: uncut_def)

lemma delivered_only [simp]: "uncut evs \<Longrightarrow> delivered evs ms = ms"
  using delivered_uncut [of evs "[]" ms] by simp

lemma delivered_cut [simp]:
  "uncut evs \<Longrightarrow> delivered (evs @ Cancelled_Branch n m # evs') ms = take n ms @ m # drop n ms"
  by simp

text \<open>The task of the branches is done, with a result and a log that nothing changes any more.\<close>

definition branch_joined ::
  "fork_controller \<Rightarrow> interrupt + fork_result \<Rightarrow> fork_event list \<Rightarrow> control_world \<Rightarrow> bool" where
  "branch_joined fc r calls w \<longleftrightarrow>
     (\<forall>n m. Cancelled_Branch n m \<in> set (wo_log w) \<longrightarrow> n \<le> length (concat (map mo_branch (wo_seen w)))) \<and>
     (\<exists>bw. branch_end fc w = Some (r, bw) \<and> wo_log bw = calls)"

lemma follows_branch: "follows_script (run_candidates fc (\<lambda>_ _. returns True))"
  by (rule follows_run_candidates) simp

lemma branch_run_longer:
  assumes "branch_run fc script = Some (r, bw)"
  shows "\<exists>bw'. branch_run fc (script @ ms) = Some (r, bw') \<and> wo_log bw' = wo_log bw"
proof (cases script)
  case (Cons m script')
  then show ?thesis
    using assms follows_longer [OF follows_branch, of fc _ r bw ms]
    by (fastforce simp: branch_run_def Let_def raises_def)
qed (use assms in \<open>simp add: branch_run_def\<close>)

lemma delivered_longer:
  assumes "\<forall>n m. Cancelled_Branch n m \<in> set evs \<longrightarrow> n \<le> length ms"
  shows "delivered evs (ms @ ms') = delivered evs ms @ ms'"
  using assms by (induction evs ms rule: delivered.induct) auto

lemma delivered_later:
  assumes "uncut evs'"
  shows "delivered (evs @ evs') ms = delivered evs ms"
  using assms by (induction evs ms rule: delivered.induct) auto

lemma joined_later:
  assumes "branch_joined fc r calls w" and w': "wo_seen w' = wo_seen w @ seen" "wo_log w' = wo_log w @ evs" "uncut evs"
  shows "branch_joined fc r calls w'"
proof -
  let ?ms = "concat (map mo_branch (wo_seen w))"
  obtain bw where bw: "branch_run fc (branch_script w) = Some (r, bw)" "wo_log bw = calls"
    and cut: "\<forall>n m. Cancelled_Branch n m \<in> set (wo_log w) \<longrightarrow> n \<le> length ?ms"
    using assms(1) by (auto simp: branch_joined_def branch_end_def)
  have "branch_script w' = branch_script w @ concat (map mo_branch seen)"
    using w' cut by (simp add: branch_script_def delivered_later delivered_longer)
  then have "\<exists>bw'. branch_end fc w' = Some (r, bw') \<and> wo_log bw' = calls"
    using branch_run_longer [OF bw(1)] bw(2) by (simp add: branch_end_def)
  then show ?thesis
    using cut w' unfolding branch_joined_def uncut_def by fastforce
qed

lemma joined_waited [intro]: "branch_joined fc r calls w \<Longrightarrow> branch_joined fc r calls (waited pre m ms w)"
  by (erule joined_later [where seen = "pre @ [m]" and evs = "[]"]) simp_all

lemma joined_log [intro]:
  "branch_joined fc r calls w \<Longrightarrow> uncut evs \<Longrightarrow> branch_joined fc r calls (w\<lparr> wo_log := wo_log w @ evs \<rparr>)"
  by (erule joined_later [where seen = "[]" and evs = evs]) simp_all

lemma joined_result: "branch_joined fc r calls w \<Longrightarrow> branch_result fc w = Some r"
  by (auto simp: branch_joined_def branch_result_def branch_end_def)

lemma joined_done:
  assumes "branch_result fc w = Some r" "uncut (wo_log w)"
  shows "\<exists>calls. branch_joined fc r calls w"
  using assms by (fastforce simp: branch_joined_def branch_result_def branch_end_def uncut_def)

text \<open>A task that is cancelled while it waits comes to no result.\<close>

lemma branch_run_uncancelled:
  assumes "branch_run fc (ms @ m # rest) = Some (Inr res, bw)" "mo_cancelled m"
  shows "branch_run fc ms \<noteq> None"
proof (cases ms)
  case Nil
  then show ?thesis
    using assms by (simp add: branch_run_def Let_def raises_def)
next
  case (Cons m0 ms0)
  then have "\<not> mo_cancelled m0"
    using assms(1) by (auto simp: branch_run_def Let_def raises_def split: if_splits)
  moreover from this have "run_candidates fc (\<lambda>_ _. returns True)
      \<lparr> wo_now = m0, wo_later = ms0 @ m # rest, wo_seen = [], wo_log = [] \<rparr> = Some (Inr res, bw)"
    using assms(1) Cons by (simp add: branch_run_def Let_def)
  from follows_interrupted [OF follows_branch this, of ms0 m rest] have
    "\<exists>w1. run_candidates fc (\<lambda>_ _. returns True) \<lparr> wo_now = m0, wo_later = ms0, wo_seen = [], wo_log = [] \<rparr>
       = Some (Inr res, w1)"
    using assms(2) by simp
  ultimately show ?thesis
    using Cons by (auto simp: branch_run_def Let_def)
qed

lemma cancelled_branch_has_no_result:
  assumes "\<not> branch_done fc w" "uncut (wo_log w)" "mo_cancelled m"
    and "wo_seen w' = wo_seen w @ seen"
      "wo_log w' = wo_log w @ Cancelled_Branch (length (concat (map mo_branch (wo_seen w)))) m # evs"
  shows "branch_result fc w' \<noteq> Some (Inr res)"
proof
  assume "branch_result fc w' = Some (Inr res)"
  then obtain bw where "branch_run fc (concat (map mo_branch (wo_seen w)) @ m # concat (map mo_branch seen))
      = Some (Inr res, bw)"
    using assms by (auto simp: branch_result_def branch_script_def)
  from branch_run_uncancelled [OF this assms(3)] show False
    using assms(1,2) by (simp add: branch_done_def branch_result_def branch_script_def)
qed

section \<open>The controlling task\<close>

lemma ensures_cancel_branch [ensuring]:
  "ensures (cancel_branch fc) Q = (\<lambda>w.
     if branch_done fc w then Q (Inr ()) w
     else Q (Inr ()) (w\<lparr> wo_log := wo_log w @ [Cancelled_Branch (length (concat (map mo_branch (wo_seen w))))
       (moment.truncate (wo_now w) \<lparr> mo_settled := False, mo_cancelled := True \<rparr>)] \<rparr>))"
  by (auto simp: fun_eq_iff ensures_def cancel_branch_def returns_def emit_def)

text \<open>The script decides whether the branches are done, not where the controlling task stands in its own.\<close>

lemma branch_script_later [simp]: "branch_script (w\<lparr> wo_later := ms \<rparr>) = branch_script w"
  by (simp add: branch_script_def)

lemma branch_result_seen: "branch_result fc (waited pre m ms w) = branch_result fc (w\<lparr> wo_seen := wo_seen w @ pre @ [m] \<rparr>)"
  by (simp add: branch_result_def branch_script_def)

lemma done_after: "branch_done_after fc w (pre @ [m]) \<longleftrightarrow> branch_done fc (waited pre m ms w)"
  by (simp add: branch_done_after_def branch_done_def branch_result_seen)

lemma wait_for_branchD:
  "wait_from (branch_done_after fc w) [] ms = Some (pre, m, rest) \<Longrightarrow> branch_done fc (waited pre m rest w)"
  by (drule wait_fromD) (simp add: done_after [where ms = rest])

lemma ensures_gather_branch [ensuring]:
  "ensures (gather_branch fc) Q = (\<lambda>w. \<forall>pre m ms. wait_from (branch_done_after fc w) [] (wo_later w) = Some (pre, m, ms) \<longrightarrow>
     Q (if list_ex mo_cancelled (pre @ [m]) then Inl CancelledError else Inr ()) (waited pre m ms w))"
proof
  fix w
  have "ensures (gather_branch fc) Q w = ensures (and_then (join_when (branch_done_after fc w)) (\<lambda>_. returns ())) Q w"
    by (simp add: ensures_def gather_branch_def)
  then show "ensures (gather_branch fc) Q w = (\<forall>pre m ms. wait_from (branch_done_after fc w) [] (wo_later w) = Some (pre, m, ms) \<longrightarrow>
     Q (if list_ex mo_cancelled (pre @ [m]) then Inl CancelledError else Inr ()) (waited pre m ms w))"
    by (auto simp: ensuring)
qed

lemma ensures_task_result [ensuring]:
  "ensures (task_result fc) Q = (\<lambda>w. \<forall>r. branch_result fc w = Some r \<longrightarrow> Q r w)"
  by (auto simp: fun_eq_iff ensures_def task_result_def returns_def raises_def split: option.split sum.split)

lemma ensures_by_world:
  assumes "\<And>w. act w = (if b w then act1 w else act2 w)"
  shows "ensures act Q = (\<lambda>w. if b w then ensures act1 Q w else ensures act2 Q w)"
  using assms by (simp add: fun_eq_iff ensures_def)

lemmas ensures_withdraw_branch [ensuring] = ensures_by_world [of "withdraw_branch fc" for fc, OF withdraw_branch_def]

text \<open>What the controlling task owes the branches when it goes on: the task is done, and the winner it
  may have is closed.\<close>

lemma withdraw_branch_joins:
  assumes "uncut (wo_log w)"
  shows "ensures (withdraw_branch fc) (\<lambda>r w'. \<forall>u. r = Inr u \<longrightarrow>
    (\<exists>rb calls own. branch_joined fc rb calls w' \<and> wo_log w' = wo_log w @ own \<and> dialled_legs own = {} \<and>
       (case rb of Inl i \<Rightarrow> closed_legs own = {}
        | Inr res \<Rightarrow> closed_legs own = set_option (fr_winner res)))) w"
proof (cases "branch_done fc w")
  case True
  then obtain rb where "branch_result fc w = Some rb"
    by (auto simp: branch_done_def)
  then obtain calls where rb: "branch_result fc w = Some rb" "branch_joined fc rb calls w"
    using joined_done [OF _ assms] by blast
  show ?thesis
  proof (cases rb)
    case (Inl i)
    then show ?thesis
      using True rb by (simp add: ensuring)
  next
    case (Inr res)
    show ?thesis
    proof (cases "fr_winner res")
      case None
      then show ?thesis
        using True rb Inr
        by (auto simp: ensuring intro!: exI [of _ "Inr res"] exI [of _ calls])
    next
      case (Some c)
      have "branch_joined fc (Inr res) calls (waited pre m ms (w\<lparr> wo_log := wo_log w @ [Closed_Leg BYE c] \<rparr>))" for pre m ms
        using rb(2) Inr by (intro joined_waited joined_log) simp_all
      then show ?thesis
        using True rb(1) Inr Some
        by (auto simp: ensuring intro!: exI [of _ "Inr res"] exI [of _ calls])
    qed
  qed
next
  case False
  let ?cut = "Cancelled_Branch (length (concat (map mo_branch (wo_seen w))))
    (moment.truncate (wo_now w) \<lparr> mo_settled := False, mo_cancelled := True \<rparr>)"
  have "\<exists>i calls. branch_joined fc (Inl i) calls w'"
    if d: "branch_done fc w'" and w': "w' = waited pre m ms (w\<lparr> wo_log := wo_log w @ [?cut] \<rparr>)" for w' pre m ms
  proof -
    obtain rb where rb: "branch_result fc w' = Some rb"
      using d by (auto simp: branch_done_def)
    have "rb \<noteq> Inr res" for res
      using cancelled_branch_has_no_result [OF False assms,
          of "moment.truncate (wo_now w) \<lparr> mo_settled := False, mo_cancelled := True \<rparr>" w' "pre @ [m]" "[]" res] rb w' by simp
    then obtain i where "rb = Inl i"
      by (cases rb) auto
    then show ?thesis
      using rb assms w' by (fastforce simp: branch_joined_def branch_result_def branch_end_def uncut_def)
  qed
  then show ?thesis
    using False by (fastforce simp: ensuring dest!: wait_for_branchD)
qed

lemma await_branch_joins:
  assumes "uncut (wo_log w)"
  shows "ensures (await_branch fc) (\<lambda>r w'. \<forall>res. r = Inr res \<longrightarrow>
    wo_log w' = wo_log w \<and> (\<exists>calls. branch_joined fc (Inr res) calls w')) w"
proof (cases "branch_done fc w")
  case True
  then have "ensures (await_branch fc) Q w = ensures (task_result fc) Q w" for Q
    by (simp add: ensures_def await_branch_def)
  then show ?thesis
    using assms by (auto simp: ensuring intro: joined_done)
next
  case False
  then have run: "ensures (await_branch fc) Q w =
      ensures (on_cancel (and_then (await_until (branch_done_after fc w)) (\<lambda>_. task_result fc))
          (\<lambda>w'. if branch_done fc w' then returns () w'
                else and_then (cancel_branch fc) (\<lambda>_. gather_branch fc) w')) Q w" for Q
    by (simp add: ensures_def await_branch_def)
  have joined: "\<exists>calls. branch_joined fc (Inr res) calls (waited pre m ms w)"
    if "branch_result fc (waited pre m ms w) = Some (Inr res)" for res pre m ms
    using joined_done [OF that] assms by simp
  show ?thesis
    unfolding run by (auto simp: ensuring intro!: joined ensuresI split: sum.split)
qed

text \<open>The controlling task's own part of the end of a fork, from the point where its log was \<open>log\<close>.\<close>

definition control_end ::
  "fork_controller \<Rightarrow> dial_candidate list \<Rightarrow> fork_event list
    \<Rightarrow> (dial_candidate \<Rightarrow> dial_outcome \<Rightarrow> bool) \<Rightarrow> interrupt + fork_result \<Rightarrow> control_world \<Rightarrow> bool" where
  "control_end fc controls log accepted r w \<longleftrightarrow>
     (\<forall>res. r = Inr res \<longrightarrow>
        (\<exists>rb calls own. branch_joined fc rb calls w \<and> wo_log w = log @ own \<and> dialled_legs own = {} \<and>
           set controls \<subseteq> closed_legs own \<and>
           (case fr_winner res of
              Some c \<Rightarrow> rb = Inr res \<and> closed_legs own = set controls \<and> accepted c (fr_outcome res)
            | None \<Rightarrow> (case rb of Inl i \<Rightarrow> True
                | Inr res' \<Rightarrow> set_option (fr_winner res') \<subseteq> closed_legs own))))"

lemma ensures_control_rounds:
  "ensures (control_rounds fc deadline pending) (\<lambda>r w'. wo_log w' = wo_log w \<and> (\<exists>x. r = Inr x)) w"
proof (induction "length (wo_later w)" arbitrary: pending w rule: less_induct)
  case less
  let ?Q = "\<lambda>r w'. wo_log w' = wo_log w \<and> (\<exists>x. r = Inr x)"
  have again: "ensures (control_rounds fc deadline pending') ?Q w'"
    if "await_until over w = Some (r, w')" for over r w' pending'
  proof (rule ensures_mono [OF less.hyps])
    show "length (wo_later w') < length (wo_later w)"
      using that by (rule waits_shorten)
    have "wo_log w' = wo_log w"
      using that by (auto simp: await_until_def split: option.splits)
    then show "?Q r'' w''" if "wo_log w'' = wo_log w' \<and> (\<exists>x. r'' = Inr x)" for r'' w''
      using that by simp
  qed
  have again': "?Q r'' w''"
    if "await_until over w = Some (r, w')" "control_rounds fc deadline pending' w' = Some (r'', w'')"
    for over r w' pending' r'' w''
    using again [OF that(1)] that(2) by (rule ensuresD)
  have same: "wo_log w' = wo_log w" if "await_until over w = Some (r, w')" for over r w'
    using that by (auto simp: await_until_def split: option.splits)
  show ?case
    by (auto simp: ensures_def control_rounds.simps [of fc deadline pending w] returns_def Let_def
        split: option.split sum.split prod.split dest: again' same)
qed

lemma joined_closed:
  assumes "branch_joined fc r calls w"
  shows "branch_joined fc r calls (waited pre m ms (w\<lparr> wo_log := wo_log w @ map (Closed_Leg mode) cs \<rparr>))"
  using assms by (intro joined_waited joined_log) simp_all

lemma close_controls:
  assumes "controls \<noteq> []" "branch_joined fc rb calls w" "wo_log w = log @ own" "dialled_legs own = {}"
  shows "ensures (close_candidates controls CLOSE) (\<lambda>r w'. r = Inr () \<longrightarrow>
    branch_joined fc rb calls w' \<and> (\<exists>own'. wo_log w' = log @ own' \<and> dialled_legs own' = {} \<and>
      closed_legs own' = closed_legs own \<union> set controls)) w"
  using assms(1) joined_closed [OF assms(2), of _ _ _ CLOSE "first_of_each controls"] assms(3,4)
  by (auto simp: ensuring)

lemma ensures_after_controls:
  fixes accepts :: "endpoint_session \<Rightarrow> dial_candidate \<Rightarrow> dial_outcome \<Rightarrow> bool" and w :: control_world
  assumes "controls \<noteq> []" "uncut (wo_log w)"
  shows "ensures (after_controls fc bfc controls (commit_by accepts) control)
    (control_end bfc controls (wo_log w) (\<lambda>c oc. \<exists>s. accepts s c oc)) w"
proof (cases control)
  case (Some oc)
  let ?Q = "control_end bfc controls (wo_log w) (\<lambda>c oc. \<exists>s. accepts s c oc)"
  define k :: "unit \<Rightarrow> fork_result control_fork" where "k = (\<lambda>_.
    and_then (close_candidates controls CLOSE) (\<lambda>_. returns (no_winner oc (map dc_id (fc_candidates fc)))))"
  have rest: "ensures (k ()) ?Q w1"
    if "branch_joined bfc rb calls w1" "wo_log w1 = wo_log w @ own" "dialled_legs own = {}"
      "case rb of Inl i \<Rightarrow> closed_legs own = {} | Inr res \<Rightarrow> closed_legs own = set_option (fr_winner res)"
    for w1 rb calls own
    unfolding k_def ensures_and_then ensures_returns
    by (rule ensures_mono [OF close_controls [OF assms(1) that(1,2,3)]])
      (use that(4) in \<open>fastforce simp: control_end_def no_winner_def split: sum.splits\<close>)
  have "after_controls fc bfc controls (commit_by accepts) control = and_then (withdraw_branch bfc) k"
    using Some by (simp add: after_controls_def k_def)
  then show ?thesis
    unfolding ensures_and_then
    by (simp add: ensures_and_then, intro ensures_mono [OF withdraw_branch_joins [OF assms(2)]])
      (use rest in \<open>fastforce simp: control_end_def split: sum.splits\<close>)
next
  case None
  let ?Q = "control_end bfc controls (wo_log w) (\<lambda>c oc. \<exists>s. accepts s c oc)"
  define k :: "fork_result \<Rightarrow> fork_result control_fork" where "k = (\<lambda>res.
          and_then (close_candidates controls CLOSE) (\<lambda>_.
          case fr_winner res of
            None \<Rightarrow> returns res
          | Some c \<Rightarrow>
              and_then (commit_by accepts c (fr_outcome res)) (\<lambda>accepted.
                if accepted then returns res
                else abandon_winner c (fr_attempted res))))"
  have abandoned: "ensures (abandon_winner c att) ?Q w1"
    if "branch_joined bfc (Inr res) calls w1" "wo_log w1 = wo_log w @ own" "dialled_legs own = {}"
      "closed_legs own = set controls" "fr_winner res = Some c" for w1 calls own att c res
    using that joined_closed [OF that(1), of _ _ _ BYE "[c]"]
    by (fastforce simp: abandon_winner_def ensuring control_end_def no_winner_def)
  have rest: "ensures (k res) ?Q w1"
    if "branch_joined bfc (Inr res) calls w1" "wo_log w1 = wo_log w" for w1 calls res
    unfolding k_def ensures_and_then
  proof (rule ensures_mono [OF close_controls [OF assms(1) that(1), of "wo_log w" "[]"]])
    fix r :: "interrupt + unit" and w2
    assume end': "r = Inr () \<longrightarrow> branch_joined bfc (Inr res) calls w2 \<and> (\<exists>own'. wo_log w2 = wo_log w @ own' \<and>
        dialled_legs own' = {} \<and> closed_legs own' = closed_legs [] \<union> set controls)"
    show "case r of Inl i \<Rightarrow> ?Q (Inl i) w2 | Inr _ \<Rightarrow> ensures (case fr_winner res of
            None \<Rightarrow> returns res
          | Some c \<Rightarrow> and_then (commit_by accepts c (fr_outcome res)) (\<lambda>accepted.
                if accepted then returns res else abandon_winner c (fr_attempted res))) ?Q w2"
    proof (cases r)
      case (Inl i)
      then show ?thesis
        by (simp add: control_end_def)
    next
      case (Inr u)
      then obtain own where own: "branch_joined bfc (Inr res) calls w2" "wo_log w2 = wo_log w @ own"
          "dialled_legs own = {}" "closed_legs own = set controls"
        using end' by auto
      have com: "branch_joined bfc (Inr res) calls (w2\<lparr> wo_log := wo_log w2 @ [Committed c oc] \<rparr>)" for c oc
        using own(1) by (intro joined_log) simp_all
      show ?thesis
      proof (cases "fr_winner res")
        case None
        then show ?thesis
          using Inr own by (fastforce simp: ensuring control_end_def)
      next
        case (Some c)
        have "?Q (Inr res) (w2\<lparr> wo_log := wo_log w2 @ [Committed c (fr_outcome res)] \<rparr>)"
          if "accepts s c (fr_outcome res)" for s
          using com [of c "fr_outcome res"] own Some that by (fastforce simp: control_end_def)
        moreover have "ensures (abandon_winner c (fr_attempted res)) ?Q
            (w2\<lparr> wo_log := wo_log w2 @ [Committed c (fr_outcome res)] \<rparr>)"
          by (rule abandoned [OF com, where own = "own @ [Committed c (fr_outcome res)]"])
            (use own Some in simp_all)
        ultimately show ?thesis
          using Inr Some by (simp add: commit_by_def ensuring)
      qed
    qed
  qed (use that in simp_all)
  have "after_controls fc bfc controls (commit_by accepts) control = and_then (await_branch bfc) k"
    using None by (simp add: after_controls_def k_def)
  then show ?thesis
    by (simp add: ensures_and_then, intro ensures_mono [OF await_branch_joins [OF assms(2)]])
      (use rest in \<open>auto simp: control_end_def split: sum.splits\<close>)
qed

section \<open>The whole fork\<close>

text \<open>Every call of a fork, those of its branch task included, and the legs it leaves behind: dialled
  and not closed.\<close>

definition fork_calls :: "fork_controller \<Rightarrow> control_world \<Rightarrow> fork_event list" where
  "fork_calls fc w =
     (if filter dc_control (fc_candidates fc) = [] \<or> fc_candidates (branch_controller fc) = [] then wo_log w
      else wo_log w @ (case branch_end (branch_controller fc) w of None \<Rightarrow> [] | Some (_, bw) \<Rightarrow> wo_log bw))"

definition legs_left :: "fork_event list \<Rightarrow> dial_candidate set" where
  "legs_left evs = dialled_legs evs - closed_legs evs"

lemma branch_run_ends:
  assumes "branch_run fc script = Some (r, bw)" "distinct (fc_candidates fc)"
  shows "wo_log bw = [] \<and> (\<forall>res. r = Inr res \<longrightarrow> fr_winner res = None) \<or>
    fork_ends fc (\<lambda>_ _ _. True) [] r bw"
proof (cases script)
  case (Cons m ms)
  let ?w = "\<lparr> wo_now = m, wo_later = ms, wo_seen = [], wo_log = [] \<rparr> :: (fork_moment, fork_event) world"
  show ?thesis
  proof (cases "mo_cancelled m")
    case True
    then show ?thesis
      using assms(1) Cons by (auto simp: branch_run_def Let_def raises_def)
  next
    case False
    have "ensures (run_candidates fc (\<lambda>_ _. returns True)) (fork_ends fc (\<lambda>_ _ _. True) (wo_log ?w)) ?w"
      by (rule ensures_run_candidates [OF quiet_commit_branch assms(2)])
    then show ?thesis
      using assms(1) Cons False by (auto simp: branch_run_def Let_def dest: ensuresD)
  qed
qed (use assms in \<open>simp add: branch_run_def\<close>)

definition one_winner ::
  "fork_controller \<Rightarrow> (endpoint_session \<Rightarrow> dial_candidate \<Rightarrow> dial_outcome \<Rightarrow> bool) \<Rightarrow> fork_event list
    \<Rightarrow> fork_result \<Rightarrow> bool" where
  "one_winner fc accepts calls res \<longleftrightarrow>
     legs_left calls = set_option (fr_winner res) \<and>
     (\<forall>c. fr_winner res = Some c \<longrightarrow>
        c \<in> set (fc_candidates fc) \<and> answered (fr_outcome res) \<and> (\<exists>s. accepts s c (fr_outcome res)) \<and>
        (dc_control c \<longrightarrow> fc_candidates (branch_controller fc) = []))"

lemma settled_one_winner:
  assumes "legs_settled fc G evs res w"
    "filter dc_control (fc_candidates fc) = [] \<or> fc_candidates (branch_controller fc) = []"
    "\<And>c. fr_winner res = Some c \<Longrightarrow> G w c (fr_outcome res) \<Longrightarrow>
      \<exists>s. accepts s c (fr_outcome res)"
  shows "one_winner fc accepts evs res"
  using assms
  by (auto simp: legs_settled_def one_winner_def legs_left_def answer_seen_def filter_empty_conv split: option.splits)

lemma control_one_winner:
  assumes ctl: "control_end (branch_controller fc) (filter dc_control (fc_candidates fc))
      (map Dialled (filter dc_control (fc_candidates fc))) (\<lambda>c oc. \<exists>s. accepts s c oc) (Inr res) w"
    and own: "wo_log w' = wo_log w @ evs" "wo_seen w' = wo_seen w @ seen" "uncut evs"
      "dialled_legs evs = {}" "closed_legs evs = {}"
    and "filter dc_control (fc_candidates fc) \<noteq> []" "fc_candidates (branch_controller fc) \<noteq> []"
      "distinct (fc_candidates fc)"
  shows "one_winner fc accepts (fork_calls fc w') res"
proof -
  let ?bfc = "branch_controller fc" and ?controls = "filter dc_control (fc_candidates fc)"
  obtain rb calls mine where rb: "branch_joined ?bfc rb calls w" and mine: "wo_log w = map Dialled ?controls @ mine"
      "dialled_legs mine = {}" "set ?controls \<subseteq> closed_legs mine"
    and won: "case fr_winner res of
        Some c \<Rightarrow> rb = Inr res \<and> closed_legs mine = set ?controls \<and> (\<exists>s. accepts s c (fr_outcome res))
      | None \<Rightarrow> (case rb of Inl i \<Rightarrow> True | Inr res' \<Rightarrow> set_option (fr_winner res') \<subseteq> closed_legs mine)"
    using ctl by (auto simp: control_end_def)
  obtain bw where bw: "branch_end ?bfc w' = Some (rb, bw)" "wo_log bw = calls"
    using joined_later [OF rb own(2,1,3)] by (auto simp: branch_joined_def)
  have distinct: "distinct (fc_candidates ?bfc)"
    using assms(9) by (simp add: branch_controller_def)
  have all: "fork_calls fc w' = map Dialled ?controls @ mine @ evs @ calls"
    using assms(7,8) bw mine own(1) by (simp add: fork_calls_def)
  have apart: "set ?controls \<inter> set (fc_candidates ?bfc) = {}" "set (fc_candidates ?bfc) \<subseteq> set (fc_candidates fc)"
      "\<forall>c \<in> set (fc_candidates ?bfc). \<not> dc_control c"
    by (auto simp: branch_controller_def)
  note ended = branch_run_ends [OF bw(1) [unfolded branch_end_def] distinct, unfolded bw(2)]
  show ?thesis
  proof (cases "fr_winner res")
    case None
    have "dialled_legs calls \<subseteq> closed_legs calls \<union> closed_legs mine"
      using ended won None
      by (cases rb) (auto simp: fork_ends_def bw(2) legs_settled_def split: option.splits interrupt.splits)
    then show ?thesis
      using None mine own all by (auto simp: one_winner_def legs_left_def)
  next
    case (Some c)
    then have "legs_settled ?bfc (\<lambda>_ _ _. True) calls res bw" "closed_legs mine = set ?controls"
        "\<exists>s. accepts s c (fr_outcome res)"
      using ended won by (auto simp: fork_ends_def bw(2))
    then have "legs_left calls = {c}" "c \<in> set (fc_candidates ?bfc)" "answered (fr_outcome res)"
        "dialled_legs calls \<subseteq> set (fc_candidates ?bfc)"
      using Some by (auto simp: legs_settled_def legs_left_def answer_seen_def)
    then show ?thesis
      using Some mine own all apart \<open>closed_legs mine = set ?controls\<close> \<open>\<exists>s. accepts s c (fr_outcome res)\<close>
      by (auto simp: one_winner_def legs_left_def)
  qed
qed

lemma ensures_run_fork:
  fixes w :: control_world
  assumes "distinct (fc_candidates fc)" "wo_log w = []"
  shows "ensures (run_fork fc (commit_by accepts))
    (\<lambda>r w'. \<forall>res. r = Inr res \<longrightarrow> one_winner fc accepts (fork_calls fc w') res) w"
proof (cases "filter dc_control (fc_candidates fc) = [] \<or> fc_candidates (branch_controller fc) = []")
  case True
  have "ensures (run_candidates fc (commit_by accepts)) (fork_ends fc
      (\<lambda>w c oc. accepts (mo_session (wo_now w)) c oc \<and> Committed c oc \<in> set (wo_log w)) (wo_log w)) w"
    by (rule ensures_run_candidates [OF quiet_commit_by assms(1)])
  then have "ensures (run_candidates fc (commit_by accepts))
      (\<lambda>r w'. \<forall>res. r = Inr res \<longrightarrow> one_winner fc accepts (fork_calls fc w') res) w"
    by (rule ensures_mono)
      (use True assms(2) in \<open>auto simp: fork_ends_def fork_calls_def intro!: settled_one_winner\<close>)
  then show ?thesis
    using True by (auto simp: run_fork_def Let_def)
next
  case False
  let ?controls = "filter dc_control (fc_candidates fc)" and ?bfc = "branch_controller fc"
  let ?Q = "\<lambda>r w'. \<forall>res. r = Inr res \<longrightarrow> one_winner fc accepts (fork_calls fc w') res"
  define w1 where "w1 = w\<lparr> wo_log := map Dialled ?controls \<rparr>"
  have gathered: "ensures (gather_controls pending) (\<lambda>r' w'. case r' of Inl i \<Rightarrow> ?Q (Inl i) w' | Inr _ \<Rightarrow> ?Q r w') w2"
    if "control_end ?bfc ?controls (map Dialled ?controls) (\<lambda>c oc. \<exists>s. accepts s c oc) r w2" for r w2 pending
    using that control_one_winner [of fc accepts _ w2 _ "[Stop_Unfinished pending]"] False assms(1)
    by (auto simp: gather_controls_def ensuring)
  have body: "ensures (after_controls fc ?bfc ?controls (commit_by accepts) control)
      (control_end ?bfc ?controls (map Dialled ?controls) (\<lambda>c oc. \<exists>s. accepts s c oc)) w2"
    if "wo_log w2 = map Dialled ?controls" for control w2
    using ensures_after_controls [of ?controls w2 fc ?bfc accepts control] that False by simp
  have interrupted: "ensures (gather_controls pending)
      (\<lambda>r' w'. case r' of Inl j \<Rightarrow> ?Q (Inl j) w' | Inr _ \<Rightarrow> ?Q (Inl i) w') w2" for pending i w2
    by (rule ensuresI) (simp split: sum.split)
  have inner: "ensures (finally_do
        (on_cancel (if cancelled then raises CancelledError
            else after_controls fc ?bfc ?controls (commit_by accepts) control)
          (abort_controls ?bfc ?controls pending)) (gather_controls pending)) ?Q w2"
    if log: "wo_log w2 = map Dialled ?controls" for cancelled control pending w2
    unfolding ensures_finally ensures_on_cancel
  proof (rule ensures_mono)
    show "ensures (if cancelled then raises CancelledError
        else after_controls fc ?bfc ?controls (commit_by accepts) control)
      (control_end ?bfc ?controls (map Dialled ?controls) (\<lambda>c oc. \<exists>s. accepts s c oc)) w2"
      using body [OF log] by (simp add: ensures_raises control_end_def)
    fix r w3
    assume "control_end ?bfc ?controls (map Dialled ?controls) (\<lambda>c oc. \<exists>s. accepts s c oc) r w3"
    then show "if r = Inl CancelledError
      then ensures (abort_controls ?bfc ?controls pending) (\<lambda>r' w''. case r' of
          Inl i \<Rightarrow> ensures (gather_controls pending)
            (\<lambda>r' w'. case r' of Inl j \<Rightarrow> ?Q (Inl j) w' | Inr _ \<Rightarrow> ?Q (Inl i) w') w''
        | Inr _ \<Rightarrow> ensures (gather_controls pending)
            (\<lambda>r' w'. case r' of Inl j \<Rightarrow> ?Q (Inl j) w' | Inr _ \<Rightarrow> ?Q (Inl CancelledError) w') w'') w3
      else ensures (gather_controls pending)
            (\<lambda>r' w'. case r' of Inl j \<Rightarrow> ?Q (Inl j) w' | Inr _ \<Rightarrow> ?Q r w') w3"
      using gathered interrupted by (auto intro!: ensuresI split: sum.split dest: ensuresD)
  qed
  have rounds: "ensures (control_rounds ?bfc (mo_clock (wo_now w1) + fc_overall_timeout fc) ?controls)
     (\<lambda>r w'. wo_log w' = map Dialled ?controls \<and> (\<exists>x. r = Inr x)) w1"
    by (rule ensures_mono [OF ensures_control_rounds]) (simp add: w1_def)
  show ?thesis
    unfolding run_fork_def Let_def if_not_P [OF False] ensures_and_then ensures_emit ensures_now
    using assms(2)
    by (simp add: w1_def [symmetric])
      (rule ensures_mono [OF rounds], use inner in \<open>auto simp del: ensuring\<close>)
qed

end
