(* ===== verification/Async_Ends.thy ===== *)
theory Async_Ends
  imports Async
begin

text \<open>
  That a coroutine comes to an end.  Some moments of its script count: a wait is over at the latest at one of them.
  A coroutine that makes at most \<open>k\<close> waits from there on ends when there are \<open>k\<close> of them left, however many waits
  it makes before.  What counts and what is left are the parameters of the locale.
\<close>

definition on_the_way ::
  "((('o, 'x) moment_scheme, 'e) world \<Rightarrow> bool) \<Rightarrow> ((('o, 'x) moment_scheme, 'e) world \<Rightarrow> nat) \<Rightarrow> int
    \<Rightarrow> nat \<Rightarrow> (('o, 'x) moment_scheme, 'e) world \<Rightarrow> (('o, 'x) moment_scheme, 'e) world \<Rightarrow> bool" where
  "on_the_way good left d k w w' \<longleftrightarrow>
     good w' \<and> mo_clock (wo_now w) \<le> mo_clock (wo_now w') \<and>
     left w \<le> left w' + k \<and> left w' \<le> left w \<and> (mo_clock (wo_now w') < d \<longrightarrow> left w' = left w)"

definition ends_at ::
  "((('o, 'x) moment_scheme, 'e) world \<Rightarrow> bool) \<Rightarrow> ((('o, 'x) moment_scheme, 'e) world \<Rightarrow> nat) \<Rightarrow> int
    \<Rightarrow> nat \<Rightarrow> (('o, 'x) moment_scheme, 'e, 'a) coroutine \<Rightarrow> (('o, 'x) moment_scheme, 'e) world \<Rightarrow> bool" where
  "ends_at good left d k act w \<longleftrightarrow>
     (good w \<longrightarrow> k \<le> left w \<longrightarrow> (\<exists>r w'. act w = Some (r, w') \<and> on_the_way good left d k w w'))"

definition ends_in ::
  "((('o, 'x) moment_scheme, 'e) world \<Rightarrow> bool) \<Rightarrow> ((('o, 'x) moment_scheme, 'e) world \<Rightarrow> nat) \<Rightarrow> int
    \<Rightarrow> nat \<Rightarrow> (('o, 'x) moment_scheme, 'e, 'a) coroutine \<Rightarrow> bool" where
  "ends_in good left d k act \<longleftrightarrow> (\<forall>w. ends_at good left d k act w)"

locale script_measure =
  fixes good :: "(('o, 'x) moment_scheme, 'e) world \<Rightarrow> bool"
    and left :: "(('o, 'x) moment_scheme, 'e) world \<Rightarrow> nat"
    and d :: int
    and counts :: "(('o, 'x) moment_scheme, 'e) world \<Rightarrow> ('o, 'x) moment_scheme list \<Rightarrow> bool"
    and quiet :: "'e list \<Rightarrow> bool"
  assumes log_good: "good w \<Longrightarrow> quiet evs \<Longrightarrow> good (w\<lparr> wo_log := wo_log w @ evs \<rparr>)"
    and log_left: "left (w\<lparr> wo_log := l \<rparr>) = left w"
    and waited_good: "good w \<Longrightarrow> wo_later w = pre @ m # ms \<Longrightarrow>
      good (waited pre m ms w) \<and> mo_clock (wo_now w) \<le> mo_clock m"
    and waited_left: "good w \<Longrightarrow> wo_later w = pre @ m # ms \<Longrightarrow>
      (\<And>us x vs. pre = us @ x # vs \<Longrightarrow> \<not> counts w (us @ [x])) \<Longrightarrow>
      left w \<le> left (waited pre m ms w) + 1 \<and> left (waited pre m ms w) \<le> left w \<and>
      (mo_clock m < d \<longrightarrow> left (waited pre m ms w) = left w)"
    and some_left: "good w \<Longrightarrow> 1 \<le> left w \<Longrightarrow> \<exists>pre m ms. wo_later w = pre @ m # ms \<and> counts w (pre @ [m])"
begin

lemma way_refl: "good w \<Longrightarrow> on_the_way good left d k w w"
  by (simp add: on_the_way_def)

lemma way_trans: "on_the_way good left d i w w' \<Longrightarrow> on_the_way good left d j w' w'' \<Longrightarrow> on_the_way good left d (i + j) w w''"
  by (auto simp: on_the_way_def)

lemma way_mono: "on_the_way good left d i w w' \<Longrightarrow> i \<le> j \<Longrightarrow> on_the_way good left d j w w'"
  by (auto simp: on_the_way_def)

lemma ends_at_mono: "ends_at good left d i act w \<Longrightarrow> i \<le> j \<Longrightarrow> ends_at good left d j act w"
  unfolding ends_at_def by (meson le_trans way_mono)

lemma ends_mono: "ends_in good left d i act \<Longrightarrow> i \<le> j \<Longrightarrow> ends_in good left d j act"
  unfolding ends_in_def using ends_at_mono by blast

lemma ends_here: "ends_in good left d k act \<Longrightarrow> ends_at good left d k act w"
  by (simp add: ends_in_def)

lemma ends_basic [simp, intro]:
  "ends_in good left d k (returns x)" "ends_in good left d k (raises i)" "ends_in good left d k now_seen"
  by (auto simp: ends_in_def ends_at_def returns_def raises_def now_seen_def intro: way_refl)

lemma ends_emit [intro]: "quiet evs \<Longrightarrow> ends_in good left d k (emit evs)"
  by (auto simp: ends_in_def ends_at_def emit_def on_the_way_def log_left log_good)

text \<open>A wait ends with one counted moment, when it is over at each of them.\<close>

lemma wait_from_counted:
  assumes "\<And>ms. counts w ms \<Longrightarrow> over ms" "good w" "1 \<le> left w"
  shows "\<exists>pre m rest. wait_from over [] (wo_later w) = Some (pre, m, rest) \<and>
    on_the_way good left d 1 w (waited pre m rest w)"
proof -
  have first: "case wait_from over pre ms of
      None \<Rightarrow> \<forall>us x vs. ms = us @ x # vs \<longrightarrow> \<not> over (pre @ us @ [x])
    | Some (pre', m, rest) \<Rightarrow> \<exists>skip. pre' = pre @ skip \<and> ms = skip @ m # rest \<and>
        (\<forall>us x vs. skip = us @ x # vs \<longrightarrow> \<not> over (pre @ us @ [x]))" for pre ms
  proof (induction ms arbitrary: pre)
    case (Cons y ms)
    show ?case
    proof (cases "over (pre @ [y])")
      case False
      then show ?thesis
        using Cons [of "pre @ [y]"] by (auto simp: Cons_eq_append_conv split: option.splits)
    qed simp
  qed simp
  obtain pre0 m0 ms0 where "wo_later w = pre0 @ m0 # ms0" "over (pre0 @ [m0])"
    using some_left [OF assms(2,3)] assms(1) by blast
  then obtain pre m rest where found: "wait_from over [] (wo_later w) = Some (pre, m, rest)"
    using first [where pre = "[]" and ms = "wo_later w"] by (cases "wait_from over [] (wo_later w)") auto
  then have split: "wo_later w = pre @ m # rest" and "\<And>us x vs. pre = us @ x # vs \<Longrightarrow> \<not> over (us @ [x])"
    using first [where pre = "[]" and ms = "wo_later w"] by auto
  then have "\<And>us x vs. pre = us @ x # vs \<Longrightarrow> \<not> counts w (us @ [x])"
    using assms(1) by blast
  then show ?thesis
    using found waited_good [OF assms(2) split] waited_left [OF assms(2) split] by (auto simp: on_the_way_def)
qed

lemma ends_at_await:
  assumes "\<And>ms. good w \<Longrightarrow> counts w ms \<Longrightarrow> over ms"
  shows "ends_at good left d 1 (await_until over) w"
  unfolding ends_at_def
proof (intro impI)
  assume w: "good w" "1 \<le> left w"
  have "\<exists>pre m rest. wait_from (\<lambda>ms. mo_cancelled (last ms) \<or> over ms) [] (wo_later w) = Some (pre, m, rest) \<and>
      on_the_way good left d 1 w (waited pre m rest w)"
    by (rule wait_from_counted) (use assms w in auto)
  then show "\<exists>r w'. await_until over w = Some (r, w') \<and> on_the_way good left d 1 w w'"
    by (auto simp: await_until_def)
qed

lemma ends_at_join:
  assumes "\<And>ms. good w \<Longrightarrow> counts w ms \<Longrightarrow> over ms"
  shows "ends_at good left d 1 (join_when over) w"
  unfolding ends_at_def
proof (intro impI)
  assume w: "good w" "1 \<le> left w"
  have "\<exists>pre m rest. wait_from over [] (wo_later w) = Some (pre, m, rest) \<and>
      on_the_way good left d 1 w (waited pre m rest w)"
    by (rule wait_from_counted) (use assms w in auto)
  then show "\<exists>r w'. join_when over w = Some (r, w') \<and> on_the_way good left d 1 w w'"
    by (auto simp: join_when_def)
qed

lemma ends_await: "(\<And>w ms. counts w ms \<Longrightarrow> over ms) \<Longrightarrow> 1 \<le> k \<Longrightarrow> ends_in good left d k (await_until over)"
  using ends_at_await ends_at_mono unfolding ends_in_def by blast

lemma ends_join: "(\<And>w ms. counts w ms \<Longrightarrow> over ms) \<Longrightarrow> 1 \<le> k \<Longrightarrow> ends_in good left d k (join_when over)"
  using ends_at_join ends_at_mono unfolding ends_in_def by blast

lemma ends_join_next [intro]: "1 \<le> k \<Longrightarrow> ends_in good left d k join_next"
  unfolding join_next_def by (rule ends_join) simp_all

section \<open>Composition\<close>

lemma ends_at_and_then_when:
  assumes "ends_at good left d i act w" "ensures act Q w"
    and "\<And>x w'. on_the_way good left d i w w' \<Longrightarrow> Q (Inr x) w' \<Longrightarrow> ends_at good left d j (k x) w'"
  shows "ends_at good left d (i + j) (and_then act k) w"
  unfolding ends_at_def
proof (intro impI)
  assume w: "good w" "i + j \<le> left w"
  obtain r1 w1 where first: "act w = Some (r1, w1)" "on_the_way good left d i w w1"
    using assms(1) w unfolding ends_at_def by force
  show "\<exists>r w'. and_then act k w = Some (r, w') \<and> on_the_way good left d (i + j) w w'"
  proof (cases r1)
    case (Inl e)
    then show ?thesis
      using first by (auto simp: and_then_def elim: way_mono)
  next
    case (Inr x)
    have "j \<le> left w1" "good w1" "Q (Inr x) w1"
      using first w ensuresD [OF assms(2)] Inr by (auto simp: on_the_way_def)
    then obtain r2 w2 where "k x w1 = Some (r2, w2)" "on_the_way good left d j w1 w2"
      using assms(3) [OF first(2)] unfolding ends_at_def by blast
    then show ?thesis
      using first Inr way_trans by (fastforce simp: and_then_def)
  qed
qed

lemma ends_at_and_then:
  assumes "ends_at good left d i act w"
    and "\<And>x w'. on_the_way good left d i w w' \<Longrightarrow> ends_at good left d j (k x) w'"
  shows "ends_at good left d (i + j) (and_then act k) w"
  by (rule ends_at_and_then_when [where Q = "\<lambda>_ _. True", OF assms(1)])
    (simp_all add: ensures_def assms(2) split: option.splits)

lemma ends_and_then:
  assumes "ends_in good left d i act" "\<And>x. ends_in good left d j (k x)" "i + j \<le> n"
  shows "ends_in good left d n (and_then act k)"
proof (rule ends_mono)
  show "ends_in good left d (i + j) (and_then act k)"
    using assms(1,2) ends_at_and_then unfolding ends_in_def by blast
qed (rule assms(3))

text \<open>\<open>finally\<close> and \<open>except CancelledError\<close> are the same composition, with the result kept for later.\<close>

lemma finally_and_then:
  "finally_do act ending w =
     and_then (\<lambda>w. map_option (\<lambda>(r, w'). (Inr r, w')) (act w))
       (\<lambda>r. and_then ending (\<lambda>_. case r of Inl i \<Rightarrow> raises i | Inr x \<Rightarrow> returns x)) w"
  by (auto simp: finally_do_def and_then_def raises_def returns_def split: option.split sum.split)

lemma on_cancel_and_then:
  "on_cancel act clean w =
     and_then (\<lambda>w. map_option (\<lambda>(r, w'). (Inr r, w')) (act w))
       (\<lambda>r. if r = Inl CancelledError then and_then clean (\<lambda>_. raises CancelledError)
            else case r of Inl i \<Rightarrow> raises i | Inr x \<Rightarrow> returns x) w"
  by (auto simp: on_cancel_def and_then_def raises_def returns_def split: option.split sum.split interrupt.split)

lemma ends_at_then_ends:
  assumes "ends_at good left d j act w" "\<And>x. ends_in good left d 0 (k x)"
  shows "ends_at good left d j (and_then act k) w"
  using ends_at_and_then [OF assms(1) ends_here [OF assms(2)]] by simp

lemma ends_at_kept: "ends_at good left d i act w \<Longrightarrow>
    ends_at good left d i (\<lambda>w. map_option (\<lambda>(r, w'). (Inr r, w')) (act w)) w"
  by (auto simp: ends_at_def)

lemma ends_at_finally:
  assumes "ends_at good left d i act w"
    and "\<And>w'. on_the_way good left d i w w' \<Longrightarrow> ends_at good left d j ending w'"
  shows "ends_at good left d (i + j) (finally_do act ending) w"
proof -
  have "ends_at good left d j (and_then ending (\<lambda>_. case r of Inl i \<Rightarrow> raises i | Inr x \<Rightarrow> returns x)) w'"
    if "on_the_way good left d i w w'" for r and w'
    using assms(2) [OF that] by (auto intro!: ends_at_then_ends split: sum.split)
  from ends_at_and_then [OF ends_at_kept [OF assms(1)] this] show ?thesis
    by (simp add: ends_at_def finally_and_then [abs_def])
qed

lemma ends_at_on_cancel:
  assumes "ends_at good left d i act w"
    and "\<And>w'. on_the_way good left d i w w' \<Longrightarrow> ends_at good left d j clean w'"
  shows "ends_at good left d (i + j) (on_cancel act clean) w"
proof -
  have "ends_at good left d j (if r = Inl CancelledError then and_then clean (\<lambda>_. raises CancelledError)
      else case r of Inl i \<Rightarrow> raises i | Inr x \<Rightarrow> returns x) w'"
    if "on_the_way good left d i w w'" for r and w'
    using assms(2) [OF that] by (auto intro!: ends_at_then_ends intro: ends_here split: sum.split)
  from ends_at_and_then [OF ends_at_kept [OF assms(1)] this] show ?thesis
    by (simp add: ends_at_def on_cancel_and_then [abs_def])
qed

lemma ends_finally:
  assumes "ends_in good left d i act" "ends_in good left d j ending" "i + j \<le> n"
  shows "ends_in good left d n (finally_do act ending)"
  using assms ends_at_finally ends_at_mono unfolding ends_in_def by blast

lemma ends_on_cancel:
  assumes "ends_in good left d i act" "ends_in good left d j clean" "i + j \<le> n"
  shows "ends_in good left d n (on_cancel act clean)"
  using assms ends_at_on_cancel ends_at_mono unfolding ends_in_def by blast

lemma ends_if [intro]:
  "(b \<Longrightarrow> ends_in good left d k act1) \<Longrightarrow> (\<not> b \<Longrightarrow> ends_in good left d k act2) \<Longrightarrow>
   ends_in good left d k (if b then act1 else act2)"
  by simp

end

end
