(* ===== verification/Fork_Progress.thy ===== *)
theory Fork_Progress
  imports Fork_Control Async_Ends
begin

text \<open>
  That a fork ends: the waits it can still make once its deadline has passed are counted along the
  coroutine.  Each of them is over at the latest at the next moment that is late (past the deadline) and at which what was
  asked to stop or to close has done so: a wait with a time limit because it is up, the others because
  of that.  And that a fork that rings in turn never rings two legs at once.
\<close>

text \<open>The clock of a script goes forward, and it has this many settled moments after the deadline \<open>d\<close>.\<close>

definition clock_forward :: "(('o, 'x) moment_scheme, 'e) world \<Rightarrow> bool" where
  "clock_forward w \<longleftrightarrow> sorted (map mo_clock (wo_now w # wo_later w))"

definition late :: "int \<Rightarrow> ('o, 'x) moment_scheme \<Rightarrow> bool" where
  "late d m \<longleftrightarrow> d \<le> mo_clock m \<and> mo_settled m"

definition late_moments :: "int \<Rightarrow> (('o, 'x) moment_scheme, 'e) world \<Rightarrow> nat" where
  "late_moments d w = length (filter (late d) (wo_later w))"

lemma late_passed:
  assumes "sorted (map mo_clock (pre @ m # ms))" "\<And>us x vs. pre = us @ x # vs \<Longrightarrow> \<not> late d x"
  shows "length (filter (late d) (pre @ m # ms)) \<le> length (filter (late d) ms) + 1"
    "mo_clock m < d \<Longrightarrow> filter (late d) (pre @ m # ms) = filter (late d) ms"
proof -
  have "\<not> late d x" if "x \<in> set pre" for x
    using assms(2) split_list [OF that] by blast
  then have "filter (late d) pre = []"
    by (simp add: filter_empty_conv)
  then show "length (filter (late d) (pre @ m # ms)) \<le> length (filter (late d) ms) + 1"
    "mo_clock m < d \<Longrightarrow> filter (late d) (pre @ m # ms) = filter (late d) ms"
    by (simp_all add: late_def)
qed

interpretation late: script_measure clock_forward "late_moments d" d "\<lambda>_ ms. ms \<noteq> [] \<and> late d (last ms)" "\<lambda>_. True" for d
proof
  fix w and m and pre ms :: "('a, 'b) moment_scheme list"
  assume w: "clock_forward (w :: (('a, 'b) moment_scheme, 'c) world)" "wo_later w = pre @ m # ms"
  then show "clock_forward (waited pre m ms w) \<and> mo_clock (wo_now w) \<le> mo_clock m"
    by (auto simp: clock_forward_def sorted_append)
  assume "\<And>us x vs. pre = us @ x # vs \<Longrightarrow> \<not> (us @ [x] \<noteq> [] \<and> late d (last (us @ [x])))"
  then have "\<And>us x vs. pre = us @ x # vs \<Longrightarrow> \<not> late d x"
    by simp
  from late_passed [where pre = pre and m = m and ms = ms, OF _ this] w show "late_moments d w \<le> late_moments d (waited pre m ms w) + 1 \<and>
      late_moments d (waited pre m ms w) \<le> late_moments d w \<and>
      (mo_clock m < d \<longrightarrow> late_moments d (waited pre m ms w) = late_moments d w)"
    by (simp add: late_moments_def clock_forward_def)
next
  fix w :: "(('a, 'b) moment_scheme, 'c) world"
  assume "1 \<le> late_moments d w"
  then have "\<exists>m \<in> set (wo_later w). late d m"
    by (auto simp: late_moments_def Suc_le_eq filter_empty_conv)
  then show "\<exists>pre m ms. wo_later w = pre @ m # ms \<and> pre @ [m] \<noteq> [] \<and> late d (last (pre @ [m]))"
    by (auto dest!: split_list)
qed (simp_all add: clock_forward_def late_moments_def)

text \<open>A coroutine that comes to an end within so many waits after the deadline, however many it has
  had before.\<close>

abbreviation ends_from :: "int \<Rightarrow> nat \<Rightarrow> (('o, 'x) moment_scheme, 'e, 'a) coroutine
    \<Rightarrow> (('o, 'x) moment_scheme, 'e) world \<Rightarrow> bool" where
  "ends_from d \<equiv> ends_at clock_forward (late_moments d) d"

abbreviation ends_within :: "int \<Rightarrow> nat \<Rightarrow> (('o, 'x) moment_scheme, 'e, 'a) coroutine \<Rightarrow> bool" where
  "ends_within d \<equiv> ends_in clock_forward (late_moments d) d"

abbreviation reaches ::
  "int \<Rightarrow> nat \<Rightarrow> (('o, 'x) moment_scheme, 'e) world \<Rightarrow> (('o, 'x) moment_scheme, 'e) world \<Rightarrow> bool" where
  "reaches d \<equiv> on_the_way clock_forward (late_moments d) d"

lemmas ends_from_def = ends_at_def and ends_within_def = ends_in_def and reaches_def = on_the_way_def
  and ends_and_then = late.ends_and_then and ends_finally = late.ends_finally and ends_on_cancel = late.ends_on_cancel

lemma ends_emitted [simp, intro]: "ends_within d k (emit evs)"
  by (rule late.ends_emit) simp

lemma ends_settled [intro]: "1 \<le> k \<Longrightarrow> ends_within d k join_settled"
  unfolding join_settled_def by (rule late.ends_join) (simp_all add: late_def)

section \<open>A fork ends\<close>

lemma ends_close [intro]: "1 \<le> k \<Longrightarrow> ends_within d k (close_candidates cs mode)"
  unfolding close_candidates_def Let_def
  by (intro late.ends_if ends_and_then [where i = 0 and j = 1] ends_and_then [where i = 1 and j = 0]) auto

lemma ends_wait_for_cleanup: "ends_within d 3 (wait_for_cleanup_or_termination tok)"
  unfolding wait_for_cleanup_or_termination_def
  by (intro ends_and_then [where i = 0 and j = 3] late.ends_if ends_and_then [where i = 1 and j = 2]
      ends_finally [where i = 2 and j = 1] ends_and_then [where i = 1 and j = 1 and n = 2]
      ends_and_then [where i = 1 and j = 0 and n = 1] late.ends_await) (auto simp: late_def)

lemma ends_wait_for_first: "limit \<le> d \<Longrightarrow> ends_within d 2 (wait_for_first pending limit)"
  unfolding wait_for_first_def
  by (intro ends_finally [where i = 1 and j = 1] late.ends_await) (auto simp: late_def timed_out_def)

lemma ends_wait_for_dial: "limit \<le> d \<Longrightarrow> ends_within d 3 (wait_for_dial c limit)"
  unfolding wait_for_dial_def
  by (intro ends_and_then [where i = 2 and j = 1] ends_on_cancel [where i = 1 and j = 1] late.ends_await)
    (auto simp: late_def timed_out_def split: option.split
      intro!: ends_and_then [where i = 0 and j = 1 and act = "emit _"] ends_and_then [where i = 1 and j = 0 and act = join_settled])

lemma ends_parallel_rounds: "ends_from d 2 (parallel_rounds tok d pending failures) w"
proof (induction "length (wo_later w)" arbitrary: pending failures w rule: less_induct)
  case less
  show ?case
    unfolding ends_from_def
  proof (intro impI)
    assume w: "clock_forward w" "2 \<le> late_moments d w"
    have here: "reaches d 2 w w"
      using w by (simp add: late.way_refl)
    let ?limit = "mo_clock (wo_now w) + max 0 (d - mo_clock (wo_now w))"
    show "\<exists>r w'. parallel_rounds tok d pending failures w = Some (r, w') \<and> reaches d 2 w w'"
    proof (cases "mo_clock (wo_now w) < d")
      case False
      then show ?thesis
        using here by (subst parallel_rounds.simps) (auto simp: Let_def returns_def)
    next
      case True
      then have "ends_within d 2 (wait_for_first pending ?limit)"
        by (intro ends_wait_for_first) simp
      then obtain r1 w1 where wait: "wait_for_first pending ?limit w = Some (r1, w1)" "reaches d 2 w w1"
        using w unfolding ends_within_def ends_from_def by blast
      have "\<exists>r w'. parallel_rounds tok d pending' fs w1 = Some (r, w') \<and> reaches d 2 w w'" for pending' fs
      proof (cases "mo_clock (wo_now w1) < d")
        case True
        then have same: "clock_forward w1" "late_moments d w1 = late_moments d w"
          using wait(2) by (auto simp: reaches_def)
        have "length (wo_later w1) < length (wo_later w)"
          using wait(1) by (rule wait_for_first_shortens)
        from less.hyps [OF this, of pending' fs] same w
        obtain r w' where "parallel_rounds tok d pending' fs w1 = Some (r, w')" "reaches d 2 w1 w'"
          unfolding ends_from_def by auto
        moreover from this have "reaches d 2 w w'"
          using wait(2) same by (auto simp: reaches_def)
        ultimately show ?thesis
          by blast
      next
        case False
        then show ?thesis
          using wait(2) by (subst parallel_rounds.simps) (auto simp: Let_def returns_def)
      qed
      then show ?thesis
        using here wait
        by (subst parallel_rounds.simps)
          (auto simp: Let_def returns_def raises_def split: option.split sum.split prod.split)
    qed
  qed
qed

text \<open>A loop that looks at the clock: with at most \<open>b\<close> waits once the deadline has passed, and 5 in all.\<close>

definition keeps_pace :: "int \<Rightarrow> nat \<Rightarrow> (('o, 'x) moment_scheme, 'e, 'a) coroutine \<Rightarrow> bool" where
  "keeps_pace d b act \<longleftrightarrow> (\<forall>w. ends_from d (if mo_clock (wo_now w) < d then 5 else b) act w)"

lemma paced_ends: "ends_within d b act \<Longrightarrow> b \<le> 5 \<Longrightarrow> keeps_pace d b act"
  by (auto simp: keeps_pace_def ends_within_def intro: late.ends_at_mono)

lemma paced_if: "(c \<Longrightarrow> keeps_pace d b act1) \<Longrightarrow> (\<not> c \<Longrightarrow> keeps_pace d b act2) \<Longrightarrow> keeps_pace d b (if c then act1 else act2)"
  by simp

lemma paced_and_then:
  assumes act: "ends_within d i act" and k: "\<And>x. keeps_pace d j (k x)" and "i + j \<le> b" "b \<le> 5"
  shows "keeps_pace d b (and_then act k)"
  unfolding keeps_pace_def
proof
  fix w
  have late: "ends_from d b (and_then act k) w" if "\<not> mo_clock (wo_now w) < d"
  proof (rule late.ends_at_mono [OF late.ends_at_and_then [where i = i and j = j]])
    show "ends_from d i act w"
      using act by (simp add: ends_within_def)
    show "ends_from d j (k x) w'" if "reaches d i w w'" for x w'
    proof -
      have "\<not> mo_clock (wo_now w') < d"
        using that \<open>\<not> mo_clock (wo_now w) < d\<close> by (auto simp: reaches_def)
      then show ?thesis
        using k [of x] unfolding keeps_pace_def by (auto dest: spec [of _ w'])
    qed
  qed (rule assms(3))
  have early: "ends_from d 5 (and_then act k) w"
    unfolding ends_from_def
  proof (intro impI)
    assume w: "clock_forward w" "5 \<le> late_moments d w"
    then obtain r1 w1 where first: "act w = Some (r1, w1)" "reaches d i w w1"
      using act assms(3,4) unfolding ends_within_def ends_from_def by force
    show "\<exists>r w'. and_then act k w = Some (r, w') \<and> reaches d 5 w w'"
    proof (cases r1)
      case (Inl e)
      then show ?thesis
        using first assms(3,4) by (auto simp: and_then_def elim: late.way_mono)
    next
      case (Inr x)
      let ?b = "if mo_clock (wo_now w1) < d then 5 else j"
      have "?b \<le> late_moments d w1" "clock_forward w1"
        using first(2) w assms(3,4) by (auto simp: reaches_def)
      then obtain r2 w2 where "k x w1 = Some (r2, w2)" "reaches d ?b w1 w2"
        using k [of x] unfolding keeps_pace_def ends_from_def by blast
      moreover from this have "reaches d 5 w w2"
        using first(2) assms(3,4) by (auto simp: reaches_def split: if_splits)
      ultimately show ?thesis
        using first Inr by (auto simp: and_then_def)
    qed
  qed
  show "ends_from d (if mo_clock (wo_now w) < d then 5 else b) (and_then act k) w"
    using late early by simp
qed

lemma ends_sequential_outcome: "ends_within d 1 (sequential_outcome c e)"
  unfolding sequential_outcome_def
  by (auto intro!: ends_and_then [where i = 1 and j = 0] split: task_end.split)

lemma paced_dial_sequential: "keeps_pace d 0 (dial_sequential fc d cs failures :: ('x, tier_result) fork)"
proof (induction cs arbitrary: failures)
  case Nil
  then show ?case
    by (auto intro: paced_ends)
next
  case (Cons c cs)
  define k :: "(dial_outcome, 'x) moment_scheme \<Rightarrow> ('x, tier_result) fork" where "k = (\<lambda>m. if \<not> owns (mo_session m) (fc_token fc)
       then returns (None, Some (DialOutcome D_CANCELLED 487 []), failures)
       else if max 0 (d - mo_clock m) \<le> 0 then returns (None, None, failures)
       else
         and_then (emit [Dialled c]) (\<lambda>_.
         and_then (wait_for_dial c (mo_clock m + min (fc_step_timeout fc) (max 0 (d - mo_clock m)))) (\<lambda>e.
         and_then (sequential_outcome c e) (\<lambda>oc.
         and_then now_seen (\<lambda>m2.
           if es_termination_started (mo_session m2)
           then and_then (close_candidates [c] CANCEL_OR_BYE)
                  (\<lambda>_. returns (None, Some (DialOutcome D_CANCELLED 487 []), failures))
           else if is_route_control oc then returns (None, Some oc, failures)
           else if answered oc then returns (Some c, Some oc, failures)
           else and_then (close_candidates [c] CLOSE)
                  (\<lambda>_. dial_sequential fc d cs (failures @ [oc])))))))"
  have run: "dial_sequential fc d (c # cs) failures = and_then now_seen k"
    unfolding k_def by (rule dial_sequential.simps [unfolded Let_def])
  have "keeps_pace d 5 (k m)" for m
    unfolding k_def
    by (intro paced_if paced_and_then [where i = 0 and j = 5 and b = 5] paced_and_then [where i = 3 and j = 2 and b = 5]
        paced_and_then [where i = 1 and j = 1 and b = 2] paced_and_then [where i = 0 and j = 1 and b = 1]
        paced_and_then [where i = 1 and j = 0 and b = 1] Cons.IH ends_sequential_outcome ends_wait_for_dial ends_close)
      (auto intro: paced_ends)
  moreover have "ends_from d 0 (k (wo_now w)) w" if "\<not> mo_clock (wo_now w) < d" for w
    using that by (auto simp: k_def ends_from_def returns_def intro: late.way_refl)
  ultimately show ?case
    unfolding run by (auto simp: keeps_pace_def ends_from_def and_then_def now_seen_def)
qed

lemma ends_dial_tier: "ends_within d 5 (dial_tier fc d tier)"
proof -
  have "ends_within d 2 (parallel_rounds tok d pending failures)" for tok pending failures
    unfolding ends_within_def using ends_parallel_rounds by blast
  moreover have "ends_within d 5 (dial_sequential fc d cs failures)" for cs failures
    unfolding ends_within_def
  proof
    fix w
    show "ends_from d 5 (dial_sequential fc d cs failures) w"
      using paced_dial_sequential [of d fc cs failures] late.ends_at_mono [of d _ _ w 5]
      unfolding keeps_pace_def by (metis (full_types) le_refl zero_le)
  qed
  ultimately show ?thesis
    unfolding dial_tier_def dial_parallel_tier_def dial_sequential_tier_def
    by (auto intro!: ends_and_then [where i = 0 and j = 5] ends_finally [where i = 2 and j = 1]
        ends_and_then [where i = 0 and j = 1 and n = 1] split: fork_strategy.split)
qed

lemma ends_commit_by: "ends_within d 0 (commit_by accepts c oc)"
  unfolding commit_by_def by (intro ends_and_then [where i = 0 and j = 0]) auto

lemma ends_settle_winner:
  assumes "\<And>c oc. ends_within d 0 (commit c oc)"
  shows "ends_within d 4 (settle_winner fc commit c oc attempted)"
  unfolding settle_winner_def abandon_winner_def
  by (intro ends_and_then [where i = 0 and j = 4] ends_and_then [where i = 3 and j = 1 and n = 4]
      ends_and_then [where i = 0 and j = 1 and n = 1] late.ends_if ends_and_then [where i = 1 and j = 0 and n = 1]
      ends_wait_for_cleanup assms ends_close) auto

lemma ends_dial_tiers:
  assumes "\<And>c oc. ends_within d 0 (commit c oc)"
  shows "ends_within d (5 * length tiers + 4) (dial_tiers fc commit d tiers attempted failures)"
proof (induction tiers arbitrary: attempted failures)
  case Nil
  then show ?case
    by (auto intro!: ends_and_then [where i = 1 and j = 0])
next
  case (Cons tier tiers)
  have close: "ends_within d (5 * length tiers + 4) (and_then (close_candidates cs mode) (\<lambda>_. returns res))"
    for cs mode and res :: fork_result
    by (rule ends_and_then [where i = 1 and j = 0]) auto
  have settle: "ends_within d (5 * length tiers + 4) (settle_winner fc commit c oc att)" for c oc att
    by (rule late.ends_mono [OF ends_settle_winner [OF assms]]) simp
  show ?case
    unfolding dial_tiers.simps Let_def
    by (rule ends_and_then [where i = 5 and j = "5 * length tiers + 4"])
      (auto intro: ends_dial_tier close settle Cons.IH split: option.split)
qed

lemma ends_run_candidates:
  assumes "\<And>d c oc. ends_within d 0 (commit c oc)" "clock_forward w"
    and "5 * length (fc_candidates fc) + 5 \<le> late_moments (mo_clock (wo_now w) + fc_overall_timeout fc) w"
  shows "\<exists>r w'. run_candidates fc commit w = Some (r, w')"
proof (cases "ensure_live (mo_session (wo_now w)) (Some (fc_token fc))")
  case (Inl e)
  then show ?thesis
    by (simp add: run_candidates_def and_then_def now_seen_def raises_def)
next
  case (Inr u)
  let ?d = "mo_clock (wo_now w) + fc_overall_timeout fc"
  let ?tiers = "sort (remdups (map dc_tier (fc_candidates fc)))"
  let ?run = "on_cancel (dial_tiers fc commit ?d ?tiers [] []) (close_candidates (fc_candidates fc) CANCEL_OR_BYE)"
  have "length ?tiers \<le> length (fc_candidates fc)"
    by (simp add: order.trans [OF length_remdups_leq])
  then have "ends_within ?d (5 * length (fc_candidates fc) + 5) ?run"
    by (intro ends_on_cancel [where i = "5 * length ?tiers + 4" and j = 1] ends_dial_tiers ends_close assms(1)) auto
  then obtain r w' where "?run w = Some (r, w')"
    using assms(2,3) unfolding ends_within_def ends_from_def by blast
  then show ?thesis
    using Inr by (cases "fc_candidates fc = []") (simp_all add: run_candidates_def and_then_def now_seen_def returns_def Let_def)
qed

section \<open>Ringing in turn\<close>

lemma subseq_subset: "subseq xs ys \<Longrightarrow> set xs \<subseteq> set ys"
  by (induction rule: list_emb.induct) auto

lemma sorted_subseq: "subseq xs ys \<Longrightarrow> sorted (map f ys) \<Longrightarrow> sorted (map f xs)"
proof (induction rule: list_emb.induct)
  case (list_emb_Cons2 x y xs ys)
  then show ?case
    using subseq_subset [OF list_emb_Cons2(2)] by auto
qed auto

text \<open>The legs in the order in which they are dialled; each only when no leg dialled before it is left.\<close>

fun dials :: "fork_event list \<Rightarrow> dial_candidate list" where
  "dials [] = []"
| "dials (Dialled c # evs) = c # dials evs"
| "dials (e # evs) = dials evs"

lemma dials_append [simp]: "dials (xs @ ys) = dials xs @ dials ys"
  by (induction xs rule: dials.induct) auto

lemma dials_closing [simp]: "dials (map (Closed_Leg mode) cs) = []"
  by (induction cs) auto

lemma dialled_dials: "dialled_legs evs = set (dials evs)"
  by (induction evs rule: dials.induct) auto

definition rings_in_turn :: "fork_event list \<Rightarrow> bool" where
  "rings_in_turn evs \<longleftrightarrow> (\<forall>xs c ys. evs = xs @ Dialled c # ys \<longrightarrow> legs_left xs = {})"

lemma in_turn_nothing [simp]: "rings_in_turn []" "legs_left [] = {}"
  by (simp_all add: rings_in_turn_def legs_left_def)

lemma legs_left_append: "legs_left (xs @ ys) \<subseteq> legs_left xs \<union> legs_left ys"
  by (auto simp: legs_left_def)

lemma rings_in_turn_append:
  assumes "rings_in_turn xs" "rings_in_turn ys" "legs_left xs = {} \<or> dials ys = []"
  shows "rings_in_turn (xs @ ys)"
  unfolding rings_in_turn_def
proof (intro allI impI)
  fix us c vs
  assume split: "xs @ ys = us @ Dialled c # vs"
  show "legs_left us = {}"
  proof (cases "\<exists>zs. xs = us @ Dialled c # zs")
    case True
    then show ?thesis
      using assms(1) unfolding rings_in_turn_def by blast
  next
    case False
    then obtain zs where zs: "us = xs @ zs" "ys = zs @ Dialled c # vs"
      using split by (auto simp: append_eq_append_conv2 append_eq_Cons_conv)
    then have "legs_left zs = {}" "legs_left xs = {}"
      using assms(2,3) by (auto simp: rings_in_turn_def)
    then show ?thesis
      using zs(1) legs_left_append [of xs zs] by auto
  qed
qed

lemma rings_in_turn_silent: "dials evs = [] \<Longrightarrow> rings_in_turn evs"
  by (auto simp: rings_in_turn_def)

lemma rings_one: "dials evs = [] \<Longrightarrow> rings_in_turn (Dialled c # evs)"
  by (auto simp: rings_in_turn_def Cons_eq_append_conv legs_left_def)

definition turn_ends ::
  "dial_candidate list \<Rightarrow> ((dial_outcome, 'x) moment_scheme, fork_event) world
    \<Rightarrow> interrupt + tier_result \<Rightarrow> ((dial_outcome, 'x) moment_scheme, fork_event) world \<Rightarrow> bool" where
  "turn_ends cs w r w' \<longleftrightarrow>
     (\<exists>evs. wo_log w' = wo_log w @ evs \<and> rings_in_turn evs \<and> subseq (dials evs) cs \<and>
        (\<forall>fs. r = Inr (None, None, fs) \<longrightarrow> legs_left evs = {}) \<and>
        (\<forall>oc fs. r = Inr (None, Some oc, fs) \<longrightarrow> withdraws_fork oc))"

lemma turn_ends_quiet:
  "turn_ends cs w (Inl i) w' \<longleftrightarrow> (\<exists>evs. wo_log w' = wo_log w @ evs \<and> rings_in_turn evs \<and> subseq (dials evs) cs)"
  "turn_ends cs w (Inr (Some c, x)) w' \<longleftrightarrow>
     (\<exists>evs. wo_log w' = wo_log w @ evs \<and> rings_in_turn evs \<and> subseq (dials evs) cs)"
  "turn_ends cs w (Inr (None, Some oc, fs)) w' \<longleftrightarrow> withdraws_fork oc \<and>
     (\<exists>evs. wo_log w' = wo_log w @ evs \<and> rings_in_turn evs \<and> subseq (dials evs) cs)"
  by (auto simp: turn_ends_def)

lemma withdraws_route_control: "is_route_control oc \<Longrightarrow> withdraws_fork oc"
  by (auto simp: is_route_control_def withdraws_fork_def)

lemma ensures_turn:
  fixes w :: "((dial_outcome, 'x) moment_scheme, fork_event) world"
  shows "ensures (dial_sequential fc deadline cs failures) (turn_ends cs w) w"
proof (induction cs arbitrary: failures w)
  case Nil
  then show ?case
    by (auto simp: ensuring turn_ends_def rings_in_turn_def legs_left_def)
next
  case (Cons c cs)
  have rest: "ensures (dial_sequential fc deadline cs fs) (turn_ends (c # cs) w) w1"
    if "wo_log w1 = wo_log w @ Dialled c # evs" "dials evs = []" "legs_left (Dialled c # evs) = {}" for w1 evs fs
  proof (rule ensures_mono [OF Cons.IH])
    fix r w'
    assume "turn_ends cs w1 r w'"
    then obtain evs' where new: "wo_log w' = wo_log w1 @ evs'" "rings_in_turn evs'" "subseq (dials evs') cs"
      "\<forall>fs. r = Inr (None, None, fs) \<longrightarrow> legs_left evs' = {}"
      "\<forall>oc fs. r = Inr (None, Some oc, fs) \<longrightarrow> withdraws_fork oc"
      unfolding turn_ends_def by blast
    have "rings_in_turn ((Dialled c # evs) @ evs')"
      using that new by (intro rings_in_turn_append rings_one) auto
    moreover have "legs_left ((Dialled c # evs) @ evs') = {}" if "legs_left evs' = {}"
      using legs_left_append [of "Dialled c # evs" evs'] that \<open>legs_left (Dialled c # evs) = {}\<close> by blast
    ultimately show "turn_ends (c # cs) w r w'"
      using that new unfolding turn_ends_def by (intro exI [of _ "(Dialled c # evs) @ evs'"]) auto
  qed
  define k :: "dial_outcome \<Rightarrow> ('x, tier_result) fork" where "k = (\<lambda>oc. and_then now_seen (\<lambda>m2.
           if es_termination_started (mo_session m2)
           then and_then (close_candidates [c] CANCEL_OR_BYE)
                  (\<lambda>_. returns (None, Some (DialOutcome D_CANCELLED 487 []), failures))
           else if is_route_control oc then returns (None, Some oc, failures)
           else if answered oc then returns (Some c, Some oc, failures)
           else and_then (close_candidates [c] CLOSE)
                  (\<lambda>_. dial_sequential fc deadline cs (failures @ [oc]))))"
  have go: "ensures (k oc) (turn_ends (c # cs) w) w1"
    if "wo_log w1 = wo_log w @ Dialled c # evs" "dials evs = []" "dialled_legs evs = {}" for w1 evs oc
    using that
    by (auto simp: k_def ensuring turn_ends_quiet withdraws_fork_def is_route_control_def legs_left_def
        intro!: rings_one rest [of _ "evs @ [Closed_Leg CLOSE c]"])
  have go': "ensures (k oc) (turn_ends (c # cs) w) w1"
    if "evs \<in> {[], [Stop_Unfinished [c]]}"
      "wo_log w1 = wo_log w @ Dialled c # evs \<or> wo_log w1 = wo_log w @ Dialled c # evs @ [Closed_Leg CANCEL_OR_BYE c]" for w1 evs oc
    using that go [of w1 evs oc] go [of w1 "evs @ [Closed_Leg CANCEL_OR_BYE c]" oc] by auto
  have run: "dial_sequential fc deadline (c # cs) failures =
     and_then now_seen (\<lambda>m.
       if \<not> owns (mo_session m) (fc_token fc)
       then returns (None, Some (DialOutcome D_CANCELLED 487 []), failures)
       else if max 0 (deadline - mo_clock m) \<le> 0 then returns (None, None, failures)
       else
         and_then (emit [Dialled c]) (\<lambda>_.
         and_then (wait_for_dial c (mo_clock m + min (fc_step_timeout fc) (max 0 (deadline - mo_clock m)))) (\<lambda>e.
         and_then (sequential_outcome c e) k)))"
    unfolding k_def by (rule dial_sequential.simps [unfolded Let_def])
  have dialled: "ensures (wait_for_dial c limit) (\<lambda>r w'. case r of Inl i \<Rightarrow> turn_ends (c # cs) w (Inl i) w'
      | Inr e \<Rightarrow> ensures (and_then (sequential_outcome c e) k) (turn_ends (c # cs) w) w')
     (w\<lparr> wo_log := wo_log w @ [Dialled c] \<rparr>)" for limit
  proof (rule ensures_mono [OF ensures_wait_for_dial])
    fix r and w' :: "((dial_outcome, 'x) moment_scheme, fork_event) world"
    assume "dial_ends c (w\<lparr> wo_log := wo_log w @ [Dialled c] \<rparr>) r w'"
    then obtain evs where "wo_log w' = wo_log w @ Dialled c # evs" "evs \<in> {[], [Stop_Unfinished [c]]}"
      unfolding dial_ends_def by auto
    then show "case r of Inl i \<Rightarrow> turn_ends (c # cs) w (Inl i) w'
        | Inr e \<Rightarrow> ensures (and_then (sequential_outcome c e) k) (turn_ends (c # cs) w) w'"
      by (auto simp: ensuring turn_ends_quiet split: sum.split task_end.split
          intro!: go' [where evs = evs] rings_one)
  qed
  show ?case
    unfolding run using dialled
    by (simp add: ensures_and_then ensures_now ensures_returns ensures_emit turn_ends_quiet withdraws_fork_def)
      (simp add: turn_ends_def)
qed

definition turns_end :: "fork_controller \<Rightarrow> fork_event list \<Rightarrow> ('m, fork_event) world \<Rightarrow> bool" where
  "turns_end fc log w \<longleftrightarrow>
     (\<exists>evs. wo_log w = log @ evs \<and> rings_in_turn evs \<and> sorted (map dial_order (dials evs)))"

lemma turns_end_silent:
  assumes "wo_log w = log @ evs @ evs'" "rings_in_turn evs" "sorted (map dial_order (dials evs))" "dials evs' = []"
  shows "turns_end fc log w"
  using assms rings_in_turn_append [of evs evs'] rings_in_turn_silent
  unfolding turns_end_def by (intro exI [of _ "evs @ evs'"]) auto

lemma ensures_silent:
  assumes "ensures act (\<lambda>r w'. \<exists>evs. wo_log w' = wo_log w @ evs \<and> dials evs = []) w"
    and "wo_log w = log @ evs" "rings_in_turn evs" "sorted (map dial_order (dials evs))"
  shows "ensures act (\<lambda>_. turns_end fc log) w"
  by (rule ensures_mono [OF assms(1)]) (use assms(2-) in \<open>auto intro: turns_end_silent\<close>)

lemma silent_close:
  "ensures (and_then (close_candidates cs mode) (\<lambda>_. returns x))
     (\<lambda>r w'. \<exists>evs. wo_log w' = wo_log w @ evs \<and> dials evs = []) w"
  by (auto simp: ensuring)

lemma silent_settle:
  "ensures (settle_winner fc (commit_by accepts) c oc attempted)
     (\<lambda>r w'. \<exists>evs. wo_log w' = wo_log w @ evs \<and> dials evs = []) w"
  by (auto simp: settle_winner_def wait_for_cleanup_or_termination_def abandon_winner_def commit_by_def ensuring)

lemma ensures_turns:
  fixes w :: "((dial_outcome, 'x) moment_scheme, fork_event) world"
  assumes sequential: "fc_strategy fc = SEQUENTIAL" "fc_tier_strategies fc = []"
    and order: "sorted (map dial_order (fc_candidates fc))"
    and "sorted tiers" "distinct tiers" "wo_log w = log @ evs" "rings_in_turn evs" "legs_left evs = {}"
    and "sorted (map dial_order (dials evs))" "\<forall>c \<in> set (dials evs). \<forall>t \<in> set tiers. dc_tier c < t"
  shows "ensures (dial_tiers fc (commit_by accepts) deadline tiers attempted failures) (\<lambda>_. turns_end fc log) w"
  using assms(4-)
proof (induction tiers arbitrary: attempted failures evs w)
  case Nil
  have "ensures (and_then (close_candidates (fc_candidates fc) CLOSE)
      (\<lambda>_. returns (no_winner (reduce_failures failures) attempted))) (\<lambda>_. turns_end fc log) w"
    using ensures_silent [OF silent_close Nil(3,4,6)] .
  then show ?case
    by simp
next
  case (Cons tier tiers)
  let ?att = "attempted @ map dc_id (tier_members fc tier)"
  let ?Q = "\<lambda>_. turns_end fc log"
  define k :: "tier_result \<Rightarrow> ('x, fork_result) fork" where "k = (\<lambda>(winner, control, tier_failures).
        case (winner, control) of
          (Some c, Some oc) \<Rightarrow>
            if withdraws_fork oc
            then and_then (close_candidates (fc_candidates fc) CANCEL_OR_BYE)
                   (\<lambda>_. returns (no_winner oc ?att))
            else settle_winner fc (commit_by accepts) c oc ?att
        | (None, Some oc) \<Rightarrow>
            if withdraws_fork oc
            then and_then (close_candidates (fc_candidates fc) CANCEL_OR_BYE)
                   (\<lambda>_. returns (no_winner oc ?att))
            else dial_tiers fc (commit_by accepts) deadline tiers ?att (failures @ tier_failures)
        | (Some c, None) \<Rightarrow>
            and_then (close_candidates (fc_candidates fc) CLOSE)
              (\<lambda>_. returns (no_winner (reduce_failures (failures @ tier_failures)) ?att))
        | (None, None) \<Rightarrow> dial_tiers fc (commit_by accepts) deadline tiers ?att (failures @ tier_failures))"
  have run: "dial_tiers fc (commit_by accepts) deadline (tier # tiers) attempted failures =
      and_then (dial_sequential fc deadline (tier_members fc tier) []) k"
    unfolding dial_tiers.simps Let_def k_def dial_tier_def dial_sequential_tier_def
    by (simp add: sequential)
  have members: "sorted (map dial_order (tier_members fc tier))"
    using order unfolding tier_members_def by (rule sorted_filter)
  show ?case
    unfolding run ensures_and_then
  proof (rule ensures_mono [OF ensures_turn])
    fix r and w1 :: "((dial_outcome, 'x) moment_scheme, fork_event) world"
    assume "turn_ends (tier_members fc tier) w r w1"
    then obtain evs1 where new: "wo_log w1 = wo_log w @ evs1" "rings_in_turn evs1"
      "subseq (dials evs1) (tier_members fc tier)" "\<And>fs. r = Inr (None, None, fs) \<Longrightarrow> legs_left evs1 = {}"
      "\<And>oc fs. r = Inr (None, Some oc, fs) \<Longrightarrow> withdraws_fork oc"
      unfolding turn_ends_def by blast
    have log: "wo_log w1 = log @ evs @ evs1"
      using new(1) Cons.prems(3) by simp
    have turn: "rings_in_turn (evs @ evs1)"
      using Cons.prems(4,5) new(2) by (simp add: rings_in_turn_append)
    have inside: "set (dials evs1) \<subseteq> set (tier_members fc tier)"
      using new(3) by (rule subseq_subset)
    have "sorted (map dial_order (dials evs1))"
      using members sorted_subseq [OF new(3)] by blast
    moreover have "dial_order a \<le> dial_order b" if "a \<in> set (dials evs)" "b \<in> set (dials evs1)" for a b
      using that inside Cons.prems(7) by (auto simp: dial_order_def tier_members_def less_eq_prod_def)
    ultimately have sorted: "sorted (map dial_order (dials (evs @ evs1)))"
      using Cons.prems(6) by (auto simp: sorted_append)
    have done_: "ensures act ?Q w1"
      if "\<And>w. ensures act (\<lambda>r w'. \<exists>evs. wo_log w' = wo_log w @ evs \<and> dials evs = []) w" for act :: "('x, fork_result) fork"
      using ensures_silent [OF that log turn sorted] .
    have go_on: "ensures (dial_tiers fc (commit_by accepts) deadline tiers ?att fs) ?Q w1" if "legs_left evs1 = {}" for fs
    proof (rule Cons.IH [OF _ _ log turn _ sorted])
      show "legs_left (evs @ evs1) = {}"
        using legs_left_append [of evs evs1] that Cons.prems(5) by blast
      have "\<forall>t \<in> set tiers. tier < t"
        using Cons.prems(1,2) by (auto simp: order.strict_iff_order)
      then show "\<forall>c \<in> set (dials (evs @ evs1)). \<forall>t \<in> set tiers. dc_tier c < t"
        using Cons.prems(7) inside by (fastforce simp: tier_members_def)
    qed (use Cons.prems in simp_all)
    show "case r of Inl i \<Rightarrow> ?Q (Inl i) w1 | Inr x \<Rightarrow> ensures (k x) ?Q w1"
    proof (cases r)
      case (Inl i)
      then show ?thesis
        using turns_end_silent [of w1 log "evs @ evs1" "[]"] log turn sorted by simp
    next
      case (Inr x)
      obtain winner control fs where x: "x = (winner, control, fs)"
        by (cases x)
      show ?thesis
        using Inr x new(4,5) go_on
        by (cases winner; cases control)
          (auto simp: k_def intro!: done_ silent_close silent_settle)
    qed
  qed
qed

lemma ensures_run_in_turn:
  fixes w :: "((dial_outcome, 'x) moment_scheme, fork_event) world"
  assumes "fc_strategy fc = SEQUENTIAL" "fc_tier_strategies fc = []" "sorted (map dial_order (fc_candidates fc))"
    and "wo_log w = []"
  shows "ensures (run_candidates fc (commit_by accepts)) (\<lambda>_. turns_end fc []) w"
proof -
  have start: "turns_end fc [] w"
    using assms(4) by (simp add: turns_end_def)
  have "ensures (dial_tiers fc (commit_by accepts) deadline (sort (remdups ts)) [] []) (\<lambda>_. turns_end fc []) w" for deadline ts
    by (rule ensures_turns [where evs = "[]"]) (use assms in auto)
  then have "ensures (on_cancel (dial_tiers fc (commit_by accepts) deadline (sort (remdups ts)) [] [])
      (close_candidates (fc_candidates fc) CANCEL_OR_BYE)) (\<lambda>_. turns_end fc []) w" for deadline ts
    unfolding ensures_on_cancel
    by (rule ensures_mono) (auto simp: ensuring turns_end_def rings_in_turn_append rings_in_turn_silent)
  then show ?thesis
    using start by (auto simp: run_candidates_def ensuring Let_def split: sum.split)
qed

end
