(* ===== verification/Fork_Deadline.thy ===== *)
theory Fork_Deadline
  imports Fork_Progress
begin

text \<open>
  That a fork with route-control waiters ends: the controlling task and the task of the branches run by
  two scripts on one clock; once the branches have had enough of theirs they are done, whenever their task was
  cancelled, and the controlling task does not wait for them any longer.
\<close>

section \<open>Two scripts on one clock\<close>

definition branch_moments :: "branch_moment list \<Rightarrow> fork_moment list" where
  "branch_moments ms = concat (map mo_branch ms)"

text \<open>All clock readings in their order: what the branches saw before a moment of the controlling task, then that moment.\<close>

definition clock_readings :: "branch_moment list \<Rightarrow> int list" where
  "clock_readings ms = concat (map (\<lambda>m. map mo_clock (mo_branch m) @ [mo_clock m]) ms)"

lemma branch_moments_simps [simp]:
  "branch_moments [] = []" "branch_moments (m # ms) = mo_branch m @ branch_moments ms"
  "branch_moments (ms @ ms') = branch_moments ms @ branch_moments ms'"
  by (simp_all add: branch_moments_def)

lemma readings_simps [simp]:
  "clock_readings [] = []" "clock_readings (m # ms) = map mo_clock (mo_branch m) @ mo_clock m # clock_readings ms"
  "clock_readings (ms @ ms') = clock_readings ms @ clock_readings ms'"
  by (simp_all add: clock_readings_def)

lemma readings_of_branch: "mo_clock ` set (branch_moments ms) \<subseteq> set (clock_readings ms)"
  by (induction ms) auto

lemma readings_of_control: "mo_clock ` set ms \<subseteq> set (clock_readings ms)"
  by (induction ms) auto

lemma sorted_readings: "sorted (t # clock_readings ms) \<Longrightarrow> sorted (t # map mo_clock ms)"
proof (induction ms arbitrary: t)
  case (Cons m ms)
  then have "sorted (mo_clock m # clock_readings ms)" "t \<le> mo_clock m"
    by (auto simp: sorted_append)
  then show ?case
    using Cons.IH [of "mo_clock m"] by auto
qed simp

lemma branch_sorted: "sorted (clock_readings ms) \<Longrightarrow> sorted (map mo_clock (branch_moments ms))"
proof (induction ms)
  case (Cons m ms)
  then show ?case
    using readings_of_branch [of ms] by (force simp: sorted_append)
qed simp

lemma readings_end: "sorted (t # clock_readings ms) \<Longrightarrow> x \<in> set (t # clock_readings ms) \<Longrightarrow> x \<le> last (t # map mo_clock ms)"
proof (induction ms arbitrary: t x)
  case (Cons m ms)
  have "sorted (mo_clock m # clock_readings ms)"
    using Cons.prems(1) by (simp add: sorted_append)
  note end' = Cons.IH [OF this]
  have "x \<le> mo_clock m" if "x \<in> set (t # map mo_clock (mo_branch m))"
    using that Cons.prems(1) by (auto simp: sorted_append)
  moreover have "mo_clock m \<le> last (mo_clock m # map mo_clock ms)"
    by (rule end') simp
  ultimately have "x \<le> last (mo_clock m # map mo_clock ms)"
    using Cons.prems(2) end' [of x] by auto
  then show ?case
    by simp
qed simp

section \<open>The task of the branches is done\<close>

lemma delivered_cases:
  "delivered evs ms = ms \<or> (\<exists>n m. Cancelled_Branch n m \<in> set evs \<and> delivered evs ms = take n ms @ m # drop n ms)"
  by (induction evs ms rule: delivered.induct) auto

text \<open>A cancellation was delivered between moments of the branches that it fits between.\<close>

definition cut_fits :: "branch_moment list \<Rightarrow> branch_moment list \<Rightarrow> nat \<Rightarrow> fork_moment \<Rightarrow> bool" where
  "cut_fits S seen n m \<longleftrightarrow>
     mo_cancelled m \<and> n \<le> length (branch_moments seen) \<and>
     sorted (map mo_clock (take n (branch_moments S) @ m # drop n (branch_moments S)))"

definition on_track :: "int \<Rightarrow> branch_moment list \<Rightarrow> control_world \<Rightarrow> bool" where
  "on_track t0 S w \<longleftrightarrow>
     wo_seen w @ wo_later w = S \<and> sorted (t0 # clock_readings S) \<and>
     mo_clock (wo_now w) = last (t0 # map mo_clock (wo_seen w)) \<and>
     (\<forall>n m. Cancelled_Branch n m \<in> set (wo_log w) \<longrightarrow> cut_fits S (wo_seen w) n m)"

lemma branch_run_done:
  assumes "sorted (map mo_clock (m # ms))"
    and "5 * length (fc_candidates fc) + 5 \<le> length (filter (late (mo_clock m + fc_overall_timeout fc)) ms)"
  shows "branch_run fc (m # ms) \<noteq> None"
proof -
  let ?w = "\<lparr> wo_now = m, wo_later = ms, wo_seen = [], wo_log = [] \<rparr> :: (fork_moment, fork_event) world"
  have "\<exists>r w'. run_candidates fc (\<lambda>_ _. returns True) ?w = Some (r, w')"
    by (rule ends_run_candidates) (use assms in \<open>auto simp: clock_forward_def late_moments_def\<close>)
  then show ?thesis
    by (auto simp: branch_run_def Let_def raises_def)
qed

lemma branch_done_in_time:
  assumes track: "on_track t0 (xs @ ys) w" and passed: "length xs \<le> length (wo_seen w)"
    and timeout: "0 < fc_overall_timeout fc"
    and enough: "5 * length (fc_candidates fc) + 5 \<le>
      length (filter (late (mo_clock (hd (branch_moments xs)) + fc_overall_timeout fc)) (branch_moments xs))"
  shows "branch_done fc w"
proof -
  let ?S = "branch_moments (xs @ ys)" and ?P = "branch_moments (wo_seen w)"
  obtain more where more: "wo_seen w = xs @ more"
    using track passed by (auto simp: on_track_def append_eq_append_conv2)
  have prefix: "?S = ?P @ branch_moments (wo_later w)"
    using track by (metis branch_moments_simps(3) on_track_def)
  obtain b P where P: "?P = b # P" "hd (branch_moments xs) = b"
    using enough more by (cases "branch_moments xs") auto
  let ?late = "late (mo_clock b + fc_overall_timeout fc)"
  have count: "5 * length (fc_candidates fc) + 5 \<le> length (filter ?late ?P)"
    using enough more P(2) by simp
  have sorted: "sorted (map mo_clock ?P)"
    using track branch_sorted [of "xs @ ys"] unfolding on_track_def prefix by (simp add: sorted_append)
  have b: "\<not> ?late b"
    using timeout by (simp add: late_def)
  show ?thesis
  proof (cases "branch_script w = ?P")
    case True
    then show ?thesis
      using branch_run_done [of b P fc] sorted count b P
      by (simp add: branch_done_def branch_result_def branch_script_def branch_moments_def)
  next
    case False
    then obtain n m where cut: "Cancelled_Branch n m \<in> set (wo_log w)" "branch_script w = take n ?P @ m # drop n ?P"
      using delivered_cases [of "wo_log w" ?P] by (auto simp: branch_script_def branch_moments_def)
    then have fits: "mo_cancelled m" "n \<le> length ?P" "sorted (map mo_clock (take n ?S @ m # drop n ?S))"
      using track by (auto simp: on_track_def cut_fits_def)
    show ?thesis
    proof (cases n)
      case 0
      then show ?thesis
        using cut fits(1) by (simp add: branch_done_def branch_result_def branch_run_def Let_def raises_def)
    next
      case (Suc n')
      have "take n ?S = take n ?P" "drop n ?S = drop n ?P @ branch_moments (wo_later w)"
        unfolding prefix using fits(2) by simp_all
      then have "sorted (map mo_clock (take n ?P @ m # drop n ?P))"
        using fits(3) by (simp add: sorted_append)
      then have "sorted (map mo_clock (b # take n' P @ m # drop n' P))"
        using P Suc by simp
      moreover have "filter ?late ?P = filter ?late (take n' P) @ filter ?late (drop n' P)"
        using P b by (simp flip: filter_append)
      then have "5 * length (fc_candidates fc) + 5 \<le> length (filter ?late (take n' P @ m # drop n' P))"
        using count by simp
      ultimately have "branch_run fc (b # take n' P @ m # drop n' P) \<noteq> None"
        by (rule branch_run_done)
      then show ?thesis
        using cut(2) P Suc by (simp add: branch_done_def branch_result_def)
    qed
  qed
qed

section \<open>The controlling task\<close>

text \<open>The moments that count for the controlling task: late and settled, and behind those by which the branches
  are done.\<close>

definition control_counts ::
  "int \<Rightarrow> branch_moment list \<Rightarrow> control_world \<Rightarrow> branch_moment list \<Rightarrow> bool" where
  "control_counts d xs w ms \<longleftrightarrow>
     ms \<noteq> [] \<and> length xs < length (wo_seen w) + length ms \<and> late d (last ms) \<and> (\<exists>rest. wo_later w = ms @ rest)"

definition control_left :: "int \<Rightarrow> branch_moment list \<Rightarrow> control_world \<Rightarrow> nat" where
  "control_left d xs w = length (filter (late d) (drop (length xs - length (wo_seen w)) (wo_later w)))"

lemma on_track_waited:
  assumes "on_track t0 S w" "wo_later w = pre @ m # ms"
  shows "on_track t0 S (waited pre m ms w) \<and> mo_clock (wo_now w) \<le> mo_clock m"
proof -
  have S: "(wo_seen w @ pre @ [m]) @ ms = S" "sorted (t0 # clock_readings S)"
    and clock: "mo_clock (wo_now w) = last (t0 # map mo_clock (wo_seen w))"
    using assms by (auto simp: on_track_def)
  have "sorted ((t0 # clock_readings (wo_seen w @ pre @ [m])) @ clock_readings ms)"
    using S(2) unfolding S(1) [symmetric] by simp
  then have "sorted (t0 # clock_readings (wo_seen w @ pre @ [m]))"
    unfolding sorted_append by blast
  moreover have "last (t0 # map mo_clock (wo_seen w)) \<in> set (t0 # clock_readings (wo_seen w @ pre @ [m]))"
    using readings_of_control [of "wo_seen w"] last_in_set [of "t0 # map mo_clock (wo_seen w)"] by auto
  ultimately have "last (t0 # map mo_clock (wo_seen w)) \<le> last (t0 # map mo_clock (wo_seen w @ pre @ [m]))"
    by (rule readings_end)
  moreover have "cut_fits S (wo_seen w @ pre @ [m]) n m'" if "cut_fits S (wo_seen w) n m'" for n m'
    using that by (auto simp: cut_fits_def)
  ultimately show ?thesis
    using assms clock by (auto simp: on_track_def)
qed

lemma prefix_beyond: "k < length zs \<Longrightarrow> take k zs @ us @ vs = zs \<Longrightarrow> \<exists>pre. zs = pre @ vs \<and> k \<le> length pre"
  by (rule exI [of _ "take k zs @ us"]) simp

interpretation control: script_measure "on_track t0 S" "control_left d xs" d "control_counts d xs" uncut for t0 S d xs
proof
  fix w :: control_world and m and pre ms
  assume w: "on_track t0 S w" "wo_later w = pre @ m # ms"
  then show "on_track t0 S (waited pre m ms w) \<and> mo_clock (wo_now w) \<le> mo_clock m"
    by (rule on_track_waited)
  let ?k = "length xs - length (wo_seen w)"
  assume quiet: "\<And>us x vs. pre = us @ x # vs \<Longrightarrow> \<not> control_counts d xs w (us @ [x])"
  show "control_left d xs w \<le> control_left d xs (waited pre m ms w) + 1 \<and>
      control_left d xs (waited pre m ms w) \<le> control_left d xs w \<and>
      (mo_clock m < d \<longrightarrow> control_left d xs (waited pre m ms w) = control_left d xs w)"
  proof (cases "?k \<le> length pre")
    case True
    have "\<not> late d x" if x: "x \<in> set (drop ?k pre)" for x
    proof -
      obtain us vs where split: "drop ?k pre = us @ x # vs"
        using split_list [OF x] by blast
      then have pre: "pre = (take ?k pre @ us) @ x # vs"
        by (metis append.assoc append_take_drop_id)
      have "length xs < length (wo_seen w) + length ((take ?k pre @ us) @ [x])"
        using True by simp
      moreover have "wo_later w = ((take ?k pre @ us) @ [x]) @ vs @ m # ms"
        using w(2) pre by (metis append.assoc append_Cons append_Nil)
      ultimately show ?thesis
        using quiet [OF pre] by (auto simp: control_counts_def)
    qed
    then have "filter (late d) (drop ?k pre) = []"
      by (simp add: filter_empty_conv)
    then show ?thesis
      using w(2) True by (auto simp: control_left_def late_def)
  next
    case False
    then have "drop ?k (wo_later w) = drop (?k - Suc (length pre)) ms"
      using w(2) by (simp add: drop_Cons' not_le)
    then show ?thesis
      by (simp add: control_left_def diff_diff_left add.commute)
  qed
next
  fix w :: control_world
  let ?k = "length xs - length (wo_seen w)"
  assume "1 \<le> control_left d xs w"
  then obtain m where "m \<in> set (drop ?k (wo_later w))" "late d m"
    by (auto simp: control_left_def Suc_le_eq filter_empty_conv)
  then obtain us ms where us: "drop ?k (wo_later w) = us @ m # ms"
    by (meson split_list)
  have "?k < length (wo_later w)"
    using us by (metis append_is_Nil_conv drop_eq_Nil2 list.discI not_le)
  moreover have "take ?k (wo_later w) @ us @ m # ms = wo_later w"
    by (simp flip: us)
  ultimately obtain pre where pre: "wo_later w = pre @ m # ms" "?k \<le> length pre"
    using prefix_beyond [of ?k "wo_later w" us "m # ms"] by blast
  then have "control_counts d xs w (pre @ [m])"
    using \<open>late d m\<close> by (auto simp: control_counts_def)
  then show "\<exists>pre m ms. wo_later w = pre @ m # ms \<and> control_counts d xs w (pre @ [m])"
    using pre(1) by blast
next
  fix w :: control_world and evs
  assume "on_track t0 S w" "uncut evs"
  then show "on_track t0 S (w\<lparr> wo_log := wo_log w @ evs \<rparr>)"
    by (auto simp: on_track_def uncut_def)
qed (simp add: control_left_def)

definition branches_end :: "fork_controller \<Rightarrow> branch_moment list \<Rightarrow> bool" where
  "branches_end fc xs \<longleftrightarrow>
     0 < fc_overall_timeout fc \<and>
     5 * length (fc_candidates fc) + 5 \<le>
       length (filter (late (mo_clock (hd (branch_moments xs)) + fc_overall_timeout fc)) (branch_moments xs))"

lemma branches_done:
  "branches_end fc xs \<Longrightarrow> on_track t0 (xs @ ys) w \<Longrightarrow> length xs \<le> length (wo_seen w) \<Longrightarrow> branch_done fc w"
  by (rule branch_done_in_time) (auto simp: branches_end_def)

lemma branches_done_after:
  assumes "branches_end fc xs" "on_track t0 (xs @ ys) w" "control_counts d xs w ms"
  shows "branch_done_after fc w ms"
proof -
  obtain pre m rest where ms: "ms = pre @ [m]" "wo_later w = pre @ m # rest"
    using assms(3) by (cases ms rule: rev_cases) (auto simp: control_counts_def)
  have "on_track t0 (xs @ ys) (waited pre m rest w)"
    using on_track_waited [OF assms(2) ms(2)] by simp
  then have "branch_done fc (waited pre m rest w)"
    by (rule branches_done [OF assms(1)]) (use assms(3) ms(1) in \<open>simp add: control_counts_def\<close>)
  then show ?thesis
    using done_after ms(1) by blast
qed

abbreviation control_ends ::
  "int \<Rightarrow> branch_moment list \<Rightarrow> branch_moment list \<Rightarrow> int \<Rightarrow> nat \<Rightarrow> 'a control_fork \<Rightarrow> bool" where
  "control_ends t0 xs ys d \<equiv> ends_in (on_track t0 (xs @ ys)) (control_left d xs) d"

abbreviation control_ends_at ::
  "int \<Rightarrow> branch_moment list \<Rightarrow> branch_moment list \<Rightarrow> int \<Rightarrow> nat \<Rightarrow> 'a control_fork \<Rightarrow> control_world \<Rightarrow> bool" where
  "control_ends_at t0 xs ys d \<equiv> ends_at (on_track t0 (xs @ ys)) (control_left d xs) d"

lemma control_ends_settled [intro]: "1 \<le> k \<Longrightarrow> control_ends t0 xs ys d k join_settled"
  unfolding join_settled_def by (rule control.ends_join) (simp_all add: control_counts_def late_def)

lemma control_ends_close [intro]: "1 \<le> k \<Longrightarrow> control_ends t0 xs ys d k (close_candidates cs mode)"
  unfolding close_candidates_def Let_def
  by (intro control.ends_if control.ends_and_then [where i = 0 and j = 1] control.ends_and_then [where i = 1 and j = 0]) auto

lemma control_ends_commit: "control_ends t0 xs ys d 0 (commit_by accepts c oc)"
  unfolding commit_by_def by (intro control.ends_and_then [where i = 0 and j = 0]) auto

lemma control_ends_cancel_branch: "control_ends t0 xs ys d k (cancel_branch fc)"
  unfolding ends_in_def ends_at_def
proof (intro allI impI)
  fix w :: control_world
  let ?m = "moment.truncate (wo_now w) \<lparr> mo_settled := False, mo_cancelled := True \<rparr>"
  let ?n = "length (branch_moments (wo_seen w))"
  let ?S = "xs @ ys"
  assume track: "on_track t0 ?S w"
  then have S: "wo_seen w @ wo_later w = ?S" and sorted: "sorted ((t0 # clock_readings (wo_seen w)) @ clock_readings (wo_later w))"
    and clock: "mo_clock (wo_now w) = last (t0 # map mo_clock (wo_seen w))"
    by (auto simp: on_track_def simp flip: readings_simps(3))
  have past: "sorted (t0 # clock_readings (wo_seen w))" and future: "sorted (clock_readings (wo_later w))"
    and order: "\<And>x y. x \<in> set (t0 # clock_readings (wo_seen w)) \<Longrightarrow> y \<in> set (clock_readings (wo_later w)) \<Longrightarrow> x \<le> y"
    using sorted unfolding sorted_append by auto
  have "last (t0 # map mo_clock (wo_seen w)) \<in> set (t0 # clock_readings (wo_seen w))"
    using readings_of_control [of "wo_seen w"] last_in_set [of "t0 # map mo_clock (wo_seen w)"] by auto
  then have after': "mo_clock (wo_now w) \<le> mo_clock y" if "y \<in> set (branch_moments (wo_later w))" for y
    using order clock that readings_of_branch [of "wo_later w"] by auto
  have before': "mo_clock x \<le> mo_clock (wo_now w)" if "x \<in> set (branch_moments (wo_seen w))" for x
    using readings_end [OF past, of "mo_clock x"] clock that readings_of_branch [of "wo_seen w"] by auto
  have "sorted (clock_readings (wo_seen w))"
    using past by simp
  note parts = branch_sorted [OF this] branch_sorted [OF future]
  have all: "branch_moments ?S = branch_moments (wo_seen w) @ branch_moments (wo_later w)"
    using S by (metis branch_moments_simps(3))
  have "mo_clock ?m = mo_clock (wo_now w)"
    by (simp add: moment.defs)
  then have "sorted (map mo_clock (branch_moments (wo_seen w) @ ?m # branch_moments (wo_later w)))"
    using parts after' before' order_trans [OF before' after'] by (auto simp: sorted_append)
  then have "cut_fits ?S (wo_seen w) ?n ?m"
    unfolding cut_fits_def all by simp
  then have "on_track t0 ?S (w\<lparr> wo_log := wo_log w @ [Cancelled_Branch ?n ?m] \<rparr>)"
    using track by (auto simp: on_track_def)
  then show "\<exists>r w'. cancel_branch fc w = Some (r, w') \<and> on_the_way (on_track t0 ?S) (control_left d xs) d k w w'"
    using track control.way_refl [OF track]
    by (auto simp: cancel_branch_def returns_def emit_def on_the_way_def control.log_left branch_moments_def)
qed

lemma control_ends_gather_branch:
  assumes "branches_end fc xs"
  shows "control_ends_at t0 xs ys d 1 (gather_branch fc) w"
proof -
  have "control_ends_at t0 xs ys d (1 + 0) (and_then (join_when (branch_done_after fc w)) (\<lambda>_. returns ())) w"
  proof (rule control.ends_at_and_then)
    show "control_ends_at t0 xs ys d 1 (join_when (branch_done_after fc w)) w"
      by (rule control.ends_at_join) (rule branches_done_after [OF assms])
  qed (rule control.ends_here, rule control.ends_basic)
  then show ?thesis
    by (simp add: ends_at_def gather_branch_def)
qed

lemma control_ends_task_result: "branch_done fc w \<Longrightarrow> control_ends_at t0 xs ys d k (task_result fc) w"
  by (auto simp: ends_at_def branch_done_def task_result_def raises_def returns_def intro: control.way_refl split: sum.split)

lemma control_ends_withdraw:
  assumes "branches_end fc xs"
  shows "control_ends_at t0 xs ys d 1 (withdraw_branch fc) w"
proof (cases "branch_done fc w")
  case True
  let ?act = "and_then (task_result fc) (\<lambda>res. case fr_winner res of
    Some c \<Rightarrow> close_candidates [c] BYE | None \<Rightarrow> returns ())"
  have "control_ends_at t0 xs ys d (0 + 1) ?act w"
    by (rule control.ends_at_and_then)
      (auto simp del: One_nat_def intro: control_ends_task_result [OF True] control.ends_here split: option.split)
  then show ?thesis
    using True by (simp add: ends_at_def withdraw_branch_def)
next
  case False
  have "control_ends_at t0 xs ys d (0 + 1) (and_then (cancel_branch fc) (\<lambda>_. gather_branch fc)) w"
    by (rule control.ends_at_and_then)
      (auto simp del: One_nat_def intro: control.ends_here control_ends_cancel_branch control_ends_gather_branch [OF assms])
  then show ?thesis
    using False by (simp add: ends_at_def withdraw_branch_def)
qed

lemma control_ends_await_branch:
  assumes "branches_end fc xs"
  shows "control_ends_at t0 xs ys d 2 (await_branch fc) w"
proof (cases "branch_done fc w")
  case True
  then show ?thesis
    using control_ends_task_result [OF True] by (simp add: ends_at_def await_branch_def)
next
  case False
  let ?over = "branch_done_after fc w"
  have "control_ends_at t0 xs ys d (1 + 0) (and_then (await_until ?over) (\<lambda>_. task_result fc)) w"
  proof (rule control.ends_at_and_then_when)
    show "control_ends_at t0 xs ys d 1 (await_until ?over) w"
      by (rule control.ends_at_await) (rule branches_done_after [OF assms])
    show "ensures (await_until ?over) (\<lambda>r w'. \<forall>x. r = Inr x \<longrightarrow> branch_done fc w') w"
      by (auto simp: ensuring intro!: iffD1 [OF done_after] dest!: wait_fromD)
  qed (auto intro: control_ends_task_result)
  moreover have "control_ends_at t0 xs ys d 1
      (\<lambda>w'. if branch_done fc w' then returns () w' else and_then (cancel_branch fc) (\<lambda>_. gather_branch fc) w') w'" for w'
  proof (cases "branch_done fc w'")
    case True
    then show ?thesis
      by (auto simp: ends_at_def returns_def intro: control.way_refl)
  next
    case False
    have "control_ends_at t0 xs ys d (0 + 1) (and_then (cancel_branch fc) (\<lambda>_. gather_branch fc)) w'"
      by (rule control.ends_at_and_then)
        (auto simp del: One_nat_def intro: control.ends_here control_ends_cancel_branch control_ends_gather_branch [OF assms])
    then show ?thesis
      using False by (simp add: ends_at_def)
  qed
  ultimately have "control_ends_at t0 xs ys d (1 + 0 + 1)
      (on_cancel (and_then (await_until ?over) (\<lambda>_. task_result fc))
        (\<lambda>w'. if branch_done fc w' then returns () w' else and_then (cancel_branch fc) (\<lambda>_. gather_branch fc) w')) w"
    by (rule control.ends_at_on_cancel)
  then show ?thesis
    using False by (simp add: ends_at_def await_branch_def numeral_2_eq_2)
qed

lemma control_ends_rounds: "control_ends_at t0 xs ys d 1 (control_rounds fc d pending) w"
proof (induction "length (wo_later w)" arbitrary: pending w rule: less_induct)
  case less
  let ?way = "on_the_way (on_track t0 (xs @ ys)) (control_left d xs) d 1"
  show ?case
    unfolding ends_at_def
  proof (intro impI)
    assume w: "on_track t0 (xs @ ys) w" "1 \<le> control_left d xs w"
    have here: "?way w w"
      using w by (simp add: control.way_refl)
    let ?over = "\<lambda>ms. list_ex (has_ended (last ms)) pending \<or> branch_done_after fc w ms \<or>
      timed_out (mo_clock (wo_now w) + max 0 (d - mo_clock (wo_now w))) ms"
    show "\<exists>r w'. control_rounds fc d pending w = Some (r, w') \<and> ?way w w'"
    proof (cases "mo_clock (wo_now w) < d")
      case False
      then show ?thesis
        using here by (subst control_rounds.simps) (auto simp: Let_def returns_def)
    next
      case True
      then have "control_ends_at t0 xs ys d 1 (await_until ?over) w"
        by (intro control.ends_at_await) (simp add: control_counts_def late_def timed_out_def)
      then obtain r1 w1 where wait: "await_until ?over w = Some (r1, w1)" "?way w w1"
        using w unfolding ends_at_def by blast
      have "\<exists>r w'. control_rounds fc d pending' w1 = Some (r, w') \<and> ?way w w'" for pending'
      proof (cases "mo_clock (wo_now w1) < d")
        case True
        then have same: "on_track t0 (xs @ ys) w1" "control_left d xs w1 = control_left d xs w"
          using wait(2) by (auto simp: on_the_way_def)
        have "length (wo_later w1) < length (wo_later w)"
          using wait(1) by (rule waits_shorten)
        from less.hyps [OF this, of pending'] same w
        obtain r w' where "control_rounds fc d pending' w1 = Some (r, w')" "?way w1 w'"
          unfolding ends_at_def by auto
        moreover from this have "?way w w'"
          using wait(2) same by (auto simp: on_the_way_def)
        ultimately show ?thesis
          by blast
      next
        case False
        then show ?thesis
          using wait(2) by (subst control_rounds.simps) (auto simp: Let_def returns_def)
      qed
      then show ?thesis
        using here wait
        by (subst control_rounds.simps) (auto simp: Let_def returns_def split: option.split sum.split)
    qed
  qed
qed

lemma control_ends_after_controls:
  assumes "branches_end fc xs"
  shows "control_ends t0 xs ys d 4 (after_controls fc' fc controls (commit_by accepts) control)"
proof -
  have abandon: "control_ends t0 xs ys d 1 (abandon_winner c att)" for c att
    unfolding abandon_winner_def by (rule control.ends_and_then [where i = 1 and j = 0]) auto
  have decide: "control_ends t0 xs ys d 1 (and_then (commit_by accepts c oc)
      (\<lambda>accepted. if accepted then returns res else abandon_winner c att))" for c oc res att
    by (rule control.ends_and_then [where i = 0 and j = 1]) (auto simp del: One_nat_def intro: control_ends_commit abandon)
  have close: "control_ends t0 xs ys d 2 (and_then (close_candidates controls CLOSE) (\<lambda>_. k))"
    if "control_ends t0 xs ys d 1 k" for k :: "fork_result control_fork"
    by (rule control.ends_and_then [where i = 1 and j = 1]) (use that in auto)
  have withdraw: "control_ends t0 xs ys d 1 (withdraw_branch fc)" and await': "control_ends t0 xs ys d 2 (await_branch fc)"
    using control_ends_withdraw [OF assms] control_ends_await_branch [OF assms] by (simp_all add: ends_in_def)
  show ?thesis
  proof (cases control)
    case None
    have "control_ends t0 xs ys d 4 (and_then (await_branch fc) (\<lambda>res.
          and_then (close_candidates controls CLOSE) (\<lambda>_.
          case fr_winner res of
            None \<Rightarrow> returns res
          | Some c \<Rightarrow>
              and_then (commit_by accepts c (fr_outcome res)) (\<lambda>accepted.
                if accepted then returns res
                else abandon_winner c (fr_attempted res)))))"
      by (rule control.ends_and_then [where i = 2 and j = 2, OF await'])
        (auto simp del: One_nat_def intro!: close decide split: option.split)
    then show ?thesis
      using None by (simp add: after_controls_def)
  next
    case (Some oc)
    have "control_ends t0 xs ys d 4 (and_then (withdraw_branch fc) (\<lambda>_.
          and_then (close_candidates controls CLOSE) (\<lambda>_. returns (no_winner oc (map dc_id (fc_candidates fc'))))))"
      by (rule control.ends_and_then [where i = 1 and j = 2, OF withdraw]) (auto simp del: One_nat_def intro!: close)
    then show ?thesis
      using Some by (simp add: after_controls_def)
  qed
qed

lemma control_ends_abort:
  assumes "branches_end fc xs"
  shows "control_ends t0 xs ys d 2 (abort_controls fc controls pending)"
proof -
  have "control_ends_at t0 xs ys d 1 (\<lambda>w. join_when (\<lambda>ms. branch_done_after fc w ms \<and> mo_settled (last ms)) w) w" for w
  proof -
    have "control_ends_at t0 xs ys d 1 (join_when (\<lambda>ms. branch_done_after fc w ms \<and> mo_settled (last ms))) w"
      by (rule control.ends_at_join) (auto simp: control_counts_def late_def intro: branches_done_after [OF assms])
    then show ?thesis
      by (simp add: ends_at_def)
  qed
  then have "control_ends t0 xs ys d 1 (\<lambda>w. join_when (\<lambda>ms. branch_done_after fc w ms \<and> mo_settled (last ms)) w)"
    unfolding ends_in_def by blast
  then show ?thesis
    unfolding abort_controls_def
    by (intro control.ends_and_then [where i = 0 and j = 2] control.ends_and_then [where i = 0 and j = 2 and n = 2]
        control.ends_and_then [where i = 1 and j = 1 and n = 2])
      (auto simp del: One_nat_def intro: control_ends_cancel_branch)
qed

lemma control_ends_gather: "control_ends t0 xs ys d 1 (gather_controls pending)"
  unfolding gather_controls_def
  by (intro control.ends_and_then [where i = 0 and j = 1] control.ends_if control.ends_and_then [where i = 1 and j = 0]) auto

lemma ends_run_fork:
  fixes w :: control_world
  assumes "wo_seen w = []" "wo_log w = []" "wo_later w = xs @ ys"
    and "sorted (mo_clock (wo_now w) # clock_readings (wo_later w))"
    and "branches_end (branch_controller fc) xs"
    and "filter dc_control (fc_candidates fc) \<noteq> []" "fc_candidates (branch_controller fc) \<noteq> []"
    and "8 \<le> length (filter (late (mo_clock (wo_now w) + fc_overall_timeout fc)) ys)"
  shows "\<exists>r w'. run_fork fc (commit_by accepts) w = Some (r, w')"
proof -
  let ?t = "mo_clock (wo_now w)" and ?bfc = "branch_controller fc" and ?controls = "filter dc_control (fc_candidates fc)"
  let ?d = "?t + fc_overall_timeout fc"
  define w1 where "w1 = w\<lparr> wo_log := map Dialled ?controls \<rparr>"
  have "on_track ?t (xs @ ys) w1"
    using assms(1-4) uncut_simps(4) [of ?controls] by (simp add: on_track_def w1_def uncut_def)
  moreover have "8 \<le> control_left ?d xs w1"
    using assms(1,3,8) by (simp add: control_left_def w1_def)
  moreover have "control_ends_at ?t xs ys ?d (1 + 7) (and_then (control_rounds ?bfc ?d ?controls)
      (\<lambda>(cancelled, control, pending).
            finally_do
              (on_cancel
                 (if cancelled then raises CancelledError
                  else after_controls fc ?bfc ?controls (commit_by accepts) control)
                 (abort_controls ?bfc ?controls pending))
              (gather_controls pending))) w1"
  proof (rule control.ends_at_and_then [OF control_ends_rounds])
    fix x :: "bool \<times> dial_outcome option \<times> dial_candidate list" and w' :: control_world
    obtain cancelled control pending where x: "x = (cancelled, control, pending)"
      by (cases x)
    have "control_ends ?t xs ys ?d 7 (finally_do
              (on_cancel
                 (if cancelled then raises CancelledError
                  else after_controls fc ?bfc ?controls (commit_by accepts) control)
                 (abort_controls ?bfc ?controls pending))
              (gather_controls pending))"
      by (rule control.ends_finally [where i = 6 and j = 1], rule control.ends_on_cancel [where i = 4 and j = 2])
        (auto simp del: One_nat_def intro: control_ends_after_controls control_ends_abort control_ends_gather assms(5))
    then show "control_ends_at ?t xs ys ?d 7 (case x of (cancelled, control, pending) \<Rightarrow>
            finally_do
              (on_cancel
                 (if cancelled then raises CancelledError
                  else after_controls fc ?bfc ?controls (commit_by accepts) control)
                 (abort_controls ?bfc ?controls pending))
              (gather_controls pending)) w'"
      unfolding x by (simp add: ends_in_def)
  qed
  ultimately obtain r w' where "and_then (control_rounds ?bfc ?d ?controls)
      (\<lambda>(cancelled, control, pending).
            finally_do
              (on_cancel
                 (if cancelled then raises CancelledError
                  else after_controls fc ?bfc ?controls (commit_by accepts) control)
                 (abort_controls ?bfc ?controls pending))
              (gather_controls pending)) w1 = Some (r, w')"
    unfolding ends_at_def by auto
  then have "run_fork fc (commit_by accepts) w = Some (r, w')"
    using assms(2,6,7) by (simp add: run_fork_def Let_def and_then_def emit_def now_seen_def w1_def)
  then show ?thesis
    by blast
qed

end
