(* ===== verification/Fork_Spec.thy ===== *)
theory Fork_Spec
  imports Fork_Deadline
begin

text \<open>
  What a fork promises: whatever the legs, the source and the cancellations do, it ends soon after its
  deadline, and all it leaves behind is the winner it reports.
\<close>

lemma new_fork_ok:
  assumes "new_fork session candidates strategy tier_strategies overall step = Inr fc"
  shows "fc_candidates fc = sort_key dial_order candidates \<and> distinct (map dc_id candidates) \<and>
    fork_strategy_of strategy = Inr (fc_strategy fc) \<and> fc_overall_timeout fc = overall \<and> 0 < overall \<and>
    (tier_strategies = [] \<longrightarrow> fc_tier_strategies fc = [])"
proof -
  have "mset (map dc_id (sort_key dial_order candidates)) = mset (map dc_id candidates)"
    by simp
  then have "distinct (map dc_id (sort_key dial_order candidates)) = distinct (map dc_id candidates)"
    by (rule mset_eq_imp_distinct_iff)
  then show ?thesis
    using assms by (auto simp: new_fork_def Let_def bindE_def split: if_splits sum.splits)
qed

lemma legs_left_code [code]:
  "legs_left evs =
     set (filter (\<lambda>c. list_all (\<lambda>mode. Closed_Leg mode c \<notin> set evs) [CANCEL_OR_BYE, BYE, CLOSE]) (dials evs))"
proof -
  have "(\<exists>mode. P mode) \<longleftrightarrow> P CANCEL_OR_BYE \<or> P BYE \<or> P CLOSE" for P
    by (metis leg_close_mode.exhaust)
  then show ?thesis
    by (auto simp: legs_left_def dialled_dials closed_legs_def)
qed

section \<open>A call to exercise it\<close>

definition ex_session :: endpoint_session where
  "ex_session = \<lparr> es_call_id = ''c1'', es_generation = 1, es_phase = P_RINGING, es_terminal_reason = [],
     es_legs = [], es_resources = [], es_tasks = [], es_metadata = [], es_termination_started = False,
     es_terminated = False, es_termination_task = None, es_initiator = None, es_log = [] \<rparr>"

definition ex_leg :: "string \<Rightarrow> int \<Rightarrow> bool \<Rightarrow> dial_candidate" where
  "ex_leg name tier control = \<lparr> dc_id = name, dc_tier = tier, dc_order = 0, dc_endpoint_id = name, dc_control = control \<rparr>"

definition ex_moment :: "int \<Rightarrow> (string \<times> dial_outcome task_end) list \<Rightarrow> bool \<Rightarrow> fork_moment" where
  "ex_moment time ended cancelled =
     \<lparr> mo_session = ex_session, mo_clock = time, mo_ended = ended, mo_settled = True, mo_cancelled = cancelled \<rparr>"

definition ex_control_moment ::
  "int \<Rightarrow> (string \<times> dial_outcome task_end) list \<Rightarrow> bool \<Rightarrow> fork_moment list \<Rightarrow> branch_moment" where
  "ex_control_moment time ended cancelled branch =
     moment.extend (ex_moment time ended cancelled) \<lparr> mo_branch = branch \<rparr>"

definition ex_legs :: "dial_candidate list" where
  "ex_legs = [ex_leg ''b'' 0 False, ex_leg ''a'' 0 False, ex_leg ''w'' 0 True]"

text \<open>The phone \<open>a\<close> answers while \<open>b\<close> rings and a route-control waiter \<open>w\<close> waits.\<close>

definition ex_answer :: "fork_moment list" where
  "ex_answer = [ex_moment 0 [] False,
     ex_moment 3 [(''a'', Ended (DialOutcome D_ANSWERED 200 ''OK''))] False,
     ex_moment 3 [] False, ex_moment 3 [] False, ex_moment 3 [] False, ex_moment 3 [] False]"

definition ex_world :: "branch_moment list \<Rightarrow> control_world" where
  "ex_world ms = \<lparr> wo_now = ex_control_moment 0 [] False [], wo_later = ms, wo_seen = [], wo_log = [] \<rparr>"

definition ex_fork :: fork_controller where
  "ex_fork = \<lparr> fc_token = token ex_session, fc_candidates = sort_key dial_order ex_legs, fc_strategy = PARALLEL,
     fc_tier_strategies = [], fc_overall_timeout = 30, fc_step_timeout = 15 \<rparr>"

lemma ex_new_fork: "new_fork ex_session ex_legs ''parallel'' [] 30 15 = Inr ex_fork"
  by code_simp

definition ex_script :: "branch_moment list" where
  "ex_script = [ex_control_moment 3 [] False ex_answer, ex_control_moment 4 [] False [], ex_control_moment 5 [] False []]"

lemma ex_run:
  "map_option fst (run_fork ex_fork (commit_by (\<lambda>s _ _. live s)) (ex_world ex_script)) =
     Some (Inr \<lparr> fr_outcome = DialOutcome D_ANSWERED 200 ''OK'', fr_winner = Some (ex_leg ''a'' 0 False),
       fr_attempted = [''a'', ''b''] \<rparr>)"
  by code_simp

text \<open>The one case in which the fork itself leaves a leg behind without reporting it: it is cancelled while
  it closes the waiters of a fork that has a winner.  The only caller closes every attempt it made when it is
  cancelled.\<close>

lemma cancelled_fork_leaves_its_winner:
  "(case run_fork ex_fork (commit_by (\<lambda>s _ _. live s)) (ex_world
       [ex_control_moment 3 [] False ex_answer, ex_control_moment 4 [] True [], ex_control_moment 4 [] False [],
        ex_control_moment 4 [] False [], ex_control_moment 5 [] False []]) of
      Some (Inl CancelledError, w) \<Rightarrow> legs_left (fork_calls ex_fork w) = {ex_leg ''a'' 0 False}
    | _ \<Rightarrow> False)"
  by code_simp

section \<open>The promises\<close>

text \<open>C6: When a fork returns a result, the only leg that it dialled and has not closed is the winner of the
  result, and there is none without a winner.  This holds for any number of legs in parallel and sequential
  tiers, with or without route-control waiters, whatever order the legs end in, whatever the source does
  meanwhile, and also when the task of the branches was cancelled.  The winner is one of the candidates, its dial was
  answered, and the caller's callback accepted it.\<close>

theorem fork_leaves_only_its_winner:
  assumes "new_fork session candidates strategy tier_strategies overall step = Inr fc"
    and "wo_log w = []" "run_fork fc (commit_by accepts) w = Some (Inr res, w')"
  shows "legs_left (fork_calls fc w') = set_option (fr_winner res) \<and>
    (\<forall>c. fr_winner res = Some c \<longrightarrow>
       c \<in> set candidates \<and> answered (fr_outcome res) \<and> (\<exists>s. accepts s c (fr_outcome res)))"
proof -
  have fc: "fc_candidates fc = sort_key dial_order candidates" "distinct (map dc_id candidates)"
    using new_fork_ok [OF assms(1)] by auto
  then have "distinct (fc_candidates fc)"
    by (simp add: distinct_map)
  from ensuresD [OF ensures_run_fork [OF this assms(2)] assms(3)]
  show ?thesis
    using fc(1) by (auto simp: one_winner_def)
qed

theorem fork_leaves_only_its_winner_witness:
  "\<exists>w'. run_fork ex_fork (commit_by (\<lambda>s _ _. live s)) (ex_world ex_script) =
     Some (Inr \<lparr> fr_outcome = DialOutcome D_ANSWERED 200 ''OK'', fr_winner = Some (ex_leg ''a'' 0 False),
       fr_attempted = [''a'', ''b''] \<rparr>, w') \<and>
     legs_left (fork_calls ex_fork w') = {ex_leg ''a'' 0 False}"
proof -
  obtain w' where run: "run_fork ex_fork (commit_by (\<lambda>s _ _. live s)) (ex_world ex_script) =
     Some (Inr \<lparr> fr_outcome = DialOutcome D_ANSWERED 200 ''OK'', fr_winner = Some (ex_leg ''a'' 0 False),
       fr_attempted = [''a'', ''b''] \<rparr>, w')"
    using ex_run by (auto simp: map_option_eq_Some)
  have "wo_log (ex_world ex_script) = []"
    by (simp add: ex_world_def)
  from fork_leaves_only_its_winner [OF ex_new_fork this run] run show ?thesis
    by simp
qed

text \<open>C7: A fork that rings in turn dials its candidates in the order of their tiers, positions and identifiers,
  and each only when every leg it dialled before is closed: never two phones at once.\<close>

theorem sequential_fork_rings_one_at_a_time:
  assumes "new_fork session candidates ''sequential'' [] overall step = Inr fc"
    and "wo_log w = []" "run_candidates fc (commit_by accepts) w = Some (r, w')"
  shows "rings_in_turn (wo_log w') \<and> sorted (map dial_order (dials (wo_log w')))"
proof -
  have "fc_candidates fc = sort_key dial_order candidates" "fc_strategy fc = SEQUENTIAL" "fc_tier_strategies fc = []"
    using new_fork_ok [OF assms(1)] by (auto simp: fork_strategy_of_def)
  then have "turns_end fc [] w'"
    using ensuresD [OF ensures_run_in_turn [of fc w accepts] assms(3)] assms(2) by simp
  then show ?thesis
    by (simp add: turns_end_def)
qed

definition ex_hunt :: fork_controller where
  "ex_hunt = ex_fork\<lparr> fc_strategy := SEQUENTIAL, fc_candidates := [ex_leg ''a'' 0 False, ex_leg ''b'' 1 False] \<rparr>"

definition ex_hunt_world :: "(fork_moment, fork_event) world" where
  "ex_hunt_world = \<lparr> wo_now = ex_moment 0 [] False,
     wo_later = [ex_moment 15 [] False, ex_moment 15 [] False, ex_moment 15 [] False, ex_moment 15 [] False,
       ex_moment 20 [(''b'', Ended (DialOutcome D_ANSWERED 200 ''OK''))] False,
       ex_moment 20 [] False, ex_moment 20 [] False, ex_moment 20 [] False], wo_seen = [], wo_log = [] \<rparr>"

theorem sequential_fork_rings_one_at_a_time_witness:
  "case run_candidates ex_hunt (commit_by (\<lambda>s _ _. live s)) ex_hunt_world of
     Some (r, w') \<Rightarrow> rings_in_turn (wo_log w') \<and> dials (wo_log w') = [ex_leg ''a'' 0 False, ex_leg ''b'' 1 False]
   | None \<Rightarrow> False"
proof -
  have new: "new_fork ex_session [ex_leg ''b'' 1 False, ex_leg ''a'' 0 False] ''sequential'' [] 30 15 = Inr ex_hunt"
    by code_simp
  have "map_option (dials \<circ> wo_log \<circ> snd) (run_candidates ex_hunt (commit_by (\<lambda>s _ _. live s)) ex_hunt_world) =
      Some [ex_leg ''a'' 0 False, ex_leg ''b'' 1 False]"
    by code_simp
  then obtain r w' where run: "run_candidates ex_hunt (commit_by (\<lambda>s _ _. live s)) ex_hunt_world = Some (r, w')"
      "dials (wo_log w') = [ex_leg ''a'' 0 False, ex_leg ''b'' 1 False]"
    by auto
  have "wo_log ex_hunt_world = []"
    by (simp add: ex_hunt_world_def)
  from sequential_fork_rings_one_at_a_time [OF new this run(1)] run show ?thesis
    by simp
qed

text \<open>In turn, a leg that does not end holds the fork for the step timeout, or what is left of the whole: then it is
  asked to stop and closed.\<close>

lemma silent_leg_is_given_up:
  assumes "wo_later w = pre @ m # ms" "list_all (\<lambda>x. \<not> mo_cancelled x \<and> \<not> has_ended x c) (pre @ [m])"
    and "list_all (\<lambda>x. mo_clock x < limit) pre" "limit \<le> mo_clock m"
  shows "ensures (wait_for_dial c limit) (\<lambda>_ w'. wo_log w' = wo_log w @ [Stop_Unfinished [c]]) w"
proof -
  let ?over = "\<lambda>ms. mo_cancelled (last ms) \<or> has_ended (last ms) c \<or> timed_out limit ms"
  have "wait_from ?over us (pre @ m # ms) = Some (us @ pre, m, ms)" for us
    using assms(2-4) by (induction pre arbitrary: us) (auto simp: timed_out_def)
  then show ?thesis
    using assms(1,2) by (auto simp: wait_for_dial_def ensuring has_ended_def)
qed

text \<open>C8: A fork comes to an end soon after its deadline, even when none of its legs ever ends.  The clock goes
  forward over the moments of the fork and those of the task of its branches.  From some point on (\<open>ys\<close>) the fork
  sees as many moments past its deadline as it can still have waits to make, at each of which what it has asked to stop or
  to close has done so; if there are waiters and branches, the task of the branches has by then (\<open>xs\<close>) seen
  enough such moments past its own.  Then the fork has returned or raised, whatever the legs, the source and the
  cancellations did, however many moments came before and whatever was not settled at them.\<close>

theorem fork_ends_after_its_deadline:
  assumes "new_fork session candidates strategy tier_strategies overall step = Inr fc"
    and "wo_seen w = []" "wo_log w = []" "wo_later w = xs @ ys"
    and "sorted (mo_clock (wo_now w) # clock_readings (wo_later w))"
    and "5 * length candidates + 8 \<le> length (filter (late (mo_clock (wo_now w) + overall)) ys)"
    and "list_ex dc_control candidates \<Longrightarrow> list_ex (\<lambda>c. \<not> dc_control c) candidates \<Longrightarrow>
      5 * length candidates + 5 \<le>
        length (filter (late (mo_clock (hd (branch_moments xs)) + overall)) (branch_moments xs))"
  shows "\<exists>r w'. run_fork fc (commit_by accepts) w = Some (r, w')"
proof -
  have fc: "fc_candidates fc = sort_key dial_order candidates" "fc_overall_timeout fc = overall" "0 < overall"
    using new_fork_ok [OF assms(1)] by auto
  show ?thesis
  proof (cases "filter dc_control (fc_candidates fc) = [] \<or> fc_candidates (branch_controller fc) = []")
    case True
    have "sorted (map mo_clock (wo_now w # wo_later w))"
      using sorted_readings [OF assms(5)] by simp
    moreover have "5 * length candidates + 5 \<le> late_moments (mo_clock (wo_now w) + overall) w"
      using assms(4,6) by (simp add: late_moments_def)
    ultimately have "\<exists>r w'. run_candidates fc (commit_by accepts) w = Some (r, w')"
      using fc by (intro ends_run_candidates) (simp_all add: clock_forward_def ends_commit_by)
    then show ?thesis
      using True by (simp add: run_fork_def Let_def)
  next
    case False
    have both: "list_ex dc_control candidates" "list_ex (\<lambda>c. \<not> dc_control c) candidates"
      using False fc(1) by (auto simp: branch_controller_def filter_empty_conv list_ex_iff)
    have "length (fc_candidates (branch_controller fc)) \<le> length candidates"
      by (simp add: branch_controller_def fc(1) order.trans [OF length_filter_le])
    then have "branches_end (branch_controller fc) xs"
      using assms(7) [OF both] fc(2,3) by (simp add: branches_end_def branch_controller_def)
    then show ?thesis
      using False assms(2-6) fc by (intro ends_run_fork [where xs = xs and ys = ys]) auto
  qed
qed

text \<open>Two phones and a waiter, none of which ever ends.\<close>

definition ex_silent_script :: "branch_moment list" where
  "ex_silent_script = [ex_control_moment 9 [] False [ex_moment 0 [] False, ex_moment 9 [] False],
     ex_control_moment 40 [] False (replicate 20 (ex_moment 40 [] False))]"

theorem fork_ends_after_its_deadline_witness:
  "\<exists>r w'. run_fork ex_fork (commit_by (\<lambda>s _ _. live s))
     (ex_world (ex_silent_script @ replicate 23 (ex_control_moment 41 [] False []))) = Some (r, w')"
proof (rule fork_ends_after_its_deadline [OF ex_new_fork])
  let ?w = "ex_world (ex_silent_script @ replicate 23 (ex_control_moment 41 [] False []))"
  show "wo_seen ?w = []" "wo_log ?w = []" "wo_later ?w = ex_silent_script @ replicate 23 (ex_control_moment 41 [] False [])"
    by (simp_all add: ex_world_def)
  show "sorted (mo_clock (wo_now ?w) # clock_readings (wo_later ?w))"
    by code_simp
  show "5 * length ex_legs + 8 \<le> length (filter (late (mo_clock (wo_now ?w) + 30)) (replicate 23 (ex_control_moment 41 [] False [])))"
    by code_simp
  show "5 * length ex_legs + 5 \<le> length (filter (late (mo_clock (hd (branch_moments ex_silent_script)) + 30))
      (branch_moments ex_silent_script))"
    by code_simp
qed

text \<open>C9: The answer of a route-control waiter never wins a fork that has other legs too.  So a browser phone
  of a ring group, which the runtime makes a waiter, cannot take the call as soon as the group has one SIP
  phone: its answer is taken for no decision, and the SIP phones ring on.\<close>

theorem answer_of_a_waiter_is_ignored:
  assumes "new_fork session candidates strategy tier_strategies overall step = Inr fc"
    and "wo_log w = []" "run_fork fc (commit_by accepts) w = Some (Inr res, w')"
    and "c \<in> set candidates" "\<not> dc_control c" and "fr_winner res = Some waiter"
  shows "\<not> dc_control waiter"
proof -
  have fc: "fc_candidates fc = sort_key dial_order candidates" "distinct (map dc_id candidates)"
    using new_fork_ok [OF assms(1)] by auto
  then have "distinct (fc_candidates fc)"
    by (simp add: distinct_map)
  from ensuresD [OF ensures_run_fork [OF this assms(2)] assms(3)]
  have "dc_control waiter \<longrightarrow> fc_candidates (branch_controller fc) = []"
    using assms(6) by (simp add: one_winner_def)
  then show ?thesis
    using assms(4,5) fc(1) by (auto simp: branch_controller_def filter_empty_conv)
qed

theorem answer_of_a_waiter_is_ignored_witness:
  "\<exists>res w' winner. run_fork ex_fork (commit_by (\<lambda>s _ _. live s)) (ex_world ex_script) = Some (Inr res, w') \<and>
     list_ex dc_control (fc_candidates ex_fork) \<and> fr_winner res = Some winner \<and> \<not> dc_control winner"
proof -
  let ?res = "\<lparr> fr_outcome = DialOutcome D_ANSWERED 200 ''OK'', fr_winner = Some (ex_leg ''a'' 0 False),
       fr_attempted = [''a'', ''b''] \<rparr>"
  obtain w' where run: "run_fork ex_fork (commit_by (\<lambda>s _ _. live s)) (ex_world ex_script) = Some (Inr ?res, w')"
    using ex_run by (auto simp: map_option_eq_Some)
  have start: "wo_log (ex_world ex_script) = []"
    by (simp add: ex_world_def)
  have b: "ex_leg ''b'' 0 False \<in> set ex_legs" "\<not> dc_control (ex_leg ''b'' 0 False)"
    by (simp_all add: ex_legs_def ex_leg_def)
  have "\<not> dc_control (ex_leg ''a'' 0 False)"
    by (rule answer_of_a_waiter_is_ignored [OF ex_new_fork start run b]) simp
  moreover have "list_ex dc_control (fc_candidates ex_fork)"
    by code_simp
  ultimately show ?thesis
    using run by fastforce
qed

text \<open>The browser phone answers after a second, the SIP phone is busy after three: the fork reports busy.\<close>

lemma answered_browser_phone_gets_busy:
  "map_option fst (run_fork (ex_fork\<lparr> fc_candidates := [ex_leg ''browser'' 0 True, ex_leg ''sip'' 0 False] \<rparr>)
     (commit_by (\<lambda>s _ _. live s)) (ex_world
       [ex_control_moment 1 [(''browser'', Ended (DialOutcome D_ANSWERED 0 ''in_call_browser''))] False [ex_moment 0 [] False],
        ex_control_moment 3 [] False [ex_moment 3 [(''sip'', Ended (DialOutcome D_BUSY 0 ''busy''))] False,
          ex_moment 3 [] False, ex_moment 3 [] False, ex_moment 3 [] False],
        ex_control_moment 3 [] False [], ex_control_moment 3 [] False []])) =
   Some (Inr \<lparr> fr_outcome = DialOutcome D_BUSY 486 ''Busy Here'', fr_winner = None, fr_attempted = [''sip''] \<rparr>)"
  by code_simp

text \<open>The failure of a fork does not depend on the order in which its legs failed, nor on how many failed
  alike.\<close>

lemma failures_reduce_in_any_order:
  assumes "set (map do_disposition xs) = set (map do_disposition ys)"
  shows "reduce_failures xs = reduce_failures ys"
proof -
  have all: "list_all P (map do_disposition xs) = list_all P (map do_disposition ys)"
    and ex: "list_ex P (map do_disposition xs) = list_ex P (map do_disposition ys)" for P
    using assms by (simp_all only: list_all_iff list_ex_iff)
  have "xs = [] \<longleftrightarrow> ys = []"
    using assms by auto
  then show ?thesis
    unfolding reduce_failures_def Let_def all ex by simp
qed

end
