(* ===== verification/Dial_Plan.thy ===== *)
theory Dial_Plan
  imports Fork_Spec Sip_Registrar
begin

text \<open>
  \<open>custom_components/voip_stack/dial_plan.py\<close>: who is rung for a logical destination, and in what order.

  The metadata of a roster entry is read for its \<open>sip_contacts\<close> (as the registrar writes them) and for the
  ring policy; a metadata value is a \<open>ring_value\<close>, \<open>float\<close> of a text is a parameter.
\<close>

section \<open>Ring policy\<close>

datatype ring_value =
    PV_None | PV_Text string | PV_Number real | PV_Map "(string \<times> ring_value) list"

type_synonym ring_metadata = "(string \<times> ring_value) list"

fun pv_truthy :: "ring_value \<Rightarrow> bool" where
  "pv_truthy PV_None = False"
| "pv_truthy (PV_Text t) \<longleftrightarrow> t \<noteq> []"
| "pv_truthy (PV_Number x) \<longleftrightarrow> x \<noteq> 0"
| "pv_truthy (PV_Map m) \<longleftrightarrow> m \<noteq> []"

definition pv_get :: "ring_metadata \<Rightarrow> string \<Rightarrow> ring_value" where
  "pv_get m key = (case assoc m key of Some v \<Rightarrow> v | None \<Rightarrow> PV_None)"

definition pv_or :: "ring_value \<Rightarrow> ring_value \<Rightarrow> ring_value" where
  "pv_or a b = (if pv_truthy a then a else b)"

text \<open>\<open>ForkStrategy(str(v))\<close>: only the text of a member of the enumeration is one.\<close>

fun pv_strategy :: "ring_value \<Rightarrow> exn + fork_strategy" where
  "pv_strategy (PV_Text t) = fork_strategy_of t"
| "pv_strategy _ = Inl ValueError"

fun pv_float :: "(string \<Rightarrow> real option) \<Rightarrow> ring_value \<Rightarrow> exn + real" where
  "pv_float read_float (PV_Number x) = Inr x"
| "pv_float read_float (PV_Text t) = (case read_float t of Some x \<Rightarrow> Inr x | None \<Rightarrow> Inl ValueError)"
| "pv_float read_float _ = Inl TypeError"

text \<open>\<open>int(v)\<close>: of a number, towards zero.\<close>

fun pv_int :: "ring_value \<Rightarrow> exn + int" where
  "pv_int (PV_Number x) = Inr (if 0 \<le> x then \<lfloor>x\<rfloor> else \<lceil>x\<rceil>)"
| "pv_int (PV_Text t) = (case py_int t of Some i \<Rightarrow> Inr i | None \<Rightarrow> Inl ValueError)"
| "pv_int _ = Inl TypeError"

text \<open>\<open>dict(v or {})\<close>.\<close>

fun pv_dict :: "ring_value \<Rightarrow> exn + ring_metadata" where
  "pv_dict PV_None = Inr []"
| "pv_dict (PV_Map m) = Inr m"
| "pv_dict (PV_Text t) = (if t = [] then Inr [] else Inl ValueError)"
| "pv_dict (PV_Number x) = (if x = 0 then Inr [] else Inl TypeError)"

record ring_policy =
  rp_strategy :: fork_strategy
  rp_overall_timeout :: real
  rp_step_timeout :: real
  rp_member_tiers :: "(string \<times> int) list"
  rp_tier_strategies :: "(int \<times> fork_strategy) list"

text \<open>A dictionary comprehension: a later key replaces an equal one.\<close>

definition dict_of :: "('k \<times> 'v) list \<Rightarrow> ('k \<times> 'v) list" where
  "dict_of = foldl (\<lambda>m (k, v). md_set m k v) []"

definition ring_policy_from_metadata ::
  "(string \<Rightarrow> real option) \<Rightarrow> ring_metadata \<Rightarrow> exn + ring_policy" where
  "ring_policy_from_metadata read_float metadata =
     (let raw = (case pv_get metadata ''ring_policy'' of
                   PV_Map nested \<Rightarrow> foldl (\<lambda>m (k, v). md_set m k v) metadata nested
                 | _ \<Rightarrow> metadata) in
      bindE (pv_strategy (pv_or (pv_get raw ''strategy'') (pv_or (pv_get raw ''ring_strategy'') (PV_Text ''parallel''))))
        (\<lambda>strategy.
      bindE (pv_float read_float (pv_or (pv_get raw ''overall_timeout'') (pv_or (pv_get raw ''ring_timeout'') (PV_Number 30))))
        (\<lambda>overall_timeout.
      bindE (pv_float read_float (pv_or (pv_get raw ''step_timeout'') (PV_Number 15))) (\<lambda>step_timeout.
      if \<not> (0 < overall_timeout \<and> overall_timeout \<le> 300) then Inl ValueError
      else if \<not> (0 < step_timeout \<and> step_timeout \<le> overall_timeout) then Inl ValueError
      else
        bindE (pv_dict (pv_get raw ''member_tiers'')) (\<lambda>members.
        bindE (mapE (\<lambda>(member, tier). bindE (pv_int tier) (\<lambda>t. Inr (lower (strip member), t))) members) (\<lambda>member_tiers.
        if list_ex (\<lambda>(_, tier). tier < 0) (dict_of member_tiers) then Inl ValueError
        else
          bindE (pv_dict (pv_get raw ''tier_strategies'')) (\<lambda>strategies.
          bindE (mapE (\<lambda>(tier, s). bindE (pv_int (PV_Text tier)) (\<lambda>t. bindE (pv_strategy s) (\<lambda>s'. Inr (t, s'))))
                  strategies) (\<lambda>tier_strategies.
          if list_ex (\<lambda>(tier, _). tier < 0) (dict_of tier_strategies) then Inl ValueError
          else Inr \<lparr> rp_strategy = strategy, rp_overall_timeout = overall_timeout, rp_step_timeout = step_timeout,
                     rp_member_tiers = dict_of member_tiers, rp_tier_strategies = dict_of tier_strategies \<rparr>))))))))"

section \<open>Contacts\<close>

text \<open>\<open>entry.metadata["sip_contacts"]\<close>: absent, no list, or a list in which \<open>None\<close> stands for an
  item that is no mapping.\<close>

datatype contact_list = No_Contacts | Not_A_List | Contacts "sip_contact option list"

type_synonym dial_entry = "roster_entry \<times> contact_list"
type_synonym dial_row = "string \<times> string \<times> real"

record sip_contact_target =
  st_candidate_id :: string
  st_endpoint_id :: string
  st_member :: string
  st_uri :: string
  st_transport :: string
  st_q :: real
  st_tier :: int
  st_order :: nat

text \<open>The first \<open>transport\<close> parameter; \<open>str(None)\<close> for one without a value.\<close>

definition contact_transport :: "sip_uri \<Rightarrow> string" where
  "contact_transport parsed =
     (case find (\<lambda>(key, _). lower key = ''transport'') (uri_params parsed) of
        Some (_, Some value) \<Rightarrow> lower value
      | Some (_, None) \<Rightarrow> ''none''
      | None \<Rightarrow> ''udp'')"

definition contact_row :: "sip_contact option \<Rightarrow> exn + dial_row" where
  "contact_row raw =
     (case raw of
        None \<Rightarrow> Inl ValueError
      | Some c \<Rightarrow>
          let uri = strip (sc_uri c); transport = lower (strip (sc_transport c)); q = sc_q c in
          if uri = [] \<or> \<not> (0 \<le> q \<and> q \<le> 1) then Inl ValueError
          else
            bindE (parse_sip_uri uri) (\<lambda>parsed.
              let transport' = (if transport \<notin> {''udp'', ''tcp''} then contact_transport parsed else transport) in
              if transport' \<notin> {''udp'', ''tcp''} then Inl ValueError
              else bindE (uri_str parsed) (\<lambda>s. Inr (s, transport', q))))"

fun unique_rows :: "string list \<Rightarrow> dial_row list \<Rightarrow> dial_row list" where
  "unique_rows seen [] = []"
| "unique_rows seen (row # rows) =
     (if lower (fst row) \<in> set seen then unique_rows seen rows
      else row # unique_rows (lower (fst row) # seen) rows)"

definition raw_contact_rows :: "dial_entry \<Rightarrow> exn + dial_row list" where
  "raw_contact_rows entry =
     (case snd entry of
        Contacts raws \<Rightarrow> mapE contact_row raws
      | Not_A_List \<Rightarrow> Inl ValueError
      | No_Contacts \<Rightarrow>
          if re_sip_uri (fst entry) = [] then Inr []
          else
            bindE (parse_sip_uri (re_sip_uri (fst entry))) (\<lambda>parsed.
            bindE (uri_str parsed) (\<lambda>s. Inr [(s, contact_transport parsed, 1)])))"

definition row_rank :: "dial_row \<Rightarrow> real \<times> string" where
  "row_rank row = (- snd (snd row), fst row)"

definition contact_rows :: "dial_entry \<Rightarrow> exn + dial_row list" where
  "contact_rows entry =
     bindE (raw_contact_rows entry) (\<lambda>rows. Inr (sort_key row_rank (unique_rows [] rows)))"

section \<open>Targets\<close>

definition find_dial_entry :: "dial_entry list \<Rightarrow> string \<Rightarrow> dial_entry option" where
  "find_dial_entry entries target =
     find (\<lambda>(e, _). normalize_roster_key target \<in> set (entry_keys True e)) entries"

text \<open>\<open>metadata.get("endpoint_id") or entry.id\<close>.\<close>

definition dial_endpoint_id :: "roster_entry \<Rightarrow> string" where
  "dial_endpoint_id entry = strip (mstr (por (mget (re_metadata entry) ''endpoint_id'') (MStr (re_id entry))))"

text \<open>The position of each \<open>q\<close> value of a member among them, from the greatest.\<close>

definition q_tiers :: "dial_row list \<Rightarrow> (real \<times> nat) list" where
  "q_tiers rows = map (\<lambda>(i, q). (q, i)) (enumerate 0 (rev (sort (remdups (map (\<lambda>row. snd (snd row)) rows)))))"

definition q_tier :: "dial_row list \<Rightarrow> real \<Rightarrow> nat" where
  "q_tier rows q = the (assoc (q_tiers rows) q)"

definition member_targets ::
  "ring_policy \<Rightarrow> string \<Rightarrow> nat \<Rightarrow> string \<Rightarrow> dial_entry \<Rightarrow> exn + sip_contact_target list" where
  "member_targets policy excluded member_order member entry =
     (let endpoint_id = dial_endpoint_id (fst entry) in
      if excluded \<noteq> [] \<and> endpoint_id = excluded then Inr []
      else
        bindE (contact_rows entry) (\<lambda>rows.
          let base_tier = (case assoc (rp_member_tiers policy) (lower (strip member)) of Some t \<Rightarrow> t | None \<Rightarrow> 0) in
          Inr (map (\<lambda>(contact_order, (uri, transport, q)).
            \<lparr> st_candidate_id = endpoint_id @ '':contact:'' @ dec contact_order, st_endpoint_id = endpoint_id,
              st_member = member, st_uri = uri, st_transport = transport, st_q = q,
              st_tier = base_tier + int (q_tier rows q), st_order = member_order * 1000 + contact_order \<rparr>)
            (enumerate 0 rows))))"

fun targets_of ::
  "dial_entry list \<Rightarrow> ring_policy \<Rightarrow> string \<Rightarrow> nat \<Rightarrow> string list \<Rightarrow> exn + sip_contact_target list" where
  "targets_of entries policy excluded n [] = Inr []"
| "targets_of entries policy excluded n (member # members) =
     bindE (case find_dial_entry entries member of
              None \<Rightarrow> Inr []
            | Some entry \<Rightarrow>
                if \<not> re_enabled (fst entry) then Inr []
                else member_targets policy excluded n member entry) (\<lambda>ts.
     bindE (targets_of entries policy excluded (Suc n) members) (\<lambda>rest. Inr (ts @ rest)))"

definition build_sip_contact_targets ::
  "string list \<Rightarrow> dial_entry list \<Rightarrow> ring_policy \<Rightarrow> string \<Rightarrow> exn + sip_contact_target list" where
  "build_sip_contact_targets members entries policy exclude_endpoint_id =
     bindE (targets_of entries policy (strip exclude_endpoint_id) 0 members) (\<lambda>targets.
       if \<not> distinct (map st_candidate_id targets) then Inl ValueError
       else Inr (sort_key (\<lambda>t. (st_tier t, st_order t)) targets))"

section \<open>Preferred contacts come first\<close>

lemma assoc_index:
  assumes "distinct xs" "i < length xs"
  shows "assoc (map (\<lambda>(i, q). (q, i)) (enumerate n xs)) (xs ! i) = Some (n + i)"
  using assms
proof (induction xs arbitrary: n i)
  case (Cons x xs)
  then show ?case
    by (cases i) (auto simp: assoc_eq_map_of)
qed simp

lemma index_descends:
  fixes xs :: "real list"
  assumes xs: "sorted xs" "distinct xs" and "a \<in> set xs" "b \<in> set xs"
  shows "the (assoc (map (\<lambda>(i, q). (q, i)) (enumerate 0 (rev xs))) a) <
    the (assoc (map (\<lambda>(i, q). (q, i)) (enumerate 0 (rev xs))) b) \<longleftrightarrow> b < a"
proof -
  let ?at = "\<lambda>q. the (assoc (map (\<lambda>(i, q). (q, i)) (enumerate 0 (rev xs))) q)"
  obtain i j where i: "i < length xs" "a = xs ! i" and j: "j < length xs" "b = xs ! j"
    using assms(3,4) by (metis in_set_conv_nth)
  have tier: "?at (xs ! k) = length xs - Suc k" if "k < length xs" for k
  proof -
    have "rev xs ! (length xs - Suc k) = xs ! k"
      using that by (simp add: rev_nth)
    then show ?thesis
      using assoc_index [of "rev xs" "length xs - Suc k" 0] that xs(2) by simp
  qed
  have "sorted_wrt (<) xs"
    using xs strict_sorted_iff by blast
  then have less: "xs ! m < xs ! n \<longleftrightarrow> m < n" if "m < length xs" "n < length xs" for m n
    using sorted_wrt_nth_less [of "(<)" xs] that by (metis linorder_neqE_nat order_less_asym order_less_irrefl)
  have "?at a < ?at b \<longleftrightarrow> j < i"
    unfolding i(2) j(2) tier [OF i(1)] tier [OF j(1)] using i(1) j(1) by linarith
  then show ?thesis
    using less [OF j(1) i(1)] unfolding i(2) j(2) by blast
qed

lemma q_tier_less:
  assumes "q \<in> (\<lambda>row. snd (snd row)) ` set rows" "q' \<in> (\<lambda>row. snd (snd row)) ` set rows"
  shows "q_tier rows q < q_tier rows q' \<longleftrightarrow> q' < q"
  unfolding q_tier_def q_tiers_def
  by (rule index_descends) (use assms in auto)

lemma unique_rows_subset: "set (unique_rows seen rows) \<subseteq> set rows"
  by (induction seen rows rule: unique_rows.induct) auto

lemma unique_rows_distinct:
  "distinct (map (lower \<circ> fst) (unique_rows seen rows)) \<and>
   (\<forall>row \<in> set (unique_rows seen rows). lower (fst row) \<notin> set seen)"
proof (induction rows arbitrary: seen)
  case (Cons row rows)
  show ?case
  proof (cases "lower (fst row) \<in> set seen")
    case True
    then show ?thesis
      using Cons [of seen] by simp
  next
    case False
    have "lower (fst row) \<notin> (\<lambda>x. lower (fst x)) ` set (unique_rows (lower (fst row) # seen) rows)"
      using Cons [of "lower (fst row) # seen"] by (metis (no_types, lifting) image_iff list.set_intros(1))
    then show ?thesis
      using False Cons [of "lower (fst row) # seen"] by (simp add: comp_def)
  qed
qed simp

lemma contact_row_q:
  assumes "contact_row raw = Inr row"
  shows "0 \<le> snd (snd row) \<and> snd (snd row) \<le> 1 \<and> fst (snd row) \<in> {''udp'', ''tcp''}"
  using assms
  by (auto simp: contact_row_def Let_def bindE_def split: option.splits if_splits sum.splits)

lemma raw_contact_rows_q:
  assumes "raw_contact_rows entry = Inr rows" "row \<in> set rows"
  shows "0 \<le> snd (snd row) \<and> snd (snd row) \<le> 1"
proof (cases "snd entry")
  case (Contacts raws)
  then have "list_all2 (\<lambda>raw row. contact_row raw = Inr row) raws rows"
    using assms(1) by (simp add: raw_contact_rows_def mapE_Inr)
  then obtain raw where "contact_row raw = Inr row"
    using assms(2) by (auto simp: list_all2_conv_all_nth in_set_conv_nth)
  then show ?thesis
    using contact_row_q by blast
qed (use assms in \<open>auto simp: raw_contact_rows_def bindE_def split: if_splits sum.splits\<close>)

lemma contact_rows_q:
  assumes "contact_rows entry = Inr rows" "row \<in> set rows"
  shows "0 \<le> snd (snd row) \<and> snd (snd row) \<le> 1"
proof -
  obtain raws where "raw_contact_rows entry = Inr raws" "rows = sort_key row_rank (unique_rows [] raws)"
    using assms(1) by (auto simp: contact_rows_def bindE_def split: sum.splits)
  then show ?thesis
    using assms(2) unique_rows_subset raw_contact_rows_q by fastforce
qed

text \<open>One member's share of a plan: its targets are the rows of its entry, in tiers that follow \<open>q\<close>.\<close>

definition share ::
  "dial_entry list \<Rightarrow> string \<Rightarrow> sip_contact_target list \<Rightarrow> bool" where
  "share entries excluded ts \<longleftrightarrow>
     (\<exists>entry member rows base. find_dial_entry entries member = Some entry \<and> re_enabled (fst entry) \<and>
        contact_rows entry = Inr rows \<and> (excluded = [] \<or> dial_endpoint_id (fst entry) \<noteq> excluded) \<and>
        (ts \<noteq> [] \<longrightarrow> (\<exists>t \<in> set ts. st_candidate_id t = dial_endpoint_id (fst entry) @ '':contact:'' @ dec 0)) \<and>
        (\<forall>t \<in> set ts. st_member t = member \<and> st_endpoint_id t = dial_endpoint_id (fst entry) \<and>
           (st_uri t, st_transport t, st_q t) \<in> set rows \<and> st_tier t = base + int (q_tier rows (st_q t))))"

lemma member_targets_share:
  assumes "member_targets policy excluded n member entry = Inr ts"
    and "find_dial_entry entries member = Some entry" "re_enabled (fst entry)"
  shows "ts = [] \<or> share entries excluded ts"
proof (cases "excluded \<noteq> [] \<and> dial_endpoint_id (fst entry) = excluded")
  case True
  then show ?thesis
    using assms(1) by (simp add: member_targets_def Let_def)
next
  case False
  let ?base = "case assoc (rp_member_tiers policy) (lower (strip member)) of Some t \<Rightarrow> t | None \<Rightarrow> 0"
  let ?target = "\<lambda>rows (contact_order, (uri, transport, q)).
      \<lparr> st_candidate_id = dial_endpoint_id (fst entry) @ '':contact:'' @ dec contact_order,
        st_endpoint_id = dial_endpoint_id (fst entry), st_member = member, st_uri = uri,
        st_transport = transport, st_q = q, st_tier = ?base + int (q_tier rows q),
        st_order = n * 1000 + contact_order \<rparr>"
  obtain rows where rows: "contact_rows entry = Inr rows" "ts = map (?target rows) (enumerate 0 rows)"
    using assms(1) False by (auto simp: member_targets_def Let_def bindE_def split: sum.splits)
  have "\<exists>t \<in> set ts. st_candidate_id t = dial_endpoint_id (fst entry) @ '':contact:'' @ dec 0" if "ts \<noteq> []"
    using that rows(2) by (cases rows) (auto simp: split_def)
  moreover have "st_member t = member \<and> st_endpoint_id t = dial_endpoint_id (fst entry) \<and>
      (st_uri t, st_transport t, st_q t) \<in> set rows \<and> st_tier t = ?base + int (q_tier rows (st_q t))"
    if "t \<in> set ts" for t
    using that rows(2) by (auto simp: in_set_enumerate_eq) (metis nth_mem)
  ultimately show ?thesis
    using assms(2,3) rows(1) False unfolding share_def by blast
qed

lemma targets_of_shares:
  assumes "targets_of entries policy excluded n members = Inr ts"
  shows "\<exists>shares. ts = concat shares \<and> (\<forall>s \<in> set shares. share entries excluded s)"
  using assms
proof (induction members arbitrary: n ts)
  case Nil
  then show ?case
    by (auto intro: exI [of _ "[]"])
next
  case (Cons member members)
  obtain us vs where split: "ts = us @ vs" "targets_of entries policy excluded (Suc n) members = Inr vs"
    and us: "(case find_dial_entry entries member of
              None \<Rightarrow> Inr []
            | Some entry \<Rightarrow>
                if \<not> re_enabled (fst entry) then Inr []
                else member_targets policy excluded n member entry) = Inr us"
    using Cons.prems by (auto simp: bindE_def split: sum.splits)
  obtain shares where shares: "vs = concat shares" "\<forall>s \<in> set shares. share entries excluded s"
    using Cons.IH [OF split(2)] by blast
  have "us = [] \<or> share entries excluded us"
    using us member_targets_share by (auto split: option.splits if_splits)
  then show ?case
    using shares split(1) concat.simps(2) [of us shares] set_ConsD append_Nil by metis
qed

lemma distinct_shares:
  assumes "distinct (map st_candidate_id (concat shares))" "\<forall>s \<in> set shares. share entries excluded s"
    and "s \<in> set shares" "s' \<in> set shares" "t \<in> set s" "t' \<in> set s'" "st_endpoint_id t = st_endpoint_id t'"
  shows "s = s'"
proof (rule ccontr)
  assume "s \<noteq> s'"
  obtain u where u: "u \<in> set s" "st_candidate_id u = st_endpoint_id t @ '':contact:'' @ dec 0"
    using assms(2,3,5) unfolding share_def by (metis empty_iff list.set(1))
  obtain u' where u': "u' \<in> set s'" "st_candidate_id u' = st_endpoint_id t' @ '':contact:'' @ dec 0"
    using assms(2,4,6) unfolding share_def by (metis empty_iff list.set(1))
  obtain xs ys where "shares = xs @ s # ys"
    using assms(3) by (auto dest: split_list)
  moreover from this have "s' \<in> set xs \<or> s' \<in> set ys"
    using assms(4) \<open>s \<noteq> s'\<close> by auto
  ultimately show False
    using assms(1,7) u u' by (fastforce simp: image_iff)
qed

lemma dial_plan_follows_q:
  assumes "build_sip_contact_targets members entries policy exclude = Inr ts"
  shows "distinct (map st_candidate_id ts)" "sorted (map (\<lambda>t. (st_tier t, st_order t)) ts)"
    "\<And>t. t \<in> set ts \<Longrightarrow> 0 \<le> st_q t \<and> st_q t \<le> 1 \<and>
       (\<exists>entry. find_dial_entry entries (st_member t) = Some entry \<and> re_enabled (fst entry) \<and>
          st_endpoint_id t = dial_endpoint_id (fst entry) \<and> (strip exclude = [] \<or> st_endpoint_id t \<noteq> strip exclude))"
    "\<And>t t'. t \<in> set ts \<Longrightarrow> t' \<in> set ts \<Longrightarrow> st_endpoint_id t = st_endpoint_id t' \<Longrightarrow>
       st_tier t < st_tier t' \<longleftrightarrow> st_q t' < st_q t"
proof -
  obtain targets where targets: "targets_of entries policy (strip exclude) 0 members = Inr targets"
    and distinct: "distinct (map st_candidate_id targets)"
    and ts: "ts = sort_key (\<lambda>t. (st_tier t, st_order t)) targets"
    using assms by (auto simp: build_sip_contact_targets_def bindE_def split: sum.splits if_splits)
  obtain shares where shares: "targets = concat shares" "\<forall>s \<in> set shares. share entries (strip exclude) s"
    using targets_of_shares [OF targets] by blast
  have same: "mset (map st_candidate_id ts) = mset (map st_candidate_id targets)" "set ts = set targets"
    by (simp_all add: ts)
  show "distinct (map st_candidate_id ts)"
    using mset_eq_imp_distinct_iff [OF same(1)] distinct by simp
  show "sorted (map (\<lambda>t. (st_tier t, st_order t)) ts)"
    by (simp add: ts)
  show "0 \<le> st_q t \<and> st_q t \<le> 1 \<and>
       (\<exists>entry. find_dial_entry entries (st_member t) = Some entry \<and> re_enabled (fst entry) \<and>
          st_endpoint_id t = dial_endpoint_id (fst entry) \<and> (strip exclude = [] \<or> st_endpoint_id t \<noteq> strip exclude))"
    if t: "t \<in> set ts" for t
  proof -
    obtain s where "s \<in> set shares" "t \<in> set s"
      using t unfolding same(2) shares(1) by auto
    then show ?thesis
      using shares(2) contact_rows_q unfolding share_def by fastforce
  qed
  show "st_tier t < st_tier t' \<longleftrightarrow> st_q t' < st_q t"
    if t: "t \<in> set ts" "t' \<in> set ts" "st_endpoint_id t = st_endpoint_id t'" for t t'
  proof -
    obtain s s' where s: "s \<in> set shares" "t \<in> set s" "s' \<in> set shares" "t' \<in> set s'"
      using t(1,2) unfolding same(2) shares(1) by auto
    then have "s = s'"
      using distinct_shares [OF _ shares(2) s(1,3,2,4) t(3)] distinct shares(1) by simp
    then obtain rows base where
      "(st_uri t, st_transport t, st_q t) \<in> set rows" "st_tier t = base + int (q_tier rows (st_q t))"
      "(st_uri t', st_transport t', st_q t') \<in> set rows" "st_tier t' = base + int (q_tier rows (st_q t'))"
      using s shares(2) unfolding share_def by metis
    then show ?thesis
      using q_tier_less [of "st_q t" rows "st_q t'"] by (force simp: image_iff)
  qed
qed

section \<open>From the plan to the fork\<close>

text \<open>The candidate the runtime makes of a target.\<close>

definition fork_leg :: "sip_contact_target \<Rightarrow> dial_candidate" where
  "fork_leg t = \<lparr> dc_id = st_candidate_id t, dc_tier = st_tier t, dc_order = int (st_order t),
     dc_endpoint_id = st_endpoint_id t, dc_control = False \<rparr>"

text \<open>C10: A phone that has registered several contacts is rung at the one it prefers first: when the legs of a
  dial plan are rung in turn, two contacts of one endpoint are dialled in the order of their \<open>q\<close> values, and the
  later one only when the earlier one is closed.\<close>

theorem preferred_contact_rings_first:
  assumes "build_sip_contact_targets members entries policy exclude = Inr ts"
    and "new_fork session (map fork_leg ts) ''sequential'' [] overall step = Inr fc"
    and "wo_log w = []" "run_candidates fc (commit_by accepts) w = Some (r, w')"
    and "wo_log w' = earlier @ Dialled (fork_leg t') # later" "Dialled (fork_leg t) \<in> set earlier"
    and "t \<in> set ts" "t' \<in> set ts" "st_endpoint_id t = st_endpoint_id t'"
  shows "st_q t' \<le> st_q t \<and> (\<exists>mode. Closed_Leg mode (fork_leg t) \<in> set earlier)"
proof -
  have "fc_candidates fc = sort_key dial_order (map fork_leg ts)" "fc_strategy fc = SEQUENTIAL" "fc_tier_strategies fc = []"
    using new_fork_ok [OF assms(2)] by (auto simp: fork_strategy_of_def)
  then have "turns_end fc [] w'"
    using ensuresD [OF ensures_run_in_turn [of fc w accepts] assms(4)] assms(3) by simp
  then have turn: "rings_in_turn (wo_log w')" and order: "sorted (map dial_order (dials (wo_log w')))"
    by (simp_all add: turns_end_def)
  have "legs_left earlier = {}"
    using turn assms(5) by (auto simp: rings_in_turn_def)
  then have closed: "\<exists>mode. Closed_Leg mode (fork_leg t) \<in> set earlier"
    using assms(6) by (auto simp: legs_left_def dialled_legs_def closed_legs_def)
  have "fork_leg t \<in> set (dials earlier)"
    using assms(6) dialled_dials [of earlier] by (auto simp: dialled_legs_def)
  then have "dial_order (fork_leg t) \<le> dial_order (fork_leg t')"
    using order assms(5) by (auto simp: sorted_append)
  then have "\<not> st_tier t' < st_tier t"
    by (auto simp: dial_order_def fork_leg_def less_eq_prod_def)
  then have "\<not> st_q t < st_q t'"
    using dial_plan_follows_q(4) [OF assms(1,8,7)] assms(9) by simp
  then show ?thesis
    using closed by simp
qed

definition ex_desk :: dial_entry where
  "ex_desk = (\<lparr> re_id = ''desk'', re_name = ''Desk'', re_address = [], re_sip_uri = [], re_extension = [], re_number = [],
     re_port = 0, re_ha_bridge = False, re_enabled = True, re_metadata = [] \<rparr>,
     Contacts [Some \<lparr> sc_uri = ''sip:d@h1'', sc_transport = ''udp'', sc_q = 1 / 2 \<rparr>,
               Some \<lparr> sc_uri = ''sip:d@h2'', sc_transport = ''tcp'', sc_q = 1 \<rparr>])"

definition ex_policy :: ring_policy where
  "ex_policy = \<lparr> rp_strategy = SEQUENTIAL, rp_overall_timeout = 30, rp_step_timeout = 15, rp_member_tiers = [],
     rp_tier_strategies = [] \<rparr>"

definition ex_target :: "nat \<Rightarrow> string \<Rightarrow> string \<Rightarrow> string \<Rightarrow> real \<Rightarrow> sip_contact_target" where
  "ex_target n name uri transport q = \<lparr> st_candidate_id = name, st_endpoint_id = ''desk'', st_member = ''Desk'', st_uri = uri,
     st_transport = transport, st_q = q, st_tier = int n, st_order = n \<rparr>"

definition ex_targets :: "sip_contact_target list" where
  "ex_targets = [ex_target 0 ''desk:contact:0'' ''sip:d@h2'' ''tcp'' 1,
     ex_target 1 ''desk:contact:1'' ''sip:d@h1'' ''udp'' (1 / 2)]"

lemma ex_uris:
  "parse_sip_uri ''sip:d@h1'' = Inr \<lparr> uri_user = ''d'', uri_host = ''h1'', uri_port = None, uri_params = [] \<rparr>"
  "parse_sip_uri ''sip:d@h2'' = Inr \<lparr> uri_user = ''d'', uri_host = ''h2'', uri_port = None, uri_params = [] \<rparr>"
  "uri_str \<lparr> uri_user = ''d'', uri_host = ''h1'', uri_port = None, uri_params = [] \<rparr> = Inr ''sip:d@h1''"
  "uri_str \<lparr> uri_user = ''d'', uri_host = ''h2'', uri_port = None, uri_params = [] \<rparr> = Inr ''sip:d@h2''"
  "strip ''sip:d@h1'' = ''sip:d@h1''" "strip ''sip:d@h2'' = ''sip:d@h2''"
  "lower (strip ''udp'') = ''udp''" "lower (strip ''tcp'') = ''tcp''"
  "lower ''sip:d@h1'' = ''sip:d@h1''" "lower ''sip:d@h2'' = ''sip:d@h2''"
  by code_simp+

lemma ex_rows: "contact_rows ex_desk = Inr [(''sip:d@h2'', ''tcp'', 1), (''sip:d@h1'', ''udp'', 1 / 2)]"
  by (simp add: contact_rows_def raw_contact_rows_def ex_desk_def contact_row_def Let_def ex_uris row_rank_def
      less_eq_prod_def)

lemma ex_found: "find_dial_entry [ex_desk] ''Desk'' = Some ex_desk"
proof -
  have "normalize_roster_key ''Desk'' \<in> set (entry_keys True (fst ex_desk))"
    unfolding ex_desk_def fst_conv by code_simp
  then show ?thesis
    by (simp add: find_dial_entry_def split_def)
qed

lemma ex_plan: "build_sip_contact_targets [''Desk''] [ex_desk] ex_policy [] = Inr ex_targets"
proof -
  have id: "dial_endpoint_id (fst ex_desk) = ''desk''"
    unfolding ex_desk_def fst_conv by code_simp
  have strips: "strip [] = []"
    by code_simp
  have tiers: "q_tier [(''sip:d@h2'', ''tcp'', 1), (''sip:d@h1'', ''udp'', 1 / 2)] 1 = 0"
    "q_tier [(''sip:d@h2'', ''tcp'', 1), (''sip:d@h1'', ''udp'', 1 / 2)] (1 / 2) = 1"
    by (simp_all add: q_tier_def q_tiers_def assoc_eq_map_of)
  have enabled: "re_enabled (fst ex_desk)"
    by (simp add: ex_desk_def)
  have decs: "dec 0 = ''0''" "dec (Suc 0) = ''1''"
    by (simp_all add: dec.simps digit_char_def) code_simp+
  have "member_targets ex_policy [] 0 ''Desk'' ex_desk = Inr ex_targets"
    by (simp add: member_targets_def id ex_rows tiers ex_policy_def assoc_eq_map_of ex_targets_def ex_target_def decs Let_def)
  then show ?thesis
    by (simp add: build_sip_contact_targets_def strips ex_found enabled)
      (simp add: ex_targets_def ex_target_def less_eq_prod_def)
qed

definition ex_desk_fork :: fork_controller where
  "ex_desk_fork = ex_hunt\<lparr> fc_candidates := map fork_leg ex_targets \<rparr>"

definition ex_desk_world :: "(fork_moment, fork_event) world" where
  "ex_desk_world = \<lparr> wo_now = ex_moment 0 [] False, wo_later = map (\<lambda>t. ex_moment t [] False) [9, 15, 16, 17, 18, 30, 31, 32, 33, 34],
     wo_seen = [], wo_log = [] \<rparr>"

lemma ex_legs_of_plan:
  "map fork_leg ex_targets =
     [\<lparr> dc_id = ''desk:contact:0'', dc_tier = 0, dc_order = 0, dc_endpoint_id = ''desk'', dc_control = False \<rparr>,
      \<lparr> dc_id = ''desk:contact:1'', dc_tier = 1, dc_order = 1, dc_endpoint_id = ''desk'', dc_control = False \<rparr>]"
  by (simp add: ex_targets_def ex_target_def fork_leg_def)

theorem preferred_contact_rings_first_witness:
  "\<exists>r w' earlier later.
     run_candidates ex_desk_fork (commit_by (\<lambda>s _ _. live s)) ex_desk_world = Some (r, w') \<and>
     wo_log w' = earlier @ Dialled (fork_leg (ex_targets ! 1)) # later \<and>
     st_q (ex_targets ! 1) \<le> st_q (ex_targets ! 0) \<and> (\<exists>mode. Closed_Leg mode (fork_leg (ex_targets ! 0)) \<in> set earlier)"
proof -
  have new: "new_fork ex_session (map fork_leg ex_targets) ''sequential'' [] 30 15 = Inr ex_desk_fork"
    unfolding ex_desk_fork_def ex_legs_of_plan by code_simp
  have legs: "fork_leg (ex_targets ! 0) = map fork_leg ex_targets ! 0" "fork_leg (ex_targets ! 1) = map fork_leg ex_targets ! 1"
    by (simp_all add: ex_targets_def)
  have "map_option (\<lambda>(r, w'). take 5 (wo_log w')) (run_candidates ex_desk_fork (commit_by (\<lambda>s _ _. live s)) ex_desk_world) =
    Some [Dialled (map fork_leg ex_targets ! 0), Stop_Unfinished [map fork_leg ex_targets ! 0], Closed_Leg CANCEL_OR_BYE (map fork_leg ex_targets ! 0),
       Closed_Leg CLOSE (map fork_leg ex_targets ! 0), Dialled (map fork_leg ex_targets ! 1)]"
    unfolding ex_desk_fork_def ex_legs_of_plan by code_simp
  then obtain r w' where run: "run_candidates ex_desk_fork (commit_by (\<lambda>s _ _. live s)) ex_desk_world = Some (r, w')"
    and log: "take 5 (wo_log w') = [Dialled (map fork_leg ex_targets ! 0), Stop_Unfinished [map fork_leg ex_targets ! 0], Closed_Leg CANCEL_OR_BYE (map fork_leg ex_targets ! 0),
       Closed_Leg CLOSE (map fork_leg ex_targets ! 0), Dialled (map fork_leg ex_targets ! 1)]"
    by (auto simp: map_option_eq_Some)
  let ?earlier = "[Dialled (fork_leg (ex_targets ! 0)), Stop_Unfinished [fork_leg (ex_targets ! 0)], Closed_Leg CANCEL_OR_BYE (fork_leg (ex_targets ! 0)),
       Closed_Leg CLOSE (fork_leg (ex_targets ! 0))]"
  have split: "wo_log w' = ?earlier @ Dialled (fork_leg (ex_targets ! 1)) # drop 5 (wo_log w')"
    using log append_take_drop_id [of 5 "wo_log w'"] unfolding legs by (metis append_Cons append_Nil)
  have start: "wo_log ex_desk_world = []"
    by (simp add: ex_desk_world_def)
  have "st_q (ex_targets ! 1) \<le> st_q (ex_targets ! 0) \<and> (\<exists>mode. Closed_Leg mode (fork_leg (ex_targets ! 0)) \<in> set ?earlier)"
    by (rule preferred_contact_rings_first [OF ex_plan new start run split])
      (simp_all add: ex_targets_def ex_target_def)
  then show ?thesis
    using run split by blast
qed

end
