(* ===== verification/Spec2Isabelle.thy ===== *)
theory Spec2Isabelle
  imports Prelude G711 Rtp Call_State Sip_Uri Sip_Message Sip_Dialog Sip_Transaction Audio_Format Dtmf Roster Phone_Endpoint Endpoint_Registry Dial_Groups Router Pbx_Routing Endpoint_Session Pbx_Runtime Call_Generations Call_Claims Sdp_Video Sdp_Negotiation Video_View Registrar_State Dial_Plan
begin

text \<open>
  A verification development for the Home Assistant integration \<open>voip_stack\<close>
  (\<open>custom_components/voip_stack/\<close>): a small SIP PBX between softphones in the browser,
  ESPHome intercoms, registered SIP phones and a SIP trunk.

  \<^bold>\<open>The parts and how they interact.\<close>
  \<^item> Signalling text.  \<open>sip.py\<close> reads and writes messages; a dialog is recognised by
    \<open>sip_dialog.py\<close>; a request is retransmitted and answered by \<open>sip_transaction.py\<close>; the states and
    reasons both sides speak of are those of \<open>fsm.py\<close>.
  \<^item> Media text and packets.  \<open>sdp.py\<close> describes and negotiates audio and video, on the formats of
    \<open>audio_format.py\<close>; \<open>rtp.py\<close> packs the audio, \<open>g711.py\<close> compands it, \<open>dtmf.py\<close> carries key presses.
  \<^item> Video.  \<open>video_rtp.py\<close> packs and unpacks access units and orders packets, \<open>video_rtcp.py\<close> reports
    and asks for key frames, \<open>video_ws_view.py\<close> joins the two between a peer and a browser.
  \<^item> Who is called.  The phonebook (\<open>roster.py\<close>), the groups (\<open>groups.py\<close>) and the registered phones
    (\<open>phone_endpoint.py\<close>, \<open>endpoint_registry.py\<close>) are what \<open>router.py\<close>, \<open>endpoint_routing.py\<close> and
    \<open>pbx_routing.py\<close> resolve a target against.
  \<^item> Who is rung, and who wins.  \<open>dial_plan.py\<close> makes the legs of a call of the contacts of phones,
    \<open>dial_fork.py\<close> rings them at once or in turn and leaves one.
  \<^item> Who may register.  \<open>sip_registrar.py\<close> challenges phones with \<open>sip_auth.py\<close> and keeps their contacts,
    nonces and counts.
  \<^item> What a call is.  \<open>endpoint_session.py\<close> is one call with its legs and resources, \<open>pbx_runtime.py\<close>
    the calls and their shutdown, \<open>call_registry.py\<close> the same calls as the rest of the integration sees them:
    it observes and ends them through the runtime and claims phones in the endpoint registry.

  \<^bold>\<open>Theories.\<close>
  \<^item> \<open>Prelude\<close>: errors as sums with \<open>bindE\<close>, text as lists of bytes with the string methods of Python,
    decimal and hexadecimal numbers, percent encoding, tokens and lines.
  \<^item> \<open>Sip_Uri\<close>, \<open>Sip_Message\<close> (\<open>sip.py\<close>), \<open>Sip_Dialog\<close>, \<open>Sip_Transaction\<close>, \<open>Call_State\<close> (\<open>fsm.py\<close>):
    one definition per function of the module.  The lemmas lead to the round trips of requests and responses, to
    the safety of what is parsed, to the routing of requests in a dialog, and to the termination of both
    transactions under any environment.
  \<^item> \<open>Audio_Format\<close>, \<open>G711\<close>, \<open>Rtp\<close>, \<open>Dtmf\<close>: the modules of these names.  Samples and headers are words of
    their width or integers with the wrap-around written out; the 256 byte values of a G.711 law are checked
    exhaustively by evaluation in the kernel.
  \<^item> \<open>Sdp_Format\<close>, \<open>Sdp_H264\<close>, \<open>Sdp_Audio\<close>, \<open>Sdp_Parse\<close>, \<open>Sdp_Video\<close>, \<open>Sdp_Build\<close>: the parts of \<open>sdp.py\<close>, in
    the order of their dependence.  The two readers are folds over lines with the local variables as a record.
    \<open>Sdp_Roundtrip\<close> shows that an offer is read back; \<open>Sdp_Negotiation\<close> what a negotiation can result in.
  \<^item> \<open>Video_Rtp\<close>, \<open>H264_Rtp\<close>, \<open>Vp8_Rtp\<close>, \<open>Jpeg_Rtp\<close>: the classes and functions of \<open>video_rtp.py\<close>;
    \<open>Video_Rtcp\<close>: \<open>video_rtcp.py\<close>.  What \<open>Jpeg_Rtp\<close> rebuilds is read by a reader of JFIF files of its own, which knows
    nothing of the writer.  \<open>Video_Reorder\<close> holds the specification of the reorder window, the same
    buffer over unbounded numbers, and shows that the code refines it; \<open>H264_Roundtrip\<close> takes access units
    through packetizer, window and depacketizer.  \<open>Video_View\<close>: the receiving side of \<open>video_ws_view.py\<close>, with
    the gate that waits for a key frame after a loss.
  \<^item> \<open>Roster\<close>, \<open>Phone_Endpoint\<close>, \<open>Endpoint_Registry\<close>, \<open>Dial_Groups\<close>, \<open>Router\<close>, \<open>Pbx_Routing\<close>: records for
    entries and endpoints, association lists for dictionaries.  The registry is the dictionary of endpoints with
    its index of keys; its invariant is proved for every reachable registry by rule induction.
  \<^item> \<open>Sip_Auth\<close>, \<open>Sip_Registrar\<close>: the two modules, the digest (MD5 or SHA) a parameter.
    \<open>Registrar_Bindings\<close> relates the contact lists to a location service, a finite set of bindings per
    account; \<open>Registrar_Nonces\<close> is the memory of nonces and counts; \<open>Registrar_State\<close> takes both through every
    sequence of requests and edits of accounts.
  \<^item> \<open>Async\<close>: coroutines over a script of what a task sees moment by moment, with weakest preconditions.  A wait
    passes over the moments until what it waits for has come, its time limit is reached or the task is cancelled, which
    may be at every moment; a shielded wait or a \<open>gather\<close> goes on until what it waits for has ended.  \<open>Dial_Fork\<close> is
    \<open>dial_fork.py\<close> in these terms; \<open>Fork_Legs\<close> shows what a fork does with its legs, \<open>Fork_Control\<close> the same with
    the task of the branches beside it.  \<open>Async_Ends\<close> is the theory of how many moments past a deadline a coroutine
    needs to end, \<open>Fork_Progress\<close> and \<open>Fork_Deadline\<close> apply it to the branches and to the whole fork, and \<open>Fork_Spec\<close>
    is what a fork promises.  \<open>Dial_Plan\<close>: \<open>dial_plan.py\<close>, and its plans handed to a fork.
  \<^item> \<open>Endpoint_Session\<close>, \<open>Pbx_Runtime\<close>, \<open>Call_Registry\<close>: the classes \<open>EndpointCallSession\<close>,
    \<open>SipEndpointRuntime\<close> and \<open>CallRegistry\<close> as records, one function per method, errors as the first component
    of a sum.  \<open>Call_Memory\<close>, \<open>Call_Generations\<close> and \<open>Call_Claims\<close> hold what is proved of the registry: its
    bounded memories, the fence that keeps a late task of an ended call out, and the phones it claims.  The task that
    tears a session down is one step, shown to be the steps of its closers one after the other; between the steps of a
    shutdown any other operation of the runtime may come, until the components are stopped.

  \<^bold>\<open>Interfaces.\<close>  The call registry relies on the endpoint registry to hold and release phones: the laws of
  that interface are the locale \<open>call_claims\<close>, interpreted on the endpoint registry in \<open>Endpoint_Registry\<close> and
  used by \<open>Call_Claims\<close>.  The video view relies on a depacketizer to give back the unit a train of packets
  carries: that interface is the locale \<open>frame_receiver\<close> of \<open>Media_Path\<close>, where a shuffled train is put in order
  once for every codec; the H.264 and the VP8 depacketizer are its two interpretations.  That a coroutine ends rests on
  what its script still holds: the laws of such a measure are the locale \<open>script_measure\<close> of \<open>Async_Ends\<close>, interpreted
  in \<open>Fork_Progress\<close> on the moments past a deadline and in \<open>Fork_Deadline\<close> on those of the two tasks of a fork.

  \<^bold>\<open>Loops, bounds and fuel.\<close>  Loops over lists are structural recursion or folds.  The loops of the transactions
  consume a list of environment events and stop at a deadline; the bound on their rounds is part of the theorem.
  The search for a free payload type is a \<open>function\<close> with a measure: the used types not below the candidate.
  The loop of the reorder window ends because it either hands a packet over or moves on to one that waits.
  A coroutine uses up some of its script at each wait and is still waiting (\<open>None\<close>) when none is left; that a fork
  ends is shown for every script with enough settled moments past its deadline: five for each candidate and eight more,
  since it makes no more waits than that after the deadline, and each is over at the first such moment.  The readers of
  JFIF files have as much fuel as the file has bytes, that of the Huffman tables room for the four there can be.  No definition of the code needs fuel that can run out.

  \<^bold>\<open>What stands for the environment.\<close>  In the records of sessions and registries asyncio tasks
  are handles, and waiting is the order of the steps; callbacks
  that close a resource are parameters, as are clocks, random identifiers and the readers of sockets.  Clocks
  are integers of ticks, real numbers where the code multiplies seconds by a clock rate.  Text is ASCII;
  \<open>int(text)\<close> has the limit of 4300 digits of the interpreter.

  \<^bold>\<open>Not modelled.\<close>  The listener, client and trunk of SIP and \<open>endpoint_runtime.py\<close> drive sockets,
  timers and Home Assistant services with the modelled modules, and have little text or arithmetic of their own;
  the views, the websocket commands, entities, the config flow, the voice assistant bridge and the transcoder are
  glue to Home Assistant, browsers and FFmpeg.  The ESPHome components are C++, the cards JavaScript, the packages
  YAML; tests, tools and documents are no part of the running program.  The manifest lists each with its reason.
\<close>

section \<open>What the other side makes of a failure response\<close>

lemma peer_reads_code:
  "sip_public_state (sip_failure_reason 486) = cs_value call_state.BUSY"
  "sip_public_state (sip_failure_reason 603) = cs_value call_state.DECLINED"
  "sip_public_state (sip_failure_reason 487) = cs_value call_state.CANCELLED"
  "sip_public_state (sip_failure_reason 488) = cs_value call_state.MEDIA_INCOMPATIBLE"
  "sip_public_state (sip_failure_reason 408) = cs_value call_state.TRANSPORT_UNREACHABLE"
  "sip_public_state (sip_failure_reason 480) = cs_value call_state.TRANSPORT_UNREACHABLE"
  by code_simp+

text \<open>A call outcome survives the way to the caller: the public state that the other side derives
  from the status code of the failure response is the state the response was made from, for every busy,
  declined, cancelled or media-incompatible outcome; do-not-disturb is reported as busy, and every other
  outcome as unreachable.\<close>

lemma failure_outcome_survives:
  "case sip_failure_response result of (code, phrase, reason, public) \<Rightarrow>
     code \<in> {408, 480, 486, 487, 488, 603} \<and> public = sip_public_state result \<and>
     sip_public_state (sip_failure_reason (int code)) =
       (if reason = ''dnd'' then cs_value call_state.BUSY
        else if public \<in> {cs_value call_state.BUSY, cs_value call_state.DECLINED, cs_value call_state.CANCELLED, cs_value call_state.MEDIA_INCOMPATIBLE}
          then public
        else cs_value call_state.TRANSPORT_UNREACHABLE)"
  by (simp add: sip_failure_response_def Let_def peer_reads_code del: cs_value.simps)
end
